(* ===== verification/Prelude.thy ===== *)
theory Prelude
  imports Main "HOL-Library.Word" "HOL-Library.Monad_Syntax"
begin

unbundle bit_operations_syntax

text \<open>
  Shared vocabulary of the development.

  \<^item> Machine integers. Bytes are \<open>8 word\<close>. The unsigned 8, 16 and 32 bit integers of the
    kernel are natural numbers whose wrap-around is written out with \<open>u8\<close>, \<open>u16\<close>, \<open>u32\<close>,
    \<open>add32\<close>, \<open>sub32\<close> and \<open>mul32\<close>; \<open>s32\<close> reads a 32 bit pattern as a signed integer.
  \<^item> Stopping. The kernel's \<open>ASSERT\<close> macro (\<open>lib/kernel/debug.h\<close>) calls \<open>panic_spin\<close>, which
    never returns. A computation that may stop there, or that would touch memory outside the
    object it works on, has an \<open>option\<close> type and is \<open>None\<close> in that case; \<open>ensure\<close> is the
    assertion. Error codes the C functions return stay ordinary values.
  \<^item> Byte buffers. \<open>sub_bytes\<close> and \<open>put_bytes\<close> are the reads and writes of a byte range of a
    buffer, \<open>le32\<close> and \<open>rd32\<close> the memory layout of a 32 bit integer.
\<close>

section \<open>Machine integers\<close>

type_synonym byte = "8 word"

definition u8 :: "nat \<Rightarrow> nat" where
  "u8 n = n mod 256"

definition u16 :: "nat \<Rightarrow> nat" where
  "u16 n = n mod 65536"

definition u32 :: "nat \<Rightarrow> nat" where
  "u32 n = n mod 4294967296"

definition add32 :: "nat \<Rightarrow> nat \<Rightarrow> nat" where
  "add32 a b = u32 (a + b)"

definition sub32 :: "nat \<Rightarrow> nat \<Rightarrow> nat" where
  "sub32 a b = u32 (a + (4294967296 - u32 b))"

definition mul32 :: "nat \<Rightarrow> nat \<Rightarrow> nat" where
  "mul32 a b = u32 (a * b)"

definition s32 :: "nat \<Rightarrow> int" where
  "s32 n = (if u32 n < 2147483648 then int (u32 n) else int (u32 n) - 4294967296)"

text \<open>The unsigned reading of a C \<open>int\<close>.\<close>

definition of_s32 :: "int \<Rightarrow> nat" where
  "of_s32 i = nat (i mod 4294967296)"

text \<open>\<open>DIV_ROUND_UP\<close> of \<open>lib/kernel/stdint.h\<close>, computed in 32 bits.\<close>

definition DIV_ROUND_UP :: "nat \<Rightarrow> nat \<Rightarrow> nat" where
  "DIV_ROUND_UP x step = sub32 (add32 x step) 1 div step"

lemma u8_small [simp]: "n < 256 \<Longrightarrow> u8 n = n"
  by (simp add: u8_def)

lemma u8_less [simp]: "u8 n < 256"
  by (simp add: u8_def)

lemma u32_small [simp]: "n < 4294967296 \<Longrightarrow> u32 n = n"
  by (simp add: u32_def)

lemma u32_less [simp]: "u32 n < 4294967296"
  by (simp add: u32_def)

lemma add32_small: "a + b < 4294967296 \<Longrightarrow> add32 a b = a + b"
  by (simp add: add32_def)

lemma mul32_small: "a * b < 4294967296 \<Longrightarrow> mul32 a b = a * b"
  by (simp add: mul32_def)

lemma sub32_small: "b \<le> a \<Longrightarrow> a < 4294967296 \<Longrightarrow> sub32 a b = a - b"
proof -
  assume "b \<le> a" and "a < 4294967296"
  then have "a + (4294967296 - u32 b) = (a - b) + 4294967296" by simp
  with \<open>a < 4294967296\<close> show ?thesis by (simp add: sub32_def u32_def)
qed

lemma sub32_less [simp]: "sub32 a b < 4294967296"
  by (simp add: sub32_def)

lemma add32_less [simp]: "add32 a b < 4294967296"
  by (simp add: add32_def)

lemma s32_small [simp]: "n < 2147483648 \<Longrightarrow> s32 n = int n"
  by (simp add: s32_def)

lemma of_s32_small [simp]: "0 \<le> i \<Longrightarrow> i < 4294967296 \<Longrightarrow> of_s32 i = nat i"
  by (simp add: of_s32_def)

lemma DIV_ROUND_UP_ceiling:
  assumes "0 < step" and "x + step < 4294967296"
  shows "DIV_ROUND_UP x step = (x + step - 1) div step"
  using assms by (simp add: DIV_ROUND_UP_def add32_small sub32_small)

lemma DIV_ROUND_UP_covers:
  assumes "0 < step" and "x + step < 4294967296"
  shows "x \<le> DIV_ROUND_UP x step * step" and "DIV_ROUND_UP x step * step < x + step"
proof -
  have q: "DIV_ROUND_UP x step = (x + step - 1) div step"
    using assms by (rule DIV_ROUND_UP_ceiling)
  have d: "(x + step - 1) div step * step + (x + step - 1) mod step = x + step - 1"
    by (rule div_mult_mod_eq)
  have "(x + step - 1) mod step < step" using assms(1) by simp
  with d show "x \<le> DIV_ROUND_UP x step * step" unfolding q using assms(1) by linarith
  from d show "DIV_ROUND_UP x step * step < x + step" unfolding q using assms(1) by linarith
qed

section \<open>Stopping computations\<close>

named_theorems runs_iff \<open>when a computation returns, and with what\<close>

definition ensure :: "bool \<Rightarrow> unit option" where
  "ensure b = (if b then Some () else None)"

lemma ensure_simps [simp]: "ensure True = Some ()" "ensure False = None"
  by (simp_all add: ensure_def)

lemma ensure_iff [runs_iff]: "ensure b = Some u \<longleftrightarrow> b"
  by (simp add: ensure_def)

lemma bind_iff [runs_iff]:
  "Option.bind m f = Some y \<longleftrightarrow> (\<exists>x. m = Some x \<and> f x = Some y)"
  by (cases m) auto

text \<open>
  \<open>post P m\<close>: whatever \<open>m\<close> returns satisfies \<open>P\<close>. The rules \<open>post_intros\<close> follow the
  program text.
\<close>

definition post :: "('a \<Rightarrow> bool) \<Rightarrow> 'a option \<Rightarrow> bool" where
  "post P m \<longleftrightarrow> (\<forall>x. m = Some x \<longrightarrow> P x)"

named_theorems post_intros \<open>rules for \<open>post\<close> along the program text\<close>

lemma post_Some [simp]: "post P (Some x) = P x"
  by (simp add: post_def)

lemma post_None [simp]: "post P None"
  by (simp add: post_def)

lemma post_bind [post_intros]:
  "post Q m \<Longrightarrow> (\<And>x. Q x \<Longrightarrow> post P (f x)) \<Longrightarrow> post P (Option.bind m f)"
  by (auto simp: post_def bind_iff)

lemma post_bind_any:
  "(\<And>x. m = Some x \<Longrightarrow> post P (f x)) \<Longrightarrow> post P (Option.bind m f)"
  by (auto simp: post_def bind_iff)

lemma post_ensure [post_intros]:
  "(b \<Longrightarrow> post P (f ())) \<Longrightarrow> post P (Option.bind (ensure b) f)"
  by (auto simp: post_def bind_iff ensure_iff)

lemma post_if [post_intros]:
  "(b \<Longrightarrow> post P m) \<Longrightarrow> (\<not> b \<Longrightarrow> post P n) \<Longrightarrow> post P (if b then m else n)"
  by simp

lemma postD: "post P m \<Longrightarrow> m = Some x \<Longrightarrow> P x"
  by (simp add: post_def)

lemma postI: "(\<And>x. m = Some x \<Longrightarrow> P x) \<Longrightarrow> post P m"
  by (simp add: post_def)

lemma post_weaken: "post P m \<Longrightarrow> (\<And>x. P x \<Longrightarrow> Q x) \<Longrightarrow> post Q m"
  by (auto simp: post_def)

text \<open>Array accesses: outside the array the access is not defined.\<close>

definition rd_at :: "'a list \<Rightarrow> nat \<Rightarrow> 'a option" where
  "rd_at xs i = (if i < length xs then Some (xs ! i) else None)"

definition wr_at :: "'a list \<Rightarrow> nat \<Rightarrow> 'a \<Rightarrow> 'a list option" where
  "wr_at xs i v = (if i < length xs then Some (xs[i := v]) else None)"

lemma rd_at_in [simp]: "i < length xs \<Longrightarrow> rd_at xs i = Some (xs ! i)"
  by (simp add: rd_at_def)

lemma wr_at_in [simp]: "i < length xs \<Longrightarrow> wr_at xs i v = Some (xs[i := v])"
  by (simp add: wr_at_def)

lemma rd_at_iff [runs_iff]: "rd_at xs i = Some v \<longleftrightarrow> i < length xs \<and> v = xs ! i"
  by (auto simp: rd_at_def)

lemma wr_at_iff [runs_iff]: "wr_at xs i v = Some ys \<longleftrightarrow> i < length xs \<and> ys = xs[i := v]"
  by (auto simp: wr_at_def)

section \<open>Byte buffers\<close>

definition sub_bytes :: "nat \<Rightarrow> nat \<Rightarrow> 'a list \<Rightarrow> 'a list" where
  "sub_bytes off n xs = take n (drop off xs)"

definition put_bytes :: "nat \<Rightarrow> 'a list \<Rightarrow> 'a list \<Rightarrow> 'a list" where
  "put_bytes off ys xs = take off xs @ ys @ drop (off + length ys) xs"

lemma length_sub_bytes [simp]: "length (sub_bytes off n xs) = min n (length xs - off)"
  by (simp add: sub_bytes_def)

lemma length_put_bytes: "off + length ys \<le> length xs \<Longrightarrow> length (put_bytes off ys xs) = length xs"
  by (simp add: put_bytes_def)

lemma nth_sub_bytes: "i < n \<Longrightarrow> off + n \<le> length xs \<Longrightarrow> sub_bytes off n xs ! i = xs ! (off + i)"
  by (simp add: sub_bytes_def)

lemma nth_put_bytes:
  assumes "off + length ys \<le> length xs" and "i < length xs"
  shows "put_bytes off ys xs ! i =
    (if off \<le> i \<and> i < off + length ys then ys ! (i - off) else xs ! i)"
  using assms by (auto simp: put_bytes_def nth_append min_def)

lemma sub_put_bytes_same:
  assumes "off + length ys \<le> length xs" and "n = length ys"
  shows "sub_bytes off n (put_bytes off ys xs) = ys"
  using assms by (simp add: sub_bytes_def put_bytes_def)

lemma sub_put_bytes_apart:
  assumes "off + length ys \<le> length xs" and "off' + n \<le> length xs"
    and "off' + n \<le> off \<or> off + length ys \<le> off'"
  shows "sub_bytes off' n (put_bytes off ys xs) = sub_bytes off' n xs"
proof (rule nth_equalityI)
  show "length (sub_bytes off' n (put_bytes off ys xs)) = length (sub_bytes off' n xs)"
    using assms by (simp add: length_put_bytes)
next
  fix i assume "i < length (sub_bytes off' n (put_bytes off ys xs))"
  then have i: "i < n" using assms by (simp add: length_put_bytes)
  then have "sub_bytes off' n (put_bytes off ys xs) ! i = put_bytes off ys xs ! (off' + i)"
    using assms by (simp add: nth_sub_bytes length_put_bytes)
  also have "\<dots> = xs ! (off' + i)"
    using assms i by (auto simp: nth_put_bytes)
  finally show "sub_bytes off' n (put_bytes off ys xs) ! i = sub_bytes off' n xs ! i"
    using assms i by (simp add: nth_sub_bytes)
qed

lemma take_put_bytes:
  assumes "off + length ys \<le> length xs" and "n = off + length ys"
  shows "take n (put_bytes off ys xs) = take off xs @ ys"
  using assms by (simp add: put_bytes_def)

lemma put_bytes_nil [simp]: "put_bytes off [] xs = xs"
  by (simp add: put_bytes_def)

text \<open>A 32 bit integer in memory: four bytes, the low one first.\<close>

definition le32 :: "nat \<Rightarrow> byte list" where
  "le32 n = [of_nat n, of_nat (n div 256), of_nat (n div 65536), of_nat (n div 16777216)]"

definition rd32 :: "byte list \<Rightarrow> nat \<Rightarrow> nat" where
  "rd32 bs off = (let b = (\<lambda>k. unat (bs ! (off + k)))
     in b 0 + 256 * b 1 + 65536 * b 2 + 16777216 * b 3)"

lemma length_le32 [simp]: "length (le32 n) = 4"
  by (simp add: le32_def)

lemma unat_byte_of_nat: "unat (of_nat n :: byte) = n mod 256"
  by (simp add: unat_of_nat)

lemma byte_digits:
  "n mod 256 + 256 * (n div 256 mod 256) + 65536 * (n div 65536 mod 256)
    + 16777216 * (n div 16777216 mod 256) = (n::nat) mod 4294967296"
proof -
  have "n mod (256 * 256) = 256 * (n div 256 mod 256) + n mod 256"
    by (rule mod_mult2_eq)
  moreover have "n mod (65536 * 256) = 65536 * (n div 65536 mod 256) + n mod 65536"
    by (rule mod_mult2_eq)
  moreover have "n mod (16777216 * 256) = 16777216 * (n div 16777216 mod 256) + n mod 16777216"
    by (rule mod_mult2_eq)
  ultimately show ?thesis by simp
qed

lemma rd32_le32_append: "rd32 (xs @ le32 n @ ys) (length xs) = u32 n"
proof -
  have "rd32 (xs @ le32 n @ ys) (length xs) =
      unat (le32 n ! 0) + 256 * unat (le32 n ! 1) + 65536 * unat (le32 n ! 2)
      + 16777216 * unat (le32 n ! 3)"
    by (simp add: rd32_def Let_def nth_append)
  also have "\<dots> = n mod 4294967296"
    by (simp add: le32_def unat_byte_of_nat byte_digits numeral_2_eq_2 numeral_3_eq_3)
  finally show ?thesis by (simp add: u32_def)
qed

end
