(* ===== verification/Bitmap.thy ===== *)
theory Bitmap
  imports Prelude
begin

text \<open>
  \<open>kernel/bitmap.c\<close>: the bitmaps behind the physical and virtual page pools, the pid pool
  and the block and inode maps of a partition. A \<open>BitMap\<close> is its byte length and the bytes
  its pointer designates; an access beyond those bytes is \<open>None\<close>.

  The first part translates the functions. The second gives the interface the allocators
  of the kernel rely on (locale \<open>bit_store\<close>), proves their shared lemmas inside it and
  interprets it on the translated functions. The third characterises \<open>bitMap_scan\<close>
  against a reference search over runs of free bits: the search is first fit, but its
  result passes through an 8 bit variable, and a failed search is reported as 255.
\<close>

section \<open>The functions\<close>

record BitMap =
  bitmap_byte_len :: nat
  bits :: "byte list"

text \<open>\<open>BITMAP_MASK << bit_offset\<close>, an \<open>int\<close> applied to a byte: only the low 8 bits matter.\<close>

definition BITMAP_MASK :: byte where
  "BITMAP_MASK = 1"

definition bitmap_init :: "BitMap \<Rightarrow> BitMap option" where
  "bitmap_init bm =
     (if bitmap_byte_len bm \<le> length (bits bm)
      then Some (bm\<lparr>bits := replicate (bitmap_byte_len bm) 0 @ drop (bitmap_byte_len bm) (bits bm)\<rparr>)
      else None)"

definition bitMap_scan_test :: "BitMap \<Rightarrow> nat \<Rightarrow> nat option" where
  "bitMap_scan_test bm bit_offset = do {
     let byte_offset = bit_offset div 8;
     let bit_offset = bit_offset mod 8;
     b \<leftarrow> rd_at (bits bm) byte_offset;
     Some (unat (drop_bit bit_offset (b AND push_bit bit_offset BITMAP_MASK)))
   }"

text \<open>
  The first loop of \<open>bitMap_scan\<close>. The source tests the byte before the bound, so its last
  test may read the byte after the map; that value is not used, and the test is written
  here with the bound first.
\<close>

function skip_full_bytes :: "BitMap \<Rightarrow> nat \<Rightarrow> nat" where
  "skip_full_bytes bm byte_idx =
     (if byte_idx < bitmap_byte_len bm \<and> bits bm ! byte_idx = 0xFF
      then skip_full_bytes bm (byte_idx + 1) else byte_idx)"
  by pat_completeness auto
termination
  by (relation "measure (\<lambda>(bm, byte_idx). bitmap_byte_len bm - byte_idx)") auto

text \<open>
  The second loop. \<open>bit_idx\<close>, \<open>leisure_cnt\<close> and \<open>bit_offset\<close> are \<open>uint8_t\<close>: the index found
  and the count of free bits wrap at 256, and the initial \<open>bit_idx = -1\<close> is 255.
  \<open>bit_offset\<close> stays between 0 and 7, so the source's test \<open>== 8\<close> is the test \<open>8 \<le> _\<close>.
\<close>

function scan_bits :: "BitMap \<Rightarrow> nat \<Rightarrow> nat \<Rightarrow> nat \<Rightarrow> nat \<Rightarrow> nat" where
  "scan_bits bm cnt byte_idx bit_offset leisure_cnt =
     (if byte_idx < bitmap_byte_len bm then
        let flag = (bits bm ! byte_idx AND push_bit bit_offset BITMAP_MASK \<noteq> 0) in
        if leisure_cnt = cnt then u8 (sub32 (byte_idx * 8 + bit_offset) cnt)
        else
          let leisure_cnt = (if flag then 0 else u8 (leisure_cnt + 1));
              bit_offset = bit_offset + 1 in
          if 8 \<le> bit_offset then scan_bits bm cnt (byte_idx + 1) 0 leisure_cnt
          else scan_bits bm cnt byte_idx bit_offset leisure_cnt
      else 255)"
  by pat_completeness auto
termination
  by (relation "measures [\<lambda>(bm, _, byte_idx, _). bitmap_byte_len bm - byte_idx,
        \<lambda>(_, _, _, bit_offset, _). 8 - bit_offset]") auto

declare skip_full_bytes.simps [simp del] scan_bits.simps [simp del]

definition bitMap_scan :: "BitMap \<Rightarrow> nat \<Rightarrow> int" where
  "bitMap_scan bm cnt = int (scan_bits bm cnt (skip_full_bytes bm 0) 0 0)"

definition bitmap_set :: "BitMap \<Rightarrow> nat \<Rightarrow> byte \<Rightarrow> BitMap option" where
  "bitmap_set bm bit_offset value = do {
     let byte_offset = bit_offset div 8;
     let bit_offset = bit_offset mod 8;
     b \<leftarrow> rd_at (bits bm) byte_offset;
     let b = (if value = 0 then b AND NOT (push_bit bit_offset BITMAP_MASK)
              else b OR push_bit bit_offset value);
     bs \<leftarrow> wr_at (bits bm) byte_offset b;
     Some (bm\<lparr>bits := bs\<rparr>)
   }"

fun bitmap_setEx :: "BitMap \<Rightarrow> nat \<Rightarrow> byte \<Rightarrow> nat \<Rightarrow> BitMap option" where
  "bitmap_setEx bm bit_offset value 0 = Some bm"
| "bitmap_setEx bm bit_offset value (Suc bit_cnt) = do {
     bm \<leftarrow> bitmap_set bm bit_offset value;
     bitmap_setEx bm (bit_offset + 1) value bit_cnt
   }"

text \<open>\<open>bitmap_isempty\<close> returns \<open>true\<close>, which is 1, for an empty map, else the offset of a byte.\<close>

function isempty_from :: "BitMap \<Rightarrow> nat \<Rightarrow> nat" where
  "isempty_from bm len =
     (if len < bitmap_byte_len bm then
        (if bits bm ! len \<noteq> 0 then len else isempty_from bm (len + 1))
      else 1)"
  by pat_completeness auto
termination
  by (relation "measure (\<lambda>(bm, len). bitmap_byte_len bm - len)") auto

declare isempty_from.simps [simp del]

definition bitmap_isempty :: "BitMap \<Rightarrow> nat" where
  "bitmap_isempty bm = isempty_from bm 0"

section \<open>Bits\<close>

text \<open>
  A well-formed map owns the bytes it claims and fits in 32 bit bit offsets. \<open>bmbit\<close> is
  the abstract content: whether bit \<open>i\<close> is set.
\<close>

definition bm_wf :: "BitMap \<Rightarrow> bool" where
  "bm_wf bm \<longleftrightarrow> length (bits bm) = bitmap_byte_len bm \<and> bitmap_byte_len bm < 536870912"

definition bm_size :: "BitMap \<Rightarrow> nat" where
  "bm_size bm = 8 * bitmap_byte_len bm"

definition bmbit :: "BitMap \<Rightarrow> nat \<Rightarrow> bool" where
  "bmbit bm i = bit (bits bm ! (i div 8)) (i mod 8)"

lemma byte_index: "bm_wf bm \<Longrightarrow> i < bm_size bm \<Longrightarrow> i div 8 < length (bits bm)"
  by (simp add: bm_wf_def bm_size_def)

lemma mask_bit: "k < 8 \<Longrightarrow> (b AND push_bit k BITMAP_MASK \<noteq> 0) = bit (b::byte) k"
  by (simp add: BITMAP_MASK_def push_bit_of_1 and_exp_eq_0_iff_not_bit)

lemma masked_drop:
  "k < 8 \<Longrightarrow> drop_bit k (b AND push_bit k BITMAP_MASK) = (of_bool (bit (b::byte) k))"
  by (rule bit_word_eqI)
     (auto simp: BITMAP_MASK_def bit_drop_bit_eq bit_and_iff bit_exp_iff bit_1_iff
        bit_of_bool_iff)

lemma clear_byte_bit:
  "k < 8 \<Longrightarrow> j < 8 \<Longrightarrow>
   bit ((b::byte) AND NOT (push_bit k BITMAP_MASK)) j = (bit b j \<and> j \<noteq> k)"
  by (auto simp: BITMAP_MASK_def bit_and_iff bit_not_iff bit_exp_iff)

lemma set_byte_bit:
  "k < 8 \<Longrightarrow> j < 8 \<Longrightarrow> bit ((b::byte) OR 2 ^ k) j = (bit b j \<or> j = k)"
  by (auto simp: bit_or_iff bit_exp_iff)

lemma same_byte_bit: "(i::nat) div 8 = j div 8 \<Longrightarrow> (i mod 8 = j mod 8) = (i = j)"
  by (metis div_mult_mod_eq)

lemma bitMap_scan_test_bit:
  "bm_wf bm \<Longrightarrow> i < bm_size bm \<Longrightarrow> bitMap_scan_test bm i = Some (of_bool (bmbit bm i))"
  by (simp add: bitMap_scan_test_def byte_index masked_drop bmbit_def Let_def del: drop_bit_and)

text \<open>Every caller passes 0 or 1 as the value; these are the two cases that set one bit.\<close>

lemma bitmap_set_runs:
  assumes "bm_wf bm" and "i < bm_size bm" and "v = 0 \<or> v = 1"
  shows "\<exists>bm'. bitmap_set bm i v = Some bm' \<and> bm_wf bm' \<and> bm_size bm' = bm_size bm
    \<and> (\<forall>j < bm_size bm. bmbit bm' j = (if j = i then v = 1 else bmbit bm j))"
proof -
  have l: "i div 8 < length (bits bm)" using assms byte_index by blast
  let ?b = "if v = 0 then bits bm ! (i div 8) AND NOT (push_bit (i mod 8) BITMAP_MASK)
            else bits bm ! (i div 8) OR push_bit (i mod 8) v"
  let ?bm = "bm\<lparr>bits := (bits bm)[i div 8 := ?b]\<rparr>"
  have "bitmap_set bm i v = Some ?bm"
    using l by (simp add: bitmap_set_def Let_def)
  moreover have "bm_wf ?bm" using assms(1) by (simp add: bm_wf_def)
  moreover have "bm_size ?bm = bm_size bm" by (simp add: bm_size_def)
  moreover have "bmbit ?bm j = (if j = i then v = 1 else bmbit bm j)" if "j < bm_size bm" for j
  proof (cases "j div 8 = i div 8")
    case True
    then have "bmbit ?bm j = bit ?b (j mod 8)" using l by (simp add: bmbit_def)
    also have "\<dots> = (if j = i then v = 1 else bmbit bm j)"
      using assms(3) True same_byte_bit [OF True]
      by (auto simp: clear_byte_bit set_byte_bit bmbit_def)
    finally show ?thesis .
  next
    case False
    then show ?thesis by (auto simp: bmbit_def nth_list_update)
  qed
  ultimately show ?thesis by blast
qed


lemma bitmap_setEx_runs:
  assumes "bm_wf bm" and "i + n \<le> bm_size bm" and "v = 0 \<or> v = 1"
  shows "\<exists>bm'. bitmap_setEx bm i v n = Some bm' \<and> bm_wf bm' \<and> bm_size bm' = bm_size bm
    \<and> (\<forall>j < bm_size bm. bmbit bm' j = (if i \<le> j \<and> j < i + n then v = 1 else bmbit bm j))"
  using assms
proof (induction n arbitrary: bm i)
  case 0
  then show ?case by auto
next
  case (Suc n)
  then obtain bm1 where 1: "bitmap_set bm i v = Some bm1" "bm_wf bm1" "bm_size bm1 = bm_size bm"
      "\<forall>j < bm_size bm. bmbit bm1 j = (if j = i then v = 1 else bmbit bm j)"
    using bitmap_set_runs [of bm i v] by auto
  with Suc.prems Suc.IH [of bm1 "i + 1"] obtain bm2 where
    "bitmap_setEx bm1 (i + 1) v n = Some bm2" "bm_wf bm2" "bm_size bm2 = bm_size bm1"
    "\<forall>j < bm_size bm1. bmbit bm2 j = (if i + 1 \<le> j \<and> j < i + 1 + n then v = 1 else bmbit bm1 j)"
    by auto
  with 1 show ?case by (intro exI [of _ bm2]) auto
qed

lemma bitmap_init_clear:
  assumes "bm_wf bm"
  shows "\<exists>bm'. bitmap_init bm = Some bm' \<and> bm_wf bm' \<and> bm_size bm' = bm_size bm
    \<and> (\<forall>j < bm_size bm. \<not> bmbit bm' j)"
  using assms by (auto simp: bitmap_init_def bm_wf_def bm_size_def bmbit_def)

section \<open>The interface the allocators use\<close>

text \<open>
  An allocator sees a map as a store of bits: it tests a bit, sets or clears one, and the
  others stay as they were. The lemmas below are the allocators' bookkeeping; they are
  proved once from these laws.
\<close>

locale bit_store =
  fixes test :: "'m \<Rightarrow> nat \<Rightarrow> bool"
    and put :: "'m \<Rightarrow> nat \<Rightarrow> bool \<Rightarrow> 'm option"
    and size_of :: "'m \<Rightarrow> nat"
    and wf :: "'m \<Rightarrow> bool"
  assumes put_runs: "wf m \<Longrightarrow> i < size_of m \<Longrightarrow> \<exists>m'. put m i v = Some m'"
    and put_keeps: "wf m \<Longrightarrow> i < size_of m \<Longrightarrow> put m i v = Some m' \<Longrightarrow>
      wf m' \<and> size_of m' = size_of m"
    and test_put: "wf m \<Longrightarrow> i < size_of m \<Longrightarrow> j < size_of m \<Longrightarrow> put m i v = Some m' \<Longrightarrow>
      test m' j = (if j = i then v else test m j)"
begin

lemma taken_put:
  assumes "wf m" and "i < size_of m" and "put m i v = Some m'"
  shows "{j. j < size_of m' \<and> test m' j} =
    (if v then insert i {j. j < size_of m \<and> test m j} else {j. j < size_of m \<and> test m j} - {i})"
  using assms put_keeps [OF assms] by (auto simp: test_put [OF assms(1,2) _ assms(3)] split: if_splits)

text \<open>Taking a free bit adds exactly one to the number of bits in use, giving it back
  takes exactly one away.\<close>

lemma count_take:
  assumes "wf m" and "i < size_of m" and "\<not> test m i" and "put m i True = Some m'"
  shows "card {j. j < size_of m' \<and> test m' j} = Suc (card {j. j < size_of m \<and> test m j})"
  using assms(3) by (simp add: taken_put [OF assms(1,2,4)])

lemma count_give:
  assumes "wf m" and "i < size_of m" and "test m i" and "put m i False = Some m'"
  shows "Suc (card {j. j < size_of m' \<and> test m' j}) = card {j. j < size_of m \<and> test m j}"
proof -
  have "i \<in> {j. j < size_of m \<and> test m j}" using assms by simp
  then show ?thesis
    using card_Suc_Diff1 [of "{j. j < size_of m \<and> test m j}" i]
    by (simp add: taken_put [OF assms(1,2,4)])
qed

text \<open>Taking a free bit and giving it back restores every bit.\<close>

lemma take_give:
  assumes "wf m" and "i < size_of m" and "\<not> test m i"
    and "put m i True = Some m1" and "put m1 i False = Some m2" and "j < size_of m"
  shows "test m2 j = test m j"
proof -
  have "wf m1" "size_of m1 = size_of m" using put_keeps [OF assms(1,2,4)] by auto
  then have "test m2 j = (if j = i then False else test m1 j)"
    using assms(2,5,6) test_put by metis
  with assms(3) show ?thesis using test_put [OF assms(1,2,6,4)] by auto
qed

end

interpretation bm: bit_store bmbit "\<lambda>bm i v. bitmap_set bm i (of_bool v)" bm_size bm_wf
proof unfold_locales
  fix m i v assume "bm_wf m" "i < bm_size m"
  then show "\<exists>m'. bitmap_set m i (of_bool v) = Some m'"
    using bitmap_set_runs [of m i "of_bool v"] by auto
next
  fix m i v m' assume "bm_wf m" "i < bm_size m" "bitmap_set m i (of_bool v) = Some m'"
  then show "bm_wf m' \<and> bm_size m' = bm_size m"
    using bitmap_set_runs [of m i "of_bool v"] by auto
next
  fix m i j v m'
  assume "bm_wf m" "i < bm_size m" "j < bm_size m" "bitmap_set m i (of_bool v) = Some m'"
  then show "bmbit m' j = (if j = i then v else bmbit m j)"
    using bitmap_set_runs [of m i "of_bool v"] by auto
qed

lemmas bm_set1 = bm.put_keeps [of _ _ True, simplified] bm.test_put [of _ _ _ True, simplified]
lemmas bm_set0 = bm.put_keeps [of _ _ False, simplified] bm.test_put [of _ _ _ False, simplified]

section \<open>The scan\<close>

text \<open>
  The reference: the least start of \<open>cnt\<close> free bits that leaves at least one more bit of the
  map behind it (the loop tests the count before it moves on, so a run that ends with the
  map is not seen), cut to 8 bits; 255 when there is none.
\<close>

definition free_run :: "BitMap \<Rightarrow> nat \<Rightarrow> nat \<Rightarrow> bool" where
  "free_run bm cnt i = list_all (\<lambda>k. \<not> bmbit bm (i + k)) [0..<cnt]"

definition first_run :: "BitMap \<Rightarrow> nat \<Rightarrow> nat option" where
  "first_run bm cnt = find (free_run bm cnt) [0..<bm_size bm - cnt]"

lemma free_run_iff: "free_run bm cnt i \<longleftrightarrow> (\<forall>k < cnt. \<not> bmbit bm (i + k))"
  by (auto simp: free_run_def list_all_iff)

lemma find_upt_Some:
  "i < n \<Longrightarrow> P i \<Longrightarrow> \<forall>j < i. \<not> P j \<Longrightarrow> find P [0..<n] = Some i"
  by (auto simp: find_Some_iff)

lemma find_upt_None: "\<forall>j < n. \<not> P j \<Longrightarrow> find P [0..<n] = None"
  by (auto simp: find_None_iff)

lemma first_run_Some:
  "first_run bm cnt = Some i \<longleftrightarrow>
    i + cnt < bm_size bm \<and> free_run bm cnt i \<and> (\<forall>j < i. \<not> free_run bm cnt j)"
  (is "?l \<longleftrightarrow> ?r")
proof
  assume ?l
  then obtain n where n: "n < bm_size bm - cnt" "free_run bm cnt ([0..<bm_size bm - cnt] ! n)"
      "i = [0..<bm_size bm - cnt] ! n"
      "\<forall>j < n. \<not> free_run bm cnt ([0..<bm_size bm - cnt] ! j)"
    unfolding first_run_def find_Some_iff by auto
  then show ?r by auto
next
  assume ?r
  then show ?l unfolding first_run_def by (intro find_upt_Some) auto
qed

text \<open>
  The loop invariant at bit position \<open>p\<close>: the last \<open>l\<close> bits are free, and no start before
  them is the start of a free run.
\<close>

definition scanned :: "BitMap \<Rightarrow> nat \<Rightarrow> nat \<Rightarrow> nat \<Rightarrow> bool" where
  "scanned bm cnt p l \<longleftrightarrow> l \<le> p \<and> l \<le> cnt \<and> (\<forall>k < l. \<not> bmbit bm (p - l + k))
     \<and> (\<forall>j < p - l. \<exists>k < cnt. bmbit bm (j + k))"

lemma scanned_free:
  assumes "scanned bm cnt p l" and "l < cnt" and "\<not> bmbit bm p"
  shows "scanned bm cnt (Suc p) (Suc l)"
  using assms by (auto simp: scanned_def less_Suc_eq)

lemma scanned_used:
  assumes "scanned bm cnt p l" and "l < cnt" and "bmbit bm p"
  shows "scanned bm cnt (Suc p) 0"
proof -
  have "\<exists>k < cnt. bmbit bm (j + k)" if "j < Suc p" for j
  proof (cases "j < p - l")
    case True
    then show ?thesis using assms(1) by (auto simp: scanned_def)
  next
    case False
    then have "p - j < cnt" and "j + (p - j) = p" using that assms by (auto simp: scanned_def)
    then show ?thesis using assms(3) by metis
  qed
  then show ?thesis by (simp add: scanned_def)
qed

lemma scan_bits_first_run:
  assumes "bm_wf bm" and "0 < cnt" and "cnt < 256" and "off < 8"
    and "8 * b + off \<le> bm_size bm" and "scanned bm cnt (8 * b + off) l"
  shows "scan_bits bm cnt b off l = (case first_run bm cnt of Some i \<Rightarrow> u8 i | None \<Rightarrow> 255)"
  using assms
proof (induction bm cnt b off l rule: scan_bits.induct)
  case (1 bm cnt b off l)
  let ?p = "8 * b + off"
  have wf: "bm_size bm < 4294967296" using "1.prems"(1) by (simp add: bm_wf_def bm_size_def)
  show ?case
  proof (cases "b < bitmap_byte_len bm")
    case False
    then have "?p = bm_size bm" using "1.prems" by (auto simp: bm_size_def)
    then have "first_run bm cnt = None"
      using "1.prems"(6) unfolding first_run_def
      by (intro find_upt_None) (auto simp: scanned_def free_run_iff)
    with False show ?thesis by (subst scan_bits.simps) simp
  next
    case b: True
    then have p: "?p < bm_size bm" using "1.prems" by (auto simp: bm_size_def)
    have flag: "(bits bm ! b AND push_bit off BITMAP_MASK \<noteq> 0) = bmbit bm ?p"
      using "1.prems"(4) by (simp add: mask_bit bmbit_def)
    show ?thesis
    proof (cases "l = cnt")
      case True
      then have "first_run bm cnt = Some (?p - cnt)"
        using "1.prems"(6) p by (auto simp: first_run_Some scanned_def free_run_iff)
      moreover have "sub32 (b * 8 + off) cnt = ?p - cnt"
        using True "1.prems"(6) p wf by (subst sub32_small) (auto simp: scanned_def)
      ultimately show ?thesis using b True by (subst scan_bits.simps) simp
    next
      case False
      then have l: "l < cnt" using "1.prems"(6) by (simp add: scanned_def)
      let ?l = "if bmbit bm ?p then 0 else u8 (l + 1)"
      have s: "scanned bm cnt (Suc ?p) ?l"
        using scanned_free [OF "1.prems"(6) l] scanned_used [OF "1.prems"(6) l] l "1.prems"(3)
        by simp
      show ?thesis
      proof (cases "8 \<le> off + 1")
        case True
        then have "off = 7" using "1.prems"(4) by simp
        with s p b False flag "1.IH"(1) [OF b refl False refl refl]
        show ?thesis using "1.prems"(1,2,3)
          by (subst scan_bits.simps) (auto simp: flag algebra_simps bm_size_def split: if_splits)
      next
        case c: False
        with s p b False "1.IH"(2) [OF b refl False refl refl]
        show ?thesis using "1.prems"(1,2,3)
          by (subst scan_bits.simps) (auto simp: flag split: if_splits)
      qed
    qed
  qed
qed

lemma skip_full_bytes_full:
  assumes "bm_wf bm" and "b \<le> bitmap_byte_len bm" and "\<forall>j < 8 * b. bmbit bm j"
  shows "skip_full_bytes bm b \<le> bitmap_byte_len bm
    \<and> (\<forall>j < 8 * skip_full_bytes bm b. bmbit bm j)"
  using assms
proof (induction bm b rule: skip_full_bytes.induct)
  case (1 bm b)
  show ?case
  proof (cases "b < bitmap_byte_len bm \<and> bits bm ! b = 0xFF")
    case True
    have "bmbit bm j" if "j < 8 * (b + 1)" for j
    proof (cases "j < 8 * b")
      case False
      then have "j div 8 = b" using that by simp
      moreover have "bit (0xFF :: byte) (j mod 8)"
      proof -
        have "(0xFF :: byte) = - 1" by simp
        then show ?thesis by (simp only: bit_minus_1_iff) simp
      qed
      ultimately show ?thesis using True by (simp add: bmbit_def)
    qed (use "1.prems" in simp)
    with True "1.IH" "1.prems" show ?thesis by (subst (1 2) skip_full_bytes.simps) auto
  next
    case False
    with "1.prems" show ?thesis by (subst (1 2) skip_full_bytes.simps) auto
  qed
qed

lemma bitMap_scan_ref:
  assumes "bm_wf bm" and "0 < cnt" and "cnt < 256"
  shows "bitMap_scan bm cnt = (case first_run bm cnt of Some i \<Rightarrow> int (u8 i) | None \<Rightarrow> 255)"
proof -
  let ?b = "skip_full_bytes bm 0"
  have b: "?b \<le> bitmap_byte_len bm" "\<forall>j < 8 * ?b. bmbit bm j"
    using skip_full_bytes_full [of bm 0] assms(1) by auto
  then have "scanned bm cnt (8 * ?b + 0) 0"
    using assms(2) by (auto simp: scanned_def intro!: exI [of _ 0])
  then show ?thesis
    using scan_bits_first_run [of bm cnt 0 ?b 0] assms b(1)
    by (auto simp: bitMap_scan_def bm_size_def split: option.splits)
qed

lemma bitMap_scan_byte: "0 \<le> bitMap_scan bm cnt \<and> bitMap_scan bm cnt < 256"
proof -
  have "scan_bits bm cnt b off l < 256" for b off l
    by (induction bm cnt b off l rule: scan_bits.induct) (subst scan_bits.simps, auto simp: Let_def)
  then show ?thesis by (simp add: bitMap_scan_def)
qed

text \<open>What a caller may rely on: a first free run below bit 256 is found, and is free.\<close>

lemma scan_one_free:
  assumes "bm_wf bm" and "i + 1 < bm_size bm" and "i < 256" and "\<not> bmbit bm i"
  shows "\<exists>j \<le> i. bitMap_scan bm 1 = int j \<and> j + 1 < bm_size bm \<and> \<not> bmbit bm j"
proof -
  obtain j where j: "j \<le> i" "\<forall>k < j. bmbit bm k" "\<not> bmbit bm j"
    using ex_least_nat_le [of "\<lambda>j. \<not> bmbit bm j", OF assms(4)] by auto
  then have "first_run bm 1 = Some j" using assms(2) by (simp add: first_run_Some free_run_iff)
  then have "bitMap_scan bm 1 = int j" using assms j(1) by (simp add: bitMap_scan_ref)
  with j assms(2) show ?thesis by (intro exI [of _ j]) simp
qed

text \<open>The first free bit of a map, within the reach of \<open>bitMap_scan\<close>.\<close>

definition first_free :: "BitMap \<Rightarrow> nat \<Rightarrow> bool" where
  "first_free bm i \<longleftrightarrow> i + 1 < bm_size bm \<and> i < 256 \<and> \<not> bmbit bm i \<and> (\<forall>j < i. bmbit bm j)"

lemma scan_first_free:
  assumes "bm_wf bm" and "first_free bm i"
  shows "bitMap_scan bm 1 = int i"
proof -
  have "first_run bm 1 = Some i"
    using assms(2) by (simp add: first_run_Some free_run_iff first_free_def)
  then show ?thesis using assms by (simp add: bitMap_scan_ref first_free_def)
qed

lemma take_first_free:
  assumes "bm_wf bm" and "first_free bm i"
  shows "\<exists>bm'. bitmap_set bm i 1 = Some bm' \<and> bm_wf bm' \<and> bm_size bm' = bm_size bm
    \<and> (\<forall>j < bm_size bm. bmbit bm' j = (j = i \<or> bmbit bm j))"
proof -
  have "i < bm_size bm" using assms(2) by (simp add: first_free_def)
  from bitmap_set_runs [OF assms(1) this, of 1] show ?thesis by auto
qed

section \<open>Properties\<close>

text \<open>C33: \<open>bitMap_scan\<close> is the search for the first run of \<open>cnt\<close> clear bits that ends before the
  last bit of the map (\<open>first_run\<close>), except that its result is cut down to eight bits and that
  255 stands for failure.\<close>

theorem bitMap_scan_first_run:
  assumes "bm_wf bm" and "0 < cnt" and "cnt < 256"
  shows "bitMap_scan bm cnt = (case first_run bm cnt of Some i \<Rightarrow> int (u8 i) | None \<Rightarrow> 255)"
  using assms by (rule bitMap_scan_ref)

text \<open>A map of four bytes whose first eleven bits are set.\<close>

theorem bitMap_scan_first_run_witness:
  "bitMap_scan \<lparr>bitmap_byte_len = 4, bits = [255, 7, 0, 0]\<rparr> 3 = 11"
proof -
  have "first_run \<lparr>bitmap_byte_len = 4, bits = [255, 7, 0, 0]\<rparr> 3 = Some 11" by code_simp
  then show ?thesis
    using bitMap_scan_first_run [of "\<lparr>bitmap_byte_len = 4, bits = [255, 7, 0, 0]\<rparr>" 3]
    by (simp add: bm_wf_def)
qed

text \<open>\<open>bitmap_setEx\<close> sets or clears exactly the bits of the given range and keeps the map
  well formed.\<close>

theorem bitmap_setEx_range:
  assumes "bm_wf bm" and "i + n \<le> bm_size bm" and "v = 0 \<or> v = 1"
  shows "\<exists>bm'. bitmap_setEx bm i v n = Some bm' \<and> bm_wf bm' \<and> bm_size bm' = bm_size bm
    \<and> (\<forall>j < bm_size bm. bmbit bm' j = (if i \<le> j \<and> j < i + n then v = 1 else bmbit bm j))"
  using assms by (rule bitmap_setEx_runs)

theorem bitmap_setEx_range_witness:
  "\<exists>bm'. bitmap_setEx \<lparr>bitmap_byte_len = 2, bits = [0, 0]\<rparr> 6 1 3 = Some bm' \<and> bm_wf bm'"
  using bitmap_setEx_range [of "\<lparr>bitmap_byte_len = 2, bits = [0, 0]\<rparr>" 6 3 1]
  by (auto simp: bm_wf_def bm_size_def)

end
