(* ===== verification/DList.thy ===== *)
theory DList
  imports Prelude
begin

text \<open>
  \<open>kernel/list.c\<close>: the intrusive doubly linked lists of the kernel (ready list, list of all
  threads, waiters of a semaphore, free blocks, open inodes, partitions).

  The elements live in a store from addresses to \<open>list_elem\<close>; an address outside the store
  (among them \<open>NULL\<close>) is not dereferenced: the operation is \<open>None\<close>. A \<open>list\<close> at address \<open>l\<close>
  is its two sentinels, \<open>head\<close> at \<open>l\<close> and \<open>tail\<close> behind it. The walks over a list may not
  end in a store where the list is not well formed; they are partial functions.

  The predicate \<open>dlist s l xs\<close> relates a store to the sequence of element addresses the list
  holds; the operations are shown to be the sequence operations of the locale
  \<open>sequence_store\<close>, under which the schedulers and allocators use them.
\<close>

section \<open>The functions\<close>

record list_elem =
  prev_p :: nat
  next_p :: nat

record lmem =
  elems :: "nat \<rightharpoonup> list_elem"
  intr_on :: bool

definition NULL :: nat where
  "NULL = 0"

text \<open>The addresses of the sentinels: \<open>sizeof(list_elem)\<close> is 8.\<close>

definition head_of :: "nat \<Rightarrow> nat" where
  "head_of l = l"

definition tail_of :: "nat \<Rightarrow> nat" where
  "tail_of l = l + 8"

definition get_next :: "nat \<Rightarrow> lmem \<Rightarrow> nat option" where
  "get_next a s = map_option next_p (elems s a)"

definition get_prev :: "nat \<Rightarrow> lmem \<Rightarrow> nat option" where
  "get_prev a s = map_option prev_p (elems s a)"

definition set_next :: "nat \<Rightarrow> nat \<Rightarrow> lmem \<Rightarrow> lmem option" where
  "set_next a v s =
     map_option (\<lambda>e. s\<lparr>elems := (elems s)(a \<mapsto> e\<lparr>next_p := v\<rparr>)\<rparr>) (elems s a)"

definition set_prev :: "nat \<Rightarrow> nat \<Rightarrow> lmem \<Rightarrow> lmem option" where
  "set_prev a v s =
     map_option (\<lambda>e. s\<lparr>elems := (elems s)(a \<mapsto> e\<lparr>prev_p := v\<rparr>)\<rparr>) (elems s a)"

definition list_init :: "nat \<Rightarrow> lmem \<Rightarrow> lmem option" where
  "list_init l s = do {
     s \<leftarrow> set_prev (head_of l) NULL s;
     s \<leftarrow> set_next (head_of l) (tail_of l) s;
     s \<leftarrow> set_next (tail_of l) NULL s;
     set_prev (tail_of l) (head_of l) s
   }"

definition list_insert_before :: "nat \<Rightarrow> nat \<Rightarrow> lmem \<Rightarrow> lmem option" where
  "list_insert_before before elem s = do {
     let status = intr_on s;
     let s = s\<lparr>intr_on := False\<rparr>;
     p \<leftarrow> get_prev before s;
     s \<leftarrow> set_prev elem p s;
     s \<leftarrow> set_next elem before s;
     p \<leftarrow> get_prev before s;
     s \<leftarrow> set_next p elem s;
     s \<leftarrow> set_prev before elem s;
     Some (s\<lparr>intr_on := status\<rparr>)
   }"

definition list_push :: "nat \<Rightarrow> nat \<Rightarrow> lmem \<Rightarrow> lmem option" where
  "list_push l elem s = do {
     first \<leftarrow> get_next (head_of l) s;
     list_insert_before first elem s
   }"

definition list_append :: "nat \<Rightarrow> nat \<Rightarrow> lmem \<Rightarrow> lmem option" where
  "list_append l elem s = list_insert_before (tail_of l) elem s"

definition list_remove :: "nat \<Rightarrow> lmem \<Rightarrow> lmem option" where
  "list_remove elem s = do {
     let status = intr_on s;
     let s = s\<lparr>intr_on := False\<rparr>;
     n \<leftarrow> get_next elem s;
     p \<leftarrow> get_prev elem s;
     s \<leftarrow> set_prev n p s;
     p \<leftarrow> get_prev elem s;
     n \<leftarrow> get_next elem s;
     s \<leftarrow> set_next p n s;
     Some (s\<lparr>intr_on := status\<rparr>)
   }"

definition list_pop :: "nat \<Rightarrow> lmem \<Rightarrow> (nat \<times> lmem) option" where
  "list_pop l s = do {
     elem \<leftarrow> get_next (head_of l) s;
     s \<leftarrow> list_remove elem s;
     Some (elem, s)
   }"

partial_function (option) find_walk :: "lmem \<Rightarrow> nat \<Rightarrow> nat \<Rightarrow> nat \<Rightarrow> bool option" where
  "find_walk s tailp elem now_elem =
     (if now_elem = tailp then Some False
      else if now_elem = elem then Some True
      else do {
        n \<leftarrow> get_next now_elem s;
        find_walk s tailp elem n
      })"

text \<open>The early \<open>return true\<close> leaves interrupts as \<open>intr_disable\<close> set them.\<close>

definition list_elem_find :: "nat \<Rightarrow> nat \<Rightarrow> lmem \<Rightarrow> (bool \<times> lmem) option" where
  "list_elem_find l elem s = do {
     let status = intr_on s;
     let s = s\<lparr>intr_on := False\<rparr>;
     now_elem \<leftarrow> get_next (head_of l) s;
     found \<leftarrow> find_walk s (tail_of l) elem now_elem;
     if found then Some (True, s) else Some (False, s\<lparr>intr_on := status\<rparr>)
   }"

partial_function (option) len_walk :: "lmem \<Rightarrow> nat \<Rightarrow> nat \<Rightarrow> nat \<Rightarrow> nat option" where
  "len_walk s tailp now_elem len =
     (if now_elem = tailp then Some len
      else do {
        n \<leftarrow> get_next now_elem s;
        len_walk s tailp n (u32 (len + 1))
      })"

definition list_len :: "nat \<Rightarrow> lmem \<Rightarrow> nat option" where
  "list_len l s = do {
     now_elem \<leftarrow> get_next (head_of l) s;
     len_walk s (tail_of l) now_elem 0
   }"

definition list_isempty :: "nat \<Rightarrow> lmem \<Rightarrow> bool option" where
  "list_isempty l s = map_option (\<lambda>n. n = tail_of l) (get_next (head_of l) s)"

text \<open>
  \<open>list_traversal\<close> with its callback: \<open>func\<close> reads and writes the structures around the
  elements (the client's state), not the links.
\<close>

partial_function (option) trav_walk ::
    "lmem \<Rightarrow> nat \<Rightarrow> (nat \<Rightarrow> 'c \<Rightarrow> bool \<times> 'c) \<Rightarrow> nat \<Rightarrow> 'c \<Rightarrow> (nat \<times> 'c) option" where
  "trav_walk s tailp func now_elem c =
     (if now_elem = tailp then Some (NULL, c)
      else (case func now_elem c of (hit, c') \<Rightarrow>
        if hit then Some (now_elem, c')
        else do {
          n \<leftarrow> get_next now_elem s;
          trav_walk s tailp func n c'
        }))"

definition list_traversal ::
    "nat \<Rightarrow> (nat \<Rightarrow> 'c \<Rightarrow> bool \<times> 'c) \<Rightarrow> lmem \<Rightarrow> 'c \<Rightarrow> (nat \<times> 'c) option" where
  "list_traversal l func s c = do {
     now_elem \<leftarrow> get_next (head_of l) s;
     e \<leftarrow> list_isempty l s;
     if e then Some (NULL, c) else trav_walk s (tail_of l) func now_elem c
   }"

text \<open>\<open>list_each\<close> counts from an uninitialised local: \<open>cnt\<close> is whatever it holds.\<close>

definition list_each :: "nat \<Rightarrow> nat \<Rightarrow> lmem \<Rightarrow> nat option" where
  "list_each cnt l s = do {
     now_elem \<leftarrow> get_next (head_of l) s;
     e \<leftarrow> list_isempty l s;
     if e then Some 0 else len_walk s (tail_of l) now_elem (u32 cnt)
   }"

section \<open>Chains\<close>

definition nx :: "lmem \<Rightarrow> nat \<Rightarrow> nat" where
  "nx s a = next_p (the (elems s a))"

definition pv :: "lmem \<Rightarrow> nat \<Rightarrow> nat" where
  "pv s a = prev_p (the (elems s a))"

fun chain :: "(nat \<Rightarrow> nat) \<Rightarrow> (nat \<Rightarrow> nat) \<Rightarrow> nat list \<Rightarrow> bool" where
  "chain n p (a # b # zs) \<longleftrightarrow> n a = b \<and> p b = a \<and> chain n p (b # zs)"
| "chain n p _ \<longleftrightarrow> True"

definition dlist :: "lmem \<Rightarrow> nat \<Rightarrow> nat list \<Rightarrow> bool" where
  "dlist s l xs \<longleftrightarrow> (let zs = head_of l # xs @ [tail_of l] in
     distinct zs \<and> set zs \<subseteq> dom (elems s) \<and> NULL \<notin> dom (elems s) \<and> chain (nx s) (pv s) zs)"

lemma chain_append:
  "chain n p (us @ a # vs) \<longleftrightarrow> chain n p (us @ [a]) \<and> chain n p (a # vs)"
proof (induction us)
  case (Cons u us)
  then show ?case by (cases us) auto
qed simp

lemma chain_next_upd: "a \<notin> set (butlast zs) \<Longrightarrow> chain (n(a := v)) p zs = chain n p zs"
  by (induction n p zs rule: chain.induct) auto

lemma chain_prev_upd: "a \<notin> set (tl zs) \<Longrightarrow> chain n (p(a := v)) zs = chain n p zs"
  by (induction n p zs rule: chain.induct) auto

lemma chain_cong:
  "(\<And>a. a \<in> set zs \<Longrightarrow> n a = n' a \<and> p a = p' a) \<Longrightarrow> chain n p zs = chain n' p' zs"
  by (induction n p zs rule: chain.induct) auto

named_theorems link_ops \<open>the effect of single link accesses\<close>

lemma get_next_nx [link_ops]: "a \<in> dom (elems s) \<Longrightarrow> get_next a s = Some (nx s a)"
  by (auto simp: get_next_def nx_def)

lemma get_prev_pv [link_ops]: "a \<in> dom (elems s) \<Longrightarrow> get_prev a s = Some (pv s a)"
  by (auto simp: get_prev_def pv_def)

lemma set_next_nx:
  assumes "a \<in> dom (elems s)"
  shows "\<exists>s'. set_next a v s = Some s' \<and> nx s' = (nx s)(a := v) \<and> pv s' = pv s
    \<and> dom (elems s') = dom (elems s) \<and> intr_on s' = intr_on s
    \<and> (\<forall>z. z \<noteq> a \<longrightarrow> elems s' z = elems s z)"
proof -
  obtain e where e: "elems s a = Some e" using assms by auto
  let ?s = "s\<lparr>elems := (elems s)(a \<mapsto> e\<lparr>next_p := v\<rparr>)\<rparr>"
  show ?thesis
    by (rule exI [of _ ?s]) (use e in \<open>auto simp: set_next_def nx_def pv_def fun_eq_iff\<close>)
qed

lemma set_prev_pv:
  assumes "a \<in> dom (elems s)"
  shows "\<exists>s'. set_prev a v s = Some s' \<and> pv s' = (pv s)(a := v) \<and> nx s' = nx s
    \<and> dom (elems s') = dom (elems s) \<and> intr_on s' = intr_on s
    \<and> (\<forall>z. z \<noteq> a \<longrightarrow> elems s' z = elems s z)"
proof -
  obtain e where e: "elems s a = Some e" using assms by auto
  let ?s = "s\<lparr>elems := (elems s)(a \<mapsto> e\<lparr>prev_p := v\<rparr>)\<rparr>"
  show ?thesis
    by (rule exI [of _ ?s]) (use e in \<open>auto simp: set_prev_def nx_def pv_def fun_eq_iff\<close>)
qed

lemma nx_intr [simp]: "nx (s\<lparr>intr_on := b\<rparr>) = nx s" "pv (s\<lparr>intr_on := b\<rparr>) = pv s"
  by (auto simp: nx_def pv_def)

text \<open>The core of every insertion: the four link writes between two neighbours.\<close>

lemma insert_between:
  assumes "chain (nx s) (pv s) (us @ p # b # vs)" and "distinct (us @ p # b # vs)"
    and "set (us @ p # b # vs) \<subseteq> dom (elems s)"
    and "e \<in> dom (elems s)" and "e \<notin> set (us @ p # b # vs)"
  shows "\<exists>s'. list_insert_before b e s = Some s' \<and> dom (elems s') = dom (elems s)
    \<and> chain (nx s') (pv s') (us @ p # e # b # vs) \<and> intr_on s' = intr_on s
    \<and> (\<forall>z. z \<notin> {p, e, b} \<longrightarrow> elems s' z = elems s z)"
proof -
  have c: "chain (nx s) (pv s) (us @ [p])" "chain (nx s) (pv s) (b # vs)" "pv s b = p"
    using assms(1) chain_append [of "nx s" "pv s" us p "b # vs"] by simp_all
  let ?s = "s\<lparr>intr_on := False\<rparr>"
  have d: "e \<in> dom (elems ?s)" "p \<in> dom (elems s)" "b \<in> dom (elems s)" using assms by auto
  from set_prev_pv [OF d(1), of p, simplified]
  obtain s1 where 1: "set_prev e p ?s = Some s1" "pv s1 = (pv s)(e := p)" "nx s1 = nx s"
      "dom (elems s1) = dom (elems s)" "\<forall>z. z \<noteq> e \<longrightarrow> elems s1 z = elems s z"
    by blast
  have "e \<in> dom (elems s1)" using assms(4) 1 by simp
  from set_next_nx [OF this, of b]
  obtain s2 where 2: "set_next e b s1 = Some s2" "nx s2 = (nx s1)(e := b)" "pv s2 = pv s1"
      "dom (elems s2) = dom (elems s1)" "\<forall>z. z \<noteq> e \<longrightarrow> elems s2 z = elems s1 z"
    by blast
  have "p \<in> dom (elems s2)" using d 1 2 by simp
  from set_next_nx [OF this, of e]
  obtain s3 where 3: "set_next p e s2 = Some s3" "nx s3 = (nx s2)(p := e)" "pv s3 = pv s2"
      "dom (elems s3) = dom (elems s2)" "\<forall>z. z \<noteq> p \<longrightarrow> elems s3 z = elems s2 z"
    by blast
  have "b \<in> dom (elems s3)" using d 1 2 3 by simp
  from set_prev_pv [OF this, of e]
  obtain s4 where 4: "set_prev b e s3 = Some s4" "pv s4 = (pv s3)(b := e)" "nx s4 = nx s3"
      "dom (elems s4) = dom (elems s3)" "\<forall>z. z \<noteq> b \<longrightarrow> elems s4 z = elems s3 z"
    by blast
  have "get_prev b ?s = Some p" "get_prev b s2 = Some p"
    using d c(3) assms(5) 1 2 by (auto simp: get_prev_pv)
  then have "list_insert_before b e s = Some (s4\<lparr>intr_on := intr_on s\<rparr>)"
    using 1(1) 2(1) 3(1) 4(1) by (simp add: list_insert_before_def Let_def)
  moreover have "chain (nx s4) (pv s4) (us @ p # e # b # vs)"
  proof -
    have notin: "e \<notin> set (butlast (us @ [p]))" "p \<notin> set (butlast (us @ [p]))"
        "e \<notin> set (tl (us @ [p]))" "b \<notin> set (tl (us @ [p]))"
        "e \<notin> set (butlast (b # vs))" "p \<notin> set (butlast (b # vs))"
        "e \<notin> set (tl (b # vs))" "b \<notin> set (tl (b # vs))"
      using assms(2,5) by (auto dest: in_set_butlastD list.set_sel(2) [rotated])
    have "chain (nx s4) (pv s4) (us @ [p])"
      using c(1) notin(1-4) by (simp only: 1 2 3 4 chain_next_upd chain_prev_upd not_False_eq_True)
    moreover have "chain (nx s4) (pv s4) (b # vs)"
      using c(2) notin(5-8) by (simp only: 1 2 3 4 chain_next_upd chain_prev_upd not_False_eq_True)
    moreover have "nx s4 p = e" "pv s4 e = p" "nx s4 e = b" "pv s4 b = e"
      using assms(2,5) by (auto simp: 1 2 3 4)
    ultimately show ?thesis using chain_append [of "nx s4" "pv s4" us p "e # b # vs"] by simp
  qed
  moreover have "dom (elems s4) = dom (elems s)" using 1(4) 2(4) 3(4) 4(4) by simp
  moreover have "\<forall>z. z \<notin> {p, e, b} \<longrightarrow> elems s4 z = elems s z" using 1(5) 2(5) 3(5) 4(5) by simp
  ultimately show ?thesis by (intro exI [of _ "s4\<lparr>intr_on := intr_on s\<rparr>"]) simp
qed


text \<open>The core of every removal: the two link writes around the element.\<close>

lemma remove_between:
  assumes "chain (nx s) (pv s) (us @ p # e # b # vs)" and "distinct (us @ p # e # b # vs)"
    and "set (us @ p # e # b # vs) \<subseteq> dom (elems s)"
  shows "\<exists>s'. list_remove e s = Some s' \<and> dom (elems s') = dom (elems s)
    \<and> chain (nx s') (pv s') (us @ p # b # vs) \<and> intr_on s' = intr_on s
    \<and> (\<forall>z. z \<notin> {p, b} \<longrightarrow> elems s' z = elems s z)"
proof -
  have c: "chain (nx s) (pv s) (us @ [p])" "chain (nx s) (pv s) (b # vs)"
      "pv s e = p" "nx s e = b"
    using assms(1) chain_append [of "nx s" "pv s" us p "e # b # vs"] by simp_all
  let ?s = "s\<lparr>intr_on := False\<rparr>"
  have d: "b \<in> dom (elems ?s)" "p \<in> dom (elems s)" "e \<in> dom (elems s)" using assms by auto
  from set_prev_pv [OF d(1), of p, simplified]
  obtain s1 where 1: "set_prev b p ?s = Some s1" "pv s1 = (pv s)(b := p)" "nx s1 = nx s"
      "dom (elems s1) = dom (elems s)" "\<forall>z. z \<noteq> b \<longrightarrow> elems s1 z = elems s z"
    by blast
  have "p \<in> dom (elems s1)" using d 1 by simp
  from set_next_nx [OF this, of b]
  obtain s2 where 2: "set_next p b s1 = Some s2" "nx s2 = (nx s1)(p := b)" "pv s2 = pv s1"
      "dom (elems s2) = dom (elems s1)" "\<forall>z. z \<noteq> p \<longrightarrow> elems s2 z = elems s1 z"
    by blast
  have "get_next e ?s = Some b" "get_prev e ?s = Some p" "get_next e s1 = Some b"
      "get_prev e s1 = Some p"
    using d c(3,4) assms(2) 1 by (auto simp: get_prev_pv get_next_nx)
  then have "list_remove e s = Some (s2\<lparr>intr_on := intr_on s\<rparr>)"
    using 1(1) 2(1) by (simp add: list_remove_def Let_def)
  moreover have "chain (nx s2) (pv s2) (us @ p # b # vs)"
  proof -
    have notin: "p \<notin> set (butlast (us @ [p]))" "b \<notin> set (tl (us @ [p]))"
        "p \<notin> set (butlast (b # vs))" "b \<notin> set (tl (b # vs))"
      using assms(2) by (auto dest: in_set_butlastD list.set_sel(2) [rotated])
    have "chain (nx s2) (pv s2) (us @ [p])"
      using c(1) notin(1,2) by (simp only: 1 2 chain_next_upd chain_prev_upd not_False_eq_True)
    moreover have "chain (nx s2) (pv s2) (b # vs)"
      using c(2) notin(3,4) by (simp only: 1 2 chain_next_upd chain_prev_upd not_False_eq_True)
    moreover have "nx s2 p = b" "pv s2 b = p" by (auto simp: 1 2)
    ultimately show ?thesis using chain_append [of "nx s2" "pv s2" us p "b # vs"] by simp
  qed
  moreover have "dom (elems s2) = dom (elems s)" using 1(4) 2(4) by simp
  moreover have "\<forall>z. z \<notin> {p, b} \<longrightarrow> elems s2 z = elems s z" using 1(5) 2(5) by simp
  ultimately show ?thesis by (intro exI [of _ "s2\<lparr>intr_on := intr_on s\<rparr>"]) simp
qed

section \<open>The operations as sequence operations\<close>

text \<open>An element may enter a list when it is a cell of the store outside that list.\<close>

definition can_enter :: "lmem \<Rightarrow> nat \<Rightarrow> nat list \<Rightarrow> nat \<Rightarrow> bool" where
  "can_enter s l xs e \<longleftrightarrow> e \<in> dom (elems s) \<and> e \<notin> set (head_of l # xs @ [tail_of l])"

lemma dlist_init:
  assumes "head_of l \<in> dom (elems s)" and "tail_of l \<in> dom (elems s)" and "NULL \<notin> dom (elems s)"
  shows "\<exists>s'. list_init l s = Some s' \<and> dlist s' l [] \<and> dom (elems s') = dom (elems s)"
proof -
  obtain h t where ht: "elems s (head_of l) = Some h" "elems s (tail_of l) = Some t"
    using assms by auto
  have "head_of l \<noteq> tail_of l" by (simp add: head_of_def tail_of_def)
  with ht assms show ?thesis
    by (auto simp: list_init_def set_next_def set_prev_def dlist_def nx_def pv_def Let_def)
qed

lemma dlist_head_next: "dlist s l xs \<Longrightarrow>
    head_of l \<in> dom (elems s) \<and> nx s (head_of l) = hd (xs @ [tail_of l])"
  by (cases xs) (auto simp: dlist_def Let_def)

lemma dlist_insert:
  assumes "dlist s l (xs @ ys)" and "can_enter s l (xs @ ys) e"
  shows "\<exists>s'. list_insert_before (hd (ys @ [tail_of l])) e s = Some s' \<and> dlist s' l (xs @ e # ys)
    \<and> dom (elems s') = dom (elems s) \<and> intr_on s' = intr_on s
    \<and> (\<forall>z. z \<notin> set (head_of l # xs @ ys @ [e, tail_of l]) \<longrightarrow> elems s' z = elems s z)"
proof -
  define us p where "us = butlast (head_of l # xs)" and "p = last (head_of l # xs)"
  then have u: "head_of l # xs = us @ [p]" by simp
  define b vs where "b = hd (ys @ [tail_of l])" and "vs = tl (ys @ [tail_of l])"
  then have v: "ys @ [tail_of l] = b # vs" by simp
  have all: "head_of l # (xs @ ys) @ [tail_of l] = us @ p # b # vs" using u v by simp
  have all': "head_of l # (xs @ e # ys) @ [tail_of l] = us @ p # e # b # vs" using u v by simp
  have "e \<in> dom (elems s)" "e \<notin> set (us @ p # b # vs)" "distinct (us @ p # b # vs)"
      "set (us @ p # b # vs) \<subseteq> dom (elems s)" "chain (nx s) (pv s) (us @ p # b # vs)"
      "NULL \<notin> dom (elems s)"
    using assms unfolding dlist_def can_enter_def all Let_def by simp_all
  moreover from this insert_between [of s us p b vs e]
  obtain s' where s': "list_insert_before b e s = Some s'" "dom (elems s') = dom (elems s)"
      "chain (nx s') (pv s') (us @ p # e # b # vs)" "intr_on s' = intr_on s"
      "\<forall>z. z \<notin> {p, e, b} \<longrightarrow> elems s' z = elems s z"
    by blast
  ultimately have "dlist s' l (xs @ e # ys)"
    unfolding dlist_def all' Let_def by auto
  moreover have "p \<in> set (head_of l # xs)" "b \<in> set (ys @ [tail_of l])"
    using u v by (metis last_in_set list.discI p_def, metis list.set_intros(1))
  ultimately show ?thesis using s' unfolding b_def by (intro exI [of _ s']) auto
qed

lemma dlist_push:
  assumes "dlist s l xs" and "can_enter s l xs e"
  shows "\<exists>s'. list_push l e s = Some s' \<and> dlist s' l (e # xs)
    \<and> dom (elems s') = dom (elems s) \<and> intr_on s' = intr_on s
    \<and> (\<forall>z. z \<notin> set (head_of l # xs @ [e, tail_of l]) \<longrightarrow> elems s' z = elems s z)"
  using dlist_insert [of s l "[]" xs e] assms dlist_head_next [OF assms(1)]
  by (auto simp: list_push_def get_next_nx)

lemma dlist_append:
  assumes "dlist s l xs" and "can_enter s l xs e"
  shows "\<exists>s'. list_append l e s = Some s' \<and> dlist s' l (xs @ [e])
    \<and> dom (elems s') = dom (elems s) \<and> intr_on s' = intr_on s
    \<and> (\<forall>z. z \<notin> set (head_of l # xs @ [e, tail_of l]) \<longrightarrow> elems s' z = elems s z)"
  using dlist_insert [of s l xs "[]" e] assms by (simp add: list_append_def)

lemma dlist_remove:
  assumes "dlist s l (xs @ e # ys)"
  shows "\<exists>s'. list_remove e s = Some s' \<and> dlist s' l (xs @ ys)
    \<and> dom (elems s') = dom (elems s) \<and> intr_on s' = intr_on s
    \<and> (\<forall>z. z \<notin> set (head_of l # xs @ ys @ [tail_of l]) \<longrightarrow> elems s' z = elems s z)"
proof -
  define us p where "us = butlast (head_of l # xs)" and "p = last (head_of l # xs)"
  then have u: "head_of l # xs = us @ [p]" by simp
  define b vs where "b = hd (ys @ [tail_of l])" and "vs = tl (ys @ [tail_of l])"
  then have v: "ys @ [tail_of l] = b # vs" by simp
  have all: "head_of l # (xs @ ys) @ [tail_of l] = us @ p # b # vs" using u v by simp
  have all': "head_of l # (xs @ e # ys) @ [tail_of l] = us @ p # e # b # vs" using u v by simp
  have "distinct (us @ p # e # b # vs)" "set (us @ p # e # b # vs) \<subseteq> dom (elems s)"
      "chain (nx s) (pv s) (us @ p # e # b # vs)" "NULL \<notin> dom (elems s)"
    using assms unfolding dlist_def all' Let_def by simp_all
  moreover from this remove_between [of s us p e b vs]
  obtain s' where s': "list_remove e s = Some s'" "dom (elems s') = dom (elems s)"
      "chain (nx s') (pv s') (us @ p # b # vs)" "intr_on s' = intr_on s"
      "\<forall>z. z \<notin> {p, b} \<longrightarrow> elems s' z = elems s z"
    by blast
  ultimately have "dlist s' l (xs @ ys)" unfolding dlist_def all Let_def by auto
  moreover have "p \<in> set (head_of l # xs)" "b \<in> set (ys @ [tail_of l])"
    using u v by (metis last_in_set list.discI p_def, metis list.set_intros(1))
  ultimately show ?thesis using s' by (intro exI [of _ s']) auto
qed

lemma dlist_pop:
  assumes "dlist s l (e # xs)"
  shows "\<exists>s'. list_pop l s = Some (e, s') \<and> dlist s' l xs
    \<and> dom (elems s') = dom (elems s) \<and> intr_on s' = intr_on s
    \<and> (\<forall>z. z \<notin> set (head_of l # xs @ [tail_of l]) \<longrightarrow> elems s' z = elems s z)"
  using dlist_remove [of s l "[]" e xs] assms dlist_head_next [OF assms]
  by (auto simp: list_pop_def get_next_nx)

text \<open>On an empty list \<open>list_pop\<close> takes the tail sentinel and writes through its \<open>NULL\<close> link.\<close>

lemma dlist_pop_empty:
  assumes "dlist s l []" and "nx s (tail_of l) = NULL"
  shows "list_pop l s = None"
proof -
  have "get_next (head_of l) s = Some (tail_of l)" "tail_of l \<in> dom (elems s)"
      "NULL \<notin> dom (elems s)"
    using assms(1) dlist_head_next [OF assms(1)] by (auto simp: get_next_nx dlist_def Let_def)
  moreover from this have "get_next (tail_of l) (s\<lparr>intr_on := False\<rparr>) = Some NULL"
    using assms(2) by (simp add: get_next_nx)
  ultimately show ?thesis
    by (simp add: list_pop_def list_remove_def Let_def set_prev_def domIff bind_eq_None_conv)
qed

lemma dlist_isempty:
  assumes "dlist s l xs"
  shows "list_isempty l s = Some (xs = [])"
proof -
  have "get_next (head_of l) s = Some (hd (xs @ [tail_of l]))"
    using dlist_head_next [OF assms] by (simp add: get_next_nx)
  moreover have "(hd (xs @ [tail_of l]) = tail_of l) = (xs = [])"
    using assms by (cases xs) (simp_all add: dlist_def Let_def)
  ultimately show ?thesis by (simp add: list_isempty_def)
qed

text \<open>The walks, on a suffix of the list.\<close>

lemma dlist_suffix_next:
  assumes "dlist s l (xs @ e # ys)"
  shows "get_next e s = Some (hd (ys @ [tail_of l]))" and "e \<noteq> tail_of l"
proof -
  have "chain (nx s) (pv s) ((head_of l # xs) @ e # (ys @ [tail_of l]))" "e \<in> dom (elems s)"
    using assms by (simp_all add: dlist_def Let_def)
  then have "nx s e = hd (ys @ [tail_of l])"
    by (subst (asm) chain_append) (cases ys, auto)
  then show "get_next e s = Some (hd (ys @ [tail_of l]))"
    using \<open>e \<in> dom (elems s)\<close> by (simp add: get_next_nx)
  show "e \<noteq> tail_of l" using assms by (simp add: dlist_def Let_def)
qed

lemma find_walk_suffix:
  assumes "dlist s l (xs @ ys)"
  shows "find_walk s (tail_of l) e (hd (ys @ [tail_of l])) = Some (e \<noteq> tail_of l \<and> e \<in> set ys)"
  using assms
proof (induction ys arbitrary: xs)
  case Nil
  then show ?case by (simp add: find_walk.simps)
next
  case (Cons y ys)
  have y: "get_next y s = Some (hd (ys @ [tail_of l]))" "y \<noteq> tail_of l"
    using dlist_suffix_next [of s l xs y ys] Cons.prems by simp_all
  then show ?case using Cons.IH [of "xs @ [y]"] Cons.prems by (auto simp: find_walk.simps)
qed

lemma len_walk_suffix:
  assumes "dlist s l (xs @ ys)"
  shows "len_walk s (tail_of l) (hd (ys @ [tail_of l])) (u32 n) = Some (u32 (n + length ys))"
  using assms
proof (induction ys arbitrary: xs n)
  case Nil
  then show ?case by (simp add: len_walk.simps)
next
  case (Cons y ys)
  have y: "get_next y s = Some (hd (ys @ [tail_of l]))" "y \<noteq> tail_of l"
    using dlist_suffix_next [of s l xs y ys] Cons.prems by simp_all
  moreover have "u32 (Suc (u32 n)) = u32 (Suc n)" by (simp add: u32_def mod_Suc_eq)
  ultimately show ?case
    using Cons.IH [of "xs @ [y]" "Suc n"] Cons.prems by (simp add: len_walk.simps)
qed

text \<open>What a traversal does to the client: the callback runs on the elements in order, until
  it answers true; \<open>NULL\<close> is returned when it never does.\<close>

fun trav_seq :: "(nat \<Rightarrow> 'c \<Rightarrow> bool \<times> 'c) \<Rightarrow> nat list \<Rightarrow> 'c \<Rightarrow> nat \<times> 'c" where
  "trav_seq func [] c = (NULL, c)"
| "trav_seq func (x # xs) c = (case func x c of (hit, c') \<Rightarrow>
     if hit then (x, c') else trav_seq func xs c')"

lemma trav_walk_suffix:
  assumes "dlist s l (xs @ ys)"
  shows "trav_walk s (tail_of l) func (hd (ys @ [tail_of l])) c = Some (trav_seq func ys c)"
  using assms
proof (induction ys arbitrary: xs c)
  case Nil
  then show ?case by (simp add: trav_walk.simps)
next
  case (Cons y ys)
  have y: "get_next y s = Some (hd (ys @ [tail_of l]))" "y \<noteq> tail_of l"
    using dlist_suffix_next [of s l xs y ys] Cons.prems by simp_all
  then show ?case
    using Cons.IH [of "xs @ [y]"] Cons.prems by (auto simp: trav_walk.simps split: prod.splits)
qed

lemma dlist_get_first:
  "dlist s l xs \<Longrightarrow> get_next (head_of l) s = Some (hd (xs @ [tail_of l]))"
  using dlist_head_next [of s l xs] by (auto simp: get_next_nx)

lemma dlist_intr [simp]: "dlist (s\<lparr>intr_on := b\<rparr>) l xs = dlist s l xs"
  by (simp add: dlist_def)

lemma get_next_intr [simp]: "get_next a (s\<lparr>intr_on := b\<rparr>) = get_next a s"
  by (simp add: get_next_def)

lemma dlist_find:
  assumes "dlist s l xs" and "e \<noteq> tail_of l"
  shows "list_elem_find l e s = Some (if e \<in> set xs then (True, s\<lparr>intr_on := False\<rparr>) else (False, s))"
proof -
  have "find_walk (s\<lparr>intr_on := False\<rparr>) (tail_of l) e (hd (xs @ [tail_of l])) = Some (e \<in> set xs)"
    using find_walk_suffix [of "s\<lparr>intr_on := False\<rparr>" l "[]" xs e] assms by simp
  then show ?thesis
    using dlist_get_first [OF assms(1)] by (simp add: list_elem_find_def Let_def)
qed

lemma dlist_len: "dlist s l xs \<Longrightarrow> list_len l s = Some (u32 (length xs))"
  using len_walk_suffix [of s l "[]" xs 0] dlist_get_first [of s l xs]
  by (simp add: list_len_def)

lemma dlist_each: "dlist s l xs \<Longrightarrow>
    list_each cnt l s = Some (if xs = [] then 0 else u32 (cnt + length xs))"
  using len_walk_suffix [of s l "[]" xs cnt] dlist_get_first [of s l xs] dlist_isempty [of s l xs]
  by (cases xs) (simp_all add: list_each_def)

lemma dlist_traversal: "dlist s l xs \<Longrightarrow> list_traversal l func s c = Some (trav_seq func xs c)"
  using trav_walk_suffix [of s l "[]" xs func c] dlist_get_first [of s l xs] dlist_isempty [of s l xs]
  by (cases xs) (simp_all add: list_traversal_def)

section \<open>The interface of a sequence of elements\<close>

text \<open>
  What the clients of \<open>list.c\<close> use: a store holds a sequence of elements, and pushing,
  appending and popping are those operations on sequences. \<open>room s l xs e\<close> is the right to enter
  element \<open>e\<close>.
\<close>

locale sequence_store =
  fixes holds :: "'s \<Rightarrow> 'l \<Rightarrow> 'e list \<Rightarrow> bool"
    and room :: "'s \<Rightarrow> 'l \<Rightarrow> 'e list \<Rightarrow> 'e \<Rightarrow> bool"
    and push :: "'l \<Rightarrow> 'e \<Rightarrow> 's \<Rightarrow> 's option"
    and append :: "'l \<Rightarrow> 'e \<Rightarrow> 's \<Rightarrow> 's option"
    and pop :: "'l \<Rightarrow> 's \<Rightarrow> ('e \<times> 's) option"
  assumes push_law: "holds s l xs \<Longrightarrow> room s l xs e \<Longrightarrow>
      \<exists>s'. push l e s = Some s' \<and> holds s' l (e # xs)
        \<and> (\<forall>f. f \<noteq> e \<longrightarrow> room s l xs f \<longrightarrow> room s' l (e # xs) f)"
    and append_law: "holds s l xs \<Longrightarrow> room s l xs e \<Longrightarrow>
      \<exists>s'. append l e s = Some s' \<and> holds s' l (xs @ [e])
        \<and> (\<forall>f. f \<noteq> e \<longrightarrow> room s l xs f \<longrightarrow> room s' l (xs @ [e]) f)"
    and pop_law: "holds s l (e # xs) \<Longrightarrow> \<exists>s'. pop l s = Some (e, s') \<and> holds s' l xs"
begin

primrec append_all :: "'l \<Rightarrow> 'e list \<Rightarrow> 's \<Rightarrow> 's option" where
  "append_all l [] s = Some s"
| "append_all l (e # es) s = Option.bind (append l e s) (append_all l es)"

primrec pop_all :: "'l \<Rightarrow> nat \<Rightarrow> 's \<Rightarrow> ('e list \<times> 's) option" where
  "pop_all l 0 s = Some ([], s)"
| "pop_all l (Suc n) s = Option.bind (pop l s)
     (\<lambda>(e, s). Option.bind (pop_all l n s) (\<lambda>(es, s). Some (e # es, s)))"

lemma append_all_holds:
  assumes "holds s l xs" and "distinct es" and "\<forall>e \<in> set es. room s l xs e"
  shows "\<exists>s'. append_all l es s = Some s' \<and> holds s' l (xs @ es)"
  using assms
proof (induction es arbitrary: s xs)
  case (Cons e es)
  then obtain s1 where 1: "append l e s = Some s1" "holds s1 l (xs @ [e])"
      "\<forall>f. f \<noteq> e \<longrightarrow> room s l xs f \<longrightarrow> room s1 l (xs @ [e]) f"
    using append_law [of s l xs e] by auto
  then have "\<forall>f \<in> set es. room s1 l (xs @ [e]) f" using Cons.prems by auto
  with Cons.IH [of s1 "xs @ [e]"] 1 Cons.prems show ?case by auto
qed simp

lemma pop_all_holds:
  assumes "holds s l (es @ xs)"
  shows "\<exists>s'. pop_all l (length es) s = Some (es, s') \<and> holds s' l xs"
  using assms
proof (induction es arbitrary: s)
  case (Cons e es)
  then obtain s1 where "pop l s = Some (e, s1)" "holds s1 l (es @ xs)"
    using pop_law [of s l e "es @ xs"] by auto
  with Cons.IH [of s1] show ?case by auto
qed simp

text \<open>First in, first out; and a pushed element is the next one out.\<close>

lemma fifo:
  assumes "holds s l []" and "distinct es" and "\<forall>e \<in> set es. room s l [] e"
  shows "\<exists>s1 s2. append_all l es s = Some s1 \<and> pop_all l (length es) s1 = Some (es, s2)
    \<and> holds s2 l []"
  using append_all_holds [OF assms] pop_all_holds [of _ l es "[]"] by fastforce

lemma push_pop:
  assumes "holds s l xs" and "room s l xs e"
  shows "\<exists>s1 s2. push l e s = Some s1 \<and> pop l s1 = Some (e, s2) \<and> holds s2 l xs"
  using push_law [OF assms] pop_law by blast

end

interpretation dl: sequence_store dlist can_enter list_push list_append list_pop
proof unfold_locales
  fix s l xs e assume "dlist s l xs" "can_enter s l xs e"
  then show "\<exists>s'. list_push l e s = Some s' \<and> dlist s' l (e # xs)
      \<and> (\<forall>f. f \<noteq> e \<longrightarrow> can_enter s l xs f \<longrightarrow> can_enter s' l (e # xs) f)"
    using dlist_push [of s l xs e] by (auto simp: can_enter_def)
next
  fix s l xs e assume "dlist s l xs" "can_enter s l xs e"
  then show "\<exists>s'. list_append l e s = Some s' \<and> dlist s' l (xs @ [e])
      \<and> (\<forall>f. f \<noteq> e \<longrightarrow> can_enter s l xs f \<longrightarrow> can_enter s' l (xs @ [e]) f)"
    using dlist_append [of s l xs e] by (auto simp: can_enter_def)
next
  fix s l e xs assume "dlist s l (e # xs)"
  then show "\<exists>s'. list_pop l s = Some (e, s') \<and> dlist s' l xs"
    using dlist_pop by blast
qed

section \<open>Properties\<close>

text \<open>A list in memory is a queue: elements appended to an empty list are popped in the same
  order, and the list is well formed and empty afterwards.\<close>

theorem list_fifo:
  assumes "dlist s l []" and "distinct es" and "\<forall>e \<in> set es. can_enter s l [] e"
  shows "\<exists>s1 s2. dl.append_all l es s = Some s1 \<and> dl.pop_all l (length es) s1 = Some (es, s2)
    \<and> dlist s2 l []"
  using assms by (rule dl.fifo)

text \<open>A list at address 100 and three elements.\<close>

definition sample_store :: lmem where
  "sample_store = \<lparr>elems = (\<lambda>a. if a \<in> {100, 108, 200, 300, 400} then Some \<lparr>prev_p = 0, next_p = 0\<rparr> else None),
     intr_on = True\<rparr>"

theorem list_fifo_witness:
  "\<exists>s s1 s2. list_init 100 sample_store = Some s \<and> dl.append_all 100 [300, 200, 400] s = Some s1
    \<and> dl.pop_all 100 (length [300, 200, 400 :: nat]) s1 = Some ([300, 200, 400], s2)"
proof -
  obtain s where s: "list_init 100 sample_store = Some s" "dlist s 100 []" "dom (elems s) = dom (elems sample_store)"
    using dlist_init [of 100 sample_store]
    by (auto simp: sample_store_def head_of_def tail_of_def NULL_def dom_def)
  have "\<forall>e \<in> set [300, 200, 400]. can_enter s 100 [] e"
    using s(3) by (auto simp: can_enter_def sample_store_def head_of_def tail_of_def dom_def)
  moreover have "distinct [300, 200, 400 :: nat]" by simp
  ultimately show ?thesis using list_fifo [OF s(2), of "[300, 200, 400]"] s(1) by blast
qed

text \<open>\<open>list_remove\<close> takes one element out of a well-formed list and leaves the order of
  the others.\<close>

theorem list_remove_one:
  assumes "dlist s l (xs @ e # ys)"
  shows "\<exists>s'. list_remove e s = Some s' \<and> dlist s' l (xs @ ys)"
  using dlist_remove [OF assms] by blast

theorem list_remove_one_witness:
  "\<exists>s s1 s2. list_init 100 sample_store = Some s \<and> list_push 100 200 s = Some s1
    \<and> list_remove 200 s1 = Some s2 \<and> dlist s2 100 []"
proof -
  obtain s where s: "list_init 100 sample_store = Some s" "dlist s 100 []" "dom (elems s) = dom (elems sample_store)"
    using dlist_init [of 100 sample_store]
    by (auto simp: sample_store_def head_of_def tail_of_def NULL_def dom_def)
  have "can_enter s 100 [] 200"
    using s(3) by (auto simp: can_enter_def sample_store_def head_of_def tail_of_def dom_def)
  then obtain s1 where "list_push 100 200 s = Some s1" "dlist s1 100 ([] @ 200 # [])"
    using dlist_push [of s 100 "[]" 200] s(2) by (auto simp: can_enter_def)
  with list_remove_one [of s1 100 "[]" 200 "[]"] s(1) show ?thesis by auto
qed

end
