(* ===== verification/Sched.thy ===== *)
theory Sched
  imports Prelude
begin

text \<open>
  The scheduler: \<open>schedule\<close>, \<open>thread_block\<close>, \<open>thread_unlock\<close>, \<open>thread_yield\<close> of
  \<open>thread/thread.c\<close>, \<open>process_activate\<close> of \<open>userprog/process.c\<close> and the timer interrupt of
  \<open>device/timer.c\<close>.

  A thread is named by the address of its \<open>task_struct\<close> (\<open>NULL\<close> is 0). The two thread lists
  are the sequences of threads whose tags they hold; theory \<open>DList\<close> shows that the pointer
  code of \<open>list.c\<close> implements those sequences. The kernel stack of a thread is represented
  by the one value the switch depends on: the interrupt status its pending call restores
  when the thread runs again (\<open>resume_intr\<close>).

  The lemmas show that every scheduler operation runs without a failing assertion from a
  state satisfying \<open>sched_inv\<close>, keeps \<open>sched_inv\<close>, and which thread it selects.
\<close>

section \<open>State\<close>

datatype task_status =
  TASK_RUNNING | TASK_READY | TASK_BLOCKED | TASK_WAITING | TASK_HANGING | TASK_DIED

text \<open>
  \<open>task_struct\<close> without its list tags (their lists are in \<open>kst\<close>) and without the heap of a
  user process (its virtual pool and block descriptors).
\<close>

record task_struct =
  self_kstack :: nat
  pid :: int
  status :: task_status
  priority :: nat
  ticks :: nat
  tname :: string
  elapsed_ticks :: nat
  fd_table :: "int list"
  pgdir :: nat
  cwd_inode_nr :: nat
  parent_pid :: int
  exit_status :: int
  stack_magic :: nat

definition STACK_MAGIC :: nat where
  "STACK_MAGIC = 0x889978AF"

definition PG_SIZE :: nat where
  "PG_SIZE = 4096"

record kst =
  tasks :: "nat \<rightharpoonup> task_struct"
  thread_ready_list :: "nat list"
  thread_all_list :: "nat list"
  running :: nat
  idle_thread :: nat
  main_thread_struct :: nat
  intr :: bool
  resume_intr :: "nat \<Rightarrow> bool"
  timer_ticks :: nat
  active_pgdir :: nat
  tss_esp0 :: nat

definition get_running_thread_pcb :: "kst \<Rightarrow> nat" where
  "get_running_thread_pcb s = running s"

definition upd_task :: "nat \<Rightarrow> (task_struct \<Rightarrow> task_struct) \<Rightarrow> kst \<Rightarrow> kst option" where
  "upd_task t f s = map_option (\<lambda>p. s\<lparr>tasks := (tasks s)(t \<mapsto> f p)\<rparr>) (tasks s t)"

section \<open>Operations\<close>

definition may_unblock :: "task_status \<Rightarrow> bool" where
  "may_unblock st \<longleftrightarrow> st = TASK_BLOCKED \<or> st = TASK_HANGING \<or> st = TASK_WAITING"

definition thread_unlock :: "nat \<Rightarrow> kst \<Rightarrow> kst option" where
  "thread_unlock pthread s = do {
     let old_status = intr s;
     let s = s\<lparr>intr := False\<rparr>;
     p \<leftarrow> tasks s pthread;
     _ \<leftarrow> ensure (may_unblock (status p));
     _ \<leftarrow> ensure (status p \<noteq> TASK_READY);
     _ \<leftarrow> ensure (pthread \<notin> set (thread_ready_list s));
     let s = s\<lparr>thread_ready_list := pthread # thread_ready_list s\<rparr>;
     s \<leftarrow> upd_task pthread (\<lambda>p. p\<lparr>status := TASK_RUNNING\<rparr>) s;
     Some (s\<lparr>intr := old_status\<rparr>)
   }"

text \<open>
  \<open>process_activate\<close>: load the page directory of the thread (0 stands for the kernel's own
  directory) and, for a user process, the ring 0 stack of the TSS.
\<close>

definition update_tss_esp :: "nat \<Rightarrow> kst \<Rightarrow> kst" where
  "update_tss_esp pthread s = s\<lparr>tss_esp0 := add32 pthread PG_SIZE\<rparr>"

definition page_dir_activate :: "nat \<Rightarrow> kst \<Rightarrow> kst option" where
  "page_dir_activate p_thread s =
     map_option (\<lambda>p. s\<lparr>active_pgdir := pgdir p\<rparr>) (tasks s p_thread)"

definition process_activate :: "nat \<Rightarrow> kst \<Rightarrow> kst option" where
  "process_activate p_thread s = do {
     _ \<leftarrow> ensure (p_thread \<noteq> 0);
     s \<leftarrow> page_dir_activate p_thread s;
     p \<leftarrow> tasks s p_thread;
     Some (if pgdir p \<noteq> 0 then update_tss_esp p_thread s else s)
   }"

text \<open>
  \<open>schedule\<close> up to \<open>switch_to\<close>: afterwards the selected thread runs, and continues where its
  own switch left it. Popping an empty list is not defined.
\<close>

definition schedule :: "kst \<Rightarrow> kst option" where
  "schedule s = do {
     _ \<leftarrow> ensure (\<not> intr s);
     let cur_thread = get_running_thread_pcb s;
     p \<leftarrow> tasks s cur_thread;
     s \<leftarrow> (if status p = TASK_RUNNING then do {
             _ \<leftarrow> ensure (cur_thread \<notin> set (thread_ready_list s));
             let s = s\<lparr>thread_ready_list := thread_ready_list s @ [cur_thread]\<rparr>;
             upd_task cur_thread (\<lambda>p. p\<lparr>ticks := priority p, status := TASK_READY\<rparr>) s
           } else Some s);
     s \<leftarrow> (if thread_ready_list s = [] then thread_unlock (idle_thread s) s else Some s);
     (case thread_ready_list s of
        [] \<Rightarrow> None
      | next_thread # rest \<Rightarrow> do {
          let s = s\<lparr>thread_ready_list := rest\<rparr>;
          s \<leftarrow> upd_task next_thread (\<lambda>p. p\<lparr>status := TASK_RUNNING\<rparr>) s;
          s \<leftarrow> process_activate next_thread s;
          Some (s\<lparr>running := next_thread\<rparr>)
        })
   }"

text \<open>
  A call of \<open>schedule\<close> from a function that saved the interrupt status \<open>old\<close>: the thread
  that runs next restores the status it saved itself.
\<close>

definition switch_away :: "bool \<Rightarrow> kst \<Rightarrow> kst option" where
  "switch_away old s = do {
     let s = s\<lparr>resume_intr := (resume_intr s)(running s := old)\<rparr>;
     s \<leftarrow> schedule s;
     Some (s\<lparr>intr := resume_intr s (running s)\<rparr>)
   }"

definition thread_block :: "task_status \<Rightarrow> kst \<Rightarrow> kst option" where
  "thread_block state s = do {
     let old_state = intr s;
     let s = s\<lparr>intr := False\<rparr>;
     _ \<leftarrow> ensure (state = TASK_BLOCKED \<or> state = TASK_HANGING \<or> state = TASK_WAITING);
     let cur = get_running_thread_pcb s;
     s \<leftarrow> upd_task cur (\<lambda>p. p\<lparr>status := state\<rparr>) s;
     switch_away old_state s
   }"

definition thread_yield :: "kst \<Rightarrow> kst option" where
  "thread_yield s = do {
     let cur_thread = get_running_thread_pcb s;
     let old_status = intr s;
     let s = s\<lparr>intr := False\<rparr>;
     let s = s\<lparr>thread_ready_list := thread_ready_list s @ [cur_thread]\<rparr>;
     s \<leftarrow> upd_task cur_thread (\<lambda>p. p\<lparr>status := TASK_READY\<rparr>) s;
     switch_away old_status s
   }"

text \<open>
  The timer interrupt, taken with interrupts on: the processor clears the flag on entry and
  the final \<open>iret\<close> of the interrupted (or selected) thread restores it.
\<close>

definition intr_timer_handler :: "kst \<Rightarrow> kst option" where
  "intr_timer_handler s = do {
     let s = s\<lparr>intr := False\<rparr>;
     let thread_pcb = get_running_thread_pcb s;
     p \<leftarrow> tasks s thread_pcb;
     _ \<leftarrow> ensure (stack_magic p = STACK_MAGIC);
     s \<leftarrow> upd_task thread_pcb (\<lambda>p. p\<lparr>elapsed_ticks := u32 (elapsed_ticks p + 1)\<rparr>) s;
     let s = s\<lparr>timer_ticks := u32 (timer_ticks s + 1)\<rparr>;
     if ticks p = 0 then switch_away True s
     else do {
       s \<leftarrow> upd_task thread_pcb (\<lambda>p. p\<lparr>ticks := ticks p - 1\<rparr>) s;
       Some (s\<lparr>intr := True\<rparr>)
     }
   }"

section \<open>Invariant\<close>

definition stat :: "kst \<Rightarrow> nat \<Rightarrow> task_status" where
  "stat s t = status (the (tasks s t))"

definition known :: "kst \<Rightarrow> nat \<Rightarrow> bool" where
  "known s t \<longleftrightarrow> tasks s t \<noteq> None"

text \<open>The threads and the ready list, apart from the running thread's own status.\<close>

definition queue_inv :: "kst \<Rightarrow> bool" where
  "queue_inv s \<longleftrightarrow> distinct (thread_ready_list s)
     \<and> (\<forall>t \<in> set (thread_ready_list s). known s t \<and> (stat s t = TASK_READY \<or> stat s t = TASK_RUNNING))
     \<and> known s (running s) \<and> known s (idle_thread s) \<and> \<not> known s 0
     \<and> (\<forall>t. known s t \<longrightarrow> t \<noteq> running s \<longrightarrow> t \<notin> set (thread_ready_list s) \<longrightarrow> may_unblock (stat s t))
     \<and> (\<forall>t. known s t \<longrightarrow> stack_magic (the (tasks s t)) = STACK_MAGIC)"

definition sched_inv :: "kst \<Rightarrow> bool" where
  "sched_inv s \<longleftrightarrow> queue_inv s \<and> stat s (running s) = TASK_RUNNING
     \<and> running s \<notin> set (thread_ready_list s)"

lemma upd_task_runs:
  "known s t \<Longrightarrow> upd_task t f s = Some (s\<lparr>tasks := (tasks s)(t \<mapsto> f (the (tasks s t)))\<rparr>)"
  by (auto simp: known_def upd_task_def)

lemma known_upd [simp]: "known (s\<lparr>tasks := (tasks s)(t \<mapsto> p)\<rparr>) u = (u = t \<or> known s u)"
  by (simp add: known_def)

lemma stat_upd [simp]:
  "stat (s\<lparr>tasks := (tasks s)(t \<mapsto> p)\<rparr>) u = (if u = t then status p else stat s u)"
  by (simp add: stat_def)

lemma known_frame [simp]:
  "known (s\<lparr>thread_ready_list := r\<rparr>) t = known s t"
  "known (s\<lparr>intr := b\<rparr>) t = known s t"
  "known (s\<lparr>resume_intr := f\<rparr>) t = known s t"
  "known (s\<lparr>running := u\<rparr>) t = known s t"
  "known (s\<lparr>active_pgdir := d\<rparr>) t = known s t"
  "known (s\<lparr>tss_esp0 := d\<rparr>) t = known s t"
  "known (s\<lparr>timer_ticks := d\<rparr>) t = known s t"
  by (simp_all add: known_def)

lemma stat_frame [simp]:
  "stat (s\<lparr>thread_ready_list := r\<rparr>) t = stat s t"
  "stat (s\<lparr>intr := b\<rparr>) t = stat s t"
  "stat (s\<lparr>resume_intr := f\<rparr>) t = stat s t"
  "stat (s\<lparr>running := u\<rparr>) t = stat s t"
  "stat (s\<lparr>active_pgdir := d\<rparr>) t = stat s t"
  "stat (s\<lparr>tss_esp0 := d\<rparr>) t = stat s t"
  "stat (s\<lparr>timer_ticks := d\<rparr>) t = stat s t"
  by (simp_all add: stat_def)


lemma magic_upd [simp]:
  "stack_magic (the (tasks (s\<lparr>tasks := (tasks s)(t \<mapsto> p)\<rparr>) u)) =
    (if u = t then stack_magic p else stack_magic (the (tasks s u)))"
  by simp

section \<open>The operations run and keep the invariant\<close>

lemma thread_unlock_runs:
  assumes "known s t" and "may_unblock (stat s t)" and "t \<notin> set (thread_ready_list s)"
  shows "thread_unlock t s = Some (s\<lparr>tasks := (tasks s)(t \<mapsto> the (tasks s t)\<lparr>status := TASK_RUNNING\<rparr>),
    thread_ready_list := t # thread_ready_list s\<rparr>)"
  using assms
  by (auto simp: thread_unlock_def known_def stat_def may_unblock_def upd_task_def Let_def)

lemma thread_unlock_queue_inv:
  assumes "queue_inv s" and "known s t" and "may_unblock (stat s t)"
    and "t \<notin> set (thread_ready_list s)"
  shows "\<exists>s'. thread_unlock t s = Some s' \<and> queue_inv s'
    \<and> thread_ready_list s' = t # thread_ready_list s \<and> running s' = running s
    \<and> intr s' = intr s \<and> resume_intr s' = resume_intr s \<and> idle_thread s' = idle_thread s
    \<and> (\<forall>u. known s' u = known s u) \<and> (\<forall>u. u \<noteq> t \<longrightarrow> stat s' u = stat s u)
    \<and> stat s' t = TASK_RUNNING"
proof -
  have "t \<noteq> 0" using assms(1,2) by (metis queue_inv_def)
  then show ?thesis
    unfolding thread_unlock_runs [OF assms(2-4)]
    using assms by (auto simp: queue_inv_def stat_def known_def)
qed

text \<open>The three situations in which \<open>schedule\<close> is called.\<close>

definition sched_pre :: "kst \<Rightarrow> bool" where
  "sched_pre s \<longleftrightarrow> queue_inv s \<and> \<not> intr s
     \<and> (stat s (running s) = TASK_RUNNING \<and> running s \<notin> set (thread_ready_list s)
      \<or> stat s (running s) = TASK_READY \<and> running s \<in> set (thread_ready_list s)
      \<or> may_unblock (stat s (running s)) \<and> running s \<notin> set (thread_ready_list s))"

definition run_queue :: "kst \<Rightarrow> nat list" where
  "run_queue s =
     (let r = (if stat s (running s) = TASK_RUNNING then thread_ready_list s @ [running s]
               else thread_ready_list s)
      in if r = [] then [idle_thread s] else r)"

text \<open>The last part of \<open>schedule\<close>: the first thread of a non-empty ready list is selected.\<close>

lemma select_runs:
  assumes "known s t" and "t \<noteq> 0"
  shows "\<exists>s'. (do {
          s \<leftarrow> upd_task t (\<lambda>p. p\<lparr>status := TASK_RUNNING\<rparr>) (s\<lparr>thread_ready_list := rest\<rparr>);
          s \<leftarrow> process_activate t s;
          Some (s\<lparr>running := t\<rparr>) }) = Some s'
    \<and> tasks s' = (tasks s)(t \<mapsto> the (tasks s t)\<lparr>status := TASK_RUNNING\<rparr>)
    \<and> thread_ready_list s' = rest \<and> running s' = t \<and> intr s' = intr s
    \<and> resume_intr s' = resume_intr s \<and> idle_thread s' = idle_thread s
    \<and> thread_all_list s' = thread_all_list s \<and> timer_ticks s' = timer_ticks s
    \<and> active_pgdir s' = pgdir (the (tasks s t))"
  using assms
  by (auto simp: known_def upd_task_def process_activate_def page_dir_activate_def
      update_tss_esp_def)

lemma sched_inv_selected:
  assumes "queue_inv s" and "thread_ready_list s = t # rest"
    and "stat s (running s) = TASK_READY \<and> running s \<in> set (thread_ready_list s)
      \<or> may_unblock (stat s (running s)) \<and> running s \<notin> set (thread_ready_list s)
      \<or> running s \<in> set (thread_ready_list s)"
    and "tasks s' = (tasks s)(t \<mapsto> the (tasks s t)\<lparr>status := TASK_RUNNING\<rparr>)"
    and "thread_ready_list s' = rest" and "running s' = t" and "idle_thread s' = idle_thread s"
  shows "sched_inv s'"
proof -
  have t: "known s t" "t \<notin> set rest" "distinct rest"
    using assms(1,2) by (auto simp: queue_inv_def)
  have k: "known s' u = known s u" and st: "stat s' u = (if u = t then TASK_RUNNING else stat s u)"
      and m: "u \<noteq> t \<Longrightarrow> the (tasks s' u) = the (tasks s u)"
      and mt: "stack_magic (the (tasks s' t)) = stack_magic (the (tasks s t))" for u
    using assms(4) t(1) by (auto simp: known_def stat_def)
  have "queue_inv s'" unfolding queue_inv_def
  proof (intro conjI allI ballI impI)
    fix u assume "u \<in> set (thread_ready_list s')"
    then show "known s' u" "stat s' u = TASK_READY \<or> stat s' u = TASK_RUNNING"
      using assms(1,2,5) k st by (auto simp: queue_inv_def)
  next
    fix u assume "known s' u" "u \<noteq> running s'" "u \<notin> set (thread_ready_list s')"
    then show "may_unblock (stat s' u)"
      using assms k st by (cases "u = running s") (auto simp: queue_inv_def)
  next
    fix u assume "known s' u"
    then show "stack_magic (the (tasks s' u)) = STACK_MAGIC"
      using assms(1) k m mt by (cases "u = t") (auto simp: queue_inv_def)
  qed (use assms t k in \<open>auto simp: queue_inv_def\<close>)
  then show ?thesis using st assms(5,6) t by (simp add: sched_inv_def)
qed

lemma schedule_runs:
  assumes "sched_pre s"
  shows "\<exists>s'. schedule s = Some s' \<and> sched_inv s' \<and> running s' = hd (run_queue s)
    \<and> thread_ready_list s' = tl (run_queue s) \<and> intr s' = intr s
    \<and> resume_intr s' = resume_intr s \<and> idle_thread s' = idle_thread s
    \<and> (\<forall>u. known s' u = known s u)"
proof -
  let ?c = "running s"
  have q: "queue_inv s" and i: "\<not> intr s" and c: "known s ?c"
    using assms by (auto simp: sched_pre_def queue_inv_def)
  define s1 where "s1 = (if stat s ?c = TASK_RUNNING then
      s\<lparr>thread_ready_list := thread_ready_list s @ [?c],
        tasks := (tasks s)(?c \<mapsto> the (tasks s ?c)\<lparr>ticks := priority (the (tasks s ?c)), status := TASK_READY\<rparr>)\<rparr>
      else s)"
  have f1: "running s1 = ?c" "intr s1 = intr s" "resume_intr s1 = resume_intr s"
      "idle_thread s1 = idle_thread s" "\<forall>u. known s1 u = known s u"
      "thread_ready_list s1 = (if stat s ?c = TASK_RUNNING then thread_ready_list s @ [?c]
        else thread_ready_list s)"
    using c by (auto simp: s1_def known_def)
  have q1: "queue_inv s1"
    using q assms by (auto simp: s1_def sched_pre_def queue_inv_def known_def stat_def)
  have p1: "stat s1 ?c = TASK_READY \<and> ?c \<in> set (thread_ready_list s1)
      \<or> may_unblock (stat s1 ?c) \<and> ?c \<notin> set (thread_ready_list s1)"
    using assms by (auto simp: s1_def sched_pre_def stat_def)
  obtain s2 where s2: "(if thread_ready_list s1 = [] then thread_unlock (idle_thread s1) s1
        else Some s1) = Some s2" "queue_inv s2" "running s2 = ?c" "intr s2 = intr s"
      "resume_intr s2 = resume_intr s" "idle_thread s2 = idle_thread s"
      "\<forall>u. known s2 u = known s u" "thread_ready_list s2 = run_queue s"
      "stat s2 ?c = TASK_READY \<and> ?c \<in> set (thread_ready_list s2)
      \<or> may_unblock (stat s2 ?c) \<and> ?c \<notin> set (thread_ready_list s2)
      \<or> ?c \<in> set (thread_ready_list s2)"
  proof (cases "thread_ready_list s1 = []")
    case True
    let ?i = "idle_thread s1"
    have "known s1 ?i" using q1 by (simp add: queue_inv_def)
    moreover from this have "may_unblock (stat s1 ?i)"
      using q1 p1 True f1(1) by (cases "?i = ?c") (auto simp: queue_inv_def)
    ultimately obtain s2 where u: "thread_unlock ?i s1 = Some s2" "queue_inv s2"
        "thread_ready_list s2 = ?i # thread_ready_list s1" "running s2 = running s1"
        "intr s2 = intr s1" "resume_intr s2 = resume_intr s1" "idle_thread s2 = ?i"
        "\<forall>u. known s2 u = known s1 u" "\<forall>u. u \<noteq> ?i \<longrightarrow> stat s2 u = stat s1 u"
      using thread_unlock_queue_inv [OF q1, of ?i] True by auto
    have "run_queue s = [?i]" using True f1 by (auto simp: run_queue_def Let_def split: if_splits)
    moreover have "?c = ?i \<or> stat s2 ?c = stat s1 ?c" using u(9) by auto
    ultimately show ?thesis using that [of s2] u(1-8) True f1 p1 by (elim disjE) simp_all
  next
    case False
    then have rq: "thread_ready_list s1 = run_queue s" using f1 by (auto simp: run_queue_def Let_def)
    show ?thesis
    proof (rule that [of s1])
      show "stat s1 ?c = TASK_READY \<and> ?c \<in> set (thread_ready_list s1)
          \<or> may_unblock (stat s1 ?c) \<and> ?c \<notin> set (thread_ready_list s1)
          \<or> ?c \<in> set (thread_ready_list s1)"
        using p1 by blast
      show "thread_ready_list s1 = run_queue s" by (rule rq)
    qed (simp_all add: False q1 f1(1-5))
  qed
  have "run_queue s \<noteq> []" by (simp add: run_queue_def Let_def)
  then obtain t rest where tr: "run_queue s = t # rest" by (cases "run_queue s") auto
  have t: "known s2 t" using s2(2,8) tr by (auto simp: queue_inv_def)
  then have nz: "t \<noteq> 0" using s2(2) by (metis queue_inv_def)
  obtain s3 where s3: "(do {
          s \<leftarrow> upd_task t (\<lambda>p. p\<lparr>status := TASK_RUNNING\<rparr>) (s2\<lparr>thread_ready_list := rest\<rparr>);
          s \<leftarrow> process_activate t s;
          Some (s\<lparr>running := t\<rparr>) }) = Some s3"
      "tasks s3 = (tasks s2)(t \<mapsto> the (tasks s2 t)\<lparr>status := TASK_RUNNING\<rparr>)"
      "thread_ready_list s3 = rest" "running s3 = t" "intr s3 = intr s2"
      "resume_intr s3 = resume_intr s2" "idle_thread s3 = idle_thread s2"
    using select_runs [OF t nz, of rest] by blast
  have step1: "(if status (the (tasks s ?c)) = TASK_RUNNING then do {
             _ \<leftarrow> ensure (?c \<notin> set (thread_ready_list s));
             let s = s\<lparr>thread_ready_list := thread_ready_list s @ [?c]\<rparr>;
             upd_task ?c (\<lambda>p. p\<lparr>ticks := priority p, status := TASK_READY\<rparr>) s
           } else Some s) = Some s1"
    using c assms by (auto simp: s1_def stat_def sched_pre_def upd_task_def known_def may_unblock_def)
  obtain p where p: "tasks s ?c = Some p" using c by (auto simp: known_def)
  have "schedule s = Some s3"
    using i step1 s2(1,8) s3(1) tr
    by (simp add: schedule_def get_running_thread_pcb_def Let_def p)
  moreover have "sched_inv s3"
    using sched_inv_selected [of s2 t rest s3] s2 s3 tr by simp
  moreover have "\<forall>u. known s3 u = known s u" using s3(2) s2(7) t by (auto simp: known_def)
  ultimately show ?thesis using s3 s2 tr by (intro exI [of _ s3]) simp
qed

lemma switch_away_runs:
  assumes "sched_pre s"
  shows "\<exists>s'. switch_away old s = Some s' \<and> sched_inv s' \<and> running s' = hd (run_queue s)
    \<and> thread_ready_list s' = tl (run_queue s) \<and> idle_thread s' = idle_thread s
    \<and> (\<forall>u. known s' u = known s u)
    \<and> resume_intr s' = (resume_intr s)(running s := old) \<and> intr s' = resume_intr s' (running s')"
proof -
  let ?s = "s\<lparr>resume_intr := (resume_intr s)(running s := old)\<rparr>"
  have "sched_pre ?s" using assms by (simp add: sched_pre_def queue_inv_def)
  moreover have "run_queue ?s = run_queue s" by (simp add: run_queue_def Let_def)
  ultimately obtain s' where s': "schedule ?s = Some s'" "sched_inv s'" "running s' = hd (run_queue s)"
      "thread_ready_list s' = tl (run_queue s)" "resume_intr s' = resume_intr ?s"
      "idle_thread s' = idle_thread s" "\<forall>u. known s' u = known s u"
    using schedule_runs [of ?s] by auto
  then have "sched_inv (s'\<lparr>intr := b\<rparr>)" for b by (simp add: sched_inv_def queue_inv_def)
  with s' show ?thesis by (auto simp: switch_away_def Let_def)
qed


lemma running_nz:
  assumes "sched_inv s"
  shows "running s \<noteq> 0"
  using assms by (metis sched_inv_def queue_inv_def)

text \<open>The current thread changes its own status and gives up the processor.\<close>

lemma park_pre:
  assumes "sched_inv s" and "may_unblock st"
  shows "sched_pre (s\<lparr>intr := False, tasks := (tasks s)(running s \<mapsto> the (tasks s (running s))\<lparr>status := st\<rparr>)\<rparr>)"
  using assms running_nz [OF assms(1)] by (auto simp: sched_inv_def sched_pre_def queue_inv_def known_def stat_def)

lemma thread_block_runs:
  assumes "sched_inv s" and "may_unblock st"
  shows "\<exists>s'. thread_block st s = Some s' \<and> sched_inv s'
    \<and> running s' = (if thread_ready_list s = [] then idle_thread s else hd (thread_ready_list s))
    \<and> thread_ready_list s' = tl (thread_ready_list s) \<and> (\<forall>u. known s' u = known s u)
    \<and> idle_thread s' = idle_thread s \<and> resume_intr s' = (resume_intr s)(running s := intr s)
    \<and> intr s' = resume_intr s' (running s')"
proof -
  let ?s = "s\<lparr>intr := False, tasks := (tasks s)(running s \<mapsto> the (tasks s (running s))\<lparr>status := st\<rparr>)\<rparr>"
  have k: "known s (running s)" using assms(1) by (simp add: sched_inv_def queue_inv_def)
  have q: "run_queue ?s = (if thread_ready_list s = [] then [idle_thread s] else thread_ready_list s)"
    using assms(2) by (auto simp: run_queue_def Let_def stat_def may_unblock_def)
  have "thread_block st s = switch_away (intr s) ?s"
    using assms(2) k
    by (auto simp: thread_block_def may_unblock_def get_running_thread_pcb_def upd_task_def
        known_def Let_def)
  moreover have "\<forall>u. known ?s u = known s u" using k by (simp add: known_def)
  ultimately show ?thesis
    using switch_away_runs [OF park_pre [OF assms], of "intr s"] unfolding q by auto
qed

lemma thread_unlock_sched_inv:
  assumes "sched_inv s" and "known s t" and "may_unblock (stat s t)"
  shows "\<exists>s'. thread_unlock t s = Some s' \<and> sched_inv s' \<and> running s' = running s
    \<and> thread_ready_list s' = t # thread_ready_list s \<and> intr s' = intr s
    \<and> (\<forall>u. known s' u = known s u) \<and> idle_thread s' = idle_thread s
    \<and> resume_intr s' = resume_intr s"
proof -
  have t: "t \<notin> set (thread_ready_list s)" "t \<noteq> running s"
    using assms by (auto simp: sched_inv_def queue_inv_def may_unblock_def)
  have "queue_inv s" using assms(1) by (simp add: sched_inv_def)
  from thread_unlock_queue_inv [OF this assms(2,3) t(1)] t assms(1) show ?thesis
    by (auto simp: sched_inv_def)
qed

lemma thread_yield_runs:
  assumes "sched_inv s"
  shows "\<exists>s'. thread_yield s = Some s' \<and> sched_inv s'
    \<and> running s' = hd (thread_ready_list s @ [running s])
    \<and> thread_ready_list s' = tl (thread_ready_list s @ [running s])
    \<and> (\<forall>u. known s' u = known s u)
    \<and> idle_thread s' = idle_thread s \<and> resume_intr s' = (resume_intr s)(running s := intr s)
    \<and> intr s' = resume_intr s' (running s')"
proof -
  let ?s = "s\<lparr>intr := False, thread_ready_list := thread_ready_list s @ [running s],
    tasks := (tasks s)(running s \<mapsto> the (tasks s (running s))\<lparr>status := TASK_READY\<rparr>)\<rparr>"
  have k: "known s (running s)" using assms(1) by (simp add: sched_inv_def queue_inv_def)
  have "sched_pre ?s"
    using assms running_nz [OF assms] by (auto simp: sched_inv_def sched_pre_def queue_inv_def known_def stat_def)
  moreover have "run_queue ?s = thread_ready_list s @ [running s]"
    by (simp add: run_queue_def Let_def stat_def)
  moreover have "\<forall>u. known ?s u = known s u" using k by (simp add: known_def)
  moreover have "thread_yield s = switch_away (intr s) ?s"
    using k by (auto simp: thread_yield_def get_running_thread_pcb_def upd_task_def known_def Let_def)
  ultimately show ?thesis using switch_away_runs [of ?s "intr s"] by auto
qed

text \<open>The timer: the time slice is used up tick by tick, then the threads rotate.\<close>

definition charged :: "kst \<Rightarrow> nat \<Rightarrow> kst" where
  "charged s tk = s\<lparr>intr := False,
     tasks := (tasks s)(running s \<mapsto> the (tasks s (running s))
       \<lparr>elapsed_ticks := u32 (elapsed_ticks (the (tasks s (running s))) + 1), ticks := tk\<rparr>),
     timer_ticks := u32 (timer_ticks s + 1)\<rparr>"

lemma timer_runs:
  assumes "sched_inv s"
  shows "\<exists>s'. intr_timer_handler s = Some s' \<and> sched_inv s'
    \<and> (if ticks (the (tasks s (running s))) = 0
       then running s' = hd (thread_ready_list s @ [running s])
         \<and> thread_ready_list s' = tl (thread_ready_list s @ [running s])
         \<and> resume_intr s' = (resume_intr s)(running s := True)
         \<and> intr s' = resume_intr s' (running s')
       else running s' = running s \<and> thread_ready_list s' = thread_ready_list s
         \<and> resume_intr s' = resume_intr s \<and> intr s'
         \<and> ticks (the (tasks s' (running s))) = ticks (the (tasks s (running s))) - 1)
    \<and> (\<forall>u. known s' u = known s u) \<and> idle_thread s' = idle_thread s"
proof -
  obtain p where k: "tasks s (running s) = Some p" and m: "stack_magic p = STACK_MAGIC"
    using assms by (fastforce simp: sched_inv_def queue_inv_def known_def)
  show ?thesis
  proof (cases "ticks p = 0")
    case True
    have e: "p\<lparr>elapsed_ticks := n, ticks := 0\<rparr> = p\<lparr>elapsed_ticks := n\<rparr>" for n
      using True by (cases p) simp
    have pre: "sched_pre (charged s 0)"
      using assms running_nz [OF assms]
      by (auto simp: charged_def sched_inv_def sched_pre_def queue_inv_def known_def stat_def)
    have "\<forall>u. known (charged s 0) u = known s u" using k by (auto simp: charged_def known_def)
    moreover have "run_queue (charged s 0) = thread_ready_list s @ [running s]"
      using assms by (simp add: run_queue_def Let_def charged_def stat_def sched_inv_def)
    moreover have "intr_timer_handler s = switch_away True (charged s 0)"
      using m True by (simp add: intr_timer_handler_def get_running_thread_pcb_def
          upd_task_def Let_def charged_def k e)
    ultimately show ?thesis using switch_away_runs [OF pre, of True] True k
      by (auto simp: charged_def)
  next
    case False
    let ?s = "(charged s (ticks p - 1))\<lparr>intr := True\<rparr>"
    have "intr_timer_handler s = Some ?s"
      using m False by (simp add: intr_timer_handler_def get_running_thread_pcb_def
          upd_task_def Let_def charged_def k)
    moreover have "\<forall>u. known ?s u = known s u" using k by (auto simp: charged_def known_def)
    moreover have "sched_inv ?s"
      using assms running_nz [OF assms] by (auto simp: charged_def sched_inv_def queue_inv_def known_def stat_def)
    ultimately show ?thesis using False k by (simp add: charged_def)
  qed
qed

section \<open>Reachable states\<close>

text \<open>
  What can happen to the scheduler while the system runs: a timer interrupt (with interrupts
  on), and the three calls by which threads give up the processor or wake one another.
\<close>

inductive sched_step :: "kst \<Rightarrow> kst \<Rightarrow> bool" where
  tick: "intr s \<Longrightarrow> intr_timer_handler s = Some s' \<Longrightarrow> sched_step s s'"
| block: "thread_block st s = Some s' \<Longrightarrow> sched_step s s'"
| wake: "thread_unlock t s = Some s' \<Longrightarrow> sched_step s s'"
| yield: "thread_yield s = Some s' \<Longrightarrow> sched_step s s'"

inductive_cases sched_stepE: "sched_step s s'"

inductive sched_reach :: "kst \<Rightarrow> kst \<Rightarrow> bool" for s0 where
  start: "sched_reach s0 s0"
| more: "sched_reach s0 s \<Longrightarrow> sched_step s s' \<Longrightarrow> sched_reach s0 s'"

lemma thread_block_only: "thread_block st s = Some s' \<Longrightarrow> may_unblock st"
  by (auto simp: thread_block_def may_unblock_def Let_def runs_iff)

lemma thread_unlock_only:
  "thread_unlock t s = Some s' \<Longrightarrow>
    known s t \<and> may_unblock (stat s t) \<and> t \<notin> set (thread_ready_list s)"
  by (auto simp: thread_unlock_def known_def stat_def Let_def runs_iff)

lemma sched_step_inv: "sched_step s s' \<Longrightarrow> sched_inv s \<Longrightarrow> sched_inv s'"
proof (erule sched_stepE)
  assume "sched_inv s" "intr_timer_handler s = Some s'"
  then show "sched_inv s'" using timer_runs [of s] by auto
next
  fix st assume "sched_inv s" "thread_block st s = Some s'"
  then show "sched_inv s'" using thread_block_runs [of s st] thread_block_only by fastforce
next
  fix t assume "sched_inv s" "thread_unlock t s = Some s'"
  then show "sched_inv s'" using thread_unlock_sched_inv [of s t] thread_unlock_only by fastforce
next
  assume "sched_inv s" "thread_yield s = Some s'"
  then show "sched_inv s'" using thread_yield_runs [of s] by auto
qed

lemma sched_reach_keeps: "sched_reach s0 s \<Longrightarrow> sched_inv s0 \<Longrightarrow> sched_inv s"
  by (induction rule: sched_reach.induct) (auto intro: sched_step_inv)

section \<open>Time slices and rotation\<close>

text \<open>Tick counters and priorities are \<open>uint8_t\<close>.\<close>

definition u8_ticks :: "kst \<Rightarrow> bool" where
  "u8_ticks s \<longleftrightarrow> (\<forall>p \<in> ran (tasks s). ticks p < 256 \<and> priority p < 256)"

fun ticks_pass :: "nat \<Rightarrow> kst \<Rightarrow> kst option" where
  "ticks_pass 0 s = Some s"
| "ticks_pass (Suc n) s = Option.bind (intr_timer_handler s) (ticks_pass n)"

lemma ticks_pass_add:
  "ticks_pass m s = Some s' \<Longrightarrow> ticks_pass (m + n) s = ticks_pass n s'"
  by (induction m arbitrary: s) (auto simp: runs_iff)

lemma u8_ticks_frame [simp]:
  "u8_ticks (s\<lparr>thread_ready_list := r\<rparr>) = u8_ticks s" "u8_ticks (s\<lparr>intr := b\<rparr>) = u8_ticks s"
  "u8_ticks (s\<lparr>resume_intr := f\<rparr>) = u8_ticks s" "u8_ticks (s\<lparr>running := u\<rparr>) = u8_ticks s"
  "u8_ticks (s\<lparr>active_pgdir := d\<rparr>) = u8_ticks s" "u8_ticks (s\<lparr>tss_esp0 := d\<rparr>) = u8_ticks s"
  "u8_ticks (s\<lparr>timer_ticks := d\<rparr>) = u8_ticks s"
  by (simp_all add: u8_ticks_def)

lemma u8_ticks_upd:
  assumes "u8_ticks s"
    and "\<And>p. ticks p < 256 \<Longrightarrow> priority p < 256 \<Longrightarrow> ticks (f p) < 256 \<and> priority (f p) < 256"
  shows "post u8_ticks (upd_task t f s)"
proof (cases "tasks s t")
  case (Some p)
  then have "p \<in> ran (tasks s)" by (rule ranI)
  with assms(1) have "ticks (f p) < 256 \<and> priority (f p) < 256"
    by (intro assms(2)) (auto simp: u8_ticks_def)
  moreover have "ran ((tasks s)(t \<mapsto> f p)) \<subseteq> insert (f p) (ran (tasks s))"
    by (auto simp: ran_def split: if_splits)
  ultimately show ?thesis using assms(1) Some by (auto simp: upd_task_def u8_ticks_def)
qed (simp add: upd_task_def)

lemma process_activate_ticks: "u8_ticks s \<Longrightarrow> post u8_ticks (process_activate t s)"
  by (auto simp: post_def process_activate_def page_dir_activate_def update_tss_esp_def runs_iff
      split: if_splits)

lemma thread_unlock_ticks:
  assumes "u8_ticks s"
  shows "post u8_ticks (thread_unlock t s)"
  unfolding thread_unlock_def Let_def
  by (rule post_bind_any post_ensure post_bind [OF u8_ticks_upd] | simp add: assms)+

lemma schedule_ticks:
  assumes "u8_ticks s"
  shows "post u8_ticks (schedule s)"
proof -
  have a: "post u8_ticks (case thread_ready_list x of [] \<Rightarrow> None
      | next_thread # rest \<Rightarrow> do {
          s \<leftarrow> upd_task next_thread (\<lambda>p. p\<lparr>status := TASK_RUNNING\<rparr>) (x\<lparr>thread_ready_list := rest\<rparr>);
          s \<leftarrow> process_activate next_thread s;
          Some (s\<lparr>running := next_thread\<rparr>)
        })" if "u8_ticks x" for x
    by (cases "thread_ready_list x")
      (auto intro!: post_bind [OF u8_ticks_upd] post_bind [OF process_activate_ticks] simp: that)
  show ?thesis
    unfolding schedule_def Let_def
    by (rule post_ensure, rule post_bind_any, rule post_bind [where Q = u8_ticks])
      (auto intro!: post_bind [where Q = u8_ticks] u8_ticks_upd thread_unlock_ticks post_ensure
        assms a)
qed

lemma timer_ticks_bounded:
  assumes "u8_ticks s"
  shows "post u8_ticks (intr_timer_handler s)"
proof -
  have c: "post u8_ticks (switch_away True x)" if "u8_ticks x" for x
    using that by (auto simp: switch_away_def Let_def intro!: post_bind [OF schedule_ticks])
  show ?thesis
    unfolding intr_timer_handler_def Let_def using assms
    by (intro post_bind_any post_ensure post_bind [OF u8_ticks_upd]) (auto intro!: c post_bind [OF u8_ticks_upd])
qed

text \<open>The running thread keeps the processor for \<open>ticks + 1\<close> timer interrupts.\<close>

lemma slice_expires:
  assumes "sched_inv s" and "u8_ticks s" and "ticks (the (tasks s (running s))) = k"
  shows "\<exists>s'. ticks_pass (Suc k) s = Some s' \<and> sched_inv s' \<and> u8_ticks s'
    \<and> running s' = hd (thread_ready_list s @ [running s])
    \<and> thread_ready_list s' = tl (thread_ready_list s @ [running s])"
  using assms
proof (induction k arbitrary: s)
  case 0
  with timer_runs [of s] postD [OF timer_ticks_bounded [of s]] show ?case by auto
next
  case (Suc k)
  from timer_runs [OF Suc.prems(1)] Suc.prems(3) obtain s1
    where s1: "intr_timer_handler s = Some s1" "sched_inv s1" "running s1 = running s"
      "thread_ready_list s1 = thread_ready_list s"
      "ticks (the (tasks s1 (running s))) = k" by auto
  with Suc.IH [of s1] postD [OF timer_ticks_bounded [OF Suc.prems(2)] s1(1)] show ?case by auto
qed

lemma slice_bound: "sched_inv s \<Longrightarrow> u8_ticks s \<Longrightarrow> ticks (the (tasks s (running s))) < 256"
  by (force simp: sched_inv_def queue_inv_def u8_ticks_def known_def ran_def)

lemma rotation:
  assumes "sched_inv s" and "u8_ticks s" and "i < length (thread_ready_list s)"
  shows "\<exists>n s'. n \<le> Suc i * 256 \<and> ticks_pass n s = Some s'
    \<and> running s' = thread_ready_list s ! i"
  using assms
proof (induction i arbitrary: s)
  case 0
  from slice_expires [OF 0(1,2) refl] slice_bound [OF 0(1,2)] obtain s'
    where "ticks_pass (Suc (ticks (the (tasks s (running s))))) s = Some s'"
      "running s' = hd (thread_ready_list s @ [running s])" by blast
  with 0(3) slice_bound [OF 0(1,2)] show ?case
    by (intro exI [of _ "Suc (ticks (the (tasks s (running s))))"] exI [of _ s'])
      (auto simp: hd_append hd_conv_nth simp del: ticks_pass.simps)
next
  case (Suc i)
  let ?k = "Suc (ticks (the (tasks s (running s))))"
  from slice_expires [OF Suc.prems(1,2) refl] obtain s1
    where s1: "ticks_pass ?k s = Some s1" "sched_inv s1" "u8_ticks s1"
      "thread_ready_list s1 = tl (thread_ready_list s @ [running s])" by blast
  have "thread_ready_list s1 ! i = thread_ready_list s ! Suc i"
    using s1(4) Suc.prems(3) by (cases "thread_ready_list s") (auto simp: nth_append)
  moreover have "i < length (thread_ready_list s1)" using s1(4) Suc.prems(3) by simp
  ultimately obtain n s' where n: "n \<le> Suc i * 256" "ticks_pass n s1 = Some s'"
      "running s' = thread_ready_list s ! Suc i"
    using Suc.IH [OF s1(2,3)] by metis
  have "ticks_pass (?k + n) s = Some s'" using ticks_pass_add [OF s1(1)] n(2) by simp
  moreover have "?k + n \<le> Suc (Suc i) * 256"
    using n(1) slice_bound [OF Suc.prems(1,2)] by simp
  ultimately show ?case using n(3) by blast
qed

text \<open>
  A run in which timer interrupts mix with everything threads do to the scheduler: they block,
  wake threads, yield, and switch interrupts off and on (a timer interrupt is only taken while
  they are on).
\<close>

datatype sched_event =
  Timer_tick | Block task_status | Wake nat | Yield | Set_intr bool

fun do_event :: "sched_event \<Rightarrow> kst \<Rightarrow> kst option" where
  "do_event Timer_tick s = do { _ \<leftarrow> ensure (intr s); intr_timer_handler s }"
| "do_event (Block st) s = thread_block st s"
| "do_event (Wake t) s = thread_unlock t s"
| "do_event Yield s = thread_yield s"
| "do_event (Set_intr b) s = Some (s\<lparr>intr := b\<rparr>)"

fun sched_run :: "sched_event list \<Rightarrow> kst \<Rightarrow> kst option" where
  "sched_run [] s = Some s"
| "sched_run (e # es) s = Option.bind (do_event e s) (sched_run es)"

definition ticks_in :: "sched_event list \<Rightarrow> nat" where
  "ticks_in es = length (filter (\<lambda>e. e = Timer_tick) es)"

definition wakes_in :: "sched_event list \<Rightarrow> nat" where
  "wakes_in es = length (filter (\<lambda>e. \<exists>t. e = Wake t) es)"

lemma events_simps [simp]:
  "ticks_in [] = 0" "wakes_in [] = 0"
  "ticks_in (e # es) = (if e = Timer_tick then 1 else 0) + ticks_in es"
  "wakes_in (e # es) = (if \<exists>t. e = Wake t then 1 else 0) + wakes_in es"
  by (auto simp: ticks_in_def wakes_in_def)

lemma switch_away_ticks: "u8_ticks s \<Longrightarrow> post u8_ticks (switch_away b s)"
  by (auto simp: switch_away_def Let_def intro!: post_bind [OF schedule_ticks])

lemma do_event_ticks: "u8_ticks s \<Longrightarrow> post u8_ticks (do_event e s)"
  by (cases e) (auto simp: thread_block_def thread_yield_def Let_def
      intro!: post_ensure post_bind [OF u8_ticks_upd] switch_away_ticks timer_ticks_bounded thread_unlock_ticks)

lemma sched_inv_flag: "sched_inv (s\<lparr>intr := b\<rparr>) = sched_inv s"
  by (simp add: sched_inv_def queue_inv_def)

lemma thread_yield_ready: "sched_inv s \<Longrightarrow> thread_yield s = Some s' \<Longrightarrow>
    sched_inv s' \<and> running s' = hd (thread_ready_list s @ [running s])
      \<and> thread_ready_list s' = tl (thread_ready_list s @ [running s])"
  using thread_yield_runs [of s] by auto

lemma thread_block_ready: "sched_inv s \<Longrightarrow> thread_block st s = Some s' \<Longrightarrow> thread_ready_list s \<noteq> [] \<Longrightarrow>
    sched_inv s' \<and> running s' = hd (thread_ready_list s) \<and> thread_ready_list s' = tl (thread_ready_list s)"
  using thread_block_runs [of s st] thread_block_only [of st s s'] by auto

text \<open>
  How many timer interrupts a thread at position \<open>i\<close> waits at most: the rest of the running
  slice and a slice of up to 256 for each thread before it. Every event but a wake-up lowers
  this or leaves it; a wake-up puts a thread in front and adds a slice.
\<close>

definition waits :: "kst \<Rightarrow> nat \<Rightarrow> nat" where
  "waits s i = 256 * i + ticks (the (tasks s (running s))) + 1"

lemma rotated:
  assumes "i < length q" and "sched_inv s'" and "u8_ticks s'"
    and "running s' = hd (q @ r)" and "thread_ready_list s' = tl (q @ r)"
  shows "running s' = q ! i
    \<or> (\<exists>k < length (thread_ready_list s'). thread_ready_list s' ! k = q ! i \<and> waits s' k \<le> 256 * i)"
proof (cases i)
  case 0
  then show ?thesis using assms(1,4) by (cases q) auto
next
  case (Suc k)
  have "waits s' k \<le> 256 * i" using slice_bound [OF assms(2,3)] Suc by (simp add: waits_def)
  moreover have "thread_ready_list s' ! k = q ! i" "k < length (thread_ready_list s')"
    using assms(1,5) Suc by (cases q; auto simp: nth_append)+
  ultimately show ?thesis by blast
qed

lemma event_waits:
  assumes "sched_inv s" and "u8_ticks s" and "i < length (thread_ready_list s)"
    and "do_event e s = Some s'"
  shows "sched_inv s' \<and> (running s' = thread_ready_list s ! i
    \<or> (\<exists>k < length (thread_ready_list s'). thread_ready_list s' ! k = thread_ready_list s ! i
        \<and> waits s' k + (if e = Timer_tick then 1 else 0) \<le> waits s i + (if \<exists>t. e = Wake t then 256 else 0)))"
proof -
  note rot = rotated [OF assms(3) _ postD [OF do_event_ticks [OF assms(2)] assms(4)]]
  have w: "256 * i + 1 \<le> waits s i" by (simp add: waits_def)
  show ?thesis
  proof (cases e)
    case Timer_tick
    then have t: "intr_timer_handler s = Some s'" using assms(4) by (simp add: runs_iff)
    show ?thesis
    proof (cases "ticks (the (tasks s (running s))) = 0")
      case True
      then have "sched_inv s' \<and> running s' = hd (thread_ready_list s @ [running s])
          \<and> thread_ready_list s' = tl (thread_ready_list s @ [running s])"
        using timer_runs [OF assms(1)] t by auto
      then show ?thesis using rot [of "[running s]"] w Timer_tick by fastforce
    next
      case False
      then have "sched_inv s' \<and> running s' = running s \<and> thread_ready_list s' = thread_ready_list s
          \<and> ticks (the (tasks s' (running s))) = ticks (the (tasks s (running s))) - 1"
        using timer_runs [OF assms(1)] t by auto
      then show ?thesis using assms(3) Timer_tick False
        by (intro conjI disjI2 exI [of _ i]) (simp_all add: waits_def)
    qed
  next
    case (Block st)
    have "thread_ready_list s \<noteq> []" using assms(3) by auto
    with Block have "sched_inv s' \<and> running s' = hd (thread_ready_list s @ [])
        \<and> thread_ready_list s' = tl (thread_ready_list s @ [])"
      using thread_block_ready [OF assms(1), of st s'] assms(4) by simp
    then show ?thesis using rot [of "[]"] w Block by fastforce
  next
    case (Wake t)
    then have u: "thread_unlock t s = Some s'" using assms(4) by simp
    note k = thread_unlock_only [OF u, THEN conjunct1] thread_unlock_only [OF u, THEN conjunct2, THEN conjunct1]
      thread_unlock_only [OF u, THEN conjunct2, THEN conjunct2]
    have s': "s' = s\<lparr>tasks := (tasks s)(t \<mapsto> the (tasks s t)\<lparr>status := TASK_RUNNING\<rparr>),
        thread_ready_list := t # thread_ready_list s\<rparr>"
      using thread_unlock_runs [OF k] u by simp
    have "sched_inv s'" using sched_step_inv [OF wake [OF u] assms(1)] .
    then show ?thesis using assms(3) Wake
      by (intro conjI disjI2 exI [of _ "Suc i"]) (auto simp: s' waits_def)
  next
    case Yield
    then have "sched_inv s' \<and> running s' = hd (thread_ready_list s @ [running s])
        \<and> thread_ready_list s' = tl (thread_ready_list s @ [running s])"
      using thread_yield_ready [OF assms(1)] assms(4) by auto
    then show ?thesis using rot [of "[running s]"] w Yield by fastforce
  next
    case (Set_intr b)
    then show ?thesis using assms(1,3,4)
      by (intro conjI disjI2 exI [of _ i]) (auto simp: sched_inv_flag waits_def)
  qed
qed

lemma run_reaches:
  assumes "sched_inv s" and "u8_ticks s" and "i < length (thread_ready_list s)"
    and "sched_run es s = Some s'" and "waits s i + 256 * wakes_in es \<le> ticks_in es"
  shows "\<exists>k s1. k \<le> length es \<and> sched_run (take k es) s = Some s1 \<and> running s1 = thread_ready_list s ! i"
  using assms
proof (induction es arbitrary: s i)
  case Nil
  then show ?case by (simp add: waits_def)
next
  case (Cons e es)
  from Cons.prems(4) obtain s2 where s2: "do_event e s = Some s2" "sched_run es s2 = Some s'"
    by (auto simp: runs_iff)
  from event_waits [OF Cons.prems(1-3) s2(1)] have inv: "sched_inv s2"
    and alt: "running s2 = thread_ready_list s ! i
      \<or> (\<exists>k < length (thread_ready_list s2). thread_ready_list s2 ! k = thread_ready_list s ! i
        \<and> waits s2 k + (if e = Timer_tick then 1 else 0) \<le> waits s i + (if \<exists>t. e = Wake t then 256 else 0))"
    by blast+
  from alt show ?case
  proof (elim disjE exE conjE)
    assume "running s2 = thread_ready_list s ! i"
    then show ?thesis using s2(1) by (intro exI [of _ 1] exI [of _ s2]) simp
  next
    fix k assume k: "k < length (thread_ready_list s2)" "thread_ready_list s2 ! k = thread_ready_list s ! i"
      "waits s2 k + (if e = Timer_tick then 1 else 0) \<le> waits s i + (if \<exists>t. e = Wake t then 256 else 0)"
    have "waits s2 k + 256 * wakes_in es \<le> ticks_in es"
      using Cons.prems(5) k(3) by (auto split: if_splits)
    from Cons.IH [OF inv postD [OF do_event_ticks [OF Cons.prems(2)] s2(1)] k(1) s2(2) this] k(2)
    obtain n s1 where "n \<le> length es" "sched_run (take n es) s2 = Some s1" "running s1 = thread_ready_list s ! i"
      by auto
    then show ?thesis using s2(1) by (intro exI [of _ "Suc n"] exI [of _ s1]) simp
  qed
qed

section \<open>Properties\<close>

text \<open>A state with the main thread at 4096, the idle thread at 8192 and a worker at 12288.\<close>

definition sample_task :: "task_status \<Rightarrow> task_struct" where
  "sample_task st = \<lparr>self_kstack = 0, pid = 1, status = st, priority = 31, ticks = 31, tname = ''t'',
     elapsed_ticks = 0, fd_table = [0, 1, 2, - 1, - 1, - 1, - 1, - 1], pgdir = 0, cwd_inode_nr = 0,
     parent_pid = - 1, exit_status = 0, stack_magic = STACK_MAGIC\<rparr>"

definition sample_kst :: kst where
  "sample_kst = \<lparr>tasks = [4096 \<mapsto> sample_task TASK_RUNNING, 8192 \<mapsto> sample_task TASK_BLOCKED,
       12288 \<mapsto> sample_task TASK_READY],
     thread_ready_list = [12288], thread_all_list = [4096, 8192, 12288], running = 4096,
     idle_thread = 8192, main_thread_struct = 4096, intr = True, resume_intr = (\<lambda>t. True),
     timer_ticks = 0, active_pgdir = 0, tss_esp0 = 0\<rparr>"

lemma sample_kst_inv: "sched_inv sample_kst" "u8_ticks sample_kst"
  by (auto simp: sched_inv_def queue_inv_def sample_kst_def sample_task_def known_def stat_def
      may_unblock_def u8_ticks_def ran_def)

text \<open>C5: In every state the scheduler reaches from a sound one, by timer interrupts and by
  threads that block, wake others and yield, the invariant holds, and none of the scheduler's
  assertions fails in the next step: ticking, yielding and blocking are possible.\<close>

theorem scheduler_safe:
  assumes "sched_reach s0 s" and "sched_inv s0"
  shows "sched_inv s \<and> (\<exists>s'. intr_timer_handler s = Some s') \<and> (\<exists>s'. thread_yield s = Some s')
    \<and> (\<forall>st. may_unblock st \<longrightarrow> (\<exists>s'. thread_block st s = Some s'))"
proof -
  have "sched_inv s" using sched_reach_keeps [OF assms] .
  then show ?thesis using timer_runs [of s] thread_yield_runs [of s] thread_block_runs [of s] by blast
qed

theorem scheduler_safe_witness:
  "\<exists>s. thread_yield sample_kst = Some s \<and> sched_inv s \<and> (\<exists>s'. intr_timer_handler s = Some s')"
proof -
  obtain s where s: "thread_yield sample_kst = Some s"
    using thread_yield_runs [OF sample_kst_inv(1)] by blast
  have "sched_reach sample_kst s" by (rule more [OF start yield [OF s]])
  from scheduler_safe [OF this sample_kst_inv(1)] s show ?thesis by blast
qed

text \<open>C6: In every run of the scheduler, in which timer interrupts mix in any order with threads
  that block, wake others, yield and switch interrupts off and on, the thread at position \<open>i\<close> of
  the ready queue gets the processor before \<open>256 (i + 1 + u)\<close> timer interrupts have passed, where
  \<open>u\<close> is the number of threads woken meanwhile (a woken thread goes to the front of the queue and
  so costs every waiting thread a slice). Timer interrupts alone never fail, and then the bound
  is \<open>256 (i + 1)\<close>.\<close>

theorem ready_thread_runs:
  assumes "sched_inv s" and "u8_ticks s" and "i < length (thread_ready_list s)"
  shows "(\<forall>es s'. sched_run es s = Some s' \<longrightarrow> 256 * (i + 1 + wakes_in es) \<le> ticks_in es \<longrightarrow>
      (\<exists>k s1. k \<le> length es \<and> sched_run (take k es) s = Some s1 \<and> running s1 = thread_ready_list s ! i))
    \<and> (\<exists>n s'. n \<le> Suc i * 256 \<and> ticks_pass n s = Some s' \<and> running s' = thread_ready_list s ! i)"
proof (intro conjI allI impI)
  fix es s' assume es: "sched_run es s = Some s'" "256 * (i + 1 + wakes_in es) \<le> ticks_in es"
  have "waits s i + 256 * wakes_in es \<le> ticks_in es"
    using es(2) slice_bound [OF assms(1,2)] by (simp add: waits_def)
  then show "\<exists>k s1. k \<le> length es \<and> sched_run (take k es) s = Some s1 \<and> running s1 = thread_ready_list s ! i"
    by (rule run_reaches [OF assms es(1)])
qed (rule rotation [OF assms])

text \<open>A run for the witness: the idle thread is woken, the main thread yields, and 512 timer
  interrupts follow.\<close>

lemma ticks_run:
  assumes "sched_inv s" and "intr s" and "\<forall>t. resume_intr s t"
  shows "\<exists>s'. sched_run (replicate n Timer_tick) s = Some s'"
  using assms
proof (induction n arbitrary: s)
  case (Suc n)
  have r: "resume_intr s = (\<lambda>t. True)" using Suc.prems(3) by auto
  from timer_runs [OF Suc.prems(1)] obtain s1 where t: "intr_timer_handler s = Some s1" "sched_inv s1"
      and "intr s1 \<and> resume_intr s1 = (\<lambda>t. True)"
    by (auto simp: r fun_upd_def split: if_splits)
  then have s1: "intr_timer_handler s = Some s1" "sched_inv s1" "intr s1" "\<forall>t. resume_intr s1 t" by simp_all
  from Suc.IH [OF s1(2-4)] s1(1) Suc.prems(2) show ?case by simp
qed simp

definition sample_events :: "sched_event list" where
  "sample_events = Wake 8192 # Yield # replicate 512 Timer_tick"

lemma sample_events_counts: "ticks_in sample_events = 512" "wakes_in sample_events = 1"
  by (simp_all add: sample_events_def ticks_in_def wakes_in_def)

lemma sample_events_run: "\<exists>s'. sched_run sample_events sample_kst = Some s'"
proof -
  have u: "known sample_kst 8192" "may_unblock (stat sample_kst 8192)"
      "8192 \<notin> set (thread_ready_list sample_kst)"
    by (simp_all add: sample_kst_def sample_task_def known_def stat_def may_unblock_def)
  from thread_unlock_sched_inv [OF sample_kst_inv(1) u(1,2)] obtain s1
    where s1: "thread_unlock 8192 sample_kst = Some s1" "sched_inv s1" by blast
  have i1: "intr s1" "resume_intr s1 = (\<lambda>t. True)"
    using s1(1) unfolding thread_unlock_runs [OF u] by (auto simp: sample_kst_def)
  from thread_yield_runs [OF s1(2)] obtain s2 where s2: "thread_yield s1 = Some s2" "sched_inv s2"
      "intr s2" "\<forall>t. resume_intr s2 t"
    using i1 by (auto simp: fun_upd_def)
  from ticks_run [OF s2(2-4), of 512] s1(1) s2(1) show ?thesis by (simp add: sample_events_def)
qed

theorem ready_thread_runs_witness:
  "(\<exists>k s1. k \<le> length sample_events \<and> sched_run (take k sample_events) sample_kst = Some s1
      \<and> running s1 = 12288)
    \<and> (\<exists>n s'. n \<le> 256 \<and> ticks_pass n sample_kst = Some s' \<and> running s' = 12288)"
proof -
  obtain s' where run: "sched_run sample_events sample_kst = Some s'" using sample_events_run by blast
  have "0 < length (thread_ready_list sample_kst)" "thread_ready_list sample_kst ! 0 = 12288"
    by (simp_all add: sample_kst_def)
  then show ?thesis
    using ready_thread_runs [OF sample_kst_inv, of 0] run sample_events_counts by auto
qed

text \<open>A thread that blocks hands the processor to the head of the ready queue, or to the idle
  thread when nobody is ready; its own interrupt flag is kept for its return.\<close>

theorem thread_block_hands_over:
  assumes "sched_inv s" and "may_unblock st"
  shows "\<exists>s'. thread_block st s = Some s' \<and> sched_inv s'
    \<and> running s' = (if thread_ready_list s = [] then idle_thread s else hd (thread_ready_list s))
    \<and> thread_ready_list s' = tl (thread_ready_list s)
    \<and> resume_intr s' = (resume_intr s)(running s := intr s)"
  using thread_block_runs [OF assms] by blast

theorem thread_block_hands_over_witness:
  "\<exists>s'. thread_block TASK_BLOCKED sample_kst = Some s' \<and> running s' = 12288"
  using thread_block_hands_over [OF sample_kst_inv(1), of TASK_BLOCKED]
  by (auto simp: may_unblock_def sample_kst_def)

end
