(* ===== verification/Sync.thy ===== *)
theory Sync
  imports Prelude Sched
begin

text \<open>
  Semaphores and locks (\<open>thread/sync.c\<close>), with the interleaving of the threads that use a
  lock.

  The functions are cut where an interrupt or a switch may come in between:
  \<open>sema_down_loop\<close> is one evaluation of the loop of \<open>sema_down\<close> (interrupts are off there,
  and \<open>thread_block\<close> gives the processor away), \<open>sema_up\<close> is atomic, and the assignments of
  \<open>lock_acquire\<close> and \<open>lock_release\<close> to the lock's fields are single steps. \<open>lock_pc\<close> says
  where in these functions a thread stands. \<open>do_event\<close> is one step of the running thread, or
  a timer interrupt, or a scheduler call made by other code.

  The lemmas show that in every reachable state at most one thread is between the end of
  \<open>sema_down\<close> and the start of \<open>sema_up\<close>, that no assertion of the file can fail, that
  \<open>sema_down\<close> never spins on a semaphore it already waits for, and that a free lock is never
  left with sleeping waiters only.
\<close>

section \<open>State and operations\<close>

record semaphore =
  svalue :: nat
  waiters :: "nat list"

record lock =
  holder :: nat
  semaphore_of :: semaphore
  holder_repeat_nm :: nat

definition seam_init :: "nat \<Rightarrow> semaphore" where
  "seam_init v = \<lparr>svalue = v, waiters = []\<rparr>"

definition lock_init :: lock where
  "lock_init = \<lparr>holder = 0, semaphore_of = seam_init 1, holder_repeat_nm = 0\<rparr>"

text \<open>
  One evaluation of the loop condition of \<open>sema_down\<close>: the thread passes, goes to sleep and
  evaluates the condition again when it runs next, or evaluates it again at once.
\<close>

datatype down_result = Passed | Slept | Spins

definition sema_down_loop ::
  "bool \<Rightarrow> semaphore \<Rightarrow> kst \<Rightarrow> (down_result \<times> semaphore \<times> kst) option" where
  "sema_down_loop old_status psema s =
     (let pthread = get_running_thread_pcb s in
      if svalue psema = 0 then
        if pthread \<notin> set (waiters psema) then do {
          let psema = psema\<lparr>waiters := waiters psema @ [pthread]\<rparr>;
          s \<leftarrow> thread_block TASK_BLOCKED s;
          Some (Slept, psema, s)
        } else Some (Spins, psema, s)
      else do {
        let psema = psema\<lparr>svalue := u8 (svalue psema + 255)\<rparr>;
        _ \<leftarrow> ensure (svalue psema = 0);
        Some (Passed, psema, s\<lparr>intr := old_status\<rparr>)
      })"

definition sema_up :: "semaphore \<Rightarrow> kst \<Rightarrow> (semaphore \<times> kst) option" where
  "sema_up psema s = do {
     let old_status = intr s;
     let s = s\<lparr>intr := False\<rparr>;
     _ \<leftarrow> ensure (svalue psema = 0);
     (psema, s) \<leftarrow> (case waiters psema of
         [] \<Rightarrow> Some (psema, s)
       | pthread # rest \<Rightarrow> do {
           s \<leftarrow> thread_unlock pthread s;
           Some (psema\<lparr>waiters := rest\<rparr>, s)
         });
     let psema = psema\<lparr>svalue := u8 (svalue psema + 1)\<rparr>;
     Some (psema, s\<lparr>intr := old_status\<rparr>)
   }"

text \<open>
  Where a thread stands: outside the lock functions without the lock; in the loop of
  \<open>sema_down\<close>, with the interrupt status it saved; past \<open>sema_down\<close>; with \<open>holder\<close> set;
  outside the lock functions with the lock; in \<open>lock_release\<close> with the count cleared; with
  \<open>holder\<close> cleared, before \<open>sema_up\<close>.
\<close>

datatype lock_pc = Outside | InDown bool | PastDown | Named | Inside | Cleared | Unnamed

fun lock_acquire :: "lock_pc \<Rightarrow> lock \<Rightarrow> kst \<Rightarrow> (lock_pc \<times> lock \<times> kst) option" where
  "lock_acquire (InDown old_status) l s = do {
     (r, sm, s) \<leftarrow> sema_down_loop old_status (semaphore_of l) s;
     Some (if r = Passed then PastDown else InDown old_status, l\<lparr>semaphore_of := sm\<rparr>, s)
   }"
| "lock_acquire PastDown l s = Some (Named, l\<lparr>holder := get_running_thread_pcb s\<rparr>, s)"
| "lock_acquire Named l s = Some (Inside, l\<lparr>holder_repeat_nm := 1\<rparr>, s)"
| "lock_acquire pc l s =
     (if pc \<noteq> Outside \<and> pc \<noteq> Inside then None
      else if holder l \<noteq> get_running_thread_pcb s
      then Some (InDown (intr s), l, s\<lparr>intr := False\<rparr>)
      else Some (Inside, l\<lparr>holder_repeat_nm := u32 (holder_repeat_nm l + 1)\<rparr>, s))"

fun lock_release :: "lock_pc \<Rightarrow> lock \<Rightarrow> kst \<Rightarrow> (lock_pc \<times> lock \<times> kst) option" where
  "lock_release Inside l s = do {
     _ \<leftarrow> ensure (holder l = get_running_thread_pcb s);
     Some (if 1 < holder_repeat_nm l
           then (Inside, l\<lparr>holder_repeat_nm := holder_repeat_nm l - 1\<rparr>, s)
           else (Cleared, l\<lparr>holder_repeat_nm := 0\<rparr>, s))
   }"
| "lock_release Cleared l s = Some (Unnamed, l\<lparr>holder := 0\<rparr>, s)"
| "lock_release Unnamed l s = do {
     (sm, s) \<leftarrow> sema_up (semaphore_of l) s;
     Some (Outside, l\<lparr>semaphore_of := sm\<rparr>, s)
   }"
| "lock_release pc l s = None"

text \<open>
  A call of \<open>lock_acquire\<close> run until it returns (\<open>True\<close>) or until the calling thread sleeps on
  the semaphore (\<open>False\<close>), and a whole call of \<open>lock_release\<close>, without an interrupt in between.
\<close>

definition lock_take :: "lock \<Rightarrow> kst \<Rightarrow> (bool \<times> lock \<times> kst) option" where
  "lock_take l s = do {
     (pc, l, s) \<leftarrow> lock_acquire Outside l s;
     if pc = Inside then Some (True, l, s)
     else do {
       (pc, l, s) \<leftarrow> lock_acquire pc l s;
       if pc \<noteq> PastDown then Some (False, l, s)
       else do {
         (pc, l, s) \<leftarrow> lock_acquire pc l s;
         (pc, l, s) \<leftarrow> lock_acquire pc l s;
         Some (True, l, s)
       }
     }
   }"

definition lock_give :: "lock \<Rightarrow> kst \<Rightarrow> (lock \<times> kst) option" where
  "lock_give l s = do {
     (pc, l, s) \<leftarrow> lock_release Inside l s;
     if pc = Inside then Some (l, s)
     else do {
       (pc, l, s) \<leftarrow> lock_release pc l s;
       (pc, l, s) \<leftarrow> lock_release pc l s;
       Some (l, s)
     }
   }"

definition lock_free :: "lock \<Rightarrow> bool" where
  "lock_free l \<longleftrightarrow> holder l = 0 \<and> svalue (semaphore_of l) = 1"

text \<open>A free lock is taken at once; giving it back restores it.\<close>

lemma lock_take_free:
  assumes "lock_free l" and "running s \<noteq> 0"
  shows "lock_take l s = Some (True, l\<lparr>holder := running s,
    semaphore_of := (semaphore_of l)\<lparr>svalue := 0\<rparr>, holder_repeat_nm := 1\<rparr>, s)"
  using assms by (simp add: lock_take_def lock_free_def sema_down_loop_def get_running_thread_pcb_def u8_def)

lemma lock_give_taken:
  assumes "holder l = running s" and "holder_repeat_nm l = 1"
    and "svalue (semaphore_of l) = 0" and "waiters (semaphore_of l) = []"
  shows "lock_give l s = Some (l\<lparr>holder := 0, holder_repeat_nm := 0,
    semaphore_of := (semaphore_of l)\<lparr>svalue := 1\<rparr>\<rparr>, s)"
  using assms by (simp add: lock_give_def sema_up_def get_running_thread_pcb_def)

section \<open>The system of all threads around one lock\<close>

record lsys =
  kern :: kst
  lk :: lock
  pc_of :: "nat \<Rightarrow> lock_pc"

datatype lock_event = Acquire | Release | Tick | Block task_status | Wake nat | Yield

definition cur_pc :: "lsys \<Rightarrow> lock_pc" where
  "cur_pc g = pc_of g (running (kern g))"

definition on_kern :: "lsys \<Rightarrow> kst option \<Rightarrow> lsys option" where
  "on_kern g m = map_option (\<lambda>k. g\<lparr>kern := k\<rparr>) m"

definition on_lock :: "lsys \<Rightarrow> (lock_pc \<times> lock \<times> kst) option \<Rightarrow> lsys option" where
  "on_lock g m = map_option (\<lambda>(p, l, k).
     g\<lparr>kern := k, lk := l, pc_of := (pc_of g)(running (kern g) := p)\<rparr>) m"

fun do_event :: "lock_event \<Rightarrow> lsys \<Rightarrow> lsys option" where
  "do_event Acquire g = on_lock g (lock_acquire (cur_pc g) (lk g) (kern g))"
| "do_event Release g = on_lock g (lock_release (cur_pc g) (lk g) (kern g))"
| "do_event Tick g = on_kern g (intr_timer_handler (kern g))"
| "do_event (Block st) g = on_kern g (thread_block st (kern g))"
| "do_event (Wake t) g = on_kern g (thread_unlock t (kern g))"
| "do_event Yield g = on_kern g (thread_yield (kern g))"

text \<open>
  The events that can come next. A thread inside the lock functions goes on there; the idle
  thread does not use the lock; other code wakes only threads that do not wait for this lock;
  the nesting depth stays below \<open>2 ^ 32\<close>.
\<close>

fun enabled :: "lock_event \<Rightarrow> lsys \<Rightarrow> bool" where
  "enabled Acquire g \<longleftrightarrow> running (kern g) \<noteq> idle_thread (kern g)
     \<and> cur_pc g \<noteq> Cleared \<and> cur_pc g \<noteq> Unnamed \<and> holder_repeat_nm (lk g) < 4294967295"
| "enabled Release g \<longleftrightarrow> cur_pc g = Inside \<or> cur_pc g = Cleared \<or> cur_pc g = Unnamed"
| "enabled Tick g \<longleftrightarrow> intr (kern g)"
| "enabled (Block st) g \<longleftrightarrow> (cur_pc g = Outside \<or> cur_pc g = Inside) \<and> may_unblock st"
| "enabled (Wake t) g \<longleftrightarrow> known (kern g) t \<and> may_unblock (stat (kern g) t)
     \<and> t \<notin> set (waiters (semaphore_of (lk g)))"
| "enabled Yield g \<longleftrightarrow> cur_pc g = Outside \<or> cur_pc g = Inside"

inductive lock_step :: "lsys \<Rightarrow> lsys \<Rightarrow> bool" where
  event: "enabled e g \<Longrightarrow> do_event e g = Some g' \<Longrightarrow> lock_step g g'"

inductive_cases lock_stepE: "lock_step g g'"

inductive lock_reach :: "lsys \<Rightarrow> lsys \<Rightarrow> bool" for g0 where
  lstart: "lock_reach g0 g0"
| lmore: "lock_reach g0 g \<Longrightarrow> lock_step g g' \<Longrightarrow> lock_reach g0 g'"

definition lock_fresh :: "lsys \<Rightarrow> bool" where
  "lock_fresh g \<longleftrightarrow> sched_inv (kern g) \<and> lk g = lock_init \<and> pc_of g = (\<lambda>t. Outside)"

text \<open>A run of given events, for concrete examples.\<close>

fun run_events :: "lock_event list \<Rightarrow> lsys \<Rightarrow> lsys option" where
  "run_events [] g = Some g"
| "run_events (e # es) g = (if enabled e g then Option.bind (do_event e g) (run_events es) else None)"

lemma run_events_reach: "lock_reach g0 g \<Longrightarrow> run_events es g = Some g' \<Longrightarrow> lock_reach g0 g'"
  by (induction es arbitrary: g) (auto simp: runs_iff split: if_splits intro: lmore [OF _ event])

section \<open>Invariant\<close>

definition critical :: "lock_pc \<Rightarrow> bool" where
  "critical p \<longleftrightarrow> p = PastDown \<or> p = Named \<or> p = Inside \<or> p = Cleared \<or> p = Unnamed"

definition in_down :: "lock_pc \<Rightarrow> bool" where
  "in_down p \<longleftrightarrow> (\<exists>old. p = InDown old)"

definition naming :: "lock_pc \<Rightarrow> bool" where
  "naming p \<longleftrightarrow> p = Named \<or> p = Inside \<or> p = Cleared"

lemma pc_simps [simp]:
  "\<not> critical Outside" "\<not> critical (InDown b)" "critical PastDown" "critical Named"
  "critical Inside" "critical Cleared" "critical Unnamed"
  "\<not> in_down Outside" "in_down (InDown b)" "\<not> in_down PastDown" "\<not> in_down Named"
  "\<not> in_down Inside" "\<not> in_down Cleared" "\<not> in_down Unnamed"
  "\<not> naming Outside" "\<not> naming (InDown b)" "\<not> naming PastDown" "naming Named"
  "naming Inside" "naming Cleared" "\<not> naming Unnamed"
  by (simp_all add: critical_def in_down_def naming_def)

text \<open>Exclusion, the two descriptions of the owner, the waiters, and the interrupt flag.\<close>

definition excl :: "lock \<Rightarrow> (nat \<Rightarrow> lock_pc) \<Rightarrow> bool" where
  "excl l pc \<longleftrightarrow> (\<forall>t u. critical (pc t) \<longrightarrow> critical (pc u) \<longrightarrow> t = u)
     \<and> svalue (semaphore_of l) = (if \<exists>t. critical (pc t) then 0 else 1)
     \<and> (\<forall>t. naming (pc t) \<longrightarrow> holder l = t)
     \<and> ((\<forall>t. \<not> naming (pc t)) \<longrightarrow> holder l = 0)"

definition waiting :: "kst \<Rightarrow> nat list \<Rightarrow> (nat \<Rightarrow> lock_pc) \<Rightarrow> bool" where
  "waiting k ws pc \<longleftrightarrow> distinct ws
     \<and> (\<forall>w \<in> set ws. known k w \<and> w \<noteq> running k \<and> w \<notin> set (thread_ready_list k) \<and> in_down (pc w))
     \<and> \<not> in_down (pc (idle_thread k)) \<and> \<not> critical (pc (idle_thread k))"

definition no_lost_wakeup :: "nat list \<Rightarrow> (nat \<Rightarrow> lock_pc) \<Rightarrow> bool" where
  "no_lost_wakeup ws pc \<longleftrightarrow>
     (ws \<noteq> [] \<longrightarrow> (\<exists>t. critical (pc t)) \<or> (\<exists>t. in_down (pc t) \<and> t \<notin> set ws))"

definition masked :: "kst \<Rightarrow> (nat \<Rightarrow> lock_pc) \<Rightarrow> bool" where
  "masked k pc \<longleftrightarrow> (\<forall>t. in_down (pc t) \<longrightarrow> (if t = running k then \<not> intr k else \<not> resume_intr k t))"

definition lock_inv :: "lsys \<Rightarrow> bool" where
  "lock_inv g \<longleftrightarrow> sched_inv (kern g) \<and> excl (lk g) (pc_of g)
     \<and> waiting (kern g) (waiters (semaphore_of (lk g))) (pc_of g)
     \<and> no_lost_wakeup (waiters (semaphore_of (lk g))) (pc_of g)
     \<and> masked (kern g) (pc_of g)"

lemma lock_fresh_inv: "lock_fresh g \<Longrightarrow> lock_inv g"
  by (simp add: lock_fresh_def lock_inv_def excl_def waiting_def no_lost_wakeup_def masked_def
      lock_init_def seam_init_def)

section \<open>Every step keeps the invariant\<close>

lemma waiting_switch:
  assumes "sched_inv k" and "waiting k ws pc"
    and "running k' \<in> insert (running k) (insert (idle_thread k) (set (thread_ready_list k)))"
    and "set (thread_ready_list k') \<subseteq> insert (running k) (set (thread_ready_list k))"
    and "\<forall>t. known k' t = known k t" and "idle_thread k' = idle_thread k"
  shows "waiting k' ws pc"
  using assms by (fastforce simp: waiting_def)

lemma masked_switch:
  assumes "masked k pc" and "resume_intr k' = (resume_intr k)(running k := b)"
    and "intr k' = resume_intr k' (running k')" and "in_down (pc (running k)) \<longrightarrow> \<not> b"
  shows "masked k' pc"
  using assms by (auto simp: masked_def)

lemma switch_sets:
  "r' = (if q = [] then i else hd q) \<Longrightarrow> r' \<in> insert r (insert i (set q))"
  "r' = hd (q @ [r]) \<Longrightarrow> r' \<in> insert r (insert i (set q))"
  "q' = tl q \<Longrightarrow> set q' \<subseteq> insert r (set q)"
  "q' = tl (q @ [r]) \<Longrightarrow> set q' \<subseteq> insert r (set q)"
  by (cases q; auto)+

text \<open>Events outside the lock functions.\<close>

lemma lock_inv_kern:
  assumes "lock_inv g" and "sched_inv k'" and "waiting k' (waiters (semaphore_of (lk g))) (pc_of g)"
    and "masked k' (pc_of g)"
  shows "lock_inv (g\<lparr>kern := k'\<rparr>)"
  using assms by (simp add: lock_inv_def)

lemma other_events_inv:
  assumes "lock_inv g" and "enabled e g" and "e \<noteq> Acquire" and "e \<noteq> Release"
  shows "\<exists>g'. do_event e g = Some g' \<and> lock_inv g'"
proof -
  let ?k = "kern g" and ?r = "running (kern g)" and ?q = "thread_ready_list (kern g)"
  let ?ws = "waiters (semaphore_of (lk g))"
  have i: "sched_inv ?k" "waiting ?k ?ws (pc_of g)" "masked ?k (pc_of g)"
    using assms(1) by (auto simp: lock_inv_def)
  have keep: "\<exists>g'. do_event e g = Some g' \<and> lock_inv g'"
    if "m = Some k'" "do_event e g = on_kern g m" "sched_inv k'"
      "running k' \<in> insert (running ?k) (insert (idle_thread ?k) (set (thread_ready_list ?k)))"
      "set (thread_ready_list k') \<subseteq> insert (running ?k) (set (thread_ready_list ?k))"
      "\<forall>t. known k' t = known ?k t" "idle_thread k' = idle_thread ?k" "masked k' (pc_of g)" for m k'
    using lock_inv_kern [OF assms(1) that(3) waiting_switch [OF i(1,2) that(4-7)] that(8)] that(1,2)
    by (simp add: on_kern_def)
  consider "e = Tick" | st where "e = Block st" | t where "e = Wake t" | "e = Yield"
    using assms(3,4) by (cases e) auto
  then show ?thesis
  proof cases
    case 1
    then have on: "\<not> in_down (pc_of g (running ?k))" "intr ?k"
      using assms(2) i(3) by (auto simp: masked_def)
    obtain k' where k': "intr_timer_handler ?k = Some k'" "sched_inv k'"
        "if ticks (the (tasks ?k (running ?k))) = 0
         then running k' = hd (thread_ready_list ?k @ [running ?k])
           \<and> thread_ready_list k' = tl (thread_ready_list ?k @ [running ?k])
           \<and> resume_intr k' = (resume_intr ?k)(running ?k := True) \<and> intr k' = resume_intr k' (running k')
         else running k' = running ?k \<and> thread_ready_list k' = thread_ready_list ?k
           \<and> resume_intr k' = resume_intr ?k \<and> intr k'
           \<and> ticks (the (tasks k' (running ?k))) = ticks (the (tasks ?k (running ?k))) - 1"
        "\<forall>u. known k' u = known ?k u" "idle_thread k' = idle_thread ?k"
      using timer_runs [OF i(1)] by blast
    have "masked k' (pc_of g)"
      using k'(3) masked_switch [OF i(3), of k' True] on i(3)
      by (auto simp: masked_def split: if_splits)
    moreover have "running k' \<in> insert ?r (insert (idle_thread ?k) (set ?q))"
      using k'(3) switch_sets(2) [of "running k'" ?q ?r "idle_thread ?k"] by (auto split: if_splits)
    moreover have "set (thread_ready_list k') \<subseteq> insert ?r (set ?q)"
      using k'(3) switch_sets(4) [of "thread_ready_list k'" ?q ?r] by (auto split: if_splits)
    ultimately show ?thesis using keep [OF k'(1)] k'(2,4,5) 1 by simp
  next
    case 2
    from thread_block_runs [OF i(1), of st] assms(2) 2 obtain k'
      where k': "thread_block st ?k = Some k'" "sched_inv k'"
        "running k' = (if thread_ready_list ?k = [] then idle_thread ?k else hd (thread_ready_list ?k))"
        "thread_ready_list k' = tl (thread_ready_list ?k)" "\<forall>u. known k' u = known ?k u"
        "idle_thread k' = idle_thread ?k" "resume_intr k' = (resume_intr ?k)(running ?k := intr ?k)"
        "intr k' = resume_intr k' (running k')" by auto
    have "masked k' (pc_of g)"
      using masked_switch [OF i(3), of k' "intr ?k"] assms(2) 2 k' by (auto simp: cur_pc_def)
    then show ?thesis
      using keep [OF k'(1) _ k'(2) switch_sets(1) [OF k'(3)] switch_sets(3) [OF k'(4)] k'(5,6)] 2
      by simp
  next
    case 3
    from thread_unlock_sched_inv [OF i(1), of t] assms(2) 3 obtain k'
      where k': "thread_unlock t ?k = Some k'" "sched_inv k'" "running k' = running ?k"
        "thread_ready_list k' = t # thread_ready_list ?k" "intr k' = intr ?k"
        "\<forall>u. known k' u = known ?k u" "idle_thread k' = idle_thread ?k" "resume_intr k' = resume_intr ?k"
      by auto
    have "waiting k' ?ws (pc_of g)" using i(2) k' 3 assms(2) by (auto simp: waiting_def)
    moreover have "masked k' (pc_of g)" using i(3) k' by (auto simp: masked_def)
    ultimately show ?thesis using lock_inv_kern [OF assms(1) k'(2)] 3 k'(1) by (simp add: on_kern_def)
  next
    case 4
    from thread_yield_runs [OF i(1)] obtain k'
      where k': "thread_yield ?k = Some k'" "sched_inv k'"
        "running k' = hd (thread_ready_list ?k @ [running ?k])"
        "thread_ready_list k' = tl (thread_ready_list ?k @ [running ?k])" "\<forall>u. known k' u = known ?k u"
        "idle_thread k' = idle_thread ?k" "resume_intr k' = (resume_intr ?k)(running ?k := intr ?k)"
        "intr k' = resume_intr k' (running k')" by auto
    have "masked k' (pc_of g)"
      using masked_switch [OF i(3), of k' "intr ?k"] assms(2) 4 k' by (auto simp: cur_pc_def)
    then show ?thesis
      using keep [OF k'(1) _ k'(2) switch_sets(2) [OF k'(3)] switch_sets(4) [OF k'(4)] k'(5,6)] 4
      by simp
  qed
qed

text \<open>Steps inside the lock functions.\<close>

lemma excl_move:
  assumes "excl l pc" and "critical (pc r) = critical p" and "naming (pc r) = naming p"
    and "holder l' = holder l" and "semaphore_of l' = semaphore_of l"
  shows "excl l' (pc(r := p))"
proof -
  have "critical ((pc(r := p)) t) = critical (pc t)" "naming ((pc(r := p)) t) = naming (pc t)" for t
    using assms(2,3) by auto
  with assms show ?thesis by (simp add: excl_def)
qed

lemma waiting_move:
  assumes "waiting k ws pc" and "r \<notin> set ws" and "r = idle_thread k \<longrightarrow> \<not> in_down p \<and> \<not> critical p"
  shows "waiting k ws (pc(r := p))"
  using assms by (auto simp: waiting_def)

lemma waiting_running: "waiting k ws pc \<Longrightarrow> running k \<notin> set ws"
  by (auto simp: waiting_def)

lemma critical_not_idle: "waiting k ws pc \<Longrightarrow> critical (pc r) \<or> in_down (pc r) \<Longrightarrow> r \<noteq> idle_thread k"
  by (auto simp: waiting_def)

lemma waiting_frame [simp]: "waiting (k\<lparr>intr := b\<rparr>) ws pc = waiting k ws pc"
  by (simp add: waiting_def)

lemma sched_inv_intr [simp]: "sched_inv (k\<lparr>intr := b\<rparr>) = sched_inv k"
  by (simp add: sched_inv_def queue_inv_def)

lemma no_lost_critical: "critical (pc t) \<Longrightarrow> no_lost_wakeup ws pc"
  by (auto simp: no_lost_wakeup_def)

lemma no_lost_fresh: "in_down (pc t) \<Longrightarrow> t \<notin> set ws \<Longrightarrow> no_lost_wakeup ws pc"
  by (auto simp: no_lost_wakeup_def)

lemma masked_move:
  "masked k pc \<Longrightarrow> \<not> in_down p \<Longrightarrow> masked k (pc(running k := p))"
  "masked k pc \<Longrightarrow> \<not> in_down p \<Longrightarrow> masked (k\<lparr>intr := b\<rparr>) (pc(running k := p))"
  "masked k pc \<Longrightarrow> masked (k\<lparr>intr := False\<rparr>) (pc(running k := p))"
  by (auto simp: masked_def)

lemma lock_inv_at:
  assumes "sched_inv k" and "excl l pc" and "waiting k (waiters (semaphore_of l)) pc"
    and "no_lost_wakeup (waiters (semaphore_of l)) pc" and "masked k pc"
  shows "lock_inv (g\<lparr>kern := k, lk := l, pc_of := pc\<rparr>)"
  using assms by (simp add: lock_inv_def)

lemma on_lock_inv:
  assumes "m = Some (p, l, k)" and "lock_inv (g\<lparr>kern := k, lk := l, pc_of := (pc_of g)(running (kern g) := p)\<rparr>)"
  shows "\<exists>g'. on_lock g m = Some g' \<and> lock_inv g'"
  using assms by (simp add: on_lock_def)

lemma excl_holder: "excl l pc \<Longrightarrow> \<not> naming (pc r) \<Longrightarrow> r \<noteq> 0 \<Longrightarrow> holder l \<noteq> r"
  by (auto simp: excl_def)

lemma naming_critical: "naming p \<Longrightarrow> critical p"
  by (auto simp: naming_def)

lemma excl_take:
  assumes "excl l pc" and "svalue (semaphore_of l) \<noteq> 0"
  shows "excl (l\<lparr>semaphore_of := (semaphore_of l)\<lparr>svalue := 0\<rparr>\<rparr>) (pc(r := PastDown))"
    and "svalue (semaphore_of l) = 1" and "\<not> critical (pc t)"
proof -
  have n: "\<not> critical (pc t)" for t using assms by (auto simp: excl_def split: if_splits)
  then show "\<not> critical (pc t)" .
  have "\<not> naming (pc t)" for t using n naming_critical by blast
  then show "excl (l\<lparr>semaphore_of := (semaphore_of l)\<lparr>svalue := 0\<rparr>\<rparr>) (pc(r := PastDown))"
    using assms n by (auto simp: excl_def)
  show "svalue (semaphore_of l) = 1" using assms(1) n by (auto simp: excl_def)
qed

lemma excl_name:
  assumes "excl l pc" and "pc r = PastDown"
  shows "excl (l\<lparr>holder := r\<rparr>) (pc(r := Named))"
proof -
  have "t = r" if "critical (pc t)" for t using assms that by (auto simp: excl_def)
  then have "t = r" if "naming (pc t)" for t using naming_critical that by blast
  with assms(2) have "\<not> naming (pc t)" for t by (metis pc_simps(17))
  moreover have "\<exists>t. critical (pc t)" using assms(2) by (metis pc_simps(3))
  ultimately show ?thesis using assms by (auto simp: excl_def)
qed

lemma excl_sema:
  "svalue sm = svalue (semaphore_of l) \<Longrightarrow> excl (l\<lparr>semaphore_of := sm\<rparr>) pc = excl l pc"
  by (simp add: excl_def)

lemma sched_inv_running:
  "sched_inv k \<Longrightarrow> running k \<notin> set (thread_ready_list k) \<and> known k (running k)"
  by (simp add: sched_inv_def queue_inv_def)

lemma acquire_inv:
  assumes "lock_inv g" and "enabled Acquire g"
  shows "\<exists>g'. do_event Acquire g = Some g' \<and> lock_inv g'"
proof -
  let ?k = "kern g" and ?l = "lk g" and ?r = "running (kern g)"
  let ?sm = "semaphore_of (lk g)"
  have i: "sched_inv ?k" "excl ?l (pc_of g)" "waiting ?k (waiters ?sm) (pc_of g)"
      "no_lost_wakeup (waiters ?sm) (pc_of g)" "masked ?k (pc_of g)"
    using assms(1) by (auto simp: lock_inv_def)
  have r: "?r \<noteq> idle_thread ?k" "?r \<notin> set (waiters ?sm)"
    using assms(2) i(3) by (auto simp: waiting_def)
  have pc: "do_event Acquire g = on_lock g (lock_acquire (pc_of g ?r) ?l ?k)"
    by (simp add: cur_pc_def)
  consider "pc_of g ?r = Outside" | old where "pc_of g ?r = InDown old" | "pc_of g ?r = PastDown"
    | "pc_of g ?r = Named" | "pc_of g ?r = Inside"
    using assms(2) by (cases "pc_of g ?r") (auto simp: cur_pc_def)
  then show ?thesis unfolding pc
  proof cases
    case 1
    have "holder ?l \<noteq> ?r" using excl_holder [OF i(2)] 1 running_nz [OF i(1)] by simp
    then have "lock_acquire (pc_of g ?r) ?l ?k = Some (InDown (intr ?k), ?l, ?k\<lparr>intr := False\<rparr>)"
      using 1 by (simp add: get_running_thread_pcb_def)
    then show "\<exists>g'. on_lock g (lock_acquire (pc_of g ?r) ?l ?k) = Some g' \<and> lock_inv g'"
      by (rule on_lock_inv, intro lock_inv_at)
        (use i r 1 in \<open>auto intro!: excl_move waiting_move masked_move intro: no_lost_fresh [of _ ?r]\<close>)
  next
    case 2
    then have "in_down (pc_of g ?r)" by simp
    then have off: "\<not> intr ?k" using i(5) unfolding masked_def by metis
    show "\<exists>g'. on_lock g (lock_acquire (pc_of g ?r) ?l ?k) = Some g' \<and> lock_inv g'"
    proof (cases "svalue ?sm = 0")
      case True
      from thread_block_runs [OF i(1), of TASK_BLOCKED] obtain k'
        where k': "thread_block TASK_BLOCKED ?k = Some k'" "sched_inv k'"
          "running k' = (if thread_ready_list ?k = [] then idle_thread ?k else hd (thread_ready_list ?k))"
          "thread_ready_list k' = tl (thread_ready_list ?k)" "\<forall>u. known k' u = known ?k u"
          "idle_thread k' = idle_thread ?k" "resume_intr k' = (resume_intr ?k)(?r := intr ?k)"
          "intr k' = resume_intr k' (running k')" by (auto simp: may_unblock_def)
      let ?sm' = "?sm\<lparr>waiters := waiters ?sm @ [?r]\<rparr>"
      have same: "(pc_of g)(?r := InDown old) = pc_of g" using 2 by auto
      have "waiting k' (waiters ?sm) (pc_of g)"
        by (rule waiting_switch [OF i(1,3) switch_sets(1) [OF k'(3)] switch_sets(3) [OF k'(4)] k'(5,6)])
      moreover have "?r \<noteq> running k'" "?r \<notin> set (thread_ready_list k')" "known k' ?r"
        using sched_inv_running [OF i(1)] r(1) k'(3-5) by (cases "thread_ready_list ?k"; auto)+
      ultimately have w: "waiting k' (waiters ?sm') (pc_of g)" using 2 r(2) by (auto simp: waiting_def)
      have m: "masked k' (pc_of g)" using off k'(7,8) by (intro masked_switch [OF i(5)]) auto
      obtain t where c: "critical (pc_of g t)"
        using i(2) True by (auto simp: excl_def split: if_splits)
      have "lock_acquire (pc_of g ?r) ?l ?k = Some (InDown old, ?l\<lparr>semaphore_of := ?sm'\<rparr>, k')"
        using 2 True r(2) k'(1) by (simp add: sema_down_loop_def get_running_thread_pcb_def)
      then show ?thesis
        by (rule on_lock_inv, unfold same, intro lock_inv_at)
          (use i(2) k'(2) w m in \<open>simp_all add: excl_sema no_lost_critical [where pc = "pc_of g", OF c]\<close>)
    next
      case False
      note t = excl_take [OF i(2) False]
      have "lock_acquire (pc_of g ?r) ?l ?k =
          Some (PastDown, ?l\<lparr>semaphore_of := ?sm\<lparr>svalue := 0\<rparr>\<rparr>, ?k\<lparr>intr := old\<rparr>)"
        using 2 t(2) by (simp add: sema_down_loop_def u8_def)
      then show ?thesis
        by (rule on_lock_inv, intro lock_inv_at)
          (use i r t(1) in \<open>auto intro!: waiting_move masked_move intro: no_lost_critical [of _ ?r]\<close>)
    qed
  next
    case 3
    then have "lock_acquire (pc_of g ?r) ?l ?k = Some (Named, ?l\<lparr>holder := ?r\<rparr>, ?k)"
      by (simp add: get_running_thread_pcb_def)
    then show "\<exists>g'. on_lock g (lock_acquire (pc_of g ?r) ?l ?k) = Some g' \<and> lock_inv g'"
      by (rule on_lock_inv, intro lock_inv_at)
        (use i r 3 in \<open>auto intro!: excl_name waiting_move masked_move intro: no_lost_critical [of _ ?r]\<close>)
  next
    case 4
    then have "lock_acquire (pc_of g ?r) ?l ?k = Some (Inside, ?l\<lparr>holder_repeat_nm := 1\<rparr>, ?k)"
      by simp
    then show "\<exists>g'. on_lock g (lock_acquire (pc_of g ?r) ?l ?k) = Some g' \<and> lock_inv g'"
      by (rule on_lock_inv, intro lock_inv_at)
        (use i r 4 in \<open>auto intro!: excl_move waiting_move masked_move intro: no_lost_critical [of _ ?r]\<close>)
  next
    case 5
    have "holder ?l = ?r" using i(2) 5 by (simp add: excl_def)
    then have "lock_acquire (pc_of g ?r) ?l ?k =
        Some (Inside, ?l\<lparr>holder_repeat_nm := u32 (holder_repeat_nm ?l + 1)\<rparr>, ?k)"
      using 5 by (simp add: get_running_thread_pcb_def)
    then show "\<exists>g'. on_lock g (lock_acquire (pc_of g ?r) ?l ?k) = Some g' \<and> lock_inv g'"
      by (rule on_lock_inv, intro lock_inv_at)
        (use i r 5 in \<open>auto intro!: excl_move waiting_move masked_move intro: no_lost_critical [of _ ?r]\<close>)
  qed
qed

lemma excl_unname:
  assumes "excl l pc" and "pc r = Cleared"
  shows "excl (l\<lparr>holder := 0\<rparr>) (pc(r := Unnamed))"
proof -
  have "critical (pc r)" using assms(2) by simp
  then have u: "t = r" if "critical (pc t)" for t using assms(1) that by (auto simp: excl_def)
  have "\<not> naming ((pc(r := Unnamed)) t)" for t using u [of t] naming_critical [of "pc t"] by auto
  moreover have "critical ((pc(r := Unnamed)) t) = critical (pc t)" for t using assms(2) by simp
  ultimately show ?thesis using assms(1) by (simp add: excl_def)
qed

lemma excl_leave:
  assumes "excl l pc" and "pc r = Unnamed"
  shows "excl (l\<lparr>semaphore_of := (semaphore_of l)\<lparr>waiters := ws, svalue := 1\<rparr>\<rparr>) (pc(r := Outside))"
    and "svalue (semaphore_of l) = 0"
proof -
  have c: "critical (pc r)" using assms(2) by simp
  then have u: "t = r" if "critical (pc t)" for t using assms(1) that by (auto simp: excl_def)
  have n: "\<not> critical ((pc(r := Outside)) t)" for t using u [of t] by auto
  then have "\<not> naming ((pc(r := Outside)) t)" for t using naming_critical by blast
  moreover have "\<not> naming (pc t)" for t
    using u [of t] naming_critical [of "pc t"] assms(2) by auto
  ultimately show "excl (l\<lparr>semaphore_of := (semaphore_of l)\<lparr>waiters := ws, svalue := 1\<rparr>\<rparr>) (pc(r := Outside))"
    using assms(1) n by (simp add: excl_def)
  show "svalue (semaphore_of l) = 0" using assms(1) c by (auto simp: excl_def)
qed

lemma release_inv:
  assumes "lock_inv g" and "enabled Release g"
  shows "\<exists>g'. do_event Release g = Some g' \<and> lock_inv g'"
proof -
  let ?k = "kern g" and ?l = "lk g" and ?r = "running (kern g)"
  let ?sm = "semaphore_of (lk g)"
  have i: "sched_inv ?k" "excl ?l (pc_of g)" "waiting ?k (waiters ?sm) (pc_of g)"
      "no_lost_wakeup (waiters ?sm) (pc_of g)" "masked ?k (pc_of g)"
    using assms(1) by (auto simp: lock_inv_def)
  have r: "?r \<notin> set (waiters ?sm)" using i(3) by (auto simp: waiting_def)
  have pc: "do_event Release g = on_lock g (lock_release (pc_of g ?r) ?l ?k)"
    by (simp add: cur_pc_def)
  consider "pc_of g ?r = Inside" | "pc_of g ?r = Cleared" | "pc_of g ?r = Unnamed"
    using assms(2) by (auto simp: cur_pc_def)
  then show ?thesis unfolding pc
  proof cases
    case 1
    then have id: "?r \<noteq> idle_thread ?k" using critical_not_idle [OF i(3), of ?r] by simp
    have "holder ?l = ?r" using i(2) 1 by (simp add: excl_def)
    then have "lock_release (pc_of g ?r) ?l ?k = Some (if 1 < holder_repeat_nm ?l then Inside else Cleared,
        ?l\<lparr>holder_repeat_nm := if 1 < holder_repeat_nm ?l then holder_repeat_nm ?l - 1 else 0\<rparr>, ?k)"
      using 1 by (simp add: get_running_thread_pcb_def)
    then show "\<exists>g'. on_lock g (lock_release (pc_of g ?r) ?l ?k) = Some g' \<and> lock_inv g'"
      by (rule on_lock_inv, intro lock_inv_at)
        (use i r id 1 in \<open>auto intro!: excl_move waiting_move masked_move intro: no_lost_critical [of _ ?r]\<close>)
  next
    case 2
    then have id: "?r \<noteq> idle_thread ?k" using critical_not_idle [OF i(3), of ?r] by simp
    have "lock_release (pc_of g ?r) ?l ?k = Some (Unnamed, ?l\<lparr>holder := 0\<rparr>, ?k)" using 2 by simp
    then show "\<exists>g'. on_lock g (lock_release (pc_of g ?r) ?l ?k) = Some g' \<and> lock_inv g'"
      by (rule on_lock_inv, intro lock_inv_at)
        (use i r id 2 in \<open>auto intro!: excl_unname waiting_move masked_move intro: no_lost_critical [of _ ?r]\<close>)
  next
    case 3
    note lv = excl_leave [OF i(2) 3]
    show "\<exists>g'. on_lock g (lock_release (pc_of g ?r) ?l ?k) = Some g' \<and> lock_inv g'"
    proof (cases "waiters ?sm")
      case Nil
      then have "lock_release (pc_of g ?r) ?l ?k =
          Some (Outside, ?l\<lparr>semaphore_of := ?sm\<lparr>waiters := [], svalue := 1\<rparr>\<rparr>, ?k\<lparr>intr := intr ?k\<rparr>)"
        using 3 lv(2) by (cases ?sm) (simp add: sema_up_def)
      then show ?thesis
        by (rule on_lock_inv, intro lock_inv_at)
          (use i(1,3,5) Nil lv(1) in \<open>auto intro!: waiting_move masked_move simp: no_lost_wakeup_def\<close>)
    next
      case (Cons w rest)
      have w: "known ?k w" "w \<noteq> ?r" "w \<notin> set (thread_ready_list ?k)" "in_down (pc_of g w)"
          "w \<notin> set rest" "distinct rest"
        using i(3) Cons by (auto simp: waiting_def)
      have "may_unblock (stat ?k w)" using i(1) w(1-3) by (auto simp: sched_inv_def queue_inv_def)
      moreover have "sched_inv (?k\<lparr>intr := False\<rparr>)" using i(1) by simp
      ultimately obtain k' where k': "thread_unlock w (?k\<lparr>intr := False\<rparr>) = Some k'" "sched_inv k'"
          "running k' = ?r" "thread_ready_list k' = w # thread_ready_list ?k"
          "\<forall>u. known k' u = known ?k u" "idle_thread k' = idle_thread ?k"
          "resume_intr k' = resume_intr ?k"
        using thread_unlock_sched_inv [of "?k\<lparr>intr := False\<rparr>" w] w(1) by auto
      have eq: "lock_release (pc_of g ?r) ?l ?k =
          Some (Outside, ?l\<lparr>semaphore_of := ?sm\<lparr>waiters := rest, svalue := 1\<rparr>\<rparr>, k'\<lparr>intr := intr ?k\<rparr>)"
        using 3 lv(2) k'(1) Cons by (cases ?sm) (simp add: sema_up_def)
      have "waiting k' rest ((pc_of g)(?r := Outside))"
        using i(3) Cons k' w by (auto simp: waiting_def)
      moreover have "masked (k'\<lparr>intr := intr ?k\<rparr>) ((pc_of g)(?r := Outside))"
        using i(5) k'(3,7) by (auto simp: masked_def)
      moreover have "no_lost_wakeup rest ((pc_of g)(?r := Outside))"
        using w by (intro no_lost_fresh [of _ w]) auto
      ultimately show ?thesis
        by (intro on_lock_inv [OF eq] lock_inv_at) (use k'(2) lv(1) in auto)
    qed
  qed
qed

lemma event_inv:
  assumes "lock_inv g" and "enabled e g"
  shows "\<exists>g'. do_event e g = Some g' \<and> lock_inv g'"
  using acquire_inv [OF assms(1)] release_inv [OF assms(1)] other_events_inv [OF assms] assms(2)
  by (cases "e = Acquire \<or> e = Release") auto

lemma lock_reach_inv: "lock_reach g0 g \<Longrightarrow> lock_inv g0 \<Longrightarrow> lock_inv g"
proof (induction rule: lock_reach.induct)
  case (lmore g g')
  then show ?case using event_inv by (fastforce elim: lock_stepE)
qed

section \<open>Properties\<close>

text \<open>C1: From a fresh lock, in every interleaving of the steps of \<open>lock_acquire\<close> and
  \<open>lock_release\<close> of all threads with timer interrupts, blocking, waking and yielding: at most
  one thread is between the two functions, every enabled step runs without a failing assertion,
  and while threads wait, some thread holds the lock or is on its way to take it.\<close>

theorem lock_mutual_exclusion:
  assumes "lock_fresh g0" and "lock_reach g0 g"
  shows "(\<forall>t u. critical (pc_of g t) \<longrightarrow> critical (pc_of g u) \<longrightarrow> t = u)
    \<and> (\<forall>e. enabled e g \<longrightarrow> (\<exists>g'. do_event e g = Some g'))
    \<and> (waiters (semaphore_of (lk g)) \<noteq> [] \<longrightarrow> (\<exists>t. critical (pc_of g t))
        \<or> (\<exists>t. in_down (pc_of g t) \<and> t \<notin> set (waiters (semaphore_of (lk g)))))"
proof -
  have inv: "lock_inv g" using lock_reach_inv [OF assms(2) lock_fresh_inv [OF assms(1)]] .
  then have "excl (lk g) (pc_of g)" "no_lost_wakeup (waiters (semaphore_of (lk g))) (pc_of g)"
    by (simp_all add: lock_inv_def)
  then show ?thesis unfolding excl_def no_lost_wakeup_def using event_inv [OF inv] by blast
qed

definition sample_lsys :: lsys where
  "sample_lsys = \<lparr>kern = sample_kst, lk = lock_init, pc_of = (\<lambda>t. Outside)\<rparr>"

lemma sample_lsys_fresh: "lock_fresh sample_lsys"
  using sample_kst_inv by (simp add: lock_fresh_def sample_lsys_def)

text \<open>The main thread enters the lock and yields; the worker then waits for it.\<close>

definition contention :: "lock_event list" where
  "contention = [Acquire, Acquire, Acquire, Acquire, Yield, Acquire, Acquire]"

theorem lock_mutual_exclusion_witness:
  "\<exists>g. run_events contention sample_lsys = Some g \<and> pc_of g 4096 = Inside
    \<and> waiters (semaphore_of (lk g)) = [12288]
    \<and> (\<forall>u. critical (pc_of g u) \<longrightarrow> u = 4096)"
proof -
  have "case run_events contention sample_lsys of None \<Rightarrow> False
    | Some g \<Rightarrow> pc_of g 4096 = Inside \<and> waiters (semaphore_of (lk g)) = [12288]"
    by (simp add: contention_def sample_lsys_def sample_kst_def sample_task_def on_lock_def on_kern_def
        cur_pc_def get_running_thread_pcb_def sema_down_loop_def lock_init_def seam_init_def u8_def
        thread_yield_def thread_block_def may_unblock_def switch_away_def schedule_def upd_task_def
        process_activate_def page_dir_activate_def Let_def)
  then obtain g where g: "run_events contention sample_lsys = Some g" "pc_of g 4096 = Inside"
      "waiters (semaphore_of (lk g)) = [12288]" by (auto split: option.splits)
  have "lock_reach sample_lsys g" by (rule run_events_reach [OF lstart g(1)])
  from lock_mutual_exclusion [OF sample_lsys_fresh this] g show ?thesis by force
qed

text \<open>A thread that acquires a free lock nobody waits for holds it, and releasing it frees it
  again; both run without a switch.\<close>

theorem lock_take_give:
  assumes "lock_free l" and "waiters (semaphore_of l) = []" and "running s \<noteq> 0"
  shows "\<exists>l'. lock_take l s = Some (True, l', s) \<and> holder l' = running s
    \<and> (\<exists>l''. lock_give l' s = Some (l'', s) \<and> lock_free l'')"
  using lock_take_free [OF assms(1,3)] assms(2)
  by (simp add: lock_give_taken lock_free_def)

theorem lock_take_give_witness: "\<exists>l'. lock_take lock_init sample_kst = Some (True, l', sample_kst) \<and> holder l' = 4096"
  using lock_take_give [of lock_init sample_kst]
  by (auto simp: lock_free_def lock_init_def seam_init_def sample_kst_def)

end
