(* ===== verification/IoQueue.thy ===== *)
theory IoQueue
  imports Prelude Sync
begin

text \<open>
  The ring buffer between one producer and one consumer (\<open>device/ioqueue.c\<close>), used by the
  keyboard and by pipes.

  \<open>ioq_getchar\<close> and \<open>ioq_putchar\<close> are run from their entry until they return or until the
  calling thread gives up the processor (the result is then \<open>None\<close>); \<open>ioq_getchar_again\<close> and
  \<open>ioq_putchar_again\<close> continue a call after \<open>ioq_wait\<close>. The abstract state of a queue is the
  list of the bytes in it (\<open>ioq_seq\<close>); the lemmas show that the ring implements a bounded
  first-in first-out queue of \<open>buffer_size - 1\<close> bytes.
\<close>

section \<open>State and operations\<close>

definition buffer_size :: nat where
  "buffer_size = 64"

record ioqueue =
  io_lock :: lock
  producer :: nat
  consumer :: nat
  buffer :: "byte list"
  head :: nat
  tail :: nat

definition ioqueue_init :: "ioqueue \<Rightarrow> ioqueue" where
  "ioqueue_init ioq =
     ioq\<lparr>head := 0, tail := 0, io_lock := lock_init, producer := 0, consumer := 0\<rparr>"

definition next_pos :: "nat \<Rightarrow> nat" where
  "next_pos pos = (add32 pos 1) mod buffer_size"

definition ioq_full :: "ioqueue \<Rightarrow> bool" where
  "ioq_full ioq \<longleftrightarrow> next_pos (head ioq) = tail ioq"

definition ioq_empty :: "ioqueue \<Rightarrow> bool" where
  "ioq_empty ioq \<longleftrightarrow> head ioq = tail ioq"

text \<open>\<open>ioq_wait\<close> and \<open>ioq_wakeup\<close> work on one of the two fields \<open>producer\<close> and \<open>consumer\<close>.\<close>

datatype party = Producer | Consumer

fun party_of :: "party \<Rightarrow> ioqueue \<Rightarrow> nat" where
  "party_of Producer ioq = producer ioq"
| "party_of Consumer ioq = consumer ioq"

fun set_party :: "party \<Rightarrow> nat \<Rightarrow> ioqueue \<Rightarrow> ioqueue" where
  "set_party Producer t ioq = ioq\<lparr>producer := t\<rparr>"
| "set_party Consumer t ioq = ioq\<lparr>consumer := t\<rparr>"

definition ioq_wait :: "party \<Rightarrow> ioqueue \<Rightarrow> kst \<Rightarrow> (ioqueue \<times> kst) option" where
  "ioq_wait wait_task ioq s = do {
     let s = s\<lparr>intr := False\<rparr>;
     let ioq = set_party wait_task (get_running_thread_pcb s) ioq;
     s \<leftarrow> thread_block TASK_BLOCKED s;
     Some (ioq, s)
   }"

definition ioq_wakeup :: "party \<Rightarrow> ioqueue \<Rightarrow> kst \<Rightarrow> (ioqueue \<times> kst) option" where
  "ioq_wakeup wakeup_task ioq s = do {
     let old_state = intr s;
     let s = s\<lparr>intr := False\<rparr>;
     s \<leftarrow> thread_unlock (party_of wakeup_task ioq) s;
     let ioq = set_party wakeup_task 0 ioq;
     Some (ioq, s\<lparr>intr := old_state\<rparr>)
   }"

text \<open>The body of the waiting loops: take the lock, sleep; the lock is given back on return.\<close>

definition ioq_sleep :: "party \<Rightarrow> ioqueue \<Rightarrow> kst \<Rightarrow> (ioqueue \<times> kst) option" where
  "ioq_sleep who ioq s = do {
     (taken, l, s) \<leftarrow> lock_take (io_lock ioq) s;
     let ioq = ioq\<lparr>io_lock := l\<rparr>;
     if taken then ioq_wait who ioq s else Some (ioq, s)
   }"

definition ioq_getchar_loop ::
  "bool \<Rightarrow> ioqueue \<Rightarrow> kst \<Rightarrow> (byte option \<times> ioqueue \<times> kst) option" where
  "ioq_getchar_loop old_status ioq s =
     (if ioq_empty ioq then do {
        (ioq, s) \<leftarrow> ioq_sleep Consumer ioq s;
        Some (None, ioq, s)
      } else do {
        byte \<leftarrow> rd_at (buffer ioq) (tail ioq);
        let ioq = ioq\<lparr>tail := next_pos (tail ioq)\<rparr>;
        (ioq, s) \<leftarrow> (if producer ioq \<noteq> 0 then ioq_wakeup Producer ioq s else Some (ioq, s));
        Some (Some byte, ioq, s\<lparr>intr := old_status\<rparr>)
      })"

definition ioq_getchar :: "ioqueue \<Rightarrow> kst \<Rightarrow> (byte option \<times> ioqueue \<times> kst) option" where
  "ioq_getchar ioq s = ioq_getchar_loop (intr s) ioq (s\<lparr>intr := False\<rparr>)"

definition ioq_getchar_again ::
  "bool \<Rightarrow> ioqueue \<Rightarrow> kst \<Rightarrow> (byte option \<times> ioqueue \<times> kst) option" where
  "ioq_getchar_again old_status ioq s = do {
     (l, s) \<leftarrow> lock_give (io_lock ioq) s;
     ioq_getchar_loop old_status (ioq\<lparr>io_lock := l\<rparr>) s
   }"

definition ioq_putchar_loop ::
  "bool \<Rightarrow> byte \<Rightarrow> ioqueue \<Rightarrow> kst \<Rightarrow> (unit option \<times> ioqueue \<times> kst) option" where
  "ioq_putchar_loop old_status byte ioq s =
     (if ioq_full ioq then do {
        (ioq, s) \<leftarrow> ioq_sleep Producer ioq s;
        Some (None, ioq, s)
      } else do {
        b \<leftarrow> wr_at (buffer ioq) (head ioq) byte;
        let ioq = ioq\<lparr>buffer := b, head := next_pos (head ioq)\<rparr>;
        (ioq, s) \<leftarrow> (if consumer ioq \<noteq> 0 then ioq_wakeup Consumer ioq s else Some (ioq, s));
        Some (Some (), ioq, s\<lparr>intr := old_status\<rparr>)
      })"

definition ioq_putchar :: "byte \<Rightarrow> ioqueue \<Rightarrow> kst \<Rightarrow> (unit option \<times> ioqueue \<times> kst) option" where
  "ioq_putchar byte ioq s = ioq_putchar_loop (intr s) byte ioq (s\<lparr>intr := False\<rparr>)"

definition ioq_putchar_again ::
  "bool \<Rightarrow> byte \<Rightarrow> ioqueue \<Rightarrow> kst \<Rightarrow> (unit option \<times> ioqueue \<times> kst) option" where
  "ioq_putchar_again old_status byte ioq s = do {
     (l, s) \<leftarrow> lock_give (io_lock ioq) s;
     ioq_putchar_loop old_status byte (ioq\<lparr>io_lock := l\<rparr>) s
   }"

definition ioq_length :: "ioqueue \<Rightarrow> nat" where
  "ioq_length ioq =
     (if tail ioq \<le> head ioq then sub32 (head ioq) (tail ioq)
      else sub32 buffer_size (sub32 (tail ioq) (head ioq)))"

section \<open>The queue the ring stands for\<close>

definition ioq_wf :: "ioqueue \<Rightarrow> bool" where
  "ioq_wf q \<longleftrightarrow> length (buffer q) = buffer_size \<and> head q < buffer_size \<and> tail q < buffer_size"

definition ring_at :: "ioqueue \<Rightarrow> nat \<Rightarrow> byte" where
  "ring_at q i = buffer q ! ((tail q + i) mod buffer_size)"

definition ioq_seq :: "ioqueue \<Rightarrow> byte list" where
  "ioq_seq q = map (ring_at q) [0..<ioq_length q]"

lemma next_pos_small: "pos < 64 \<Longrightarrow> next_pos pos = (if pos = 63 then 0 else pos + 1)"
  by (simp add: next_pos_def buffer_size_def add32_small mod_Suc)

lemma ioq_length_cases:
  "ioq_wf q \<Longrightarrow> ioq_length q = (if tail q \<le> head q then head q - tail q else 64 + head q - tail q)"
  by (auto simp: ioq_wf_def ioq_length_def buffer_size_def sub32_small)

lemma ioq_length_seq [simp]: "length (ioq_seq q) = ioq_length q"
  by (simp add: ioq_seq_def)

lemma ioq_empty_iff: "ioq_wf q \<Longrightarrow> ioq_empty q \<longleftrightarrow> ioq_seq q = []"
  using ioq_length_cases [of q] by (auto simp: ioq_empty_def ioq_seq_def ioq_wf_def buffer_size_def)

lemma ioq_full_iff: "ioq_wf q \<Longrightarrow> ioq_full q \<longleftrightarrow> ioq_length q = 63"
  using ioq_length_cases [of q]
  by (auto simp: ioq_full_def ioq_wf_def buffer_size_def next_pos_small split: if_splits)

lemma ioq_length_bound: "ioq_wf q \<Longrightarrow> ioq_length q \<le> 63"
  using ioq_length_cases [of q] by (auto simp: ioq_wf_def buffer_size_def)

lemma ioqueue_init_seq: "length (buffer q) = buffer_size \<Longrightarrow>
    ioq_wf (ioqueue_init q) \<and> ioq_seq (ioqueue_init q) = []"
  by (simp add: ioqueue_init_def ioq_wf_def buffer_size_def ioq_seq_def ioq_length_def sub32_def
      u32_def)

text \<open>The ring part of the two operations.\<close>

definition ring_put :: "byte \<Rightarrow> ioqueue \<Rightarrow> ioqueue" where
  "ring_put b q = q\<lparr>buffer := (buffer q)[head q := b], head := next_pos (head q)\<rparr>"

definition ring_take :: "ioqueue \<Rightarrow> ioqueue" where
  "ring_take q = q\<lparr>tail := next_pos (tail q)\<rparr>"

lemma ring_put_wf: "ioq_wf q \<Longrightarrow> ioq_wf (ring_put b q)"
  by (simp add: ioq_wf_def ring_put_def next_pos_def buffer_size_def)

lemma ring_take_wf: "ioq_wf q \<Longrightarrow> ioq_wf (ring_take q)"
  by (simp add: ioq_wf_def ring_take_def next_pos_def buffer_size_def)

lemma ring_put_seq:
  assumes "ioq_wf q" and "ioq_length q < 63"
  shows "ioq_seq (ring_put b q) = ioq_seq q @ [b]"
proof -
  have w: "length (buffer q) = 64" "head q < 64" "tail q < 64"
    using assms(1) by (auto simp: ioq_wf_def buffer_size_def)
  have n: "ioq_length (ring_put b q) = Suc (ioq_length q)"
    using ioq_length_cases [OF ring_put_wf [OF assms(1)]] ioq_length_cases [OF assms(1)] assms(2) w
    by (auto simp: ring_put_def next_pos_small split: if_splits)
  have at: "(tail q + i) mod 64 = (if i = ioq_length q then head q
      else (tail q + i) mod 64)" "i < ioq_length q \<Longrightarrow> (tail q + i) mod 64 \<noteq> head q"
    if "i \<le> ioq_length q" for i
    using ioq_length_cases [OF assms(1)] w assms(2) that by (auto simp: mod_if split: if_splits)
  show ?thesis
  proof (rule nth_equalityI)
    show "length (ioq_seq (ring_put b q)) = length (ioq_seq q @ [b])" using n by simp
  next
    fix i assume "i < length (ioq_seq (ring_put b q))"
    then have i: "i \<le> ioq_length q" using n by simp
    have "ring_at (ring_put b q) i = (if i = ioq_length q then b else ring_at q i)"
      using at [OF i] i w by (auto simp: ring_at_def ring_put_def buffer_size_def)
    then show "ioq_seq (ring_put b q) ! i = (ioq_seq q @ [b]) ! i"
      using i n by (auto simp: ioq_seq_def nth_append simp del: upt_Suc)
  qed
qed

lemma ring_take_seq:
  assumes "ioq_wf q" and "ioq_seq q \<noteq> []"
  shows "buffer q ! tail q = hd (ioq_seq q)" and "ioq_seq (ring_take q) = tl (ioq_seq q)"
proof -
  have w: "length (buffer q) = 64" "head q < 64" "tail q < 64"
    using assms(1) by (auto simp: ioq_wf_def buffer_size_def)
  have pos: "0 < ioq_length q" using assms(2) by (simp add: ioq_seq_def)
  then show "buffer q ! tail q = hd (ioq_seq q)"
    using w by (simp add: ioq_seq_def hd_map ring_at_def buffer_size_def)
  have n: "ioq_length (ring_take q) = ioq_length q - 1"
    using ioq_length_cases [OF ring_take_wf [OF assms(1)]] ioq_length_cases [OF assms(1)] pos w
    by (auto simp: ring_take_def next_pos_small split: if_splits)
  have "ring_at (ring_take q) i = ring_at q (Suc i)" for i
    using w by (simp add: ring_at_def ring_take_def next_pos_def buffer_size_def add32_small mod_simps)
  then show "ioq_seq (ring_take q) = tl (ioq_seq q)"
    using n pos by (intro nth_equalityI) (auto simp: ioq_seq_def nth_tl)
qed

section \<open>A bounded queue\<close>

text \<open>
  What a user of the queue relies on. \<open>send_all\<close> and \<open>recv_n\<close> are the loops of the users:
  they stop with \<open>None\<close> as soon as one transfer does not complete at once.
\<close>

fun send_all :: "('b \<Rightarrow> 's \<Rightarrow> 's option) \<Rightarrow> 'b list \<Rightarrow> 's \<Rightarrow> 's option" where
  "send_all put [] x = Some x"
| "send_all put (b # bs) x = Option.bind (put b x) (send_all put bs)"

fun recv_n :: "('s \<Rightarrow> ('b \<times> 's) option) \<Rightarrow> nat \<Rightarrow> 's \<Rightarrow> ('b list \<times> 's) option" where
  "recv_n get 0 x = Some ([], x)"
| "recv_n get (Suc n) x = do {
     (b, x) \<leftarrow> get x;
     (bs, x) \<leftarrow> recv_n get n x;
     Some (b # bs, x)
   }"

locale bounded_fifo =
  fixes usable :: "'s \<Rightarrow> bool" and content :: "'s \<Rightarrow> 'b list" and capacity :: nat
    and put :: "'b \<Rightarrow> 's \<Rightarrow> 's option" and get :: "'s \<Rightarrow> ('b \<times> 's) option"
  assumes put_one: "usable x \<Longrightarrow> length (content x) < capacity \<Longrightarrow>
      \<exists>y. put b x = Some y \<and> usable y \<and> content y = content x @ [b]"
    and get_one: "usable x \<Longrightarrow> content x = b # bs \<Longrightarrow>
      \<exists>y. get x = Some (b, y) \<and> usable y \<and> content y = bs"
begin

lemma send_fits:
  "usable x \<Longrightarrow> length (content x) + length bs \<le> capacity \<Longrightarrow>
    \<exists>y. send_all put bs x = Some y \<and> usable y \<and> content y = content x @ bs"
proof (induction bs arbitrary: x)
  case (Cons b bs)
  then obtain y where "put b x = Some y" "usable y" "content y = content x @ [b]"
    using put_one [of x b] by auto
  with Cons.IH [of y] Cons.prems(2) show ?case by auto
qed simp

lemma recv_available:
  "usable x \<Longrightarrow> n \<le> length (content x) \<Longrightarrow>
    \<exists>y. recv_n get n x = Some (take n (content x), y) \<and> usable y \<and> content y = drop n (content x)"
proof (induction n arbitrary: x)
  case (Suc n)
  then obtain b bs where c: "content x = b # bs" by (cases "content x") auto
  then obtain y where "get x = Some (b, y)" "usable y" "content y = bs"
    using get_one Suc.prems(1) by blast
  with Suc.IH [of y] Suc.prems(2) c show ?case by auto
qed simp

text \<open>
  A mixed sequence of puts (\<open>Some b\<close>) and gets (\<open>None\<close>), on the model and on a list.
\<close>

primrec run_ops :: "'b option list \<Rightarrow> 's \<Rightarrow> ('b list \<times> 's) option" where
  "run_ops [] x = Some ([], x)"
| "run_ops (p # ops) x = (case p of
       Some b \<Rightarrow> Option.bind (put b x) (run_ops ops)
     | None \<Rightarrow> Option.bind (get x) (\<lambda>(b, x). Option.bind (run_ops ops x) (\<lambda>(bs, x). Some (b # bs, x))))"

primrec list_ops :: "'b option list \<Rightarrow> 'b list \<Rightarrow> ('b list \<times> 'b list) option" where
  "list_ops [] c = Some ([], c)"
| "list_ops (p # ops) c = (case p of
       Some b \<Rightarrow> if length c < capacity then list_ops ops (c @ [b]) else None
     | None \<Rightarrow> (case c of [] \<Rightarrow> None
         | b # c \<Rightarrow> Option.bind (list_ops ops c) (\<lambda>(bs, c). Some (b # bs, c))))"

lemma run_ops_list:
  "usable x \<Longrightarrow> list_ops ops (content x) = Some (bs, c) \<Longrightarrow>
    \<exists>y. run_ops ops x = Some (bs, y) \<and> usable y \<and> content y = c"
proof (induction ops arbitrary: x bs)
  case (Cons p ops)
  show ?case
  proof (cases p)
    case (Some b)
    then have "length (content x) < capacity" using Cons.prems(2) by (simp split: if_splits)
    then obtain y where "put b x = Some y" "usable y" "content y = content x @ [b]"
      using put_one Cons.prems(1) by blast
    then show ?thesis using Cons.IH [of y bs] Cons.prems(2) Some by (simp split: if_splits)
  next
    case None
    then obtain b d where d: "content x = b # d" using Cons.prems(2) by (cases "content x") auto
    then obtain bs' where bs': "list_ops ops d = Some (bs', c)" "bs = b # bs'"
      using Cons.prems(2) None by (auto simp: runs_iff)
    obtain y where "get x = Some (b, y)" "usable y" "content y = d" using get_one Cons.prems(1) d by blast
    then show ?thesis using Cons.IH [of y bs'] bs' None by auto
  qed
qed simp

lemma send_recv:
  assumes "usable x" and "length (content x) + length bs \<le> capacity"
  shows "\<exists>y z. send_all put bs x = Some y \<and> recv_n get (length (content x) + length bs) y =
    Some (content x @ bs, z) \<and> content z = []"
proof -
  obtain y where y: "send_all put bs x = Some y" "usable y" "content y = content x @ bs"
    using send_fits [OF assms] by blast
  with recv_available [OF y(2), of "length (content x) + length bs"] show ?thesis by auto
qed

end

text \<open>A thread recorded in the queue can be woken.\<close>

definition wakeable :: "nat \<Rightarrow> kst \<Rightarrow> bool" where
  "wakeable t s \<longleftrightarrow>
     t = 0 \<or> known s t \<and> may_unblock (stat s t) \<and> t \<notin> set (thread_ready_list s)"

definition io_usable :: "ioqueue \<times> kst \<Rightarrow> bool" where
  "io_usable = (\<lambda>(q, s). ioq_wf q \<and> wakeable (producer q) s \<and> wakeable (consumer q) s
     \<and> (producer q \<noteq> 0 \<longrightarrow> producer q \<noteq> consumer q))"

definition io_put :: "byte \<Rightarrow> ioqueue \<times> kst \<Rightarrow> (ioqueue \<times> kst) option" where
  "io_put b = (\<lambda>(q, s). case ioq_putchar b q s of
     Some (Some _, q, s) \<Rightarrow> Some (q, s) | _ \<Rightarrow> None)"

definition io_get :: "ioqueue \<times> kst \<Rightarrow> (byte \<times> ioqueue \<times> kst) option" where
  "io_get = (\<lambda>(q, s). case ioq_getchar q s of
     Some (Some b, q, s) \<Rightarrow> Some (b, q, s) | _ \<Rightarrow> None)"

lemma ioq_seq_frame [simp]:
  "ioq_seq (q\<lparr>producer := t\<rparr>) = ioq_seq q" "ioq_seq (q\<lparr>consumer := t\<rparr>) = ioq_seq q"
  "ioq_seq (q\<lparr>io_lock := l\<rparr>) = ioq_seq q" "ioq_wf (q\<lparr>producer := t\<rparr>) = ioq_wf q"
  "ioq_wf (q\<lparr>consumer := t\<rparr>) = ioq_wf q" "ioq_wf (q\<lparr>io_lock := l\<rparr>) = ioq_wf q"
  by (simp_all add: ioq_seq_def ioq_wf_def ring_at_def [abs_def] ioq_length_def)

lemma ring_frame [simp]:
  "producer (ring_put b q) = producer q" "consumer (ring_put b q) = consumer q"
  "producer (ring_take q) = producer q" "consumer (ring_take q) = consumer q"
  by (simp_all add: ring_put_def ring_take_def)

definition woken :: "nat \<Rightarrow> kst \<Rightarrow> kst" where
  "woken t s = (if t = 0 then s
     else s\<lparr>tasks := (tasks s)(t \<mapsto> the (tasks s t)\<lparr>status := TASK_RUNNING\<rparr>),
       thread_ready_list := t # thread_ready_list s\<rparr>)"

lemma woken_0 [simp]: "woken 0 s = s"
  by (simp add: woken_def)

lemma woken_keeps: "wakeable u s \<Longrightarrow> u \<noteq> t \<or> u = 0 \<Longrightarrow> wakeable u (woken t s)"
  by (auto simp: wakeable_def woken_def)

lemma ioq_wakeup_runs:
  assumes "wakeable (party_of who q) s" and "party_of who q \<noteq> 0"
  shows "ioq_wakeup who q (s\<lparr>intr := b\<rparr>) = Some (set_party who 0 q, (woken (party_of who q) s)\<lparr>intr := b\<rparr>)"
proof -
  have "thread_unlock (party_of who q) (s\<lparr>intr := False\<rparr>) =
      Some ((woken (party_of who q) s)\<lparr>intr := False\<rparr>)"
    using assms thread_unlock_runs [of "s\<lparr>intr := False\<rparr>" "party_of who q"]
    by (simp add: wakeable_def woken_def)
  then show ?thesis by (simp add: ioq_wakeup_def Let_def)
qed

lemma ioq_putchar_runs:
  assumes "io_usable (q, s)" and "ioq_length q < 63"
  shows "ioq_putchar b q s = Some (Some (), (ring_put b q)\<lparr>consumer := 0\<rparr>, woken (consumer q) s)"
proof -
  have wf: "ioq_wf q" and wk: "wakeable (consumer q) s" using assms(1) by (auto simp: io_usable_def)
  have nf: "\<not> ioq_full q" using ioq_full_iff [OF wf] assms(2) by simp
  have wr: "wr_at (buffer q) (head q) b = Some ((buffer q)[head q := b])"
    using wf by (simp add: ioq_wf_def)
  show ?thesis
  proof (cases "consumer q = 0")
    case True
    then show ?thesis using nf wr
      by (simp add: ioq_putchar_def ioq_putchar_loop_def ring_put_def woken_def)
  next
    case False
    then show ?thesis
      using nf wr ioq_wakeup_runs [of Consumer "ring_put b q" s False] wk
      by (simp add: ioq_putchar_def ioq_putchar_loop_def ring_put_def woken_def)
  qed
qed

lemma ioq_getchar_runs:
  assumes "io_usable (q, s)" and "ioq_seq q \<noteq> []"
  shows "ioq_getchar q s =
    Some (Some (hd (ioq_seq q)), (ring_take q)\<lparr>producer := 0\<rparr>, woken (producer q) s)"
proof -
  have wf: "ioq_wf q" and wk: "wakeable (producer q) s" using assms(1) by (auto simp: io_usable_def)
  have ne: "\<not> ioq_empty q" using ioq_empty_iff [OF wf] assms(2) by simp
  have rd: "rd_at (buffer q) (tail q) = Some (hd (ioq_seq q))"
    using wf ring_take_seq(1) [OF wf assms(2)] by (simp add: ioq_wf_def)
  show ?thesis
  proof (cases "producer q = 0")
    case True
    then show ?thesis using ne rd
      by (simp add: ioq_getchar_def ioq_getchar_loop_def ring_take_def woken_def)
  next
    case False
    then show ?thesis
      using ne rd ioq_wakeup_runs [of Producer "ring_take q" s False] wk
      by (simp add: ioq_getchar_def ioq_getchar_loop_def ring_take_def woken_def)
  qed
qed

interpretation ring: bounded_fifo io_usable "\<lambda>(q, s). ioq_seq q" 63 io_put io_get
proof (unfold_locales, goal_cases)
  case (1 x b)
  obtain q s where x: "x = (q, s)" by (cases x)
  with 1 have wf: "ioq_wf q" and l: "ioq_length q < 63" by (auto simp: io_usable_def)
  have "io_usable ((ring_put b q)\<lparr>consumer := 0\<rparr>, woken (consumer q) s)"
    using 1(1) x ring_put_wf [OF wf] by (auto simp: io_usable_def woken_keeps wakeable_def [of 0])
  then show ?case
    using ioq_putchar_runs [of q s b] 1(1) l ring_put_seq [OF wf l] unfolding x
    by (simp add: io_put_def)
next
  case (2 x b bs)
  obtain q s where x: "x = (q, s)" by (cases x)
  with 2 have wf: "ioq_wf q" and c: "ioq_seq q = b # bs" by (auto simp: io_usable_def)
  have "io_usable ((ring_take q)\<lparr>producer := 0\<rparr>, woken (producer q) s)"
    using 2(1) x ring_take_wf [OF wf] by (auto simp: io_usable_def woken_keeps wakeable_def [of 0])
  then show ?case
    using ioq_getchar_runs [of q s] 2(1) c ring_take_seq(2) [OF wf] unfolding x
    by (simp add: io_get_def)
qed

text \<open>On an empty (full) queue the caller records itself, keeps the lock and sleeps.\<close>

lemma ioq_sleep_runs:
  assumes "sched_inv s" and "lock_free (io_lock q)"
  shows "\<exists>q' s'. ioq_sleep who q (s\<lparr>intr := False\<rparr>) = Some (q', s') \<and> sched_inv s'
    \<and> ioq_seq q' = ioq_seq q \<and> ioq_wf q' = ioq_wf q
    \<and> party_of who q' = running s \<and> holder (io_lock q') = running s
    \<and> running s' = (if thread_ready_list s = [] then idle_thread s else hd (thread_ready_list s))"
proof -
  let ?s = "s\<lparr>intr := False\<rparr>"
  have i: "sched_inv ?s" using assms(1) by simp
  from thread_block_runs [OF i, of TASK_BLOCKED] obtain s' where s':
      "thread_block TASK_BLOCKED ?s = Some s'" "sched_inv s'"
      "running s' = (if thread_ready_list s = [] then idle_thread s else hd (thread_ready_list s))"
    by (auto simp: may_unblock_def)
  show ?thesis
    using lock_take_free [OF assms(2), of ?s] running_nz [OF assms(1)] s'
    by (cases who) (simp_all add: ioq_sleep_def ioq_wait_def get_running_thread_pcb_def)
qed

section \<open>Properties\<close>

text \<open>C7: The ring buffer refines a bounded list: any sequence of \<open>ioq_putchar\<close> and
  \<open>ioq_getchar\<close> that never finds a list of 63 bytes full or empty runs on the ring without
  waiting, gives the same bytes, and leaves the bytes of the list in the ring.\<close>

theorem ioqueue_refines_list:
  assumes "io_usable (q, s)" and "ring.list_ops ops (ioq_seq q) = Some (bs, c)"
  shows "\<exists>q' s'. ring.run_ops ops (q, s) = Some (bs, q', s') \<and> io_usable (q', s') \<and> ioq_seq q' = c"
  using ring.run_ops_list [of "(q, s)" ops bs c] assms by auto

definition sample_ring :: ioqueue where
  "sample_ring = ioqueue_init \<lparr>io_lock = lock_init, producer = 0, consumer = 0,
     buffer = replicate 64 0, head = 0, tail = 0\<rparr>"

lemma sample_ring_usable: "io_usable (sample_ring, sample_kst)" "ioq_seq sample_ring = []"
  by (simp_all add: sample_ring_def ioqueue_init_def io_usable_def ioq_wf_def buffer_size_def
      wakeable_def ioq_seq_def ioq_length_def sub32_small)

theorem ioqueue_refines_list_witness:
  "\<exists>q' s'. ring.run_ops [Some 7, Some 8, None, Some 9, None] (sample_ring, sample_kst) = Some ([7, 8], q', s')
    \<and> ioq_seq q' = [9]"
  using ioqueue_refines_list [OF sample_ring_usable(1), of "[Some 7, Some 8, None, Some 9, None]" "[7, 8]" "[9]"]
    sample_ring_usable(2) by auto

text \<open>A getter on an empty queue (or a putter on a full one) records itself in the queue,
  keeps the queue's lock and sleeps; the scheduler invariant holds for the next thread.\<close>

theorem ioqueue_sleeper_keeps_lock:
  assumes "sched_inv s" and "lock_free (io_lock q)"
  shows "\<exists>q' s'. ioq_sleep who q (s\<lparr>intr := False\<rparr>) = Some (q', s') \<and> sched_inv s'
    \<and> ioq_seq q' = ioq_seq q \<and> party_of who q' = running s \<and> holder (io_lock q') = running s
    \<and> running s' = (if thread_ready_list s = [] then idle_thread s else hd (thread_ready_list s))"
  using ioq_sleep_runs [OF assms] by blast

theorem ioqueue_sleeper_keeps_lock_witness:
  "\<exists>q' s'. ioq_sleep Consumer sample_ring (sample_kst\<lparr>intr := False\<rparr>) = Some (q', s')
    \<and> consumer q' = 4096 \<and> holder (io_lock q') = 4096 \<and> running s' = 12288"
proof -
  have "lock_free (io_lock sample_ring)"
    by (simp add: sample_ring_def ioqueue_init_def lock_free_def lock_init_def seam_init_def)
  from ioqueue_sleeper_keeps_lock [OF sample_kst_inv(1) this, of Consumer] show ?thesis
    by (auto simp: sample_kst_def)
qed

end
