(* ===== verification/CString.thy ===== *)
theory CString
  imports Prelude
begin

text \<open>
  Memory and string routines (\<open>kernel/string.c\<close>) on a flat memory: an address is a natural
  number, \<open>NULL\<close> is 0, and an access outside the mapped addresses is not defined. The loops
  that look for the terminating zero are partial functions: a string that never ends gives
  \<open>None\<close>.

  \<open>str_at m p s\<close> says that the C string at \<open>p\<close> is the list \<open>s\<close>. The lemmas show what each
  routine does in terms of such lists; the file system model uses the list versions.
\<close>

section \<open>The routines\<close>

type_synonym cmem = "nat \<rightharpoonup> byte"

definition store :: "cmem \<Rightarrow> nat \<Rightarrow> byte \<Rightarrow> cmem option" where
  "store m p b = (if m p = None then None else Some (m(p \<mapsto> b)))"

fun memset_loop :: "nat \<Rightarrow> byte \<Rightarrow> nat \<Rightarrow> cmem \<Rightarrow> cmem option" where
  "memset_loop p v 0 m = Some m"
| "memset_loop p v (Suc n) m = Option.bind (store m p v) (memset_loop (p + 1) v n)"

definition memset :: "nat \<Rightarrow> byte \<Rightarrow> nat \<Rightarrow> cmem \<Rightarrow> cmem option" where
  "memset dst v sz m =
     (if sz = 0 then Some m else do { _ \<leftarrow> ensure (dst \<noteq> 0); memset_loop dst v sz m })"

fun memcpy_loop :: "nat \<Rightarrow> nat \<Rightarrow> nat \<Rightarrow> cmem \<Rightarrow> cmem option" where
  "memcpy_loop d s 0 m = Some m"
| "memcpy_loop d s (Suc n) m = do {
     b \<leftarrow> m s;
     m \<leftarrow> store m d b;
     memcpy_loop (d + 1) (s + 1) n m
   }"

definition memcpy :: "nat \<Rightarrow> nat \<Rightarrow> nat \<Rightarrow> cmem \<Rightarrow> cmem option" where
  "memcpy dst src sz m =
     (if sz = 0 then Some m
      else do { _ \<leftarrow> ensure (dst \<noteq> 0); _ \<leftarrow> ensure (src \<noteq> 0); memcpy_loop dst src sz m })"

text \<open>\<open>memcmp\<close> with size 0 returns no value; the loop adds \<open>offst\<close> to the bytes, not to the pointers,
  and an overflow of that signed sum has no result.\<close>

fun memcmp_loop :: "nat \<Rightarrow> nat \<Rightarrow> nat \<Rightarrow> int \<Rightarrow> cmem \<Rightarrow> int option" where
  "memcmp_loop p q 0 offst m = Some 0"
| "memcmp_loop p q (Suc n) offst m = do {
     a \<leftarrow> m p;
     b \<leftarrow> m q;
     _ \<leftarrow> ensure (uint a + offst < 2147483648 \<and> uint b + offst < 2147483648);
     if uint a + offst > uint b + offst then Some 1
     else if uint a + offst < uint b + offst then Some (- 1)
     else memcmp_loop p q n (offst + 1) m
   }"

definition memcmp :: "nat \<Rightarrow> nat \<Rightarrow> nat \<Rightarrow> cmem \<Rightarrow> int option" where
  "memcmp buf1 buf2 sz m =
     (if sz = 0 then None
      else do { _ \<leftarrow> ensure (buf1 \<noteq> 0); _ \<leftarrow> ensure (buf2 \<noteq> 0); memcmp_loop buf1 buf2 sz 0 m })"

partial_function (option) strlen_loop :: "cmem \<Rightarrow> nat \<Rightarrow> nat \<Rightarrow> nat option" where
  [code]: "strlen_loop m p len = Option.bind (m p) (\<lambda>c.
     if c \<noteq> 0 then strlen_loop m (p + 1) (add32 len 1) else Some len)"

definition strlen :: "cmem \<Rightarrow> nat \<Rightarrow> nat option" where
  "strlen m str = do { _ \<leftarrow> ensure (str \<noteq> 0); strlen_loop m str 0 }"

partial_function (option) strcpy_loop :: "nat \<Rightarrow> nat \<Rightarrow> cmem \<Rightarrow> cmem option" where
  [code]: "strcpy_loop d s m = Option.bind (m s) (\<lambda>c.
     if c \<noteq> 0 then Option.bind (store m d c) (strcpy_loop (d + 1) (s + 1)) else store m d 0)"

definition strcpy :: "nat \<Rightarrow> nat \<Rightarrow> cmem \<Rightarrow> (nat \<times> cmem) option" where
  "strcpy dst src m = do {
     _ \<leftarrow> ensure (dst \<noteq> 0 \<and> src \<noteq> 0);
     m \<leftarrow> strcpy_loop dst src m;
     Some (dst, m)
   }"

text \<open>Characters are signed: \<open>char\<close> is a signed 8 bit type.\<close>

partial_function (option) strcmp_loop :: "cmem \<Rightarrow> nat \<Rightarrow> nat \<Rightarrow> int \<Rightarrow> int \<Rightarrow> int option" where
  [code]: "strcmp_loop m p q s1len s2len = Option.bind (m p) (\<lambda>a.
     if a \<noteq> 0 then
       Option.bind (m q) (\<lambda>b.
         if sint a > sint b then Some 1
         else if sint a < sint b then Some (- 1)
         else strcmp_loop m (p + 1) (q + 1) (s1len - 1) (s2len - 1))
     else Some (if s1len > s2len then 1 else if s1len < s2len then - 1 else 0))"

definition strcmp :: "cmem \<Rightarrow> nat \<Rightarrow> nat \<Rightarrow> int option" where
  "strcmp m str1 str2 = do {
     _ \<leftarrow> ensure (str1 \<noteq> 0 \<and> str2 \<noteq> 0);
     s1len \<leftarrow> strlen m str1;
     s2len \<leftarrow> strlen m str2;
     strcmp_loop m str1 str2 (s32 s1len) (s32 s2len)
   }"

fun strrchar_loop :: "cmem \<Rightarrow> nat \<Rightarrow> nat \<Rightarrow> byte \<Rightarrow> nat option" where
  "strrchar_loop m str 0 ch = Some 0"
| "strrchar_loop m str (Suc n) ch = do {
     c \<leftarrow> m (str + n);
     if c = ch then Some (str + n) else strrchar_loop m str n ch
   }"

definition strrchar :: "cmem \<Rightarrow> nat \<Rightarrow> byte \<Rightarrow> nat option" where
  "strrchar m str ch = do {
     _ \<leftarrow> ensure (str \<noteq> 0);
     slen \<leftarrow> strlen m str;
     strrchar_loop m str slen ch
   }"

fun strchar_loop :: "cmem \<Rightarrow> nat \<Rightarrow> nat \<Rightarrow> byte \<Rightarrow> nat option" where
  "strchar_loop m str 0 ch = Some 0"
| "strchar_loop m str (Suc n) ch = do {
     c \<leftarrow> m str;
     if c = ch then Some str else strchar_loop m (str + 1) n ch
   }"

definition strchar :: "cmem \<Rightarrow> nat \<Rightarrow> byte \<Rightarrow> nat option" where
  "strchar m str ch = do {
     _ \<leftarrow> ensure (str \<noteq> 0);
     slen \<leftarrow> strlen m str;
     strchar_loop m str slen ch
   }"

definition strcat :: "nat \<Rightarrow> nat \<Rightarrow> cmem \<Rightarrow> (nat \<times> cmem) option" where
  "strcat dst src m = do {
     _ \<leftarrow> ensure (dst \<noteq> 0 \<and> src \<noteq> 0);
     n \<leftarrow> strlen m dst;
     k \<leftarrow> strlen m src;
     m \<leftarrow> memcpy (dst + n) src (add32 k 1) m;
     Some (dst, m)
   }"

partial_function (option) strchrs_loop :: "cmem \<Rightarrow> nat \<Rightarrow> byte \<Rightarrow> nat \<Rightarrow> nat option" where
  [code]: "strchrs_loop m p ch count = Option.bind (m p) (\<lambda>c.
     if c \<noteq> 0 then strchrs_loop m (p + 1) ch (if sint c = uint ch then add32 count 1 else count)
     else Some count)"

definition strchrs :: "cmem \<Rightarrow> nat \<Rightarrow> byte \<Rightarrow> nat option" where
  "strchrs m str ch = do { _ \<leftarrow> ensure (str \<noteq> 0); strchrs_loop m str ch 0 }"

section \<open>Strings as lists\<close>

definition bytes_at :: "cmem \<Rightarrow> nat \<Rightarrow> byte list \<Rightarrow> bool" where
  "bytes_at m p bs \<longleftrightarrow> (\<forall>i < length bs. m (p + i) = Some (bs ! i))"

definition str_at :: "cmem \<Rightarrow> nat \<Rightarrow> byte list \<Rightarrow> bool" where
  "str_at m p s \<longleftrightarrow> bytes_at m p (s @ [0]) \<and> 0 \<notin> set s \<and> length s < 2147483648"

definition mapped :: "cmem \<Rightarrow> nat \<Rightarrow> nat \<Rightarrow> bool" where
  "mapped m p n \<longleftrightarrow> (\<forall>i < n. m (p + i) \<noteq> None)"

text \<open>The memory with the bytes \<open>bs\<close> written from address \<open>p\<close> on.\<close>

definition put_at :: "cmem \<Rightarrow> nat \<Rightarrow> byte list \<Rightarrow> cmem" where
  "put_at m p bs = (\<lambda>a. if p \<le> a \<and> a < p + length bs then Some (bs ! (a - p)) else m a)"

lemma bytes_at_Cons: "bytes_at m p (b # bs) \<longleftrightarrow> m p = Some b \<and> bytes_at m (p + 1) bs"
  by (auto simp: bytes_at_def less_Suc_eq_0_disj)

lemma bytes_at_append: "bytes_at m p (xs @ ys) \<longleftrightarrow> bytes_at m p xs \<and> bytes_at m (p + length xs) ys"
proof (induction xs arbitrary: p)
  case Nil then show ?case by (simp add: bytes_at_def)
next
  case (Cons x xs) then show ?case by (simp add: bytes_at_Cons)
qed

lemma bytes_at_Nil [simp]: "bytes_at m p []"
  by (simp add: bytes_at_def)

lemma str_at_Nil: "str_at m p [] \<longleftrightarrow> m p = Some 0"
  by (simp add: str_at_def bytes_at_Cons)

lemma str_at_Cons:
  "str_at m p (c # s) \<longleftrightarrow> m p = Some c \<and> c \<noteq> 0 \<and> str_at m (p + 1) s \<and> length s < 2147483647"
  by (auto simp: str_at_def bytes_at_Cons)

lemma mapped_Suc: "mapped m p (Suc n) \<longleftrightarrow> m p \<noteq> None \<and> mapped m (p + 1) n"
  by (simp add: mapped_def All_less_Suc2)

lemma put_at_Nil [simp]: "put_at m p [] = m"
  by (auto simp: put_at_def fun_eq_iff)

lemma put_at_Cons: "put_at m p (b # bs) = put_at (m(p \<mapsto> b)) (p + 1) bs"
  by (rule ext) (auto simp: put_at_def nth_Cons')

lemma mapped_store: "mapped (m(q \<mapsto> b)) p n = (\<forall>i < n. p + i = q \<or> m (p + i) \<noteq> None)"
  by (auto simp: mapped_def)

lemma mapped_weaken: "mapped m p n \<Longrightarrow> mapped (m(q \<mapsto> b)) p n"
  by (auto simp: mapped_def)

section \<open>What the routines do\<close>

lemma memset_loop_runs:
  "mapped m p n \<Longrightarrow> memset_loop p v n m = Some (put_at m p (replicate n v))"
  by (induction n arbitrary: p m) (auto simp: mapped_Suc store_def put_at_Cons mapped_weaken)

lemma memset_runs:
  "mapped m p n \<Longrightarrow> p \<noteq> 0 \<Longrightarrow> memset p v n m = Some (put_at m p (replicate n v))"
  by (simp add: memset_def memset_loop_runs)

text \<open>Copying forward is right when the destination does not start inside the source.\<close>

lemma memcpy_loop_runs:
  "bytes_at m s bs \<Longrightarrow> mapped m d (length bs) \<Longrightarrow> d \<le> s \<or> s + length bs \<le> d \<Longrightarrow>
    memcpy_loop d s (length bs) m = Some (put_at m d bs)"
proof (induction bs arbitrary: m d s)
  case (Cons b bs)
  define m' where "m' = m(d \<mapsto> b)"
  have "bytes_at m' (s + 1) bs" "mapped m' (d + 1) (length bs)"
    using Cons.prems by (auto simp: bytes_at_Cons m'_def mapped_Suc mapped_weaken)
      (auto simp: bytes_at_def)
  then have "memcpy_loop (d + 1) (s + 1) (length bs) m' = Some (put_at m' (d + 1) bs)"
    using Cons.prems(3) by (intro Cons.IH) auto
  then show ?case using Cons.prems
    by (auto simp: bytes_at_Cons mapped_Suc store_def put_at_Cons m'_def)
qed simp

lemma memcpy_runs:
  assumes "bytes_at m s bs" and "mapped m d (length bs)" and "d \<le> s \<or> s + length bs \<le> d"
    and "d \<noteq> 0" and "s \<noteq> 0"
  shows "memcpy d s (length bs) m = Some (put_at m d bs)"
  using memcpy_loop_runs [OF assms(1-3)] assms(4,5) by (simp add: memcpy_def)

text \<open>The result depends on the first bytes only.\<close>

lemma memcmp_loop_first:
  "m p = Some a \<Longrightarrow> m q = Some b \<Longrightarrow> k + int n < 2147483392 \<Longrightarrow>
    memcmp_loop p q n k m = Some (if n = 0 \<or> a = b then 0 else if uint a > uint b then 1 else - 1)"
proof (induction n arbitrary: k)
  case (Suc n)
  have "uint a < 256" "uint b < 256"
    using uint_lt2p [of a] uint_lt2p [of b] by simp_all
  with Suc show ?case by (auto simp: word_uint_eq_iff)
qed simp

lemma strlen_loop_runs:
  "str_at m p s \<Longrightarrow> n + length s < 4294967296 \<Longrightarrow> strlen_loop m p n = Some (n + length s)"
  by (induction s arbitrary: p n)
    (auto simp: strlen_loop.simps [of m] str_at_Nil str_at_Cons add32_small)

lemma strlen_runs: "str_at m p s \<Longrightarrow> p \<noteq> 0 \<Longrightarrow> strlen m p = Some (length s)"
  by (simp add: strlen_def strlen_loop_runs str_at_def)

text \<open>The order of \<open>strcmp\<close>: the first difference decides, then the length.\<close>

fun str_order :: "byte list \<Rightarrow> byte list \<Rightarrow> int" where
  "str_order [] t = (if t = [] then 0 else - 1)"
| "str_order (a # s) [] = (if sint a > 0 then 1 else - 1)"
| "str_order (a # s) (b # t) =
     (if sint a > sint b then 1 else if sint a < sint b then - 1 else str_order s t)"

lemma byte_eq: "sint (a :: byte) = sint b \<longleftrightarrow> a = b"
  using word_eq_iff_signed [of a b] by auto

lemma strcmp_loop_runs:
  "str_at m p s \<Longrightarrow> str_at m q t \<Longrightarrow>
    strcmp_loop m p q (int (length s) + k) (int (length t) + k) = Some (str_order s t)"
proof (induction s t arbitrary: p q k rule: str_order.induct)
  case (1 t)
  then show ?case by (cases t) (auto simp: strcmp_loop.simps [of m] str_at_Nil)
next
  case (2 a s)
  moreover from this have "a \<noteq> 0" by (simp add: str_at_Cons)
  then have "sint a \<noteq> 0" using byte_eq [of a 0] by simp
  ultimately show ?case by (simp add: strcmp_loop.simps [of m p] str_at_Nil str_at_Cons)
next
  case (3 a s b t)
  then show ?case
    by (auto simp: strcmp_loop.simps [of m p] str_at_Cons algebra_simps)
qed

lemma strcmp_runs:
  assumes "str_at m p s" and "str_at m q t" and "p \<noteq> 0" and "q \<noteq> 0"
  shows "strcmp m p q = Some (str_order s t)"
  using strcmp_loop_runs [OF assms(1,2), of 0] assms
  by (simp add: strcmp_def strlen_runs str_at_def)

lemma str_order_0: "0 \<notin> set s \<Longrightarrow> str_order s t = 0 \<longleftrightarrow> s = t"
proof (induction s t rule: str_order.induct)
  case (3 a s b t)
  then show ?case using byte_eq [of a b] by (cases "sint a = sint b") auto
qed auto

lemma strcpy_loop_runs:
  "str_at m s bs \<Longrightarrow> mapped m d (length bs + 1) \<Longrightarrow> d \<le> s \<or> s + length bs < d \<Longrightarrow>
    strcpy_loop d s m = Some (put_at m d (bs @ [0]))"
proof (induction bs arbitrary: m d s)
  case Nil
  then show ?case by (auto simp: strcpy_loop.simps [of d] str_at_Nil store_def mapped_Suc put_at_Cons)
next
  case (Cons b bs)
  define m' where "m' = m(d \<mapsto> b)"
  have "str_at m' (s + 1) bs" "mapped m' (d + 1) (length bs + 1)"
    using Cons.prems by (auto simp: str_at_def bytes_at_Cons m'_def mapped_Suc mapped_weaken)
      (auto simp: bytes_at_def)
  then have "strcpy_loop (d + 1) (s + 1) m' = Some (put_at m' (d + 1) (bs @ [0]))"
    using Cons.prems(3) by (intro Cons.IH) auto
  then show ?case using Cons.prems
    by (auto simp: strcpy_loop.simps [of d] str_at_Cons mapped_Suc store_def put_at_Cons m'_def)
qed

lemma strcpy_runs:
  assumes "str_at m s bs" and "mapped m d (length bs + 1)" and "d \<le> s \<or> s + length bs < d"
    and "d \<noteq> 0" and "s \<noteq> 0"
  shows "strcpy d s m = Some (d, put_at m d (bs @ [0]))"
  using strcpy_loop_runs [OF assms(1-3)] assms(4,5) by (simp add: strcpy_def)

lemma strcat_runs:
  assumes "str_at m d s" and "str_at m q t" and "mapped m (d + length s) (length t + 1)"
    and "q + length t < d + length s \<or> d + length s \<le> q" and "d \<noteq> 0" and "q \<noteq> 0"
  shows "strcat d q m = Some (d, put_at m (d + length s) (t @ [0]))"
proof -
  have t: "length t < 2147483648" "bytes_at m q (t @ [0])" using assms(2) by (auto simp: str_at_def)
  then have "add32 (length t) 1 = length (t @ [0])" by (simp add: add32_small)
  then show ?thesis
    using memcpy_runs [OF t(2), of "d + length s"] assms strlen_runs [OF assms(1,5)]
      strlen_runs [OF assms(2,6)]
    by (auto simp: strcat_def)
qed

text \<open>\<open>strrchar\<close> finds the last, \<open>strchar\<close> the first occurrence.\<close>

fun last_index :: "byte \<Rightarrow> byte list \<Rightarrow> nat option" where
  "last_index c [] = None"
| "last_index c (x # xs) = (case last_index c xs of
     Some i \<Rightarrow> Some (Suc i) | None \<Rightarrow> if x = c then Some 0 else None)"

lemma last_index_snoc:
  "last_index c (xs @ [x]) = (if x = c then Some (length xs) else last_index c xs)"
  by (induction xs) (auto split: option.splits)

lemma strrchar_loop_runs:
  "bytes_at m p s \<Longrightarrow>
    strrchar_loop m p (length s) c = Some (case last_index c s of None \<Rightarrow> 0 | Some i \<Rightarrow> p + i)"
  by (induction s rule: rev_induct) (auto simp: bytes_at_append bytes_at_Cons last_index_snoc)

lemma strrchar_runs:
  assumes "str_at m p s" and "p \<noteq> 0"
  shows "strrchar m p c = Some (case last_index c s of None \<Rightarrow> 0 | Some i \<Rightarrow> p + i)"
  using assms strlen_runs [OF assms] strrchar_loop_runs [of m p s]
  by (simp add: strrchar_def str_at_def bytes_at_append)

section \<open>Properties\<close>

text \<open>\<open>strcpy\<close> copies the string with its terminating zero and nothing else, also when the
  destination overlaps the source from below.\<close>

theorem strcpy_copies:
  assumes "str_at m s bs" and "mapped m d (length bs + 1)" and "d \<le> s \<or> s + length bs < d"
    and "d \<noteq> 0" and "s \<noteq> 0"
  shows "strcpy d s m = Some (d, put_at m d (bs @ [0]))"
  using assms by (rule strcpy_runs)

definition sample_mem :: cmem where
  "sample_mem = [1 \<mapsto> 104, 2 \<mapsto> 105, 3 \<mapsto> 0, 11 \<mapsto> 1, 12 \<mapsto> 2, 13 \<mapsto> 3, 21 \<mapsto> 104, 22 \<mapsto> 111, 23 \<mapsto> 0]"

lemma sample_mem_strings: "str_at sample_mem 1 [104, 105]" "str_at sample_mem 21 [104, 111]"
  by (simp_all add: sample_mem_def str_at_Cons str_at_Nil)

theorem strcpy_copies_witness: "strcpy 11 1 sample_mem = Some (11, put_at sample_mem 11 [104, 105, 0])"
proof -
  have "mapped sample_mem 11 (length [104, 105 :: byte] + 1)"
    by (simp add: mapped_Suc sample_mem_def) (simp add: mapped_def)
  with strcpy_copies [OF sample_mem_strings(1), of 11] show ?thesis by simp
qed

text \<open>\<open>strcmp\<close> is 0 exactly for equal strings.\<close>

theorem strcmp_equal:
  assumes "str_at m p s" and "str_at m q t" and "p \<noteq> 0" and "q \<noteq> 0"
  shows "strcmp m p q = Some 0 \<longleftrightarrow> s = t"
proof -
  have "0 \<notin> set s" using assms(1) by (simp add: str_at_def)
  then show ?thesis using strcmp_runs [OF assms] str_order_0 [of s t] by simp
qed

theorem strcmp_equal_witness: "strcmp sample_mem 1 21 \<noteq> Some 0 \<and> strcmp sample_mem 1 1 = Some 0"
  using strcmp_equal [OF sample_mem_strings] strcmp_equal [OF sample_mem_strings(1) sample_mem_strings(1)] by simp

text \<open>\<open>memcmp\<close> compares the first byte with itself \<open>n\<close> times: areas with the same first
  byte are equal for it.\<close>

theorem memcmp_first_byte:
  assumes "m p = Some a" and "m q = Some b" and "p \<noteq> 0" and "q \<noteq> 0" and "0 < n"
    and "n < 2147483392"
  shows "memcmp p q n m = Some (if a = b then 0 else if uint a > uint b then 1 else - 1)"
  using memcmp_loop_first [OF assms(1,2), of 0 n] assms(3-6) by (simp add: memcmp_def)

theorem memcmp_first_byte_witness: "memcmp 1 21 3 sample_mem = Some 0 \<and> sample_mem 2 \<noteq> sample_mem 22"
  using memcmp_first_byte [of sample_mem 1 104 21 104 3] by (simp add: sample_mem_def)

end
