(* ===== verification/Stdio.thy ===== *)
theory Stdio
  imports Prelude
begin

text \<open>
  Formatted output (\<open>lib/stdio.c\<close>): \<open>itoa\<close> and \<open>vsprintf\<close> on an output buffer with a write
  position. A write or read outside the buffer, a format that ends in a lone percent sign and
  a missing argument are not defined (\<open>None\<close>).

  \<open>render\<close> is the text a format and its arguments denote. The lemmas show that \<open>vsprintf\<close>
  writes this text when the buffer holds zeros (the \<open>%s\<close> conversion relies on that), and that
  \<open>itoa\<close> writes the digits of its argument.
\<close>

section \<open>The routines\<close>

type_synonym out = "byte list \<times> nat"

definition emit :: "byte \<Rightarrow> out \<Rightarrow> out option" where
  "emit b = (\<lambda>(buf, pos). map_option (\<lambda>buf. (buf, pos + 1)) (wr_at buf pos b))"

partial_function (option) itoa :: "nat \<Rightarrow> out \<Rightarrow> nat \<Rightarrow> out option" where
  [code]: "itoa v out base =
     (if base = 0 then None
      else
        let m = v mod base; i = v div base in
        Option.bind (if i \<noteq> 0 then itoa i out base else Some out)
          (\<lambda>out. if m < 10 then emit (of_nat (48 + m)) out
                 else if m < 16 then emit (of_nat (65 + m - 10)) out
                 else Some out))"

datatype arg = Int_arg nat | Char_arg byte | Str_arg "byte list"

definition c_strlen :: "byte list \<Rightarrow> nat option" where
  "c_strlen bs = (if 0 \<in> set bs then Some (length (takeWhile (\<lambda>b. b \<noteq> 0) bs)) else None)"

text \<open>\<open>strcat\<close> at the write position: the copy starts at the next zero byte of the buffer.\<close>

definition out_strcat :: "byte list \<Rightarrow> out \<Rightarrow> out option" where
  "out_strcat s = (\<lambda>(buf, pos). do {
     n \<leftarrow> c_strlen (drop pos buf);
     _ \<leftarrow> ensure (pos + n + length s + 1 \<le> length buf);
     Some (put_bytes (pos + n) (s @ [0]) buf, pos + length s)
   })"

abbreviation (input) ch_percent :: byte where "ch_percent \<equiv> 37"
abbreviation (input) ch_x :: byte where "ch_x \<equiv> 120"
abbreviation (input) ch_c :: byte where "ch_c \<equiv> 99"
abbreviation (input) ch_d :: byte where "ch_d \<equiv> 100"
abbreviation (input) ch_s :: byte where "ch_s \<equiv> 115"
abbreviation (input) ch_minus :: byte where "ch_minus \<equiv> 45"

definition conversion :: "byte \<Rightarrow> arg list \<Rightarrow> out \<Rightarrow> (arg list \<times> out) option" where
  "conversion c ap out =
     (if c = ch_x then
        (case ap of Int_arg v # ap \<Rightarrow> map_option (Pair ap) (itoa v out 16) | _ \<Rightarrow> None)
      else if c = ch_c then
        (case ap of Char_arg b # ap \<Rightarrow> map_option (Pair ap) (emit b out) | _ \<Rightarrow> None)
      else if c = ch_d then
        (case ap of
           Int_arg v # ap \<Rightarrow>
             if s32 v < 0 then do {
               out \<leftarrow> emit ch_minus out;
               out \<leftarrow> itoa (sub32 0 v) out 10;
               Some (ap, out)
             } else map_option (Pair ap) (itoa v out 10)
         | _ \<Rightarrow> None)
      else if c = ch_s then
        (case ap of Str_arg s # ap \<Rightarrow> map_option (Pair ap) (out_strcat s out) | _ \<Rightarrow> None)
      else map_option (Pair ap) (emit c out))"

fun vsprintf_loop :: "byte list \<Rightarrow> arg list \<Rightarrow> out \<Rightarrow> out option" where
  "vsprintf_loop [] ap out = Some out"
| "vsprintf_loop [c] ap out = (if c = ch_percent then None else emit c out)"
| "vsprintf_loop (c # d # fmt) ap out =
     (if c \<noteq> ch_percent then Option.bind (emit c out) (vsprintf_loop (d # fmt) ap)
      else do {
        (ap, out) \<leftarrow> conversion d ap out;
        vsprintf_loop fmt ap out
      })"

definition vsprintf :: "byte list \<Rightarrow> byte list \<Rightarrow> arg list \<Rightarrow> (nat \<times> byte list) option" where
  "vsprintf str format ap = do {
     (buf, _) \<leftarrow> vsprintf_loop format ap (str, 0);
     n \<leftarrow> c_strlen buf;
     Some (n, buf)
   }"

definition sprintf :: "byte list \<Rightarrow> byte list \<Rightarrow> arg list \<Rightarrow> (nat \<times> byte list) option" where
  "sprintf buf format args = do {
     (new_str_len, buf) \<leftarrow> vsprintf buf format args;
     Some (new_str_len, buf)
   }"

section \<open>The text of a format\<close>

definition digit :: "nat \<Rightarrow> byte" where
  "digit m = of_nat (if m < 10 then 48 + m else 55 + m)"

function digits_of :: "nat \<Rightarrow> nat \<Rightarrow> nat list" where
  "digits_of base v =
     (if base < 2 \<or> v < base then [v mod base] else digits_of base (v div base) @ [v mod base])"
  by auto
termination by (relation "measure snd") auto

declare digits_of.simps [simp del]

text \<open>The digits denote the number.\<close>

definition value_of :: "nat \<Rightarrow> nat list \<Rightarrow> nat" where
  "value_of base ds = foldl (\<lambda>a d. a * base + d) 0 ds"

lemma digits_of_value: "2 \<le> base \<Longrightarrow> value_of base (digits_of base v) = v"
  by (induction base v rule: digits_of.induct)
    (subst digits_of.simps, auto simp: value_of_def not_less)

lemma digits_of_less: "2 \<le> base \<Longrightarrow> d \<in> set (digits_of base v) \<Longrightarrow> d < base"
  by (induction base v rule: digits_of.induct)
    (subst (asm) (2) digits_of.simps, auto split: if_splits)

fun render :: "byte list \<Rightarrow> arg list \<Rightarrow> byte list option" where
  "render [] ap = Some []"
| "render [c] ap = (if c = ch_percent then None else Some [c])"
| "render (c # d # fmt) ap =
     (if c \<noteq> ch_percent then map_option ((#) c) (render (d # fmt) ap)
      else if d = ch_x then
        (case ap of Int_arg v # ap \<Rightarrow> map_option ((@) (map digit (digits_of 16 v))) (render fmt ap)
         | _ \<Rightarrow> None)
      else if d = ch_c then
        (case ap of Char_arg b # ap \<Rightarrow> map_option ((#) b) (render fmt ap) | _ \<Rightarrow> None)
      else if d = ch_d then
        (case ap of
           Int_arg v # ap \<Rightarrow> map_option ((@) ((if s32 v < 0 then [ch_minus] else [])
             @ map digit (digits_of 10 (nat \<bar>s32 v\<bar>)))) (render fmt ap)
         | _ \<Rightarrow> None)
      else if d = ch_s then
        (case ap of Str_arg s # ap \<Rightarrow> map_option ((@) s) (render fmt ap) | _ \<Rightarrow> None)
      else map_option ((#) d) (render fmt ap))"

text \<open>A buffer whose bytes from the write position on are zero; \<open>wrote t\<close> puts the text there.\<close>

definition clear_from :: "out \<Rightarrow> bool" where
  "clear_from = (\<lambda>(buf, pos). \<forall>i < length buf. pos \<le> i \<longrightarrow> buf ! i = 0)"

definition wrote :: "byte list \<Rightarrow> out \<Rightarrow> out" where
  "wrote t = (\<lambda>(buf, pos). (put_bytes pos t buf, pos + length t))"

definition fits :: "nat \<Rightarrow> out \<Rightarrow> bool" where
  "fits n = (\<lambda>(buf, pos). pos + n < length buf)"

lemma put_bytes_put_bytes:
  assumes "off + length xs \<le> length bs"
  shows "put_bytes (off + length xs) ys (put_bytes off xs bs) = put_bytes off (xs @ ys) bs"
  using assms by (simp add: put_bytes_def ac_simps)

lemma wrote_wrote: "fits (length s) out \<Longrightarrow> wrote t (wrote s out) = wrote (s @ t) out"
  by (cases out) (simp add: wrote_def put_bytes_put_bytes fits_def add.assoc)

lemma wrote_Nil [simp]: "wrote [] out = out"
  by (cases out) (simp add: wrote_def)

lemma fits_wrote: "fits (length s + n) out \<Longrightarrow> fits n (wrote s out)"
  by (cases out) (simp add: fits_def wrote_def length_put_bytes)

lemma clear_wrote: "clear_from out \<Longrightarrow> fits (length s) out \<Longrightarrow> clear_from (wrote s out)"
  by (cases out) (auto simp: clear_from_def wrote_def fits_def length_put_bytes nth_put_bytes)

lemma emit_runs: "fits 1 out \<Longrightarrow> emit b out = Some (wrote [b] out)"
  by (cases out) (simp add: emit_def fits_def wrote_def put_bytes_def upd_conv_take_nth_drop)

lemma itoa_unfold:
  assumes "2 \<le> base" and "base \<le> 16"
  shows "itoa v out base =
    Option.bind (if v div base \<noteq> 0 then itoa (v div base) out base else Some out)
      (emit (digit (v mod base)))"
proof -
  have "v mod base < base" using assms(1) by simp
  then have "v mod base < 16" using assms(2) by linarith
  then have "(if v mod base < 10 then emit (of_nat (48 + v mod base)) o'
      else if v mod base < 16 then emit (of_nat (65 + v mod base - 10)) o' else Some o')
      = emit (digit (v mod base)) o'" for o'
    by (simp add: digit_def del: of_nat_add)
  moreover have "base \<noteq> 0" using assms(1) by simp
  ultimately show ?thesis by (subst itoa.simps) (simp only: Let_def if_False)
qed

lemma itoa_runs:
  assumes "2 \<le> base" and "base \<le> 16"
  shows "fits (length (digits_of base v)) out \<Longrightarrow>
    itoa v out base = Some (wrote (map digit (digits_of base v)) out)"
  using assms
proof (induction base v arbitrary: out rule: digits_of.induct)
  case (1 base v)
  show ?case
  proof (cases "v < base")
    case True
    then have "digits_of base v = [v mod base]" by (simp add: digits_of.simps)
    then show ?thesis using "1.prems" True by (simp add: itoa_unfold [of base v] emit_runs)
  next
    case False
    then have d: "digits_of base v = digits_of base (v div base) @ [v mod base]"
      using "1.prems" by (subst digits_of.simps) simp
    let ?ds = "map digit (digits_of base (v div base))"
    have f: "fits (length ?ds) out" "fits 1 (wrote ?ds out)"
      using "1.prems"(1) fits_wrote [of ?ds 1 out] by (auto simp: d fits_def split: prod.splits)
    then have "itoa (v div base) out base = Some (wrote ?ds out)"
      using "1.IH" "1.prems" False by simp
    moreover have "v div base \<noteq> 0" using False "1.prems" by (simp add: div_eq_0_iff)
    ultimately have "itoa v out base = Some (wrote [digit (v mod base)] (wrote ?ds out))"
      using "1.prems" emit_runs [OF f(2)] by (simp add: itoa_unfold [of base v])
    then show ?thesis by (simp add: wrote_wrote [OF f(1)] d)
  qed
qed

lemma out_strcat_runs:
  assumes "clear_from out" and "fits (length s) out"
  shows "out_strcat s out = Some (wrote s out)"
proof -
  obtain buf pos where o: "out = (buf, pos)" by (cases out)
  have f: "pos + length s < length buf" using assms(2) o by (simp add: fits_def)
  have z: "drop pos buf ! i = 0" if "i < length (drop pos buf)" for i
    using assms(1) that o by (auto simp: clear_from_def)
  then obtain rest where r: "drop pos buf = 0 # rest"
    using f by (cases "drop pos buf") (auto dest: arg_cong [of _ _ length], force)
  then have n: "c_strlen (drop pos buf) = Some 0" by (simp add: c_strlen_def)
  have "buf ! (pos + length s) = 0" using assms(1) f o by (simp add: clear_from_def)
  then have "put_bytes pos (s @ [0]) buf = put_bytes pos s buf"
    using f by (simp add: put_bytes_def Cons_nth_drop_Suc [symmetric])
  then show ?thesis using f n by (simp add: out_strcat_def o wrote_def)
qed

text \<open>Integer arguments are 32 bit patterns.\<close>

definition args_ok :: "arg list \<Rightarrow> bool" where
  "args_ok ap \<longleftrightarrow> (\<forall>v. Int_arg v \<in> set ap \<longrightarrow> v < 4294967296)"

lemma s32_abs:
  assumes "v < 4294967296"
  shows "s32 v < 0 \<Longrightarrow> nat \<bar>s32 v\<bar> = sub32 0 v" and "\<not> s32 v < 0 \<Longrightarrow> nat \<bar>s32 v\<bar> = v"
  using assms by (auto simp: s32_def sub32_def u32_def split: if_splits)

lemma render_conversion:
  assumes "render (ch_percent # d # fmt) ap = Some t" and "args_ok ap"
    and "clear_from out" and "fits (length t) out"
  shows "\<exists>u rest ap'. t = u @ rest \<and> conversion d ap out = Some (ap', wrote u out)
    \<and> render fmt ap' = Some rest \<and> args_ok ap'"
proof -
  consider "d = ch_x" | "d = ch_c" | "d = ch_d" | "d = ch_s"
    | "d \<noteq> ch_x" "d \<noteq> ch_c" "d \<noteq> ch_d" "d \<noteq> ch_s" by blast
  then show ?thesis
  proof cases
    case 1
    then obtain v ap' rest where v: "ap = Int_arg v # ap'" "render fmt ap' = Some rest"
        "t = map digit (digits_of 16 v) @ rest"
      using assms(1) by (auto split: list.splits arg.splits)
    then have "fits (length (digits_of 16 v)) out" using assms(4) by (auto simp: fits_def split: prod.splits)
    then show ?thesis using v 1 assms(2) itoa_runs [of 16 v out]
      by (intro exI [of _ "map digit (digits_of 16 v)"] exI [of _ rest] exI [of _ ap'])
        (auto simp: conversion_def args_ok_def)
  next
    case 2
    then obtain b ap' rest where v: "ap = Char_arg b # ap'" "render fmt ap' = Some rest" "t = b # rest"
      using assms(1) by (auto split: list.splits arg.splits)
    then have "fits 1 out" using assms(4) by (auto simp: fits_def split: prod.splits)
    then show ?thesis using v 2 assms(2) emit_runs [of out b]
      by (intro exI [of _ "[b]"] exI [of _ rest] exI [of _ ap'])
        (auto simp: conversion_def args_ok_def)
  next
    case 3
    then obtain v ap' rest where v: "ap = Int_arg v # ap'" "render fmt ap' = Some rest"
        "t = ((if s32 v < 0 then [ch_minus] else []) @ map digit (digits_of 10 (nat \<bar>s32 v\<bar>))) @ rest"
      using assms(1) by (auto split: list.splits arg.splits)
    have b: "v < 4294967296" using assms(2) v(1) by (simp add: args_ok_def)
    let ?ds = "digits_of 10 (nat \<bar>s32 v\<bar>)"
    have "conversion d ap out =
        Some (ap', wrote ((if s32 v < 0 then [ch_minus] else []) @ map digit ?ds) out)"
    proof (cases "s32 v < 0")
      case True
      have f: "fits 1 out" "fits (length ?ds) (wrote [ch_minus] out)"
        using assms(4) v(3) True fits_wrote [of "[ch_minus]" "length ?ds" out]
        by (auto simp: fits_def split: prod.splits)
      then show ?thesis
        using True v(1) 3 itoa_runs [of 10 "nat \<bar>s32 v\<bar>" "wrote [ch_minus] out"] s32_abs(1) [OF b True]
        by (simp add: conversion_def emit_runs wrote_wrote)
    next
      case False
      have f: "fits (length ?ds) out"
        using assms(4) v(3) False by (auto simp: fits_def split: prod.splits)
      then show ?thesis
        using False v(1) 3 itoa_runs [of 10 "nat \<bar>s32 v\<bar>" out] s32_abs(2) [OF b False]
        by (simp add: conversion_def)
    qed
    then show ?thesis using v assms(2) by (auto simp: args_ok_def)
  next
    case 4
    then obtain u ap' rest where v: "ap = Str_arg u # ap'" "render fmt ap' = Some rest" "t = u @ rest"
      using assms(1) by (auto split: list.splits arg.splits)
    then have "fits (length u) out" using assms(4) by (auto simp: fits_def split: prod.splits)
    then show ?thesis using v 4 assms(2) out_strcat_runs [OF assms(3), of u]
      by (intro exI [of _ u] exI [of _ rest] exI [of _ ap'])
        (auto simp: conversion_def args_ok_def)
  next
    case 5
    then obtain rest where v: "render fmt ap = Some rest" "t = d # rest"
      using assms(1) by auto
    then have "fits 1 out" using assms(4) by (auto simp: fits_def split: prod.splits)
    then show ?thesis using v 5 assms(2) emit_runs [of out d]
      by (intro exI [of _ "[d]"] exI [of _ rest] exI [of _ ap]) (auto simp: conversion_def)
  qed
qed

lemma vsprintf_loop_runs:
  "render fmt ap = Some t \<Longrightarrow> args_ok ap \<Longrightarrow> clear_from out \<Longrightarrow> fits (length t) out \<Longrightarrow>
    vsprintf_loop fmt ap out = Some (wrote t out)"
proof (induction fmt ap out arbitrary: t rule: vsprintf_loop.induct)
  case (2 c ap out)
  then show ?case by (auto simp: emit_runs split: if_splits)
next
  case (3 c d fmt ap out)
  show ?case
  proof (cases "c = ch_percent")
    case False
    then obtain rest where r: "render (d # fmt) ap = Some rest" "t = c # rest"
      using "3.prems"(1) by auto
    have f: "fits 1 out" "fits (length rest) (wrote [c] out)"
      using "3.prems"(4) r(2) fits_wrote [of "[c]" "length rest" out]
      by (auto simp: fits_def split: prod.splits)
    moreover have "clear_from (wrote [c] out)" using clear_wrote "3.prems"(3) f(1) by simp
    ultimately show ?thesis using "3.IH"(1) [OF False _ r(1) "3.prems"(2)] False r(2) emit_runs [OF f(1)]
      by (simp add: wrote_wrote)
  next
    case True
    from render_conversion [OF _ "3.prems"(2-4)] "3.prems"(1) True obtain u rest ap'
      where c: "t = u @ rest" "conversion d ap out = Some (ap', wrote u out)"
        "render fmt ap' = Some rest" "args_ok ap'" by blast
    have f: "fits (length u) out" "fits (length rest) (wrote u out)"
      using "3.prems"(4) c(1) fits_wrote [of u "length rest" out]
      by (auto simp: fits_def split: prod.splits)
    moreover have "clear_from (wrote u out)" using clear_wrote "3.prems"(3) f(1) by simp
    ultimately show ?thesis using "3.IH"(2) [of "(ap', wrote u out)" ap' "wrote u out" rest] True c
      by (simp add: wrote_wrote)
  qed
qed simp

section \<open>Properties\<close>

text \<open>\<open>itoa\<close> writes the digits of the number: read back in the base they give the number, and
  nothing else of the buffer changes.\<close>

theorem itoa_digits:
  assumes "2 \<le> base" and "base \<le> 16" and "length (digits_of base v) + pos < length buf"
  shows "itoa v (buf, pos) base = Some (put_bytes pos (map digit (digits_of base v)) buf,
      pos + length (digits_of base v))
    \<and> value_of base (digits_of base v) = v"
  using itoa_runs [OF assms(1,2), of v "(buf, pos)"] assms digits_of_value [of base v]
  by (simp add: fits_def wrote_def add.commute)

theorem itoa_digits_witness:
  "itoa 1234 (replicate 8 0, 1) 10 = Some (put_bytes 1 (map digit [1, 2, 3, 4]) (replicate 8 0), 5)"
proof -
  have "digits_of 10 1234 = [1, 2, 3, 4]" by code_simp
  then show ?thesis using itoa_digits [of 10 1234 1 "replicate 8 0"] by simp
qed

text \<open>C34: \<open>vsprintf\<close> into a zeroed buffer that is large enough gives the text \<open>render\<close> defines
  for the format and the arguments, and its length.\<close>

theorem vsprintf_renders:
  assumes "render fmt ap = Some t" and "args_ok ap" and "0 \<notin> set t" and "length t < n"
  shows "vsprintf (replicate n 0) fmt ap = Some (length t, t @ replicate (n - length t) 0)"
proof -
  have "clear_from (replicate n 0, 0)" "fits (length t) (replicate n 0, 0)"
    using assms(4) by (auto simp: clear_from_def fits_def)
  from vsprintf_loop_runs [OF assms(1,2) this]
  have "vsprintf_loop fmt ap (replicate n 0, 0) = Some (t @ replicate (n - length t) 0, length t)"
    using assms(4) by (simp add: wrote_def put_bytes_def)
  moreover have "\<forall>b \<in> set t. b \<noteq> 0" using assms(3) by auto
  ultimately show ?thesis using assms(4)
    by (simp add: vsprintf_def c_strlen_def takeWhile_append2 takeWhile_replicate)
qed

text \<open>"n=%d" with the argument -5.\<close>

theorem vsprintf_renders_witness:
  "vsprintf (replicate 16 0) [110, 61, 37, 100] [Int_arg 4294967291] =
    Some (4, [110, 61, 45, 53] @ replicate 12 0)"
proof -
  have "digits_of 10 5 = [5]" by (simp add: digits_of.simps)
  then have "render [110, 61, 37, 100] [Int_arg 4294967291] = Some [110, 61, 45, 53]"
    by (simp add: s32_def digit_def)
  then show ?thesis
    using vsprintf_renders [of "[110, 61, 37, 100]" "[Int_arg 4294967291]" "[110, 61, 45, 53]" 16]
    by (simp add: args_ok_def)
qed

end
