(* ===== verification/FsState.thy ===== *)
theory FsState
  imports Prelude Bitmap Sched IoQueue
begin

text \<open>
  The data of the file system: the structures of \<open>fs/inode.h\<close>, \<open>fs/file.h\<close>, \<open>fs/fs.h\<close>,
  \<open>fs/super_block.h\<close> and \<open>device/ide.h\<close>, their layout on the disk, and the state the file
  system code shares.

  The disk is a function from sector numbers to sectors of 512 bytes. Sector transfers always
  succeed; a transfer that starts beyond \<open>max_lba\<close> has no effect, as in \<open>ide_read\<close> and
  \<open>ide_write\<close>, whose driver loop is the subject of theory \<open>Disk\<close>. In-memory inodes and
  directories live at addresses handed out by \<open>sys_malloc\<close>; \<open>heap_ok\<close> says which allocations
  succeed. An access through a null or freed pointer is not defined (\<open>None\<close>). Buffers that a
  function allocates and frees itself are values of that function; \<open>sys_malloc\<close> zeroes them.
\<close>

section \<open>Structures\<close>

text \<open>\<open>inode\<close> without its list tag; the list of open inodes is part of the state.\<close>

record inode =
  i_no :: nat
  i_bsize :: nat
  i_open_cnts :: nat
  write_deny :: bool
  i_sectors :: "nat list"

record dir_entry =
  filename :: "byte list"
  de_i_no :: nat
  f_type :: nat

abbreviation (input) FT_UNKNOW :: nat where "FT_UNKNOW \<equiv> 0"
abbreviation (input) FT_REGULAR :: nat where "FT_REGULAR \<equiv> 1"
abbreviation (input) FT_DIRECTORY :: nat where "FT_DIRECTORY \<equiv> 2"

abbreviation (input) SECTOR_SIZE :: nat where "SECTOR_SIZE \<equiv> 512"
abbreviation (input) BLOCK_SIZE :: nat where "BLOCK_SIZE \<equiv> 512"

definition MAX_FILE_OPEN :: nat where "MAX_FILE_OPEN = 32"
definition MAX_FILES_OPEN_PER_PROC :: nat where "MAX_FILES_OPEN_PER_PROC = 8"
definition MAX_FILE_NAME_LEN :: nat where "MAX_FILE_NAME_LEN = 16"
definition MAX_PATH_LEN :: nat where "MAX_PATH_LEN = 512"
definition PIPE_FLAG :: nat where "PIPE_FLAG = 0xFFFF"

record super_block =
  magic :: nat
  sb_sec_cnt :: nat
  inode_cnt :: nat
  part_lba_base :: nat
  block_bitmap_lba :: nat
  block_bitmap_sects :: nat
  inode_bitmap_lba :: nat
  inode_bitmap_sects :: nat
  inode_table_lba :: nat
  inode_table_sects :: nat
  root_inode_no :: nat
  dir_entry_size :: nat
  data_start_lba :: nat

record open_file =
  fd_pos :: nat
  fd_flag :: nat
  fd_inode :: nat

text \<open>\<open>dir\<close> without its sector buffer, which no operation reads before filling it.\<close>

record dir =
  d_inode :: nat
  dir_pos :: nat

text \<open>The address of the static variable \<open>root_dir\<close>.\<close>

definition ROOT_DIR :: nat where
  "ROOT_DIR = 1"

record fs =
  hd_sectors :: "nat \<Rightarrow> byte list"
  part_start_lba :: nat
  part_sec_cnt :: nat
  sb :: super_block
  block_bitmap :: BitMap
  inode_bitmap :: BitMap
  open_inodes :: "nat list"
  inodes :: "nat \<rightharpoonup> inode"
  dirs :: "nat \<rightharpoonup> dir"
  file_table :: "open_file list"
  next_addr :: nat
  heap_ok :: "nat \<Rightarrow> bool"
  pipes :: "nat \<rightharpoonup> ioqueue"
  keyboard_iobuffer :: ioqueue
  console :: "byte list"
  kern :: kst

section \<open>Memory layout\<close>

definition inode_size :: nat where
  "inode_size = 76"

definition inode_bytes :: "inode \<Rightarrow> byte list" where
  "inode_bytes i = le32 (i_no i) @ le32 (i_bsize i) @ le32 (i_open_cnts i)
     @ le32 (if write_deny i then 1 else 0) @ concat (map le32 (i_sectors i)) @ replicate 8 0"

definition inode_of_bytes :: "byte list \<Rightarrow> inode" where
  "inode_of_bytes bs = \<lparr>i_no = rd32 bs 0, i_bsize = rd32 bs 4, i_open_cnts = rd32 bs 8,
     write_deny = (rd32 bs 12 \<noteq> 0), i_sectors = map (\<lambda>k. rd32 bs (16 + 4 * k)) [0..<13]\<rparr>"

definition de_size :: nat where
  "de_size = 24"

definition de_bytes :: "dir_entry \<Rightarrow> byte list" where
  "de_bytes d = filename d @ le32 (de_i_no d) @ le32 (f_type d)"

definition de_of_bytes :: "byte list \<Rightarrow> dir_entry" where
  "de_of_bytes bs = \<lparr>filename = take 16 bs, de_i_no = rd32 bs 16, f_type = rd32 bs 20\<rparr>"

definition zero_dir_entry :: dir_entry where
  "zero_dir_entry = \<lparr>filename = replicate 16 0, de_i_no = 0, f_type = 0\<rparr>"

definition words_of :: "byte list \<Rightarrow> nat list" where
  "words_of bs = map (\<lambda>k. rd32 bs (4 * k)) [0..<128]"

definition bytes_of_words :: "nat list \<Rightarrow> byte list" where
  "bytes_of_words ws = concat (map le32 ws)"

text \<open>The string that starts at an offset of a buffer; it has to end inside the buffer.\<close>

definition cstr_in :: "byte list \<Rightarrow> nat \<Rightarrow> byte list option" where
  "cstr_in bs off = (if 0 \<in> set (drop off bs)
     then Some (takeWhile (\<lambda>b. b \<noteq> 0) (drop off bs)) else None)"

section \<open>Transfers and allocation\<close>

definition max_lba :: nat where
  "max_lba = 80 * 1024 * 1024 div 512 - 1"

definition ide_read :: "fs \<Rightarrow> nat \<Rightarrow> byte list \<Rightarrow> nat \<Rightarrow> byte list option" where
  "ide_read s lba buf sec_cnt =
     (if lba > max_lba then Some buf
      else do {
        _ \<leftarrow> ensure (sec_cnt * 512 \<le> length buf);
        Some (put_bytes 0 (concat (map (hd_sectors s) [lba..<lba + sec_cnt])) buf)
      })"

definition ide_write :: "nat \<Rightarrow> byte list \<Rightarrow> nat \<Rightarrow> fs \<Rightarrow> fs option" where
  "ide_write lba buf sec_cnt s =
     (if lba > max_lba then Some s
      else do {
        _ \<leftarrow> ensure (sec_cnt * 512 \<le> length buf);
        Some (s\<lparr>hd_sectors := (\<lambda>l. if lba \<le> l \<and> l < lba + sec_cnt
          then sub_bytes ((l - lba) * 512) 512 buf else hd_sectors s l)\<rparr>)
      })"

text \<open>\<open>sys_malloc\<close>: a fresh address, or \<open>NULL\<close>.\<close>

definition fs_malloc :: "fs \<Rightarrow> nat \<times> fs" where
  "fs_malloc s = (if heap_ok s (next_addr s) then next_addr s else 0, s\<lparr>next_addr := next_addr s + 1\<rparr>)"

definition upd_inode :: "nat \<Rightarrow> (inode \<Rightarrow> inode) \<Rightarrow> fs \<Rightarrow> fs option" where
  "upd_inode a f s = map_option (\<lambda>i. s\<lparr>inodes := (inodes s)(a \<mapsto> f i)\<rparr>) (inodes s a)"

definition upd_dir :: "nat \<Rightarrow> (dir \<Rightarrow> dir) \<Rightarrow> fs \<Rightarrow> fs option" where
  "upd_dir a f s = map_option (\<lambda>d. s\<lparr>dirs := (dirs s)(a \<mapsto> f d)\<rparr>) (dirs s a)"

definition upd_file :: "nat \<Rightarrow> (open_file \<Rightarrow> open_file) \<Rightarrow> fs \<Rightarrow> fs option" where
  "upd_file k f s = do {
     x \<leftarrow> rd_at (file_table s) k;
     Some (s\<lparr>file_table := (file_table s)[k := f x]\<rparr>)
   }"

text \<open>The process control block of the running thread.\<close>

definition cur_task :: "fs \<Rightarrow> task_struct option" where
  "cur_task s = tasks (kern s) (get_running_thread_pcb (kern s))"

definition upd_cur :: "(task_struct \<Rightarrow> task_struct) \<Rightarrow> fs \<Rightarrow> fs option" where
  "upd_cur f s = map_option (\<lambda>k. s\<lparr>kern := k\<rparr>) (upd_task (get_running_thread_pcb (kern s)) f (kern s))"

section \<open>Layout lemmas\<close>

text \<open>Values that fit their fields.\<close>

definition inode_ok :: "inode \<Rightarrow> bool" where
  "inode_ok i \<longleftrightarrow> i_no i < 4294967296 \<and> i_bsize i < 4294967296 \<and> i_open_cnts i < 4294967296
     \<and> length (i_sectors i) = 13 \<and> (\<forall>n \<in> set (i_sectors i). n < 4294967296)"

definition de_ok :: "dir_entry \<Rightarrow> bool" where
  "de_ok d \<longleftrightarrow> length (filename d) = 16 \<and> de_i_no d < 4294967296 \<and> f_type d < 4294967296"

lemma length_concat_le32 [simp]: "length (concat (map le32 ws)) = 4 * length ws"
  by (induction ws) auto

lemma length_inode_bytes: "length (i_sectors i) = 13 \<Longrightarrow> length (inode_bytes i) = 76"
  by (simp add: inode_bytes_def)

lemma length_de_bytes: "length (filename d) = 16 \<Longrightarrow> length (de_bytes d) = 24"
  by (simp add: de_bytes_def)

lemma rd32_at:
  assumes "bs = xs @ le32 n @ ys" and "off = length xs" and "n < 4294967296"
  shows "rd32 bs off = n"
  using assms rd32_le32_append [of xs n ys] by simp

lemma rd32_concat:
  assumes "k < length ws" and "\<forall>n \<in> set ws. n < 4294967296"
  shows "rd32 (xs @ concat (map le32 ws) @ ys) (length xs + 4 * k) = ws ! k"
proof -
  have "ws = take k ws @ ws ! k # drop (Suc k) ws" using assms(1) by (rule id_take_nth_drop)
  then have "concat (map le32 ws) =
      concat (map le32 (take k ws)) @ le32 (ws ! k) @ concat (map le32 (drop (Suc k) ws))"
    by (metis concat.simps(2) concat_append list.simps(9) map_append)
  then show ?thesis using assms
    by (intro rd32_at [where xs = "xs @ concat (map le32 (take k ws))"
          and ys = "concat (map le32 (drop (Suc k) ws)) @ ys"]) auto
qed

text \<open>An inode read back from its bytes is the inode that was written.\<close>

lemma inode_of_inode_bytes:
  assumes "inode_ok i"
  shows "inode_of_bytes (inode_bytes i) = i"
proof -
  have "rd32 (inode_bytes i) 0 = i_no i"
    using assms by (intro rd32_at [where xs = "[]"]) (auto simp: inode_bytes_def inode_ok_def)
  moreover have "rd32 (inode_bytes i) 4 = i_bsize i"
    using assms by (intro rd32_at [where xs = "le32 (i_no i)"]) (auto simp: inode_bytes_def inode_ok_def)
  moreover have "rd32 (inode_bytes i) 8 = i_open_cnts i"
    using assms by (intro rd32_at [where xs = "le32 (i_no i) @ le32 (i_bsize i)"])
      (auto simp: inode_bytes_def inode_ok_def)
  moreover have "rd32 (inode_bytes i) 12 = (if write_deny i then 1 else 0)"
    by (intro rd32_at [where xs = "le32 (i_no i) @ le32 (i_bsize i) @ le32 (i_open_cnts i)"])
      (auto simp: inode_bytes_def)
  moreover have "map (\<lambda>k. rd32 (inode_bytes i) (16 + 4 * k)) [0..<13] = i_sectors i"
  proof (rule nth_equalityI)
    fix k assume "k < length (map (\<lambda>k. rd32 (inode_bytes i) (16 + 4 * k)) [0..<13])"
    then have k: "k < 13" by simp
    let ?h = "le32 (i_no i) @ le32 (i_bsize i) @ le32 (i_open_cnts i)
        @ le32 (if write_deny i then 1 else 0)"
    have "rd32 (?h @ concat (map le32 (i_sectors i)) @ replicate 8 0) (length ?h + 4 * k) = i_sectors i ! k"
      using assms k by (intro rd32_concat) (auto simp: inode_ok_def)
    then show "map (\<lambda>k. rd32 (inode_bytes i) (16 + 4 * k)) [0..<13] ! k = i_sectors i ! k"
      using k by (simp add: inode_bytes_def del: upt_Suc)
  qed (use assms in \<open>simp add: inode_ok_def\<close>)
  ultimately show ?thesis by (simp add: inode_of_bytes_def)
qed

lemma de_of_de_bytes:
  assumes "de_ok d"
  shows "de_of_bytes (de_bytes d) = d"
proof -
  have "rd32 (de_bytes d) 16 = de_i_no d"
    using assms by (intro rd32_at [where xs = "filename d"]) (auto simp: de_bytes_def de_ok_def)
  moreover have "rd32 (de_bytes d) 20 = f_type d"
    using assms by (intro rd32_at [where xs = "filename d @ le32 (de_i_no d)" and ys = "[]"])
      (auto simp: de_bytes_def de_ok_def)
  moreover have "take 16 (de_bytes d) = filename d" using assms by (simp add: de_bytes_def de_ok_def)
  ultimately show ?thesis by (simp add: de_of_bytes_def)
qed

lemma words_of_bytes:
  assumes "length ws = 128" and "\<forall>n \<in> set ws. n < 4294967296"
  shows "words_of (bytes_of_words ws) = ws"
proof (rule nth_equalityI)
  fix k assume "k < length (words_of (bytes_of_words ws))"
  then have "k < 128" by (simp add: words_of_def)
  then show "words_of (bytes_of_words ws) ! k = ws ! k"
    using rd32_concat [of k ws "[]" "[]"] assms by (simp add: words_of_def bytes_of_words_def del: upt_Suc)
qed (use assms in \<open>simp add: words_of_def\<close>)

lemma length_bytes_of_words [simp]: "length (bytes_of_words ws) = 4 * length ws"
  by (simp add: bytes_of_words_def)

section \<open>Transfer lemmas\<close>

text \<open>All sectors have their size.\<close>

definition disk_ok :: "fs \<Rightarrow> bool" where
  "disk_ok s \<longleftrightarrow> (\<forall>l. length (hd_sectors s l) = 512)"

lemma ide_read_one:
  assumes "disk_ok s" and "lba \<le> max_lba" and "512 \<le> length buf"
  shows "ide_read s lba buf 1 = Some (hd_sectors s lba @ drop 512 buf)"
  using assms by (simp add: ide_read_def put_bytes_def disk_ok_def)

lemma ide_read_two:
  assumes "disk_ok s" and "lba \<le> max_lba" and "1024 \<le> length buf"
  shows "ide_read s lba buf 2 = Some (hd_sectors s lba @ hd_sectors s (lba + 1) @ drop 1024 buf)"
proof -
  have "[lba..<lba + 2] = [lba, lba + 1]" by (simp add: upt_rec)
  then show ?thesis using assms by (simp add: ide_read_def put_bytes_def disk_ok_def)
qed

lemma ide_write_one:
  assumes "lba \<le> max_lba" and "512 \<le> length buf"
  shows "ide_write lba buf 1 s = Some (s\<lparr>hd_sectors := (hd_sectors s)(lba := take 512 buf)\<rparr>)"
proof -
  have "(\<lambda>l. if lba \<le> l \<and> l < lba + 1 then sub_bytes ((l - lba) * 512) 512 buf else hd_sectors s l)
      = (hd_sectors s)(lba := take 512 buf)"
    by (rule ext) (auto simp: sub_bytes_def)
  then show ?thesis using assms by (simp add: ide_write_def)
qed

lemma ide_write_two:
  assumes "lba \<le> max_lba" and "1024 \<le> length buf"
  shows "ide_write lba buf 2 s = Some (s\<lparr>hd_sectors :=
    (hd_sectors s)(lba := take 512 buf, lba + 1 := take 512 (drop 512 buf))\<rparr>)"
proof -
  have "(\<lambda>l. if lba \<le> l \<and> l < lba + 2 then sub_bytes ((l - lba) * 512) 512 buf else hd_sectors s l)
      = (hd_sectors s)(lba := take 512 buf, lba + 1 := take 512 (drop 512 buf))"
    by (rule ext) (auto simp: sub_bytes_def le_less_Suc_eq numeral_2_eq_2 less_Suc_eq)
  then show ?thesis using assms by (simp add: ide_write_def)
qed

section \<open>An example\<close>

text \<open>
  A small partition: the root directory with the file "a" (inode 1), which holds the five bytes
  1, 2, 3, 4, 5. The root directory is open at address 50; no file is.
\<close>

definition sample_root :: inode where
  "sample_root = \<lparr>i_no = 0, i_bsize = 72, i_open_cnts = 0, write_deny = False,
     i_sectors = 613 # replicate 12 0\<rparr>"

definition sample_file :: inode where
  "sample_file = \<lparr>i_no = 1, i_bsize = 5, i_open_cnts = 0, write_deny = False,
     i_sectors = 614 # replicate 12 0\<rparr>"

definition sample_entry :: "byte list \<Rightarrow> nat \<Rightarrow> nat \<Rightarrow> dir_entry" where
  "sample_entry name n t = \<lparr>filename = name @ replicate (16 - length name) 0, de_i_no = n, f_type = t\<rparr>"

definition sample_sectors :: "nat \<Rightarrow> byte list" where
  "sample_sectors l =
     (if l = 5 then inode_bytes sample_root @ inode_bytes sample_file @ replicate 360 0
      else if l = 613 then de_bytes (sample_entry [46] 0 FT_DIRECTORY)
        @ de_bytes (sample_entry [46, 46] 0 FT_DIRECTORY)
        @ de_bytes (sample_entry [97] 1 FT_REGULAR) @ replicate 440 0
      else if l = 614 then [1, 2, 3, 4, 5] @ replicate 507 0
      else replicate 512 0)"

definition sample_sb :: super_block where
  "sample_sb = \<lparr>magic = 0x10190498, sb_sec_cnt = 5000, inode_cnt = 4096, part_lba_base = 1,
     block_bitmap_lba = 3, block_bitmap_sects = 1, inode_bitmap_lba = 4, inode_bitmap_sects = 1,
     inode_table_lba = 5, inode_table_sects = 608, root_inode_no = 0, dir_entry_size = 24,
     data_start_lba = 613\<rparr>"

definition sample_fs :: fs where
  "sample_fs = \<lparr>hd_sectors = sample_sectors, part_start_lba = 1, part_sec_cnt = 5000, sb = sample_sb,
     block_bitmap = \<lparr>bitmap_byte_len = 512, bits = 3 # replicate 511 0\<rparr>,
     inode_bitmap = \<lparr>bitmap_byte_len = 512, bits = 3 # replicate 511 0\<rparr>,
     open_inodes = [50], inodes = [50 \<mapsto> sample_root\<lparr>i_open_cnts := 1\<rparr>],
     dirs = [ROOT_DIR \<mapsto> \<lparr>d_inode = 50, dir_pos = 0\<rparr>],
     file_table = replicate 32 \<lparr>fd_pos = 0, fd_flag = 0, fd_inode = 0\<rparr>,
     next_addr = 100, heap_ok = (\<lambda>a. True), pipes = Map.empty, keyboard_iobuffer = sample_ring,
     console = [], kern = sample_kst\<rparr>"

lemma length_sample_inodes: "length (inode_bytes sample_root) = 76" "length (inode_bytes sample_file) = 76"
  by (simp_all add: length_inode_bytes sample_root_def sample_file_def)

lemma length_sample_entry [simp]: "length name \<le> 16 \<Longrightarrow> length (de_bytes (sample_entry name n t)) = 24"
  by (simp add: length_de_bytes sample_entry_def)

lemma sample_disk_ok: "disk_ok sample_fs"
  by (simp add: disk_ok_def sample_fs_def sample_sectors_def length_sample_inodes)

lemma sample_inodes_ok: "inode_ok sample_root" "inode_ok sample_file"
  by (simp_all add: inode_ok_def sample_root_def sample_file_def)

end
