(* ===== verification/Inode.thy ===== *)
theory Inode
  imports Prelude FsState
begin

text \<open>
  Inodes on the disk and in memory (\<open>fs/inode.c\<close>). \<open>disk_inode s n\<close> is the inode the inode
  table of the disk holds at the place of number \<open>n\<close>, which starts at byte \<open>76 * n\<close> of the
  table. The offset inside a sector is kept in a \<open>uint8_t\<close>, so the code finds this place only
  for the numbers with \<open>exact_pos\<close>; the lemmas show the round trip for these and what the
  truncation does to the others.
\<close>

section \<open>The functions\<close>

record inode_position =
  two_sec :: bool
  sec_lba :: nat
  off_size :: nat

definition inode_locate :: "fs \<Rightarrow> nat \<Rightarrow> inode_position option" where
  "inode_locate s inode_no = do {
     _ \<leftarrow> ensure (inode_no < 4096);
     let off_size = mul32 inode_no inode_size;
     let off_sec = off_size div 512;
     let off_size_in_sec = off_size mod 512;
     let lef_in_sec = 512 - off_size_in_sec;
     Some \<lparr>two_sec = (lef_in_sec < inode_size), sec_lba = add32 (inode_table_lba (sb s)) off_sec,
       off_size = u8 off_size_in_sec\<rparr>
   }"

definition inode_sync :: "inode \<Rightarrow> byte list \<Rightarrow> fs \<Rightarrow> fs option" where
  "inode_sync ino io_buf s = do {
     let inode_no = u8 (i_no ino);
     pos \<leftarrow> inode_locate s inode_no;
     _ \<leftarrow> ensure (part_start_lba s < sec_lba pos);
     let pure_inode = ino\<lparr>i_open_cnts := 0, write_deny := False\<rparr>;
     let sector_cnt = (if two_sec pos then 2 else 1);
     inode_buf \<leftarrow> ide_read s (sec_lba pos) io_buf sector_cnt;
     _ \<leftarrow> ensure (off_size pos + inode_size \<le> length inode_buf);
     let inode_buf = put_bytes (off_size pos) (inode_bytes pure_inode) inode_buf;
     ide_write (sec_lba pos) inode_buf sector_cnt s
   }"

text \<open>The list of open inodes is searched by number.\<close>

fun find_open :: "fs \<Rightarrow> nat \<Rightarrow> nat list \<Rightarrow> nat option option" where
  "find_open s inode_no [] = Some None"
| "find_open s inode_no (a # as) = do {
     i \<leftarrow> inodes s a;
     if i_no i = inode_no then Some (Some a) else find_open s inode_no as
   }"

definition inode_open :: "nat \<Rightarrow> fs \<Rightarrow> (nat \<times> fs) option" where
  "inode_open inode_no s = do {
     found \<leftarrow> find_open s inode_no (open_inodes s);
     case found of
       Some a \<Rightarrow> do {
         s \<leftarrow> upd_inode a (\<lambda>i. i\<lparr>i_open_cnts := add32 (i_open_cnts i) 1\<rparr>) s;
         Some (a, s)
       }
     | None \<Rightarrow> do {
         pos \<leftarrow> inode_locate s inode_no;
         let (inode_found, s) = fs_malloc s;
         let (inode_buf, s) = fs_malloc s;
         let cnt = (if two_sec pos then 2 else 1);
         _ \<leftarrow> ensure (inode_buf \<noteq> 0);
         buf \<leftarrow> ide_read s (sec_lba pos) (replicate (512 * cnt) 0) cnt;
         _ \<leftarrow> ensure (inode_found \<noteq> 0);
         _ \<leftarrow> ensure (off_size pos + inode_size \<le> length buf);
         let i = (inode_of_bytes (sub_bytes (off_size pos) inode_size buf))\<lparr>i_open_cnts := 1\<rparr>;
         Some (inode_found, s\<lparr>inodes := (inodes s)(inode_found \<mapsto> i),
           open_inodes := inode_found # open_inodes s\<rparr>)
       }
   }"

definition inode_close :: "nat \<Rightarrow> fs \<Rightarrow> fs option" where
  "inode_close a s = do {
     i \<leftarrow> inodes s a;
     let cnt = sub32 (i_open_cnts i) 1;
     s \<leftarrow> upd_inode a (\<lambda>i. i\<lparr>i_open_cnts := cnt\<rparr>) s;
     if cnt = 0
     then Some (s\<lparr>open_inodes := remove1 a (open_inodes s), inodes := (inodes s)(a := None)\<rparr>)
     else Some s
   }"

definition inode_init :: "nat \<Rightarrow> inode" where
  "inode_init inode_no =
     \<lparr>i_no = inode_no, i_bsize = 0, i_open_cnts = 0, write_deny = False, i_sectors = replicate 13 0\<rparr>"

text \<open>The copy goes to a buffer of 140 zero words.\<close>

definition copy_inode_isectors :: "fs \<Rightarrow> inode \<Rightarrow> nat list option" where
  "copy_inode_isectors s i = do {
     _ \<leftarrow> ensure (length (i_sectors i) = 13);
     let direct = take 12 (i_sectors i);
     if i_sectors i ! 12 \<noteq> 0 then do {
       buf \<leftarrow> ide_read s (i_sectors i ! 12) (replicate 512 0) 1;
       Some (direct @ words_of buf)
     } else Some (direct @ replicate 128 0)
   }"

section \<open>The inode table\<close>

text \<open>The place of an inode by the layout of the table.\<close>

definition home_lba :: "fs \<Rightarrow> nat \<Rightarrow> nat" where
  "home_lba s n = inode_table_lba (sb s) + n * 76 div 512"

definition home_off :: "nat \<Rightarrow> nat" where
  "home_off n = n * 76 mod 512"

definition disk_inode :: "fs \<Rightarrow> nat \<Rightarrow> inode" where
  "disk_inode s n = inode_of_bytes (sub_bytes (home_off n) 76
     (hd_sectors s (home_lba s n) @ hd_sectors s (home_lba s n + 1)))"

text \<open>The numbers whose place survives the 8 bit offset.\<close>

definition exact_pos :: "nat \<Rightarrow> bool" where
  "exact_pos n \<longleftrightarrow> n < 256 \<and> home_off n < 256"

definition table_ok :: "fs \<Rightarrow> bool" where
  "table_ok s \<longleftrightarrow> disk_ok s \<and> part_start_lba s < inode_table_lba (sb s)
     \<and> inode_table_lba (sb s) + 1000 \<le> max_lba"

lemma inode_locate_runs:
  assumes "n < 4096" and "table_ok s"
  shows "inode_locate s n = Some \<lparr>two_sec = (436 < home_off n), sec_lba = home_lba s n,
    off_size = u8 (home_off n)\<rparr>"
proof -
  have "n * 76 < 4294967296" "inode_table_lba (sb s) + n * 76 div 512 < 4294967296"
    using assms by (auto simp: table_ok_def max_lba_def)
  moreover have "n * 76 mod 512 < 512" by simp
  then have "(512 - n * 76 mod 512 < 76) = (436 < n * 76 mod 512)" by arith
  ultimately show ?thesis using assms(1)
    by (simp add: inode_locate_def inode_size_def mul32_small add32_small home_lba_def home_off_def
        Let_def)
qed

lemma home_lba_bounds:
  assumes "n < 4096" and "table_ok s"
  shows "home_lba s n \<le> max_lba" and "part_start_lba s < home_lba s n"
  using assms by (auto simp: home_lba_def table_ok_def)

lemma exact_locate:
  assumes "exact_pos n" and "table_ok s"
  shows "inode_locate s n = Some \<lparr>two_sec = False, sec_lba = home_lba s n, off_size = home_off n\<rparr>"
  using inode_locate_runs [of n s] assms by (simp add: exact_pos_def)

text \<open>What \<open>inode_sync\<close> writes, for any number below 256.\<close>

lemma inode_sync_runs:
  assumes "table_ok s" and "i_no i < 256" and "\<not> 436 < home_off (i_no i)"
    and "length (i_sectors i) = 13" and "512 \<le> length io_buf"
  shows "inode_sync i io_buf s = Some (s\<lparr>hd_sectors := (hd_sectors s)(home_lba s (i_no i) :=
    put_bytes (u8 (home_off (i_no i))) (inode_bytes (i\<lparr>i_open_cnts := 0, write_deny := False\<rparr>))
      (hd_sectors s (home_lba s (i_no i))))\<rparr>)"
proof -
  let ?n = "i_no i"
  let ?p = "i\<lparr>i_open_cnts := 0, write_deny := False\<rparr>"
  let ?sec = "hd_sectors s (home_lba s ?n)"
  let ?off = "u8 (home_off ?n)"
  have d: "disk_ok s" and n: "?n < 4096" using assms(1,2) by (auto simp: table_ok_def)
  then have len: "length ?sec = 512" by (simp add: disk_ok_def)
  have p: "length (inode_bytes ?p) = 76" using assms(4) by (simp add: length_inode_bytes)
  have off: "?off + 76 \<le> 512" using u8_less [of "home_off ?n"] by linarith
  have "ide_read s (home_lba s ?n) io_buf 1 = Some (?sec @ drop 512 io_buf)"
    using ide_read_one [OF d home_lba_bounds(1) [OF n assms(1)] assms(5)] .
  moreover have "take 512 (put_bytes ?off (inode_bytes ?p) (?sec @ drop 512 io_buf)) =
      put_bytes ?off (inode_bytes ?p) ?sec"
    using off p len by (simp add: put_bytes_def min_def)
  moreover have "ide_write (home_lba s ?n) (put_bytes ?off (inode_bytes ?p) (?sec @ drop 512 io_buf)) 1 s
      = Some (s\<lparr>hd_sectors := (hd_sectors s)(home_lba s ?n :=
          take 512 (put_bytes ?off (inode_bytes ?p) (?sec @ drop 512 io_buf)))\<rparr>)"
    using ide_write_one [OF home_lba_bounds(1) [OF n assms(1)]] off p len
    by (simp add: length_put_bytes)
  ultimately show ?thesis
    using inode_locate_runs [OF n assms(1)] home_lba_bounds(2) [OF n assms(1)] assms(2,3) off len
    by (simp add: inode_sync_def inode_size_def)
qed

lemma home_disjoint:
  assumes "k \<noteq> n" and "home_lba s k = home_lba s n"
  shows "home_off k + 76 \<le> home_off n \<or> home_off n + 76 \<le> home_off k"
proof -
  have "k * 76 div 512 = n * 76 div 512" using assms(2) by (simp add: home_lba_def)
  then have e: "k * 76 = (n * 76 div 512) * 512 + home_off k" "n * 76 = (n * 76 div 512) * 512 + home_off n"
    unfolding home_off_def using div_mult_mod_eq [of "k * 76" 512] div_mult_mod_eq [of "n * 76" 512]
    by simp_all
  show ?thesis
  proof (cases "k < n")
    case True
    then have "k * 76 + 76 \<le> n * 76" by simp
    with e show ?thesis by linarith
  next
    case False
    then have "n * 76 + 76 \<le> k * 76" using assms(1) by simp
    with e show ?thesis by linarith
  qed
qed

text \<open>An inode whose place is found is written there, and no other such inode is touched.\<close>

lemma inode_sync_exact:
  assumes "table_ok s" and "exact_pos (i_no i)" and "inode_ok i" and "512 \<le> length io_buf"
  shows "\<exists>s'. inode_sync i io_buf s = Some s'
    \<and> disk_inode s' (i_no i) = i\<lparr>i_open_cnts := 0, write_deny := False\<rparr>
    \<and> (\<forall>k. exact_pos k \<longrightarrow> k \<noteq> i_no i \<longrightarrow> disk_inode s' k = disk_inode s k)
    \<and> table_ok s' \<and> sb s' = sb s"
proof -
  let ?n = "i_no i"
  let ?p = "i\<lparr>i_open_cnts := 0, write_deny := False\<rparr>"
  have x: "?n < 256" "home_off ?n < 256" and l: "length (i_sectors i) = 13"
    using assms(2,3) by (auto simp: exact_pos_def inode_ok_def)
  define sec where "sec = put_bytes (home_off ?n) (inode_bytes ?p) (hd_sectors s (home_lba s ?n))"
  define s' where "s' = s\<lparr>hd_sectors := (hd_sectors s)(home_lba s ?n := sec)\<rparr>"
  have len: "length (hd_sectors s t) = 512" for t using assms(1) by (simp add: table_ok_def disk_ok_def)
  have p: "length (inode_bytes ?p) = 76" "inode_of_bytes (inode_bytes ?p) = ?p"
    using l assms(3) inode_of_inode_bytes [of ?p] by (auto simp: length_inode_bytes inode_ok_def)
  have run: "inode_sync i io_buf s = Some s'"
    using inode_sync_runs [OF assms(1) x(1) _ l assms(4)] x(2) by (simp add: s'_def sec_def)
  have lsec: "length sec = 512" using x(2) p len by (simp add: sec_def length_put_bytes)
  have h: "home_lba s' k = home_lba s k" for k by (simp add: s'_def home_lba_def)
  have one: "disk_inode t k = inode_of_bytes (sub_bytes (home_off k) 76 (hd_sectors t (home_lba t k)))"
    if "exact_pos k" "length (hd_sectors t (home_lba t k)) = 512" for t k
    using that by (simp add: disk_inode_def sub_bytes_def exact_pos_def)
  have at: "disk_inode s' ?n = ?p"
    using one [OF assms(2), of s'] h lsec p x(2) len
    by (simp add: s'_def home_lba_def sec_def sub_put_bytes_same)
  have "disk_inode s' k = disk_inode s k" if k: "exact_pos k" "k \<noteq> ?n" for k
  proof (cases "home_lba s k = home_lba s ?n")
    case True
    have "sub_bytes (home_off k) 76 sec = sub_bytes (home_off k) 76 (hd_sectors s (home_lba s ?n))"
      unfolding sec_def using home_disjoint [OF k(2) True] p(1) x(2) k(1) len
      by (intro sub_put_bytes_apart) (auto simp: exact_pos_def)
    then show ?thesis
      using one [OF k(1), of s'] one [OF k(1), of s] lsec len True h [of k] by (simp add: s'_def)
  next
    case False
    then show ?thesis using one [OF k(1), of s'] one [OF k(1), of s] len h [of k] by (simp add: s'_def)
  qed
  moreover have "table_ok s'" using assms(1) lsec by (simp add: table_ok_def disk_ok_def s'_def)
  ultimately show ?thesis using run at by (auto simp: s'_def)
qed

text \<open>
  Number 4 has offset 304, kept as 48: its inode is written over the end of inode 0 and the
  start of inode 1, whose number on the disk becomes the fourth block pointer of inode 4.
\<close>

lemma home_4: "home_off 4 = 304" "home_off 1 = 76" "home_lba s 4 = inode_table_lba (sb s)"
  "home_lba s 1 = inode_table_lba (sb s)"
  by (simp_all add: home_off_def home_lba_def)

lemma rd32_sub: "off + 4 \<le> n \<Longrightarrow> pos + n \<le> length bs \<Longrightarrow> rd32 (sub_bytes pos n bs) off = rd32 bs (pos + off)"
  by (simp add: rd32_def nth_sub_bytes Let_def add.assoc)

lemma rd32_put:
  assumes "pos + length ys \<le> length bs" and "off + 4 \<le> length ys"
  shows "rd32 (put_bytes pos ys bs) (pos + off) = rd32 ys off"
  using rd32_sub [of off "length ys" pos "put_bytes pos ys bs"] assms
  by (simp add: sub_put_bytes_same length_put_bytes)

lemma inode_sync_4:
  assumes "table_ok s" and "inode_ok i" and "i_no i = 4" and "512 \<le> length io_buf"
  shows "\<exists>s'. inode_sync i io_buf s = Some s' \<and> i_no (disk_inode s' 1) = i_sectors i ! 3"
proof -
  let ?p = "i\<lparr>i_open_cnts := 0, write_deny := False\<rparr>"
  let ?lba = "inode_table_lba (sb s)"
  define sec where "sec = put_bytes 48 (inode_bytes ?p) (hd_sectors s ?lba)"
  define s' where "s' = s\<lparr>hd_sectors := (hd_sectors s)(?lba := sec)\<rparr>"
  have l: "length (i_sectors i) = 13" using assms(2) by (simp add: inode_ok_def)
  have len: "length (hd_sectors s t) = 512" for t using assms(1) by (simp add: table_ok_def disk_ok_def)
  have p: "length (inode_bytes ?p) = 76" using l by (simp add: length_inode_bytes)
  have lsec: "length sec = 512" using p len by (simp add: sec_def length_put_bytes)
  have run: "inode_sync i io_buf s = Some s'"
    using inode_sync_runs [OF assms(1) _ _ l assms(4)] assms(3)
    by (simp add: s'_def sec_def home_4 u8_def)
  have "i_no (disk_inode s' 1) = rd32 (sub_bytes 76 76 (sec @ hd_sectors s (?lba + 1))) 0"
    by (simp add: disk_inode_def home_off_def home_lba_def s'_def inode_of_bytes_def)
  also have "\<dots> = rd32 (sub_bytes 76 76 sec) 0" using lsec by (simp add: sub_bytes_def)
  also have "\<dots> = rd32 sec (48 + 28)" using lsec by (simp add: rd32_sub)
  also have "\<dots> = rd32 (inode_bytes ?p) 28"
    unfolding sec_def using p len by (intro rd32_put) auto
  also have "\<dots> = i_sectors i ! 3"
  proof -
    let ?h = "le32 (i_no ?p) @ le32 (i_bsize ?p) @ le32 (i_open_cnts ?p)
        @ le32 (if write_deny ?p then 1 else 0)"
    have "rd32 (?h @ concat (map le32 (i_sectors i)) @ replicate 8 0) (length ?h + 4 * 3) = i_sectors i ! 3"
      using assms(2) by (intro rd32_concat) (auto simp: inode_ok_def)
    then show ?thesis by (simp add: inode_bytes_def)
  qed
  finally show ?thesis using run by blast
qed

section \<open>Opening and closing\<close>

text \<open>The open inodes of a state: distinct addresses, each in the heap, with distinct numbers.\<close>

definition opens_ok :: "fs \<Rightarrow> bool" where
  "opens_ok s \<longleftrightarrow> distinct (open_inodes s)
     \<and> (\<forall>a \<in> set (open_inodes s). a \<noteq> 0 \<and> a < next_addr s \<and> inodes s a \<noteq> None
         \<and> 0 < i_open_cnts (the (inodes s a)))
     \<and> (\<forall>a \<in> set (open_inodes s). \<forall>b \<in> set (open_inodes s).
         i_no (the (inodes s a)) = i_no (the (inodes s b)) \<longrightarrow> a = b)"

lemma find_open_runs:
  assumes "\<forall>a \<in> set as. inodes s a \<noteq> None"
  shows "\<exists>r. find_open s n as = Some r
    \<and> (case r of None \<Rightarrow> \<forall>a \<in> set as. i_no (the (inodes s a)) \<noteq> n
       | Some a \<Rightarrow> a \<in> set as \<and> i_no (the (inodes s a)) = n)"
  using assms by (induction as) (auto split: option.splits)

lemma inode_open_hit:
  assumes "opens_ok s" and "a \<in> set (open_inodes s)" and "i_no (the (inodes s a)) = n"
    and "i_open_cnts (the (inodes s a)) < 4294967295"
  shows "inode_open n s = Some (a, s\<lparr>inodes := (inodes s)(a \<mapsto>
    (the (inodes s a))\<lparr>i_open_cnts := i_open_cnts (the (inodes s a)) + 1\<rparr>)\<rparr>)"
proof -
  have h: "\<forall>a \<in> set (open_inodes s). inodes s a \<noteq> None" using assms(1) by (auto simp: opens_ok_def)
  from find_open_runs [OF this, of n] obtain r where r: "find_open s n (open_inodes s) = Some r"
      "case r of None \<Rightarrow> \<forall>a \<in> set (open_inodes s). i_no (the (inodes s a)) \<noteq> n
       | Some b \<Rightarrow> b \<in> set (open_inodes s) \<and> i_no (the (inodes s b)) = n" by blast
  then have "r = Some a" using assms(1-3) by (auto simp: opens_ok_def split: option.splits)
  then show ?thesis using r(1) h assms(2,4)
    by (auto simp: inode_open_def upd_inode_def add32_small)
qed

lemma inode_close_hit:
  assumes "opens_ok s" and "a \<in> set (open_inodes s)" and "i_no (the (inodes s a)) = n"
    and "i_open_cnts (the (inodes s a)) < 4294967295"
    and "inode_open n s = Some (b, s')"
  shows "inode_close b s' = Some s"
proof -
  let ?i = "the (inodes s a)"
  have i: "inodes s a = Some ?i" "0 < i_open_cnts ?i" using assms(1,2) by (auto simp: opens_ok_def)
  then have "(inodes s)(a \<mapsto> ?i) = inodes s" by (metis fun_upd_triv)
  then show ?thesis
    using inode_open_hit [OF assms(1-4)] assms(4,5) i(2)
    by (auto simp: inode_close_def upd_inode_def sub32_small)
qed

text \<open>An inode that is not open is read from its place in the table.\<close>

lemma inode_open_miss:
  assumes "opens_ok s" and "\<forall>a \<in> set (open_inodes s). i_no (the (inodes s a)) \<noteq> n"
    and "table_ok s" and "exact_pos n"
    and "heap_ok s (next_addr s)" and "heap_ok s (next_addr s + 1)" and "0 < next_addr s"
  shows "inode_open n s = Some (next_addr s, s\<lparr>next_addr := next_addr s + 2,
    inodes := (inodes s)(next_addr s \<mapsto> (disk_inode s n)\<lparr>i_open_cnts := 1\<rparr>),
    open_inodes := next_addr s # open_inodes s\<rparr>)"
proof -
  have h: "\<forall>a \<in> set (open_inodes s). inodes s a \<noteq> None" using assms(1) by (auto simp: opens_ok_def)
  from find_open_runs [OF this, of n] obtain r where r: "find_open s n (open_inodes s) = Some r"
      "case r of None \<Rightarrow> \<forall>a \<in> set (open_inodes s). i_no (the (inodes s a)) \<noteq> n
       | Some b \<Rightarrow> b \<in> set (open_inodes s) \<and> i_no (the (inodes s b)) = n" by blast
  then have none: "find_open s n (open_inodes s) = Some None"
    using assms(2) by (auto split: option.splits)
  have x: "n < 4096" "home_off n < 256" and d: "disk_ok s"
    using assms(3,4) by (auto simp: exact_pos_def table_ok_def)
  have len: "length (hd_sectors s t) = 512" for t using d by (simp add: disk_ok_def)
  let ?s = "s\<lparr>next_addr := Suc (Suc (next_addr s))\<rparr>"
  have "disk_ok ?s" using d by (simp add: disk_ok_def)
  from ide_read_one [OF this home_lba_bounds(1) [OF x(1) assms(3)], of "replicate 512 0"]
  have rd: "ide_read ?s (home_lba s n) (replicate 512 0) 1 = Some (hd_sectors s (home_lba s n))"
    by simp
  have "sub_bytes (home_off n) 76 (hd_sectors s (home_lba s n) @ hd_sectors s (home_lba s n + 1)) =
      sub_bytes (home_off n) 76 (hd_sectors s (home_lba s n))"
    using x len by (simp add: sub_bytes_def)
  then have di: "disk_inode s n = inode_of_bytes (sub_bytes (home_off n) 76 (hd_sectors s (home_lba s n)))"
    by (simp add: disk_inode_def)
  show ?thesis
    using none exact_locate [OF assms(4,3)] assms(5-7) rd x len
    by (simp add: inode_open_def fs_malloc_def inode_size_def di)
qed

section \<open>Properties\<close>

text \<open>C11: For the inode numbers whose place in the table survives the 8 bit offset, \<open>inode_sync\<close>
  stores the inode so that it is read back unchanged (with the open count and the write lock
  cleared), and no other such inode on the disk changes.\<close>

theorem inode_sync_roundtrip:
  assumes "table_ok s" and "exact_pos (i_no i)" and "inode_ok i" and "512 \<le> length io_buf"
  shows "\<exists>s'. inode_sync i io_buf s = Some s'
    \<and> disk_inode s' (i_no i) = i\<lparr>i_open_cnts := 0, write_deny := False\<rparr>
    \<and> (\<forall>k. exact_pos k \<longrightarrow> k \<noteq> i_no i \<longrightarrow> disk_inode s' k = disk_inode s k)"
  using inode_sync_exact [OF assms] by blast

lemma sample_table_ok: "table_ok sample_fs"
  using sample_disk_ok by (simp add: table_ok_def sample_fs_def sample_sb_def max_lba_def)

theorem inode_sync_roundtrip_witness:
  "\<exists>s'. inode_sync (sample_file\<lparr>i_bsize := 99\<rparr>) (replicate 1024 0) sample_fs = Some s'
    \<and> i_bsize (disk_inode s' 1) = 99"
  using inode_sync_roundtrip [OF sample_table_ok, of "sample_file\<lparr>i_bsize := 99\<rparr>" "replicate 1024 0"]
  by (auto simp: exact_pos_def home_off_def inode_ok_def sample_file_def)

text \<open>Number 4 is one of the others: storing inode 4 writes over inode 1, whose number on the
  disk becomes the fourth block pointer of inode 4.\<close>

theorem inode_sync_4_hits_1:
  assumes "table_ok s" and "inode_ok i" and "i_no i = 4" and "512 \<le> length io_buf"
  shows "\<exists>s'. inode_sync i io_buf s = Some s' \<and> i_no (disk_inode s' 1) = i_sectors i ! 3"
  using assms by (rule inode_sync_4)

theorem inode_sync_4_hits_1_witness:
  "\<exists>s'. inode_sync (sample_file\<lparr>i_no := 4\<rparr>) (replicate 1024 0) sample_fs = Some s'
    \<and> i_no (disk_inode s' 1) = 0"
  using inode_sync_4_hits_1 [OF sample_table_ok, of "sample_file\<lparr>i_no := 4\<rparr>" "replicate 1024 0"]
  by (auto simp: inode_ok_def sample_file_def)

end
