(* ===== verification/FileTable.thy ===== *)
theory FileTable
  imports Prelude Inode
begin

text \<open>
  The tables of open files and the allocation of inodes and blocks (\<open>fs/file.c\<close>): the
  system-wide file table, the descriptor table of the running process, and the two bitmaps of
  the partition in memory and on the disk.
\<close>

section \<open>The functions\<close>

text \<open>When no slot is free the function ends without a return value.\<close>

fun free_slot_from :: "open_file list \<Rightarrow> nat \<Rightarrow> nat \<Rightarrow> nat option" where
  "free_slot_from tbl fd_idx 0 = None"
| "free_slot_from tbl fd_idx (Suc n) = do {
     f \<leftarrow> rd_at tbl fd_idx;
     if fd_inode f = 0 then Some fd_idx else free_slot_from tbl (fd_idx + 1) n
   }"

definition get_free_slot_in_file_table :: "fs \<Rightarrow> nat option" where
  "get_free_slot_in_file_table s = free_slot_from (file_table s) 3 (MAX_FILE_OPEN - 3)"

fun free_fd_from :: "int list \<Rightarrow> nat \<Rightarrow> nat \<Rightarrow> nat option option" where
  "free_fd_from tbl local_fd_idx 0 = Some None"
| "free_fd_from tbl local_fd_idx (Suc n) = do {
     g \<leftarrow> rd_at tbl local_fd_idx;
     if g = - 1 then Some (Some local_fd_idx) else free_fd_from tbl (local_fd_idx + 1) n
   }"

definition pcb_fd_install :: "int \<Rightarrow> fs \<Rightarrow> (int \<times> fs) option" where
  "pcb_fd_install globa_fd_idx s = do {
     cur \<leftarrow> cur_task s;
     r \<leftarrow> free_fd_from (fd_table cur) 3 (MAX_FILES_OPEN_PER_PROC - 3);
     case r of
       Some k \<Rightarrow> do {
         s \<leftarrow> upd_cur (\<lambda>t. t\<lparr>fd_table := (fd_table t)[k := globa_fd_idx]\<rparr>) s;
         Some (int k, s)
       }
     | None \<Rightarrow> Some (- 1, s)
   }"

definition inode_bitmap_alloc :: "fs \<Rightarrow> (int \<times> fs) option" where
  "inode_bitmap_alloc s = do {
     let bit_idx = bitMap_scan (inode_bitmap s) 1;
     if bit_idx \<noteq> - 1 then do {
       bm \<leftarrow> bitmap_set (inode_bitmap s) (nat bit_idx) 1;
       Some (bit_idx, s\<lparr>inode_bitmap := bm\<rparr>)
     } else Some (bit_idx, s)
   }"

definition block_bitmap_alloc :: "fs \<Rightarrow> (int \<times> fs) option" where
  "block_bitmap_alloc s = do {
     let (io_buf, s) = fs_malloc s;
     if io_buf = 0 then Some (- 1, s)
     else do {
       let bit_idx = bitMap_scan (block_bitmap s) 1;
       if bit_idx = - 1 then Some (- 1, s)
       else do {
         bm \<leftarrow> bitmap_set (block_bitmap s) (nat bit_idx) 1;
         let s = s\<lparr>block_bitmap := bm\<rparr>;
         s \<leftarrow> ide_write (data_start_lba (sb s) + nat bit_idx) (replicate 512 0) 1 s;
         Some (int (data_start_lba (sb s)) + bit_idx, s)
       }
     }
   }"

datatype bitmap_type = INODE_BITMAP | BLOCK_BITMAP

definition bitmap_sync :: "nat \<Rightarrow> bitmap_type \<Rightarrow> fs \<Rightarrow> fs option" where
  "bitmap_sync bit_idx btmp s = do {
     let off_sec = bit_idx div 4096;
     let off_size = off_sec * 512;
     let (lba, bm) = (case btmp of
         INODE_BITMAP \<Rightarrow> (add32 (inode_bitmap_lba (sb s)) off_sec, inode_bitmap s)
       | BLOCK_BITMAP \<Rightarrow> (add32 (block_bitmap_lba (sb s)) off_sec, block_bitmap s));
     ide_write lba (drop off_size (bits bm)) 1 s
   }"

text \<open>The inode is created in a variable of the caller.\<close>

definition inode_create :: "fs \<Rightarrow> (int \<times> inode option \<times> fs) option" where
  "inode_create s = do {
     (inode_no, s) \<leftarrow> inode_bitmap_alloc s;
     if inode_no = - 1 then Some (0, None, s)
     else do {
       let i = inode_init (nat inode_no);
       Some (int (i_no i), Some i, s)
     }
   }"

text \<open>\<open>fd_idx2global_ftable_idx\<close> of \<open>fs/fs.c\<close>.\<close>

definition fd_idx2global_ftable_idx :: "nat \<Rightarrow> fs \<Rightarrow> nat option" where
  "fd_idx2global_ftable_idx fd_idx s = do {
     cur \<leftarrow> cur_task s;
     g_idx \<leftarrow> rd_at (fd_table cur) fd_idx;
     _ \<leftarrow> ensure (0 \<le> g_idx \<and> g_idx < int MAX_FILE_OPEN);
     Some (nat g_idx)
   }"

section \<open>Descriptors\<close>

lemma free_slot_from_runs:
  assumes "fd_idx + n \<le> length tbl"
  shows "(\<forall>k < n. fd_inode (tbl ! (fd_idx + k)) \<noteq> 0) \<and> free_slot_from tbl fd_idx n = None
    \<or> (\<exists>k < n. fd_inode (tbl ! (fd_idx + k)) = 0 \<and> (\<forall>j < k. fd_inode (tbl ! (fd_idx + j)) \<noteq> 0)
        \<and> free_slot_from tbl fd_idx n = Some (fd_idx + k))"
  using assms
proof (induction n arbitrary: fd_idx)
  case (Suc n)
  show ?case
  proof (cases "fd_inode (tbl ! fd_idx) = 0")
    case True
    then show ?thesis using Suc.prems by (intro disjI2 exI [of _ 0]) simp
  next
    case False
    have "free_slot_from tbl fd_idx (Suc n) = free_slot_from tbl (fd_idx + 1) n"
      using False Suc.prems by simp
    moreover have "(fd_idx + 1) + n \<le> length tbl" using Suc.prems by simp
    from Suc.IH [OF this] False show ?thesis
      unfolding calculation
      by (elim disjE exE conjE) (auto simp: All_less_Suc2 Ex_less_Suc2)
  qed
qed simp

text \<open>The first free descriptor from 3 on is used.\<close>

lemma free_fd_from_runs:
  assumes "fd + n \<le> length tbl"
  shows "(\<forall>k < n. tbl ! (fd + k) \<noteq> - 1) \<and> free_fd_from tbl fd n = Some None
    \<or> (\<exists>k < n. tbl ! (fd + k) = - 1 \<and> (\<forall>j < k. tbl ! (fd + j) \<noteq> - 1)
        \<and> free_fd_from tbl fd n = Some (Some (fd + k)))"
  using assms
proof (induction n arbitrary: fd)
  case (Suc n)
  show ?case
  proof (cases "tbl ! fd = - 1")
    case True
    then show ?thesis using Suc.prems by (intro disjI2 exI [of _ 0]) simp
  next
    case False
    have "free_fd_from tbl fd (Suc n) = free_fd_from tbl (fd + 1) n"
      using False Suc.prems by simp
    moreover have "(fd + 1) + n \<le> length tbl" using Suc.prems by simp
    from Suc.IH [OF this] False show ?thesis
      unfolding calculation
      by (elim disjE exE conjE) (auto simp: All_less_Suc2 Ex_less_Suc2)
  qed
qed simp

text \<open>An installed descriptor leads back to the file.\<close>

lemma pcb_fd_install_runs:
  assumes "cur_task s = Some cur" and "length (fd_table cur) = MAX_FILES_OPEN_PER_PROC"
    and "3 \<le> k" and "k < MAX_FILES_OPEN_PER_PROC" and "fd_table cur ! k = - 1"
    and "\<forall>j. 3 \<le> j \<and> j < k \<longrightarrow> fd_table cur ! j \<noteq> - 1"
  shows "\<exists>s'. pcb_fd_install g s = Some (int k, s')
    \<and> cur_task s' = Some (cur\<lparr>fd_table := (fd_table cur)[k := g]\<rparr>)"
proof -
  have l: "length (fd_table cur) = 8" "k < 8"
    using assms(2,4) by (auto simp: MAX_FILES_OPEN_PER_PROC_def)
  have c: "free_fd_from (fd_table cur) 3 5 = Some (Some k)"
  proof -
    have kk: "k - 3 < 5" "fd_table cur ! (3 + (k - 3)) = - 1" using l assms(3,5) by auto
    from free_fd_from_runs [of 3 5 "fd_table cur"] l obtain i
      where i: "i < 5" "fd_table cur ! (3 + i) = - 1" "\<forall>j < i. fd_table cur ! (3 + j) \<noteq> - 1"
        "free_fd_from (fd_table cur) 3 5 = Some (Some (3 + i))"
      using kk by auto
    have "i = k - 3"
    proof (rule ccontr)
      assume "i \<noteq> k - 3"
      then consider "i < k - 3" | "k - 3 < i" by linarith
      then show False
      proof cases
        case 1
        then have "3 \<le> 3 + i \<and> 3 + i < k" by simp
        with assms(6) i(2) show False by blast
      next
        case 2
        with i(3) kk(2) show False by blast
      qed
    qed
    then show ?thesis using i(4) assms(3) by simp
  qed
  show ?thesis
    using c assms(1) l
    by (auto simp: pcb_fd_install_def MAX_FILES_OPEN_PER_PROC_def upd_cur_def upd_task_def
        cur_task_def get_running_thread_pcb_def)
qed

section \<open>Allocation\<close>

text \<open>
  A bitmap whose first free bit is within the reach of the scan yields that bit; then the bit
  is taken and all others are unchanged.
\<close>

lemma inode_bitmap_alloc_runs:
  assumes "bm_wf (inode_bitmap s)" and "first_free (inode_bitmap s) i"
  shows "\<exists>bm. inode_bitmap_alloc s = Some (int i, s\<lparr>inode_bitmap := bm\<rparr>) \<and> bm_wf bm
    \<and> bm_size bm = bm_size (inode_bitmap s)
    \<and> (\<forall>j < bm_size bm. bmbit bm j = (j = i \<or> bmbit (inode_bitmap s) j))"
  using take_first_free [OF assms] scan_first_free [OF assms] by (auto simp: inode_bitmap_alloc_def)

text \<open>A new block: the first free one, marked in the bitmap and filled with zeros on the disk.\<close>

lemma block_bitmap_alloc_runs:
  assumes "bm_wf (block_bitmap s)" and "first_free (block_bitmap s) i"
    and "heap_ok s (next_addr s)" and "0 < next_addr s" and "data_start_lba (sb s) + i \<le> max_lba"
  shows "\<exists>bm. block_bitmap_alloc s = Some (int (data_start_lba (sb s) + i), s\<lparr>next_addr := next_addr s + 1,
      block_bitmap := bm, hd_sectors := (hd_sectors s)(data_start_lba (sb s) + i := replicate 512 0)\<rparr>)
    \<and> bm_wf bm \<and> bm_size bm = bm_size (block_bitmap s)
    \<and> (\<forall>j < bm_size bm. bmbit bm j = (j = i \<or> bmbit (block_bitmap s) j))"
proof -
  from take_first_free [OF assms(1,2)] obtain bm where bm: "bitmap_set (block_bitmap s) i 1 = Some bm"
      "bm_wf bm" "bm_size bm = bm_size (block_bitmap s)"
      "\<forall>j < bm_size (block_bitmap s). bmbit bm j = (j = i \<or> bmbit (block_bitmap s) j)" by blast
  let ?s = "s\<lparr>next_addr := Suc (next_addr s), block_bitmap := bm\<rparr>"
  have "ide_write (data_start_lba (sb s) + i) (replicate 512 0) 1 ?s =
      Some (?s\<lparr>hd_sectors := (hd_sectors s)(data_start_lba (sb s) + i := replicate 512 0)\<rparr>)"
    using ide_write_one [of "data_start_lba (sb s) + i" "replicate 512 0" ?s] assms(5) by simp
  then show ?thesis
    using bm scan_first_free [OF assms(1,2)] assms(3,4)
    by (intro exI [of _ bm]) (simp add: block_bitmap_alloc_def fs_malloc_def)
qed

text \<open>When no bit is free the scan gives 255: the allocators hand out that bit again.\<close>

lemma block_bitmap_alloc_full:
  assumes "bm_wf (block_bitmap s)" and "255 < bm_size (block_bitmap s)"
    and "\<forall>j < bm_size (block_bitmap s). bmbit (block_bitmap s) j"
    and "heap_ok s (next_addr s)" and "0 < next_addr s" and "data_start_lba (sb s) + 255 \<le> max_lba"
  shows "\<exists>s'. block_bitmap_alloc s = Some (int (data_start_lba (sb s)) + 255, s')
    \<and> hd_sectors s' (data_start_lba (sb s) + 255) = replicate 512 0"
proof -
  have "first_run (block_bitmap s) 1 = None"
    using assms(3) by (auto simp: first_run_def free_run_iff intro!: find_upt_None)
  then have scan: "bitMap_scan (block_bitmap s) 1 = 255" using assms(1) by (simp add: bitMap_scan_ref)
  from bitmap_set_runs [OF assms(1,2), of 1] obtain bm where
    bm: "bitmap_set (block_bitmap s) 255 1 = Some bm" by auto
  let ?s = "s\<lparr>next_addr := Suc (next_addr s), block_bitmap := bm\<rparr>"
  have "ide_write (data_start_lba (sb s) + 255) (replicate 512 0) 1 ?s =
      Some (?s\<lparr>hd_sectors := (hd_sectors s)(data_start_lba (sb s) + 255 := replicate 512 0)\<rparr>)"
    using ide_write_one [of "data_start_lba (sb s) + 255" "replicate 512 0" ?s] assms(6) by simp
  then show ?thesis
    using bm scan assms(4,5) by (simp add: block_bitmap_alloc_def fs_malloc_def)
qed

text \<open>\<open>bitmap_sync\<close> copies the sector of the bitmap that holds the bit.\<close>

lemma bitmap_sync_block:
  assumes "(i div 4096 + 1) * 512 \<le> length (bits (block_bitmap s))"
    and "block_bitmap_lba (sb s) + i div 4096 \<le> max_lba"
  shows "bitmap_sync i BLOCK_BITMAP s = Some (s\<lparr>hd_sectors := (hd_sectors s)
    (block_bitmap_lba (sb s) + i div 4096 := sub_bytes (i div 4096 * 512) 512 (bits (block_bitmap s)))\<rparr>)"
proof -
  have "add32 (block_bitmap_lba (sb s)) (i div 4096) = block_bitmap_lba (sb s) + i div 4096"
    using assms(2) by (simp add: add32_small max_lba_def)
  moreover have "512 \<le> length (drop (i div 4096 * 512) (bits (block_bitmap s)))" using assms(1) by simp
  ultimately show ?thesis
    using ide_write_one [of "block_bitmap_lba (sb s) + i div 4096"
        "drop (i div 4096 * 512) (bits (block_bitmap s))" s] assms(2)
    by (simp add: bitmap_sync_def sub_bytes_def Let_def)
qed

section \<open>Taking blocks\<close>

text \<open>
  A partition whose bitmap of blocks fits its place on the disk, and the numbers of the blocks that
  are in use and free. The scan finds blocks with a number below 255 only.
\<close>

definition layout_ok :: "fs \<Rightarrow> bool" where
  "layout_ok s \<longleftrightarrow> disk_ok s \<and> bm_wf (block_bitmap s) \<and> 512 \<le> length (bits (block_bitmap s))
     \<and> block_bitmap_lba (sb s) < data_start_lba (sb s) \<and> data_start_lba (sb s) + 255 \<le> max_lba"

definition used_block :: "fs \<Rightarrow> nat \<Rightarrow> bool" where
  "used_block s b \<longleftrightarrow> data_start_lba (sb s) \<le> b \<and> b \<le> max_lba
     \<and> b - data_start_lba (sb s) < bm_size (block_bitmap s) \<and> bmbit (block_bitmap s) (b - data_start_lba (sb s))"

definition free_blocks :: "fs \<Rightarrow> nat set" where
  "free_blocks s = {j. j < 255 \<and> \<not> bmbit (block_bitmap s) j}"

text \<open>The blocks \<open>ns\<close> have been taken; other sectors than theirs and the bitmap's are unchanged.\<close>

definition grown :: "fs \<Rightarrow> nat list \<Rightarrow> fs \<Rightarrow> bool" where
  "grown s ns s' \<longleftrightarrow> layout_ok s' \<and> distinct ns
     \<and> (\<forall>b. used_block s' b \<longleftrightarrow> used_block s b \<or> b \<in> set ns) \<and> (\<forall>b \<in> set ns. \<not> used_block s b)
     \<and> (\<forall>b. b \<notin> set ns \<longrightarrow> b \<noteq> block_bitmap_lba (sb s) \<longrightarrow> hd_sectors s' b = hd_sectors s b)
     \<and> card (free_blocks s') + length ns = card (free_blocks s)
     \<and> next_addr s' = next_addr s + length ns \<and> heap_ok s' = heap_ok s \<and> sb s' = sb s
     \<and> part_start_lba s' = part_start_lba s \<and> file_table s' = file_table s \<and> dirs s' = dirs s
     \<and> open_inodes s' = open_inodes s \<and> kern s' = kern s \<and> pipes s' = pipes s
     \<and> inode_bitmap s' = inode_bitmap s"

lemma finite_free_blocks [simp]: "finite (free_blocks s)"
  by (simp add: free_blocks_def)

lemma grown_inodes [simp]:
  "used_block (s\<lparr>inodes := f\<rparr>) = used_block s" "layout_ok (s\<lparr>inodes := f\<rparr>) = layout_ok s"
  "free_blocks (s\<lparr>inodes := f\<rparr>) = free_blocks s" "grown s ns (s'\<lparr>inodes := f\<rparr>) = grown s ns s'"
  "grown (s\<lparr>inodes := f\<rparr>) ns s' = grown s ns s'"
  by (simp_all add: grown_def fun_eq_iff used_block_def layout_ok_def disk_ok_def free_blocks_def)

lemma grown_refl: "layout_ok s \<Longrightarrow> grown s [] s"
  by (simp add: grown_def)

lemma used_block_data: "used_block s b \<Longrightarrow> data_start_lba (sb s) \<le> b \<and> b \<le> max_lba"
  by (simp add: used_block_def)

lemma grownD:
  assumes "grown s ns s'"
  shows "layout_ok s'" and "distinct ns" and "used_block s' b \<longleftrightarrow> used_block s b \<or> b \<in> set ns"
    and "b \<in> set ns \<Longrightarrow> \<not> used_block s b" and "b \<in> set ns \<Longrightarrow> data_start_lba (sb s) \<le> b \<and> b \<le> max_lba \<and> b \<noteq> 0"
    and "b \<notin> set ns \<Longrightarrow> b \<noteq> block_bitmap_lba (sb s) \<Longrightarrow> hd_sectors s' b = hd_sectors s b"
    and "used_block s b \<Longrightarrow> hd_sectors s' b = hd_sectors s b"
    and "next_addr s' = next_addr s + length ns" and "heap_ok s' = heap_ok s" and "sb s' = sb s"
proof -
  note g = assms [unfolded grown_def]
  show "layout_ok s'" "distinct ns" "used_block s' b \<longleftrightarrow> used_block s b \<or> b \<in> set ns"
      "b \<in> set ns \<Longrightarrow> \<not> used_block s b" "next_addr s' = next_addr s + length ns" "heap_ok s' = heap_ok s" "sb s' = sb s"
    using g by auto
  show h: "b \<notin> set ns \<Longrightarrow> b \<noteq> block_bitmap_lba (sb s) \<Longrightarrow> hd_sectors s' b = hd_sectors s b" using g by blast
  have lay: "block_bitmap_lba (sb s) < data_start_lba (sb s)" using g by (metis layout_ok_def)
  show "b \<in> set ns \<Longrightarrow> data_start_lba (sb s) \<le> b \<and> b \<le> max_lba \<and> b \<noteq> 0"
    using g used_block_data [of s' b] lay by auto
  show "used_block s b \<Longrightarrow> hd_sectors s' b = hd_sectors s b"
    using h used_block_data [of s b] g lay by auto
qed

lemma grown_trans:
  assumes "grown s ns s1" and "grown s1 ms s2"
  shows "grown s (ns @ ms) s2"
proof -
  note a = grownD [OF assms(1)] and b = grownD [OF assms(2)]
  have "set ns \<inter> set ms = {}" using a(3) b(4) by blast
  moreover have "hd_sectors s2 x = hd_sectors s x" if "x \<notin> set (ns @ ms)" "x \<noteq> block_bitmap_lba (sb s)" for x
    using that a(6) [of x] b(6) [of x] a(10) by simp
  moreover have "\<forall>x \<in> set ms. \<not> used_block s x" using a(3) b(4) by blast
  ultimately show ?thesis using assms by (simp add: grown_def ball_Un)
qed

lemma first_free_exists:
  assumes "layout_ok s" and "free_blocks s \<noteq> {}"
  shows "\<exists>i. first_free (block_bitmap s) i \<and> i \<in> free_blocks s"
proof -
  define i where "i = (LEAST i. i \<in> free_blocks s)"
  have i: "i \<in> free_blocks s" unfolding i_def using assms(2) by (metis LeastI equals0I)
  have "j \<notin> free_blocks s" if "j < i" for j using not_less_Least that unfolding i_def by blast
  moreover have "256 \<le> bm_size (block_bitmap s)" using assms(1) by (simp add: layout_ok_def bm_wf_def bm_size_def)
  ultimately have "first_free (block_bitmap s) i" using i by (auto simp: first_free_def free_blocks_def)
  then show ?thesis using i by blast
qed

text \<open>One block: allocated, and then its bit written to the disk, whatever happens to the inodes between.\<close>

lemma new_block_runs:
  assumes "layout_ok s" and "free_blocks s \<noteq> {}" and "heap_ok s (next_addr s)" and "0 < next_addr s"
  shows "\<exists>b s1. block_bitmap_alloc s = Some (int b, s1) \<and> b \<noteq> 0 \<and> inodes s1 = inodes s
    \<and> sb s1 = sb s \<and> hd_sectors s1 b = replicate 512 0
    \<and> (\<exists>s2. bitmap_sync (b - data_start_lba (sb s)) BLOCK_BITMAP s1 = Some s2 \<and> grown s [b] s2
         \<and> inodes s2 = inodes s \<and> hd_sectors s2 b = replicate 512 0
         \<and> (\<forall>f. bitmap_sync (b - data_start_lba (sb s)) BLOCK_BITMAP (s1\<lparr>inodes := f\<rparr>) = Some (s2\<lparr>inodes := f\<rparr>)))"
proof -
  obtain i where i: "first_free (block_bitmap s) i" "i \<in> free_blocks s"
    using first_free_exists [OF assms(1,2)] by blast
  note lay = assms(1) [unfolded layout_ok_def]
  have i255: "i < 255" using i(2) by (simp add: free_blocks_def)
  let ?b = "data_start_lba (sb s) + i"
  have bm: "bm_wf (block_bitmap s)" and lim: "?b \<le> max_lba" using lay i255 by simp_all
  obtain bm where a: "block_bitmap_alloc s = Some (int ?b, s\<lparr>next_addr := next_addr s + 1,
        block_bitmap := bm, hd_sectors := (hd_sectors s)(?b := replicate 512 0)\<rparr>)"
      and m: "bm_wf bm" "bm_size bm = bm_size (block_bitmap s)"
        "\<forall>j < bm_size bm. bmbit bm j = (j = i \<or> bmbit (block_bitmap s) j)"
    using block_bitmap_alloc_runs [OF bm i(1) assms(3,4) lim] by blast
  define s1 where "s1 = s\<lparr>next_addr := next_addr s + 1, block_bitmap := bm,
    hd_sectors := (hd_sectors s)(?b := replicate 512 0)\<rparr>"
  have lbm: "length (bits bm) = length (bits (block_bitmap s))"
    using m(1,2) lay by (simp add: bm_wf_def bm_size_def)
  define s2 where "s2 = s1\<lparr>hd_sectors := (hd_sectors s1)(block_bitmap_lba (sb s) := sub_bytes 0 512 (bits bm))\<rparr>"
  have sync: "bitmap_sync (?b - data_start_lba (sb s)) BLOCK_BITMAP (s1\<lparr>inodes := f\<rparr>) = Some (s2\<lparr>inodes := f\<rparr>)" for f
    using bitmap_sync_block [of i "s1\<lparr>inodes := f\<rparr>"] i255 lbm lay by (simp add: s1_def s2_def)
  have sync1: "bitmap_sync (?b - data_start_lba (sb s)) BLOCK_BITMAP s1 = Some s2"
    using bitmap_sync_block [of i s1] i255 lbm lay by (simp add: s1_def s2_def)
  have ne: "?b \<noteq> block_bitmap_lba (sb s)" using lay by simp
  have size: "255 < bm_size (block_bitmap s)" using lay by (simp add: bm_wf_def bm_size_def)
  have "layout_ok s2"
    using lay m(1) lbm by (simp add: layout_ok_def s2_def s1_def disk_ok_def)
  moreover have "used_block s2 b \<longleftrightarrow> used_block s b \<or> b \<in> set [?b]" for b
    using m(2,3) lim size i255 by (auto simp: used_block_def s2_def s1_def)
  moreover have "\<not> used_block s ?b" using i(2) by (simp add: used_block_def free_blocks_def)
  moreover have "free_blocks s2 = free_blocks s - {i}"
    using m(2,3) size by (auto simp: free_blocks_def s2_def s1_def)
  then have "card (free_blocks s2) + 1 = card (free_blocks s)"
    using card_Suc_Diff1 [OF finite_free_blocks i(2)] by simp
  ultimately have "grown s [?b] s2" by (simp add: grown_def s2_def s1_def)
  moreover have "hd_sectors s2 ?b = replicate 512 0" using ne by (simp add: s2_def s1_def)
  moreover have "?b \<noteq> 0" using lay by simp
  ultimately show ?thesis using a sync sync1
    by (intro exI [of _ ?b] exI [of _ s1]) (simp add: s1_def s2_def)
qed

section \<open>Properties\<close>

text \<open>When the first free block of the map is below number 255, \<open>block_bitmap_alloc\<close> returns it,
  marks it (and no other) and fills it with zeros on the disk.\<close>

theorem block_alloc_first_free:
  assumes "bm_wf (block_bitmap s)" and "first_free (block_bitmap s) i"
    and "heap_ok s (next_addr s)" and "0 < next_addr s" and "data_start_lba (sb s) + i \<le> max_lba"
  shows "\<exists>s'. block_bitmap_alloc s = Some (int (data_start_lba (sb s) + i), s')
    \<and> hd_sectors s' = (hd_sectors s)(data_start_lba (sb s) + i := replicate 512 0)
    \<and> (\<forall>j < bm_size (block_bitmap s). bmbit (block_bitmap s') j = (j = i \<or> bmbit (block_bitmap s) j))"
  using block_bitmap_alloc_runs [OF assms] by fastforce

lemma sample_first_free: "bm_wf (block_bitmap sample_fs)" "first_free (block_bitmap sample_fs) 2"
proof -
  show "bm_wf (block_bitmap sample_fs)" by (simp add: bm_wf_def sample_fs_def)
  have "\<forall>j < 8. bit (3 :: byte) j = (j < 2)" by (simp add: All_less_Suc2 numeral_eq_Suc)
  moreover have "bmbit (block_bitmap sample_fs) j = bit (3 :: byte) j" if "j < 8" for j
    using that by (simp add: bmbit_def sample_fs_def)
  ultimately show "first_free (block_bitmap sample_fs) 2"
    by (auto simp: first_free_def bm_size_def sample_fs_def)
qed

theorem block_alloc_first_free_witness:
  "\<exists>s'. block_bitmap_alloc sample_fs = Some (615, s')"
proof -
  have "heap_ok sample_fs (next_addr sample_fs)" "0 < next_addr sample_fs"
      "data_start_lba (sb sample_fs) + 2 \<le> max_lba" "data_start_lba (sb sample_fs) = 613"
    by (simp_all add: sample_fs_def sample_sb_def max_lba_def)
  with block_alloc_first_free [OF sample_first_free] show ?thesis by force
qed

text \<open>When every block is in use the allocation does not fail: it hands out block 255 again and
  erases it.\<close>

theorem block_alloc_full_reuses:
  assumes "bm_wf (block_bitmap s)" and "255 < bm_size (block_bitmap s)"
    and "\<forall>j < bm_size (block_bitmap s). bmbit (block_bitmap s) j"
    and "heap_ok s (next_addr s)" and "0 < next_addr s" and "data_start_lba (sb s) + 255 \<le> max_lba"
  shows "\<exists>s'. block_bitmap_alloc s = Some (int (data_start_lba (sb s)) + 255, s')
    \<and> hd_sectors s' (data_start_lba (sb s) + 255) = replicate 512 0"
  using assms by (rule block_bitmap_alloc_full)

theorem block_alloc_full_reuses_witness:
  "\<exists>s'. block_bitmap_alloc (sample_fs\<lparr>block_bitmap := \<lparr>bitmap_byte_len = 512, bits = replicate 512 255\<rparr>\<rparr>)
    = Some (868, s')"
proof -
  have "\<forall>j < 8. bit (255 :: byte) j" by (simp add: All_less_Suc2 numeral_eq_Suc)
  then have b: "bit (255 :: byte) (j mod 8)" for j by simp
  show ?thesis
    using block_alloc_full_reuses [of "sample_fs\<lparr>block_bitmap := \<lparr>bitmap_byte_len = 512, bits = replicate 512 255\<rparr>\<rparr>"] b
    by (auto simp: bm_wf_def bm_size_def bmbit_def sample_fs_def sample_sb_def max_lba_def)
qed

end
