(* ===== verification/Dir.thy ===== *)
theory Dir
  imports Prelude FileTable
begin

text \<open>
  Directories (\<open>fs/dir.c\<close>): a directory is an inode whose blocks hold entries of 24 bytes, 21
  in a sector. A \<open>dir\<close> pointer is the address of an open directory; \<open>ROOT_DIR\<close> is the address
  of the static variable \<open>root_dir\<close>.
\<close>

section \<open>The functions\<close>

definition open_root_dir :: "fs \<Rightarrow> fs option" where
  "open_root_dir s = do {
     (a, s) \<leftarrow> inode_open (root_inode_no (sb s)) s;
     Some (s\<lparr>dirs := (dirs s)(ROOT_DIR \<mapsto> \<lparr>d_inode = a, dir_pos = 0\<rparr>)\<rparr>)
   }"

definition dir_open :: "nat \<Rightarrow> fs \<Rightarrow> (nat \<times> fs) option" where
  "dir_open inode_no s = do {
     let (pdir, s) = fs_malloc s;
     _ \<leftarrow> ensure (pdir \<noteq> 0);
     (a, s) \<leftarrow> inode_open inode_no s;
     Some (pdir, s\<lparr>dirs := (dirs s)(pdir \<mapsto> \<lparr>d_inode = a, dir_pos = 0\<rparr>)\<rparr>)
   }"

definition dir_close :: "nat \<Rightarrow> fs \<Rightarrow> fs option" where
  "dir_close pdir s =
     (if pdir = ROOT_DIR then Some s
      else do {
        d \<leftarrow> dirs s pdir;
        s \<leftarrow> inode_close (d_inode d) s;
        Some (s\<lparr>dirs := (dirs s)(pdir := None)\<rparr>)
      })"

text \<open>The inode an open directory refers to.\<close>

definition dir_inode_of :: "nat \<Rightarrow> fs \<Rightarrow> inode option" where
  "dir_inode_of pdir s = Option.bind (dirs s pdir) (\<lambda>d. inodes s (d_inode d))"

definition upd_dir_inode :: "nat \<Rightarrow> (inode \<Rightarrow> inode) \<Rightarrow> fs \<Rightarrow> fs option" where
  "upd_dir_inode pdir f s = Option.bind (dirs s pdir) (\<lambda>d. upd_inode (d_inode d) f s)"

text \<open>
  The entries of one block: the name of entry \<open>k\<close> is the string at byte \<open>24 k\<close> (it may run
  into the following fields), compared with \<open>strcmp\<close>, which is 0 for equal strings.
\<close>

fun search_entries :: "byte list \<Rightarrow> byte list \<Rightarrow> nat \<Rightarrow> nat \<Rightarrow> nat option option" where
  "search_entries buf name k 0 = Some None"
| "search_entries buf name k (Suc n) = do {
     e \<leftarrow> cstr_in buf (k * de_size);
     if e = name then Some (Some k) else search_entries buf name (k + 1) n
   }"

fun search_blocks ::
  "fs \<Rightarrow> nat list \<Rightarrow> byte list \<Rightarrow> nat \<Rightarrow> byte list \<Rightarrow> (byte list \<times> nat) option option" where
  "search_blocks s [] name cnt buf = Some None"
| "search_blocks s (blk # blks) name cnt buf =
     (if blk = 0 then search_blocks s blks name cnt buf
      else do {
        buf \<leftarrow> ide_read s blk buf 1;
        r \<leftarrow> search_entries buf name 0 cnt;
        case r of
          Some k \<Rightarrow> Some (Some (buf, k))
        | None \<Rightarrow> search_blocks s blks name cnt (replicate 512 0)
      })"

text \<open>
  The table of the blocks is a fresh buffer; the test for an indirect block looks at its own
  entry 12 and not at the inode. The entry found is copied over the caller's \<open>dir_e\<close>.
\<close>

definition search_dir_entry :: "nat \<Rightarrow> byte list \<Rightarrow> dir_entry \<Rightarrow> fs \<Rightarrow> (dir_entry option \<times> fs) option" where
  "search_dir_entry pdir name dir_e s = do {
     let (ab, s) = fs_malloc s;
     _ \<leftarrow> ensure (ab \<noteq> 0);
     i \<leftarrow> dir_inode_of pdir s;
     let all_blocks = take 12 (i_sectors i) @ replicate 128 0;
     all_blocks \<leftarrow> (if all_blocks ! 12 \<noteq> 0 then do {
         t \<leftarrow> ide_read s (i_sectors i ! 12) (replicate 512 0) 1;
         Some (take 12 all_blocks @ words_of t)
       } else Some all_blocks);
     let (b, s) = fs_malloc s;
     _ \<leftarrow> ensure (b \<noteq> 0 \<and> dir_entry_size (sb s) \<noteq> 0);
     let dir_entry_cnt = 512 div dir_entry_size (sb s);
     r \<leftarrow> search_blocks s all_blocks name dir_entry_cnt (replicate 512 0);
     case r of
       Some (buf, k) \<Rightarrow> do {
         _ \<leftarrow> ensure (dir_entry_size (sb s) \<le> de_size \<and> k * de_size + dir_entry_size (sb s) \<le> length buf);
         Some (Some (de_of_bytes (put_bytes 0 (sub_bytes (k * de_size) (dir_entry_size (sb s)) buf)
           (de_bytes dir_e))), s)
       }
     | None \<Rightarrow> Some (None, s)
   }"

text \<open>\<open>strcpy\<close> leaves the bytes after the terminating zero as they are.\<close>

definition create_dir_entry :: "byte list \<Rightarrow> nat \<Rightarrow> nat \<Rightarrow> dir_entry \<Rightarrow> dir_entry option" where
  "create_dir_entry name inode_no file_type p_de = do {
     _ \<leftarrow> ensure (length name < MAX_FILE_NAME_LEN);
     Some (p_de\<lparr>f_type := file_type, de_i_no := inode_no,
       filename := put_bytes 0 (name @ [0]) (filename p_de)\<rparr>)
   }"

text \<open>
  \<open>sync_dir_entry\<close>, the part for a block that is not allocated yet: the result is \<open>None\<close> when
  the allocation fails.
\<close>

definition add_block ::
  "nat \<Rightarrow> nat \<Rightarrow> nat list \<Rightarrow> fs \<Rightarrow> (nat list option \<times> fs) option" where
  "add_block parent_dir block_idx all_blocks s = do {
     (block_lba, s) \<leftarrow> block_bitmap_alloc s;
     if block_lba = - 1 then Some (None, s)
     else do {
       let lba = nat block_lba;
       s \<leftarrow> bitmap_sync (lba - data_start_lba (sb s)) BLOCK_BITMAP s;
       if block_idx < 12 then do {
         s \<leftarrow> upd_dir_inode parent_dir (\<lambda>i. i\<lparr>i_sectors := (i_sectors i)[block_idx := lba]\<rparr>) s;
         Some (Some (all_blocks[block_idx := lba]), s)
       } else if block_idx = 12 then do {
         s \<leftarrow> upd_dir_inode parent_dir (\<lambda>i. i\<lparr>i_sectors := (i_sectors i)[12 := lba]\<rparr>) s;
         (block_lba2, s) \<leftarrow> block_bitmap_alloc s;
         if block_lba2 = - 1 then do {
           bm \<leftarrow> bitmap_set (block_bitmap s) (lba - data_start_lba (sb s)) 0;
           let s = s\<lparr>block_bitmap := bm\<rparr>;
           s \<leftarrow> upd_dir_inode parent_dir (\<lambda>i. i\<lparr>i_sectors := (i_sectors i)[12 := 0]\<rparr>) s;
           Some (None, s)
         } else do {
           let lba2 = nat block_lba2;
           s \<leftarrow> bitmap_sync (lba2 - data_start_lba (sb s)) BLOCK_BITMAP s;
           let all_blocks = all_blocks[12 := lba2];
           s \<leftarrow> ide_write lba (bytes_of_words (drop 12 all_blocks)) 1 s;
           Some (Some all_blocks, s)
         }
       } else do {
         let all_blocks = all_blocks[block_idx := lba];
         i \<leftarrow> dir_inode_of parent_dir s;
         s \<leftarrow> ide_write (i_sectors i ! 12) (bytes_of_words (drop 12 all_blocks)) 1 s;
         Some (Some all_blocks, s)
       }
     }
   }"

definition grow_dir :: "nat \<Rightarrow> fs \<Rightarrow> fs option" where
  "grow_dir parent_dir s =
     upd_dir_inode parent_dir (\<lambda>i. i\<lparr>i_bsize := add32 (i_bsize i) (dir_entry_size (sb s))\<rparr>) s"

text \<open>The first entry of a sector whose type field is \<open>FT_UNKNOW\<close>.\<close>

fun free_entry :: "byte list \<Rightarrow> nat \<Rightarrow> nat \<Rightarrow> nat option option" where
  "free_entry buf k 0 = Some None"
| "free_entry buf k (Suc n) = do {
     _ \<leftarrow> ensure ((k + 1) * de_size \<le> length buf);
     if rd32 buf (k * de_size + 20) = FT_UNKNOW then Some (Some k) else free_entry buf (k + 1) n
   }"

fun sync_blocks ::
  "nat \<Rightarrow> dir_entry \<Rightarrow> nat list \<Rightarrow> byte list \<Rightarrow> nat list \<Rightarrow> fs \<Rightarrow> (bool \<times> fs) option" where
  "sync_blocks parent_dir p_de all_blocks io_buf [] s = Some (False, s)"
| "sync_blocks parent_dir p_de all_blocks io_buf (block_idx # idxs) s =
     (if all_blocks ! block_idx = 0 then do {
        (r, s) \<leftarrow> add_block parent_dir block_idx all_blocks s;
        case r of
          None \<Rightarrow> Some (False, s)
        | Some all_blocks \<Rightarrow> do {
            _ \<leftarrow> ensure (dir_entry_size (sb s) \<le> de_size);
            let io_buf = put_bytes 0 (take (dir_entry_size (sb s)) (de_bytes p_de))
              (put_bytes 0 (replicate 512 0) io_buf);
            s \<leftarrow> ide_write (all_blocks ! block_idx) io_buf 1 s;
            s \<leftarrow> grow_dir parent_dir s;
            Some (True, s)
          }
      } else do {
        io_buf \<leftarrow> ide_read s (all_blocks ! block_idx) io_buf 1;
        r \<leftarrow> free_entry io_buf 0 (512 div dir_entry_size (sb s));
        case r of
          Some k \<Rightarrow> do {
            _ \<leftarrow> ensure (dir_entry_size (sb s) \<le> de_size);
            let io_buf = put_bytes (k * de_size) (take (dir_entry_size (sb s)) (de_bytes p_de)) io_buf;
            s \<leftarrow> ide_write (all_blocks ! block_idx) io_buf 1 s;
            s \<leftarrow> grow_dir parent_dir s;
            Some (True, s)
          }
        | None \<Rightarrow> sync_blocks parent_dir p_de all_blocks io_buf idxs s
      })"

definition sync_dir_entry :: "nat \<Rightarrow> dir_entry \<Rightarrow> byte list \<Rightarrow> fs \<Rightarrow> (bool \<times> fs) option" where
  "sync_dir_entry parent_dir p_de io_buf s = do {
     i \<leftarrow> dir_inode_of parent_dir s;
     _ \<leftarrow> ensure (dir_entry_size (sb s) \<noteq> 0 \<and> i_bsize i mod dir_entry_size (sb s) = 0);
     let all_blocks = take 12 (i_sectors i) @ replicate 128 0;
     sync_blocks parent_dir p_de all_blocks io_buf [0..<140] s
   }"

text \<open>
  The scan of one block by \<open>delete_dir_entry\<close>: whether the block holds the entry ".", how many
  other entries it holds (a \<open>uint8_t\<close>), and the last of them with the number looked for.
\<close>

fun scan_entries ::
  "byte list \<Rightarrow> nat \<Rightarrow> nat \<Rightarrow> nat \<Rightarrow> bool \<times> nat \<times> nat option \<Rightarrow> (bool \<times> nat \<times> nat option) option" where
  "scan_entries buf inode_no k 0 acc = Some acc"
| "scan_entries buf inode_no k (Suc n) acc = (case acc of (is_first, cnt, found) \<Rightarrow> do {
     let d = de_of_bytes (sub_bytes (k * de_size) de_size buf);
     if f_type d \<noteq> FT_UNKNOW then do {
       e \<leftarrow> cstr_in buf (k * de_size);
       if e = [46] then scan_entries buf inode_no (k + 1) n (True, cnt, found)
       else if e \<noteq> [46, 46] then
         scan_entries buf inode_no (k + 1) n
           (is_first, u8 (cnt + 1), if de_i_no d = inode_no then Some k else found)
       else scan_entries buf inode_no (k + 1) n acc
     } else scan_entries buf inode_no (k + 1) n acc
   })"

definition free_block :: "nat \<Rightarrow> fs \<Rightarrow> fs option" where
  "free_block lba s = do {
     let block_bitmap_idx = sub32 lba (data_start_lba (sb s));
     bm \<leftarrow> bitmap_set (block_bitmap s) block_bitmap_idx 0;
     bitmap_sync block_bitmap_idx BLOCK_BITMAP (s\<lparr>block_bitmap := bm\<rparr>)
   }"

text \<open>Giving back a directory block that held only the deleted entry.\<close>

definition drop_dir_block :: "nat \<Rightarrow> nat \<Rightarrow> nat list \<Rightarrow> fs \<Rightarrow> fs option" where
  "drop_dir_block pdir block_idx all_blocks s = do {
     s \<leftarrow> free_block (all_blocks ! block_idx) s;
     if block_idx < 12
     then upd_dir_inode pdir (\<lambda>i. i\<lparr>i_sectors := (i_sectors i)[block_idx := 0]\<rparr>) s
     else do {
       let indirect_blocks = length (filter (\<lambda>b. b \<noteq> 0) (drop 12 all_blocks));
       _ \<leftarrow> ensure (indirect_blocks \<ge> 1);
       i \<leftarrow> dir_inode_of pdir s;
       if indirect_blocks = 1 then do {
         s \<leftarrow> free_block (i_sectors i ! 12) s;
         upd_dir_inode pdir (\<lambda>i. i\<lparr>i_sectors := (i_sectors i)[12 := 0]\<rparr>) s
       } else
         ide_write (i_sectors i ! 12) (bytes_of_words (drop 12 (all_blocks[block_idx := 0]))) 1 s
     }
   }"

fun delete_blocks ::
  "nat \<Rightarrow> nat \<Rightarrow> nat list \<Rightarrow> byte list \<Rightarrow> nat list \<Rightarrow> fs \<Rightarrow> (bool \<times> fs) option" where
  "delete_blocks pdir inode_no all_blocks io_buf [] s = Some (False, s)"
| "delete_blocks pdir inode_no all_blocks io_buf (block_idx # idxs) s =
     (if all_blocks ! block_idx = 0 then delete_blocks pdir inode_no all_blocks io_buf idxs s
      else do {
        io_buf \<leftarrow> ide_read s (all_blocks ! block_idx) (put_bytes 0 (replicate 512 0) io_buf) 1;
        (is_first, cnt, found) \<leftarrow> scan_entries io_buf inode_no 0 (512 div de_size) (False, 0, None);
        case found of
          None \<Rightarrow> delete_blocks pdir inode_no all_blocks io_buf idxs s
        | Some k \<Rightarrow> do {
            _ \<leftarrow> ensure (cnt \<ge> 1);
            s \<leftarrow> (if cnt = 1 \<and> \<not> is_first then drop_dir_block pdir block_idx all_blocks s
                   else ide_write (all_blocks ! block_idx)
                     (put_bytes (k * de_size) (replicate de_size 0) io_buf) 1 s);
            i \<leftarrow> dir_inode_of pdir s;
            _ \<leftarrow> ensure (de_size \<le> i_bsize i);
            s \<leftarrow> upd_dir_inode pdir (\<lambda>i. i\<lparr>i_bsize := i_bsize i - de_size\<rparr>) s;
            i \<leftarrow> dir_inode_of pdir s;
            s \<leftarrow> inode_sync i (replicate 1024 0) s;
            Some (True, s)
          }
      })"

definition delete_dir_entry :: "nat \<Rightarrow> nat \<Rightarrow> byte list \<Rightarrow> fs \<Rightarrow> (bool \<times> fs) option" where
  "delete_dir_entry pdir inode_no io_buf s = do {
     i \<leftarrow> dir_inode_of pdir s;
     all_blocks \<leftarrow> copy_inode_isectors s i;
     delete_blocks pdir inode_no all_blocks io_buf [0..<140] s
   }"

text \<open>
  \<open>dir_read\<close>: the first entry in use after the ones that account for \<open>dir_pos\<close> bytes. The
  loop does not check the block index; beyond the 140 blocks it is not defined.
\<close>

fun read_entries :: "byte list \<Rightarrow> nat \<Rightarrow> nat \<Rightarrow> nat \<Rightarrow> nat \<Rightarrow> nat \<Rightarrow> (nat \<times> dir_entry option) option" where
  "read_entries buf des pos cur k 0 = Some (cur, None)"
| "read_entries buf des pos cur k (Suc n) = do {
     let d = de_of_bytes (sub_bytes (k * de_size) de_size buf);
     if f_type d \<noteq> FT_UNKNOW then
       if cur < pos then read_entries buf des pos (add32 cur des) (k + 1) n
       else do {
         _ \<leftarrow> ensure (cur = pos);
         Some (cur, Some d)
       }
     else read_entries buf des pos cur (k + 1) n
   }"

fun read_blocks :: "fs \<Rightarrow> nat \<Rightarrow> nat \<Rightarrow> nat list \<Rightarrow> dir_entry option option" where
  "read_blocks s pos cur [] = None"
| "read_blocks s pos cur (blk # blks) =
     (if blk = 0 then read_blocks s pos cur blks
      else do {
        buf \<leftarrow> ide_read s blk (replicate 512 0) 1;
        (cur, r) \<leftarrow> read_entries buf (dir_entry_size (sb s)) pos cur 0 (512 div dir_entry_size (sb s));
        case r of Some d \<Rightarrow> Some (Some d) | None \<Rightarrow> read_blocks s pos cur blks
      })"

definition dir_read :: "nat \<Rightarrow> fs \<Rightarrow> (dir_entry option \<times> fs) option" where
  "dir_read pdir s = do {
     d \<leftarrow> dirs s pdir;
     i \<leftarrow> inodes s (d_inode d);
     all_blocks \<leftarrow> copy_inode_isectors s i;
     _ \<leftarrow> ensure (dir_entry_size (sb s) \<noteq> 0);
     if dir_pos d < i_bsize i then do {
       r \<leftarrow> read_blocks s (dir_pos d) 0 all_blocks;
       s \<leftarrow> upd_dir pdir (\<lambda>d. d\<lparr>dir_pos := add32 (dir_pos d) (dir_entry_size (sb s))\<rparr>) s;
       Some (r, s)
     } else Some (None, s)
   }"

section \<open>A directory as a list of entries\<close>

definition entry_at :: "byte list \<Rightarrow> nat \<Rightarrow> dir_entry" where
  "entry_at sec k = de_of_bytes (sub_bytes (k * 24) 24 sec)"

definition entries_of :: "byte list \<Rightarrow> dir_entry list" where
  "entries_of sec = map (entry_at sec) [0..<21]"

definition dname :: "dir_entry \<Rightarrow> byte list" where
  "dname d = takeWhile (\<lambda>b. b \<noteq> 0) (filename d)"

text \<open>Every name ends inside its field.\<close>

definition names_end :: "byte list \<Rightarrow> bool" where
  "names_end sec \<longleftrightarrow> (\<forall>k < 21. 0 \<in> set (filename (entry_at sec k)))"

definition blocks_list :: "fs \<Rightarrow> nat list \<Rightarrow> dir_entry list" where
  "blocks_list s blks = concat (map (\<lambda>b. if b = 0 then [] else entries_of (hd_sectors s b)) blks)"

text \<open>
  The entries in the twelve direct blocks of a directory, and those in the blocks of its
  indirect table. \<open>sync_dir_entry\<close> can make a directory grow into the table, and \<open>dir_read\<close>
  and \<open>delete_dir_entry\<close> see it there; \<open>all_entries\<close> is the whole directory.
\<close>

definition dir_list :: "fs \<Rightarrow> inode \<Rightarrow> dir_entry list" where
  "dir_list s i = blocks_list s (take 12 (i_sectors i))"

definition table_list :: "fs \<Rightarrow> inode \<Rightarrow> dir_entry list" where
  "table_list s i = (if i_sectors i ! 12 = 0 then []
     else blocks_list s (words_of (hd_sectors s (i_sectors i ! 12))))"

definition all_entries :: "fs \<Rightarrow> inode \<Rightarrow> dir_entry list" where
  "all_entries s i = dir_list s i @ table_list s i"

lemma blocks_list_simps [simp]:
  "blocks_list s [] = []"
  "blocks_list s (b # blks) = (if b = 0 then [] else entries_of (hd_sectors s b)) @ blocks_list s blks"
  "blocks_list s (xs @ ys) = blocks_list s xs @ blocks_list s ys"
  by (simp_all add: blocks_list_def)

text \<open>
  A directory on a sound disk, with entries of 24 bytes and names that end inside their field in
  its direct blocks; nothing is asked of its indirect table.
\<close>

definition dir_ok :: "fs \<Rightarrow> nat \<Rightarrow> bool" where
  "dir_ok s pdir \<longleftrightarrow> disk_ok s \<and> dir_entry_size (sb s) = 24
     \<and> (\<exists>i. dir_inode_of pdir s = Some i \<and> length (i_sectors i) = 13
         \<and> (\<forall>b \<in> set (take 12 (i_sectors i)). b \<le> max_lba \<and> (b \<noteq> 0 \<longrightarrow> names_end (hd_sectors s b))))"

lemma filename_entry_at:
  "length sec = 512 \<Longrightarrow> k < 21 \<Longrightarrow> filename (entry_at sec k) = take 16 (drop (k * 24) sec)"
  by (simp add: entry_at_def de_of_bytes_def sub_bytes_def)

lemma takeWhile_take:
  "x \<in> set (take n xs) \<Longrightarrow> \<not> P x \<Longrightarrow> takeWhile P (take n xs) = takeWhile P xs"
  by (metis append_take_drop_id takeWhile_append1)

lemma cstr_in_entry:
  assumes "length sec = 512" and "k < 21" and "0 \<in> set (filename (entry_at sec k))"
  shows "cstr_in (sec @ rest) (k * 24) = Some (dname (entry_at sec k))"
proof -
  have f: "filename (entry_at sec k) = take 16 (drop (k * 24) sec)"
    by (rule filename_entry_at [OF assms(1,2)])
  have d: "drop (k * 24) (sec @ rest) = drop (k * 24) sec @ rest" using assms(1,2) by simp
  have z: "0 \<in> set (take 16 (drop (k * 24) sec))" using assms(3) f by simp
  then have z2: "0 \<in> set (drop (k * 24) sec)" by (meson in_set_takeD)
  have "takeWhile (\<lambda>b. b \<noteq> 0) (drop (k * 24) sec @ rest) = takeWhile (\<lambda>b. b \<noteq> 0) (drop (k * 24) sec)"
    using z2 by (intro takeWhile_append1) auto
  moreover have "takeWhile (\<lambda>b. b \<noteq> 0) (take 16 (drop (k * 24) sec)) = takeWhile (\<lambda>b. b \<noteq> 0) (drop (k * 24) sec)"
    using z by (intro takeWhile_take) auto
  ultimately show ?thesis using z2 by (simp add: cstr_in_def d dname_def f)
qed

lemma search_entries_runs:
  assumes "length sec = 512" and "names_end sec" and "k + n \<le> 21"
  shows "search_entries (sec @ rest) name k n = Some (find (\<lambda>j. dname (entry_at sec j) = name) [k..<k + n])"
  using assms(3)
proof (induction n arbitrary: k)
  case (Suc n)
  have "0 \<in> set (filename (entry_at sec k))" using assms(2) Suc.prems by (simp add: names_end_def)
  then have c: "cstr_in (sec @ rest) (k * 24) = Some (dname (entry_at sec k))"
    using cstr_in_entry [OF assms(1)] Suc.prems by simp
  have "[k..<k + Suc n] = k # [Suc k..<Suc k + n]" by (simp add: upt_rec)
  then show ?case using c Suc.IH [of "Suc k"] Suc.prems by (simp add: de_size_def)
qed simp

text \<open>\<open>search_dir_entry\<close> finds the first entry with the name in the list of the directory.\<close>

lemma find_map_upt:
  "find P (map f [0..<n]) = map_option f (find (\<lambda>j. P (f j)) [0..<n])"
proof -
  have "find P (map f xs) = map_option f (find (\<lambda>j. P (f j)) xs)" for xs by (induction xs) auto
  then show ?thesis .
qed

text \<open>A position in a sector and the entry it stands for.\<close>

definition found_at :: "(byte list \<times> nat) option \<Rightarrow> dir_entry option \<Rightarrow> bool" where
  "found_at r e = (case r of None \<Rightarrow> e = None
     | Some (sec, k) \<Rightarrow> length sec = 512 \<and> k < 21 \<and> e = Some (entry_at sec k))"

lemma find_append:
  "find P (xs @ ys) = (case find P xs of Some x \<Rightarrow> Some x | None \<Rightarrow> find P ys)"
  by (induction xs) auto

lemma find_append_left:
  "find P xs = find P (xs @ ys) \<longleftrightarrow> (\<exists>x \<in> set xs. P x) \<or> (\<forall>y \<in> set ys. \<not> P y)"
proof (cases "find P xs")
  case None
  then have "\<forall>x \<in> set xs. \<not> P x" by (simp add: find_None_iff)
  moreover have "None = find P ys \<longleftrightarrow> (\<forall>y \<in> set ys. \<not> P y)"
    using find_None_iff [of P ys] by (metis (no_types))
  ultimately show ?thesis using None by (simp add: find_append)
next
  case (Some x)
  then have "\<exists>x \<in> set xs. P x" by (auto simp: find_Some_iff intro: nth_mem)
  then show ?thesis using Some by (simp add: find_append)
qed

lemma search_blocks_runs:
  assumes "disk_ok s" and "length buf = 512"
    and "\<forall>b \<in> set blks. b \<le> max_lba \<and> (b \<noteq> 0 \<longrightarrow> names_end (hd_sectors s b))"
  shows "\<exists>r. search_blocks s blks name 21 buf = Some r
    \<and> found_at r (find (\<lambda>d. dname d = name) (blocks_list s blks))"
  using assms(2,3)
proof (induction blks arbitrary: buf)
  case (Cons b blks)
  show ?case
  proof (cases "b = 0")
    case True
    then show ?thesis using Cons.IH [OF Cons.prems(1)] Cons.prems(2) by simp
  next
    case False
    let ?sec = "hd_sectors s b"
    have l: "length ?sec = 512" using assms(1) by (simp add: disk_ok_def)
    have rd: "ide_read s b buf 1 = Some ?sec"
      using ide_read_one [OF assms(1), of b buf] Cons.prems by simp
    have se: "search_entries ?sec name 0 21 = Some (find (\<lambda>j. dname (entry_at ?sec j) = name) [0..<21])"
      using search_entries_runs [OF l, of 0 21 "[]" name] Cons.prems(2) False by simp
    show ?thesis
    proof (cases "find (\<lambda>j. dname (entry_at ?sec j) = name) [0..<21]")
      case None
      then have "find (\<lambda>d. dname d = name) (entries_of ?sec) = None"
        unfolding entries_of_def find_map_upt by simp
      then show ?thesis using Cons.IH [of "replicate 512 0"] Cons.prems(2) False rd se None
        by (simp add: find_append)
    next
      case (Some k)
      then have "k < 21" by (auto simp: find_Some_iff)
      moreover have "find (\<lambda>d. dname d = name) (entries_of ?sec) = Some (entry_at ?sec k)"
        unfolding entries_of_def find_map_upt using Some by simp
      ultimately show ?thesis using False rd se Some l by (simp add: find_append found_at_def)
    qed
  qed
qed (simp add: found_at_def)

lemma dir_inode_of_frame [simp]:
  "dir_inode_of p (s\<lparr>next_addr := n\<rparr>) = dir_inode_of p s"
  "dir_inode_of p (s\<lparr>hd_sectors := h\<rparr>) = dir_inode_of p s"
  by (simp_all add: dir_inode_of_def)

lemma search_blocks_frame [simp]:
  "search_blocks (s\<lparr>next_addr := n\<rparr>) blks name cnt buf = search_blocks s blks name cnt buf"
proof -
  have "ide_read (s\<lparr>next_addr := n\<rparr>) = ide_read s" by (intro ext) (simp add: ide_read_def cong: if_cong)
  then show ?thesis by (induction blks arbitrary: buf) (auto split: option.splits)
qed

lemma search_zeros: "search_blocks s (xs @ replicate n 0) name cnt buf = search_blocks s xs name cnt buf"
proof -
  have z: "search_blocks s (replicate n 0) name cnt buf = Some None" for buf by (induction n) auto
  show ?thesis by (induction xs arbitrary: buf) (auto simp: z split: option.splits)
qed

lemma search_dir_entry_runs:
  assumes "dir_ok s pdir" and "dir_inode_of pdir s = Some i" and "de_ok e"
    and "heap_ok s (next_addr s)" and "heap_ok s (next_addr s + 1)" and "0 < next_addr s"
  shows "search_dir_entry pdir name e s =
    Some (find (\<lambda>d. dname d = name) (dir_list s i), s\<lparr>next_addr := next_addr s + 2\<rparr>)"
proof -
  have d: "disk_ok s" "dir_entry_size (sb s) = 24" "length (i_sectors i) = 13"
      "\<forall>b \<in> set (take 12 (i_sectors i)). b \<le> max_lba \<and> (b \<noteq> 0 \<longrightarrow> names_end (hd_sectors s b))"
    using assms(1,2) by (auto simp: dir_ok_def)
  from search_blocks_runs [OF d(1) _ d(4), of "replicate 512 0" name]
  obtain r where r: "search_blocks s (take 12 (i_sectors i)) name 21 (replicate 512 0) = Some r"
      "found_at r (find (\<lambda>d. dname d = name) (dir_list s i))"
    unfolding dir_list_def by auto
  have ab: "(take 12 (i_sectors i) @ replicate 128 0) ! 12 = 0"
    using d(3) by (simp add: nth_append)
  have e: "length (de_bytes e) = 24" using assms(3) by (simp add: de_ok_def length_de_bytes)
  have cp: "de_of_bytes (put_bytes 0 (sub_bytes (k * 24) 24 sec) (de_bytes e)) = entry_at sec k"
    if "length sec = 512" "k < 21" for sec k
    using that e by (simp add: put_bytes_def entry_at_def)
  show ?thesis
  proof (cases r)
    case None
    then show ?thesis using assms(2,4-6) d ab r
      by (simp add: search_dir_entry_def fs_malloc_def search_zeros found_at_def)
  next
    case (Some sk)
    obtain sec k where sk: "sk = (sec, k)" by (cases sk)
    then have l: "length sec = 512" "k < 21" using r(2) Some by (auto simp: found_at_def)
    then have "24 + k * 24 \<le> length sec" by simp
    then show ?thesis using assms(2,4-6) d ab r Some sk cp [OF l]
      by (simp add: search_dir_entry_def fs_malloc_def search_zeros de_size_def found_at_def)
  qed
qed

section \<open>Adding an entry to a block with a free place\<close>

lemma rd32_append: "off + 4 \<le> length xs \<Longrightarrow> rd32 (xs @ ys) off = rd32 xs off"
  by (simp add: rd32_def Let_def nth_append)

lemma f_type_entry_at:
  "length sec = 512 \<Longrightarrow> k < 21 \<Longrightarrow> f_type (entry_at sec k) = rd32 sec (k * 24 + 20)"
  by (simp add: entry_at_def de_of_bytes_def rd32_sub)

lemma free_entry_runs:
  assumes "length sec = 512" and "k + n \<le> 21"
  shows "free_entry (sec @ rest) k n = Some (find (\<lambda>j. f_type (entry_at sec j) = FT_UNKNOW) [k..<k + n])"
  using assms(2)
proof (induction n arbitrary: k)
  case (Suc n)
  have "rd32 (sec @ rest) (k * 24 + 20) = f_type (entry_at sec k)"
    using assms(1) Suc.prems by (simp add: rd32_append f_type_entry_at)
  moreover have "[k..<k + Suc n] = k # [Suc k..<Suc k + n]" by (simp add: upt_rec)
  ultimately show ?case using Suc.IH [of "Suc k"] Suc.prems assms(1)
    by (simp add: de_size_def add.commute)
qed simp

lemma entry_at_put:
  assumes "length sec = 512" and "k < 21" and "j < 21" and "de_ok d"
  shows "entry_at (put_bytes (k * 24) (de_bytes d) sec) j = (if j = k then d else entry_at sec j)"
proof -
  have l: "length (de_bytes d) = 24" using assms(4) by (simp add: de_ok_def length_de_bytes)
  show ?thesis
  proof (cases "j = k")
    case True
    then show ?thesis using l assms by (simp add: entry_at_def sub_put_bytes_same de_of_de_bytes)
  next
    case False
    then have "j * 24 + 24 \<le> k * 24 \<or> k * 24 + 24 \<le> j * 24" by linarith
    then show ?thesis using l assms False by (simp add: entry_at_def sub_put_bytes_apart)
  qed
qed

lemma entries_of_put:
  assumes "length sec = 512" and "k < 21" and "de_ok d"
  shows "entries_of (put_bytes (k * 24) (de_bytes d) sec) = (entries_of sec)[k := d]"
  using assms by (intro nth_equalityI) (auto simp: entries_of_def entry_at_put nth_list_update)

lemma length_entries_of [simp]: "length (entries_of sec) = 21"
  by (simp add: entries_of_def)

definition full_sector :: "byte list \<Rightarrow> bool" where
  "full_sector sec \<longleftrightarrow> (\<forall>k < 21. f_type (entry_at sec k) \<noteq> FT_UNKNOW)"

text \<open>The state after entry \<open>k\<close> of block \<open>b\<close> of an open directory got the value \<open>de\<close>.\<close>

definition entry_put :: "nat \<Rightarrow> inode \<Rightarrow> nat \<Rightarrow> nat \<Rightarrow> dir_entry \<Rightarrow> fs \<Rightarrow> fs" where
  "entry_put a i b k de s = s\<lparr>hd_sectors := (hd_sectors s)(b := put_bytes (k * 24) (de_bytes de) (hd_sectors s b)),
     inodes := (inodes s)(a \<mapsto> i\<lparr>i_bsize := add32 (i_bsize i) 24\<rparr>)\<rparr>"

lemma sync_blocks_skip:
  assumes "disk_ok s" and "dir_entry_size (sb s) = 24" and "j < 140"
    and "\<forall>t < j. m \<le> t \<longrightarrow> ab ! t \<noteq> 0 \<and> ab ! t \<le> max_lba \<and> full_sector (hd_sectors s (ab ! t))"
    and "m \<le> j" and "512 \<le> length io_buf"
  shows "\<exists>io. 512 \<le> length io \<and> sync_blocks pdir de ab io_buf [m..<140] s = sync_blocks pdir de ab io [j..<140] s"
  using assms(4-6)
proof (induction "j - m" arbitrary: m io_buf)
  case (Suc n)
  then have m: "m < j" "m < 140" using assms(3) by auto
  let ?sec = "hd_sectors s (ab ! m)"
  have l: "length ?sec = 512" using assms(1) by (simp add: disk_ok_def)
  have b: "ab ! m \<noteq> 0" "ab ! m \<le> max_lba" "full_sector ?sec" using Suc.prems(1) m by auto
  have u: "[m..<140] = m # [Suc m..<140]" using m by (simp add: upt_rec)
  have rd: "ide_read s (ab ! m) io_buf 1 = Some (?sec @ drop 512 io_buf)"
    using ide_read_one [OF assms(1) b(2)] Suc.prems(3) by simp
  have "find (\<lambda>k. f_type (entry_at ?sec k) = FT_UNKNOW) [0..<21] = None"
    using b(3) by (auto simp: find_None_iff full_sector_def)
  then have fr: "free_entry (?sec @ drop 512 io_buf) 0 21 = Some None"
    using free_entry_runs [OF l, of 0 21] by simp
  have "\<exists>io. 512 \<le> length io \<and> sync_blocks pdir de ab (?sec @ drop 512 io_buf) [Suc m..<140] s =
      sync_blocks pdir de ab io [j..<140] s"
    using Suc.prems Suc.hyps(2) m l by (intro Suc.hyps(1)) auto
  then show ?case using rd fr u b(1) assms(2) by simp
qed auto

lemma sync_blocks_reuse:
  assumes "disk_ok s" and "dir_entry_size (sb s) = 24" and "de_ok de"
    and "dirs s pdir = Some d" and "inodes s (d_inode d) = Some i"
    and "\<forall>t < j. ab ! t \<noteq> 0 \<and> ab ! t \<le> max_lba \<and> full_sector (hd_sectors s (ab ! t))"
    and "ab ! j \<noteq> 0" and "ab ! j \<le> max_lba" and "j < 140"
    and "find (\<lambda>k. f_type (entry_at (hd_sectors s (ab ! j)) k) = FT_UNKNOW) [0..<21] = Some k"
    and "512 \<le> length io_buf"
  shows "sync_blocks pdir de ab io_buf [0..<140] s = Some (True, entry_put (d_inode d) i (ab ! j) k de s)"
proof -
  have "\<forall>t < j. 0 \<le> t \<longrightarrow> ab ! t \<noteq> 0 \<and> ab ! t \<le> max_lba \<and> full_sector (hd_sectors s (ab ! t))"
    using assms(6) by simp
  from sync_blocks_skip [OF assms(1,2,9) this _ assms(11)] obtain io where io: "512 \<le> length io"
      "sync_blocks pdir de ab io_buf [0..<140] s = sync_blocks pdir de ab io [j..<140] s" by auto
  let ?sec = "hd_sectors s (ab ! j)"
  have l: "length ?sec = 512" using assms(1) by (simp add: disk_ok_def)
  have k: "k < 21" using assms(10) by (auto simp: find_Some_iff)
  have e: "length (de_bytes de) = 24" using assms(3) by (simp add: de_ok_def length_de_bytes)
  have u: "[j..<140] = j # [Suc j..<140]" using assms(9) by (simp add: upt_rec)
  have rd: "ide_read s (ab ! j) io 1 = Some (?sec @ drop 512 io)"
    using ide_read_one [OF assms(1,8)] io(1) by simp
  have fr: "free_entry (?sec @ drop 512 io) 0 21 = Some (Some k)"
    using free_entry_runs [OF l, of 0 21] assms(10) by simp
  have "take 512 (put_bytes (k * 24) (de_bytes de) (?sec @ drop 512 io)) = put_bytes (k * 24) (de_bytes de) ?sec"
    using k e l by (simp add: put_bytes_def)
  then have wr: "ide_write (ab ! j) (put_bytes (k * 24) (de_bytes de) (?sec @ drop 512 io)) 1 s =
      Some (s\<lparr>hd_sectors := (hd_sectors s)(ab ! j := put_bytes (k * 24) (de_bytes de) ?sec)\<rparr>)"
    using ide_write_one [OF assms(8)] k e l by (simp add: length_put_bytes)
  show ?thesis
    using io(2) rd fr wr u assms(2,4,5,7) e
    by (simp add: de_size_def grow_dir_def upd_dir_inode_def upd_inode_def entry_put_def)
qed

lemma blocks_list_cong:
  "\<forall>b \<in> set blks. b \<noteq> 0 \<longrightarrow> hd_sectors s' b = hd_sectors s b \<Longrightarrow> blocks_list s' blks = blocks_list s blks"
  by (induction blks) auto

lemma blocks_list_full:
  "\<forall>b \<in> set blks. b \<noteq> 0 \<longrightarrow> full_sector (hd_sectors s b) \<Longrightarrow> e \<in> set (blocks_list s blks) \<Longrightarrow> f_type e \<noteq> FT_UNKNOW"
  by (auto simp: blocks_list_def entries_of_def full_sector_def split: if_splits)

lemma direct_in: "length xs = 13 \<Longrightarrow> t < 12 \<Longrightarrow> xs ! t \<in> set (take 12 xs)"
  by (auto simp: in_set_conv_nth intro!: exI [of _ t])

text \<open>
  \<open>sync_dir_entry\<close> on a directory whose first blocks are full and whose block \<open>j\<close> has a free
  place: the new entry replaces the first free one in the list of the directory, nothing else
  changes.
\<close>

lemma sync_dir_entry_reuse:
  assumes "disk_ok s" and "dir_entry_size (sb s) = 24" and "de_ok de"
    and "dirs s pdir = Some d" and "inodes s (d_inode d) = Some i" and "length (i_sectors i) = 13"
    and "i_bsize i mod 24 = 0" and "j < 12" and "distinct (filter (\<lambda>b. b \<noteq> 0) (take 12 (i_sectors i)))"
    and "\<forall>t \<le> j. i_sectors i ! t \<noteq> 0 \<and> i_sectors i ! t \<le> max_lba"
    and "\<forall>t < j. full_sector (hd_sectors s (i_sectors i ! t))"
    and "\<not> full_sector (hd_sectors s (i_sectors i ! j))" and "512 \<le> length io_buf"
  shows "\<exists>s' pos. sync_dir_entry pdir de io_buf s = Some (True, s') \<and> pos < length (dir_list s i)
    \<and> f_type (dir_list s i ! pos) = FT_UNKNOW \<and> (\<forall>q < pos. f_type (dir_list s i ! q) \<noteq> FT_UNKNOW)
    \<and> dir_list s' i = (dir_list s i)[pos := de]
    \<and> inodes s' (d_inode d) = Some (i\<lparr>i_bsize := add32 (i_bsize i) 24\<rparr>)
    \<and> (\<forall>x. x \<noteq> i_sectors i ! j \<longrightarrow> hd_sectors s' x = hd_sectors s x)"
proof -
  let ?ab = "take 12 (i_sectors i) @ replicate 128 0"
  let ?b = "i_sectors i ! j"
  have at: "?ab ! t = i_sectors i ! t" if "t \<le> j" for t using that assms(6,8) by (simp add: nth_append)
  obtain k where k: "find (\<lambda>k. f_type (entry_at (hd_sectors s ?b) k) = FT_UNKNOW) [0..<21] = Some k"
    using assms(12) by (cases "find (\<lambda>k. f_type (entry_at (hd_sectors s ?b) k) = FT_UNKNOW) [0..<21]")
      (auto simp: full_sector_def find_None_iff)
  then have k21: "k < 21" "f_type (entry_at (hd_sectors s ?b) k) = FT_UNKNOW"
    by (auto simp: find_Some_iff)
  define s' where "s' = entry_put (d_inode d) i ?b k de s"
  have run: "sync_dir_entry pdir de io_buf s = Some (True, s')"
    using sync_blocks_reuse [OF assms(1-5), of j ?ab k io_buf] assms(2,4-8,10,11,13) at k
    by (simp add: sync_dir_entry_def dir_inode_of_def s'_def)
  define pre where "pre = take j (i_sectors i)"
  define post where "post = drop (Suc j) (take 12 (i_sectors i))"
  have blks: "take 12 (i_sectors i) = pre @ ?b # post"
    using id_take_nth_drop [of j "take 12 (i_sectors i)"] assms(6,8)
    by (simp add: min_def pre_def post_def)
  have bnz: "?b \<noteq> 0" using assms(10) by simp
  have nb: "?b \<notin> set pre" "?b \<notin> set post" using assms(9) bnz unfolding blks by auto
  have hs: "hd_sectors s' b = (if b = ?b then put_bytes (k * 24) (de_bytes de) (hd_sectors s ?b)
      else hd_sectors s b)" for b
    by (simp add: s'_def entry_put_def)
  have l: "length (hd_sectors s ?b) = 512" using assms(1) by (simp add: disk_ok_def)
  let ?pos = "length (blocks_list s pre) + k"
  have rest: "blocks_list s' pre = blocks_list s pre" "blocks_list s' post = blocks_list s post"
    using nb by (auto intro!: blocks_list_cong simp: hs)
  have old: "dir_list s i = blocks_list s pre @ entries_of (hd_sectors s ?b) @ blocks_list s post"
    unfolding dir_list_def blks using bnz by simp
  have "dir_list s' i = blocks_list s pre @ (entries_of (hd_sectors s ?b))[k := de] @ blocks_list s post"
    unfolding dir_list_def blks using bnz rest l k21 assms(3) by (simp add: hs entries_of_put)
  then have new: "dir_list s' i = (dir_list s i)[?pos := de]"
    using k21 by (simp add: old list_update_append)
  have "dir_list s i ! ?pos = entry_at (hd_sectors s ?b) k"
    using k21 by (simp add: old nth_append entries_of_def)
  moreover have "?pos < length (dir_list s i)" using k21 by (simp add: old)
  moreover have "f_type (dir_list s i ! q) \<noteq> FT_UNKNOW" if "q < ?pos" for q
  proof (cases "q < length (blocks_list s pre)")
    case True
    have "\<forall>b \<in> set pre. b \<noteq> 0 \<longrightarrow> full_sector (hd_sectors s b)"
      using assms(6,8,11) by (auto simp: pre_def in_set_conv_nth)
    with True show ?thesis using blocks_list_full [of pre s] by (simp add: old nth_append)
  next
    case False
    define r where "r = q - length (blocks_list s pre)"
    have "r < k" using False that by (simp add: r_def)
    then have "f_type (entry_at (hd_sectors s ?b) r) \<noteq> FT_UNKNOW"
      using k k21(1) by (auto simp: find_Some_iff del: upt_Suc)
    then show ?thesis using False \<open>r < k\<close> k21(1) by (simp add: old nth_append entries_of_def r_def)
  qed
  ultimately show ?thesis
    using run new k21 hs by (intro exI [of _ s'] exI [of _ ?pos]) (simp add: s'_def entry_put_def)
qed

text \<open>The sector of a block that was allocated for its first entry.\<close>

definition first_sector :: "dir_entry \<Rightarrow> byte list" where
  "first_sector de = de_bytes de @ replicate 488 0"

lemma entries_first_sector:
  assumes "de_ok de"
  shows "entries_of (first_sector de) = de # replicate 20 zero_dir_entry"
proof (rule nth_equalityI)
  have l: "length (de_bytes de) = 24" using assms by (simp add: de_ok_def length_de_bytes)
  fix k assume "k < length (entries_of (first_sector de))"
  then have k: "k < 21" by simp
  have "entry_at (first_sector de) k = (de # replicate 20 zero_dir_entry) ! k"
  proof (cases "k = 0")
    case True
    then show ?thesis using de_of_de_bytes [OF assms] l by (simp add: entry_at_def first_sector_def sub_bytes_def)
  next
    case False
    then have "sub_bytes (k * 24) 24 (first_sector de) = replicate 24 0"
      using k l by (simp add: first_sector_def sub_bytes_def min_def)
    then show ?thesis using False k
      by (simp add: entry_at_def de_of_bytes_def zero_dir_entry_def rd32_def Let_def nth_Cons')
  qed
  then show "entries_of (first_sector de) ! k = (de # replicate 20 zero_dir_entry) ! k"
    using k by (simp add: entries_of_def del: upt_Suc)
qed simp

lemma write_first_sector:
  assumes "de_ok de" and "512 \<le> length io_buf" and "b \<le> max_lba"
  shows "ide_write b (put_bytes 0 (take 24 (de_bytes de)) (put_bytes 0 (replicate 512 0) io_buf)) 1 s =
    Some (s\<lparr>hd_sectors := (hd_sectors s)(b := first_sector de)\<rparr>)"
proof -
  have l: "length (de_bytes de) = 24" using assms by (simp add: de_ok_def length_de_bytes)
  have "take 512 (put_bytes 0 (take 24 (de_bytes de)) (put_bytes 0 (replicate 512 0) io_buf)) = first_sector de"
    using l assms(2) by (simp add: put_bytes_def first_sector_def)
  then show ?thesis using ide_write_one [OF assms(3)] l assms(2) by (simp add: length_put_bytes)
qed

text \<open>What \<open>sync_dir_entry\<close> needs of the partition when it takes a block or, for the table, two.\<close>

definition room_for_blocks :: "fs \<Rightarrow> bool" where
  "room_for_blocks s \<longleftrightarrow> layout_ok s \<and> 2 \<le> card (free_blocks s)
     \<and> heap_ok s (next_addr s) \<and> heap_ok s (next_addr s + 1) \<and> 0 < next_addr s"

lemma sync_dir_entry_direct:
  assumes "room_for_blocks s" and "dir_entry_size (sb s) = 24" and "de_ok de"
    and "dirs s pdir = Some d" and "inodes s (d_inode d) = Some i" and "length (i_sectors i) = 13"
    and "i_bsize i mod 24 = 0" and "j < 12" and "\<forall>b \<in> set (take 12 (i_sectors i)). b \<noteq> 0 \<longrightarrow> used_block s b"
    and "\<forall>t < j. i_sectors i ! t \<noteq> 0 \<and> full_sector (hd_sectors s (i_sectors i ! t))"
    and "i_sectors i ! j = 0" and "512 \<le> length io_buf"
  shows "\<exists>s' b. sync_dir_entry pdir de io_buf s = Some (True, s') \<and> \<not> used_block s b \<and> used_block s' b
    \<and> inodes s' (d_inode d) = Some (i\<lparr>i_sectors := (i_sectors i)[j := b], i_bsize := add32 (i_bsize i) 24\<rparr>)
    \<and> (\<forall>x. used_block s x \<longrightarrow> hd_sectors s' x = hd_sectors s x) \<and> hd_sectors s' b = first_sector de \<and> b \<noteq> 0"
proof -
  let ?ab = "take 12 (i_sectors i) @ replicate 128 0"
  note room = assms(1) [unfolded room_for_blocks_def]
  have lay: "layout_ok s" and dk: "disk_ok s" using room by (auto simp: layout_ok_def)
  have at: "?ab ! t = i_sectors i ! t" if "t \<le> j" for t using that assms(6,8) by (simp add: nth_append)
  have used: "i_sectors i ! t \<le> max_lba" if "t < j" for t
    using used_block_data [of s "i_sectors i ! t"] that assms(8,9,10) direct_in [OF assms(6), of t] by simp
  have "\<forall>t < j. 0 \<le> t \<longrightarrow> ?ab ! t \<noteq> 0 \<and> ?ab ! t \<le> max_lba \<and> full_sector (hd_sectors s (?ab ! t))"
    using at assms(10) used by simp
  from sync_blocks_skip [OF dk assms(2) _ this _ assms(12)] assms(8) obtain io
    where io: "512 \<le> length io" "sync_blocks pdir de ?ab io_buf [0..<140] s = sync_blocks pdir de ?ab io [j..<140] s"
    by fastforce
  have fr: "free_blocks s \<noteq> {}" "heap_ok s (next_addr s)" "0 < next_addr s" using room by auto
  obtain b s1 s2
    where b: "block_bitmap_alloc s = Some (int b, s1)" "b \<noteq> 0" "sb s1 = sb s"
      "bitmap_sync (b - data_start_lba (sb s)) BLOCK_BITMAP s1 = Some s2" "grown s [b] s2" "inodes s2 = inodes s"
    using new_block_runs [OF lay fr] by (elim exE conjE) (rule that)
  have g: "\<not> used_block s b" "used_block s2 b" "b \<le> max_lba" "sb s2 = sb s"
      "used_block s x \<Longrightarrow> hd_sectors s2 x = hd_sectors s x" for x
    using grownD [OF b(5)] by auto
  have ds: "dirs s2 = dirs s" using b(5) by (simp add: grown_def)
  define i1 where "i1 = i\<lparr>i_sectors := (i_sectors i)[j := b]\<rparr>"
  define i2 where "i2 = i1\<lparr>i_bsize := add32 (i_bsize i) 24\<rparr>"
  define s3 where "s3 = s2\<lparr>inodes := (inodes s)(d_inode d \<mapsto> i1)\<rparr>"
  define s' where "s' = s3\<lparr>hd_sectors := (hd_sectors s3)(b := first_sector de), inodes := (inodes s)(d_inode d \<mapsto> i2)\<rparr>"
  have add: "add_block pdir j ?ab s = Some (Some (?ab[j := b]), s3)"
    using b assms(4,5,8) ds
    by (simp add: add_block_def upd_dir_inode_def upd_inode_def s3_def i1_def)
  have u: "[j..<140] = j # [Suc j..<140]" using assms(8) by (simp add: upt_rec)
  have "(?ab[j := b]) ! j = b" using assms(6,8) by simp
  then have "sync_blocks pdir de ?ab io [j..<140] s = Some (True, s')"
    using add at [of j] assms(2,4,11) u write_first_sector [OF assms(3) io(1) g(3), of s3] ds g(4)
    by (simp add: de_size_def grow_dir_def upd_dir_inode_def upd_inode_def s'_def s3_def i1_def i2_def)
  then have run: "sync_dir_entry pdir de io_buf s = Some (True, s')"
    using io(2) assms(2,4,5,7) by (simp add: sync_dir_entry_def dir_inode_of_def)
  have "used_block s' b"
    using g(2) by (simp add: used_block_def s'_def s3_def)
  moreover have "hd_sectors s' x = hd_sectors s x" if "used_block s x" for x
    using g(1,5) that by (auto simp: s'_def s3_def)
  ultimately show ?thesis using run g(1) b(2)
    by (intro exI [of _ s'] exI [of _ b]) (simp add: s'_def i2_def i1_def)
qed

text \<open>
  With every direct block full a new table is taken, whatever entry 12 of the inode says, and a
  block for the entry, which is the only one in that table.
\<close>

lemma sync_dir_entry_table:
  assumes "room_for_blocks s" and "dir_entry_size (sb s) = 24" and "de_ok de"
    and "dirs s pdir = Some d" and "inodes s (d_inode d) = Some i" and "length (i_sectors i) = 13"
    and "i_bsize i mod 24 = 0" and "\<forall>b \<in> set (take 12 (i_sectors i)). b \<noteq> 0 \<longrightarrow> used_block s b"
    and "\<forall>t < 12. i_sectors i ! t \<noteq> 0 \<and> full_sector (hd_sectors s (i_sectors i ! t))"
    and "512 \<le> length io_buf"
  shows "\<exists>s' T b. sync_dir_entry pdir de io_buf s = Some (True, s') \<and> \<not> used_block s T \<and> \<not> used_block s b
    \<and> used_block s' T \<and> used_block s' b
    \<and> inodes s' (d_inode d) = Some (i\<lparr>i_sectors := (i_sectors i)[12 := T], i_bsize := add32 (i_bsize i) 24\<rparr>)
    \<and> (\<forall>x. used_block s x \<longrightarrow> hd_sectors s' x = hd_sectors s x) \<and> T \<noteq> 0 \<and> b \<noteq> 0
    \<and> words_of (hd_sectors s' T) = b # replicate 127 0 \<and> hd_sectors s' b = first_sector de"
proof -
  let ?ab = "take 12 (i_sectors i) @ replicate 128 0"
  note room = assms(1) [unfolded room_for_blocks_def]
  have lay: "layout_ok s" and dk: "disk_ok s" using room by (auto simp: layout_ok_def)
  have at: "?ab ! t = i_sectors i ! t" if "t < 12" for t using that assms(6) by (simp add: nth_append)
  have used: "i_sectors i ! t \<le> max_lba" if "t < 12" for t
    using used_block_data [of s "i_sectors i ! t"] that assms(8,9) direct_in [OF assms(6), of t] by simp
  have "\<forall>t < 12. 0 \<le> t \<longrightarrow> ?ab ! t \<noteq> 0 \<and> ?ab ! t \<le> max_lba \<and> full_sector (hd_sectors s (?ab ! t))"
    using at assms(9) used by simp
  from sync_blocks_skip [OF dk assms(2) _ this _ assms(10)] obtain io
    where io: "512 \<le> length io" "sync_blocks pdir de ?ab io_buf [0..<140] s = sync_blocks pdir de ?ab io [12..<140] s"
    by fastforce
  have fr: "free_blocks s \<noteq> {}" "heap_ok s (next_addr s)" "0 < next_addr s" using room by auto
  obtain T s1 s2
    where T: "block_bitmap_alloc s = Some (int T, s1)" "T \<noteq> 0" "sb s1 = sb s"
      "bitmap_sync (T - data_start_lba (sb s)) BLOCK_BITMAP s1 = Some s2" "grown s [T] s2" "inodes s2 = inodes s"
    using new_block_runs [OF lay fr] by (elim exE conjE) (rule that)
  define i1 where "i1 = i\<lparr>i_sectors := (i_sectors i)[12 := T]\<rparr>"
  define i2 where "i2 = i1\<lparr>i_bsize := add32 (i_bsize i) 24\<rparr>"
  define s3 where "s3 = s2\<lparr>inodes := (inodes s)(d_inode d \<mapsto> i1)\<rparr>"
  have g: "layout_ok s3" "\<not> used_block s T" "T \<le> max_lba" "sb s3 = sb s" "next_addr s3 = next_addr s + 1"
      "heap_ok s3 = heap_ok s" "dirs s3 = dirs s" "grown s [T] s3"
    using grownD [OF T(5)] T(5) by (auto simp: s3_def grown_def)
  have "card (free_blocks s3) + 1 = card (free_blocks s)" using g(8) by (simp add: grown_def)
  then have fr3: "free_blocks s3 \<noteq> {}" "heap_ok s3 (next_addr s3)" "0 < next_addr s3" using room g(5,6) by auto
  obtain b s4 s5
    where b: "block_bitmap_alloc s3 = Some (int b, s4)" "b \<noteq> 0" "sb s4 = sb s3"
      "bitmap_sync (b - data_start_lba (sb s3)) BLOCK_BITMAP s4 = Some s5" "grown s3 [b] s5" "inodes s5 = inodes s3"
    using new_block_runs [OF g(1) fr3] by (elim exE conjE) (rule that)
  have gg: "grown s [T, b] s5" using grown_trans [OF g(8) b(5)] by simp
  have h: "\<not> used_block s b" "used_block s5 T" "used_block s5 b" "b \<le> max_lba" "sb s5 = sb s" "T \<noteq> b"
      "used_block s x \<Longrightarrow> hd_sectors s5 x = hd_sectors s x" for x
    using grownD [OF gg] by auto
  have ds: "dirs s5 = dirs s" using gg by (simp add: grown_def)
  define tbl where "tbl = bytes_of_words (b # replicate 127 0)"
  define s6 where "s6 = s5\<lparr>hd_sectors := (hd_sectors s5)(T := tbl)\<rparr>"
  define s' where "s' = s6\<lparr>hd_sectors := (hd_sectors s6)(b := first_sector de), inodes := (inodes s)(d_inode d \<mapsto> i2)\<rparr>"
  have tab: "?ab[12 := b] ! 12 = b" "drop 12 (?ab[12 := b]) = b # replicate 127 0"
    using assms(6) by (simp_all add: list_update_append nth_append drop_update_swap numeral_eq_Suc)
  have lt: "length tbl = 512" by (simp add: tbl_def)
  have add: "add_block pdir 12 ?ab s = Some (Some (?ab[12 := b]), s6)"
    using T b assms(4,5) g(4,7) ide_write_one [OF g(3), of tbl s5] lt h(5) tab(2)
    by (simp add: add_block_def upd_dir_inode_def upd_inode_def s3_def i1_def s6_def tbl_def grown_def)
  have u: "[12..<140] = 12 # [13..<140]" by (simp add: upt_rec)
  have "sync_blocks pdir de ?ab io [12..<140] s = Some (True, s')"
    using add assms(2,4,6) u write_first_sector [OF assms(3) io(1) h(4), of s6] ds h(5) tab(1) b(6)
    by (simp add: de_size_def grow_dir_def upd_dir_inode_def upd_inode_def s'_def s6_def s3_def i1_def i2_def nth_append)
  then have run: "sync_dir_entry pdir de io_buf s = Some (True, s')"
    using io(2) assms(2,4,5,7) by (simp add: sync_dir_entry_def dir_inode_of_def)
  have "used_block s' T" "used_block s' b" using h(2,3) by (simp_all add: used_block_def s'_def s6_def)
  moreover have "hd_sectors s' x = hd_sectors s x" if "used_block s x" for x
    using g(2) h(1,7) that by (auto simp: s'_def s6_def)
  moreover have "words_of (hd_sectors s' T) = b # replicate 127 0"
    using h(4,6) words_of_bytes [of "b # replicate 127 0"] by (simp add: s'_def s6_def tbl_def max_lba_def)
  ultimately show ?thesis using run g(2) h(1) T(2) b(2)
    by (intro exI [of _ s'] exI [of _ T] exI [of _ b]) (simp add: s'_def i2_def i1_def)
qed

section \<open>Properties\<close>

lemma sample_root_entries:
  "entries_of (sample_sectors 613) = sample_entry [46] 0 2 # sample_entry [46, 46] 0 2
    # sample_entry [97] 1 1 # replicate 18 zero_dir_entry"
proof (rule nth_equalityI)
  let ?a = "sample_entry [46] 0 2" and ?b = "sample_entry [46, 46] 0 2" and ?c = "sample_entry [97] 1 1"
  let ?sec = "de_bytes ?a @ de_bytes ?b @ de_bytes ?c @ replicate 440 0"
  have sec: "sample_sectors 613 = ?sec" by (simp add: sample_sectors_def)
  fix k assume "k < length (entries_of (sample_sectors 613))"
  then have k: "k < 21" by simp
  have d: "de_of_bytes (de_bytes ?a) = ?a" "de_of_bytes (de_bytes ?b) = ?b" "de_of_bytes (de_bytes ?c) = ?c"
    by (simp_all add: de_of_de_bytes de_ok_def sample_entry_def)
  have l: "length (de_bytes ?a) = 24" "length (de_bytes ?b) = 24" "length (de_bytes ?c) = 24" by simp_all
  have "entry_at ?sec k = (?a # ?b # ?c # replicate 18 zero_dir_entry) ! k"
  proof -
    consider "k = 0" | "k = 1" | "k = 2" | "3 \<le> k" by linarith
    then show ?thesis
    proof cases
      case 4
      then have "sub_bytes (k * 24) 24 ?sec = replicate 24 0"
        using k l by (simp add: sub_bytes_def min_def)
      then show ?thesis using 4 k
        by (simp add: entry_at_def de_of_bytes_def zero_dir_entry_def rd32_def Let_def nth_Cons')
    qed (use d l in \<open>simp_all add: entry_at_def sub_bytes_def\<close>)
  qed
  then show "entries_of (sample_sectors 613) ! k = (?a # ?b # ?c # replicate 18 zero_dir_entry) ! k"
    using k sec by (simp add: entries_of_def del: upt_Suc)
qed simp

abbreviation (input) sample_open_root :: inode where
  "sample_open_root \<equiv> sample_root\<lparr>i_open_cnts := 1\<rparr>"

lemma sample_dir_inode: "dir_inode_of ROOT_DIR sample_fs = Some sample_open_root"
  by (simp add: dir_inode_of_def sample_fs_def)

lemma sample_dir_list:
  "dir_list sample_fs sample_open_root = sample_entry [46] 0 2 # sample_entry [46, 46] 0 2
    # sample_entry [97] 1 1 # replicate 18 zero_dir_entry"
  using sample_root_entries
  by (simp add: dir_list_def sample_root_def sample_fs_def blocks_list_def numeral_eq_Suc)

lemma sample_names_end: "names_end (sample_sectors 613)"
proof -
  have "0 \<in> set (filename e)" if "e \<in> set (entries_of (sample_sectors 613))" for e
    using that unfolding sample_root_entries by (auto simp: sample_entry_def zero_dir_entry_def)
  then show ?thesis unfolding names_end_def entries_of_def by auto
qed

lemma sample_dir_ok: "dir_ok sample_fs ROOT_DIR"
  using sample_disk_ok sample_dir_inode sample_names_end
  by (auto simp: dir_ok_def sample_fs_def sample_sb_def sample_root_def max_lba_def take_Cons')

text \<open>C8: Looking a name up in a directory gives the first entry of that name in the twelve
  direct blocks of the directory, or nothing; the directory and the disk do not change. The
  blocks of the indirect table are never searched (the code tests entry 12 of its own fresh
  copy of the block table, which is 0, and not that of the inode). So the answer is the right
  one for the whole directory exactly when the direct blocks hold the name or the blocks of the
  table do not; in particular it is right for every directory without an indirect table.\<close>

theorem search_dir_entry_finds:
  assumes "dir_ok s pdir" and "dir_inode_of pdir s = Some i" and "de_ok e"
    and "heap_ok s (next_addr s)" and "heap_ok s (next_addr s + 1)" and "0 < next_addr s"
  shows "search_dir_entry pdir name e s =
    Some (find (\<lambda>d. dname d = name) (dir_list s i), s\<lparr>next_addr := next_addr s + 2\<rparr>)
    \<and> (find (\<lambda>d. dname d = name) (dir_list s i) = find (\<lambda>d. dname d = name) (all_entries s i)
        \<longleftrightarrow> (\<exists>d \<in> set (dir_list s i). dname d = name) \<or> (\<forall>d \<in> set (table_list s i). dname d \<noteq> name))
    \<and> (i_sectors i ! 12 = 0 \<longrightarrow> all_entries s i = dir_list s i)"
  using search_dir_entry_runs [OF assms, of name]
    find_append_left [of "\<lambda>d. dname d = name" "dir_list s i" "table_list s i"]
  by (simp add: all_entries_def table_list_def)

lemma sample_dname [simp]: "0 \<notin> set name \<Longrightarrow> length name < 16 \<Longrightarrow> dname (sample_entry name n t) = name"
  and zero_dname [simp]: "dname zero_dir_entry = []"
proof -
  show "dname zero_dir_entry = []" by (simp add: dname_def zero_dir_entry_def takeWhile_replicate)
  assume n: "0 \<notin> set name" "length name < 16"
  then have "\<And>b. b \<in> set name \<Longrightarrow> b \<noteq> 0" by auto
  then show "dname (sample_entry name n t) = name"
    using n(2) by (simp add: dname_def sample_entry_def takeWhile_append2 takeWhile_replicate)
qed

lemma sample_find: "find (\<lambda>d. dname d = [97]) (dir_list sample_fs sample_open_root) = Some (sample_entry [97] 1 1)"
  unfolding sample_dir_list by simp

theorem search_dir_entry_finds_witness:
  "search_dir_entry ROOT_DIR [97] zero_dir_entry sample_fs =
      Some (Some (sample_entry [97] 1 1), sample_fs\<lparr>next_addr := 102\<rparr>)
    \<and> find (\<lambda>d. dname d = [97]) (all_entries sample_fs sample_open_root) = Some (sample_entry [97] 1 1)"
proof -
  have z: "de_ok zero_dir_entry" by (simp add: de_ok_def zero_dir_entry_def)
  have h: "heap_ok sample_fs (next_addr sample_fs)" "heap_ok sample_fs (next_addr sample_fs + 1)"
      "0 < next_addr sample_fs" "next_addr sample_fs = 100"
    by (simp_all add: sample_fs_def)
  note found = search_dir_entry_finds [OF sample_dir_ok sample_dir_inode z h(1-3), of "[97]"]
  have "i_sectors sample_open_root ! 12 = 0" by (simp add: sample_root_def)
  with found have "all_entries sample_fs sample_open_root = dir_list sample_fs sample_open_root" by blast
  then show ?thesis using found h(4) sample_find by simp
qed

text \<open>
  What the property asks of a directory: its direct blocks are blocks in use, each named once, and
  its size is a multiple of 24. \<open>j\<close> is the first direct block that is not full of entries (it may
  not be allocated yet), or 12 when all twelve are.
\<close>

definition dir_sound :: "fs \<Rightarrow> inode \<Rightarrow> bool" where
  "dir_sound s i \<longleftrightarrow> length (i_sectors i) = 13 \<and> i_bsize i mod 24 = 0
     \<and> distinct (filter (\<lambda>b. b \<noteq> 0) (take 12 (i_sectors i)))
     \<and> (\<forall>b \<in> set (take 12 (i_sectors i)). b \<noteq> 0 \<longrightarrow> used_block s b)"

definition first_open_block :: "fs \<Rightarrow> inode \<Rightarrow> nat \<Rightarrow> bool" where
  "first_open_block s i j \<longleftrightarrow> j \<le> 12
     \<and> (\<forall>t < j. i_sectors i ! t \<noteq> 0 \<and> full_sector (hd_sectors s (i_sectors i ! t)))
     \<and> (j < 12 \<longrightarrow> i_sectors i ! j = 0 \<or> \<not> full_sector (hd_sectors s (i_sectors i ! j)))"

text \<open>C9: \<open>sync_dir_entry\<close> on a sound directory, whose first direct block that is not full is
  block \<open>j\<close>. When block \<open>j\<close> is allocated, the new entry replaces the first free entry of the
  directory and every other entry stays. When it is not, a block that was free is taken and
  entered in the inode, and the new entry and twenty free ones are put between the entries of
  the blocks before and after it. When all twelve direct blocks are full (\<open>j\<close> is 12) a free
  block becomes the indirect table of the directory and the block of the new entry is the only
  one in it; the direct entries stay, but a table the directory had before is lost with its
  entries. In each case the directory grows by one entry, and no other block in use is
  written. A block is only taken when the partition has two to give.\<close>

theorem sync_dir_entry_adds:
  assumes "layout_ok s" and "dir_entry_size (sb s) = 24" and "de_ok de"
    and "dirs s pdir = Some d" and "inodes s (d_inode d) = Some i" and "dir_sound s i"
    and "first_open_block s i j" and "512 \<le> length io_buf"
    and "j = 12 \<or> i_sectors i ! j = 0 \<longrightarrow> room_for_blocks s"
  shows "\<exists>s' i'. sync_dir_entry pdir de io_buf s = Some (True, s') \<and> inodes s' (d_inode d) = Some i'
    \<and> i_bsize i' = add32 (i_bsize i) 24
    \<and> (\<forall>x. used_block s x \<longrightarrow> j = 12 \<or> x \<noteq> i_sectors i ! j \<longrightarrow> hd_sectors s' x = hd_sectors s x)
    \<and> (j < 12 \<and> i_sectors i ! j \<noteq> 0 \<longrightarrow> i_sectors i' = i_sectors i
        \<and> (\<exists>pos < length (dir_list s i). f_type (dir_list s i ! pos) = FT_UNKNOW
            \<and> (\<forall>q < pos. f_type (dir_list s i ! q) \<noteq> FT_UNKNOW) \<and> dir_list s' i' = (dir_list s i)[pos := de]))
    \<and> (j < 12 \<and> i_sectors i ! j = 0 \<longrightarrow> (\<exists>b. \<not> used_block s b \<and> used_block s' b
        \<and> i_sectors i' = (i_sectors i)[j := b]
        \<and> dir_list s' i' = blocks_list s (take j (i_sectors i)) @ (de # replicate 20 zero_dir_entry)
            @ blocks_list s (drop (Suc j) (take 12 (i_sectors i)))))
    \<and> (j = 12 \<longrightarrow> (\<exists>T. \<not> used_block s T \<and> used_block s' T \<and> i_sectors i' = (i_sectors i)[12 := T]
        \<and> dir_list s' i' = dir_list s i \<and> table_list s' i' = de # replicate 20 zero_dir_entry))"
proof -
  note d = assms(6) [unfolded dir_sound_def] and o = assms(7) [unfolded first_open_block_def]
  have dk: "disk_ok s" using assms(1) by (simp add: layout_ok_def)
  have len: "length (i_sectors i) = 13" "i_bsize i mod 24 = 0"
      "\<forall>b \<in> set (take 12 (i_sectors i)). b \<noteq> 0 \<longrightarrow> used_block s b"
      "distinct (filter (\<lambda>b. b \<noteq> 0) (take 12 (i_sectors i)))" using d by blast+
  consider (reuse) "j < 12" "i_sectors i ! j \<noteq> 0" | (direct) "j < 12" "i_sectors i ! j = 0" | (table) "j = 12"
    using o by linarith
  then show ?thesis
  proof cases
    case reuse
    have "\<forall>t \<le> j. i_sectors i ! t \<noteq> 0 \<and> i_sectors i ! t \<le> max_lba"
      using o reuse len(1,3) direct_in [OF len(1)] used_block_data by (metis le_less_trans nat_less_le)
    from sync_dir_entry_reuse [OF dk assms(2-5) len(1,2) reuse(1) len(4) this _ _ assms(8)] o reuse
    obtain s' pos where r: "sync_dir_entry pdir de io_buf s = Some (True, s')" "pos < length (dir_list s i)"
      "f_type (dir_list s i ! pos) = FT_UNKNOW" "\<forall>q < pos. f_type (dir_list s i ! q) \<noteq> FT_UNKNOW"
      "dir_list s' i = (dir_list s i)[pos := de]"
      "inodes s' (d_inode d) = Some (i\<lparr>i_bsize := add32 (i_bsize i) 24\<rparr>)"
      "\<forall>x. x \<noteq> i_sectors i ! j \<longrightarrow> hd_sectors s' x = hd_sectors s x"
      by blast
    have "dir_list s' (i\<lparr>i_bsize := add32 (i_bsize i) 24\<rparr>) = (dir_list s i)[pos := de]"
      using r(5) by (simp add: dir_list_def)
    with r reuse show ?thesis
      by (intro exI [of _ s'] exI [of _ "i\<lparr>i_bsize := add32 (i_bsize i) 24\<rparr>"]) auto
  next
    case direct
    have room: "room_for_blocks s" and full: "\<forall>t < j. i_sectors i ! t \<noteq> 0 \<and> full_sector (hd_sectors s (i_sectors i ! t))"
      using direct assms(9) o by auto
    obtain s' b where r: "sync_dir_entry pdir de io_buf s = Some (True, s')" "\<not> used_block s b" "used_block s' b"
      "inodes s' (d_inode d) = Some (i\<lparr>i_sectors := (i_sectors i)[j := b], i_bsize := add32 (i_bsize i) 24\<rparr>)"
      "\<forall>x. used_block s x \<longrightarrow> hd_sectors s' x = hd_sectors s x" "hd_sectors s' b = first_sector de" "b \<noteq> 0"
      using sync_dir_entry_direct [OF room assms(2-5) len(1,2) direct(1) len(3) full direct(2) assms(8)]
      by (elim exE conjE) (rule that)
    define i' where "i' = i\<lparr>i_sectors := (i_sectors i)[j := b], i_bsize := add32 (i_bsize i) 24\<rparr>"
    have keep: "blocks_list s' xs = blocks_list s xs" if "set xs \<subseteq> set (take 12 (i_sectors i))" for xs
      using that len(3) r(5) by (intro blocks_list_cong) auto
    have "take 12 (i_sectors i') = take j (i_sectors i) @ b # drop (Suc j) (take 12 (i_sectors i))"
      using upd_conv_take_nth_drop [of j "take 12 (i_sectors i)" b] direct(1) len(1)
      by (simp add: i'_def take_update_swap min_def)
    moreover have "set (take j (i_sectors i)) \<subseteq> set (take 12 (i_sectors i))"
      using direct(1) by (simp add: set_take_subset_set_take)
    moreover have "set (drop (Suc j) (take 12 (i_sectors i))) \<subseteq> set (take 12 (i_sectors i))"
      by (rule set_drop_subset)
    ultimately have "dir_list s' i' = blocks_list s (take j (i_sectors i)) @ (de # replicate 20 zero_dir_entry)
        @ blocks_list s (drop (Suc j) (take 12 (i_sectors i)))"
      using keep r(6,7) entries_first_sector [OF assms(3)] by (simp add: dir_list_def)
    with r direct show ?thesis
      by (intro exI [of _ s'] exI [of _ i']) (auto simp: i'_def)
  next
    case table
    have room: "room_for_blocks s" and full: "\<forall>t < 12. i_sectors i ! t \<noteq> 0 \<and> full_sector (hd_sectors s (i_sectors i ! t))"
      using table assms(9) o by auto
    obtain s' T b where r: "sync_dir_entry pdir de io_buf s = Some (True, s')" "\<not> used_block s T"
      "\<not> used_block s b" "used_block s' T" "used_block s' b"
      "inodes s' (d_inode d) = Some (i\<lparr>i_sectors := (i_sectors i)[12 := T], i_bsize := add32 (i_bsize i) 24\<rparr>)"
      "\<forall>x. used_block s x \<longrightarrow> hd_sectors s' x = hd_sectors s x" "T \<noteq> 0" "b \<noteq> 0"
      "words_of (hd_sectors s' T) = b # replicate 127 0" "hd_sectors s' b = first_sector de"
      using sync_dir_entry_table [OF room assms(2-5) len(1,2,3) full assms(8)]
      by (elim exE conjE) (rule that)
    define i' where "i' = i\<lparr>i_sectors := (i_sectors i)[12 := T], i_bsize := add32 (i_bsize i) 24\<rparr>"
    have "dir_list s' i' = dir_list s i"
      using len(3) r(7) by (simp add: dir_list_def i'_def) (auto intro!: blocks_list_cong)
    moreover have "blocks_list s' (replicate n 0) = []" for n by (induction n) simp_all
    then have "table_list s' i' = de # replicate 20 zero_dir_entry"
      using r(8-11) len(1) entries_first_sector [OF assms(3)] by (simp add: table_list_def i'_def)
    ultimately show ?thesis using r table
      by (intro exI [of _ s'] exI [of _ i']) (auto simp: i'_def)
  qed
qed

lemma sample_block_used: "used_block sample_fs 613"
  by (simp add: used_block_def bmbit_def bm_size_def sample_fs_def sample_sb_def max_lba_def)

lemma sample_layout: "layout_ok sample_fs"
  using sample_disk_ok by (simp add: layout_ok_def sample_fs_def sample_sb_def bm_wf_def max_lba_def)

theorem sync_dir_entry_adds_witness:
  "\<exists>s' i' pos. sync_dir_entry ROOT_DIR (sample_entry [98] 2 1) (replicate 1024 0) sample_fs = Some (True, s')
    \<and> inodes s' 50 = Some i' \<and> i_bsize i' = 96 \<and> f_type (dir_list sample_fs sample_open_root ! pos) = FT_UNKNOW
    \<and> dir_list s' i' = (dir_list sample_fs sample_open_root)[pos := sample_entry [98] 2 1]"
proof -
  have "entries_of (sample_sectors 613) ! 3 = zero_dir_entry" by (simp add: sample_root_entries)
  then have "entry_at (sample_sectors 613) 3 = zero_dir_entry" by (simp add: entries_of_def del: upt_Suc)
  then have "\<not> full_sector (sample_sectors 613)"
    unfolding full_sector_def by (auto simp: zero_dir_entry_def intro!: exI [of _ 3])
  then have j: "first_open_block sample_fs sample_open_root 0"
    by (simp add: first_open_block_def sample_root_def sample_fs_def)
  have d: "dir_sound sample_fs sample_open_root"
    using sample_block_used by (simp add: dir_sound_def sample_root_def)
  have a: "dir_entry_size (sb sample_fs) = 24" "de_ok (sample_entry [98] 2 1)" "512 \<le> length (replicate 1024 (0 :: byte))"
      "dirs sample_fs ROOT_DIR = Some \<lparr>d_inode = 50, dir_pos = 0\<rparr>"
      "inodes sample_fs (d_inode \<lparr>d_inode = 50, dir_pos = 0\<rparr>) = Some sample_open_root"
      "i_sectors sample_open_root ! 0 \<noteq> 0" "i_bsize sample_open_root = 72"
    by (simp_all add: sample_fs_def sample_sb_def de_ok_def sample_entry_def sample_root_def)
  have "0 = (12 :: nat) \<or> i_sectors sample_open_root ! 0 = 0 \<longrightarrow> room_for_blocks sample_fs" using a(6) by simp
  from sync_dir_entry_adds [OF sample_layout a(1,2,4,5) d j a(3) this]
  obtain s' i' pos where r: "sync_dir_entry ROOT_DIR (sample_entry [98] 2 1) (replicate 1024 0) sample_fs = Some (True, s')"
    "inodes s' (d_inode \<lparr>d_inode = 50, dir_pos = 0\<rparr>) = Some i'" "i_bsize i' = add32 (i_bsize sample_open_root) 24"
    "f_type (dir_list sample_fs sample_open_root ! pos) = FT_UNKNOW"
    "dir_list s' i' = (dir_list sample_fs sample_open_root)[pos := sample_entry [98] 2 1]"
    using a(6) zero_less_numeral by blast
  then have "inodes s' 50 = Some i'" "i_bsize i' = 96" using a(7) by (simp_all add: add32_small)
  then show ?thesis using r by blast
qed

end
