(* ===== verification/FileIO.thy ===== *)
theory FileIO
  imports Prelude Dir
begin

text \<open>
  Reading and writing of open files: \<open>file_create\<close>, \<open>file_open\<close>, \<open>file_close\<close>, \<open>file_write\<close> and
  \<open>file_read\<close> of \<open>fs/fs.c\<close>. A \<open>file\<close> pointer is an index of the file table. \<open>file_write\<close> and
  \<open>file_read\<close> are cut into the choice of the block addresses and the transfer loop.

  \<open>file_content\<close> is the byte sequence a file holds; the lemmas show that \<open>file_read\<close> returns a
  slice of it and that the transfer loop of \<open>file_write\<close> extends it. Whole writes are in \<open>FileWrite\<close>.
\<close>

section \<open>Creating, opening, closing\<close>

text \<open>The rollback of \<open>file_create\<close> from step \<open>n\<close> on.\<close>

definition rollback_create :: "nat \<Rightarrow> nat \<Rightarrow> nat \<Rightarrow> nat \<Rightarrow> fs \<Rightarrow> (int \<times> fs) option" where
  "rollback_create step fd_idx new_inode inode_no s = do {
     s \<leftarrow> (if step \<ge> 3 then upd_file fd_idx (\<lambda>f. \<lparr>fd_pos = 0, fd_flag = 0, fd_inode = 0\<rparr>) s else Some s);
     let s = (if step \<ge> 2 then s\<lparr>inodes := (inodes s)(new_inode := None)\<rparr> else s);
     bm \<leftarrow> bitmap_set (inode_bitmap s) inode_no 0;
     Some (- 1, s\<lparr>inode_bitmap := bm\<rparr>)
   }"

definition file_create :: "nat \<Rightarrow> byte list \<Rightarrow> nat \<Rightarrow> fs \<Rightarrow> (int \<times> fs) option" where
  "file_create parent_dir name flag s = do {
     let (io_buf, s) = fs_malloc s;
     if io_buf = 0 then Some (- 1, s)
     else do {
       (ino, s) \<leftarrow> inode_bitmap_alloc s;
       if ino = - 1 then Some (- 1, s)
       else do {
         let inode_no = nat ino;
         let (a, s) = fs_malloc s;
         if a = 0 then rollback_create 1 0 a inode_no s
         else do {
           let s = s\<lparr>inodes := (inodes s)(a \<mapsto> inode_init inode_no)\<rparr>;
           fd_idx \<leftarrow> get_free_slot_in_file_table s;
           s \<leftarrow> upd_file fd_idx (\<lambda>f. \<lparr>fd_pos = 0, fd_flag = flag, fd_inode = a\<rparr>) s;
           s \<leftarrow> upd_inode a (\<lambda>i. i\<lparr>write_deny := False\<rparr>) s;
           de \<leftarrow> create_dir_entry name inode_no FT_REGULAR zero_dir_entry;
           (ok, s) \<leftarrow> sync_dir_entry parent_dir de (replicate 1024 0) s;
           if \<not> ok then rollback_create 3 fd_idx a inode_no s
           else do {
             pi \<leftarrow> dir_inode_of parent_dir s;
             s \<leftarrow> inode_sync pi (replicate 1024 0) s;
             i \<leftarrow> inodes s a;
             s \<leftarrow> inode_sync i (replicate 1024 0) s;
             s \<leftarrow> bitmap_sync inode_no INODE_BITMAP s;
             let s = s\<lparr>open_inodes := a # open_inodes s\<rparr>;
             s \<leftarrow> upd_inode a (\<lambda>i. i\<lparr>i_open_cnts := add32 (i_open_cnts i) 1\<rparr>) s;
             pcb_fd_install (int fd_idx) s
           }
         }
       }
     }
   }"

abbreviation (input) O_WRITE :: nat where "O_WRITE \<equiv> 1"
abbreviation (input) O_RW :: nat where "O_RW \<equiv> 2"
abbreviation (input) O_CREAT :: nat where "O_CREAT \<equiv> 4"

definition set_intr :: "bool \<Rightarrow> fs \<Rightarrow> fs" where
  "set_intr b s = s\<lparr>kern := (kern s)\<lparr>intr := b\<rparr>\<rparr>"

text \<open>A refused writer returns with interrupts off and with the slot of the file table taken.\<close>

definition file_open :: "nat \<Rightarrow> nat \<Rightarrow> fs \<Rightarrow> (int \<times> fs) option" where
  "file_open inode_no flag s = do {
     fd_idx \<leftarrow> get_free_slot_in_file_table s;
     (a, s) \<leftarrow> inode_open inode_no s;
     s \<leftarrow> upd_file fd_idx (\<lambda>f. \<lparr>fd_pos = 0, fd_flag = flag, fd_inode = a\<rparr>) s;
     i \<leftarrow> inodes s a;
     if flag AND O_WRITE \<noteq> 0 \<or> flag AND O_RW \<noteq> 0 then do {
       let old_status = intr (kern s);
       let s = set_intr False s;
       if \<not> write_deny i then do {
         s \<leftarrow> upd_inode a (\<lambda>i. i\<lparr>write_deny := True\<rparr>) s;
         pcb_fd_install (int fd_idx) (set_intr old_status s)
       } else Some (- 1, s)
     } else pcb_fd_install (int fd_idx) s
   }"

definition file_close :: "nat \<Rightarrow> fs \<Rightarrow> fs option" where
  "file_close k s = do {
     f \<leftarrow> rd_at (file_table s) k;
     s \<leftarrow> upd_inode (fd_inode f) (\<lambda>i. i\<lparr>write_deny := False\<rparr>) s;
     s \<leftarrow> inode_close (fd_inode f) s;
     upd_file k (\<lambda>f. f\<lparr>fd_inode := 0\<rparr>) s
   }"

section \<open>Writing\<close>

text \<open>
  New blocks for the indices in the list: direct blocks are also entered in the inode. The
  result is \<open>None\<close> when an allocation fails.
\<close>

fun alloc_blocks :: "nat \<Rightarrow> nat list \<Rightarrow> nat list \<Rightarrow> fs \<Rightarrow> (nat list option \<times> fs) option" where
  "alloc_blocks a ab [] s = Some (Some ab, s)"
| "alloc_blocks a ab (idx # idxs) s = do {
     (lba, s) \<leftarrow> block_bitmap_alloc s;
     if lba = - 1 then Some (None, s)
     else do {
       let lba = nat lba;
       i \<leftarrow> inodes s a;
       _ \<leftarrow> ensure (idx < 12 \<longrightarrow> i_sectors i ! idx = 0);
       s \<leftarrow> (if idx < 12 then upd_inode a (\<lambda>i. i\<lparr>i_sectors := (i_sectors i)[idx := lba]\<rparr>) s
              else Some s);
       s \<leftarrow> bitmap_sync (lba - data_start_lba (sb s)) BLOCK_BITMAP s;
       alloc_blocks a (ab[idx := lba]) idxs s
     }
   }"

text \<open>The first block of a file without data.\<close>

definition first_block :: "nat \<Rightarrow> fs \<Rightarrow> (bool \<times> fs) option" where
  "first_block a s = do {
     i \<leftarrow> inodes s a;
     if i_sectors i ! 0 = 0 then do {
       (lba, s) \<leftarrow> block_bitmap_alloc s;
       if lba = - 1 then Some (False, s)
       else do {
         s \<leftarrow> upd_inode a (\<lambda>i. i\<lparr>i_sectors := (i_sectors i)[0 := nat lba]\<rparr>) s;
         _ \<leftarrow> ensure (lba \<noteq> 0);
         s \<leftarrow> bitmap_sync (nat lba - data_start_lba (sb s)) BLOCK_BITMAP s;
         Some (True, s)
       }
     } else Some (True, s)
   }"

text \<open>The block addresses for a write; the table \<open>all_block\<close> of 140 words starts with zeros.\<close>

definition write_blocks ::
  "nat \<Rightarrow> nat \<Rightarrow> nat \<Rightarrow> fs \<Rightarrow> (nat list option \<times> fs) option" where
  "write_blocks a has_used will_use s = do {
     i \<leftarrow> inodes s a;
     let ab = replicate 140 0;
     if will_use = has_used then
       if will_use \<le> 12 then Some (Some (ab[has_used - 1 := i_sectors i ! (has_used - 1)]), s)
       else do {
         _ \<leftarrow> ensure (i_sectors i ! 12 \<noteq> 0);
         t \<leftarrow> ide_read s (i_sectors i ! 12) (replicate 512 0) 1;
         Some (Some (take 12 ab @ words_of t), s)
       }
     else if will_use \<le> 12 then
       alloc_blocks a (ab[has_used - 1 := i_sectors i ! (has_used - 1)]) [has_used..<will_use] s
     else if has_used \<le> 12 then do {
       let ab = ab[has_used - 1 := i_sectors i ! (has_used - 1)];
       (lba, s) \<leftarrow> block_bitmap_alloc s;
       if lba = - 1 then Some (None, s)
       else do {
         s \<leftarrow> bitmap_sync (nat lba - data_start_lba (sb s)) BLOCK_BITMAP s;
         _ \<leftarrow> ensure (i_sectors i ! 12 = 0);
         s \<leftarrow> upd_inode a (\<lambda>i. i\<lparr>i_sectors := (i_sectors i)[12 := nat lba]\<rparr>) s;
         (r, s) \<leftarrow> alloc_blocks a ab [has_used..<will_use] s;
         case r of
           None \<Rightarrow> Some (None, s)
         | Some ab \<Rightarrow> do {
             s \<leftarrow> ide_write (nat lba) (bytes_of_words (drop 12 ab)) 1 s;
             Some (Some ab, s)
           }
       }
     } else do {
       _ \<leftarrow> ensure (i_sectors i ! 12 \<noteq> 0);
       t \<leftarrow> ide_read s (i_sectors i ! 12) (replicate 512 0) 1;
       (r, s) \<leftarrow> alloc_blocks a (take 12 ab @ words_of t) [has_used..<will_use] s;
       case r of
         None \<Rightarrow> Some (None, s)
       | Some ab \<Rightarrow> do {
           s \<leftarrow> ide_write (i_sectors i ! 12) (bytes_of_words (drop 12 ab)) 1 s;
           Some (Some ab, s)
         }
     }
   }"

text \<open>One round of the transfer loop, then the loop; \<open>first\<close> marks the block that has data.\<close>

definition write_chunk ::
  "nat \<Rightarrow> nat \<Rightarrow> nat list \<Rightarrow> byte list \<Rightarrow> bool \<Rightarrow> fs \<Rightarrow> (nat \<times> fs) option" where
  "write_chunk k a ab src is_first s = do {
     i \<leftarrow> inodes s a;
     let sec_idx = i_bsize i div 512;
     lba \<leftarrow> rd_at ab sec_idx;
     let sec_off_bytes = i_bsize i mod 512;
     let sec_left_bytes = 512 - sec_off_bytes;
     let chunk_size = (if length src < sec_left_bytes then length src else sec_left_bytes);
     io_buf \<leftarrow> (if is_first then ide_read s lba (replicate 512 0) 1 else Some (replicate 512 0));
     let io_buf = put_bytes sec_off_bytes (take chunk_size src) io_buf;
     s \<leftarrow> ide_write lba io_buf 1 s;
     s \<leftarrow> upd_inode a (\<lambda>i. i\<lparr>i_bsize := add32 (i_bsize i) chunk_size\<rparr>) s;
     s \<leftarrow> upd_file k (\<lambda>f. f\<lparr>fd_pos := add32 (fd_pos f) chunk_size\<rparr>) s;
     Some (chunk_size, s)
   }"

lemma write_chunk_pos: "write_chunk k a ab src is_first s = Some (n, s') \<Longrightarrow> src \<noteq> [] \<Longrightarrow> 0 < n"
  by (auto simp: write_chunk_def Let_def runs_iff)

function write_loop ::
  "nat \<Rightarrow> nat \<Rightarrow> nat list \<Rightarrow> byte list \<Rightarrow> bool \<Rightarrow> fs \<Rightarrow> fs option" where
  "write_loop k a ab src is_first s =
     (if src = [] then Some s
      else Option.bind (write_chunk k a ab src is_first s)
        (\<lambda>r. write_loop k a ab (drop (fst r) src) False (snd r)))"
  by pat_completeness auto
termination
  by (relation "measure (\<lambda>(k, a, ab, src, is_first, s). length src)")
    (auto dest: write_chunk_pos)

declare write_loop.simps [simp del]

definition file_write :: "nat \<Rightarrow> byte list \<Rightarrow> fs \<Rightarrow> (int \<times> fs) option" where
  "file_write k buf s = do {
     f \<leftarrow> rd_at (file_table s) k;
     let a = fd_inode f;
     i \<leftarrow> inodes s a;
     let count = length buf;
     if add32 (i_bsize i) count > 512 * 140 then Some (- 1, s)
     else do {
       let (io_buf, s) = fs_malloc s;
       if io_buf = 0 then Some (- 1, s)
       else do {
         let (all_block, s) = fs_malloc s;
         if all_block = 0 then Some (- 1, s)
         else do {
           let (new_io_buf, s) = fs_malloc s;
           (ok, s) \<leftarrow> first_block a s;
           if \<not> ok then Some (- 1, s)
           else do {
             let file_has_used_blocks = i_bsize i div 512 + 1;
             let file_will_use_blocks = add32 (i_bsize i) count div 512 + 1;
             _ \<leftarrow> ensure (file_will_use_blocks \<le> 140);
             (r, s) \<leftarrow> write_blocks a file_has_used_blocks file_will_use_blocks s;
             case r of
               None \<Rightarrow> Some (- 1, s)
             | Some ab \<Rightarrow> do {
                 s \<leftarrow> upd_file k (\<lambda>f. f\<lparr>fd_pos := sub32 (i_bsize i) 1\<rparr>) s;
                 s \<leftarrow> write_loop k a ab buf True s;
                 i \<leftarrow> inodes s a;
                 _ \<leftarrow> ensure (new_io_buf \<noteq> 0);
                 s \<leftarrow> inode_sync i (replicate 1024 0) s;
                 Some (int count, s)
               }
           }
         }
       }
     }
   }"

section \<open>Reading\<close>

text \<open>
  The block addresses for a read of the blocks \<open>first\<close> to \<open>last\<close>; the table is a kernel page
  (1024 words) of zeros.
\<close>

definition read_direct :: "inode \<Rightarrow> nat \<Rightarrow> nat \<Rightarrow> nat list \<Rightarrow> nat list" where
  "read_direct i m n ab = take m ab @ map (\<lambda>t. i_sectors i ! t) [m..<n] @ drop n ab"

definition read_indirect :: "fs \<Rightarrow> inode \<Rightarrow> nat list \<Rightarrow> nat list option" where
  "read_indirect s i ab = do {
     t \<leftarrow> ide_read s (i_sectors i ! 12) (replicate 512 0) 1;
     Some (take 12 ab @ words_of t @ drop 140 ab)
   }"

definition blocks_to_read :: "fs \<Rightarrow> inode \<Rightarrow> nat \<Rightarrow> nat \<Rightarrow> nat list option" where
  "blocks_to_read s i start_idx end_idx = do {
     let ab = replicate 1024 0;
     if end_idx = start_idx then
       if end_idx < 12 then Some (ab[end_idx := i_sectors i ! end_idx])
       else read_indirect s i ab
     else if end_idx < 12 then Some (read_direct i start_idx (end_idx + 1) ab)
     else if start_idx < 12 then do {
       _ \<leftarrow> ensure (i_sectors i ! 12 \<noteq> 0);
       read_indirect s i (read_direct i start_idx 12 ab)
     } else do {
       _ \<leftarrow> ensure (i_sectors i ! 12 \<noteq> 0);
       read_indirect s i ab
     }
   }"

definition read_chunk :: "fs \<Rightarrow> nat list \<Rightarrow> nat \<Rightarrow> nat \<Rightarrow> byte list option" where
  "read_chunk s ab pos size_left = do {
     lba \<leftarrow> rd_at ab (pos div 512);
     let sec_off_bytes = pos mod 512;
     let sec_left_bytes = 512 - sec_off_bytes;
     let chunk_size = (if size_left < sec_left_bytes then size_left else sec_left_bytes);
     io_buf \<leftarrow> ide_read s lba (replicate 512 0) 1;
     Some (sub_bytes sec_off_bytes chunk_size io_buf)
   }"

text \<open>The loop runs at most once per byte: \<open>fuel\<close> is the number of bytes.\<close>

fun read_loop :: "nat \<Rightarrow> fs \<Rightarrow> nat list \<Rightarrow> nat \<Rightarrow> nat \<Rightarrow> byte list option" where
  "read_loop 0 s ab pos size_left = (if size_left = 0 then Some [] else None)"
| "read_loop (Suc fuel) s ab pos size_left =
     (if size_left = 0 then Some []
      else do {
        bs \<leftarrow> read_chunk s ab pos size_left;
        rest \<leftarrow> read_loop fuel s ab (add32 pos (length bs)) (size_left - length bs);
        Some (bs @ rest)
      })"

definition file_read :: "nat \<Rightarrow> nat \<Rightarrow> fs \<Rightarrow> (int \<times> byte list \<times> fs) option" where
  "file_read k count s = do {
     f \<leftarrow> rd_at (file_table s) k;
     i \<leftarrow> inodes s (fd_inode f);
     let over = (add32 (fd_pos f) count > i_bsize i);
     let n = (if over then sub32 (i_bsize i) (fd_pos f) else count);
     if over \<and> n = 0 then Some (- 1, [], s)
     else do {
       let (io_buf, s) = fs_malloc s;
       if io_buf = 0 then Some (- 1, [], s)
       else do {
         let (all_block, s) = fs_malloc s;
         if all_block = 0 then Some (- 1, [], s)
         else do {
           let start_idx = fd_pos f div 512;
           let end_idx = add32 (fd_pos f) n div 512;
           _ \<leftarrow> ensure (start_idx < 139 \<and> end_idx < 139);
           ab \<leftarrow> blocks_to_read s i start_idx end_idx;
           bs \<leftarrow> read_loop n s ab (fd_pos f) n;
           s \<leftarrow> upd_file k (\<lambda>f. f\<lparr>fd_pos := add32 (fd_pos f) n\<rparr>) s;
           Some (int n, bs, s)
         }
       }
     }
   }"

section \<open>The content of a file\<close>

definition file_blocks :: "fs \<Rightarrow> inode \<Rightarrow> nat list" where
  "file_blocks s i = take 12 (i_sectors i)
     @ (if i_sectors i ! 12 \<noteq> 0 then words_of (hd_sectors s (i_sectors i ! 12)) else replicate 128 0)"

definition file_content :: "fs \<Rightarrow> inode \<Rightarrow> byte list" where
  "file_content s i = take (i_bsize i) (concat (map (hd_sectors s) (file_blocks s i)))"

text \<open>A file whose blocks, the one after the last byte included, are in place.\<close>

definition file_ok :: "fs \<Rightarrow> inode \<Rightarrow> bool" where
  "file_ok s i \<longleftrightarrow> disk_ok s \<and> length (i_sectors i) = 13 \<and> i_bsize i < 139 * 512
     \<and> (\<forall>b \<in> set (file_blocks s i). b \<le> max_lba) \<and> i_sectors i ! 12 \<le> max_lba
     \<and> (12 \<le> i_bsize i div 512 \<longrightarrow> i_sectors i ! 12 \<noteq> 0)"

lemma length_file_blocks [simp]: "length (i_sectors i) = 13 \<Longrightarrow> length (file_blocks s i) = 140"
  by (simp add: file_blocks_def words_of_def)

lemma drop_concat_sectors:
  "\<forall>b. length (h b) = 512 \<Longrightarrow> t \<le> length bs \<Longrightarrow>
    drop (t * 512) (concat (map h bs)) = concat (map h (drop t bs))"
proof (induction t arbitrary: bs)
  case (Suc t)
  then obtain b bs' where b: "bs = b # bs'" by (cases bs) auto
  have "drop (Suc t * 512) (h b @ concat (map h bs')) = drop (t * 512) (concat (map h bs'))"
    using Suc.prems(1) by simp
  then show ?case using Suc b by simp
qed simp

lemma length_concat_sectors:
  "\<forall>b. length (h b) = 512 \<Longrightarrow> length (concat (map h bs)) = 512 * length bs"
  by (induction bs) auto

lemma sub_bytes_concat:
  assumes "\<forall>b. length (h b) = 512" and "t < length bs" and "off + c \<le> 512"
  shows "sub_bytes (t * 512 + off) c (concat (map h bs)) = sub_bytes off c (h (bs ! t))"
proof -
  have "drop (t * 512 + off) (concat (map h bs)) = drop off (concat (map h (drop t bs)))"
    using drop_concat_sectors [OF assms(1), of t bs] assms(2)
    by (metis add.commute drop_drop less_imp_le_nat)
  also have "drop t bs = bs ! t # drop (Suc t) bs" using assms(2) by (simp add: Cons_nth_drop_Suc)
  finally have d: "drop (t * 512 + off) (concat (map h bs)) =
      drop off (h (bs ! t) @ concat (map h (drop (Suc t) bs)))" by simp
  have "c \<le> length (h (bs ! t)) - off" using assms(1,3) by (simp add: le_diff_conv2)
  then show ?thesis using assms(1,3) by (simp add: sub_bytes_def d)
qed

lemma sub_bytes_split: "sub_bytes p (m + n) xs = sub_bytes p m xs @ sub_bytes (p + m) n xs"
  by (simp add: sub_bytes_def take_add drop_drop add.commute)

lemma sub_bytes_take: "p + n \<le> m \<Longrightarrow> sub_bytes p n (take m xs) = sub_bytes p n xs"
  by (simp add: sub_bytes_def take_drop min_def)

section \<open>Reading returns a slice\<close>

lemma read_chunk_runs:
  assumes "disk_ok s" and "pos div 512 < length ab" and "ab ! (pos div 512) \<le> max_lba" and "0 < n"
  shows "\<exists>c. 0 < c \<and> c \<le> n \<and> pos mod 512 + c \<le> 512
    \<and> (c < n \<longrightarrow> pos mod 512 + c = 512)
    \<and> read_chunk s ab pos n = Some (sub_bytes (pos mod 512) c (hd_sectors s (ab ! (pos div 512))))"
proof -
  let ?c = "if n < 512 - pos mod 512 then n else 512 - pos mod 512"
  have "read_chunk s ab pos n = Some (sub_bytes (pos mod 512) ?c (hd_sectors s (ab ! (pos div 512))))"
    using ide_read_one [OF assms(1,3), of "replicate 512 0"] assms(2) by (simp add: read_chunk_def Let_def)
  moreover have "pos mod 512 < 512" by simp
  ultimately show ?thesis using assms(4) by (intro exI [of _ ?c]) auto
qed

lemma read_loop_runs:
  assumes "disk_ok s" and "length bs \<le> length ab"
    and "\<forall>t. pos div 512 \<le> t \<and> t * 512 < pos + n \<longrightarrow> t < length bs \<and> ab ! t = bs ! t \<and> ab ! t \<le> max_lba"
    and "n \<le> fuel" and "pos + n < 4294967296"
  shows "read_loop fuel s ab pos n = Some (sub_bytes pos n (concat (map (hd_sectors s) bs)))"
  using assms(3-5)
proof (induction fuel arbitrary: pos n)
  case 0
  then show ?case by (simp add: sub_bytes_def)
next
  case (Suc fuel)
  show ?case
  proof (cases "n = 0")
    case True
    then show ?thesis by (simp add: sub_bytes_def)
  next
    case False
    have h: "\<forall>b. length (hd_sectors s b) = 512" using assms(1) by (simp add: disk_ok_def)
    let ?t = "pos div 512" and ?o = "pos mod 512"
    have "?t * 512 < pos + n" using False by (simp add: less_eq_div_iff_mult_less_eq)
    then have t: "?t < length bs" "ab ! ?t = bs ! ?t" "ab ! ?t \<le> max_lba" using Suc.prems(1) by auto
    then obtain c where c: "0 < c" "c \<le> n" "?o + c \<le> 512" "c < n \<longrightarrow> ?o + c = 512"
        "read_chunk s ab pos n = Some (sub_bytes ?o c (hd_sectors s (bs ! ?t)))"
      using read_chunk_runs [OF assms(1) _ t(3), of n] False assms(2) by auto
    have "sub_bytes (?t * 512 + ?o) c (concat (map (hd_sectors s) bs)) = sub_bytes ?o c (hd_sectors s (bs ! ?t))"
      by (rule sub_bytes_concat [OF h t(1) c(3)])
    then have sl: "sub_bytes pos c (concat (map (hd_sectors s) bs)) = sub_bytes ?o c (hd_sectors s (bs ! ?t))"
      by (simp add: div_mult_mod_eq)
    have len: "length (sub_bytes ?o c (hd_sectors s (bs ! ?t))) = c" using h c(3) by simp
    have "read_loop fuel s ab (pos + c) (n - c) =
        Some (sub_bytes (pos + c) (n - c) (concat (map (hd_sectors s) bs)))"
    proof (rule Suc.IH)
      show "\<forall>t. (pos + c) div 512 \<le> t \<and> t * 512 < pos + c + (n - c) \<longrightarrow>
          t < length bs \<and> ab ! t = bs ! t \<and> ab ! t \<le> max_lba"
      proof (intro allI impI)
        fix t assume a: "(pos + c) div 512 \<le> t \<and> t * 512 < pos + c + (n - c)"
        have "pos div 512 \<le> (pos + c) div 512" by (simp add: div_le_mono)
        then have "pos div 512 \<le> t \<and> t * 512 < pos + n" using a c(2) by simp
        then show "t < length bs \<and> ab ! t = bs ! t \<and> ab ! t \<le> max_lba"
          using Suc.prems(1) by blast
      qed
    qed (use c Suc.prems in auto)
    then show ?thesis
      using False c Suc.prems(3) len sl sub_bytes_split [of pos c "n - c" "concat (map (hd_sectors s) bs)"]
      by (simp add: add32_small)
  qed
qed

lemma words_of_length [simp]: "length (words_of bs) = 128"
  by (simp add: words_of_def)

lemma nth_read_direct:
  assumes "m \<le> n" and "n \<le> length ab"
  shows "t < length ab \<Longrightarrow> read_direct i m n ab ! t =
    (if m \<le> t \<and> t < n then i_sectors i ! t else ab ! t)"
    and "length (read_direct i m n ab) = length ab"
  using assms by (auto simp: read_direct_def nth_append)

lemma blocks_to_read_runs:
  assumes "file_ok s i" and "start \<le> stop" and "stop \<le> i_bsize i div 512"
  shows "\<exists>ab. blocks_to_read s i start stop = Some ab \<and> length ab = 1024
    \<and> (\<forall>t. start \<le> t \<and> t \<le> stop \<longrightarrow> ab ! t = file_blocks s i ! t)"
proof -
  have o: "disk_ok s" "length (i_sectors i) = 13" "i_sectors i ! 12 \<le> max_lba" "stop < 139"
      "12 \<le> stop \<longrightarrow> i_sectors i ! 12 \<noteq> 0"
    using assms by (auto simp: file_ok_def)
  let ?t = "words_of (hd_sectors s (i_sectors i ! 12))"
  have rd: "ide_read s (i_sectors i ! 12) (replicate 512 0) (Suc 0) = Some (hd_sectors s (i_sectors i ! 12))"
    using ide_read_one [OF o(1,3), of "replicate 512 0"] by simp
  have dir: "file_blocks s i ! t = i_sectors i ! t" if "t < 12" for t
    using that o(2) by (simp add: file_blocks_def nth_append)
  have ind: "file_blocks s i ! t = ?t ! (t - 12)" if "12 \<le> t" "i_sectors i ! 12 \<noteq> 0" for t
    using that o(2) by (simp add: file_blocks_def nth_append)
  have ri: "read_indirect s i ab = Some (take 12 ab @ ?t @ drop 140 ab)" for ab
    using rd by (simp add: read_indirect_def)
  have rn: "(take 12 ab @ ?t @ drop 140 ab) ! t = (if t < 12 then ab ! t else ?t ! (t - 12))"
    if "length ab = 1024" "t < 140" for ab t using that by (auto simp: nth_append)
  consider "stop = start" "stop < 12" | "stop \<noteq> start" "stop < 12" | "start < 12" "12 \<le> stop"
    | "12 \<le> start" by linarith
  then show ?thesis
  proof cases
    case 1
    then show ?thesis using o dir by (auto simp: blocks_to_read_def)
  next
    case 2
    let ?ab = "read_direct i start (stop + 1) (replicate 1024 0)"
    have "blocks_to_read s i start stop = Some ?ab" using 2 by (simp add: blocks_to_read_def)
    moreover have "length ?ab = 1024" using assms(2) 2 by (simp add: nth_read_direct)
    moreover have "?ab ! t = file_blocks s i ! t" if "start \<le> t \<and> t \<le> stop" for t
      using that 2 assms(2) dir [of t] by (simp add: nth_read_direct)
    ultimately show ?thesis by blast
  next
    case 3
    let ?d = "read_direct i start 12 (replicate 1024 0)"
    have "blocks_to_read s i start stop = Some (take 12 ?d @ ?t @ drop 140 ?d)"
      using 3 o(5) ri by (simp add: blocks_to_read_def Let_def)
    moreover have "length ?d = 1024" using 3 by (simp add: nth_read_direct)
    moreover have "(take 12 ?d @ ?t @ drop 140 ?d) ! t = file_blocks s i ! t" if "start \<le> t \<and> t \<le> stop" for t
      using that 3 o(4,5) dir [of t] ind [of t] rn [of ?d t] by (auto simp: nth_read_direct)
    ultimately show ?thesis by (intro exI [of _ "take 12 ?d @ ?t @ drop 140 ?d"]) simp
  next
    case 4
    let ?d = "replicate 1024 0 :: nat list"
    have "blocks_to_read s i start stop = Some (take 12 ?d @ ?t @ drop 140 ?d)"
      using 4 assms(2) o(5) ri by (simp add: blocks_to_read_def Let_def)
    moreover have "(take 12 ?d @ ?t @ drop 140 ?d) ! t = file_blocks s i ! t" if "start \<le> t \<and> t \<le> stop" for t
      using that 4 o(4,5) ind [of t] rn [of ?d t] by auto
    ultimately show ?thesis by (intro exI [of _ "take 12 ?d @ ?t @ drop 140 ?d"]) simp
  qed
qed

lemma file_read_runs:
  assumes "k < length (file_table s)" and "file_table s ! k = f" and "inodes s (fd_inode f) = Some i"
    and "file_ok s i" and "fd_pos f \<le> i_bsize i" and "count < 2147483648"
    and "heap_ok s (next_addr s)" and "heap_ok s (next_addr s + 1)" and "0 < next_addr s"
    and "n = min count (i_bsize i - fd_pos f)" and "0 < n"
  shows "file_read k count s = Some (int n, sub_bytes (fd_pos f) n (file_content s i),
    s\<lparr>next_addr := next_addr s + 2, file_table := (file_table s)[k := f\<lparr>fd_pos := fd_pos f + n\<rparr>]\<rparr>)"
proof -
  let ?s = "s\<lparr>next_addr := Suc (Suc (next_addr s))\<rparr>"
  have b: "i_bsize i < 139 * 512" "length (i_sectors i) = 13" and d: "disk_ok s"
    using assms(4) by (auto simp: file_ok_def)
  have pn: "fd_pos f + n \<le> i_bsize i" using assms(5,10) by simp
  have same: "file_ok ?s i" "file_blocks ?s i = file_blocks s i" "disk_ok ?s"
    using assms(4) by (auto simp: file_ok_def disk_ok_def file_blocks_def)
  have idx: "fd_pos f div 512 \<le> (fd_pos f + n) div 512" "(fd_pos f + n) div 512 \<le> i_bsize i div 512"
    using pn by (auto simp: div_le_mono)
  then have lt: "fd_pos f div 512 < 139" "(fd_pos f + n) div 512 < 139"
    using b(1) less_mult_imp_div_less [of "i_bsize i" 139 512] by linarith+
  from blocks_to_read_runs [OF same(1) idx(1) idx(2)] obtain ab where
    ab: "blocks_to_read ?s i (fd_pos f div 512) ((fd_pos f + n) div 512) = Some ab" "length ab = 1024"
      "\<forall>t. fd_pos f div 512 \<le> t \<and> t \<le> (fd_pos f + n) div 512 \<longrightarrow> ab ! t = file_blocks s i ! t"
    unfolding same(2) by blast
  have "read_loop n ?s ab (fd_pos f) n = Some (sub_bytes (fd_pos f) n (concat (map (hd_sectors ?s) (file_blocks s i))))"
  proof (rule read_loop_runs [OF same(3)])
    show "\<forall>t. fd_pos f div 512 \<le> t \<and> t * 512 < fd_pos f + n \<longrightarrow>
        t < length (file_blocks s i) \<and> ab ! t = file_blocks s i ! t \<and> ab ! t \<le> max_lba"
    proof (intro allI impI)
      fix t assume a: "fd_pos f div 512 \<le> t \<and> t * 512 < fd_pos f + n"
      then have "t \<le> (fd_pos f + n) div 512" by (simp add: less_eq_div_iff_mult_less_eq)
      then have "t < 140" "ab ! t = file_blocks s i ! t" using a ab(3) lt by auto
      moreover from this have "file_blocks s i ! t \<in> set (file_blocks s i)" using b(2) by simp
      ultimately show "t < length (file_blocks s i) \<and> ab ! t = file_blocks s i ! t \<and> ab ! t \<le> max_lba"
        using assms(4) b(2) by (auto simp: file_ok_def)
    qed
  qed (use b ab(2) pn in auto)
  then have rl: "read_loop n ?s ab (fd_pos f) n = Some (sub_bytes (fd_pos f) n (file_content s i))"
    using pn by (simp add: file_content_def sub_bytes_take)
  have a: "add32 (fd_pos f) count = fd_pos f + count" "add32 (fd_pos f) n = fd_pos f + n"
    using assms(5,6) pn b(1) by (auto intro!: add32_small)
  have size: "(if fd_pos f + count > i_bsize i then sub32 (i_bsize i) (fd_pos f) else count) = n"
    using assms(5,10) b(1) by (auto simp: sub32_small)
  show ?thesis
    using assms(1-3,7-9,11) ab(1) rl lt a size
    by (simp add: file_read_def fs_malloc_def upd_file_def)
qed

section \<open>The write loop extends the content\<close>

text \<open>One sector of a file gets new bytes behind the ones it holds.\<close>

lemma take_concat_put:
  assumes "\<forall>b. length (h b) = 512" and "t < length bs" and "\<forall>t' < t. bs ! t' \<noteq> bs ! t"
    and "length sec = 512" and "off + c \<le> 512" and "take (off + c) sec = take off (h (bs ! t)) @ x"
  shows "take (t * 512 + off + c) (concat (map (h(bs ! t := sec)) bs)) =
    take (t * 512 + off) (concat (map h bs)) @ x"
proof -
  have bs: "bs = take t bs @ bs ! t # drop (Suc t) bs" using assms(2) by (rule id_take_nth_drop)
  have pre: "map (h(bs ! t := sec)) (take t bs) = map h (take t bs)"
    using assms(2,3) by (auto simp: in_set_conv_nth)
  let ?p = "concat (map h (take t bs))"
  have l: "length ?p = t * 512" using assms(1,2) by (simp add: length_concat_sectors)
  have new: "concat (map (h(bs ! t := sec)) bs) =
      ?p @ sec @ concat (map (h(bs ! t := sec)) (drop (Suc t) bs))"
    by (subst bs) (simp add: pre)
  have old: "concat (map h bs) = ?p @ h (bs ! t) @ concat (map h (drop (Suc t) bs))"
    by (subst bs) simp
  have "take (t * 512 + off + c) (concat (map (h(bs ! t := sec)) bs)) = ?p @ take (off + c) sec"
    unfolding new using l assms(4,5) by (simp add: add.assoc)
  moreover have "take (t * 512 + off) (concat (map h bs)) = ?p @ take off (h (bs ! t))"
    unfolding old using l assms(1,5) by simp
  ultimately show ?thesis using assms(6) by simp
qed

text \<open>What a write leaves as it was.\<close>

definition same_fs :: "nat \<Rightarrow> nat \<Rightarrow> fs \<Rightarrow> fs \<Rightarrow> bool" where
  "same_fs k a s s' \<longleftrightarrow> sb s' = sb s \<and> part_start_lba s' = part_start_lba s
     \<and> block_bitmap s' = block_bitmap s \<and> next_addr s' = next_addr s \<and> heap_ok s' = heap_ok s
     \<and> open_inodes s' = open_inodes s \<and> dirs s' = dirs s
     \<and> length (file_table s') = length (file_table s) \<and> kern s' = kern s \<and> pipes s' = pipes s
     \<and> fd_inode (file_table s' ! k) = fd_inode (file_table s ! k)
     \<and> fd_flag (file_table s' ! k) = fd_flag (file_table s ! k)"

lemma same_fs_trans: "same_fs k a s t \<Longrightarrow> same_fs k a t u \<Longrightarrow> same_fs k a s u"
  by (simp add: same_fs_def)

lemma write_chunk_runs:
  assumes "disk_ok s" and "inodes s a = Some i" and "k < length (file_table s)" and "src \<noteq> []"
    and "length ab = 140" and "i_bsize i + length src \<le> 140 * 512"
    and "ab ! (i_bsize i div 512) \<le> max_lba" and "is_first \<or> i_bsize i mod 512 = 0"
  shows "\<exists>c s' sec. write_chunk k a ab src is_first s = Some (c, s') \<and> 0 < c \<and> c \<le> length src
    \<and> i_bsize i mod 512 + c \<le> 512 \<and> (c < length src \<longrightarrow> i_bsize i mod 512 + c = 512)
    \<and> length sec = 512
    \<and> take (i_bsize i mod 512 + c) sec =
        take (i_bsize i mod 512) (hd_sectors s (ab ! (i_bsize i div 512))) @ take c src
    \<and> hd_sectors s' = (hd_sectors s)(ab ! (i_bsize i div 512) := sec)
    \<and> inodes s' = (inodes s)(a \<mapsto> i\<lparr>i_bsize := i_bsize i + c\<rparr>) \<and> same_fs k a s s'"
proof -
  let ?o = "i_bsize i mod 512" and ?t = "i_bsize i div 512"
  define c where "c = (if length src < 512 - ?o then length src else 512 - ?o)"
  let ?b = "ab ! ?t"
  have o: "?o < 512" by simp
  have c: "0 < c" "c \<le> length src" "?o + c \<le> 512" "c < length src \<longrightarrow> ?o + c = 512"
    using assms(4) o by (auto simp: c_def)
  have t: "?t < 140"
  proof -
    have "i_bsize i < 140 * 512" using assms(4,6) by (cases src) auto
    then show ?thesis using less_mult_imp_div_less by blast
  qed
  have l: "length (hd_sectors s ?b) = 512" using assms(1) by (simp add: disk_ok_def)
  define old where "old = (if is_first then hd_sectors s ?b else replicate 512 0)"
  have lo: "length old = 512" using l by (simp add: old_def)
  have rd: "(if is_first then ide_read s ?b (replicate 512 0) 1 else Some (replicate 512 0)) = Some old"
    using ide_read_one [OF assms(1,7), of "replicate 512 0"] by (simp add: old_def)
  define sec where "sec = put_bytes ?o (take c src) old"
  have ls: "length sec = 512" using lo c(2,3) by (simp add: sec_def length_put_bytes min_def)
  have "take ?o old = take ?o (hd_sectors s ?b)" using assms(8) by (auto simp: old_def)
  then have ts: "take (?o + c) sec = take ?o (hd_sectors s ?b) @ take c src"
    using lo c(2,3) by (simp add: sec_def take_put_bytes)
  have wr: "ide_write ?b sec 1 s = Some (s\<lparr>hd_sectors := (hd_sectors s)(?b := sec)\<rparr>)"
    using ide_write_one [OF assms(7), of sec s] ls by simp
  have a32: "add32 (i_bsize i) c = i_bsize i + c" using assms(6) c(2) by (intro add32_small) linarith
  define s' where "s' = s\<lparr>hd_sectors := (hd_sectors s)(?b := sec),
      inodes := (inodes s)(a \<mapsto> i\<lparr>i_bsize := i_bsize i + c\<rparr>),
      file_table := (file_table s)[k := (file_table s ! k)\<lparr>fd_pos := add32 (fd_pos (file_table s ! k)) c\<rparr>]\<rparr>"
  have run: "write_chunk k a ab src is_first s = Some (c, s')"
    using assms(2,3,5) t rd wr a32
    by (simp add: write_chunk_def Let_def upd_inode_def upd_file_def s'_def
        sec_def [symmetric] c_def [symmetric] del: One_nat_def)
  show ?thesis
  proof (intro exI conjI)
    show "write_chunk k a ab src is_first s = Some (c, s')" by (rule run)
  qed (use c ls ts assms(3) in \<open>simp_all add: s'_def same_fs_def\<close>)
qed

lemma write_loop_runs:
  assumes "disk_ok s" and "inodes s a = Some i" and "k < length (file_table s)"
    and "length ab = 140" and "length bs = 140" and "i_bsize i + length src \<le> 140 * 512"
    and "\<forall>t. i_bsize i div 512 \<le> t \<and> t * 512 < i_bsize i + length src \<longrightarrow>
        ab ! t = bs ! t \<and> ab ! t \<le> max_lba \<and> (\<forall>t' < t. bs ! t' \<noteq> bs ! t)"
    and "is_first \<or> i_bsize i mod 512 = 0"
  shows "\<exists>s'. write_loop k a ab src is_first s = Some s' \<and> disk_ok s'
    \<and> inodes s' = (inodes s)(a \<mapsto> i\<lparr>i_bsize := i_bsize i + length src\<rparr>)
    \<and> take (i_bsize i + length src) (concat (map (hd_sectors s') bs)) =
        take (i_bsize i) (concat (map (hd_sectors s) bs)) @ src
    \<and> (\<forall>b. b \<notin> set bs \<longrightarrow> hd_sectors s' b = hd_sectors s b) \<and> same_fs k a s s'"
  using assms(1-3,6-8)
proof (induction "length src" arbitrary: s i src is_first rule: less_induct)
  case less
  show ?case
  proof (cases "src = []")
    case True
    then have "(inodes s)(a \<mapsto> i\<lparr>i_bsize := i_bsize i + length src\<rparr>) = inodes s"
      using less.prems(2) by auto
    then show ?thesis using True less.prems(1) by (simp add: write_loop.simps same_fs_def)
  next
    case False
    let ?t = "i_bsize i div 512" and ?o = "i_bsize i mod 512"
    have h: "\<forall>b. length (hd_sectors s b) = 512" using less.prems(1) by (simp add: disk_ok_def)
    have "?t * 512 < i_bsize i + length src" using False by (cases src) (auto simp: less_eq_div_iff_mult_less_eq le_imp_less_Suc)
    then have t: "ab ! ?t = bs ! ?t" "ab ! ?t \<le> max_lba" "\<forall>t' < ?t. bs ! t' \<noteq> bs ! ?t"
      using less.prems(5) by auto
    have tl: "?t < length bs"
    proof -
      have "i_bsize i < 140 * 512" using False less.prems(4) by (cases src) auto
      then show ?thesis using assms(5) less_mult_imp_div_less by metis
    qed
    obtain c s1 sec where w: "write_chunk k a ab src is_first s = Some (c, s1)" "0 < c" "c \<le> length src"
        "?o + c \<le> 512" "c < length src \<longrightarrow> ?o + c = 512" "length sec = 512"
        "take (?o + c) sec = take ?o (hd_sectors s (bs ! ?t)) @ take c src"
        "hd_sectors s1 = (hd_sectors s)(bs ! ?t := sec)"
        "inodes s1 = (inodes s)(a \<mapsto> i\<lparr>i_bsize := i_bsize i + c\<rparr>)" "same_fs k a s s1"
      using write_chunk_runs [OF less.prems(1-3) False assms(4) less.prems(4) t(2) less.prems(6)]
      unfolding t(1) by blast
    let ?i = "i\<lparr>i_bsize := i_bsize i + c\<rparr>"
    have d1: "disk_ok s1" using less.prems(1) w(6,8) by (simp add: disk_ok_def)
    have pre: "take (i_bsize i + c) (concat (map (hd_sectors s1) bs)) =
        take (i_bsize i) (concat (map (hd_sectors s) bs)) @ take c src"
      using take_concat_put [OF h tl t(3) w(6,4,7)] unfolding w(8) by (simp add: div_mult_mod_eq)
    have rest: "\<forall>t. (i_bsize i + c) div 512 \<le> t \<and> t * 512 < i_bsize i + c + length (drop c src) \<longrightarrow>
        ab ! t = bs ! t \<and> ab ! t \<le> max_lba \<and> (\<forall>t' < t. bs ! t' \<noteq> bs ! t)"
    proof (intro allI impI)
      fix t assume a: "(i_bsize i + c) div 512 \<le> t \<and> t * 512 < i_bsize i + c + length (drop c src)"
      have "i_bsize i div 512 \<le> (i_bsize i + c) div 512" by (simp add: div_le_mono)
      then have "i_bsize i div 512 \<le> t \<and> t * 512 < i_bsize i + length src" using a w(3) by simp
      then show "ab ! t = bs ! t \<and> ab ! t \<le> max_lba \<and> (\<forall>t' < t. bs ! t' \<noteq> bs ! t)"
        using less.prems(5) by blast
    qed
    have al: "False \<or> (i_bsize i + c) mod 512 = 0" if "drop c src \<noteq> []"
    proof -
      have "?o + c = 512" using that w(3,5) by simp
      moreover have "(i_bsize i + c) mod 512 = (?o + c) mod 512" by (rule mod_add_left_eq [symmetric])
      ultimately show ?thesis by simp
    qed
    have "\<exists>s'. write_loop k a ab (drop c src) False s1 = Some s' \<and> disk_ok s'
      \<and> inodes s' = (inodes s1)(a \<mapsto> ?i\<lparr>i_bsize := i_bsize ?i + length (drop c src)\<rparr>)
      \<and> take (i_bsize ?i + length (drop c src)) (concat (map (hd_sectors s') bs)) =
          take (i_bsize ?i) (concat (map (hd_sectors s1) bs)) @ drop c src
      \<and> (\<forall>b. b \<notin> set bs \<longrightarrow> hd_sectors s' b = hd_sectors s1 b) \<and> same_fs k a s1 s'"
    proof (cases "drop c src = []")
      case True
      then have "(inodes s1)(a \<mapsto> ?i\<lparr>i_bsize := i_bsize ?i + length (drop c src)\<rparr>) = inodes s1"
        using w(9) by simp
      then show ?thesis using True d1 by (simp add: write_loop.simps same_fs_def)
    next
      case ne: False
      show ?thesis
        by (rule less.hyps) (use w d1 less.prems rest al [OF ne] in \<open>auto simp: same_fs_def\<close>)
    qed
    then obtain s' where s': "write_loop k a ab (drop c src) False s1 = Some s'" "disk_ok s'"
        "inodes s' = (inodes s1)(a \<mapsto> ?i\<lparr>i_bsize := i_bsize ?i + length (drop c src)\<rparr>)"
        "take (i_bsize ?i + length (drop c src)) (concat (map (hd_sectors s') bs)) =
          take (i_bsize ?i) (concat (map (hd_sectors s1) bs)) @ drop c src"
        "\<forall>b. b \<notin> set bs \<longrightarrow> hd_sectors s' b = hd_sectors s1 b" "same_fs k a s1 s'" by blast
    have "write_loop k a ab src is_first s = Some s'"
      using False w(1) s'(1) by (subst write_loop.simps) simp
    moreover have "take (i_bsize i + length src) (concat (map (hd_sectors s') bs)) =
        take (i_bsize i) (concat (map (hd_sectors s) bs)) @ src"
      using s'(4) pre w(3) by simp
    moreover have "inodes s' = (inodes s)(a \<mapsto> i\<lparr>i_bsize := i_bsize i + length src\<rparr>)"
      using s'(3) w(3,9) by simp
    moreover have "\<forall>b. b \<notin> set bs \<longrightarrow> hd_sectors s' b = hd_sectors s b"
      using s'(5) w(8) tl by auto
    ultimately show ?thesis using s'(2) same_fs_trans [OF w(10) s'(6)] by blast
  qed
qed

lemma content_cong:
  assumes "\<forall>b \<in> set bs. h' b = h b"
  shows "concat (map h' bs) = concat (map h bs)"
  using assms by (induction bs) auto

lemma disk_ok_frame [simp]: "disk_ok (s\<lparr>next_addr := n\<rparr>) = disk_ok s"
  "disk_ok (s\<lparr>file_table := t\<rparr>) = disk_ok s"
  by (simp_all add: disk_ok_def)

section \<open>Properties\<close>

text \<open>The example with the file open for reading and writing, at entry 3 and descriptor 3.\<close>

definition sample_open :: fs where
  "sample_open = sample_fs\<lparr>inodes := (inodes sample_fs)(51 \<mapsto> sample_file\<lparr>i_open_cnts := 1\<rparr>),
     open_inodes := [51, 50],
     file_table := (file_table sample_fs)[3 := \<lparr>fd_pos = 0, fd_flag = O_RW, fd_inode = 51\<rparr>],
     kern := sample_kst\<lparr>tasks := (tasks sample_kst)(4096 \<mapsto>
       (sample_task TASK_RUNNING)\<lparr>fd_table := [0, 1, 2, 3, - 1, - 1, - 1, - 1]\<rparr>)\<rparr>\<rparr>"

abbreviation (input) sample_open_file :: inode where
  "sample_open_file \<equiv> sample_file\<lparr>i_open_cnts := 1\<rparr>"

lemma sample_open_simps:
  "inodes sample_open 51 = Some sample_open_file" "length (file_table sample_open) = 32"
  "file_table sample_open ! 3 = \<lparr>fd_pos = 0, fd_flag = O_RW, fd_inode = 51\<rparr>"
  "heap_ok sample_open = (\<lambda>a. True)" "next_addr sample_open = 100"
  "hd_sectors sample_open = sample_sectors"
  by (simp_all add: sample_open_def sample_fs_def)

lemma sample_file_blocks: "file_blocks sample_open sample_open_file = 614 # replicate 139 0"
proof -
  have "replicate 139 (0 :: nat) = replicate 11 0 @ replicate 128 0"
    by (simp only: replicate_add [symmetric]) simp
  then show ?thesis by (simp add: file_blocks_def sample_file_def take_Cons')
qed

lemma sample_file_ok: "file_ok sample_open sample_open_file"
proof -
  have "disk_ok sample_open" using sample_disk_ok by (simp add: disk_ok_def sample_open_simps sample_fs_def)
  then show ?thesis unfolding file_ok_def sample_file_blocks by (simp add: sample_file_def max_lba_def)
qed

lemma sample_file_content: "file_content sample_open sample_open_file = [1, 2, 3, 4, 5]"
  unfolding file_content_def sample_file_blocks
  by (simp add: sample_open_simps sample_sectors_def sample_file_def)

text \<open>C3: \<open>file_read\<close> returns the bytes of the file from the current position on, as many as were
  asked for or as there are, and moves the position behind them.\<close>

theorem file_read_slice:
  assumes "k < length (file_table s)" and "file_table s ! k = f" and "inodes s (fd_inode f) = Some i"
    and "file_ok s i" and "fd_pos f \<le> i_bsize i" and "count < 2147483648"
    and "heap_ok s (next_addr s)" and "heap_ok s (next_addr s + 1)" and "0 < next_addr s"
    and "n = min count (i_bsize i - fd_pos f)" and "0 < n"
  shows "file_read k count s = Some (int n, sub_bytes (fd_pos f) n (file_content s i),
    s\<lparr>next_addr := next_addr s + 2, file_table := (file_table s)[k := f\<lparr>fd_pos := fd_pos f + n\<rparr>]\<rparr>)"
  using assms by (rule file_read_runs)

theorem file_read_slice_witness: "\<exists>s'. file_read 3 3 sample_open = Some (3, [1, 2, 3], s')"
  using file_read_slice [OF _ _ _ sample_file_ok, of 3 "\<lparr>fd_pos = 0, fd_flag = O_RW, fd_inode = 51\<rparr>" 3 3]
  unfolding sample_file_content
  by (simp add: sample_open_simps) (simp add: sample_file_def sub_bytes_def)

end
