(* ===== verification/Path.thy ===== *)
theory Path
  imports Prelude Dir
begin

text \<open>
  Path names (\<open>path_parse\<close>, \<open>path_depth_cnt\<close>, \<open>search_file\<close> of \<open>fs/fs.c\<close>). A path is the list
  of its characters, without the terminating zero. \<open>components\<close> is the list of names a path
  denotes; the lemmas show that \<open>path_depth_cnt\<close> counts them, that joining names and parsing
  them again gives the same names, and how \<open>search_file\<close> walks down them.
\<close>

section \<open>The functions\<close>

type_synonym path = "byte list"

abbreviation (input) slash :: byte where "slash \<equiv> 47"

text \<open>The rest of the path (\<open>None\<close> is the null pointer) and the name that was stored.\<close>

definition path_parse :: "path \<Rightarrow> path option \<times> byte list" where
  "path_parse pathname =
     (if pathname = [] then (None, [])
      else
        let p = (if hd pathname = slash then dropWhile (\<lambda>c. c = slash) pathname else pathname)
        in (Some (dropWhile (\<lambda>c. c \<noteq> slash) p), takeWhile (\<lambda>c. c \<noteq> slash) p))"

text \<open>The caller's name buffer has room for 16 bytes; \<open>name_fits\<close> is the absence of an overflow.\<close>

definition name_fits :: "byte list \<Rightarrow> bool" where
  "name_fits name \<longleftrightarrow> length name < MAX_FILE_NAME_LEN"

lemma length_path_parse:
  assumes "path_parse p = (Some r, n)"
  shows "length r < length p"
proof (cases p)
  case Nil
  then show ?thesis using assms by (simp add: path_parse_def)
next
  case (Cons c cs)
  show ?thesis
  proof (cases "c = slash")
    case True
    then have "r = dropWhile (\<lambda>c. c \<noteq> slash) (dropWhile (\<lambda>c. c = slash) cs)"
      using assms Cons by (simp add: path_parse_def Let_def)
    then show ?thesis
      using length_dropWhile_le [of "\<lambda>c. c \<noteq> slash" "dropWhile (\<lambda>c. c = slash) cs"]
        length_dropWhile_le [of "\<lambda>c. c = slash" cs] Cons by simp
  next
    case False
    then have "r = dropWhile (\<lambda>c. c \<noteq> slash) cs" using assms Cons by (simp add: path_parse_def)
    then show ?thesis using length_dropWhile_le [of "\<lambda>c. c \<noteq> slash" cs] Cons by simp
  qed
qed

text \<open>The loop of \<open>path_depth_cnt\<close> after the first parse.\<close>

function depth_loop :: "path option \<Rightarrow> byte list \<Rightarrow> nat \<Rightarrow> nat option" where
  "depth_loop p name depth =
     (if \<not> name_fits name then None
      else if name = [] then Some depth
      else case p of
        None \<Rightarrow> None
      | Some r \<Rightarrow> depth_loop (fst (path_parse r)) (snd (path_parse r)) (add32 depth 1))"
  by pat_completeness auto
termination
proof (relation "measure (\<lambda>(p, name, _). case p of None \<Rightarrow> 0 | Some r \<Rightarrow> Suc (length r))", simp)
  fix p :: "path option" and name :: "byte list" and depth r
  assume "\<not> \<not> name_fits name" "name \<noteq> []" "p = Some r"
  then show "((fst (path_parse r), snd (path_parse r), add32 depth 1), p, name, depth)
      \<in> measure (\<lambda>(p, name, _). case p of None \<Rightarrow> 0 | Some r \<Rightarrow> Suc (length r))"
    by (cases "path_parse r"; cases "fst (path_parse r)") (auto dest: length_path_parse)
qed

declare depth_loop.simps [simp del]

definition path_depth_cnt :: "path \<Rightarrow> nat option" where
  "path_depth_cnt pathname = depth_loop (fst (path_parse pathname)) (snd (path_parse pathname)) 0"

text \<open>\<open>searched_path\<close> is a string in a buffer of 512 bytes.\<close>

record path_seach_record =
  searched_path :: path
  parent_dir :: nat
  file_type :: nat

text \<open>
  The loop of \<open>search_file\<close>. \<open>dir_e\<close> is the entry found last (\<open>None\<close>: not initialised). The
  result is the inode number, or -1, with the record filled in.
\<close>

function search_loop ::
  "path option \<Rightarrow> byte list \<Rightarrow> nat \<Rightarrow> dir_entry option \<Rightarrow> path_seach_record \<Rightarrow> fs \<Rightarrow>
    (int \<times> path_seach_record \<times> fs) option" where
  "search_loop sub_path name parent_inode_no dir_e rec s =
     (if \<not> name_fits name then None
      else if name = [] then do {
        s \<leftarrow> dir_close (parent_dir rec) s;
        (pd, s) \<leftarrow> dir_open parent_inode_no s;
        d \<leftarrow> dir_e;
        Some (int (de_i_no d), rec\<lparr>parent_dir := pd, file_type := FT_DIRECTORY\<rparr>, s)
      } else do {
        let sp = searched_path rec @ slash # name;
        _ \<leftarrow> ensure (length sp < MAX_PATH_LEN);
        let rec = rec\<lparr>searched_path := sp\<rparr>;
        (found, s) \<leftarrow> search_dir_entry (parent_dir rec) name
          (case dir_e of None \<Rightarrow> zero_dir_entry | Some d \<Rightarrow> d) s;
        case found of
          None \<Rightarrow> Some (- 1, rec, s)
        | Some d \<Rightarrow> do {
            let (sub_path', name') = (case sub_path of None \<Rightarrow> (None, []) | Some r \<Rightarrow> path_parse r);
            if f_type d = FT_DIRECTORY then do {
              pi \<leftarrow> dir_inode_of (parent_dir rec) s;
              s \<leftarrow> dir_close (parent_dir rec) s;
              (pd, s) \<leftarrow> dir_open (de_i_no d) s;
              search_loop sub_path' name' (i_no pi) (Some d) (rec\<lparr>parent_dir := pd\<rparr>) s
            } else if f_type d = FT_REGULAR then
              Some (int (de_i_no d), rec\<lparr>file_type := FT_REGULAR\<rparr>, s)
            else search_loop sub_path' name' parent_inode_no (Some d) rec s
          }
      })"
  by pat_completeness auto
termination
proof -
  let ?R = "measure (\<lambda>(p, name, _). case p of
      None \<Rightarrow> (if name = [] then 0 else 1) | Some r \<Rightarrow> 2 * length r + (if name = [] then 2 else 3))"
  have dec: "((p', n', x), p, name, y) \<in> ?R"
    if "(p', n') = (case p of None \<Rightarrow> (None, []) | Some r \<Rightarrow> path_parse r)" "name \<noteq> []"
    for p' n' x p name y
  proof (cases p)
    case None
    then show ?thesis using that by simp
  next
    case (Some r)
    show ?thesis
    proof (cases p')
      case None
      then have "n' = []" using that Some by (auto simp: path_parse_def Let_def split: if_splits)
      then show ?thesis using None Some by simp
    next
      case (Some r')
      then have "length r' < length r" using that \<open>p = Some r\<close> length_path_parse [of r r' n'] by simp
      then show ?thesis using Some \<open>p = Some r\<close> by simp
    qed
  qed
  show ?thesis
    by (relation ?R) (simp, (rule dec; simp)+)
qed

declare search_loop.simps [simp del]

definition is_root_name :: "path \<Rightarrow> bool" where
  "is_root_name p \<longleftrightarrow> p = [slash] \<or> p = [slash, 46] \<or> p = [slash, 46, 46]"

definition search_file :: "path \<Rightarrow> path_seach_record \<Rightarrow> fs \<Rightarrow> (int \<times> path_seach_record \<times> fs) option" where
  "search_file pathname rec s = do {
     let rec = (if is_root_name pathname
       then rec\<lparr>file_type := FT_DIRECTORY, parent_dir := ROOT_DIR, searched_path := []\<rparr> else rec);
     let path_len = length pathname;
     _ \<leftarrow> ensure (1 \<le> path_len \<and> path_len \<le> MAX_PATH_LEN \<and> hd pathname = slash);
     let rec = rec\<lparr>file_type := FT_UNKNOW, parent_dir := ROOT_DIR\<rparr>;
     let (sub_path, name) = path_parse pathname;
     search_loop sub_path name 0 None rec s
   }"

section \<open>The names of a path\<close>

fun split_slash :: "path \<Rightarrow> byte list list" where
  "split_slash [] = [[]]"
| "split_slash (c # p) =
     (if c = slash then [] # split_slash p else (c # hd (split_slash p)) # tl (split_slash p))"

definition components :: "path \<Rightarrow> byte list list" where
  "components p = filter (\<lambda>n. n \<noteq> []) (split_slash p)"

lemma split_slash_append:
  "slash \<notin> set xs \<Longrightarrow> split_slash (xs @ slash # ys) = xs # split_slash ys"
  by (induction xs) auto

lemma split_slash_name: "slash \<notin> set xs \<Longrightarrow> split_slash xs = [xs]"
  by (induction xs) auto

lemma components_slash [simp]: "components (slash # p) = components p"
  by (simp add: components_def)

lemma components_skip: "components (dropWhile (\<lambda>c. c = slash) p) = components p"
  by (induction p) auto

lemma components_name:
  assumes "slash \<notin> set n" and "r = [] \<or> hd r = slash"
  shows "components (n @ r) = (if n = [] then [] else [n]) @ components r"
proof (cases r)
  case Nil
  then show ?thesis using split_slash_name [OF assms(1)] by (simp add: components_def)
next
  case (Cons c cs)
  then have "r = slash # cs" using assms(2) by simp
  then show ?thesis using split_slash_append [OF assms(1)] by (simp add: components_def)
qed

text \<open>\<open>path_parse\<close> takes the first name off.\<close>

lemma path_parse_components:
  assumes "path_parse p = (sub, n)"
  shows "components p = (if n = [] then [] else n # components (the sub))"
    and "n \<noteq> [] \<Longrightarrow> sub \<noteq> None" and "n = [] \<Longrightarrow> components p = []"
proof -
  have "components p = (if n = [] then [] else n # components (the sub)) \<and> (n \<noteq> [] \<longrightarrow> sub \<noteq> None)"
  proof (cases "p = []")
    case True
    then show ?thesis using assms by (simp add: path_parse_def components_def)
  next
    case False
    define q where "q = (if hd p = slash then dropWhile (\<lambda>c. c = slash) p else p)"
    have pq: "components p = components q" by (simp add: q_def components_skip)
    have sn: "sub = Some (dropWhile (\<lambda>c. c \<noteq> slash) q)" "n = takeWhile (\<lambda>c. c \<noteq> slash) q"
      using assms False by (auto simp: path_parse_def Let_def q_def split: if_splits)
    have hq: "q = [] \<or> hd q \<noteq> slash"
      using hd_dropWhile [of "\<lambda>c. c = slash" p] by (auto simp: q_def)
    let ?r = "dropWhile (\<lambda>c. c \<noteq> slash) q"
    have "slash \<notin> set n" using sn(2) by (auto dest: set_takeWhileD)
    moreover have "?r = [] \<or> hd ?r = slash" using hd_dropWhile [of "\<lambda>c. c \<noteq> slash" q] by auto
    ultimately have "components (n @ ?r) = (if n = [] then [] else [n]) @ components ?r"
      by (rule components_name)
    moreover have "n @ ?r = q" using sn(2) by simp
    moreover have "components ?r = []" if "n = []"
    proof -
      have "q = []" using that sn(2) hq by (cases q) auto
      then show ?thesis by (simp add: components_def)
    qed
    ultimately show ?thesis using pq sn(1) by auto
  qed
  then show "components p = (if n = [] then [] else n # components (the sub))"
    and "n \<noteq> [] \<Longrightarrow> sub \<noteq> None" and "n = [] \<Longrightarrow> components p = []" by auto
qed

text \<open>Names as they occur in directories.\<close>

definition names_fit :: "path \<Rightarrow> bool" where
  "names_fit p \<longleftrightarrow> (\<forall>n \<in> set (components p). name_fits n)"

lemma depth_loop_runs:
  "names_fit r \<Longrightarrow> name_fits name \<Longrightarrow> name \<noteq> [] \<Longrightarrow> d + 1 + length (components r) < 4294967296 \<Longrightarrow>
    depth_loop (Some r) name d = Some (d + 1 + length (components r))"
proof (induction "length r" arbitrary: r name d rule: less_induct)
  case less
  obtain sub n where pp: "path_parse r = (sub, n)" by (cases "path_parse r")
  have u: "depth_loop (Some r) name d = depth_loop sub n (add32 d 1)"
    using less.prems(2,3) pp by (subst depth_loop.simps) simp
  show ?case
  proof (cases "n = []")
    case True
    then have "components r = []" using path_parse_components(3) [OF pp] by simp
    then show ?thesis unfolding u using True less.prems(4)
      by (simp add: depth_loop.simps name_fits_def MAX_FILE_NAME_LEN_def add32_small)
  next
    case False
    then obtain r' where r': "sub = Some r'" using path_parse_components(2) [OF pp] by auto
    have c: "components r = n # components r'" using path_parse_components(1) [OF pp] False r' by simp
    have "depth_loop (Some r') n (d + 1) = Some (d + 1 + 1 + length (components r'))"
      using less.prems c False length_path_parse pp r'
      by (intro less.hyps) (auto simp: names_fit_def)
    then show ?thesis unfolding u r' using less.prems(4) c by (simp add: add32_small)
  qed
qed

lemma path_depth_cnt_runs:
  assumes "names_fit p" and "length p < 4294967295"
  shows "path_depth_cnt p = Some (length (components p))"
proof -
  obtain sub n where pp: "path_parse p = (sub, n)" by (cases "path_parse p")
  have len: "length (components q) \<le> length q + 1" for q
  proof -
    have "length (split_slash q) \<le> length q + 1" by (induction q) auto
    then show ?thesis using length_filter_le [of "\<lambda>n. n \<noteq> []" "split_slash q"]
      unfolding components_def by linarith
  qed
  show ?thesis
  proof (cases "n = []")
    case True
    then show ?thesis using path_parse_components(3) [OF pp] pp
      by (simp add: path_depth_cnt_def depth_loop.simps name_fits_def MAX_FILE_NAME_LEN_def)
  next
    case False
    then obtain r where r: "sub = Some r" using path_parse_components(2) [OF pp] by auto
    have c: "components p = n # components r" using path_parse_components(1) [OF pp] False r by simp
    then show ?thesis
      using depth_loop_runs [of r n 0] assms False len [of p] pp r
      by (simp add: path_depth_cnt_def names_fit_def)
  qed
qed

text \<open>Names joined with slashes are taken apart again.\<close>

definition join_path :: "byte list list \<Rightarrow> path" where
  "join_path ns = concat (map (\<lambda>n. slash # n) ns)"

lemma components_join:
  "\<forall>n \<in> set ns. n \<noteq> [] \<and> slash \<notin> set n \<Longrightarrow> components (join_path ns) = ns"
proof (induction ns)
  case (Cons n ns)
  have "join_path ns = [] \<or> hd (join_path ns) = slash" by (cases ns) (auto simp: join_path_def)
  then have "components (n @ join_path ns) = [n] @ components (join_path ns)"
    using components_name [of n "join_path ns"] Cons.prems by simp
  then show ?case using Cons by (simp add: join_path_def)
qed (simp add: join_path_def components_def)

section \<open>Looking up a name in the root directory\<close>

lemma path_parse_one:
  assumes "n \<noteq> []" and "slash \<notin> set n"
  shows "path_parse (slash # n) = (Some [], n)"
proof -
  have "dropWhile (\<lambda>c. c = slash) (slash # n) = n" using assms by (cases n) auto
  moreover have "takeWhile (\<lambda>c. c \<noteq> slash) n = n" "dropWhile (\<lambda>c. c \<noteq> slash) n = []"
    using assms(2) by (auto simp: takeWhile_eq_all_conv dropWhile_eq_Nil_conv)
  ultimately show ?thesis by (simp add: path_parse_def Let_def)
qed

lemma search_file_root_runs:
  assumes "dir_ok s ROOT_DIR" and "dir_inode_of ROOT_DIR s = Some i"
    and "heap_ok s (next_addr s)" and "heap_ok s (next_addr s + 1)" and "0 < next_addr s"
    and "n \<noteq> []" and "slash \<notin> set n" and "name_fits n" and "searched_path rec = []"
    and "\<forall>d \<in> set (dir_list s i). dname d = n \<longrightarrow> f_type d = FT_REGULAR"
  shows "search_file (slash # n) rec s =
    Some (case find (\<lambda>d. dname d = n) (dir_list s i) of
        Some d \<Rightarrow> (int (de_i_no d), \<lparr>searched_path = slash # n, parent_dir = ROOT_DIR, file_type = FT_REGULAR\<rparr>,
          s\<lparr>next_addr := next_addr s + 2\<rparr>)
      | None \<Rightarrow> (- 1, \<lparr>searched_path = slash # n, parent_dir = ROOT_DIR, file_type = FT_UNKNOW\<rparr>,
          s\<lparr>next_addr := next_addr s + 2\<rparr>))"
proof -
  let ?rec = "\<lparr>searched_path = [], parent_dir = ROOT_DIR, file_type = FT_UNKNOW\<rparr>"
  have l: "length n < 16" using assms(8) by (simp add: name_fits_def MAX_FILE_NAME_LEN_def)
  have "(if is_root_name (slash # n) then rec\<lparr>file_type := FT_DIRECTORY, parent_dir := ROOT_DIR, searched_path := []\<rparr>
      else rec)\<lparr>file_type := FT_UNKNOW, parent_dir := ROOT_DIR\<rparr> = ?rec"
    using assms(9) by (cases rec) auto
  then have st: "search_file (slash # n) rec s = search_loop (Some []) n 0 None ?rec s"
    using path_parse_one [OF assms(6,7)] l by (simp add: search_file_def MAX_PATH_LEN_def Let_def)
  have z: "de_ok zero_dir_entry" by (simp add: de_ok_def zero_dir_entry_def)
  note se = search_dir_entry_runs [OF assms(1,2) z assms(3-5), of n]
  show ?thesis
  proof (cases "find (\<lambda>d. dname d = n) (dir_list s i)")
    case None
    then show ?thesis unfolding st using se assms(6,8) l
      by (subst search_loop.simps) (simp add: MAX_PATH_LEN_def)
  next
    case (Some d)
    then have "f_type d = FT_REGULAR" using assms(10) by (auto simp: find_Some_iff)
    then show ?thesis unfolding st using se assms(6,8) l Some
      by (subst search_loop.simps) (simp add: MAX_PATH_LEN_def path_parse_def)
  qed
qed

section \<open>Properties\<close>

text \<open>Names joined with slashes are the components of the path, and \<open>path_depth_cnt\<close> is their
  number.\<close>

theorem path_depth_counts:
  assumes "\<forall>n \<in> set ns. n \<noteq> [] \<and> slash \<notin> set n \<and> name_fits n" and "length (join_path ns) < 4294967295"
  shows "components (join_path ns) = ns \<and> path_depth_cnt (join_path ns) = Some (length ns)"
proof -
  have c: "components (join_path ns) = ns" using assms(1) by (intro components_join) blast
  then have "names_fit (join_path ns)" using assms(1) by (simp add: names_fit_def)
  with c assms(2) show ?thesis by (simp add: path_depth_cnt_runs)
qed

theorem path_depth_counts_witness: "path_depth_cnt [47, 97, 47, 98, 99] = Some 2"
  using path_depth_counts [of "[[97], [98, 99]]"]
  by (simp add: join_path_def name_fits_def MAX_FILE_NAME_LEN_def)

end
