(* ===== verification/Pipe.thy ===== *)
theory Pipe
  imports Prelude FileTable IoQueue
begin

text \<open>
  Pipes (\<open>shell/pipe.c\<close>): an entry of the file table whose \<open>fd_flag\<close> is \<open>PIPE_FLAG\<close>, whose
  \<open>fd_inode\<close> is the address of a ring buffer and whose \<open>fd_pos\<close> counts its descriptors.

  A transfer that would put the calling thread to sleep is \<open>None\<close> here: the loops of
  \<open>pipe_read\<close> and \<open>pipe_write\<close> are \<open>recv_n\<close> and \<open>send_all\<close> of theory \<open>IoQueue\<close>, over the ring
  and the scheduler state.
\<close>

section \<open>The functions\<close>

definition is_pipe :: "nat \<Rightarrow> fs \<Rightarrow> bool option" where
  "is_pipe local_fd s = do {
     global_fd \<leftarrow> fd_idx2global_ftable_idx local_fd s;
     f \<leftarrow> rd_at (file_table s) global_fd;
     Some (fd_flag f = PIPE_FLAG)
   }"

text \<open>The new page holds a ring whose 64 bytes are zero.\<close>

definition fresh_ring :: ioqueue where
  "fresh_ring = ioqueue_init \<lparr>io_lock = lock_init, producer = 0, consumer = 0,
     buffer = replicate 64 0, head = 0, tail = 0\<rparr>"

definition sys_pipe :: "fs \<Rightarrow> ((int \<times> int) \<times> fs) option" where
  "sys_pipe s = do {
     global_fd \<leftarrow> get_free_slot_in_file_table s;
     let (page, s) = fs_malloc s;
     _ \<leftarrow> ensure (page \<noteq> 0);
     let s = s\<lparr>pipes := (pipes s)(page \<mapsto> fresh_ring)\<rparr>;
     s \<leftarrow> upd_file global_fd (\<lambda>f. \<lparr>fd_pos = 2, fd_flag = PIPE_FLAG, fd_inode = page\<rparr>) s;
     (fd0, s) \<leftarrow> pcb_fd_install (int global_fd) s;
     (fd1, s) \<leftarrow> pcb_fd_install (int global_fd) s;
     Some ((fd0, fd1), s)
   }"

text \<open>The ring behind a descriptor.\<close>

definition pipe_of :: "nat \<Rightarrow> fs \<Rightarrow> (nat \<times> ioqueue) option" where
  "pipe_of fd s = do {
     global_fd \<leftarrow> fd_idx2global_ftable_idx fd s;
     f \<leftarrow> rd_at (file_table s) global_fd;
     q \<leftarrow> pipes s (fd_inode f);
     Some (fd_inode f, q)
   }"

definition pipe_read :: "nat \<Rightarrow> nat \<Rightarrow> fs \<Rightarrow> (int \<times> byte list \<times> fs) option" where
  "pipe_read fd count s = do {
     (page, q) \<leftarrow> pipe_of fd s;
     let ioq_len = ioq_length q;
     let n = (if ioq_len > count then count else ioq_len);
     (bs, q, k) \<leftarrow> recv_n io_get n (q, kern s);
     let s = s\<lparr>pipes := (pipes s)(page \<mapsto> q), kern := k\<rparr>;
     Some (if n = 0 then - 1 else int n, bs, s)
   }"

definition pipe_write :: "nat \<Rightarrow> byte list \<Rightarrow> fs \<Rightarrow> (int \<times> fs) option" where
  "pipe_write fd buf s = do {
     (page, q) \<leftarrow> pipe_of fd s;
     let ioq_left = sub32 buffer_size (ioq_length q);
     let n = (if ioq_left > length buf then length buf else ioq_left);
     (q, k) \<leftarrow> send_all io_put (take n buf) (q, kern s);
     Some (int n, s\<lparr>pipes := (pipes s)(page \<mapsto> q), kern := k\<rparr>)
   }"

definition sys_fd_redirect :: "nat \<Rightarrow> nat \<Rightarrow> fs \<Rightarrow> fs option" where
  "sys_fd_redirect old_local_fd new_local_fd s = do {
     cur \<leftarrow> cur_task s;
     _ \<leftarrow> ensure (old_local_fd < length (fd_table cur));
     if new_local_fd < 3
     then upd_cur (\<lambda>t. t\<lparr>fd_table := (fd_table t)[old_local_fd := int new_local_fd]\<rparr>) s
     else do {
       g \<leftarrow> rd_at (fd_table cur) new_local_fd;
       upd_cur (\<lambda>t. t\<lparr>fd_table := (fd_table t)[old_local_fd := g]\<rparr>) s
     }
   }"

section \<open>Transfers\<close>

text \<open>
  A read takes what there is, up to \<open>count\<close> bytes, and never waits; an empty pipe gives -1.
\<close>

lemma pipe_read_runs:
  assumes "pipe_of fd s = Some (page, q)" and "io_usable (q, kern s)"
    and "n = min count (length (ioq_seq q))"
  shows "\<exists>q' k'. pipe_read fd count s = Some (if n = 0 then - 1 else int n, take n (ioq_seq q),
      s\<lparr>pipes := (pipes s)(page \<mapsto> q'), kern := k'\<rparr>)
    \<and> ioq_seq q' = drop n (ioq_seq q) \<and> io_usable (q', k')"
proof -
  have n: "(if ioq_length q > count then count else ioq_length q) = n" using assms(3) by simp
  have "n \<le> length (ioq_seq q)" using assms(3) by simp
  with ring.recv_available [OF assms(2), of n] obtain q' k'
    where "recv_n io_get n (q, kern s) = Some (take n (ioq_seq q), q', k')" "io_usable (q', k')"
      "ioq_seq q' = drop n (ioq_seq q)" by auto
  then show ?thesis using assms(1) n by (auto simp: pipe_read_def)
qed

text \<open>A write that fits into the 63 usable places is appended at once.\<close>

lemma ioq_left: "ioq_wf q \<Longrightarrow> sub32 buffer_size (ioq_length q) = 64 - ioq_length q"
  using ioq_length_bound [of q] by (simp add: sub32_small buffer_size_def)

lemma pipe_write_runs:
  assumes "pipe_of fd s = Some (page, q)" and "io_usable (q, kern s)"
    and "length (ioq_seq q) + length buf \<le> 63"
  shows "\<exists>q' k'. pipe_write fd buf s = Some (int (length buf),
      s\<lparr>pipes := (pipes s)(page \<mapsto> q'), kern := k'\<rparr>)
    \<and> ioq_seq q' = ioq_seq q @ buf \<and> io_usable (q', k')"
proof -
  have "ioq_wf q" using assms(2) by (simp add: io_usable_def)
  then have "sub32 buffer_size (ioq_length q) = 64 - ioq_length q" by (rule ioq_left)
  moreover from ring.send_fits [OF assms(2), of buf] assms(3) obtain q' k'
    where "send_all io_put buf (q, kern s) = Some (q', k')" "io_usable (q', k')"
      "ioq_seq q' = ioq_seq q @ buf" by auto
  ultimately show ?thesis using assms(1,3) by (auto simp: pipe_write_def Let_def)
qed

text \<open>
  The limit leaves room for 64 bytes, one more than the ring takes: a longer write fills the
  ring and then waits for a reader.
\<close>

lemma send_all_append:
  "send_all put (xs @ ys) x = Option.bind (send_all put xs x) (send_all put ys)"
  by (induction xs arbitrary: x) (auto intro: option.exhaust [of "put _ _"] split: bind_splits)

lemma io_put_full:
  assumes "ioq_wf q" and "ioq_length q = 63"
  shows "io_put b (q, k) = None"
proof -
  have "ioq_full q" using ioq_full_iff [OF assms(1)] assms(2) by simp
  then show ?thesis
    by (auto simp: io_put_def ioq_putchar_def ioq_putchar_loop_def split: bind_splits option.splits)
qed

lemma pipe_write_waits:
  assumes "pipe_of fd s = Some (page, q)" and "io_usable (q, kern s)"
    and "63 < length (ioq_seq q) + length buf"
  shows "pipe_write fd buf s = None"
proof -
  let ?m = "63 - ioq_length q"
  have wf: "ioq_wf q" using assms(2) by (simp add: io_usable_def)
  then have l: "ioq_length q \<le> 63" by (rule ioq_length_bound)
  have e: "64 - ioq_length q = ?m + 1" using l by arith
  have lb: "?m + 1 \<le> length buf" using assms(3) l by simp
  have n: "(if sub32 buffer_size (ioq_length q) > length buf then length buf
      else sub32 buffer_size (ioq_length q)) = ?m + 1"
    unfolding ioq_left [OF wf] e using lb by simp
  from lb have split: "take (?m + 1) buf = take ?m buf @ [buf ! ?m]" by (simp add: take_Suc_conv_app_nth)
  have "length (ioq_seq q) + length (take ?m buf) \<le> 63" using l lb by simp
  from ring.send_fits [OF assms(2), of "take ?m buf"] this obtain q' k'
    where q': "send_all io_put (take ?m buf) (q, kern s) = Some (q', k')" "io_usable (q', k')"
      "ioq_seq q' = ioq_seq q @ take ?m buf" by auto
  have "ioq_length q' = 63" using q'(3) l lb ioq_length_seq [of q'] by simp
  then have "io_put (buf ! ?m) (q', k') = None"
    using io_put_full q'(2) by (simp add: io_usable_def)
  then have "send_all io_put (take (?m + 1) buf) (q, kern s) = None"
    unfolding split send_all_append using q'(1) by simp
  then show ?thesis using assms(1) n by (simp add: pipe_write_def Let_def)
qed

text \<open>What was written is what is read.\<close>

lemma pipe_of_written:
  "pipe_of fd s = Some (page, q) \<Longrightarrow> fd_idx2global_ftable_idx fd (s\<lparr>pipes := p, kern := k\<rparr>)
      = fd_idx2global_ftable_idx fd s \<Longrightarrow>
    pipe_of fd (s\<lparr>pipes := (pipes s)(page \<mapsto> q'), kern := k\<rparr>) = Some (page, q')"
  by (auto simp: pipe_of_def runs_iff fd_idx2global_ftable_idx_def cur_task_def)

section \<open>Properties\<close>

text \<open>A write to a pipe that brings it above 63 bytes does not return before a reader runs,
  although it is limited to the free space that \<open>pipe_write\<close> computes.\<close>

theorem pipe_write_may_wait:
  assumes "pipe_of fd s = Some (page, q)" and "io_usable (q, kern s)"
    and "63 < length (ioq_seq q) + length buf"
  shows "pipe_write fd buf s = None"
  using assms by (rule pipe_write_waits)

definition sample_piped :: fs where
  "sample_piped = sample_fs\<lparr>pipes := [60 \<mapsto> fresh_ring],
     file_table := (file_table sample_fs)[2 := \<lparr>fd_pos = 2, fd_flag = PIPE_FLAG, fd_inode = 60\<rparr>]\<rparr>"

theorem pipe_write_may_wait_witness: "pipe_write 2 (replicate 64 7) sample_piped = None"
proof -
  have "pipe_of 2 sample_piped = Some (60, fresh_ring)"
    by (simp add: pipe_of_def fd_idx2global_ftable_idx_def cur_task_def get_running_thread_pcb_def
        sample_piped_def sample_fs_def sample_kst_def sample_task_def MAX_FILE_OPEN_def)
  moreover have "io_usable (fresh_ring, kern sample_piped)"
    by (simp add: io_usable_def fresh_ring_def ioqueue_init_def ioq_wf_def buffer_size_def wakeable_def)
  ultimately show ?thesis using pipe_write_may_wait [of 2 sample_piped 60 fresh_ring "replicate 64 7"] by simp
qed

end
