(* ===== verification/FileWrite.thy ===== *)
theory FileWrite
  imports Prelude FileIO
begin

text \<open>
  Writing to the end of a file (\<open>file_write\<close> of \<open>fs/fs.c\<close>), with the blocks that the write has to
  allocate: the first block of an empty file, direct blocks, the table of the indirect blocks and the
  blocks in it. \<open>file_sound\<close> says which blocks a file has after any number of writes and that they
  are its own; \<open>file_write_appends\<close> shows that a write keeps this and extends the content by the
  bytes that were written.
\<close>

section \<open>The blocks of a file\<close>

text \<open>Blocks 0 to \<open>m\<close> are there, all different, marked in the bitmap, and not the table's block.\<close>

definition blocks_sound :: "fs \<Rightarrow> inode \<Rightarrow> nat \<Rightarrow> bool" where
  "blocks_sound s i m \<longleftrightarrow> length (i_sectors i) = 13
     \<and> (\<forall>t < 140. file_blocks s i ! t \<noteq> 0 \<longleftrightarrow> t \<le> m)
     \<and> (\<forall>t < 140. t \<le> m \<longrightarrow> used_block s (file_blocks s i ! t) \<and> file_blocks s i ! t \<noteq> i_sectors i ! 12
          \<and> (\<forall>u < 140. file_blocks s i ! u = file_blocks s i ! t \<longrightarrow> u = t))
     \<and> (i_sectors i ! 12 \<noteq> 0 \<longleftrightarrow> 12 \<le> m) \<and> (12 \<le> m \<longrightarrow> used_block s (i_sectors i ! 12))"

text \<open>A file has the block after its last byte too, unless nothing was ever written to it.\<close>

definition file_sound :: "fs \<Rightarrow> inode \<Rightarrow> bool" where
  "file_sound s i \<longleftrightarrow> (if i_bsize i = 0 \<and> i_sectors i ! 0 = 0 then i_sectors i = replicate 13 0
     else blocks_sound s i (i_bsize i div 512))"

lemma blocks_soundD:
  assumes "blocks_sound s i m"
  shows "length (i_sectors i) = 13"
    and "t < 140 \<Longrightarrow> file_blocks s i ! t \<noteq> 0 \<longleftrightarrow> t \<le> m"
    and "t < 140 \<Longrightarrow> t \<le> m \<Longrightarrow> used_block s (file_blocks s i ! t)"
    and "t < 140 \<Longrightarrow> t \<le> m \<Longrightarrow> file_blocks s i ! t \<noteq> i_sectors i ! 12"
    and "t < 140 \<Longrightarrow> t \<le> m \<Longrightarrow> u < 140 \<Longrightarrow> file_blocks s i ! u = file_blocks s i ! t \<Longrightarrow> u = t"
    and "i_sectors i ! 12 \<noteq> 0 \<longleftrightarrow> 12 \<le> m" and "12 \<le> m \<Longrightarrow> used_block s (i_sectors i ! 12)"
  using assms unfolding blocks_sound_def by blast+

lemma nth_file_blocks:
  assumes "length (i_sectors i) = 13" and "t < 140"
  shows "file_blocks s i ! t = (if t < 12 then i_sectors i ! t
    else if i_sectors i ! 12 \<noteq> 0 then words_of (hd_sectors s (i_sectors i ! 12)) ! (t - 12) else 0)"
  using assms by (simp add: file_blocks_def nth_append)

lemma blocks_sound_file_ok:
  assumes "layout_ok s" and "blocks_sound s i m" and "i_bsize i div 512 \<le> m" and "i_bsize i < 139 * 512"
  shows "file_ok s i"
proof -
  note b = blocks_soundD [OF assms(2)]
  have "file_blocks s i ! t \<le> max_lba" if "t < 140" for t
    using b(2) [OF that] b(3) [OF that] used_block_data by (cases "t \<le> m") auto
  then have "\<forall>x \<in> set (file_blocks s i). x \<le> max_lba"
    using b(1) by (auto simp: in_set_conv_nth)
  moreover have "i_sectors i ! 12 \<le> max_lba" using b(6,7) used_block_data by (cases "12 \<le> m") auto
  moreover have "12 \<le> i_bsize i div 512 \<longrightarrow> i_sectors i ! 12 \<noteq> 0" using b(6) assms(3) by auto
  ultimately show ?thesis using assms(1,4) b(1) by (simp add: file_ok_def layout_ok_def)
qed

text \<open>Addresses of memory and the file table do not matter to the blocks.\<close>

lemma sound_frame [simp]:
  "file_blocks (s\<lparr>next_addr := x\<rparr>) = file_blocks s" "file_blocks (s\<lparr>file_table := ft\<rparr>) = file_blocks s"
  "used_block (s\<lparr>next_addr := x\<rparr>) = used_block s" "used_block (s\<lparr>file_table := ft\<rparr>) = used_block s"
  "free_blocks (s\<lparr>next_addr := x\<rparr>) = free_blocks s" "free_blocks (s\<lparr>file_table := ft\<rparr>) = free_blocks s"
  "layout_ok (s\<lparr>next_addr := x\<rparr>) = layout_ok s" "layout_ok (s\<lparr>file_table := ft\<rparr>) = layout_ok s"
  by (simp_all add: fun_eq_iff file_blocks_def used_block_def free_blocks_def layout_ok_def disk_ok_def)

lemma sound_frames [simp]:
  "blocks_sound (s\<lparr>next_addr := x\<rparr>) = blocks_sound s" "blocks_sound (s\<lparr>file_table := ft\<rparr>) = blocks_sound s"
  "file_sound (s\<lparr>next_addr := x\<rparr>) = file_sound s" "file_sound (s\<lparr>file_table := ft\<rparr>) = file_sound s"
  "file_content (s\<lparr>next_addr := x\<rparr>) = file_content s" "file_content (s\<lparr>file_table := ft\<rparr>) = file_content s"
  by (simp_all add: fun_eq_iff blocks_sound_def file_sound_def file_content_def)

lemma content_prefix:
  assumes "\<forall>b. length (h b) = 512" and "\<forall>b. length (h' b) = (512 :: nat)" and "length bs' = length bs"
    and "\<forall>t < length bs. t * 512 < n \<longrightarrow> h' (bs' ! t) = h (bs ! t)"
  shows "take n (concat (map h' bs')) = take n (concat (map h bs))"
  using assms(3,4)
proof (induction bs arbitrary: bs' n)
  case (Cons b bs)
  then obtain b' cs where bs': "bs' = b' # cs" by (cases bs') auto
  show ?case
  proof (cases "n = 0")
    case False
    then have "h' b' = h b" using Cons.prems(2) bs' by auto
    moreover have "\<forall>t < length bs. t * 512 < n - 512 \<longrightarrow> h' (cs ! t) = h (bs ! t)"
    proof (intro allI impI)
      fix t assume "t < length bs" "t * 512 < n - 512"
      then show "h' (cs ! t) = h (bs ! t)" using Cons.prems(2) [rule_format, of "Suc t"] bs' by simp
    qed
    then have "take (n - 512) (concat (map h' cs)) = take (n - 512) (concat (map h bs))"
      using Cons.IH Cons.prems(1) bs' by simp
    ultimately show ?thesis using assms(1) bs' by simp
  qed simp
qed simp

section \<open>Allocating blocks\<close>

lemma alloc_blocks_runs:
  assumes "layout_ok s" and "inodes s a = Some i" and "length (i_sectors i) = 13" and "length ab = 140"
    and "u \<le> w" and "w \<le> 140" and "\<forall>t. u \<le> t \<and> t < w \<and> t < 12 \<longrightarrow> i_sectors i ! t = 0"
    and "w - u \<le> card (free_blocks s)" and "\<forall>n < w - u. heap_ok s (next_addr s + n)" and "0 < next_addr s"
  shows "\<exists>ab' s' sec. alloc_blocks a ab [u..<w] s = Some (Some ab', s') \<and> length ab' = 140 \<and> length sec = 13
    \<and> grown s (map ((!) ab') [u..<w]) s' \<and> inodes s' = (inodes s)(a \<mapsto> i\<lparr>i_sectors := sec\<rparr>)
    \<and> (\<forall>t < 140. \<not> (u \<le> t \<and> t < w) \<longrightarrow> ab' ! t = ab ! t)
    \<and> (\<forall>t < 13. sec ! t = (if u \<le> t \<and> t < w \<and> t < 12 then ab' ! t else i_sectors i ! t))"
  using assms
proof (induction "w - u" arbitrary: u s i ab)
  case 0
  then have "u = w" by simp
  moreover have "(inodes s)(a \<mapsto> i\<lparr>i_sectors := i_sectors i\<rparr>) = inodes s" using "0.prems"(2) by auto
  ultimately show ?case using grown_refl [OF "0.prems"(1)] "0.prems"(3,4)
    by (intro exI [of _ ab] exI [of _ s] exI [of _ "i_sectors i"]) simp
next
  case (Suc n)
  then have uw: "u < w" "[u..<w] = u # [Suc u..<w]" by (simp_all add: upt_conv_Cons)
  have ne: "free_blocks s \<noteq> {}" using Suc.prems(8) uw(1) by auto
  have hp: "heap_ok s (next_addr s)" using Suc.prems(9) [rule_format, of 0] uw(1) by simp
  obtain b s1 s2 where b: "block_bitmap_alloc s = Some (int b, s1)" "b \<noteq> 0" "inodes s1 = inodes s"
      "sb s1 = sb s" "bitmap_sync (b - data_start_lba (sb s)) BLOCK_BITMAP s1 = Some s2" "grown s [b] s2"
      "inodes s2 = inodes s"
      "\<forall>f. bitmap_sync (b - data_start_lba (sb s)) BLOCK_BITMAP (s1\<lparr>inodes := f\<rparr>) = Some (s2\<lparr>inodes := f\<rparr>)"
    using new_block_runs [OF Suc.prems(1) ne hp Suc.prems(10)] by (elim exE conjE) (rule that)
  define j where "j = (if u < 12 then i\<lparr>i_sectors := (i_sectors i)[u := b]\<rparr> else i)"
  define t where "t = s2\<lparr>inodes := (inodes s)(a \<mapsto> j)\<rparr>"
  have step: "alloc_blocks a ab [u..<w] s = alloc_blocks a (ab[u := b]) [Suc u..<w] t"
  proof (cases "u < 12")
    case True
    then show ?thesis using b Suc.prems(2,7) uw(1)
      by (simp add: uw(2) upd_inode_def t_def j_def)
  next
    case False
    have "(inodes s)(a \<mapsto> i) = inodes s2" using b(7) Suc.prems(2) by auto
    then have "t = s2" using False by (simp add: t_def j_def)
    then show ?thesis using False b Suc.prems(2) by (simp add: uw(2))
  qed
  have g: "grown s [b] t" using b(6) by (simp add: t_def)
  have lj: "length (i_sectors j) = 13" using Suc.prems(3) by (simp add: j_def)
  have sec_j: "i_sectors j ! x = (if x = u \<and> u < 12 then b else i_sectors i ! x)" if "x < 13" for x
    using that Suc.prems(3) by (auto simp: j_def nth_list_update)
  have "card (free_blocks t) + 1 = card (free_blocks s)" using g by (simp add: grown_def)
  then have "w - Suc u \<le> card (free_blocks t)" using Suc.prems(8) by linarith
  moreover have "heap_ok t (next_addr t + k)" if "k < w - Suc u" for k
    using Suc.prems(9) [rule_format, of "Suc k"] that grownD(8,9) [OF g] by simp
  ultimately have "\<exists>ab' s' sec. alloc_blocks a (ab[u := b]) [Suc u..<w] t = Some (Some ab', s') \<and> length ab' = 140
    \<and> length sec = 13 \<and> grown t (map ((!) ab') [Suc u..<w]) s' \<and> inodes s' = (inodes t)(a \<mapsto> j\<lparr>i_sectors := sec\<rparr>)
    \<and> (\<forall>x < 140. \<not> (Suc u \<le> x \<and> x < w) \<longrightarrow> ab' ! x = ab[u := b] ! x)
    \<and> (\<forall>x < 13. sec ! x = (if Suc u \<le> x \<and> x < w \<and> x < 12 then ab' ! x else i_sectors j ! x))"
    using Suc.hyps(2) Suc.prems(4,6,7) uw(1) g lj sec_j grownD(1,8) [OF g]
    by (intro Suc.hyps(1)) (auto simp: t_def)
  then obtain ab' s' sec where r: "alloc_blocks a (ab[u := b]) [Suc u..<w] t = Some (Some ab', s')" "length ab' = 140"
      "length sec = 13" "grown t (map ((!) ab') [Suc u..<w]) s'" "inodes s' = (inodes t)(a \<mapsto> j\<lparr>i_sectors := sec\<rparr>)"
      "\<forall>x < 140. \<not> (Suc u \<le> x \<and> x < w) \<longrightarrow> ab' ! x = ab[u := b] ! x"
      "\<forall>x < 13. sec ! x = (if Suc u \<le> x \<and> x < w \<and> x < 12 then ab' ! x else i_sectors j ! x)"
    by (elim exE conjE) (rule that)
  have at: "ab' ! u = b" using r(6) uw(1) Suc.prems(4,6) by simp
  have "grown s (map ((!) ab') [u..<w]) s'" using grown_trans [OF g r(4)] at by (simp add: uw(2))
  moreover have "inodes s' = (inodes s)(a \<mapsto> i\<lparr>i_sectors := sec\<rparr>)" using r(5) by (simp add: t_def j_def)
  moreover have "\<forall>x < 140. \<not> (u \<le> x \<and> x < w) \<longrightarrow> ab' ! x = ab ! x" using r(6) uw(1) by (auto simp: nth_list_update)
  moreover have "\<forall>x < 13. sec ! x = (if u \<le> x \<and> x < w \<and> x < 12 then ab' ! x else i_sectors i ! x)"
    using r(7) sec_j at uw(1) by (auto simp: le_less Suc_le_eq)
  ultimately show ?case using r(1-3) step by (intro exI [of _ ab'] exI [of _ s'] exI [of _ sec]) simp
qed

section \<open>Extending the blocks of a file\<close>

definition fs_frame :: "fs \<Rightarrow> fs \<Rightarrow> bool" where
  "fs_frame s s' \<longleftrightarrow> sb s' = sb s \<and> part_start_lba s' = part_start_lba s \<and> heap_ok s' = heap_ok s
     \<and> file_table s' = file_table s \<and> dirs s' = dirs s \<and> open_inodes s' = open_inodes s
     \<and> kern s' = kern s \<and> pipes s' = pipes s \<and> inode_bitmap s' = inode_bitmap s"

lemma fs_frame_trans: "fs_frame s t \<Longrightarrow> fs_frame t u \<Longrightarrow> fs_frame s u"
  by (simp add: fs_frame_def)

lemma grown_frame: "grown s ns s' \<Longrightarrow> fs_frame s s'"
  by (simp add: grown_def fs_frame_def)

text \<open>The file has now blocks 0 to \<open>m\<close>; those it had are where they were, with their data.\<close>

definition extended :: "fs \<Rightarrow> inode \<Rightarrow> nat \<Rightarrow> fs \<Rightarrow> inode \<Rightarrow> bool" where
  "extended s i m s' i' \<longleftrightarrow> layout_ok s' \<and> blocks_sound s' i' m \<and> fs_frame s s'
     \<and> (\<forall>t < 140. t \<le> i_bsize i div 512 \<longrightarrow> file_blocks s' i' ! t = file_blocks s i ! t
          \<and> hd_sectors s' (file_blocks s i ! t) = hd_sectors s (file_blocks s i ! t))
     \<and> (\<forall>b < data_start_lba (sb s). b \<noteq> block_bitmap_lba (sb s) \<longrightarrow> hd_sectors s' b = hd_sectors s b)"

lemma extended_refl: "layout_ok s \<Longrightarrow> blocks_sound s i m \<Longrightarrow> extended s i m s i"
  by (simp add: extended_def fs_frame_def)

lemma nth_table:
  assumes "length ab = 140" and "\<forall>x < 140. 12 \<le> x \<longrightarrow> ab ! x \<le> max_lba" and "12 \<le> t" and "t < 140"
  shows "words_of (bytes_of_words (drop 12 ab)) ! (t - 12) = ab ! t"
proof -
  have "\<forall>w \<in> set (drop 12 ab). w < 4294967296"
  proof
    fix w assume "w \<in> set (drop 12 ab)"
    then obtain k where "k < 128" "w = ab ! (12 + k)" using assms(1) by (auto simp: in_set_conv_nth)
    then show "w < 4294967296" using assms(2) [rule_format, of "12 + k"] by (simp add: max_lba_def)
  qed
  then have "words_of (bytes_of_words (drop 12 ab)) = drop 12 ab" using assms(1) by (intro words_of_bytes) simp_all
  then show ?thesis using assms(1,3,4) by simp
qed

text \<open>
  The last step of an extension: \<open>T\<close> is the block of the table, new (\<open>ts\<close>) when the file gets its
  first indirect block, and the table is written when there is one.
\<close>

lemma alloc_extends:
  assumes "blocks_sound s i n" and "n < m" and "m < 140" and "i_bsize i div 512 = n"
    and "grown s ts t" and "ts = (if n < 12 \<and> 12 \<le> m then [T] else [])"
    and "n < 12 \<and> 12 \<le> m \<or> T = i_sectors i ! 12" and "j = i\<lparr>i_sectors := (i_sectors i)[12 := T]\<rparr>"
    and "length ab = 140" and "ab ! n = file_blocks s i ! n" and "\<forall>x < 140. 12 \<le> x \<longrightarrow> ab ! x = file_blocks s i ! x"
    and "length ab' = 140" and "length sec = 13" and "grown t (map ((!) ab') [Suc n..<Suc m]) s1"
    and "\<forall>x < 140. \<not> (Suc n \<le> x \<and> x < Suc m) \<longrightarrow> ab' ! x = ab ! x"
    and "\<forall>x < 13. sec ! x = (if Suc n \<le> x \<and> x < Suc m \<and> x < 12 then ab' ! x else i_sectors j ! x)"
    and "s' = (if 12 \<le> m then s1\<lparr>hd_sectors := (hd_sectors s1)(T := bytes_of_words (drop 12 ab'))\<rparr> else s1)"
  shows "extended s i m s' (j\<lparr>i_sectors := sec\<rparr>)"
    and "\<forall>x. n \<le> x \<and> x \<le> m \<longrightarrow> ab' ! x = file_blocks s' (j\<lparr>i_sectors := sec\<rparr>) ! x"
proof -
  let ?i = "j\<lparr>i_sectors := sec\<rparr>" and ?ns = "map ((!) ab') [Suc n..<Suc m]"
  note bs = blocks_soundD [OF assms(1)]
  note G = grown_trans [OF assms(5,14)]
  note g = grownD [OF G]
  have ns: "ab' ! x \<in> set ?ns" if "n < x" "x \<le> m" for x using that by (auto simp del: upt_Suc)
  have inj: "x = y" if "n < x" "x \<le> m" "n < y" "y \<le> m" "ab' ! x = ab' ! y" for x y
  proof -
    have "inj_on ((!) ab') (set [Suc n..<Suc m])" using g(2) by (simp add: distinct_map del: upt_Suc)
    then show ?thesis using that by (auto dest: inj_onD simp del: upt_Suc)
  qed
  have new: "ab' ! x \<noteq> 0" "used_block s1 (ab' ! x)" "\<not> used_block s (ab' ! x)" "ab' ! x \<le> max_lba"
    if "n < x" "x \<le> m" for x
    using g(3-5) ns [OF that] by auto
  have l13: "length (i_sectors i) = 13" by (rule bs(1))
  have T12: "sec ! 12 = T" using assms(16) l13 by (simp add: assms(8))
  have T: "T \<noteq> 0 \<and> used_block s1 T \<and> T \<notin> set ?ns \<and> (\<forall>x < 140. x \<le> n \<longrightarrow> file_blocks s i ! x \<noteq> T)" if m: "12 \<le> m"
  proof (cases "n < 12")
    case True
    then have ts: "ts = [T]" using assms(6) m by simp
    then have "T \<noteq> 0" "used_block s1 T" "\<not> used_block s T" using g(3-5) [of T] by auto
    moreover have "T \<notin> set ?ns" using g(2) unfolding ts by simp
    ultimately show ?thesis using bs(3) by blast
  next
    case False
    then have T: "T = i_sectors i ! 12" using assms(7) by simp
    have "used_block s T" "T \<noteq> 0" using bs(6,7) False by (simp_all add: T)
    then have "used_block s1 T" "T \<notin> set ?ns" using g(3,4) [of T] by auto
    then show ?thesis using bs(4) \<open>T \<noteq> 0\<close> by (auto simp: T)
  qed
  have T0: "T = 0" if "m < 12" using assms(2,7) that bs(6) by auto
  have old: "file_blocks s i ! x \<le> max_lba" if "x < 140" for x
    using bs(2,3) [OF that] used_block_data by (cases "x \<le> n") auto
  have ab'_le: "\<forall>x < 140. 12 \<le> x \<longrightarrow> ab' ! x \<le> max_lba"
  proof (intro allI impI)
    fix x :: nat assume x: "x < 140" "12 \<le> x"
    show "ab' ! x \<le> max_lba"
      using new(4) [of x] assms(11,15) old x by (cases "n < x \<and> x \<le> m") auto
  qed
  have B: "file_blocks s' ?i ! x = (if x \<le> n then file_blocks s i ! x else if x \<le> m then ab' ! x else 0)"
    if x: "x < 140" for x
  proof -
    have zero: "file_blocks s i ! x = 0" if "n < x" using bs(2) [OF x] that by auto
    have fb: "file_blocks s' ?i ! x = (if x < 12 then sec ! x else if sec ! 12 \<noteq> 0
        then words_of (hd_sectors s' (sec ! 12)) ! (x - 12) else 0)"
      using nth_file_blocks [of ?i x s'] assms(13) x by simp
    consider "x < 12" | "12 \<le> x" "m < 12" | "12 \<le> x" "12 \<le> m" by linarith
    then show ?thesis
    proof cases
      case 1
      then have "sec ! x = (if n < x \<and> x \<le> m then ab' ! x else i_sectors i ! x)"
        using assms(16) l13 by (auto simp: assms(8) Suc_le_eq less_Suc_eq_le)
      moreover have "file_blocks s i ! x = i_sectors i ! x" using 1 l13 by (simp add: nth_file_blocks)
      ultimately show ?thesis using 1 fb zero by auto
    next
      case 2
      then show ?thesis using fb T12 T0 assms(2) by simp
    next
      case 3
      then have "words_of (hd_sectors s' (sec ! 12)) ! (x - 12) = ab' ! x"
        using nth_table [OF assms(12) ab'_le _ x] by (simp add: T12 assms(17))
      then have "file_blocks s' ?i ! x = ab' ! x" using fb 3 T T12 by simp
      then show ?thesis using 3 x assms(11,15) zero by (cases "n < x \<and> x \<le> m") auto
    qed
  qed
  have us: "used_block s' = used_block s1" by (simp add: assms(17) fun_eq_iff used_block_def)
  have B0: "file_blocks s' ?i ! x \<noteq> 0 \<longleftrightarrow> x \<le> m" if "x < 140" for x
    using B [OF that] bs(2) [OF that] new(1) assms(2) by auto
  have uniq: "y = x" if x: "x < 140" "x \<le> m" and y: "y < 140" and e: "file_blocks s' ?i ! y = file_blocks s' ?i ! x" for x y
  proof -
    have "y \<le> m" using B0 [OF x(1)] B0 [OF y] x(2) e by simp
    then show ?thesis
      using e B [OF x(1)] B [OF y] bs(5) [of x y] bs(3) [OF x(1)] bs(3) [OF y] new(3) [of x] new(3) [of y]
        inj [of x y] x y
      by (cases "x \<le> n"; cases "y \<le> n") auto
  qed
  have sound: "blocks_sound s' ?i m"
    unfolding blocks_sound_def us
  proof (intro conjI allI impI)
    show "length (i_sectors ?i) = 13" using assms(13) by simp
    show "(file_blocks s' ?i ! x \<noteq> 0) = (x \<le> m)" if "x < 140" for x by (rule B0 [OF that])
    show "used_block s1 (file_blocks s' ?i ! x)" if "x < 140" "x \<le> m" for x
      using B [OF that(1)] bs(3) [OF that(1)] new(2) [of x] g(3) that by auto
    show "file_blocks s' ?i ! x \<noteq> i_sectors ?i ! 12" if x: "x < 140" "x \<le> m" for x
    proof (cases "12 \<le> m")
      case True
      then show ?thesis using B [OF x(1)] T ns [of x] x by (auto simp: T12)
    next
      case False
      then show ?thesis using B0 [OF x(1)] x T0 by (simp add: T12)
    qed
    show "y = x" if "x < 140" "x \<le> m" "y < 140" "file_blocks s' ?i ! y = file_blocks s' ?i ! x" for x y
      using uniq that by blast
    show "(i_sectors ?i ! 12 \<noteq> 0) = (12 \<le> m)" using T T0 by (cases "12 \<le> m") (auto simp: T12 not_le)
    show "used_block s1 (i_sectors ?i ! 12)" if "12 \<le> m" using T that by (simp add: T12)
  qed
  have lay: "layout_ok s'"
    using g(1) assms(12) by (auto simp: assms(17) layout_ok_def disk_ok_def)
  have frame: "fs_frame s s'" using grown_frame [OF G] by (simp add: assms(17) fs_frame_def)
  have keep: "hd_sectors s' b = hd_sectors s1 b" if "12 \<le> m \<longrightarrow> b \<noteq> T" for b
    using that by (simp add: assms(17))
  have "hd_sectors s' (file_blocks s i ! x) = hd_sectors s (file_blocks s i ! x)" if "x < 140" "x \<le> n" for x
    using keep [of "file_blocks s i ! x"] T g(7) [OF bs(3) [OF that]] that by auto
  moreover have "hd_sectors s' b = hd_sectors s b" if "b < data_start_lba (sb s)" "b \<noteq> block_bitmap_lba (sb s)" for b
  proof -
    have "12 \<le> m \<longrightarrow> b \<noteq> T" using T used_block_data [of s1 T] g(10) that(1) by auto
    moreover have "b \<notin> set (ts @ ?ns)" using g(5) [of b] that(1) by auto
    ultimately show ?thesis using keep [of b] g(6) [of b] that(2) by simp
  qed
  ultimately show "extended s i m s' ?i"
    using lay sound frame B assms(4) by (simp add: extended_def)
  have "ab' ! n = file_blocks s i ! n" using assms(2,3,10,15) by simp
  then show "\<forall>x. n \<le> x \<and> x \<le> m \<longrightarrow> ab' ! x = file_blocks s' ?i ! x"
    using B assms(3) by (auto simp: le_less)
qed

text \<open>The blocks for a write: in place, direct ones, the first indirect ones, and more of those.\<close>

definition blocks_for :: "fs \<Rightarrow> nat \<Rightarrow> inode \<Rightarrow> nat \<Rightarrow> nat \<Rightarrow> bool" where
  "blocks_for s a i n m \<longleftrightarrow> (\<exists>ab s' sec. write_blocks a (n + 1) (m + 1) s = Some (Some ab, s') \<and> length ab = 140
     \<and> inodes s' = (inodes s)(a \<mapsto> i\<lparr>i_sectors := sec\<rparr>) \<and> extended s i m s' (i\<lparr>i_sectors := sec\<rparr>)
     \<and> next_addr s \<le> next_addr s' \<and> next_addr s' \<le> next_addr s + (m - n + 1)
     \<and> (\<forall>x. n \<le> x \<and> x \<le> m \<longrightarrow> ab ! x = file_blocks s' (i\<lparr>i_sectors := sec\<rparr>) ! x))"

lemma table_read:
  assumes "layout_ok s" and "blocks_sound s i n" and "12 \<le> n"
  shows "ide_read s (i_sectors i ! 12) (replicate 512 0) 1 = Some (hd_sectors s (i_sectors i ! 12))"
    and "12 \<le> x \<Longrightarrow> x < 140 \<Longrightarrow> (take 12 (replicate 140 0) @ words_of (hd_sectors s (i_sectors i ! 12))) ! x = file_blocks s i ! x"
proof -
  note b = blocks_soundD [OF assms(2)]
  have "i_sectors i ! 12 \<le> max_lba" using b(7) [OF assms(3)] used_block_data by auto
  then show "ide_read s (i_sectors i ! 12) (replicate 512 0) 1 = Some (hd_sectors s (i_sectors i ! 12))"
    using assms(1) ide_read_one [of s "i_sectors i ! 12" "replicate 512 0"] by (simp add: layout_ok_def)
  show "12 \<le> x \<Longrightarrow> x < 140 \<Longrightarrow> (take 12 (replicate 140 0) @ words_of (hd_sectors s (i_sectors i ! 12))) ! x = file_blocks s i ! x"
    using b(1,6) assms(3) by (simp add: nth_file_blocks nth_append)
qed

lemma blocks_in_place:
  assumes "layout_ok s" and "inodes s a = Some i" and "blocks_sound s i n" and "n < 140"
  shows "blocks_for s a i n n"
proof -
  note b = blocks_soundD [OF assms(3)]
  have same: "inodes s = (inodes s)(a \<mapsto> i\<lparr>i_sectors := i_sectors i\<rparr>)" using assms(2) by auto
  have ext: "extended s i n s i" by (rule extended_refl [OF assms(1,3)])
  show ?thesis
  proof (cases "n < 12")
    case True
    let ?ab = "(replicate 140 0)[n := i_sectors i ! n]"
    have "write_blocks a (n + 1) (n + 1) s = Some (Some ?ab, s)"
      using assms(2) True by (simp add: write_blocks_def Let_def)
    moreover have "?ab ! n = file_blocks s i ! n" using True b(1) by (simp add: nth_file_blocks)
    ultimately show ?thesis unfolding blocks_for_def using same ext
      by (intro exI [of _ ?ab] exI [of _ s] exI [of _ "i_sectors i"]) (auto simp: le_antisym)
  next
    case False
    then have n: "12 \<le> n" "i_sectors i ! 12 \<noteq> 0" using b(6) by auto
    let ?ab = "take 12 (replicate 140 0) @ words_of (hd_sectors s (i_sectors i ! 12))"
    note t = table_read [OF assms(1,3) n(1)]
    have "write_blocks a (n + 1) (n + 1) s = Some (Some ?ab, s)"
      using assms(2) n t(1) by (simp add: write_blocks_def Let_def)
    moreover have "?ab ! n = file_blocks s i ! n" by (rule t(2) [OF n(1) assms(4)])
    moreover have "length ?ab = 140" by simp
    ultimately show ?thesis unfolding blocks_for_def using same ext
      by (intro exI [of _ ?ab] exI [of _ s] exI [of _ "i_sectors i"]) (auto simp: le_antisym)
  qed
qed

lemma blocks_direct:
  assumes "layout_ok s" and "inodes s a = Some i" and "blocks_sound s i n" and "i_bsize i div 512 = n"
    and "n < m" and "m < 12" and "m - n + 1 \<le> card (free_blocks s)"
    and "\<forall>k \<le> m - n. heap_ok s (next_addr s + k)" and "0 < next_addr s"
  shows "blocks_for s a i n m"
proof -
  note b = blocks_soundD [OF assms(3)]
  let ?ab = "(replicate 140 0)[n := i_sectors i ! n]"
  have z: "\<forall>t. Suc n \<le> t \<and> t < Suc m \<and> t < 12 \<longrightarrow> i_sectors i ! t = 0"
  proof (intro allI impI)
    fix t assume "Suc n \<le> t \<and> t < Suc m \<and> t < 12"
    then show "i_sectors i ! t = 0" using b(1) b(2) [of t] by (simp add: nth_file_blocks)
  qed
  have heap: "\<forall>k < Suc m - Suc n. heap_ok s (next_addr s + k)" using assms(8) by simp
  have lab: "length ?ab = 140" and nm: "Suc n \<le> Suc m" "Suc m \<le> 140" using assms(5,6) by simp_all
  have room: "Suc m - Suc n \<le> card (free_blocks s)" using assms(7) by simp
  obtain ab' s' sec where r: "alloc_blocks a ?ab [Suc n..<Suc m] s = Some (Some ab', s')" "length ab' = 140"
      "length sec = 13" "grown s (map ((!) ab') [Suc n..<Suc m]) s'" "inodes s' = (inodes s)(a \<mapsto> i\<lparr>i_sectors := sec\<rparr>)"
      "\<forall>t < 140. \<not> (Suc n \<le> t \<and> t < Suc m) \<longrightarrow> ab' ! t = ?ab ! t"
      "\<forall>t < 13. sec ! t = (if Suc n \<le> t \<and> t < Suc m \<and> t < 12 then ab' ! t else i_sectors i ! t)"
    using alloc_blocks_runs [OF assms(1,2) b(1) lab nm z room heap assms(9)]
    by (elim exE conjE) (rule that)
  have T: "i_sectors i ! 12 = 0" using b(6) assms(5,6) by auto
  have ab: "?ab ! n = file_blocks s i ! n" using assms(5,6) b(1) by (simp add: nth_file_blocks)
  have high: "\<forall>x < 140. 12 \<le> x \<longrightarrow> ?ab ! x = file_blocks s i ! x" using assms(5,6) b(1) T by (simp add: nth_file_blocks)
  have j: "i = i\<lparr>i_sectors := (i_sectors i)[12 := 0]\<rparr>" using T b(1) by (metis inode.surjective inode.update_convs(5) list_update_id)
  have m140: "m < 140" using assms(6) by simp
  note e = alloc_extends [where T = 0 and j = i and ts = "[]", OF assms(3,5) m140 assms(4) grown_refl [OF assms(1)] _ _ j _ ab high r(2-4,6,7)]
  have "extended s i m s' (i\<lparr>i_sectors := sec\<rparr>)" "\<forall>x. n \<le> x \<and> x \<le> m \<longrightarrow> ab' ! x = file_blocks s' (i\<lparr>i_sectors := sec\<rparr>) ! x"
    using e [of s'] assms(6) T by simp_all
  moreover have "write_blocks a (n + 1) (m + 1) s = Some (Some ab', s')"
    using assms(2,5,6) r(1) by (simp add: write_blocks_def Let_def del: upt_Suc)
  moreover have "next_addr s \<le> next_addr s' \<and> next_addr s' \<le> next_addr s + (m - n + 1)" using grownD(8) [OF r(4)] by (simp del: upt_Suc)
  ultimately show ?thesis unfolding blocks_for_def using r(2,5) by blast
qed

lemma blocks_first_indirect:
  assumes "layout_ok s" and "inodes s a = Some i" and "blocks_sound s i n" and "i_bsize i div 512 = n"
    and "n < 12" and "12 \<le> m" and "m < 140" and "m - n + 1 \<le> card (free_blocks s)"
    and "\<forall>k \<le> m - n. heap_ok s (next_addr s + k)" and "0 < next_addr s"
  shows "blocks_for s a i n m"
proof -
  note b = blocks_soundD [OF assms(3)]
  let ?ab = "(replicate 140 0)[n := i_sectors i ! n]"
  have z: "i_sectors i ! t = 0" if "n < t" "t < 12" for t
    using b(1) b(2) [of t] that by (simp add: nth_file_blocks)
  have T0: "i_sectors i ! 12 = 0" using b(6) assms(5) by auto
  have ne: "free_blocks s \<noteq> {}" and hp: "heap_ok s (next_addr s)" using assms(8) assms(9) [rule_format, of 0] by auto
  obtain T s1 s2 where T: "block_bitmap_alloc s = Some (int T, s1)" "T \<noteq> 0" "inodes s1 = inodes s" "sb s1 = sb s"
      "bitmap_sync (T - data_start_lba (sb s)) BLOCK_BITMAP s1 = Some s2" "grown s [T] s2" "inodes s2 = inodes s"
    using new_block_runs [OF assms(1) ne hp assms(10)] by (elim exE conjE) (rule that)
  define j where "j = i\<lparr>i_sectors := (i_sectors i)[12 := T]\<rparr>"
  define t where "t = s2\<lparr>inodes := (inodes s)(a \<mapsto> j)\<rparr>"
  have g: "grown s [T] t" using T(6) by (simp add: t_def)
  have "card (free_blocks t) + 1 = card (free_blocks s)" using g by (simp add: grown_def)
  then have room: "Suc m - Suc n \<le> card (free_blocks t)" using assms(8) by simp
  have heap: "\<forall>k < Suc m - Suc n. heap_ok t (next_addr t + k)"
  proof (intro allI impI)
    fix k assume "k < Suc m - Suc n"
    then show "heap_ok t (next_addr t + k)"
      using assms(9) [rule_format, of "Suc k"] grownD(8,9) [OF g] by simp
  qed
  have zj: "\<forall>x. Suc n \<le> x \<and> x < Suc m \<and> x < 12 \<longrightarrow> i_sectors j ! x = 0" using z by (simp add: j_def)
  have pos: "0 < next_addr t" using grownD(8) [OF g] by simp
  have lj: "length (i_sectors j) = 13" and lab: "length ?ab = 140" and nm: "Suc n \<le> Suc m" "Suc m \<le> 140"
    and tj: "inodes t a = Some j"
    using b(1) assms(5-7) by (simp_all add: j_def t_def)
  obtain ab' s3 sec where r: "alloc_blocks a ?ab [Suc n..<Suc m] t = Some (Some ab', s3)" "length ab' = 140"
      "length sec = 13" "grown t (map ((!) ab') [Suc n..<Suc m]) s3" "inodes s3 = (inodes t)(a \<mapsto> j\<lparr>i_sectors := sec\<rparr>)"
      "\<forall>x < 140. \<not> (Suc n \<le> x \<and> x < Suc m) \<longrightarrow> ab' ! x = ?ab ! x"
      "\<forall>x < 13. sec ! x = (if Suc n \<le> x \<and> x < Suc m \<and> x < 12 then ab' ! x else i_sectors j ! x)"
    using alloc_blocks_runs [OF grownD(1) [OF g] tj lj lab nm zj room heap pos]
    by (elim exE conjE) (rule that)
  define s' where "s' = s3\<lparr>hd_sectors := (hd_sectors s3)(T := bytes_of_words (drop 12 ab'))\<rparr>"
  have ab: "?ab ! n = file_blocks s i ! n" using assms(5) b(1) by (simp add: nth_file_blocks)
  have high: "\<forall>x < 140. 12 \<le> x \<longrightarrow> ?ab ! x = file_blocks s i ! x" using assms(5) b(1) T0 by (simp add: nth_file_blocks)
  have nm': "n < m" using assms(5,6) by simp
  note e = alloc_extends [where T = T and j = j and ts = "[T]" and t = t,
      OF assms(3) nm' assms(7,4) g _ _ j_def lab ab high r(2-4,6,7)]
  have "extended s i m s' (i\<lparr>i_sectors := sec\<rparr>)" "\<forall>x. n \<le> x \<and> x \<le> m \<longrightarrow> ab' ! x = file_blocks s' (i\<lparr>i_sectors := sec\<rparr>) ! x"
    using e [of s'] assms(5,6) by (simp_all add: s'_def j_def)
  moreover have "write_blocks a (n + 1) (m + 1) s = Some (Some ab', s')"
  proof -
    have "T \<le> max_lba" using grownD(5) [OF g, of T] by simp
    then have "ide_write T (bytes_of_words (drop 12 ab')) 1 s3 = Some s'"
      using ide_write_one [of T "bytes_of_words (drop 12 ab')" s3] r(2) by (simp add: s'_def)
    moreover have "upd_inode a (\<lambda>i. i\<lparr>i_sectors := (i_sectors i)[12 := nat (int T)]\<rparr>) s2 = Some t"
      using T(7) assms(2) by (simp add: upd_inode_def t_def j_def)
    ultimately show ?thesis
      using assms(2,5,6) T(1,4,5) r(1) T0 by (simp add: write_blocks_def Let_def del: upt_Suc)
  qed
  moreover have "next_addr s \<le> next_addr s' \<and> next_addr s' \<le> next_addr s + (m - n + 1)"
    using grownD(8) [OF r(4)] grownD(8) [OF g] by (simp add: s'_def del: upt_Suc)
  moreover have "inodes s' = (inodes s)(a \<mapsto> i\<lparr>i_sectors := sec\<rparr>)" using r(5) by (simp add: s'_def t_def j_def)
  ultimately show ?thesis unfolding blocks_for_def using r(2) by blast
qed

lemma blocks_more_indirect:
  assumes "layout_ok s" and "inodes s a = Some i" and "blocks_sound s i n" and "i_bsize i div 512 = n"
    and "12 \<le> n" and "n < m" and "m < 140" and "m - n + 1 \<le> card (free_blocks s)"
    and "\<forall>k \<le> m - n. heap_ok s (next_addr s + k)" and "0 < next_addr s"
  shows "blocks_for s a i n m"
proof -
  note b = blocks_soundD [OF assms(3)]
  let ?T = "i_sectors i ! 12"
  let ?ab = "take 12 (replicate 140 0) @ words_of (hd_sectors s ?T)"
  note t = table_read [OF assms(1,3,5)]
  have T0: "?T \<noteq> 0" using b(6) assms(5) by simp
  have lab: "length ?ab = 140" and nm: "Suc n \<le> Suc m" "Suc m \<le> 140" using assms(6,7) by simp_all
  have room: "Suc m - Suc n \<le> card (free_blocks s)" using assms(8) by simp
  have z: "\<forall>x. Suc n \<le> x \<and> x < Suc m \<and> x < 12 \<longrightarrow> i_sectors i ! x = 0" using assms(5) by simp
  have heap: "\<forall>k < Suc m - Suc n. heap_ok s (next_addr s + k)" using assms(9) by simp
  obtain ab' s3 sec where r: "alloc_blocks a ?ab [Suc n..<Suc m] s = Some (Some ab', s3)" "length ab' = 140"
      "length sec = 13" "grown s (map ((!) ab') [Suc n..<Suc m]) s3" "inodes s3 = (inodes s)(a \<mapsto> i\<lparr>i_sectors := sec\<rparr>)"
      "\<forall>x < 140. \<not> (Suc n \<le> x \<and> x < Suc m) \<longrightarrow> ab' ! x = ?ab ! x"
      "\<forall>x < 13. sec ! x = (if Suc n \<le> x \<and> x < Suc m \<and> x < 12 then ab' ! x else i_sectors i ! x)"
    using alloc_blocks_runs [OF assms(1,2) b(1) lab nm z room heap assms(10)]
    by (elim exE conjE) (rule that)
  define s' where "s' = s3\<lparr>hd_sectors := (hd_sectors s3)(?T := bytes_of_words (drop 12 ab'))\<rparr>"
  have ab: "?ab ! n = file_blocks s i ! n" using t(2) [of n] assms(5-7) by simp
  have high: "\<forall>x < 140. 12 \<le> x \<longrightarrow> ?ab ! x = file_blocks s i ! x" using t(2) by blast
  have j: "i = i\<lparr>i_sectors := (i_sectors i)[12 := ?T]\<rparr>" by (metis inode.surjective inode.update_convs(5) list_update_id)
  note e = alloc_extends [where T = ?T and j = i and ts = "[]" and t = s,
      OF assms(3,6,7,4) grown_refl [OF assms(1)] _ _ j lab ab high r(2-4,6,7)]
  have "extended s i m s' (i\<lparr>i_sectors := sec\<rparr>)" "\<forall>x. n \<le> x \<and> x \<le> m \<longrightarrow> ab' ! x = file_blocks s' (i\<lparr>i_sectors := sec\<rparr>) ! x"
    using e [of s'] assms(5,6) by (simp_all add: s'_def)
  moreover have "write_blocks a (n + 1) (m + 1) s = Some (Some ab', s')"
  proof -
    have "?T \<le> max_lba" using b(7) [OF assms(5)] used_block_data by auto
    then have "ide_write ?T (bytes_of_words (drop 12 ab')) 1 s3 = Some s'"
      using ide_write_one [of ?T "bytes_of_words (drop 12 ab')" s3] r(2) by (simp add: s'_def)
    then show ?thesis
      using assms(2,5,6) r(1) T0 t(1) by (simp add: write_blocks_def Let_def del: upt_Suc)
  qed
  moreover have "next_addr s \<le> next_addr s' \<and> next_addr s' \<le> next_addr s + (m - n + 1)"
    using grownD(8) [OF r(4)] by (simp add: s'_def del: upt_Suc)
  ultimately show ?thesis unfolding blocks_for_def using r(2,5) by (intro exI [of _ ab'] exI [of _ s'] exI [of _ sec]) (simp add: s'_def)
qed

lemma write_blocks_runs:
  assumes "layout_ok s" and "inodes s a = Some i" and "blocks_sound s i n" and "i_bsize i div 512 = n"
    and "n \<le> m" and "m < 140" and "m - n + 1 \<le> card (free_blocks s)"
    and "\<forall>k \<le> m - n. heap_ok s (next_addr s + k)" and "0 < next_addr s"
  shows "blocks_for s a i n m"
proof -
  consider "m = n" | "n < m" "m < 12" | "n < 12" "12 \<le> m" | "12 \<le> n" "n < m" using assms(5) by linarith
  then show ?thesis
  proof cases
    case 1
    then show ?thesis using blocks_in_place [OF assms(1-3)] assms(6) by simp
  next
    case 2
    then show ?thesis by (rule blocks_direct [OF assms(1-4) _ _ assms(7-9)])
  next
    case 3
    then show ?thesis by (rule blocks_first_indirect [OF assms(1-4) _ _ assms(6-9)])
  next
    case 4
    then show ?thesis by (rule blocks_more_indirect [OF assms(1-4) _ _ assms(6-9)])
  qed
qed

lemma extended_content:
  assumes "layout_ok s" and "length (i_sectors i) = 13" and "extended s i m s' i'" and "i_bsize i' = i_bsize i"
    and "i_bsize i < 140 * 512"
  shows "file_content s' i' = file_content s i"
proof -
  have l: "length (i_sectors i') = 13" and ok: "layout_ok s'" using assms(3) by (simp_all add: extended_def blocks_sound_def)
  have "hd_sectors s' (file_blocks s' i' ! t) = hd_sectors s (file_blocks s i ! t)" if "t < 140" "t * 512 < i_bsize i" for t
  proof -
    have "t \<le> i_bsize i div 512" using that(2) by (simp add: less_eq_div_iff_mult_less_eq)
    then show ?thesis using assms(3) that(1) by (simp add: extended_def)
  qed
  then have "take (i_bsize i) (concat (map (hd_sectors s') (file_blocks s' i'))) = take (i_bsize i) (concat (map (hd_sectors s) (file_blocks s i)))"
    using assms(1,2) l ok by (intro content_prefix) (simp_all add: layout_ok_def disk_ok_def)
  then show ?thesis using assms(4) by (simp add: file_content_def)
qed

section \<open>The first block\<close>

lemma first_block_runs:
  assumes "layout_ok s" and "inodes s a = Some i" and "file_sound s i" and "free_blocks s \<noteq> {}"
    and "heap_ok s (next_addr s)" and "0 < next_addr s"
  shows "\<exists>s' sec. first_block a s = Some (True, s') \<and> inodes s' = (inodes s)(a \<mapsto> i\<lparr>i_sectors := sec\<rparr>)
    \<and> layout_ok s' \<and> sec ! 0 \<noteq> 0 \<and> blocks_sound s' (i\<lparr>i_sectors := sec\<rparr>) (i_bsize i div 512) \<and> fs_frame s s'
    \<and> file_content s' (i\<lparr>i_sectors := sec\<rparr>) = file_content s i
    \<and> (\<forall>b < data_start_lba (sb s). b \<noteq> block_bitmap_lba (sb s) \<longrightarrow> hd_sectors s' b = hd_sectors s b)
    \<and> card (free_blocks s) \<le> card (free_blocks s') + 1
    \<and> next_addr s \<le> next_addr s' \<and> next_addr s' \<le> next_addr s + 1"
proof (cases "i_sectors i ! 0 = 0")
  case False
  have "inodes s = (inodes s)(a \<mapsto> i\<lparr>i_sectors := i_sectors i\<rparr>)" using assms(2) by auto
  moreover have "first_block a s = Some (True, s)" using assms(2) False by (simp add: first_block_def)
  ultimately show ?thesis using False assms(1,3)
    by (intro exI [of _ s] exI [of _ "i_sectors i"]) (simp add: file_sound_def fs_frame_def)
next
  case True
  have z: "i_bsize i = 0" "i_sectors i = replicate 13 0"
  proof -
    have "\<not> blocks_sound s i m" for m
    proof
      assume b: "blocks_sound s i m"
      show False using blocks_soundD(1) [OF b] blocks_soundD(2) [OF b, of 0] True by (simp add: nth_file_blocks)
    qed
    then show "i_bsize i = 0" "i_sectors i = replicate 13 0" using assms(3) True by (auto simp: file_sound_def split: if_splits)
  qed
  obtain b s1 s2 where b: "block_bitmap_alloc s = Some (int b, s1)" "b \<noteq> 0" "inodes s1 = inodes s"
      "sb s1 = sb s" "grown s [b] s2" "inodes s2 = inodes s"
      "\<forall>f. bitmap_sync (b - data_start_lba (sb s)) BLOCK_BITMAP (s1\<lparr>inodes := f\<rparr>) = Some (s2\<lparr>inodes := f\<rparr>)"
    using new_block_runs [OF assms(1,4-6)] by (elim exE conjE) (rule that)
  let ?i = "i\<lparr>i_sectors := (replicate 13 0)[0 := b]\<rparr>"
  define t where "t = s2\<lparr>inodes := (inodes s)(a \<mapsto> ?i)\<rparr>"
  note g = grownD [OF b(5)]
  have "first_block a s = Some (True, t)"
    using b assms(2) True z by (simp add: first_block_def upd_inode_def t_def)
  moreover have blk: "file_blocks t ?i ! x = (if x = 0 then b else 0)" if "x < 140" for x
    using that by (simp add: nth_file_blocks nth_Cons')
  have "used_block t b" using g(3) [of b] by (simp add: t_def)
  then have "blocks_sound t ?i 0"
    using b(2) blk by (auto simp: blocks_sound_def)
  moreover have "file_content t ?i = file_content s i" using z(1) by (simp add: file_content_def)
  moreover have "fs_frame s t" using grown_frame [OF b(5)] by (simp add: t_def fs_frame_def)
  moreover have "hd_sectors t x = hd_sectors s x" if "x < data_start_lba (sb s)" "x \<noteq> block_bitmap_lba (sb s)" for x
    using g(5) [of b] g(6) [of x] that by (auto simp: t_def)
  moreover have "card (free_blocks s) = card (free_blocks t) + 1" using b(5) by (simp add: grown_def t_def)
  ultimately show ?thesis using g(1,8) b(2) z(1)
    by (intro exI [of _ t] exI [of _ "(replicate 13 0)[0 := b]"]) (simp add: t_def)
qed

section \<open>A whole write\<close>

lemma sectors_small:
  assumes "blocks_sound s i m" and "m < 140"
  shows "\<forall>b \<in> set (i_sectors i). b < 4294967296"
proof
  fix b assume "b \<in> set (i_sectors i)"
  note bs = blocks_soundD [OF assms(1)]
  from \<open>b \<in> set (i_sectors i)\<close> obtain t where t: "t < 13" "b = i_sectors i ! t" using bs(1) by (auto simp: in_set_conv_nth)
  have "b \<le> max_lba"
  proof (cases "t = 12")
    case True
    then show ?thesis using bs(6,7) used_block_data t(2) by (cases "12 \<le> m") auto
  next
    case False
    then have "t < 12" "b = file_blocks s i ! t" using t bs(1) by (simp_all add: nth_file_blocks)
    then show ?thesis using bs(2,3) [of t] used_block_data by (cases "t \<le> m") auto
  qed
  then show "b < 4294967296" by (simp add: max_lba_def)
qed

text \<open>What a write to entry \<open>k\<close> of the file table keeps, beside the blocks and inodes.\<close>

definition fs_kept :: "nat \<Rightarrow> fs \<Rightarrow> fs \<Rightarrow> bool" where
  "fs_kept k s s' \<longleftrightarrow> sb s' = sb s \<and> heap_ok s' = heap_ok s \<and> open_inodes s' = open_inodes s \<and> dirs s' = dirs s
     \<and> length (file_table s') = length (file_table s) \<and> kern s' = kern s \<and> pipes s' = pipes s
     \<and> fd_inode (file_table s' ! k) = fd_inode (file_table s ! k)
     \<and> fd_flag (file_table s' ! k) = fd_flag (file_table s ! k)"

text \<open>The transfer loop and the write of the inode, on blocks that are there.\<close>

lemma transfer_runs:
  assumes "layout_ok s" and "table_ok s" and "inodes s a = Some i" and "k < length (file_table s)"
    and "blocks_sound s i m" and "m = (i_bsize i + length buf) div 512" and "i_bsize i + length buf < 139 * 512"
    and "length ab = 140" and "\<forall>x. i_bsize i div 512 \<le> x \<and> x \<le> m \<longrightarrow> ab ! x = file_blocks s i ! x"
    and "inode_ok i" and "exact_pos (i_no i)" and "home_lba s (i_no i) < data_start_lba (sb s)"
    and "i' = i\<lparr>i_bsize := i_bsize i + length buf\<rparr>"
  shows "\<exists>s1 s2. write_loop k a ab buf True s = Some s1 \<and> inodes s1 a = Some i'
    \<and> inode_sync i' (replicate 1024 0) s1 = Some s2 \<and> inodes s2 = inodes s1
    \<and> layout_ok s2 \<and> blocks_sound s2 i' m \<and> file_content s2 i' = file_content s i @ buf
    \<and> disk_inode s2 (i_no i) = i'\<lparr>i_open_cnts := 0, write_deny := False\<rparr> \<and> same_fs k a s s2"
proof -
  let ?n = "i_bsize i" and ?bs = "file_blocks s i" and ?e = "i_bsize i + length buf"
  note b = blocks_soundD [OF assms(5)]
  have m140: "m < 140" using assms(6,7) by simp
  have d: "disk_ok s" using assms(1) by (simp add: layout_ok_def)
  have lb: "length ?bs = 140" using b(1) by simp
  have wr: "\<forall>t. ?n div 512 \<le> t \<and> t * 512 < ?e \<longrightarrow> ab ! t = ?bs ! t \<and> ab ! t \<le> max_lba \<and> (\<forall>t' < t. ?bs ! t' \<noteq> ?bs ! t)"
  proof (intro allI impI)
    fix t assume t: "?n div 512 \<le> t \<and> t * 512 < ?e"
    then have tm: "t \<le> m" by (simp add: assms(6) less_eq_div_iff_mult_less_eq)
    then have "ab ! t = ?bs ! t" using assms(9) t by blast
    moreover have "?bs ! t \<le> max_lba" using b(3) [of t] used_block_data tm m140 by simp
    moreover have "?bs ! t' \<noteq> ?bs ! t" if "t' < t" for t' using b(5) [of t t'] tm m140 that by auto
    ultimately show "ab ! t = ?bs ! t \<and> ab ! t \<le> max_lba \<and> (\<forall>t' < t. ?bs ! t' \<noteq> ?bs ! t)" by simp
  qed
  have "\<exists>s1. write_loop k a ab buf True s = Some s1 \<and> disk_ok s1
      \<and> inodes s1 = (inodes s)(a \<mapsto> i\<lparr>i_bsize := ?e\<rparr>)
      \<and> take ?e (concat (map (hd_sectors s1) ?bs)) = take ?n (concat (map (hd_sectors s) ?bs)) @ buf
      \<and> (\<forall>b. b \<notin> set ?bs \<longrightarrow> hd_sectors s1 b = hd_sectors s b) \<and> same_fs k a s s1"
    using assms(7) by (intro write_loop_runs [OF d assms(3,4,8) lb _ wr]) simp_all
  then obtain s1 where s1: "write_loop k a ab buf True s = Some s1" "disk_ok s1" "inodes s1 a = Some i'"
      "take ?e (concat (map (hd_sectors s1) ?bs)) = file_content s i @ buf"
      "\<forall>b. b \<notin> set ?bs \<longrightarrow> hd_sectors s1 b = hd_sectors s b" "same_fs k a s s1"
    by (auto simp: file_content_def assms(13))
  have tab: "table_ok s1" "home_lba s1 (i_no i) = home_lba s (i_no i)" and oki: "inode_ok i'"
    using assms(2,7,10) s1(2,6) by (auto simp: table_ok_def same_fs_def inode_ok_def home_lba_def assms(13))
  have no: "i_no i' = i_no i" "i_sectors i' = i_sectors i" "i_bsize i' = ?e" by (simp_all add: assms(13))
  obtain s2 where s2: "inode_sync i' (replicate 1024 0) s1 = Some s2"
      "disk_inode s2 (i_no i) = i'\<lparr>i_open_cnts := 0, write_deny := False\<rparr>" "disk_ok s2"
    using inode_sync_exact [OF tab(1) _ oki, of "replicate 1024 0"] assms(11) by (auto simp: no table_ok_def)
  define h where "h = home_lba s (i_no i)"
  obtain sec where f: "s2 = s1\<lparr>hd_sectors := (hd_sectors s1)(h := sec)\<rparr>"
    using s2(1) inode_sync_runs [OF tab(1), of i' "replicate 1024 0"] assms(11) b(1) tab(2)
    by (auto simp: exact_pos_def no h_def)
  have same: "sb s2 = sb s" "block_bitmap s2 = block_bitmap s" "inodes s2 = inodes s1"
    using s1(6) by (simp_all add: same_fs_def f)
  have f2: "\<forall>x. x \<noteq> h \<longrightarrow> hd_sectors s2 x = hd_sectors s1 x" by (simp add: f)
  have h0: "h < data_start_lba (sb s)" "h \<noteq> 0"
    using assms(2,12) by (auto simp: h_def table_ok_def home_lba_def)
  have hb: "h \<notin> set ?bs"
  proof
    assume "h \<in> set ?bs"
    then obtain t where "t < 140" "h = ?bs ! t" using lb by (auto simp: in_set_conv_nth)
    then show False using b(2,3) [of t] h0 used_block_data [of s h] by auto
  qed
  have T: "hd_sectors s2 (i_sectors i ! 12) = hd_sectors s (i_sectors i ! 12)" if t0: "i_sectors i ! 12 \<noteq> 0"
  proof -
    have "i_sectors i ! 12 \<notin> set ?bs"
    proof
      assume "i_sectors i ! 12 \<in> set ?bs"
      then obtain t where "t < 140" "i_sectors i ! 12 = ?bs ! t" using lb by (auto simp: in_set_conv_nth)
      then show False using b(2,4) [of t] t0 by auto
    qed
    moreover have "i_sectors i ! 12 \<noteq> h" using b(6,7) t0 h0(1) used_block_data by fastforce
    ultimately show ?thesis using f2 s1(5) by simp
  qed
  have bs2: "file_blocks s2 i' = ?bs" using T by (simp add: file_blocks_def no)
  have "concat (map (hd_sectors s2) ?bs) = concat (map (hd_sectors s1) ?bs)"
    using hb f2 by (intro content_cong) auto
  then have cont: "file_content s2 i' = file_content s i @ buf"
    using s1(4) by (simp add: file_content_def bs2 no)
  have us: "used_block s2 = used_block s" using same by (simp add: fun_eq_iff used_block_def)
  have "blocks_sound s2 i' m" using assms(5) by (simp add: blocks_sound_def bs2 no us)
  moreover have "layout_ok s2" using assms(1) s2(3) same by (simp add: layout_ok_def)
  moreover have "same_fs k a s s2"
    using s1(6) by (simp add: same_fs_def f)
  ultimately show ?thesis using s1(1,3) s2(1,2) cont same(3) by blast
qed

text \<open>
  A file that can be written: its blocks and its inode are sound, its inode has a place on the disk
  that is no block of data, and there are blocks and memory enough for \<open>c\<close> more bytes.
\<close>

definition writable :: "fs \<Rightarrow> inode \<Rightarrow> nat \<Rightarrow> bool" where
  "writable s i c \<longleftrightarrow> layout_ok s \<and> table_ok s \<and> file_sound s i \<and> inode_ok i \<and> exact_pos (i_no i)
     \<and> home_lba s (i_no i) < data_start_lba (sb s) \<and> home_lba s (i_no i) \<noteq> block_bitmap_lba (sb s)
     \<and> i_bsize i + c < 139 * 512
     \<and> (i_bsize i + c) div 512 - i_bsize i div 512 + 2 \<le> card (free_blocks s)
     \<and> (\<forall>k < 150. heap_ok s (next_addr s + k)) \<and> 0 < next_addr s"

lemma file_write_appends:
  assumes "k < length (file_table s)" and "a = fd_inode (file_table s ! k)" and "inodes s a = Some i"
    and "writable s i (length buf)"
  shows "\<exists>s' i'. file_write k buf s = Some (int (length buf), s') \<and> inodes s' a = Some i'
    \<and> i_bsize i' = i_bsize i + length buf \<and> file_content s' i' = file_content s i @ buf
    \<and> disk_inode s' (i_no i) = i'\<lparr>i_open_cnts := 0, write_deny := False\<rparr>
    \<and> layout_ok s' \<and> file_sound s' i' \<and> file_ok s' i' \<and> fs_kept k s s'
    \<and> next_addr s' \<le> next_addr s + 148 \<and> 0 < next_addr s' \<and> next_addr s \<le> next_addr s'"
proof -
  define n where "n = i_bsize i div 512"
  define m where "m = (i_bsize i + length buf) div 512"
  have W: "layout_ok s" "table_ok s" "file_sound s i" "inode_ok i" "exact_pos (i_no i)"
      "home_lba s (i_no i) < data_start_lba (sb s)" "i_bsize i + length buf < 139 * 512"
      "m - n + 2 \<le> card (free_blocks s)" "0 < next_addr s"
    using assms(4) by (simp_all add: writable_def m_def n_def)
  have heap: "heap_ok s (next_addr s + x)" if "x < 150" for x using assms(4) that by (simp add: writable_def)
  have nm: "n \<le> m" "m < 140" using W(7) by (simp_all add: n_def m_def div_le_mono)
  define s0 where "s0 = s\<lparr>next_addr := next_addr s + 3\<rparr>"
  have s0: "layout_ok s0" "inodes s0 a = Some i" "file_sound s0 i" "free_blocks s0 = free_blocks s"
      "0 < next_addr s0" "file_content s0 i = file_content s i" "heap_ok s0 (next_addr s0)"
    using W(1,3) assms(3) heap [of 3] by (simp_all add: s0_def add.commute)
  have ne: "free_blocks s0 \<noteq> {}" using W(8) s0(4) by auto
  obtain s1 sec1 where s1: "first_block a s0 = Some (True, s1)" "inodes s1 = (inodes s0)(a \<mapsto> i\<lparr>i_sectors := sec1\<rparr>)"
      "layout_ok s1" "blocks_sound s1 (i\<lparr>i_sectors := sec1\<rparr>) (i_bsize i div 512)" "fs_frame s0 s1"
      "file_content s1 (i\<lparr>i_sectors := sec1\<rparr>) = file_content s0 i"
      "card (free_blocks s0) \<le> card (free_blocks s1) + 1" "next_addr s0 \<le> next_addr s1" "next_addr s1 \<le> next_addr s0 + 1"
    using first_block_runs [OF s0(1-3) ne s0(7,5)] by (elim exE conjE) (rule that)
  let ?i1 = "i\<lparr>i_sectors := sec1\<rparr>"
  have i1: "inodes s1 a = Some ?i1" "i_bsize ?i1 div 512 = n" using s1(2) by (simp_all add: n_def)
  have sound1: "blocks_sound s1 ?i1 n" using s1(4) by (simp add: n_def)
  have room: "m - n + 1 \<le> card (free_blocks s1)" using W(8) s1(7) s0(4) by simp
  have heap1: "\<forall>x \<le> m - n. heap_ok s1 (next_addr s1 + x)"
  proof (intro allI impI)
    fix x assume "x \<le> m - n"
    then have "next_addr s1 - next_addr s + x < 150" "next_addr s \<le> next_addr s1" using s1(8,9) nm by (auto simp: s0_def)
    then show "heap_ok s1 (next_addr s1 + x)"
      using heap [of "next_addr s1 - next_addr s + x"] s1(5) by (simp add: fs_frame_def s0_def)
  qed
  have pos1: "0 < next_addr s1" using s1(8) by (simp add: s0_def)
  obtain ab s2 sec2 where s2: "write_blocks a (n + 1) (m + 1) s1 = Some (Some ab, s2)" "length ab = 140"
      "inodes s2 = (inodes s1)(a \<mapsto> ?i1\<lparr>i_sectors := sec2\<rparr>)" "extended s1 ?i1 m s2 (?i1\<lparr>i_sectors := sec2\<rparr>)"
      "next_addr s1 \<le> next_addr s2" "next_addr s2 \<le> next_addr s1 + (m - n + 1)" 
      "\<forall>x. n \<le> x \<and> x \<le> m \<longrightarrow> ab ! x = file_blocks s2 (?i1\<lparr>i_sectors := sec2\<rparr>) ! x"
    using write_blocks_runs [OF s1(3) i1(1) sound1 i1(2) nm room heap1 pos1] unfolding blocks_for_def
    by (elim exE conjE) (rule that)
  let ?i2 = "i\<lparr>i_sectors := sec2\<rparr>"
  have E: "layout_ok s2" "blocks_sound s2 ?i2 m" "fs_frame s1 s2" using s2(4) by (simp_all add: extended_def)
  have cont2: "file_content s2 ?i2 = file_content s i"
    using extended_content [OF s1(3) blocks_soundD(1) [OF s1(4)] s2(4)] s1(6) s0(6) W(7) by simp
  have fr: "fs_frame s0 s2" by (rule fs_frame_trans [OF s1(5) E(3)])
  define s3 where "s3 = s2\<lparr>file_table := (file_table s2)[k := (file_table s2 ! k)\<lparr>fd_pos := sub32 (i_bsize i) 1\<rparr>]\<rparr>"
  have tab2: "file_table s2 = file_table s" "sb s2 = sb s" "part_start_lba s2 = part_start_lba s" "heap_ok s2 = heap_ok s"
      "dirs s2 = dirs s" "open_inodes s2 = open_inodes s" "kern s2 = kern s" "pipes s2 = pipes s"
    using fr by (simp_all add: fs_frame_def s0_def)
  have s3: "layout_ok s3" "table_ok s3" "inodes s3 a = Some ?i2" "k < length (file_table s3)"
      "blocks_sound s3 ?i2 m" "home_lba s3 (i_no ?i2) < data_start_lba (sb s3)" "file_content s3 ?i2 = file_content s i"
      "\<forall>x. i_bsize ?i2 div 512 \<le> x \<and> x \<le> m \<longrightarrow> ab ! x = file_blocks s3 ?i2 ! x"
    using E(1,2) W(2,6) s2(3,7) assms(1) cont2 tab2
    by (simp_all add: s3_def table_ok_def home_lba_def n_def layout_ok_def)
  have ok2: "inode_ok ?i2"
    using W(4) sectors_small [OF E(2) nm(2)] blocks_soundD(1) [OF E(2)] by (simp add: inode_ok_def)
  let ?i3 = "?i2\<lparr>i_bsize := i_bsize ?i2 + length buf\<rparr>"
  have m': "m = (i_bsize ?i2 + length buf) div 512" "i_bsize ?i2 + length buf < 139 * 512" "exact_pos (i_no ?i2)"
    using W(5,7) by (simp_all add: m_def)
  obtain s4 s5 where s5: "write_loop k a ab buf True s3 = Some s4" "inodes s4 a = Some ?i3"
      "inode_sync ?i3 (replicate 1024 0) s4 = Some s5" "inodes s5 = inodes s4" "layout_ok s5" "blocks_sound s5 ?i3 m"
      "file_content s5 ?i3 = file_content s3 ?i2 @ buf" "disk_inode s5 (i_no ?i2) = ?i3\<lparr>i_open_cnts := 0, write_deny := False\<rparr>"
      "same_fs k a s3 s5"
    using transfer_runs [OF s3(1-5) m'(1,2) s2(2) s3(8) ok2 m'(3) s3(6) refl] by (elim exE conjE) (rule that)
  have a32: "add32 (i_bsize i) (length buf) = i_bsize i + length buf" using W(7) by (intro add32_small) simp
  have h3: "heap_ok s (next_addr s)" "heap_ok s (Suc (next_addr s))" "heap_ok s (Suc (Suc (next_addr s)))"
    using heap [of 0] heap [of 1] heap [of 2] by auto
  have "file_write k buf s = Some (int (length buf), s5)"
    using assms(1-3) h3 W(7,9) a32 s1(1) s2(1) s5(1-3) nm(2) tab2(1)
    by (simp add: file_write_def fs_malloc_def upd_file_def s0_def s3_def n_def m_def Let_def numeral_3_eq_3)
  moreover have "file_sound s5 ?i3"
  proof -
    have "file_blocks s5 ?i3 ! 0 \<noteq> 0" using blocks_soundD(2) [OF s5(6), of 0] by simp
    then have "i_sectors ?i3 ! 0 \<noteq> 0" using blocks_soundD(1) [OF s5(6)] by (simp add: nth_file_blocks)
    then show ?thesis using s5(6) by (simp add: file_sound_def m_def)
  qed
  moreover have "file_ok s5 ?i3" by (rule blocks_sound_file_ok [OF s5(5,6)]) (use W(7) in \<open>simp_all add: m_def\<close>)
  moreover have "fs_kept k s s5"
    using s5(9) tab2 assms(1) by (simp add: same_fs_def fs_kept_def s3_def)
  moreover have "next_addr s5 = next_addr s2" using s5(9) by (simp add: same_fs_def s3_def)
  then have "next_addr s5 \<le> next_addr s + 148 \<and> 0 < next_addr s5 \<and> next_addr s \<le> next_addr s5"
    using s2(5,6) s1(8,9) pos1 nm by (simp add: s0_def)
  ultimately show ?thesis
    using s5(2,4,5,7,8) s3(7) by (intro exI [of _ s5] exI [of _ ?i3]) simp
qed

end
