(* ===== verification/FileSys.thy ===== *)
theory FileSys
  imports Prelude FileWrite Path Pipe
begin

text \<open>
  The file system calls of \<open>fs/fs.c\<close> (\<open>sys_open\<close> to \<open>sys_stat\<close>) and their helpers. A call
  takes its strings as lists of characters and gives the bytes it stores in the caller's
  buffer as part of its result. A \<open>dir\<close> pointer is the address of an open directory.

  The lemmas give the results of the calls over the file contents and directory lists of the
  theories \<open>FileIO\<close>, \<open>FileWrite\<close>, \<open>Dir\<close> and \<open>Path\<close>.
\<close>

section \<open>Open files\<close>

abbreviation (input) stdin_no :: int where "stdin_no \<equiv> 0"
abbreviation (input) stdout_no :: int where "stdout_no \<equiv> 1"

text \<open>A write to the console copies the bytes to a buffer of 1024 zeros and prints a string.\<close>

definition console_write :: "byte list \<Rightarrow> fs \<Rightarrow> fs option" where
  "console_write buf s = do {
     _ \<leftarrow> ensure (length buf \<le> 1024);
     str \<leftarrow> cstr_in (put_bytes 0 buf (replicate 1024 0)) 0;
     Some (s\<lparr>console := console s @ str\<rparr>)
   }"

definition not_allowed :: "byte list" where
  "not_allowed = map (\<lambda>c. of_nat (of_char c)) ''sys_write:not allowed to write file\<newline>''"

definition sys_write :: "int \<Rightarrow> byte list \<Rightarrow> fs \<Rightarrow> (int \<times> fs) option" where
  "sys_write fd buf s =
     (if length buf = 0 then Some (0, s)
      else if fd < 0 then Some (- 1, s)
      else do {
        p \<leftarrow> is_pipe (nat fd) s;
        if p then pipe_write (nat fd) buf s
        else if fd = stdout_no then do {
          s \<leftarrow> console_write buf s;
          Some (int (length buf), s)
        } else do {
          g \<leftarrow> fd_idx2global_ftable_idx (nat fd) s;
          f \<leftarrow> rd_at (file_table s) g;
          if fd_flag f AND O_RW \<noteq> 0 \<or> fd_flag f AND O_WRITE \<noteq> 0 then file_write g buf s
          else Some (- 1, s\<lparr>console := console s @ not_allowed\<rparr>)
        }
      })"

text \<open>\<open>sys_read\<close> also gives the bytes that were stored in the buffer.\<close>

definition sys_read :: "int \<Rightarrow> nat \<Rightarrow> fs \<Rightarrow> (int \<times> byte list \<times> fs) option" where
  "sys_read fd count s =
     (if count = 0 then Some (0, [], s)
      else if fd < 0 then Some (- 1, [], s)
      else do {
        p \<leftarrow> is_pipe (nat fd) s;
        if p then pipe_read (nat fd) count s
        else if fd = stdin_no then do {
          let n = nat (s32 count);
          (bs, q, k) \<leftarrow> recv_n io_get n (keyboard_iobuffer s, kern s);
          Some (if n = 0 then - 1 else int n, bs, s\<lparr>keyboard_iobuffer := q, kern := k\<rparr>)
        } else do {
          g \<leftarrow> fd_idx2global_ftable_idx (nat fd) s;
          file_read g count s
        }
      })"

definition zero_record :: path_seach_record where
  "zero_record = \<lparr>searched_path = [], parent_dir = 0, file_type = 0\<rparr>"

text \<open>\<open>strrchar(p, '/') + 1\<close>.\<close>

definition after_slash :: "path \<Rightarrow> byte list option" where
  "after_slash p = (if slash \<in> set p then Some (rev (takeWhile (\<lambda>c. c \<noteq> slash) (rev p))) else None)"

text \<open>
  With \<open>O_CREAT\<close> the path is searched a second time with the record of the first search, and
  the file is opened once more.
\<close>

definition open_create :: "path \<Rightarrow> nat \<Rightarrow> bool \<Rightarrow> path_seach_record \<Rightarrow> fs \<Rightarrow> (int \<times> fs) option" where
  "open_create pathname flags found rec s = do {
     name \<leftarrow> after_slash (searched_path rec);
     (fd, s) \<leftarrow> (if \<not> found then do {
         (fd, s) \<leftarrow> file_create (parent_dir rec) name flags s;
         s \<leftarrow> dir_close (parent_dir rec) s;
         Some (fd, s)
       } else Some (- 1, s));
     (i_no, rec, s) \<leftarrow> search_file pathname rec s;
     (fd, s) \<leftarrow> (if i_no \<noteq> - 1 then file_open (nat i_no) flags s else Some (fd, s));
     s \<leftarrow> dir_close (parent_dir rec) s;
     Some (fd, s)
   }"

definition sys_open :: "path \<Rightarrow> nat \<Rightarrow> fs \<Rightarrow> (int \<times> fs) option" where
  "sys_open pathname flags s = do {
     _ \<leftarrow> ensure (pathname \<noteq> []);
     if pathname ! (length pathname - 1) = slash then Some (- 1, s)
     else do {
       pathname_depth \<leftarrow> path_depth_cnt pathname;
       (inode_no, rec, s) \<leftarrow> search_file pathname zero_record s;
       let found = (inode_no \<noteq> - 1);
       if file_type rec = FT_DIRECTORY then do {
         s \<leftarrow> dir_close (parent_dir rec) s;
         Some (- 1, s)
       } else do {
         path_search_depth \<leftarrow> path_depth_cnt (searched_path rec);
         if path_search_depth \<noteq> pathname_depth
           \<or> (\<not> found \<and> flags AND O_CREAT = 0)
           \<or> (found \<and> flags = O_CREAT)
         then do {
           s \<leftarrow> dir_close (parent_dir rec) s;
           Some (- 1, s)
         }
         else if flags AND O_CREAT = O_CREAT then open_create pathname flags found rec s
         else file_open (nat inode_no) flags s
       }
     }
   }"

text \<open>The last descriptor of a pipe frees its page.\<close>

definition sys_close :: "int \<Rightarrow> fs \<Rightarrow> (bool \<times> fs) option" where
  "sys_close fd_idx s =
     (if fd_idx < 2 then Some (False, s)
      else do {
        global_fd \<leftarrow> fd_idx2global_ftable_idx (nat fd_idx) s;
        p \<leftarrow> is_pipe (nat fd_idx) s;
        s \<leftarrow> (if p then do {
            f \<leftarrow> rd_at (file_table s) global_fd;
            let n = sub32 (fd_pos f) 1;
            s \<leftarrow> upd_file global_fd (\<lambda>f. f\<lparr>fd_pos := n\<rparr>) s;
            if n = 0 then upd_file global_fd (\<lambda>f. f\<lparr>fd_inode := 0\<rparr>)
              (s\<lparr>pipes := (pipes s)(fd_inode f := None)\<rparr>)
            else Some s
          } else file_close global_fd s);
        s \<leftarrow> upd_cur (\<lambda>t. t\<lparr>fd_table := (fd_table t)[nat fd_idx := - 1]\<rparr>) s;
        Some (True, s)
      })"

abbreviation (input) SEEK_SET :: nat where "SEEK_SET \<equiv> 1"
abbreviation (input) SEEK_CUR :: nat where "SEEK_CUR \<equiv> 2"
abbreviation (input) SEEK_END :: nat where "SEEK_END \<equiv> 3"

text \<open>A negative descriptor is only reported; the access to the table is then out of range.\<close>

definition sys_lseek :: "int \<Rightarrow> int \<Rightarrow> nat \<Rightarrow> fs \<Rightarrow> (int \<times> fs) option" where
  "sys_lseek fd offset whence s = do {
     _ \<leftarrow> ensure (SEEK_SET \<le> whence \<and> whence \<le> SEEK_END);
     g \<leftarrow> fd_idx2global_ftable_idx (of_s32 fd) s;
     pf \<leftarrow> rd_at (file_table s) g;
     i \<leftarrow> inodes s (fd_inode pf);
     let file_size = s32 (i_bsize i);
     let new_pos = (if whence = SEEK_CUR then s32 (of_s32 (s32 (fd_pos pf) + offset))
       else if whence = SEEK_SET then offset
       else s32 (of_s32 (file_size + offset)));
     if new_pos \<le> 0 \<or> new_pos > file_size - 1 then Some (- 1, s)
     else do {
       s \<leftarrow> upd_file g (\<lambda>f. f\<lparr>fd_pos := nat new_pos\<rparr>) s;
       Some (new_pos, s)
     }
   }"

section \<open>Deleting files\<close>

definition inode_delete :: "nat \<Rightarrow> byte list \<Rightarrow> fs \<Rightarrow> fs option" where
  "inode_delete inode_no io_buf s = do {
     pos \<leftarrow> inode_locate s inode_no;
     let block_read_cnt = (if two_sec pos then 2 else 1);
     inode_buf \<leftarrow> ide_read s (sec_lba pos) io_buf block_read_cnt;
     _ \<leftarrow> ensure (off_size pos + inode_size \<le> length inode_buf);
     ide_write (sec_lba pos) (put_bytes (off_size pos) (replicate inode_size 0) inode_buf)
       block_read_cnt s
   }"

text \<open>The blocks in the list are given back; the first data block never is.\<close>

definition release_block :: "nat \<Rightarrow> fs \<Rightarrow> fs option" where
  "release_block lba s = do {
     _ \<leftarrow> ensure (sub32 lba (data_start_lba (sb s)) > 0);
     free_block lba s
   }"

fun release_blocks :: "nat list \<Rightarrow> fs \<Rightarrow> fs option" where
  "release_blocks [] s = Some s"
| "release_blocks (b # bs) s =
     (if b \<noteq> 0 then Option.bind (release_block b s) (release_blocks bs) else release_blocks bs s)"

definition inode_release :: "nat \<Rightarrow> fs \<Rightarrow> fs option" where
  "inode_release inode_no s = do {
     (a, s) \<leftarrow> inode_open inode_no s;
     i \<leftarrow> inodes s a;
     let direct = take 12 (i_sectors i);
     (all_blocks, s) \<leftarrow> (if i_sectors i ! 12 \<noteq> 0 then do {
         t \<leftarrow> ide_read s (i_sectors i ! 12) (replicate 512 0) 1;
         s \<leftarrow> release_block (i_sectors i ! 12) s;
         Some (direct @ words_of t, s)
       } else Some (direct, s));
     s \<leftarrow> release_blocks all_blocks s;
     bm \<leftarrow> bitmap_set (inode_bitmap s) inode_no 0;
     s \<leftarrow> bitmap_sync inode_no INODE_BITMAP (s\<lparr>inode_bitmap := bm\<rparr>);
     let (io_buf, s) = fs_malloc s;
     _ \<leftarrow> ensure (io_buf \<noteq> 0);
     s \<leftarrow> inode_delete inode_no (replicate 1024 0) s;
     inode_close a s
   }"

text \<open>
  The number of the inode of an open file. For a pipe the pointer leads to a ring, whose first
  word is the holder of its lock.
\<close>

definition fd_i_no :: "open_file \<Rightarrow> fs \<Rightarrow> nat option" where
  "fd_i_no f s = (case inodes s (fd_inode f) of
       Some i \<Rightarrow> Some (i_no i)
     | None \<Rightarrow> map_option (\<lambda>q. holder (io_lock q)) (pipes s (fd_inode f)))"

fun file_in_use :: "open_file list \<Rightarrow> int \<Rightarrow> fs \<Rightarrow> bool option" where
  "file_in_use [] inode_no s = Some False"
| "file_in_use (f # fs) inode_no s =
     (if fd_inode f \<noteq> 0 then do {
        n \<leftarrow> fd_i_no f s;
        if s32 n = inode_no then Some True else file_in_use fs inode_no s
      } else file_in_use fs inode_no s)"

definition sys_unlink :: "path \<Rightarrow> fs \<Rightarrow> (bool \<times> fs) option" where
  "sys_unlink pathname s = do {
     (inode_no, rec, s) \<leftarrow> search_file pathname zero_record s;
     if inode_no = - 1 then Some (False, s)
     else if file_type rec = FT_DIRECTORY then Some (False, s)
     else do {
       in_use \<leftarrow> file_in_use (take MAX_FILE_OPEN (file_table s)) inode_no s;
       if in_use then do {
         s \<leftarrow> dir_close (parent_dir rec) s;
         Some (False, s)
       } else do {
         let (io_buf, s) = fs_malloc s;
         if io_buf = 0 then do {
           s \<leftarrow> dir_close (parent_dir rec) s;
           Some (False, s)
         } else do {
           (flag, s) \<leftarrow> delete_dir_entry (parent_dir rec) (nat inode_no) (replicate 1024 0) s;
           if \<not> flag then do {
             s \<leftarrow> dir_close (parent_dir rec) s;
             Some (False, s)
           } else do {
             s \<leftarrow> inode_release (nat inode_no) s;
             s \<leftarrow> dir_close (parent_dir rec) s;
             Some (True, s)
           }
         }
       }
     }
   }"

section \<open>Directories\<close>

text \<open>The rollback of \<open>sys_mkdir\<close> from step \<open>n\<close> on.\<close>

definition rollback_mkdir :: "nat \<Rightarrow> nat \<Rightarrow> nat \<Rightarrow> nat \<Rightarrow> fs \<Rightarrow> (bool \<times> fs) option" where
  "rollback_mkdir step block_bitmap_idx inode_no parent s = do {
     s \<leftarrow> (if step \<ge> 3 then do {
         bm \<leftarrow> bitmap_set (block_bitmap s) block_bitmap_idx 0;
         bitmap_sync block_bitmap_idx BLOCK_BITMAP (s\<lparr>block_bitmap := bm\<rparr>)
       } else Some s);
     s \<leftarrow> (if step \<ge> 2 then do {
         bm \<leftarrow> bitmap_set (inode_bitmap s) inode_no 0;
         Some (s\<lparr>inode_bitmap := bm\<rparr>)
       } else Some s);
     s \<leftarrow> dir_close parent s;
     Some (False, s)
   }"

text \<open>The first sector of a new directory.\<close>

definition dot_entries :: "nat \<Rightarrow> nat \<Rightarrow> byte list" where
  "dot_entries self parent =
     put_bytes 0 (de_bytes \<lparr>filename = put_bytes 0 [46] (replicate 16 0), de_i_no = self, f_type = FT_DIRECTORY\<rparr>
       @ de_bytes \<lparr>filename = put_bytes 0 [46, 46] (replicate 16 0), de_i_no = parent, f_type = FT_DIRECTORY\<rparr>)
     (replicate 1024 0)"

definition make_dir :: "path_seach_record \<Rightarrow> fs \<Rightarrow> (bool \<times> fs) option" where
  "make_dir rec s = do {
     let parent = parent_dir rec;
     dirname \<leftarrow> after_slash (searched_path rec);
     (no, new, s) \<leftarrow> inode_create s;
     if no = 0 then rollback_mkdir 1 0 0 parent s
     else do {
       new_inode \<leftarrow> new;
       let inode_no = nat no;
       (block_lba, s) \<leftarrow> block_bitmap_alloc s;
       if block_lba = - 1 then rollback_mkdir 2 0 inode_no parent s
       else do {
         let lba = nat block_lba;
         let new_inode = new_inode\<lparr>i_sectors := (i_sectors new_inode)[0 := lba]\<rparr>;
         let block_bitmap_idx = sub32 lba (data_start_lba (sb s));
         _ \<leftarrow> ensure (block_bitmap_idx \<noteq> 0);
         s \<leftarrow> bitmap_sync block_bitmap_idx BLOCK_BITMAP s;
         pi \<leftarrow> dir_inode_of parent s;
         s \<leftarrow> ide_write lba (dot_entries inode_no (i_no pi)) 1 s;
         let new_inode = new_inode\<lparr>i_bsize := mul32 2 (dir_entry_size (sb s))\<rparr>;
         de \<leftarrow> create_dir_entry dirname (i_no new_inode) FT_DIRECTORY zero_dir_entry;
         (ok, s) \<leftarrow> sync_dir_entry parent de (replicate 1024 0) s;
         if \<not> ok then rollback_mkdir 3 block_bitmap_idx inode_no parent s
         else do {
           pi \<leftarrow> dir_inode_of parent s;
           s \<leftarrow> inode_sync pi (replicate 1024 0) s;
           s \<leftarrow> inode_sync new_inode (replicate 1024 0) s;
           s \<leftarrow> bitmap_sync inode_no INODE_BITMAP s;
           s \<leftarrow> dir_close parent s;
           Some (True, s)
         }
       }
     }
   }"

definition sys_mkdir :: "path \<Rightarrow> fs \<Rightarrow> (bool \<times> fs) option" where
  "sys_mkdir pathname s = do {
     let (io_buf, s) = fs_malloc s;
     if io_buf = 0 then Some (False, s)
     else do {
       (inode_no, rec, s) \<leftarrow> search_file pathname zero_record s;
       if inode_no \<noteq> - 1 then rollback_mkdir 1 0 0 (parent_dir rec) s
       else do {
         pathname_depth \<leftarrow> path_depth_cnt pathname;
         path_serch_depth \<leftarrow> path_depth_cnt (searched_path rec);
         if pathname_depth \<noteq> path_serch_depth then rollback_mkdir 1 0 0 (parent_dir rec) s
         else make_dir rec s
       }
     }
   }"

definition sys_opendir :: "path \<Rightarrow> fs \<Rightarrow> (nat \<times> fs) option" where
  "sys_opendir name s = do {
     _ \<leftarrow> ensure (length name < MAX_PATH_LEN);
     if is_root_name name then Some (ROOT_DIR, s)
     else do {
       (inode_no, rec, s) \<leftarrow> search_file name zero_record s;
       (ret, s) \<leftarrow> (if inode_no \<noteq> - 1 \<and> file_type rec = FT_DIRECTORY
         then dir_open (nat inode_no) s else Some (0, s));
       s \<leftarrow> (if parent_dir rec \<noteq> 0 then dir_close (parent_dir rec) s else Some s);
       Some (ret, s)
     }
   }"

text \<open>A null pointer gives -1, which the caller takes for true as well.\<close>

definition sys_closedir :: "nat \<Rightarrow> fs \<Rightarrow> (int \<times> fs) option" where
  "sys_closedir dir s =
     (if dir \<noteq> 0 then map_option (\<lambda>s. (1, s)) (dir_close dir s) else Some (- 1, s))"

definition sys_readdir :: "nat \<Rightarrow> fs \<Rightarrow> (dir_entry option \<times> fs) option" where
  "sys_readdir dir s = do {
     _ \<leftarrow> ensure (dir \<noteq> 0);
     dir_read dir s
   }"

definition sys_rewinddir :: "nat \<Rightarrow> fs \<Rightarrow> fs option" where
  "sys_rewinddir dir s = upd_dir dir (\<lambda>d. d\<lparr>dir_pos := 0\<rparr>) s"

definition dir_is_empty :: "nat \<Rightarrow> fs \<Rightarrow> bool option" where
  "dir_is_empty dir s = do {
     i \<leftarrow> dir_inode_of dir s;
     Some (i_bsize i = mul32 (dir_entry_size (sb s)) 2)
   }"

definition dir_remove :: "nat \<Rightarrow> nat \<Rightarrow> fs \<Rightarrow> (bool \<times> fs) option" where
  "dir_remove pdir child_dir s = do {
     i \<leftarrow> dir_inode_of child_dir s;
     if \<exists>k \<in> set [1..<13]. i_sectors i ! k \<noteq> 0 then Some (False, s)
     else do {
       let (io_buf, s) = fs_malloc s;
       if io_buf = 0 then Some (False, s)
       else do {
         (_, s) \<leftarrow> delete_dir_entry pdir (i_no i) (replicate 1024 0) s;
         s \<leftarrow> inode_release (i_no i) s;
         Some (True, s)
       }
     }
   }"

definition sys_rmdir :: "path \<Rightarrow> fs \<Rightarrow> (bool \<times> fs) option" where
  "sys_rmdir pathname s = do {
     (inode_no, rec, s) \<leftarrow> search_file pathname zero_record s;
     (state, s) \<leftarrow> (if inode_no = - 1 \<or> file_type rec = FT_REGULAR then Some (False, s)
       else do {
         (dir, s) \<leftarrow> dir_open (nat inode_no) s;
         empty \<leftarrow> dir_is_empty dir s;
         (state, s) \<leftarrow> (if \<not> empty then Some (False, s) else dir_remove (parent_dir rec) dir s);
         s \<leftarrow> dir_close dir s;
         Some (state, s)
       });
     s \<leftarrow> dir_close (parent_dir rec) s;
     Some (state, s)
   }"

section \<open>Working directory and attributes\<close>

text \<open>The buffer of one sector stays allocated over the whole walk of \<open>sys_getcwd\<close>.\<close>

definition get_parent_dir_inode_nr :: "nat \<Rightarrow> byte list \<Rightarrow> fs \<Rightarrow> (nat \<times> byte list \<times> fs) option" where
  "get_parent_dir_inode_nr child_inode_nr io_buf s = do {
     (a, s) \<leftarrow> inode_open child_inode_nr s;
     i \<leftarrow> inodes s a;
     let block_lba = i_sectors i ! 0;
     _ \<leftarrow> ensure (block_lba \<noteq> 0);
     io_buf \<leftarrow> ide_read s block_lba io_buf 1;
     s \<leftarrow> inode_close a s;
     Some (rd32 io_buf (de_size + 16), io_buf, s)
   }"

text \<open>The entry number is not reset between blocks: only the first block in use is scanned.\<close>

fun child_entry :: "byte list \<Rightarrow> nat \<Rightarrow> nat \<Rightarrow> nat \<Rightarrow> nat option option" where
  "child_entry buf c_inode_nr k 0 = Some None"
| "child_entry buf c_inode_nr k (Suc n) = do {
     _ \<leftarrow> ensure ((k + 1) * de_size \<le> length buf);
     if rd32 buf (k * de_size + 16) = c_inode_nr then Some (Some k)
     else child_entry buf c_inode_nr (k + 1) n
   }"

fun child_blocks ::
  "fs \<Rightarrow> nat list \<Rightarrow> nat \<Rightarrow> nat \<Rightarrow> nat \<Rightarrow> byte list \<Rightarrow> (nat option \<times> byte list) option" where
  "child_blocks s [] c_inode_nr dir_entry_idx dir_sec io_buf = Some (None, io_buf)"
| "child_blocks s (b # bs) c_inode_nr dir_entry_idx dir_sec io_buf =
     (if b \<noteq> 0 then do {
        io_buf \<leftarrow> ide_read s b io_buf 1;
        r \<leftarrow> child_entry io_buf c_inode_nr dir_entry_idx (dir_sec - dir_entry_idx);
        case r of
          Some k \<Rightarrow> Some (Some k, io_buf)
        | None \<Rightarrow> child_blocks s bs c_inode_nr (max dir_entry_idx dir_sec) dir_sec io_buf
      } else child_blocks s bs c_inode_nr dir_entry_idx dir_sec io_buf)"

definition get_child_dir_name ::
  "nat \<Rightarrow> nat \<Rightarrow> path \<Rightarrow> byte list \<Rightarrow> fs \<Rightarrow> (bool \<times> path \<times> byte list \<times> fs) option" where
  "get_child_dir_name p_inode_nr c_inode_nr path io_buf s = do {
     (a, s) \<leftarrow> inode_open p_inode_nr s;
     i \<leftarrow> inodes s a;
     all_blocks \<leftarrow> copy_inode_isectors s i;
     s \<leftarrow> inode_close a s;
     let block_cnt = (if all_blocks ! 12 \<noteq> 0 then 140 else 12);
     _ \<leftarrow> ensure (dir_entry_size (sb s) \<noteq> 0);
     let dir_sec = 512 div dir_entry_size (sb s);
     (r, io_buf) \<leftarrow> child_blocks s (take block_cnt all_blocks) c_inode_nr 0 dir_sec io_buf;
     case r of
       None \<Rightarrow> Some (False, path, io_buf, s)
     | Some k \<Rightarrow> do {
         name \<leftarrow> cstr_in io_buf (k * de_size);
         let path = path @ slash # name;
         _ \<leftarrow> ensure (length path < MAX_PATH_LEN);
         Some (True, path, io_buf, s)
       }
   }"

text \<open>
  The walk up to the root; it does not end on a disk whose parent links have a cycle. The
  result is the reversed path, or \<open>None\<close> when a directory is not found in its parent.
\<close>

partial_function (option) climb ::
  "nat \<Rightarrow> path \<Rightarrow> byte list \<Rightarrow> fs \<Rightarrow> (path option \<times> fs) option" where
  "climb child_inode_nr path io_buf s =
     (if child_inode_nr = 0 then Some (Some path, s)
      else Option.bind (get_parent_dir_inode_nr child_inode_nr io_buf s)
        (\<lambda>(parent_inode_nr, io_buf, s).
           Option.bind (get_child_dir_name parent_inode_nr child_inode_nr path io_buf s)
             (\<lambda>(state, path, io_buf, s).
                if \<not> state then Some (None, s) else climb parent_inode_nr path io_buf s)))"

text \<open>The last component, with its slash, moves to the end of the result.\<close>

definition last_part :: "path \<Rightarrow> path" where
  "last_part p = slash # rev (takeWhile (\<lambda>c. c \<noteq> slash) (rev p))"

definition front_part :: "path \<Rightarrow> path" where
  "front_part p = rev (tl (dropWhile (\<lambda>c. c \<noteq> slash) (rev p)))"

lemma length_front_part: "slash \<in> set p \<Longrightarrow> length (front_part p) < length p"
proof -
  assume "slash \<in> set p"
  then have "dropWhile (\<lambda>c. c \<noteq> slash) (rev p) \<noteq> []" by (simp add: dropWhile_eq_Nil_conv)
  then have "0 < length (dropWhile (\<lambda>c. c \<noteq> slash) (rev p))" by simp
  moreover have "length (dropWhile (\<lambda>c. c \<noteq> slash) (rev p)) \<le> length p"
    using length_dropWhile_le [of "\<lambda>c. c \<noteq> slash" "rev p"] by simp
  ultimately show ?thesis unfolding front_part_def length_rev length_tl by linarith
qed

function reverse_path :: "path \<Rightarrow> path \<Rightarrow> path" where
  "reverse_path p buf =
     (if slash \<in> set p then reverse_path (front_part p) (buf @ last_part p) else buf)"
  by pat_completeness auto
termination by (relation "measure (\<lambda>(p, buf). length p)") (auto simp: length_front_part)

declare reverse_path.simps [simp del]

text \<open>The result is the null pointer (\<open>None\<close>) or the string in the buffer of \<open>n\<close> bytes.\<close>

definition sys_getcwd :: "nat \<Rightarrow> fs \<Rightarrow> (path option \<times> fs) option" where
  "sys_getcwd n s = do {
     let (io_buf, s) = fs_malloc s;
     if io_buf = 0 then Some (None, s)
     else do {
       cur \<leftarrow> cur_task s;
       let child_inode_nr = cwd_inode_nr cur;
       _ \<leftarrow> ensure (child_inode_nr \<le> 4096);
       if child_inode_nr = 0 then do {
         _ \<leftarrow> ensure (2 \<le> n);
         Some (Some [slash], s)
       } else do {
         (r, s) \<leftarrow> climb child_inode_nr [] (replicate 512 0) s;
         case r of
           None \<Rightarrow> Some (None, s)
         | Some p \<Rightarrow> do {
             let buf = reverse_path p [];
             _ \<leftarrow> ensure (length buf < n);
             Some (Some buf, s)
           }
       }
     }
   }"

definition sys_chdir :: "path \<Rightarrow> fs \<Rightarrow> (bool \<times> fs) option" where
  "sys_chdir path s = do {
     (inode_no, rec, s) \<leftarrow> search_file path zero_record s;
     if inode_no \<noteq> - 1 \<and> file_type rec = FT_DIRECTORY then do {
       s \<leftarrow> upd_cur (\<lambda>t. t\<lparr>cwd_inode_nr := nat inode_no\<rparr>) s;
       Some (True, s)
     } else Some (False, s)
   }"

record stat_buf =
  st_ino :: nat
  st_size :: nat
  st_file_type :: nat

text \<open>\<open>None\<close> in the result: the path does not exist and the buffer is not filled.\<close>

definition sys_stat :: "path \<Rightarrow> fs \<Rightarrow> (stat_buf option \<times> fs) option" where
  "sys_stat path s =
     (if is_root_name path then do {
        i \<leftarrow> dir_inode_of ROOT_DIR s;
        Some (Some \<lparr>st_ino = 0, st_size = i_bsize i, st_file_type = FT_DIRECTORY\<rparr>, s)
      } else do {
        (inode_no, rec, s) \<leftarrow> search_file path zero_record s;
        if inode_no \<noteq> - 1 then do {
          (a, s) \<leftarrow> inode_open (nat inode_no) s;
          i \<leftarrow> inodes s a;
          Some (Some \<lparr>st_ino = i_no i, st_size = i_bsize i, st_file_type = file_type rec\<rparr>, s)
        } else Some (None, s)
      })"

section \<open>Positions\<close>

lemma s32_of_s32: "- 2147483648 \<le> t \<Longrightarrow> t < 2147483648 \<Longrightarrow> s32 (of_s32 t) = t"
proof -
  assume t: "- 2147483648 \<le> t" "t < 2147483648"
  show "s32 (of_s32 t) = t"
  proof (cases "0 \<le> t")
    case True
    then show ?thesis using t by simp
  next
    case False
    have m: "t mod 4294967296 = t + 4294967296"
      using mod_pos_pos_trivial [of "t + 4294967296" 4294967296] t False by simp
    then have "int (of_s32 t) = t + 4294967296" using t by (simp add: of_s32_def)
    moreover from this have "of_s32 t < 4294967296" "\<not> of_s32 t < 2147483648" using t False by auto
    ultimately show ?thesis by (simp add: s32_def)
  qed
qed

definition seek_target :: "open_file \<Rightarrow> inode \<Rightarrow> int \<Rightarrow> nat \<Rightarrow> int" where
  "seek_target f i offset whence =
     (if whence = SEEK_CUR then int (fd_pos f) else if whence = SEEK_SET then 0 else int (i_bsize i)) + offset"

text \<open>A seek succeeds exactly for the positions strictly inside the file; 0 is refused.\<close>

lemma sys_lseek_runs:
  assumes "fd_idx2global_ftable_idx fd s = Some g" and "fd < 2147483648" and "g < length (file_table s)"
    and "inodes s (fd_inode (file_table s ! g)) = Some i" and "i_bsize i < 2147483648"
    and "fd_pos (file_table s ! g) < 2147483648" and "1 \<le> whence" and "whence \<le> 3"
    and "t = seek_target (file_table s ! g) i offset whence"
    and "- 2147483648 \<le> t" and "t < 2147483648"
  shows "sys_lseek (int fd) offset whence s = Some (if 0 < t \<and> t < int (i_bsize i)
    then (t, s\<lparr>file_table := (file_table s)[g := (file_table s ! g)\<lparr>fd_pos := nat t\<rparr>]\<rparr>) else (- 1, s))"
proof -
  have "s32 (of_s32 (s32 (fd_pos (file_table s ! g)) + offset)) = t" if "whence = 2"
    using that assms(6,9-11) by (simp add: s32_of_s32 seek_target_def)
  moreover have "offset = t" if "whence = 1" using that assms(9) by (simp add: seek_target_def)
  moreover have "s32 (of_s32 (s32 (i_bsize i) + offset)) = t" if "whence = 3"
    using that assms(5,9-11) by (simp add: s32_of_s32 seek_target_def)
  ultimately have "(if whence = 2 then s32 (of_s32 (s32 (fd_pos (file_table s ! g)) + offset))
      else if whence = 1 then offset else s32 (of_s32 (s32 (i_bsize i) + offset))) = t"
    using assms(7,8) by auto
  then show ?thesis using assms(1-5,7,8) by (auto simp: sys_lseek_def upd_file_def Let_def)
qed

section \<open>Reading and writing by descriptor\<close>

text \<open>A descriptor of a file that is not a pipe.\<close>

definition fd_file :: "fs \<Rightarrow> int \<Rightarrow> nat \<Rightarrow> bool" where
  "fd_file s fd g \<longleftrightarrow> 2 \<le> fd \<and> fd_idx2global_ftable_idx (nat fd) s = Some g
     \<and> g < length (file_table s) \<and> fd_flag (file_table s ! g) \<noteq> PIPE_FLAG"

lemma is_pipe_file: "fd_file s fd g \<Longrightarrow> is_pipe (nat fd) s = Some False"
  by (simp add: is_pipe_def fd_file_def)

lemma sys_read_file: "fd_file s fd g \<Longrightarrow> 0 < count \<Longrightarrow> sys_read fd count s = file_read g count s"
  using is_pipe_file [of s fd g] by (auto simp: sys_read_def fd_file_def)

lemma sys_write_file:
  "fd_file s fd g \<Longrightarrow> buf \<noteq> [] \<Longrightarrow> fd_flag (file_table s ! g) AND O_RW \<noteq> 0
      \<or> fd_flag (file_table s ! g) AND O_WRITE \<noteq> 0 \<Longrightarrow>
    sys_write fd buf s = file_write g buf s"
  using is_pipe_file [of s fd g] by (auto simp: sys_write_def fd_file_def)

lemma sys_write_refused:
  "fd_file s fd g \<Longrightarrow> buf \<noteq> [] \<Longrightarrow> fd_flag (file_table s ! g) AND O_RW = 0 \<Longrightarrow>
    fd_flag (file_table s ! g) AND O_WRITE = 0 \<Longrightarrow>
    sys_write fd buf s = Some (- 1, s\<lparr>console := console s @ not_allowed\<rparr>)"
  using is_pipe_file [of s fd g] by (auto simp: sys_write_def fd_file_def)

lemma length_file_content:
  assumes "file_ok s i"
  shows "length (file_content s i) = i_bsize i"
proof -
  have "\<forall>b. length (hd_sectors s b) = 512" using assms by (simp add: file_ok_def disk_ok_def)
  from length_concat_sectors [OF this]
  show ?thesis using assms by (simp add: file_content_def file_ok_def)
qed

text \<open>Data appended to a file is read back at the old end of the file.\<close>

lemma seek_read:
  assumes "fd_file s1 fd g" and "fd < 2147483648" and "buf \<noteq> []" and "length buf < 2147483648"
    and "inodes s1 (fd_inode (file_table s1 ! g)) = Some i1" and "file_ok s1 i1"
    and "i_bsize i1 = n + length buf" and "file_content s1 i1 = old @ buf" and "length old = n" and "0 < n"
    and "heap_ok s1 (next_addr s1)" and "heap_ok s1 (next_addr s1 + 1)" and "0 < next_addr s1"
  shows "\<exists>s2 s3. sys_lseek fd (int n) SEEK_SET s1 = Some (int n, s2)
    \<and> sys_read fd (length buf) s2 = Some (int (length buf), buf, s3)"
proof -
  have big: "n + length buf < 71168" using assms(6,7) by (simp add: file_ok_def)
  define f1 where "f1 = (file_table s1 ! g)\<lparr>fd_pos := n\<rparr>"
  define s2 where "s2 = s1\<lparr>file_table := (file_table s1)[g := f1]\<rparr>"
  have g: "g < length (file_table s1)" "fd_idx2global_ftable_idx (nat fd) s1 = Some g" and fd0: "0 \<le> fd"
    using assms(1) by (simp_all add: fd_file_def)
  have fd2: "fd_file s2 fd g"
    using assms(1) by (simp add: fd_file_def fd_idx2global_ftable_idx_def cur_task_def s2_def f1_def)
  have "sys_lseek fd (int n) SEEK_SET s1 = Some (int n, s2)"
  proof -
    have "sys_lseek fd (int n) SEEK_SET s1 = Some (if 0 < int n \<and> int n < s32 (i_bsize i1)
        then (int n, s2) else (- 1, s1))"
      using g fd0 assms(2,5,7) big by (simp add: sys_lseek_def upd_file_def s2_def f1_def)
    then show ?thesis using assms(3,7,10) big by simp
  qed
  moreover have "sys_read fd (length buf) s2 = file_read g (length buf) s2"
    using fd2 assms(3) by (intro sys_read_file) simp_all
  moreover have pos: "fd_pos f1 = n" by (simp add: f1_def)
  moreover have "file_read g (length buf) s2 = Some (int (length buf), sub_bytes (fd_pos f1) (length buf) (file_content s2 i1),
      s2\<lparr>next_addr := next_addr s2 + 2, file_table := (file_table s2)[g := f1\<lparr>fd_pos := fd_pos f1 + length buf\<rparr>]\<rparr>)"
  proof (rule file_read_runs)
    show "file_ok s2 i1" using assms(6) by (simp add: file_ok_def s2_def file_blocks_def)
  qed (use g assms(3-5,7,11-13) in \<open>simp_all add: s2_def f1_def\<close>)
  moreover have "file_content s2 i1 = file_content s1 i1" by (simp add: s2_def)
  ultimately show ?thesis using assms(8,9) by (auto simp: sub_bytes_def)
qed

lemma sys_write_appends:
  assumes "fd_file s fd g" and "buf \<noteq> []"
    and "fd_flag (file_table s ! g) AND O_RW \<noteq> 0 \<or> fd_flag (file_table s ! g) AND O_WRITE \<noteq> 0"
    and "inodes s (fd_inode (file_table s ! g)) = Some i" and "writable s i (length buf)"
  shows "\<exists>s1 i1. sys_write fd buf s = Some (int (length buf), s1)
    \<and> inodes s1 (fd_inode (file_table s1 ! g)) = Some i1 \<and> i_bsize i1 = i_bsize i + length buf
    \<and> file_content s1 i1 = file_content s i @ buf \<and> file_sound s1 i1
    \<and> disk_inode s1 (i_no i) = i1\<lparr>i_open_cnts := 0, write_deny := False\<rparr>
    \<and> fd_file s1 fd g \<and> file_ok s1 i1
    \<and> heap_ok s1 (next_addr s1) \<and> heap_ok s1 (next_addr s1 + 1) \<and> 0 < next_addr s1"
proof -
  let ?a = "fd_inode (file_table s ! g)"
  have g: "g < length (file_table s)" using assms(1) by (simp add: fd_file_def)
  obtain s1 i1 where s1: "file_write g buf s = Some (int (length buf), s1)" "inodes s1 ?a = Some i1"
      "i_bsize i1 = i_bsize i + length buf" "file_content s1 i1 = file_content s i @ buf"
      "disk_inode s1 (i_no i) = i1\<lparr>i_open_cnts := 0, write_deny := False\<rparr>" "file_sound s1 i1" "file_ok s1 i1"
      "fs_kept g s s1" "next_addr s1 \<le> next_addr s + 148" "0 < next_addr s1" "next_addr s \<le> next_addr s1"
    using file_write_appends [OF g refl assms(4,5)] by (elim exE conjE) (rule that)
  have "fd_file s1 fd g"
    using assms(1) s1(8) by (simp add: fd_file_def fd_idx2global_ftable_idx_def cur_task_def fs_kept_def)
  moreover have "heap_ok s1 (next_addr s1 + x)" if "x < 2" for x
  proof -
    have "heap_ok s (next_addr s + (next_addr s1 - next_addr s + x))"
      using assms(5) s1(9) that by (simp add: writable_def)
    then show ?thesis using s1(8,11) by (simp add: fs_kept_def)
  qed
  from this [of 0] this [of 1] have "heap_ok s1 (next_addr s1)" "heap_ok s1 (next_addr s1 + 1)" by simp_all
  ultimately show ?thesis
    using s1 sys_write_file [OF assms(1-3)] by (intro exI [of _ s1] exI [of _ i1]) (simp add: fs_kept_def)
qed

section \<open>Pipes\<close>

text \<open>While nobody waits for data, writing does not touch the scheduler.\<close>

lemma send_all_quiet:
  assumes "io_usable (q, k)" and "consumer q = 0" and "length (ioq_seq q) + length bs \<le> 63"
  shows "\<exists>q'. send_all io_put bs (q, k) = Some (q', k) \<and> io_usable (q', k) \<and> ioq_seq q' = ioq_seq q @ bs"
proof -
  have "\<exists>q'. send_all io_put bs (q, k) = Some (q', k)"
    using assms
  proof (induction bs arbitrary: q)
    case (Cons b bs)
    let ?q = "(ring_put b q)\<lparr>consumer := 0\<rparr>"
    have wf: "ioq_wf q" and l: "ioq_length q < 63" using Cons.prems by (auto simp: io_usable_def)
    have p: "io_put b (q, k) = Some (?q, k)"
      using ioq_putchar_runs [OF Cons.prems(1) l, of b] Cons.prems(2) by (simp add: io_put_def)
    moreover from ring.send_fits [OF Cons.prems(1), of "[b]"] l p have "io_usable (?q, k)" by simp
    moreover have "ioq_seq ?q = ioq_seq q @ [b]" using ring_put_seq [OF wf l] by simp
    ultimately show ?case using Cons.IH [of ?q] Cons.prems(3) by simp
  qed simp
  with ring.send_fits [OF assms(1), of bs] assms(3) show ?thesis by auto
qed

lemma pcb_fd_install_kern: "pcb_fd_install g s = Some (r, s') \<Longrightarrow> \<exists>k. s' = s\<lparr>kern := k\<rparr>"
proof -
  have same: "\<exists>k. t = t\<lparr>kern := k\<rparr>" for t :: fs by (rule exI [of _ "kern t"]) simp
  show "pcb_fd_install g s = Some (r, s') \<Longrightarrow> \<exists>k. s' = s\<lparr>kern := k\<rparr>"
    using same by (auto simp: pcb_fd_install_def upd_cur_def runs_iff split: option.splits)
qed

lemma fresh_ring_usable [simp]: "io_usable (fresh_ring, k)" "ioq_seq fresh_ring = []"
    "consumer fresh_ring = 0"
  by (simp_all add: io_usable_def fresh_ring_def ioqueue_init_def ioq_wf_def buffer_size_def
      wakeable_def ioq_seq_def ioq_length_def sub32_small)

text \<open>A new pipe: both descriptors lead to the same entry and ring.\<close>

definition pipe_fd :: "fs \<Rightarrow> nat \<Rightarrow> nat \<Rightarrow> nat \<Rightarrow> ioqueue \<Rightarrow> bool" where
  "pipe_fd s fd g page q \<longleftrightarrow> fd_idx2global_ftable_idx fd s = Some g \<and> g < length (file_table s)
     \<and> fd_flag (file_table s ! g) = PIPE_FLAG \<and> fd_inode (file_table s ! g) = page
     \<and> pipes s page = Some q"

lemma pipe_fd_of: "pipe_fd s fd g page q \<Longrightarrow> is_pipe fd s = Some True \<and> pipe_of fd s = Some (page, q)"
  by (simp add: pipe_fd_def is_pipe_def pipe_of_def)

lemma pipe_fd_written: "pipe_fd s fd g page q \<Longrightarrow> pipe_fd (s\<lparr>pipes := (pipes s)(page \<mapsto> q')\<rparr>) fd g page q'"
  by (simp add: pipe_fd_def fd_idx2global_ftable_idx_def cur_task_def)

lemma free_slot_range:
  assumes "get_free_slot_in_file_table s = Some g" and "length (file_table s) = MAX_FILE_OPEN"
  shows "3 \<le> g" and "g < MAX_FILE_OPEN"
proof -
  have "3 + (MAX_FILE_OPEN - 3) \<le> length (file_table s)" using assms(2) by (simp add: MAX_FILE_OPEN_def)
  from free_slot_from_runs [OF this] assms(1) obtain k where "k < MAX_FILE_OPEN - 3" "g = 3 + k"
    unfolding get_free_slot_in_file_table_def by auto
  then show "3 \<le> g" and "g < MAX_FILE_OPEN" by simp_all
qed

lemma sys_pipe_runs:
  assumes "get_free_slot_in_file_table s = Some g" and "length (file_table s) = MAX_FILE_OPEN"
    and "cur_task s = Some cur" and "length (fd_table cur) = MAX_FILES_OPEN_PER_PROC"
    and "3 \<le> a" and "a < b" and "b < MAX_FILES_OPEN_PER_PROC"
    and "fd_table cur ! a = - 1" and "fd_table cur ! b = - 1"
    and "\<forall>j. 3 \<le> j \<and> j < b \<and> j \<noteq> a \<longrightarrow> fd_table cur ! j \<noteq> - 1"
    and "heap_ok s (next_addr s)" and "0 < next_addr s"
  shows "\<exists>s'. sys_pipe s = Some ((int a, int b), s')
    \<and> pipe_fd s' a g (next_addr s) fresh_ring \<and> pipe_fd s' b g (next_addr s) fresh_ring"
proof -
  let ?p = "next_addr s"
  have g: "g < MAX_FILE_OPEN" using free_slot_range [OF assms(1,2)] by simp
  define s0 where "s0 = s\<lparr>next_addr := ?p + 1, pipes := (pipes s)(?p \<mapsto> fresh_ring),
      file_table := (file_table s)[g := \<lparr>fd_pos = 2, fd_flag = PIPE_FLAG, fd_inode = ?p\<rparr>]\<rparr>"
  have "cur_task s0 = Some cur" using assms(3) by (simp add: s0_def cur_task_def)
  from pcb_fd_install_runs [OF this assms(4,5), of "int g"] assms(6-8,10) obtain s1
    where s1: "pcb_fd_install (int g) s0 = Some (int a, s1)"
      "cur_task s1 = Some (cur\<lparr>fd_table := (fd_table cur)[a := int g]\<rparr>)" by auto
  have l1: "length (fd_table (cur\<lparr>fd_table := (fd_table cur)[a := int g]\<rparr>)) = MAX_FILES_OPEN_PER_PROC"
    using assms(4) by simp
  have "3 \<le> b" using assms(5,6) by simp
  moreover have "\<forall>j. 3 \<le> j \<and> j < b \<longrightarrow> (fd_table cur)[a := int g] ! j \<noteq> - 1"
    using assms(4,6,7,10) by (simp add: nth_list_update)
  ultimately obtain s2
    where s2: "pcb_fd_install (int g) s1 = Some (int b, s2)"
      "cur_task s2 = Some (cur\<lparr>fd_table := (fd_table cur)[a := int g, b := int g]\<rparr>)"
    using pcb_fd_install_runs [OF s1(2) l1 _ assms(7), of "int g"] assms(6,9) by auto
  obtain k1 k2 where k: "s1 = s0\<lparr>kern := k1\<rparr>" "s2 = s1\<lparr>kern := k2\<rparr>"
    using pcb_fd_install_kern [OF s1(1)] pcb_fd_install_kern [OF s2(1)] by auto
  have fd: "fd_idx2global_ftable_idx a s2 = Some g" "fd_idx2global_ftable_idx b s2 = Some g"
    using s2(2) assms(4,6,7) g by (simp_all add: fd_idx2global_ftable_idx_def)
  have "sys_pipe s = Some ((int a, int b), s2)"
    using assms(1,2,11,12) s1(1) s2(1) g by (simp add: sys_pipe_def fs_malloc_def upd_file_def s0_def)
  then show ?thesis using fd assms(2) g k by (auto simp: pipe_fd_def s0_def)
qed

text \<open>Up to 63 bytes go through a new pipe without waiting.\<close>

lemma pipe_roundtrip:
  assumes "pipe_fd s a g page q" and "pipe_fd s b g page q" and "io_usable (q, kern s)"
    and "consumer q = 0" and "ioq_seq q = []" and "buf \<noteq> []" and "length buf \<le> 63"
  shows "\<exists>s1 s2. sys_write (int b) buf s = Some (int (length buf), s1)
    \<and> sys_read (int a) (length buf) s1 = Some (int (length buf), buf, s2)"
proof -
  obtain q' where q': "send_all io_put buf (q, kern s) = Some (q', kern s)" "io_usable (q', kern s)"
      "ioq_seq q' = buf"
    using send_all_quiet [OF assms(3,4), of buf] assms(5,7) by auto
  define s1 where "s1 = s\<lparr>pipes := (pipes s)(page \<mapsto> q')\<rparr>"
  have "pipe_write b buf s = Some (int (length buf), s1)"
  proof -
    have "ioq_wf q" "ioq_length q = 0" using assms(3,5) ioq_length_seq [of q] by (auto simp: io_usable_def)
    then have "sub32 buffer_size (ioq_length q) = 64" using ioq_left [of q] by (metis diff_zero)
    then show ?thesis using pipe_fd_of [OF assms(2)] assms(7) q'(1)
      by (simp add: pipe_write_def Let_def s1_def)
  qed
  then have "sys_write (int b) buf s = Some (int (length buf), s1)"
    using pipe_fd_of [OF assms(2)] assms(6) by (simp add: sys_write_def)
  moreover have p1: "pipe_fd s1 a g page q'" using pipe_fd_written [OF assms(1)] by (simp add: s1_def)
  have "io_usable (q', kern s1)" using q'(2) by (simp add: s1_def)
  from pipe_read_runs [OF conjunct2 [OF pipe_fd_of [OF p1]] this, of "length buf" "length buf"] q'(3)
  obtain s2 where "pipe_read a (length buf) s1 = Some (int (length buf), buf, s2)" using assms(6) by auto
  then have "sys_read (int a) (length buf) s1 = Some (int (length buf), buf, s2)"
    using pipe_fd_of [OF p1] assms(6) by (simp add: sys_read_def)
  ultimately show ?thesis by blast
qed

text \<open>Closing one end counts down; closing the last one frees the ring.\<close>

lemma upd_cur_runs:
  assumes "cur_task s = Some cur"
  shows "\<exists>s'. upd_cur f s = Some s' \<and> cur_task s' = Some (f cur) \<and> file_table s' = file_table s
    \<and> pipes s' = pipes s"
  using assms by (auto simp: upd_cur_def upd_task_def cur_task_def get_running_thread_pcb_def)

lemma sys_close_pipe:
  assumes "cur_task s = Some cur" and "fd_table cur ! a = int g" and "a < length (fd_table cur)"
    and "2 \<le> a" and "pipe_fd s a g page q" and "fd_pos (file_table s ! g) = n" and "0 < n" and "n < 4294967296"
  shows "\<exists>s'. sys_close (int a) s = Some (True, s')
    \<and> cur_task s' = Some (cur\<lparr>fd_table := (fd_table cur)[a := - 1]\<rparr>)
    \<and> pipes s' = (if n = 1 then (pipes s)(page := None) else pipes s)
    \<and> fd_pos (file_table s' ! g) = n - 1
    \<and> fd_inode (file_table s' ! g) = (if n = 1 then 0 else page)"
proof -
  have p: "fd_idx2global_ftable_idx a s = Some g" "g < length (file_table s)"
      "fd_inode (file_table s ! g) = page" "is_pipe a s = Some True"
    using assms(5) pipe_fd_of [OF assms(5)] by (auto simp: pipe_fd_def)
  have n: "sub32 n 1 = n - 1" using assms(7,8) by (simp add: sub32_small)
  define f where "f = (file_table s ! g)\<lparr>fd_pos := n - 1, fd_inode := (if n = 1 then 0 else page)\<rparr>"
  define s0 where "s0 = s\<lparr>pipes := (if n = 1 then (pipes s)(page := None) else pipes s),
      file_table := (file_table s)[g := f]\<rparr>"
  have f: "f = (if n = 1 then (file_table s ! g)\<lparr>fd_pos := 0, fd_inode := 0\<rparr>
      else (file_table s ! g)\<lparr>fd_pos := n - 1\<rparr>)"
    using p(3) by (simp add: f_def)
  have "cur_task s0 = Some cur" using assms(1) by (simp add: s0_def cur_task_def)
  from upd_cur_runs [OF this, of "\<lambda>t. t\<lparr>fd_table := (fd_table t)[a := - 1]\<rparr>"] obtain s'
    where s': "upd_cur (\<lambda>t. t\<lparr>fd_table := (fd_table t)[a := - 1]\<rparr>) s0 = Some s'"
      "cur_task s' = Some (cur\<lparr>fd_table := (fd_table cur)[a := - 1]\<rparr>)"
      "file_table s' = file_table s0" "pipes s' = pipes s0" by auto
  have "sys_close (int a) s = Some (True, s')"
    using assms(4,6,7) p n s'(1) f by (cases "n = 1") (auto simp: sys_close_def upd_file_def s0_def)
  then show ?thesis using s' p(2) by (auto simp: s0_def f_def)
qed

section \<open>Opening a file of the root directory\<close>

lemma components_one: "n \<noteq> [] \<Longrightarrow> slash \<notin> set n \<Longrightarrow> components (slash # n) = [n]"
  using components_name [of n "[]"] by (simp add: components_def)

lemma depth_one:
  assumes "n \<noteq> []" and "slash \<notin> set n" and "name_fits n"
  shows "path_depth_cnt (slash # n) = Some 1"
proof -
  have "names_fit (slash # n)" using assms components_one by (simp add: names_fit_def)
  moreover have "length n < 16" using assms(3) by (simp add: name_fits_def MAX_FILE_NAME_LEN_def)
  ultimately show ?thesis using path_depth_cnt_runs [of "slash # n"] components_one assms by simp
qed

definition root_name :: "fs \<Rightarrow> byte list \<Rightarrow> inode \<Rightarrow> bool" where
  "root_name s n i \<longleftrightarrow> dir_ok s ROOT_DIR \<and> dir_inode_of ROOT_DIR s = Some i
     \<and> n \<noteq> [] \<and> slash \<notin> set n \<and> name_fits n
     \<and> (\<forall>d \<in> set (dir_list s i). dname d = n \<longrightarrow> f_type d = FT_REGULAR)"

lemma search_root_name:
  assumes "root_name s n i" and "heap_ok s (next_addr s)" and "heap_ok s (next_addr s + 1)"
    and "0 < next_addr s"
  shows "search_file (slash # n) zero_record s =
    Some (case find (\<lambda>d. dname d = n) (dir_list s i) of
        Some d \<Rightarrow> (int (de_i_no d), \<lparr>searched_path = slash # n, parent_dir = ROOT_DIR, file_type = FT_REGULAR\<rparr>,
          s\<lparr>next_addr := next_addr s + 2\<rparr>)
      | None \<Rightarrow> (- 1, \<lparr>searched_path = slash # n, parent_dir = ROOT_DIR, file_type = FT_UNKNOW\<rparr>,
          s\<lparr>next_addr := next_addr s + 2\<rparr>))"
  using assms search_file_root_runs [of s i n zero_record] by (simp add: root_name_def zero_record_def)

text \<open>Without \<open>O_CREAT\<close> a name that is not in the directory is an error.\<close>

lemma sys_open_absent:
  assumes "root_name s n i" and "find (\<lambda>d. dname d = n) (dir_list s i) = None"
    and "flags AND O_CREAT = 0"
    and "heap_ok s (next_addr s)" and "heap_ok s (next_addr s + 1)" and "0 < next_addr s"
  shows "sys_open (slash # n) flags s = Some (- 1, s\<lparr>next_addr := next_addr s + 2\<rparr>)"
proof -
  have nm: "n \<noteq> []" "slash \<notin> set n" "name_fits n" using assms(1) by (auto simp: root_name_def)
  then have "n ! (length n - 1) \<in> set n" by simp
  then have "(slash # n) ! length n \<noteq> slash" using nm by (cases n) auto
  then show ?thesis
    using search_root_name [OF assms(1,4-6)] assms(2,3) depth_one [OF nm] nm
    by (simp add: sys_open_def dir_close_def)
qed

text \<open>The state that opening a file which nobody has open leads to.\<close>

definition opened :: "nat \<Rightarrow> nat \<Rightarrow> nat \<Rightarrow> nat \<Rightarrow> fs \<Rightarrow> fs \<Rightarrow> bool" where
  "opened no flags g k s s' \<longleftrightarrow> fd_file s' (int k) g
     \<and> (let a = fd_inode (file_table s' ! g) in
        file_table s' ! g = \<lparr>fd_pos = 0, fd_flag = flags, fd_inode = a\<rparr>
        \<and> open_inodes s' = a # open_inodes s
        \<and> inodes s' a = Some ((disk_inode s no)\<lparr>i_open_cnts := 1,
            write_deny := (flags AND O_WRITE \<noteq> 0 \<or> flags AND O_RW \<noteq> 0)\<rparr>))
     \<and> hd_sectors s' = hd_sectors s"

lemma file_open_runs:
  assumes "opens_ok s" and "\<forall>a \<in> set (open_inodes s). i_no (the (inodes s a)) \<noteq> no"
    and "table_ok s" and "exact_pos no" and "\<not> write_deny (disk_inode s no)" and "flags < 256"
    and "get_free_slot_in_file_table s = Some g" and "length (file_table s) = MAX_FILE_OPEN"
    and "cur_task s = Some cur" and "length (fd_table cur) = MAX_FILES_OPEN_PER_PROC"
    and "3 \<le> k" and "k < MAX_FILES_OPEN_PER_PROC" and "fd_table cur ! k = - 1"
    and "\<forall>j. 3 \<le> j \<and> j < k \<longrightarrow> fd_table cur ! j \<noteq> - 1"
    and "heap_ok s (next_addr s)" and "heap_ok s (next_addr s + 1)" and "0 < next_addr s"
  shows "\<exists>s'. file_open no flags s = Some (int k, s') \<and> opened no flags g k s s'"
proof -
  let ?a = "next_addr s" and ?w = "flags AND O_WRITE \<noteq> 0 \<or> flags AND O_RW \<noteq> 0"
  define s0 where "s0 = s\<lparr>next_addr := ?a + 2, open_inodes := ?a # open_inodes s,
      inodes := (inodes s)(?a \<mapsto> (disk_inode s no)\<lparr>i_open_cnts := 1, write_deny := ?w\<rparr>),
      file_table := (file_table s)[g := \<lparr>fd_pos = 0, fd_flag = flags, fd_inode = ?a\<rparr>]\<rparr>"
  have g: "g < MAX_FILE_OPEN" using free_slot_range [OF assms(7,8)] by simp
  have c0: "cur_task s0 = Some cur" using assms(9) by (simp add: s0_def cur_task_def)
  from pcb_fd_install_runs [OF c0 assms(10-14), of "int g"] obtain s1
    where s1: "pcb_fd_install (int g) s0 = Some (int k, s1)"
      "cur_task s1 = Some (cur\<lparr>fd_table := (fd_table cur)[k := int g]\<rparr>)" by auto
  obtain ks where ks: "s1 = s0\<lparr>kern := ks\<rparr>" using pcb_fd_install_kern [OF s1(1)] by auto
  have open1: "inode_open no s = Some (?a, s\<lparr>next_addr := ?a + 2,
    inodes := (inodes s)(?a \<mapsto> (disk_inode s no)\<lparr>i_open_cnts := 1\<rparr>),
    open_inodes := ?a # open_inodes s\<rparr>)"
    by (rule inode_open_miss [OF assms(1-4,15-17)])
  have di: "(disk_inode s no)\<lparr>i_open_cnts := 1\<rparr> =
      (disk_inode s no)\<lparr>i_open_cnts := 1, write_deny := False\<rparr>" using assms(5) by simp
  have "file_open no flags s = pcb_fd_install (int g) s0"
  proof (cases ?w)
    case True
    then show ?thesis using assms(5,7,8) open1 g
      by (simp add: file_open_def upd_file_def upd_inode_def set_intr_def s0_def)
        (intro arg_cong [where f = "pcb_fd_install (int g)"] fs.equality, simp_all)
  next
    case False
    then show ?thesis using assms(7,8) open1 g
      by (simp add: file_open_def upd_file_def s0_def)
        (intro arg_cong [where f = "pcb_fd_install (int g)"] fs.equality,
         use di in \<open>simp_all add: fun_eq_iff\<close>)
  qed
  moreover have "fd_idx2global_ftable_idx k s1 = Some g"
    using s1(2) assms(10,12) g by (simp add: fd_idx2global_ftable_idx_def)
  ultimately show ?thesis
    using s1(1) ks assms(6,8,11) g
    by (auto simp: opened_def fd_file_def s0_def PIPE_FLAG_def)
qed

lemma sys_open_existing:
  assumes "root_name s n i" and "find (\<lambda>d. dname d = n) (dir_list s i) = Some d"
    and "flags AND O_CREAT = 0" and "flags < 256"
    and "opens_ok s" and "\<forall>a \<in> set (open_inodes s). i_no (the (inodes s a)) \<noteq> de_i_no d"
    and "table_ok s" and "exact_pos (de_i_no d)" and "\<not> write_deny (disk_inode s (de_i_no d))"
    and "get_free_slot_in_file_table s = Some g" and "length (file_table s) = MAX_FILE_OPEN"
    and "cur_task s = Some cur" and "length (fd_table cur) = MAX_FILES_OPEN_PER_PROC"
    and "3 \<le> k" and "k < MAX_FILES_OPEN_PER_PROC" and "fd_table cur ! k = - 1"
    and "\<forall>j. 3 \<le> j \<and> j < k \<longrightarrow> fd_table cur ! j \<noteq> - 1"
    and "\<forall>m < 4. heap_ok s (next_addr s + m)" and "0 < next_addr s"
  shows "\<exists>s'. sys_open (slash # n) flags s = Some (int k, s') \<and> opened (de_i_no d) flags g k s s'"
proof -
  have nm: "n \<noteq> []" "slash \<notin> set n" "name_fits n" using assms(1) by (auto simp: root_name_def)
  then have "n ! (length n - 1) \<in> set n" by simp
  then have last: "(slash # n) ! length n \<noteq> slash" using nm by (cases n) auto
  have h: "heap_ok s (next_addr s)" "heap_ok s (next_addr s + 1)"
    using assms(18) [rule_format, of 0] assms(18) [rule_format, of 1] by auto
  let ?s = "s\<lparr>next_addr := next_addr s + 2\<rparr>"
  have "opens_ok ?s" "table_ok ?s" "disk_inode ?s (de_i_no d) = disk_inode s (de_i_no d)"
    using assms(5,7) by (auto simp: opens_ok_def table_ok_def disk_inode_def home_lba_def)
  moreover have "heap_ok ?s (next_addr ?s)" "heap_ok ?s (next_addr ?s + 1)"
    using assms(18) [rule_format, of 2] assms(18) [rule_format, of 3]
    by (simp_all add: numeral_2_eq_2 numeral_3_eq_3)
  moreover have "get_free_slot_in_file_table ?s = Some g" "cur_task ?s = Some cur"
    using assms(10,12) by (simp_all add: get_free_slot_in_file_table_def cur_task_def)
  ultimately obtain s' where s': "file_open (de_i_no d) flags ?s = Some (int k, s')"
      "opened (de_i_no d) flags g k ?s s'"
    using file_open_runs [of ?s "de_i_no d" flags g cur k] assms(4,6,8,9,11,13-17,19) by auto
  have "opened (de_i_no d) flags g k s s'" using s'(2) \<open>disk_inode ?s (de_i_no d) = _\<close>
    by (simp add: opened_def)
  moreover have "flags \<noteq> 4" using assms(3) by auto
  then have "sys_open (slash # n) flags s = file_open (de_i_no d) flags ?s"
    using search_root_name [OF assms(1) h assms(19)] assms(2,3) depth_one [OF nm] nm last
    by (simp add: sys_open_def dir_close_def)
  ultimately show ?thesis using s'(1) by auto
qed

section \<open>The working directory\<close>

text \<open>
  \<open>climb\<close> collects the names from the deepest directory to the topmost; turning the string
  round by components gives the path.
\<close>

lemma takeWhile_rev_name:
  assumes "slash \<notin> set n"
  shows "takeWhile (\<lambda>c. c \<noteq> slash) (rev (p @ slash # n)) = rev n"
    and "dropWhile (\<lambda>c. c \<noteq> slash) (rev (p @ slash # n)) = slash # rev p"
proof -
  have c: "\<And>c. c \<in> set (rev n) \<Longrightarrow> c \<noteq> slash" using assms by auto
  show "takeWhile (\<lambda>c. c \<noteq> slash) (rev (p @ slash # n)) = rev n"
    using takeWhile_append2 [of "rev n" "\<lambda>c. c \<noteq> slash" "slash # rev p"] c by simp
  show "dropWhile (\<lambda>c. c \<noteq> slash) (rev (p @ slash # n)) = slash # rev p"
    using dropWhile_append2 [of "rev n" "\<lambda>c. c \<noteq> slash" "slash # rev p"] c by simp
qed

lemma reverse_path_runs:
  "\<forall>n \<in> set ns. slash \<notin> set n \<Longrightarrow> reverse_path (join_path ns) buf = buf @ join_path (rev ns)"
proof (induction ns arbitrary: buf rule: rev_induct)
  case Nil
  then show ?case by (simp add: reverse_path.simps join_path_def)
next
  case (snoc n ns)
  have j: "join_path (ns @ [n]) = join_path ns @ slash # n" by (simp add: join_path_def)
  have "slash \<notin> set n" using snoc.prems by simp
  note w = takeWhile_rev_name [OF this, of "join_path ns"]
  have "reverse_path (join_path (ns @ [n])) buf = reverse_path (join_path ns) (buf @ slash # n)"
    unfolding j by (subst reverse_path.simps) (simp only: last_part_def front_part_def w, simp)
  then show ?case using snoc by (simp add: join_path_def)
qed

lemma sys_getcwd_root:
  assumes "cur_task s = Some cur" and "cwd_inode_nr cur = 0" and "2 \<le> n"
    and "heap_ok s (next_addr s)" and "0 < next_addr s"
  shows "sys_getcwd n s = Some (Some [slash], s\<lparr>next_addr := next_addr s + 1\<rparr>)"
  using assms by (simp add: sys_getcwd_def fs_malloc_def cur_task_def)

lemma sys_getcwd_climbs:
  assumes "cur_task s = Some cur" and "cwd_inode_nr cur = c" and "0 < c" and "c \<le> 4096"
    and "heap_ok s (next_addr s)" and "0 < next_addr s"
    and "climb c [] (replicate 512 0) (s\<lparr>next_addr := next_addr s + 1\<rparr>) = Some (Some (join_path ns), s')"
    and "\<forall>n \<in> set ns. slash \<notin> set n" and "length (join_path ns) < n"
  shows "sys_getcwd n s = Some (Some (join_path (rev ns)), s')"
proof -
  have "length (join_path (rev ns)) = length (join_path ns)"
    by (simp add: join_path_def length_concat rev_map [symmetric] comp_def)
  then show ?thesis using assms reverse_path_runs [OF assms(8), of "[]"]
    by (simp add: sys_getcwd_def fs_malloc_def cur_task_def)
qed

section \<open>Attributes\<close>

lemma sys_stat_root:
  assumes "is_root_name p" and "dir_inode_of ROOT_DIR s = Some i"
  shows "sys_stat p s = Some (Some \<lparr>st_ino = 0, st_size = i_bsize i, st_file_type = FT_DIRECTORY\<rparr>, s)"
  using assms by (simp add: sys_stat_def)

lemma sys_chdir_file:
  assumes "root_name s n i"
    and "heap_ok s (next_addr s)" and "heap_ok s (next_addr s + 1)" and "0 < next_addr s"
  shows "sys_chdir (slash # n) s = Some (False, s\<lparr>next_addr := next_addr s + 2\<rparr>)"
  using search_root_name [OF assms] by (auto simp: sys_chdir_def split: option.splits)

section \<open>Properties\<close>

text \<open>C12: A new pipe carries up to 63 bytes: what is written to its second descriptor is read from
  its first, in order and without waiting. The descriptors are the first two free ones.\<close>

theorem pipe_transfers:
  assumes "get_free_slot_in_file_table s = Some g" and "length (file_table s) = MAX_FILE_OPEN"
    and "cur_task s = Some cur" and "length (fd_table cur) = MAX_FILES_OPEN_PER_PROC"
    and "3 \<le> a" and "a < b" and "b < MAX_FILES_OPEN_PER_PROC"
    and "fd_table cur ! a = - 1" and "fd_table cur ! b = - 1"
    and "\<forall>j. 3 \<le> j \<and> j < b \<and> j \<noteq> a \<longrightarrow> fd_table cur ! j \<noteq> - 1"
    and "heap_ok s (next_addr s)" and "0 < next_addr s" and "buf \<noteq> []" and "length buf \<le> 63"
  shows "\<exists>s1 s2 s3. sys_pipe s = Some ((int a, int b), s1)
    \<and> sys_write (int b) buf s1 = Some (int (length buf), s2)
    \<and> sys_read (int a) (length buf) s2 = Some (int (length buf), buf, s3)"
proof -
  obtain s1 where s1: "sys_pipe s = Some ((int a, int b), s1)"
      "pipe_fd s1 a g (next_addr s) fresh_ring" "pipe_fd s1 b g (next_addr s) fresh_ring"
    using sys_pipe_runs [OF assms(1-12)] by blast
  from pipe_roundtrip [OF s1(2,3) fresh_ring_usable(1,3,2) assms(13,14)] s1(1) show ?thesis by blast
qed

lemma sample_slots:
  "get_free_slot_in_file_table sample_fs = Some 3" "length (file_table sample_fs) = MAX_FILE_OPEN"
  "cur_task sample_fs = Some (sample_task TASK_RUNNING)"
  "fd_table (sample_task st) = [0, 1, 2, - 1, - 1, - 1, - 1, - 1]"
  by (simp_all add: get_free_slot_in_file_table_def MAX_FILE_OPEN_def sample_fs_def cur_task_def
      get_running_thread_pcb_def sample_kst_def sample_task_def numeral_eq_Suc)

theorem pipe_transfers_witness:
  "\<exists>s1 s2 s3. sys_pipe sample_fs = Some ((3, 4), s1) \<and> sys_write 4 [7, 8] s1 = Some (2, s2)
    \<and> sys_read 3 2 s2 = Some (2, [7, 8], s3)"
proof -
  have "\<forall>j. 3 \<le> j \<and> j < 4 \<and> j \<noteq> 3 \<longrightarrow> fd_table (sample_task TASK_RUNNING) ! j \<noteq> - 1" by auto
  then show ?thesis
    using pipe_transfers [OF sample_slots(1-3), of 3 4 "[7, 8]"]
    by (simp add: sample_slots MAX_FILES_OPEN_PER_PROC_def) (simp add: sample_fs_def numeral_2_eq_2)
qed

text \<open>C2: What \<open>sys_write\<close> appends to a file is the end of its content afterwards, on the disk as in
  memory, whatever blocks the write had to allocate: the first block, direct ones, the table of the
  indirect blocks and blocks in it, up to 139 blocks in all. The file is sound again, its inode is the
  one on the disk, and for a file that was not empty \<open>sys_lseek\<close> to the old end and \<open>sys_read\<close> give the
  bytes back. (\<open>sys_lseek\<close> can not go to position 0. \<open>writable\<close> asks for a sound file and layout, for
  an inode with a place of its own on the disk, and for enough free blocks and memory.)\<close>

theorem write_then_read:
  assumes "fd_file s fd g" and "fd < 2147483648" and "buf \<noteq> []"
    and "fd_flag (file_table s ! g) AND O_RW \<noteq> 0 \<or> fd_flag (file_table s ! g) AND O_WRITE \<noteq> 0"
    and "inodes s (fd_inode (file_table s ! g)) = Some i" and "writable s i (length buf)"
  shows "\<exists>s1 i1. sys_write fd buf s = Some (int (length buf), s1)
    \<and> inodes s1 (fd_inode (file_table s1 ! g)) = Some i1
    \<and> file_content s1 i1 = file_content s i @ buf \<and> file_sound s1 i1
    \<and> disk_inode s1 (i_no i) = i1\<lparr>i_open_cnts := 0, write_deny := False\<rparr>
    \<and> (0 < i_bsize i \<longrightarrow> (\<exists>s2 s3. sys_lseek fd (int (i_bsize i)) SEEK_SET s1 = Some (int (i_bsize i), s2)
         \<and> sys_read fd (length buf) s2 = Some (int (length buf), buf, s3)))"
proof -
  obtain s1 i1 where s1: "sys_write fd buf s = Some (int (length buf), s1)"
      "inodes s1 (fd_inode (file_table s1 ! g)) = Some i1" "i_bsize i1 = i_bsize i + length buf"
      "file_content s1 i1 = file_content s i @ buf" "file_sound s1 i1"
      "disk_inode s1 (i_no i) = i1\<lparr>i_open_cnts := 0, write_deny := False\<rparr>" "fd_file s1 fd g" "file_ok s1 i1"
      "heap_ok s1 (next_addr s1)" "heap_ok s1 (next_addr s1 + 1)" "0 < next_addr s1"
    using sys_write_appends [OF assms(1,3-6)] by (elim exE conjE) (rule that)
  have "length (file_content s1 i1) = i_bsize i + length buf" using length_file_content [OF s1(8)] s1(3) by simp
  then have old: "length (file_content s i) = i_bsize i" unfolding s1(4) by simp
  have small: "length buf < 2147483648" using assms(6) by (simp add: writable_def)
  have "\<exists>s2 s3. sys_lseek fd (int (i_bsize i)) SEEK_SET s1 = Some (int (i_bsize i), s2)
      \<and> sys_read fd (length buf) s2 = Some (int (length buf), buf, s3)" if "0 < i_bsize i"
    by (rule seek_read [OF s1(7) assms(2,3) small s1(2,8,3,4) old that s1(9-11)])
  then show ?thesis using s1(1,2,4-6) by (intro exI [of _ s1] exI [of _ i1]) simp
qed

lemma sample_fd_file: "fd_file sample_open 3 3"
  by (simp add: fd_file_def fd_idx2global_ftable_idx_def cur_task_def get_running_thread_pcb_def
      sample_open_def sample_fs_def sample_kst_def PIPE_FLAG_def MAX_FILE_OPEN_def)

lemma sample_bits:
  "bmbit (block_bitmap sample_open) j = (j < 2)" if "j < 4096"
proof -
  have "bit (3 :: byte) k = (k < 2)" if "k < 8" for k
    using that by (simp add: less_Suc_eq numeral_eq_Suc) (elim disjE; simp)
  then show ?thesis using that
    by (cases "j < 8") (simp_all add: bmbit_def sample_open_def sample_fs_def nth_Cons')
qed

lemma sample_writable: "writable sample_open sample_open_file 600"
proof -
  have "disk_ok sample_open" using sample_disk_ok by (simp add: disk_ok_def sample_open_simps sample_fs_def)
  then have "layout_ok sample_open" "table_ok sample_open"
    using sample_table_ok
    by (simp_all add: layout_ok_def table_ok_def sample_open_def sample_fs_def sample_sb_def bm_wf_def max_lba_def)
  moreover have "used_block sample_open 614"
    using sample_bits [of 1]
    by (simp add: used_block_def sample_open_def sample_fs_def sample_sb_def bm_size_def max_lba_def)
  then have "blocks_sound sample_open sample_open_file 0"
  proof -
    have at: "(614 # replicate 139 0) ! t = (if t = 0 then 614 else 0 :: nat)" if "t < 140" for t
      using that by (simp add: nth_Cons')
    have sec: "i_sectors sample_open_file ! 12 = 0" "length (i_sectors sample_open_file) = 13"
      by (simp_all add: sample_file_def)
    show ?thesis
      unfolding blocks_sound_def sample_file_blocks sec
      using at \<open>used_block sample_open 614\<close> by (simp del: nth_Cons_numeral nth_Cons_0 split: if_splits)
  qed
  then have "file_sound sample_open sample_open_file" by (simp add: file_sound_def sample_file_def)
  moreover have "{2, 3, 4} \<subseteq> free_blocks sample_open" by (simp add: free_blocks_def sample_bits)
  from card_mono [OF finite_free_blocks this] have "3 \<le> card (free_blocks sample_open)" by simp
  moreover have "inode_ok sample_open_file" using sample_inodes_ok(2) by (simp add: inode_ok_def)
  ultimately show ?thesis
    by (simp add: writable_def exact_pos_def home_off_def home_lba_def sample_open_simps)
      (simp add: sample_open_def sample_fs_def sample_sb_def sample_file_def)
qed

text \<open>600 bytes appended to the file of five bytes, which gets its second block.\<close>

theorem write_then_read_witness:
  "\<exists>s1 s2 s3. sys_write 3 (replicate 600 6) sample_open = Some (600, s1) \<and> sys_lseek 3 5 1 s1 = Some (5, s2)
    \<and> sys_read 3 600 s2 = Some (600, replicate 600 6, s3)"
proof -
  have i: "inodes sample_open (fd_inode (file_table sample_open ! 3)) = Some sample_open_file"
    by (simp add: sample_open_simps)
  have "writable sample_open sample_open_file (length (replicate 600 (6 :: byte)))" using sample_writable by simp
  from write_then_read [OF sample_fd_file _ _ _ i this]
  have "\<exists>s1. sys_write 3 (replicate 600 6) sample_open = Some (600, s1) \<and> (\<exists>s2 s3. sys_lseek 3 5 1 s1 = Some (5, s2)
      \<and> sys_read 3 600 s2 = Some (600, replicate 600 6, s3))"
    by (auto simp: sample_open_simps sample_file_def)
  then show ?thesis by blast
qed

text \<open>C10: \<open>sys_open\<close> of a file of the root directory that nobody has open gives the first free
  descriptor; it leads to a new entry of the file table at position 0 with the given flags,
  whose inode is the one on the disk, opened once and locked against other writers when the
  flags allow writing. The disk does not change.\<close>

theorem open_finds_file:
  assumes "root_name s n i" and "find (\<lambda>d. dname d = n) (dir_list s i) = Some d"
    and "flags AND O_CREAT = 0" and "flags < 256"
    and "opens_ok s" and "\<forall>a \<in> set (open_inodes s). i_no (the (inodes s a)) \<noteq> de_i_no d"
    and "table_ok s" and "exact_pos (de_i_no d)" and "\<not> write_deny (disk_inode s (de_i_no d))"
    and "get_free_slot_in_file_table s = Some g" and "length (file_table s) = MAX_FILE_OPEN"
    and "cur_task s = Some cur" and "length (fd_table cur) = MAX_FILES_OPEN_PER_PROC"
    and "3 \<le> k" and "k < MAX_FILES_OPEN_PER_PROC" and "fd_table cur ! k = - 1"
    and "\<forall>j. 3 \<le> j \<and> j < k \<longrightarrow> fd_table cur ! j \<noteq> - 1"
    and "\<forall>m < 4. heap_ok s (next_addr s + m)" and "0 < next_addr s"
  shows "\<exists>s'. sys_open (slash # n) flags s = Some (int k, s') \<and> opened (de_i_no d) flags g k s s'"
  using assms by (rule sys_open_existing)

lemma sample_root_name: "root_name sample_fs [97] sample_open_root"
proof -
  have "f_type (sample_entry name m t) = t" for name m t by (simp add: sample_entry_def)
  then show ?thesis using sample_dir_ok sample_dir_inode unfolding root_name_def sample_dir_list
    by (auto simp: name_fits_def MAX_FILE_NAME_LEN_def)
qed

lemma sample_disk_file: "disk_inode sample_fs 1 = sample_file"
proof -
  have "sub_bytes 76 76 (inode_bytes sample_root @ inode_bytes sample_file @ r) = inode_bytes sample_file" for r
    using length_sample_inodes by (simp add: sub_bytes_def)
  then show ?thesis
    using inode_of_inode_bytes [OF sample_inodes_ok(2)]
    by (simp add: disk_inode_def home_off_def home_lba_def sample_fs_def sample_sb_def sample_sectors_def)
qed

theorem open_finds_file_witness:
  "\<exists>s'. sys_open [47, 97] 2 sample_fs = Some (3, s') \<and> opened 1 2 3 3 sample_fs s'"
proof -
  have "opens_ok sample_fs" by (simp add: opens_ok_def sample_fs_def)
  moreover have "\<forall>a \<in> set (open_inodes sample_fs). i_no (the (inodes sample_fs a)) \<noteq> 1"
    by (simp add: sample_fs_def sample_root_def)
  moreover have "exact_pos 1" by (simp add: exact_pos_def home_off_def)
  moreover have "\<not> write_deny (disk_inode sample_fs 1)" unfolding sample_disk_file by (simp add: sample_file_def)
  moreover have "de_i_no (sample_entry [97] 1 1) = 1" by (simp add: sample_entry_def)
  moreover have "\<forall>m < 4. heap_ok sample_fs (next_addr sample_fs + m)" "0 < next_addr sample_fs"
    by (simp_all add: sample_fs_def)
  moreover have "(2 :: nat) AND 4 = 0" by simp
  ultimately show ?thesis
    using open_finds_file [OF sample_root_name sample_find, of 2 3 "sample_task TASK_RUNNING" 3]
      sample_table_ok sample_slots by (simp add: MAX_FILES_OPEN_PER_PROC_def)
qed

text \<open>\<open>sys_lseek\<close> moves the position exactly to targets strictly between 0 and the size of
  the file; the start of the file and its end are refused and nothing changes then.\<close>

theorem lseek_inside:
  assumes "fd_idx2global_ftable_idx fd s = Some g" and "fd < 2147483648" and "g < length (file_table s)"
    and "inodes s (fd_inode (file_table s ! g)) = Some i" and "i_bsize i < 2147483648"
    and "fd_pos (file_table s ! g) < 2147483648" and "1 \<le> whence" and "whence \<le> 3"
    and "t = seek_target (file_table s ! g) i offset whence"
    and "- 2147483648 \<le> t" and "t < 2147483648"
  shows "sys_lseek (int fd) offset whence s = Some (if 0 < t \<and> t < int (i_bsize i)
    then (t, s\<lparr>file_table := (file_table s)[g := (file_table s ! g)\<lparr>fd_pos := nat t\<rparr>]\<rparr>) else (- 1, s))"
  using assms by (rule sys_lseek_runs)

theorem lseek_inside_witness: "sys_lseek 3 0 SEEK_SET sample_open = Some (- 1, sample_open)"
  using lseek_inside [of 3 sample_open 3 sample_open_file SEEK_SET 0 0] sample_fd_file
  by (simp add: sample_open_simps fd_file_def) (simp add: sample_file_def seek_target_def)

text \<open>The names that \<open>sys_getcwd\<close> collects from the deepest directory upwards are turned
  into the path from the root downwards.\<close>

theorem getcwd_reverses:
  assumes "\<forall>n \<in> set ns. slash \<notin> set n"
  shows "reverse_path (join_path ns) [] = join_path (rev ns)"
  using reverse_path_runs [OF assms, of "[]"] by simp

theorem getcwd_reverses_witness: "reverse_path [47, 98, 99, 47, 97] [] = [47, 97, 47, 98, 99]"
  using getcwd_reverses [of "[[98, 99], [97]]"] by (simp add: join_path_def)

text \<open>\<open>sys_close\<close> of a pipe descriptor frees the descriptor and counts the pipe's users
  down; with the last one the ring is freed and the entry of the file table becomes free.\<close>

theorem close_pipe_counts:
  assumes "cur_task s = Some cur" and "fd_table cur ! a = int g" and "a < length (fd_table cur)"
    and "2 \<le> a" and "pipe_fd s a g page q" and "fd_pos (file_table s ! g) = n" and "0 < n" and "n < 4294967296"
  shows "\<exists>s'. sys_close (int a) s = Some (True, s')
    \<and> cur_task s' = Some (cur\<lparr>fd_table := (fd_table cur)[a := - 1]\<rparr>)
    \<and> pipes s' = (if n = 1 then (pipes s)(page := None) else pipes s)
    \<and> fd_pos (file_table s' ! g) = n - 1
    \<and> fd_inode (file_table s' ! g) = (if n = 1 then 0 else page)"
  using assms by (rule sys_close_pipe)

theorem close_pipe_counts_witness:
  "\<exists>s'. sys_close 2 sample_piped = Some (True, s') \<and> fd_pos (file_table s' ! 2) = 1"
proof -
  have "cur_task sample_piped = Some (sample_task TASK_RUNNING)"
    using sample_slots(3) by (simp add: sample_piped_def cur_task_def)
  moreover from this have "pipe_fd sample_piped 2 2 60 fresh_ring"
    by (simp add: pipe_fd_def fd_idx2global_ftable_idx_def sample_slots MAX_FILE_OPEN_def)
      (simp add: sample_piped_def sample_fs_def)
  moreover have "fd_pos (file_table sample_piped ! 2) = 2" by (simp add: sample_piped_def sample_fs_def)
  ultimately show ?thesis
    using close_pipe_counts [of sample_piped "sample_task TASK_RUNNING" 2 2 60 fresh_ring 2]
    by (auto simp: sample_slots)
qed

end
