(* ===== verification/FsInit.thy ===== *)
theory FsInit
  imports Prelude FileSys
begin

text \<open>
  Formatting and mounting (\<open>partition_format\<close>, \<open>mount_partition\<close>, \<open>search_filesys\<close> and
  \<open>filesys_init\<close> of \<open>fs/fs.c\<close>). The lemmas show that a formatted and mounted partition is an
  empty file system: a root directory with the entries "." and "..", with the first two block
  bits and the first inode bit in use.
\<close>

section \<open>The super block on the disk\<close>

definition sb_words :: "super_block \<Rightarrow> nat list" where
  "sb_words b = [magic b, sb_sec_cnt b, inode_cnt b, part_lba_base b, block_bitmap_lba b,
     block_bitmap_sects b, inode_bitmap_lba b, inode_bitmap_sects b, inode_table_lba b,
     inode_table_sects b, root_inode_no b, dir_entry_size b, data_start_lba b]"

text \<open>The padding of the structure is whatever the stack held.\<close>

definition sb_bytes :: "super_block \<Rightarrow> byte list \<Rightarrow> byte list" where
  "sb_bytes b pad = concat (map le32 (sb_words b)) @ pad"

definition sb_of_bytes :: "byte list \<Rightarrow> super_block" where
  "sb_of_bytes bs = (let w = (\<lambda>k. rd32 bs (4 * k)) in
     \<lparr>magic = w 0, sb_sec_cnt = w 1, inode_cnt = w 2, part_lba_base = w 3, block_bitmap_lba = w 4,
      block_bitmap_sects = w 5, inode_bitmap_lba = w 6, inode_bitmap_sects = w 7,
      inode_table_lba = w 8, inode_table_sects = w 9, root_inode_no = w 10, dir_entry_size = w 11,
      data_start_lba = w 12\<rparr>)"

definition FS_MAGIC :: nat where
  "FS_MAGIC = 0x10190498"

definition MAX_FILES_PER_PART :: nat where
  "MAX_FILES_PER_PART = 4096"

definition BITS_PER_SECTOR :: nat where
  "BITS_PER_SECTOR = 4096"

section \<open>Formatting\<close>

definition bitmap_bit_len :: "nat \<Rightarrow> nat" where
  "bitmap_bit_len sec_cnt =
     (let inode_bitmap_sector = DIV_ROUND_UP MAX_FILES_PER_PART BITS_PER_SECTOR;
          inode_table_sects = DIV_ROUND_UP (mul32 inode_size MAX_FILES_PER_PART) 512;
          used_sects = 1 + 1 + inode_table_sects + inode_bitmap_sector;
          free_sects = sub32 sec_cnt used_sects
      in sub32 free_sects (DIV_ROUND_UP free_sects BITS_PER_SECTOR))"

definition new_super_block :: "nat \<Rightarrow> nat \<Rightarrow> super_block" where
  "new_super_block start_lba sec_cnt =
     (let bb_sects = DIV_ROUND_UP (bitmap_bit_len sec_cnt) BITS_PER_SECTOR;
          ib_sects = DIV_ROUND_UP MAX_FILES_PER_PART BITS_PER_SECTOR;
          it_sects = DIV_ROUND_UP (mul32 inode_size MAX_FILES_PER_PART) 512;
          bb_lba = add32 start_lba 2;
          ib_lba = add32 bb_lba bb_sects;
          it_lba = add32 ib_lba ib_sects
      in \<lparr>magic = FS_MAGIC, sb_sec_cnt = sec_cnt, inode_cnt = MAX_FILES_PER_PART,
          part_lba_base = start_lba, block_bitmap_lba = bb_lba, block_bitmap_sects = bb_sects,
          inode_bitmap_lba = ib_lba, inode_bitmap_sects = ib_sects, inode_table_lba = it_lba,
          inode_table_sects = it_sects, root_inode_no = 0, dir_entry_size = de_size,
          data_start_lba = add32 it_lba it_sects\<rparr>)"

text \<open>The bytes after the block bitmap are set, then the low bits of the first of them cleared.\<close>

fun clear_bits :: "nat \<Rightarrow> nat \<Rightarrow> byte \<Rightarrow> byte" where
  "clear_bits k 0 b = b"
| "clear_bits k (Suc n) b = clear_bits (k + 1) n (b AND NOT (push_bit k 1))"

definition fill_block_bitmap :: "nat \<Rightarrow> byte list \<Rightarrow> byte list option" where
  "fill_block_bitmap bit_len buf = do {
     let last_byte = bit_len div 8;
     let last_bit = u8 (bit_len mod 8);
     let last_size = 512 - last_byte mod 512;
     _ \<leftarrow> ensure (last_byte + 1 + last_size \<le> length buf);
     let buf = put_bytes (last_byte + 1) (replicate last_size 255) buf;
     b \<leftarrow> rd_at buf (last_byte + 1);
     wr_at buf (last_byte + 1) (clear_bits 0 (last_bit + 1) b)
   }"

text \<open>
  \<open>memset(buf, 0, buf_size)\<close> takes the number of sectors for a number of bytes, so what was
  written to the block bitmap is written once more into the tail of the inode table.
\<close>

definition partition_format :: "nat \<Rightarrow> nat \<Rightarrow> byte list \<Rightarrow> fs \<Rightarrow> fs option" where
  "partition_format start_lba sec_cnt pad s = do {
     let b = new_super_block start_lba sec_cnt;
     s \<leftarrow> ide_write (add32 start_lba 1) (sb_bytes b pad) 1 s;
     let buf_size = (if block_bitmap_sects b \<ge> inode_bitmap_sects b
       then block_bitmap_sects b else inode_bitmap_sects b);
     let buf_size = (if buf_size < inode_table_sects b then inode_table_sects b else buf_size);
     let (p, s) = fs_malloc s;
     if p = 0 then Some s
     else do {
       let len = mul32 buf_size 512;
       buf \<leftarrow> wr_at (replicate len 0) 0 1;
       buf \<leftarrow> fill_block_bitmap (bitmap_bit_len sec_cnt) buf;
       s \<leftarrow> ide_write (block_bitmap_lba b) buf (block_bitmap_sects b) s;
       let clear = put_bytes 0 (replicate buf_size 0);
       buf \<leftarrow> wr_at (clear buf) 0 1;
       s \<leftarrow> ide_write (inode_bitmap_lba b) buf (inode_bitmap_sects b) s;
       let buf = put_bytes 16 (le32 (data_start_lba b)) (put_bytes 0 (le32 0)
         (put_bytes 4 (le32 (mul32 (dir_entry_size b) 2)) (clear buf)));
       s \<leftarrow> ide_write (inode_table_lba b) buf (inode_table_sects b) s;
       let buf = put_bytes 0 (de_bytes \<lparr>filename = put_bytes 0 [46, 0] (replicate 16 0),
           de_i_no = 0, f_type = FT_DIRECTORY\<rparr>
         @ de_bytes \<lparr>filename = put_bytes 0 [46, 46] (replicate 16 0),
           de_i_no = 0, f_type = FT_DIRECTORY\<rparr>) (clear buf);
       s \<leftarrow> ide_write (data_start_lba b) buf 1 s;
       buf \<leftarrow> wr_at (replicate len 0) 0 3;
       ide_write (block_bitmap_lba b) buf 1 s
     }
   }"

section \<open>Mounting\<close>

record partition =
  start_lba :: nat
  sec_cnt :: nat
  part_name :: "byte list"

text \<open>
  \<open>had_sb\<close> tells whether the partition already has a super block in memory. The state then is
  about this partition; the bitmaps come from the disk.
\<close>

definition mount_partition :: "partition \<Rightarrow> byte list \<Rightarrow> bool \<Rightarrow> fs \<Rightarrow> (bool \<times> fs) option" where
  "mount_partition part name had_sb s =
     (if part_name part \<noteq> name then Some (False, s)
      else do {
        let (sb_buf, s) = fs_malloc s;
        let (sb_p, s) = (if had_sb then (1, s) else fs_malloc s);
        _ \<leftarrow> ensure (sb_buf \<noteq> 0 \<and> sb_p \<noteq> 0);
        bs \<leftarrow> ide_read s (add32 (start_lba part) 1) (replicate 512 0) 1;
        let b = sb_of_bytes bs;
        let (p, s) = fs_malloc s;
        let n = mul32 (block_bitmap_sects b) 512;
        _ \<leftarrow> ensure (p \<noteq> 0);
        bb \<leftarrow> ide_read s (block_bitmap_lba b) (replicate n 0) (block_bitmap_sects b);
        let (p, s) = fs_malloc s;
        let m = mul32 (inode_bitmap_sects b) 512;
        _ \<leftarrow> ensure (p \<noteq> 0);
        ib \<leftarrow> ide_read s (inode_bitmap_lba b) (replicate m 0) (inode_bitmap_sects b);
        Some (True, s\<lparr>part_start_lba := start_lba part, part_sec_cnt := sec_cnt part, sb := b,
          block_bitmap := \<lparr>bitmap_byte_len = n, bits = bb\<rparr>,
          inode_bitmap := \<lparr>bitmap_byte_len = m, bits = ib\<rparr>, open_inodes := []\<rparr>)
      })"

section \<open>Searching the disks\<close>

text \<open>
  A disk, with its four primary and eight logical partitions. While a disk is searched,
  \<open>hd_sectors\<close> of the state holds its sectors.
\<close>

record disk_dev =
  disk_sectors :: "nat \<Rightarrow> byte list"
  prim_parts :: "partition list"
  logic_parts :: "partition list"

definition check_part :: "partition \<Rightarrow> byte list \<Rightarrow> fs \<Rightarrow> fs option" where
  "check_part part pad s =
     (if sec_cnt part \<noteq> 0 then do {
        bs \<leftarrow> ide_read s (add32 (start_lba part) 1) (replicate 512 0) 1;
        if magic (sb_of_bytes bs) = FS_MAGIC then Some s
        else partition_format (start_lba part) (sec_cnt part) pad s
      } else Some s)"

function scan_parts :: "nat \<Rightarrow> partition list \<Rightarrow> disk_dev \<Rightarrow> byte list \<Rightarrow> fs \<Rightarrow> (nat \<times> fs) option" where
  "scan_parts part_idx part dv pad s =
     (if part_idx < 12 then
        (case (if part_idx = 4 then logic_parts dv else part) of
           [] \<Rightarrow> None
         | p # ps \<Rightarrow> Option.bind (check_part p pad s) (scan_parts (part_idx + 1) ps dv pad))
      else Some (part_idx, s))"
  by pat_completeness auto
termination by (relation "measure (\<lambda>(part_idx, part, dv, pad, s). 12 - part_idx)") auto

declare scan_parts.simps [simp del]

text \<open>Disk 0 is the kernel's. \<open>part_idx\<close> keeps its value from one disk to the next.\<close>

fun scan_disks :: "nat list \<Rightarrow> nat \<Rightarrow> byte list \<Rightarrow> (nat \<Rightarrow> disk_dev) \<Rightarrow> fs \<Rightarrow> ((nat \<Rightarrow> disk_dev) \<times> fs) option" where
  "scan_disks [] part_idx pad disks s = Some (disks, s)"
| "scan_disks (k # ks) part_idx pad disks s =
     (if k = 0 then scan_disks ks part_idx pad disks s
      else do {
        let dv = disks k;
        (part_idx, s) \<leftarrow> scan_parts part_idx (prim_parts dv) dv pad (s\<lparr>hd_sectors := disk_sectors dv\<rparr>);
        scan_disks ks part_idx pad (disks(k := dv\<lparr>disk_sectors := hd_sectors s\<rparr>)) s
      })"

definition search_filesys ::
  "nat \<Rightarrow> byte list \<Rightarrow> (nat \<Rightarrow> disk_dev) \<Rightarrow> fs \<Rightarrow> ((nat \<Rightarrow> disk_dev) \<times> fs) option" where
  "search_filesys channel_cnt pad disks s = do {
     let (sb_buf, s) = fs_malloc s;
     if sb_buf = 0 then Some (disks, s) else scan_disks [0..<2 * channel_cnt] 0 pad disks s
   }"

text \<open>\<open>list_traversal\<close> stops at the first partition of the name; the list names the disk of each.\<close>

fun mount_first ::
  "(nat \<times> partition) list \<Rightarrow> byte list \<Rightarrow> (nat \<Rightarrow> disk_dev) \<Rightarrow> fs \<Rightarrow> (bool \<times> fs) option" where
  "mount_first [] name disks s = Some (False, s)"
| "mount_first ((k, p) # ps) name disks s = do {
     (found, s) \<leftarrow> mount_partition p name False (s\<lparr>hd_sectors := disk_sectors (disks k)\<rparr>);
     if found then Some (True, s) else mount_first ps name disks s
   }"

definition filesys_init ::
  "nat \<Rightarrow> (nat \<times> partition) list \<Rightarrow> byte list \<Rightarrow> (nat \<Rightarrow> disk_dev) \<Rightarrow> fs \<Rightarrow> ((nat \<Rightarrow> disk_dev) \<times> fs) option" where
  "filesys_init channel_cnt partition_list pad disks s = do {
     (disks, s) \<leftarrow> search_filesys channel_cnt pad disks s;
     (found, s) \<leftarrow> mount_first partition_list [115, 100, 98, 49] disks s;
     _ \<leftarrow> ensure found;
     s \<leftarrow> open_root_dir s;
     Some (disks, s\<lparr>file_table := map (\<lambda>_. \<lparr>fd_pos = 0, fd_flag = 0, fd_inode = 0\<rparr>) (file_table s)\<rparr>)
   }"

section \<open>The layout of a partition\<close>

lemma bitmap_bit_len_bounds:
  assumes "1100 \<le> cnt" and "cnt \<le> max_lba"
  shows "400 \<le> bitmap_bit_len cnt" and "bitmap_bit_len cnt < cnt"
proof -
  have c: "cnt < 163840" using assms(2) by (simp add: max_lba_def)
  have k: "DIV_ROUND_UP MAX_FILES_PER_PART BITS_PER_SECTOR = 1"
      "DIV_ROUND_UP (mul32 inode_size MAX_FILES_PER_PART) 512 = 608"
    by (simp_all add: DIV_ROUND_UP_ceiling MAX_FILES_PER_PART_def BITS_PER_SECTOR_def inode_size_def
        mul32_small)
  have f: "sub32 cnt (1 + 1 + 608 + 1) = cnt - 611" using assms c by (simp add: sub32_small)
  let ?q = "DIV_ROUND_UP (cnt - 611) BITS_PER_SECTOR"
  have "?q * 4096 < cnt - 611 + 4096"
    using DIV_ROUND_UP_covers(2) [of 4096 "cnt - 611"] c by (simp add: BITS_PER_SECTOR_def)
  then have q: "?q \<le> 41" "?q \<le> cnt - 611" using c assms(1) by linarith+
  have "sub32 (cnt - 611) ?q = cnt - 611 - ?q" using q c by (intro sub32_small) auto
  then have "bitmap_bit_len cnt = cnt - 611 - ?q" by (simp only: bitmap_bit_len_def Let_def k f)
  then show "400 \<le> bitmap_bit_len cnt" and "bitmap_bit_len cnt < cnt" using q assms(1) by auto
qed

lemma new_super_block_fields:
  assumes "1100 \<le> cnt" and "start + cnt \<le> max_lba"
    and "n = DIV_ROUND_UP (bitmap_bit_len cnt) BITS_PER_SECTOR"
  shows "new_super_block start cnt = \<lparr>magic = FS_MAGIC, sb_sec_cnt = cnt, inode_cnt = 4096,
      part_lba_base = start, block_bitmap_lba = start + 2, block_bitmap_sects = n,
      inode_bitmap_lba = start + 2 + n, inode_bitmap_sects = 1, inode_table_lba = start + 3 + n,
      inode_table_sects = 608, root_inode_no = 0, dir_entry_size = 24, data_start_lba = start + 611 + n\<rparr>"
    and "1 \<le> n" and "n \<le> 40" and "bitmap_bit_len cnt \<le> n * 4096"
proof -
  have c: "start + cnt < 163840" using assms(2) by (simp add: max_lba_def)
  have k: "DIV_ROUND_UP MAX_FILES_PER_PART BITS_PER_SECTOR = 1"
      "DIV_ROUND_UP (mul32 inode_size MAX_FILES_PER_PART) 512 = 608"
    by (simp_all add: DIV_ROUND_UP_ceiling MAX_FILES_PER_PART_def BITS_PER_SECTOR_def inode_size_def
        mul32_small)
  have b: "400 \<le> bitmap_bit_len cnt" "bitmap_bit_len cnt < cnt"
    using bitmap_bit_len_bounds [of cnt] assms(1,2) by auto
  then have "bitmap_bit_len cnt + 4096 < 4294967296" using c by simp
  note cov = DIV_ROUND_UP_covers [of 4096 "bitmap_bit_len cnt", OF _ this]
  have n: "bitmap_bit_len cnt \<le> n * 4096" "n * 4096 < bitmap_bit_len cnt + 4096"
    using cov by (simp_all add: assms(3) BITS_PER_SECTOR_def)
  show "bitmap_bit_len cnt \<le> n * 4096" by (rule n(1))
  show n1: "1 \<le> n" "n \<le> 40" using n b c by linarith+
  show "new_super_block start cnt = \<lparr>magic = FS_MAGIC, sb_sec_cnt = cnt, inode_cnt = 4096,
      part_lba_base = start, block_bitmap_lba = start + 2, block_bitmap_sects = n,
      inode_bitmap_lba = start + 2 + n, inode_bitmap_sects = 1, inode_table_lba = start + 3 + n,
      inode_table_sects = 608, root_inode_no = 0, dir_entry_size = 24, data_start_lba = start + 611 + n\<rparr>"
    using n1 c by (simp add: new_super_block_def Let_def k [unfolded MAX_FILES_PER_PART_def]
        assms(3) [symmetric] add32_small MAX_FILES_PER_PART_def de_size_def)
qed

lemma sb_of_sb_bytes:
  assumes "\<forall>w \<in> set (sb_words b). w < 4294967296"
  shows "sb_of_bytes (sb_bytes b pad) = b"
proof -
  have "rd32 (sb_bytes b pad) (4 * k) = sb_words b ! k" if "k < 13" for k
    using rd32_concat [of k "sb_words b" "[]" pad] assms that by (simp add: sb_bytes_def sb_words_def)
  from this [of 0] this [of 1] this [of 2] this [of 3] this [of 4] this [of 5] this [of 6]
    this [of 7] this [of 8] this [of 9] this [of 10] this [of 11] this [of 12]
  show ?thesis by (simp add: sb_of_bytes_def sb_words_def Let_def)
qed

section \<open>What formatting leaves on the disk\<close>

definition write_run :: "nat \<Rightarrow> byte list \<Rightarrow> nat \<Rightarrow> (nat \<Rightarrow> byte list) \<Rightarrow> nat \<Rightarrow> byte list" where
  "write_run lba buf cnt h l = (if lba \<le> l \<and> l < lba + cnt then sub_bytes ((l - lba) * 512) 512 buf else h l)"

lemma ide_write_run:
  "lba \<le> max_lba \<Longrightarrow> cnt * 512 \<le> length buf \<Longrightarrow>
    ide_write lba buf cnt s = Some (s\<lparr>hd_sectors := write_run lba buf cnt (hd_sectors s)\<rparr>)"
  by (simp add: ide_write_def write_run_def [abs_def])

lemma length_write_run:
  assumes "cnt * 512 \<le> length buf" and "\<forall>l. length (h l) = 512"
  shows "length (write_run lba buf cnt h l) = 512"
proof -
  have "(l - lba) * 512 + 512 \<le> length buf" if "lba \<le> l" "l < lba + cnt"
    using that assms(1) by (simp add: mult.commute [of _ 512])
  then show ?thesis using assms(2) by (auto simp: write_run_def sub_bytes_def)
qed

lemma write_run_first: "0 < cnt \<Longrightarrow> write_run lba buf cnt h lba = take 512 buf"
  by (simp add: write_run_def sub_bytes_def)

lemma write_run_other: "l < lba \<or> lba + cnt \<le> l \<Longrightarrow> write_run lba buf cnt h l = h l"
  by (auto simp: write_run_def)

lemma length_put [simp]: "pos + length ys \<le> length bs \<Longrightarrow> length (put_bytes pos ys bs) = length bs"
  by (simp add: length_put_bytes)

lemma fill_block_bitmap_runs:
  assumes "length buf = 311296" and "n < 163840"
  shows "\<exists>buf'. fill_block_bitmap n buf = Some buf' \<and> length buf' = 311296"
proof -
  have "n div 8 < 20480" using assms(2) by (simp add: div_less_iff_less_mult)
  then have "n div 8 + 1 + (512 - n div 8 mod 512) \<le> 311296" by linarith
  then show ?thesis using assms by (simp add: fill_block_bitmap_def Let_def)
qed

definition format_root :: "nat \<Rightarrow> byte list" where
  "format_root lba = put_bytes 16 (le32 lba) (put_bytes 0 (le32 0) (put_bytes 4 (le32 48) (replicate 512 0)))"

definition format_dots :: "byte list" where
  "format_dots = de_bytes \<lparr>filename = put_bytes 0 [46, 0] (replicate 16 0), de_i_no = 0, f_type = FT_DIRECTORY\<rparr>
     @ de_bytes \<lparr>filename = put_bytes 0 [46, 46] (replicate 16 0), de_i_no = 0, f_type = FT_DIRECTORY\<rparr>"

lemma length_format_dots: "length format_dots = 48"
  by (simp add: format_dots_def length_de_bytes)

lemma take_put: "off + length ys \<le> m \<Longrightarrow> m \<le> length bs \<Longrightarrow>
    take m (put_bytes off ys bs) = put_bytes off ys (take m bs)"
  by (cases "m = off") (auto simp: put_bytes_def drop_take min_def)

text \<open>The clearing of the buffer reaches over its first sector.\<close>

lemma take_clear: "length buf = 311296 \<Longrightarrow> take 512 (put_bytes 0 (replicate 608 0) buf) = replicate 512 0"
  by (simp add: put_bytes_def)

lemma sector_update: "(replicate 512 0)[0 := v] = v # replicate 511 0"
  using replicate_Suc [of 511 "0 :: 'a :: zero"] by (simp del: replicate_Suc)

lemma partition_format_runs:
  assumes "1100 \<le> cnt" and "start + cnt \<le> max_lba" and "length pad = 460" and "disk_ok s"
    and "heap_ok s (next_addr s)" and "0 < next_addr s" and "b = new_super_block start cnt"
  shows "\<exists>h. partition_format start cnt pad s = Some (s\<lparr>next_addr := next_addr s + 1, hd_sectors := h\<rparr>)
    \<and> (\<forall>l. length (h l) = 512) \<and> h (start + 1) = sb_bytes b pad
    \<and> h (block_bitmap_lba b) = 3 # replicate 511 0
    \<and> h (inode_bitmap_lba b) = 1 # replicate 511 0
    \<and> h (inode_table_lba b) = format_root (data_start_lba b)
    \<and> h (data_start_lba b) = format_dots @ replicate 464 0"
proof -
  define n where "n = DIV_ROUND_UP (bitmap_bit_len cnt) BITS_PER_SECTOR"
  note f = new_super_block_fields [OF assms(1,2) n_def]
  have c: "start + cnt < 163840" using assms(2) by (simp add: max_lba_def)
  have bl: "bitmap_bit_len cnt < 163840" using bitmap_bit_len_bounds(2) [of cnt] assms(1,2) c by simp
  let ?z = "replicate 311296 (0::byte)"
  let ?b1 = "?z[0 := 1]"
  obtain b2 where b2: "fill_block_bitmap (bitmap_bit_len cnt) ?b1 = Some b2" "length b2 = 311296"
    using fill_block_bitmap_runs [of ?b1, OF _ bl] by auto
  let ?clear = "put_bytes 0 (replicate 608 (0::byte))"
  define b3 where "b3 = (?clear b2)[0 := 1]"
  define b4 where "b4 = put_bytes 16 (le32 (start + 611 + n)) (put_bytes 0 (le32 0)
         (put_bytes 4 (le32 48) (?clear b3)))"
  define b5 where "b5 = put_bytes 0 format_dots (?clear b4)"
  have len: "length b3 = 311296" "length b4 = 311296" "length b5 = 311296"
    using b2(2) by (simp_all add: b3_def b4_def b5_def length_format_dots)
  define h1 where "h1 = write_run (start + 1) (sb_bytes b pad) 1 (hd_sectors s)"
  define h2 where "h2 = write_run (start + 2) b2 n h1"
  define h3 where "h3 = write_run (start + 2 + n) b3 1 h2"
  define h4 where "h4 = write_run (start + 3 + n) b4 608 h3"
  define h5 where "h5 = write_run (start + 611 + n) b5 1 h4"
  define h6 where "h6 = write_run (start + 2) (?z[0 := 3]) 1 h5"
  have lsb: "length (sb_bytes b pad) = 512" using assms(3) by (simp add: sb_bytes_def sb_words_def)
  have lm: "start + 611 + n \<le> max_lba" using assms(1,2) f(3) by simp
  have run: "partition_format start cnt pad s = Some (s\<lparr>next_addr := next_addr s + 1, hd_sectors := h6\<rparr>)"
  proof -
    have w: "ide_write (add32 start 1) (sb_bytes b pad) 1 t = Some (t\<lparr>hd_sectors := write_run (start + 1) (sb_bytes b pad) 1 (hd_sectors t)\<rparr>)"
      "ide_write (start + 2) b2 n t = Some (t\<lparr>hd_sectors := write_run (start + 2) b2 n (hd_sectors t)\<rparr>)"
      "ide_write (start + 2 + n) b3 1 t = Some (t\<lparr>hd_sectors := write_run (start + 2 + n) b3 1 (hd_sectors t)\<rparr>)"
      "ide_write (start + 3 + n) b4 608 t = Some (t\<lparr>hd_sectors := write_run (start + 3 + n) b4 608 (hd_sectors t)\<rparr>)"
      "ide_write (start + 611 + n) b5 1 t = Some (t\<lparr>hd_sectors := write_run (start + 611 + n) b5 1 (hd_sectors t)\<rparr>)"
      "ide_write (start + 2) (?z[0 := 3]) 1 t = Some (t\<lparr>hd_sectors := write_run (start + 2) (?z[0 := 3]) 1 (hd_sectors t)\<rparr>)"
      for t
      using lm lsb b2(2) len f(3) c by (auto intro!: ide_write_run simp: add32_small)
    have sz: "(if n \<ge> 1 then n else 1) = n" "(if n < 608 then 608 else n) = 608" using f(2,3) by auto
    have m: "mul32 608 512 = 311296" "mul32 24 2 = 48" by (simp_all add: mul32_small)
    have wr: "wr_at ?z 0 v = Some (?z[0 := v])" "wr_at (?clear b2) 0 1 = Some b3" for v
      using b2(2) by (simp_all add: b3_def wr_at_def)
    have fl: "block_bitmap_lba b = start + 2" "block_bitmap_sects b = n"
        "inode_bitmap_lba b = start + 2 + n" "inode_bitmap_sects b = 1"
        "inode_table_lba b = start + 3 + n" "inode_table_sects b = 608" "dir_entry_size b = 24"
        "data_start_lba b = start + 611 + n"
      using f(1) assms(7) by simp_all
    have p: "fs_malloc t = (next_addr s, t\<lparr>next_addr := next_addr s + 1\<rparr>)"
      if "heap_ok t = heap_ok s" "next_addr t = next_addr s" for t
      using that assms(5) by (simp add: fs_malloc_def)
    note eqs = b4_def [symmetric] format_dots_def [symmetric] b5_def [symmetric]
    show ?thesis
      using assms(6) b2(1)
      unfolding partition_format_def assms(7) [symmetric] Let_def fl sz m w
      by (simp only: wr eqs w bind.bind_lunit Option.bind.simps)
        (simp add: p h1_def h2_def h3_def h4_def h5_def h6_def)
  qed
  have "\<forall>l. length (h6 l) = 512"
    using assms(4) lsb b2(2) len f(3) by (simp add: h1_def h2_def h3_def h4_def h5_def h6_def
        length_write_run disk_ok_def)
  moreover have "h6 (start + 1) = sb_bytes b pad"
    using lsb by (simp add: h1_def h2_def h3_def h4_def h5_def h6_def write_run_other write_run_first)
  moreover have "h6 (start + 2) = 3 # replicate 511 0"
    by (simp add: h6_def write_run_first take_update_swap sector_update)
  moreover have "h6 (start + 2 + n) = 1 # replicate 511 0"
  proof -
    have "h6 (start + 2 + n) = take 512 b3"
      using f(2) by (simp add: h3_def h4_def h5_def h6_def write_run_other write_run_first)
    then show ?thesis using b2(2) by (simp add: b3_def take_update_swap take_clear sector_update)
  qed
  moreover have "h6 (start + 3 + n) = format_root (start + 611 + n)"
  proof -
    have "h6 (start + 3 + n) = take 512 b4"
      using f(2) by (simp add: h4_def h5_def h6_def write_run_other write_run_first)
    then show ?thesis using len(1) by (simp add: b4_def format_root_def take_put take_clear)
  qed
  moreover have "h6 (start + 611 + n) = format_dots @ replicate 464 0"
  proof -
    have "h6 (start + 611 + n) = take 512 b5"
      using f(2) by (simp add: h5_def h6_def write_run_other write_run_first)
    then show ?thesis
      using len(2) by (simp add: b5_def take_put take_clear length_format_dots put_bytes_def)
  qed
  ultimately show ?thesis using run f(1) assms(7) by (intro exI [of _ h6]) simp
qed

section \<open>An empty file system\<close>

lemma concat_sectors_bytes: "cnt * 512 = m \<Longrightarrow> \<forall>l. length (h l) = 512 \<Longrightarrow>
    put_bytes 0 (concat (map h [lba..<lba + cnt])) (replicate m (0 :: byte)) = concat (map h [lba..<lba + cnt])"
  by (simp add: put_bytes_def length_concat_sectors)

text \<open>A bitmap that starts with the bytes \<open>v\<close>, 0 has its first free bit after the ones of \<open>v\<close>.\<close>

lemma first_free_byte:
  assumes "bits bm = v # 0 # rest" and "8 * 2 \<le> bm_size bm" and "i < 8"
    and "\<forall>j < 8. bit v j = (j < i)"
  shows "first_free bm i"
proof -
  have "bmbit bm j = bit v j" if "j < 8" for j using that assms(1) by (simp add: bmbit_def)
  then show ?thesis using assms by (auto simp: first_free_def)
qed

text \<open>The state after mounting a freshly formatted partition.\<close>

definition empty_fs :: "fs \<Rightarrow> bool" where
  "empty_fs s \<longleftrightarrow> magic (sb s) = FS_MAGIC \<and> table_ok s \<and> opens_ok s
     \<and> bm_wf (block_bitmap s) \<and> first_free (block_bitmap s) 2
     \<and> bm_wf (inode_bitmap s) \<and> first_free (inode_bitmap s) 1
     \<and> dir_ok s ROOT_DIR
     \<and> (\<exists>i. dir_inode_of ROOT_DIR s = Some i \<and> i_no i = 0 \<and> i_bsize i = 48
          \<and> (\<exists>d dd. dname d = [46] \<and> dname dd = [46, 46] \<and> de_i_no d = 0 \<and> de_i_no dd = 0
               \<and> filter (\<lambda>e. f_type e \<noteq> FT_UNKNOW) (dir_list s i) = [d, dd]))"

lemma concat_replicates: "concat (replicate n (replicate m x)) = replicate (n * m) x"
  by (induction n) (simp_all add: replicate_add)

lemma replicate_split: "n = a + b \<Longrightarrow> replicate n x = replicate a x @ replicate b x"
  by (simp add: replicate_add)

lemma format_root_inode:
  assumes "lba < 4294967296"
  shows "inode_of_bytes (take 76 (format_root lba @ rest)) =
    \<lparr>i_no = 0, i_bsize = 48, i_open_cnts = 0, write_deny = False, i_sectors = lba # replicate 12 0\<rparr>"
proof -
  let ?i = "\<lparr>i_no = 0, i_bsize = 48, i_open_cnts = 0, write_deny = False, i_sectors = lba # replicate 12 0\<rparr>"
  note rs = replicate_split [where x = "0 :: byte"]
  have "replicate 512 (0::byte) = replicate 4 0 @ replicate 508 0"
    and "replicate 508 (0::byte) = replicate 4 0 @ replicate 504 0"
    and "replicate 504 (0::byte) = replicate 8 0 @ replicate 496 0"
    and "replicate 496 (0::byte) = replicate 4 0 @ replicate 492 0"
    by (rule rs, simp)+
  note r = this
  have "replicate 4 (0::byte) = [0, 0, 0, 0]" by (simp add: numeral_eq_Suc)
  then have z: "le32 0 = replicate 4 0" by (simp add: le32_def)
  have "format_root lba = le32 0 @ le32 48 @ replicate 8 0 @ le32 lba @ replicate 492 0"
    unfolding format_root_def r by (simp add: put_bytes_def)
  moreover have "inode_bytes ?i = le32 0 @ le32 48 @ replicate 8 0 @ le32 lba @ replicate 56 0"
  proof -
    have "concat (map le32 (replicate 12 0)) = replicate 48 0"
      using concat_replicates [of 12 4 "0 :: byte"] by (simp add: z)
    moreover have "replicate 56 (0::byte) = replicate 48 0 @ replicate 8 0"
      by (rule rs) simp
    moreover have "replicate 8 (0::byte) = le32 0 @ le32 0"
      unfolding z by (rule rs) simp
    ultimately show ?thesis by (simp add: inode_bytes_def)
  qed
  moreover have "replicate 492 (0::byte) = replicate 56 0 @ replicate 436 0"
    by (rule rs) simp
  ultimately have "format_root lba = inode_bytes ?i @ replicate 436 0" by simp
  moreover have "length (inode_bytes ?i) = 76" by (simp add: length_inode_bytes)
  moreover have "inode_ok ?i" using assms by (simp add: inode_ok_def)
  ultimately show ?thesis using inode_of_inode_bytes [of ?i] by simp
qed

definition dot_entry :: "byte list \<Rightarrow> dir_entry" where
  "dot_entry name = \<lparr>filename = put_bytes 0 name (replicate 16 0), de_i_no = 0, f_type = FT_DIRECTORY\<rparr>"

lemma format_dots_entries:
  "entries_of (format_dots @ replicate 464 0) =
    dot_entry [46, 0] # dot_entry [46, 46] # replicate 19 zero_dir_entry"
proof (rule nth_equalityI)
  let ?sec = "format_dots @ replicate 464 (0 :: byte)"
  fix k assume "k < length (entries_of ?sec)"
  then have k: "k < 21" by simp
  have d: "length (de_bytes (dot_entry n)) = 24" "de_of_bytes (de_bytes (dot_entry n)) = dot_entry n"
    if "length n = 2" for n
    using that de_of_de_bytes [of "dot_entry n"] length_de_bytes [of "dot_entry n"]
    by (simp_all add: dot_entry_def de_ok_def)
  have f: "?sec = de_bytes (dot_entry [46, 0]) @ de_bytes (dot_entry [46, 46]) @ replicate 464 0"
    by (simp add: format_dots_def dot_entry_def)
  have "entry_at ?sec k = (if k = 0 then dot_entry [46, 0] else if k = 1 then dot_entry [46, 46]
      else zero_dir_entry)"
  proof -
    consider "k = 0" | "k = 1" | "2 \<le> k" by linarith
    then show ?thesis
    proof cases
      case 3
      then have "sub_bytes (k * 24) 24 ?sec = replicate 24 0"
        using k by (simp add: sub_bytes_def length_format_dots min_def)
      then show ?thesis using 3
        by (simp add: entry_at_def de_of_bytes_def zero_dir_entry_def rd32_def Let_def)
    qed (use d in \<open>simp_all add: entry_at_def f sub_bytes_def\<close>)
  qed
  then show "entries_of ?sec ! k =
      (dot_entry [46, 0] # dot_entry [46, 46] # replicate 19 zero_dir_entry) ! k"
    using k by (auto simp: entries_of_def nth_Cons' simp del: upt_Suc)
qed simp

lemma mount_partition_runs:
  assumes "part_name p = name" and "start_lba p + 1 \<le> max_lba" and "disk_ok s"
    and "hd_sectors s (start_lba p + 1) = sb_bytes b pad" and "\<forall>w \<in> set (sb_words b). w < 4294967296"
    and "block_bitmap_lba b \<le> max_lba" and "block_bitmap_sects b \<le> 1000"
    and "inode_bitmap_lba b \<le> max_lba" and "inode_bitmap_sects b \<le> 1000"
    and "\<forall>n < 4. heap_ok s (next_addr s + n)" and "0 < next_addr s"
  shows "mount_partition p name False s = Some (True, s\<lparr>next_addr := next_addr s + 4,
    part_start_lba := start_lba p, part_sec_cnt := sec_cnt p, sb := b,
    block_bitmap := \<lparr>bitmap_byte_len = block_bitmap_sects b * 512, bits = concat (map (hd_sectors s)
      [block_bitmap_lba b..<block_bitmap_lba b + block_bitmap_sects b])\<rparr>,
    inode_bitmap := \<lparr>bitmap_byte_len = inode_bitmap_sects b * 512, bits = concat (map (hd_sectors s)
      [inode_bitmap_lba b..<inode_bitmap_lba b + inode_bitmap_sects b])\<rparr>, open_inodes := []\<rparr>)"
proof -
  have d: "\<forall>l. length (hd_sectors s l) = 512" using assms(3) by (simp add: disk_ok_def)
  have h: "heap_ok s (next_addr s)" "heap_ok s (Suc (next_addr s))" "heap_ok s (Suc (Suc (next_addr s)))"
      "heap_ok s (Suc (Suc (Suc (next_addr s))))"
    using assms(10) [rule_format, of 0] assms(10) [rule_format, of 1] assms(10) [rule_format, of 2]
      assms(10) [rule_format, of 3] by (simp_all add: numeral_2_eq_2 numeral_3_eq_3)
  have rd: "ide_read t lba (replicate m 0) cnt = Some (concat (map (hd_sectors s) [lba..<lba + cnt]))"
    if "lba \<le> max_lba" "cnt * 512 = m" "hd_sectors t = hd_sectors s" for t lba m cnt
    using that concat_sectors_bytes [OF that(2) d, of lba] by (simp add: ide_read_def)
  have a: "add32 (start_lba p) 1 = start_lba p + 1" using assms(2) by (simp add: add32_small max_lba_def)
  have m: "mul32 (block_bitmap_sects b) 512 = block_bitmap_sects b * 512"
      "mul32 (inode_bitmap_sects b) 512 = inode_bitmap_sects b * 512"
    using assms(7,9) by (auto intro!: mul32_small)
  have sbr: "ide_read t (Suc (start_lba p)) (replicate 512 0) (Suc 0) = Some (sb_bytes b pad)"
    if "hd_sectors t = hd_sectors s" for t
    using rd [of "start_lba p + 1" 1 512 t] that assms(2,4) by simp
  have n4: "Suc (Suc (Suc (Suc (next_addr s)))) = next_addr s + 4" by simp
  show ?thesis
    using assms(1,11) h
    by (simp add: mount_partition_def fs_malloc_def a [unfolded One_nat_def] sbr
        sb_of_sb_bytes [OF assms(5)] Let_def m rd [OF assms(6)] rd [OF assms(8)] n4)
qed

lemma open_root_runs:
  assumes "table_ok s" and "open_inodes s = []" and "root_inode_no (sb s) = 0" and "0 < next_addr s"
    and "heap_ok s (next_addr s)" and "heap_ok s (next_addr s + 1)"
    and "hd_sectors s (inode_table_lba (sb s)) = format_root lba" and "lba < 4294967296"
  shows "\<exists>s'. open_root_dir s = Some s' \<and> hd_sectors s' = hd_sectors s \<and> sb s' = sb s
    \<and> block_bitmap s' = block_bitmap s \<and> inode_bitmap s' = inode_bitmap s
    \<and> part_start_lba s' = part_start_lba s \<and> opens_ok s'
    \<and> dir_inode_of ROOT_DIR s' = Some \<lparr>i_no = 0, i_bsize = 48, i_open_cnts = 1, write_deny = False,
        i_sectors = lba # replicate 12 0\<rparr>"
proof -
  have "opens_ok s" using assms(2) by (simp add: opens_ok_def)
  moreover have "exact_pos 0" by (simp add: exact_pos_def home_off_def)
  moreover have "disk_inode s 0 =
      \<lparr>i_no = 0, i_bsize = 48, i_open_cnts = 0, write_deny = False, i_sectors = lba # replicate 12 0\<rparr>"
    using format_root_inode [OF assms(8)] assms(7)
    by (simp add: disk_inode_def home_off_def home_lba_def sub_bytes_def)
  ultimately show ?thesis
    using inode_open_miss [of s 0] assms
    by (simp add: open_root_dir_def opens_ok_def dir_inode_of_def)
qed

text \<open>Formatting a partition, mounting it and opening its root directory.\<close>

lemma format_mount:
  assumes "1100 \<le> sec_cnt p" and "start_lba p + sec_cnt p \<le> max_lba" and "length pad = 460"
    and "disk_ok s" and "\<forall>n < 7. heap_ok s (next_addr s + n)" and "0 < next_addr s"
  shows "\<exists>s1 s2 s3. partition_format (start_lba p) (sec_cnt p) pad s = Some s1
    \<and> mount_partition p (part_name p) False s1 = Some (True, s2)
    \<and> open_root_dir s2 = Some s3 \<and> empty_fs s3"
proof -
  let ?start = "start_lba p"
  define b where "b = new_super_block ?start (sec_cnt p)"
  define n where "n = DIV_ROUND_UP (bitmap_bit_len (sec_cnt p)) BITS_PER_SECTOR"
  note f = new_super_block_fields [OF assms(1,2) n_def]
  have c: "?start + sec_cnt p < 163840" using assms(2) by (simp add: max_lba_def)
  have fl: "block_bitmap_lba b = ?start + 2" "block_bitmap_sects b = n" "inode_bitmap_lba b = ?start + 2 + n"
      "inode_bitmap_sects b = 1" "inode_table_lba b = ?start + 3 + n" "data_start_lba b = ?start + 611 + n"
      "dir_entry_size b = 24" "root_inode_no b = 0" "magic b = FS_MAGIC"
    using f(1) by (simp_all add: b_def)
  have h0: "heap_ok s (next_addr s)" using assms(5) [rule_format, of 0] by simp
  obtain h where h: "partition_format ?start (sec_cnt p) pad s = Some (s\<lparr>next_addr := next_addr s + 1, hd_sectors := h\<rparr>)"
      "\<forall>l. length (h l) = 512" "h (?start + 1) = sb_bytes b pad" "h (?start + 2) = 3 # replicate 511 0"
      "h (?start + 2 + n) = 1 # replicate 511 0" "h (?start + 3 + n) = format_root (?start + 611 + n)"
      "h (?start + 611 + n) = format_dots @ replicate 464 0"
    using partition_format_runs [OF assms(1-4) h0 assms(6) b_def] unfolding fl by blast
  let ?s1 = "s\<lparr>next_addr := next_addr s + 1, hd_sectors := h\<rparr>"
  define s2 where "s2 = ?s1\<lparr>next_addr := next_addr s + 5, part_start_lba := ?start, part_sec_cnt := sec_cnt p,
    sb := b, block_bitmap := \<lparr>bitmap_byte_len = n * 512, bits = concat (map h [?start + 2..<?start + 2 + n])\<rparr>,
    inode_bitmap := \<lparr>bitmap_byte_len = 512, bits = h (?start + 2 + n)\<rparr>, open_inodes := []\<rparr>"
  have "\<forall>w \<in> set (sb_words b). w < 4294967296"
    using f c by (auto simp: b_def sb_words_def FS_MAGIC_def)
  moreover have hp: "\<forall>m < 4. heap_ok ?s1 (next_addr ?s1 + m)"
  proof (intro allI impI)
    fix m :: nat assume "m < 4"
    then show "heap_ok ?s1 (next_addr ?s1 + m)" using assms(5) [rule_format, of "m + 1"] by simp
  qed
  ultimately have m: "mount_partition p (part_name p) False ?s1 = Some (True, s2)"
    using mount_partition_runs [of p "part_name p" ?s1 b pad] fl h(2,3) f(2,3) assms(1,2,6)
    by (simp add: disk_ok_def s2_def)
  have tab: "table_ok s2"
    using h(2) f(3) fl assms(1,2) by (simp add: table_ok_def disk_ok_def s2_def)
  have h2: "heap_ok s2 (next_addr s2)" "heap_ok s2 (next_addr s2 + 1)"
    using assms(5) [rule_format, of 5] assms(5) [rule_format, of 6] by (simp_all add: s2_def add.commute)
  have lba: "?start + 611 + n < 4294967296" using c f(3) by simp
  have "hd_sectors s2 (inode_table_lba (sb s2)) = format_root (?start + 611 + n)"
    using h(6) fl by (simp add: s2_def)
  from open_root_runs [OF tab _ _ _ h2 this lba] fl obtain s3
    where s3: "open_root_dir s2 = Some s3" "hd_sectors s3 = h" "sb s3 = b"
      "block_bitmap s3 = block_bitmap s2" "inode_bitmap s3 = inode_bitmap s2" "opens_ok s3"
      "part_start_lba s3 = ?start"
      "dir_inode_of ROOT_DIR s3 = Some \<lparr>i_no = 0, i_bsize = 48, i_open_cnts = 1, write_deny = False,
        i_sectors = (?start + 611 + n) # replicate 12 0\<rparr>" (is "_ = Some ?i")
    by (auto simp: s2_def)
  have bb: "bits (block_bitmap s2) = 3 # 0 # (replicate 510 0 @ concat (map h [?start + 3..<?start + 2 + n]))"
  proof -
    have "[?start + 2..<?start + 2 + n] = (?start + 2) # [?start + 3..<?start + 2 + n]"
      using f(2) upt_conv_Cons [of "?start + 2" "?start + 2 + n"]
      by (simp add: numeral_3_eq_3 del: upt_Suc)
    moreover have "replicate 511 (0 :: byte) = 0 # replicate 510 0"
      using replicate_Suc [of 510 "0 :: byte"] by (simp del: replicate_Suc)
    ultimately show ?thesis using h(4) by (simp add: s2_def)
  qed
  have bb_ok: "bm_wf (block_bitmap s2)" "first_free (block_bitmap s2) 2"
  proof -
    have "length (concat (map h [?start + 2..<?start + 2 + n])) = n * 512"
      using length_concat_sectors [OF h(2), of "[?start + 2..<?start + 2 + n]"]
      by (simp del: upt_Suc)
    then show "bm_wf (block_bitmap s2)" using f(3) by (simp add: bm_wf_def s2_def)
    show "first_free (block_bitmap s2) 2"
    proof (rule first_free_byte [OF bb])
      show "8 * 2 \<le> bm_size (block_bitmap s2)" using f(2) by (simp add: bm_size_def s2_def)
    qed (simp_all add: All_less_Suc2 numeral_eq_Suc)
  qed
  have ib_ok: "bm_wf (inode_bitmap s2)" "first_free (inode_bitmap s2) 1"
  proof -
    show "bm_wf (inode_bitmap s2)" using h(2) by (simp add: bm_wf_def s2_def)
    have "bits (inode_bitmap s2) = 1 # 0 # replicate 510 0"
      using h(5) replicate_Suc [of 510 "0 :: byte"] by (simp add: s2_def del: replicate_Suc)
    then show "first_free (inode_bitmap s2) 1"
    proof (rule first_free_byte)
      show "8 * 2 \<le> bm_size (inode_bitmap s2)" by (simp add: bm_size_def s2_def)
    qed (simp_all add: All_less_Suc2 numeral_eq_Suc)
  qed
  have z: "dname zero_dir_entry = []" "f_type zero_dir_entry = 0"
    by (simp_all add: zero_dir_entry_def dname_def numeral_eq_Suc)
  have dn: "dname (dot_entry [46, 0]) = [46]" "dname (dot_entry [46, 46]) = [46, 46]"
    by (simp_all add: dot_entry_def dname_def put_bytes_def takeWhile_replicate)
  have dl: "dir_list s3 ?i = dot_entry [46, 0] # dot_entry [46, 46] # replicate 19 zero_dir_entry"
    using h(7) s3(2) format_dots_entries by (simp add: dir_list_def blocks_list_def numeral_eq_Suc)
  have ne: "names_end (h (?start + 611 + n))"
  proof -
    have "0 \<in> set (filename e)" if "e \<in> set (entries_of (format_dots @ replicate 464 0))" for e
      using that unfolding format_dots_entries
      by (auto simp: dot_entry_def zero_dir_entry_def put_bytes_def)
    then show ?thesis unfolding h(7) names_end_def entries_of_def by auto
  qed
  have "dir_ok s3 ROOT_DIR"
    using h(2) s3(2,3,8) fl ne f(3) assms(1,2)
    by (auto simp: dir_ok_def disk_ok_def take_Cons')
  moreover have "table_ok s3" using tab s3(2,3,7) by (simp add: table_ok_def disk_ok_def s2_def)
  moreover have "filter (\<lambda>e. f_type e \<noteq> FT_UNKNOW) (dir_list s3 ?i) = [dot_entry [46, 0], dot_entry [46, 46]]"
    unfolding dl using z(2) by (simp add: dot_entry_def)
  moreover have "de_i_no (dot_entry x) = 0" for x by (simp add: dot_entry_def)
  ultimately have "empty_fs s3"
    unfolding empty_fs_def using s3(3-6,8) fl bb_ok ib_ok dn by (intro conjI) auto
  then show ?thesis using h(1) m s3(1) by blast
qed

text \<open>
  The partitions of the second disk are counted from 0 to 12; for the disks after it the loop
  does not run.
\<close>

lemma scan_parts_end: "scan_parts i part dv pad s = Some (j, s') \<Longrightarrow> i \<le> 12 \<Longrightarrow> j = 12"
  by (induction i part dv pad s rule: scan_parts.induct)
    (subst (asm) (2) scan_parts.simps, auto split: if_splits list.splits simp: runs_iff)

lemma scan_disks_done:
  "scan_disks ks 12 pad disks s = Some (disks', s') \<Longrightarrow> \<forall>k. disk_sectors (disks' k) = disk_sectors (disks k)"
proof (induction ks arbitrary: disks s)
  case (Cons k ks)
  show ?case
  proof (cases "k = 0")
    case True
    then show ?thesis using Cons by simp
  next
    case False
    then have "scan_disks ks 12 pad (disks(k := disks k)) (s\<lparr>hd_sectors := disk_sectors (disks k)\<rparr>) = Some (disks', s')"
      using Cons.prems by (simp add: scan_parts.simps)
    from Cons.IH [OF this] show ?thesis by simp
  qed
qed simp

lemma search_filesys_rest:
  assumes "search_filesys channel_cnt pad disks s = Some (disks', s')" and "k \<noteq> 1"
  shows "disk_sectors (disks' k) = disk_sectors (disks k)"
proof (cases "fst (fs_malloc s) = 0 \<or> channel_cnt = 0")
  case True
  then show ?thesis using assms by (auto simp: search_filesys_def split: prod.splits if_splits)
next
  case False
  have "[0..<2 * channel_cnt] = 0 # 1 # [2..<2 * channel_cnt]"
    using False by (simp add: upt_conv_Cons numeral_2_eq_2)
  then obtain j t where r: "scan_parts 0 (prim_parts (disks 1)) (disks 1) pad
        ((snd (fs_malloc s))\<lparr>hd_sectors := disk_sectors (disks 1)\<rparr>) = Some (j, t)"
      "scan_disks [2..<2 * channel_cnt] j pad (disks(1 := (disks 1)\<lparr>disk_sectors := hd_sectors t\<rparr>)) t = Some (disks', s')"
    using assms(1) False by (auto simp: search_filesys_def runs_iff Let_def split: prod.splits)
  have "j = 12" using scan_parts_end [OF r(1)] by simp
  then show ?thesis using scan_disks_done [of "[2..<2 * channel_cnt]"] r(2) assms(2) by fastforce
qed

section \<open>Properties\<close>

text \<open>C4: Formatting a partition, mounting it and opening its root directory gives an empty file
  system: a sound inode table, a root directory that lists "." and ".." only, and bitmaps in
  which the first two blocks and the first inode are in use.\<close>

theorem format_then_mount:
  assumes "1100 \<le> sec_cnt p" and "start_lba p + sec_cnt p \<le> max_lba" and "length pad = 460"
    and "disk_ok s" and "\<forall>n < 7. heap_ok s (next_addr s + n)" and "0 < next_addr s"
  shows "\<exists>s1 s2 s3. partition_format (start_lba p) (sec_cnt p) pad s = Some s1
    \<and> mount_partition p (part_name p) False s1 = Some (True, s2)
    \<and> open_root_dir s2 = Some s3 \<and> empty_fs s3"
  using assms by (rule format_mount)

theorem format_then_mount_witness:
  "\<exists>s1 s2 s3. partition_format 1 5000 (replicate 460 0) sample_fs = Some s1
    \<and> mount_partition \<lparr>start_lba = 1, sec_cnt = 5000, part_name = [115, 100, 98, 49]\<rparr> [115, 100, 98, 49] False s1
      = Some (True, s2)
    \<and> open_root_dir s2 = Some s3 \<and> empty_fs s3"
proof -
  have "\<forall>n < 7. heap_ok sample_fs (next_addr sample_fs + n)" "0 < next_addr sample_fs"
    by (simp_all add: sample_fs_def)
  then show ?thesis
    using format_then_mount [of "\<lparr>start_lba = 1, sec_cnt = 5000, part_name = [115, 100, 98, 49]\<rparr>"
        "replicate 460 0" sample_fs] sample_disk_ok
    by (simp add: max_lba_def)
qed

text \<open>Whatever \<open>search_filesys\<close> finds, it writes to disk 1 only: the partition counter is not
  reset, so the partitions of the disks after it are neither checked nor formatted.\<close>

theorem search_filesys_one_disk:
  assumes "search_filesys channel_cnt pad disks s = Some (disks', s')" and "k \<noteq> 1"
  shows "disk_sectors (disks' k) = disk_sectors (disks k)"
  using assms by (rule search_filesys_rest)

definition sample_disk :: disk_dev where
  "sample_disk = \<lparr>disk_sectors = (\<lambda>l. replicate 512 0),
     prim_parts = replicate 4 \<lparr>start_lba = 0, sec_cnt = 0, part_name = []\<rparr>,
     logic_parts = replicate 8 \<lparr>start_lba = 0, sec_cnt = 0, part_name = []\<rparr>\<rparr>"

theorem search_filesys_one_disk_witness:
  "\<exists>disks' s'. search_filesys 2 [] (\<lambda>k. sample_disk) sample_fs = Some (disks', s')
    \<and> disk_sectors (disks' 3) = (\<lambda>l. replicate 512 0)"
proof -
  have r8: "replicate 8 x = x # x # x # x # x # x # x # x # []" "replicate 4 x = x # x # x # x # []" for x :: 'a
    by (simp_all add: numeral_eq_Suc)
  have "scan_parts 0 (prim_parts sample_disk) sample_disk [] t = Some (12, t)" for t
    by (simp add: sample_disk_def r8 scan_parts.simps check_part_def)
  moreover have "scan_parts 12 ps d [] t = Some (12, t)" for ps d t by (simp add: scan_parts.simps)
  moreover have "[0..<2 * 2] = [0, 1, 2, 3]" by (simp add: upt_rec)
  ultimately have "search_filesys 2 [] (\<lambda>k. sample_disk) sample_fs \<noteq> None"
    by (simp add: search_filesys_def fs_malloc_def)
  then obtain disks' s' where r: "search_filesys 2 [] (\<lambda>k. sample_disk) sample_fs = Some (disks', s')" by auto
  from search_filesys_one_disk [OF r, of 3] r show ?thesis by (auto simp: sample_disk_def)
qed

end
