(* ===== verification/Memory.thy ===== *)
theory Memory
  imports Prelude Bitmap Sync
begin

text \<open>
  Physical and virtual pages (\<open>kernel/memory.c\<close> without the block heap, which is theory
  \<open>Heap\<close>): the two pools of page frames, the pools of virtual addresses, and the page tables.

  The physical memory is a function from (word aligned) physical addresses to 32 bit words.
  The code reaches it through virtual addresses only; \<open>translate\<close> is the page walk of the
  processor from the page directory at \<open>cr3\<close>, and it has no result where the processor raises
  a page fault, which stops the kernel. The code edits the page tables through the last entry
  of the page directory, which refers to the directory itself; the model follows it, so
  \<open>get_pde_ptr\<close> and \<open>get_pte_ptr\<close> are virtual addresses that are translated in turn.

  The bitmaps of the pools are values of their own: the model does not place their bytes at
  \<open>MEM_BITMAP_BASE\<close>. The locks of the pools are those of theory \<open>Sync\<close>; a call that would
  have to wait for a lock has no result.
\<close>

section \<open>State\<close>

datatype pool_flags = PF_KERNEL | PF_USER

record virtual_pool =
  bitmap_vaddr :: BitMap
  vaddr_start :: nat

record pool =
  pool_bitmap :: BitMap
  phy_addr_start :: nat
  pool_size :: nat
  pool_lock :: lock

text \<open>
  \<open>userprog_vaddr\<close> is the field of that name of the task structures, by thread; the other
  fields of the threads are in \<open>kern\<close>.
\<close>

record mem =
  phys :: "nat \<Rightarrow> nat"
  cr3 :: nat
  kernel_pool :: pool
  user_pool :: pool
  kernel_vaddr :: virtual_pool
  userprog_vaddr :: "nat \<Rightarrow> virtual_pool"
  mkern :: kst

definition K_HEAD_START :: nat where "K_HEAD_START = 0xC0100000"
definition PG_P_1 :: nat where "PG_P_1 = 1"
definition PG_P_0 :: nat where "PG_P_0 = 0"
definition PG_RW_W :: nat where "PG_RW_W = 2"
definition PG_US_U :: nat where "PG_US_U = 4"

definition PDE_IDX :: "nat \<Rightarrow> nat" where
  "PDE_IDX addr = drop_bit 22 (addr AND 0xFFC00000)"

definition PTE_IDX :: "nat \<Rightarrow> nat" where
  "PTE_IDX addr = drop_bit 12 (addr AND 0x003FF000)"

text \<open>The pool a flag selects (\<open>pf & PF_KERNEL\<close>).\<close>

fun pool_of :: "pool_flags \<Rightarrow> mem \<Rightarrow> pool" where
  "pool_of PF_KERNEL m = kernel_pool m"
| "pool_of PF_USER m = user_pool m"

fun upd_pool :: "pool_flags \<Rightarrow> (pool \<Rightarrow> pool) \<Rightarrow> mem \<Rightarrow> mem" where
  "upd_pool PF_KERNEL f m = m\<lparr>kernel_pool := f (kernel_pool m)\<rparr>"
| "upd_pool PF_USER f m = m\<lparr>user_pool := f (user_pool m)\<rparr>"

definition acquire_pool :: "pool_flags \<Rightarrow> mem \<Rightarrow> mem option" where
  "acquire_pool pf m = do {
     (passed, l, k) \<leftarrow> lock_take (pool_lock (pool_of pf m)) (mkern m);
     _ \<leftarrow> ensure passed;
     Some (upd_pool pf (\<lambda>p. p\<lparr>pool_lock := l\<rparr>) (m\<lparr>mkern := k\<rparr>))
   }"

definition release_pool :: "pool_flags \<Rightarrow> mem \<Rightarrow> mem option" where
  "release_pool pf m = do {
     (l, k) \<leftarrow> lock_give (pool_lock (pool_of pf m)) (mkern m);
     Some (upd_pool pf (\<lambda>p. p\<lparr>pool_lock := l\<rparr>) (m\<lparr>mkern := k\<rparr>))
   }"

section \<open>The processor's view\<close>

definition frame :: "nat \<Rightarrow> nat" where
  "frame entry = entry div 4096 * 4096"

definition present :: "nat \<Rightarrow> bool" where
  "present entry \<longleftrightarrow> odd entry"

definition translate :: "mem \<Rightarrow> nat \<Rightarrow> nat option" where
  "translate m va = do {
     let pde = phys m (cr3 m + 4 * (va div 4194304));
     _ \<leftarrow> ensure (present pde);
     let pte = phys m (frame pde + 4 * (va div 4096 mod 1024));
     _ \<leftarrow> ensure (present pte);
     Some (frame pte + va mod 4096)
   }"

definition rd_word :: "nat \<Rightarrow> mem \<Rightarrow> nat option" where
  "rd_word va m = map_option (phys m) (translate m va)"

definition wr_word :: "nat \<Rightarrow> nat \<Rightarrow> mem \<Rightarrow> mem option" where
  "wr_word va v m = map_option (\<lambda>pa. m\<lparr>phys := (phys m)(pa := v)\<rparr>) (translate m va)"

text \<open>\<open>memset(va, 0, 4 * n)\<close> of an aligned area, and \<open>memcpy\<close> of words.\<close>

fun zero_words :: "nat \<Rightarrow> nat \<Rightarrow> mem \<Rightarrow> mem option" where
  "zero_words va 0 m = Some m"
| "zero_words va (Suc n) m = Option.bind (wr_word va 0 m) (zero_words (add32 va 4) n)"

section \<open>Operations\<close>

definition mem_pool_init :: "nat \<Rightarrow> byte list \<Rightarrow> mem \<Rightarrow> mem option" where
  "mem_pool_init all_mem area m = do {
     let used_mem = PG_SIZE * 256 + 0x100000;
     let free_mem = sub32 all_mem used_mem;
     let all_free_pages = u16 (free_mem div PG_SIZE);
     let kernel_free_pages = all_free_pages div 2;
     let user_free_pages = u16 (all_free_pages - kernel_free_pages);
     let kbm_length = kernel_free_pages div 8;
     let ubm_length = user_free_pages div 8;
     let kp_start = used_mem;
     let up_start = add32 kp_start (mul32 kernel_free_pages PG_SIZE);
     _ \<leftarrow> ensure (kbm_length + ubm_length + kbm_length \<le> length area);
     kbm \<leftarrow> bitmap_init \<lparr>bitmap_byte_len = kbm_length, bits = sub_bytes 0 kbm_length area\<rparr>;
     ubm \<leftarrow> bitmap_init \<lparr>bitmap_byte_len = ubm_length, bits = sub_bytes kbm_length ubm_length area\<rparr>;
     vbm \<leftarrow> bitmap_init \<lparr>bitmap_byte_len = kbm_length,
               bits = sub_bytes (kbm_length + ubm_length) kbm_length area\<rparr>;
     Some (m\<lparr>kernel_pool := \<lparr>pool_bitmap = kbm, phy_addr_start = kp_start,
                pool_size = mul32 kernel_free_pages PG_SIZE, pool_lock = lock_init\<rparr>,
             user_pool := \<lparr>pool_bitmap = ubm, phy_addr_start = up_start,
                pool_size = mul32 user_free_pages PG_SIZE, pool_lock = lock_init\<rparr>,
             kernel_vaddr := \<lparr>bitmap_vaddr = vbm, vaddr_start = K_HEAD_START\<rparr>\<rparr>)
   }"

text \<open>
  \<open>bitMap_scan\<close> never returns -1, so the tests for it in \<open>vaddr_get\<close> and \<open>palloc\<close> never
  succeed (lemma \<open>bitMap_scan_byte\<close>).
\<close>

definition vaddr_get :: "pool_flags \<Rightarrow> nat \<Rightarrow> mem \<Rightarrow> (nat \<times> mem) option" where
  "vaddr_get pf pg_cnt m =
     (case pf of
        PF_KERNEL \<Rightarrow>
          let idx = bitMap_scan (bitmap_vaddr (kernel_vaddr m)) pg_cnt
          in if idx = - 1 then Some (0, m)
             else do {
               bm \<leftarrow> bitmap_setEx (bitmap_vaddr (kernel_vaddr m)) (nat idx) 1 pg_cnt;
               Some (add32 (nat idx * PG_SIZE) (vaddr_start (kernel_vaddr m)),
                     m\<lparr>kernel_vaddr := (kernel_vaddr m)\<lparr>bitmap_vaddr := bm\<rparr>\<rparr>)
             }
      | PF_USER \<Rightarrow>
          let cur = get_running_thread_pcb (mkern m);
              vp = userprog_vaddr m cur;
              idx = bitMap_scan (bitmap_vaddr vp) pg_cnt
          in if idx = - 1 then Some (0, m)
             else do {
               bm \<leftarrow> bitmap_setEx (bitmap_vaddr vp) (nat idx) 1 pg_cnt;
               let va = add32 (nat idx * PG_SIZE) (vaddr_start vp);
               _ \<leftarrow> ensure (va < 0xc0000000 - PG_SIZE);
               Some (va, m\<lparr>userprog_vaddr := (userprog_vaddr m)(cur := vp\<lparr>bitmap_vaddr := bm\<rparr>)\<rparr>)
             })"

definition get_pte_ptr :: "nat \<Rightarrow> nat" where
  "get_pte_ptr va = add32 (add32 0xFFC00000 (drop_bit 10 (va AND 0xFFC00000))) (PTE_IDX va * 4)"

definition get_pde_ptr :: "nat \<Rightarrow> nat" where
  "get_pde_ptr va = add32 0xFFFFF000 (PDE_IDX va * 4)"

definition palloc :: "pool_flags \<Rightarrow> mem \<Rightarrow> (nat \<times> mem) option" where
  "palloc pf m =
     (let p = pool_of pf m;
          map_idx = bitMap_scan (pool_bitmap p) 1
      in if map_idx \<noteq> - 1 then do {
           bm \<leftarrow> bitmap_set (pool_bitmap p) (nat map_idx) 1;
           Some (add32 (nat map_idx * PG_SIZE) (phy_addr_start p),
                 upd_pool pf (\<lambda>p. p\<lparr>pool_bitmap := bm\<rparr>) m)
         } else Some (0, m))"

definition page_table_add :: "nat \<Rightarrow> nat \<Rightarrow> mem \<Rightarrow> mem option" where
  "page_table_add va page_phyaddr m = do {
     let pde = get_pde_ptr va;
     let pte = get_pte_ptr va;
     pde_v \<leftarrow> rd_word pde m;
     if pde_v AND PG_P_1 \<noteq> 0 then do {
       pte_v \<leftarrow> rd_word pte m;
       if pte_v AND PG_P_1 \<noteq> 0 then Some m
       else wr_word pte (page_phyaddr OR PG_P_1 OR PG_RW_W OR PG_US_U) m
     } else do {
       (ptt_phyaddr, m) \<leftarrow> palloc PF_KERNEL m;
       m \<leftarrow> wr_word pde (ptt_phyaddr OR PG_P_1 OR PG_RW_W OR PG_US_U) m;
       m \<leftarrow> zero_words (pte AND 0xfffff000) 1024 m;
       wr_word pte (page_phyaddr OR PG_P_1 OR PG_RW_W OR PG_US_U) m
     }
   }"

text \<open>The loop of \<open>malloc_page\<close>; \<open>False\<close> means that it ran out of frames.\<close>

fun map_pages :: "pool_flags \<Rightarrow> nat \<Rightarrow> nat \<Rightarrow> mem \<Rightarrow> (bool \<times> mem) option" where
  "map_pages pf 0 va m = Some (True, m)"
| "map_pages pf (Suc n) va m = do {
     (phyaddr_start, m) \<leftarrow> palloc pf m;
     if phyaddr_start = 0 then Some (False, m)
     else do {
       m \<leftarrow> page_table_add va phyaddr_start m;
       map_pages pf n (add32 va PG_SIZE) m
     }
   }"

definition malloc_page :: "pool_flags \<Rightarrow> nat \<Rightarrow> mem \<Rightarrow> (nat \<times> mem) option" where
  "malloc_page pf pg_cnt m = do {
     let pg_cnt = (if pg_cnt = 0 then 1 else pg_cnt);
     (va, m) \<leftarrow> vaddr_get pf pg_cnt m;
     if va = 0 then Some (0, m)
     else do {
       (ok, m) \<leftarrow> map_pages pf pg_cnt va m;
       Some (if ok then va else 0, m)
     }
   }"

definition get_kernel_pages :: "nat \<Rightarrow> mem \<Rightarrow> (nat \<times> mem) option" where
  "get_kernel_pages pg_cnt m = do {
     let pg_cnt = (if pg_cnt = 0 then 1 else pg_cnt);
     m \<leftarrow> acquire_pool PF_KERNEL m;
     (va, m) \<leftarrow> malloc_page PF_KERNEL pg_cnt m;
     m \<leftarrow> (if va \<noteq> 0 then zero_words va (pg_cnt * 1024) m else Some m);
     m \<leftarrow> release_pool PF_KERNEL m;
     Some (va, m)
   }"

text \<open>\<open>get_user_pages\<close> locks the user pool but takes its pages from the kernel's.\<close>

definition get_user_pages :: "nat \<Rightarrow> mem \<Rightarrow> (nat \<times> mem) option" where
  "get_user_pages pg_cnt m = do {
     let pg_cnt = (if pg_cnt = 0 then 1 else pg_cnt);
     m \<leftarrow> acquire_pool PF_USER m;
     (va, m) \<leftarrow> malloc_page PF_KERNEL pg_cnt m;
     m \<leftarrow> (if va \<noteq> 0 then zero_words va (pg_cnt * 1024) m else Some m);
     m \<leftarrow> release_pool PF_USER m;
     Some (va, m)
   }"

text \<open>
  \<open>get_a_page\<close> marks a given page and maps it. When no frame is left it returns without
  releasing the lock.
\<close>

definition get_a_page :: "pool_flags \<Rightarrow> nat \<Rightarrow> mem \<Rightarrow> (nat \<times> mem) option" where
  "get_a_page pf va m = do {
     m \<leftarrow> acquire_pool pf m;
     let cur = get_running_thread_pcb (mkern m);
     t \<leftarrow> tasks (mkern m) cur;
     m \<leftarrow> (if pgdir t \<noteq> 0 \<and> pf = PF_USER then do {
             let vp = userprog_vaddr m cur;
             _ \<leftarrow> ensure (vaddr_start vp \<le> va);
             bm \<leftarrow> bitmap_set (bitmap_vaddr vp) ((va - vaddr_start vp) div PG_SIZE) 1;
             Some (m\<lparr>userprog_vaddr := (userprog_vaddr m)(cur := vp\<lparr>bitmap_vaddr := bm\<rparr>)\<rparr>)
           } else if pgdir t \<noteq> 0 \<and> pf = PF_KERNEL then do {
             let vp = kernel_vaddr m;
             _ \<leftarrow> ensure (vaddr_start vp \<le> va);
             bm \<leftarrow> bitmap_set (bitmap_vaddr vp) ((va - vaddr_start vp) div PG_SIZE) 1;
             Some (m\<lparr>kernel_vaddr := vp\<lparr>bitmap_vaddr := bm\<rparr>\<rparr>)
           } else None);
     (page_phyaddr, m) \<leftarrow> palloc pf m;
     if page_phyaddr = 0 then Some (0, m)
     else do {
       m \<leftarrow> page_table_add va page_phyaddr m;
       m \<leftarrow> release_pool pf m;
       Some (va, m)
     }
   }"

definition get_a_page_without_opvaddrbitmap :: "pool_flags \<Rightarrow> nat \<Rightarrow> mem \<Rightarrow> (nat \<times> mem) option" where
  "get_a_page_without_opvaddrbitmap pf va m = do {
     m \<leftarrow> acquire_pool pf m;
     (page_phyaddr, m) \<leftarrow> palloc pf m;
     if page_phyaddr = 0 then do {
       m \<leftarrow> release_pool pf m;
       Some (0, m)
     } else do {
       m \<leftarrow> page_table_add va page_phyaddr m;
       m \<leftarrow> release_pool pf m;
       Some (va, m)
     }
   }"

definition addr_v2p :: "nat \<Rightarrow> mem \<Rightarrow> nat option" where
  "addr_v2p va m = do {
     pte_v \<leftarrow> rd_word (get_pte_ptr va) m;
     Some (add32 (pte_v AND 0xfffff000) (va AND 0x00000fff))
   }"

definition pfree :: "nat \<Rightarrow> mem \<Rightarrow> mem option" where
  "pfree pg_phy_addr m =
     (if phy_addr_start (user_pool m) \<le> pg_phy_addr then do {
        bm \<leftarrow> bitmap_set (pool_bitmap (user_pool m))
                ((pg_phy_addr - phy_addr_start (user_pool m)) div PG_SIZE) 0;
        Some (upd_pool PF_USER (\<lambda>p. p\<lparr>pool_bitmap := bm\<rparr>) m)
      } else if phy_addr_start (kernel_pool m) \<le> pg_phy_addr then do {
        bm \<leftarrow> bitmap_set (pool_bitmap (kernel_pool m))
                ((pg_phy_addr - phy_addr_start (kernel_pool m)) div PG_SIZE) 0;
        Some (upd_pool PF_KERNEL (\<lambda>p. p\<lparr>pool_bitmap := bm\<rparr>) m)
      } else Some m)"

text \<open>\<open>free_a_phy_page\<close> differs from \<open>pfree\<close> below the kernel pool, where its index wraps around.\<close>

definition free_a_phy_page :: "nat \<Rightarrow> mem \<Rightarrow> mem option" where
  "free_a_phy_page pg_phy_addr m =
     (if phy_addr_start (user_pool m) \<le> pg_phy_addr then do {
        bm \<leftarrow> bitmap_set (pool_bitmap (user_pool m))
                ((pg_phy_addr - phy_addr_start (user_pool m)) div PG_SIZE) 0;
        Some (upd_pool PF_USER (\<lambda>p. p\<lparr>pool_bitmap := bm\<rparr>) m)
      } else do {
        bm \<leftarrow> bitmap_set (pool_bitmap (kernel_pool m))
                (sub32 pg_phy_addr (phy_addr_start (kernel_pool m)) div PG_SIZE) 0;
        Some (upd_pool PF_KERNEL (\<lambda>p. p\<lparr>pool_bitmap := bm\<rparr>) m)
      })"

definition vaddr_remove :: "pool_flags \<Rightarrow> nat \<Rightarrow> nat \<Rightarrow> mem \<Rightarrow> mem option" where
  "vaddr_remove pf va pg_cnt m =
     (case pf of
        PF_KERNEL \<Rightarrow> do {
          let vp = kernel_vaddr m;
          bm \<leftarrow> bitmap_setEx (bitmap_vaddr vp) (sub32 va (vaddr_start vp) div PG_SIZE) 0 pg_cnt;
          Some (m\<lparr>kernel_vaddr := vp\<lparr>bitmap_vaddr := bm\<rparr>\<rparr>)
        }
      | PF_USER \<Rightarrow> do {
          let cur = get_running_thread_pcb (mkern m);
          let vp = userprog_vaddr m cur;
          bm \<leftarrow> bitmap_setEx (bitmap_vaddr vp) (sub32 va (vaddr_start vp) div PG_SIZE) 0 pg_cnt;
          Some (m\<lparr>userprog_vaddr := (userprog_vaddr m)(cur := vp\<lparr>bitmap_vaddr := bm\<rparr>)\<rparr>)
        })"

definition page_table_pte_remove :: "nat \<Rightarrow> mem \<Rightarrow> mem option" where
  "page_table_pte_remove va m = do {
     pte_v \<leftarrow> rd_word (get_pte_ptr va) m;
     wr_word (get_pte_ptr va) (pte_v AND PG_P_0) m
   }"

text \<open>The two loops of \<open>mfree_page\<close>: every page must lie at or above \<open>lowest\<close>.\<close>

fun free_pages :: "nat \<Rightarrow> nat \<Rightarrow> nat \<Rightarrow> mem \<Rightarrow> mem option" where
  "free_pages lowest va 0 m = Some m"
| "free_pages lowest va (Suc cnt) m = do {
     phy_addr \<leftarrow> addr_v2p va m;
     _ \<leftarrow> ensure (lowest \<le> phy_addr);
     m \<leftarrow> pfree phy_addr m;
     m \<leftarrow> page_table_pte_remove va m;
     free_pages lowest (add32 va PG_SIZE) cnt m
   }"

definition mfree_page :: "pool_flags \<Rightarrow> nat \<Rightarrow> nat \<Rightarrow> mem \<Rightarrow> mem option" where
  "mfree_page pf va cnt m = do {
     phy_addr \<leftarrow> addr_v2p va m;
     if phy_addr_start (user_pool m) \<le> phy_addr then do {
       m \<leftarrow> free_pages (phy_addr_start (user_pool m)) va cnt m;
       vaddr_remove pf va cnt m
     } else if phy_addr_start (kernel_pool m) \<le> phy_addr then do {
       m \<leftarrow> free_pages (phy_addr_start (kernel_pool m)) va cnt m;
       vaddr_remove pf va cnt m
     } else Some m
   }"

section \<open>Addresses\<close>

lemma and_field: "(n::nat) AND push_bit k (mask w) = push_bit k (take_bit w (drop_bit k n))"
  by (rule bit_eqI) (auto simp: bit_and_iff bit_push_bit_iff bit_take_bit_iff bit_drop_bit_eq
      bit_mask_iff possible_bit_def)

lemma field_masks:
  "(0xFFC00000::nat) = push_bit 22 (mask 10)" "(0x003FF000::nat) = push_bit 12 (mask 10)"
  "(0xfffff000::nat) = push_bit 12 (mask 20)" "(0x00000fff::nat) = push_bit 0 (mask 12)"
  by (simp_all add: push_bit_eq_mult mask_eq_exp_minus_1)

lemma PDE_IDX_div: "va < 4294967296 \<Longrightarrow> PDE_IDX va = va div 4194304"
  unfolding PDE_IDX_def field_masks and_field
  by (simp add: take_bit_eq_mod drop_bit_eq_div push_bit_eq_mult)

lemma PTE_IDX_div: "PTE_IDX va = va div 4096 mod 1024"
  unfolding PTE_IDX_def field_masks and_field
  by (simp add: take_bit_eq_mod drop_bit_eq_div push_bit_eq_mult)

lemma and_frame: "x < 4294967296 \<Longrightarrow> x AND 0xfffff000 = frame x"
  unfolding field_masks and_field frame_def
  by (simp add: take_bit_eq_mod drop_bit_eq_div push_bit_eq_mult)

lemma and_offset: "(x::nat) AND 0x00000fff = x mod 4096"
  unfolding field_masks and_field by (simp add: take_bit_eq_mod)

lemma get_pte_ptr_eq:
  assumes "va < 4294967296"
  shows "get_pte_ptr va = 0xFFC00000 + 4096 * (va div 4194304) + 4 * (va div 4096 mod 1024)"
proof -
  have "drop_bit 10 (va AND 0xFFC00000) = 4096 * (va div 4194304)"
    using assms unfolding field_masks and_field
    by (simp add: take_bit_eq_mod drop_bit_eq_div push_bit_eq_mult)
  moreover have "va div 4194304 < 1024" "va div 4096 mod 1024 < 1024" using assms by simp_all
  ultimately show ?thesis by (simp add: get_pte_ptr_def PTE_IDX_div add32_def u32_def)
qed

lemma get_pde_ptr_eq:
  assumes "va < 4294967296"
  shows "get_pde_ptr va = 0xFFFFF000 + 4 * (va div 4194304)"
proof -
  have "va div 4194304 < 1024" using assms by simp
  then show ?thesis using assms by (simp add: get_pde_ptr_def PDE_IDX_div add32_def u32_def)
qed

lemma frame_le: "frame x \<le> x" by (simp add: frame_def)

lemma frame_aligned [simp]: "frame x mod 4096 = 0" by (simp add: frame_def)

lemma frame_of_frame [simp]: "x mod 4096 = 0 \<Longrightarrow> frame x = x" 
  by (metis frame_def div_mult_mod_eq add.right_neutral)

lemma entry_flags:
  assumes "x mod 4096 = (0::nat)"
  shows "x OR PG_P_1 OR PG_RW_W OR PG_US_U = x + 7" "frame (x + 7) = x" "present (x + 7)"
proof -
  obtain k where k: "x = 4096 * k" using assms by (auto simp: mod_eq_0_iff_dvd elim: dvdE)
  have x: "x = push_bit 12 k" using k by (simp add: push_bit_eq_mult)
  have "x OR 7 = x + 7"
  proof (rule disjunctive_add [symmetric])
    fix n
    have "\<not> bit x n" if "n < 12" using that by (simp add: x bit_push_bit_iff)
    moreover have "\<not> bit (7::nat) n" if "12 \<le> n"
    proof -
      have "(7::nat) < 2 ^ n"
        using power_increasing [OF that, of "2::nat"] by simp
      then show ?thesis by (simp add: bit_iff_odd)
    qed
    ultimately show "\<not> bit x n \<or> \<not> bit (7::nat) n" by (meson not_le)
  qed
  moreover have "x OR PG_P_1 OR PG_RW_W OR PG_US_U = x OR 7"
    by (simp add: PG_P_1_def PG_RW_W_def PG_US_U_def or.assoc)
  ultimately show "x OR PG_P_1 OR PG_RW_W OR PG_US_U = x + 7" by simp
  show "frame (x + 7) = x" using k by (simp add: frame_def)
  show "present (x + 7)" using k by (simp add: present_def)
qed

lemma flag_present: "(x AND PG_P_1 = 0) = (\<not> present x)" "(0 < x AND PG_P_1) = present x"
  by (auto simp: PG_P_1_def present_def and_one_eq odd_iff_mod_2_eq_one)

section \<open>Page tables\<close>

definition pde_at :: "mem \<Rightarrow> nat \<Rightarrow> nat" where
  "pde_at m i = phys m (cr3 m + 4 * i)"

definition pte_at :: "mem \<Rightarrow> nat \<Rightarrow> nat \<Rightarrow> nat" where
  "pte_at m i j = phys m (frame (pde_at m i) + 4 * j)"

text \<open>The last entry of the page directory refers to the directory.\<close>

definition self_map :: "mem \<Rightarrow> bool" where
  "self_map m \<longleftrightarrow> cr3 m mod 4096 = 0 \<and> present (pde_at m 1023) \<and> frame (pde_at m 1023) = cr3 m"

definition table_frames :: "mem \<Rightarrow> nat set" where
  "table_frames m = insert (cr3 m) (frame ` pde_at m ` {i. i < 1023 \<and> present (pde_at m i)})"

lemma translate_walk:
  "translate m va = (if present (pde_at m (va div 4194304))
      \<and> present (pte_at m (va div 4194304) (va div 4096 mod 1024))
    then Some (frame (pte_at m (va div 4194304) (va div 4096 mod 1024)) + va mod 4096) else None)"
  by (simp add: translate_def pde_at_def pte_at_def Let_def ensure_def)

lemma pte_at_self: "self_map m \<Longrightarrow> pte_at m 1023 i = pde_at m i"
  by (simp add: self_map_def pte_at_def pde_at_def)

lemma top_address:
  fixes b c :: nat
  assumes "b < 1024" and "c < 1024"
  shows "(0xFFC00000 + 4096 * b + 4 * c) div 4194304 = 1023"
    "(0xFFC00000 + 4096 * b + 4 * c) div 4096 mod 1024 = b"
    "(0xFFC00000 + 4096 * b + 4 * c) mod 4096 = 4 * c"
proof -
  let ?x = "0xFFC00000 + 4096 * b + 4 * c"
  have x: "?x = 4 * c + 4096 * (1047552 + b)" by simp
  have d: "?x div 4096 = 1047552 + b" and m: "?x mod 4096 = 4 * c"
    unfolding x using assms by (simp_all add: div_mult_self2 del: distrib_left_numeral)
  show "?x mod 4096 = 4 * c" by (rule m)
  have "?x div 4194304 = (?x div 4096) div 1024" by (simp add: div_mult2_eq [symmetric])
  then show "?x div 4194304 = 1023" using d assms by simp
  have "(1047552 + b) mod 1024 = b" using assms by (simp add: mod_add_eq [of 1047552, symmetric])
  then show "?x div 4096 mod 1024 = b" using d by simp
qed

lemma index_less: "va < 4294967296 \<Longrightarrow> va div 4194304 < (1024::nat)"
  by simp

lemma translate_pde:
  assumes "self_map m" and "va < 4294967296"
  shows "translate m (get_pde_ptr va) = Some (cr3 m + 4 * (va div 4194304))"
proof -
  have "get_pde_ptr va = 0xFFC00000 + 4096 * 1023 + 4 * (va div 4194304)"
    using assms(2) by (simp add: get_pde_ptr_eq)
  then show ?thesis
    using assms(1) top_address [of 1023, OF _ index_less [OF assms(2)]]
    by (simp add: translate_walk pte_at_self) (simp add: self_map_def)
qed

lemma translate_pte:
  assumes "self_map m" and "va < 4294967296" and "present (pde_at m (va div 4194304))"
  shows "translate m (get_pte_ptr va) =
    Some (frame (pde_at m (va div 4194304)) + 4 * (va div 4096 mod 1024))"
  using assms top_address [OF index_less [OF assms(2)], of "va div 4096 mod 1024"]
  by (simp add: translate_walk pte_at_self get_pte_ptr_eq) (simp add: self_map_def)

lemma rd_pde: "self_map m \<Longrightarrow> va < 4294967296 \<Longrightarrow> rd_word (get_pde_ptr va) m = Some (pde_at m (va div 4194304))"
  by (simp add: rd_word_def translate_pde pde_at_def)

lemma rd_pte:
  "self_map m \<Longrightarrow> va < 4294967296 \<Longrightarrow> present (pde_at m (va div 4194304)) \<Longrightarrow>
    rd_word (get_pte_ptr va) m = Some (pte_at m (va div 4194304) (va div 4096 mod 1024))"
  by (simp add: rd_word_def translate_pte pte_at_def)

text \<open>Writing outside the tables changes no translation.\<close>

definition same_tables :: "mem \<Rightarrow> mem \<Rightarrow> bool" where
  "same_tables m m' \<longleftrightarrow> cr3 m' = cr3 m \<and> (\<forall>a. frame a \<in> table_frames m \<longrightarrow> phys m' a = phys m a)"

lemma frame_offset: "x mod 4096 = 0 \<Longrightarrow> j < 1024 \<Longrightarrow> frame (x + 4 * j) = x"
proof -
  assume "x mod 4096 = 0" "j < 1024"
  then obtain k where "x = 4096 * k" by (auto simp: mod_eq_0_iff_dvd elim: dvdE)
  with \<open>j < 1024\<close> show ?thesis by (simp add: frame_def)
qed

lemma same_tables_pde:
  assumes "same_tables m m'" and "self_map m" and "i < 1024"
  shows "pde_at m' i = pde_at m i"
  using assms frame_offset [of "cr3 m" i]
  by (simp add: same_tables_def self_map_def pde_at_def table_frames_def)

lemma same_tables_pte:
  assumes "same_tables m m'" and "self_map m" and "i < 1024" and "j < 1024" and "present (pde_at m i)"
  shows "pte_at m' i j = pte_at m i j"
proof -
  have "frame (pde_at m i) \<in> table_frames m"
  proof (cases "i = 1023")
    case True
    then show ?thesis using assms(2) by (simp add: self_map_def table_frames_def)
  next
    case False
    with assms show ?thesis by (auto simp: table_frames_def)
  qed
  then show ?thesis
    using assms same_tables_pde [OF assms(1-3)] frame_offset [of "frame (pde_at m i)" j]
    by (simp add: same_tables_def pte_at_def)
qed

lemma same_tables_self: "same_tables m m' \<Longrightarrow> self_map m \<Longrightarrow> self_map m'"
  using same_tables_pde [of m m' 1023] by (simp add: self_map_def same_tables_def)

lemma same_tables_translate:
  assumes "same_tables m m'" and "self_map m" and "va < 4294967296"
  shows "translate m' va = translate m va"
  using assms same_tables_pde [OF assms(1,2) index_less [OF assms(3)]]
    same_tables_pte [OF assms(1,2) index_less [OF assms(3)], of "va div 4096 mod 1024"]
  by (auto simp: translate_walk)

lemma same_tables_frames:
  assumes "same_tables m m'" and "self_map m"
  shows "table_frames m' = table_frames m"
proof -
  have "pde_at m' i = pde_at m i" if "i < 1023" for i
    using same_tables_pde [OF assms, of i] that by simp
  then have "pde_at m' ` {i. i < 1023 \<and> present (pde_at m' i)} = pde_at m ` {i. i < 1023 \<and> present (pde_at m i)}"
    by (intro image_cong) auto
  then show ?thesis using assms(1) by (simp add: table_frames_def same_tables_def)
qed

text \<open>Words \<open>k\<close> to \<open>k + n - 1\<close> of the frame at \<open>f\<close> set to 0.\<close>

definition cleared :: "nat \<Rightarrow> nat \<Rightarrow> nat \<Rightarrow> (nat \<Rightarrow> nat) \<Rightarrow> nat \<Rightarrow> nat" where
  "cleared f k n ph = (\<lambda>a. if \<exists>l. k \<le> l \<and> l < k + n \<and> a = f + 4 * l then 0 else ph a)"

lemma cleared_Suc: "cleared f (Suc k) n (ph(f + 4 * k := 0)) = cleared f k (Suc n) ph"
proof
  fix a
  have "(\<exists>l. k \<le> l \<and> l < k + Suc n \<and> a = f + 4 * l) \<longleftrightarrow>
      a = f + 4 * k \<or> (\<exists>l. Suc k \<le> l \<and> l < Suc k + n \<and> a = f + 4 * l)"
    by (metis Suc_leI add_Suc_right add_Suc_shift le_eq_less_or_eq less_add_Suc1 Suc_leD)
  then show "cleared f (Suc k) n (ph(f + 4 * k := 0)) a = cleared f k (Suc n) ph a"
    by (auto simp: cleared_def)
qed

lemma cleared_other:
  assumes "f mod 4096 = 0" and "k + n \<le> 1024" and "frame a \<noteq> f"
  shows "cleared f k n ph a = ph a"
proof -
  have "a \<noteq> f + 4 * l" if "l < k + n" for l
    using frame_offset [OF assms(1), of l] assms(2,3) that by auto
  then show ?thesis by (auto simp: cleared_def)
qed

text \<open>A translation depends on the page directory and on one page table.\<close>

lemma translate_frame:
  assumes "cr3 m' = cr3 m" and "cr3 m mod 4096 = 0" and "va < 4294967296"
    and "\<And>a. frame a = cr3 m \<or> frame a = frame (pde_at m (va div 4194304)) \<Longrightarrow> phys m' a = phys m a"
  shows "pde_at m' (va div 4194304) = pde_at m (va div 4194304)" and "translate m' va = translate m va"
proof -
  let ?i = "va div 4194304" and ?j = "va div 4096 mod 1024"
  show d: "pde_at m' ?i = pde_at m ?i"
    using assms(1) assms(4) [of "cr3 m + 4 * ?i"] frame_offset [OF assms(2) index_less [OF assms(3)]]
    by (simp add: pde_at_def)
  have "pte_at m' ?i ?j = pte_at m ?i ?j"
    using assms(4) [of "frame (pde_at m ?i) + 4 * ?j"] frame_offset [of "frame (pde_at m ?i)" ?j] d
    by (simp add: pte_at_def)
  with d show "translate m' va = translate m va" by (simp add: translate_walk)
qed

text \<open>Setting consecutive words of a page that is not used for its own translation.\<close>

lemma zero_words_page:
  assumes "cr3 m mod 4096 = 0" and "va < 4294967296" and "translate m va = Some (f + 4 * k)"
    and "f mod 4096 = 0" and "k + n \<le> 1024" and "va mod 4096 = 4 * k"
    and "f \<noteq> cr3 m" and "f \<noteq> frame (pde_at m (va div 4194304))"
  shows "zero_words va n m = Some (m\<lparr>phys := cleared f k n (phys m)\<rparr>)"
  using assms
proof (induction n arbitrary: m va k)
  case 0
  have "cleared f k 0 (phys m) = phys m" by (intro ext) (auto simp: cleared_def)
  then show ?case by simp
next
  case (Suc n)
  let ?m = "m\<lparr>phys := (phys m)(f + 4 * k := 0)\<rparr>"
  have k: "k < 1024" using Suc.prems(5) by simp
  have w: "wr_word va 0 m = Some ?m" by (simp add: wr_word_def Suc.prems(3))
  show ?case
  proof (cases "n = 0")
    case True
    have "cleared f (Suc k) 0 ((phys m)(f + 4 * k := 0)) = (phys m)(f + 4 * k := 0)"
      by (intro ext) (auto simp: cleared_def)
    then show ?thesis using w True cleared_Suc [of f k 0 "phys m"] by (simp add: fun_upd_def)
  next
    case False
    then have k1: "Suc k < 1024" using Suc.prems(5) by simp
    define q where "q = va div 4096"
    have e: "va + 4 = 4 * Suc k + 4096 * q"
      using Suc.prems(6) div_mult_mod_eq [of va 4096] by (simp add: q_def)
    have up: "va + 4 < 4294967296"
    proof -
      have "q \<le> 1048575" using Suc.prems(2) by (simp add: q_def)
      then have "4096 * q \<le> 4294963200" by simp
      moreover have "4 * Suc k \<le> 4092" using k1 by simp
      ultimately show ?thesis unfolding e by linarith
    qed
    have m4: "(va + 4) mod 4096 = 4 * Suc k"
      unfolding e mod_mult_self2 using k1 by simp
    have d4: "(va + 4) div 4096 = va div 4096"
      unfolding e using k1 by (simp only: div_mult_self2) (simp add: q_def)
    have d22: "(va + 4) div 4194304 = va div 4194304"
      using arg_cong [OF d4, of "\<lambda>x. x div 1024"] by (simp add: div_mult2_eq [symmetric])
    have "phys ?m a = phys m a" if "frame a = cr3 m \<or> frame a = frame (pde_at m ((va + 4) div 4194304))" for a
      using that Suc.prems(7,8) frame_offset [OF Suc.prems(4) k] d22 by auto
    then have tr: "pde_at ?m ((va + 4) div 4194304) = pde_at m ((va + 4) div 4194304)"
        "translate ?m (va + 4) = translate m (va + 4)"
      using translate_frame [OF _ Suc.prems(1) up, of ?m] by auto
    have "translate m (va + 4) = Some (f + 4 * Suc k)"
      using Suc.prems(3,6) k1 by (auto simp: translate_walk m4 d4 d22 split: if_splits)
    then have t: "translate ?m (va + 4) = Some (f + 4 * Suc k)" using tr(2) by simp
    have "zero_words va (Suc n) m = zero_words (va + 4) n ?m"
      using w up by (simp add: add32_small)
    also have "\<dots> = Some (?m\<lparr>phys := cleared f (Suc k) n (phys ?m)\<rparr>)"
      by (rule Suc.IH [OF _ up t Suc.prems(4) _ m4]) (use Suc.prems tr(1) d22 in simp_all)
    also have "\<dots> = Some (m\<lparr>phys := cleared f (Suc k) n ((phys m)(f + 4 * k := 0))\<rparr>)"
      by simp
    finally show ?thesis unfolding cleared_Suc .
  qed
qed

text \<open>\<open>page_table_add\<close> where the page table exists.\<close>

lemma page_table_add_present:
  assumes "self_map m" and "va < 4294967296" and "present (pde_at m (va div 4194304))"
    and "\<not> present (pte_at m (va div 4194304) (va div 4096 mod 1024))" and "f mod 4096 = 0"
  shows "page_table_add va f m = Some (m\<lparr>phys := (phys m)
    (frame (pde_at m (va div 4194304)) + 4 * (va div 4096 mod 1024) := f + 7)\<rparr>)"
  using assms
  by (simp add: page_table_add_def Let_def rd_pde rd_pte flag_present entry_flags wr_word_def translate_pte)

section \<open>The pools\<close>

definition free_in :: "pool \<Rightarrow> nat set" where
  "free_in p = {phy_addr_start p + 4096 * k |k. k < bm_size (pool_bitmap p) \<and> \<not> bmbit (pool_bitmap p) k}"

definition free_frames :: "mem \<Rightarrow> nat set" where
  "free_frames m = free_in (kernel_pool m) \<union> free_in (user_pool m)"

definition pools_ok :: "mem \<Rightarrow> bool" where
  "pools_ok m \<longleftrightarrow> bm_wf (pool_bitmap (kernel_pool m)) \<and> bm_wf (pool_bitmap (user_pool m))
     \<and> phy_addr_start (kernel_pool m) mod 4096 = 0 \<and> phy_addr_start (user_pool m) mod 4096 = 0
     \<and> 0 < phy_addr_start (kernel_pool m)
     \<and> phy_addr_start (kernel_pool m) + 4096 * bm_size (pool_bitmap (kernel_pool m)) \<le> phy_addr_start (user_pool m)
     \<and> phy_addr_start (user_pool m) + 4096 * bm_size (pool_bitmap (user_pool m)) \<le> 4294967296"

text \<open>How many frames the scan of a pool can still find.\<close>

definition room :: "pool_flags \<Rightarrow> mem \<Rightarrow> nat" where
  "room pf m = card {k. k < 255 \<and> k + 1 < bm_size (pool_bitmap (pool_of pf m)) \<and> \<not> bmbit (pool_bitmap (pool_of pf m)) k}"

lemma room_first_free:
  assumes "0 < room pf m"
  obtains k where "first_free (pool_bitmap (pool_of pf m)) k" and "k < 255"
proof -
  let ?b = "pool_bitmap (pool_of pf m)"
  from assms obtain i where i: "i < 255" "i + 1 < bm_size ?b" "\<not> bmbit ?b i"
    unfolding room_def card_gt_0_iff by blast
  obtain k where k: "k \<le> i" "\<forall>j < k. bmbit ?b j" "\<not> bmbit ?b k"
    using ex_least_nat_le [of "\<lambda>j. \<not> bmbit ?b j", OF i(3)] by auto
  then have "first_free ?b k" "k < 255" using i by (auto simp: first_free_def)
  then show ?thesis by (rule that)
qed

lemma palloc_runs:
  assumes "pools_ok m" and "0 < room pf m"
  shows "\<exists>f bm. palloc pf m = Some (f, upd_pool pf (\<lambda>p. p\<lparr>pool_bitmap := bm\<rparr>) m)
    \<and> f \<in> free_in (pool_of pf m) \<and> f \<in> free_frames m
    \<and> free_frames (upd_pool pf (\<lambda>p. p\<lparr>pool_bitmap := bm\<rparr>) m) = free_frames m - {f}
    \<and> pools_ok (upd_pool pf (\<lambda>p. p\<lparr>pool_bitmap := bm\<rparr>) m)
    \<and> f mod 4096 = 0 \<and> 0 < f \<and> f < 4294967296
    \<and> room pf (upd_pool pf (\<lambda>p. p\<lparr>pool_bitmap := bm\<rparr>) m) = room pf m - 1
    \<and> (\<forall>pf'. pf' \<noteq> pf \<longrightarrow> room pf' (upd_pool pf (\<lambda>p. p\<lparr>pool_bitmap := bm\<rparr>) m) = room pf' m)
    \<and> bm_size bm = bm_size (pool_bitmap (pool_of pf m))"
proof -
  let ?p = "pool_of pf m" and ?b = "pool_bitmap (pool_of pf m)"
  obtain k where k: "first_free ?b k" "k < 255" using room_first_free [OF assms(2)] .
  have wf: "bm_wf ?b" using assms(1) by (cases pf) (simp_all add: pools_ok_def)
  from take_first_free [OF wf k(1)] obtain bm where bm: "bitmap_set ?b k 1 = Some bm" "bm_wf bm"
      "bm_size bm = bm_size ?b" "\<forall>j < bm_size ?b. bmbit bm j = (j = k \<or> bmbit ?b j)" by blast
  let ?f = "phy_addr_start ?p + 4096 * k"
  let ?m = "upd_pool pf (\<lambda>p. p\<lparr>pool_bitmap := bm\<rparr>) m"
  have k1: "k < bm_size ?b" "\<not> bmbit ?b k" using k(1) by (auto simp: first_free_def)
  have lim: "phy_addr_start ?p + 4096 * bm_size ?b \<le> 4294967296" "0 < phy_addr_start ?p"
    "phy_addr_start ?p mod 4096 = 0"
    using assms(1) by (cases pf; auto simp: pools_ok_def)+
  then have f: "?f mod 4096 = 0" "0 < ?f" "?f < 4294967296" using k1(1) by auto
  have run: "palloc pf m = Some (?f, ?m)"
    using bm(1) f(3) scan_first_free [OF wf k(1)]
    by (simp add: palloc_def Let_def PG_SIZE_def add32_small mult.commute add.commute)
  have pool: "pool_of pf ?m = ?p\<lparr>pool_bitmap := bm\<rparr>" by (cases pf) simp_all
  have other: "pool_of pf' ?m = pool_of pf' m" if "pf' \<noteq> pf" for pf'
    using that by (cases pf; cases pf') simp_all
  have fin: "free_in (?p\<lparr>pool_bitmap := bm\<rparr>) = free_in ?p - {?f}"
    using bm(3,4) by (auto simp: free_in_def)
  have apart: "?f \<notin> free_in (pool_of pf' m)" if "pf' \<noteq> pf" for pf'
  proof
    assume "?f \<in> free_in (pool_of pf' m)"
    then obtain j where "j < bm_size (pool_bitmap (pool_of pf' m))"
        "?f = phy_addr_start (pool_of pf' m) + 4096 * j" by (auto simp: free_in_def)
    with that k1(1) assms(1) show False by (cases pf; cases pf') (auto simp: pools_ok_def)
  qed
  have free: "free_frames ?m = free_frames m - {?f}"
    using fin apart [of PF_USER] apart [of PF_KERNEL] by (cases pf) (auto simp: free_frames_def)
  have ok: "pools_ok ?m" using assms(1) bm(2,3) by (cases pf) (simp_all add: pools_ok_def)
  have "{j. j < 255 \<and> j + 1 < bm_size bm \<and> \<not> bmbit bm j}
      = {j. j < 255 \<and> j + 1 < bm_size ?b \<and> \<not> bmbit ?b j} - {k}"
    using bm(3,4) by auto
  then have room1: "room pf ?m = room pf m - 1"
    using k k1 by (simp add: room_def pool first_free_def)
  have room2: "\<forall>pf'. pf' \<noteq> pf \<longrightarrow> room pf' ?m = room pf' m" using other by (simp add: room_def)
  have "?f \<in> free_in ?p" using k1 by (auto simp: free_in_def)
  then have mem: "?f \<in> free_in ?p" "?f \<in> free_frames m" by (cases pf; auto simp: free_frames_def)+
  show ?thesis
    by (intro exI [of _ ?f] exI [of _ bm] conjI) (fact run free ok f room1 room2 mem bm(3))+
qed

text \<open>\<open>page_table_add\<close> where the page table has to be made.\<close>

lemma page_table_add_absent:
  assumes "self_map m" and "pools_ok m" and "0 < room PF_KERNEL m" and "cr3 m \<notin> free_frames m"
    and "va < 0xFFC00000" and "\<not> present (pde_at m (va div 4194304))" and "f mod 4096 = 0"
  shows "\<exists>t m1. palloc PF_KERNEL m = Some (t, m1) \<and> t \<in> free_frames m \<and> t mod 4096 = 0
    \<and> page_table_add va f m = Some (m1\<lparr>phys :=
      (cleared t 0 1024 ((phys m)(cr3 m + 4 * (va div 4194304) := t + 7)))
        (t + 4 * (va div 4096 mod 1024) := f + 7)\<rparr>)"
proof -
  define i where "i = va div 4194304"
  define j where "j = va div 4096 mod 1024"
  have i: "i < 1023" and j: "j < 1024" and va: "va < 4294967296"
    using assms(5) by (simp_all add: i_def j_def)
  have absent: "\<not> present (pde_at m i)" using assms(6) by (simp add: i_def)
  obtain t bm where p: "palloc PF_KERNEL m = Some (t, upd_pool PF_KERNEL (\<lambda>p. p\<lparr>pool_bitmap := bm\<rparr>) m)"
      "t \<in> free_frames m" "t mod 4096 = 0"
    using palloc_runs [OF assms(2,3)] by (elim exE conjE) (rule that)
  define m1 where "m1 = upd_pool PF_KERNEL (\<lambda>p. p\<lparr>pool_bitmap := bm\<rparr>) m"
  have m1: "phys m1 = phys m" "cr3 m1 = cr3 m" by (simp_all add: m1_def)
  then have sm1: "self_map m1" using assms(1) by (simp add: self_map_def pde_at_def)
  define m2 where "m2 = m1\<lparr>phys := (phys m)(cr3 m + 4 * i := t + 7)\<rparr>"
  have pde2: "pde_at m2 i = t + 7" "pde_at m2 1023 = pde_at m 1023"
    using i m1 by (simp_all add: pde_at_def m2_def)
  then have sm2: "self_map m2" using assms(1) m1 by (simp add: self_map_def m2_def)
  have t: "t \<noteq> cr3 m" "frame (t + 7) = t" "present (t + 7)" "t OR PG_P_1 OR PG_RW_W OR PG_US_U = t + 7"
    using p(2,3) assms(4) entry_flags [OF p(3)] by auto
  define w where "w = (0xFFC00000 + 4096 * i :: nat)"
  have w: "w < 4294967296" "w mod 4096 = 0" "w div 4194304 = 1023" "w div 4096 mod 1024 = i"
    using i top_address [of i 0] by (auto simp: w_def)
  have fw: "get_pte_ptr va AND 0xfffff000 = w"
  proof -
    have lt: "get_pte_ptr va < 4294967296" by (simp add: get_pte_ptr_def add32_def)
    have "get_pte_ptr va = w + 4 * j" using get_pte_ptr_eq [OF va] by (simp add: w_def i_def j_def)
    then show ?thesis using and_frame [OF lt] frame_offset [OF w(2) j] by simp
  qed
  have tw: "translate m2 w = Some (t + 4 * 0)"
    using w(2-4) pde2(1) t(2,3) sm2 pte_at_self [OF sm2, of i]
    by (simp add: translate_walk) (simp add: self_map_def)
  define m3 where "m3 = m2\<lparr>phys := cleared t 0 1024 (phys m2)\<rparr>"
  have z: "zero_words w 1024 m2 = Some m3"
    unfolding m3_def
  proof (rule zero_words_page [OF _ w(1) tw p(3)])
    show "cr3 m2 mod 4096 = 0" using sm2 by (simp add: self_map_def)
    show "t \<noteq> cr3 m2" using t(1) m1 by (simp add: m2_def)
    show "t \<noteq> frame (pde_at m2 (w div 4194304))"
      using t(1) sm2 m1 w(3) by (simp add: self_map_def m2_def)
  qed (use w(2) in simp_all)
  have same3: "phys m3 a = phys m2 a" if "frame a = cr3 m" for a
    using cleared_other [OF p(3), of 0 1024 a "phys m2"] that t(1) by (simp add: m3_def)
  have cr: "cr3 m mod 4096 = 0" using assms(1) by (simp add: self_map_def)
  have pde3: "pde_at m3 k = pde_at m2 k" if "k < 1024" for k
    using same3 [of "cr3 m + 4 * k"] frame_offset [OF cr that] m1
    by (simp add: pde_at_def m3_def m2_def)
  have sm3: "self_map m3" using sm2 pde3 [of 1023] by (simp add: self_map_def m3_def)
  have "translate m3 (get_pte_ptr va) = Some (t + 4 * j)"
    using translate_pte [OF sm3 va, folded i_def j_def] pde3 [of i] pde2(1) t(2,3) i by simp
  then have last_write: "wr_word (get_pte_ptr va) (f + 7) m3 = Some (m3\<lparr>phys := (phys m3)(t + 4 * j := f + 7)\<rparr>)"
    by (simp add: wr_word_def)
  have "wr_word (get_pde_ptr va) (t + 7) m1 = Some m2"
    using translate_pde [OF sm1 va, folded i_def] m1 by (simp add: wr_word_def m2_def)
  then have "page_table_add va f m = Some (m3\<lparr>phys := (phys m3)(t + 4 * j := f + 7)\<rparr>)"
    using assms(7) absent p(1) [folded m1_def] t(4) z last_write rd_pde [OF assms(1) va, folded i_def]
    by (simp add: page_table_add_def Let_def flag_present fw entry_flags)
  moreover have "m3\<lparr>phys := (phys m3)(t + 4 * j := f + 7)\<rparr> = m1\<lparr>phys :=
      (cleared t 0 1024 ((phys m)(cr3 m + 4 * i := t + 7)))(t + 4 * j := f + 7)\<rparr>"
    by (simp add: m3_def m2_def)
  ultimately show ?thesis using p by (auto simp: m1_def i_def j_def)
qed

end
