(* ===== verification/Paging.thy ===== *)
theory Paging
  imports Memory
begin

text \<open>
  What the page allocator of theory \<open>Memory\<close> guarantees: \<open>mem_inv\<close> says that no frame in use as a
  page table or mapped page is free in a pool; mapping pages keeps it, and the pages handed out
  are mapped to different frames that were free before. Freeing the pages gives the frames back.
\<close>

section \<open>The invariant of the memory\<close>

text \<open>
  The tables and the mapped frames are not free, and two entries of the page directory share a
  page table only if one of them is entry 0 (the boot code maps the low megabyte twice). Entry
  1023 is the directory itself.
\<close>

definition mem_inv :: "mem \<Rightarrow> bool" where
  "mem_inv m \<longleftrightarrow> pools_ok m \<and> self_map m \<and> table_frames m \<inter> free_frames m = {}
     \<and> (\<forall>i < 1023. present (pde_at m i) \<longrightarrow> frame (pde_at m i) \<noteq> cr3 m)
     \<and> (\<forall>i < 1023. \<forall>j < 1024. present (pde_at m i) \<longrightarrow> present (pte_at m i j) \<longrightarrow>
          frame (pte_at m i j) \<notin> free_frames m)
     \<and> (\<forall>i j. i < j \<longrightarrow> j < 1023 \<longrightarrow> present (pde_at m i) \<longrightarrow> present (pde_at m j) \<longrightarrow>
          frame (pde_at m i) = frame (pde_at m j) \<longrightarrow> i = 0)"

text \<open>What mapping a page leaves alone.\<close>

definition same_env :: "mem \<Rightarrow> mem \<Rightarrow> bool" where
  "same_env m m' \<longleftrightarrow> cr3 m' = cr3 m \<and> kernel_vaddr m' = kernel_vaddr m
     \<and> userprog_vaddr m' = userprog_vaddr m \<and> mkern m' = mkern m \<and> user_pool m' = user_pool m
     \<and> pool_lock (kernel_pool m') = pool_lock (kernel_pool m)
     \<and> phy_addr_start (kernel_pool m') = phy_addr_start (kernel_pool m)
     \<and> bm_size (pool_bitmap (kernel_pool m')) = bm_size (pool_bitmap (kernel_pool m))"

text \<open>The entries after the entry \<open>i\<close>, \<open>j\<close> was set to \<open>f\<close>.\<close>

definition entry_set :: "nat \<Rightarrow> nat \<Rightarrow> nat \<Rightarrow> mem \<Rightarrow> mem \<Rightarrow> bool" where
  "entry_set i j f m m' \<longleftrightarrow> (\<forall>k < 1023. k \<noteq> i \<longrightarrow> pde_at m' k = pde_at m k)
     \<and> pde_at m' 1023 = pde_at m 1023 \<and> present (pde_at m' i) \<and> pte_at m' i j = f + 7
     \<and> (present (pde_at m i) \<longrightarrow> pde_at m' i = pde_at m i)
     \<and> (\<not> present (pde_at m i) \<longrightarrow> frame (pde_at m' i) \<in> free_frames m)
     \<and> (\<forall>l < 1024. l \<noteq> j \<longrightarrow> pte_at m' i l = (if present (pde_at m i) then pte_at m i l else 0))
     \<and> (\<forall>k < 1023. \<forall>l < 1024. k \<noteq> i \<longrightarrow> present (pde_at m k) \<longrightarrow> frame (pde_at m k) \<noteq> frame (pde_at m i) \<or> \<not> present (pde_at m i) \<or> l \<noteq> j \<longrightarrow>
          pte_at m' k l = pte_at m k l)
     \<and> (\<forall>k < 1023. k \<noteq> i \<longrightarrow> present (pde_at m k) \<longrightarrow> present (pde_at m i) \<longrightarrow>
          frame (pde_at m k) = frame (pde_at m i) \<longrightarrow> pte_at m' k j = f + 7)"

text \<open>Writing one entry of a page table.\<close>

lemma pte_write:
  assumes "cr3 m mod 4096 = 0" and "T mod 4096 = 0" and "T \<noteq> cr3 m" and "j < 1024" and "k < 1024"
  shows "pde_at (m\<lparr>phys := (phys m)(T + 4 * j := v)\<rparr>) k = pde_at m k"
    and "l < 1024 \<Longrightarrow> pte_at (m\<lparr>phys := (phys m)(T + 4 * j := v)\<rparr>) k l =
      (if frame (pde_at m k) = T \<and> l = j then v else pte_at m k l)"
proof -
  show p: "pde_at (m\<lparr>phys := (phys m)(T + 4 * j := v)\<rparr>) k = pde_at m k"
    using frame_offset [OF assms(1,5)] frame_offset [OF assms(2,4)] assms(3) by (auto simp: pde_at_def)
  assume l: "l < 1024"
  have "frame (pde_at m k) + 4 * l = T + 4 * j \<longleftrightarrow> frame (pde_at m k) = T \<and> l = j"
    using frame_offset [of "frame (pde_at m k)" l] frame_offset [OF assms(2,4)] l by auto
  then show "pte_at (m\<lparr>phys := (phys m)(T + 4 * j := v)\<rparr>) k l =
      (if frame (pde_at m k) = T \<and> l = j then v else pte_at m k l)"
    using p by (simp add: pte_at_def)
qed

lemma add_present:
  assumes "mem_inv m" and "va < 0xFFC00000" and "i = va div 4194304" and "j = va div 4096 mod 1024"
    and "present (pde_at m i)" and "\<not> present (pte_at m i j)" and "f mod 4096 = 0"
  shows "\<exists>m'. page_table_add va f m = Some m' \<and> entry_set i j f m m' \<and> same_env m m'
    \<and> kernel_pool m' = kernel_pool m"
proof -
  have i: "i < 1023" and j: "j < 1024" and va: "va < 4294967296"
    using assms(2-4) by simp_all
  have sm: "self_map m" and T: "frame (pde_at m i) \<noteq> cr3 m"
    using assms(1,5) i by (auto simp: mem_inv_def)
  let ?T = "frame (pde_at m i)"
  let ?m = "m\<lparr>phys := (phys m)(?T + 4 * j := f + 7)\<rparr>"
  have run: "page_table_add va f m = Some ?m"
    using page_table_add_present [OF sm va, of f] assms by simp
  have cr: "cr3 m mod 4096 = 0" using sm by (simp add: self_map_def)
  note pde = pte_write(1) [OF cr frame_aligned T j] and pte = pte_write(2) [OF cr frame_aligned T j]
  have "entry_set i j f m ?m"
    using i j assms(5) pde pte by (auto simp: entry_set_def)
  moreover have "same_env m ?m" by (simp add: same_env_def)
  ultimately show ?thesis using run by auto
qed

lemma add_absent:
  assumes "mem_inv m" and "va < 0xFFC00000" and "i = va div 4194304" and "j = va div 4096 mod 1024"
    and "\<not> present (pde_at m i)" and "0 < room PF_KERNEL m" and "f mod 4096 = 0"
  shows "\<exists>t m1 m'. palloc PF_KERNEL m = Some (t, m1) \<and> page_table_add va f m = Some m'
    \<and> entry_set i j f m m' \<and> same_env m m' \<and> kernel_pool m' = kernel_pool m1 \<and> frame (pde_at m' i) = t"
proof -
  have i: "i < 1023" and j: "j < 1024" and va: "va < 4294967296"
    using assms(2-4) by simp_all
  have sm: "self_map m" and pok: "pools_ok m" and tf: "table_frames m \<inter> free_frames m = {}"
    using assms(1) by (auto simp: mem_inv_def)
  have cf: "cr3 m \<notin> free_frames m" using tf by (auto simp: table_frames_def)
  obtain t m1 where t: "palloc PF_KERNEL m = Some (t, m1)" "t \<in> free_frames m" "t mod 4096 = 0"
      "page_table_add va f m = Some (m1\<lparr>phys :=
      (cleared t 0 1024 ((phys m)(cr3 m + 4 * i := t + 7)))(t + 4 * j := f + 7)\<rparr>)"
    using page_table_add_absent [OF sm pok assms(6) cf assms(2) assms(5) [unfolded assms(3)] assms(7),
        folded assms(3,4)]
    by (elim exE conjE) (rule that)
  obtain f' bm' where pm: "palloc PF_KERNEL m = Some (f', upd_pool PF_KERNEL (\<lambda>p. p\<lparr>pool_bitmap := bm'\<rparr>) m)"
      "bm_size bm' = bm_size (pool_bitmap (pool_of PF_KERNEL m))"
    using palloc_runs [OF pok assms(6)] by (elim exE conjE) (rule that)
  then have m1: "m1 = upd_pool PF_KERNEL (\<lambda>p. p\<lparr>pool_bitmap := bm'\<rparr>) m"
      "bm_size bm' = bm_size (pool_bitmap (kernel_pool m))" using t(1) by simp_all
  define ph where "ph = (cleared t 0 1024 ((phys m)(cr3 m + 4 * i := t + 7)))(t + 4 * j := f + 7)"
  let ?m = "m1\<lparr>phys := ph\<rparr>"
  have cr: "cr3 m mod 4096 = 0" using sm by (simp add: self_map_def)
  have tc: "t \<noteq> cr3 m" and tt: "frame (t + 7) = t" "present (t + 7)"
    using t(2) cf entry_flags [OF t(3)] by auto
  have other: "ph a = phys m a" if "frame a \<noteq> t" "a \<noteq> cr3 m + 4 * i" for a
    using that cleared_other [OF t(3), of 0 1024 a] frame_offset [OF t(3) j] by (auto simp: ph_def)
  have pde: "pde_at ?m k = (if k = i then t + 7 else pde_at m k)" if "k < 1024" for k
  proof (cases "k = i")
    case True
    have "cr3 m + 4 * i \<noteq> t + 4 * j"
      using frame_offset [OF cr, of i] frame_offset [OF t(3) j] i tc by auto
    moreover have "frame (cr3 m + 4 * i) \<noteq> t" using frame_offset [OF cr, of i] i tc by simp
    ultimately have "ph (cr3 m + 4 * i) = t + 7"
      using cleared_other [OF t(3), of 0 1024 "cr3 m + 4 * i"] by (simp add: ph_def)
    then show ?thesis using True m1(1) by (simp add: pde_at_def)
  next
    case False
    have "ph (cr3 m + 4 * k) = phys m (cr3 m + 4 * k)"
      using False frame_offset [OF cr that] tc by (intro other) auto
    then show ?thesis using False m1(1) by (simp add: pde_at_def)
  qed
  have new: "pte_at ?m i l = (if l = j then f + 7 else 0)" if "l < 1024" for l
    using pde [of i] i tt that by (auto simp: pte_at_def cleared_def ph_def)
  have old: "pte_at ?m k l = pte_at m k l" if "k < 1023" "l < 1024" "k \<noteq> i" "present (pde_at m k)" for k l
  proof -
    have "frame (pde_at m k) \<in> table_frames m" "frame (pde_at m k) \<noteq> cr3 m"
      using that assms(1) by (auto simp: table_frames_def mem_inv_def)
    then have "frame (frame (pde_at m k) + 4 * l) \<noteq> t" "frame (pde_at m k) + 4 * l \<noteq> cr3 m + 4 * i"
      using frame_offset [OF frame_aligned that(2), of "pde_at m k"] t(2) tf frame_offset [OF cr, of i] i by auto
    then show ?thesis using pde [of k] that by (simp add: pte_at_def other)
  qed
  have "entry_set i j f m ?m"
    using i j pde new old assms(5) tt t(2) by (auto simp: entry_set_def)
  moreover have "same_env m ?m" using m1 by (simp add: same_env_def)
  ultimately show ?thesis using t(1,4) [folded ph_def] pde [of i] i tt by auto
qed

lemma mem_inv_sharing:
  "mem_inv m \<Longrightarrow> i < j \<Longrightarrow> j < 1023 \<Longrightarrow> present (pde_at m i) \<Longrightarrow> present (pde_at m j) \<Longrightarrow>
    frame (pde_at m i) = frame (pde_at m j) \<Longrightarrow> i = 0"
  by (simp add: mem_inv_def)

lemma entry_setD:
  assumes "entry_set i j f m m'"
  shows "present (pde_at m' i)" and "pte_at m' i j = f + 7"
    and "l < 1024 \<Longrightarrow> l \<noteq> j \<Longrightarrow> pte_at m' i l = (if present (pde_at m i) then pte_at m i l else 0)"
    and "present (pde_at m i) \<Longrightarrow> pde_at m' i = pde_at m i"
    and "k < 1023 \<Longrightarrow> k \<noteq> i \<Longrightarrow> pde_at m' k = pde_at m k"
  using assms unfolding entry_set_def by blast+

lemma entry_set_translate:
  assumes "mem_inv m" and "entry_set i j f m m'" and "0 < i" and "i < 1023" and "f mod 4096 = 0"
    and "4194304 \<le> va" and "va < 0xFFC00000"
  shows "translate m' va = (if va div 4194304 = i \<and> va div 4096 mod 1024 = j
    then Some (f + va mod 4096) else translate m va)"
proof -
  define k where "k = va div 4194304"
  define l where "l = va div 4096 mod 1024"
  have k: "0 < k" "k < 1023" and l: "l < 1024" using assms(6,7) by (simp_all add: k_def l_def)
  have apart: "frame (pde_at m k) \<noteq> frame (pde_at m i)"
    if "k \<noteq> i" "present (pde_at m k)" "present (pde_at m i)"
    using mem_inv_sharing [OF assms(1), of k i] mem_inv_sharing [OF assms(1), of i k] that k assms(3,4)
    by (metis linorder_neqE_nat less_not_refl)
  have walk: "translate x va = (if present (pde_at x k) \<and> present (pte_at x k l)
      then Some (frame (pte_at x k l) + va mod 4096) else None)" for x
    unfolding translate_walk k_def l_def ..
  show ?thesis
  proof (cases "k = i")
    case True
    have "\<not> present 0" by (simp add: present_def)
    then show ?thesis
      using True entry_setD(1-3) [OF assms(2)] l entry_flags(2,3) [OF assms(5)]
        entry_setD(4) [OF assms(2)]
      unfolding k_def [symmetric] l_def [symmetric] walk
      by (cases "l = j"; cases "present (pde_at m i)") simp_all
  next
    case False
    have p: "pde_at m' k = pde_at m k" using entry_setD(5) [OF assms(2) k(2) False] .
    have "pte_at m' k l = pte_at m k l" if "present (pde_at m k)"
      using assms(2) k(2) l False that apart unfolding entry_set_def by blast
    then show ?thesis
      using False p unfolding k_def [symmetric] l_def [symmetric] walk by auto
  qed
qed

lemma entry_set_other:
  assumes "entry_set i j f m m'" and "k < 1023" and "l < 1024" and "k \<noteq> i" and "present (pde_at m k)"
  shows "pte_at m' k l = f + 7 \<or> pte_at m' k l = pte_at m k l"
proof (cases "present (pde_at m i) \<and> frame (pde_at m k) = frame (pde_at m i) \<and> l = j")
  case True
  have "\<forall>k < 1023. k \<noteq> i \<longrightarrow> present (pde_at m k) \<longrightarrow> present (pde_at m i) \<longrightarrow>
      frame (pde_at m k) = frame (pde_at m i) \<longrightarrow> pte_at m' k j = f + 7"
    using assms(1) by (simp add: entry_set_def)
  with assms True show ?thesis by blast
next
  case False
  have "\<forall>k < 1023. \<forall>l < 1024. k \<noteq> i \<longrightarrow> present (pde_at m k) \<longrightarrow>
      frame (pde_at m k) \<noteq> frame (pde_at m i) \<or> \<not> present (pde_at m i) \<or> l \<noteq> j \<longrightarrow>
      pte_at m' k l = pte_at m k l"
    using assms(1) by (simp add: entry_set_def)
  with assms False show ?thesis by blast
qed

lemma entry_set_tables:
  assumes "entry_set i j f m m'" and "cr3 m' = cr3 m"
  shows "table_frames m' \<subseteq> table_frames m \<union> {frame (pde_at m' i)}"
    and "present (pde_at m i) \<Longrightarrow> i < 1023 \<Longrightarrow> table_frames m' \<subseteq> table_frames m"
proof -
  have "pde_at m' k = pde_at m k" if "k < 1023" "k \<noteq> i \<or> present (pde_at m i)" for k
    using assms(1) that by (auto simp: entry_set_def)
  then have "frame (pde_at m' k) \<in> table_frames m \<or> k = i \<and> \<not> present (pde_at m i)"
    if "k < 1023" "present (pde_at m' k)" for k
    using that by (cases "k = i \<and> \<not> present (pde_at m i)") (auto simp: table_frames_def)
  moreover have "cr3 m \<in> table_frames m" by (simp add: table_frames_def)
  ultimately have "x \<in> table_frames m \<or> x = frame (pde_at m' i) \<and> \<not> present (pde_at m i)"
    if "x \<in> table_frames m'" for x
    using that assms(2) unfolding table_frames_def [of m'] by auto
  then show "table_frames m' \<subseteq> table_frames m \<union> {frame (pde_at m' i)}"
    and "present (pde_at m i) \<Longrightarrow> i < 1023 \<Longrightarrow> table_frames m' \<subseteq> table_frames m"
    by blast+
qed

lemma entry_set_grows:
  assumes "entry_set i j f m m'" and "cr3 m' = cr3 m"
  shows "table_frames m \<subseteq> table_frames m'"
proof -
  have "pde_at m' k = pde_at m k" if "k < 1023" "present (pde_at m k)" for k
    using entry_setD(4,5) [OF assms(1)] that by (cases "k = i") auto
  then have "frame (pde_at m k) \<in> table_frames m'" if "k < 1023" "present (pde_at m k)" for k
    using that by (force simp: table_frames_def)
  moreover have "cr3 m \<in> table_frames m'" using assms(2) by (simp add: table_frames_def)
  ultimately show ?thesis by (auto simp: table_frames_def [of m])
qed

lemma entry_set_inv:
  assumes "mem_inv m" and "entry_set i j f m m'" and "0 < i" and "i < 1023" and "j < 1024" and "f mod 4096 = 0"
    and "cr3 m' = cr3 m" and "pools_ok m'" and "free_frames m' \<subseteq> free_frames m"
    and "frame (pde_at m' i) \<notin> free_frames m'" and "f \<notin> free_frames m'"
  shows "mem_inv m'"
proof -
  let ?new = "\<not> present (pde_at m i)"
  have old: "pde_at m' k = pde_at m k" if "k < 1023" "k \<noteq> i \<or> \<not> ?new" for k
    using assms(2) that by (auto simp: entry_set_def)
  have ft: "frame (pde_at m' i) \<in> free_frames m" if ?new
    using assms(2) that by (simp add: entry_set_def)
  have tf: "frame (pde_at m k) \<notin> free_frames m" if "k < 1023" "present (pde_at m k)" for k
    using assms(1) that by (auto simp: mem_inv_def table_frames_def)
  have "cr3 m \<notin> free_frames m" using assms(1) by (auto simp: mem_inv_def table_frames_def)
  have sm: "self_map m'" using assms(1,2,7) by (simp add: mem_inv_def self_map_def entry_set_def)
  have "table_frames m' \<inter> free_frames m' = {}"
    using entry_set_tables(1) [OF assms(2,7)] assms(1,9,10) by (auto simp: mem_inv_def)
  moreover have "frame (pde_at m' k) \<noteq> cr3 m'" if "k < 1023" "present (pde_at m' k)" for k
  proof (cases "k = i \<and> ?new")
    case True
    then show ?thesis using ft \<open>cr3 m \<notin> free_frames m\<close> assms(7) by auto
  next
    case False
    then show ?thesis using old [of k] that assms(1,7) by (auto simp: mem_inv_def)
  qed
  moreover have "frame (pte_at m' k l) \<notin> free_frames m'"
    if "k < 1023" "l < 1024" "present (pde_at m' k)" "present (pte_at m' k l)" for k l
  proof -
    note kl = that
    consider "pte_at m' k l = f + 7" | "present (pde_at m k)" "pte_at m' k l = pte_at m k l"
    proof (cases "k = i")
      case True
      have "pte_at m' i l = f + 7 \<or> pte_at m' i l = (if ?new then 0 else pte_at m i l)"
        using assms(2) kl(2) by (cases "l = j") (simp_all add: entry_set_def)
      moreover have "pte_at m' i l \<noteq> 0" using True kl(4) by (auto simp: present_def odd_pos)
      ultimately show ?thesis using True that by (cases "present (pde_at m i)") auto
    next
      case False
      then have pk: "present (pde_at m k)" using old [of k] kl by simp
      have "pte_at m' k l = f + 7 \<or> pte_at m' k l = pte_at m k l"
        by (rule entry_set_other [OF assms(2) kl(1,2) False pk])
      with pk show ?thesis using that by blast
    qed
    then show ?thesis
    proof cases
      case 1
      then show ?thesis using assms(11) entry_flags [OF assms(6)] by simp
    next
      case 2
      then show ?thesis using assms(1,9) that by (auto simp: mem_inv_def)
    qed
  qed
  moreover have "k = 0"
    if "k < l" "l < 1023" "present (pde_at m' k)" "present (pde_at m' l)" "frame (pde_at m' k) = frame (pde_at m' l)" for k l
  proof (cases "?new \<and> (k = i \<or> l = i)")
    note kl = that
    case True
    then have "frame (pde_at m' k) \<in> free_frames m" using ft that(5) by auto
    moreover obtain u where "u < 1023" "u \<noteq> i" "u = k \<or> u = l" using True kl(1,2) by force
    ultimately show ?thesis using tf [of u] old [of u] that by auto
  next
    case False
    then have "pde_at m' k = pde_at m k" "pde_at m' l = pde_at m l" using old that(1,2) by auto
    then show ?thesis using assms(1) that by (auto simp: mem_inv_def)
  qed
  ultimately show ?thesis using assms(8) sm unfolding mem_inv_def by blast
qed

text \<open>Mapping one page.\<close>

lemma page_table_add_step:
  assumes "mem_inv m" and "4194304 \<le> va" and "va < 0xFFC00000" and "translate m va = None"
    and "f mod 4096 = 0" and "f \<notin> free_frames m" and "present (pde_at m (va div 4194304)) \<or> 0 < room PF_KERNEL m"
  shows "\<exists>m'. page_table_add va f m = Some m' \<and> mem_inv m' \<and> same_env m m'
    \<and> translate m' va = Some (f + va mod 4096)
    \<and> (\<forall>va2. 4194304 \<le> va2 \<longrightarrow> va2 < 0xFFC00000 \<longrightarrow> va2 div 4096 \<noteq> va div 4096 \<longrightarrow> translate m' va2 = translate m va2)
    \<and> table_frames m' \<subseteq> table_frames m \<union> (free_frames m - free_frames m')
    \<and> table_frames m \<subseteq> table_frames m' \<and> free_frames m - free_frames m' \<subseteq> table_frames m'
    \<and> free_frames m' \<subseteq> free_frames m \<and> room PF_KERNEL m - 1 \<le> room PF_KERNEL m'
    \<and> (present (pde_at m (va div 4194304)) \<longrightarrow> kernel_pool m' = kernel_pool m)
    \<and> entry_set (va div 4194304) (va div 4096 mod 1024) f m m'"
proof -
  define i where "i = va div 4194304"
  define j where "j = va div 4096 mod 1024"
  have i: "0 < i" "i < 1023" and j: "j < 1024" using assms(2,3) by (simp_all add: i_def j_def)
  have pok: "pools_ok m" using assms(1) by (simp add: mem_inv_def)
  have page: "va2 div 4194304 = i \<and> va2 div 4096 mod 1024 = j \<longleftrightarrow> va2 div 4096 = va div 4096" for va2
  proof -
    have "x div 4194304 = x div 4096 div 1024" for x :: nat by (simp add: div_mult2_eq [symmetric])
    then show ?thesis unfolding i_def j_def by (metis div_mult_mod_eq)
  qed
  have "\<exists>m'. page_table_add va f m = Some m' \<and> entry_set i j f m m' \<and> same_env m m' \<and> pools_ok m'
    \<and> frame (pde_at m' i) \<notin> free_frames m' \<and> free_frames m' \<subseteq> free_frames m \<and> room PF_KERNEL m - 1 \<le> room PF_KERNEL m'
    \<and> table_frames m' \<subseteq> table_frames m \<union> (free_frames m - free_frames m')
    \<and> (present (pde_at m i) \<longrightarrow> kernel_pool m' = kernel_pool m)
    \<and> free_frames m - free_frames m' \<subseteq> {frame (pde_at m' i)}"
  proof (cases "present (pde_at m i)")
    case True
    then have "\<not> present (pte_at m i j)"
      using assms(4) by (simp add: translate_walk i_def j_def split: if_splits)
    then obtain m' where m': "page_table_add va f m = Some m'" "entry_set i j f m m'" "same_env m m'"
        "kernel_pool m' = kernel_pool m"
      using add_present [OF assms(1,3) i_def j_def True _ assms(5)] by blast
    moreover have "free_frames m' = free_frames m" "pools_ok m'" "room PF_KERNEL m' = room PF_KERNEL m"
      using m'(3,4) pok by (simp_all add: free_frames_def same_env_def pools_ok_def room_def)
    moreover have "table_frames m' \<subseteq> table_frames m"
      using entry_set_tables(2) [OF m'(2) _ True i(2)] m'(3) by (simp add: same_env_def)
    moreover have "frame (pde_at m' i) \<notin> free_frames m"
      using m'(2) True i(2) assms(1) by (auto simp: entry_set_def mem_inv_def table_frames_def)
    ultimately show ?thesis by (intro exI [of _ m']) auto
  next
    case False
    then have room: "0 < room PF_KERNEL m" using assms(7) by (simp add: i_def)
    obtain t m1 m' where m': "palloc PF_KERNEL m = Some (t, m1)" "page_table_add va f m = Some m'"
        "entry_set i j f m m'" "same_env m m'" "kernel_pool m' = kernel_pool m1" "frame (pde_at m' i) = t"
      using add_absent [OF assms(1,3) i_def j_def False room assms(5)] by (elim exE conjE) (rule that)
    obtain bm where bm: "m1 = upd_pool PF_KERNEL (\<lambda>p. p\<lparr>pool_bitmap := bm\<rparr>) m" "t \<in> free_frames m"
        "free_frames m1 = free_frames m - {t}" "pools_ok m1" "room PF_KERNEL m1 = room PF_KERNEL m - 1"
    proof -
      obtain f' bm where "palloc PF_KERNEL m = Some (f', upd_pool PF_KERNEL (\<lambda>p. p\<lparr>pool_bitmap := bm\<rparr>) m)"
          "f' \<in> free_frames m" "free_frames (upd_pool PF_KERNEL (\<lambda>p. p\<lparr>pool_bitmap := bm\<rparr>) m) = free_frames m - {f'}"
          "pools_ok (upd_pool PF_KERNEL (\<lambda>p. p\<lparr>pool_bitmap := bm\<rparr>) m)"
          "room PF_KERNEL (upd_pool PF_KERNEL (\<lambda>p. p\<lparr>pool_bitmap := bm\<rparr>) m) = room PF_KERNEL m - 1"
        using palloc_runs [OF pok room] by (elim exE conjE) (rule that)
      with m'(1) show ?thesis by (intro that [of bm]) auto
    qed
    have "user_pool m' = user_pool m1" using m'(4) bm(1) by (simp add: same_env_def)
    then have "free_frames m' = free_frames m - {t}" "pools_ok m'" "room PF_KERNEL m' = room PF_KERNEL m - 1"
      using bm m'(5) by (simp_all add: free_frames_def pools_ok_def room_def)
    moreover have "table_frames m' \<subseteq> table_frames m \<union> {t}"
      using entry_set_tables(1) [OF m'(3)] m'(4,6) by (simp add: same_env_def)
    ultimately show ?thesis using m' bm(2) False by (intro exI [of _ m']) auto
  qed
  then obtain m' where m': "page_table_add va f m = Some m'" "entry_set i j f m m'" "same_env m m'" "pools_ok m'"
      "frame (pde_at m' i) \<notin> free_frames m'" "free_frames m' \<subseteq> free_frames m" "room PF_KERNEL m - 1 \<le> room PF_KERNEL m'"
      "table_frames m' \<subseteq> table_frames m \<union> (free_frames m - free_frames m')"
      "present (pde_at m i) \<longrightarrow> kernel_pool m' = kernel_pool m"
      "free_frames m - free_frames m' \<subseteq> {frame (pde_at m' i)}"
    by (elim exE conjE) (rule that)
  have "mem_inv m'"
    by (rule entry_set_inv [OF assms(1) m'(2) i j assms(5) _ m'(4,6,5)])
       (use m'(3,6) assms(6) in \<open>auto simp: same_env_def\<close>)
  moreover have "free_frames m - free_frames m' \<subseteq> table_frames m'"
    using m'(10) entry_setD(1) [OF m'(2)] i(2) by (auto simp: table_frames_def)
  moreover have "table_frames m \<subseteq> table_frames m'"
    using entry_set_grows [OF m'(2)] m'(3) by (simp add: same_env_def)
  moreover have "translate m' va = Some (f + va mod 4096)"
    using entry_set_translate [OF assms(1) m'(2) i assms(5,2,3)] by (simp add: i_def j_def)
  moreover have "translate m' va2 = translate m va2"
    if "4194304 \<le> va2" "va2 < 0xFFC00000" "va2 div 4096 \<noteq> va div 4096" for va2
    using entry_set_translate [OF assms(1) m'(2) i assms(5) that(1,2)] page [of va2] that(3) by simp
  moreover have "entry_set (va div 4194304) (va div 4096 mod 1024) f m m'"
    using m'(2) by (simp only: i_def j_def)
  ultimately show ?thesis using m'(1,3,6-9) unfolding i_def by blast
qed

section \<open>Mapping several pages\<close>

text \<open>What the page allocator never changes apart from the bits of the pools.\<close>

definition keeps :: "mem \<Rightarrow> mem \<Rightarrow> bool" where
  "keeps m m' \<longleftrightarrow> cr3 m' = cr3 m \<and> kernel_vaddr m' = kernel_vaddr m
     \<and> userprog_vaddr m' = userprog_vaddr m \<and> mkern m' = mkern m
     \<and> (\<forall>pf. pool_lock (pool_of pf m') = pool_lock (pool_of pf m)
          \<and> phy_addr_start (pool_of pf m') = phy_addr_start (pool_of pf m)
          \<and> bm_size (pool_bitmap (pool_of pf m')) = bm_size (pool_bitmap (pool_of pf m)))"

lemma keeps_refl [simp]: "keeps m m"
  by (simp add: keeps_def)

lemma keeps_trans: "keeps m m1 \<Longrightarrow> keeps m1 m2 \<Longrightarrow> keeps m m2"
  by (simp add: keeps_def)

lemma same_env_keeps: "same_env m m' \<Longrightarrow> keeps m m'"
  unfolding keeps_def same_env_def by (metis (full_types) pool_flags.exhaust pool_of.simps)

lemma keeps_phys [simp]: "keeps m (m\<lparr>phys := p\<rparr>)"
proof -
  have "pool_of pf (m\<lparr>phys := p\<rparr>) = pool_of pf m" for pf by (cases pf) simp_all
  then show ?thesis by (simp add: keeps_def)
qed

text \<open>Taking a frame leaves the tables alone.\<close>

lemma upd_pool_tables [simp]:
  "translate (upd_pool pf g m) va = translate m va"
  "table_frames (upd_pool pf g m) = table_frames m"
  "pde_at (upd_pool pf g m) i = pde_at m i" "pte_at (upd_pool pf g m) i j = pte_at m i j"
  "cr3 (upd_pool pf g m) = cr3 m" "self_map (upd_pool pf g m) = self_map m"
  by (cases pf; simp add: table_frames_def pde_at_def pte_at_def translate_walk self_map_def image_iff)+

lemma mem_inv_fewer:
  assumes "mem_inv m" and "pools_ok (upd_pool pf g m)"
    and "free_frames (upd_pool pf g m) \<subseteq> free_frames m"
  shows "mem_inv (upd_pool pf g m)"
  using assms unfolding mem_inv_def by (simp add: subset_iff disjoint_iff) blast

lemma palloc_keeps:
  assumes "mem_inv m" and "0 < room pf m"
  shows "\<exists>f m1. palloc pf m = Some (f, m1) \<and> mem_inv m1 \<and> keeps m m1
    \<and> f \<in> free_in (pool_of pf m) \<and> f \<in> free_frames m \<and> free_frames m1 = free_frames m - {f}
    \<and> f mod 4096 = 0 \<and> 0 < f \<and> f < 4294967296
    \<and> room pf m1 = room pf m - 1 \<and> (\<forall>pf'. pf' \<noteq> pf \<longrightarrow> room pf' m1 = room pf' m)
    \<and> (\<forall>va. translate m1 va = translate m va) \<and> table_frames m1 = table_frames m
    \<and> (\<forall>i. pde_at m1 i = pde_at m i) \<and> phys m1 = phys m"
proof -
  have pok: "pools_ok m" using assms(1) by (simp add: mem_inv_def)
  obtain f bm where p: "palloc pf m = Some (f, upd_pool pf (\<lambda>p. p\<lparr>pool_bitmap := bm\<rparr>) m)"
      "f \<in> free_in (pool_of pf m)" "f \<in> free_frames m"
      "free_frames (upd_pool pf (\<lambda>p. p\<lparr>pool_bitmap := bm\<rparr>) m) = free_frames m - {f}"
      "pools_ok (upd_pool pf (\<lambda>p. p\<lparr>pool_bitmap := bm\<rparr>) m)"
      "f mod 4096 = 0" "0 < f" "f < 4294967296"
      "room pf (upd_pool pf (\<lambda>p. p\<lparr>pool_bitmap := bm\<rparr>) m) = room pf m - 1"
      "\<forall>pf'. pf' \<noteq> pf \<longrightarrow> room pf' (upd_pool pf (\<lambda>p. p\<lparr>pool_bitmap := bm\<rparr>) m) = room pf' m"
      "bm_size bm = bm_size (pool_bitmap (pool_of pf m))"
    using palloc_runs [OF pok assms(2)] by (elim exE conjE) (rule that)
  have inv: "mem_inv (upd_pool pf (\<lambda>p. p\<lparr>pool_bitmap := bm\<rparr>) m)"
    using mem_inv_fewer [OF assms(1) p(5)] p(4) by auto
  have "pool_of pf' (upd_pool pf (\<lambda>p. p\<lparr>pool_bitmap := bm\<rparr>) m) =
      (if pf' = pf then (pool_of pf m)\<lparr>pool_bitmap := bm\<rparr> else pool_of pf' m)" for pf'
    by (cases pf; cases pf') simp_all
  moreover have "kernel_vaddr (upd_pool pf (\<lambda>p. p\<lparr>pool_bitmap := bm\<rparr>) m) = kernel_vaddr m"
      "userprog_vaddr (upd_pool pf (\<lambda>p. p\<lparr>pool_bitmap := bm\<rparr>) m) = userprog_vaddr m"
      "mkern (upd_pool pf (\<lambda>p. p\<lparr>pool_bitmap := bm\<rparr>) m) = mkern m"
      "phys (upd_pool pf (\<lambda>p. p\<lparr>pool_bitmap := bm\<rparr>) m) = phys m"
    by (cases pf; simp)+
  ultimately have "keeps m (upd_pool pf (\<lambda>p. p\<lparr>pool_bitmap := bm\<rparr>) m)"
      "phys (upd_pool pf (\<lambda>p. p\<lparr>pool_bitmap := bm\<rparr>) m) = phys m"
    using p(11) by (simp_all add: keeps_def)
  with p inv show ?thesis
    by (intro exI [of _ f] exI [of _ "upd_pool pf (\<lambda>p. p\<lparr>pool_bitmap := bm\<rparr>) m"]) simp
qed

text \<open>Frames and page tables that \<open>n\<close> pages may need.\<close>

definition enough :: "pool_flags \<Rightarrow> nat \<Rightarrow> mem \<Rightarrow> bool" where
  "enough pf n m \<longleftrightarrow> (if pf = PF_KERNEL then 2 * n \<le> room PF_KERNEL m
     else n \<le> room pf m \<and> n \<le> room PF_KERNEL m)"

lemma next_page: "x mod 4096 = 0 \<Longrightarrow> (x + 4096 * k) div 4096 = x div 4096 + (k::nat)"
  by simp

lemma map_pages_runs:
  assumes "mem_inv m" and "va mod 4096 = 0" and "4194304 \<le> va" and "va + 4096 * n \<le> 0xFFC00000"
    and "\<forall>k < n. translate m (va + 4096 * k) = None" and "enough pf n m"
  shows "\<exists>fs m'. map_pages pf n va m = Some (True, m') \<and> mem_inv m' \<and> keeps m m'
    \<and> length fs = n \<and> distinct fs \<and> set fs \<subseteq> free_in (pool_of pf m)
    \<and> set fs \<subseteq> free_frames m - free_frames m' \<and> set fs \<inter> table_frames m' = {}
    \<and> (\<forall>k < n. translate m' (va + 4096 * k) = Some (fs ! k))
    \<and> (\<forall>va2. 4194304 \<le> va2 \<longrightarrow> va2 < 0xFFC00000 \<longrightarrow>
         va2 div 4096 < va div 4096 \<or> va div 4096 + n \<le> va2 div 4096 \<longrightarrow> translate m' va2 = translate m va2)
    \<and> free_frames m' \<subseteq> free_frames m \<and> table_frames m' \<subseteq> table_frames m \<union> free_frames m
    \<and> table_frames m \<subseteq> table_frames m' \<and> free_frames m - free_frames m' \<subseteq> set fs \<union> table_frames m'"
  using assms
proof (induction n arbitrary: m va)
  case 0
  then show ?case by simp
next
  case (Suc n)
  have room: "0 < room pf m" using Suc.prems(6) by (cases pf) (simp_all add: enough_def)
  obtain f m1 where p: "palloc pf m = Some (f, m1)" "mem_inv m1" "keeps m m1"
      "f \<in> free_in (pool_of pf m)" "f \<in> free_frames m" "free_frames m1 = free_frames m - {f}"
      "f mod 4096 = 0" "0 < f" "f < 4294967296"
      "room pf m1 = room pf m - 1" "\<forall>pf'. pf' \<noteq> pf \<longrightarrow> room pf' m1 = room pf' m"
      "\<forall>va. translate m1 va = translate m va" "table_frames m1 = table_frames m"
      "\<forall>i. pde_at m1 i = pde_at m i" "phys m1 = phys m"
    using palloc_keeps [OF Suc.prems(1) room] by (elim exE conjE) (rule that)
  have room1: "0 < room PF_KERNEL m1"
    using Suc.prems(6) p(10,11) by (cases pf) (simp_all add: enough_def)
  have va: "va < 0xFFC00000" using Suc.prems(4) by simp
  have none: "translate m1 va = None" using Suc.prems(5) p(12) by auto
  have nf: "f \<notin> free_frames m1" using p(6) by simp
  obtain m2 where s: "page_table_add va f m1 = Some m2" "mem_inv m2" "same_env m1 m2"
      "translate m2 va = Some (f + va mod 4096)"
      "\<forall>va2. 4194304 \<le> va2 \<longrightarrow> va2 < 0xFFC00000 \<longrightarrow> va2 div 4096 \<noteq> va div 4096 \<longrightarrow> translate m2 va2 = translate m1 va2"
      "table_frames m2 \<subseteq> table_frames m1 \<union> (free_frames m1 - free_frames m2)"
      "table_frames m1 \<subseteq> table_frames m2" "free_frames m1 - free_frames m2 \<subseteq> table_frames m2"
      "free_frames m2 \<subseteq> free_frames m1" "room PF_KERNEL m1 - 1 \<le> room PF_KERNEL m2"
      "present (pde_at m1 (va div 4194304)) \<longrightarrow> kernel_pool m2 = kernel_pool m1"
      "entry_set (va div 4194304) (va div 4096 mod 1024) f m1 m2"
    using page_table_add_step [OF p(2) Suc.prems(3) va none p(7) nf disjI2 [OF room1]]
    by (elim exE conjE) (rule that)
  have k2: "keeps m m2" using p(3) same_env_keeps [OF s(3)] by (rule keeps_trans)
  have tr2: "translate m2 va2 = translate m va2"
    if "4194304 \<le> va2" "va2 < 0xFFC00000" "va2 div 4096 \<noteq> va div 4096" for va2
    using s(5) p(12) that by simp
  have en: "enough pf n m2"
  proof (cases pf)
    case PF_KERNEL
    then show ?thesis using Suc.prems(6) p(10) s(10) by (simp add: enough_def)
  next
    case PF_USER
    then have "room PF_USER m2 = room PF_USER m1" using s(3) by (simp add: same_env_def room_def)
    moreover have "room PF_KERNEL m1 = room PF_KERNEL m" using p(11) PF_USER by auto
    ultimately show ?thesis
      using Suc.prems(6) PF_USER p(10) s(10) unfolding enough_def by (simp, linarith)
  qed
  have none2: "\<forall>k < n. translate m2 (va + 4096 + 4096 * k) = None"
  proof (intro allI impI)
    fix k assume k: "k < n"
    have "va + 4096 + 4096 * k = va + 4096 * Suc k" by simp
    moreover have "va + 4096 * Suc k < 0xFFC00000" using Suc.prems(4) k by simp
    moreover have "(va + 4096 * Suc k) div 4096 \<noteq> va div 4096"
      unfolding next_page [OF Suc.prems(2)] by simp
    moreover have "translate m (va + 4096 * Suc k) = None" using Suc.prems(5) k by blast
    moreover have "4194304 \<le> va + 4096 * Suc k" using Suc.prems(3) by simp
    ultimately show "translate m2 (va + 4096 + 4096 * k) = None"
      using tr2 [of "va + 4096 * Suc k"] by metis
  qed
  have up: "(va + 4096) mod 4096 = 0" "4194304 \<le> va + 4096" "va + 4096 + 4096 * n \<le> 0xFFC00000"
    using Suc.prems(2-4) by simp_all
  obtain fs m' where ih: "map_pages pf n (va + 4096) m2 = Some (True, m')" "mem_inv m'" "keeps m2 m'"
      "length fs = n" "distinct fs" "set fs \<subseteq> free_in (pool_of pf m2)"
      "set fs \<subseteq> free_frames m2 - free_frames m'" "set fs \<inter> table_frames m' = {}"
      "\<forall>k < n. translate m' (va + 4096 + 4096 * k) = Some (fs ! k)"
      "\<forall>va2. 4194304 \<le> va2 \<longrightarrow> va2 < 0xFFC00000 \<longrightarrow>
         va2 div 4096 < (va + 4096) div 4096 \<or> (va + 4096) div 4096 + n \<le> va2 div 4096 \<longrightarrow> translate m' va2 = translate m2 va2"
      "free_frames m' \<subseteq> free_frames m2" "table_frames m' \<subseteq> table_frames m2 \<union> free_frames m2"
      "table_frames m2 \<subseteq> table_frames m'" "free_frames m2 - free_frames m' \<subseteq> set fs \<union> table_frames m'"
    using Suc.IH [OF s(2) up none2 en] by (elim exE conjE) (rule that)
  have d: "(va + 4096) div 4096 = Suc (va div 4096)" using Suc.prems(2) by simp
  have tr': "translate m' va = Some f"
    using ih(10) [rule_format, of va] Suc.prems(2,3) va s(4) d by simp
  have run: "map_pages pf (Suc n) va m = Some (True, m')"
    using p(1,8) s(1) ih(1) Suc.prems(4) by (simp add: PG_SIZE_def add32_small)
  have fin: "free_in (pool_of pf m2) \<subseteq> free_in (pool_of pf m)"
  proof
    fix x assume x: "x \<in> free_in (pool_of pf m2)"
    then have x2: "x \<in> free_frames m2" by (cases pf) (simp_all add: free_frames_def)
    then have "x \<in> free_frames m" using s(9) p(6) by auto
    moreover have "x \<notin> free_in (pool_of pf' m)" if "pf' \<noteq> pf" for pf'
    proof
      assume "x \<in> free_in (pool_of pf' m)"
      then obtain j where j: "j < bm_size (pool_bitmap (pool_of pf' m))"
          "x = phy_addr_start (pool_of pf' m) + 4096 * j" by (auto simp: free_in_def)
      obtain k where k: "k < bm_size (pool_bitmap (pool_of pf m))"
          "x = phy_addr_start (pool_of pf m) + 4096 * k"
        using x k2 by (auto simp: free_in_def keeps_def)
      have "pools_ok m" using Suc.prems(1) by (simp add: mem_inv_def)
      then show False using j k that by (cases pf; cases pf') (simp_all add: pools_ok_def)
    qed
    ultimately show "x \<in> free_in (pool_of pf m)"
      by (cases pf) (auto simp: free_frames_def dest: meta_spec [of _ PF_KERNEL] meta_spec [of _ PF_USER])
  qed
  have "\<forall>k < Suc n. translate m' (va + 4096 * k) = Some ((f # fs) ! k)"
    using tr' ih(9) [unfolded add.assoc] by (auto simp: less_Suc_eq_0_disj)
  moreover have sub: "free_frames m' \<subseteq> free_frames m" "free_frames m2 \<subseteq> free_frames m"
      "table_frames m' \<subseteq> table_frames m \<union> free_frames m" "f \<notin> free_frames m'"
    using ih(11,12) s(6,9) p(6,13) by blast+
  moreover have "f \<notin> set fs" using ih(7) s(9) nf by auto
  moreover have "f \<notin> table_frames m'"
  proof -
    have "table_frames m \<inter> free_frames m = {}" using Suc.prems(1) by (simp add: mem_inv_def)
    then have "f \<notin> table_frames m1" using p(5,13) by blast
    then show ?thesis using ih(12) s(6,9) nf by blast
  qed
  moreover have "translate m' va2 = translate m va2"
    if "4194304 \<le> va2" "va2 < 0xFFC00000" "va2 div 4096 < va div 4096 \<or> va div 4096 + Suc n \<le> va2 div 4096" for va2
  proof -
    have "translate m' va2 = translate m2 va2" using ih(10) that d by auto
    then show ?thesis using tr2 [of va2] that by auto
  qed
  moreover have "table_frames m \<subseteq> table_frames m'"
      "free_frames m - free_frames m' \<subseteq> set (f # fs) \<union> table_frames m'"
    using ih(13,14) s(7,8) p(6,13) by auto
  ultimately show ?case
    using run ih(2,4-8) keeps_trans [OF k2 ih(3)] fin sub p(4,5)
    by (intro exI [of _ "f # fs"] exI [of _ m']) auto
qed

section \<open>Clearing the new pages\<close>

lemma zero_words_add:
  "va + 4 * a < 4294967296 \<Longrightarrow>
    zero_words va (a + b) m = Option.bind (zero_words va a m) (zero_words (va + 4 * a) b)"
proof (induction a arbitrary: va m)
  case (Suc a)
  have "add32 va 4 = va + 4" "va + 4 + 4 * a < 4294967296" using Suc.prems by (simp_all add: add32_small)
  then show ?case using Suc.IH [of "va + 4"] by (cases "wr_word va 0 m") (simp_all add: algebra_simps)
qed simp

lemma zero_words_pages:
  assumes "self_map m" and "va mod 4096 = 0" and "va + 4096 * n \<le> 0xFFC00000"
    and "\<forall>k < n. translate m (va + 4096 * k) = Some (fs ! k)" and "length fs = n"
    and "\<forall>f \<in> set fs. f mod 4096 = 0" and "set fs \<inter> table_frames m = {}"
  shows "\<exists>ph. zero_words va (n * 1024) m = Some (m\<lparr>phys := ph\<rparr>) \<and> same_tables m (m\<lparr>phys := ph\<rparr>)
    \<and> (\<forall>a. frame a \<notin> set fs \<longrightarrow> ph a = phys m a)
    \<and> (\<forall>f \<in> set fs. \<forall>l < 1024. ph (f + 4 * l) = 0)"
  using assms
proof (induction n arbitrary: m va fs)
  case 0
  then show ?case by (intro exI [of _ "phys m"]) (simp add: same_tables_def)
next
  case (Suc n)
  then obtain f gs where fs: "fs = f # gs" "length gs = n" by (cases fs) auto
  have va: "va < 0xFFC00000" "va < 4294967296" using Suc.prems(3) by simp_all
  have tr: "translate m va = Some (f + 4 * 0)" using Suc.prems(4) fs by auto
  have f: "f mod 4096 = 0" "f \<notin> table_frames m" using Suc.prems(6,7) fs by auto
  have i: "va div 4194304 < 1023" using va(1) by simp
  have "frame (pde_at m (va div 4194304)) \<in> table_frames m"
    using tr i by (auto simp: translate_walk table_frames_def split: if_splits)
  then have ne: "f \<noteq> cr3 m" "f \<noteq> frame (pde_at m (va div 4194304))"
    using f(2) by (auto simp: table_frames_def)
  have cr: "cr3 m mod 4096 = 0" using Suc.prems(1) by (simp add: self_map_def)
  let ?m1 = "m\<lparr>phys := cleared f 0 1024 (phys m)\<rparr>"
  have z1: "zero_words va 1024 m = Some ?m1"
    using zero_words_page [OF cr va(2) tr f(1) _ _ ne, of 1024] Suc.prems(2) by simp
  have st: "same_tables m ?m1"
    unfolding same_tables_def
  proof (intro conjI allI impI)
    fix a assume "frame a \<in> table_frames m"
    then have "frame a \<noteq> f" using f(2) by auto
    then show "phys ?m1 a = phys m a" using cleared_other [OF f(1)] by simp
  qed simp
  have sm1: "self_map ?m1" by (rule same_tables_self [OF st Suc.prems(1)])
  have tr1: "translate ?m1 (va + 4096 + 4096 * k) = Some (gs ! k)" if "k < n" for k
  proof -
    have "translate ?m1 (va + 4096 * Suc k) = translate m (va + 4096 * Suc k)"
      using same_tables_translate [OF st Suc.prems(1)] Suc.prems(3) that by simp
    moreover have "translate m (va + 4096 * Suc k) = Some (gs ! k)"
      using Suc.prems(4) fs that by (auto simp del: mult_Suc_right)
    ultimately show ?thesis by (simp add: add.assoc)
  qed
  have up: "(va + 4096) mod 4096 = 0" "va + 4096 + 4096 * n \<le> 0xFFC00000" using Suc.prems(2,3) by simp_all
  have gs: "\<forall>f \<in> set gs. f mod 4096 = 0" "set gs \<inter> table_frames ?m1 = {}"
    using Suc.prems(6,7) fs same_tables_frames [OF st Suc.prems(1)] by auto
  obtain ph where ph: "zero_words (va + 4096) (n * 1024) ?m1 = Some (?m1\<lparr>phys := ph\<rparr>)"
      "same_tables ?m1 (?m1\<lparr>phys := ph\<rparr>)"
      "\<forall>a. frame a \<notin> set gs \<longrightarrow> ph a = phys ?m1 a" "\<forall>f \<in> set gs. \<forall>l < 1024. ph (f + 4 * l) = 0"
    using Suc.IH [OF sm1 up _ fs(2) gs] tr1 by blast
  have "zero_words va (Suc n * 1024) m = Some (m\<lparr>phys := ph\<rparr>)"
    using zero_words_add [of va 1024 "n * 1024" m] va z1 ph(1) by simp
  moreover have "ph a = phys m a" if "frame a \<notin> set fs" for a
    using ph(3) that fs cleared_other [OF f(1), of 0 1024 a] by simp
  moreover have "ph (f + 4 * l) = 0" if "l < 1024" for l
  proof (cases "f \<in> set gs")
    case False
    then show ?thesis using ph(3) frame_offset [OF f(1) that] that by (auto simp: cleared_def)
  qed (use ph(4) that in blast)
  moreover have "same_tables m (m\<lparr>phys := ph\<rparr>)"
    using st ph(2) same_tables_frames [OF st Suc.prems(1)] by (simp add: same_tables_def)
  ultimately show ?case using ph(4) fs by (intro exI [of _ ph]) auto
qed

lemma same_tables_inv:
  assumes "mem_inv m" and "same_tables m (m\<lparr>phys := ph\<rparr>)"
  shows "mem_inv (m\<lparr>phys := ph\<rparr>)"
proof -
  have sm: "self_map m" using assms(1) by (simp add: mem_inv_def)
  have pde: "pde_at (m\<lparr>phys := ph\<rparr>) i = pde_at m i" if "i < 1023" for i
    using same_tables_pde [OF assms(2) sm, of i] that by simp
  have pte: "pte_at (m\<lparr>phys := ph\<rparr>) i j = pte_at m i j"
    if "i < 1023" "j < 1024" "present (pde_at m i)" for i j
    using same_tables_pte [OF assms(2) sm, of i j] that by simp
  have "free_frames (m\<lparr>phys := ph\<rparr>) = free_frames m" "pools_ok (m\<lparr>phys := ph\<rparr>) = pools_ok m"
    by (simp_all add: free_frames_def pools_ok_def)
  moreover have "pde_at (m\<lparr>phys := ph\<rparr>) i = pde_at m i \<and> pde_at (m\<lparr>phys := ph\<rparr>) j = pde_at m j"
    if "i < j" "j < 1023" for i j using pde that by simp
  ultimately show ?thesis
    using assms(1) pde pte same_tables_self [OF assms(2) sm] same_tables_frames [OF assms(2) sm]
    unfolding mem_inv_def by (simp cong: conj_cong)
qed

section \<open>Kernel pages\<close>

text \<open>Free addresses of the kernel's virtual pool are not mapped.\<close>

definition kvaddr_ok :: "mem \<Rightarrow> bool" where
  "kvaddr_ok m \<longleftrightarrow> bm_wf (bitmap_vaddr (kernel_vaddr m)) \<and> vaddr_start (kernel_vaddr m) mod 4096 = 0
     \<and> 4194304 \<le> vaddr_start (kernel_vaddr m)
     \<and> vaddr_start (kernel_vaddr m) + 4096 * bm_size (bitmap_vaddr (kernel_vaddr m)) \<le> 0xFFC00000
     \<and> (\<forall>i < bm_size (bitmap_vaddr (kernel_vaddr m)). \<not> bmbit (bitmap_vaddr (kernel_vaddr m)) i \<longrightarrow>
          translate m (vaddr_start (kernel_vaddr m) + 4096 * i) = None)"

lemma vaddr_get_kernel:
  assumes "kvaddr_ok m" and "first_run (bitmap_vaddr (kernel_vaddr m)) n = Some i" and "i < 256"
    and "0 < n" and "n < 256"
  shows "\<exists>bm. vaddr_get PF_KERNEL n m = Some (vaddr_start (kernel_vaddr m) + 4096 * i,
      m\<lparr>kernel_vaddr := (kernel_vaddr m)\<lparr>bitmap_vaddr := bm\<rparr>\<rparr>)
    \<and> bm_wf bm \<and> bm_size bm = bm_size (bitmap_vaddr (kernel_vaddr m))
    \<and> (\<forall>j < bm_size bm. bmbit bm j = (i \<le> j \<and> j < i + n \<or> bmbit (bitmap_vaddr (kernel_vaddr m)) j))"
proof -
  let ?b = "bitmap_vaddr (kernel_vaddr m)"
  have wf: "bm_wf ?b" using assms(1) by (simp add: kvaddr_ok_def)
  have sc: "bitMap_scan ?b n = int i" using bitMap_scan_ref [OF wf assms(4,5)] assms(2,3) by simp
  have len: "i + n \<le> bm_size ?b" using assms(2) by (simp add: first_run_Some)
  obtain bm where bm: "bitmap_setEx ?b i 1 n = Some bm" "bm_wf bm" "bm_size bm = bm_size ?b"
      "\<forall>j < bm_size ?b. bmbit bm j = (if i \<le> j \<and> j < i + n then (1::byte) = 1 else bmbit ?b j)"
    using bitmap_setEx_runs [OF wf len, of 1] by auto
  have "4096 * i \<le> 4096 * bm_size ?b" using len by simp
  then have "i * PG_SIZE + vaddr_start (kernel_vaddr m) < 4294967296"
    using assms(1) by (simp add: kvaddr_ok_def PG_SIZE_def)
  then show ?thesis
    using sc bm by (intro exI [of _ bm]) (auto simp: vaddr_get_def Let_def PG_SIZE_def add32_small)
qed

text \<open>Updates of the locks and of the virtual pool do not touch the page tables and pools.\<close>

lemma set_lock_frame [simp]:
  "mem_inv (upd_pool pf (\<lambda>p. p\<lparr>pool_lock := l\<rparr>) m) = mem_inv m"
  "free_frames (upd_pool pf (\<lambda>p. p\<lparr>pool_lock := l\<rparr>) m) = free_frames m"
  "room pf' (upd_pool pf (\<lambda>p. p\<lparr>pool_lock := l\<rparr>) m) = room pf' m"
  "kernel_vaddr (upd_pool pf (\<lambda>p. p\<lparr>pool_lock := l\<rparr>) m) = kernel_vaddr m"
  "mkern (upd_pool pf (\<lambda>p. p\<lparr>pool_lock := l\<rparr>) m) = mkern m"
  "phys (upd_pool pf (\<lambda>p. p\<lparr>pool_lock := l\<rparr>) m) = phys m"
proof -
  have f: "free_frames (upd_pool pf (\<lambda>p. p\<lparr>pool_lock := l\<rparr>) m) = free_frames m"
    by (cases pf) (simp_all add: free_frames_def free_in_def)
  moreover have "pools_ok (upd_pool pf (\<lambda>p. p\<lparr>pool_lock := l\<rparr>) m) = pools_ok m"
    by (cases pf) (simp_all add: pools_ok_def)
  ultimately show "mem_inv (upd_pool pf (\<lambda>p. p\<lparr>pool_lock := l\<rparr>) m) = mem_inv m"
    by (simp add: mem_inv_def)
  show "free_frames (upd_pool pf (\<lambda>p. p\<lparr>pool_lock := l\<rparr>) m) = free_frames m" by (rule f)
  show "room pf' (upd_pool pf (\<lambda>p. p\<lparr>pool_lock := l\<rparr>) m) = room pf' m"
    by (cases pf; cases pf') (simp_all add: room_def)
qed (cases pf; simp)+

lemma set_vaddr_frame [simp]:
  "mem_inv (m\<lparr>kernel_vaddr := v\<rparr>) = mem_inv m"
  "free_frames (m\<lparr>kernel_vaddr := v\<rparr>) = free_frames m"
  "room pf (m\<lparr>kernel_vaddr := v\<rparr>) = room pf m"
  "translate (m\<lparr>kernel_vaddr := v\<rparr>) va = translate m va"
  "table_frames (m\<lparr>kernel_vaddr := v\<rparr>) = table_frames m"
  "pool_of pf (m\<lparr>kernel_vaddr := v\<rparr>) = pool_of pf m"
proof -
  show p: "pool_of pf (m\<lparr>kernel_vaddr := v\<rparr>) = pool_of pf m" for pf by (cases pf) simp_all
  show "mem_inv (m\<lparr>kernel_vaddr := v\<rparr>) = mem_inv m"
    by (simp add: mem_inv_def pools_ok_def self_map_def table_frames_def free_frames_def pde_at_def pte_at_def image_iff)
  show "room pf (m\<lparr>kernel_vaddr := v\<rparr>) = room pf m" by (simp only: room_def p)
qed (simp_all add: free_frames_def translate_walk table_frames_def pde_at_def pte_at_def image_iff)

definition lock_idle :: "lock \<Rightarrow> bool" where
  "lock_idle l \<longleftrightarrow> lock_free l \<and> waiters (semaphore_of l) = []"

lemma acquire_pool_idle:
  assumes "lock_idle (pool_lock (pool_of pf m))" and "running (mkern m) \<noteq> 0"
  shows "\<exists>l. acquire_pool pf m = Some (upd_pool pf (\<lambda>p. p\<lparr>pool_lock := l\<rparr>) m)
    \<and> (\<forall>m2. pool_lock (pool_of pf m2) = l \<longrightarrow> mkern m2 = mkern m \<longrightarrow>
          (\<exists>l'. release_pool pf m2 = Some (upd_pool pf (\<lambda>p. p\<lparr>pool_lock := l'\<rparr>) m2) \<and> lock_idle l'))"
proof -
  let ?l = "pool_lock (pool_of pf m)"
  let ?h = "?l\<lparr>holder := running (mkern m), semaphore_of := (semaphore_of ?l)\<lparr>svalue := 0\<rparr>, holder_repeat_nm := 1\<rparr>"
  have "acquire_pool pf m = Some (upd_pool pf (\<lambda>p. p\<lparr>pool_lock := ?h\<rparr>) (m\<lparr>mkern := mkern m\<rparr>))"
    using lock_take_free [of ?l "mkern m"] assms by (simp add: acquire_pool_def lock_idle_def)
  moreover have "\<exists>l'. release_pool pf m2 = Some (upd_pool pf (\<lambda>p. p\<lparr>pool_lock := l'\<rparr>) m2) \<and> lock_idle l'"
    if "pool_lock (pool_of pf m2) = ?h" "mkern m2 = mkern m" for m2
  proof -
    let ?l' = "?h\<lparr>holder := 0, holder_repeat_nm := 0, semaphore_of := (semaphore_of ?h)\<lparr>svalue := 1\<rparr>\<rparr>"
    have "lock_give ?h (mkern m) = Some (?l', mkern m)"
      using assms(1) by (intro lock_give_taken) (simp_all add: lock_idle_def)
    then have "release_pool pf m2 = Some (upd_pool pf (\<lambda>p. p\<lparr>pool_lock := ?l'\<rparr>) (m2\<lparr>mkern := mkern m2\<rparr>))"
      using that by (simp add: release_pool_def)
    moreover have "lock_idle ?l'" using assms(1) by (simp add: lock_idle_def lock_free_def)
    ultimately show ?thesis by (intro exI [of _ ?l']) simp
  qed
  ultimately show ?thesis by (intro exI [of _ ?h]) simp
qed

lemma pool_of_upd [simp]:
  "pool_of pf' (upd_pool pf g m) = (if pf' = pf then g (pool_of pf m) else pool_of pf' m)"
  by (cases pf; cases pf') simp_all

lemma kvaddr_index:
  assumes "x mod 4096 = (0::nat)"
  shows "(x + 4096 * i) div 4096 = x div 4096 + i"
  using assms by simp

text \<open>
  \<open>get_kernel_pages\<close> hands out zeroed pages at fresh addresses on frames that were free, and
  keeps the invariants.
\<close>

lemma get_kernel_pages_runs:
  assumes "mem_inv m" and "kvaddr_ok m" and "lock_idle (pool_lock (kernel_pool m))"
    and "running (mkern m) \<noteq> 0" and "0 < n" and "n < 256"
    and "first_run (bitmap_vaddr (kernel_vaddr m)) n = Some i" and "i < 256" and "2 * n \<le> room PF_KERNEL m"
    and "va = vaddr_start (kernel_vaddr m) + 4096 * i"
  shows "\<exists>fs m'. get_kernel_pages n m = Some (va, m') \<and> mem_inv m' \<and> kvaddr_ok m'
    \<and> lock_idle (pool_lock (kernel_pool m')) \<and> mkern m' = mkern m
    \<and> length fs = n \<and> distinct fs \<and> set fs \<subseteq> free_in (kernel_pool m) \<and> set fs \<subseteq> free_frames m - free_frames m'
    \<and> set fs \<inter> table_frames m' = {} \<and> table_frames m \<subseteq> table_frames m'
    \<and> free_frames m - free_frames m' \<subseteq> set fs \<union> table_frames m'
    \<and> (\<forall>k < n. translate m' (va + 4096 * k) = Some (fs ! k))
    \<and> (\<forall>f \<in> set fs. \<forall>l < 1024. phys m' (f + 4 * l) = 0)
    \<and> vaddr_start (kernel_vaddr m') = vaddr_start (kernel_vaddr m)
    \<and> bm_size (bitmap_vaddr (kernel_vaddr m')) = bm_size (bitmap_vaddr (kernel_vaddr m))
    \<and> (\<forall>j < bm_size (bitmap_vaddr (kernel_vaddr m)). bmbit (bitmap_vaddr (kernel_vaddr m')) j =
         (i \<le> j \<and> j < i + n \<or> bmbit (bitmap_vaddr (kernel_vaddr m)) j))
    \<and> free_frames m' \<subseteq> free_frames m
    \<and> (\<forall>pf. phy_addr_start (pool_of pf m') = phy_addr_start (pool_of pf m)
         \<and> bm_size (pool_bitmap (pool_of pf m')) = bm_size (pool_bitmap (pool_of pf m)))"
proof -
  let ?st = "vaddr_start (kernel_vaddr m)" and ?b = "bitmap_vaddr (kernel_vaddr m)"
  obtain l where l: "acquire_pool PF_KERNEL m = Some (upd_pool PF_KERNEL (\<lambda>p. p\<lparr>pool_lock := l\<rparr>) m)"
      "\<forall>m2. pool_lock (pool_of PF_KERNEL m2) = l \<longrightarrow> mkern m2 = mkern m \<longrightarrow>
        (\<exists>l'. release_pool PF_KERNEL m2 = Some (upd_pool PF_KERNEL (\<lambda>p. p\<lparr>pool_lock := l'\<rparr>) m2) \<and> lock_idle l')"
    using acquire_pool_idle [of PF_KERNEL m] assms(3,4) by auto
  define m1 where "m1 = upd_pool PF_KERNEL (\<lambda>p. p\<lparr>pool_lock := l\<rparr>) m"
  have m1: "mem_inv m1" "kernel_vaddr m1 = kernel_vaddr m" "free_frames m1 = free_frames m"
      "room PF_KERNEL m1 = room PF_KERNEL m" "mkern m1 = mkern m" "pool_lock (kernel_pool m1) = l"
      "table_frames m1 = table_frames m" "user_pool m1 = user_pool m" "free_in (kernel_pool m1) = free_in (kernel_pool m)"
    using assms(1) by (simp_all add: m1_def set_lock_frame [of PF_KERNEL, simplified] del: upd_pool.simps)
       (simp_all add: m1_def free_in_def)
  have tr1: "translate m1 va2 = translate m va2" for va2 unfolding m1_def by (rule upd_pool_tables)
  have kv1: "kvaddr_ok m1" using assms(2) m1(2) tr1 by (simp add: kvaddr_ok_def)
  obtain bm where v: "vaddr_get PF_KERNEL n m1 = Some (va, m1\<lparr>kernel_vaddr := (kernel_vaddr m)\<lparr>bitmap_vaddr := bm\<rparr>\<rparr>)"
      "bm_wf bm" "bm_size bm = bm_size ?b" "\<forall>j < bm_size bm. bmbit bm j = (i \<le> j \<and> j < i + n \<or> bmbit ?b j)"
    using vaddr_get_kernel [OF kv1 _ assms(8,5,6)] assms(7,10) m1(2) by auto
  define m2 where "m2 = m1\<lparr>kernel_vaddr := (kernel_vaddr m)\<lparr>bitmap_vaddr := bm\<rparr>\<rparr>"
  have m2: "mem_inv m2" "free_frames m2 = free_frames m" "room PF_KERNEL m2 = room PF_KERNEL m"
      "table_frames m2 = table_frames m" "mkern m2 = mkern m" "pool_lock (kernel_pool m2) = l" "user_pool m2 = user_pool m"
      "free_in (kernel_pool m2) = free_in (kernel_pool m)"
    using m1 by (simp_all add: m2_def)
  have tr2: "translate m2 va2 = translate m va2" for va2 using tr1 by (simp add: m2_def)
  have run: "i + n < bm_size ?b" "\<forall>k < n. \<not> bmbit ?b (i + k)"
    using assms(7) by (simp_all add: first_run_Some free_run_iff)
  have st: "?st mod 4096 = 0" "4194304 \<le> ?st" "?st + 4096 * bm_size ?b \<le> 0xFFC00000"
    using assms(2) by (simp_all add: kvaddr_ok_def)
  have va: "va mod 4096 = 0" "4194304 \<le> va" "va + 4096 * n \<le> 0xFFC00000" "va \<noteq> 0"
    using st run(1) assms(10) by auto
  have idx: "va + 4096 * k = ?st + 4096 * (i + k)" for k using assms(10) by simp
  have none: "\<forall>k < n. translate m2 (va + 4096 * k) = None"
  proof (intro allI impI)
    fix k assume "k < n"
    then have "i + k < bm_size ?b" "\<not> bmbit ?b (i + k)" using run by auto
    then show "translate m2 (va + 4096 * k) = None"
      using assms(2) unfolding idx tr2 kvaddr_ok_def by blast
  qed
  have en: "enough PF_KERNEL n m2" using assms(9) m2(3) by (simp add: enough_def)
  obtain fs m3 where p: "map_pages PF_KERNEL n va m2 = Some (True, m3)" "mem_inv m3" "keeps m2 m3"
      "length fs = n" "distinct fs" "set fs \<subseteq> free_in (pool_of PF_KERNEL m2)"
      "set fs \<subseteq> free_frames m2 - free_frames m3" "set fs \<inter> table_frames m3 = {}"
      "\<forall>k < n. translate m3 (va + 4096 * k) = Some (fs ! k)"
      "\<forall>va2. 4194304 \<le> va2 \<longrightarrow> va2 < 0xFFC00000 \<longrightarrow>
         va2 div 4096 < va div 4096 \<or> va div 4096 + n \<le> va2 div 4096 \<longrightarrow> translate m3 va2 = translate m2 va2"
      "free_frames m3 \<subseteq> free_frames m2" "table_frames m3 \<subseteq> table_frames m2 \<union> free_frames m2"
      "table_frames m2 \<subseteq> table_frames m3" "free_frames m2 - free_frames m3 \<subseteq> set fs \<union> table_frames m3"
    using map_pages_runs [OF m2(1) va(1-3) none en] by (elim exE conjE) (rule that)
  have al: "\<forall>f \<in> set fs. f mod 4096 = 0"
    using p(6) m2(1) by (auto simp: free_in_def mem_inv_def pools_ok_def)
  have sm3: "self_map m3" using p(2) by (simp add: mem_inv_def)
  obtain ph where z: "zero_words va (n * 1024) m3 = Some (m3\<lparr>phys := ph\<rparr>)" "same_tables m3 (m3\<lparr>phys := ph\<rparr>)"
      "\<forall>f \<in> set fs. \<forall>l < 1024. ph (f + 4 * l) = 0"
    using zero_words_pages [OF sm3 va(1,3) p(9,4) al p(8)] by blast
  define m4 where "m4 = m3\<lparr>phys := ph\<rparr>"
  have m4: "mem_inv m4" "table_frames m4 = table_frames m3" "free_frames m4 = free_frames m3" "keeps m2 m4"
    using same_tables_inv [OF p(2) z(2)] same_tables_frames [OF z(2) sm3] keeps_trans [OF p(3) keeps_phys]
    by (simp_all add: m4_def free_frames_def)
  have tr4: "translate m4 va2 = translate m3 va2" if "va2 < 4294967296" for va2
    unfolding m4_def by (rule same_tables_translate [OF z(2) sm3 that])
  have k4: "kernel_vaddr m4 = (kernel_vaddr m)\<lparr>bitmap_vaddr := bm\<rparr>" "mkern m4 = mkern m"
      "pool_lock (pool_of PF_KERNEL m4) = l"
  proof -
    have "pool_lock (pool_of PF_KERNEL m4) = pool_lock (pool_of PF_KERNEL m2)"
      using m4(4) unfolding keeps_def by blast
    then show "pool_lock (pool_of PF_KERNEL m4) = l" using m2(6) by simp
  qed (use m4(4) m2(5) in \<open>simp_all add: keeps_def m2_def\<close>)
  obtain l' where r: "release_pool PF_KERNEL m4 = Some (upd_pool PF_KERNEL (\<lambda>p. p\<lparr>pool_lock := l'\<rparr>) m4)" "lock_idle l'"
    using l(2) k4(2,3) by blast
  define m' where "m' = upd_pool PF_KERNEL (\<lambda>p. p\<lparr>pool_lock := l'\<rparr>) m4"
  have fin: "mem_inv m'" "table_frames m' = table_frames m3" "free_frames m' = free_frames m3"
      "kernel_vaddr m' = (kernel_vaddr m)\<lparr>bitmap_vaddr := bm\<rparr>" "mkern m' = mkern m" "phys m' = ph"
      "lock_idle (pool_lock (kernel_pool m'))"
    unfolding m'_def using m4 k4 r(2)
    by (simp_all only: set_lock_frame upd_pool_tables) (simp_all add: m4_def)
  have tr': "translate m' va2 = translate m3 va2" if "va2 < 4294967296" for va2
    unfolding m'_def upd_pool_tables using tr4 [OF that] .
  have run': "get_kernel_pages n m = Some (va, m')"
    using assms(5) l(1) v(1) p(1) z(1) r(1) va(4)
    by (simp add: get_kernel_pages_def malloc_page_def m1_def m2_def m4_def m'_def)
  have "kvaddr_ok m'"
    unfolding kvaddr_ok_def fin(4)
  proof (intro conjI allI impI)
    fix j
    assume j: "j < bm_size (bitmap_vaddr ((kernel_vaddr m)\<lparr>bitmap_vaddr := bm\<rparr>))"
      "\<not> bmbit (bitmap_vaddr ((kernel_vaddr m)\<lparr>bitmap_vaddr := bm\<rparr>)) j"
    then have j': "j < bm_size ?b" "\<not> bmbit ?b j" "j < i \<or> i + n \<le> j" using v(3,4) by auto
    have lim: "?st + 4096 * j < 0xFFC00000" using st(3) j'(1) by simp
    have "(?st + 4096 * j) div 4096 < va div 4096 \<or> va div 4096 + n \<le> (?st + 4096 * j) div 4096"
      using j'(3) unfolding assms(10) kvaddr_index [OF st(1)] by auto
    moreover have "4194304 \<le> ?st + 4096 * j" using st(2) by simp
    ultimately have "translate m3 (?st + 4096 * j) = translate m (?st + 4096 * j)"
      using p(10) [rule_format, of "?st + 4096 * j"] tr2 lim by simp
    also have "\<dots> = None" using assms(2) j'(1,2) by (simp add: kvaddr_ok_def)
    finally show "translate m' (vaddr_start ((kernel_vaddr m)\<lparr>bitmap_vaddr := bm\<rparr>) + 4096 * j) = None"
      using tr' [of "?st + 4096 * j"] lim by simp
  qed (use v(2,3) st in simp_all)
  moreover have "translate m' (va + 4096 * k) = Some (fs ! k)" if "k < n" for k
    using tr' [of "va + 4096 * k"] va(3) p(9) that by simp
  moreover have "phy_addr_start (pool_of pf m') = phy_addr_start (pool_of pf m)
      \<and> bm_size (pool_bitmap (pool_of pf m')) = bm_size (pool_bitmap (pool_of pf m))" for pf
  proof -
    have "phy_addr_start (pool_of pf m2) = phy_addr_start (pool_of pf m)
        \<and> bm_size (pool_bitmap (pool_of pf m2)) = bm_size (pool_bitmap (pool_of pf m))"
      by (cases pf) (simp_all add: m2_def m1_def)
    moreover have "phy_addr_start (pool_of pf m4) = phy_addr_start (pool_of pf m2)
        \<and> bm_size (pool_bitmap (pool_of pf m4)) = bm_size (pool_bitmap (pool_of pf m2))"
      using m4(4) unfolding keeps_def by blast
    ultimately show ?thesis unfolding m'_def pool_of_upd by (cases pf) simp_all
  qed
  ultimately show ?thesis
    using run' fin p(4-8,11,13,14) m2(2,4,8) z(3) v(3,4)
    by (intro exI [of _ fs] exI [of _ m']) auto
qed

section \<open>Freeing pages\<close>

text \<open>The shape of the tables, without what the pools say about them.\<close>

definition tables_ok :: "mem \<Rightarrow> bool" where
  "tables_ok m \<longleftrightarrow> self_map m
     \<and> (\<forall>i < 1023. present (pde_at m i) \<longrightarrow> frame (pde_at m i) \<noteq> cr3 m)
     \<and> (\<forall>i j. i < j \<longrightarrow> j < 1023 \<longrightarrow> present (pde_at m i) \<longrightarrow> present (pde_at m j) \<longrightarrow>
          frame (pde_at m i) = frame (pde_at m j) \<longrightarrow> i = 0)"

lemma mem_inv_tables: "mem_inv m \<Longrightarrow> tables_ok m"
  by (simp add: mem_inv_def tables_ok_def)

lemma tables_ok_sharing:
  "tables_ok m \<Longrightarrow> i < j \<Longrightarrow> j < 1023 \<Longrightarrow> present (pde_at m i) \<Longrightarrow> present (pde_at m j) \<Longrightarrow>
    frame (pde_at m i) = frame (pde_at m j) \<Longrightarrow> i = 0"
  by (simp add: tables_ok_def)

lemma tables_ok_same:
  assumes "tables_ok m" and "cr3 m' = cr3 m" and "\<And>i. i < 1024 \<Longrightarrow> pde_at m' i = pde_at m i"
  shows "tables_ok m'"
  using assms by (simp add: tables_ok_def self_map_def)

lemma pte_remove_runs:
  assumes "tables_ok m" and "4194304 \<le> va" and "va < 0xFFC00000" and "translate m va = Some f"
  shows "\<exists>ph. page_table_pte_remove va m = Some (m\<lparr>phys := ph\<rparr>) \<and> tables_ok (m\<lparr>phys := ph\<rparr>)
    \<and> translate (m\<lparr>phys := ph\<rparr>) va = None \<and> ((\<forall>a. phys m a < 4294967296) \<longrightarrow> (\<forall>a. ph a < 4294967296))
    \<and> table_frames (m\<lparr>phys := ph\<rparr>) = table_frames m
    \<and> (\<forall>va2. 4194304 \<le> va2 \<longrightarrow> va2 < 0xFFC00000 \<longrightarrow> va2 div 4096 \<noteq> va div 4096 \<longrightarrow>
         translate (m\<lparr>phys := ph\<rparr>) va2 = translate m va2)"
proof -
  define i where "i = va div 4194304"
  define j where "j = va div 4096 mod 1024"
  have i: "0 < i" "i < 1023" and j: "j < 1024" and va: "va < 4294967296"
    using assms(2,3) by (simp_all add: i_def j_def)
  have sm: "self_map m" using assms(1) by (simp add: tables_ok_def)
  have p: "present (pde_at m i)" "present (pte_at m i j)"
    using assms(4) by (simp_all add: translate_walk i_def j_def split: if_splits)
  let ?T = "frame (pde_at m i)"
  let ?ph = "(phys m)(?T + 4 * j := 0)"
  let ?m = "m\<lparr>phys := ?ph\<rparr>"
  have T: "?T \<noteq> cr3 m" using assms(1) p(1) i(2) by (simp add: tables_ok_def)
  have cr: "cr3 m mod 4096 = 0" using sm by (simp add: self_map_def)
  note pde = pte_write(1) [OF cr frame_aligned T j] and pte = pte_write(2) [OF cr frame_aligned T j]
  have run: "page_table_pte_remove va m = Some ?m"
    using rd_pte [OF sm va] translate_pte [OF sm va] p
    by (simp add: page_table_pte_remove_def wr_word_def PG_P_0_def i_def j_def)
  have ok: "tables_ok ?m" by (rule tables_ok_same [OF assms(1)]) (simp_all add: pde)
  have gone: "translate ?m va = None"
    using pde [of i] pte [of i j] i j by (simp add: translate_walk i_def j_def present_def)
  have "translate ?m va2 = translate m va2"
    if "4194304 \<le> va2" "va2 < 0xFFC00000" "va2 div 4096 \<noteq> va div 4096" for va2
  proof -
    define k where "k = va2 div 4194304"
    define l where "l = va2 div 4096 mod 1024"
    have k: "0 < k" "k < 1023" and l: "l < 1024" using that(1,2) by (simp_all add: k_def l_def)
    have "\<not> (k = i \<and> l = j)"
    proof
      have d: "x div 4194304 = x div 4096 div 1024" for x :: nat by (simp add: div_mult2_eq [symmetric])
      assume "k = i \<and> l = j"
      then show False using that(3) unfolding k_def l_def i_def j_def d by (metis div_mult_mod_eq)
    qed
    moreover have "frame (pde_at m k) \<noteq> ?T" if "present (pde_at m k)" "k \<noteq> i"
      using tables_ok_sharing [OF assms(1), of k i] tables_ok_sharing [OF assms(1), of i k] that p(1) k i
      by (metis linorder_neqE_nat less_not_refl)
    ultimately have "pte_at ?m k l = pte_at m k l" if "present (pde_at m k)"
      using pte [of k l] k l that by (cases "k = i") auto
    then show ?thesis
      unfolding translate_walk k_def [symmetric] l_def [symmetric] using pde [of k] k by auto
  qed
  moreover have "table_frames ?m = table_frames m"
  proof -
    have "pde_at ?m ` {i. i < 1023 \<and> present (pde_at ?m i)} = pde_at m ` {i. i < 1023 \<and> present (pde_at m i)}"
      using pde by (intro image_cong) auto
    then show ?thesis by (simp add: table_frames_def)
  qed
  ultimately show ?thesis using run ok gone by (intro exI [of _ ?ph]) auto
qed

lemma addr_v2p_mapped:
  assumes "self_map m" and "va < 4294967296" and "translate m va = Some f" and "\<forall>a. phys m a < 4294967296"
  shows "addr_v2p va m = Some f"
proof -
  let ?e = "pte_at m (va div 4194304) (va div 4096 mod 1024)"
  have p: "present (pde_at m (va div 4194304))" "f = frame ?e + va mod 4096"
    using assms(3) by (simp_all add: translate_walk split: if_splits)
  have e: "?e < 4294967296" using assms(4) by (simp add: pte_at_def)
  then have "frame ?e + va mod 4096 < 4294967296"
  proof -
    have "?e div 4096 \<le> 1048575" using e by simp
    then have "frame ?e \<le> 1048575 * 4096" unfolding frame_def by (rule mult_le_mono1)
    moreover have "va mod 4096 < 4096" by simp
    ultimately show ?thesis by linarith
  qed
  then show ?thesis
    using rd_pte [OF assms(1,2) p(1)] p(2) and_frame [OF e] and_offset [of va]
    by (simp add: addr_v2p_def add32_small)
qed

lemma pfree_kernel:
  assumes "pools_ok m" and "f = phy_addr_start (kernel_pool m) + 4096 * k" and "k < bm_size (pool_bitmap (kernel_pool m))"
  shows "\<exists>bm. pfree f m = Some (upd_pool PF_KERNEL (\<lambda>p. p\<lparr>pool_bitmap := bm\<rparr>) m)
    \<and> pools_ok (upd_pool PF_KERNEL (\<lambda>p. p\<lparr>pool_bitmap := bm\<rparr>) m)
    \<and> free_frames (upd_pool PF_KERNEL (\<lambda>p. p\<lparr>pool_bitmap := bm\<rparr>) m) = insert f (free_frames m)
    \<and> bm_size bm = bm_size (pool_bitmap (kernel_pool m))"
proof -
  let ?b = "pool_bitmap (kernel_pool m)"
  have wf: "bm_wf ?b" using assms(1) by (simp add: pools_ok_def)
  obtain bm where bm: "bitmap_set ?b k 0 = Some bm" "bm_wf bm" "bm_size bm = bm_size ?b"
      "\<forall>j < bm_size ?b. bmbit bm j = (j \<noteq> k \<and> bmbit ?b j)"
    using bitmap_set_runs [OF wf assms(3), of 0] by auto
  have "f < phy_addr_start (user_pool m)" using assms by (simp add: pools_ok_def)
  then have "pfree f m = Some (upd_pool PF_KERNEL (\<lambda>p. p\<lparr>pool_bitmap := bm\<rparr>) m)"
    using bm(1) assms(2) by (simp add: pfree_def PG_SIZE_def)
  moreover have "free_frames (upd_pool PF_KERNEL (\<lambda>p. p\<lparr>pool_bitmap := bm\<rparr>) m) = insert f (free_frames m)"
    using bm(3,4) assms(2,3) by (auto simp: free_frames_def free_in_def)
  ultimately show ?thesis using assms(1) bm by (intro exI [of _ bm]) (simp add: pools_ok_def)
qed

lemma free_pages_runs:
  assumes "tables_ok m" and "pools_ok m" and "\<forall>a. phys m a < 4294967296" and "va mod 4096 = 0"
    and "4194304 \<le> va" and "va + 4096 * n \<le> 0xFFC00000" and "length fs = n"
    and "\<forall>k < n. translate m (va + 4096 * k) = Some (fs ! k)"
    and "\<forall>f \<in> set fs. \<exists>k < bm_size (pool_bitmap (kernel_pool m)). f = phy_addr_start (kernel_pool m) + 4096 * k"
  shows "\<exists>m'. free_pages (phy_addr_start (kernel_pool m)) va n m = Some m' \<and> tables_ok m' \<and> pools_ok m'
    \<and> keeps m m' \<and> free_frames m' = free_frames m \<union> set fs \<and> table_frames m' = table_frames m
    \<and> (\<forall>k < n. translate m' (va + 4096 * k) = None)
    \<and> (\<forall>va2. 4194304 \<le> va2 \<longrightarrow> va2 < 0xFFC00000 \<longrightarrow>
         va2 div 4096 < va div 4096 \<or> va div 4096 + n \<le> va2 div 4096 \<longrightarrow> translate m' va2 = translate m va2)"
  using assms
proof (induction n arbitrary: m va fs)
  case 0
  then show ?case by simp
next
  case (Suc n)
  then obtain f gs where fs: "fs = f # gs" "length gs = n" by (cases fs) auto
  have va: "va < 0xFFC00000" "va < 4294967296" using Suc.prems(6) by simp_all
  have sm: "self_map m" using Suc.prems(1) by (simp add: tables_ok_def)
  have tr: "translate m va = Some f" using Suc.prems(8) fs by auto
  have v2p: "addr_v2p va m = Some f" by (rule addr_v2p_mapped [OF sm va(2) tr Suc.prems(3)])
  obtain k where k: "k < bm_size (pool_bitmap (kernel_pool m))" "f = phy_addr_start (kernel_pool m) + 4096 * k"
    using Suc.prems(9) fs by auto
  obtain bm where pf: "pfree f m = Some (upd_pool PF_KERNEL (\<lambda>p. p\<lparr>pool_bitmap := bm\<rparr>) m)"
      "pools_ok (upd_pool PF_KERNEL (\<lambda>p. p\<lparr>pool_bitmap := bm\<rparr>) m)"
      "free_frames (upd_pool PF_KERNEL (\<lambda>p. p\<lparr>pool_bitmap := bm\<rparr>) m) = insert f (free_frames m)"
      "bm_size bm = bm_size (pool_bitmap (kernel_pool m))"
    using pfree_kernel [OF Suc.prems(2) k(2,1)] by (elim exE conjE) (rule that)
  define m1 where "m1 = upd_pool PF_KERNEL (\<lambda>p. p\<lparr>pool_bitmap := bm\<rparr>) m"
  have t1: "tables_ok m1" "translate m1 va = Some f" "phys m1 = phys m" "table_frames m1 = table_frames m"
    using Suc.prems(1) tr unfolding m1_def tables_ok_def upd_pool_tables by simp_all
  have tr1: "translate m1 va2 = translate m va2" for va2 unfolding m1_def by (rule upd_pool_tables)
  have w1: "\<forall>a. phys m1 a < 4294967296" using Suc.prems(3) t1(3) by simp
  have keeps1: "keeps m m1"
    using pf(4) unfolding keeps_def m1_def pool_of_upd by simp
  obtain ph where r: "page_table_pte_remove va m1 = Some (m1\<lparr>phys := ph\<rparr>)" "tables_ok (m1\<lparr>phys := ph\<rparr>)"
      "translate (m1\<lparr>phys := ph\<rparr>) va = None" "(\<forall>a. phys m1 a < 4294967296) \<longrightarrow> (\<forall>a. ph a < 4294967296)"
      "table_frames (m1\<lparr>phys := ph\<rparr>) = table_frames m1"
      "\<forall>va2. 4194304 \<le> va2 \<longrightarrow> va2 < 0xFFC00000 \<longrightarrow> va2 div 4096 \<noteq> va div 4096 \<longrightarrow>
         translate (m1\<lparr>phys := ph\<rparr>) va2 = translate m1 va2"
    using pte_remove_runs [OF t1(1) Suc.prems(5) va(1) t1(2)] by (elim exE conjE) (rule that)
  define m2 where "m2 = m1\<lparr>phys := ph\<rparr>"
  have keeps2: "keeps m m2" using keeps_trans [OF keeps1 keeps_phys] by (simp add: m2_def)
  have m2: "pools_ok m2" "free_frames m2 = insert f (free_frames m)" "phy_addr_start (kernel_pool m2) = phy_addr_start (kernel_pool m)"
      "bm_size (pool_bitmap (kernel_pool m2)) = bm_size (pool_bitmap (kernel_pool m))"
    using pf(2-4) by (simp_all add: m2_def m1_def pools_ok_def free_frames_def)
  have d: "(va + 4096) div 4096 = Suc (va div 4096)" using Suc.prems(4) by simp
  have tr2: "\<forall>k < n. translate m2 (va + 4096 + 4096 * k) = Some (gs ! k)"
  proof (intro allI impI)
    fix k assume k: "k < n"
    have e: "va + 4096 + 4096 * k = va + 4096 * Suc k" by simp
    have "(va + 4096 * Suc k) div 4096 \<noteq> va div 4096" unfolding next_page [OF Suc.prems(4)] by simp
    moreover have "4194304 \<le> va + 4096 * Suc k" "va + 4096 * Suc k < 0xFFC00000"
      using Suc.prems(5,6) k by simp_all
    ultimately have "translate m2 (va + 4096 * Suc k) = translate m1 (va + 4096 * Suc k)"
      by (intro r(6) [rule_format, folded m2_def])
    also have "\<dots> = translate m (va + 4096 * Suc k)" by (rule tr1)
    also have "\<dots> = Some (fs ! Suc k)" using Suc.prems(8) k by blast
    finally show "translate m2 (va + 4096 + 4096 * k) = Some (gs ! k)" unfolding e fs by simp
  qed
  have gs: "\<forall>f \<in> set gs. \<exists>k < bm_size (pool_bitmap (kernel_pool m2)). f = phy_addr_start (kernel_pool m2) + 4096 * k"
    using Suc.prems(9) fs m2(3,4) by simp
  have up: "(va + 4096) mod 4096 = 0" "4194304 \<le> va + 4096" "va + 4096 + 4096 * n \<le> 0xFFC00000"
    using Suc.prems(4-6) by simp_all
  have w2: "\<forall>a. phys m2 a < 4294967296" using r(4) w1 by (simp add: m2_def)
  obtain m' where ih: "free_pages (phy_addr_start (kernel_pool m2)) (va + 4096) n m2 = Some m'" "tables_ok m'" "pools_ok m'"
      "keeps m2 m'" "free_frames m' = free_frames m2 \<union> set gs" "table_frames m' = table_frames m2"
      "\<forall>k < n. translate m' (va + 4096 + 4096 * k) = None"
      "\<forall>va2. 4194304 \<le> va2 \<longrightarrow> va2 < 0xFFC00000 \<longrightarrow>
         va2 div 4096 < (va + 4096) div 4096 \<or> (va + 4096) div 4096 + n \<le> va2 div 4096 \<longrightarrow> translate m' va2 = translate m2 va2"
    using Suc.IH [OF r(2) [folded m2_def] m2(1) w2 up fs(2) tr2 gs] by (elim exE conjE) (rule that)
  have run: "free_pages (phy_addr_start (kernel_pool m)) va (Suc n) m = Some m'"
    using v2p k(2) pf(1) r(1) ih(1) m2(3) va(1) by (simp add: m1_def m2_def PG_SIZE_def add32_small)
  have "translate m' va = None"
    using ih(8) [rule_format, of va] Suc.prems(5) va(1) d r(3) by (simp add: m2_def)
  then have "\<forall>k < Suc n. translate m' (va + 4096 * k) = None"
    using ih(7) [unfolded add.assoc] by (auto simp: less_Suc_eq_0_disj)
  moreover have "translate m' va2 = translate m va2"
    if "4194304 \<le> va2" "va2 < 0xFFC00000" "va2 div 4096 < va div 4096 \<or> va div 4096 + Suc n \<le> va2 div 4096" for va2
  proof -
    have "translate m' va2 = translate m2 va2" using ih(8) that d by auto
    also have "\<dots> = translate m1 va2" using r(6) that unfolding m2_def by auto
    finally show ?thesis using tr1 by simp
  qed
  ultimately show ?case
    using run ih(2,3,5,6) keeps_trans [OF keeps2 ih(4)] m2(2) fs r(5) t1(4) by (intro exI [of _ m']) (simp add: m2_def)
qed

section \<open>The words of the memory\<close>

definition words_ok :: "mem \<Rightarrow> bool" where
  "words_ok m \<longleftrightarrow> (\<forall>a. phys m a < 4294967296)"

lemma words_ok_frame [simp]:
  "words_ok (m\<lparr>kernel_vaddr := v\<rparr>) = words_ok m" "words_ok (m\<lparr>mkern := k\<rparr>) = words_ok m"
  "words_ok (upd_pool pf g m) = words_ok m"
  by (cases pf; simp add: words_ok_def)+

lemma wr_word_words: "words_ok m \<Longrightarrow> v < 4294967296 \<Longrightarrow> post words_ok (wr_word va v m)"
  by (auto simp: wr_word_def words_ok_def post_def)

lemma zero_words_words: "words_ok m \<Longrightarrow> post words_ok (zero_words va n m)"
  by (induction n arbitrary: va m) (auto intro: post_bind [OF wr_word_words])

lemma entry_less: "x < 4294967296 \<Longrightarrow> x OR PG_P_1 OR PG_RW_W OR PG_US_U < (4294967296::nat)"
proof -
  assume "x < 4294967296"
  then have "take_bit 32 x = x" by (simp add: take_bit_nat_eq_self)
  then have "take_bit 32 (x OR PG_P_1 OR PG_RW_W OR PG_US_U) = x OR PG_P_1 OR PG_RW_W OR PG_US_U"
    by (simp add: take_bit_or PG_P_1_def PG_RW_W_def PG_US_U_def)
  moreover have "take_bit 32 (x OR PG_P_1 OR PG_RW_W OR PG_US_U) < 2 ^ 32" by (rule take_bit_nat_less_exp)
  ultimately show ?thesis by simp
qed

lemma palloc_words: "words_ok m \<Longrightarrow> post (\<lambda>(f, m'). words_ok m' \<and> f < 4294967296) (palloc pf m)"
  by (auto simp: palloc_def Let_def post_def bind_iff)

lemma page_table_add_words:
  assumes "words_ok m" and "f < 4294967296"
  shows "post words_ok (page_table_add va f m)"
  unfolding page_table_add_def Let_def
  by (intro post_bind_any post_if)
     (auto intro!: post_bind [OF wr_word_words] post_bind [OF zero_words_words] wr_word_words entry_less assms
       dest: postD [OF palloc_words [OF assms(1)]])

lemma map_pages_words: "words_ok m \<Longrightarrow> post (\<lambda>(ok, m'). words_ok m') (map_pages pf n va m)"
proof (induction n arbitrary: va m)
  case (Suc n)
  show ?case
    unfolding map_pages.simps
    by (rule post_bind [OF palloc_words [OF Suc.prems]])
       (auto intro!: post_bind [OF page_table_add_words] Suc.IH)
qed simp

lemma get_kernel_pages_words:
  assumes "words_ok m" and "get_kernel_pages n m = Some (va, m')"
  shows "words_ok m'"
proof -
  have acq: "post words_ok (acquire_pool pf m)" if "words_ok m" for pf m
    using that by (auto simp: acquire_pool_def post_def bind_iff)
  have rel: "post words_ok (release_pool pf m)" if "words_ok m" for pf m
    using that by (auto simp: release_pool_def post_def bind_iff)
  have vad: "post (\<lambda>(va, m'). words_ok m') (vaddr_get PF_KERNEL n m)" if "words_ok m" for n m
    using that by (auto simp: vaddr_get_def Let_def post_def bind_iff)
  have mal: "post (\<lambda>(va, m'). words_ok m') (malloc_page PF_KERNEL n m)" if "words_ok m" for n m
    unfolding malloc_page_def Let_def
    by (rule post_bind [OF vad [OF that]]) (auto intro!: post_bind [OF map_pages_words] simp del: map_pages.simps)
  have "post (\<lambda>(va, m'). words_ok m') (get_kernel_pages n m)"
    unfolding get_kernel_pages_def Let_def
    by (rule post_bind [OF acq [OF assms(1)]], rule post_bind [OF mal])
       (auto intro!: post_bind [OF zero_words_words] post_bind [OF rel])
  with assms(2) show ?thesis by (auto dest: postD)
qed

section \<open>Properties\<close>

text \<open>A small memory: an empty kernel page table, two pools, and a thread that runs.\<close>

definition sample_mem :: mem where
  "sample_mem = \<lparr>phys = (\<lambda>a. if a = 0x100FFC then 0x100007 else if a = 0x100C00 then 0x101007 else 0),
     cr3 = 0x100000,
     kernel_pool = \<lparr>pool_bitmap = \<lparr>bitmap_byte_len = 2, bits = [0, 0]\<rparr>, phy_addr_start = 0x200000,
       pool_size = 0x10000, pool_lock = lock_init\<rparr>,
     user_pool = \<lparr>pool_bitmap = \<lparr>bitmap_byte_len = 2, bits = [0, 0]\<rparr>, phy_addr_start = 0x210000,
       pool_size = 0x10000, pool_lock = lock_init\<rparr>,
     kernel_vaddr = \<lparr>bitmap_vaddr = \<lparr>bitmap_byte_len = 2, bits = [1, 0]\<rparr>, vaddr_start = K_HEAD_START\<rparr>,
     userprog_vaddr = (\<lambda>t. \<lparr>bitmap_vaddr = \<lparr>bitmap_byte_len = 0, bits = []\<rparr>, vaddr_start = 0\<rparr>),
     mkern = sample_kst\<rparr>"

lemma sample_pde: "pde_at sample_mem i = (if i = 1023 then 0x100007 else if i = 768 then 0x101007 else 0)"
  by (simp add: pde_at_def sample_mem_def)

lemma sample_mem_ok: "mem_inv sample_mem" "kvaddr_ok sample_mem" "words_ok sample_mem"
  "lock_idle (pool_lock (kernel_pool sample_mem))" "running (mkern sample_mem) \<noteq> 0"
  "room PF_KERNEL sample_mem = 15" "first_run (bitmap_vaddr (kernel_vaddr sample_mem)) 2 = Some 1"
proof -
  have cr: "cr3 sample_mem = 0x100000" by (simp add: sample_mem_def)
  have pte: "pte_at sample_mem 768 j = 0" if "j < 1024" for j
    using that by (simp add: pte_at_def sample_pde) (simp add: sample_mem_def frame_def)
  have free: "f \<in> free_frames sample_mem \<Longrightarrow> 0x200000 \<le> f" for f
    by (auto simp: free_frames_def free_in_def sample_mem_def)
  have pok: "pools_ok sample_mem" by (simp add: pools_ok_def bm_wf_def bm_size_def sample_mem_def)
  have sm: "self_map sample_mem"
    by (simp add: self_map_def sample_pde cr present_def frame_def)
  have tf: "table_frames sample_mem = {0x100000, 0x101000}"
    by (auto simp: table_frames_def sample_pde cr present_def frame_def image_iff intro!: exI [of _ 768])
  have np: "\<not> present 0" by (simp add: present_def)
  have p: "present (pde_at sample_mem i) \<longleftrightarrow> i = 1023 \<or> i = 768" for i
    by (simp add: sample_pde present_def)
  show "mem_inv sample_mem"
    unfolding mem_inv_def
  proof (intro conjI allI impI)
    show "table_frames sample_mem \<inter> free_frames sample_mem = {}" using tf free by fastforce
    fix i j
    show "i < 1023 \<Longrightarrow> present (pde_at sample_mem i) \<Longrightarrow> frame (pde_at sample_mem i) \<noteq> cr3 sample_mem"
      by (auto simp: p sample_pde cr frame_def)
    show "i < 1023 \<Longrightarrow> j < 1024 \<Longrightarrow> present (pde_at sample_mem i) \<Longrightarrow> present (pte_at sample_mem i j) \<Longrightarrow>
        frame (pte_at sample_mem i j) \<notin> free_frames sample_mem"
      using pte [of j] np by (auto simp: p)
    show "i < j \<Longrightarrow> j < 1023 \<Longrightarrow> present (pde_at sample_mem i) \<Longrightarrow> present (pde_at sample_mem j) \<Longrightarrow>
        frame (pde_at sample_mem i) = frame (pde_at sample_mem j) \<Longrightarrow> i = 0"
      by (auto simp: p)
  qed (rule pok, rule sm)
  have "translate sample_mem (0xC0100000 + 4096 * i) = None" if "i < 16" for i
  proof -
    have "(0xC0100000 + 4096 * i) div 4194304 = 768" "(0xC0100000 + 4096 * i) div 4096 mod 1024 < (1024::nat)"
      using that by simp_all
    then show ?thesis using pte by (simp add: translate_walk present_def)
  qed
  then show "kvaddr_ok sample_mem"
    by (simp add: kvaddr_ok_def sample_mem_def bm_wf_def bm_size_def K_HEAD_START_def)
  show "words_ok sample_mem" by (simp add: words_ok_def sample_mem_def)
  show "lock_idle (pool_lock (kernel_pool sample_mem))"
    by (simp add: lock_idle_def lock_free_def sample_mem_def lock_init_def seam_init_def)
  show "running (mkern sample_mem) \<noteq> 0" by (simp add: sample_mem_def sample_kst_def)
  have "{k. k < 255 \<and> k + 1 < bm_size (pool_bitmap (pool_of PF_KERNEL sample_mem)) \<and>
      \<not> bmbit (pool_bitmap (pool_of PF_KERNEL sample_mem)) k} = {..<15}"
  proof -
    have "k < 15 \<Longrightarrow> \<not> bmbit \<lparr>bitmap_byte_len = 2, bits = [0, 0]\<rparr> k" for k
      by (cases "k < 8") (auto simp: bmbit_def nth_Cons')
    then show ?thesis by (auto simp: sample_mem_def bm_size_def)
  qed
  then show "room PF_KERNEL sample_mem = 15" by (simp add: room_def)
  show "first_run (bitmap_vaddr (kernel_vaddr sample_mem)) 2 = Some 1"
    unfolding first_run_Some
    by (auto simp: sample_mem_def bm_size_def free_run_iff bmbit_def less_Suc_eq numeral_2_eq_2)
qed

text \<open>C15: \<open>get_kernel_pages\<close> returns \<open>n\<close> consecutive pages of zeros, mapped to \<open>n\<close> different page
  frames that were free and are used neither by another page nor as page tables; the pool lock
  is free again and the invariants of the allocator hold.\<close>

theorem kernel_pages_fresh:
  assumes "mem_inv m" and "kvaddr_ok m" and "lock_idle (pool_lock (kernel_pool m))"
    and "running (mkern m) \<noteq> 0" and "0 < n" and "n < 256"
    and "first_run (bitmap_vaddr (kernel_vaddr m)) n = Some i" and "i < 256" and "2 * n \<le> room PF_KERNEL m"
    and "va = vaddr_start (kernel_vaddr m) + 4096 * i"
  shows "\<exists>fs m'. get_kernel_pages n m = Some (va, m') \<and> mem_inv m' \<and> kvaddr_ok m'
    \<and> lock_idle (pool_lock (kernel_pool m'))
    \<and> length fs = n \<and> distinct fs \<and> set fs \<subseteq> free_frames m - free_frames m' \<and> set fs \<inter> table_frames m' = {}
    \<and> (\<forall>k < n. translate m' (va + 4096 * k) = Some (fs ! k) \<and> (\<forall>l < 1024. phys m' (fs ! k + 4 * l) = 0))"
proof -
  obtain fs m' where "get_kernel_pages n m = Some (va, m')" "mem_inv m'" "kvaddr_ok m'"
      "lock_idle (pool_lock (kernel_pool m'))" "length fs = n" "distinct fs"
      "set fs \<subseteq> free_frames m - free_frames m'" "set fs \<inter> table_frames m' = {}"
      "\<forall>k < n. translate m' (va + 4096 * k) = Some (fs ! k)" "\<forall>f \<in> set fs. \<forall>l < 1024. phys m' (f + 4 * l) = 0"
    using get_kernel_pages_runs [OF assms] by (elim exE conjE) (rule that)
  then show ?thesis by (intro exI [of _ fs] exI [of _ m']) simp
qed

theorem kernel_pages_fresh_witness:
  "\<exists>f g m'. get_kernel_pages 2 sample_mem = Some (0xC0101000, m') \<and> f \<noteq> g
    \<and> translate m' 0xC0101000 = Some f \<and> translate m' 0xC0102000 = Some g \<and> mem_inv m'"
proof -
  have va: "(0xC0101000::nat) = vaddr_start (kernel_vaddr sample_mem) + 4096 * 1"
    by (simp add: sample_mem_def K_HEAD_START_def)
  obtain fs m' where r: "get_kernel_pages 2 sample_mem = Some (0xC0101000, m')" "mem_inv m'"
      "length fs = 2" "distinct fs" "\<forall>k < 2. translate m' (0xC0101000 + 4096 * k) = Some (fs ! k)"
    using kernel_pages_fresh [OF sample_mem_ok(1,2,4,5) _ _ sample_mem_ok(7) _ _ va] sample_mem_ok(6) by auto
  have "translate m' 0xC0101000 = Some (fs ! 0)" "translate m' 0xC0102000 = Some (fs ! 1)" "fs ! 0 \<noteq> fs ! 1"
    using r(3-5) spec [OF r(5), of 0] spec [OF r(5), of 1] by (auto simp: nth_eq_iff_index_eq)
  with r show ?thesis by blast
qed

text \<open>C16: Giving the pages of \<open>get_kernel_pages\<close> back with \<open>mfree_page\<close> removes their mappings and
  restores the map of virtual pages; of the page frames only those that became page tables stay
  in use.\<close>

theorem kernel_pages_roundtrip:
  assumes "mem_inv m" and "kvaddr_ok m" and "lock_idle (pool_lock (kernel_pool m))" and "words_ok m"
    and "running (mkern m) \<noteq> 0" and "0 < n" and "n < 256"
    and "first_run (bitmap_vaddr (kernel_vaddr m)) n = Some i" and "i < 256" and "2 * n \<le> room PF_KERNEL m"
    and "va = vaddr_start (kernel_vaddr m) + 4096 * i"
  shows "\<exists>m1 m2. get_kernel_pages n m = Some (va, m1) \<and> mfree_page PF_KERNEL va n m1 = Some m2
    \<and> (\<forall>k < n. translate m1 (va + 4096 * k) \<noteq> None \<and> translate m2 (va + 4096 * k) = None)
    \<and> (\<forall>j < bm_size (bitmap_vaddr (kernel_vaddr m)).
         bmbit (bitmap_vaddr (kernel_vaddr m2)) j = bmbit (bitmap_vaddr (kernel_vaddr m)) j)
    \<and> free_frames m2 \<subseteq> free_frames m \<and> free_frames m - free_frames m2 \<subseteq> table_frames m2"
proof -
  let ?st = "vaddr_start (kernel_vaddr m)" and ?b = "bitmap_vaddr (kernel_vaddr m)"
  obtain fs m1 where g: "get_kernel_pages n m = Some (va, m1)" "mem_inv m1" "kvaddr_ok m1" "length fs = n"
      "set fs \<subseteq> free_in (kernel_pool m)" "free_frames m - free_frames m1 \<subseteq> set fs \<union> table_frames m1"
      "\<forall>k < n. translate m1 (va + 4096 * k) = Some (fs ! k)"
      "vaddr_start (kernel_vaddr m1) = ?st" "bm_size (bitmap_vaddr (kernel_vaddr m1)) = bm_size ?b"
      "\<forall>j < bm_size ?b. bmbit (bitmap_vaddr (kernel_vaddr m1)) j = (i \<le> j \<and> j < i + n \<or> bmbit ?b j)"
      "free_frames m1 \<subseteq> free_frames m" "set fs \<subseteq> free_frames m - free_frames m1"
      "\<forall>pf. phy_addr_start (pool_of pf m1) = phy_addr_start (pool_of pf m)
         \<and> bm_size (pool_bitmap (pool_of pf m1)) = bm_size (pool_bitmap (pool_of pf m))"
    using get_kernel_pages_runs [OF assms(1-3,5-11)] by (elim exE conjE) (rule that)
  have pools: "phy_addr_start (kernel_pool m1) = phy_addr_start (kernel_pool m)"
      "bm_size (pool_bitmap (kernel_pool m1)) = bm_size (pool_bitmap (kernel_pool m))"
    using g(13) by (metis pool_of.simps(1))+
  have pok: "pools_ok m1" using g(2) by (simp add: mem_inv_def)
  have w: "\<forall>a. phys m1 a < 4294967296"
    using get_kernel_pages_words [OF assms(4) g(1)] by (simp add: words_ok_def)
  have st: "?st mod 4096 = 0" "4194304 \<le> ?st" "?st + 4096 * bm_size ?b \<le> 0xFFC00000"
    using assms(2) by (simp_all add: kvaddr_ok_def)
  have len: "i + n < bm_size ?b" "\<forall>k < n. \<not> bmbit ?b (i + k)"
    using assms(8) by (simp_all add: first_run_Some free_run_iff)
  have va: "va mod 4096 = 0" "4194304 \<le> va" "va + 4096 * n \<le> 0xFFC00000" "va < 4294967296"
    using st len(1) assms(11) by auto
  have frames: "\<forall>f \<in> set fs. \<exists>k < bm_size (pool_bitmap (kernel_pool m1)). f = phy_addr_start (kernel_pool m1) + 4096 * k"
    using g(5) unfolding pools free_in_def by auto
  obtain m3 where f: "free_pages (phy_addr_start (kernel_pool m1)) va n m1 = Some m3" "keeps m1 m3"
      "free_frames m3 = free_frames m1 \<union> set fs" "table_frames m3 = table_frames m1"
      "\<forall>k < n. translate m3 (va + 4096 * k) = None"
    using free_pages_runs [OF mem_inv_tables [OF g(2)] pok w va(1-3) g(4,7) frames] by (elim exE conjE) (rule that)
  have sm: "self_map m1" using g(2) by (simp add: mem_inv_def)
  have v2p: "addr_v2p va m1 = Some (fs ! 0)"
    using addr_v2p_mapped [OF sm va(4) _ w, of "fs ! 0"] spec [OF g(7), of 0] assms(6) by simp
  have "fs ! 0 \<in> set fs" using g(4) assms(6) by simp
  then have rng: "phy_addr_start (kernel_pool m1) \<le> fs ! 0" "fs ! 0 < phy_addr_start (user_pool m1)"
    using frames pok by (auto simp: pools_ok_def)
  have kv: "kernel_vaddr m3 = kernel_vaddr m1" using f(2) by (simp add: keeps_def)
  have idx: "sub32 va ?st div PG_SIZE = i"
    using va(4) assms(11) by (simp add: sub32_small PG_SIZE_def)
  obtain bm where bm: "bitmap_setEx (bitmap_vaddr (kernel_vaddr m1)) i 0 n = Some bm"
      "\<forall>j < bm_size ?b. bmbit bm j = (if i \<le> j \<and> j < i + n then False else bmbit (bitmap_vaddr (kernel_vaddr m1)) j)"
    using bitmap_setEx_runs [of "bitmap_vaddr (kernel_vaddr m1)" i n 0] g(3,9) len(1) by (auto simp: kvaddr_ok_def)
  define m2 where "m2 = m3\<lparr>kernel_vaddr := (kernel_vaddr m1)\<lparr>bitmap_vaddr := bm\<rparr>\<rparr>"
  have "mfree_page PF_KERNEL va n m1 = Some m2"
    using v2p rng f(1) kv idx bm(1) g(8) by (simp add: mfree_page_def vaddr_remove_def m2_def)
  moreover have "bmbit (bitmap_vaddr (kernel_vaddr m2)) j = bmbit ?b j" if "j < bm_size ?b" for j
  proof -
    have "\<not> bmbit ?b j" if "i \<le> j" "j < i + n"
      using spec [OF len(2), of "j - i"] that by simp
    then show ?thesis using bm(2) g(10) that by (auto simp: m2_def)
  qed
  moreover have "free_frames m2 = free_frames m1 \<union> set fs" "table_frames m2 = table_frames m1"
    using f(3,4) by (simp_all add: m2_def)
  moreover have "\<forall>k < n. translate m1 (va + 4096 * k) \<noteq> None \<and> translate m2 (va + 4096 * k) = None"
    using g(7) f(5) by (simp add: m2_def)
  ultimately show ?thesis
    using g(1,6,11,12) by (intro exI [of _ m1] exI [of _ m2]) auto
qed

theorem kernel_pages_roundtrip_witness:
  "\<exists>m1 m2. get_kernel_pages 2 sample_mem = Some (0xC0101000, m1) \<and> mfree_page PF_KERNEL 0xC0101000 2 m1 = Some m2
    \<and> translate m1 0xC0101000 \<noteq> None \<and> translate m2 0xC0101000 = None"
proof -
  have va: "(0xC0101000::nat) = vaddr_start (kernel_vaddr sample_mem) + 4096 * 1"
    by (simp add: sample_mem_def K_HEAD_START_def)
  obtain m1 m2 where "get_kernel_pages 2 sample_mem = Some (0xC0101000, m1)"
      "mfree_page PF_KERNEL 0xC0101000 2 m1 = Some m2"
      "\<forall>k < 2. translate m1 (0xC0101000 + 4096 * k) \<noteq> None \<and> translate m2 (0xC0101000 + 4096 * k) = None"
    using kernel_pages_roundtrip [OF sample_mem_ok(1,2,4,3,5) _ _ sample_mem_ok(7) _ _ va] sample_mem_ok(6) by auto
  then show ?thesis by (intro exI [of _ m1] exI [of _ m2]) (auto dest: spec [of _ 0])
qed

text \<open>C28: For every size of the memory from 2 MB on, \<open>mem_pool_init\<close> makes two empty pools that
  do not overlap each other, the first 2 MB or the end of the memory, and bitmaps that fit in the
  four pages set aside for them and do not cover more frames than the pools have.\<close>

theorem mem_pool_init_bounds:
  assumes "0x200000 \<le> all_mem" and "all_mem < 4294967296" and "length area = 4 * 4096"
  shows "\<exists>m'. mem_pool_init all_mem area m = Some m' \<and> pools_ok m' \<and> phy_addr_start (kernel_pool m') = 0x200000
    \<and> phy_addr_start (user_pool m') = phy_addr_start (kernel_pool m') + pool_size (kernel_pool m')
    \<and> phy_addr_start (user_pool m') + pool_size (user_pool m') \<le> all_mem
    \<and> (\<forall>pf. 4096 * bm_size (pool_bitmap (pool_of pf m')) \<le> pool_size (pool_of pf m')
         \<and> (\<forall>k < bm_size (pool_bitmap (pool_of pf m')). \<not> bmbit (pool_bitmap (pool_of pf m')) k))"
proof -
  define q where "q = u16 (sub32 all_mem (PG_SIZE * 256 + 0x100000) div PG_SIZE)"
  have q: "q < 65536" by (simp add: q_def u16_def)
  have lim: "0x200000 + 4096 * q \<le> all_mem"
  proof -
    have "q \<le> (all_mem - 0x200000) div 4096"
      using assms(1,2) by (simp add: q_def u16_def PG_SIZE_def sub32_small)
    then have "4096 * q \<le> 4096 * ((all_mem - 0x200000) div 4096)" by (rule mult_le_mono2)
    also have "\<dots> \<le> all_mem - 0x200000" by simp
    finally show ?thesis using assms(1) by simp
  qed
  define k where "k = q div 2"
  define u where "u = q - k"
  have ku: "k + u = q" "k < 32768" "u < 65536" "u16 u = u" using q by (simp_all add: k_def u_def u16_def)
  define kb where "kb = k div 8"
  define ub where "ub = u div 8"
  have kb: "8 * kb \<le> k" "8 * ub \<le> u" by (simp_all add: kb_def ub_def)
  have w: "mul32 k PG_SIZE = 4096 * k" "mul32 u PG_SIZE = 4096 * u"
      "add32 0x200000 (4096 * k) = 0x200000 + 4096 * k"
    using ku(2,3) by (simp_all add: mul32_small add32_small PG_SIZE_def)
  have init: "bitmap_init \<lparr>bitmap_byte_len = n, bits = bs\<rparr> = Some \<lparr>bitmap_byte_len = n, bits = replicate n 0\<rparr>"
    if "length bs = n" for n and bs :: "byte list"
    using that by (simp add: bitmap_init_def)
  have fits: "kb + ub + kb \<le> length area"
    using ku q assms(3) by (simp add: kb_def ub_def)
  define m' where "m' = m\<lparr>kernel_pool := \<lparr>pool_bitmap = \<lparr>bitmap_byte_len = kb, bits = replicate kb 0\<rparr>, phy_addr_start = 0x200000,
                pool_size = 4096 * k, pool_lock = lock_init\<rparr>,
             user_pool := \<lparr>pool_bitmap = \<lparr>bitmap_byte_len = ub, bits = replicate ub 0\<rparr>, phy_addr_start = 0x200000 + 4096 * k,
                pool_size = 4096 * u, pool_lock = lock_init\<rparr>,
             kernel_vaddr := \<lparr>bitmap_vaddr = \<lparr>bitmap_byte_len = kb, bits = replicate kb 0\<rparr>, vaddr_start = K_HEAD_START\<rparr>\<rparr>"
  have run: "mem_pool_init all_mem area m = Some m'"
    using fits w
    by (simp add: mem_pool_init_def Let_def q_def [symmetric] k_def [symmetric] u_def [symmetric] ku(4)
        kb_def [symmetric] ub_def [symmetric] init m'_def) (simp add: PG_SIZE_def)
  have "\<not> bmbit \<lparr>bitmap_byte_len = n, bits = replicate n 0\<rparr> j" if "j < 8 * n" for n j
    using that by (simp add: bmbit_def less_mult_imp_div_less mult.commute)
  then have pool: "pool_of pf m' = (case pf of
      PF_KERNEL \<Rightarrow> \<lparr>pool_bitmap = \<lparr>bitmap_byte_len = kb, bits = replicate kb 0\<rparr>, phy_addr_start = 0x200000,
        pool_size = 4096 * k, pool_lock = lock_init\<rparr>
    | PF_USER \<Rightarrow> \<lparr>pool_bitmap = \<lparr>bitmap_byte_len = ub, bits = replicate ub 0\<rparr>, phy_addr_start = 0x200000 + 4096 * k,
        pool_size = 4096 * u, pool_lock = lock_init\<rparr>)"
    and clear: "n < 8 * b \<Longrightarrow> \<not> bmbit \<lparr>bitmap_byte_len = b, bits = replicate b 0\<rparr> n" for pf n b
    by (cases pf; simp add: m'_def)+
  have "4096 * bm_size (pool_bitmap (pool_of pf m')) \<le> pool_size (pool_of pf m')
      \<and> (\<forall>n < bm_size (pool_bitmap (pool_of pf m')). \<not> bmbit (pool_bitmap (pool_of pf m')) n)" for pf
    using kb clear by (cases pf) (simp_all add: pool bm_size_def)
  moreover have "pools_ok m'"
    using pool [of PF_KERNEL] pool [of PF_USER] kb ku lim assms(2)
    by (simp add: pools_ok_def bm_wf_def bm_size_def)
  ultimately show ?thesis
    using run pool [of PF_KERNEL] pool [of PF_USER] ku(1) lim by (intro exI [of _ m']) simp
qed

theorem mem_pool_init_bounds_witness:
  "\<exists>m'. mem_pool_init 0x300000 (replicate (4 * 4096) 255) sample_mem = Some m' \<and> pools_ok m'
    \<and> phy_addr_start (kernel_pool m') = 0x200000"
  using mem_pool_init_bounds [of "0x300000" "replicate (4 * 4096) 255" sample_mem] by fastforce

end
