(* ===== verification/PageAlloc.thy ===== *)
theory PageAlloc
  imports Paging
begin

text \<open>
  The page allocator as a source of single pages, the interface under the block heap of
  \<open>kernel/memory.c\<close> (locale \<open>page_source\<close>), and the proof that the allocator of theory \<open>Memory\<close>
  provides it for kernel pages. Its invariant \<open>pages_ok\<close> adds to \<open>mem_inv\<close> that a frame of the
  kernel pool is mapped by one entry only, and that the pages marked in the kernel's virtual
  pool are mapped to such frames.
\<close>

section \<open>The interface\<close>

locale page_source =
  fixes get_page :: "'m \<Rightarrow> (nat \<times> 'm) option"
    and put_page :: "nat \<Rightarrow> 'm \<Rightarrow> 'm option"
    and ok :: "'m \<Rightarrow> bool"
    and can_get :: "'m \<Rightarrow> bool"
    and held :: "'m \<Rightarrow> nat set"
  assumes get_runs: "ok m \<Longrightarrow> can_get m \<Longrightarrow> \<exists>a m'. get_page m = Some (a, m') \<and> ok m'
      \<and> a \<noteq> 0 \<and> a mod 4096 = 0 \<and> a \<notin> held m \<and> held m' = insert a (held m)"
    and put_runs: "ok m \<Longrightarrow> a \<in> held m \<Longrightarrow> \<exists>m'. put_page a m = Some m' \<and> ok m' \<and> held m' = held m - {a}"
begin

text \<open>Pages that were handed out one after the other are different.\<close>

lemma two_pages_differ:
  assumes "ok m" and "get_page m = Some (a, m1)" and "can_get m" and "can_get m1"
    and "get_page m1 = Some (b, m2)"
  shows "a \<noteq> b" and "held m2 = {a, b} \<union> held m"
proof -
  have "ok m1" "held m1 = insert a (held m)"
    using get_runs [OF assms(1,3)] assms(2) by auto
  with get_runs [OF this(1) assms(4)] assms(5) show "a \<noteq> b" "held m2 = {a, b} \<union> held m" by auto
qed

text \<open>A page that goes back at once leaves the pages that are out as they were.\<close>

lemma get_put:
  assumes "ok m" and "can_get m"
  shows "\<exists>a m1 m2. get_page m = Some (a, m1) \<and> put_page a m1 = Some m2 \<and> ok m2 \<and> held m2 = held m"
proof -
  obtain a m1 where g: "get_page m = Some (a, m1)" "ok m1" "a \<notin> held m" "held m1 = insert a (held m)"
    using get_runs [OF assms] by blast
  then obtain m2 where "put_page a m1 = Some m2" "ok m2" "held m2 = held m1 - {a}"
    using put_runs [of m1 a] by auto
  with g show ?thesis by blast
qed

end

section \<open>Frames with one mapping\<close>

definition pool_frame :: "mem \<Rightarrow> nat \<Rightarrow> bool" where
  "pool_frame m f \<longleftrightarrow> (\<exists>k < bm_size (pool_bitmap (kernel_pool m)). f = phy_addr_start (kernel_pool m) + 4096 * k)"

definition mapped_at :: "mem \<Rightarrow> nat \<Rightarrow> nat \<Rightarrow> bool" where
  "mapped_at m i j \<longleftrightarrow> i < 1023 \<and> j < 1024 \<and> present (pde_at m i) \<and> present (pte_at m i j)"

definition sole :: "mem \<Rightarrow> bool" where
  "sole m \<longleftrightarrow> (\<forall>i j k l. mapped_at m i j \<longrightarrow> mapped_at m k l \<longrightarrow> frame (pte_at m i j) = frame (pte_at m k l) \<longrightarrow>
     pool_frame m (frame (pte_at m i j)) \<longrightarrow> frame (pde_at m i) = frame (pde_at m k) \<and> j = l)"

lemma soleD:
  "sole m \<Longrightarrow> mapped_at m i j \<Longrightarrow> mapped_at m k l \<Longrightarrow> frame (pte_at m i j) = frame (pte_at m k l) \<Longrightarrow>
    pool_frame m (frame (pte_at m i j)) \<Longrightarrow> frame (pde_at m i) = frame (pde_at m k) \<and> j = l"
  unfolding sole_def by blast

lemma pool_frame_keeps: "keeps m m' \<Longrightarrow> pool_frame m' = pool_frame m"
proof -
  assume "keeps m m'"
  then have "phy_addr_start (pool_of PF_KERNEL m') = phy_addr_start (pool_of PF_KERNEL m)"
      "bm_size (pool_bitmap (pool_of PF_KERNEL m')) = bm_size (pool_bitmap (pool_of PF_KERNEL m))"
    unfolding keeps_def by blast+
  then show ?thesis by (auto simp: pool_frame_def fun_eq_iff)
qed

lemma sole_same:
  assumes "sole m" and "\<And>i. i < 1023 \<Longrightarrow> pde_at m' i = pde_at m i"
    and "\<And>i j. i < 1023 \<Longrightarrow> j < 1024 \<Longrightarrow> present (pde_at m i) \<Longrightarrow> pte_at m' i j = pte_at m i j"
    and "pool_frame m' = pool_frame m"
  shows "sole m'"
proof -
  have "mapped_at m' i j \<longleftrightarrow> mapped_at m i j" for i j using assms(2,3) by (auto simp: mapped_at_def)
  moreover have "pte_at m' i j = pte_at m i j \<and> pde_at m' i = pde_at m i" if "mapped_at m i j" for i j
    using assms(2,3) that by (simp add: mapped_at_def)
  ultimately show ?thesis using assms(1,4) unfolding sole_def by metis
qed

text \<open>After an entry was set, every mapping is that entry or an old one elsewhere.\<close>

lemma entry_set_cases:
  assumes "mem_inv m" and "entry_set i j f m m'" and "i < 1023" and "j < 1024" and "mapped_at m' k l"
  shows "frame (pde_at m' k) = frame (pde_at m' i) \<and> l = j \<and> pte_at m' k l = f + 7
    \<or> mapped_at m k l \<and> pde_at m' k = pde_at m k \<and> pte_at m' k l = pte_at m k l"
proof -
  have np: "\<not> present 0" by (simp add: present_def)
  have kl: "k < 1023" "l < 1024" "present (pde_at m' k)" "present (pte_at m' k l)"
    using assms(5) by (simp_all add: mapped_at_def)
  show ?thesis
  proof (cases "k = i")
    case True
    then show ?thesis
      using entry_setD(2) [OF assms(2)] entry_setD(3) [OF assms(2) kl(2)] entry_setD(4) [OF assms(2)] kl np
      by (cases "l = j"; cases "present (pde_at m i)") (simp_all add: mapped_at_def)
  next
    case False
    have pk: "pde_at m' k = pde_at m k" by (rule entry_setD(5) [OF assms(2) kl(1) False])
    then have "present (pde_at m k)" using kl(3) by simp
    show ?thesis
    proof (cases "present (pde_at m i) \<and> frame (pde_at m k) = frame (pde_at m i) \<and> l = j")
      case True
      have "\<forall>k < 1023. k \<noteq> i \<longrightarrow> present (pde_at m k) \<longrightarrow> present (pde_at m i) \<longrightarrow>
          frame (pde_at m k) = frame (pde_at m i) \<longrightarrow> pte_at m' k j = f + 7"
        using assms(2) by (simp add: entry_set_def)
      then have "pte_at m' k l = f + 7" using True kl(1) False \<open>present (pde_at m k)\<close> by blast
      then show ?thesis using True pk entry_setD(4) [OF assms(2)] by simp
    next
      case no: False
      have "\<forall>k < 1023. \<forall>l < 1024. k \<noteq> i \<longrightarrow> present (pde_at m k) \<longrightarrow>
          frame (pde_at m k) \<noteq> frame (pde_at m i) \<or> \<not> present (pde_at m i) \<or> l \<noteq> j \<longrightarrow>
          pte_at m' k l = pte_at m k l"
        using assms(2) by (simp add: entry_set_def)
      then have "pte_at m' k l = pte_at m k l" using no kl(1,2) False \<open>present (pde_at m k)\<close> by blast
      then show ?thesis using pk kl \<open>present (pde_at m k)\<close> by (simp add: mapped_at_def)
    qed
  qed
qed

lemma entry_set_sole:
  assumes "mem_inv m" and "entry_set i j f m m'" and "i < 1023" and "j < 1024" and "f mod 4096 = 0"
    and "sole m" and "\<And>k l. mapped_at m k l \<Longrightarrow> frame (pte_at m k l) \<noteq> f" and "pool_frame m' = pool_frame m"
  shows "sole m'"
  unfolding sole_def
proof (intro allI impI)
  fix a b c d
  assume m: "mapped_at m' a b" "mapped_at m' c d" and e: "frame (pte_at m' a b) = frame (pte_at m' c d)"
    and p: "pool_frame m' (frame (pte_at m' a b))"
  note f7 = entry_flags(2) [OF assms(5)]
  from entry_set_cases [OF assms(1-4) m(1)] entry_set_cases [OF assms(1-4) m(2)]
  show "frame (pde_at m' a) = frame (pde_at m' c) \<and> b = d"
    using e p f7 assms(7,8) soleD [OF assms(6), of a b c d] by (elim disjE conjE) auto
qed

section \<open>The invariant of the page source\<close>

definition held_pages :: "mem \<Rightarrow> nat set" where
  "held_pages m = {vaddr_start (kernel_vaddr m) + 4096 * i |i.
     i < bm_size (bitmap_vaddr (kernel_vaddr m)) \<and> bmbit (bitmap_vaddr (kernel_vaddr m)) i}"

definition pages_ok :: "mem \<Rightarrow> bool" where
  "pages_ok m \<longleftrightarrow> mem_inv m \<and> kvaddr_ok m \<and> words_ok m \<and> sole m
     \<and> (\<forall>a \<in> held_pages m. \<exists>f. translate m a = Some f \<and> pool_frame m f \<and> f \<notin> table_frames m)"

definition can_get_page :: "mem \<Rightarrow> bool" where
  "can_get_page m \<longleftrightarrow> 2 \<le> room PF_KERNEL m
     \<and> (\<exists>i < 256. first_run (bitmap_vaddr (kernel_vaddr m)) 1 = Some i)"

text \<open>A new arena of the heap: one page, cleared.\<close>

definition fresh_page :: "pool_flags \<Rightarrow> mem \<Rightarrow> (nat \<times> mem) option" where
  "fresh_page pf m = do {
     (a, m) \<leftarrow> malloc_page pf 1 m;
     if a = 0 then Some (0, m) else do { m \<leftarrow> zero_words a 1024 m; Some (a, m) }
   }"

lemma same_tables_entries:
  assumes "same_tables m m'" and "self_map m"
  shows "i < 1023 \<Longrightarrow> pde_at m' i = pde_at m i"
    and "i < 1023 \<Longrightarrow> j < 1024 \<Longrightarrow> present (pde_at m i) \<Longrightarrow> pte_at m' i j = pte_at m i j"
  using same_tables_pde [OF assms, of i] same_tables_pte [OF assms, of i j] by simp_all

lemma same_tables_pages_ok:
  assumes "pages_ok m" and "same_tables m (m\<lparr>phys := ph\<rparr>)" and "\<forall>a. ph a < 4294967296"
  shows "pages_ok (m\<lparr>phys := ph\<rparr>)"
proof -
  have inv: "mem_inv m" and sm: "self_map m" using assms(1) by (simp_all add: pages_ok_def mem_inv_def)
  let ?m = "m\<lparr>phys := ph\<rparr>"
  have tr: "translate ?m va = translate m va" if "va < 0xFFC00000" for va
    using same_tables_translate [OF assms(2) sm, of va] that by simp
  have st: "vaddr_start (kernel_vaddr m) + 4096 * i < 0xFFC00000" if "i < bm_size (bitmap_vaddr (kernel_vaddr m))" for i
    using assms(1) that by (auto simp: pages_ok_def kvaddr_ok_def)
  have "sole ?m"
    by (rule sole_same [of m]) (use assms(1) same_tables_entries [OF assms(2) sm] in
      \<open>simp_all add: pages_ok_def pool_frame_keeps\<close>)
  moreover have "kvaddr_ok ?m" using assms(1) tr st by (simp add: pages_ok_def kvaddr_ok_def)
  moreover have "\<exists>f. translate ?m a = Some f \<and> pool_frame ?m f \<and> f \<notin> table_frames ?m" if "a \<in> held_pages ?m" for a
  proof -
    have a: "a \<in> held_pages m" using that by (simp add: held_pages_def)
    then have "a < 0xFFC00000" using st by (auto simp: held_pages_def)
    then show ?thesis
      using assms(1) a tr [of a] same_tables_frames [OF assms(2) sm] pool_frame_keeps [OF keeps_phys, of ph m]
      by (auto simp: pages_ok_def)
  qed
  ultimately show ?thesis
    using same_tables_inv [OF inv assms(2)] assms(3) by (simp add: pages_ok_def words_ok_def)
qed

lemma room_two: "can_get_page m \<Longrightarrow> 2 \<le> room PF_KERNEL m"
  by (simp add: can_get_page_def)

text \<open>One more page of the kernel: a fresh address on a fresh frame.\<close>

lemma fresh_page_runs:
  assumes "pages_ok m" and "can_get_page m"
  shows "\<exists>a f m'. fresh_page PF_KERNEL m = Some (a, m') \<and> pages_ok m' \<and> a \<noteq> 0 \<and> a mod 4096 = 0
    \<and> a \<notin> held_pages m \<and> held_pages m' = insert a (held_pages m)
    \<and> mkern m' = mkern m \<and> pool_lock (kernel_pool m') = pool_lock (kernel_pool m)
    \<and> vaddr_start (kernel_vaddr m') = vaddr_start (kernel_vaddr m)
    \<and> translate m' a = Some f \<and> (\<forall>l < 1024. phys m' (f + 4 * l) = 0)"
proof -
  let ?v = "kernel_vaddr m" and ?st = "vaddr_start (kernel_vaddr m)" and ?b = "bitmap_vaddr (kernel_vaddr m)"
  have inv: "mem_inv m" and kv: "kvaddr_ok m" and w: "words_ok m" and so: "sole m"
    using assms(1) by (simp_all add: pages_ok_def)
  obtain i where i: "i < 256" "first_run ?b 1 = Some i" using assms(2) by (auto simp: can_get_page_def)
  define a where "a = ?st + 4096 * i"
  obtain bm where v: "vaddr_get PF_KERNEL 1 m = Some (a, m\<lparr>kernel_vaddr := ?v\<lparr>bitmap_vaddr := bm\<rparr>\<rparr>)" "bm_wf bm"
      "bm_size bm = bm_size ?b" "\<forall>j < bm_size bm. bmbit bm j = (i \<le> j \<and> j < i + 1 \<or> bmbit ?b j)"
    using vaddr_get_kernel [OF kv i(2,1)] by (auto simp: a_def)
  define m1 where "m1 = m\<lparr>kernel_vaddr := ?v\<lparr>bitmap_vaddr := bm\<rparr>\<rparr>"
  have m1: "mem_inv m1" "room PF_KERNEL m1 = room PF_KERNEL m" "table_frames m1 = table_frames m" "mkern m1 = mkern m"
      "words_ok m1" "pool_lock (kernel_pool m1) = pool_lock (kernel_pool m)" "\<And>x. translate m1 x = translate m x"
      "pool_frame m1 = pool_frame m" "free_frames m1 = free_frames m"
    using inv w by (simp_all add: m1_def pool_frame_def fun_eq_iff)
  have run: "i + 1 < bm_size ?b" "\<not> bmbit ?b i" using i(2) by (auto simp: first_run_Some free_run_iff)
  have st: "?st mod 4096 = 0" "4194304 \<le> ?st" "?st + 4096 * bm_size ?b \<le> 0xFFC00000"
    using kv by (simp_all add: kvaddr_ok_def)
  have a: "a mod 4096 = 0" "4194304 \<le> a" "a + 4096 * 1 \<le> 0xFFC00000" "a < 0xFFC00000" "a \<noteq> 0"
    using st run(1) by (auto simp: a_def)
  have none: "translate m a = None" using kv run by (simp add: kvaddr_ok_def a_def)
  have r0: "0 < room PF_KERNEL m1" using room_two [OF assms(2)] m1(2) by simp
  obtain f m2 where p: "palloc PF_KERNEL m1 = Some (f, m2)" "mem_inv m2" "keeps m1 m2"
      "f \<in> free_in (pool_of PF_KERNEL m1)" "f \<in> free_frames m1" "free_frames m2 = free_frames m1 - {f}"
      "f mod 4096 = 0" "0 < f" "f < 4294967296" "room PF_KERNEL m2 = room PF_KERNEL m1 - 1"
      "\<forall>pf'. pf' \<noteq> PF_KERNEL \<longrightarrow> room pf' m2 = room pf' m1"
      "\<forall>va. translate m2 va = translate m1 va" "table_frames m2 = table_frames m1"
      "\<forall>i. pde_at m2 i = pde_at m1 i" "phys m2 = phys m1"
    using palloc_keeps [OF m1(1) r0] by (elim exE conjE) (rule that)
  have none2: "translate m2 a = None" using none p(12) m1(7) by simp
  have nf: "f \<notin> free_frames m2" using p(6) by simp
  have r2: "0 < room PF_KERNEL m2" using p(10) m1(2) room_two [OF assms(2)] by simp
  obtain m3 where s: "page_table_add a f m2 = Some m3" "mem_inv m3" "same_env m2 m3"
      "translate m3 a = Some (f + a mod 4096)"
      "\<forall>va2. 4194304 \<le> va2 \<longrightarrow> va2 < 0xFFC00000 \<longrightarrow> va2 div 4096 \<noteq> a div 4096 \<longrightarrow> translate m3 va2 = translate m2 va2"
      "table_frames m3 \<subseteq> table_frames m2 \<union> (free_frames m2 - free_frames m3)"
      "entry_set (a div 4194304) (a div 4096 mod 1024) f m2 m3"
    using page_table_add_step [OF p(2) a(2,4) none2 p(7) nf disjI2 [OF r2]] by (elim exE conjE) (rule that)
  have keeps3: "keeps m1 m3" by (rule keeps_trans [OF p(3) same_env_keeps [OF s(3)]])
  have pf: "pool_frame m3 = pool_frame m" using pool_frame_keeps [OF keeps3] m1(8) by simp
  have w3: "words_ok m3"
  proof -
    have "words_ok m2" using m1(5) p(15) by (simp add: words_ok_def)
    then show ?thesis using postD [OF page_table_add_words [OF _ p(9)] s(1)] by simp
  qed
  have tf: "f \<notin> table_frames m3" "f \<notin> table_frames m"
  proof -
    have "table_frames m1 \<inter> free_frames m1 = {}" using m1(1) by (simp add: mem_inv_def)
    then show "f \<notin> table_frames m" using p(5) m1(3) by blast
    then show "f \<notin> table_frames m3" using s(6) nf p(13) m1(3) by blast
  qed
  have so3: "sole m3"
  proof (rule entry_set_sole [OF p(2) s(7) _ _ p(7)])
    show "a div 4194304 < 1023" "a div 4096 mod 1024 < 1024" using a(4) by simp_all
    have "pte_at m2 k l = pte_at m k l" "pde_at m2 k = pde_at m k" for k l
      using p(14,15) p(3) by (simp_all add: pte_at_def pde_at_def m1_def keeps_def)
    moreover have "pool_frame m2 = pool_frame m" using pool_frame_keeps [OF p(3)] m1(8) by simp
    ultimately show "sole m2" by (intro sole_same [OF so]) simp_all
    fix k l assume "mapped_at m2 k l"
    then have "mapped_at m k l" "pte_at m2 k l = pte_at m k l"
      using \<open>\<And>k l. pte_at m2 k l = pte_at m k l\<close> \<open>\<And>k. pde_at m2 k = pde_at m k\<close> by (simp_all add: mapped_at_def)
    then have "frame (pte_at m2 k l) \<notin> free_frames m" using inv by (simp add: mem_inv_def mapped_at_def)
    then show "frame (pte_at m2 k l) \<noteq> f" using p(5) m1(9) by auto
  qed (use pf pool_frame_keeps [OF p(3)] m1(8) in simp)
  have k3: "kernel_vaddr m3 = ?v\<lparr>bitmap_vaddr := bm\<rparr>" "mkern m3 = mkern m"
      "pool_lock (pool_of PF_KERNEL m3) = pool_lock (pool_of PF_KERNEL m1)"
  proof -
    show "pool_lock (pool_of PF_KERNEL m3) = pool_lock (pool_of PF_KERNEL m1)"
      using keeps3 unfolding keeps_def by blast
  qed (use keeps3 m1(4) in \<open>simp_all add: keeps_def m1_def\<close>)
  have held3: "held_pages m3 = insert a (held_pages m)"
  proof -
    have "bmbit bm j = (j = i \<or> bmbit ?b j)" if "j < bm_size ?b" for j using v(3,4) that by auto
    then show ?thesis using run(1) v(3) by (auto simp: held_pages_def k3(1) a_def)
  qed
  have other: "translate m3 (?st + 4096 * j) = translate m (?st + 4096 * j)" if "j < bm_size ?b" "j \<noteq> i" for j
  proof -
    have "?st + 4096 * j < 0xFFC00000" "4194304 \<le> ?st + 4096 * j" using st that by simp_all
    moreover have "(?st + 4096 * j) div 4096 \<noteq> a div 4096"
      using that(2) unfolding a_def kvaddr_index [OF st(1)] by simp
    ultimately show ?thesis using s(5) p(12) m1(7) by simp
  qed
  have ok3: "pages_ok m3"
    unfolding pages_ok_def
  proof (intro conjI ballI)
    show "kvaddr_ok m3"
      using kv v(2,3,4) other st run unfolding kvaddr_ok_def k3(1) by (auto simp: not_le)
    fix x assume "x \<in> held_pages m3"
    then consider "x = a" | j where "j < bm_size ?b" "bmbit ?b j" "x = ?st + 4096 * j"
      unfolding held3 by (auto simp: held_pages_def)
    then show "\<exists>g. translate m3 x = Some g \<and> pool_frame m3 g \<and> g \<notin> table_frames m3"
    proof cases
      case 1
      have "pool_frame m f" using p(4) m1(8) by (auto simp: pool_frame_def free_in_def m1_def)
      with 1 show ?thesis using s(4) a(1) tf(1) pf by auto
    next
      case 2
      then have "x \<in> held_pages m" "j \<noteq> i" using run(2) by (auto simp: held_pages_def)
      then obtain g where g: "translate m x = Some g" "pool_frame m g" "g \<notin> table_frames m"
        using assms(1) by (auto simp: pages_ok_def)
      have "g \<notin> free_frames m"
      proof -
        have "x mod 4096 = 0" using 2(3) st(1) by simp
        then have "\<exists>k l. mapped_at m k l \<and> g = frame (pte_at m k l)"
          using g(1) 2(1,3) st(3) by (intro exI [of _ "x div 4194304"] exI [of _ "x div 4096 mod 1024"])
            (auto simp: translate_walk mapped_at_def split: if_splits)
        then show ?thesis using inv by (auto simp: mem_inv_def mapped_at_def)
      qed
      then have "g \<notin> table_frames m3" using g(3) s(6) p(6,13) m1(3,9) by blast
      then show ?thesis using g other [OF 2(1) \<open>j \<noteq> i\<close>] 2(3) pf by auto
    qed
  qed (rule s(2), rule w3, rule so3)
  have sm3: "self_map m3" using s(2) by (simp add: mem_inv_def)
  obtain ph where z: "zero_words a (1 * 1024) m3 = Some (m3\<lparr>phys := ph\<rparr>)" "same_tables m3 (m3\<lparr>phys := ph\<rparr>)"
      "\<forall>g \<in> set [f]. \<forall>l < 1024. ph (g + 4 * l) = 0"
    using zero_words_pages [OF sm3 a(1,3), of "[f]"] s(4) a(1) p(7) tf(1) by auto
  have wz: "\<forall>x. ph x < 4294967296"
    using postD [OF zero_words_words [OF w3] z(1)] by (simp add: words_ok_def)
  have "fresh_page PF_KERNEL m = Some (a, m3\<lparr>phys := ph\<rparr>)"
    using v(1) p(1,8) s(1) z(1) a(5) by (simp add: fresh_page_def malloc_page_def m1_def)
  moreover have "translate (m3\<lparr>phys := ph\<rparr>) a = Some f"
    using same_tables_translate [OF z(2) sm3, of a] a(1,4) s(4) by simp
  moreover have "a \<notin> held_pages m" using run(2) by (auto simp: held_pages_def a_def)
  ultimately show ?thesis
    using same_tables_pages_ok [OF ok3 z(2) wz] held3 a(1,5) k3 m1(6) z(3)
    by (intro exI [of _ a] exI [of _ f] exI [of _ "m3\<lparr>phys := ph\<rparr>"]) (simp add: held_pages_def)
qed

section \<open>Giving a page back\<close>

text \<open>Removing an entry leaves exactly the other mappings.\<close>

lemma pte_remove_entries:
  assumes "tables_ok m" and "va < 0xFFC00000" and "translate m va = Some f" and "i = va div 4194304"
    and "j = va div 4096 mod 1024" and "0 < i"
  shows "\<exists>m'. page_table_pte_remove va m = Some m' \<and> (\<forall>k < 1024. pde_at m' k = pde_at m k)
    \<and> (\<forall>k l. mapped_at m' k l \<longrightarrow> mapped_at m k l \<and> pte_at m' k l = pte_at m k l
         \<and> \<not> (frame (pde_at m k) = frame (pde_at m i) \<and> l = j))
    \<and> (\<exists>ph. m' = m\<lparr>phys := ph\<rparr>)"
proof -
  have i: "i < 1023" and j: "j < 1024" and va: "va < 4294967296"
    using assms(2,4,5) by simp_all
  have sm: "self_map m" using assms(1) by (simp add: tables_ok_def)
  have p: "present (pde_at m i)" "present (pte_at m i j)"
    using assms(3-5) by (simp_all add: translate_walk split: if_splits)
  let ?T = "frame (pde_at m i)"
  let ?m = "m\<lparr>phys := (phys m)(?T + 4 * j := 0)\<rparr>"
  have T: "?T \<noteq> cr3 m" using assms(1) p(1) i by (simp add: tables_ok_def)
  have cr: "cr3 m mod 4096 = 0" using sm by (simp add: self_map_def)
  have run: "page_table_pte_remove va m = Some ?m"
    using rd_pte [OF sm va] translate_pte [OF sm va] p assms(4,5)
    by (simp add: page_table_pte_remove_def wr_word_def PG_P_0_def)
  have pde: "pde_at ?m k = pde_at m k" if "k < 1024" for k
    by (rule pte_write(1) [OF cr frame_aligned T j that])
  have "mapped_at m k l \<and> pte_at ?m k l = pte_at m k l \<and> \<not> (frame (pde_at m k) = ?T \<and> l = j)"
    if "mapped_at ?m k l" for k l
  proof -
    have kl: "k < 1024" "l < 1024" "present (pte_at ?m k l)" using that by (simp_all add: mapped_at_def)
    have e: "pte_at ?m k l = (if frame (pde_at m k) = ?T \<and> l = j then 0 else pte_at m k l)"
      by (rule pte_write(2) [OF cr frame_aligned T j kl(1,2)])
    have "\<not> present 0" by (simp add: present_def)
    then have no: "\<not> (frame (pde_at m k) = ?T \<and> l = j)" using kl(3) e by auto
    then have "pte_at ?m k l = pte_at m k l" using e by auto
    then show ?thesis using no that pde [OF kl(1)] unfolding mapped_at_def by simp
  qed
  then show ?thesis using run pde by blast
qed

text \<open>
  In the address space of a process the page that holds its own page directory is out as well, so
  giving a page back is shown for one page that holds no table.
\<close>

definition frames_ok :: "mem \<Rightarrow> bool" where
  "frames_ok m \<longleftrightarrow> mem_inv m \<and> kvaddr_ok m \<and> words_ok m \<and> sole m"

definition plain_page :: "mem \<Rightarrow> nat \<Rightarrow> bool" where
  "plain_page m a \<longleftrightarrow> a \<in> held_pages m \<and> (\<exists>f. translate m a = Some f \<and> pool_frame m f \<and> f \<notin> table_frames m)"

text \<open>Page \<open>a\<close> is given back: it is not held and not mapped any more, and its frame is free.\<close>

definition page_freed :: "nat \<Rightarrow> mem \<Rightarrow> mem \<Rightarrow> bool" where
  "page_freed a m m' \<longleftrightarrow> a \<in> held_pages m \<and> held_pages m' = held_pages m - {a} \<and> translate m' a = None
     \<and> (\<exists>f. translate m a = Some f \<and> f \<notin> free_frames m \<and> free_frames m' = insert f (free_frames m))"

lemma pages_ok_plain: "pages_ok m = (frames_ok m \<and> (\<forall>a \<in> held_pages m. plain_page m a))"
  by (auto simp: pages_ok_def frames_ok_def plain_page_def)

lemma mfree_plain_page:
  assumes "frames_ok m" and "plain_page m a"
  shows "\<exists>m'. mfree_page PF_KERNEL a 1 m = Some m' \<and> frames_ok m' \<and> held_pages m' = held_pages m - {a}
    \<and> (\<forall>x. plain_page m x \<longrightarrow> x \<noteq> a \<longrightarrow> plain_page m' x) \<and> page_freed a m m'
    \<and> mkern m' = mkern m \<and> pool_lock (kernel_pool m') = pool_lock (kernel_pool m)
    \<and> vaddr_start (kernel_vaddr m') = vaddr_start (kernel_vaddr m)"
proof -
  let ?v = "kernel_vaddr m" and ?st = "vaddr_start (kernel_vaddr m)" and ?b = "bitmap_vaddr (kernel_vaddr m)"
  have inv: "mem_inv m" and kv: "kvaddr_ok m" and w: "words_ok m" and so: "sole m"
    using assms(1) by (simp_all add: frames_ok_def)
  have tok: "tables_ok m" and pok: "pools_ok m" and sm: "self_map m"
    using mem_inv_tables [OF inv] inv by (simp_all add: mem_inv_def)
  obtain i where i: "a = ?st + 4096 * i" "i < bm_size ?b" "bmbit ?b i" using assms(2) by (auto simp: plain_page_def held_pages_def)
  obtain f where f: "translate m a = Some f" "pool_frame m f" "f \<notin> table_frames m"
    using assms(2) by (auto simp: plain_page_def)
  then obtain k where k: "k < bm_size (pool_bitmap (kernel_pool m))" "f = phy_addr_start (kernel_pool m) + 4096 * k"
    by (auto simp: pool_frame_def)
  have st: "?st mod 4096 = 0" "4194304 \<le> ?st" "?st + 4096 * bm_size ?b \<le> 0xFFC00000"
    using kv by (simp_all add: kvaddr_ok_def)
  have a: "a mod 4096 = 0" "4194304 \<le> a" "a < 0xFFC00000" "a < 4294967296" using st i(1,2) by auto
  define ai where "ai = a div 4194304"
  define aj where "aj = a div 4096 mod 1024"
  have aij: "0 < ai" "ai < 1023" "aj < 1024" using a by (simp_all add: ai_def aj_def)
  have ent: "mapped_at m ai aj" "f = frame (pte_at m ai aj)"
    using f(1) a(1) aij by (simp_all add: translate_walk ai_def aj_def mapped_at_def split: if_splits)
  have v2p: "addr_v2p a m = Some f"
    using addr_v2p_mapped [OF sm a(4) f(1)] w by (simp add: words_ok_def)
  obtain bm where pf: "pfree f m = Some (upd_pool PF_KERNEL (\<lambda>p. p\<lparr>pool_bitmap := bm\<rparr>) m)"
      "pools_ok (upd_pool PF_KERNEL (\<lambda>p. p\<lparr>pool_bitmap := bm\<rparr>) m)"
      "free_frames (upd_pool PF_KERNEL (\<lambda>p. p\<lparr>pool_bitmap := bm\<rparr>) m) = insert f (free_frames m)"
      "bm_size bm = bm_size (pool_bitmap (kernel_pool m))"
    using pfree_kernel [OF pok k(2,1)] by (elim exE conjE) (rule that)
  define m1 where "m1 = upd_pool PF_KERNEL (\<lambda>p. p\<lparr>pool_bitmap := bm\<rparr>) m"
  have m1: "tables_ok m1" "\<And>x. translate m1 x = translate m x" "\<And>k. pde_at m1 k = pde_at m k"
      "\<And>k l. pte_at m1 k l = pte_at m k l" "table_frames m1 = table_frames m" "phys m1 = phys m"
    using tok unfolding m1_def tables_ok_def upd_pool_tables by simp_all
  have keeps1: "keeps m m1" using pf(4) unfolding keeps_def m1_def pool_of_upd by simp
  have map1: "mapped_at m1 k l = mapped_at m k l" for k l using m1(3,4) by (simp add: mapped_at_def)
  have tr1: "translate m1 a = Some f" using f(1) m1(2) by simp
  obtain m2 where r: "page_table_pte_remove a m1 = Some m2" "\<forall>k < 1024. pde_at m2 k = pde_at m1 k"
      "\<forall>k l. mapped_at m2 k l \<longrightarrow> mapped_at m1 k l \<and> pte_at m2 k l = pte_at m1 k l
         \<and> \<not> (frame (pde_at m1 k) = frame (pde_at m1 ai) \<and> l = aj)" "\<exists>ph. m2 = m1\<lparr>phys := ph\<rparr>"
    using pte_remove_entries [OF m1(1) a(3) tr1 ai_def aj_def aij(1)] by (elim exE conjE) (rule that, auto)
  obtain ph where ph: "page_table_pte_remove a m1 = Some (m1\<lparr>phys := ph\<rparr>)" "tables_ok (m1\<lparr>phys := ph\<rparr>)"
      "translate (m1\<lparr>phys := ph\<rparr>) a = None" "(\<forall>a. phys m1 a < 4294967296) \<longrightarrow> (\<forall>a. ph a < 4294967296)"
      "table_frames (m1\<lparr>phys := ph\<rparr>) = table_frames m1"
      "\<forall>va2. 4194304 \<le> va2 \<longrightarrow> va2 < 0xFFC00000 \<longrightarrow> va2 div 4096 \<noteq> a div 4096 \<longrightarrow>
         translate (m1\<lparr>phys := ph\<rparr>) va2 = translate m1 va2"
    using pte_remove_runs [OF m1(1) a(2,3) tr1] by (elim exE conjE) (rule that)
  have m2: "m2 = m1\<lparr>phys := ph\<rparr>" using r(1) ph(1) by simp
  obtain vb where vb: "bitmap_setEx ?b i 0 1 = Some vb" "bm_wf vb" "bm_size vb = bm_size ?b"
      "\<forall>j < bm_size ?b. bmbit vb j = (j \<noteq> i \<and> bmbit ?b j)"
  proof -
    have wf: "bm_wf ?b" using kv by (simp add: kvaddr_ok_def)
    show ?thesis
      using bitmap_set_runs [OF wf i(2), of 0] that by (auto simp: Option.bind_eq_Some_conv)
  qed
  define m' where "m' = m2\<lparr>kernel_vaddr := ?v\<lparr>bitmap_vaddr := vb\<rparr>\<rparr>"
  have keeps2: "keeps m m2" unfolding m2 using keeps_trans [OF keeps1 keeps_phys] .
  have kv2: "kernel_vaddr m2 = ?v" "mkern m2 = mkern m" using keeps2 by (simp_all add: keeps_def)
  have idx: "sub32 a ?st div PG_SIZE = i" using a(4) i(1) by (simp add: sub32_small PG_SIZE_def)
  have rng: "phy_addr_start (kernel_pool m) \<le> f" "f < phy_addr_start (user_pool m)"
    using k pok by (auto simp: pools_ok_def)
  have run: "mfree_page PF_KERNEL a 1 m = Some m'"
    using v2p rng pf(1) r(1) vb(1) kv2 idx
    by (simp add: mfree_page_def vaddr_remove_def m'_def m1_def)
  have pde': "pde_at m' k = pde_at m k" if "k < 1024" for k
    using r(2) m1(3) that by (simp add: m'_def pde_at_def)
  have ent': "mapped_at m k l \<and> pte_at m' k l = pte_at m k l \<and> \<not> (frame (pde_at m k) = frame (pde_at m ai) \<and> l = aj)"
    if "mapped_at m' k l" for k l
  proof -
    have "mapped_at m2 k l" using that by (simp add: m'_def mapped_at_def pde_at_def pte_at_def)
    moreover have "pte_at m' k l = pte_at m2 k l" by (simp add: m'_def pde_at_def pte_at_def)
    ultimately show ?thesis using r(3) m1(3,4) map1 by simp
  qed
  have tf': "table_frames m' = table_frames m" using ph(5) m1(5) m2 by (simp add: m'_def)
  have fr': "free_frames m' = insert f (free_frames m)"
    using pf(3) by (simp add: m'_def m2 m1_def free_frames_def)
  have pfr: "pool_frame m' = pool_frame m"
    using pool_frame_keeps [OF keeps2] by (simp add: m'_def pool_frame_def fun_eq_iff)
  have tok': "tables_ok m'"
    using tables_ok_same [OF tok, of m'] pde' keeps2 by (simp add: m'_def keeps_def)
  have inv': "mem_inv m'"
  proof -
    have "pools_ok m'" using pf(2) by (simp add: m'_def m2 m1_def pools_ok_def)
    moreover have "table_frames m' \<inter> free_frames m' = {}"
      using inv f(3) tf' fr' by (auto simp: mem_inv_def)
    moreover have "frame (pte_at m' k l) \<notin> free_frames m'" if "mapped_at m' k l" for k l
    proof -
      have "frame (pte_at m k l) \<noteq> f"
        using soleD [OF so, of k l ai aj] ent ent' [OF that] f(2) by auto
      moreover have "frame (pte_at m k l) \<notin> free_frames m"
        using inv ent' [OF that] by (simp add: mem_inv_def mapped_at_def)
      ultimately show ?thesis using ent' [OF that] fr' by simp
    qed
    ultimately show ?thesis using tok' by (simp add: mem_inv_def tables_ok_def mapped_at_def)
  qed
  have so': "sole m'"
    unfolding sole_def
  proof (intro allI impI)
    fix k l c d
    assume m: "mapped_at m' k l" "mapped_at m' c d" and e: "frame (pte_at m' k l) = frame (pte_at m' c d)"
      and p: "pool_frame m' (frame (pte_at m' k l))"
    have "k < 1023" "c < 1023" using m by (simp_all add: mapped_at_def)
    then show "frame (pde_at m' k) = frame (pde_at m' c) \<and> l = d"
      using soleD [OF so, of k l c d] ent' [OF m(1)] ent' [OF m(2)] e p pfr pde' [of k] pde' [of c] by simp
  qed
  have other: "translate m' (?st + 4096 * j) = (if j = i then None else translate m (?st + 4096 * j))"
    if "j < bm_size ?b" for j
  proof (cases "j = i")
    case True
    then show ?thesis using ph(3) i(1) by (simp add: m'_def m2)
  next
    case False
    have "?st + 4096 * j < 0xFFC00000" "4194304 \<le> ?st + 4096 * j" using st that by simp_all
    moreover have "(?st + 4096 * j) div 4096 \<noteq> a div 4096"
      using False unfolding i(1) kvaddr_index [OF st(1)] by simp
    ultimately show ?thesis using False ph(6) m1(2) by (simp add: m'_def m2)
  qed
  have held': "held_pages m' = held_pages m - {a}"
    using vb(3,4) i by (auto simp: held_pages_def m'_def)
  have "kvaddr_ok m'"
    using kv vb(2-4) other by (auto simp: kvaddr_ok_def m'_def split: if_splits)
  moreover have "words_ok m'" using w ph(4) m1(6) by (simp add: m'_def m2 words_ok_def)
  ultimately have "frames_ok m'" using inv' so' by (simp add: frames_ok_def)
  moreover have "plain_page m' x" if px: "plain_page m x" and ne: "x \<noteq> a" for x
  proof -
    have x: "x \<in> held_pages m" using px by (simp add: plain_page_def)
    then obtain j where j: "j < bm_size ?b" "x = ?st + 4096 * j" "j \<noteq> i"
      using i(1) ne by (auto simp: held_pages_def)
    moreover obtain g where "translate m x = Some g" "pool_frame m g" "g \<notin> table_frames m"
      using px by (auto simp: plain_page_def)
    ultimately have "\<exists>g. translate m' x = Some g \<and> pool_frame m' g \<and> g \<notin> table_frames m'"
      using other pfr tf' by auto
    then show ?thesis using x ne held' by (simp add: plain_page_def)
  qed
  moreover have "pool_lock (pool_of PF_KERNEL m2) = pool_lock (pool_of PF_KERNEL m)"
    using keeps2 unfolding keeps_def by blast
  moreover have "page_freed a m m'"
  proof -
    have "f \<notin> free_frames m" using inv ent by (simp add: mem_inv_def mapped_at_def)
    moreover have "translate m' a = None" using other [OF i(2)] i(1) by simp
    moreover have "a \<in> held_pages m" using assms(2) by (simp add: plain_page_def)
    ultimately show ?thesis using f(1) fr' held' by (simp add: page_freed_def)
  qed
  ultimately show ?thesis using run held' kv2(2) by (intro exI [of _ m']) (simp add: m'_def)
qed

lemma mfree_one_page:
  assumes "pages_ok m" and "a \<in> held_pages m"
  shows "\<exists>m'. mfree_page PF_KERNEL a 1 m = Some m' \<and> pages_ok m' \<and> held_pages m' = held_pages m - {a}
    \<and> page_freed a m m' \<and> mkern m' = mkern m \<and> pool_lock (kernel_pool m') = pool_lock (kernel_pool m)
    \<and> vaddr_start (kernel_vaddr m') = vaddr_start (kernel_vaddr m)"
proof -
  have ok: "frames_ok m" "plain_page m a" using assms by (simp_all add: pages_ok_plain)
  obtain m' where "mfree_page PF_KERNEL a 1 m = Some m'" "frames_ok m'" "held_pages m' = held_pages m - {a}"
      "\<forall>x. plain_page m x \<longrightarrow> x \<noteq> a \<longrightarrow> plain_page m' x" "page_freed a m m'"
      "mkern m' = mkern m" "pool_lock (kernel_pool m') = pool_lock (kernel_pool m)"
      "vaddr_start (kernel_vaddr m') = vaddr_start (kernel_vaddr m)"
    using mfree_plain_page [OF ok] by (elim exE conjE) (rule that)
  then show ?thesis using assms(1) by (intro exI [of _ m']) (simp add: pages_ok_plain)
qed

text \<open>Clearing words of a page that is out.\<close>

lemma zero_block_runs:
  assumes "pages_ok m" and "a \<in> held_pages m" and "k + n \<le> 1024"
  shows "\<exists>ph. zero_words (a + 4 * k) n m = Some (m\<lparr>phys := ph\<rparr>) \<and> pages_ok (m\<lparr>phys := ph\<rparr>)"
proof (cases "n = 0")
  case True
  then show ?thesis using assms(1) by (intro exI [of _ "phys m"]) simp
next
  case False
  then have k: "k < 1024" using assms(3) by simp
  have inv: "mem_inv m" and sm: "self_map m" and w: "words_ok m" and kv: "kvaddr_ok m"
    using assms(1) by (simp_all add: pages_ok_def mem_inv_def)
  obtain f where f: "translate m a = Some f" "pool_frame m f" "f \<notin> table_frames m"
    using assms by (auto simp: pages_ok_def)
  have a: "a mod 4096 = 0" "a < 0xFFC00000"
    using assms(2) kv by (auto simp: held_pages_def kvaddr_ok_def)
  have fa: "f mod 4096 = 0" using f(1) a(1) by (auto simp: translate_walk split: if_splits)
  have d: "(a + 4 * k) div 4096 = a div 4096" "(a + 4 * k) mod 4096 = 4 * k"
    using frame_offset [OF a(1) k] a(1) k by (simp_all add: frame_def mod_add_eq [symmetric])
  have d2: "(a + 4 * k) div 4194304 = a div 4194304"
    using arg_cong [OF d(1), of "\<lambda>x. x div 1024"] by (simp add: div_mult2_eq [symmetric])
  have lt: "a + 4 * k < 4294967296" using a k by simp
  have pd: "a div 4194304 < 1023" using a(2) by simp
  have "translate m (a + 4 * k) = Some (f + 4 * k)"
    using f(1) a(1) by (auto simp: translate_walk d d2 split: if_splits)
  moreover have "present (pde_at m (a div 4194304))" using f(1) by (simp add: translate_walk split: if_splits)
  then have nt: "f \<noteq> cr3 m" "f \<noteq> frame (pde_at m ((a + 4 * k) div 4194304))"
    using f(3) pd by (auto simp: table_frames_def d2)
  moreover have cr: "cr3 m mod 4096 = 0" using sm by (simp add: self_map_def)
  ultimately have z: "zero_words (a + 4 * k) n m = Some (m\<lparr>phys := cleared f k n (phys m)\<rparr>)"
    using zero_words_page [OF cr lt _ fa assms(3) d(2)] by simp
  have st: "same_tables m (m\<lparr>phys := cleared f k n (phys m)\<rparr>)"
    using f(3) by (auto simp: same_tables_def intro: cleared_other [OF fa assms(3)])
  have "\<forall>x. cleared f k n (phys m) x < 4294967296" using w by (simp add: words_ok_def cleared_def)
  then show ?thesis using z same_tables_pages_ok [OF assms(1) st] by blast
qed

text \<open>The locks of the pools do not matter to the pages.\<close>

lemma pages_set_lock [simp]:
  "pages_ok (upd_pool pf (\<lambda>p. p\<lparr>pool_lock := l\<rparr>) m) = pages_ok m"
  "can_get_page (upd_pool pf (\<lambda>p. p\<lparr>pool_lock := l\<rparr>) m) = can_get_page m"
  "held_pages (upd_pool pf (\<lambda>p. p\<lparr>pool_lock := l\<rparr>) m) = held_pages m"
proof -
  let ?m = "upd_pool pf (\<lambda>p. p\<lparr>pool_lock := l\<rparr>) m"
  show "held_pages ?m = held_pages m" "can_get_page ?m = can_get_page m"
    by (simp_all add: held_pages_def can_get_page_def)
  have c: "cr3 ?m = cr3 m" by (cases pf) simp_all
  have p: "pde_at ?m i = pde_at m i" for i by (simp add: pde_at_def c)
  have q: "pte_at ?m i j = pte_at m i j" for i j by (simp add: pte_at_def p)
  have "pool_frame ?m = pool_frame m" by (cases pf) (simp_all add: pool_frame_def fun_eq_iff)
  note e = p q this c
  have "table_frames ?m = table_frames m" "words_ok ?m = words_ok m" "translate ?m va = translate m va" for va
    by (simp_all add: table_frames_def e words_ok_def translate_walk)
  note e = e this
  have "sole ?m = sole m" by (simp add: sole_def mapped_at_def e)
  moreover have "kvaddr_ok ?m = kvaddr_ok m" by (simp add: kvaddr_ok_def e)
  ultimately show "pages_ok ?m = pages_ok m" by (simp add: pages_ok_def held_pages_def e)
qed

lemma held_page_range:
  assumes "pages_ok m" and "a \<in> held_pages m"
  shows "a mod 4096 = 0" and "a < 0xFFC00000" and "vaddr_start (kernel_vaddr m) \<le> a"
  using assms by (auto simp: held_pages_def pages_ok_def kvaddr_ok_def)

text \<open>The page allocator is a source of pages.\<close>

interpretation pages: page_source "fresh_page PF_KERNEL" "\<lambda>a. mfree_page PF_KERNEL a 1" pages_ok can_get_page held_pages
proof unfold_locales
  fix m assume "pages_ok m" "can_get_page m"
  from fresh_page_runs [OF this] show "\<exists>a m'. fresh_page PF_KERNEL m = Some (a, m') \<and> pages_ok m' \<and> a \<noteq> 0 \<and> a mod 4096 = 0
      \<and> a \<notin> held_pages m \<and> held_pages m' = insert a (held_pages m)"
    by (elim exE conjE) (intro exI conjI)
next
  fix m a assume "pages_ok m" "a \<in> held_pages m"
  from mfree_one_page [OF this]
  show "\<exists>m'. mfree_page PF_KERNEL a 1 m = Some m' \<and> pages_ok m' \<and> held_pages m' = held_pages m - {a}"
    by blast
qed

end
