(* ===== verification/Heap.thy ===== *)
theory Heap
  imports PageAlloc
begin

text \<open>
  The block heap of \<open>kernel/memory.c\<close>: \<open>sys_malloc\<close> and \<open>sys_free\<close> cut pages (arenas) into blocks
  of seven sizes, 16 to 1024 bytes, and serve larger requests with whole pages.

  The header of an arena and the lists of free blocks are kept apart from the words of the
  memory: \<open>arenas\<close> gives the header at the start of a page, by address space and page address,
  and a free list is the sequence of its blocks (theory \<open>DList\<close> has the pointers). An access to
  a header that does not exist has no result, nor has putting a block into a list it is in.

  \<open>heap_inv\<close> says that every free block belongs to an arena of its size and that an arena counts
  its free blocks. The theorems show that blocks in use never overlap, that \<open>sys_malloc\<close> adds one
  and \<open>sys_free\<close> takes one away.
\<close>

section \<open>State and operations\<close>

record mem_block_desc =
  block_size :: nat
  blocks_per_arena :: nat
  free_list :: "nat list"

text \<open>The descriptor of an arena is named by the owner of its array (0 is the kernel) and its index.\<close>

record arena =
  a_desc :: "(nat \<times> nat) option"
  a_cnt :: nat
  a_large :: bool

record heap =
  hmem :: mem
  arenas :: "nat \<times> nat \<Rightarrow> arena option"
  descs :: "nat \<Rightarrow> mem_block_desc list"

definition DESC_CNT :: nat where "DESC_CNT = 7"

text \<open>\<open>sizeof(arena)\<close>\<close>

definition ARENA_SIZE :: nat where "ARENA_SIZE = 12"

fun desc_loop :: "nat \<Rightarrow> nat \<Rightarrow> mem_block_desc list" where
  "desc_loop 0 sz = []"
| "desc_loop (Suc n) sz =
     \<lparr>block_size = sz, blocks_per_arena = (PG_SIZE - ARENA_SIZE) div sz, free_list = []\<rparr> # desc_loop n (u16 (sz * 2))"

definition block_desk_init :: "mem_block_desc list" where
  "block_desk_init = desc_loop DESC_CNT 16"

definition arena2block :: "nat \<Rightarrow> nat \<Rightarrow> mem_block_desc \<Rightarrow> nat" where
  "arena2block a idx d = add32 (add32 a ARENA_SIZE) (mul32 idx (block_size d))"

definition block2arena :: "nat \<Rightarrow> nat" where
  "block2arena b = b AND 0xfffff000"

text \<open>The header at a page: user pages belong to the running process, kernel pages to all.\<close>

definition arena_key :: "heap \<Rightarrow> nat \<Rightarrow> nat \<times> nat" where
  "arena_key h a = (if a < 0xC0000000 then running (mkern (hmem h)) else 0, a)"

text \<open>The pool and the descriptors a thread uses.\<close>

definition heap_of :: "heap \<Rightarrow> (pool_flags \<times> nat) option" where
  "heap_of h = do {
     let cur = get_running_thread_pcb (mkern (hmem h));
     t \<leftarrow> tasks (mkern (hmem h)) cur;
     Some (if pgdir t = 0 then (PF_KERNEL, 0) else (PF_USER, cur))
   }"

definition upd_desc :: "nat \<Rightarrow> nat \<Rightarrow> mem_block_desc \<Rightarrow> heap \<Rightarrow> heap" where
  "upd_desc owner i d h = h\<lparr>descs := (descs h)(owner := (descs h owner)[i := d])\<rparr>"

fun add_blocks :: "nat \<Rightarrow> nat list \<Rightarrow> mem_block_desc \<Rightarrow> mem_block_desc option" where
  "add_blocks a [] d = Some d"
| "add_blocks a (k # ks) d = do {
     let b = arena2block a k d;
     _ \<leftarrow> ensure (b \<notin> set (free_list d));
     add_blocks a ks (d\<lparr>free_list := free_list d @ [b]\<rparr>)
   }"

text \<open>A new arena for descriptor \<open>i\<close>; \<open>False\<close> when there is no page.\<close>

definition new_arena :: "pool_flags \<Rightarrow> nat \<Rightarrow> nat \<Rightarrow> heap \<Rightarrow> (bool \<times> heap) option" where
  "new_arena pf owner i h = do {
     d \<leftarrow> rd_at (descs h owner) i;
     (a, m) \<leftarrow> fresh_page pf (hmem h);
     let h = h\<lparr>hmem := m\<rparr>;
     if a = 0 then Some (False, h)
     else do {
       let ar = \<lparr>a_desc = Some (owner, i), a_cnt = blocks_per_arena d, a_large = False\<rparr>;
       d \<leftarrow> add_blocks a [0..<blocks_per_arena d] d;
       Some (True, upd_desc owner i d (h\<lparr>arenas := (arenas h)(arena_key h a := Some ar)\<rparr>))
     }
   }"

definition take_block :: "nat \<Rightarrow> nat \<Rightarrow> heap \<Rightarrow> (nat \<times> heap) option" where
  "take_block owner i h = do {
     d \<leftarrow> rd_at (descs h owner) i;
     (case free_list d of
        [] \<Rightarrow> None
      | b # rest \<Rightarrow> do {
          let h = upd_desc owner i (d\<lparr>free_list := rest\<rparr>) h;
          m \<leftarrow> zero_words b (block_size d div 4) (hmem h);
          let h = h\<lparr>hmem := m\<rparr>;
          let key = arena_key h (block2arena b);
          ar \<leftarrow> arenas h key;
          Some (b, h\<lparr>arenas := (arenas h)(key := Some (ar\<lparr>a_cnt := sub32 (a_cnt ar) 1\<rparr>))\<rparr>)
        })
   }"

text \<open>Requests for more than 1024 bytes.\<close>

definition malloc_large :: "pool_flags \<Rightarrow> nat \<Rightarrow> heap \<Rightarrow> (nat \<times> heap) option" where
  "malloc_large pf sz h = do {
     let page_cnt = DIV_ROUND_UP (add32 sz ARENA_SIZE) PG_SIZE;
     (a, m) \<leftarrow> malloc_page pf page_cnt (hmem h);
     let h = h\<lparr>hmem := m\<rparr>;
     if a \<noteq> 0 then do {
       m \<leftarrow> zero_words a (page_cnt * 1024) m;
       let h = h\<lparr>hmem := m\<rparr>;
       Some (add32 a ARENA_SIZE, h\<lparr>arenas := (arenas h)(arena_key h a :=
         Some \<lparr>a_desc = None, a_cnt = page_cnt, a_large = True\<rparr>)\<rparr>)
     } else Some (0, h)
   }"

definition malloc_small :: "pool_flags \<Rightarrow> nat \<Rightarrow> nat \<Rightarrow> heap \<Rightarrow> (nat \<times> heap) option" where
  "malloc_small pf owner sz h = do {
     let i = length (takeWhile (\<lambda>d. block_size d < sz) (descs h owner));
     d \<leftarrow> rd_at (descs h owner) i;
     (got, h) \<leftarrow> (if free_list d = [] then new_arena pf owner i h else Some (True, h));
     if got then take_block owner i h else Some (0, h)
   }"

definition sys_malloc :: "nat \<Rightarrow> heap \<Rightarrow> (nat \<times> heap) option" where
  "sys_malloc sz h = do {
     let sz = (if sz = 0 then 1 else sz);
     (pf, owner) \<leftarrow> heap_of h;
     if pool_size (pool_of pf (hmem h)) < sz then Some (0, h)
     else do {
       m \<leftarrow> acquire_pool pf (hmem h);
       let h = h\<lparr>hmem := m\<rparr>;
       (p, h) \<leftarrow> (if 1024 < sz then malloc_large pf sz h else malloc_small pf owner sz h);
       m \<leftarrow> release_pool pf (hmem h);
       Some (p, h\<lparr>hmem := m\<rparr>)
     }
   }"

text \<open>\<open>list_remove\<close> of every block of an arena whose blocks are all free.\<close>

fun remove_blocks :: "nat \<Rightarrow> nat list \<Rightarrow> mem_block_desc \<Rightarrow> mem_block_desc option" where
  "remove_blocks a [] d = Some d"
| "remove_blocks a (k # ks) d = do {
     let b = arena2block a k d;
     _ \<leftarrow> ensure (b \<in> set (free_list d));
     remove_blocks a ks (d\<lparr>free_list := remove1 b (free_list d)\<rparr>)
   }"

definition free_small :: "pool_flags \<Rightarrow> nat \<Rightarrow> nat \<Rightarrow> arena \<Rightarrow> heap \<Rightarrow> heap option" where
  "free_small pf b a ar h = do {
     (owner, i) \<leftarrow> a_desc ar;
     d \<leftarrow> rd_at (descs h owner) i;
     _ \<leftarrow> ensure (b \<notin> set (free_list d));
     let d = d\<lparr>free_list := free_list d @ [b]\<rparr>;
     let c = add32 (a_cnt ar) 1;
     if c = blocks_per_arena d then do {
       d \<leftarrow> remove_blocks a [0..<c] d;
       m \<leftarrow> mfree_page pf a 1 (hmem h);
       Some (upd_desc owner i d (h\<lparr>hmem := m, arenas := (arenas h)(arena_key h a := None)\<rparr>))
     } else Some (upd_desc owner i d (h\<lparr>arenas := (arenas h)(arena_key h a := Some (ar\<lparr>a_cnt := c\<rparr>))\<rparr>))
   }"

definition sys_free :: "nat \<Rightarrow> heap \<Rightarrow> heap option" where
  "sys_free ptr h = do {
     _ \<leftarrow> ensure (ptr \<noteq> 0);
     (pf, owner) \<leftarrow> heap_of h;
     m \<leftarrow> acquire_pool pf (hmem h);
     let h = h\<lparr>hmem := m\<rparr>;
     let a = block2arena ptr;
     ar \<leftarrow> arenas h (arena_key h a);
     h \<leftarrow> (if a_desc ar = None \<and> a_large ar then do {
             m \<leftarrow> mfree_page pf a (a_cnt ar) (hmem h);
             Some (h\<lparr>hmem := m, arenas := (arenas h)(arena_key h a := None)\<rparr>)
           } else free_small pf ptr a ar h);
     m \<leftarrow> release_pool pf (hmem h);
     Some (h\<lparr>hmem := m\<rparr>)
   }"

section \<open>Blocks and arenas\<close>

definition block_len :: "nat \<Rightarrow> nat" where "block_len i = 16 * 2 ^ i"

definition blocks_in :: "nat \<Rightarrow> nat" where "blocks_in i = 4084 div block_len i"

definition blocks :: "nat \<Rightarrow> nat \<Rightarrow> nat set" where
  "blocks a i = (\<lambda>k. a + 12 + k * block_len i) ` {..<blocks_in i}"

lemma block_len_pos [simp]: "0 < block_len i" "block_len i \<noteq> 0" by (simp_all add: block_len_def)

lemma block_len_inj [simp]: "block_len i = block_len j \<longleftrightarrow> i = j" by (simp add: block_len_def)

lemma block_len_le: "i < 7 \<Longrightarrow> block_len i \<le> 1024"
  using power_increasing [of i 6 "2::nat"] by (simp add: block_len_def)

lemma blocks_in_pos: "i < 7 \<Longrightarrow> 0 < blocks_in i"
  using block_len_le [of i] by (simp add: blocks_in_def div_greater_zero_iff)

lemma card_blocks [simp]: "card (blocks a i) = blocks_in i"
  unfolding blocks_def by (subst card_image) (auto simp: inj_on_def)

lemma finite_blocks [simp]: "finite (blocks a i)" by (simp add: blocks_def)

lemma block_end: "k < blocks_in i \<Longrightarrow> k * block_len i + block_len i \<le> 4084"
proof -
  assume "k < blocks_in i"
  then have "Suc k * block_len i \<le> blocks_in i * block_len i" by (intro mult_le_mono1) simp
  also have "\<dots> \<le> 4084" by (simp add: blocks_in_def)
  finally show ?thesis by simp
qed

lemma blocks_range: "b \<in> blocks a i \<Longrightarrow> a + 12 \<le> b \<and> b + block_len i \<le> a + 4096"
  using block_end [of _ i] by (auto simp: blocks_def)

lemma blocks_frame: "a mod 4096 = 0 \<Longrightarrow> b \<in> blocks a i \<Longrightarrow> frame b = a"
proof -
  assume a: "a mod 4096 = 0" and b: "b \<in> blocks a i"
  then have "a \<le> b" "b < a + 4096" using blocks_range [OF b] block_len_pos(1) [of i] by linarith+
  moreover obtain q where "a = 4096 * q" using a by (auto elim!: dvdE [OF mod_0_imp_dvd])
  moreover define d where "d = b - a"
  ultimately have "b = d + 4096 * q" "a = 4096 * q" "d < 4096" by simp_all
  then show ?thesis by (simp add: frame_def)
qed

lemma blocks_unique:
  "a mod 4096 = 0 \<Longrightarrow> a' mod 4096 = 0 \<Longrightarrow> b \<in> blocks a i \<Longrightarrow> b \<in> blocks a' i' \<Longrightarrow> a = a'"
  using blocks_frame by metis

section \<open>The bookkeeping of the arenas\<close>

text \<open>
  \<open>A\<close> gives the headers of the kernel's arenas, \<open>F\<close> its free lists and \<open>H\<close> the pages it holds.
\<close>

definition small :: "arena \<Rightarrow> nat \<Rightarrow> bool" where
  "small ar i \<longleftrightarrow> \<not> a_large ar \<and> a_desc ar = Some (0, i)"

definition npages :: "arena \<Rightarrow> nat" where
  "npages ar = (if a_large ar then a_cnt ar else 1)"

definition arenas_ok :: "(nat \<Rightarrow> arena option) \<Rightarrow> (nat \<Rightarrow> nat list) \<Rightarrow> nat set \<Rightarrow> bool" where
  "arenas_ok A F H \<longleftrightarrow> (\<forall>a \<in> H. a mod 4096 = 0)
     \<and> (\<forall>i < 7. distinct (F i) \<and> (\<forall>b \<in> set (F i). \<exists>a ar. A a = Some ar \<and> small ar i \<and> b \<in> blocks a i))
     \<and> (\<forall>a ar. A a = Some ar \<longrightarrow> 0 < npages ar \<and> (\<forall>k < npages ar. a + 4096 * k \<in> H)
          \<and> (if a_large ar then a_desc ar = None
             else \<exists>i < 7. small ar i \<and> a_cnt ar = card (set (F i) \<inter> blocks a i)))
     \<and> (\<forall>a ar a' ar' k k'. A a = Some ar \<longrightarrow> A a' = Some ar' \<longrightarrow> k < npages ar \<longrightarrow> k' < npages ar' \<longrightarrow>
          a + 4096 * k = a' + 4096 * k' \<longrightarrow> a = a')"

definition piece :: "(nat \<Rightarrow> nat list) \<Rightarrow> nat \<Rightarrow> arena option \<Rightarrow> (nat \<times> nat) set" where
  "piece F a r = (case r of None \<Rightarrow> {}
     | Some ar \<Rightarrow> if a_large ar then {(a + 12, 4096 * a_cnt ar - 12)}
         else {(b, block_len i) |b i. small ar i \<and> b \<in> blocks a i \<and> b \<notin> set (F i)})"

definition used :: "(nat \<Rightarrow> arena option) \<Rightarrow> (nat \<Rightarrow> nat list) \<Rightarrow> (nat \<times> nat) set" where
  "used A F = (\<Union>a. piece F a (A a))"

lemma in_piece:
  "(b, n) \<in> piece F a r \<longleftrightarrow> (\<exists>ar. r = Some ar \<and> (a_large ar \<and> b = a + 12 \<and> n = 4096 * a_cnt ar - 12
     \<or> (\<exists>i. small ar i \<and> n = block_len i \<and> b \<in> blocks a i \<and> b \<notin> set (F i))))"
  by (cases r) (auto simp: piece_def small_def)

lemma piece_cong:
  assumes "\<And>ar i b. r = Some ar \<Longrightarrow> small ar i \<Longrightarrow> b \<in> blocks a i \<Longrightarrow> (b \<in> set (F' i)) = (b \<in> set (F i))"
  shows "piece F' a r = piece F a r"
proof (intro set_eqI)
  fix x :: "nat \<times> nat"
  show "x \<in> piece F' a r \<longleftrightarrow> x \<in> piece F a r"
    using assms by (cases x) (simp add: in_piece, blast)
qed

lemma used_split: "used A F = piece F a (A a) \<union> (\<Union>x \<in> - {a}. piece F x (A x))"
  by (auto simp: used_def)

lemma small_fun: "small ar i \<Longrightarrow> small ar j \<Longrightarrow> i = j" by (simp add: small_def)

lemma arenas_okD:
  assumes "arenas_ok A F H"
  shows "a \<in> H \<Longrightarrow> a mod 4096 = 0"
    and "i < 7 \<Longrightarrow> distinct (F i)"
    and "i < 7 \<Longrightarrow> b \<in> set (F i) \<Longrightarrow> \<exists>a ar. A a = Some ar \<and> small ar i \<and> b \<in> blocks a i"
    and "A a = Some ar \<Longrightarrow> 0 < npages ar"
    and "A a = Some ar \<Longrightarrow> k < npages ar \<Longrightarrow> a + 4096 * k \<in> H"
    and "A a = Some ar \<Longrightarrow> a_large ar \<Longrightarrow> a_desc ar = None"
    and "A a = Some ar \<Longrightarrow> \<not> a_large ar \<Longrightarrow> \<exists>i < 7. small ar i \<and> a_cnt ar = card (set (F i) \<inter> blocks a i)"
    and "A a = Some ar \<Longrightarrow> A a' = Some ar' \<Longrightarrow> k < npages ar \<Longrightarrow> k' < npages ar' \<Longrightarrow>
      a + 4096 * k = a' + 4096 * k' \<Longrightarrow> a = a'"
proof -
  note w = assms [unfolded arenas_ok_def]
  show "a \<in> H \<Longrightarrow> a mod 4096 = 0" using w by blast
  show "i < 7 \<Longrightarrow> distinct (F i)"
    "i < 7 \<Longrightarrow> b \<in> set (F i) \<Longrightarrow> \<exists>a ar. A a = Some ar \<and> small ar i \<and> b \<in> blocks a i"
    using w by blast+
  have c: "0 < npages ar \<and> (\<forall>k < npages ar. a + 4096 * k \<in> H)
          \<and> (if a_large ar then a_desc ar = None
             else \<exists>i < 7. small ar i \<and> a_cnt ar = card (set (F i) \<inter> blocks a i))"
    if "A a = Some ar" for a ar using w that by blast
  show "A a = Some ar \<Longrightarrow> 0 < npages ar" "A a = Some ar \<Longrightarrow> k < npages ar \<Longrightarrow> a + 4096 * k \<in> H"
    using c by blast+
  show "A a = Some ar \<Longrightarrow> a_large ar \<Longrightarrow> a_desc ar = None" using c [of a ar] by simp
  show "A a = Some ar \<Longrightarrow> \<not> a_large ar \<Longrightarrow> \<exists>i < 7. small ar i \<and> a_cnt ar = card (set (F i) \<inter> blocks a i)"
    using c [of a ar] by simp
  show "A a = Some ar \<Longrightarrow> A a' = Some ar' \<Longrightarrow> k < npages ar \<Longrightarrow> k' < npages ar' \<Longrightarrow>
      a + 4096 * k = a' + 4096 * k' \<Longrightarrow> a = a'"
    using w by blast
qed

text \<open>An arena starts at a page that is out.\<close>

lemma arena_place:
  assumes "arenas_ok A F H" and "A a = Some ar"
  shows "a \<in> H" and "a mod 4096 = 0"
    and "small ar i \<Longrightarrow> i < 7 \<and> a_cnt ar = card (set (F i) \<inter> blocks a i)"
proof -
  show "a \<in> H" using arenas_okD(5) [OF assms, of 0] arenas_okD(4) [OF assms] by simp
  then show "a mod 4096 = 0" by (rule arenas_okD(1) [OF assms(1)])
  show "small ar i \<Longrightarrow> i < 7 \<and> a_cnt ar = card (set (F i) \<inter> blocks a i)"
    using arenas_okD(7) [OF assms] small_fun by (metis small_def)
qed

text \<open>Two pieces of memory in use do not overlap.\<close>

lemma block_apart:
  assumes "b \<in> blocks a i" and "c \<in> blocks a i" and "b \<noteq> c"
  shows "b + block_len i \<le> c \<or> c + block_len i \<le> b"
proof -
  obtain k l where kl: "b = a + 12 + k * block_len i" "c = a + 12 + l * block_len i"
    using assms(1,2) by (auto simp: blocks_def)
  then have "k \<noteq> l" using assms(3) by auto
  then consider "Suc k \<le> l" | "Suc l \<le> k" by linarith
  then show ?thesis
  proof cases
    case 1
    then have "Suc k * block_len i \<le> l * block_len i" by (rule mult_le_mono1)
    then show ?thesis using kl by simp
  next
    case 2
    then have "Suc l * block_len i \<le> k * block_len i" by (rule mult_le_mono1)
    then show ?thesis using kl by simp
  qed
qed

lemma used_cases:
  assumes "(b, n) \<in> used A F"
  obtains (big) a ar where "A a = Some ar" "a_large ar" "b = a + 12" "n = 4096 * a_cnt ar - 12"
  | (block) a ar i where "A a = Some ar" "small ar i" "b \<in> blocks a i" "b \<notin> set (F i)" "n = block_len i"
proof -
  obtain a where "(b, n) \<in> piece F a (A a)" using assms by (auto simp: used_def)
  then show thesis using big block by (auto simp: piece_def split: option.splits if_splits)
qed

lemma used_arena:
  assumes "arenas_ok A F H" and "(b, n) \<in> used A F" and "b \<le> x" and "x < b + n"
  obtains a ar where "A a = Some ar" "a \<le> x" "x < a + 4096 * npages ar"
    "a_large ar \<and> b = a + 12 \<and> n = 4096 * a_cnt ar - 12
      \<or> (\<exists>i. small ar i \<and> n = block_len i \<and> b \<in> blocks a i)"
proof -
  obtain a ar where a: "A a = Some ar" "a_large ar \<and> b = a + 12 \<and> n = 4096 * a_cnt ar - 12
      \<or> (\<exists>i. small ar i \<and> n = block_len i \<and> b \<in> blocks a i)"
    by (cases rule: used_cases [OF assms(2)]) blast+
  have "a + 12 \<le> b \<and> b + n \<le> a + 4096 * npages ar" using a(2)
  proof (elim disjE exE conjE)
    assume "a_large ar" "b = a + 12" "n = 4096 * a_cnt ar - 12"
    then show ?thesis using arenas_okD(4) [OF assms(1) a(1)] by (simp add: npages_def)
  next
    fix i assume "small ar i" "n = block_len i" "b \<in> blocks a i"
    then show ?thesis using blocks_range [of b a i] by (simp add: npages_def small_def)
  qed
  then show ?thesis using that [OF a(1) _ _ a(2)] assms(3,4) by simp
qed

lemma same_arena:
  assumes "arenas_ok A F H" and "A a = Some ar" and "A c = Some cr"
    and "a \<le> x" and "x < a + 4096 * npages ar" and "c \<le> x" and "x < c + 4096 * npages cr"
  shows "a = c"
proof -
  have m: "a mod 4096 = 0" "c mod 4096 = 0" using arena_place(2) [OF assms(1)] assms(2,3) by blast+
  then obtain p q where pq: "a = 4096 * p" "c = 4096 * q" by (auto elim!: dvdE [OF mod_0_imp_dvd])
  let ?k = "x div 4096 - p" and ?l = "x div 4096 - q"
  have "p \<le> x div 4096" "q \<le> x div 4096" using assms(4,6) pq by (simp_all add: less_eq_div_iff_mult_less_eq mult.commute)
  moreover have "x div 4096 < p + npages ar" "x div 4096 < q + npages cr"
    using assms(5,7) pq by (simp_all add: div_less_iff_less_mult mult.commute distrib_left)
  ultimately have "?k < npages ar" "?l < npages cr" "a + 4096 * ?k = c + 4096 * ?l"
    using pq by (simp_all add: distrib_left [symmetric])
  then show ?thesis by (rule arenas_okD(8) [OF assms(1-3)])
qed

lemma used_disjoint:
  assumes "arenas_ok A F H" and "(b, n) \<in> used A F" and "(c, m) \<in> used A F" and "(b, n) \<noteq> (c, m)"
  shows "{b..<b + n} \<inter> {c..<c + m} = {}"
proof (rule ccontr)
  assume "{b..<b + n} \<inter> {c..<c + m} \<noteq> {}"
  then obtain x where "x \<in> {b..<b + n}" "x \<in> {c..<c + m}" by blast
  then have x: "b \<le> x" "x < b + n" "c \<le> x" "x < c + m" by simp_all
  obtain a ar where a: "A a = Some ar" "a \<le> x" "x < a + 4096 * npages ar"
      "a_large ar \<and> b = a + 12 \<and> n = 4096 * a_cnt ar - 12 \<or> (\<exists>i. small ar i \<and> n = block_len i \<and> b \<in> blocks a i)"
    by (rule used_arena [OF assms(1,2) x(1,2)])
  obtain d dr where d: "A d = Some dr" "d \<le> x" "x < d + 4096 * npages dr"
      "a_large dr \<and> c = d + 12 \<and> m = 4096 * a_cnt dr - 12 \<or> (\<exists>i. small dr i \<and> m = block_len i \<and> c \<in> blocks d i)"
    by (rule used_arena [OF assms(1,3) x(3,4)])
  have eq: "a = d" by (rule same_arena [OF assms(1) a(1) d(1) a(2,3) d(2,3)])
  then have "ar = dr" using a(1) d(1) by simp
  note d = d(4) [folded eq \<open>ar = dr\<close>]
  from a(4) show False
  proof (elim disjE exE conjE)
    assume "a_large ar" "b = a + 12" "n = 4096 * a_cnt ar - 12"
    moreover from this have "c = a + 12" "m = 4096 * a_cnt ar - 12" using d by (simp_all add: small_def)
    ultimately show False using assms(4) by simp
  next
    fix i assume i: "small ar i" "n = block_len i" "b \<in> blocks a i"
    then have "m = block_len i" "c \<in> blocks a i" using d by (auto simp: small_def)
    moreover from this have "b \<noteq> c" using i assms(4) by simp
    ultimately have "b + n \<le> c \<or> c + m \<le> b" using block_apart [OF i(3), of c] i(2) by simp
    then show False using x by (elim disjE) linarith+
  qed
qed

section \<open>Steps of the bookkeeping\<close>

lemma piece_frame: "a mod 4096 = 0 \<Longrightarrow> (b, n) \<in> piece F a r \<Longrightarrow> frame b = a"
  using blocks_frame [of a b] by (auto simp: in_piece frame_def elim!: dvdE [OF mod_0_imp_dvd])

text \<open>The address of used memory tells its arena.\<close>

lemma in_used:
  assumes "arenas_ok A F H"
  shows "(b, n) \<in> used A F \<longleftrightarrow> (b, n) \<in> piece F (frame b) (A (frame b))"
proof
  assume "(b, n) \<in> used A F"
  then obtain a where a: "(b, n) \<in> piece F a (A a)" by (auto simp: used_def)
  then obtain ar where "A a = Some ar" by (auto simp: in_piece)
  from piece_frame [OF arena_place(2) [OF assms this] a] a
  show "(b, n) \<in> piece F (frame b) (A (frame b))" by simp
qed (auto simp: used_def)

text \<open>
  Changing the header of one arena of one page, or making or dropping it, together with the free
  blocks in it.
\<close>

definition arena_step :: "(nat \<Rightarrow> arena option) \<Rightarrow> (nat \<Rightarrow> nat list) \<Rightarrow> nat set \<Rightarrow> nat \<Rightarrow> arena option \<Rightarrow>
    (nat \<Rightarrow> nat list) \<Rightarrow> nat set \<Rightarrow> bool" where
  "arena_step A F H a r F' H' \<longleftrightarrow> arenas_ok A F H \<and> (case A a of None \<Rightarrow> a \<notin> H | Some ar \<Rightarrow> npages ar = 1)
     \<and> a mod 4096 = 0 \<and> H' = (if r = None then H - {a} else insert a H)
     \<and> (\<forall>j < 7. distinct (F' j)) \<and> (\<forall>j b. b \<notin> blocks a j \<longrightarrow> (b \<in> set (F' j)) = (b \<in> set (F j)))
     \<and> (\<forall>j < 7. \<forall>b \<in> blocks a j. b \<in> set (F' j) \<longrightarrow> (\<exists>ar. r = Some ar \<and> small ar j))
     \<and> (\<forall>ar. r = Some ar \<longrightarrow> npages ar = 1 \<and> (if a_large ar then a_desc ar = None
          else \<exists>i < 7. small ar i \<and> a_cnt ar = card (set (F' i) \<inter> blocks a i)))"

lemma arena_stepD:
  assumes "arena_step A F H a r F' H'"
  shows "arenas_ok A F H" "case A a of None \<Rightarrow> a \<notin> H | Some ar \<Rightarrow> npages ar = 1"
    and "a mod 4096 = 0" and "H' = (if r = None then H - {a} else insert a H)"
    and "j < 7 \<Longrightarrow> distinct (F' j)" and "b \<notin> blocks a j \<Longrightarrow> (b \<in> set (F' j)) = (b \<in> set (F j))"
    and "j < 7 \<Longrightarrow> b \<in> blocks a j \<Longrightarrow> b \<in> set (F' j) \<Longrightarrow> \<exists>ar. r = Some ar \<and> small ar j"
    and "r = Some ar \<Longrightarrow> npages ar = 1 \<and> (if a_large ar then a_desc ar = None
      else \<exists>i < 7. small ar i \<and> a_cnt ar = card (set (F' i) \<inter> blocks a i))"
proof -
  note s = assms [unfolded arena_step_def]
  from s show "arenas_ok A F H" by (elim conjE)
  from s show "case A a of None \<Rightarrow> a \<notin> H | Some ar \<Rightarrow> npages ar = 1" by (elim conjE)
  from s show "a mod 4096 = 0" by (elim conjE)
  from s show "H' = (if r = None then H - {a} else insert a H)" by (elim conjE)
  from s show "j < 7 \<Longrightarrow> distinct (F' j)" by (elim conjE) simp
  from s have "\<forall>j b. b \<notin> blocks a j \<longrightarrow> (b \<in> set (F' j)) = (b \<in> set (F j))" by (elim conjE)
  then show "b \<notin> blocks a j \<Longrightarrow> (b \<in> set (F' j)) = (b \<in> set (F j))" by blast
  from s have "\<forall>j < 7. \<forall>b \<in> blocks a j. b \<in> set (F' j) \<longrightarrow> (\<exists>ar. r = Some ar \<and> small ar j)" by (elim conjE)
  then show "j < 7 \<Longrightarrow> b \<in> blocks a j \<Longrightarrow> b \<in> set (F' j) \<Longrightarrow> \<exists>ar. r = Some ar \<and> small ar j" by blast
  from s show "r = Some ar \<Longrightarrow> npages ar = 1 \<and> (if a_large ar then a_desc ar = None
      else \<exists>i < 7. small ar i \<and> a_cnt ar = card (set (F' i) \<inter> blocks a i))"
    by (elim conjE allE [of _ ar]) simp
qed

lemma arena_step_pages:
  assumes st: "arena_step A F H a r F' H'" and "A x = Some xr" and "x \<noteq> a" and "k < npages xr"
  shows "x + 4096 * k \<noteq> a"
proof
  assume "x + 4096 * k = a"
  note x = assms(2-4) this
  note old = arena_stepD(1,2) [OF st]
  show False
  proof (cases "A a")
    case None
    then show ?thesis using old(2) arenas_okD(5) [OF old(1) x(1,3)] x(4) by simp
  next
    case (Some ar)
    then show ?thesis using arenas_okD(8) [OF old(1) x(1) Some x(3), of 0] old(2) x(2,4) by simp
  qed
qed

lemma arena_step_blocks:
  assumes st: "arena_step A F H a r F' H'" and "A x = Some xr" and "x \<noteq> a" and "b \<in> blocks x j"
  shows "b \<notin> blocks a j"
  using blocks_unique [OF arena_place(2) [OF arena_stepD(1) [OF st]] arena_stepD(3) [OF st]] assms(2-4) by blast

lemma arena_step_wf:
  assumes st: "arena_step A F H a r F' H'"
  shows "arenas_ok (A(a := r)) F' H'"
  unfolding arenas_ok_def
proof (intro conjI ballI allI impI)
  note old = arena_stepD(1,2) [OF st] and aligned = arena_stepD(3) [OF st] and pages = arena_stepD(4) [OF st]
    and lists = arena_stepD(5,6,7) [OF st] and head = arena_stepD(8) [OF st]
  note other_pages = arena_step_pages [OF st] and other_blocks = arena_step_blocks [OF st]
  show "x mod 4096 = 0" if "x \<in> H'" for x
    using that pages aligned arenas_okD(1) [OF old(1)] by (auto split: if_splits)
  show "distinct (F' j)" if "j < 7" for j by (rule lists(1) [OF that])
  show "\<exists>x xr. (A(a := r)) x = Some xr \<and> small xr j \<and> b \<in> blocks x j" if j: "j < 7" "b \<in> set (F' j)" for j b
  proof (cases "b \<in> blocks a j")
    case True
    then show ?thesis using lists(3) [OF j(1) True j(2)] by auto
  next
    case False
    then have "b \<in> set (F j)" using lists(2) j(2) by simp
    then obtain x xr where x: "A x = Some xr" "small xr j" "b \<in> blocks x j" using arenas_okD(3) [OF old(1) j(1)] by blast
    then show ?thesis using False by (intro exI [of _ x] exI [of _ xr]) auto
  qed
  show "0 < npages xr" if "(A(a := r)) x = Some xr" for x xr
    using that head [of xr] arenas_okD(4) [OF old(1), of x xr] by (cases "x = a") auto
  show "x + 4096 * k \<in> H'" if "(A(a := r)) x = Some xr" "k < npages xr" for x xr k
  proof (cases "x = a")
    case True
    then show ?thesis using that head [of xr] pages by simp
  next
    case False
    then have "A x = Some xr" using that(1) by simp
    then show ?thesis using arenas_okD(5) [OF old(1) _ that(2)] other_pages [OF _ False that(2)] pages by simp
  qed
  show "if a_large xr then a_desc xr = None else \<exists>i < 7. small xr i \<and> a_cnt xr = card (set (F' i) \<inter> blocks x i)"
    if x: "(A(a := r)) x = Some xr" for x xr
  proof (cases "x = a")
    case True
    then show ?thesis using x head [of xr] by simp
  next
    case False
    then have Ax: "A x = Some xr" using x by simp
    have "set (F' i) \<inter> blocks x i = set (F i) \<inter> blocks x i" for i
      using other_blocks [OF Ax False] lists(2) by blast
    then show ?thesis using arenas_okD(6,7) [OF old(1) Ax] by simp
  qed
  show "x = y" if "(A(a := r)) x = Some xr" "(A(a := r)) y = Some yr" "k < npages xr" "l < npages yr"
      "x + 4096 * k = y + 4096 * l" for x xr y yr k l
  proof -
    consider "x = a" "y = a" | "x = a" "y \<noteq> a" | "x \<noteq> a" "y = a" | "x \<noteq> a" "y \<noteq> a" by blast
    then show ?thesis
    proof cases
      case 2
      then show ?thesis using that head [of xr] other_pages [of y yr l] by simp
    next
      case 3
      then show ?thesis using that head [of yr] other_pages [of x xr k] by simp
    next
      case 4
      then show ?thesis using that arenas_okD(8) [OF old(1), of x xr y yr k l] by simp
    qed simp
  qed
qed

lemma arena_step_used:
  assumes st: "arena_step A F H a r F' H'"
  shows "used (A(a := r)) F' = {(b, n) \<in> used A F. frame b \<noteq> a} \<union> piece F' a r"
proof (intro set_eqI)
  note old = arena_stepD(1,2) [OF st] and aligned = arena_stepD(3) [OF st] and pages = arena_stepD(4) [OF st]
    and lists = arena_stepD(5,6,7) [OF st] and head = arena_stepD(8) [OF st]
  note other_blocks = arena_step_blocks [OF st] and new_wf = arena_step_wf [OF st]
  fix y :: "nat \<times> nat"
  obtain b n where y: "y = (b, n)" by (cases y)
  have "piece F' (frame b) (A (frame b)) = piece F (frame b) (A (frame b))" if "frame b \<noteq> a"
    by (rule piece_cong) (use other_blocks [OF _ that] lists(2) in blast)
  then show "y \<in> used (A(a := r)) F' \<longleftrightarrow> y \<in> {(b, n) \<in> used A F. frame b \<noteq> a} \<union> piece F' a r"
    using piece_frame [OF aligned, of b n F' r] by (auto simp: y in_used [OF new_wf] in_used [OF old(1)])
qed


text \<open>The memory in use apart from one arena.\<close>

lemma used_at:
  assumes "arenas_ok A F H"
  shows "{(b, n) \<in> used A F. frame b \<noteq> a} \<union> piece F a (A a) = used A F"
proof (intro set_eqI)
  fix y :: "nat \<times> nat"
  obtain b n where y: "y = (b, n)" by (cases y)
  have "frame b = a" if "(b, n) \<in> piece F a (A a)"
    using that arena_place(2) [OF assms] piece_frame [OF _ that] by (auto simp: in_piece)
  then show "y \<in> {(b, n) \<in> used A F. frame b \<noteq> a} \<union> piece F a (A a) \<longleftrightarrow> y \<in> used A F"
    by (auto simp: y in_used [OF assms])
qed

lemma small_piece:
  "small ar i \<Longrightarrow> piece F a (Some ar) = (\<lambda>b. (b, block_len i)) ` (blocks a i - set (F i))"
  by (auto simp: piece_def small_def)

lemma no_free_elsewhere:
  assumes "arenas_ok A F H" and "A a = Some ar" and "small ar i" and "j < 7" and "b \<in> blocks a j" and "b \<in> set (F j)"
  shows "j = i"
proof -
  obtain x xr where x: "A x = Some xr" "small xr j" "b \<in> blocks x j"
    using arenas_okD(3) [OF assms(1,4,6)] by blast
  then have "x = a" using blocks_unique [OF arena_place(2) [OF assms(1)] arena_place(2) [OF assms(1,2)] _ assms(5)] by blast
  then show ?thesis using x assms(2,3) by (simp add: small_def)
qed

text \<open>Another list of free blocks for an arena.\<close>

lemma arena_upd:
  assumes "arenas_ok A F H" and "A a = Some ar" and "small ar i" and "distinct L"
    and "\<forall>b. b \<notin> blocks a i \<longrightarrow> (b \<in> set L) = (b \<in> set (F i))" and "c = card (set L \<inter> blocks a i)"
  shows "arena_step A F H a (Some (ar\<lparr>a_cnt := c\<rparr>)) (F(i := L)) H"
    and "used (A(a \<mapsto> ar\<lparr>a_cnt := c\<rparr>)) (F(i := L))
      = {(b, n) \<in> used A F. frame b \<noteq> a} \<union> (\<lambda>b. (b, block_len i)) ` (blocks a i - set L)"
proof -
  have s: "small (ar\<lparr>a_cnt := c\<rparr>) i" using assms(3) by (simp add: small_def)
  have i: "i < 7" "a \<in> H" "a mod 4096 = 0" using arena_place [OF assms(1,2)] assms(3) by auto
  show st: "arena_step A F H a (Some (ar\<lparr>a_cnt := c\<rparr>)) (F(i := L)) H"
    unfolding arena_step_def
  proof (intro conjI allI impI ballI)
    show "case A a of None \<Rightarrow> a \<notin> H | Some ar \<Rightarrow> npages ar = 1"
      using assms(2,3) by (simp add: npages_def small_def)
    show "distinct ((F(i := L)) j)" if "j < 7" for j using assms(4) arenas_okD(2) [OF assms(1) that] by simp
    show "(b \<in> set ((F(i := L)) j)) = (b \<in> set (F j))" if "b \<notin> blocks a j" for j b
      by (cases "j = i") (use assms(5) that in auto)
    show "\<exists>r. Some (ar\<lparr>a_cnt := c\<rparr>) = Some r \<and> small r j"
      if "j < 7" "b \<in> blocks a j" "b \<in> set ((F(i := L)) j)" for j b
      using that no_free_elsewhere [OF assms(1-3) that(1,2)] s by (cases "j = i") auto
  qed (use i s assms(1,6) in \<open>auto simp: npages_def small_def insert_absorb\<close>)
  show "used (A(a \<mapsto> ar\<lparr>a_cnt := c\<rparr>)) (F(i := L))
      = {(b, n) \<in> used A F. frame b \<noteq> a} \<union> (\<lambda>b. (b, block_len i)) ` (blocks a i - set L)"
    using arena_step_used [OF st] small_piece [OF s, of "F(i := L)" a] by simp
qed

lemma used_at_small:
  assumes "arenas_ok A F H" and "A a = Some ar" and "small ar i"
  shows "{(b, n) \<in> used A F. frame b \<noteq> a} \<union> (\<lambda>b. (b, block_len i)) ` (blocks a i - set (F i)) = used A F"
  using used_at [OF assms(1), of a] small_piece [OF assms(3), of F a] assms(2) by simp

text \<open>Taking the first free block, and putting a block back.\<close>

lemma arena_take:
  assumes "arenas_ok A F H" and "F i = b # rest" and "A a = Some ar" and "small ar i" and "b \<in> blocks a i"
  shows "arenas_ok (A(a \<mapsto> ar\<lparr>a_cnt := a_cnt ar - 1\<rparr>)) (F(i := rest)) H"
    and "used (A(a \<mapsto> ar\<lparr>a_cnt := a_cnt ar - 1\<rparr>)) (F(i := rest)) = insert (b, block_len i) (used A F)"
    and "(b, block_len i) \<notin> used A F" and "0 < a_cnt ar"
proof -
  have i: "i < 7" "a_cnt ar = card (set (F i) \<inter> blocks a i)" using arena_place(3) [OF assms(1,3,4)] by auto
  have d: "b \<notin> set rest" "distinct rest" using arenas_okD(2) [OF assms(1) i(1)] assms(2) by simp_all
  have "set (F i) \<inter> blocks a i = insert b (set rest \<inter> blocks a i)" using assms(2,5) by auto
  then have cnt: "a_cnt ar = Suc (card (set rest \<inter> blocks a i))" using i(2) d by simp
  then show "0 < a_cnt ar" by simp
  have c: "a_cnt ar - 1 = card (set rest \<inter> blocks a i)" using cnt by simp
  have l: "\<forall>x. x \<notin> blocks a i \<longrightarrow> (x \<in> set rest) = (x \<in> set (F i))" using assms(2,5) by auto
  note u = arena_upd [OF assms(1,3,4) d(2) l c]
  show "arenas_ok (A(a \<mapsto> ar\<lparr>a_cnt := a_cnt ar - 1\<rparr>)) (F(i := rest)) H" by (rule arena_step_wf [OF u(1)])
  have e: "blocks a i - set rest = insert b (blocks a i - set (F i))" using assms(2,5) d(1) by auto
  show "used (A(a \<mapsto> ar\<lparr>a_cnt := a_cnt ar - 1\<rparr>)) (F(i := rest)) = insert (b, block_len i) (used A F)"
    by (simp only: u(2) e image_insert Un_insert_right used_at_small [OF assms(1,3,4)])
  have "frame b = a" using blocks_frame [OF arena_place(2) [OF assms(1,3)] assms(5)] .
  then show "(b, block_len i) \<notin> used A F"
    using assms(2,3) small_piece [OF assms(4), of F a] by (auto simp: in_used [OF assms(1)])
qed

lemma arena_put:
  assumes "arenas_ok A F H" and "A a = Some ar" and "small ar i" and "b \<in> blocks a i" and "b \<notin> set (F i)"
  shows "arenas_ok (A(a \<mapsto> ar\<lparr>a_cnt := a_cnt ar + 1\<rparr>)) (F(i := F i @ [b])) H"
    and "used (A(a \<mapsto> ar\<lparr>a_cnt := a_cnt ar + 1\<rparr>)) (F(i := F i @ [b])) = used A F - {(b, block_len i)}"
    and "a_cnt ar < blocks_in i"
proof -
  have i: "i < 7" "a_cnt ar = card (set (F i) \<inter> blocks a i)" using arena_place(3) [OF assms(1-3)] by auto
  have d: "distinct (F i @ [b])" using arenas_okD(2) [OF assms(1) i(1)] assms(5) by simp
  have "set (F i @ [b]) \<inter> blocks a i = insert b (set (F i) \<inter> blocks a i)" using assms(4) by auto
  then have c: "a_cnt ar + 1 = card (set (F i @ [b]) \<inter> blocks a i)" using i(2) assms(5) by simp
  have "card (set (F i @ [b]) \<inter> blocks a i) \<le> blocks_in i"
    using card_mono [of "blocks a i" "set (F i @ [b]) \<inter> blocks a i"] by simp
  then show "a_cnt ar < blocks_in i" using c by simp
  have l: "\<forall>x. x \<notin> blocks a i \<longrightarrow> (x \<in> set (F i @ [b])) = (x \<in> set (F i))" using assms(4) by auto
  note u = arena_upd [OF assms(1-3) d l c]
  show "arenas_ok (A(a \<mapsto> ar\<lparr>a_cnt := a_cnt ar + 1\<rparr>)) (F(i := F i @ [b])) H" by (rule arena_step_wf [OF u(1)])
  have f: "frame b = a" using blocks_frame [OF arena_place(2) [OF assms(1,2)] assms(4)] .
  have e: "(\<lambda>b. (b, block_len i)) ` (blocks a i - set (F i @ [b]))
      = (\<lambda>b. (b, block_len i)) ` (blocks a i - set (F i)) - {(b, block_len i)}" by auto
  show "used (A(a \<mapsto> ar\<lparr>a_cnt := a_cnt ar + 1\<rparr>)) (F(i := F i @ [b])) = used A F - {(b, block_len i)}"
  proof -
    have "(b, block_len i) \<notin> {(b, n) \<in> used A F. frame b \<noteq> a}" using f by simp
    moreover have "used A F - {(b, block_len i)} = ({(b, n) \<in> used A F. frame b \<noteq> a}
        \<union> (\<lambda>b. (b, block_len i)) ` (blocks a i - set (F i))) - {(b, block_len i)}"
      by (simp only: used_at_small [OF assms(1-3)])
    ultimately show ?thesis unfolding u(2) e by blast
  qed
qed

text \<open>Making an arena with free blocks only, and dropping one.\<close>

lemma arena_make:
  assumes "arenas_ok A F H" and "a \<notin> H" and "a mod 4096 = 0" and "i < 7" and "F i = []"
    and "distinct L" and "set L = blocks a i"
  shows "arenas_ok (A(a \<mapsto> \<lparr>a_desc = Some (0, i), a_cnt = blocks_in i, a_large = False\<rparr>)) (F(i := L)) (insert a H)"
    and "used (A(a \<mapsto> \<lparr>a_desc = Some (0, i), a_cnt = blocks_in i, a_large = False\<rparr>)) (F(i := L)) = used A F"
proof -
  let ?ar = "\<lparr>a_desc = Some (0, i), a_cnt = blocks_in i, a_large = False\<rparr>"
  have none: "A a = None" using arena_place(1) [OF assms(1), of a] assms(2) by (cases "A a") auto
  have no: "b \<notin> set (F j)" if j: "j < 7" "b \<in> blocks a j" for b j
  proof
    assume "b \<in> set (F j)"
    then obtain x xr where "A x = Some xr" "b \<in> blocks x j" using arenas_okD(3) [OF assms(1) j(1)] by blast
    then show False using blocks_unique [OF assms(3) arena_place(2) [OF assms(1)] j(2)] none by fastforce
  qed
  have st: "arena_step A F H a (Some ?ar) (F(i := L)) (insert a H)"
    unfolding arena_step_def
  proof (intro conjI allI impI ballI)
    show "distinct ((F(i := L)) j)" if "j < 7" for j using assms(6) arenas_okD(2) [OF assms(1) that] by simp
    show "\<exists>r. Some ?ar = Some r \<and> small r j" if "j < 7" "b \<in> blocks a j" "b \<in> set ((F(i := L)) j)" for j b
      using that no [OF that(1,2)] by (cases "j = i") (auto simp: small_def)
  qed (use none assms in \<open>auto simp: npages_def small_def\<close>)
  show "arenas_ok (A(a \<mapsto> ?ar)) (F(i := L)) (insert a H)" by (rule arena_step_wf [OF st])
  have "small ?ar i" by (simp add: small_def)
  from small_piece [OF this, of "F(i := L)" a] have "piece (F(i := L)) a (Some ?ar) = {}" using assms(7) by simp
  moreover have "piece F a (A a) = {}" using none by (simp add: piece_def)
  ultimately show "used (A(a \<mapsto> ?ar)) (F(i := L)) = used A F"
    using arena_step_used [OF st] used_at [OF assms(1), of a] by simp
qed

lemma arena_drop:
  assumes "arenas_ok A F H" and "A a = Some ar" and "small ar i" and "a_cnt ar = blocks_in i"
    and "distinct L" and "set L = set (F i) - blocks a i"
  shows "arenas_ok (A(a := None)) (F(i := L)) (H - {a})" and "used (A(a := None)) (F(i := L)) = used A F"
    and "blocks a i \<subseteq> set (F i)"
proof -
  have i: "i < 7" "a_cnt ar = card (set (F i) \<inter> blocks a i)" using arena_place(3) [OF assms(1-3)] by auto
  then have "card (set (F i) \<inter> blocks a i) = card (blocks a i)" using assms(4) by simp
  then show all: "blocks a i \<subseteq> set (F i)"
    using card_subset_eq [of "blocks a i" "set (F i) \<inter> blocks a i"] by auto
  have st: "arena_step A F H a None (F(i := L)) (H - {a})"
    unfolding arena_step_def
  proof (intro conjI allI impI ballI)
    show "case A a of None \<Rightarrow> a \<notin> H | Some ar \<Rightarrow> npages ar = 1"
      using assms(2,3) by (simp add: npages_def small_def)
    show "distinct ((F(i := L)) j)" if "j < 7" for j using assms(5) arenas_okD(2) [OF assms(1) that] by simp
    show "\<exists>r. None = Some r \<and> small r j" if "j < 7" "b \<in> blocks a j" "b \<in> set ((F(i := L)) j)" for j b
      using that no_free_elsewhere [OF assms(1-3) that(1,2)] assms(6) by (cases "j = i") auto
  qed (use assms arena_place(2) [OF assms(1,2)] in auto)
  show "arenas_ok (A(a := None)) (F(i := L)) (H - {a})" by (rule arena_step_wf [OF st])
  have "piece F a (A a) = {}" using small_piece [OF assms(3), of F a] all assms(2) by simp
  then show "used (A(a := None)) (F(i := L)) = used A F"
    using arena_step_used [OF st] used_at [OF assms(1), of a] by (simp add: piece_def)
qed

text \<open>An arena of one page for a large request.\<close>

lemma arena_large:
  assumes "arenas_ok A F H" and "a \<notin> H" and "a mod 4096 = 0"
  shows "arenas_ok (A(a \<mapsto> \<lparr>a_desc = None, a_cnt = 1, a_large = True\<rparr>)) F (insert a H)"
    and "used (A(a \<mapsto> \<lparr>a_desc = None, a_cnt = 1, a_large = True\<rparr>)) F = insert (a + 12, 4084) (used A F)"
    and "(a + 12, 4084) \<notin> used A F"
proof -
  let ?ar = "\<lparr>a_desc = None, a_cnt = 1, a_large = True\<rparr>"
  have none: "A a = None" using arena_place(1) [OF assms(1), of a] assms(2) by (cases "A a") auto
  have no: "b \<notin> set (F j)" if j: "j < 7" "b \<in> blocks a j" for b j
  proof
    assume "b \<in> set (F j)"
    then obtain x xr where "A x = Some xr" "b \<in> blocks x j" using arenas_okD(3) [OF assms(1) j(1)] by blast
    then show False using blocks_unique [OF assms(3) arena_place(2) [OF assms(1)] j(2)] none by fastforce
  qed
  have st: "arena_step A F H a (Some ?ar) F (insert a H)"
    unfolding arena_step_def using none no assms arenas_okD(2) [OF assms(1)]
    by (intro conjI allI impI ballI) (auto simp: npages_def)
  show "arenas_ok (A(a \<mapsto> ?ar)) F (insert a H)" by (rule arena_step_wf [OF st])
  show "used (A(a \<mapsto> ?ar)) F = insert (a + 12, 4084) (used A F)"
    using arena_step_used [OF st] used_at [OF assms(1), of a] none by (simp add: piece_def)
  have "frame (a + 12) = a" using assms(3) by (auto simp: frame_def elim!: dvdE [OF mod_0_imp_dvd])
  then show "(a + 12, 4084) \<notin> used A F" using none by (simp add: in_used [OF assms(1)] in_piece)
qed

lemma arena_large_drop:
  assumes "arenas_ok A F H" and "A a = Some ar" and "a_large ar" and "a_cnt ar = 1"
  shows "arenas_ok (A(a := None)) F (H - {a})" and "used (A(a := None)) F = used A F - {(a + 12, 4084)}"
proof -
  have no: "b \<notin> set (F j)" if j: "j < 7" "b \<in> blocks a j" for b j
  proof
    assume "b \<in> set (F j)"
    then obtain x xr where x: "A x = Some xr" "small xr j" "b \<in> blocks x j" using arenas_okD(3) [OF assms(1) j(1)] by blast
    then have "x = a" using blocks_unique [OF arena_place(2) [OF assms(1)] arena_place(2) [OF assms(1,2)] _ j(2)] by blast
    then show False using x assms(2,3) by (simp add: small_def)
  qed
  have st: "arena_step A F H a None F (H - {a})"
    unfolding arena_step_def using assms no arenas_okD(2) [OF assms(1)] arena_place(2) [OF assms(1,2)]
    by (intro conjI allI impI ballI) (auto simp: npages_def)
  show "arenas_ok (A(a := None)) F (H - {a})" by (rule arena_step_wf [OF st])
  have "frame (a + 12) = a" using arena_place(2) [OF assms(1,2)] by (auto simp: frame_def elim!: dvdE [OF mod_0_imp_dvd])
  moreover have "piece F a (A a) = {(a + 12, 4084)}" using assms(2-4) by (simp add: piece_def)
  moreover have "used A F - {(a + 12, 4084)} = ({(b, n) \<in> used A F. frame b \<noteq> a} \<union> piece F a (A a)) - {(a + 12, 4084)}"
    by (simp only: used_at [OF assms(1)])
  ultimately show "used (A(a := None)) F = used A F - {(a + 12, 4084)}"
    using arena_step_used [OF st] by (auto simp: piece_def)
qed

section \<open>The invariant of the kernel heap\<close>

definition kernel_arenas :: "heap \<Rightarrow> nat \<Rightarrow> arena option" where
  "kernel_arenas h a = arenas h (0, a)"

definition kernel_lists :: "heap \<Rightarrow> nat \<Rightarrow> nat list" where
  "kernel_lists h i = free_list (descs h 0 ! i)"

definition heap_ok :: "heap \<Rightarrow> bool" where
  "heap_ok h \<longleftrightarrow> pages_ok (hmem h) \<and> 0xC0000000 \<le> vaddr_start (kernel_vaddr (hmem h)) \<and> length (descs h 0) = 7
     \<and> (\<forall>i < 7. block_size (descs h 0 ! i) = block_len i \<and> blocks_per_arena (descs h 0 ! i) = blocks_in i)
     \<and> arenas_ok (kernel_arenas h) (kernel_lists h) (held_pages (hmem h))"

text \<open>No arena is kept when all its blocks are free.\<close>

definition heap_inv :: "heap \<Rightarrow> bool" where
  "heap_inv h \<longleftrightarrow> heap_ok h
     \<and> (\<forall>a ar i. kernel_arenas h a = Some ar \<longrightarrow> small ar i \<longrightarrow> a_cnt ar < blocks_in i)"

definition in_use :: "heap \<Rightarrow> (nat \<times> nat) set" where
  "in_use h = used (kernel_arenas h) (kernel_lists h)"

text \<open>What the heap leaves alone in the memory.\<close>

definition same_ctx :: "mem \<Rightarrow> mem \<Rightarrow> bool" where
  "same_ctx m m' \<longleftrightarrow> mkern m' = mkern m \<and> pool_lock (kernel_pool m') = pool_lock (kernel_pool m)
     \<and> vaddr_start (kernel_vaddr m') = vaddr_start (kernel_vaddr m)"

lemma heap_okD:
  assumes "heap_ok h"
  shows "pages_ok (hmem h)" and "0xC0000000 \<le> vaddr_start (kernel_vaddr (hmem h))" and "length (descs h 0) = 7"
    and "i < 7 \<Longrightarrow> block_size (descs h 0 ! i) = block_len i"
    and "i < 7 \<Longrightarrow> blocks_per_arena (descs h 0 ! i) = blocks_in i"
    and "arenas_ok (kernel_arenas h) (kernel_lists h) (held_pages (hmem h))"
  using assms by (simp_all add: heap_ok_def)

lemma heap_page:
  assumes "heap_ok h" and "a \<in> held_pages (hmem h)"
  shows "a mod 4096 = 0" and "a + 4096 \<le> 0xFFC00000" and "arena_key g a = (0, a)"
proof -
  note r = held_page_range [OF heap_okD(1) [OF assms(1)] assms(2)]
  show "a mod 4096 = 0" by (rule r(1))
  then show "a + 4096 \<le> 0xFFC00000" using r(2) by (auto elim!: dvdE [OF mod_0_imp_dvd])
  show "arena_key g a = (0, a)" using r(3) heap_okD(2) [OF assms(1)] by (simp add: arena_key_def)
qed

lemma kernel_lists_upd:
  assumes "length (descs h 0) = 7" and "i < 7"
  shows "kernel_lists (upd_desc 0 i d h) = (kernel_lists h)(i := free_list d)"
  using assms by (intro ext) (simp add: kernel_lists_def upd_desc_def nth_list_update)

lemma heap_simps [simp]:
  "kernel_arenas (upd_desc 0 i d h) = kernel_arenas h"
  "kernel_arenas (h\<lparr>hmem := m\<rparr>) = kernel_arenas h"
  "kernel_lists (h\<lparr>hmem := m\<rparr>) = kernel_lists h"
  "kernel_arenas (h\<lparr>arenas := (arenas h)((0, a) := r)\<rparr>) = (kernel_arenas h)(a := r)"
  "kernel_lists (h\<lparr>arenas := A\<rparr>) = kernel_lists h"
  "hmem (upd_desc o' i d h) = hmem h"
  "arenas (upd_desc o' i d h) = arenas h"
  by (auto simp: kernel_arenas_def kernel_lists_def upd_desc_def)

text \<open>Updates that keep the sizes of the descriptors.\<close>

lemma heap_ok_upd:
  assumes "heap_ok h" and "i < 7" and "block_size d = block_len i" and "blocks_per_arena d = blocks_in i"
    and "pages_ok m" and "vaddr_start (kernel_vaddr m) = vaddr_start (kernel_vaddr (hmem h))"
    and "arenas_ok ((kernel_arenas h)(a := r)) ((kernel_lists h)(i := free_list d)) (held_pages m)"
    and "h' = upd_desc 0 i d (h\<lparr>hmem := m, arenas := (arenas h)((0, a) := r)\<rparr>)"
  shows "heap_ok h'" and "kernel_arenas h' = (kernel_arenas h)(a := r)"
    and "kernel_lists h' = (kernel_lists h)(i := free_list d)"
proof -
  have k: "kernel_arenas h' = (kernel_arenas h)(a := r)" unfolding assms(8)
    by (auto simp: kernel_arenas_def upd_desc_def)
  have l: "kernel_lists h' = (kernel_lists h)(i := free_list d)" unfolding assms(8)
    using heap_okD(3) [OF assms(1)] assms(2) by (auto simp: kernel_lists_def upd_desc_def nth_list_update)
  have "descs h' 0 = (descs h 0)[i := d]" "hmem h' = m" unfolding assms(8) by (simp_all add: upd_desc_def)
  then show "heap_ok h'"
    using heap_okD [OF assms(1)] assms(2-7) k l by (auto simp: heap_ok_def nth_list_update)
  show "kernel_arenas h' = (kernel_arenas h)(a := r)" "kernel_lists h' = (kernel_lists h)(i := free_list d)"
    by (rule k, rule l)
qed

section \<open>The operations of the heap\<close>

lemma blocks_in_less: "blocks_in i < 256"
proof -
  have "16 \<le> block_len i" using one_le_power [of "2::nat" i] by (simp add: block_len_def)
  then have "blocks_in i \<le> 4084 div 16" unfolding blocks_in_def by (intro div_le_mono2) simp_all
  then show ?thesis by simp
qed

lemma arena2block_eq:
  assumes "k < blocks_in i" and "block_size d = block_len i" and "a + 4096 \<le> 4294967296"
  shows "arena2block a k d = a + 12 + k * block_len i"
proof -
  have "k * block_len i < 4084" using block_end [OF assms(1)] block_len_pos(1) [of i] by linarith
  then show ?thesis
    using assms(2,3) by (simp add: arena2block_def ARENA_SIZE_def add32_small mul32_small)
qed

lemma take_block_runs:
  assumes "heap_ok h" and "i < 7" and "kernel_lists h i = b # rest"
    and "\<forall>a ar j. kernel_arenas h a = Some ar \<longrightarrow> small ar j \<longrightarrow> b \<notin> blocks a j \<longrightarrow> a_cnt ar < blocks_in j"
  shows "\<exists>h'. take_block 0 i h = Some (b, h') \<and> heap_inv h' \<and> in_use h' = insert (b, block_len i) (in_use h)
    \<and> (b, block_len i) \<notin> in_use h \<and> same_ctx (hmem h) (hmem h') \<and> b mod 4 = 0 \<and> b \<noteq> 0"
proof -
  let ?A = "kernel_arenas h" and ?F = "kernel_lists h"
  note ok = heap_okD [OF assms(1)]
  obtain a ar where a: "?A a = Some ar" "small ar i" "b \<in> blocks a i"
    using arenas_okD(3) [OF ok(6) assms(2), of b] assms(3) by auto
  have pg: "a \<in> held_pages (hmem h)" by (rule arena_place(1) [OF ok(6) a(1)])
  note page = heap_page [OF assms(1) pg]
  obtain k where k: "k < blocks_in i" "b = a + 12 + k * block_len i" using a(3) by (auto simp: blocks_def)
  define w where "w = 3 + k * (4 * 2 ^ i)"
  have len: "block_len i div 4 = 4 * 2 ^ i" "block_len i = 4 * (4 * 2 ^ i)" by (simp_all add: block_len_def)
  have bw: "b = a + 4 * w" unfolding k(2) w_def len(2) by simp
  have "w + block_len i div 4 \<le> 1024" using block_end [OF k(1)] unfolding len(1) w_def by (simp add: len(2))
  from zero_block_runs [OF ok(1) pg this]
  obtain ph where z: "zero_words b (block_len i div 4) (hmem h) = Some ((hmem h)\<lparr>phys := ph\<rparr>)"
      "pages_ok ((hmem h)\<lparr>phys := ph\<rparr>)" unfolding bw by blast
  note t = arena_take [OF ok(6) assms(3) a]
  have fr: "block2arena b = a"
    using blocks_frame [OF page(1) a(3)] and_frame [of b] blocks_range [OF a(3)] page(2)
    by (simp add: block2arena_def)
  have cnt: "sub32 (a_cnt ar) 1 = a_cnt ar - 1"
  proof -
    have "a_cnt ar \<le> blocks_in i" using arena_place(3) [OF ok(6) a(1,2)] card_mono [of "blocks a i"] by simp
    then show ?thesis using t(4) blocks_in_less [of i] by (simp add: sub32_small)
  qed
  define d where "d = descs h 0 ! i"
  have d: "block_size d = block_len i" "blocks_per_arena d = blocks_in i" "free_list d = b # rest"
    using ok(4,5) assms(2,3) by (simp_all add: d_def kernel_lists_def)
  define h' where "h' = upd_desc 0 i (d\<lparr>free_list := rest\<rparr>)
    (h\<lparr>hmem := (hmem h)\<lparr>phys := ph\<rparr>, arenas := (arenas h)((0, a) := Some (ar\<lparr>a_cnt := a_cnt ar - 1\<rparr>))\<rparr>)"
  have rd: "rd_at (descs h 0) i = Some d" using ok(3) assms(2) by (simp add: rd_at_def d_def)
  have key: "arena_key x a = (0, a)" for x using heap_page(3) [OF assms(1) pg] .
  have run: "take_block 0 i h = Some (b, h')"
    using rd d z(1) fr cnt key a(1) by (simp add: take_block_def Let_def upd_desc_def h'_def kernel_arenas_def)
  have "held_pages ((hmem h)\<lparr>phys := ph\<rparr>) = held_pages (hmem h)" by (simp add: held_pages_def)
  then have "heap_ok h'" and new: "kernel_arenas h' = ?A(a \<mapsto> ar\<lparr>a_cnt := a_cnt ar - 1\<rparr>)" "kernel_lists h' = ?F(i := rest)"
    using heap_ok_upd [OF assms(1,2), of "d\<lparr>free_list := rest\<rparr>" "(hmem h)\<lparr>phys := ph\<rparr>" a
        "Some (ar\<lparr>a_cnt := a_cnt ar - 1\<rparr>)" h'] d z(2) t(1) by (simp_all add: h'_def)
  moreover have "a_cnt cr < blocks_in j" if c: "kernel_arenas h' c = Some cr" "small cr j" for c cr j
  proof (cases "c = a")
    case True
    then have "j = i" "a_cnt cr = a_cnt ar - 1" using c a(2) new(1) by (auto simp: small_def)
    moreover have "a_cnt ar \<le> blocks_in i" using arena_place(3) [OF ok(6) a(1,2)] card_mono [of "blocks a i"] by simp
    ultimately show ?thesis using t(4) by simp
  next
    case False
    then have "?A c = Some cr" using c(1) new(1) by simp
    moreover from this have "b \<notin> blocks c j"
      using False blocks_unique [OF arena_place(2) [OF ok(6)] page(1) _ a(3)] by blast
    ultimately show ?thesis using assms(4) c(2) by blast
  qed
  ultimately have "heap_inv h'" by (simp add: heap_inv_def)
  then show ?thesis using run t(2,3) new bw page(1) a(1) blocks_range [OF a(3)]
    by (intro exI [of _ h']) (auto simp: in_use_def same_ctx_def h'_def elim!: dvdE [OF mod_0_imp_dvd])
qed

lemma add_blocks_runs:
  assumes "block_size d = block_len i" and "a + 4096 \<le> 4294967296" and "\<forall>k \<in> set ks. k < blocks_in i"
    and "distinct ks" and "\<forall>k \<in> set ks. a + 12 + k * block_len i \<notin> set (free_list d)"
  shows "add_blocks a ks d = Some (d\<lparr>free_list := free_list d @ map (\<lambda>k. a + 12 + k * block_len i) ks\<rparr>)"
  using assms
proof (induction ks arbitrary: d)
  case (Cons k ks)
  have "arena2block a k d = a + 12 + k * block_len i"
    by (rule arena2block_eq) (use Cons.prems in simp_all)
  moreover have "add_blocks a ks (d\<lparr>free_list := free_list d @ [a + 12 + k * block_len i]\<rparr>)
      = Some (d\<lparr>free_list := free_list d @ [a + 12 + k * block_len i] @ map (\<lambda>k. a + 12 + k * block_len i) ks\<rparr>)"
    by (subst Cons.IH) (use Cons.prems in auto)
  ultimately show ?case using Cons.prems by (simp add: Let_def)
qed simp

lemma new_arena_runs:
  assumes "heap_inv h" and "i < 7" and "kernel_lists h i = []" and "can_get_page (hmem h)"
  shows "\<exists>a h'. new_arena PF_KERNEL 0 i h = Some (True, h') \<and> heap_ok h' \<and> in_use h' = in_use h
    \<and> same_ctx (hmem h) (hmem h') \<and> set (kernel_lists h' i) = blocks a i
    \<and> (\<forall>c cr j. kernel_arenas h' c = Some cr \<longrightarrow> small cr j \<longrightarrow> c = a \<and> j = i \<or> a_cnt cr < blocks_in j)"
proof -
  have hok: "heap_ok h" using assms(1) by (simp add: heap_inv_def)
  note ok = heap_okD [OF hok]
  obtain a m where g: "fresh_page PF_KERNEL (hmem h) = Some (a, m)" "pages_ok m" "a \<noteq> 0"
      "a mod 4096 = 0" "a \<notin> held_pages (hmem h)" "held_pages m = insert a (held_pages (hmem h))"
      "mkern m = mkern (hmem h)" "pool_lock (kernel_pool m) = pool_lock (kernel_pool (hmem h))"
      "vaddr_start (kernel_vaddr m) = vaddr_start (kernel_vaddr (hmem h))"
    using fresh_page_runs [OF ok(1) assms(4)] by (elim exE conjE) (rule that)
  have "a \<in> held_pages m" using g(6) by simp
  note range = held_page_range [OF g(2) this]
  have lim: "a + 4096 \<le> 4294967296" using range(1,2) by (auto elim!: dvdE [OF mod_0_imp_dvd])
  define d where "d = descs h 0 ! i"
  have d: "block_size d = block_len i" "blocks_per_arena d = blocks_in i" "free_list d = []"
    using ok(4,5) assms(2,3) by (simp_all add: d_def kernel_lists_def)
  define L where "L = map (\<lambda>k. a + 12 + k * block_len i) [0..<blocks_in i]"
  have L: "distinct L" "set L = blocks a i"
    by (simp_all add: L_def distinct_map inj_on_def blocks_def atLeast0LessThan)
  have add: "add_blocks a [0..<blocks_in i] d = Some (d\<lparr>free_list := L\<rparr>)"
    using add_blocks_runs [OF d(1) lim, of "[0..<blocks_in i]"] d(3) by (simp add: L_def)
  define ar where "ar = \<lparr>a_desc = Some (0::nat, i), a_cnt = blocks_in i, a_large = False\<rparr>"
  define h' where "h' = upd_desc 0 i (d\<lparr>free_list := L\<rparr>) (h\<lparr>hmem := m, arenas := (arenas h)((0, a) := Some ar)\<rparr>)"
  have rd: "rd_at (descs h 0) i = Some d" using ok(3) assms(2) by (simp add: rd_at_def d_def)
  have key: "arena_key x a = (0, a)" for x
    using range(3) ok(2) g(9) by (simp add: arena_key_def)
  have run: "new_arena PF_KERNEL 0 i h = Some (True, h')"
    using rd g(1,3) add d(2) key by (simp add: new_arena_def Let_def h'_def ar_def)
  note mk = arena_make [OF ok(6) g(5,4) assms(2,3) L, folded ar_def]
  have "heap_ok h'" and new: "kernel_arenas h' = (kernel_arenas h)(a \<mapsto> ar)" "kernel_lists h' = (kernel_lists h)(i := L)"
    using heap_ok_upd [OF hok assms(2), of "d\<lparr>free_list := L\<rparr>" m a "Some ar" h'] d g(2,6,9) mk(1)
    by (simp_all add: h'_def)
  moreover have "c = a \<and> j = i \<or> a_cnt cr < blocks_in j" if "kernel_arenas h' c = Some cr" "small cr j" for c cr j
    using that assms(1) new(1) by (cases "c = a") (auto simp: heap_inv_def ar_def small_def)
  ultimately show ?thesis using run mk(2) L(2) g(7,8,9)
    by (intro exI [of _ a] exI [of _ h']) (simp add: in_use_def same_ctx_def h'_def)
qed

text \<open>The descriptor \<open>sys_malloc\<close> chooses: the smallest size that is enough.\<close>

lemma desc_index:
  assumes "heap_ok h" and "sz \<le> 1024"
  shows "\<exists>i < 7. length (takeWhile (\<lambda>d. block_size d < sz) (descs h 0)) = i \<and> sz \<le> block_len i
    \<and> (\<forall>j < i. block_len j < sz)"
proof -
  let ?t = "takeWhile (\<lambda>d. block_size d < sz) (descs h 0)"
  note ok = heap_okD [OF assms(1)]
  have l: "length ?t < 7"
  proof (rule ccontr)
    assume "\<not> length ?t < 7"
    then have "length ?t = length (descs h 0)" using length_takeWhile_le [of _ "descs h 0"] ok(3) by (simp add: le_antisym)
    then have "?t = descs h 0" by (metis takeWhile_eq_take take_all order_refl)
    then have "block_size (descs h 0 ! 6) < sz" using ok(3) set_takeWhileD [of "descs h 0 ! 6"] by force
    then show False using ok(4) [of 6] assms(2) by (simp add: block_len_def)
  qed
  then have "\<not> block_size (descs h 0 ! length ?t) < sz" using nth_length_takeWhile [of _ "descs h 0"] ok(3) by simp
  moreover have "block_len j < sz" if "j < length ?t" for j
  proof -
    have "block_size (?t ! j) < sz" using set_takeWhileD [OF nth_mem [OF that]] by simp
    then show ?thesis using takeWhile_nth [OF that] ok(4) [of j] l that by simp
  qed
  ultimately show ?thesis using l ok(4) by (intro exI [of _ "length ?t"]) simp
qed

lemma malloc_small_runs:
  assumes "heap_inv h" and "can_get_page (hmem h)" and "sz \<le> 1024"
  shows "\<exists>p i h'. malloc_small PF_KERNEL 0 sz h = Some (p, h') \<and> heap_inv h' \<and> i < 7 \<and> sz \<le> block_len i
    \<and> in_use h' = insert (p, block_len i) (in_use h) \<and> (p, block_len i) \<notin> in_use h
    \<and> same_ctx (hmem h) (hmem h') \<and> p mod 4 = 0 \<and> p \<noteq> 0"
proof -
  have hok: "heap_ok h" using assms(1) by (simp add: heap_inv_def)
  note ok = heap_okD [OF hok]
  obtain i where i: "i < 7" "length (takeWhile (\<lambda>d. block_size d < sz) (descs h 0)) = i" "sz \<le> block_len i"
    using desc_index [OF hok assms(3)] by blast
  have rd: "rd_at (descs h 0) i = Some (descs h 0 ! i)" using ok(3) i(1) by (simp add: rd_at_def)
  show ?thesis
  proof (cases "kernel_lists h i")
    case (Cons b rest)
    have "\<forall>a ar j. kernel_arenas h a = Some ar \<longrightarrow> small ar j \<longrightarrow> b \<notin> blocks a j \<longrightarrow> a_cnt ar < blocks_in j"
      using assms(1) by (simp add: heap_inv_def)
    from take_block_runs [OF hok i(1) Cons this]
    obtain h' where h': "take_block 0 i h = Some (b, h')" "heap_inv h'" "in_use h' = insert (b, block_len i) (in_use h)"
      "(b, block_len i) \<notin> in_use h" "same_ctx (hmem h) (hmem h')" "b mod 4 = 0" "b \<noteq> 0"
      by (elim exE conjE) (rule that)
    have "malloc_small PF_KERNEL 0 sz h = Some (b, h')"
      using rd h'(1) Cons by (simp add: malloc_small_def Let_def i(2) kernel_lists_def)
    then show ?thesis using h' i(1,3) by (intro exI [of _ b] exI [of _ i] exI [of _ h'] conjI)
  next
    case Nil
    obtain a h1 where n: "new_arena PF_KERNEL 0 i h = Some (True, h1)" "heap_ok h1" "in_use h1 = in_use h"
        "same_ctx (hmem h) (hmem h1)" "set (kernel_lists h1 i) = blocks a i"
        "\<forall>c cr j. kernel_arenas h1 c = Some cr \<longrightarrow> small cr j \<longrightarrow> c = a \<and> j = i \<or> a_cnt cr < blocks_in j"
      using new_arena_runs [OF assms(1) i(1) Nil assms(2)] by (elim exE conjE) (rule that)
    have "blocks a i \<noteq> {}" using card_blocks [of a i] blocks_in_pos [OF i(1)] by (metis card.empty less_irrefl)
    then obtain b rest where c: "kernel_lists h1 i = b # rest" using n(5) by (cases "kernel_lists h1 i") auto
    then have "b \<in> blocks a i" using n(5) by (metis list.set_intros(1))
    then have "\<forall>c cr j. kernel_arenas h1 c = Some cr \<longrightarrow> small cr j \<longrightarrow> b \<notin> blocks c j \<longrightarrow> a_cnt cr < blocks_in j"
      using n(6) by blast
    from take_block_runs [OF n(2) i(1) c this]
    obtain h' where h': "take_block 0 i h1 = Some (b, h')" "heap_inv h'" "in_use h' = insert (b, block_len i) (in_use h1)"
      "(b, block_len i) \<notin> in_use h1" "same_ctx (hmem h1) (hmem h')" "b mod 4 = 0" "b \<noteq> 0"
      by (elim exE conjE) (rule that)
    have "malloc_small PF_KERNEL 0 sz h = Some (b, h')"
      using rd h'(1) n(1) Nil by (simp add: malloc_small_def Let_def i(2) kernel_lists_def)
    moreover have "same_ctx (hmem h) (hmem h')" using n(4) h'(5) by (simp add: same_ctx_def)
    ultimately show ?thesis using h'(2,3,4,6,7) i(1,3) unfolding n(3)
      by (intro exI [of _ b] exI [of _ i] exI [of _ h'] conjI)
  qed
qed

lemma malloc_large_runs:
  assumes "heap_inv h" and "can_get_page (hmem h)" and "1024 < sz" and "sz \<le> 4084"
  shows "\<exists>p h'. malloc_large PF_KERNEL sz h = Some (p, h') \<and> heap_inv h'
    \<and> in_use h' = insert (p, 4084) (in_use h) \<and> (p, 4084) \<notin> in_use h
    \<and> same_ctx (hmem h) (hmem h') \<and> p mod 4 = 0 \<and> p \<noteq> 0"
proof -
  have hok: "heap_ok h" using assms(1) by (simp add: heap_inv_def)
  note ok = heap_okD [OF hok]
  have cnt: "DIV_ROUND_UP (add32 sz ARENA_SIZE) PG_SIZE = 1"
  proof -
    have "sub32 (add32 (add32 sz 12) 4096) 1 = sz + 4107" using assms(4) by (simp add: add32_small sub32_small)
    moreover have "(sz + 4107) div 4096 = 1" using assms(3,4) by simp
    ultimately show ?thesis by (simp add: DIV_ROUND_UP_def ARENA_SIZE_def PG_SIZE_def)
  qed
  obtain a m where g: "fresh_page PF_KERNEL (hmem h) = Some (a, m)" "pages_ok m" "a \<noteq> 0"
      "a mod 4096 = 0" "a \<notin> held_pages (hmem h)" "held_pages m = insert a (held_pages (hmem h))"
      "mkern m = mkern (hmem h)" "pool_lock (kernel_pool m) = pool_lock (kernel_pool (hmem h))"
      "vaddr_start (kernel_vaddr m) = vaddr_start (kernel_vaddr (hmem h))"
    using fresh_page_runs [OF ok(1) assms(2)] by (elim exE conjE) (rule that)
  then obtain m1 where m1: "malloc_page PF_KERNEL 1 (hmem h) = Some (a, m1)" "zero_words a 1024 m1 = Some m"
    by (auto simp: fresh_page_def bind_iff split: if_splits prod.splits)
  have "a \<in> held_pages m" using g(6) by simp
  note range = held_page_range [OF g(2) this]
  have lim: "a + 4096 \<le> 4294967296" using range(1,2) by (auto elim!: dvdE [OF mod_0_imp_dvd])
  have key: "arena_key x a = (0, a)" for x using range(3) ok(2) g(9) by (simp add: arena_key_def)
  define ar where "ar = \<lparr>a_desc = None, a_cnt = Suc 0, a_large = True\<rparr>"
  define h' where "h' = h\<lparr>hmem := m, arenas := (arenas h)((0, a) := Some ar)\<rparr>"
  have run: "malloc_large PF_KERNEL sz h = Some (a + 12, h')"
    using m1 g(3) key lim unfolding malloc_large_def cnt
    by (simp add: Let_def h'_def ar_def ARENA_SIZE_def add32_small)
  note mk = arena_large [OF ok(6) g(5,4), unfolded One_nat_def, folded ar_def]
  have new: "kernel_arenas h' = (kernel_arenas h)(a \<mapsto> ar)" "kernel_lists h' = kernel_lists h"
    by (simp_all add: h'_def) (auto simp: kernel_arenas_def)
  have "heap_inv h'"
    unfolding heap_inv_def heap_ok_def new
  proof (intro conjI allI impI)
    show "arenas_ok ((kernel_arenas h)(a \<mapsto> ar)) (kernel_lists h) (held_pages (hmem h'))"
      using mk(1) g(6) by (simp add: h'_def)
    show "a_cnt cr < blocks_in j" if "((kernel_arenas h)(a \<mapsto> ar)) c = Some cr" "small cr j" for c cr j
      using that assms(1) by (cases "c = a") (auto simp: heap_inv_def ar_def small_def)
  qed (use ok g(2,9) in \<open>simp_all add: h'_def\<close>)
  moreover have "(a + 12) mod 4 = 0" using g(4) by (auto elim!: dvdE [OF mod_0_imp_dvd])
  ultimately show ?thesis using run mk(2,3) g(7,8,9) new
    by (intro exI [of _ "a + 12"] exI [of _ h']) (simp add: in_use_def same_ctx_def h'_def)
qed

text \<open>Around both: the lock of the kernel pool.\<close>

definition in_kernel :: "mem \<Rightarrow> bool" where
  "in_kernel m \<longleftrightarrow> lock_idle (pool_lock (kernel_pool m)) \<and> running (mkern m) \<noteq> 0
     \<and> (\<exists>t. tasks (mkern m) (running (mkern m)) = Some t \<and> pgdir t = 0)"

lemma heap_of_kernel: "in_kernel (hmem h) \<Longrightarrow> heap_of h = Some (PF_KERNEL, 0)"
  by (auto simp: in_kernel_def heap_of_def Let_def get_running_thread_pcb_def)

lemma heap_lock:
  "heap_inv (h\<lparr>hmem := upd_pool PF_KERNEL (\<lambda>p. p\<lparr>pool_lock := l\<rparr>) (hmem h)\<rparr>) = heap_inv h"
  "in_use (h\<lparr>hmem := m\<rparr>) = in_use h"
  by (simp_all add: heap_inv_def heap_ok_def in_use_def del: upd_pool.simps)

text \<open>The lock is not part of the pages.\<close>

definition same_pages :: "mem \<Rightarrow> mem \<Rightarrow> bool" where
  "same_pages m m' \<longleftrightarrow> held_pages m' = held_pages m \<and> free_frames m' = free_frames m
     \<and> (\<forall>a. translate m' a = translate m a)"

lemma same_pages_lock: "same_pages m (upd_pool PF_KERNEL (\<lambda>p. p\<lparr>pool_lock := l\<rparr>) m)"
proof -
  let ?m = "upd_pool PF_KERNEL (\<lambda>p. p\<lparr>pool_lock := l\<rparr>) m"
  have "pde_at ?m i = pde_at m i" for i by (simp add: pde_at_def)
  moreover from this have "pte_at ?m i j = pte_at m i j" for i j by (simp add: pte_at_def)
  ultimately have "translate ?m a = translate m a" for a by (simp add: translate_walk)
  moreover have "free_frames ?m = free_frames m" by (simp add: free_frames_def free_in_def)
  ultimately show ?thesis using pages_set_lock(3) [of PF_KERNEL l m] by (simp add: same_pages_def del: upd_pool.simps)
qed

lemma same_pages_trans: "same_pages m m1 \<Longrightarrow> same_pages m1 m2 \<Longrightarrow> same_pages m m2"
  by (simp add: same_pages_def)

lemma page_freed_same: "page_freed a m1 m2 \<Longrightarrow> same_pages m m1 \<Longrightarrow> same_pages m2 m3 \<Longrightarrow> page_freed a m m3"
  by (simp add: same_pages_def page_freed_def)

lemma with_lock:
  assumes "heap_inv h" and "in_kernel (hmem h)"
  shows "\<exists>l. acquire_pool PF_KERNEL (hmem h) = Some (upd_pool PF_KERNEL (\<lambda>p. p\<lparr>pool_lock := l\<rparr>) (hmem h))
    \<and> (\<forall>h'. heap_inv h' \<longrightarrow> same_ctx (upd_pool PF_KERNEL (\<lambda>p. p\<lparr>pool_lock := l\<rparr>) (hmem h)) (hmem h') \<longrightarrow>
         (\<exists>m. release_pool PF_KERNEL (hmem h') = Some m \<and> heap_inv (h'\<lparr>hmem := m\<rparr>) \<and> in_kernel m
            \<and> same_pages (hmem h') m \<and> mkern m = mkern (hmem h)))"
proof -
  have k: "lock_idle (pool_lock (pool_of PF_KERNEL (hmem h)))" "running (mkern (hmem h)) \<noteq> 0"
    using assms(2) by (simp_all add: in_kernel_def)
  obtain l where l: "acquire_pool PF_KERNEL (hmem h) = Some (upd_pool PF_KERNEL (\<lambda>p. p\<lparr>pool_lock := l\<rparr>) (hmem h))"
      "\<forall>m2. pool_lock (pool_of PF_KERNEL m2) = l \<longrightarrow> mkern m2 = mkern (hmem h) \<longrightarrow>
          (\<exists>l'. release_pool PF_KERNEL m2 = Some (upd_pool PF_KERNEL (\<lambda>p. p\<lparr>pool_lock := l'\<rparr>) m2) \<and> lock_idle l')"
    using acquire_pool_idle [OF k] by (elim exE conjE) (rule that)
  show ?thesis
  proof (intro exI [of _ l] conjI allI impI)
    fix h' assume h': "heap_inv h'" "same_ctx (upd_pool PF_KERNEL (\<lambda>p. p\<lparr>pool_lock := l\<rparr>) (hmem h)) (hmem h')"
    then have "pool_lock (pool_of PF_KERNEL (hmem h')) = l" "mkern (hmem h') = mkern (hmem h)"
      by (simp_all add: same_ctx_def)
    then obtain l' where r: "release_pool PF_KERNEL (hmem h') = Some (upd_pool PF_KERNEL (\<lambda>p. p\<lparr>pool_lock := l'\<rparr>) (hmem h'))"
        "lock_idle l'" "mkern (hmem h') = mkern (hmem h)" using l(2) by blast
    moreover have "in_kernel (upd_pool PF_KERNEL (\<lambda>p. p\<lparr>pool_lock := l'\<rparr>) (hmem h'))"
      using assms(2) r(2,3) by (simp add: in_kernel_def)
    ultimately show "\<exists>m. release_pool PF_KERNEL (hmem h') = Some m \<and> heap_inv (h'\<lparr>hmem := m\<rparr>) \<and> in_kernel m
        \<and> same_pages (hmem h') m \<and> mkern m = mkern (hmem h)"
      using h'(1) heap_lock(1) same_pages_lock [of "hmem h'" l']
      by (intro exI [of _ "upd_pool PF_KERNEL (\<lambda>p. p\<lparr>pool_lock := l'\<rparr>) (hmem h')"]) (simp del: upd_pool.simps)
  qed (rule l(1))
qed

lemma sys_malloc_runs:
  assumes "heap_inv h" and "in_kernel (hmem h)" and "can_get_page (hmem h)" and "sz \<le> 4084"
    and "sz \<le> pool_size (kernel_pool (hmem h))" and "0 < pool_size (kernel_pool (hmem h))"
  shows "\<exists>p n h'. sys_malloc sz h = Some (p, h') \<and> heap_inv h' \<and> in_kernel (hmem h')
    \<and> in_use h' = insert (p, n) (in_use h) \<and> (p, n) \<notin> in_use h \<and> sz \<le> n \<and> n \<le> 4084 \<and> p mod 4 = 0 \<and> p \<noteq> 0"
proof -
  define z where "z = (if sz = 0 then 1 else sz)"
  have z: "sz \<le> z" "z \<le> 4084" "z \<le> pool_size (pool_of PF_KERNEL (hmem h))" using assms(4-6) by (simp_all add: z_def)
  obtain l where l: "acquire_pool PF_KERNEL (hmem h) = Some (upd_pool PF_KERNEL (\<lambda>p. p\<lparr>pool_lock := l\<rparr>) (hmem h))"
      "\<forall>h'. heap_inv h' \<longrightarrow> same_ctx (upd_pool PF_KERNEL (\<lambda>p. p\<lparr>pool_lock := l\<rparr>) (hmem h)) (hmem h') \<longrightarrow>
         (\<exists>m. release_pool PF_KERNEL (hmem h') = Some m \<and> heap_inv (h'\<lparr>hmem := m\<rparr>) \<and> in_kernel m
            \<and> same_pages (hmem h') m \<and> mkern m = mkern (hmem h))"
    using with_lock [OF assms(1,2)] by (elim exE conjE) (rule that)
  define h1 where "h1 = h\<lparr>hmem := upd_pool PF_KERNEL (\<lambda>p. p\<lparr>pool_lock := l\<rparr>) (hmem h)\<rparr>"
  have h1: "heap_inv h1" "can_get_page (hmem h1)" "in_use h1 = in_use h"
    using assms(1,3) by (simp_all add: h1_def heap_lock del: upd_pool.simps)
  have "\<exists>p n h2. (if 1024 < z then malloc_large PF_KERNEL z h1 else malloc_small PF_KERNEL 0 z h1) = Some (p, h2)
    \<and> heap_inv h2 \<and> in_use h2 = insert (p, n) (in_use h1) \<and> (p, n) \<notin> in_use h1
    \<and> same_ctx (hmem h1) (hmem h2) \<and> p mod 4 = 0 \<and> p \<noteq> 0 \<and> z \<le> n \<and> n \<le> 4084"
  proof (cases "1024 < z")
    case True
    then show ?thesis using malloc_large_runs [OF h1(1,2) True z(2)] z(2) by auto
  next
    case False
    then have "z \<le> 1024" by simp
    from malloc_small_runs [OF h1(1,2) this]
    obtain p i h2 where m: "malloc_small PF_KERNEL 0 z h1 = Some (p, h2)" "heap_inv h2" "i < 7" "z \<le> block_len i"
        "in_use h2 = insert (p, block_len i) (in_use h1)" "(p, block_len i) \<notin> in_use h1"
        "same_ctx (hmem h1) (hmem h2)" "p mod 4 = 0" "p \<noteq> 0"
      by (elim exE conjE) (rule that)
    then show ?thesis using False block_len_le [OF m(3)]
      by (intro exI [of _ p] exI [of _ "block_len i"] exI [of _ h2]) simp
  qed
  then obtain p n h2 where r: "(if 1024 < z then malloc_large PF_KERNEL z h1 else malloc_small PF_KERNEL 0 z h1) = Some (p, h2)"
      "heap_inv h2" "in_use h2 = insert (p, n) (in_use h1)" "(p, n) \<notin> in_use h1"
      "same_ctx (hmem h1) (hmem h2)" "p mod 4 = 0" "p \<noteq> 0" "z \<le> n" "n \<le> 4084"
    by (elim exE conjE) (rule that)
  have "same_ctx (upd_pool PF_KERNEL (\<lambda>p. p\<lparr>pool_lock := l\<rparr>) (hmem h)) (hmem h2)"
    using r(5) by (simp add: h1_def)
  then obtain m where m: "release_pool PF_KERNEL (hmem h2) = Some m" "heap_inv (h2\<lparr>hmem := m\<rparr>)" "in_kernel m"
    using l(2) r(2) by blast
  have "sys_malloc sz h = Some (p, h2\<lparr>hmem := m\<rparr>)"
    unfolding sys_malloc_def z_def [symmetric] using z(3) l(1) r(1) [unfolded h1_def] m(1) heap_of_kernel [OF assms(2)]
    by (simp add: Let_def del: upd_pool.simps split del: if_split)
  then show ?thesis
    using m(2,3) r(3,4,6-9) h1(3) z(1) heap_lock(2)
    by (intro exI [of _ p] exI [of _ n] exI [of _ "h2\<lparr>hmem := m\<rparr>"]) simp
qed

lemma remove_blocks_runs:
  assumes "block_size d = block_len i" and "a + 4096 \<le> 4294967296" and "\<forall>k \<in> set ks. k < blocks_in i"
    and "distinct ks" and "distinct (free_list d)" and "\<forall>k \<in> set ks. a + 12 + k * block_len i \<in> set (free_list d)"
  shows "remove_blocks a ks d = Some (d\<lparr>free_list :=
    filter (\<lambda>b. b \<notin> (\<lambda>k. a + 12 + k * block_len i) ` set ks) (free_list d)\<rparr>)"
  using assms
proof (induction ks arbitrary: d)
  case (Cons k ks)
  let ?b = "\<lambda>k. a + 12 + k * block_len i"
  have "arena2block a k d = ?b k"
    by (rule arena2block_eq) (use Cons.prems in simp_all)
  moreover have "remove_blocks a ks (d\<lparr>free_list := remove1 (?b k) (free_list d)\<rparr>)
      = Some (d\<lparr>free_list := filter (\<lambda>b. b \<notin> ?b ` set ks) (remove1 (?b k) (free_list d))\<rparr>)"
    by (subst Cons.IH) (use Cons.prems in auto)
  moreover have "filter (\<lambda>b. b \<notin> ?b ` set ks) (remove1 (?b k) (free_list d))
      = filter (\<lambda>b. b \<notin> ?b ` set (k # ks)) (free_list d)"
    using Cons.prems(5) by (simp add: distinct_remove1_removeAll removeAll_filter_not_eq) (rule filter_cong, auto)
  ultimately show ?case using Cons.prems by (simp add: Let_def)
qed simp

text \<open>A piece is the only one on its page exactly when it is the last one of its arena.\<close>

definition alone :: "nat \<Rightarrow> (nat \<times> nat) set \<Rightarrow> bool" where
  "alone p U \<longleftrightarrow> (\<forall>(q, k) \<in> U. frame q = frame p \<longrightarrow> q = p)"

lemma alone_small:
  assumes "arenas_ok A F H" and "A a = Some ar" and "small ar i" and "b \<in> blocks a i" and "b \<notin> set (F i)"
  shows "alone b (used A F) \<longleftrightarrow> a_cnt ar + 1 = blocks_in i"
proof -
  note at = arena_place [OF assms(1,2)]
  have fr: "frame q = a" if "q \<in> blocks a i" for q using blocks_frame [OF at(2) that] .
  have here: "(q, k) \<in> used A F \<and> frame q = a \<longleftrightarrow> q \<in> blocks a i - set (F i) \<and> k = block_len i" for q k
  proof -
    have "(q, k) \<in> used A F \<and> frame q = a \<longleftrightarrow> (q, k) \<in> piece F a (A a)"
      using in_used [OF assms(1), of q k] piece_frame [OF at(2)] by (metis (full_types))
    also have "\<dots> \<longleftrightarrow> q \<in> blocks a i - set (F i) \<and> k = block_len i"
      using assms(2,3) by (auto simp: in_piece small_def)
    finally show ?thesis .
  qed
  have "alone b (used A F) \<longleftrightarrow> (\<forall>q k. (q, k) \<in> used A F \<and> frame q = a \<longrightarrow> q = b)"
    using fr [OF assms(4)] by (auto simp: alone_def)
  also have "\<dots> \<longleftrightarrow> blocks a i - set (F i) = {b}" unfolding here using assms(4,5) by auto
  also have "\<dots> \<longleftrightarrow> card (blocks a i - set (F i)) = 1"
    unfolding One_nat_def card_1_singleton_iff using assms(4,5) by (metis Diff_iff singletonD)
  also have "card (blocks a i - set (F i)) = blocks_in i - a_cnt ar"
    using card_Diff_subset_Int [of "blocks a i" "set (F i)"] at(3) [OF assms(3)] by (simp add: Int_commute)
  finally show ?thesis using arena_put(3) [OF assms] by auto
qed

lemma alone_large:
  assumes "arenas_ok A F H" and "A a = Some ar" and "a_large ar" and "p = a + 12"
  shows "alone p (used A F)"
proof -
  have "frame p = a" using arena_place(2) [OF assms(1,2)] assms(4) by (auto simp: frame_def elim!: dvdE [OF mod_0_imp_dvd])
  then show ?thesis
    using in_used [OF assms(1)] assms(2-4) by (auto simp: alone_def in_piece small_def)
qed

lemma free_small_runs:
  assumes "heap_inv h" and "kernel_arenas h a = Some ar" and "small ar i" and "b \<in> blocks a i"
    and "b \<notin> set (kernel_lists h i)"
  shows "\<exists>h'. free_small PF_KERNEL b a ar h = Some h' \<and> heap_inv h' \<and> in_use h' = in_use h - {(b, block_len i)}
    \<and> same_ctx (hmem h) (hmem h')
    \<and> (if alone b (in_use h) then page_freed a (hmem h) (hmem h') else hmem h' = hmem h)"
proof -
  have hok: "heap_ok h" using assms(1) by (simp add: heap_inv_def)
  note ok = heap_okD [OF hok]
  note at = arena_place [OF ok(6) assms(2)]
  have i: "i < 7" using at(3) [OF assms(3)] by simp
  note page = heap_page [OF hok at(1)]
  have lim: "a + 4096 \<le> 4294967296" using page(2) by simp
  note put = arena_put [OF ok(6) assms(2-5)]
  define d where "d = descs h 0 ! i"
  define L where "L = free_list d @ [b]"
  have d: "block_size d = block_len i" "blocks_per_arena d = blocks_in i" "free_list d = kernel_lists h i"
    using ok(4,5) i by (simp_all add: d_def kernel_lists_def)
  have L: "L = kernel_lists h i @ [b]" "distinct L"
    using d(3) arenas_okD(2) [OF ok(6) i] assms(5) by (simp_all add: L_def)
  have rd: "rd_at (descs h 0) i = Some d" using ok(3) i by (simp add: rd_at_def d_def)
  have cnt: "add32 (a_cnt ar) 1 = a_cnt ar + 1"
    using put(3) blocks_in_less [of i] by (simp add: add32_small)
  have desc: "a_desc ar = Some (0, i)" using assms(3) by (simp add: small_def)
  have busy: "a_cnt cr < blocks_in j" if "kernel_arenas h c = Some cr" "small cr j" for c cr j
    using that assms(1) by (auto simp: heap_inv_def)
  have al: "alone b (in_use h) \<longleftrightarrow> a_cnt ar + 1 = blocks_in i"
    unfolding in_use_def by (rule alone_small [OF ok(6) assms(2-5)])
  show ?thesis
  proof (cases "a_cnt ar + 1 = blocks_in i")
    case False
    define h' where "h' = upd_desc 0 i (d\<lparr>free_list := L\<rparr>)
      (h\<lparr>hmem := hmem h, arenas := (arenas h)((0, a) := Some (ar\<lparr>a_cnt := a_cnt ar + 1\<rparr>))\<rparr>)"
    have run: "free_small PF_KERNEL b a ar h = Some h'"
      using desc rd assms(5) d(2,3) cnt False page(3) unfolding free_small_def h'_def L_def
      by (simp add: Let_def)
    have "heap_ok h'" and new: "kernel_arenas h' = (kernel_arenas h)(a \<mapsto> ar\<lparr>a_cnt := a_cnt ar + 1\<rparr>)"
        "kernel_lists h' = (kernel_lists h)(i := L)"
      using heap_ok_upd [OF hok i, of "d\<lparr>free_list := L\<rparr>" "hmem h" a "Some (ar\<lparr>a_cnt := a_cnt ar + 1\<rparr>)" h'] d ok(1) put(1)
      by (simp_all add: h'_def L(1))
    moreover have "a_cnt cr < blocks_in j" if "kernel_arenas h' c = Some cr" "small cr j" for c cr j
    proof (cases "c = a")
      case True
      then have "j = i" "a_cnt cr = a_cnt ar + 1" using that desc new(1) by (auto simp: small_def)
      then show ?thesis using put(3) False by simp
    qed (use that new(1) busy in simp)
    ultimately have "heap_inv h'" by (simp add: heap_inv_def)
    moreover have "in_use h' = in_use h - {(b, block_len i)}" using put(2) new L(1) by (simp add: in_use_def)
    ultimately show ?thesis using run al False
      by (intro exI [of _ h']) (simp add: same_ctx_def h'_def)
  next
    case True
    define M where "M = filter (\<lambda>b. b \<notin> blocks a i) L"
    have blk: "(\<lambda>k. a + 12 + k * block_len i) ` set [0..<blocks_in i] = blocks a i"
      by (simp add: blocks_def atLeast0LessThan)
    have small1: "small (ar\<lparr>a_cnt := a_cnt ar + 1\<rparr>) i" using assms(3) by (simp add: small_def)
    have drop: "arenas_ok ((kernel_arenas h)(a := None)) ((kernel_lists h)(i := M)) (held_pages (hmem h) - {a})"
        "used ((kernel_arenas h)(a := None)) ((kernel_lists h)(i := M)) = in_use h - {(b, block_len i)}"
        "blocks a i \<subseteq> set L"
    proof -
      have p: "((kernel_arenas h)(a \<mapsto> ar\<lparr>a_cnt := a_cnt ar + 1\<rparr>)) a = Some (ar\<lparr>a_cnt := a_cnt ar + 1\<rparr>)"
          "a_cnt (ar\<lparr>a_cnt := a_cnt ar + 1\<rparr>) = blocks_in i" "distinct M"
          "set M = set (((kernel_lists h)(i := kernel_lists h i @ [b])) i) - blocks a i"
        using True L by (auto simp: M_def)
      note dr = arena_drop [OF put(1) p(1) small1 p(2-4), unfolded fun_upd_upd put(2)]
      show "arenas_ok ((kernel_arenas h)(a := None)) ((kernel_lists h)(i := M)) (held_pages (hmem h) - {a})"
        by (rule dr(1))
      show "used ((kernel_arenas h)(a := None)) ((kernel_lists h)(i := M)) = in_use h - {(b, block_len i)}"
        using dr(2) by (simp add: in_use_def)
      show "blocks a i \<subseteq> set L" using dr(3) L(1) by simp
    qed
    have "\<forall>k \<in> set [0..<blocks_in i]. a + 12 + k * block_len i \<in> set L" using drop(3) blk by auto
    then have rm: "remove_blocks a [0..<blocks_in i] (d\<lparr>free_list := L\<rparr>) = Some (d\<lparr>free_list := M\<rparr>)"
      using remove_blocks_runs [of "d\<lparr>free_list := L\<rparr>" i a "[0..<blocks_in i]"] d(1) lim L(2) blk
      by (simp add: M_def)
    obtain m where m: "mfree_page PF_KERNEL a 1 (hmem h) = Some m" "pages_ok m" "held_pages m = held_pages (hmem h) - {a}"
        "page_freed a (hmem h) m"
        "mkern m = mkern (hmem h)" "pool_lock (kernel_pool m) = pool_lock (kernel_pool (hmem h))"
        "vaddr_start (kernel_vaddr m) = vaddr_start (kernel_vaddr (hmem h))"
      using mfree_one_page [OF ok(1) at(1)] by (elim exE conjE) (rule that)
    define h' where "h' = upd_desc 0 i (d\<lparr>free_list := M\<rparr>) (h\<lparr>hmem := m, arenas := (arenas h)((0, a) := None)\<rparr>)"
    have run: "free_small PF_KERNEL b a ar h = Some h'"
      using desc rd assms(5) d(2,3) cnt True page(3) rm m(1) unfolding free_small_def h'_def L_def
      by (simp add: Let_def)
    have "heap_ok h'" and new: "kernel_arenas h' = (kernel_arenas h)(a := None)"
        "kernel_lists h' = (kernel_lists h)(i := M)"
      using heap_ok_upd [OF hok i, of "d\<lparr>free_list := M\<rparr>" m a None h'] d m(2,3,7) drop(1)
      by (simp_all add: h'_def)
    moreover have "a_cnt cr < blocks_in j" if "kernel_arenas h' c = Some cr" "small cr j" for c cr j
      using that new(1) busy by (cases "c = a") auto
    ultimately have "heap_inv h'" by (simp add: heap_inv_def)
    moreover have "in_use h' = in_use h - {(b, block_len i)}" using drop(2) new by (simp add: in_use_def)
    ultimately show ?thesis using run m(4-7) al True
      by (intro exI [of _ h']) (simp add: same_ctx_def h'_def)
  qed
qed

text \<open>C13: For a kernel thread, \<open>sys_malloc\<close> of at most 4084 bytes returns an aligned, non-null
  address of a piece of memory that is large enough and overlaps no piece in use, and exactly
  this piece is in use afterwards; the heap invariant holds and the pool lock is free again.\<close>

theorem sys_malloc_fresh:
  assumes "heap_inv h" and "in_kernel (hmem h)" and "can_get_page (hmem h)" and "sz \<le> 4084"
    and "sz \<le> pool_size (kernel_pool (hmem h))" and "0 < pool_size (kernel_pool (hmem h))"
  shows "\<exists>p n h'. sys_malloc sz h = Some (p, h') \<and> heap_inv h' \<and> in_kernel (hmem h')
    \<and> in_use h' = insert (p, n) (in_use h) \<and> sz \<le> n \<and> n \<le> 4084 \<and> p mod 4 = 0 \<and> p \<noteq> 0
    \<and> (\<forall>(q, k) \<in> in_use h. {p..<p + n} \<inter> {q..<q + k} = {})"
proof -
  obtain p n h' where r: "sys_malloc sz h = Some (p, h')" "heap_inv h'" "in_kernel (hmem h')"
      "in_use h' = insert (p, n) (in_use h)" "(p, n) \<notin> in_use h" "sz \<le> n" "n \<le> 4084" "p mod 4 = 0" "p \<noteq> 0"
    using sys_malloc_runs [OF assms] by (elim exE conjE) (rule that)
  have ok: "arenas_ok (kernel_arenas h') (kernel_lists h') (held_pages (hmem h'))"
    using r(2) heap_okD(6) by (simp add: heap_inv_def)
  have "{p..<p + n} \<inter> {q..<q + k} = {}" if "(q, k) \<in> in_use h" for q k
    by (rule used_disjoint [OF ok]) (use that r(4,5) in \<open>auto simp: in_use_def [symmetric]\<close>)
  then show ?thesis using r by (intro exI [of _ p] exI [of _ n] exI [of _ h']) auto
qed

section \<open>An empty heap\<close>

definition sample_heap :: heap where
  "sample_heap = \<lparr>hmem = sample_mem\<lparr>kernel_vaddr := \<lparr>bitmap_vaddr = \<lparr>bitmap_byte_len = 2, bits = [0, 0]\<rparr>,
     vaddr_start = K_HEAD_START\<rparr>\<rparr>, arenas = (\<lambda>a. None), descs = (\<lambda>t. block_desk_init)\<rparr>"

lemma desc_loop_eq:
  "i + n \<le> 11 \<Longrightarrow> desc_loop n (block_len i)
    = map (\<lambda>i. \<lparr>block_size = block_len i, blocks_per_arena = blocks_in i, free_list = []\<rparr>) [i..<i + n]"
proof (induction n arbitrary: i)
  case (Suc n)
  have "(2::nat) ^ i \<le> 2 ^ 10" using Suc.prems by (intro power_increasing) simp_all
  then have "u16 (block_len i * 2) = block_len (Suc i)" by (simp add: block_len_def u16_def)
  moreover have "[i..<i + Suc n] = i # [Suc i..<Suc i + n]" by (simp add: upt_rec [of i])
  ultimately show ?case
    using Suc.IH [of "Suc i"] Suc.prems by (simp add: blocks_in_def PG_SIZE_def ARENA_SIZE_def)
qed simp

lemma block_desk_init_eq:
  "block_desk_init = map (\<lambda>i. \<lparr>block_size = block_len i, blocks_per_arena = blocks_in i, free_list = []\<rparr>) [0..<7]"
  using desc_loop_eq [of 0 7] by (simp add: block_desk_init_def DESC_CNT_def block_len_def)

lemma sample_heap_ok: "heap_inv sample_heap" "in_kernel (hmem sample_heap)" "can_get_page (hmem sample_heap)"
  "in_use sample_heap = {}" "pool_size (kernel_pool (hmem sample_heap)) = 0x10000"
proof -
  let ?m = "hmem sample_heap"
  have f: "bmbit \<lparr>bitmap_byte_len = 2, bits = [0, 0]\<rparr> k = False" if "k < 16" for k
    using that by (cases "k < 8") (auto simp: bmbit_def nth_Cons')
  have pte: "\<not> present (pte_at ?m i j)" if "i < 1023" "present (pde_at ?m i)" "j < 1024" for i j
    using that by (auto simp: sample_heap_def pte_at_def pde_at_def sample_mem_def present_def frame_def split: if_splits)
  have "translate ?m (0xC0100000 + 4096 * i) = None" if "i < 16" for i
  proof -
    have "(0xC0100000 + 4096 * i) div 4194304 = 768" "(0xC0100000 + 4096 * i) div 4096 mod 1024 < (1024::nat)"
      using that by simp_all
    then show ?thesis using pte [of 768] by (simp add: translate_walk)
  qed
  then have kv: "kvaddr_ok ?m" by (simp add: kvaddr_ok_def sample_heap_def bm_wf_def bm_size_def K_HEAD_START_def)
  have held: "held_pages ?m = {}" using f by (auto simp: held_pages_def sample_heap_def bm_size_def)
  have "sole ?m" using pte by (auto simp: sole_def mapped_at_def)
  then have "pages_ok ?m"
    using kv held sample_mem_ok(1,3) by (simp add: pages_ok_def words_ok_def) (simp add: sample_heap_def)
  then show "heap_inv sample_heap"
    using held by (auto simp: heap_inv_def heap_ok_def arenas_ok_def kernel_arenas_def kernel_lists_def
        block_desk_init_eq) (simp_all add: sample_heap_def block_desk_init_eq K_HEAD_START_def)
  show "in_kernel ?m"
    using sample_mem_ok(4,5) by (simp add: in_kernel_def sample_heap_def)
      (simp add: sample_mem_def sample_kst_def sample_task_def)
  have "free_run \<lparr>bitmap_byte_len = 2, bits = [0, 0]\<rparr> 1 0" using f [of 0] by (simp add: free_run_iff)
  then have "first_run \<lparr>bitmap_byte_len = 2, bits = [0, 0]\<rparr> 1 = Some 0"
    by (auto simp: first_run_Some bm_size_def)
  then show "can_get_page ?m"
    using sample_mem_ok(6) by (auto simp: can_get_page_def sample_heap_def)
  show "in_use sample_heap = {}" by (auto simp: in_use_def used_def in_piece kernel_arenas_def sample_heap_def)
  show "pool_size (kernel_pool ?m) = 0x10000" by (simp add: sample_heap_def sample_mem_def)
qed

theorem sys_malloc_fresh_witness:
  "\<exists>p n h'. sys_malloc 100 sample_heap = Some (p, h') \<and> in_use h' = {(p, n)} \<and> 100 \<le> n \<and> heap_inv h'"
proof -
  obtain p n h' where "sys_malloc 100 sample_heap = Some (p, h')" "heap_inv h'" "in_use h' = {(p, n)}" "100 \<le> n"
    using sys_malloc_fresh [OF sample_heap_ok(1-3), of 100] unfolding sample_heap_ok(4,5) by auto
  then show ?thesis by blast
qed

text \<open>C14: For a kernel thread, \<open>sys_free\<close> of a piece of at most one page that is in use runs, takes
  exactly this piece out of use and keeps the heap invariant (in which no arena is kept
  when all its blocks are free). When the piece was the last one in use on its page, the page is
  given back: its address is held no more, is not mapped, and the frame behind it, which was in use,
  is the one frame that is free in addition. Otherwise pages and frames stay as they are.\<close>

theorem sys_free_returns:
  assumes "heap_inv h" and "in_kernel (hmem h)" and "(p, n) \<in> in_use h" and "n \<le> 4084"
  shows "\<exists>h'. sys_free p h = Some h' \<and> heap_inv h' \<and> in_kernel (hmem h') \<and> in_use h' = in_use h - {(p, n)}
    \<and> (if alone p (in_use h) then page_freed (frame p) (hmem h) (hmem h') else same_pages (hmem h) (hmem h'))"
proof -
  obtain l where l: "acquire_pool PF_KERNEL (hmem h) = Some (upd_pool PF_KERNEL (\<lambda>p. p\<lparr>pool_lock := l\<rparr>) (hmem h))"
      "\<forall>h'. heap_inv h' \<longrightarrow> same_ctx (upd_pool PF_KERNEL (\<lambda>p. p\<lparr>pool_lock := l\<rparr>) (hmem h)) (hmem h') \<longrightarrow>
         (\<exists>m. release_pool PF_KERNEL (hmem h') = Some m \<and> heap_inv (h'\<lparr>hmem := m\<rparr>) \<and> in_kernel m
            \<and> same_pages (hmem h') m \<and> mkern m = mkern (hmem h))"
    using with_lock [OF assms(1,2)] by (elim exE conjE) (rule that)
  define h1 where "h1 = h\<lparr>hmem := upd_pool PF_KERNEL (\<lambda>p. p\<lparr>pool_lock := l\<rparr>) (hmem h)\<rparr>"
  have h1: "heap_inv h1" "in_use h1 = in_use h"
    using assms(1) by (simp_all add: h1_def heap_lock del: upd_pool.simps)
  have ok: "heap_ok h1" using h1(1) by (simp add: heap_inv_def)
  note aok = heap_okD(6) [OF ok]
  have use: "(p, n) \<in> used (kernel_arenas h1) (kernel_lists h1)" using assms(3) h1(2) by (simp add: in_use_def)
  define a where "a = frame p"
  obtain ar where ar: "kernel_arenas h1 a = Some ar"
      "a_large ar \<and> p = a + 12 \<and> n = 4096 * a_cnt ar - 12
        \<or> (\<exists>i. small ar i \<and> n = block_len i \<and> p \<in> blocks a i \<and> p \<notin> set (kernel_lists h1 i))"
    using use unfolding in_used [OF aok] in_piece a_def by blast
  have pg: "a \<in> held_pages (hmem h1)" by (rule arena_place(1) [OF aok ar(1)])
  note page = heap_page [OF ok pg]
  have p: "a + 12 \<le> p" "p < 4294967296"
    using ar(2) blocks_range [of p a] page(2) block_len_pos(1) by (elim disjE exE conjE; force)+
  have b2a: "block2arena p = a" using and_frame [OF p(2)] by (simp add: block2arena_def a_def)
  have hdr: "arenas h1 (0, a) = Some ar" using ar(1) by (simp add: kernel_arenas_def)
  have "\<exists>h2. (if a_desc ar = None \<and> a_large ar then do {
             m \<leftarrow> mfree_page PF_KERNEL a (a_cnt ar) (hmem h1);
             Some (h1\<lparr>hmem := m, arenas := (arenas h1)(arena_key h1 a := None)\<rparr>)
           } else free_small PF_KERNEL p a ar h1) = Some h2
     \<and> heap_inv h2 \<and> in_use h2 = in_use h1 - {(p, n)} \<and> same_ctx (hmem h1) (hmem h2)
     \<and> (if alone p (in_use h1) then page_freed a (hmem h1) (hmem h2) else hmem h2 = hmem h1)"
    using ar(2)
  proof (elim disjE exE conjE)
    assume big: "a_large ar" "p = a + 12" "n = 4096 * a_cnt ar - 12"
    have c: "a_cnt ar = 1" using arenas_okD(4) [OF aok ar(1)] big assms(4) by (simp add: npages_def)
    obtain m where m: "mfree_page PF_KERNEL a 1 (hmem h1) = Some m" "pages_ok m" "held_pages m = held_pages (hmem h1) - {a}"
        "page_freed a (hmem h1) m"
        "mkern m = mkern (hmem h1)" "pool_lock (kernel_pool m) = pool_lock (kernel_pool (hmem h1))"
        "vaddr_start (kernel_vaddr m) = vaddr_start (kernel_vaddr (hmem h1))"
      using mfree_one_page [OF heap_okD(1) [OF ok] pg] by (elim exE conjE) (rule that)
    define h2 where "h2 = h1\<lparr>hmem := m, arenas := (arenas h1)((0, a) := None)\<rparr>"
    have new: "kernel_arenas h2 = (kernel_arenas h1)(a := None)" "kernel_lists h2 = kernel_lists h1"
      by (simp_all add: h2_def) (auto simp: kernel_arenas_def)
    note dr = arena_large_drop [OF aok ar(1) big(1) c]
    have "heap_inv h2"
      unfolding heap_inv_def heap_ok_def new
    proof (intro conjI allI impI)
      show "arenas_ok ((kernel_arenas h1)(a := None)) (kernel_lists h1) (held_pages (hmem h2))"
        using dr(1) m(3) by (simp add: h2_def)
      show "a_cnt cr < blocks_in j" if "((kernel_arenas h1)(a := None)) c = Some cr" "small cr j" for c cr j
        using that h1(1) by (cases "c = a") (auto simp: heap_inv_def)
    qed (use heap_okD [OF ok] m(2,7) in \<open>simp_all add: h2_def\<close>)
    moreover have "alone p (in_use h1)"
      unfolding in_use_def by (rule alone_large [OF aok ar(1) big(1,2)])
    moreover have "in_use h2 = in_use h1 - {(p, n)}" using dr(2) new c big by (simp add: in_use_def)
    ultimately show ?thesis
      using m(1,4-7) c big page(3) arenas_okD(6) [OF aok ar(1)]
      by (intro exI [of _ h2]) (simp add: h2_def same_ctx_def)
  next
    fix i assume i: "small ar i" "n = block_len i" "p \<in> blocks a i" "p \<notin> set (kernel_lists h1 i)"
    then show ?thesis using free_small_runs [OF h1(1) ar(1) i(1,3,4)] by (simp add: small_def)
  qed
  then obtain h2 where h2: "(if a_desc ar = None \<and> a_large ar then do {
             m \<leftarrow> mfree_page PF_KERNEL a (a_cnt ar) (hmem h1);
             Some (h1\<lparr>hmem := m, arenas := (arenas h1)(arena_key h1 a := None)\<rparr>)
           } else free_small PF_KERNEL p a ar h1) = Some h2"
     "heap_inv h2" "in_use h2 = in_use h1 - {(p, n)}" "same_ctx (hmem h1) (hmem h2)"
     "if alone p (in_use h1) then page_freed a (hmem h1) (hmem h2) else hmem h2 = hmem h1"
    by (elim exE conjE) (rule that)
  have "same_ctx (upd_pool PF_KERNEL (\<lambda>p. p\<lparr>pool_lock := l\<rparr>) (hmem h)) (hmem h2)"
    using h2(4) by (simp add: h1_def)
  then obtain m where m: "release_pool PF_KERNEL (hmem h2) = Some m" "heap_inv (h2\<lparr>hmem := m\<rparr>)" "in_kernel m"
      "same_pages (hmem h2) m"
    using l(2) h2(2) by blast
  have s1: "same_pages (hmem h) (hmem h1)" using same_pages_lock by (simp add: h1_def del: upd_pool.simps)
  have pages: "if alone p (in_use h) then page_freed (frame p) (hmem h) m else same_pages (hmem h) m"
    using h2(5) h1(2) page_freed_same [OF _ s1 m(4)] same_pages_trans [OF s1] m(4)
    by (auto simp: a_def split: if_splits)
  have "sys_free p h = Some (h2\<lparr>hmem := m\<rparr>)"
    using p(1) l(1) hdr m(1) heap_of_kernel [OF assms(2)] h2(1) page(3) b2a unfolding sys_free_def h1_def
    by (simp add: Let_def del: upd_pool.simps split del: if_split)
  then show ?thesis
    using m(2,3) h2(3) h1(2) heap_lock(2) pages
    by (intro exI [of _ "h2\<lparr>hmem := m\<rparr>"]) simp
qed

theorem sys_free_returns_witness:
  "\<exists>p h1 h2. sys_malloc 100 sample_heap = Some (p, h1) \<and> sys_free p h1 = Some h2 \<and> in_use h2 = {} \<and> heap_inv h2
     \<and> frame p \<in> held_pages (hmem h1) \<and> frame p \<notin> held_pages (hmem h2) \<and> translate (hmem h2) (frame p) = None"
proof -
  have "\<exists>p n h1. sys_malloc 100 sample_heap = Some (p, h1) \<and> heap_inv h1 \<and> in_kernel (hmem h1)
      \<and> in_use h1 = {(p, n)} \<and> n \<le> 4084"
    using sys_malloc_runs [OF sample_heap_ok(1-3), of 100] unfolding sample_heap_ok(4,5) by auto
  then obtain p n h1 where m: "sys_malloc 100 sample_heap = Some (p, h1)" "heap_inv h1" "in_kernel (hmem h1)"
      "in_use h1 = {(p, n)}" "n \<le> 4084"
    by (elim exE conjE) (rule that)
  have "alone p (in_use h1)" using m(4) by (simp add: alone_def)
  then show ?thesis using sys_free_returns [OF m(2,3), of p n] m by (auto simp: page_freed_def)
qed

end
