(* ===== verification/Keyboard.thy ===== *)
theory Keyboard
  imports Prelude IoQueue
begin

text \<open>
  The keyboard interrupt (\<open>device/keyboard.c\<close>): scan codes of set 1 are turned into characters
  and put into the ring buffer \<open>keyboard_iobuffer\<close>. The scan code that the handler reads from the
  port is its argument. The theorems say what a sequence of key strokes leaves in the buffer.
\<close>

section \<open>State and operations\<close>

text \<open>\<open>bool\<close> is an enumeration, so \<open>~caps_lock_status\<close> works on all 32 bits; the other flags are 0 or 1.\<close>

record kbd =
  ctrl_status :: bool
  shift_status :: bool
  alt_status :: bool
  caps_lock_status :: nat
  ext_scancode :: bool
  keyboard_iobuffer :: ioqueue

definition shift_l_make :: nat where "shift_l_make = 0x2a"
definition shift_r_make :: nat where "shift_r_make = 0x36"
definition alt_l_make :: nat where "alt_l_make = 0x38"
definition alt_r_make :: nat where "alt_r_make = 0xe038"
definition ctrl_l_make :: nat where "ctrl_l_make = 0x1d"
definition ctrl_r_make :: nat where "ctrl_r_make = 0xe01d"
definition caps_lock_make :: nat where "caps_lock_make = 0x3a"

text \<open>The character of a key and its character with the shift key, by make code.\<close>

definition keymap :: "(byte \<times> byte) list" where
  "keymap = [(0, 0), (27, 27), (49, 33), (50, 64), (51, 35), (52, 36), (53, 37), (54, 94), (55, 38),
     (56, 42), (57, 40), (48, 41), (45, 95), (61, 43), (8, 8), (9, 9),
     (113, 81), (119, 87), (101, 69), (114, 82), (116, 84), (121, 89), (117, 85), (105, 73),
     (111, 79), (112, 80), (91, 123), (93, 125), (13, 13), (0, 0),
     (97, 65), (115, 83), (100, 68), (102, 70), (103, 71), (104, 72), (106, 74), (107, 75), (108, 76),
     (59, 58), (39, 34), (96, 126), (0, 0), (92, 124),
     (122, 90), (120, 88), (99, 67), (118, 86), (98, 66), (110, 78), (109, 77),
     (44, 60), (46, 62), (47, 63), (0, 0), (42, 42), (0, 0), (32, 32), (0, 0)]"

definition key_of :: "nat \<Rightarrow> bool \<Rightarrow> byte" where
  "key_of code sh = (if sh then snd (keymap ! code) else fst (keymap ! code))"

text \<open>Keys on which caps lock has no effect.\<close>

definition ignores_caps :: "nat \<Rightarrow> bool" where
  "ignores_caps code \<longleftrightarrow> 0x1 \<le> code \<and> code \<le> 0xd \<or> code = 0x1a \<or> code = 0x1b \<or> code = 0x27 \<or> code = 0x28
     \<or> code = 0x29 \<or> code = 0x2b \<or> 0x33 \<le> code"

definition temp_shift :: "kbd \<Rightarrow> bool" where
  "temp_shift kb = (if shift_status kb \<and> caps_lock_status kb = 1 then False
     else if caps_lock_status kb = 1 then True else shift_status kb)"

definition cur_char :: "kbd \<Rightarrow> nat \<Rightarrow> byte" where
  "cur_char kb code =
     (let c = (if ignores_caps code then key_of code (shift_status kb) else key_of code (temp_shift kb))
      in if ctrl_status kb \<and> c = 108 \<or> ctrl_status kb \<and> c = 117 then c - 97 else c)"

definition key_break :: "nat \<Rightarrow> kbd \<Rightarrow> kbd" where
  "key_break code kb =
     (let make_code = code AND 0x7f
      in if make_code = shift_l_make then kb\<lparr>shift_status := False\<rparr>
         else if make_code = alt_l_make then kb\<lparr>alt_status := False\<rparr>
         else if make_code = ctrl_l_make then kb\<lparr>ctrl_status := False\<rparr>
         else kb)"

text \<open>The character goes into the buffer unless it is full; \<open>ioq_putchar\<close> then does not wait.\<close>

definition key_enqueue :: "byte \<Rightarrow> kbd \<Rightarrow> kst \<Rightarrow> (kbd \<times> kst) option" where
  "key_enqueue c kb s =
     (if c \<noteq> 0 \<and> \<not> ioq_full (keyboard_iobuffer kb) then do {
        (done, q, s) \<leftarrow> ioq_putchar c (keyboard_iobuffer kb) s;
        Some (kb\<lparr>keyboard_iobuffer := q\<rparr>, s)
      } else Some (kb, s))"

definition intr_keyboard_handler :: "nat \<Rightarrow> kbd \<Rightarrow> kst \<Rightarrow> (kbd \<times> kst) option" where
  "intr_keyboard_handler scanned_code kb s = do {
     _ \<leftarrow> ensure (\<not> intr s);
     if scanned_code = 0xe0 then Some (kb\<lparr>ext_scancode := True\<rparr>, s)
     else do {
       let break_code = (scanned_code AND 0x80 \<noteq> 0);
       let code = (if ext_scancode kb then 0xe000 OR scanned_code else scanned_code);
       let kb = kb\<lparr>ext_scancode := False\<rparr>;
       if break_code then Some (key_break code kb, s)
       else if code = shift_l_make \<or> code = shift_r_make then Some (kb\<lparr>shift_status := True\<rparr>, s)
       else if code = alt_l_make \<or> code = alt_r_make then Some (kb\<lparr>alt_status := True\<rparr>, s)
       else if code = ctrl_l_make \<or> code = ctrl_r_make then Some (kb\<lparr>ctrl_status := True\<rparr>, s)
       else if code = caps_lock_make then
         Some (kb\<lparr>caps_lock_status := 4294967295 - caps_lock_status kb\<rparr>, s)
       else if 0 < code \<and> code < 0x3b then key_enqueue (cur_char kb code) kb s
       else Some (kb, s)
     }
   }"

definition keyboard_init :: "kbd \<Rightarrow> kbd" where
  "keyboard_init kb = kb\<lparr>keyboard_iobuffer := ioqueue_init (keyboard_iobuffer kb)\<rparr>"

fun run_codes :: "nat list \<Rightarrow> kbd \<Rightarrow> kst \<Rightarrow> (kbd \<times> kst) option" where
  "run_codes [] kb s = Some (kb, s)"
| "run_codes (c # cs) kb s = do {
     (kb, s) \<leftarrow> intr_keyboard_handler c kb s;
     run_codes cs kb s
   }"

section \<open>Key strokes\<close>

text \<open>Keys with a character of their own.\<close>

definition char_key :: "nat \<Rightarrow> bool" where
  "char_key k \<longleftrightarrow> 0 < k \<and> k < 0x3b \<and> k \<notin> {0x1d, 0x2a, 0x36, 0x38, 0x3a}"

lemma run_codes_append:
  "run_codes (cs @ ds) kb s = Option.bind (run_codes cs kb s) (\<lambda>(kb, s). run_codes ds kb s)"
  by (induction cs arbitrary: kb s) (auto split: bind_splits)

lemma keymap_char: "char_key k \<Longrightarrow> key_of k sh \<noteq> 0"
proof -
  have "\<forall>k < 0x3b. k \<in> {0, 0x1d, 0x2a, 0x36, 0x38, 0x3a} \<or> fst (keymap ! k) \<noteq> 0 \<and> snd (keymap ! k) \<noteq> 0"
    by code_simp
  then show "char_key k \<Longrightarrow> key_of k sh \<noteq> 0" by (auto simp: char_key_def key_of_def)
qed

lemma make_break_bits:
  fixes k :: nat
  assumes "k < 0x80"
  shows "k AND 0x80 = 0" and "(k + 0x80) AND 0x80 \<noteq> 0" and "(k + 0x80) AND 0x7f = k"
proof -
  have e: "(0x80::nat) = 2 ^ 7" "(0x7f::nat) = mask 7" by (simp_all add: mask_eq_exp_minus_1)
  show "k AND 0x80 = 0" using assms unfolding e(1) and_exp_eq_0_iff_not_bit by (simp add: bit_iff_odd)
  have "(k + 2 ^ 7) div 2 ^ 7 = Suc 0" using assms by simp
  then show "(k + 0x80) AND 0x80 \<noteq> 0" unfolding e(1) and_exp_eq_0_iff_not_bit by (simp add: bit_iff_odd)
  show "(k + 0x80) AND 0x7f = k" using assms unfolding e(2) take_bit_eq_mask [symmetric]
    by (simp add: take_bit_eq_mod)
qed

lemma char_key_small: "char_key k \<Longrightarrow> k < 0x80"
  by (simp add: char_key_def)

lemma no_ext [simp]: "\<not> ext_scancode kb \<Longrightarrow> kb\<lparr>ext_scancode := False\<rparr> = kb"
  by simp

lemma handler_make:
  assumes "char_key k" and "\<not> intr s" and "\<not> ext_scancode kb"
  shows "intr_keyboard_handler k kb s = key_enqueue (cur_char kb k) kb s"
  using assms make_break_bits(1) [OF char_key_small [OF assms(1)]]
  by (auto simp: intr_keyboard_handler_def Let_def char_key_def shift_l_make_def shift_r_make_def alt_l_make_def
      alt_r_make_def ctrl_l_make_def ctrl_r_make_def caps_lock_make_def)

lemma handler_break:
  assumes "char_key k" and "\<not> intr s" and "\<not> ext_scancode kb"
  shows "intr_keyboard_handler (k + 0x80) kb s = Some (kb, s)"
  using assms make_break_bits [OF char_key_small [OF assms(1)]]
  by (auto simp: intr_keyboard_handler_def Let_def char_key_def key_break_def shift_l_make_def alt_l_make_def
      ctrl_l_make_def)

lemma cur_char_plain:
  "\<not> ctrl_status kb \<Longrightarrow> caps_lock_status kb \<noteq> 1 \<Longrightarrow> cur_char kb k = key_of k (shift_status kb)"
  by (simp add: cur_char_def temp_shift_def Let_def)

lemma key_enqueue_runs:
  assumes "io_usable (keyboard_iobuffer kb, s)" and "ioq_length (keyboard_iobuffer kb) < 63" and "c \<noteq> 0"
  shows "\<exists>q s'. key_enqueue c kb s = Some (kb\<lparr>keyboard_iobuffer := q\<rparr>, s') \<and> io_usable (q, s')
    \<and> ioq_seq q = ioq_seq (keyboard_iobuffer kb) @ [c] \<and> intr s' = intr s"
proof -
  let ?q = "keyboard_iobuffer kb"
  have wf: "ioq_wf ?q" and u: "wakeable (producer ?q) s" "producer ?q \<noteq> 0 \<longrightarrow> producer ?q \<noteq> consumer ?q"
    using assms(1) by (auto simp: io_usable_def)
  have nf: "\<not> ioq_full ?q" using ioq_full_iff [OF wf] assms(2) by simp
  have run: "key_enqueue c kb s = Some (kb\<lparr>keyboard_iobuffer := (ring_put c ?q)\<lparr>consumer := 0\<rparr>\<rparr>, woken (consumer ?q) s)"
    using assms(3) nf ioq_putchar_runs [OF assms(1,2)] by (simp add: key_enqueue_def)
  have "wakeable (producer ?q) (woken (consumer ?q) s)"
    using woken_keeps [OF u(1)] u(2) by blast
  then have "io_usable ((ring_put c ?q)\<lparr>consumer := 0\<rparr>, woken (consumer ?q) s)"
    using ring_put_wf [OF wf, of c] u(2) by (simp add: io_usable_def wakeable_def)
  then show ?thesis using run ring_put_seq [OF wf assms(2), of c]
    by (intro exI [of _ "(ring_put c ?q)\<lparr>consumer := 0\<rparr>"] exI [of _ "woken (consumer ?q) s"]) (simp add: woken_def)
qed

text \<open>C27: While interrupts are off, control is not held and caps lock does not count, pressing
  and releasing keys with a character puts exactly their characters into the keyboard buffer, in
  order, as long as the buffer has room; the state of the shift key selects the column.\<close>

theorem keys_typed:
  assumes "io_usable (keyboard_iobuffer kb, s)" and "\<not> intr s" and "\<not> ext_scancode kb" and "\<not> ctrl_status kb"
    and "caps_lock_status kb \<noteq> 1" and "\<forall>k \<in> set ks. char_key k"
    and "ioq_length (keyboard_iobuffer kb) + length ks \<le> 63"
  shows "\<exists>q s'. run_codes (concat (map (\<lambda>k. [k, k + 0x80]) ks)) kb s = Some (kb\<lparr>keyboard_iobuffer := q\<rparr>, s')
    \<and> io_usable (q, s') \<and> ioq_seq q = ioq_seq (keyboard_iobuffer kb) @ map (\<lambda>k. key_of k (shift_status kb)) ks"
  using assms
proof (induction ks arbitrary: kb s)
  case Nil
  then show ?case by (intro exI [of _ "keyboard_iobuffer kb"] exI [of _ s]) simp
next
  case (Cons k ks)
  have k: "char_key k" using Cons.prems(6) by simp
  let ?c = "key_of k (shift_status kb)"
  have c: "cur_char kb k = ?c" "?c \<noteq> 0"
    using cur_char_plain [OF Cons.prems(4,5)] keymap_char [OF k] by simp_all
  obtain q s1 where q: "key_enqueue ?c kb s = Some (kb\<lparr>keyboard_iobuffer := q\<rparr>, s1)" "io_usable (q, s1)"
      "ioq_seq q = ioq_seq (keyboard_iobuffer kb) @ [?c]" "intr s1 = intr s"
    using key_enqueue_runs [OF Cons.prems(1) _ c(2)] Cons.prems(7) by auto
  let ?kb = "kb\<lparr>keyboard_iobuffer := q\<rparr>"
  have len: "ioq_length q = Suc (ioq_length (keyboard_iobuffer kb))"
    using arg_cong [OF q(3), of length] by simp
  obtain q' s' where r: "run_codes (concat (map (\<lambda>k. [k, k + 0x80]) ks)) ?kb s1 = Some (?kb\<lparr>keyboard_iobuffer := q'\<rparr>, s')"
      "io_usable (q', s')" "ioq_seq q' = ioq_seq q @ map (\<lambda>k. key_of k (shift_status kb)) ks"
    using Cons.IH [of ?kb s1] Cons.prems q(2,4) len by auto
  have "intr_keyboard_handler k kb s = Some (?kb, s1)" "intr_keyboard_handler (k + 0x80) ?kb s1 = Some (?kb, s1)"
    using handler_make [OF k Cons.prems(2,3)] handler_break [OF k, of s1 ?kb] Cons.prems(2,3) q(1,4) c(1) by simp_all
  then have "run_codes (concat (map (\<lambda>k. [k, k + 0x80]) (k # ks))) kb s = Some (kb\<lparr>keyboard_iobuffer := q'\<rparr>, s')"
    using r(1) by simp
  then show ?case using r(2,3) q(3) by auto
qed

definition sample_kbd :: kbd where
  "sample_kbd = \<lparr>ctrl_status = False, shift_status = False, alt_status = False, caps_lock_status = 0,
     ext_scancode = False, keyboard_iobuffer = sample_ring\<rparr>"

lemma sample_kbd_ok: "io_usable (keyboard_iobuffer sample_kbd, sample_kst\<lparr>intr := False\<rparr>)"
  "ioq_seq (keyboard_iobuffer sample_kbd) = []" "ioq_length (keyboard_iobuffer sample_kbd) = 0"
proof -
  have "consumer sample_ring = 0" "producer sample_ring = 0" by (simp_all add: sample_ring_def ioqueue_init_def)
  then show "io_usable (keyboard_iobuffer sample_kbd, sample_kst\<lparr>intr := False\<rparr>)"
    using sample_ring_usable(1) by (simp add: io_usable_def wakeable_def sample_kbd_def)
  show "ioq_seq (keyboard_iobuffer sample_kbd) = []" using sample_ring_usable(2) by (simp add: sample_kbd_def)
  then show "ioq_length (keyboard_iobuffer sample_kbd) = 0" by (simp flip: ioq_length_seq)
qed

text \<open>The keys l and s.\<close>

theorem keys_typed_witness:
  "\<exists>q s'. run_codes [0x26, 0xa6, 0x1f, 0x9f] sample_kbd (sample_kst\<lparr>intr := False\<rparr>)
      = Some (sample_kbd\<lparr>keyboard_iobuffer := q\<rparr>, s') \<and> ioq_seq q = [108, 115]"
proof -
  have "key_of 0x26 False = 108" "key_of 0x1f False = 115" by (simp_all add: key_of_def keymap_def)
  then show ?thesis
    using keys_typed [OF sample_kbd_ok(1), of "[0x26, 0x1f]"] sample_kbd_ok(2,3)
    by (auto simp: char_key_def sample_kbd_def)
qed

text \<open>The code of caps lock turns 0 into -1 and back, never into 1.\<close>

lemma handler_caps:
  assumes "intr_keyboard_handler c kb s = Some (kb', s')" and "caps_lock_status kb \<in> {0, 4294967295}"
  shows "caps_lock_status kb' \<in> {0, 4294967295}"
  using assms
  by (auto simp: intr_keyboard_handler_def Let_def key_break_def key_enqueue_def bind_iff ensure_def split: if_splits)

lemma run_codes_caps:
  "run_codes cs kb s = Some (kb', s') \<Longrightarrow> caps_lock_status kb \<in> {0, 4294967295} \<Longrightarrow>
    caps_lock_status kb' \<in> {0, 4294967295}"
proof (induction cs arbitrary: kb s)
  case (Cons c cs)
  then obtain kb2 s2 where "intr_keyboard_handler c kb s = Some (kb2, s2)" "run_codes cs kb2 s2 = Some (kb', s')"
    by (auto simp: bind_iff split: prod.splits)
  then show ?case using Cons handler_caps by blast
qed simp

text \<open>Two keys do not do what they should. After the right shift key was pressed and released
  the shift state stays on (unlike the left one). Caps lock has no effect: whatever scan codes
  arrive, the characters of the keys depend on the shift state only.\<close>

theorem keyboard_modifier_faults:
  assumes "\<not> intr s" and "\<not> ext_scancode kb" and "caps_lock_status kb = 0"
  shows "run_codes [0x36, 0xb6] kb s = Some (kb\<lparr>shift_status := True\<rparr>, s)
    \<and> run_codes [0x2a, 0xaa] kb s = Some (kb\<lparr>shift_status := False\<rparr>, s)
    \<and> (\<forall>cs kb' s' k. run_codes cs kb s = Some (kb', s') \<and> \<not> ctrl_status kb' \<longrightarrow>
         cur_char kb' k = key_of k (shift_status kb'))"
proof (intro conjI allI impI)
  have b: "0x36 AND 0x80 = (0::nat)" "0xb6 AND 0x80 \<noteq> (0::nat)" "0xb6 AND 0x7f = (0x36::nat)"
      "0x2a AND 0x80 = (0::nat)" "0xaa AND 0x80 \<noteq> (0::nat)" "0xaa AND 0x7f = (0x2a::nat)"
    using make_break_bits [of "0x36"] make_break_bits [of "0x2a"] by simp_all
  note defs = intr_keyboard_handler_def Let_def key_break_def shift_l_make_def shift_r_make_def
    alt_l_make_def ctrl_l_make_def
  show "run_codes [0x36, 0xb6] kb s = Some (kb\<lparr>shift_status := True\<rparr>, s)"
    using assms(1,2) b by (simp add: defs)
  show "run_codes [0x2a, 0xaa] kb s = Some (kb\<lparr>shift_status := False\<rparr>, s)"
    using assms(1,2) b by (simp add: defs)
  fix cs kb' s' k assume r: "run_codes cs kb s = Some (kb', s') \<and> \<not> ctrl_status kb'"
  then have "caps_lock_status kb' \<in> {0, 4294967295}" using run_codes_caps assms(3) by fastforce
  then show "cur_char kb' k = key_of k (shift_status kb')" using r by (intro cur_char_plain) auto
qed

theorem keyboard_modifier_faults_witness:
  "run_codes [0x36, 0xb6] sample_kbd (sample_kst\<lparr>intr := False\<rparr>)
     = Some (sample_kbd\<lparr>shift_status := True\<rparr>, sample_kst\<lparr>intr := False\<rparr>)"
  using keyboard_modifier_faults [of "sample_kst\<lparr>intr := False\<rparr>" sample_kbd] by (simp add: sample_kbd_def)

end
