(* ===== verification/Threads.thy ===== *)
theory Threads
  imports Heap FileSys
begin

text \<open>
  The life of threads (\<open>thread/thread.c\<close>): the pid pool, the set-up of a task structure and its
  kernel stack, starting and ending a thread, and looking one up.

  The state \<open>sys\<close> puts the parts of the kernel together. There is one scheduler state, the one in
  the memory (\<open>kst_of\<close>); operations of the file system run on a copy of it (\<open>on_fs\<close>). The fields of
  a task structure are in the scheduler state, its virtual pool in the memory and its block
  descriptors in the heap; the words of the page above the structure, where the kernel stack is,
  are words of the memory. \<open>vbits\<close> is the address of the bitmap of a process' virtual pool, and
  \<open>code_addr\<close> the address the linker gave to a function.
\<close>

section \<open>State\<close>

record pid_pool =
  pid_bitmap :: BitMap
  pid_start :: nat
  pid_lock :: lock

record sys =
  sheap :: heap
  sfs :: fs
  pids :: pid_pool
  vbits :: "nat \<Rightarrow> nat"
  code_addr :: "string \<Rightarrow> nat"

definition smem :: "sys \<Rightarrow> mem" where
  "smem s = hmem (sheap s)"

definition kst_of :: "sys \<Rightarrow> kst" where
  "kst_of s = mkern (smem s)"

definition set_mem :: "mem \<Rightarrow> sys \<Rightarrow> sys" where
  "set_mem m s = s\<lparr>sheap := (sheap s)\<lparr>hmem := m\<rparr>\<rparr>"

definition set_kst :: "kst \<Rightarrow> sys \<Rightarrow> sys" where
  "set_kst k s = set_mem ((smem s)\<lparr>mkern := k\<rparr>) s"

definition on_mem :: "(mem \<Rightarrow> mem option) \<Rightarrow> sys \<Rightarrow> sys option" where
  "on_mem f s = map_option (\<lambda>m. set_mem m s) (f (smem s))"

definition on_mem_val :: "(mem \<Rightarrow> ('a \<times> mem) option) \<Rightarrow> sys \<Rightarrow> ('a \<times> sys) option" where
  "on_mem_val f s = map_option (\<lambda>(x, m). (x, set_mem m s)) (f (smem s))"

definition on_kst :: "(kst \<Rightarrow> kst option) \<Rightarrow> sys \<Rightarrow> sys option" where
  "on_kst f s = map_option (\<lambda>k. set_kst k s) (f (kst_of s))"

definition on_fs :: "(fs \<Rightarrow> ('a \<times> fs) option) \<Rightarrow> sys \<Rightarrow> ('a \<times> sys) option" where
  "on_fs f s = map_option (\<lambda>(x, g). (x, set_kst (kern g) (s\<lparr>sfs := g\<rparr>))) (f ((sfs s)\<lparr>kern := kst_of s\<rparr>))"

section \<open>The pid pool\<close>

definition pid_pool_init :: "byte list \<Rightarrow> pid_pool option" where
  "pid_pool_init pid_bitmap_bits = do {
     bm \<leftarrow> bitmap_init \<lparr>bitmap_byte_len = 128, bits = pid_bitmap_bits\<rparr>;
     Some \<lparr>pid_bitmap = bm, pid_start = 1, pid_lock = lock_init\<rparr>
   }"

text \<open>The result is cut to 16 bits.\<close>

definition s16 :: "int \<Rightarrow> int" where
  "s16 n = (n + 32768) mod 65536 - 32768"

definition allocate_pid :: "pid_pool \<Rightarrow> kst \<Rightarrow> (int \<times> pid_pool \<times> kst) option" where
  "allocate_pid p k = do {
     (passed, l, k) \<leftarrow> lock_take (pid_lock p) k;
     _ \<leftarrow> ensure passed;
     let bit_idx = bitMap_scan (pid_bitmap p) 1;
     _ \<leftarrow> ensure (bit_idx \<noteq> - 1);
     bm \<leftarrow> bitmap_set (pid_bitmap p) (nat bit_idx) 1;
     (l, k) \<leftarrow> lock_give l k;
     Some (s16 (bit_idx + int (pid_start p)), p\<lparr>pid_bitmap := bm, pid_lock := l\<rparr>, k)
   }"

definition release_pid :: "int \<Rightarrow> pid_pool \<Rightarrow> kst \<Rightarrow> (pid_pool \<times> kst) option" where
  "release_pid n p k = do {
     (passed, l, k) \<leftarrow> lock_take (pid_lock p) k;
     _ \<leftarrow> ensure passed;
     let pid_idx = nat ((n - int (pid_start p)) mod 4294967296);
     bm \<leftarrow> bitmap_set (pid_bitmap p) pid_idx 0;
     (l, k) \<leftarrow> lock_give l k;
     Some (p\<lparr>pid_bitmap := bm, pid_lock := l\<rparr>, k)
   }"

definition sys_allocate_pid :: "sys \<Rightarrow> (int \<times> sys) option" where
  "sys_allocate_pid s = do {
     (n, p, k) \<leftarrow> allocate_pid (pids s) (kst_of s);
     Some (n, set_kst k (s\<lparr>pids := p\<rparr>))
   }"

definition fork_pid :: "sys \<Rightarrow> (int \<times> sys) option" where
  "fork_pid s = sys_allocate_pid s"

section \<open>Looking up threads\<close>

text \<open>\<open>list_traversal\<close> over the list of all threads: the first one the callback accepts.\<close>

fun first_thread :: "(task_struct \<Rightarrow> bool) \<Rightarrow> (nat \<rightharpoonup> task_struct) \<Rightarrow> nat list \<Rightarrow> nat option" where
  "first_thread P T [] = Some 0"
| "first_thread P T (t # ts) = do {
     p \<leftarrow> T t;
     if P p then Some t else first_thread P T ts
   }"

definition pid_check :: "int \<Rightarrow> task_struct \<Rightarrow> bool" where
  "pid_check n p \<longleftrightarrow> pid p = n"

definition pid2thread :: "int \<Rightarrow> kst \<Rightarrow> nat option" where
  "pid2thread n k = first_thread (pid_check n) (tasks k) (thread_all_list k)"

section \<open>Starting a thread\<close>

definition MAX_FILES :: nat where "MAX_FILES = 8"
definition TASK_NAME_LEN :: nat where "TASK_NAME_LEN = 16"

text \<open>A name that does not fit in its field is an access outside an array.\<close>

definition init_thread :: "nat \<Rightarrow> string \<Rightarrow> nat \<Rightarrow> sys \<Rightarrow> sys option" where
  "init_thread thread_pcb nm prio s = do {
     _ \<leftarrow> ensure (thread_pcb \<noteq> 0 \<and> length nm < TASK_NAME_LEN);
     (n, s) \<leftarrow> sys_allocate_pid s;
     let k = kst_of s;
     let p = \<lparr>self_kstack = add32 thread_pcb PG_SIZE, pid = n,
       status = (if thread_pcb = main_thread_struct k then TASK_RUNNING else TASK_READY),
       priority = prio, ticks = prio, tname = nm, elapsed_ticks = 0,
       fd_table = [0, 1, 2] @ replicate (MAX_FILES - 3) (- 1), pgdir = 0, cwd_inode_nr = 0,
       parent_pid = - 1, exit_status = 0, stack_magic = STACK_MAGIC\<rparr>;
     let s = set_kst (k\<lparr>tasks := (tasks k)(thread_pcb \<mapsto> p)\<rparr>) s;
     let m = smem s;
     let s = set_mem (m\<lparr>userprog_vaddr := (userprog_vaddr m)(thread_pcb :=
       \<lparr>bitmap_vaddr = \<lparr>bitmap_byte_len = 0, bits = []\<rparr>, vaddr_start = 0\<rparr>)\<rparr>) s;
     Some (s\<lparr>sheap := (sheap s)\<lparr>descs := (descs (sheap s))(thread_pcb :=
       replicate DESC_CNT \<lparr>block_size = 0, blocks_per_arena = 0, free_list = []\<rparr>)\<rparr>\<rparr>)
   }"

definition wr_words :: "nat \<Rightarrow> (nat \<times> nat) list \<Rightarrow> mem \<Rightarrow> mem option" where
  "wr_words base ws m = foldl (\<lambda>m (offs, v). Option.bind m (wr_word (add32 base offs) v)) (Some m) ws"

text \<open>
  \<open>self_kstack\<close> points to words, so it moves down by four times the sizes of the two structures
  (76 and 32 bytes).
\<close>

definition thread_create :: "nat \<Rightarrow> nat \<Rightarrow> nat \<Rightarrow> sys \<Rightarrow> sys option" where
  "thread_create thread_pcb func func_arg s = do {
     p \<leftarrow> tasks (kst_of s) thread_pcb;
     let sp = sub32 (sub32 (self_kstack p) (4 * 76)) (4 * 32);
     s \<leftarrow> on_kst (upd_task thread_pcb (\<lambda>p. p\<lparr>self_kstack := sp\<rparr>)) s;
     on_mem (wr_words sp [(16, code_addr s ''kernel_thread''), (24, func), (28, func_arg),
       (12, 0), (8, 0), (4, 0), (0, 0)]) s
   }"

definition thread_start :: "string \<Rightarrow> nat \<Rightarrow> nat \<Rightarrow> nat \<Rightarrow> sys \<Rightarrow> (nat \<times> sys) option" where
  "thread_start nm prio start_addr arg s = do {
     (t, s) \<leftarrow> on_mem_val (get_kernel_pages 1) s;
     s \<leftarrow> init_thread t nm prio s;
     s \<leftarrow> thread_create t start_addr arg s;
     let k = kst_of s;
     _ \<leftarrow> ensure (t \<notin> set (thread_all_list k));
     _ \<leftarrow> ensure (t \<notin> set (thread_ready_list k));
     Some (t, set_kst (k\<lparr>thread_all_list := thread_all_list k @ [t], thread_ready_list := thread_ready_list k @ [t]\<rparr>) s)
   }"

definition make_main_thread :: "sys \<Rightarrow> sys option" where
  "make_main_thread s = do {
     let k = kst_of s;
     let t = get_running_thread_pcb k;
     s \<leftarrow> init_thread t ''main_thread'' 3 (set_kst (k\<lparr>main_thread_struct := t\<rparr>) s);
     let k = kst_of s;
     Some (set_kst (k\<lparr>thread_all_list := thread_all_list k @ [t]\<rparr>) s)
   }"

section \<open>Switching and ending\<close>

text \<open>
  \<open>page_dir_activate\<close> on the memory: \<open>cr3\<close> is the physical address of the page directory of the
  thread, or of the kernel's.
\<close>

definition load_page_dir :: "nat \<Rightarrow> mem \<Rightarrow> mem option" where
  "load_page_dir t m = do {
     p \<leftarrow> tasks (mkern m) t;
     pa \<leftarrow> (if pgdir p \<noteq> 0 then addr_v2p (pgdir p) m else Some 0x100000);
     Some (m\<lparr>cr3 := pa\<rparr>)
   }"

definition sys_block :: "task_status \<Rightarrow> sys \<Rightarrow> sys option" where
  "sys_block st s = do {
     s \<leftarrow> on_kst (thread_block st) s;
     on_mem (load_page_dir (running (kst_of s))) s
   }"

text \<open>
  The interrupts stay off; with \<open>need_schedule\<close> the processor goes to another thread. A freed
  task structure can no longer be used.
\<close>

definition thread_exit :: "nat \<Rightarrow> bool \<Rightarrow> sys \<Rightarrow> sys option" where
  "thread_exit thread_over need_schedule s = do {
     let k = kst_of s;
     let intr_state = intr k;
     k \<leftarrow> upd_task thread_over (\<lambda>p. p\<lparr>status := TASK_DIED\<rparr>) (k\<lparr>intr := False\<rparr>);
     p \<leftarrow> tasks k thread_over;
     let k = k\<lparr>thread_ready_list := remove1 thread_over (thread_ready_list k),
               thread_all_list := remove1 thread_over (thread_all_list k)\<rparr>;
     s \<leftarrow> (if pgdir p \<noteq> 0 then on_mem (mfree_page PF_KERNEL (pgdir p) 1) (set_kst k s) else Some (set_kst k s));
     (pp, k) \<leftarrow> release_pid (pid p) (pids s) (kst_of s);
     let s = set_kst k (s\<lparr>pids := pp\<rparr>);
     s \<leftarrow> (if thread_over \<noteq> main_thread_struct k then do {
             s \<leftarrow> on_mem (mfree_page PF_KERNEL thread_over 1) s;
             let k = kst_of s;
             Some (set_kst (k\<lparr>tasks := (tasks k)(thread_over := None)\<rparr>) s)
           } else Some s);
     if need_schedule then do {
       s \<leftarrow> on_kst (switch_away intr_state) s;
       on_mem (load_page_dir (running (kst_of s))) s
     } else Some s
   }"

section \<open>The parts of the state\<close>

lemma sys_simps [simp]:
  "smem (set_mem m s) = m" "smem (set_kst k s) = (smem s)\<lparr>mkern := k\<rparr>" "kst_of (set_kst k s) = k"
  "kst_of (set_mem m s) = mkern m" "pids (set_mem m s) = pids s" "pids (set_kst k s) = pids s"
  "smem (s\<lparr>pids := p\<rparr>) = smem s" "kst_of (s\<lparr>pids := p\<rparr>) = kst_of s"
  "vbits (set_mem m s) = vbits s" "vbits (set_kst k s) = vbits s" "mkern (smem s) = kst_of s"
  "smem (s\<lparr>sfs := g\<rparr>) = smem s" "sfs (set_mem m s) = sfs s" "sfs (set_kst k s) = sfs s"
  "set_kst k (set_kst k0 s) = set_kst k s"
  by (simp_all add: smem_def set_mem_def set_kst_def kst_of_def)

text \<open>The pages do not depend on the scheduler state.\<close>

lemma pages_set_kern [simp]:
  "pages_ok (m\<lparr>mkern := k\<rparr>) = pages_ok m" "held_pages (m\<lparr>mkern := k\<rparr>) = held_pages m"
  "translate (m\<lparr>mkern := k\<rparr>) va = translate m va"
  "frames_ok (m\<lparr>mkern := k\<rparr>) = frames_ok m" "plain_page (m\<lparr>mkern := k\<rparr>) a = plain_page m a"
proof -
  let ?m = "m\<lparr>mkern := k\<rparr>"
  show t: "translate ?m va = translate m va" for va by (simp add: translate_def)
  show h: "held_pages ?m = held_pages m" by (simp add: held_pages_def)
  have e: "pde_at ?m i = pde_at m i" "pte_at ?m i j = pte_at m i j" for i j
    by (simp_all add: pde_at_def pte_at_def)
  have f: "table_frames ?m = table_frames m" "pool_frame ?m = pool_frame m" "words_ok ?m = words_ok m"
      "free_frames ?m = free_frames m" "pools_ok ?m = pools_ok m"
    by (simp_all add: table_frames_def e pool_frame_def fun_eq_iff words_ok_def free_frames_def pools_ok_def)
  show p: "plain_page ?m a = plain_page m a" for a by (simp add: plain_page_def h t f)
  have "mem_inv ?m = mem_inv m" by (simp add: mem_inv_def self_map_def e f)
  moreover have "sole ?m = sole m" by (simp add: sole_def mapped_at_def e f)
  moreover have "kvaddr_ok ?m = kvaddr_ok m" by (simp add: kvaddr_ok_def t)
  ultimately show "frames_ok ?m = frames_ok m" by (simp add: frames_ok_def f)
  then show "pages_ok ?m = pages_ok m" by (simp add: pages_ok_plain h p)
qed

lemma lock_idle_cycle:
  assumes "lock_idle l" and "running k \<noteq> 0"
  shows "\<exists>l1 l2. lock_take l k = Some (True, l1, k) \<and> lock_give l1 k = Some (l2, k) \<and> lock_idle l2"
proof -
  let ?h = "l\<lparr>holder := running k, semaphore_of := (semaphore_of l)\<lparr>svalue := 0\<rparr>, holder_repeat_nm := 1\<rparr>"
  let ?l2 = "?h\<lparr>holder := 0, holder_repeat_nm := 0, semaphore_of := (semaphore_of ?h)\<lparr>svalue := 1\<rparr>\<rparr>"
  have "lock_take l k = Some (True, ?h, k)" using assms by (simp add: lock_take_free lock_idle_def)
  moreover have "lock_give ?h k = Some (?l2, k)"
    using assms by (intro lock_give_taken) (simp_all add: lock_idle_def)
  moreover have "lock_idle ?l2" using assms by (simp add: lock_idle_def lock_free_def)
  ultimately show ?thesis by (intro exI conjI)
qed

lemma first_thread_find:
  assumes "\<forall>t \<in> set ts. T t \<noteq> None"
  shows "first_thread P T ts = Some (case find (\<lambda>t. P (the (T t))) ts of None \<Rightarrow> 0 | Some t \<Rightarrow> t)"
  using assms by (induction ts) auto

section \<open>Pids\<close>

definition pid_pool_ok :: "pid_pool \<Rightarrow> bool" where
  "pid_pool_ok p \<longleftrightarrow> bm_wf (pid_bitmap p) \<and> bm_size (pid_bitmap p) = 1024 \<and> pid_start p = 1 \<and> lock_idle (pid_lock p)"

text \<open>The pid of every thread is marked.\<close>

definition pids_marked :: "pid_pool \<Rightarrow> kst \<Rightarrow> bool" where
  "pids_marked p k \<longleftrightarrow> (\<forall>t q. tasks k t = Some q \<longrightarrow>
     1 \<le> pid q \<and> pid q \<le> 1024 \<and> bmbit (pid_bitmap p) (nat (pid q) - 1))"

lemma pid_pool_init_ok:
  "length bs = 128 \<Longrightarrow> \<exists>p. pid_pool_init bs = Some p \<and> pid_pool_ok p"
  by (auto simp: pid_pool_init_def bitmap_init_def pid_pool_ok_def bm_wf_def bm_size_def lock_idle_def
      lock_free_def lock_init_def seam_init_def)

lemma s16_small: "0 \<le> n \<Longrightarrow> n < 32768 \<Longrightarrow> s16 n = n"
  by (simp add: s16_def)

lemma allocate_pid_runs:
  assumes "pid_pool_ok p" and "running k \<noteq> 0"
  shows "\<exists>i p'. bitMap_scan (pid_bitmap p) 1 = int i \<and> i < 256 \<and> allocate_pid p k = Some (int i + 1, p', k)
    \<and> pid_pool_ok p' \<and> (\<forall>j < 1024. bmbit (pid_bitmap p') j = (j = i \<or> bmbit (pid_bitmap p) j))"
proof -
  have p: "bm_wf (pid_bitmap p)" "bm_size (pid_bitmap p) = 1024" "pid_start p = 1" "lock_idle (pid_lock p)"
    using assms(1) by (simp_all add: pid_pool_ok_def)
  obtain i where i: "bitMap_scan (pid_bitmap p) 1 = int i" "i < 256"
    using bitMap_scan_byte [of "pid_bitmap p" 1] by (metis nonneg_int_cases of_nat_less_numeral_iff)
  obtain bm where bm: "bitmap_set (pid_bitmap p) i 1 = Some bm" "bm_wf bm" "bm_size bm = 1024"
      "\<forall>j < 1024. bmbit bm j = (if j = i then True else bmbit (pid_bitmap p) j)"
    using bitmap_set_runs [OF p(1), of i 1] i(2) p(2) by auto
  obtain l1 l2 where l: "lock_take (pid_lock p) k = Some (True, l1, k)" "lock_give l1 k = Some (l2, k)" "lock_idle l2"
    using lock_idle_cycle [OF p(4) assms(2)] by blast
  have "s16 (int i + 1) = int i + 1" using i(2) by (intro s16_small) auto
  then have "allocate_pid p k = Some (int i + 1, p\<lparr>pid_bitmap := bm, pid_lock := l2\<rparr>, k)"
    using l i(1) bm(1) p(3) by (simp add: allocate_pid_def Let_def)
  then show ?thesis using i bm l(3) p(3)
    by (intro exI [of _ i] exI [of _ "p\<lparr>pid_bitmap := bm, pid_lock := l2\<rparr>"]) (simp add: pid_pool_ok_def)
qed

lemma release_pid_runs:
  assumes "pid_pool_ok p" and "running k \<noteq> 0" and "1 \<le> n" and "n \<le> 1024"
  shows "\<exists>p'. release_pid n p k = Some (p', k) \<and> pid_pool_ok p'
    \<and> (\<forall>j < 1024. bmbit (pid_bitmap p') j = (j \<noteq> nat n - 1 \<and> bmbit (pid_bitmap p) j))"
proof -
  have p: "bm_wf (pid_bitmap p)" "bm_size (pid_bitmap p) = 1024" "pid_start p = 1" "lock_idle (pid_lock p)"
    using assms(1) by (simp_all add: pid_pool_ok_def)
  have i: "nat ((n - 1) mod 4294967296) = nat n - 1" "nat n - 1 < 1024" using assms(3,4) by auto
  obtain bm where bm: "bitmap_set (pid_bitmap p) (nat n - 1) 0 = Some bm" "bm_wf bm" "bm_size bm = 1024"
      "\<forall>j < 1024. bmbit bm j = (if j = nat n - 1 then False else bmbit (pid_bitmap p) j)"
    using bitmap_set_runs [OF p(1), of "nat n - 1" 0] i(2) p(2) by auto
  obtain l1 l2 where l: "lock_take (pid_lock p) k = Some (True, l1, k)" "lock_give l1 k = Some (l2, k)" "lock_idle l2"
    using lock_idle_cycle [OF p(4) assms(2)] by blast
  have "release_pid n p k = Some (p\<lparr>pid_bitmap := bm, pid_lock := l2\<rparr>, k)"
    using l bm(1) p(3) i(1) by (simp add: release_pid_def Let_def)
  then show ?thesis using bm l(3) p(3)
    by (intro exI [of _ "p\<lparr>pid_bitmap := bm, pid_lock := l2\<rparr>"]) (simp add: pid_pool_ok_def)
qed

text \<open>C26: As long as one of the first 255 pids is free, \<open>allocate_pid\<close> returns a pid that no
  thread has and marks it. But with the first 256 in use it does not take the next one: the index
  is cut to 8 bits and the thread gets pid 1, which is in use.\<close>

theorem allocate_pid_unique:
  assumes "pid_pool_ok p" and "running k \<noteq> 0" and "pids_marked p k"
  shows "((\<exists>j < 255. \<not> bmbit (pid_bitmap p) j) \<longrightarrow> (\<exists>n p'. allocate_pid p k = Some (n, p', k) \<and> pid_pool_ok p'
       \<and> (\<forall>t q. tasks k t = Some q \<longrightarrow> pid q \<noteq> n) \<and> pids_marked p' (k\<lparr>tasks := (tasks k)(t0 \<mapsto> q0\<lparr>pid := n\<rparr>)\<rparr>)))
    \<and> ((\<forall>j < 256. bmbit (pid_bitmap p) j) \<and> \<not> bmbit (pid_bitmap p) 256 \<longrightarrow>
       (\<exists>p'. allocate_pid p k = Some (1, p', k)))"
proof (intro conjI impI)
  have wf: "bm_wf (pid_bitmap p)" and sz: "bm_size (pid_bitmap p) = 1024"
    using assms(1) by (simp_all add: pid_pool_ok_def)
  obtain i p' where r: "bitMap_scan (pid_bitmap p) 1 = int i" "i < 256" "allocate_pid p k = Some (int i + 1, p', k)"
      "pid_pool_ok p'" "\<forall>j < 1024. bmbit (pid_bitmap p') j = (j = i \<or> bmbit (pid_bitmap p) j)"
    using allocate_pid_runs [OF assms(1,2)] by blast
  {
    assume "\<exists>j < 255. \<not> bmbit (pid_bitmap p) j"
    then obtain j where "j < 255" "\<not> bmbit (pid_bitmap p) j" by blast
    then obtain i' where "bitMap_scan (pid_bitmap p) 1 = int i'" "\<not> bmbit (pid_bitmap p) i'"
      using scan_one_free [OF wf, of j] sz by auto
    then have free: "\<not> bmbit (pid_bitmap p) i" using r(1) by simp
    have "pid q \<noteq> int i + 1" if "tasks k t = Some q" for t q
    proof
      assume "pid q = int i + 1"
      then have "nat (pid q) - 1 = i" by simp
      then show False using free assms(3) that by (auto simp: pids_marked_def)
    qed
    moreover have "pids_marked p' (k\<lparr>tasks := (tasks k)(t0 \<mapsto> q0\<lparr>pid := int i + 1\<rparr>)\<rparr>)"
      unfolding pids_marked_def
    proof (intro allI impI)
      fix t q assume q: "tasks (k\<lparr>tasks := (tasks k)(t0 \<mapsto> q0\<lparr>pid := int i + 1\<rparr>)\<rparr>) t = Some q"
      show "1 \<le> pid q \<and> pid q \<le> 1024 \<and> bmbit (pid_bitmap p') (nat (pid q) - 1)"
      proof (cases "t = t0")
        case True
        then show ?thesis using q r(2,5) by auto
      next
        case False
        then have "1 \<le> pid q \<and> pid q \<le> 1024 \<and> bmbit (pid_bitmap p) (nat (pid q) - 1)"
          using q assms(3) by (simp add: pids_marked_def)
        then show ?thesis using r(5) by auto
      qed
    qed
    ultimately show "\<exists>n p'. allocate_pid p k = Some (n, p', k) \<and> pid_pool_ok p'
       \<and> (\<forall>t q. tasks k t = Some q \<longrightarrow> pid q \<noteq> n) \<and> pids_marked p' (k\<lparr>tasks := (tasks k)(t0 \<mapsto> q0\<lparr>pid := n\<rparr>)\<rparr>)"
      using r(3,4) by blast
  }
  assume full: "(\<forall>j < 256. bmbit (pid_bitmap p) j) \<and> \<not> bmbit (pid_bitmap p) 256"
  then have "first_run (pid_bitmap p) 1 = Some 256" using sz by (auto simp: first_run_Some free_run_iff)
  then have "bitMap_scan (pid_bitmap p) 1 = 0" using bitMap_scan_ref [OF wf, of 1] by (simp add: u8_def)
  then show "\<exists>p'. allocate_pid p k = Some (1, p', k)" using r(1,3) by auto
qed

definition sample_pids :: pid_pool where
  "sample_pids = \<lparr>pid_bitmap = \<lparr>bitmap_byte_len = 128, bits = 1 # replicate 127 0\<rparr>, pid_start = 1, pid_lock = lock_init\<rparr>"

lemma sample_pids_ok: "pid_pool_ok sample_pids" "pids_marked sample_pids sample_kst"
  "bmbit (pid_bitmap sample_pids) 0" "\<not> bmbit (pid_bitmap sample_pids) 1"
proof -
  show "pid_pool_ok sample_pids"
    by (simp add: pid_pool_ok_def sample_pids_def bm_wf_def bm_size_def lock_idle_def lock_free_def lock_init_def seam_init_def)
  show b: "bmbit (pid_bitmap sample_pids) 0" "\<not> bmbit (pid_bitmap sample_pids) 1"
    by (simp_all add: bmbit_def sample_pids_def)
  have "pid q = 1" if "tasks sample_kst t = Some q" for t q
    using that by (auto simp: sample_kst_def sample_task_def split: if_splits)
  then show "pids_marked sample_pids sample_kst" using b by (simp add: pids_marked_def)
qed

theorem allocate_pid_unique_witness:
  "\<exists>n p'. allocate_pid sample_pids sample_kst = Some (n, p', sample_kst) \<and> (\<forall>t q. tasks sample_kst t = Some q \<longrightarrow> pid q \<noteq> n)"
proof -
  have "running sample_kst \<noteq> 0" by (simp add: sample_kst_def)
  moreover have "\<exists>j < 255. \<not> bmbit (pid_bitmap sample_pids) j"
    using sample_pids_ok(4) by (intro exI [of _ 1]) simp
  ultimately show ?thesis
    using allocate_pid_unique [OF sample_pids_ok(1) _ sample_pids_ok(2)] by blast
qed

end
