(* ===== verification/WaitExit.thy ===== *)
theory WaitExit
  imports Threads
begin

text \<open>
  \<open>exit\<close> and \<open>wait\<close> (\<open>userprog/wait_exit.c\<close>). A process that exits gives back its memory and files,
  hands its children to process 1, wakes a waiting parent and hangs until the parent has collected
  its exit status. \<open>sys_wait\<close> is one round of the loop: the result \<open>None\<close> inside means that the
  caller sleeps and runs the same round again when it is woken. Messages on the console are left
  out.
\<close>

section \<open>Giving memory back\<close>

text \<open>The loops over the page tables; \<open>first\<close> is the address of the first entry of a table.\<close>

fun free_ptes :: "nat \<Rightarrow> nat \<Rightarrow> nat \<Rightarrow> mem \<Rightarrow> mem option" where
  "free_ptes first j 0 m = Some m"
| "free_ptes first j (Suc n) m = do {
     pte \<leftarrow> rd_word (add32 first (4 * j)) m;
     m \<leftarrow> (if pte AND 1 \<noteq> 0 then free_a_phy_page (pte AND 0xfffff000) m else Some m);
     free_ptes first (j + 1) n m
   }"

fun free_pdes :: "nat \<Rightarrow> nat \<Rightarrow> nat \<Rightarrow> mem \<Rightarrow> mem option" where
  "free_pdes pgdir_vaddr i 0 m = Some m"
| "free_pdes pgdir_vaddr i (Suc n) m = do {
     pde \<leftarrow> rd_word (add32 pgdir_vaddr (4 * i)) m;
     m \<leftarrow> (if pde AND 1 \<noteq> 0 then do {
             m \<leftarrow> free_ptes (get_pte_ptr (mul32 i 0x400000)) 0 1024 m;
             free_a_phy_page (pde AND 0xfffff000) m
           } else Some m);
     free_pdes pgdir_vaddr (i + 1) n m
   }"

fun close_files :: "nat \<Rightarrow> nat \<Rightarrow> nat \<Rightarrow> sys \<Rightarrow> sys option" where
  "close_files t fd 0 s = Some s"
| "close_files t fd (Suc n) s = do {
     p \<leftarrow> tasks (kst_of s) t;
     g \<leftarrow> rd_at (fd_table p) fd;
     s \<leftarrow> (if g \<noteq> - 1 then map_option snd (on_fs (sys_close (int fd)) s) else Some s);
     close_files t (fd + 1) n s
   }"

definition release_prog_resource :: "nat \<Rightarrow> sys \<Rightarrow> sys option" where
  "release_prog_resource t s = do {
     p \<leftarrow> tasks (kst_of s) t;
     s \<leftarrow> on_mem (free_pdes (pgdir p) 0 768) s;
     let bitmap_pg_cnt = bitmap_byte_len (bitmap_vaddr (userprog_vaddr (smem s) t)) div PG_SIZE;
     s \<leftarrow> on_mem (mfree_page PF_KERNEL (vbits s t) bitmap_pg_cnt) s;
     close_files t 3 (MAX_FILES - 3) s
   }"

section \<open>The two system calls\<close>

definition find_child :: "int \<Rightarrow> task_struct \<Rightarrow> bool" where
  "find_child ppid p \<longleftrightarrow> ppid = pid p"

definition find_hanging_child :: "int \<Rightarrow> task_struct \<Rightarrow> bool" where
  "find_hanging_child ppid p \<longleftrightarrow> parent_pid p = ppid \<and> status p = TASK_HANGING"

definition init_adopt_a_child :: "int \<Rightarrow> task_struct \<Rightarrow> task_struct" where
  "init_adopt_a_child n p = (if parent_pid p = n then p\<lparr>parent_pid := 1\<rparr> else p)"

fun adopt_all :: "int \<Rightarrow> nat list \<Rightarrow> kst \<Rightarrow> kst option" where
  "adopt_all n [] k = Some k"
| "adopt_all n (t # ts) k = Option.bind (upd_task t (init_adopt_a_child n) k) (adopt_all n ts)"

text \<open>The status is cut to 8 bits.\<close>

definition s8 :: "int \<Rightarrow> int" where
  "s8 n = (n + 128) mod 256 - 128"

definition sys_exit :: "int \<Rightarrow> sys \<Rightarrow> sys option" where
  "sys_exit st s = do {
     let child_thread = get_running_thread_pcb (kst_of s);
     s \<leftarrow> on_kst (upd_task child_thread (\<lambda>p. p\<lparr>exit_status := s8 st\<rparr>)) s;
     p \<leftarrow> tasks (kst_of s) child_thread;
     s \<leftarrow> on_kst (adopt_all (pid p) (thread_all_list (kst_of s))) s;
     s \<leftarrow> release_prog_resource child_thread s;
     p \<leftarrow> tasks (kst_of s) child_thread;
     parent_thread \<leftarrow> pid2thread (parent_pid p) (kst_of s);
     s \<leftarrow> (if parent_thread = 0 then Some s
           else do {
             q \<leftarrow> tasks (kst_of s) parent_thread;
             if status q = TASK_WAITING then on_kst (thread_unlock parent_thread) s else Some s
           });
     sys_block TASK_HANGING s
   }"

text \<open>The result holds the pid and the exit status of the child, or -1 and no status.\<close>

definition sys_wait :: "sys \<Rightarrow> ((int \<times> int option) option \<times> sys) option" where
  "sys_wait s = do {
     let parnet_thread = get_running_thread_pcb (kst_of s);
     q \<leftarrow> tasks (kst_of s) parnet_thread;
     child \<leftarrow> first_thread (find_hanging_child (pid q)) (tasks (kst_of s)) (thread_all_list (kst_of s));
     if child \<noteq> 0 then do {
       p \<leftarrow> tasks (kst_of s) child;
       s \<leftarrow> thread_exit child False s;
       Some (Some (pid p mod 65536, Some (exit_status p)), s)
     } else do {
       child \<leftarrow> first_thread (find_child (pid q)) (tasks (kst_of s)) (thread_all_list (kst_of s));
       if child = 0 then Some (Some (- 1, None), s)
       else do {
         s \<leftarrow> sys_block TASK_WAITING s;
         Some (None, s)
       }
     }
   }"

section \<open>The frames of a process\<close>


















section \<open>Ending a thread\<close>

lemma mfree_kernel_page:
  assumes "frames_ok (smem s)" and "plain_page (smem s) a"
  shows "\<exists>s'. on_mem (mfree_page PF_KERNEL a 1) s = Some s' \<and> frames_ok (smem s')
    \<and> held_pages (smem s') = held_pages (smem s) - {a}
    \<and> (\<forall>x. plain_page (smem s) x \<longrightarrow> x \<noteq> a \<longrightarrow> plain_page (smem s') x)
    \<and> kst_of s' = kst_of s \<and> pids s' = pids s"
proof -
  obtain m' where m: "mfree_page PF_KERNEL a 1 (smem s) = Some m'" "frames_ok m'"
      "held_pages m' = held_pages (smem s) - {a}" "\<forall>x. plain_page (smem s) x \<longrightarrow> x \<noteq> a \<longrightarrow> plain_page m' x"
      "mkern m' = mkern (smem s)"
    using mfree_plain_page [OF assms] by (elim exE conjE) (rule that)
  then show ?thesis by (intro exI [of _ "set_mem m' s"]) (simp add: on_mem_def)
qed

lemma thread_exit_runs:
  assumes p: "tasks (kst_of s) c = Some p" and ok: "frames_ok (smem s)" "plain_page (smem s) c"
    and pd: "pgdir p \<noteq> 0 \<longrightarrow> plain_page (smem s) (pgdir p) \<and> pgdir p \<noteq> c"
    and pp: "pid_pool_ok (pids s)" "1 \<le> pid p" "pid p \<le> 1024"
    and r: "running (kst_of s) \<noteq> 0" "c \<noteq> main_thread_struct (kst_of s)"
  shows "\<exists>s'. thread_exit c False s = Some s'
    \<and> kst_of s' = (kst_of s)\<lparr>intr := False, thread_ready_list := remove1 c (thread_ready_list (kst_of s)),
         thread_all_list := remove1 c (thread_all_list (kst_of s)), tasks := (tasks (kst_of s))(c := None)\<rparr>
    \<and> frames_ok (smem s')
    \<and> held_pages (smem s') = held_pages (smem s) - (if pgdir p = 0 then {c} else {c, pgdir p})
    \<and> pid_pool_ok (pids s')
    \<and> (\<forall>j < 1024. bmbit (pid_bitmap (pids s')) j = (j \<noteq> nat (pid p) - 1 \<and> bmbit (pid_bitmap (pids s)) j))"
proof -
  let ?k = "kst_of s"
  define k1 where "k1 = ?k\<lparr>intr := False, tasks := (tasks ?k)(c \<mapsto> p\<lparr>status := TASK_DIED\<rparr>),
    thread_ready_list := remove1 c (thread_ready_list ?k), thread_all_list := remove1 c (thread_all_list ?k)\<rparr>"
  define s1 where "s1 = set_kst k1 s"
  have s1: "frames_ok (smem s1)" "\<And>x. plain_page (smem s1) x = plain_page (smem s) x"
      "held_pages (smem s1) = held_pages (smem s)" "kst_of s1 = k1" "pids s1 = pids s"
    using ok by (simp_all add: s1_def)
  obtain s2 where s2: "(if pgdir p \<noteq> 0 then on_mem (mfree_page PF_KERNEL (pgdir p) 1) s1 else Some s1) = Some s2"
      "frames_ok (smem s2)" "held_pages (smem s2) = held_pages (smem s) - (if pgdir p = 0 then {} else {pgdir p})"
      "plain_page (smem s2) c" "kst_of s2 = k1" "pids s2 = pids s"
  proof (cases "pgdir p = 0")
    case True
    then show ?thesis using that [of s1] s1 ok(2) by simp
  next
    case False
    then have "plain_page (smem s1) (pgdir p)" using pd s1(2) by simp
    from mfree_kernel_page [OF s1(1) this] obtain s2
      where "on_mem (mfree_page PF_KERNEL (pgdir p) 1) s1 = Some s2" "frames_ok (smem s2)"
        "held_pages (smem s2) = held_pages (smem s1) - {pgdir p}"
        "\<forall>x. plain_page (smem s1) x \<longrightarrow> x \<noteq> pgdir p \<longrightarrow> plain_page (smem s2) x" "kst_of s2 = kst_of s1" "pids s2 = pids s1"
      by (elim exE conjE)
    then show ?thesis using that [of s2] False s1 ok(2) pd by simp
  qed
  have rk: "running k1 \<noteq> 0" "main_thread_struct k1 = main_thread_struct ?k" using r by (simp_all add: k1_def)
  obtain pl where pl: "release_pid (pid p) (pids s) k1 = Some (pl, k1)" "pid_pool_ok pl"
      "\<forall>j < 1024. bmbit (pid_bitmap pl) j = (j \<noteq> nat (pid p) - 1 \<and> bmbit (pid_bitmap (pids s)) j)"
    using release_pid_runs [OF pp(1) rk(1) pp(2,3)] by (elim exE conjE) (rule that)
  define s3 where "s3 = set_kst k1 (s2\<lparr>pids := pl\<rparr>)"
  have s3: "frames_ok (smem s3)" "plain_page (smem s3) c" "held_pages (smem s3) = held_pages (smem s2)" "kst_of s3 = k1" "pids s3 = pl"
    using s2 by (simp_all add: s3_def)
  obtain s4 where s4: "on_mem (mfree_page PF_KERNEL c 1) s3 = Some s4" "frames_ok (smem s4)"
      "held_pages (smem s4) = held_pages (smem s3) - {c}" "kst_of s4 = kst_of s3" "pids s4 = pids s3"
    using mfree_kernel_page [OF s3(1,2)] by (elim exE conjE)
  define s5 where "s5 = set_kst (k1\<lparr>tasks := (tasks k1)(c := None)\<rparr>) s4"
  have upd: "upd_task c (\<lambda>p. p\<lparr>status := TASK_DIED\<rparr>) (?k\<lparr>intr := False\<rparr>) =
      Some (?k\<lparr>intr := False, tasks := (tasks ?k)(c \<mapsto> p\<lparr>status := TASK_DIED\<rparr>)\<rparr>)"
    using p by (simp add: upd_task_def)
  have "thread_exit c False s = Some s5"
    unfolding thread_exit_def Let_def upd
    using s2(1,5,6) pl(1) s4(1,4) s3(4) r(2) rk(2)
    by (cases "pgdir p = 0") (simp_all add: k1_def [symmetric] s1_def [symmetric] s3_def [symmetric] s5_def s1(4,5) del: One_nat_def)
  moreover have "kst_of s5 = ?k\<lparr>intr := False, thread_ready_list := remove1 c (thread_ready_list ?k),
         thread_all_list := remove1 c (thread_all_list ?k), tasks := (tasks ?k)(c := None)\<rparr>"
    by (simp add: s5_def k1_def)
  moreover have "held_pages (smem s5) = held_pages (smem s) - (if pgdir p = 0 then {c} else {c, pgdir p})"
    using s4(3) s3(3) s2(3) by (auto simp: s5_def)
  ultimately show ?thesis using s4 s3 pl by (intro exI [of _ s5]) (simp add: s5_def)
qed

section \<open>Exit and wait together\<close>

definition orphaned :: "int \<Rightarrow> kst \<Rightarrow> kst" where
  "orphaned n k = k\<lparr>tasks := (\<lambda>t. if t \<in> set (thread_all_list k)
     then map_option (init_adopt_a_child n) (tasks k t) else tasks k t)\<rparr>"

lemma adopt_all_runs:
  assumes "distinct ts" and "\<forall>t \<in> set ts. tasks k t \<noteq> None"
  shows "adopt_all n ts k = Some (k\<lparr>tasks := (\<lambda>t. if t \<in> set ts then map_option (init_adopt_a_child n) (tasks k t) else tasks k t)\<rparr>)"
  using assms
proof (induction ts arbitrary: k)
  case (Cons t ts)
  then obtain p where p: "tasks k t = Some p" by auto
  have "adopt_all n ts (k\<lparr>tasks := (tasks k)(t \<mapsto> init_adopt_a_child n p)\<rparr>) =
      Some (k\<lparr>tasks := (\<lambda>u. if u \<in> set (t # ts) then map_option (init_adopt_a_child n) (tasks k u) else tasks k u)\<rparr>)"
    using Cons.prems p by (subst Cons.IH) (auto simp: fun_eq_iff)
  then show ?case using p by (simp add: upd_task_def)
qed simp

lemma find_only: "q \<in> set ts \<Longrightarrow> P q \<Longrightarrow> \<forall>t \<in> set ts. P t \<longrightarrow> t = q \<Longrightarrow> find P ts = Some q"
proof (induction ts)
  case (Cons t ts)
  show ?case
  proof (cases "P t")
    case True
    then have "t = q" using Cons.prems(3) by (meson list.set_intros(1))
    then show ?thesis using True by simp
  next
    case False
    then have q: "q \<in> set ts" using Cons.prems(1,2) by auto
    have "\<forall>t \<in> set ts. P t \<longrightarrow> t = q" using Cons.prems(3) by (meson list.set_intros(2))
    from Cons.IH [OF q Cons.prems(2) this] show ?thesis using False by simp
  qed
qed simp

text \<open>A thread that blocks while another one was just put in front of the ready list.\<close>

lemma schedule_front:
  assumes "\<not> intr k" and "tasks k (running k) = Some p" and "status p \<noteq> TASK_RUNNING" and "thread_ready_list k = q # rest"
  shows "schedule k = (do {
     s \<leftarrow> upd_task q (\<lambda>p. p\<lparr>status := TASK_RUNNING\<rparr>) (k\<lparr>thread_ready_list := rest\<rparr>);
     s \<leftarrow> process_activate q s;
     Some (s\<lparr>running := q\<rparr>) })"
  unfolding schedule_def get_running_thread_pcb_def Let_def ensure_def if_P [OF assms(1)] assms(2) Option.bind.bind_lunit
    if_not_P [OF assms(3)]
  by (simp only: assms(4) list.distinct if_False Option.bind.bind_lunit list.case)

lemma thread_block_to:
  assumes "tasks k (running k) = Some p" and "tasks k q = Some r" and "thread_ready_list k = q # rest" and "q \<noteq> 0"
    and "running k \<noteq> q" and "may_unblock st"
  shows "\<exists>k'. thread_block st k = Some k' \<and> tasks k' = (tasks k)(running k \<mapsto> p\<lparr>status := st\<rparr>, q \<mapsto> r\<lparr>status := TASK_RUNNING\<rparr>)
    \<and> thread_ready_list k' = rest \<and> running k' = q \<and> thread_all_list k' = thread_all_list k
    \<and> main_thread_struct k' = main_thread_struct k"
proof -
  have st: "st \<noteq> TASK_RUNNING" "st = TASK_BLOCKED \<or> st = TASK_HANGING \<or> st = TASK_WAITING"
    using assms(6) by (auto simp: may_unblock_def)
  let ?p = "p\<lparr>status := st\<rparr>" and ?r = "r\<lparr>status := TASK_RUNNING\<rparr>"
  define k1 where "k1 = k\<lparr>intr := False, tasks := (tasks k)(running k \<mapsto> ?p), resume_intr := (resume_intr k)(running k := intr k)\<rparr>"
  have k1: "\<not> intr k1" "tasks k1 (running k1) = Some ?p" "status ?p \<noteq> TASK_RUNNING" "thread_ready_list k1 = q # rest"
      "tasks k1 q = Some r" "main_thread_struct k1 = main_thread_struct k" "thread_all_list k1 = thread_all_list k"
    using assms st(1) by (simp_all add: k1_def)
  obtain d e where act: "process_activate q (k1\<lparr>thread_ready_list := rest, tasks := (tasks k1)(q \<mapsto> ?r)\<rparr>) =
      Some (k1\<lparr>thread_ready_list := rest, tasks := (tasks k1)(q \<mapsto> ?r), active_pgdir := d, tss_esp0 := e\<rparr>)"
  proof (cases "pgdir r = 0")
    case True
    then show ?thesis using assms(4) that [of "tss_esp0 k1" "pgdir r"]
      by (cases k1) (simp add: process_activate_def page_dir_activate_def)
  next
    case False
    then show ?thesis using assms(4) that [of "add32 q PG_SIZE" "pgdir r"]
      by (simp add: process_activate_def page_dir_activate_def update_tss_esp_def)
  qed
  have up: "upd_task q (\<lambda>p. p\<lparr>status := TASK_RUNNING\<rparr>) (k1\<lparr>thread_ready_list := rest\<rparr>) =
      Some (k1\<lparr>thread_ready_list := rest, tasks := (tasks k1)(q \<mapsto> ?r)\<rparr>)"
    using k1(5) by (simp add: upd_task_def)
  define k2 where "k2 = k1\<lparr>thread_ready_list := rest, tasks := (tasks k1)(q \<mapsto> ?r), active_pgdir := d, tss_esp0 := e, running := q\<rparr>"
  have "schedule k1 = Some k2" unfolding schedule_front [OF k1(1-4)] up by (simp add: act k2_def)
  then have "thread_block st k = Some (k2\<lparr>intr := resume_intr k2 (running k2)\<rparr>)"
    using assms(1) st(2) by (simp add: thread_block_def switch_away_def get_running_thread_pcb_def Let_def upd_task_def k1_def)
  moreover have "tasks k2 = (tasks k)(running k \<mapsto> ?p, q \<mapsto> ?r)" by (simp add: k2_def k1_def)
  ultimately show ?thesis using k1(6,7) by (simp add: k2_def)
qed

lemma load_page_dir_runs:
  assumes "tasks (mkern m) t = Some r" and "if pgdir r = 0 then pa = 0x100000 else addr_v2p (pgdir r) m = Some pa"
  shows "load_page_dir t m = Some (m\<lparr>cr3 := pa\<rparr>)"
  using assms by (auto simp: load_page_dir_def split: if_splits)

text \<open>The scheduler state in which a child \<open>c\<close> ends whose parent \<open>q\<close> waits.\<close>

definition about_to_exit :: "nat \<Rightarrow> nat \<Rightarrow> kst \<Rightarrow> bool" where
  "about_to_exit c q k \<longleftrightarrow> sched_inv k \<and> running k = c \<and> c \<in> set (thread_all_list k) \<and> q \<in> set (thread_all_list k)
     \<and> distinct (thread_all_list k) \<and> (\<forall>t \<in> set (thread_all_list k). known k t) \<and> c \<noteq> main_thread_struct k
     \<and> stat k q = TASK_WAITING \<and> parent_pid (the (tasks k c)) = pid (the (tasks k q))
     \<and> (\<forall>t \<in> set (thread_all_list k). pid (the (tasks k t)) = pid (the (tasks k q)) \<longrightarrow> t = q)
     \<and> (\<forall>t \<in> set (thread_all_list k). t \<noteq> c \<longrightarrow> stat k t = TASK_HANGING \<longrightarrow>
          parent_pid (the (tasks k t)) \<noteq> pid (the (tasks k q)) \<and> parent_pid (the (tasks k t)) \<noteq> pid (the (tasks k c)))
     \<and> 1 \<le> pid (the (tasks k c)) \<and> pid (the (tasks k c)) \<le> 1024"

text \<open>The scheduler state after the child has stored its status and given its children away.\<close>

definition leaving :: "nat \<Rightarrow> int \<Rightarrow> kst \<Rightarrow> kst" where
  "leaving c st k = orphaned (pid (the (tasks k c)))
     (k\<lparr>tasks := (tasks k)(c \<mapsto> (the (tasks k c))\<lparr>exit_status := s8 st\<rparr>)\<rparr>)"

lemma about_to_exitD:
  assumes "about_to_exit c q k"
  shows "sched_inv k" "running k = c" "c \<in> set (thread_all_list k)" "q \<in> set (thread_all_list k)" "distinct (thread_all_list k)"
    "\<forall>t \<in> set (thread_all_list k). known k t" "c \<noteq> main_thread_struct k" "stat k q = TASK_WAITING"
    "parent_pid (the (tasks k c)) = pid (the (tasks k q))"
    "\<And>t. t \<in> set (thread_all_list k) \<Longrightarrow> pid (the (tasks k t)) = pid (the (tasks k q)) \<Longrightarrow> t = q"
    "\<And>t. t \<in> set (thread_all_list k) \<Longrightarrow> t \<noteq> c \<Longrightarrow> stat k t = TASK_HANGING \<Longrightarrow>
      parent_pid (the (tasks k t)) \<noteq> pid (the (tasks k q)) \<and> parent_pid (the (tasks k t)) \<noteq> pid (the (tasks k c))"
    "1 \<le> pid (the (tasks k c))" "pid (the (tasks k c)) \<le> 1024" "c \<noteq> q" "pid (the (tasks k c)) \<noteq> pid (the (tasks k q))"
proof -
  from assms show a: "sched_inv k" "running k = c" "c \<in> set (thread_all_list k)" "q \<in> set (thread_all_list k)" "distinct (thread_all_list k)"
    "\<forall>t \<in> set (thread_all_list k). known k t" "c \<noteq> main_thread_struct k" "stat k q = TASK_WAITING"
    "parent_pid (the (tasks k c)) = pid (the (tasks k q))" "1 \<le> pid (the (tasks k c))" "pid (the (tasks k c)) \<le> 1024"
    unfolding about_to_exit_def by blast+
  from assms have u: "\<forall>t \<in> set (thread_all_list k). pid (the (tasks k t)) = pid (the (tasks k q)) \<longrightarrow> t = q"
    unfolding about_to_exit_def by (elim conjE)
  then show one: "\<And>t. t \<in> set (thread_all_list k) \<Longrightarrow> pid (the (tasks k t)) = pid (the (tasks k q)) \<Longrightarrow> t = q" by blast
  from assms show "\<And>t. t \<in> set (thread_all_list k) \<Longrightarrow> t \<noteq> c \<Longrightarrow> stat k t = TASK_HANGING \<Longrightarrow>
      parent_pid (the (tasks k t)) \<noteq> pid (the (tasks k q)) \<and> parent_pid (the (tasks k t)) \<noteq> pid (the (tasks k c))"
    unfolding about_to_exit_def by (elim conjE) blast
  have "stat k c = TASK_RUNNING" using a(1,2) by (simp add: sched_inv_def)
  then show "c \<noteq> q" using a(8) by auto
  then show "pid (the (tasks k c)) \<noteq> pid (the (tasks k q))" using one [OF a(3)] by blast
qed

lemma leaving_facts:
  fixes st :: int
  assumes "about_to_exit c q k"
  defines "k1 \<equiv> leaving c st k"
  shows "tasks k1 c = Some ((the (tasks k c))\<lparr>exit_status := s8 st\<rparr>)"
    "\<exists>r. tasks k1 q = Some r \<and> status r = TASK_WAITING \<and> pid r = pid (the (tasks k q)) \<and> pgdir r = pgdir (the (tasks k q))"
    "\<And>t. t \<in> set (thread_all_list k) \<Longrightarrow> \<exists>x. tasks k1 t = Some x \<and> pid x = pid (the (tasks k t)) \<and> status x = stat k t
      \<and> (t \<noteq> c \<longrightarrow> stat k t = TASK_HANGING \<longrightarrow> parent_pid x \<noteq> pid (the (tasks k q)))"
    "thread_ready_list k1 = thread_ready_list k" "thread_all_list k1 = thread_all_list k" "running k1 = c"
    "main_thread_struct k1 = main_thread_struct k"
proof -
  note a = about_to_exitD [OF assms(1)]
  show fr: "thread_ready_list k1 = thread_ready_list k" "thread_all_list k1 = thread_all_list k" "running k1 = c"
    "main_thread_struct k1 = main_thread_struct k"
    using a(2) by (simp_all add: k1_def leaving_def orphaned_def)
  have kn: "tasks k t = Some (the (tasks k t))" if "t \<in> set (thread_all_list k)" for t
    using a(6) that by (auto simp: known_def)
  let ?n = "pid (the (tasks k c))"
  have t: "tasks k1 t = Some (init_adopt_a_child ?n (if t = c then (the (tasks k c))\<lparr>exit_status := s8 st\<rparr> else the (tasks k t)))"
    if "t \<in> set (thread_all_list k)" for t
    using kn [OF that] that by (auto simp: k1_def leaving_def orphaned_def)
  show "tasks k1 c = Some ((the (tasks k c))\<lparr>exit_status := s8 st\<rparr>)"
    using t [OF a(3)] a(9,15) by (simp add: init_adopt_a_child_def)
  have q: "tasks k1 q = Some (init_adopt_a_child ?n (the (tasks k q)))" using t [OF a(4)] a(14) by simp
  show "\<exists>r. tasks k1 q = Some r \<and> status r = TASK_WAITING \<and> pid r = pid (the (tasks k q)) \<and> pgdir r = pgdir (the (tasks k q))"
    using a(8) unfolding q by (simp add: init_adopt_a_child_def stat_def)
  fix t assume m: "t \<in> set (thread_all_list k)"
  show "\<exists>x. tasks k1 t = Some x \<and> pid x = pid (the (tasks k t)) \<and> status x = stat k t
      \<and> (t \<noteq> c \<longrightarrow> stat k t = TASK_HANGING \<longrightarrow> parent_pid x \<noteq> pid (the (tasks k q)))"
    using t [OF m] a(11) [OF m] by (auto simp: init_adopt_a_child_def stat_def)
qed

lemma leaving_runs:
  assumes "about_to_exit c q k"
  shows "adopt_all (pid (the (tasks k c))) (thread_all_list k)
      (k\<lparr>tasks := (tasks k)(c \<mapsto> (the (tasks k c))\<lparr>exit_status := s8 st\<rparr>)\<rparr>) = Some (leaving c st k)"
proof -
  note a = about_to_exitD [OF assms]
  show ?thesis unfolding leaving_def orphaned_def
    using a(5,6) by (subst adopt_all_runs) (auto simp: known_def)
qed

lemma sys_exit_runs:
  assumes a: "about_to_exit c q (kst_of s)"
    and rel: "release_prog_resource c (set_kst (leaving c st (kst_of s)) s) = Some s2" "kst_of s2 = leaving c st (kst_of s)"
    and dir: "if pgdir (the (tasks (kst_of s) q)) = 0 then pa = 0x100000
      else addr_v2p (pgdir (the (tasks (kst_of s) q))) (smem s2) = Some pa"
  shows "\<exists>k3 r. sys_exit st s = Some (set_mem ((smem s2)\<lparr>mkern := k3, cr3 := pa\<rparr>) s2) \<and> running k3 = q
    \<and> tasks k3 = (tasks (kst_of s2))(c \<mapsto> (the (tasks (kst_of s) c))\<lparr>exit_status := s8 st, status := TASK_HANGING\<rparr>, q \<mapsto> r)
    \<and> pid r = pid (the (tasks (kst_of s) q)) \<and> status r = TASK_RUNNING
    \<and> thread_all_list k3 = thread_all_list (kst_of s) \<and> main_thread_struct k3 = main_thread_struct (kst_of s)"
proof -
  let ?k = "kst_of s" and ?k1 = "leaving c st (kst_of s)"
  note l = leaving_facts [OF a, where st = st] and a = about_to_exitD [OF a]
  let ?p = "(the (tasks ?k c))\<lparr>exit_status := s8 st\<rparr>"
  obtain r where r: "tasks ?k1 q = Some r" "status r = TASK_WAITING" "pid r = pid (the (tasks ?k q))" "pgdir r = pgdir (the (tasks ?k q))"
    using l(2) by blast
  have c0: "tasks ?k c = Some (the (tasks ?k c))" using a(3,6) by (auto simp: known_def)
  have up: "upd_task c (\<lambda>p. p\<lparr>exit_status := s8 st\<rparr>) ?k = Some (?k\<lparr>tasks := (tasks ?k)(c \<mapsto> ?p)\<rparr>)"
    using c0 by (simp add: upd_task_def) (metis option.sel)
  have "known ?k q" "\<not> known ?k 0" using a(1,4,6) by (simp_all add: sched_inv_def queue_inv_def)
  then have q0: "q \<noteq> 0" by metis
  have find: "find (\<lambda>t. pid_check (pid (the (tasks ?k q))) (the (tasks ?k1 t))) (thread_all_list ?k) = Some q"
  proof (rule find_only [OF a(4)])
    show "pid_check (pid (the (tasks ?k q))) (the (tasks ?k1 q))" using r by (simp add: pid_check_def)
    show "\<forall>t \<in> set (thread_all_list ?k). pid_check (pid (the (tasks ?k q))) (the (tasks ?k1 t)) \<longrightarrow> t = q"
      using l(3) a(10) by (fastforce simp: pid_check_def)
  qed
  have par: "pid2thread (pid (the (tasks ?k q))) ?k1 = Some q"
    unfolding pid2thread_def l(5) using l(3) by (subst first_thread_find) (auto simp: find)
  have nr: "q \<notin> set (thread_ready_list ?k)" using a(1,8) by (auto simp: sched_inv_def queue_inv_def)
  let ?k2 = "?k1\<lparr>tasks := (tasks ?k1)(q \<mapsto> r\<lparr>status := TASK_RUNNING\<rparr>), thread_ready_list := q # thread_ready_list ?k\<rparr>"
  have unl: "thread_unlock q ?k1 = Some ?k2"
    using thread_unlock_runs [of ?k1 q] r nr l(4) by (simp add: known_def stat_def may_unblock_def)
  have c2: "tasks ?k2 (running ?k2) = Some ?p" "tasks ?k2 q = Some (r\<lparr>status := TASK_RUNNING\<rparr>)" "thread_ready_list ?k2 = q # thread_ready_list ?k" "running ?k2 \<noteq> q"
    using l(1,6) a(14) by simp_all
  obtain k3 where k3: "thread_block TASK_HANGING ?k2 = Some k3"
      "tasks k3 = (tasks ?k2)(running ?k2 \<mapsto> ?p\<lparr>status := TASK_HANGING\<rparr>, q \<mapsto> r\<lparr>status := TASK_RUNNING, status := TASK_RUNNING\<rparr>)"
      "running k3 = q" "thread_all_list k3 = thread_all_list ?k2" "main_thread_struct k3 = main_thread_struct ?k2"
    using thread_block_to [OF c2(1-3) q0 c2(4), of TASK_HANGING] by (auto simp: may_unblock_def)
  define s3 where "s3 = set_kst k3 (set_kst ?k2 s2)"
  have m3: "smem s3 = (smem s2)\<lparr>mkern := k3\<rparr>" by (simp add: s3_def)
  have "load_page_dir q (smem s3) = Some ((smem s3)\<lparr>cr3 := pa\<rparr>)"
  proof (rule load_page_dir_runs)
    show "tasks (mkern (smem s3)) q = Some (r\<lparr>status := TASK_RUNNING\<rparr>)" using k3(2) by (simp add: m3)
    have "addr_v2p d (smem s3) = addr_v2p d (smem s2)" for d unfolding m3 addr_v2p_def rd_word_def translate_def by simp
    then show "if pgdir (r\<lparr>status := TASK_RUNNING\<rparr>) = 0 then pa = 0x100000 else addr_v2p (pgdir (r\<lparr>status := TASK_RUNNING\<rparr>)) (smem s3) = Some pa"
      using dir r(4) by simp
  qed
  moreover have "on_kst (thread_block TASK_HANGING) (set_kst ?k2 s2) = Some s3" using k3(1) by (simp add: on_kst_def s3_def)
  moreover have "kst_of s3 = k3" by (simp add: s3_def)
  moreover have "set_mem ((smem s3)\<lparr>cr3 := pa\<rparr>) s3 = set_mem ((smem s2)\<lparr>mkern := k3, cr3 := pa\<rparr>) s2"
    unfolding m3 by (simp add: s3_def set_kst_def set_mem_def)
  ultimately have blk: "sys_block TASK_HANGING (set_kst ?k2 s2) = Some (set_mem ((smem s2)\<lparr>mkern := k3, cr3 := pa\<rparr>) s2)"
    using k3(3) by (simp add: sys_block_def on_mem_def)
  have "sys_exit st s = Some (set_mem ((smem s2)\<lparr>mkern := k3, cr3 := pa\<rparr>) s2)"
    unfolding sys_exit_def Let_def get_running_thread_pcb_def a(2)
    using up leaving_runs [OF assms(1), where st = st] rel par unl blk q0 r l(1) a(9) by (simp add: on_kst_def)
  then show ?thesis using k3 rel(2) l(5,6,7) r(3)
    by (intro exI [of _ k3] exI [of _ "r\<lparr>status := TASK_RUNNING\<rparr>"]) simp
qed

text \<open>C17: When a process exits while its parent waits, the parent runs next, its \<open>wait\<close> returns the
  pid and the exit status of the child (cut to 8 bits), and the task structure, the page directory
  and the pid of the child are free again. The hypotheses say that giving back the child's memory
  runs and leaves the scheduler alone, and that the pages are in order in the address space of
  the parent.\<close>

theorem exit_then_wait:
  assumes "about_to_exit c q (kst_of s)"
    and "release_prog_resource c (set_kst (leaving c st (kst_of s)) s) = Some s2"
    and "kst_of s2 = leaving c st (kst_of s)" and "pid_pool_ok (pids s2)"
    and "if pgdir (the (tasks (kst_of s) q)) = 0 then pa = 0x100000
      else addr_v2p (pgdir (the (tasks (kst_of s) q))) (smem s2) = Some pa"
    and "frames_ok ((smem s2)\<lparr>cr3 := pa\<rparr>)" and "plain_page ((smem s2)\<lparr>cr3 := pa\<rparr>) c"
    and "pgdir (the (tasks (kst_of s) c)) \<noteq> 0 \<longrightarrow>
      plain_page ((smem s2)\<lparr>cr3 := pa\<rparr>) (pgdir (the (tasks (kst_of s) c))) \<and> pgdir (the (tasks (kst_of s) c)) \<noteq> c"
  shows "\<exists>s3 s4. sys_exit st s = Some s3 \<and> running (kst_of s3) = q
    \<and> sys_wait s3 = Some (Some (pid (the (tasks (kst_of s) c)), Some (s8 st)), s4)
    \<and> tasks (kst_of s4) c = None \<and> c \<notin> set (thread_all_list (kst_of s4))
    \<and> held_pages (smem s4) = held_pages (smem s2) - (let d = pgdir (the (tasks (kst_of s) c)) in if d = 0 then {c} else {c, d})
    \<and> \<not> bmbit (pid_bitmap (pids s4)) (nat (pid (the (tasks (kst_of s) c))) - 1)"
proof -
  let ?k = "kst_of s" and ?p = "the (tasks (kst_of s) c)"
  note l = leaving_facts [OF assms(1), where st = st] and a = about_to_exitD [OF assms(1)]
  obtain k3 r where e: "sys_exit st s = Some (set_mem ((smem s2)\<lparr>mkern := k3, cr3 := pa\<rparr>) s2)" "running k3 = q"
    "tasks k3 = (tasks (kst_of s2))(c \<mapsto> ?p\<lparr>exit_status := s8 st, status := TASK_HANGING\<rparr>, q \<mapsto> r)"
    "pid r = pid (the (tasks ?k q))" "status r = TASK_RUNNING"
    "thread_all_list k3 = thread_all_list ?k" "main_thread_struct k3 = main_thread_struct ?k"
    using sys_exit_runs [OF assms(1-3,5)] by (elim exE conjE)
  define s3 where "s3 = set_mem ((smem s2)\<lparr>mkern := k3, cr3 := pa\<rparr>) s2"
  have m3: "smem s3 = ((smem s2)\<lparr>cr3 := pa\<rparr>)\<lparr>mkern := k3\<rparr>" "kst_of s3 = k3" "pids s3 = pids s2" by (simp_all add: s3_def)
  let ?c = "?p\<lparr>exit_status := s8 st, status := TASK_HANGING\<rparr>"
  have tc: "tasks k3 c = Some ?c" "tasks k3 q = Some r" using e(3) a(14) by simp_all
  have others: "\<exists>x. tasks k3 t = Some x \<and> (find_hanging_child (pid r) x \<longrightarrow> t = c)" if "t \<in> set (thread_all_list ?k)" for t
  proof (cases "t = c \<or> t = q")
    case True
    then show ?thesis using tc e(5) by (auto simp: find_hanging_child_def)
  next
    case False
    then show ?thesis using l(3) [OF that] e(3,4) assms(3) by (auto simp: find_hanging_child_def)
  qed
  have find: "find (\<lambda>t. find_hanging_child (pid r) (the (tasks k3 t))) (thread_all_list ?k) = Some c"
  proof (rule find_only [OF a(3)])
    show "find_hanging_child (pid r) (the (tasks k3 c))" using tc a(9) e(4) by (simp add: find_hanging_child_def)
    show "\<forall>t \<in> set (thread_all_list ?k). find_hanging_child (pid r) (the (tasks k3 t)) \<longrightarrow> t = c"
      using others by fastforce
  qed
  have child: "first_thread (find_hanging_child (pid r)) (tasks k3) (thread_all_list k3) = Some c"
    unfolding e(6) using others by (subst first_thread_find) (auto simp: find)
  have nz: "q \<noteq> 0" "c \<noteq> 0" using a(1,3,4,6) unfolding sched_inv_def queue_inv_def by metis+
  have "\<exists>s4. thread_exit c False s3 = Some s4
    \<and> kst_of s4 = (kst_of s3)\<lparr>intr := False, thread_ready_list := remove1 c (thread_ready_list (kst_of s3)),
         thread_all_list := remove1 c (thread_all_list (kst_of s3)), tasks := (tasks (kst_of s3))(c := None)\<rparr>
    \<and> frames_ok (smem s4)
    \<and> held_pages (smem s4) = held_pages (smem s3) - (if pgdir ?c = 0 then {c} else {c, pgdir ?c})
    \<and> pid_pool_ok (pids s4)
    \<and> (\<forall>j < 1024. bmbit (pid_bitmap (pids s4)) j = (j \<noteq> nat (pid ?c) - 1 \<and> bmbit (pid_bitmap (pids s3)) j))"
    by (rule thread_exit_runs) (use assms tc a e nz in \<open>simp_all add: m3\<close>)
  then obtain s4 where s4: "thread_exit c False s3 = Some s4"
    "kst_of s4 = k3\<lparr>intr := False, thread_ready_list := remove1 c (thread_ready_list k3),
         thread_all_list := remove1 c (thread_all_list k3), tasks := (tasks k3)(c := None)\<rparr>"
    "held_pages (smem s4) = held_pages (smem s2) - (if pgdir ?p = 0 then {c} else {c, pgdir ?p})"
    "\<not> bmbit (pid_bitmap (pids s4)) (nat (pid ?p) - 1)"
    using a(12,13) by (auto simp: m3 held_pages_def)
  have "sys_wait s3 = Some (Some (pid ?p, Some (s8 st)), s4)"
    using child tc e(2) nz s4(1) a(12,13) by (simp add: sys_wait_def m3 get_running_thread_pcb_def Let_def)
  moreover have "c \<notin> set (thread_all_list (kst_of s4))" using s4(2) e(6) a(5) by simp
  ultimately show ?thesis using e(1,2) s4(2-4) m3(2)
    by (intro exI [of _ s3] exI [of _ s4]) (simp add: s3_def [symmetric] Let_def)
qed

text \<open>
  A small kernel: the main thread at 4096 waits, the idle thread is at 8192, and a child at
  0xC0100000 with an empty page directory at 0xC0101000 runs.
\<close>

definition exit_mem :: mem where
  "exit_mem = \<lparr>phys = (\<lambda>a. if a = 0x100FFC then 0x100007 else if a = 0x100C00 then 0x101007
       else if a = 0x101400 then 0x200007 else if a = 0x101404 then 0x201007 else 0),
     cr3 = 0x100000,
     kernel_pool = \<lparr>pool_bitmap = \<lparr>bitmap_byte_len = 2, bits = [3, 0]\<rparr>, phy_addr_start = 0x200000,
       pool_size = 0x10000, pool_lock = lock_init\<rparr>,
     user_pool = \<lparr>pool_bitmap = \<lparr>bitmap_byte_len = 2, bits = [0, 0]\<rparr>, phy_addr_start = 0x210000,
       pool_size = 0x10000, pool_lock = lock_init\<rparr>,
     kernel_vaddr = \<lparr>bitmap_vaddr = \<lparr>bitmap_byte_len = 2, bits = [3, 0]\<rparr>, vaddr_start = K_HEAD_START\<rparr>,
     userprog_vaddr = (\<lambda>t. \<lparr>bitmap_vaddr = \<lparr>bitmap_byte_len = 0, bits = []\<rparr>, vaddr_start = 0\<rparr>),
     mkern = sample_kst\<lparr>
       tasks := [4096 \<mapsto> sample_task TASK_WAITING, 8192 \<mapsto> (sample_task TASK_BLOCKED)\<lparr>pid := 3\<rparr>,
         0xC0100000 \<mapsto> (sample_task TASK_RUNNING)\<lparr>pid := 2, parent_pid := 1, pgdir := 0xC0101000\<rparr>],
       thread_ready_list := [], thread_all_list := [4096, 8192, 0xC0100000], running := 0xC0100000\<rparr>\<rparr>"

definition exit_sys :: sys where
  "exit_sys = \<lparr>sheap = \<lparr>hmem = exit_mem, arenas = (\<lambda>a. None), descs = (\<lambda>t. [])\<rparr>, sfs = sample_fs,
     pids = \<lparr>pid_bitmap = \<lparr>bitmap_byte_len = 128, bits = 7 # replicate 127 0\<rparr>, pid_start = 1, pid_lock = lock_init\<rparr>,
     vbits = (\<lambda>t. 0xC0101000), code_addr = (\<lambda>f. 0)\<rparr>"

lemma exit_pde: "i < 1024 \<Longrightarrow> pde_at exit_mem i = (if i = 1023 then 0x100007 else if i = 768 then 0x101007 else 0)"
  by (simp add: pde_at_def exit_mem_def)

lemma exit_pte: "j < 1024 \<Longrightarrow> pte_at exit_mem 768 j = (if j = 256 then 0x200007 else if j = 257 then 0x201007 else 0)"
  by (simp add: pte_at_def exit_pde) (simp add: exit_mem_def frame_def)

lemma exit_translate:
  "translate exit_mem 0xC0100000 = Some 0x200000" "translate exit_mem 0xC0101000 = Some 0x201000"
  by (simp_all add: translate_walk exit_pde exit_pte present_def frame_def)

lemma exit_mem_small_bits: "k < 16 \<Longrightarrow> bmbit \<lparr>bitmap_byte_len = 2, bits = [3, 0]\<rparr> k = (k < 2)"
proof -
  assume "k < 16"
  then consider "k < 8" | "8 \<le> k" "k div 8 = 1" by (cases "k < 8") auto
  then show ?thesis
  proof cases
    case 1
    then have "k \<in> {0, 1, 2, 3, 4, 5, 6, 7}" by auto
    then show ?thesis by (auto simp: bmbit_def bit_iff_odd drop_bit_eq_div [symmetric])
  qed (simp add: bmbit_def)
qed

lemma exit_mem_ok: "frames_ok exit_mem" "plain_page exit_mem 0xC0100000" "plain_page exit_mem 0xC0101000"
proof -
  have cr: "cr3 exit_mem = 0x100000" by (simp add: exit_mem_def)
  have pok: "pools_ok exit_mem" by (simp add: pools_ok_def bm_wf_def bm_size_def exit_mem_def)
  have sm: "self_map exit_mem" by (simp add: self_map_def exit_pde cr present_def frame_def)
  have tf: "table_frames exit_mem = {0x100000, 0x101000}"
    by (auto simp: table_frames_def exit_pde cr present_def frame_def image_iff intro!: exI [of _ 768])
  have p: "present (pde_at exit_mem i) \<longleftrightarrow> i = 768" if "i < 1023" for i using that by (simp add: exit_pde present_def)
  have free: "0x202000 \<le> f" if "f \<in> free_frames exit_mem" for f
    using that exit_mem_small_bits by (auto simp: free_frames_def free_in_def exit_mem_def bm_size_def)
  have pte: "j = 256 \<and> frame (pte_at exit_mem i j) = 0x200000 \<or> j = 257 \<and> frame (pte_at exit_mem i j) = 0x201000"
    if "i < 1023" "j < 1024" "present (pde_at exit_mem i)" "present (pte_at exit_mem i j)" for i j
    using that(2,4) exit_pte [of j] p [OF that(1)] that(3) by (auto simp: present_def frame_def split: if_splits)
  have "mem_inv exit_mem"
    unfolding mem_inv_def
  proof (intro conjI allI impI)
    show "table_frames exit_mem \<inter> free_frames exit_mem = {}" using tf free by fastforce
    fix i j
    show "i < 1023 \<Longrightarrow> present (pde_at exit_mem i) \<Longrightarrow> frame (pde_at exit_mem i) \<noteq> cr3 exit_mem"
      by (auto simp: p exit_pde cr frame_def)
    show "i < 1023 \<Longrightarrow> j < 1024 \<Longrightarrow> present (pde_at exit_mem i) \<Longrightarrow> present (pte_at exit_mem i j) \<Longrightarrow>
        frame (pte_at exit_mem i j) \<notin> free_frames exit_mem"
      using pte [of i j] free by fastforce
    show "i < j \<Longrightarrow> j < 1023 \<Longrightarrow> present (pde_at exit_mem i) \<Longrightarrow> present (pde_at exit_mem j) \<Longrightarrow>
        frame (pde_at exit_mem i) = frame (pde_at exit_mem j) \<Longrightarrow> i = 0"
      by (auto simp: p)
  qed (rule pok, rule sm)
  moreover have "sole exit_mem"
    unfolding sole_def mapped_at_def
  proof (intro allI impI)
    fix i j k l
    assume a: "i < 1023 \<and> j < 1024 \<and> present (pde_at exit_mem i) \<and> present (pte_at exit_mem i j)"
      and b: "k < 1023 \<and> l < 1024 \<and> present (pde_at exit_mem k) \<and> present (pte_at exit_mem k l)"
      and e: "frame (pte_at exit_mem i j) = frame (pte_at exit_mem k l)"
    have "i = 768" "k = 768" using a b p by blast+
    moreover have "j = l" using pte [of i j] pte [of k l] a b e by auto
    ultimately show "frame (pde_at exit_mem i) = frame (pde_at exit_mem k) \<and> j = l" by simp
  qed
  moreover have "translate exit_mem (0xC0100000 + 4096 * i) = None" if "i < 16" "2 \<le> i" for i
  proof -
    have "(786688 + i) mod 1024 = 256 + i" using that by (simp add: mod_add_left_eq [of 786688 1024 i, symmetric])
    then have "(0xC0100000 + 4096 * i) div 4194304 = 768" "(0xC0100000 + 4096 * i) div 4096 mod 1024 = 256 + i"
      using that by simp_all
    then show ?thesis using that exit_pte [of "256 + i"] by (simp add: translate_walk present_def)
  qed
  then have "kvaddr_ok exit_mem"
    using exit_mem_small_bits by (auto simp: kvaddr_ok_def exit_mem_def bm_wf_def bm_size_def K_HEAD_START_def)
  moreover have "words_ok exit_mem" by (simp add: words_ok_def exit_mem_def)
  ultimately show "frames_ok exit_mem" by (simp add: frames_ok_def)
  have held: "0xC0100000 + 4096 * i \<in> held_pages exit_mem" if "i < 2" for i
    using that exit_mem_small_bits [of i] by (auto simp: held_pages_def exit_mem_def bm_size_def K_HEAD_START_def intro!: exI [of _ i])
  show "plain_page exit_mem 0xC0100000"
    using held [of 0] exit_translate(1) tf unfolding plain_page_def pool_frame_def
    by (auto simp: exit_mem_def bm_size_def intro!: exI [of _ 0])
  show "plain_page exit_mem 0xC0101000"
    using held [of 1] exit_translate(2) tf unfolding plain_page_def pool_frame_def
    by (auto simp: exit_mem_def bm_size_def intro!: exI [of _ 1])
qed

lemma exit_sys_ok:
  "smem exit_sys = exit_mem" "kst_of exit_sys = mkern exit_mem" "about_to_exit 0xC0100000 4096 (kst_of exit_sys)"
  "pid_pool_ok (pids exit_sys)"
proof -
  show sm: "smem exit_sys = exit_mem" by (simp add: smem_def exit_sys_def)
  then show k: "kst_of exit_sys = mkern exit_mem" by (simp add: kst_of_def)
  show "pid_pool_ok (pids exit_sys)"
    by (simp add: pid_pool_ok_def exit_sys_def bm_wf_def bm_size_def lock_idle_def lock_free_def lock_init_def seam_init_def)
  have kn: "known (mkern exit_mem) t = (t \<in> {4096, 8192, 0xC0100000})" for t
    by (auto simp: known_def exit_mem_def)
  have "sched_inv (mkern exit_mem)"
    unfolding sched_inv_def queue_inv_def kn
    by (auto simp: exit_mem_def sample_kst_def stat_def sample_task_def may_unblock_def)
  then show "about_to_exit 0xC0100000 4096 (kst_of exit_sys)"
    unfolding about_to_exit_def k by (auto simp: kn) (auto simp: exit_mem_def sample_kst_def stat_def sample_task_def)
qed

lemma free_pdes_empty:
  "(\<And>k. k < i + n \<Longrightarrow> rd_word (add32 d (4 * k)) m = Some 0) \<Longrightarrow> free_pdes d i n m = Some m"
  by (induction n arbitrary: i) simp_all

lemma close_files_none:
  assumes "tasks (kst_of s) t = Some p" and "\<forall>fd. fd0 \<le> fd \<longrightarrow> fd < fd0 + n \<longrightarrow> rd_at (fd_table p) fd = Some (- 1)"
  shows "close_files t fd0 n s = Some s"
  using assms by (induction n arbitrary: fd0) simp_all

lemma release_empty:
  assumes p: "tasks (kst_of s) t = Some p" and f: "\<forall>fd. 3 \<le> fd \<longrightarrow> fd < 8 \<longrightarrow> rd_at (fd_table p) fd = Some (- 1)"
    and d: "\<And>k. k < 768 \<Longrightarrow> rd_word (add32 (pgdir p) (4 * k)) (smem s) = Some 0"
    and b: "bitmap_byte_len (bitmap_vaddr (userprog_vaddr (smem s) t)) < 4096"
    and v: "mfree_page PF_KERNEL (vbits s t) 0 (smem s) = Some (smem s)"
  shows "release_prog_resource t s = Some s"
proof -
  have "free_pdes (pgdir p) 0 768 (smem s) = Some (smem s)" using d by (intro free_pdes_empty) simp
  moreover have "set_mem (smem s) s = s" by (simp add: set_mem_def smem_def)
  moreover have "close_files t 3 (MAX_FILES - 3) s = Some s"
    using f by (intro close_files_none [OF p]) (simp add: MAX_FILES_def)
  ultimately show ?thesis using p b v
    by (simp add: release_prog_resource_def on_mem_def PG_SIZE_def)
qed

lemma vaddr_remove_none: "vaddr_remove PF_KERNEL va 0 m = Some m"
  by (simp add: vaddr_remove_def Let_def)

lemma exit_release:
  assumes k: "tasks k 0xC0100000 = Some p" "pgdir p = 0xC0101000" "fd_table p = [0, 1, 2, - 1, - 1, - 1, - 1, - 1]"
  shows "release_prog_resource 0xC0100000 (set_kst k exit_sys) = Some (set_kst k exit_sys)"
proof (rule release_empty)
  show "tasks (kst_of (set_kst k exit_sys)) 0xC0100000 = Some p" using k(1) by simp
  show "\<forall>fd. 3 \<le> fd \<longrightarrow> fd < 8 \<longrightarrow> rd_at (fd_table p) fd = Some (- 1)"
  proof (intro allI impI)
    fix fd :: nat assume "3 \<le> fd" "fd < 8"
    then have "fd \<in> {3, 4, 5, 6, 7}" by auto
    then show "rd_at (fd_table p) fd = Some (- 1)" using k(3) by (auto simp: rd_at_def)
  qed
  have rd: "rd_word va (exit_mem\<lparr>mkern := k\<rparr>) = rd_word va exit_mem" for va by (simp add: rd_word_def translate_def)
  show "rd_word (add32 (pgdir p) (4 * j)) (smem (set_kst k exit_sys)) = Some 0" if "j < 768" for j
  proof -
    have e: "3222278144 + 4 * j = 4 * j + 4096 * 786689" by simp
    have "(4 * j + 4096 * 786689) mod 4096 = 4 * j" unfolding mod_mult_self2 using that by simp
    then have "(3222278144 + 4 * j) mod 4096 = 4 * j" by (simp only: e)
    moreover have "(3222278144 + 4 * j) div 4096 = 786689" using that by simp
    moreover have "(3222278144 + 4 * j) div 4194304 = 768" using that by simp
    ultimately have "translate exit_mem (3222278144 + 4 * j) = Some (0x201000 + 4 * j)"
      by (simp add: translate_walk exit_pde exit_pte present_def frame_def)
    then show ?thesis using that unfolding k(2) by (simp add: exit_sys_ok rd add32_small rd_word_def) (simp add: exit_mem_def)
  qed
  show "bitmap_byte_len (bitmap_vaddr (userprog_vaddr (smem (set_kst k exit_sys)) 0xC0100000)) < 4096"
    by (simp add: exit_sys_ok) (simp add: exit_mem_def)
  have "addr_v2p 0xC0101000 exit_mem = Some 0x201000"
    using exit_mem_ok(1) exit_translate(2) by (intro addr_v2p_mapped) (auto simp: frames_ok_def mem_inv_def words_ok_def)
  then have "addr_v2p 0xC0101000 (exit_mem\<lparr>mkern := k\<rparr>) = Some 0x201000" by (simp add: addr_v2p_def rd)
  then show "mfree_page PF_KERNEL (vbits (set_kst k exit_sys) 0xC0100000) 0 (smem (set_kst k exit_sys)) = Some (smem (set_kst k exit_sys))"
    using vaddr_remove_none by (simp add: exit_sys_ok mfree_page_def) (simp add: exit_sys_def exit_mem_def)
qed

text \<open>The child exits with status 200, which its parent receives as -56.\<close>

theorem exit_then_wait_witness:
  "\<exists>s3 s4. sys_exit 200 exit_sys = Some s3 \<and> sys_wait s3 = Some (Some (2, Some (- 56)), s4)
    \<and> tasks (kst_of s4) 0xC0100000 = None"
proof -
  let ?k = "leaving 0xC0100000 200 (kst_of exit_sys)"
  define s2 where "s2 = set_kst ?k exit_sys"
  have c: "the (tasks (kst_of exit_sys) 0xC0100000) = (sample_task TASK_RUNNING)\<lparr>pid := 2, parent_pid := 1, pgdir := 0xC0101000\<rparr>"
    and q: "the (tasks (kst_of exit_sys) 4096) = sample_task TASK_WAITING"
    by (simp_all add: exit_sys_ok exit_mem_def)
  have t: "tasks ?k 0xC0100000 = Some ((sample_task TASK_RUNNING)\<lparr>pid := 2, parent_pid := 1, pgdir := 0xC0101000, exit_status := s8 200\<rparr>)"
    using leaving_facts(1) [OF exit_sys_ok(3), where st = 200] c by simp
  have m: "(smem exit_sys)\<lparr>mkern := ?k, cr3 := 0x100000\<rparr> = exit_mem\<lparr>mkern := ?k\<rparr>"
    unfolding exit_sys_ok(1) by (simp add: exit_mem_def)
  have rel: "release_prog_resource 0xC0100000 s2 = Some s2"
    unfolding s2_def by (rule exit_release [OF t]) (simp_all add: sample_task_def)
  note w = exit_then_wait [OF exit_sys_ok(3) rel [unfolded s2_def], where pa = "0x100000"]
  from w show ?thesis
    using exit_sys_ok(4) exit_mem_ok
    by (simp add: c q m) (auto simp: sample_task_def s8_def)
qed





text \<open>\<open>sys_wait\<close> is meant to return -1 when the caller has no child. It looks for a thread with
  the pid of the caller instead, finds the caller itself, and sleeps: without children nobody will
  wake it.\<close>

theorem sys_wait_sleeps:
  assumes "running (kst_of s) \<in> set (thread_all_list (kst_of s))" and "running (kst_of s) \<noteq> 0"
    and "\<forall>t \<in> set (thread_all_list (kst_of s)). t \<noteq> 0 \<and> (\<exists>p. tasks (kst_of s) t = Some p
      \<and> parent_pid p \<noteq> pid (the (tasks (kst_of s) (running (kst_of s)))))"
  shows "sys_wait s = map_option (\<lambda>s'. (None, s')) (sys_block TASK_WAITING s)"
proof -
  let ?k = "kst_of s" and ?ts = "thread_all_list (kst_of s)"
  have kn: "\<forall>t \<in> set ?ts. tasks ?k t \<noteq> None" using assms(3) by auto
  obtain q where q: "tasks ?k (running ?k) = Some q" using kn assms(1) by auto
  have "find (\<lambda>t. find_hanging_child (pid q) (the (tasks ?k t))) ?ts = None"
    using assms(3) q by (fastforce simp: find_None_iff find_hanging_child_def)
  then have h: "first_thread (find_hanging_child (pid q)) (tasks ?k) ?ts = Some 0"
    by (simp add: first_thread_find [OF kn])
  obtain t where "find (\<lambda>t. find_child (pid q) (the (tasks ?k t))) ?ts = Some t" "t \<in> set ?ts"
  proof (cases "find (\<lambda>t. find_child (pid q) (the (tasks ?k t))) ?ts")
    case None
    then show ?thesis using assms(1) q by (auto simp: find_None_iff find_child_def)
  next
    case (Some t)
    then have "t \<in> set ?ts" by (auto simp: find_Some_iff)
    then show ?thesis using Some by (rule that [rotated])
  qed
  then have "first_thread (find_child (pid q)) (tasks ?k) ?ts = Some t" "t \<noteq> 0"
    using assms(3) by (simp_all add: first_thread_find [OF kn])
  then show ?thesis using h q
    by (cases "sys_block TASK_WAITING s") (simp_all add: sys_wait_def get_running_thread_pcb_def Let_def)
qed

theorem sys_wait_sleeps_witness:
  "\<exists>s'. sys_wait (set_kst sample_kst exit_sys) = Some (None, s')"
proof -
  let ?s = "set_kst sample_kst exit_sys"
  obtain k where k: "thread_block TASK_WAITING sample_kst = Some k" "running k = 12288" "known k 12288"
    and t: "tasks k 12288 = Some (sample_task TASK_RUNNING)"
    using thread_block_to [of sample_kst "sample_task TASK_RUNNING" 12288 "sample_task TASK_READY" "[]" TASK_WAITING]
    by (auto simp: sample_kst_def sample_task_def may_unblock_def known_def)
  then have "sys_block TASK_WAITING ?s \<noteq> None"
    by (simp add: sys_block_def on_kst_def on_mem_def load_page_dir_def sample_task_def)
  moreover have "sys_wait ?s = map_option (\<lambda>s'. (None, s')) (sys_block TASK_WAITING ?s)"
    by (rule sys_wait_sleeps) (auto simp: sample_kst_def sample_task_def)
  ultimately show ?thesis by auto
qed

end
