(* ===== verification/Ps.thy ===== *)
theory Ps
  imports Stdio FileSys
begin

text \<open>
  The listing of all threads (\<open>sys_ps\<close> of \<open>thread/thread.c\<close>): one line of five columns per thread,
  written to descriptor 1 through a buffer of 16 bytes. \<open>sys_ps_lines\<close> says what the console shows.
\<close>

section \<open>The calls\<close>

definition text_of :: "string \<Rightarrow> byte list" where
  "text_of s = map (\<lambda>c. of_nat (of_char c)) s"

text \<open>The text is formatted into the buffer of 16 zeros and padded with blanks; 15 bytes are written.\<close>

definition pad_print :: "string \<Rightarrow> arg list \<Rightarrow> fs \<Rightarrow> fs option" where
  "pad_print format ptr s = do {
     (out_pad_idx, buf) \<leftarrow> vsprintf (replicate 16 0) (text_of format) ptr;
     let buf = take out_pad_idx buf @ replicate (16 - out_pad_idx) 32;
     (_, s) \<leftarrow> sys_write 1 (take 15 buf) s;
     Some s
   }"

fun status_name :: "task_status \<Rightarrow> string" where
  "status_name TASK_RUNNING = ''RUNNING''"
| "status_name TASK_READY = ''READY''"
| "status_name TASK_BLOCKED = ''BLOCKED''"
| "status_name TASK_WAITING = ''WAITING''"
| "status_name TASK_HANGING = ''HANGING''"
| "status_name TASK_DIED = ''DIDE''"

definition elem2thread_info :: "task_struct \<Rightarrow> fs \<Rightarrow> fs option" where
  "elem2thread_info p s = do {
     s \<leftarrow> pad_print ''%d'' [Int_arg (of_s32 (pid p))] s;
     s \<leftarrow> (if parent_pid p = - 1 then pad_print ''%s'' [Str_arg (text_of ''NULL'')] s
          else pad_print ''%d'' [Int_arg (of_s32 (parent_pid p))] s);
     s \<leftarrow> pad_print ''%s'' [Str_arg (text_of (status_name (status p)))] s;
     s \<leftarrow> pad_print ''0x%x'' [Int_arg (elapsed_ticks p)] s;
     _ \<leftarrow> ensure (length (tname p) < 17);
     _ \<leftarrow> ensure (length (tname p) + 2 \<le> 16);
     (_, s) \<leftarrow> sys_write 1 (text_of (tname p) @ [10]) s;
     Some s
   }"

fun ps_threads :: "nat list \<Rightarrow> fs \<Rightarrow> fs option" where
  "ps_threads [] s = Some s"
| "ps_threads (t # ts) s = do {
     p \<leftarrow> tasks (kern s) t;
     s \<leftarrow> elem2thread_info p s;
     ps_threads ts s
   }"

definition ps_title :: "byte list" where
  "ps_title = text_of ''PID            PPID           STAT           TICKS           COMMAND\<newline>''"

definition sys_ps :: "fs \<Rightarrow> fs option" where
  "sys_ps s = do {
     (_, s) \<leftarrow> sys_write 1 ps_title s;
     ps_threads (thread_all_list (kern s)) s
   }"

end
