(* ===== verification/CmdLine.thy ===== *)
theory CmdLine
  imports CString
begin

text \<open>
  The command line of the shell (\<open>shell/shell.c\<close>): reading a line with editing keys into a buffer
  and splitting it into words in place. The keys that \<open>read\<close> delivers are a list; when it is used
  up, \<open>readline\<close> waits. What the shell echoes to the screen is in theory \<open>Echo\<close>. The theorems relate the two
  routines to editing and splitting of lists.
\<close>

section \<open>Reading a line\<close>

definition cmd_len :: nat where "cmd_len = 128"
definition MAX_ARG_NR :: nat where "MAX_ARG_NR = 16"

text \<open>
  \<open>pos\<close> is an index into the buffer. A key is stored before the loop tests for the end of the
  buffer. 13 and 10 end the line, 8 is backspace, 11 and 20 are control-l and control-u.
\<close>

fun readline_loop :: "byte list \<Rightarrow> byte list \<Rightarrow> nat \<Rightarrow> nat \<Rightarrow> nat \<Rightarrow> (byte list \<times> nat) option" where
  "readline_loop [] buf pos count read_count = None"
| "readline_loop (k # keys) buf pos count read_count = do {
     _ \<leftarrow> ensure (pos < length buf);
     let buf = buf[pos := k];
     if \<not> pos < count then Some (buf, read_count)
     else if k = 10 \<or> k = 13 then Some (buf[pos := 0], read_count)
     else if k = 8 then
       (if read_count \<noteq> 0 then readline_loop keys buf (pos - 1) count (read_count - 1)
        else readline_loop keys buf pos count read_count)
     else if k = 108 - 97 then readline_loop keys (buf[pos := 0]) pos count read_count
     else if k = 117 - 97 then readline_loop keys buf (pos - read_count) count 0
     else readline_loop keys buf (pos + 1) count (read_count + 1)
   }"

definition readline :: "byte list \<Rightarrow> byte list \<Rightarrow> nat \<Rightarrow> (byte list \<times> nat) option" where
  "readline keys buf count = do {
     _ \<leftarrow> ensure (0 < count);
     readline_loop keys buf 0 count 0
   }"

section \<open>Splitting it\<close>

text \<open>The three loops of \<open>cmd_parse\<close>.\<close>

partial_function (option) skip_token :: "cmem \<Rightarrow> nat \<Rightarrow> byte \<Rightarrow> nat option" where
  [code]: "skip_token m p token = Option.bind (m p) (\<lambda>c. if c = token then skip_token m (p + 1) token else Some p)"

partial_function (option) word_end :: "cmem \<Rightarrow> nat \<Rightarrow> byte \<Rightarrow> nat option" where
  [code]: "word_end m p token = Option.bind (m p) (\<lambda>c.
     if c \<noteq> 0 \<and> c \<noteq> token then word_end m (p + 1) token else Some p)"

partial_function (option) parse_args ::
  "cmem \<Rightarrow> nat \<Rightarrow> byte \<Rightarrow> nat list \<Rightarrow> nat \<Rightarrow> (int \<times> nat list \<times> cmem) option" where
  [code]: "parse_args m pnext token argv argc = do {
     c \<leftarrow> m pnext;
     if c = 0 then Some (int argc, argv, m)
     else do {
       p \<leftarrow> skip_token m pnext token;
       c \<leftarrow> m p;
       if c = 0 then Some (int argc, argv, m)
       else do {
         _ \<leftarrow> ensure (argc < length argv);
         let argv = argv[argc := p];
         e \<leftarrow> word_end m p token;
         c \<leftarrow> m e;
         (p, m) \<leftarrow> (if c \<noteq> 0 then map_option (\<lambda>m. (e + 1, m)) (store m e 0) else Some (e, m));
         if MAX_ARG_NR < argc then Some (- 1, argv, m)
         else parse_args m p token argv (argc + 1)
       }
     }
   }"

definition cmd_parse :: "cmem \<Rightarrow> nat \<Rightarrow> nat list \<Rightarrow> byte \<Rightarrow> (int \<times> nat list \<times> cmem) option" where
  "cmd_parse m cmd_str argv token = do {
     _ \<leftarrow> ensure (cmd_str \<noteq> 0);
     _ \<leftarrow> ensure (MAX_ARG_NR \<le> length argv);
     let argv = replicate MAX_ARG_NR 0 @ drop MAX_ARG_NR argv;
     parse_args m cmd_str token argv 0
   }"

section \<open>Editing\<close>

text \<open>The line as a list.\<close>

definition edit_key :: "byte \<Rightarrow> byte list \<Rightarrow> byte list" where
  "edit_key k line = (if k = 8 then butlast line else if k = 11 then line else if k = 20 then [] else line @ [k])"

definition edited :: "byte list \<Rightarrow> byte list" where
  "edited keys = fold edit_key keys []"

text \<open>The line never outgrows the buffer of \<open>n\<close> bytes.\<close>

definition line_fits :: "nat \<Rightarrow> byte list \<Rightarrow> bool" where
  "line_fits n keys \<longleftrightarrow> (\<forall>i \<le> length keys. length (edited (take i keys)) < n)"

lemma edited_snoc: "edited (keys @ [k]) = edit_key k (edited keys)"
  by (simp add: edited_def)

text \<open>The loop after some keys: the line is in front of \<open>pos\<close>.\<close>

lemma readline_loop_edits:
  assumes "length buf = n" and "take pos buf = line" and "pos = length line" and "pos < n"
    and "\<forall>i \<le> length keys. length (fold edit_key (take i keys) line) < n" and "10 \<notin> set keys" and "13 \<notin> set keys"
    and "r = 10 \<or> r = 13"
  shows "\<exists>buf'. readline_loop (keys @ [r]) buf pos n pos = Some (buf', length (fold edit_key keys line))
    \<and> length buf' = n \<and> take (length (fold edit_key keys line)) buf' = fold edit_key keys line
    \<and> buf' ! length (fold edit_key keys line) = 0"
  using assms(1-7)
proof (induction keys arbitrary: buf pos line)
  case Nil
  then show ?case using assms(8) by (auto simp: Let_def)
next
  case (Cons k keys)
  let ?line = "edit_key k line"
  have fits: "\<forall>i \<le> length keys. length (fold edit_key (take i keys) ?line) < n"
    using Cons.prems(5) by (metis Suc_le_mono fold_simps(2) length_Cons o_apply take_Suc_Cons)
  have len: "length ?line < n" using fits by (metis fold_simps(1) le0 take0)
  have k: "k \<noteq> 10" "k \<noteq> 13" "10 \<notin> set keys" "13 \<notin> set keys" using Cons.prems(6,7) by auto
  have t: "take j (buf[pos := x]) = take j line" if "j \<le> pos" for j x
    using that Cons.prems(2) by (metis min.absorb1 take_take take_update_cancel)
  have step: "readline_loop ((k # keys) @ [r]) buf pos n pos = readline_loop (keys @ [r]) b (length ?line) n (length ?line)
      \<Longrightarrow> length b = n \<Longrightarrow> take (length ?line) b = ?line \<Longrightarrow> ?case" for b
    using Cons.IH [of b "length ?line" ?line, OF _ _ refl len fits k(3,4)] by simp
  consider "k = 8" "pos \<noteq> 0" | "k = 8" "pos = 0" | "k = 11" | "k = 20" | "k \<noteq> 8" "k \<noteq> 11" "k \<noteq> 20" by blast
  then show ?case
  proof cases
    case 1
    then have "take (pos - 1) (buf[pos := k]) = butlast line" using t [of "pos - 1"] Cons.prems(3) by (simp add: butlast_conv_take)
    then show ?thesis using 1 Cons.prems(1,3,4) by (intro step [of "buf[pos := k]"]) (simp_all add: edit_key_def Let_def)
  next
    case 2
    then show ?thesis using Cons.prems(1,3,4) by (intro step [of "buf[pos := k]"]) (simp_all add: edit_key_def Let_def)
  next
    case 3
    then show ?thesis using Cons.prems(1,3,4) t [of pos] by (intro step [of "buf[pos := 0]"]) (simp_all add: edit_key_def Let_def)
  next
    case 4
    then show ?thesis using Cons.prems(1,3,4) by (intro step [of "buf[pos := k]"]) (simp_all add: edit_key_def Let_def)
  next
    case 5
    have "take (pos + 1) (buf[pos := k]) = line @ [k]"
      using Cons.prems(1-4) by (simp add: take_Suc_conv_app_nth)
    then show ?thesis using 5 k Cons.prems(1,3,4) by (intro step [of "buf[pos := k]"]) (simp_all add: edit_key_def Let_def)
  qed
qed

text \<open>C25: \<open>readline\<close> implements line editing: when the line stays below 128 bytes, the buffer holds
  the edited line with a terminating zero. The 128th character of a line makes the next key
  a write behind the buffer.\<close>

theorem readline_edits:
  assumes "length buf = cmd_len" and "10 \<notin> set keys" and "13 \<notin> set keys"
  shows "(line_fits cmd_len keys \<longrightarrow> r \<in> {10, 13} \<longrightarrow> (\<exists>buf'. readline (keys @ [r]) buf cmd_len = Some (buf', length (edited keys))
      \<and> length buf' = cmd_len \<and> take (length (edited keys)) buf' = edited keys \<and> buf' ! length (edited keys) = 0))
    \<and> (set keys \<inter> {8, 11, 20} = {} \<longrightarrow> cmd_len \<le> length keys \<longrightarrow> readline (keys @ [r]) buf cmd_len = None)"
proof (intro conjI impI)
  assume "line_fits cmd_len keys" and r: "r \<in> {10, 13}"
  then have f: "\<forall>i \<le> length keys. length (fold edit_key (take i keys) []) < cmd_len"
    by (simp add: line_fits_def edited_def)
  have "\<exists>buf'. readline_loop (keys @ [r]) buf 0 cmd_len 0 = Some (buf', length (fold edit_key keys []))
      \<and> length buf' = cmd_len \<and> take (length (fold edit_key keys [])) buf' = fold edit_key keys []
      \<and> buf' ! length (fold edit_key keys []) = 0"
    by (rule readline_loop_edits [OF assms(1) _ _ _ f assms(2,3)]) (use r in \<open>auto simp: cmd_len_def\<close>)
  then show "\<exists>buf'. readline (keys @ [r]) buf cmd_len = Some (buf', length (edited keys))
      \<and> length buf' = cmd_len \<and> take (length (edited keys)) buf' = edited keys \<and> buf' ! length (edited keys) = 0"
    by (simp add: readline_def edited_def cmd_len_def)
next
  have "readline_loop (keys @ [r]) b pos n pos = None"
    if "length b = n" "pos \<le> n" "n \<le> pos + length keys" "set keys \<inter> {8, 11, 20} = {}" "10 \<notin> set keys" "13 \<notin> set keys"
    for b n pos and keys :: "byte list"
    using that
  proof (induction keys arbitrary: b pos)
    case (Cons k keys)
    show ?case
    proof (cases "pos = n")
      case False
      then show ?thesis using Cons by (simp add: Let_def)
    qed (use Cons.prems in simp)
  qed simp
  moreover assume "set keys \<inter> {8, 11, 20} = {}" "cmd_len \<le> length keys"
  ultimately show "readline (keys @ [r]) buf cmd_len = None"
    using assms by (simp add: readline_def cmd_len_def)
qed

text \<open>The keys l, x, backspace, s and enter.\<close>

theorem readline_edits_witness:
  "\<exists>buf'. readline [108, 120, 8, 115, 13] (replicate cmd_len 0) cmd_len = Some (buf', 2) \<and> take 2 buf' = [108, 115]"
proof -
  have "line_fits cmd_len [108, 120, 8, 115]"
    unfolding line_fits_def
  proof (intro allI impI)
    fix i assume "i \<le> length [108 :: byte, 120, 8, 115]"
    then have "i \<in> {0, 1, 2, 3, 4}" by auto
    then show "length (edited (take i [108, 120, 8, 115])) < cmd_len"
      by (auto simp: edited_def edit_key_def cmd_len_def)
  qed
  then have "\<exists>buf'. readline ([108, 120, 8, 115] @ [13]) (replicate cmd_len 0) cmd_len = Some (buf', length (edited [108, 120, 8, 115]))
      \<and> length buf' = cmd_len \<and> take (length (edited [108, 120, 8, 115])) buf' = edited [108, 120, 8, 115]
      \<and> buf' ! length (edited [108, 120, 8, 115]) = 0"
    using readline_edits [of "replicate cmd_len 0" "[108, 120, 8, 115]" 13] by simp
  moreover have "edited [108, 120, 8, 115] = [108, 115]" "length [108 :: byte, 115] = 2"
    by (simp_all add: edited_def edit_key_def)
  ultimately show ?thesis by (metis append_Cons append_Nil)
qed

section \<open>Words\<close>

text \<open>The words of a string that are separated by one or more tokens.\<close>

function split_words :: "byte \<Rightarrow> byte list \<Rightarrow> byte list list" where
  "split_words t s = (let r = dropWhile (\<lambda>c. c = t) s in
     if r = [] then [] else takeWhile (\<lambda>c. c \<noteq> t) r # split_words t (dropWhile (\<lambda>c. c \<noteq> t) r))"
  by pat_completeness auto
termination
proof (relation "measure (\<lambda>(t, s). length s)", simp)
  fix t :: byte and s r :: "byte list"
  assume r: "r = dropWhile (\<lambda>c. c = t) s" "r \<noteq> []"
  then have "hd r \<noteq> t" using hd_dropWhile [of "\<lambda>c. c = t" s] by simp
  then have "length (dropWhile (\<lambda>c. c \<noteq> t) r) < length r"
    using r(2) by (cases r) (simp_all add: length_dropWhile_le le_imp_less_Suc)
  moreover have "length r \<le> length s" unfolding r(1) by (rule length_dropWhile_le)
  ultimately show "((t, dropWhile (\<lambda>c. c \<noteq> t) r), t, s) \<in> measure (\<lambda>(t, s). length s)" by simp
qed

declare split_words.simps [simp del]

lemma split_words_Nil [simp]: "split_words t [] = []"
  by (simp add: split_words.simps)

lemma split_words_token: "split_words t (replicate n t @ s) = split_words t s"
proof -
  have "dropWhile (\<lambda>c. c = t) (replicate n t @ s) = dropWhile (\<lambda>c. c = t) s" by (induction n) auto
  then show ?thesis by (simp add: split_words.simps [of t])
qed

lemma split_words_word:
  assumes "w \<noteq> []" and "t \<notin> set w" and "s = [] \<or> hd s = t"
  shows "split_words t (w @ s) = w # split_words t s"
proof -
  have "hd w \<noteq> t" using assms(1,2) by (metis list.set_sel(1))
  then have d: "dropWhile (\<lambda>c. c = t) (w @ s) = w @ s" using assms(1) by (cases w) auto
  have w: "\<forall>x \<in> set w. x \<noteq> t" using assms(2) by auto
  have "takeWhile (\<lambda>c. c \<noteq> t) (w @ s) = w \<and> dropWhile (\<lambda>c. c \<noteq> t) (w @ s) = s"
    using assms(3) w by (cases s) (auto simp: takeWhile_append2 dropWhile_append2 takeWhile_eq_all_conv)
  then show ?thesis using assms(1) d by (simp add: split_words.simps [of t "w @ s"] Let_def)
qed

text \<open>Joining words with any number of tokens between them and splitting again gives the words.\<close>

fun join_words :: "byte \<Rightarrow> (nat \<times> byte list) list \<Rightarrow> byte list" where
  "join_words t [] = []"
| "join_words t ((n, w) # ws) = replicate n t @ w @ (if ws = [] then [] else t # join_words t ws)"

lemma split_words_join:
  assumes "\<forall>(n, w) \<in> set ws. w \<noteq> [] \<and> t \<notin> set w"
  shows "split_words t (join_words t ws) = map snd ws"
  using assms
proof (induction t ws rule: join_words.induct)
  case (2 t n w ws)
  have "split_words t (t # join_words t ws) = split_words t (join_words t ws)" using split_words_token [of t 1] by simp
  then show ?case using 2 by (simp add: split_words_token split_words_word)
qed simp

section \<open>Splitting in place\<close>

lemma skip_token_runs:
  "str_at m p s \<Longrightarrow> t \<noteq> 0 \<Longrightarrow> \<exists>q. skip_token m p t = Some q \<and> str_at m q (dropWhile (\<lambda>c. c = t) s)
    \<and> p \<le> q \<and> q + length (dropWhile (\<lambda>c. c = t) s) = p + length s"
proof (induction s arbitrary: p)
  case Nil
  then show ?case by (simp add: skip_token.simps [of m p] str_at_Nil)
next
  case (Cons c s)
  then have m: "m p = Some c" "str_at m (p + 1) s" by (simp_all add: str_at_Cons)
  show ?case
  proof (cases "c = t")
    case True
    then show ?thesis using Cons.IH [OF m(2) Cons.prems(2)] m(1) by (auto simp: skip_token.simps [of m p])
  qed (use Cons.prems m(1) in \<open>simp add: skip_token.simps [of m p]\<close>)
qed

lemma word_end_runs:
  "str_at m p s \<Longrightarrow> word_end m p t = Some (p + length (takeWhile (\<lambda>c. c \<noteq> t) s))
    \<and> str_at m (p + length (takeWhile (\<lambda>c. c \<noteq> t) s)) (dropWhile (\<lambda>c. c \<noteq> t) s)"
proof (induction s arbitrary: p)
  case Nil
  then show ?case by (simp add: word_end.simps [of m p] str_at_Nil)
next
  case (Cons c s)
  then have m: "m p = Some c" "str_at m (p + 1) s" "c \<noteq> 0" by (simp_all add: str_at_Cons)
  show ?case
  proof (cases "c = t")
    case False
    then show ?thesis using Cons.IH [OF m(2)] m(1,3) by (simp add: word_end.simps [of m p])
  qed (use Cons.prems m(1) in \<open>simp add: word_end.simps [of m p]\<close>)
qed

lemma str_at_frame: "str_at m q w \<Longrightarrow> (\<And>i. i \<le> length w \<Longrightarrow> m' (q + i) = m (q + i)) \<Longrightarrow> str_at m' q w"
  by (simp add: str_at_def bytes_at_def)

lemma str_at_cut: "str_at m q (w @ r) \<Longrightarrow> str_at (m(q + length w \<mapsto> 0)) q w"
  by (auto simp: str_at_def bytes_at_append bytes_at_def nth_append split: if_splits)

lemma parse_args_runs:
  assumes "str_at m p s" and "t \<noteq> 0" and "length argv = 16"
  shows "(argc + length (split_words t s) \<le> 16 \<longrightarrow> (\<exists>m' ps. parse_args m p t argv argc =
        Some (int (argc + length (split_words t s)), take argc argv @ ps @ drop (argc + length (split_words t s)) argv, m')
      \<and> list_all2 (\<lambda>q w. str_at m' q w \<and> p \<le> q) ps (split_words t s) \<and> (\<forall>a. a < p \<or> p + length s \<le> a \<longrightarrow> m' a = m a)))
    \<and> (argc \<le> 16 \<longrightarrow> 16 < argc + length (split_words t s) \<longrightarrow> parse_args m p t argv argc = None)"
  using assms
proof (induction "length s" arbitrary: s m p argv argc rule: less_induct)
  case less
  define r where "r = dropWhile (\<lambda>c. c = t) s"
  obtain q where q: "skip_token m p t = Some q" "str_at m q r" "p \<le> q" "q + length r = p + length s"
    using skip_token_runs [OF less(2,3)] by (auto simp: r_def)
  show ?case
  proof (cases "r = []")
    case True
    then have "split_words t s = []" by (simp add: split_words.simps [of t s] r_def)
    moreover have "parse_args m p t argv argc = Some (int argc, argv, m)"
    proof (cases s)
      case Nil
      then show ?thesis using less(2) by (simp add: parse_args.simps [of m p] str_at_Nil)
    next
      case (Cons c cs)
      then show ?thesis using less(2) q True by (simp add: parse_args.simps [of m p] str_at_Nil str_at_Cons)
    qed
    ultimately show ?thesis by (auto intro: exI [of _ "[]"])
  next
    case False
    define w where "w = takeWhile (\<lambda>c. c \<noteq> t) r"
    define u where "u = dropWhile (\<lambda>c. c \<noteq> t) r"
    have ws: "split_words t s = w # split_words t u" using False by (simp add: split_words.simps [of t s] Let_def r_def w_def u_def)
    have wu: "r = w @ u" by (simp add: w_def u_def)
    have e: "word_end m q t = Some (q + length w)" "str_at m (q + length w) u"
      using word_end_runs [OF q(2), of t] by (simp_all add: w_def u_def)
    obtain c0 where c0: "m p = Some c0" "c0 \<noteq> 0"
    proof (cases s)
      case Nil
      then show ?thesis using False by (simp add: r_def)
    next
      case (Cons c cs)
      then show ?thesis using less(2) that by (simp add: str_at_Cons)
    qed
    obtain c1 where c1: "m q = Some c1" "c1 \<noteq> 0" using q(2) False by (cases r) (auto simp: str_at_Cons)
    show ?thesis
    proof (cases "argc < 16")
      case over: False
      have "parse_args m p t argv argc = None"
        using c0 q(1) c1 over less(4) by (simp add: parse_args.simps [of m p] ensure_def)
      moreover have "\<not> argc + length (split_words t s) \<le> 16" using over ws by simp
      ultimately show ?thesis by blast
    next
      case True
      define m1 where "m1 = (if u = [] then m else m(q + length w \<mapsto> 0))"
      define p1 where "p1 = (if u = [] then q + length w else q + length w + 1)"
      define v where "v = (if u = [] then [] else tl u)"
      have step: "parse_args m p t argv argc = parse_args m1 p1 t (argv[argc := q]) (argc + 1)"
      proof (cases u)
        case Nil
        then show ?thesis using c0 q(1) c1 e True less(4)
          by (simp add: parse_args.simps [of m p] m1_def p1_def str_at_Nil MAX_ARG_NR_def)
      next
        case (Cons x xs)
        then have "m (q + length w) = Some x" "x \<noteq> 0" using e(2) by (simp_all add: str_at_Cons)
        then show ?thesis using c0 q(1) c1 e(1) True less(4) Cons
          by (simp add: parse_args.simps [of m p] m1_def p1_def store_def MAX_ARG_NR_def)
      qed
      have v: "split_words t v = split_words t u" "str_at m1 p1 v" "p1 + length v = q + length r"
      proof -
        have "split_words t v = split_words t u \<and> str_at m1 p1 v \<and> p1 + length v = q + length r"
        proof (cases u)
          case Nil
          then show ?thesis using e(2) wu by (simp add: v_def m1_def p1_def)
        next
          case (Cons x xs)
          then have "x = t" using hd_dropWhile [of "\<lambda>c. c \<noteq> t" r] by (simp add: u_def)
          then have "split_words t u = split_words t xs" using split_words_token [of t 1 xs] Cons by simp
          moreover have p1: "p1 = q + length w + 1" using Cons by (simp add: p1_def)
          moreover have "str_at m1 p1 xs"
          proof (rule str_at_frame [of m])
            show "str_at m p1 xs" using e(2) Cons p1 by (simp add: str_at_Cons)
          qed (simp add: m1_def p1)
          ultimately show ?thesis using Cons wu by (simp add: v_def)
        qed
        then show "split_words t v = split_words t u" "str_at m1 p1 v" "p1 + length v = q + length r" by simp_all
      qed
      have w1: "str_at m1 q w" and w0: "w \<noteq> []"
      proof -
        show "str_at m1 q w" using q(2) str_at_cut [of m q w u] wu by (cases "u = []") (auto simp: m1_def)
        have "hd r \<noteq> t" using False hd_dropWhile [of "\<lambda>c. c = t" s] by (simp add: r_def)
        then show "w \<noteq> []" using False by (cases r) (simp_all add: w_def)
      qed
      have "length v < length s" using v(3) q(4) q(3) w0 wu by (cases u) (auto simp: p1_def)
      note ih = less(1) [OF this v(2) less(3), of "argv[argc := q]" "argc + 1", unfolded v(1)]
      have n: "argc + length (split_words t s) = argc + 1 + length (split_words t u)" by (simp add: ws)
      show ?thesis
      proof (intro conjI impI)
        assume "argc + length (split_words t s) \<le> 16"
        then obtain m' ps where m': "parse_args m1 p1 t (argv[argc := q]) (argc + 1) = Some (int (argc + 1 + length (split_words t u)),
            take (argc + 1) (argv[argc := q]) @ ps @ drop (argc + 1 + length (split_words t u)) (argv[argc := q]), m')"
            "list_all2 (\<lambda>q w. str_at m' q w \<and> p1 \<le> q) ps (split_words t u)"
            "\<forall>a. a < p1 \<or> p1 + length v \<le> a \<longrightarrow> m' a = m1 a"
          using ih less(4) n by auto
        have "take (argc + 1) (argv[argc := q]) = take argc argv @ [q]"
          using True less(4) by (simp add: take_Suc_conv_app_nth)
        then have "parse_args m p t argv argc = Some (int (argc + length (split_words t s)),
            take argc argv @ (q # ps) @ drop (argc + length (split_words t s)) argv, m')"
          unfolding step m'(1) n using True by simp
        moreover have "str_at m' q w"
        proof (rule str_at_frame [OF w1])
          fix i assume i: "i \<le> length w"
          then have "q + i < p1 \<or> p1 + length v \<le> q + i" by (cases "u = []") (auto simp: p1_def v_def)
          then show "m' (q + i) = m1 (q + i)" using m'(3) by blast
        qed
        moreover have "list_all2 (\<lambda>q w. str_at m' q w \<and> p \<le> q) ps (split_words t u)"
          using m'(2) q(3) by (elim list_all2_mono) (auto simp: p1_def split: if_splits)
        moreover have "m' a = m a" if "a < p \<or> p + length s \<le> a" for a
        proof -
          have "q \<le> p1" by (simp add: p1_def)
          then have "a < p1 \<or> p1 + length v \<le> a" using that q(3,4) v(3) by linarith
          moreover have "m1 a = m a"
          proof (cases "u = []")
            case False
            then have "length w < length r" unfolding wu by simp
            then have "a \<noteq> q + length w" using that q(3,4) by linarith
            then show ?thesis by (simp add: m1_def)
          qed (simp add: m1_def)
          ultimately show ?thesis using m'(3) by metis
        qed
        ultimately show "\<exists>m' ps. parse_args m p t argv argc =
            Some (int (argc + length (split_words t s)), take argc argv @ ps @ drop (argc + length (split_words t s)) argv, m')
          \<and> list_all2 (\<lambda>q w. str_at m' q w \<and> p \<le> q) ps (split_words t s) \<and> (\<forall>a. a < p \<or> p + length s \<le> a \<longrightarrow> m' a = m a)"
          using q(3) by (intro exI [of _ m'] exI [of _ "q # ps"]) (simp add: ws)
      next
        assume "16 < argc + length (split_words t s)"
        then show "parse_args m p t argv argc = None" using ih True less(4) n unfolding step by simp
      qed
    qed
  qed
qed

text \<open>C24: \<open>cmd_parse\<close> splits a line of up to 16 words in place: \<open>argv\<close> points to the words, in order
  and each with its own terminating zero, and the rest of \<open>argv\<close> is null; nothing outside the line
  is written. A line of more words is not refused with -1: the 17th pointer is stored behind \<open>argv\<close>.\<close>

theorem cmd_parse_words:
  assumes "str_at m p s" and "p \<noteq> 0" and "t \<noteq> 0" and "length argv = MAX_ARG_NR"
  shows "(length (split_words t s) \<le> MAX_ARG_NR \<longrightarrow> (\<exists>m' ps. cmd_parse m p argv t =
        Some (int (length (split_words t s)), ps @ replicate (MAX_ARG_NR - length (split_words t s)) 0, m')
      \<and> list_all2 (str_at m') ps (split_words t s) \<and> (\<forall>a. a < p \<or> p + length s \<le> a \<longrightarrow> m' a = m a)))
    \<and> (MAX_ARG_NR < length (split_words t s) \<longrightarrow> cmd_parse m p argv t = None)"
proof -
  have run: "cmd_parse m p argv t = parse_args m p t (replicate 16 0) 0"
    using assms(2,4) by (simp add: cmd_parse_def MAX_ARG_NR_def)
  note pa = parse_args_runs [OF assms(1,3), of "replicate 16 0" 0, simplified]
  show ?thesis
  proof (intro conjI impI)
    assume n: "length (split_words t s) \<le> MAX_ARG_NR"
    then obtain m' ps where r: "parse_args m p t (replicate 16 0) 0 = Some (int (length (split_words t s)),
        ps @ replicate (16 - length (split_words t s)) 0, m')"
        "list_all2 (\<lambda>q w. str_at m' q w \<and> p \<le> q) ps (split_words t s)" "\<forall>a. a < p \<or> p + length s \<le> a \<longrightarrow> m' a = m a"
      using pa by (auto simp: MAX_ARG_NR_def)
    have "list_all2 (str_at m') ps (split_words t s)" using r(2) by (rule list_all2_mono) simp
    then show "\<exists>m' ps. cmd_parse m p argv t = Some (int (length (split_words t s)), ps @ replicate (MAX_ARG_NR - length (split_words t s)) 0, m')
      \<and> list_all2 (str_at m') ps (split_words t s) \<and> (\<forall>a. a < p \<or> p + length s \<le> a \<longrightarrow> m' a = m a)"
      using r(1,3) run by (intro exI [of _ m'] exI [of _ ps]) (simp add: MAX_ARG_NR_def)
  next
    assume "MAX_ARG_NR < length (split_words t s)"
    then show "cmd_parse m p argv t = None" using pa run by (simp add: MAX_ARG_NR_def)
  qed
qed

text \<open>The line \<open>ls  -l\<close>.\<close>

theorem cmd_parse_words_witness:
  "\<exists>m' q1 q2. cmd_parse (put_at (\<lambda>a. None) 5 [108, 115, 32, 32, 45, 108, 0]) 5 (replicate 16 7) 32
      = Some (2, [q1, q2] @ replicate 14 0, m') \<and> str_at m' q1 [108, 115] \<and> str_at m' q2 [45, 108]"
proof -
  let ?s = "[108, 115, 32, 32, 45, 108] :: byte list"
  have "split_words 32 (join_words 32 [(0, [108, 115]), (1, [45, 108])]) = [[108, 115], [45, 108]]"
    by (subst split_words_join) auto
  then have w: "split_words 32 ?s = [[108, 115], [45, 108]]" by simp
  have "str_at (put_at (\<lambda>a. None) 5 (?s @ [0])) 5 ?s" by (auto simp: str_at_def bytes_at_def put_at_def)
  from cmd_parse_words [OF this, of 32 "replicate 16 7"] w show ?thesis
    by (auto simp: MAX_ARG_NR_def list_all2_Cons2)
qed

end
