(* ===== verification/ShellCmd.thy ===== *)
theory ShellCmd
  imports CmdLine Ps
begin

text \<open>
  The commands of the shell (\<open>shell/buildin_cmd.c\<close>, \<open>cmd_execute\<close> and the body of the loop of
  \<open>shell/shell.c\<close>), on the file system calls of \<open>FileSys\<close>. Strings are lists of characters without
  the terminating zero; a string that outgrows its buffer has no result. \<open>wash_path\<close> is related to
  a reference: the names of the path with \<open>.\<close> and \<open>..\<close> resolved.
\<close>

section \<open>State\<close>

text \<open>
  \<open>cwd_cache\<close> is the array of bytes the prompt prints. Starting a program (\<open>fork\<close>, \<open>execv\<close> and \<open>wait\<close>) is
  recorded in \<open>started\<close>; what the program does is not part of this model.
\<close>

record shell =
  sh_fs :: fs
  final_path :: path
  cwd_cache :: "byte list"
  started :: "path list list"

definition on_files :: "(fs \<Rightarrow> ('a \<times> fs) option) \<Rightarrow> shell \<Rightarrow> ('a \<times> shell) option" where
  "on_files f s = map_option (\<lambda>(x, g). (x, s\<lparr>sh_fs := g\<rparr>)) (f (sh_fs s))"

text \<open>\<open>printf\<close> formats into a buffer of 1024 zeros and writes to descriptor 1.\<close>

definition printf :: "string \<Rightarrow> arg list \<Rightarrow> shell \<Rightarrow> shell option" where
  "printf format args s = do {
     (n, buf) \<leftarrow> vsprintf (replicate 1024 0) (text_of format) args;
     (_, s) \<leftarrow> on_files (sys_write 1 (take n buf)) s;
     Some s
   }"

section \<open>Paths\<close>

definition dot :: "byte list" where "dot = [46]"
definition dotdot :: "byte list" where "dotdot = [46, 46]"

text \<open>One name of the old path is added to the new one.\<close>

definition wash_name :: "byte list \<Rightarrow> path \<Rightarrow> path option" where
  "wash_name name new_abs_path =
     (if name = dotdot then
        (case last_index slash new_abs_path of
           None \<Rightarrow> None
         | Some slash_ptr \<Rightarrow> Some (if slash_ptr \<noteq> 0 then take slash_ptr new_abs_path else take 1 new_abs_path))
      else if name \<noteq> dot then do {
        let p = (if new_abs_path \<noteq> [slash] then new_abs_path @ [slash] else new_abs_path);
        _ \<leftarrow> ensure (length (p @ name) < MAX_PATH_LEN);
        Some (p @ name)
      } else Some new_abs_path)"

function wash_loop :: "path option \<Rightarrow> byte list \<Rightarrow> path \<Rightarrow> path option" where
  "wash_loop sub_path name new_abs_path =
     (if \<not> name_fits name then None
      else if name = [] then Some new_abs_path
      else do {
        p \<leftarrow> wash_name name new_abs_path;
        case sub_path of
          None \<Rightarrow> Some p
        | Some r \<Rightarrow> wash_loop (fst (path_parse r)) (snd (path_parse r)) p
      })"
  by pat_completeness auto
termination
proof (relation "measure (\<lambda>(p, name, _). case p of None \<Rightarrow> 0 | Some r \<Rightarrow> Suc (length r))", simp)
  fix p :: "path option" and name :: "byte list" and n r x
  assume "p = Some r"
  then show "((fst (path_parse r), snd (path_parse r), x), p, name, n)
      \<in> measure (\<lambda>(p, name, _). case p of None \<Rightarrow> 0 | Some r \<Rightarrow> Suc (length r))"
    by (cases "path_parse r"; cases "fst (path_parse r)") (auto dest: length_path_parse)
qed

declare wash_loop.simps [simp del]

definition wash_path :: "path \<Rightarrow> path option" where
  "wash_path old_abs_path = do {
     _ \<leftarrow> ensure (old_abs_path \<noteq> [] \<and> hd old_abs_path = slash);
     let (sub_path, name) = path_parse old_abs_path;
     if name = [] then Some [slash] else wash_loop sub_path name [slash]
   }"

definition make_clear_abs_path :: "path \<Rightarrow> shell \<Rightarrow> shell option" where
  "make_clear_abs_path path s = do {
     (abs_path, s) \<leftarrow> (if path = [] \<or> hd path \<noteq> slash then do {
         (cwd, s) \<leftarrow> on_files (sys_getcwd MAX_PATH_LEN) s;
         Some (case cwd of None \<Rightarrow> [] | Some p \<Rightarrow> if p \<noteq> [slash] then p @ [slash] else p, s)
       } else Some ([], s));
     _ \<leftarrow> ensure (length (abs_path @ path) < MAX_PATH_LEN);
     p \<leftarrow> wash_path (abs_path @ path);
     Some (s\<lparr>final_path := p\<rparr>)
   }"

section \<open>The commands\<close>

definition buildin_pwd :: "path list \<Rightarrow> shell \<Rightarrow> shell option" where
  "buildin_pwd argv s =
     (if length argv \<noteq> 1 then printf ''pwd:no argument support !\<newline>'' [] s
      else do {
        (cwd, s) \<leftarrow> on_files (sys_getcwd MAX_PATH_LEN) s;
        case cwd of
          Some p \<Rightarrow> printf ''%s\<newline>'' [Str_arg p] (s\<lparr>final_path := p\<rparr>)
        | None \<Rightarrow> printf ''pwd:get current work directory failed\<newline>'' [] s
      })"

definition buildin_cd :: "path list \<Rightarrow> shell \<Rightarrow> (path option \<times> shell) option" where
  "buildin_cd argv s =
     (if 2 < length argv then do {
        s \<leftarrow> printf ''cd:Only one parameter is supported\<newline>'' [] s;
        Some (None, s)
      } else do {
        s \<leftarrow> (if length argv = 1 then Some (s\<lparr>final_path := [slash]\<rparr>)
             else do { a \<leftarrow> rd_at argv 1; make_clear_abs_path a s });
        (done, s) \<leftarrow> on_files (sys_chdir (final_path s)) s;
        if \<not> done then do {
          s \<leftarrow> printf ''cd: no such directory\<newline>'' [] s;
          Some (None, s)
        } else Some (Some (final_path s), s)
      })"

text \<open>The options of \<open>ls\<close>: the inner \<open>None\<close> is an early return.\<close>

fun ls_args :: "path list \<Rightarrow> bool \<Rightarrow> path option \<Rightarrow> shell \<Rightarrow> ((bool \<times> path option) option \<times> shell) option" where
  "ls_args [] long_info pathname s = Some (Some (long_info, pathname), s)"
| "ls_args (cur_arg # args) long_info pathname s =
     (if cur_arg \<noteq> [] \<and> hd cur_arg = 45 then
        (if cur_arg = text_of ''-h'' then do {
           s \<leftarrow> printf ''usage:\<newline>-l list all infotmation about the file.\<newline>-h for help.\<newline>list all files in the current dirctory if no option\<newline>'' [] s;
           Some (None, s)
         } else if cur_arg = text_of ''-l'' then ls_args args True pathname s
         else do {
           s \<leftarrow> printf ''ls: invalid option %s\<newline>'' [Str_arg cur_arg] s;
           Some (None, s)
         })
      else if pathname = None then ls_args args long_info (Some cur_arg) s
      else do {
        s \<leftarrow> printf ''ls:only support one path\<newline>'' [] s;
        Some (None, s)
      })"

text \<open>The two loops over the entries. The path of an entry is printed into \<open>final_path\<close>.\<close>

partial_function (option) ls_long :: "nat \<Rightarrow> path \<Rightarrow> shell \<Rightarrow> (bool \<times> shell) option" where
  [code]: "ls_long d sub_pathname s = do {
     (dir_e, s) \<leftarrow> on_files (sys_readdir d) s;
     case dir_e of
       None \<Rightarrow> Some (True, s)
     | Some e \<Rightarrow> do {
         let ftype = (if f_type e = FT_REGULAR then 45 else 100);
         name \<leftarrow> cstr_in (filename e) 0;
         _ \<leftarrow> ensure (length (sub_pathname @ name) < MAX_PATH_LEN);
         s \<leftarrow> make_clear_abs_path (sub_pathname @ name) s;
         (st, s) \<leftarrow> on_files (sys_stat (final_path s)) s;
         case st of
           None \<Rightarrow> do {
             s \<leftarrow> printf ''ls:%s,No such file or directory\<newline>'' [Str_arg (final_path s)] s;
             Some (False, s)
           }
         | Some f \<Rightarrow> do {
             s \<leftarrow> printf ''%c %d %d %s\<newline>'' [Char_arg ftype, Int_arg (de_i_no e), Int_arg (st_size f), Str_arg name] s;
             ls_long d sub_pathname s
           }
       }
   }"

partial_function (option) ls_short :: "nat \<Rightarrow> shell \<Rightarrow> shell option" where
  [code]: "ls_short d s = do {
     (dir_e, s) \<leftarrow> on_files (sys_readdir d) s;
     case dir_e of
       None \<Rightarrow> printf ''\<newline>'' [] s
     | Some e \<Rightarrow> do {
         name \<leftarrow> cstr_in (filename e) 0;
         s \<leftarrow> printf ''%s  '' [Str_arg name] s;
         ls_short d s
       }
   }"

definition buildin_ls :: "path list \<Rightarrow> shell \<Rightarrow> shell option" where
  "buildin_ls argv s = do {
     (opts, s) \<leftarrow> ls_args (drop 1 argv) False None s;
     case opts of
       None \<Rightarrow> Some s
     | Some (long_info, arg) \<Rightarrow> do {
         (ok, s) \<leftarrow> (case arg of
             None \<Rightarrow> do {
               (cwd, s) \<leftarrow> on_files (sys_getcwd MAX_PATH_LEN) s;
               case cwd of
                 Some p \<Rightarrow> Some (True, s\<lparr>final_path := p\<rparr>)
               | None \<Rightarrow> do { s \<leftarrow> printf ''ls:getcwd error\<newline>'' [] s; Some (False, s) }
             }
           | Some a \<Rightarrow> do { s \<leftarrow> make_clear_abs_path a s; Some (True, s) });
         if \<not> ok then Some s
         else do {
           let pathname = final_path s;
           (st, s) \<leftarrow> on_files (sys_stat pathname) s;
           case st of
             None \<Rightarrow> Some s
           | Some file_stat \<Rightarrow>
               if st_file_type file_stat = FT_DIRECTORY then do {
                 (d, s) \<leftarrow> on_files (sys_opendir pathname) s;
                 _ \<leftarrow> ensure (pathname \<noteq> []);
                 let sub_pathname = (if pathname ! (length pathname - 1) \<noteq> slash then pathname @ [slash] else pathname);
                 (_, s) \<leftarrow> on_files (\<lambda>g. map_option (Pair ()) (sys_rewinddir d g)) s;
                 if long_info then do {
                   s \<leftarrow> printf ''total: %d\<newline>'' [Int_arg (st_size file_stat)] s;
                   (finished, s) \<leftarrow> ls_long d sub_pathname s;
                   if \<not> finished then Some s
                   else map_option snd (on_files (sys_closedir d) s)
                 } else do {
                   s \<leftarrow> ls_short d s;
                   map_option snd (on_files (sys_closedir d) s)
                 }
               } else if long_info
                 then printf ''- %d %d %s\<newline>'' [Int_arg (st_ino file_stat), Int_arg (st_size file_stat), Str_arg pathname] s
                 else printf ''%s\<newline>'' [Str_arg pathname] s
         }
       }
   }"

definition buildin_ps :: "path list \<Rightarrow> shell \<Rightarrow> shell option" where
  "buildin_ps argv s =
     (if length argv \<noteq> 1 then printf ''ps:Too many parameters\<newline>'' [] s
      else map_option snd (on_files (\<lambda>g. map_option (Pair ()) (sys_ps g)) s))"

text \<open>Clearing the screen is assembly; it empties the console.\<close>

definition buildin_clear :: "path list \<Rightarrow> shell \<Rightarrow> shell option" where
  "buildin_clear argv s =
     (if length argv \<noteq> 1 then printf ''clear:Too many parameters\<newline>'' [] s
      else Some (s\<lparr>sh_fs := (sh_fs s)\<lparr>console := []\<rparr>\<rparr>))"

text \<open>The three commands that change the tree; their results are 1, 0 or -1.\<close>

definition buildin_mkdir :: "path list \<Rightarrow> shell \<Rightarrow> (int \<times> shell) option" where
  "buildin_mkdir argv s =
     (if length argv \<noteq> 2 then do { s \<leftarrow> printf ''mkdir: only support 2 argument\<newline>'' [] s; Some (0, s) }
      else do {
        s \<leftarrow> make_clear_abs_path (argv ! 1) s;
        if final_path s = [slash] then do { s \<leftarrow> printf ''Please don't do this\<newline>'' [] s; Some (0, s) }
        else do {
          (done, s) \<leftarrow> on_files (sys_mkdir (final_path s)) s;
          if done then do { s \<leftarrow> printf ''%s\<newline>'' [Str_arg (final_path s)] s; Some (1, s) }
          else do { s \<leftarrow> printf ''mkdir: create directory %s failed\<newline>'' [Str_arg (final_path s)] s; Some (0, s) }
        }
      })"

definition buildin_rmdir :: "path list \<Rightarrow> shell \<Rightarrow> (int \<times> shell) option" where
  "buildin_rmdir argv s =
     (if length argv \<noteq> 2 then do { s \<leftarrow> printf ''rmdir: only support 2 argument\<newline>'' [] s; Some (- 1, s) }
      else do {
        s \<leftarrow> make_clear_abs_path (argv ! 1) s;
        if final_path s = [slash] then do { s \<leftarrow> printf ''Please don't do this\<newline>'' [] s; Some (- 1, s) }
        else do {
          (done, s) \<leftarrow> on_files (sys_rmdir (final_path s)) s;
          if done then do { s \<leftarrow> printf ''%s\<newline>'' [Str_arg (final_path s)] s; Some (1, s) }
          else do { s \<leftarrow> printf ''rmdir: remove directory %s failed\<newline>'' [Str_arg (final_path s)] s; Some (- 1, s) }
        }
      })"

definition buildin_rm :: "path list \<Rightarrow> shell \<Rightarrow> (int \<times> shell) option" where
  "buildin_rm argv s =
     (if length argv \<noteq> 2 then do { s \<leftarrow> printf ''rm: only support 2 argument\<newline>'' [] s; Some (- 1, s) }
      else do {
        s \<leftarrow> make_clear_abs_path (argv ! 1) s;
        if final_path s = [slash] then do { s \<leftarrow> printf ''Please don't do this\<newline>'' [] s; Some (- 1, s) }
        else do {
          (done, s) \<leftarrow> on_files (sys_unlink (final_path s)) s;
          if done then do { s \<leftarrow> printf ''%s\<newline>'' [Str_arg (final_path s)] s; Some (1, s) }
          else do { s \<leftarrow> printf ''rm: delete file %s failed\<newline>'' [Str_arg (final_path s)] s; Some (- 1, s) }
        }
      })"

text \<open>The text of \<open>sys_help\<close>; character 34 is the quotation mark.\<close>

definition help_text :: string where
  "help_text = ''buildin commands:\<newline>'' @
     ''    ls: Displays files and folders in the current directory\<newline>'' @
     ''    cd: Changing the current directory\<newline>'' @
     ''    mkdir:Create a directory\<newline>'' @
     ''    rmdir:Remove a directory\<newline>'' @
     ''    pwd:Display current directory\<newline>'' @
     ''    ps:Displaying Process Information\<newline>'' @
     ''    clear:Clear the screen\<newline>'' @
     ''    exit:Exit the Shell\<newline>'' @
     ''shortcuts key:\<newline>'' @
     ''    ctrl+l:Clear the screen\<newline>'' @
     ''    ctrl+u:Clear input\<newline>'' @
     ''hint:\<newline>'' @
     ''    Commands and arguments are separated by Spaces\<newline>'' @
     ''    Pipe separator for '' @ [CHR 0x22] @ ''|'' @ [CHR 0x22] @ ''\<newline>''"

definition sys_help :: "shell \<Rightarrow> shell option" where
  "sys_help s = printf help_text [] s"

section \<open>Executing a line\<close>

text \<open>\<open>exit\<close> does not return. A null command (no word in the line) fails the assertion of \<open>strcmp\<close>.\<close>

definition cmd_execute :: "path list \<Rightarrow> shell \<Rightarrow> shell option" where
  "cmd_execute argv s = do {
     command \<leftarrow> rd_at argv 0;
     if command = text_of ''ls'' then buildin_ls argv s
     else if command = text_of ''pwd'' then buildin_pwd argv s
     else if command = text_of ''cd'' then do {
       (new_path, s) \<leftarrow> buildin_cd argv s;
       case new_path of
         None \<Rightarrow> Some s
       | Some p \<Rightarrow> do {
           _ \<leftarrow> ensure (length p \<le> length (cwd_cache s));
           Some (s\<lparr>cwd_cache := put_bytes 0 p (cwd_cache s)\<rparr>)
         }
     }
     else if command = text_of ''ps'' then buildin_ps argv s
     else if command = text_of ''clear'' then buildin_clear argv s
     else if command = text_of ''mkdir'' then map_option snd (buildin_mkdir argv s)
     else if command = text_of ''rmdir'' then map_option snd (buildin_rmdir argv s)
     else if command = text_of ''rm'' then map_option snd (buildin_rm argv s)
     else if command = text_of ''exit'' then None
     else if command = text_of ''help'' then sys_help s
     else do {
       s \<leftarrow> make_clear_abs_path command s;
       let argv = argv[0 := final_path s];
       (st, s) \<leftarrow> on_files (sys_stat (final_path s)) s;
       if st \<noteq> None then Some (s\<lparr>started := started s @ [argv]\<rparr>)
       else printf ''shell:cannot access %s:No such file\<newline>'' [Str_arg (final_path s)] s
     }
   }"

text \<open>\<open>cmd_parse\<close> on the list of the characters (theorem \<open>cmd_parse_words\<close>).\<close>

definition line_args :: "byte list \<Rightarrow> path list option" where
  "line_args line = do {
     _ \<leftarrow> ensure (length (split_words 32 line) \<le> MAX_ARG_NR);
     Some (split_words 32 line)
   }"

definition redirect :: "nat \<Rightarrow> int \<Rightarrow> shell \<Rightarrow> shell option" where
  "redirect old_fd new_fd s = do {
     _ \<leftarrow> ensure (0 \<le> new_fd);
     map_option snd (on_files (\<lambda>g. map_option (Pair ()) (sys_fd_redirect old_fd (nat new_fd) g)) s)
   }"

text \<open>
  The body of the loop of \<open>shell\<close> after the line was read; 124 is the pipe symbol. The loop for the
  commands in the middle searches \<open>cmd_line\<close>, whose string ends where the first pipe symbol was,
  so it finds none and is never entered: everything after the first symbol is one command.
\<close>

definition shell_line :: "byte list \<Rightarrow> shell \<Rightarrow> shell option" where
  "shell_line cmd_line s =
     (if cmd_line = [] then Some s
      else if 124 \<in> set cmd_line then do {
        s \<leftarrow> printf ''pipe command\<newline>'' [] s;
        ((fd0, fd1), s) \<leftarrow> on_files sys_pipe s;
        argv \<leftarrow> line_args (takeWhile (\<lambda>c. c \<noteq> 124) cmd_line);
        s \<leftarrow> redirect 1 fd1 s;
        s \<leftarrow> cmd_execute argv s;
        s \<leftarrow> redirect 0 fd0 s;
        s \<leftarrow> redirect 1 1 s;
        argv \<leftarrow> line_args (tl (dropWhile (\<lambda>c. c \<noteq> 124) cmd_line));
        s \<leftarrow> cmd_execute argv s;
        s \<leftarrow> redirect 0 0 s;
        (_, s) \<leftarrow> on_files (sys_close fd0) s;
        (_, s) \<leftarrow> on_files (sys_close fd1) s;
        Some s
      } else do {
        argv \<leftarrow> line_args cmd_line;
        cmd_execute argv s
      })"

section \<open>Washing a path\<close>

text \<open>The reference: the names that are left when \<open>.\<close> is dropped and \<open>..\<close> takes the name before it away.\<close>

definition resolve_step :: "byte list list \<Rightarrow> byte list \<Rightarrow> byte list list" where
  "resolve_step acc n = (if n = dotdot then butlast acc else if n = dot then acc else acc @ [n])"

definition resolved :: "path \<Rightarrow> byte list list" where
  "resolved p = foldl resolve_step [] (components p)"

definition abs_path :: "byte list list \<Rightarrow> path" where
  "abs_path ns = (if ns = [] then [slash] else join_path ns)"

definition plain_names :: "byte list list \<Rightarrow> bool" where
  "plain_names ns \<longleftrightarrow> (\<forall>n \<in> set ns. n \<noteq> [] \<and> slash \<notin> set n)"

lemma components_plain: "plain_names (components p)"
proof -
  have "\<forall>n \<in> set (split_slash p). slash \<notin> set n"
  proof (induction p)
    case (Cons c p)
    have "split_slash p \<noteq> []" by (induction p) auto
    then have "hd (split_slash p) \<in> set (split_slash p)" "\<forall>n \<in> set (tl (split_slash p)). n \<in> set (split_slash p)"
      by (simp_all add: list.set_sel)
    then show ?case using Cons by auto
  qed simp
  then show ?thesis by (auto simp: plain_names_def components_def)
qed

lemma join_path_Cons: "join_path (n # ns) = slash # n @ join_path ns"
  by (simp add: join_path_def)

lemma join_path_snoc: "join_path (ns @ [n]) = join_path ns @ slash # n"
  by (simp add: join_path_def)

lemma length_join_path: "length (join_path ns) = sum_list (map (\<lambda>n. Suc (length n)) ns)"
  by (induction ns) (simp_all add: join_path_def)

lemma join_path_length: "length (join_path (components p)) \<le> Suc (length p)"
proof -
  have "sum_list (map (\<lambda>n. Suc (length n)) (split_slash p)) = Suc (length p)"
  proof (induction p)
    case (Cons c p)
    have "split_slash p \<noteq> []" by (induction p) auto
    then obtain n ns where "split_slash p = n # ns" by (cases "split_slash p") auto
    then show ?case using Cons by simp
  qed simp
  moreover have "length (join_path (filter (\<lambda>n. n \<noteq> []) ns)) \<le> sum_list (map (\<lambda>n. Suc (length n)) ns)" for ns
    by (induction ns) (auto simp: join_path_def)
  ultimately show ?thesis unfolding components_def by metis
qed

lemma last_index_slash: "slash \<notin> set n \<Longrightarrow> last_index slash (p @ slash # n) = Some (length p)"
proof (induction n rule: rev_induct)
  case Nil
  then show ?case by (simp add: last_index_snoc)
next
  case (snoc c n)
  then have "last_index slash ((p @ slash # n) @ [c]) = Some (length p)" by (simp only: last_index_snoc) simp
  then show ?case by simp
qed

lemma wash_name_runs:
  assumes "plain_names acc" and "length (join_path acc) + Suc (length n) < MAX_PATH_LEN"
  shows "wash_name n (abs_path acc) = Some (abs_path (resolve_step acc n))"
proof (cases "n = dotdot")
  case True
  show ?thesis
  proof (cases acc rule: rev_cases)
    case Nil
    then show ?thesis using True by (simp add: wash_name_def abs_path_def resolve_step_def)
  next
    case (snoc ns x)
    then have "last_index slash (abs_path acc) = Some (length (join_path ns))"
      using assms(1) by (simp add: abs_path_def join_path_snoc last_index_slash plain_names_def)
    then show ?thesis using True snoc
      by (cases "ns = []") (simp_all add: wash_name_def abs_path_def resolve_step_def join_path_snoc join_path_def)
  qed
next
  case False
  show ?thesis
  proof (cases "n = dot")
    case True
    then show ?thesis using False by (simp add: wash_name_def resolve_step_def dot_def dotdot_def)
  next
    case no: False
    have "abs_path acc = [slash] \<longleftrightarrow> acc = []"
      using assms(1) by (cases acc) (auto simp: abs_path_def join_path_Cons plain_names_def)
    then show ?thesis using assms(2) False no
      by (simp add: wash_name_def resolve_step_def abs_path_def join_path_snoc) (simp add: join_path_def)
  qed
qed

lemma resolve_step_plain:
  assumes "plain_names acc" and "n \<noteq> []" and "slash \<notin> set n"
  shows "plain_names (resolve_step acc n)" "length (join_path (resolve_step acc n)) \<le> length (join_path acc) + Suc (length n)"
proof -
  show "plain_names (resolve_step acc n)"
    using assms by (auto simp: plain_names_def resolve_step_def dest: in_set_butlastD)
  show "length (join_path (resolve_step acc n)) \<le> length (join_path acc) + Suc (length n)"
    by (cases acc rule: rev_cases) (simp_all add: resolve_step_def length_join_path)
qed

lemma wash_loop_runs:
  "names_fit r \<Longrightarrow> name_fits n \<Longrightarrow> n \<noteq> [] \<Longrightarrow> slash \<notin> set n \<Longrightarrow> plain_names acc \<Longrightarrow>
    length (join_path acc) + length (join_path (n # components r)) < MAX_PATH_LEN \<Longrightarrow>
    wash_loop (Some r) n (abs_path acc) = Some (abs_path (foldl resolve_step acc (n # components r)))"
proof (induction "length r" arbitrary: r n acc rule: less_induct)
  case less
  obtain sub n' where pp: "path_parse r = (sub, n')" by (cases "path_parse r")
  let ?acc = "resolve_step acc n"
  have w: "wash_name n (abs_path acc) = Some (abs_path ?acc)"
    using less.prems(5,6) by (intro wash_name_runs) (simp_all add: join_path_Cons)
  then have u: "wash_loop (Some r) n (abs_path acc) = wash_loop sub n' (abs_path ?acc)"
    using less.prems(2,3) pp by (subst wash_loop.simps) simp
  note s = resolve_step_plain [OF less.prems(5,3,4)]
  show ?case
  proof (cases "n' = []")
    case True
    then have "components r = []" using path_parse_components(3) [OF pp] by simp
    then show ?thesis unfolding u using True
      by (simp add: wash_loop.simps name_fits_def MAX_FILE_NAME_LEN_def)
  next
    case False
    then obtain r' where r': "sub = Some r'" using path_parse_components(2) [OF pp] by auto
    have c: "components r = n' # components r'" using path_parse_components(1) [OF pp] False r' by simp
    have "slash \<notin> set n'" using components_plain [of r] c by (simp add: plain_names_def)
    moreover have "length (join_path ?acc) + length (join_path (n' # components r')) < MAX_PATH_LEN"
      using s(2) less.prems(6) c by (simp add: join_path_Cons)
    ultimately have "wash_loop (Some r') n' (abs_path ?acc) = Some (abs_path (foldl resolve_step ?acc (n' # components r')))"
      using less.prems(1) c False length_path_parse pp r' s(1)
      by (intro less.hyps) (auto simp: names_fit_def)
    then show ?thesis unfolding u r' by (simp add: c)
  qed
qed

lemma wash_path_runs:
  assumes "p \<noteq> []" and "hd p = slash" and "names_fit p" and "length p < MAX_PATH_LEN"
  shows "wash_path p = Some (abs_path (resolved p))"
proof -
  obtain sub n where pp: "path_parse p = (sub, n)" by (cases "path_parse p")
  show ?thesis
  proof (cases "n = []")
    case True
    then show ?thesis using assms(1,2) pp path_parse_components(3) [OF pp]
      by (simp add: wash_path_def resolved_def abs_path_def)
  next
    case False
    then obtain r where r: "sub = Some r" using path_parse_components(2) [OF pp] by auto
    have c: "components p = n # components r" using path_parse_components(1) [OF pp] False r by simp
    obtain q where q: "p = slash # q" using assms(1,2) by (cases p) auto
    have "length (join_path (n # components r)) < MAX_PATH_LEN"
      using join_path_length [of q] assms(4) c by (simp add: q)
    then have "wash_loop (Some r) n (abs_path []) = Some (abs_path (foldl resolve_step [] (n # components r)))"
      using assms(3) c False components_plain [of p]
      by (intro wash_loop_runs) (auto simp: names_fit_def plain_names_def join_path_def)
    then show ?thesis using assms(1,2) pp r False c
      by (simp add: wash_path_def resolved_def) (simp add: abs_path_def)
  qed
qed

lemma foldl_resolve:
  assumes "plain_names acc" and "plain_names ns" and "dot \<notin> set acc" and "dotdot \<notin> set acc"
  shows "plain_names (foldl resolve_step acc ns) \<and> dot \<notin> set (foldl resolve_step acc ns) \<and> dotdot \<notin> set (foldl resolve_step acc ns)
    \<and> set (foldl resolve_step acc ns) \<subseteq> set acc \<union> set ns
    \<and> length (join_path (foldl resolve_step acc ns)) \<le> length (join_path acc) + length (join_path ns)"
  using assms
proof (induction ns arbitrary: acc)
  case (Cons n ns)
  have n: "n \<noteq> []" "slash \<notin> set n" "plain_names ns" using Cons.prems(2) by (simp_all add: plain_names_def)
  note s = resolve_step_plain [OF Cons.prems(1) n(1,2)]
  have d: "dot \<notin> set (resolve_step acc n)" "dotdot \<notin> set (resolve_step acc n)" "set (resolve_step acc n) \<subseteq> insert n (set acc)"
    using Cons.prems(3,4) by (auto simp: resolve_step_def dest: in_set_butlastD)
  let ?f = "foldl resolve_step (resolve_step acc n) ns"
  have h: "plain_names ?f" "dot \<notin> set ?f" "dotdot \<notin> set ?f" "set ?f \<subseteq> set (resolve_step acc n) \<union> set ns"
      "length (join_path ?f) \<le> length (join_path (resolve_step acc n)) + length (join_path ns)"
    using Cons.IH [OF s(1) n(3) d(1,2)] by blast+
  have "set ?f \<subseteq> set acc \<union> set (n # ns)" using h(4) d(3) by auto
  moreover have "length (join_path ?f) \<le> length (join_path acc) + length (join_path (n # ns))"
    using h(5) s(2) by (simp add: join_path_Cons)
  ultimately show ?case using h(1-3) by (simp only: foldl_Cons) blast
qed simp

lemma resolve_none: "dot \<notin> set ns \<Longrightarrow> dotdot \<notin> set ns \<Longrightarrow> foldl resolve_step acc ns = acc @ ns"
  by (induction ns arbitrary: acc) (auto simp: resolve_step_def)

text \<open>C23: \<open>wash_path\<close> turns an absolute path into the path of its resolved names: no \<open>.\<close> or \<open>..\<close> is left,
  splitting the result gives exactly those names, and washing it again changes nothing.\<close>

theorem wash_path_resolves:
  assumes "p \<noteq> []" and "hd p = slash" and "names_fit p" and "length p < MAX_PATH_LEN"
  shows "\<exists>q. wash_path p = Some q \<and> q = abs_path (resolved p) \<and> components q = resolved p
    \<and> dot \<notin> set (resolved p) \<and> dotdot \<notin> set (resolved p) \<and> wash_path q = Some q"
proof (intro exI conjI)
  let ?q = "abs_path (resolved p)"
  show run: "wash_path p = Some ?q" by (rule wash_path_runs [OF assms])
  have f: "plain_names (resolved p)" "dot \<notin> set (resolved p)" "dotdot \<notin> set (resolved p)"
      "set (resolved p) \<subseteq> set (components p)" "length (join_path (resolved p)) \<le> length (join_path (components p))"
  proof -
    have "plain_names []" by (simp add: plain_names_def)
    from foldl_resolve [OF this components_plain [of p]]
    show "plain_names (resolved p)" "dot \<notin> set (resolved p)" "dotdot \<notin> set (resolved p)"
      "set (resolved p) \<subseteq> set (components p)" "length (join_path (resolved p)) \<le> length (join_path (components p))"
      unfolding resolved_def by (simp_all add: length_join_path)
  qed
  show "dot \<notin> set (resolved p)" "dotdot \<notin> set (resolved p)" by (rule f(2), rule f(3))
  show c: "components ?q = resolved p"
    using components_join [of "resolved p"] f(1) by (simp add: abs_path_def plain_names_def) (simp add: components_def)
  obtain q where q: "p = slash # q" using assms(1,2) by (cases p) auto
  have "length ?q < MAX_PATH_LEN"
    using f(5) join_path_length [of q] assms(4) by (simp add: q abs_path_def MAX_PATH_LEN_def)
  moreover have "?q \<noteq> [] \<and> hd ?q = slash" by (cases "resolved p") (simp_all add: abs_path_def join_path_Cons)
  moreover have "names_fit ?q" using assms(3) f(4) by (auto simp: names_fit_def c)
  moreover have "resolved ?q = resolved p" using resolve_none [OF f(2,3), of "[]"] by (simp add: resolved_def [of ?q] c)
  ultimately show "wash_path ?q = Some ?q" using wash_path_runs [of ?q] by simp
qed simp

text \<open>\<open>/a/./bc/..\<close> is \<open>/a\<close>.\<close>

theorem wash_path_resolves_witness: "wash_path [47, 97, 47, 46, 47, 98, 99, 47, 46, 46] = Some [47, 97]"
proof -
  let ?p = "[47, 97, 47, 46, 47, 98, 99, 47, 46, 46] :: path"
  have "components ?p = [[97], [46], [98, 99], [46, 46]]" by (simp add: components_def)
  then have "resolved ?p = [[97]]" "names_fit ?p"
    by (simp_all add: resolved_def resolve_step_def dot_def dotdot_def names_fit_def name_fits_def MAX_FILE_NAME_LEN_def)
  then show ?thesis using wash_path_resolves [of ?p] by (simp add: abs_path_def join_path_def MAX_PATH_LEN_def)
qed

section \<open>The root directory\<close>

text \<open>
  \<open>search_file\<close> recognises the root directory but does not return; its loop is not entered, and the
  inode number it returns is read from the local variable \<open>dir_e\<close> that was never written.
\<close>

lemma search_root_undefined: "search_file [slash] rec s = None"
proof -
  have p: "path_parse [slash] = (Some [], [])" by (simp add: path_parse_def)
  show ?thesis
    by (simp add: search_file_def Let_def p search_loop.simps [of "Some []"] name_fits_def MAX_FILE_NAME_LEN_def MAX_PATH_LEN_def
        split: bind_splits)
qed

text \<open>Going to the root directory has no defined result: \<open>sys_chdir\<close> takes its inode number from an
  uninitialised variable, and so does the command \<open>cd\<close> without an argument, or with one that denotes
  the root directory.\<close>

theorem cd_root_undefined:
  "sys_chdir [slash] g = None \<and> cmd_execute [text_of ''cd''] s = None
    \<and> cmd_execute [text_of ''cd'', [slash]] s = None \<and> cmd_execute [text_of ''cd'', [slash, 46, 46]] s = None"
proof -
  have c: "sys_chdir [slash] g = None" for g by (simp add: sys_chdir_def search_root_undefined)
  have "components [slash] = []" "components [slash, 46, 46] = [dotdot]" by (simp_all add: components_def dotdot_def)
  then have "wash_path [slash] = Some [slash]" "wash_path [slash, 46, 46] = Some [slash]"
    using wash_path_runs [of "[slash]"] wash_path_runs [of "[slash, 46, 46]"]
    by (simp_all add: resolved_def resolve_step_def abs_path_def names_fit_def name_fits_def MAX_FILE_NAME_LEN_def
        MAX_PATH_LEN_def dotdot_def)
  then have "make_clear_abs_path [slash] s = Some (s\<lparr>final_path := [slash]\<rparr>)"
      "make_clear_abs_path [slash, 46, 46] s = Some (s\<lparr>final_path := [slash]\<rparr>)"
    by (simp_all add: make_clear_abs_path_def MAX_PATH_LEN_def)
  then have "buildin_cd [text_of ''cd''] s = None" "buildin_cd [text_of ''cd'', [slash]] s = None"
      "buildin_cd [text_of ''cd'', [slash, 46, 46]] s = None"
    using c by (simp_all add: buildin_cd_def on_files_def rd_at_def)
  then show ?thesis using c by (simp add: cmd_execute_def rd_at_def text_of_def)
qed

end
