(* ===== verification/Timer.thy ===== *)
theory Timer
  imports Prelude Sched
begin

text \<open>
  The timer chip set-up and the waiting functions of \<open>device/timer.c\<close>; its interrupt handler is in
  theory \<open>Sched\<close>. A thread that waits reads the tick counter once for its start and then once
  before each \<open>thread_yield\<close>. \<open>clock i\<close> is the number of ticks at its read number \<open>i\<close>, whatever the
  other threads and the timer do in between; the counter of the code holds it modulo \<open>2 ^ 32\<close>. The
  lemmas show when the waiting functions return.
\<close>

section \<open>Set-up\<close>

text \<open>
  The bytes written to the ports of the chip. In C, \<open>+\<close> binds tighter than \<open><<\<close>, so the control
  byte is zero; and the counter gets the control byte where its start value is meant.
\<close>

definition COUNTER_START_VALUE :: nat where
  "COUNTER_START_VALUE = 1193180 div 100"

definition control_byte :: nat where
  "control_byte = u8 (push_bit (1 + 0) (push_bit (4 + 2) (push_bit (6 + 3) 0)))"

definition init_timer :: "(nat \<times> nat) list" where
  "init_timer = [(0x43, control_byte), (0x40, control_byte AND 0xff),
     (0x40, u8 (drop_bit 8 (control_byte AND 0xff00)))]"

lemma init_timer_clears: "init_timer = [(0x43, 0), (0x40, 0), (0x40, 0)]"
  by (simp add: init_timer_def control_byte_def)

section \<open>Waiting\<close>

text \<open>The number of calls of \<open>thread_yield\<close> until the loop ends, if it ends.\<close>

partial_function (option) yield_loop :: "(nat \<Rightarrow> nat) \<Rightarrow> nat \<Rightarrow> nat \<Rightarrow> nat \<Rightarrow> nat option" where
  "yield_loop clock strart_tick sleep_ticks i =
     (if add32 strart_tick sleep_ticks < u32 (clock (i + 1))
      then yield_loop clock strart_tick sleep_ticks (i + 1) else Some i)"

definition ticks_to_sleep :: "(nat \<Rightarrow> nat) \<Rightarrow> nat \<Rightarrow> nat option" where
  "ticks_to_sleep clock sleep_ticks = yield_loop clock (u32 (clock 0)) sleep_ticks 0"

definition sleep :: "(nat \<Rightarrow> nat) \<Rightarrow> nat \<Rightarrow> nat option" where
  "sleep clock mseconds = ticks_to_sleep clock (DIV_ROUND_UP mseconds 10)"

text \<open>The loop ends with the first read that is not beyond the limit.\<close>

lemma yield_loop_first:
  assumes "\<And>k. k < j \<Longrightarrow> add32 a n < u32 (clock (i + k + 1))" and "u32 (clock (i + j + 1)) \<le> add32 a n"
  shows "yield_loop clock a n i = Some (i + j)"
  using assms
proof (induction j arbitrary: i)
  case 0
  then show ?case by (subst yield_loop.simps) simp
next
  case (Suc j)
  have "yield_loop clock a n (i + 1) = Some (i + 1 + j)"
  proof (rule Suc.IH)
    show "add32 a n < u32 (clock (i + 1 + k + 1))" if "k < j" for k
      using Suc.prems(1) [of "Suc k"] that by simp
    show "u32 (clock (i + 1 + j + 1)) \<le> add32 a n" using Suc.prems(2) by simp
  qed
  moreover have "add32 a n < u32 (clock (i + 1))" using Suc.prems(1) [of 0] by simp
  ultimately show ?case by (subst yield_loop.simps) simp
qed

text \<open>The first read after a wrap-around, when no step is longer than the values up to the limit.\<close>

lemma first_wrap:
  fixes clock :: "nat \<Rightarrow> nat"
  assumes "\<And>i. clock i \<le> clock (Suc i)" and "\<And>i. clock (Suc i) \<le> clock i + e + 1"
    and "\<And>b. \<exists>i. b \<le> clock i" and "clock 1 < 4294967296"
  shows "\<exists>j. 4294967296 \<le> clock (j + 1) \<and> clock (j + 1) \<le> 4294967296 + e \<and> (\<forall>k < j. clock (k + 1) < 4294967296)"
proof -
  let ?P = "\<lambda>j. 4294967296 \<le> clock (j + 1)"
  obtain i where "4294967296 \<le> clock i" using assms(3) by blast
  then have "?P i" using assms(1) [of i] by simp
  define j where "j = (LEAST j. ?P j)"
  have j: "?P j" unfolding j_def using \<open>?P i\<close> by (rule LeastI [of ?P i])
  have below: "clock (k + 1) < 4294967296" if "k < j" for k
    using not_less_Least [of k ?P] that by (simp add: j_def)
  have "j \<noteq> 0" using j assms(4) by (intro notI) simp
  then have "clock j < 4294967296" using below [of "j - 1"] by simp
  then have "clock (j + 1) \<le> 4294967296 + e" using assms(2) [of j] by simp
  then show ?thesis using j below by blast
qed

lemma sleep_constant: "0 < m \<Longrightarrow> m < 4294967286 \<Longrightarrow> t + DIV_ROUND_UP m 10 < 4294967296 \<Longrightarrow>
    sleep (\<lambda>i. t) m = Some 0"
  using yield_loop_first [of 0 t "DIV_ROUND_UP m 10" "\<lambda>i. t" 0]
  by (simp add: sleep_def ticks_to_sleep_def add32_small)

text \<open>C32: \<open>sleep\<close> does not wait for the time it is given, because its comparison is the wrong way round.
  The ticks of the wait and of its start being below \<open>2 ^ 32\<close>, it returns without giving the
  processor away when the end of the wait has not passed at its first test; and when it has passed,
  it gives the processor away until the 32-bit counter has wrapped around, and returns at the first
  test after that. (The counter goes on, and between two tests by fewer ticks than it would need to
  jump over the values from 0 to the end of the wait.)\<close>

theorem sleep_returns_after_wrap:
  assumes "\<And>i. clock i \<le> clock (Suc i)" and "\<And>b. \<exists>i. b \<le> clock i"
    and "\<And>i. clock (Suc i) \<le> clock i + (clock 0 + DIV_ROUND_UP m 10) + 1"
    and "clock 0 + DIV_ROUND_UP m 10 < 4294967296" and "clock 1 < 4294967296"
  shows "(clock 1 \<le> clock 0 + DIV_ROUND_UP m 10 \<longrightarrow> sleep clock m = Some 0)
    \<and> (clock 0 + DIV_ROUND_UP m 10 < clock 1 \<longrightarrow> (\<exists>j. sleep clock m = Some j
         \<and> 4294967296 \<le> clock (j + 1) \<and> (\<forall>k < j. clock (k + 1) < 4294967296)))"
proof (intro conjI impI)
  let ?e = "clock 0 + DIV_ROUND_UP m 10"
  have e: "u32 (clock 0) = clock 0" "add32 (clock 0) (DIV_ROUND_UP m 10) = ?e" "u32 (clock 1) = clock 1"
    using assms(4,5) by (simp_all add: add32_small)
  show "sleep clock m = Some 0" if "clock 1 \<le> ?e"
    using yield_loop_first [of 0 "clock 0" "DIV_ROUND_UP m 10" clock 0] that
    by (simp add: sleep_def ticks_to_sleep_def e del: One_nat_def)
  assume late: "?e < clock 1"
  obtain j where j: "4294967296 \<le> clock (j + 1)" "clock (j + 1) \<le> 4294967296 + ?e" "\<forall>k < j. clock (k + 1) < 4294967296"
    using first_wrap [of clock ?e, OF assms(1,3,2,5)] by blast
  have "u32 (clock (j + 1)) = clock (j + 1) - 4294967296"
    using j(1,2) assms(4) by (simp add: u32_def mod_if)
  then have stop: "u32 (clock (j + 1)) \<le> ?e" using j(2) by simp
  have "clock 1 \<le> clock (k + 1)" for k
    using assms(1) by (induction k) (auto intro: order_trans)
  then have "?e < u32 (clock (k + 1))" if "k < j" for k
    using late j(3) that by (metis less_le_trans u32_small)
  then have "sleep clock m = Some j"
    using yield_loop_first [of j "clock 0" "DIV_ROUND_UP m 10" clock 0] stop
    by (simp add: sleep_def ticks_to_sleep_def e)
  then show "\<exists>j. sleep clock m = Some j \<and> 4294967296 \<le> clock (j + 1) \<and> (\<forall>k < j. clock (k + 1) < 4294967296)"
    using j(1,3) by blast
qed

text \<open>A wait of 50 ms: at once with one tick between two tests, after a wrap-around with ten.\<close>

theorem sleep_returns_after_wrap_witness:
  "sleep (\<lambda>i. 100 + i) 50 = Some 0
   \<and> (\<exists>j. sleep (\<lambda>i. 100 + 10 * i) 50 = Some j \<and> 4294967296 \<le> 100 + 10 * (j + 1))"
proof -
  have d: "DIV_ROUND_UP 50 10 = 5" by (simp add: DIV_ROUND_UP_ceiling)
  have u: "\<exists>i. b \<le> 100 + i" "\<exists>i. b \<le> 100 + 10 * i" for b :: nat
    by (rule exI [of _ b], simp)+
  show ?thesis
    using sleep_returns_after_wrap [of "\<lambda>i. 100 + i" 50, OF _ u(1)]
      sleep_returns_after_wrap [of "\<lambda>i. 100 + 10 * i" 50, OF _ u(2)] by (auto simp: d)
qed

end
