(* ===== verification/Disk.thy ===== *)
theory Disk
  imports Prelude Sched Sync Timer FsState
begin

text \<open>
  The disk driver (\<open>device/ide.c\<close>) on one ATA channel. The drive itself is hardware: its answers
  to port accesses are the fields of an argument \<open>hw\<close>, over a state of any type. \<open>drive_ok\<close>
  states the part of the command protocol of the ATA standard that the lemmas use: registers, the
  read and write commands for one sector, the busy and data request bits, and the interrupt line.

  The standard makes a drive transfer several sectors one data block at a time, busy before each and
  with an interrupt for each. The driver waits once per command and then moves all bytes, so the
  standard does not give what it does with more than one sector; \<open>drive_ok\<close> assumes nothing there,
  and the lemmas are about calls for one sector.

  An interrupt of the drive is taken when the driver waits for it (in \<open>sema_down\<close>); when the drive
  raises none, the thread sleeps and the call has no result. The lemmas show that \<open>ide_read\<close> and
  \<open>ide_write\<close> implement the transfers of one sector that the file system theories are built on
  (\<open>FsState.ide_read\<close>, \<open>FsState.ide_write\<close>), for either drive of the channel, and what is left behind
  when the drive reports an error. Messages are not modelled.
\<close>

section \<open>Ports and the channel\<close>

record 'd ata =
  d_outb :: "nat \<Rightarrow> nat \<Rightarrow> 'd \<Rightarrow> 'd"
  d_inb :: "nat \<Rightarrow> 'd \<Rightarrow> nat \<times> 'd"
  d_insw :: "nat \<Rightarrow> nat \<Rightarrow> 'd \<Rightarrow> byte list \<times> 'd"
  d_outsw :: "nat \<Rightarrow> byte list \<Rightarrow> 'd \<Rightarrow> 'd"
  d_irq :: "'d \<Rightarrow> bool"

record 'd ide_channel =
  port_base :: nat
  irq_no :: nat
  ch_lock :: lock
  expecting_intr :: bool
  disk_done :: semaphore
  drive :: 'd
  ch_kern :: kst

definition outb :: "'d ata \<Rightarrow> nat \<Rightarrow> nat \<Rightarrow> 'd ide_channel \<Rightarrow> 'd ide_channel" where
  "outb hw port data c = c\<lparr>drive := d_outb hw (u16 port) (u8 data) (drive c)\<rparr>"

definition inb :: "'d ata \<Rightarrow> nat \<Rightarrow> 'd ide_channel \<Rightarrow> nat \<times> 'd ide_channel" where
  "inb hw port c = (case d_inb hw (u16 port) (drive c) of (v, d) \<Rightarrow> (v, c\<lparr>drive := d\<rparr>))"

definition insw :: "'d ata \<Rightarrow> nat \<Rightarrow> nat \<Rightarrow> 'd ide_channel \<Rightarrow> byte list \<times> 'd ide_channel" where
  "insw hw port word_cnt c = (case d_insw hw (u16 port) word_cnt (drive c) of (bs, d) \<Rightarrow> (bs, c\<lparr>drive := d\<rparr>))"

definition outsw :: "'d ata \<Rightarrow> nat \<Rightarrow> byte list \<Rightarrow> 'd ide_channel \<Rightarrow> 'd ide_channel" where
  "outsw hw port bs c = c\<lparr>drive := d_outsw hw (u16 port) bs (drive c)\<rparr>"

definition BIT_ALT_STAT_BSY :: nat where "BIT_ALT_STAT_BSY = 0x80"
definition BIT_ALT_STAT_DRQ :: nat where "BIT_ALT_STAT_DRQ = 0x8"
definition BIT_DEV_MBS :: nat where "BIT_DEV_MBS = 0xA0"
definition BIT_DEV_MOD_LBA :: nat where "BIT_DEV_MOD_LBA = 0x40"
definition BIT_DEV_DEV :: nat where "BIT_DEV_DEV = 0x10"
definition CMD_IDENTIFY :: nat where "CMD_IDENTIFY = 0xEC"
definition CMD_READ_SECTOR :: nat where "CMD_READ_SECTOR = 0x20"
definition CMD_WRITE_SECTOR :: nat where "CMD_WRITE_SECTOR = 0x30"

section \<open>Commands\<close>

definition select_disk :: "'d ata \<Rightarrow> nat \<Rightarrow> 'd ide_channel \<Rightarrow> 'd ide_channel" where
  "select_disk hw dev_no c = outb hw (port_base c + 6)
     ((BIT_DEV_MBS OR BIT_DEV_MOD_LBA) OR (if dev_no = 1 then BIT_DEV_DEV else 0)) c"

definition select_sector :: "'d ata \<Rightarrow> nat \<Rightarrow> nat \<Rightarrow> nat \<Rightarrow> 'd ide_channel \<Rightarrow> 'd ide_channel" where
  "select_sector hw dev_no lba sec_cnt c =
     (let c = outb hw (port_base c + 2) sec_cnt c;
          c = outb hw (port_base c + 3) lba c;
          c = outb hw (port_base c + 4) (drop_bit 8 lba) c;
          c = outb hw (port_base c + 5) (drop_bit 16 lba) c
      in outb hw (port_base c + 6) (BIT_DEV_MBS OR BIT_DEV_MOD_LBA
           OR (if dev_no \<noteq> 0 then BIT_DEV_DEV else 0) OR drop_bit 24 lba) c)"

definition cmd_out :: "'d ata \<Rightarrow> nat \<Rightarrow> 'd ide_channel \<Rightarrow> 'd ide_channel" where
  "cmd_out hw cmd c = outb hw (port_base c + 7) cmd (c\<lparr>expecting_intr := True\<rparr>)"

definition size_byte :: "nat \<Rightarrow> nat" where
  "size_byte sec_cnt = (if sec_cnt \<noteq> 0 then sec_cnt * 512 else 256 * 512)"

definition read_from_sector :: "'d ata \<Rightarrow> nat \<Rightarrow> 'd ide_channel \<Rightarrow> byte list \<times> 'd ide_channel" where
  "read_from_sector hw sec_cnt c = insw hw (port_base c) (size_byte sec_cnt div 2) c"

text \<open>The bytes are those of the caller's buffer from the given place on.\<close>

definition write2sector :: "'d ata \<Rightarrow> byte list \<Rightarrow> nat \<Rightarrow> 'd ide_channel \<Rightarrow> 'd ide_channel option" where
  "write2sector hw buf sec_cnt c = do {
     _ \<leftarrow> ensure (size_byte sec_cnt \<le> length buf);
     Some (outsw hw (port_base c) (take (size_byte sec_cnt div 2 * 2) buf) c)
   }"

text \<open>
  The status register is read twice when the drive is not busy. \<open>sleep_time\<close> stays a multiple of
  10, so its subtraction does not wrap.
\<close>

function busy_loop :: "'d ata \<Rightarrow> nat \<Rightarrow> 'd ide_channel \<Rightarrow> (bool \<times> 'd ide_channel) option" where
  "busy_loop hw sleep_time c =
     (if sleep_time = 0 then Some (False, c)
      else let (st, c) = inb hw (port_base c + 7) c in
        if st AND BIT_ALT_STAT_BSY = 0
        then let (st, c) = inb hw (port_base c + 7) c in Some (st AND BIT_ALT_STAT_DRQ \<noteq> 0, c)
        else do {
          _ \<leftarrow> sleep (\<lambda>i. timer_ticks (ch_kern c)) 10;
          busy_loop hw (sleep_time - 10) c
        })"
  by pat_completeness auto
termination by (relation "measure (\<lambda>(hw, n, c). n)") auto

declare busy_loop.simps [simp del]

definition busy_wait :: "'d ata \<Rightarrow> 'd ide_channel \<Rightarrow> (bool \<times> 'd ide_channel) option" where
  "busy_wait hw c = busy_loop hw (30 * 1000) c"

section \<open>The interrupt\<close>

definition ide_hd_handler :: "'d ata \<Rightarrow> nat \<Rightarrow> 'd ide_channel \<Rightarrow> 'd ide_channel option" where
  "ide_hd_handler hw irq c = do {
     _ \<leftarrow> ensure (irq = 0x2e \<or> irq = 0x2f);
     _ \<leftarrow> ensure (irq_no c = irq);
     if expecting_intr c then do {
       let c = c\<lparr>expecting_intr := False\<rparr>;
       (sm, k) \<leftarrow> sema_up (disk_done c) (ch_kern c);
       Some (snd (inb hw (port_base c + 7) (c\<lparr>disk_done := sm, ch_kern := k\<rparr>)))
     } else Some c
   }"

text \<open>
  \<open>sema_down(&disk_done)\<close>, in the run in which the drive has raised its interrupt before the
  semaphore is tested.
\<close>

definition take_intr :: "'d ata \<Rightarrow> 'd ide_channel \<Rightarrow> 'd ide_channel option" where
  "take_intr hw c = (if intr (ch_kern c) \<and> d_irq hw (drive c) then do {
       let k = ch_kern c;
       c \<leftarrow> ide_hd_handler hw (irq_no c) (c\<lparr>ch_kern := k\<lparr>intr := False\<rparr>\<rparr>);
       Some (c\<lparr>ch_kern := (ch_kern c)\<lparr>intr := intr k\<rparr>\<rparr>)
     } else Some c)"

definition down_done :: "'d ata \<Rightarrow> 'd ide_channel \<Rightarrow> 'd ide_channel option" where
  "down_done hw c = do {
     c \<leftarrow> take_intr hw c;
     let k = ch_kern c;
     (r, sm, k) \<leftarrow> sema_down_loop (intr k) (disk_done c) (k\<lparr>intr := False\<rparr>);
     _ \<leftarrow> ensure (r = Passed);
     Some (c\<lparr>disk_done := sm, ch_kern := k\<rparr>)
   }"

section \<open>Transfers\<close>

text \<open>At most 256 sectors per command; the count 256 is written as 0.\<close>

definition secs_op :: "nat \<Rightarrow> nat \<Rightarrow> nat" where
  "secs_op sec_cnt secs_done = (if sec_cnt - secs_done \<ge> 256 then 256 else sec_cnt - secs_done)"

function read_loop :: "'d ata \<Rightarrow> nat \<Rightarrow> nat \<Rightarrow> byte list \<Rightarrow> nat \<Rightarrow> nat \<Rightarrow> 'd ide_channel
    \<Rightarrow> (bool \<times> byte list \<times> 'd ide_channel) option" where
  "read_loop hw dev_no lba buf sec_cnt secs_done c =
     (if secs_done < sec_cnt then do {
        let op = secs_op sec_cnt secs_done;
        let c = select_sector hw dev_no (add32 lba secs_done) (u8 op) c;
        let c = cmd_out hw CMD_READ_SECTOR c;
        c \<leftarrow> down_done hw c;
        (ready, c) \<leftarrow> busy_wait hw c;
        if \<not> ready then Some (False, buf, c)
        else do {
          let (bs, c) = read_from_sector hw (u8 op) c;
          _ \<leftarrow> ensure (secs_done * 512 + length bs \<le> length buf);
          read_loop hw dev_no lba (put_bytes (secs_done * 512) bs buf) sec_cnt (secs_done + op) c
        }
      } else Some (True, buf, c))"
  by pat_completeness auto
termination by (relation "measure (\<lambda>(hw, dv, lba, buf, n, k, c). n - k)") (auto simp: secs_op_def)

declare read_loop.simps [simp del]

definition ide_read :: "'d ata \<Rightarrow> nat \<Rightarrow> nat \<Rightarrow> byte list \<Rightarrow> nat \<Rightarrow> 'd ide_channel
    \<Rightarrow> (bool \<times> byte list \<times> 'd ide_channel) option" where
  "ide_read hw dev_no lba buf sec_cnt c =
     (if lba > max_lba then Some (False, buf, c)
      else do {
        (got, l, k) \<leftarrow> lock_take (ch_lock c) (ch_kern c);
        _ \<leftarrow> ensure got;
        let c = select_disk hw dev_no (c\<lparr>ch_lock := l, ch_kern := k\<rparr>);
        (ok, buf, c) \<leftarrow> read_loop hw dev_no lba buf sec_cnt 0 c;
        if \<not> ok then Some (False, buf, c)
        else do {
          (l, k) \<leftarrow> lock_give (ch_lock c) (ch_kern c);
          Some (True, buf, c\<lparr>ch_lock := l, ch_kern := k\<rparr>)
        }
      })"

function write_loop :: "'d ata \<Rightarrow> nat \<Rightarrow> nat \<Rightarrow> byte list \<Rightarrow> nat \<Rightarrow> nat \<Rightarrow> 'd ide_channel
    \<Rightarrow> (bool \<times> 'd ide_channel) option" where
  "write_loop hw dev_no lba buf sec_cnt secs_done c =
     (if secs_done < sec_cnt then do {
        let op = secs_op sec_cnt secs_done;
        let c = select_sector hw dev_no (add32 lba secs_done) (u8 op) c;
        let c = cmd_out hw CMD_WRITE_SECTOR c;
        (ready, c) \<leftarrow> busy_wait hw c;
        if \<not> ready then Some (False, c)
        else do {
          c \<leftarrow> write2sector hw (drop (secs_done * 512) buf) (u8 op) c;
          c \<leftarrow> down_done hw c;
          write_loop hw dev_no lba buf sec_cnt (secs_done + op) c
        }
      } else Some (True, c))"
  by pat_completeness auto
termination by (relation "measure (\<lambda>(hw, dv, lba, buf, n, k, c). n - k)") (auto simp: secs_op_def)

declare write_loop.simps [simp del]

definition ide_write :: "'d ata \<Rightarrow> nat \<Rightarrow> nat \<Rightarrow> byte list \<Rightarrow> nat \<Rightarrow> 'd ide_channel \<Rightarrow> 'd ide_channel option" where
  "ide_write hw dev_no lba buf sec_cnt c =
     (if lba > max_lba then Some c
      else do {
        (got, l, k) \<leftarrow> lock_take (ch_lock c) (ch_kern c);
        _ \<leftarrow> ensure got;
        let c = select_disk hw dev_no (c\<lparr>ch_lock := l, ch_kern := k\<rparr>);
        (ok, c) \<leftarrow> write_loop hw dev_no lba buf sec_cnt 0 c;
        if \<not> ok then Some c
        else do {
          (l, k) \<leftarrow> lock_give (ch_lock c) (ch_kern c);
          Some (c\<lparr>ch_lock := l, ch_kern := k\<rparr>)
        }
      })"

section \<open>The drive\<close>

text \<open>
  What a program sees of the two drives of a channel: the command registers, whether a transfer is
  pending, for how many reads of the status register the drive stays busy, the interrupt line, the
  sectors of each drive, and the sectors it can not transfer.
\<close>

datatype phase = Idle | DataIn "byte list" | DataOut nat nat

record view =
  v_cnt :: nat
  v_low :: nat
  v_mid :: nat
  v_high :: nat
  v_dev :: nat
  v_phase :: phase
  v_busy :: nat
  v_intrq :: bool
  platter :: "nat \<Rightarrow> nat \<Rightarrow> byte list"
  faulty :: "nat \<Rightarrow> nat \<Rightarrow> bool"

definition v_lba :: "view \<Rightarrow> nat" where
  "v_lba v = v_low v + 256 * v_mid v + 65536 * v_high v + 16777216 * (v_dev v mod 16)"

definition v_sel :: "view \<Rightarrow> nat" where
  "v_sel v = v_dev v div 16 mod 2"

definition v_secs :: "view \<Rightarrow> nat" where
  "v_secs v = (if v_cnt v = 0 then 256 else v_cnt v)"

definition v_fault :: "view \<Rightarrow> bool" where
  "v_fault v \<longleftrightarrow> faulty v (v_sel v) (v_lba v)"

definition fill_sectors :: "nat \<Rightarrow> nat \<Rightarrow> byte list \<Rightarrow> (nat \<Rightarrow> byte list) \<Rightarrow> nat \<Rightarrow> byte list" where
  "fill_sectors lba n bs f = (\<lambda>l. if lba \<le> l \<and> l < lba + n then sub_bytes ((l - lba) * 512) 512 bs else f l)"

text \<open>The registers are written while no transfer is pending.\<close>

definition registers_ok :: "nat \<Rightarrow> 'd ata \<Rightarrow> ('d \<Rightarrow> view) \<Rightarrow> bool" where
  "registers_ok base hw vw \<longleftrightarrow> (\<forall>d x. v_phase (vw d) = Idle \<longrightarrow> x < 256 \<longrightarrow>
     vw (d_outb hw (base + 2) x d) = (vw d)\<lparr>v_cnt := x\<rparr>
   \<and> vw (d_outb hw (base + 3) x d) = (vw d)\<lparr>v_low := x\<rparr>
   \<and> vw (d_outb hw (base + 4) x d) = (vw d)\<lparr>v_mid := x\<rparr>
   \<and> vw (d_outb hw (base + 5) x d) = (vw d)\<lparr>v_high := x\<rparr>
   \<and> vw (d_outb hw (base + 6) x d) = (vw d)\<lparr>v_dev := x\<rparr>)"

text \<open>
  With the sector count 1, a read command makes the sector available and raises the interrupt, a
  write command asks for data; a command that meets a faulty sector ends at once. The drive is busy
  for fewer reads of its status register than \<open>busy_wait\<close> makes, which are 3000 and not the 30
  seconds that are meant, since \<open>sleep\<close> returns at once.
\<close>

definition commands_ok :: "nat \<Rightarrow> 'd ata \<Rightarrow> ('d \<Rightarrow> view) \<Rightarrow> bool" where
  "commands_ok base hw vw \<longleftrightarrow> (\<forall>d. v_phase (vw d) = Idle \<longrightarrow> v_dev (vw d) AND BIT_DEV_MOD_LBA \<noteq> 0 \<longrightarrow> v_cnt (vw d) = 1 \<longrightarrow>
     (\<exists>b < 3000. vw (d_outb hw (base + 7) CMD_READ_SECTOR d) = (vw d)\<lparr>v_busy := b, v_intrq := True,
        v_phase := if v_fault (vw d) then Idle
          else DataIn (platter (vw d) (v_sel (vw d)) (v_lba (vw d)))\<rparr>)
   \<and> (\<exists>b < 3000. vw (d_outb hw (base + 7) CMD_WRITE_SECTOR d) = (vw d)\<lparr>v_busy := b, v_intrq := v_fault (vw d),
        v_phase := if v_fault (vw d) then Idle
          else DataOut (v_sel (vw d)) (v_lba (vw d))\<rparr>))"

definition status_ok :: "nat \<Rightarrow> 'd ata \<Rightarrow> ('d \<Rightarrow> view) \<Rightarrow> bool" where
  "status_ok base hw vw \<longleftrightarrow> (\<forall>d.
     vw (snd (d_inb hw (base + 7) d)) = (vw d)\<lparr>v_busy := v_busy (vw d) - 1, v_intrq := False\<rparr>
   \<and> (fst (d_inb hw (base + 7) d) AND BIT_ALT_STAT_BSY \<noteq> 0 \<longleftrightarrow> 0 < v_busy (vw d))
   \<and> (v_busy (vw d) = 0 \<longrightarrow>
        (fst (d_inb hw (base + 7) d) AND BIT_ALT_STAT_DRQ \<noteq> 0 \<longleftrightarrow> v_phase (vw d) \<noteq> Idle))
   \<and> (d_irq hw d \<longleftrightarrow> v_intrq (vw d)))"

definition data_ok :: "nat \<Rightarrow> 'd ata \<Rightarrow> ('d \<Rightarrow> view) \<Rightarrow> bool" where
  "data_ok base hw vw \<longleftrightarrow>
     (\<forall>d bs n. v_phase (vw d) = DataIn bs \<longrightarrow> v_busy (vw d) = 0 \<longrightarrow> 2 * n = length bs \<longrightarrow>
        fst (d_insw hw base n d) = bs \<and> vw (snd (d_insw hw base n d)) = (vw d)\<lparr>v_phase := Idle\<rparr>)
   \<and> (\<forall>d bs dv lba. v_phase (vw d) = DataOut dv lba \<longrightarrow> v_busy (vw d) = 0 \<longrightarrow> length bs = 512 \<longrightarrow>
        vw (d_outsw hw base bs d) = (vw d)\<lparr>v_phase := Idle, v_intrq := True,
          platter := (platter (vw d))(dv := fill_sectors lba 1 bs (platter (vw d) dv))\<rparr>)"

definition drive_ok :: "nat \<Rightarrow> 'd ata \<Rightarrow> ('d \<Rightarrow> view) \<Rightarrow> bool" where
  "drive_ok base hw vw \<longleftrightarrow> registers_ok base hw vw \<and> commands_ok base hw vw
     \<and> status_ok base hw vw \<and> data_ok base hw vw \<and> (\<forall>d n l. length (platter (vw d) n l) = 512)"

text \<open>The channel between two transfers, with its lock free or held by the running thread.\<close>

definition channel_rest :: "('d \<Rightarrow> view) \<Rightarrow> 'd ide_channel \<Rightarrow> bool" where
  "channel_rest vw c \<longleftrightarrow> v_phase (vw (drive c)) = Idle \<and> \<not> v_intrq (vw (drive c))
     \<and> \<not> expecting_intr c \<and> disk_done c = seam_init 0 \<and> intr (ch_kern c)
     \<and> timer_ticks (ch_kern c) < 4294967295
     \<and> (irq_no c = 0x2e \<or> irq_no c = 0x2f) \<and> port_base c + 7 < 65536"

definition channel_idle :: "('d \<Rightarrow> view) \<Rightarrow> 'd ide_channel \<Rightarrow> bool" where
  "channel_idle vw c \<longleftrightarrow> channel_rest vw c \<and> lock_free (ch_lock c) \<and> running (ch_kern c) \<noteq> 0
     \<and> waiters (semaphore_of (ch_lock c)) = [] \<and> holder_repeat_nm (ch_lock c) = 0"

section \<open>Lemmas on the commands\<close>

lemma device_register:
  assumes "dev_no < 2" and "h < 16"
    and "r = BIT_DEV_MBS OR BIT_DEV_MOD_LBA OR (if dev_no \<noteq> 0 then BIT_DEV_DEV else 0) OR h"
  shows "r < 256" and "r mod 16 = h" and "r div 16 mod 2 = dev_no" and "r AND BIT_DEV_MOD_LBA \<noteq> 0"
proof -
  have "h = 0 \<or> h = 1 \<or> h = 2 \<or> h = 3 \<or> h = 4 \<or> h = 5 \<or> h = 6 \<or> h = 7 \<or> h = 8 \<or> h = 9
      \<or> h = 10 \<or> h = 11 \<or> h = 12 \<or> h = 13 \<or> h = 14 \<or> h = 15" using assms(2) by presburger
  moreover have "dev_no = 0 \<or> dev_no = 1" using assms(1) by auto
  ultimately show "r < 256" and "r mod 16 = h" and "r div 16 mod 2 = dev_no" and "r AND BIT_DEV_MOD_LBA \<noteq> 0"
    unfolding assms(3) by (auto simp: BIT_DEV_MBS_def BIT_DEV_MOD_LBA_def BIT_DEV_DEV_def)
qed

lemma lba_parts:
  assumes "lba < 268435456"
  shows "u8 lba + 256 * u8 (drop_bit 8 lba) + 65536 * u8 (drop_bit 16 lba) + 16777216 * drop_bit 24 lba = lba"
    and "drop_bit 24 lba < 16"
proof -
  have "lba div 16777216 = lba div 65536 div 256" and "lba div 65536 = lba div 256 div 256"
    by (simp_all add: div_mult2_eq [symmetric])
  then show "u8 lba + 256 * u8 (drop_bit 8 lba) + 65536 * u8 (drop_bit 16 lba) + 16777216 * drop_bit 24 lba = lba"
    unfolding u8_def by (simp add: drop_bit_eq_div) (use mult_div_mod_eq [of 256 lba]
      mult_div_mod_eq [of 256 "lba div 256"] mult_div_mod_eq [of 256 "lba div 256 div 256"] in linarith)
  show "drop_bit 24 lba < 16" using assms by (simp add: drop_bit_eq_div)
qed

text \<open>The registers hold the address of a transfer.\<close>

definition addressed :: "nat \<Rightarrow> nat \<Rightarrow> nat \<Rightarrow> view \<Rightarrow> bool" where
  "addressed dev_no lba n v \<longleftrightarrow> v_lba v = lba \<and> v_sel v = dev_no \<and> v_secs v = n
     \<and> v_dev v AND BIT_DEV_MOD_LBA \<noteq> 0"

definition same_disks :: "view \<Rightarrow> view \<Rightarrow> bool" where
  "same_disks v v' \<longleftrightarrow> platter v' = platter v \<and> faulty v' = faulty v"

lemma u16_small: "n < 65536 \<Longrightarrow> u16 n = n"
  by (simp add: u16_def)

lemma select_sector_addresses:
  assumes "drive_ok (port_base c) hw vw" and "v_phase (vw (drive c)) = Idle"
    and "dev_no < 2" and "lba < 268435456" and "0 < n" and "n \<le> 256" and "port_base c + 7 < 65536"
  shows "\<exists>d. select_sector hw dev_no lba (u8 n) c = c\<lparr>drive := d\<rparr> \<and> v_phase (vw d) = Idle
    \<and> v_intrq (vw d) = v_intrq (vw (drive c)) \<and> addressed dev_no lba n (vw d) \<and> same_disks (vw (drive c)) (vw d)"
proof -
  define r where "r = BIT_DEV_MBS OR BIT_DEV_MOD_LBA OR (if dev_no \<noteq> 0 then BIT_DEV_DEV else 0) OR drop_bit 24 lba"
  note dev = device_register [OF assms(3) lba_parts(2) [OF assms(4)] r_def]
  have reg: "\<And>d x. v_phase (vw d) = Idle \<Longrightarrow> x < 256 \<Longrightarrow>
      vw (d_outb hw (port_base c + 2) x d) = (vw d)\<lparr>v_cnt := x\<rparr>
    \<and> vw (d_outb hw (port_base c + 3) x d) = (vw d)\<lparr>v_low := x\<rparr>
    \<and> vw (d_outb hw (port_base c + 4) x d) = (vw d)\<lparr>v_mid := x\<rparr>
    \<and> vw (d_outb hw (port_base c + 5) x d) = (vw d)\<lparr>v_high := x\<rparr>
    \<and> vw (d_outb hw (port_base c + 6) x d) = (vw d)\<lparr>v_dev := x\<rparr>"
    using assms(1) by (simp add: drive_ok_def registers_ok_def)
  define d where "d = d_outb hw (port_base c + 6) r (d_outb hw (port_base c + 5) (u8 (drop_bit 16 lba))
    (d_outb hw (port_base c + 4) (u8 (drop_bit 8 lba)) (d_outb hw (port_base c + 3) (u8 lba)
    (d_outb hw (port_base c + 2) (u8 n) (drive c)))))"
  have "select_sector hw dev_no lba (u8 n) c = c\<lparr>drive := d\<rparr>"
    using assms(7) dev(1) r_def
    by (cases "dev_no = 0") (simp_all add: select_sector_def outb_def u16_small d_def Let_def)
  moreover have v: "vw d = (vw (drive c))\<lparr>v_cnt := u8 n, v_low := u8 lba, v_mid := u8 (drop_bit 8 lba),
      v_high := u8 (drop_bit 16 lba), v_dev := r\<rparr>"
    using assms(2) dev(1) by (simp add: d_def reg del: add_2_eq_Suc')
  have "u8 n = 0 \<longleftrightarrow> n = 256" using assms(5,6) by (cases "n = 256") (auto simp: u8_def)
  then have "addressed dev_no lba n (vw d)"
    unfolding v addressed_def using dev(2-4) lba_parts(1) [OF assms(4)] assms(5,6)
    by (simp add: v_lba_def v_sel_def v_secs_def)
  with calculation v assms(2) show ?thesis by (auto simp: same_disks_def)
qed

lemma inb_status:
  assumes "port_base c + 7 < 65536"
  shows "inb hw (port_base c + 7) c
    = (fst (d_inb hw (port_base c + 7) (drive c)), c\<lparr>drive := snd (d_inb hw (port_base c + 7) (drive c))\<rparr>)"
  using assms by (simp add: inb_def u16_small split: prod.splits)

lemma status_view:
  assumes "drive_ok base hw vw"
  shows "vw (snd (d_inb hw (base + 7) d)) = (vw d)\<lparr>v_busy := v_busy (vw d) - 1, v_intrq := False\<rparr>"
    and "fst (d_inb hw (base + 7) d) AND BIT_ALT_STAT_BSY = 0 \<longleftrightarrow> v_busy (vw d) = 0"
    and "v_busy (vw d) = 0 \<Longrightarrow>
      (fst (d_inb hw (base + 7) d) AND BIT_ALT_STAT_DRQ \<noteq> 0 \<longleftrightarrow> v_phase (vw d) \<noteq> Idle)"
    and "d_irq hw d \<longleftrightarrow> v_intrq (vw d)"
  using assms unfolding drive_ok_def status_ok_def by (blast, metis not_gr_zero, blast, blast)

text \<open>Waiting for a drive that is busy for \<open>b\<close> more reads of its status.\<close>

lemma busy_loop_waits:
  assumes "drive_ok (port_base c) hw vw" and "port_base c + 7 < 65536"
    and "timer_ticks (ch_kern c) < 4294967295" and "v_busy (vw (drive c)) = b" and "10 * b < t"
  shows "\<exists>d. busy_loop hw t c = Some (v_phase (vw (drive c)) \<noteq> Idle, c\<lparr>drive := d\<rparr>)
    \<and> vw d = (vw (drive c))\<lparr>v_busy := 0, v_intrq := False\<rparr>"
  using assms
proof (induction b arbitrary: c t)
  case 0
  let ?p = "port_base c + 7"
  let ?d = "snd (d_inb hw ?p (drive c))"
  note st = status_view [OF "0.prems"(1)]
  have b: "v_busy (vw ?d) = 0" and ph: "v_phase (vw ?d) = v_phase (vw (drive c))"
    using "0.prems"(4) st(1) [of "drive c"] by simp_all
  have "busy_loop hw t c = Some (v_phase (vw (drive c)) \<noteq> Idle, c\<lparr>drive := snd (d_inb hw ?p ?d)\<rparr>)"
    using "0.prems"(2,4,5) st(2) [of "drive c"] st(3) [OF b] ph inb_status [of "c\<lparr>drive := ?d\<rparr>" hw]
    by (subst busy_loop.simps) (simp add: inb_status)
  moreover have "vw (snd (d_inb hw ?p ?d)) = (vw (drive c))\<lparr>v_busy := 0, v_intrq := False\<rparr>"
    using st(1) [of ?d] st(1) [of "drive c"] "0.prems"(4) by simp
  ultimately show ?case by blast
next
  case (Suc b)
  let ?p = "port_base c + 7"
  let ?d = "snd (d_inb hw ?p (drive c))"
  let ?c = "c\<lparr>drive := ?d\<rparr>"
  note st = status_view [OF Suc.prems(1)]
  have v: "vw ?d = (vw (drive c))\<lparr>v_busy := b, v_intrq := False\<rparr>"
    using Suc.prems(4) st(1) [of "drive c"] by simp
  have sl: "sleep (\<lambda>i. timer_ticks (ch_kern c)) 10 = Some 0"
    using Suc.prems(3) by (intro sleep_constant) (simp_all add: DIV_ROUND_UP_ceiling)
  have "busy_loop hw t c = busy_loop hw (t - 10) ?c"
    using Suc.prems(2,4,5) st(2) [of "drive c"] sl
    by (subst busy_loop.simps) (simp add: inb_status)
  moreover have "\<exists>d. busy_loop hw (t - 10) ?c = Some (v_phase (vw (drive ?c)) \<noteq> Idle, ?c\<lparr>drive := d\<rparr>)
      \<and> vw d = (vw (drive ?c))\<lparr>v_busy := 0, v_intrq := False\<rparr>"
    using Suc.prems v by (intro Suc.IH) simp_all
  ultimately show ?case using v by auto
qed

lemmas busy_wait_waits = busy_loop_waits [where t = "30 * 1000", folded busy_wait_def]

text \<open>Waiting for an interrupt that the drive has raised.\<close>

lemma down_done_runs:
  assumes "drive_ok (port_base c) hw vw" and "port_base c + 7 < 65536"
    and "irq_no c = 0x2e \<or> irq_no c = 0x2f" and "intr (ch_kern c)"
    and "expecting_intr c" and "disk_done c = seam_init 0" and "v_intrq (vw (drive c))"
  shows "\<exists>d. down_done hw c = Some (c\<lparr>expecting_intr := False, drive := d\<rparr>)
    \<and> vw d = (vw (drive c))\<lparr>v_busy := v_busy (vw (drive c)) - 1, v_intrq := False\<rparr>"
proof -
  let ?d = "snd (d_inb hw (port_base c + 7) (drive c))"
  let ?k = "(ch_kern c)\<lparr>intr := False\<rparr>"
  have k: "(ch_kern c)\<lparr>intr := True\<rparr> = ch_kern c" using assms(4) by simp
  have "take_intr hw c = Some (c\<lparr>expecting_intr := False, disk_done := seam_init 1, drive := ?d\<rparr>)"
    using assms(2-7) status_view(4) [OF assms(1)] k
    by (auto simp: take_intr_def ide_hd_handler_def sema_up_def seam_init_def inb_def u16_small
        case_prod_unfold Let_def)
  moreover have "down_done hw c = Some (c\<lparr>expecting_intr := False, drive := ?d\<rparr>)"
    using assms(4,6) k calculation
    by (simp add: down_done_def sema_down_loop_def seam_init_def u8_def Let_def)
  ultimately show ?thesis using status_view(1) [OF assms(1), of "drive c"] by blast
qed

section \<open>Transfers of a sector\<close>

lemma v_secs_1: "v_secs v = n \<Longrightarrow> n = 1 \<Longrightarrow> v_cnt v = 1"
  by (simp add: v_secs_def split: if_splits)

text \<open>One read command: wait for the interrupt, wait for the data, take them.\<close>

lemma read_command:
  assumes "drive_ok (port_base c) hw vw" and "channel_rest vw c"
    and "addressed dev_no lba n (vw (drive c))" and "n = 1"
  shows "\<exists>c1 d. down_done hw (cmd_out hw CMD_READ_SECTOR c) = Some c1
    \<and> busy_wait hw c1 = Some (\<not> v_fault (vw (drive c)), c\<lparr>drive := d\<rparr>)
    \<and> same_disks (vw (drive c)) (vw d) \<and> v_busy (vw d) = 0 \<and> \<not> v_intrq (vw d)
    \<and> v_phase (vw d) = (if v_fault (vw (drive c)) then Idle
        else DataIn (concat (map (platter (vw (drive c)) dev_no) [lba..<lba + n])))"
proof -
  note rest = assms(2) [unfolded channel_rest_def]
  let ?d = "d_outb hw (port_base c + 7) CMD_READ_SECTOR (drive c)"
  let ?c = "c\<lparr>expecting_intr := True, drive := ?d\<rparr>"
  have c: "cmd_out hw CMD_READ_SECTOR c = ?c"
    using rest by (simp add: cmd_out_def outb_def u16_small CMD_READ_SECTOR_def)
  obtain b where b: "b < 3000" and v: "vw ?d = (vw (drive c))\<lparr>v_busy := b, v_intrq := True,
        v_phase := if v_fault (vw (drive c)) then Idle
          else DataIn (platter (vw (drive c)) (v_sel (vw (drive c))) (v_lba (vw (drive c))))\<rparr>"
    using assms(1,3,4) rest v_secs_1 unfolding drive_ok_def commands_ok_def addressed_def by blast
  have "\<exists>d. down_done hw ?c = Some (?c\<lparr>expecting_intr := False, drive := d\<rparr>)
      \<and> vw d = (vw (drive ?c))\<lparr>v_busy := v_busy (vw (drive ?c)) - 1, v_intrq := False\<rparr>"
    using assms(1) rest v by (intro down_done_runs) simp_all
  then obtain d1 where d1: "down_done hw ?c = Some (?c\<lparr>expecting_intr := False, drive := d1\<rparr>)"
      and v1: "vw d1 = (vw ?d)\<lparr>v_busy := b - 1, v_intrq := False\<rparr>"
    using v by auto
  have same: "?c\<lparr>expecting_intr := False, drive := d1\<rparr> = c\<lparr>drive := d1\<rparr>" using rest by simp
  let ?c1 = "c\<lparr>drive := d1\<rparr>"
  have "\<exists>d. busy_wait hw ?c1 = Some (v_phase (vw (drive ?c1)) \<noteq> Idle, ?c1\<lparr>drive := d\<rparr>)
      \<and> vw d = (vw (drive ?c1))\<lparr>v_busy := 0, v_intrq := False\<rparr>"
    using assms(1) rest v1 b by (intro busy_wait_waits [where b = "b - 1"]) simp_all
  then obtain d where d: "busy_wait hw ?c1 = Some (v_phase (vw d1) \<noteq> Idle, c\<lparr>drive := d\<rparr>)"
      and v2: "vw d = (vw d1)\<lparr>v_busy := 0, v_intrq := False\<rparr>"
    by auto
  have ph: "v_phase (vw d1) = (if v_fault (vw (drive c)) then Idle
        else DataIn (concat (map (platter (vw (drive c)) dev_no) [lba..<lba + n])))"
    using v v1 assms(3,4) by (simp add: addressed_def)
  have "down_done hw (cmd_out hw CMD_READ_SECTOR c) = Some ?c1" using c d1 same by simp
  moreover have "busy_wait hw ?c1 = Some (\<not> v_fault (vw (drive c)), c\<lparr>drive := d\<rparr>)"
    using d ph by simp
  moreover have "same_disks (vw (drive c)) (vw d) \<and> v_busy (vw d) = 0 \<and> \<not> v_intrq (vw d)"
    using v v1 v2 by (simp add: same_disks_def)
  ultimately show ?thesis using v2 ph by auto
qed

lemma v_fault_addressed:
  "addressed dev_no lba n v \<Longrightarrow> n = 1 \<Longrightarrow> v_fault v \<longleftrightarrow> (\<exists>l. lba \<le> l \<and> l < lba + n \<and> faulty v dev_no l)"
  by (auto simp: v_fault_def addressed_def less_Suc_eq)

lemma length_concat_blocks:
  "(\<And>l. length (f l) = (512::nat)) \<Longrightarrow> length (concat (map f [a..<b])) = 512 * (b - a)"
  by (induction b) (auto simp: Suc_diff_le)

lemma size_byte_u8: "0 < n \<Longrightarrow> n \<le> 256 \<Longrightarrow> size_byte (u8 n) = 512 * n"
  by (cases "n = 256") (auto simp: size_byte_def u8_def)

text \<open>Filling the buffer chunk by chunk is filling it at once.\<close>

lemma put_sectors_grow:
  assumes "a \<le> b" and "b \<le> e" and "\<And>l. length (f l) = (512::nat)"
  shows "put_bytes ((b - a) * 512) (concat (map f [b..<e])) (put_bytes 0 (concat (map f [a..<b])) buf)
    = put_bytes 0 (concat (map f [a..<e])) buf"
proof -
  have "[a..<e] = [a..<b] @ [b..<e]" using assms(1,2) upt_add_eq_append [of a b "e - b"] by simp
  moreover have "512 * (b - a) + 512 * (e - b) = 512 * (e - a)" using assms(1,2) by simp
  ultimately show ?thesis using assms(3)
    by (simp add: put_bytes_def length_concat_blocks mult.commute [of _ 512] add.commute)
qed

text \<open>The loop, before and after the sector: it is read, or the drive reports an error.\<close>

lemma ata_read_loop_runs:
  assumes "drive_ok (port_base c) hw vw" and "channel_rest vw c" and "dev_no < 2"
    and "lba + sec_cnt < 268435456" and "k \<le> sec_cnt" and "sec_cnt * 512 \<le> length buf" and "sec_cnt \<le> 1"
    and "v0 = vw (drive c)" and "p = platter v0 dev_no"
  shows "\<exists>ok buf' d. read_loop hw dev_no lba (put_bytes 0 (concat (map p [lba..<lba + k])) buf) sec_cnt k c
        = Some (ok, buf', c\<lparr>drive := d\<rparr>)
    \<and> channel_rest vw (c\<lparr>drive := d\<rparr>) \<and> same_disks v0 (vw d)
    \<and> (ok \<longleftrightarrow> (\<forall>l. lba + k \<le> l \<longrightarrow> l < lba + sec_cnt \<longrightarrow> \<not> faulty v0 dev_no l))
    \<and> (ok \<longrightarrow> buf' = put_bytes 0 (concat (map p [lba..<lba + sec_cnt])) buf)"
  using assms
proof (induction "sec_cnt - k" arbitrary: k c v0 rule: less_induct)
  case less
  note rest = less.prems(2) [unfolded channel_rest_def]
  have p512: "length (p l) = 512" for l using less.prems(1,8,9) by (simp add: drive_ok_def)
  show ?case
  proof (cases "k < sec_cnt")
    case False
    then have "k = sec_cnt" using less.prems(5) by simp
    then have "read_loop hw dev_no lba (put_bytes 0 (concat (map p [lba..<lba + k])) buf) sec_cnt k c
        = Some (True, put_bytes 0 (concat (map p [lba..<lba + sec_cnt])) buf, c\<lparr>drive := drive c\<rparr>)"
      by (subst read_loop.simps) simp
    moreover have "channel_rest vw (c\<lparr>drive := drive c\<rparr>) \<and> same_disks v0 (vw (drive c))"
      using less.prems(2,8) by (simp add: same_disks_def)
    moreover have "\<forall>l. lba + k \<le> l \<longrightarrow> l < lba + sec_cnt \<longrightarrow> \<not> faulty v0 dev_no l"
      using \<open>k = sec_cnt\<close> by simp
    ultimately show ?thesis by blast
  next
    case True
    define n where "n = secs_op sec_cnt k"
    have n: "0 < n" "n \<le> 256" "k + n \<le> sec_cnt" using True by (auto simp: n_def secs_op_def)
    have n1: "n = 1" using n less.prems(7) by simp
    have sel: "\<exists>d. select_sector hw dev_no (lba + k) (u8 n) c = c\<lparr>drive := d\<rparr> \<and> v_phase (vw d) = Idle
        \<and> v_intrq (vw d) = v_intrq (vw (drive c)) \<and> addressed dev_no (lba + k) n (vw d)
        \<and> same_disks (vw (drive c)) (vw d)"
      using less.prems(1,3,4) True rest n(1,2) by (intro select_sector_addresses) auto
    obtain d1 where d1: "select_sector hw dev_no (lba + k) (u8 n) c = c\<lparr>drive := d1\<rparr>"
        and a1: "addressed dev_no (lba + k) n (vw d1)" and s1: "same_disks v0 (vw d1)"
        and p1: "v_phase (vw d1) = Idle" "\<not> v_intrq (vw d1)"
      using sel rest less.prems(8) by auto
    let ?c1 = "c\<lparr>drive := d1\<rparr>"
    have r1: "channel_rest vw ?c1" using rest p1 by (simp add: channel_rest_def)
    have "\<exists>c1 d. down_done hw (cmd_out hw CMD_READ_SECTOR ?c1) = Some c1
      \<and> busy_wait hw c1 = Some (\<not> v_fault (vw (drive ?c1)), ?c1\<lparr>drive := d\<rparr>)
      \<and> same_disks (vw (drive ?c1)) (vw d) \<and> v_busy (vw d) = 0 \<and> \<not> v_intrq (vw d)
      \<and> v_phase (vw d) = (if v_fault (vw (drive ?c1)) then Idle
        else DataIn (concat (map (platter (vw (drive ?c1)) dev_no) [lba + k..<lba + k + n])))"
      using less.prems(1) r1 a1 n1 by (intro read_command) simp_all
    then obtain c2 d2 where c2: "down_done hw (cmd_out hw CMD_READ_SECTOR ?c1) = Some c2"
        and b2: "busy_wait hw c2 = Some (\<not> v_fault (vw d1), c\<lparr>drive := d2\<rparr>)"
        and s2: "same_disks v0 (vw d2)" and v2: "v_busy (vw d2) = 0" "\<not> v_intrq (vw d2)"
        and p2: "v_phase (vw d2) = (if v_fault (vw d1) then Idle
          else DataIn (concat (map p [lba + k..<lba + k + n])))"
      using s1 less.prems(9) by (auto simp: same_disks_def)
    have fault: "v_fault (vw d1) \<longleftrightarrow> (\<exists>l. lba + k \<le> l \<and> l < lba + k + n \<and> faulty v0 dev_no l)"
      using v_fault_addressed [OF a1 n1] s1 by (simp add: same_disks_def)
    have within: "l < lba + k + n \<Longrightarrow> l < lba + sec_cnt" for l using n(3) by linarith
    have split_at: "l < lba + k + n \<or> lba + (k + n) \<le> l" for l by linarith
    have after_k: "lba + (k + n) \<le> l \<Longrightarrow> lba + k \<le> l" for l by linarith
    have add: "add32 lba k = lba + k" using less.prems(4) True by (simp add: add32_small)
    let ?buf = "put_bytes 0 (concat (map p [lba..<lba + k])) buf"
    show ?thesis
    proof (cases "v_fault (vw d1)")
      case True': True
      have "read_loop hw dev_no lba ?buf sec_cnt k c = Some (False, ?buf, c\<lparr>drive := d2\<rparr>)"
        using True True' add d1 c2 b2
        by (subst read_loop.simps) (simp add: n_def [symmetric])
      moreover have "channel_rest vw (c\<lparr>drive := d2\<rparr>)"
        using rest v2 p2 True' by (simp add: channel_rest_def)
      moreover have "\<not> (\<forall>l. lba + k \<le> l \<longrightarrow> l < lba + sec_cnt \<longrightarrow> \<not> faulty v0 dev_no l)"
        using True' fault within by blast
      ultimately show ?thesis using s2 by blast
    next
      case False
      let ?bs = "concat (map p [lba + k..<lba + k + n])"
      have lb: "length ?bs = 512 * n" using p512 by (simp add: length_concat_blocks)
      have p2': "v_phase (vw d2) = DataIn ?bs" using p2 False by simp
      define d3 where "d3 = snd (d_insw hw (port_base c) (256 * n) d2)"
      have "fst (d_insw hw (port_base c) (256 * n) d2) = ?bs \<and> vw d3 = (vw d2)\<lparr>v_phase := Idle\<rparr>"
        using less.prems(1) p2' v2(1) lb unfolding drive_ok_def data_ok_def d3_def by simp
      then have in3: "read_from_sector hw (u8 n) (c\<lparr>drive := d2\<rparr>) = (?bs, c\<lparr>drive := d3\<rparr>)"
          and v3: "vw d3 = (vw d2)\<lparr>v_phase := Idle\<rparr>"
        using rest by (simp_all add: read_from_sector_def insw_def u16_small size_byte_u8 n d3_def
            case_prod_unfold)
      have bl: "length ?buf = length buf"
        using less.prems(5,6) p512 by (intro length_put_bytes) (simp add: length_concat_blocks)
      have "k * 512 + length ?bs \<le> length buf" using lb n(3) less.prems(6) by simp
      moreover have "put_bytes (k * 512) ?bs ?buf = put_bytes 0 (concat (map p [lba..<lba + (k + n)])) buf"
        using put_sectors_grow [where a = lba and b = "lba + k" and e = "lba + k + n" and f = p] p512
        by (simp add: add.assoc)
      ultimately have step: "read_loop hw dev_no lba ?buf sec_cnt k c
          = read_loop hw dev_no lba (put_bytes 0 (concat (map p [lba..<lba + (k + n)])) buf) sec_cnt (k + n)
              (c\<lparr>drive := d3\<rparr>)"
        using True False add d1 c2 b2 in3 bl
        by (subst read_loop.simps) (simp add: n_def [symmetric])
      have s3: "same_disks v0 (vw d3)" using s2 v3 by (simp add: same_disks_def)
      have "\<exists>ok buf' d. read_loop hw dev_no lba (put_bytes 0 (concat (map p [lba..<lba + (k + n)])) buf)
              sec_cnt (k + n) (c\<lparr>drive := d3\<rparr>) = Some (ok, buf', c\<lparr>drive := d3, drive := d\<rparr>)
          \<and> channel_rest vw (c\<lparr>drive := d3, drive := d\<rparr>) \<and> same_disks (vw d3) (vw d)
          \<and> (ok \<longleftrightarrow> (\<forall>l. lba + (k + n) \<le> l \<longrightarrow> l < lba + sec_cnt \<longrightarrow> \<not> faulty (vw d3) dev_no l))
          \<and> (ok \<longrightarrow> buf' = put_bytes 0 (concat (map p [lba..<lba + sec_cnt])) buf)"
        using less.prems(1,3-7,9) rest v3 v2 n True s3
        by (intro less.hyps) (simp_all add: channel_rest_def same_disks_def)
      then obtain ok buf' d where res: "read_loop hw dev_no lba ?buf sec_cnt k c = Some (ok, buf', c\<lparr>drive := d\<rparr>)"
          and rest': "channel_rest vw (c\<lparr>drive := d\<rparr>)" and s': "same_disks v0 (vw d)"
          and okf: "ok \<longleftrightarrow> (\<forall>l. lba + (k + n) \<le> l \<longrightarrow> l < lba + sec_cnt \<longrightarrow> \<not> faulty v0 dev_no l)"
          and okb: "ok \<longrightarrow> buf' = put_bytes 0 (concat (map p [lba..<lba + sec_cnt])) buf"
        using step s3 by (auto simp: same_disks_def)
      have "ok \<longleftrightarrow> (\<forall>l. lba + k \<le> l \<longrightarrow> l < lba + sec_cnt \<longrightarrow> \<not> faulty v0 dev_no l)"
        unfolding okf using False fault within split_at after_k by blast
      then show ?thesis using res rest' s' okb by blast
    qed
  qed
qed

text \<open>One write command, on a sector that is not faulty: the drive asks for the data.\<close>

lemma write_command:
  assumes "drive_ok (port_base c) hw vw" and "channel_rest vw c"
    and "addressed dev_no lba n (vw (drive c))" and "n = 1" and "\<not> v_fault (vw (drive c))"
  shows "\<exists>d. busy_wait hw (cmd_out hw CMD_WRITE_SECTOR c) = Some (True, c\<lparr>expecting_intr := True, drive := d\<rparr>)
    \<and> same_disks (vw (drive c)) (vw d) \<and> v_busy (vw d) = 0 \<and> v_phase (vw d) = DataOut dev_no lba"
proof -
  note rest = assms(2) [unfolded channel_rest_def]
  let ?d = "d_outb hw (port_base c + 7) CMD_WRITE_SECTOR (drive c)"
  let ?c = "c\<lparr>expecting_intr := True, drive := ?d\<rparr>"
  have c: "cmd_out hw CMD_WRITE_SECTOR c = ?c"
    using rest by (simp add: cmd_out_def outb_def u16_small CMD_WRITE_SECTOR_def)
  obtain b where b: "b < 3000" and v: "vw ?d = (vw (drive c))\<lparr>v_busy := b, v_intrq := v_fault (vw (drive c)),
        v_phase := if v_fault (vw (drive c)) then Idle
          else DataOut (v_sel (vw (drive c))) (v_lba (vw (drive c)))\<rparr>"
    using assms(1,3,4) rest v_secs_1 unfolding drive_ok_def commands_ok_def addressed_def by blast
  have "\<exists>d. busy_wait hw ?c = Some (v_phase (vw (drive ?c)) \<noteq> Idle, ?c\<lparr>drive := d\<rparr>)
      \<and> vw d = (vw (drive ?c))\<lparr>v_busy := 0, v_intrq := False\<rparr>"
    using assms(1) rest v b by (intro busy_wait_waits [where b = b]) simp_all
  then obtain d where d: "busy_wait hw ?c = Some (v_phase (vw ?d) \<noteq> Idle, ?c\<lparr>drive := d\<rparr>)"
      and v2: "vw d = (vw ?d)\<lparr>v_busy := 0, v_intrq := False\<rparr>"
    by auto
  have "v_phase (vw ?d) = DataOut dev_no lba" using v assms(3,5) by (simp add: addressed_def)
  then show ?thesis using c d v v2 by (intro exI [of _ d]) (simp add: same_disks_def)
qed

lemma fill_sectors_grow:
  "fill_sectors (lba + k) n (take (512 * n) (drop (k * 512) buf)) (fill_sectors lba k buf f)
    = fill_sectors lba (k + n) buf f"
proof (rule ext)
  fix l
  have "sub_bytes ((l - (lba + k)) * 512) 512 (take (512 * n) (drop (k * 512) buf))
      = sub_bytes ((l - lba) * 512) 512 buf" if "lba + k \<le> l" and "l < lba + k + n"
  proof -
    have "(l - (lba + k)) * 512 + 512 \<le> 512 * n" using that by simp
    moreover have "(l - (lba + k)) * 512 + k * 512 = (l - lba) * 512" using that by simp
    ultimately show ?thesis by (simp add: sub_bytes_def drop_take min_def)
  qed
  then show "fill_sectors (lba + k) n (take (512 * n) (drop (k * 512) buf)) (fill_sectors lba k buf f) l
      = fill_sectors lba (k + n) buf f l"
    by (auto simp: fill_sectors_def)
qed

lemma ata_write_loop_runs:
  assumes "drive_ok (port_base c) hw vw" and "channel_rest vw c" and "dev_no < 2"
    and "lba + sec_cnt < 268435456" and "k \<le> sec_cnt" and "sec_cnt * 512 \<le> length buf" and "sec_cnt \<le> 1"
    and "platter (vw (drive c)) = P(dev_no := fill_sectors lba k buf (P dev_no))"
    and "\<And>l. lba \<le> l \<Longrightarrow> l < lba + sec_cnt \<Longrightarrow> \<not> F dev_no l" and "faulty (vw (drive c)) = F"
  shows "\<exists>d. write_loop hw dev_no lba buf sec_cnt k c = Some (True, c\<lparr>drive := d\<rparr>)
    \<and> channel_rest vw (c\<lparr>drive := d\<rparr>) \<and> faulty (vw d) = F
    \<and> platter (vw d) = P(dev_no := fill_sectors lba sec_cnt buf (P dev_no))"
  using assms
proof (induction "sec_cnt - k" arbitrary: k c rule: less_induct)
  case less
  note rest = less.prems(2) [unfolded channel_rest_def]
  show ?case
  proof (cases "k < sec_cnt")
    case False
    then have "k = sec_cnt" using less.prems(5) by simp
    then have "write_loop hw dev_no lba buf sec_cnt k c = Some (True, c\<lparr>drive := drive c\<rparr>)"
      by (subst write_loop.simps) simp
    moreover have "channel_rest vw (c\<lparr>drive := drive c\<rparr>)" using less.prems(2) by simp
    ultimately show ?thesis using less.prems(8,10) \<open>k = sec_cnt\<close> by blast
  next
    case True
    define n where "n = secs_op sec_cnt k"
    have n: "0 < n" "n \<le> 256" "k + n \<le> sec_cnt" using True by (auto simp: n_def secs_op_def)
    have n1: "n = 1" using n less.prems(7) by simp
    have sel: "\<exists>d. select_sector hw dev_no (lba + k) (u8 n) c = c\<lparr>drive := d\<rparr> \<and> v_phase (vw d) = Idle
        \<and> v_intrq (vw d) = v_intrq (vw (drive c)) \<and> addressed dev_no (lba + k) n (vw d)
        \<and> same_disks (vw (drive c)) (vw d)"
      using less.prems(1,3,4) True rest n(1,2) by (intro select_sector_addresses) auto
    obtain d1 where d1: "select_sector hw dev_no (lba + k) (u8 n) c = c\<lparr>drive := d1\<rparr>"
        and a1: "addressed dev_no (lba + k) n (vw d1)" and s1: "same_disks (vw (drive c)) (vw d1)"
        and p1: "v_phase (vw d1) = Idle" "\<not> v_intrq (vw d1)"
      using sel rest by auto
    let ?c1 = "c\<lparr>drive := d1\<rparr>"
    have within: "lba + k \<le> l \<Longrightarrow> l < lba + k + n \<Longrightarrow> lba \<le> l \<and> l < lba + sec_cnt" for l
      using n(3) by linarith
    have nofault: "\<not> v_fault (vw d1)"
      using v_fault_addressed [OF a1 n1] s1 less.prems(9,10) within by (simp add: same_disks_def)
    have r1: "channel_rest vw ?c1" using rest p1 by (simp add: channel_rest_def)
    have "\<exists>d. busy_wait hw (cmd_out hw CMD_WRITE_SECTOR ?c1) = Some (True, ?c1\<lparr>expecting_intr := True, drive := d\<rparr>)
        \<and> same_disks (vw (drive ?c1)) (vw d) \<and> v_busy (vw d) = 0 \<and> v_phase (vw d) = DataOut dev_no (lba + k)"
      using less.prems(1) r1 a1 n1 nofault by (intro write_command) simp_all
    then obtain d2 where b2: "busy_wait hw (cmd_out hw CMD_WRITE_SECTOR ?c1)
          = Some (True, c\<lparr>expecting_intr := True, drive := d2\<rparr>)"
        and s2: "same_disks (vw (drive c)) (vw d2)" and v2: "v_busy (vw d2) = 0"
        and p2: "v_phase (vw d2) = DataOut dev_no (lba + k)"
      using s1 by (auto simp: same_disks_def)
    let ?bs = "take (512 * n) (drop (k * 512) buf)"
    have room: "512 * n \<le> length buf - k * 512" using less.prems(6) n(3) by linarith
    then have lb: "length ?bs = 512" using n1 by simp
    define d3 where "d3 = d_outsw hw (port_base c) ?bs d2"
    let ?c3 = "c\<lparr>expecting_intr := True, drive := d3\<rparr>"
    have w3: "write2sector hw (drop (k * 512) buf) (u8 n) (c\<lparr>expecting_intr := True, drive := d2\<rparr>) = Some ?c3"
      using rest room n(1,2) by (simp add: write2sector_def outsw_def size_byte_u8 u16_small d3_def mult.commute)
    have v3: "vw d3 = (vw d2)\<lparr>v_phase := Idle, v_intrq := True, platter := (platter (vw d2))
        (dev_no := fill_sectors (lba + k) n ?bs (platter (vw d2) dev_no))\<rparr>"
      using less.prems(1) p2 v2 lb n1 unfolding drive_ok_def data_ok_def d3_def by blast
    have "\<exists>d. down_done hw ?c3 = Some (?c3\<lparr>expecting_intr := False, drive := d\<rparr>)
        \<and> vw d = (vw (drive ?c3))\<lparr>v_busy := v_busy (vw (drive ?c3)) - 1, v_intrq := False\<rparr>"
      using less.prems(1) rest v3 by (intro down_done_runs) simp_all
    then obtain d4 where d4: "down_done hw ?c3 = Some (?c3\<lparr>expecting_intr := False, drive := d4\<rparr>)"
        and v4: "vw d4 = (vw d3)\<lparr>v_busy := 0, v_intrq := False\<rparr>"
      using v2 v3 by auto
    have same: "?c3\<lparr>expecting_intr := False, drive := d4\<rparr> = c\<lparr>drive := d4\<rparr>" using rest by simp
    have add: "add32 lba k = lba + k" using less.prems(4) True by (simp add: add32_small)
    have step: "write_loop hw dev_no lba buf sec_cnt k c
        = write_loop hw dev_no lba buf sec_cnt (k + n) (c\<lparr>drive := d4\<rparr>)"
      using True add d1 b2 w3 d4 same by (subst write_loop.simps) (simp add: n_def [symmetric])
    have pl: "platter (vw d4) = P(dev_no := fill_sectors lba (k + n) buf (P dev_no))"
      using v3 v4 s2 less.prems(8) fill_sectors_grow by (auto simp: same_disks_def)
    have "\<exists>d. write_loop hw dev_no lba buf sec_cnt (k + n) (c\<lparr>drive := d4\<rparr>) = Some (True, c\<lparr>drive := d4, drive := d\<rparr>)
        \<and> channel_rest vw (c\<lparr>drive := d4, drive := d\<rparr>) \<and> faulty (vw d) = F
        \<and> platter (vw d) = P(dev_no := fill_sectors lba sec_cnt buf (P dev_no))"
      using less.prems(1,3-7,9,10) rest v3 v4 pl n True s2
      by (intro less.hyps) (simp_all add: channel_rest_def same_disks_def)
    then show ?thesis using step by simp
  qed
qed

section \<open>Whole calls\<close>

lemma select_disk_rest:
  assumes "drive_ok (port_base c) hw vw" and "channel_rest vw c"
  shows "\<exists>d. select_disk hw dev_no c = c\<lparr>drive := d\<rparr> \<and> channel_rest vw (c\<lparr>drive := d\<rparr>)
    \<and> same_disks (vw (drive c)) (vw d)"
proof -
  define x where "x = (BIT_DEV_MBS OR BIT_DEV_MOD_LBA) OR (if dev_no = 1 then BIT_DEV_DEV else 0)"
  have x: "x < 256" by (simp add: x_def BIT_DEV_MBS_def BIT_DEV_MOD_LBA_def BIT_DEV_DEV_def)
  let ?d = "d_outb hw (port_base c + 6) x (drive c)"
  have "select_disk hw dev_no c = c\<lparr>drive := ?d\<rparr>"
    using assms(2) x by (simp only: select_disk_def x_def [symmetric]) (simp add: outb_def u16_small channel_rest_def)
  moreover have "vw ?d = (vw (drive c))\<lparr>v_dev := x\<rparr>"
    using assms x by (simp add: drive_ok_def registers_ok_def channel_rest_def)
  ultimately show ?thesis using assms(2)
    by (intro exI [of _ ?d]) (simp add: channel_rest_def same_disks_def)
qed

text \<open>The channel while the running thread holds its lock.\<close>

definition held :: "'d ide_channel \<Rightarrow> 'd ide_channel" where
  "held c = c\<lparr>ch_lock := (ch_lock c)\<lparr>holder := running (ch_kern c),
     semaphore_of := (semaphore_of (ch_lock c))\<lparr>svalue := 0\<rparr>, holder_repeat_nm := 1\<rparr>\<rparr>"

lemma held_simps [simp]:
  "drive (held c) = drive c" "port_base (held c) = port_base c" "ch_kern (held c) = ch_kern c"
  "channel_rest vw ((held c)\<lparr>drive := d\<rparr>) = channel_rest vw (c\<lparr>drive := d\<rparr>)"
  "channel_rest vw (held c) = channel_rest vw c" "(held c)\<lparr>ch_kern := ch_kern c\<rparr> = held c"
  by (simp_all add: held_def channel_rest_def)

lemma take_channel_lock:
  assumes "channel_idle vw c"
  shows "\<exists>l. lock_take (ch_lock c) (ch_kern c) = Some (True, l, ch_kern c)
    \<and> c\<lparr>ch_lock := l, ch_kern := ch_kern c\<rparr> = held c"
  using assms lock_take_free [of "ch_lock c" "ch_kern c"] by (simp add: channel_idle_def held_def)

lemma give_channel_lock:
  assumes "channel_idle vw c"
  shows "\<exists>l. lock_give (ch_lock (held c)) (ch_kern c) = Some (l, ch_kern c)
    \<and> (held c)\<lparr>drive := d, ch_lock := l, ch_kern := ch_kern c\<rparr> = c\<lparr>drive := d\<rparr>"
proof -
  have "ch_lock (held c)\<lparr>holder := 0, holder_repeat_nm := 0,
      semaphore_of := (semaphore_of (ch_lock (held c)))\<lparr>svalue := 1\<rparr>\<rparr> = ch_lock c"
    using assms by (simp add: channel_idle_def held_def lock_free_def)
  then show ?thesis
    using assms lock_give_taken [of "ch_lock (held c)" "ch_kern c"]
    by (simp add: channel_idle_def held_def)
qed

lemma channel_idle_drive:
  "channel_idle vw c \<Longrightarrow> channel_rest vw (c\<lparr>drive := d\<rparr>) \<Longrightarrow> channel_idle vw (c\<lparr>drive := d\<rparr>)"
  by (simp add: channel_idle_def)

text \<open>A read up to the end of its loop: the lock is taken, and the sector read or found faulty.\<close>

lemma ide_read_loop:
  assumes "drive_ok (port_base c) hw vw" and "channel_idle vw c" and "dev_no < 2"
    and "lba + sec_cnt < 268435456" and "sec_cnt * 512 \<le> length buf" and "sec_cnt \<le> 1" and "v0 = vw (drive c)"
  shows "\<exists>ok buf' d. read_loop hw dev_no lba buf sec_cnt 0 (select_disk hw dev_no (held c))
      = Some (ok, buf', (held c)\<lparr>drive := d\<rparr>)
    \<and> channel_rest vw (c\<lparr>drive := d\<rparr>) \<and> same_disks v0 (vw d)
    \<and> (ok \<longleftrightarrow> (\<forall>l. lba \<le> l \<longrightarrow> l < lba + sec_cnt \<longrightarrow> \<not> faulty v0 dev_no l))
    \<and> (ok \<longrightarrow> buf' = put_bytes 0 (concat (map (platter v0 dev_no) [lba..<lba + sec_cnt])) buf)"
proof -
  have rest: "channel_rest vw (held c)" using assms(2) by (simp add: channel_idle_def)
  obtain d1 where d1: "select_disk hw dev_no (held c) = (held c)\<lparr>drive := d1\<rparr>"
      and r1: "channel_rest vw ((held c)\<lparr>drive := d1\<rparr>)" and s1: "same_disks v0 (vw d1)"
    using select_disk_rest [of "held c" hw vw dev_no] assms(1,7) rest by auto
  let ?p = "platter (vw d1) dev_no"
  have "\<exists>ok buf' d. read_loop hw dev_no lba (put_bytes 0 (concat (map ?p [lba..<lba + 0])) buf) sec_cnt 0
        ((held c)\<lparr>drive := d1\<rparr>) = Some (ok, buf', (held c)\<lparr>drive := d1, drive := d\<rparr>)
    \<and> channel_rest vw ((held c)\<lparr>drive := d1, drive := d\<rparr>) \<and> same_disks (vw d1) (vw d)
    \<and> (ok \<longleftrightarrow> (\<forall>l. lba + 0 \<le> l \<longrightarrow> l < lba + sec_cnt \<longrightarrow> \<not> faulty (vw d1) dev_no l))
    \<and> (ok \<longrightarrow> buf' = put_bytes 0 (concat (map ?p [lba..<lba + sec_cnt])) buf)"
    using assms(1,3-6) r1 by (intro ata_read_loop_runs) simp_all
  then show ?thesis using d1 s1 by (simp add: same_disks_def put_bytes_def)
qed

section \<open>An example\<close>

text \<open>
  A channel with two drives, the second with the sectors of the example file system, and with an
  unreadable sector 700 on each. Every command keeps the drive busy for two reads of its status.
\<close>

definition pad512 :: "byte list \<Rightarrow> byte list" where
  "pad512 bs = take 512 (bs @ replicate 512 0)"

definition sample_view :: "view \<Rightarrow> view" where
  "sample_view v = v\<lparr>platter := (\<lambda>n l. pad512 (platter v n l))\<rparr>"

definition sample_command :: "nat \<Rightarrow> view \<Rightarrow> view" where
  "sample_command x v =
     (let fault = v_fault v in
      if x = CMD_READ_SECTOR then v\<lparr>v_busy := 2, v_intrq := True, v_phase := if fault then Idle
        else DataIn (platter (sample_view v) (v_sel v) (v_lba v))\<rparr>
      else if x = CMD_WRITE_SECTOR then v\<lparr>v_busy := 2, v_intrq := fault, v_phase := if fault then Idle
        else DataOut (v_sel v) (v_lba v)\<rparr>
      else v)"

definition sample_outb :: "nat \<Rightarrow> nat \<Rightarrow> view \<Rightarrow> view" where
  "sample_outb port x v =
     (if port = 0x1f0 + 2 then v\<lparr>v_cnt := x\<rparr> else if port = 0x1f0 + 3 then v\<lparr>v_low := x\<rparr>
      else if port = 0x1f0 + 4 then v\<lparr>v_mid := x\<rparr> else if port = 0x1f0 + 5 then v\<lparr>v_high := x\<rparr>
      else if port = 0x1f0 + 6 then v\<lparr>v_dev := x\<rparr> else if port = 0x1f0 + 7 then sample_command x v else v)"

definition sample_inb :: "nat \<Rightarrow> view \<Rightarrow> nat \<times> view" where
  "sample_inb port v = (if 0 < v_busy v then 0x80 else if v_phase v = Idle then 0x40 else 0x48,
     v\<lparr>v_busy := v_busy v - 1, v_intrq := False\<rparr>)"

definition sample_insw :: "nat \<Rightarrow> nat \<Rightarrow> view \<Rightarrow> byte list \<times> view" where
  "sample_insw port n v = (case v_phase v of DataIn bs \<Rightarrow> (bs, v\<lparr>v_phase := Idle\<rparr>) | _ \<Rightarrow> ([], v))"

definition sample_outsw :: "nat \<Rightarrow> byte list \<Rightarrow> view \<Rightarrow> view" where
  "sample_outsw port bs v = (case v_phase v of
     DataOut dv lba \<Rightarrow> v\<lparr>v_phase := Idle, v_intrq := True,
       platter := (platter v)(dv := fill_sectors lba 1 bs (platter v dv))\<rparr> | _ \<Rightarrow> v)"

definition sample_ata :: "view ata" where
  "sample_ata = \<lparr>d_outb = sample_outb, d_inb = sample_inb, d_insw = sample_insw,
     d_outsw = sample_outsw, d_irq = v_intrq\<rparr>"

definition sample_channel :: "view ide_channel" where
  "sample_channel = \<lparr>port_base = 0x1f0, irq_no = 0x2e, ch_lock = lock_init, expecting_intr = False,
     disk_done = seam_init 0,
     drive = \<lparr>v_cnt = 0, v_low = 0, v_mid = 0, v_high = 0, v_dev = 0, v_phase = Idle, v_busy = 0,
       v_intrq = False, platter = (\<lambda>n. if n = 1 then sample_sectors else (\<lambda>l. replicate 512 0)),
       faulty = (\<lambda>n l. l = 700)\<rparr>,
     ch_kern = sample_kst\<rparr>"

lemma sample_view_simps [simp]:
  "v_cnt (sample_view v) = v_cnt v" "v_dev (sample_view v) = v_dev v" "v_phase (sample_view v) = v_phase v"
  "v_busy (sample_view v) = v_busy v" "v_intrq (sample_view v) = v_intrq v" "faulty (sample_view v) = faulty v"
  "v_sel (sample_view v) = v_sel v" "v_lba (sample_view v) = v_lba v" "v_secs (sample_view v) = v_secs v"
  "v_fault (sample_view v) = v_fault v"
  "platter (sample_view v) n l = pad512 (platter v n l)"
  by (simp_all add: sample_view_def v_sel_def v_lba_def v_secs_def v_fault_def)

lemma pad512_full [simp]: "length bs = 512 \<Longrightarrow> pad512 bs = bs"
  by (simp add: pad512_def)

lemma length_pad512 [simp]: "length (pad512 bs) = 512"
  by (simp add: pad512_def)

lemma sample_drive_ok: "drive_ok 0x1f0 sample_ata sample_view"
proof -
  have "registers_ok 0x1f0 sample_ata sample_view"
    by (simp add: registers_ok_def sample_ata_def sample_outb_def sample_view_def)
  moreover have "commands_ok 0x1f0 sample_ata sample_view"
    unfolding commands_ok_def
    by (intro allI impI conjI exI [of _ 2])
      (simp_all add: sample_ata_def sample_outb_def sample_command_def Let_def
        CMD_READ_SECTOR_def CMD_WRITE_SECTOR_def, simp_all add: sample_view_def)
  moreover have "status_ok 0x1f0 sample_ata sample_view"
    by (simp add: status_ok_def sample_ata_def sample_inb_def BIT_ALT_STAT_BSY_def BIT_ALT_STAT_DRQ_def)
      (simp add: sample_view_def)
  moreover have "(\<lambda>n l. pad512 (((platter v)(dv := fill_sectors lba 1 bs (platter v dv))) n l))
      = (\<lambda>n l. pad512 (platter v n l))(dv := fill_sectors lba 1 bs (\<lambda>l. pad512 (platter v dv l)))"
    if "length bs = 512" for v :: view and dv lba bs
  proof (intro ext)
    fix n l
    have "length (sub_bytes ((l - lba) * 512) 512 bs) = 512" if "lba \<le> l" "l < lba + 1"
      using that \<open>length bs = 512\<close> by simp
    then show "pad512 (((platter v)(dv := fill_sectors lba 1 bs (platter v dv))) n l)
        = ((\<lambda>n l. pad512 (platter v n l))(dv := fill_sectors lba 1 bs (\<lambda>l. pad512 (platter v dv l)))) n l"
      by (simp add: fill_sectors_def)
  qed
  then have "data_ok 0x1f0 sample_ata sample_view"
    by (simp add: data_ok_def sample_ata_def sample_insw_def sample_outsw_def sample_view_def)
  ultimately show ?thesis by (simp add: drive_ok_def)
qed

lemma sample_channel_idle: "channel_idle sample_view sample_channel" "port_base sample_channel = 0x1f0"
  by (simp_all add: channel_idle_def channel_rest_def sample_channel_def lock_free_def lock_init_def
      seam_init_def sample_kst_def)

lemma sample_channel_sectors: "platter (sample_view (drive sample_channel)) 1 = hd_sectors sample_fs"
  using sample_disk_ok by (simp add: fun_eq_iff sample_channel_def disk_ok_def sample_fs_def)

section \<open>Refinement\<close>

lemma ide_read_runs:
  assumes "drive_ok (port_base c) hw vw" and "channel_idle vw c" and "dev_no < 2"
    and "lba + sec_cnt < 268435456" and "sec_cnt \<le> 1"
    and "\<And>l. lba \<le> l \<Longrightarrow> l < lba + sec_cnt \<Longrightarrow> \<not> faulty (vw (drive c)) dev_no l"
    and "hd_sectors s = platter (vw (drive c)) dev_no"
    and "FsState.ide_read s lba buf sec_cnt = Some buf'"
  shows "\<exists>d. ide_read hw dev_no lba buf sec_cnt c = Some (lba \<le> max_lba, buf', c\<lparr>drive := d\<rparr>)
    \<and> channel_idle vw (c\<lparr>drive := d\<rparr>) \<and> same_disks (vw (drive c)) (vw d)"
proof (cases "lba \<le> max_lba")
  case False
  then have "ide_read hw dev_no lba buf sec_cnt c = Some (lba \<le> max_lba, buf', c\<lparr>drive := drive c\<rparr>)"
    using assms(8) by (simp add: ide_read_def FsState.ide_read_def)
  then show ?thesis using assms(2) by (intro exI [of _ "drive c"]) (simp add: same_disks_def)
next
  case True
  then have room: "sec_cnt * 512 \<le> length buf"
      and buf': "buf' = put_bytes 0 (concat (map (platter (vw (drive c)) dev_no) [lba..<lba + sec_cnt])) buf"
    using assms(7,8) by (auto simp: FsState.ide_read_def runs_iff ensure_def split: if_splits)
  obtain l where l: "lock_take (ch_lock c) (ch_kern c) = Some (True, l, ch_kern c)"
      "c\<lparr>ch_lock := l, ch_kern := ch_kern c\<rparr> = held c"
    using take_channel_lock [OF assms(2)] by blast
  obtain d where d: "read_loop hw dev_no lba buf sec_cnt 0 (select_disk hw dev_no (held c))
        = Some (True, buf', (held c)\<lparr>drive := d\<rparr>)"
      and rest: "channel_rest vw (c\<lparr>drive := d\<rparr>)" and pl: "same_disks (vw (drive c)) (vw d)"
    using ide_read_loop [OF assms(1-4) room assms(5) refl] assms(6) buf' by auto
  obtain l' where "lock_give (ch_lock (held c)) (ch_kern c) = Some (l', ch_kern c)"
      "(held c)\<lparr>drive := d, ch_lock := l', ch_kern := ch_kern c\<rparr> = c\<lparr>drive := d\<rparr>"
    using give_channel_lock [OF assms(2)] by blast
  then have "ide_read hw dev_no lba buf sec_cnt c = Some (lba \<le> max_lba, buf', c\<lparr>drive := d\<rparr>)"
    using True l d by (simp add: ide_read_def)
  then show ?thesis using channel_idle_drive [OF assms(2) rest] pl by blast
qed

text \<open>C29: \<open>ide_read\<close> implements the sector transfer that the file system uses: on an idle channel and
  a sector the drive can read it returns the buffer that \<open>FsState.ide_read\<close> gives, reports failure
  exactly for a start beyond \<open>max_lba\<close>, and leaves the channel idle, its lock free and the sectors
  unchanged. This is the call for one sector (or none); with more, the driver depends on a drive that
  hands over all sectors of a command at once.\<close>

theorem ide_read_transfers:
  assumes "drive_ok (port_base c) hw vw" and "channel_idle vw c" and "dev_no < 2"
    and "lba + sec_cnt < 268435456" and "sec_cnt \<le> 1"
    and "\<And>l. lba \<le> l \<Longrightarrow> l < lba + sec_cnt \<Longrightarrow> \<not> faulty (vw (drive c)) dev_no l"
    and "hd_sectors s = platter (vw (drive c)) dev_no"
    and "FsState.ide_read s lba buf sec_cnt = Some buf'"
  shows "\<exists>d. ide_read hw dev_no lba buf sec_cnt c = Some (lba \<le> max_lba, buf', c\<lparr>drive := d\<rparr>)
    \<and> channel_idle vw (c\<lparr>drive := d\<rparr>) \<and> same_disks (vw (drive c)) (vw d)"
  using assms by (rule ide_read_runs)

theorem ide_read_transfers_witness:
  "\<exists>d. ide_read sample_ata 1 614 (replicate 512 0) 1 sample_channel
     = Some (True, [1, 2, 3, 4, 5] @ replicate 507 0, sample_channel\<lparr>drive := d\<rparr>)"
proof -
  have "hd_sectors sample_fs 614 = [1, 2, 3, 4, 5] @ replicate 507 0"
    by (simp add: sample_fs_def sample_sectors_def)
  then have "FsState.ide_read sample_fs 614 (replicate 512 0) 1 = Some ([1, 2, 3, 4, 5] @ replicate 507 0)"
    using ide_read_one [OF sample_disk_ok, of 614 "replicate 512 0"]
    by (simp add: max_lba_def)
  then show ?thesis
    using ide_read_transfers [of sample_channel sample_ata sample_view 1 614 1 sample_fs]
      sample_drive_ok sample_channel_idle sample_channel_sectors
    by (fastforce simp: max_lba_def sample_channel_def)
qed

text \<open>C30: \<open>ide_write\<close> implements the sector transfer that the file system uses: on an idle channel and
  a sector the drive can write, for one sector (or none), it stores exactly what \<open>FsState.ide_write\<close> stores on the selected drive,
  leaves the other drive alone and the channel idle with its lock free.\<close>

theorem ide_write_transfers:
  assumes "drive_ok (port_base c) hw vw" and "channel_idle vw c" and "dev_no < 2"
    and "lba + sec_cnt < 268435456" and "sec_cnt \<le> 1"
    and "\<And>l. lba \<le> l \<Longrightarrow> l < lba + sec_cnt \<Longrightarrow> \<not> faulty (vw (drive c)) dev_no l"
    and "hd_sectors s = platter (vw (drive c)) dev_no"
    and "FsState.ide_write lba buf sec_cnt s = Some s'"
  shows "\<exists>d. ide_write hw dev_no lba buf sec_cnt c = Some (c\<lparr>drive := d\<rparr>)
    \<and> channel_idle vw (c\<lparr>drive := d\<rparr>)
    \<and> platter (vw d) = (platter (vw (drive c)))(dev_no := hd_sectors s')"
proof (cases "lba \<le> max_lba")
  case False
  then have "s' = s" and "ide_write hw dev_no lba buf sec_cnt c = Some (c\<lparr>drive := drive c\<rparr>)"
    using assms(8) by (simp_all add: ide_write_def FsState.ide_write_def)
  then show ?thesis using assms(2,7) by (intro exI [of _ "drive c"]) simp
next
  case True
  then have room: "sec_cnt * 512 \<le> length buf"
      and s': "hd_sectors s' = fill_sectors lba sec_cnt buf (hd_sectors s)"
    using assms(8) by (auto simp: FsState.ide_write_def fill_sectors_def runs_iff ensure_def split: if_splits)
  obtain l where l: "lock_take (ch_lock c) (ch_kern c) = Some (True, l, ch_kern c)"
      "c\<lparr>ch_lock := l, ch_kern := ch_kern c\<rparr> = held c"
    using take_channel_lock [OF assms(2)] by blast
  have rest: "channel_rest vw (held c)" using assms(2) by (simp add: channel_idle_def)
  obtain d1 where d1: "select_disk hw dev_no (held c) = (held c)\<lparr>drive := d1\<rparr>"
      and r1: "channel_rest vw ((held c)\<lparr>drive := d1\<rparr>)" and s1: "same_disks (vw (drive c)) (vw d1)"
    using select_disk_rest [of "held c" hw vw dev_no] assms(1) rest by auto
  have zero: "(platter (vw d1))(dev_no := fill_sectors lba 0 buf (platter (vw d1) dev_no)) = platter (vw d1)"
    by (auto simp: fill_sectors_def fun_eq_iff)
  have "\<exists>d. write_loop hw dev_no lba buf sec_cnt 0 ((held c)\<lparr>drive := d1\<rparr>)
        = Some (True, (held c)\<lparr>drive := d1, drive := d\<rparr>)
      \<and> channel_rest vw ((held c)\<lparr>drive := d1, drive := d\<rparr>) \<and> faulty (vw d) = faulty (vw d1)
      \<and> platter (vw d) = (platter (vw d1))(dev_no := fill_sectors lba sec_cnt buf (platter (vw d1) dev_no))"
    using assms(1,3-6) r1 room zero s1
    by (intro ata_write_loop_runs) (simp_all add: same_disks_def)
  then obtain d where d: "write_loop hw dev_no lba buf sec_cnt 0 (select_disk hw dev_no (held c))
        = Some (True, (held c)\<lparr>drive := d\<rparr>)"
      and rest': "channel_rest vw (c\<lparr>drive := d\<rparr>)"
      and pl: "platter (vw d) = (platter (vw (drive c)))(dev_no := hd_sectors s')"
    using d1 s1 s' assms(7) by (auto simp: same_disks_def)
  obtain l' where "lock_give (ch_lock (held c)) (ch_kern c) = Some (l', ch_kern c)"
      "(held c)\<lparr>drive := d, ch_lock := l', ch_kern := ch_kern c\<rparr> = c\<lparr>drive := d\<rparr>"
    using give_channel_lock [OF assms(2)] by blast
  then have "ide_write hw dev_no lba buf sec_cnt c = Some (c\<lparr>drive := d\<rparr>)"
    using True l d by (simp add: ide_write_def)
  then show ?thesis using channel_idle_drive [OF assms(2) rest'] pl by blast
qed

theorem ide_write_transfers_witness:
  "\<exists>d. ide_write sample_ata 1 614 (replicate 512 7) 1 sample_channel = Some (sample_channel\<lparr>drive := d\<rparr>)
     \<and> platter (sample_view d) 1 614 = replicate 512 7"
proof -
  have "FsState.ide_write 614 (replicate 512 7) 1 sample_fs
      = Some (sample_fs\<lparr>hd_sectors := (hd_sectors sample_fs)(614 := replicate 512 7)\<rparr>)"
    using ide_write_one [of 614 "replicate 512 7" sample_fs] by (simp add: max_lba_def)
  then show ?thesis
    using ide_write_transfers [of sample_channel sample_ata sample_view 1 614 1 sample_fs]
      sample_drive_ok sample_channel_idle sample_channel_sectors
    by (fastforce simp: sample_channel_def)
qed

text \<open>When the drive can not read the sector, \<open>ide_read\<close> reports failure but keeps the
  lock of the channel: whatever any other thread reads or writes on this channel afterwards,
  its call does not return.\<close>

theorem ide_read_fault_keeps_lock:
  assumes "drive_ok (port_base c) hw vw" and "channel_idle vw c" and "dev_no < 2"
    and "lba \<le> max_lba" and "512 \<le> length buf" and "faulty (vw (drive c)) dev_no lba"
  shows "\<exists>buf' c'. ide_read hw dev_no lba buf 1 c = Some (False, buf', c')
    \<and> (\<forall>k n lba' bs m. running k \<noteq> running (ch_kern c) \<longrightarrow> lba' \<le> max_lba \<longrightarrow>
        ide_read hw n lba' bs m (c'\<lparr>ch_kern := k\<rparr>) = None
      \<and> ide_write hw n lba' bs m (c'\<lparr>ch_kern := k\<rparr>) = None)"
proof -
  obtain l1 where l1: "lock_take (ch_lock c) (ch_kern c) = Some (True, l1, ch_kern c)"
      "c\<lparr>ch_lock := l1, ch_kern := ch_kern c\<rparr> = held c"
    using take_channel_lock [OF assms(2)] by blast
  have "lba + 1 < 268435456" and "1 * 512 \<le> length buf" using assms(4,5) by (simp_all add: max_lba_def)
  from ide_read_loop [OF assms(1-3) this order_refl refl]
  obtain ok buf' d where "read_loop hw dev_no lba buf 1 0 (select_disk hw dev_no (held c))
        = Some (ok, buf', (held c)\<lparr>drive := d\<rparr>)"
      and "ok \<longleftrightarrow> (\<forall>l. lba \<le> l \<longrightarrow> l < lba + 1 \<longrightarrow> \<not> faulty (vw (drive c)) dev_no l)"
    by blast
  then have d: "read_loop hw dev_no lba buf 1 0 (select_disk hw dev_no (held c))
        = Some (False, buf', (held c)\<lparr>drive := d\<rparr>)"
    using assms(6) by (metis le_refl less_add_one)
  have run: "ide_read hw dev_no lba buf 1 c = Some (False, buf', (held c)\<lparr>drive := d\<rparr>)"
    using assms(4) l1 d by (simp add: ide_read_def)
  have "lock_take (ch_lock (held c)) k = None \<or> (\<exists>l' k'. lock_take (ch_lock (held c)) k = Some (False, l', k'))"
    if "running k \<noteq> running (ch_kern c)" for k
    using that by (auto simp: lock_take_def held_def get_running_thread_pcb_def sema_down_loop_def bind_eq_None_conv
        Let_def split: if_splits option.splits)
  then have "ide_read hw n lba' bs m ((held c)\<lparr>drive := d, ch_kern := k\<rparr>) = None
      \<and> ide_write hw n lba' bs m ((held c)\<lparr>drive := d, ch_kern := k\<rparr>) = None"
    if "running k \<noteq> running (ch_kern c)" and "lba' \<le> max_lba" for k n lba' bs m
    using that by (fastforce simp: ide_read_def ide_write_def)
  with run show ?thesis by blast
qed

theorem ide_read_fault_keeps_lock_witness:
  "\<exists>buf c. ide_read sample_ata 0 700 (replicate 512 0) 1 sample_channel = Some (False, buf, c)
     \<and> ide_read sample_ata 1 614 (replicate 512 0) 1 (c\<lparr>ch_kern := sample_kst\<lparr>running := 12288\<rparr>\<rparr>) = None"
proof -
  have "faulty (sample_view (drive sample_channel)) 0 700" by (simp add: sample_channel_def)
  moreover have "running (ch_kern sample_channel) = 4096" by (simp add: sample_channel_def sample_kst_def)
  ultimately show ?thesis
    using ide_read_fault_keeps_lock [of sample_channel sample_ata sample_view 0 700 "replicate 512 0"]
      sample_drive_ok sample_channel_idle
    by (fastforce simp: max_lba_def)
qed

end
