(* ===== verification/DiskInit.thy ===== *)
theory DiskInit
  imports Disk FsInit Stdio Ps
begin

text \<open>
  The start of the disk driver (\<open>ide_init\<close>, \<open>identtify_disk\<close>, \<open>partition_scan\<close> of \<open>device/ide.c\<close>):
  the channels are set up, the drives identified, and the partition table of each second drive is
  read, with the extended partitions it links to. Partitions are the records of \<open>FsInit\<close>; what is
  printed goes through \<open>dbg_printf\<close>, which returns at once. The buffer of a boot sector is a value
  of the function; \<open>bufs_lost\<close> counts the buffers that are not freed.
\<close>

section \<open>Identification\<close>

partial_function (option) swap_loop :: "byte list \<Rightarrow> byte list \<Rightarrow> nat \<Rightarrow> nat \<Rightarrow> nat \<Rightarrow> (nat \<times> byte list) option" where
  "swap_loop dst buf len idx k =
     (if idx < len then do {
        a \<leftarrow> rd_at dst k;
        b \<leftarrow> rd_at dst (k + 1);
        buf \<leftarrow> wr_at buf (idx + 1) a;
        buf \<leftarrow> wr_at buf idx b;
        swap_loop dst buf len (u8 (idx + 2)) (k + 2)
      } else Some (idx, buf))"

definition swap_pairs_bytes :: "byte list \<Rightarrow> byte list \<Rightarrow> nat \<Rightarrow> byte list option" where
  "swap_pairs_bytes dst buf len = do {
     (idx, buf) \<leftarrow> swap_loop dst buf len 0 0;
     wr_at buf idx 0
   }"

text \<open>What is printed of a drive: serial number, model, sectors and megabytes.\<close>

record disk_info =
  serial :: "byte list"
  model_name :: "byte list"
  sectors :: nat
  capacity :: nat

definition identtify_disk :: "'d ata \<Rightarrow> nat \<Rightarrow> byte list \<Rightarrow> 'd ide_channel
    \<Rightarrow> (disk_info option \<times> 'd ide_channel) option" where
  "identtify_disk hw dev_no stack c = do {
     let c = cmd_out hw CMD_IDENTIFY (select_disk hw dev_no c);
     c \<leftarrow> down_done hw c;
     (ready, c) \<leftarrow> busy_wait hw c;
     if \<not> ready then Some (None, c)
     else do {
       let (id_info, c) = read_from_sector hw 1 c;
       _ \<leftarrow> ensure (length id_info = 512);
       sn \<leftarrow> swap_pairs_bytes (drop (10 * 2) id_info) stack 20;
       md \<leftarrow> swap_pairs_bytes (drop (27 * 2) id_info) (replicate 64 0) 40;
       let secs = rd32 id_info (60 * 2);
       Some (Some \<lparr>serial = sn, model_name = md, sectors = secs,
         capacity = mul32 secs 512 div 1024 div 1024\<rparr>, c)
     }
   }"

section \<open>Partition tables\<close>

record partition_table_entry =
  fs_type :: nat
  e_start_lba :: nat
  e_sec_cnt :: nat

definition entry_of_bytes :: "byte list \<Rightarrow> partition_table_entry" where
  "entry_of_bytes bs = \<lparr>fs_type = unat (bs ! 4), e_start_lba = rd32 bs 8, e_sec_cnt = rd32 bs 12\<rparr>"

definition partition_table :: "byte list \<Rightarrow> partition_table_entry list" where
  "partition_table bs = map (\<lambda>i. entry_of_bytes (sub_bytes (446 + 16 * i) 16 bs)) [0..<4]"

text \<open>The partitions of the drive that is scanned, and the variables of the scan.\<close>

datatype part_tag = Prim "byte list" nat | Logic "byte list" nat

record scan =
  hd_name :: "byte list"
  hd_prim :: "partition list"
  hd_logic :: "partition list"
  partition_list :: "part_tag list"
  ext_lba_base :: nat
  p_no :: nat
  l_no :: nat
  bufs_lost :: nat

definition part_name_of :: "byte list \<Rightarrow> nat \<Rightarrow> byte list option" where
  "part_name_of name n = map_option snd (vsprintf (replicate 8 0) (text_of ''%s%d'') [Str_arg name, Int_arg n])"

definition add_primary :: "partition_table_entry \<Rightarrow> scan \<Rightarrow> scan option" where
  "add_primary p s = do {
     name \<leftarrow> part_name_of (hd_name s) (p_no s + 1);
     parts \<leftarrow> wr_at (hd_prim s) (p_no s)
       \<lparr>start_lba = e_start_lba p, sec_cnt = e_sec_cnt p, part_name = name\<rparr>;
     let s = s\<lparr>hd_prim := parts, partition_list := partition_list s @ [Prim (hd_name s) (p_no s)],
       p_no := u8 (p_no s + 1)\<rparr>;
     _ \<leftarrow> ensure (p_no s < 4);
     Some s
   }"

definition add_logical :: "nat \<Rightarrow> partition_table_entry \<Rightarrow> scan \<Rightarrow> scan option" where
  "add_logical ext_lba p s = do {
     name \<leftarrow> part_name_of (hd_name s) (l_no s + 5);
     parts \<leftarrow> wr_at (hd_logic s) (l_no s)
       \<lparr>start_lba = add32 ext_lba (e_start_lba p), sec_cnt = e_sec_cnt p, part_name = name\<rparr>;
     Some (s\<lparr>hd_logic := parts, partition_list := partition_list s @ [Logic (hd_name s) (l_no s)],
       l_no := u8 (l_no s + 1)\<rparr>)
   }"

definition read_boot :: "'d ata \<Rightarrow> nat \<Rightarrow> nat \<Rightarrow> 'd ide_channel
    \<Rightarrow> (partition_table_entry list \<times> 'd ide_channel) option" where
  "read_boot hw dev_no ext_lba c = do {
     (_, bs, c) \<leftarrow> ide_read hw dev_no ext_lba (replicate 512 0) 1 c;
     Some (partition_table bs, c)
   }"

text \<open>
  The loop over the remaining entries of the table at \<open>ext_lba\<close>. The call for a linked table is
  the same loop over that table.
\<close>

partial_function (option) scan_table :: "'d ata \<Rightarrow> nat \<Rightarrow> nat \<Rightarrow> partition_table_entry list
    \<Rightarrow> scan \<Rightarrow> 'd ide_channel \<Rightarrow> (scan \<times> 'd ide_channel) option" where
  "scan_table hw dev_no ext_lba ps s c =
     (case ps of
        [] \<Rightarrow> Some (s, c)
      | p # ps \<Rightarrow>
          if fs_type p = 5 then do {
            let target = (if ext_lba_base s \<noteq> 0 then add32 (e_start_lba p) (ext_lba_base s) else e_start_lba p);
            let s = (if ext_lba_base s \<noteq> 0 then s else s\<lparr>ext_lba_base := e_start_lba p\<rparr>);
            (qs, c) \<leftarrow> read_boot hw dev_no target c;
            (s, c) \<leftarrow> scan_table hw dev_no target qs s c;
            scan_table hw dev_no ext_lba ps s c
          }
          else if fs_type p \<noteq> 0 then
            if ext_lba = 0 then do {
              s \<leftarrow> add_primary p s;
              scan_table hw dev_no ext_lba ps s c
            } else do {
              s \<leftarrow> add_logical ext_lba p s;
              if l_no s \<ge> 8 then Some (s\<lparr>bufs_lost := bufs_lost s + 1\<rparr>, c)
              else scan_table hw dev_no ext_lba ps s c
            }
          else scan_table hw dev_no ext_lba ps s c)"

definition partition_scan :: "'d ata \<Rightarrow> nat \<Rightarrow> nat \<Rightarrow> scan \<Rightarrow> 'd ide_channel
    \<Rightarrow> (scan \<times> 'd ide_channel) option" where
  "partition_scan hw dev_no ext_lba s c = do {
     (ps, c) \<leftarrow> read_boot hw dev_no ext_lba c;
     scan_table hw dev_no ext_lba ps s c
   }"

section \<open>Initialisation\<close>

definition zero_part :: partition where
  "zero_part = \<lparr>start_lba = 0, sec_cnt = 0, part_name = replicate 8 0\<rparr>"

text \<open>
  A drive: identified, and scanned when it is the second of its channel. \<open>ext_lba_base\<close> keeps its
  value. The result also gives the partitions of the drive.
\<close>

definition init_disk :: "'d ata \<Rightarrow> byte list \<Rightarrow> nat \<Rightarrow> nat \<Rightarrow> scan \<Rightarrow> 'd ide_channel
    \<Rightarrow> (scan \<times> 'd ide_channel) option" where
  "init_disk hw stack channel_no dev_no s c = do {
     (n, name) \<leftarrow> vsprintf (replicate 8 0) (text_of ''sd%c'') [Char_arg (of_nat (97 + channel_no * 2 + dev_no))];
     let s = s\<lparr>hd_name := take n name, hd_prim := replicate 4 zero_part, hd_logic := replicate 8 zero_part\<rparr>;
     (_, c) \<leftarrow> identtify_disk hw dev_no stack c;
     (s, c) \<leftarrow> (if dev_no = 1 then partition_scan hw dev_no 0 s c else Some (s, c));
     Some (s\<lparr>p_no := 0, l_no := 0\<rparr>, c)
   }"

definition init_channel :: "nat \<Rightarrow> 'd \<Rightarrow> kst \<Rightarrow> 'd ide_channel" where
  "init_channel channel_no d k = \<lparr>port_base = (if channel_no = 0 then 0x1f0 else 0x170),
     irq_no = (if channel_no = 0 then 0x20 + 14 else 0x20 + 15), ch_lock = lock_init,
     expecting_intr = False, disk_done = seam_init 0, drive = d, ch_kern = k\<rparr>"

text \<open>There are two channel structures. Each step adds a channel and the states of its drives.\<close>

fun init_channels :: "'d ata \<Rightarrow> byte list \<Rightarrow> 'd list \<Rightarrow> nat \<Rightarrow> nat \<Rightarrow> scan \<Rightarrow> kst
    \<Rightarrow> (('d ide_channel \<times> scan \<times> scan) list \<times> scan \<times> kst) option" where
  "init_channels hw stack drives channel_no 0 s k = Some ([], s, k)"
| "init_channels hw stack drives channel_no (Suc n) s k = do {
     d \<leftarrow> rd_at drives channel_no;
     _ \<leftarrow> ensure (channel_no < 2);
     let c = init_channel channel_no d k;
     (s0, c) \<leftarrow> init_disk hw stack channel_no 0 s c;
     (s1, c) \<leftarrow> init_disk hw stack channel_no 1 s0 c;
     (cs, s, k) \<leftarrow> init_channels hw stack drives (channel_no + 1) n s1 (ch_kern c);
     Some ((c, s0, s1) # cs, s, k)
   }"

definition ide_init :: "'d ata \<Rightarrow> byte list \<Rightarrow> nat \<Rightarrow> 'd list \<Rightarrow> kst
    \<Rightarrow> (('d ide_channel \<times> scan \<times> scan) list \<times> scan \<times> kst) option" where
  "ide_init hw stack hd_cnt drives k = init_channels hw stack drives 0 ((u8 hd_cnt + 2 - 1) div 2)
     \<lparr>hd_name = [], hd_prim = [], hd_logic = [], partition_list = [], ext_lba_base = 0,
      p_no = 0, l_no = 0, bufs_lost = 0\<rparr> k"

section \<open>Names\<close>

lemma digit_nonzero: "d < 10 \<Longrightarrow> digit d \<noteq> 0"
proof -
  assume "d < 10"
  then have "d = 0 \<or> d = 1 \<or> d = 2 \<or> d = 3 \<or> d = 4 \<or> d = 5 \<or> d = 6 \<or> d = 7 \<or> d = 8 \<or> d = 9" by presburger
  then show ?thesis by (auto simp: digit_def)
qed

text \<open>The name of partition number \<open>n\<close>, in its array of eight characters.\<close>

definition pname :: "byte list \<Rightarrow> nat \<Rightarrow> byte list" where
  "pname name n = (let t = name @ map digit (digits_of 10 n) in t @ replicate (8 - length t) 0)"

lemma part_name_of_runs:
  assumes "length (name @ map digit (digits_of 10 n)) < 8" and "0 \<notin> set name" and "n < 2147483648"
  shows "part_name_of name n = Some (pname name n)"
proof -
  let ?t = "name @ map digit (digits_of 10 n)"
  let ?out = "(replicate 8 0, 0)"
  have "render (text_of ''%s%d'') [Str_arg name, Int_arg n] = Some ?t"
    using assms(3) by (simp add: text_of_def)
  moreover have "clear_from ?out" and "fits (length ?t) ?out"
    using assms(1) by (auto simp: clear_from_def fits_def)
  moreover have "args_ok [Str_arg name, Int_arg n]" using assms(3) by (simp add: args_ok_def)
  ultimately have "vsprintf_loop (text_of ''%s%d'') [Str_arg name, Int_arg n] ?out = Some (wrote ?t ?out)"
    using vsprintf_loop_runs by blast
  moreover have "wrote ?t ?out = (pname name n, length ?t)"
    using assms(1) by (simp add: wrote_def put_bytes_def pname_def Let_def)
  moreover have "0 \<in> set (pname name n)" using assms(1) by (simp add: pname_def Let_def)
  ultimately show ?thesis by (simp add: part_name_of_def vsprintf_def c_strlen_def)
qed

text \<open>Names of at most five characters leave room for two digits.\<close>

definition name_ok :: "byte list \<Rightarrow> bool" where
  "name_ok name \<longleftrightarrow> length name \<le> 5 \<and> 0 \<notin> set name"

lemma part_name_of_small:
  assumes "name_ok name" and "n < 100"
  shows "part_name_of name n = Some (pname name n)"
proof -
  have "length (digits_of 10 n) \<le> 2"
  proof (cases "n < 10")
    case True
    then show ?thesis by (simp add: digits_of.simps)
  next
    case False
    then have "n div 10 < 10" using assms(2) by simp
    then show ?thesis using False by (subst digits_of.simps) (simp add: digits_of.simps)
  qed
  then show ?thesis using assms by (intro part_name_of_runs) (auto simp: name_ok_def)
qed

section \<open>Scanning\<close>

definition with_primary :: "partition_table_entry \<Rightarrow> scan \<Rightarrow> scan" where
  "with_primary p s = s\<lparr>hd_prim := (hd_prim s)[p_no s := \<lparr>start_lba = e_start_lba p, sec_cnt = e_sec_cnt p,
       part_name = pname (hd_name s) (p_no s + 1)\<rparr>],
     partition_list := partition_list s @ [Prim (hd_name s) (p_no s)], p_no := p_no s + 1\<rparr>"

definition with_logical :: "nat \<times> partition_table_entry \<Rightarrow> scan \<Rightarrow> scan" where
  "with_logical = (\<lambda>(e, p) s. s\<lparr>hd_logic := (hd_logic s)[l_no s := \<lparr>start_lba = e + e_start_lba p,
       sec_cnt = e_sec_cnt p, part_name = pname (hd_name s) (l_no s + 5)\<rparr>],
     partition_list := partition_list s @ [Logic (hd_name s) (l_no s)], l_no := l_no s + 1\<rparr>)"

definition scan_ok :: "scan \<Rightarrow> bool" where
  "scan_ok s \<longleftrightarrow> name_ok (hd_name s) \<and> length (hd_prim s) = 4 \<and> length (hd_logic s) = 8"

lemma with_ok [simp]:
  "scan_ok (with_primary p s) = scan_ok s" "p_no (with_primary p s) = p_no s + 1"
  "ext_lba_base (with_primary p s) = ext_lba_base s" "l_no (with_primary p s) = l_no s"
  "scan_ok (with_logical x s) = scan_ok s" "l_no (with_logical x s) = l_no s + 1"
  "ext_lba_base (with_logical x s) = ext_lba_base s" "p_no (with_logical x s) = p_no s"
  by (simp_all add: scan_ok_def with_primary_def with_logical_def split: prod.splits)

lemma add_primary_runs:
  assumes "scan_ok s" and "p_no s < 4"
  shows "add_primary p s = (if p_no s < 3 then Some (with_primary p s) else None)"
  using assms part_name_of_small [of "hd_name s" "p_no s + 1"]
  by (simp add: add_primary_def scan_ok_def with_primary_def)

lemma add_logical_runs:
  assumes "scan_ok s" and "l_no s < 8" and "e + e_start_lba p < 4294967296"
  shows "add_logical e p s = Some (with_logical (e, p) s)"
  using assms part_name_of_small [of "hd_name s" "l_no s + 5"]
  by (simp add: add_logical_def scan_ok_def with_logical_def add32_small)

definition plain_entry :: "partition_table_entry \<Rightarrow> bool" where
  "plain_entry p \<longleftrightarrow> fs_type p \<noteq> 0 \<and> fs_type p \<noteq> 5"

lemma scan_table_Nil: "scan_table hw dv e [] s c = Some (s, c)"
  by (subst scan_table.simps) simp

lemma scan_table_unused:
  "fs_type p = 0 \<Longrightarrow> scan_table hw dv e (p # ps) s c = scan_table hw dv e ps s c"
  by (subst scan_table.simps) simp

lemma scan_table_primaries:
  assumes "scan_ok s" and "\<forall>p \<in> set vs. plain_entry p" and "p_no s + length vs < 4"
  shows "scan_table hw dv 0 (vs @ ps) s c = scan_table hw dv 0 ps (fold with_primary vs s) c"
  using assms
proof (induction vs arbitrary: s)
  case (Cons v vs)
  have "scan_table hw dv 0 ((v # vs) @ ps) s c = scan_table hw dv 0 (vs @ ps) (with_primary v s) c"
    using Cons.prems add_primary_runs [of s v]
    by (subst scan_table.simps) (simp add: plain_entry_def)
  then show ?case using Cons by simp
qed simp

lemma scan_table_four:
  assumes "scan_ok s" and "plain_entry v" and "p_no s = 3"
  shows "scan_table hw dv 0 (v # ps) s c = None"
  using assms add_primary_runs [of s v] by (subst scan_table.simps) (simp add: plain_entry_def)

lemma read_boot_runs:
  assumes "drive_ok (port_base c) hw vw" and "channel_idle vw c" and "dv < 2" and "lba \<le> max_lba"
    and "\<not> faulty (vw (drive c)) dv lba"
  shows "\<exists>d. read_boot hw dv lba c = Some (partition_table (platter (vw (drive c)) dv lba), c\<lparr>drive := d\<rparr>)
    \<and> channel_idle vw (c\<lparr>drive := d\<rparr>) \<and> same_disks (vw (drive c)) (vw d)"
proof -
  let ?s = "sample_fs\<lparr>hd_sectors := platter (vw (drive c)) dv\<rparr>"
  have "length (platter (vw (drive c)) dv lba) = 512" using assms(1) by (simp add: drive_ok_def)
  then have "FsState.ide_read ?s lba (replicate 512 0) 1 = Some (platter (vw (drive c)) dv lba)"
    using assms(4) by (simp add: FsState.ide_read_def put_bytes_def)
  moreover have "lba + 1 < 268435456" using assms(4) by (simp add: max_lba_def)
  moreover have "\<not> faulty (vw (drive c)) dv l" if "lba \<le> l" and "l < lba + 1" for l
    using that assms(5) by (cases "l = lba") simp_all
  ultimately show ?thesis
    using ide_read_runs [OF assms(1-3), of lba 1 ?s "replicate 512 0" "platter (vw (drive c)) dv lba"] assms(4)
    by (auto simp: read_boot_def)
qed

text \<open>
  A chain of extended partition tables: each table has a partition and, but for the last, a link to
  the next table, which counts from the start \<open>base\<close> of the extended partition.
\<close>

fun logical_chain :: "(nat \<Rightarrow> partition_table_entry list) \<Rightarrow> nat \<Rightarrow> (nat \<times> partition_table_entry) list \<Rightarrow> bool" where
  "logical_chain tab base [] = False"
| "logical_chain tab base [(e, p)] = (0 < e \<and> e \<le> max_lba \<and> plain_entry p \<and> e + e_start_lba p < 4294967296
     \<and> (case tab e of a # rest \<Rightarrow> a = p \<and> (\<forall>x \<in> set rest. fs_type x = 0) | _ \<Rightarrow> False))"
| "logical_chain tab base ((e, p) # (e', p') # ls) = (0 < e \<and> e \<le> max_lba \<and> plain_entry p
     \<and> e + e_start_lba p < 4294967296
     \<and> (case tab e of a # b # rest \<Rightarrow> a = p \<and> fs_type b = 5 \<and> e' = e_start_lba b + base
          \<and> (\<forall>x \<in> set rest. fs_type x = 0) | _ \<Rightarrow> False)
     \<and> logical_chain tab base ((e', p') # ls))"

lemma scan_table_rest:
  "\<forall>x \<in> set ps. fs_type x = 0 \<Longrightarrow> scan_table hw dv e ps s c = Some (s, c)"
  by (induction ps) (simp_all add: scan_table_Nil scan_table_unused)

lemma scan_table_logical:
  assumes "scan_ok s" and "l_no s < 7" and "0 < e" and "plain_entry p" and "e + e_start_lba p < 4294967296"
  shows "scan_table hw dv e (p # ps) s c = scan_table hw dv e ps (with_logical (e, p) s) c"
  using assms add_logical_runs [of s e p] by (subst scan_table.simps) (simp add: plain_entry_def)

lemma scan_table_link:
  assumes "ext_lba_base s \<noteq> 0" and "fs_type b = 5" and "e_start_lba b + ext_lba_base s < 4294967296"
    and "read_boot hw dv (e_start_lba b + ext_lba_base s) c = Some (qs, c1)"
    and "scan_table hw dv (e_start_lba b + ext_lba_base s) qs s c1 = Some (s2, c2)"
  shows "scan_table hw dv e (b # ps) s c = scan_table hw dv e ps s2 c2"
  using assms by (subst scan_table.simps) (simp add: add32_small)

lemma scan_chain:
  assumes "drive_ok (port_base c) hw vw" and "channel_idle vw c" and "dv < 2"
    and "v0 = vw (drive c)" and "\<And>l. \<not> faulty v0 dv l"
    and "logical_chain (\<lambda>e. partition_table (platter v0 dv e)) base ((e, p) # ls)"
    and "scan_ok s" and "ext_lba_base s = base" and "base \<noteq> 0" and "l_no s + length ls < 7"
  shows "\<exists>d. scan_table hw dv e (partition_table (platter v0 dv e)) s c
      = Some (fold with_logical ((e, p) # ls) s, c\<lparr>drive := d\<rparr>)
    \<and> channel_idle vw (c\<lparr>drive := d\<rparr>) \<and> same_disks v0 (vw d)"
  using assms
proof (induction ls arbitrary: e p s c v0)
  case Nil
  then obtain rest where "partition_table (platter v0 dv e) = p # rest" "\<forall>x \<in> set rest. fs_type x = 0"
    by (auto split: list.splits)
  then have "scan_table hw dv e (partition_table (platter v0 dv e)) s c
      = Some (fold with_logical [(e, p)] s, c\<lparr>drive := drive c\<rparr>)"
    using Nil.prems(6,7,10) scan_table_logical [of s e p hw dv rest c] by (simp add: scan_table_rest)
  then show ?case using Nil.prems(2,4) by (intro exI [of _ "drive c"]) (simp add: same_disks_def)
next
  case (Cons x ls)
  obtain e' p' where x: "x = (e', p')" by (cases x)
  from Cons.prems(6) obtain b rest where t: "partition_table (platter v0 dv e) = p # b # rest"
      and b: "fs_type b = 5" "e' = e_start_lba b + base" and r: "\<forall>y \<in> set rest. fs_type y = 0"
      and p: "0 < e" "plain_entry p" "e + e_start_lba p < 4294967296"
      and next_chain: "logical_chain (\<lambda>e. partition_table (platter v0 dv e)) base ((e', p') # ls)"
    by (auto simp: x split: list.splits)
  let ?s = "with_logical (e, p) s"
  have e': "e' \<le> max_lba" using next_chain by (cases ls) auto
  obtain d1 where d1: "read_boot hw dv e' c = Some (partition_table (platter v0 dv e'), c\<lparr>drive := d1\<rparr>)"
      and i1: "channel_idle vw (c\<lparr>drive := d1\<rparr>)" and s1: "same_disks v0 (vw d1)"
    using read_boot_runs [OF Cons.prems(1-3) e'] Cons.prems(4,5) by auto
  have "\<exists>d. scan_table hw dv e' (partition_table (platter (vw d1) dv e')) ?s (c\<lparr>drive := d1\<rparr>)
      = Some (fold with_logical ((e', p') # ls) ?s, c\<lparr>drive := d1, drive := d\<rparr>)
    \<and> channel_idle vw (c\<lparr>drive := d1, drive := d\<rparr>) \<and> same_disks (vw d1) (vw d)"
    using Cons.prems(1,3,5,7-10) i1 s1 next_chain
    by (intro Cons.IH) (simp_all add: same_disks_def)
  then obtain d where d: "scan_table hw dv e' (partition_table (platter v0 dv e')) ?s (c\<lparr>drive := d1\<rparr>)
      = Some (fold with_logical ((e', p') # ls) ?s, c\<lparr>drive := d\<rparr>)"
      and i: "channel_idle vw (c\<lparr>drive := d\<rparr>)" and sd: "same_disks v0 (vw d)"
    using s1 by (auto simp: same_disks_def)
  have "e_start_lba b + base < 4294967296" using e' b(2) by (simp add: max_lba_def)
  then have "scan_table hw dv e (b # rest) ?s c
      = scan_table hw dv e rest (fold with_logical ((e', p') # ls) ?s) (c\<lparr>drive := d\<rparr>)"
    using Cons.prems(8,9) b d1 d by (intro scan_table_link) simp_all
  then have "scan_table hw dv e (partition_table (platter v0 dv e)) s c
      = Some (fold with_logical ((e, p) # x # ls) s, c\<lparr>drive := d\<rparr>)"
    using scan_table_logical [OF Cons.prems(7) _ p, of hw dv "b # rest" c] Cons.prems(10) t r
    by (simp add: x scan_table_rest)
  then show ?case using i sd by blast
qed

section \<open>The partitions that are found\<close>

definition primary_part :: "byte list \<Rightarrow> partition_table_entry list \<Rightarrow> nat \<Rightarrow> partition" where
  "primary_part name vs i = \<lparr>start_lba = e_start_lba (vs ! i), sec_cnt = e_sec_cnt (vs ! i),
     part_name = pname name (i + 1)\<rparr>"

definition logical_part :: "byte list \<Rightarrow> (nat \<times> partition_table_entry) list \<Rightarrow> nat \<Rightarrow> partition" where
  "logical_part name ls i = \<lparr>start_lba = fst (ls ! i) + e_start_lba (snd (ls ! i)),
     sec_cnt = e_sec_cnt (snd (ls ! i)), part_name = pname name (i + 5)\<rparr>"

lemma extend_map:
  assumes "n < length xs" and "\<And>i. i < n \<Longrightarrow> f i = g i"
  shows "(map f [0..<n] @ drop n xs)[n := g n] = map g [0..<Suc n] @ drop (Suc n) xs"
proof -
  have "drop n xs = xs ! n # drop (Suc n) xs" using assms(1) by (rule Cons_nth_drop_Suc [symmetric])
  moreover have "map f [0..<n] = map g [0..<n]" using assms(2) by simp
  ultimately show ?thesis by (simp add: list_update_append)
qed

lemma fold_primaries:
  assumes "p_no s = 0" and "length vs \<le> length (hd_prim s)"
  shows "fold with_primary vs s = s\<lparr>hd_prim := map (primary_part (hd_name s) vs) [0..<length vs] @ drop (length vs) (hd_prim s),
    partition_list := partition_list s @ map (Prim (hd_name s)) [0..<length vs], p_no := length vs\<rparr>"
  using assms(2)
proof (induction vs rule: rev_induct)
  case (snoc v vs)
  have "(map (primary_part (hd_name s) vs) [0..<length vs] @ drop (length vs) (hd_prim s))
      [length vs := primary_part (hd_name s) (vs @ [v]) (length vs)]
    = map (primary_part (hd_name s) (vs @ [v])) [0..<Suc (length vs)] @ drop (Suc (length vs)) (hd_prim s)"
    using snoc.prems by (intro extend_map) (simp_all add: primary_part_def nth_append)
  moreover have "\<lparr>start_lba = e_start_lba v, sec_cnt = e_sec_cnt v, part_name = pname (hd_name s) (Suc (length vs))\<rparr>
      = primary_part (hd_name s) (vs @ [v]) (length vs)"
    by (simp add: primary_part_def)
  moreover have "map (Prim (hd_name s)) [0..<Suc (length vs)]
      = map (Prim (hd_name s)) [0..<length vs] @ [Prim (hd_name s) (length vs)]" by simp
  ultimately show ?case using snoc by (simp add: with_primary_def del: upt_Suc)
qed (use assms in simp)

lemma fold_logicals:
  assumes "l_no s = 0" and "length ls \<le> length (hd_logic s)"
  shows "fold with_logical ls s = s\<lparr>hd_logic := map (logical_part (hd_name s) ls) [0..<length ls] @ drop (length ls) (hd_logic s),
    partition_list := partition_list s @ map (Logic (hd_name s)) [0..<length ls], l_no := length ls\<rparr>"
  using assms(2)
proof (induction ls rule: rev_induct)
  case (snoc x ls)
  obtain e p where x: "x = (e, p)" by (cases x)
  have "(map (logical_part (hd_name s) ls) [0..<length ls] @ drop (length ls) (hd_logic s))
      [length ls := logical_part (hd_name s) (ls @ [x]) (length ls)]
    = map (logical_part (hd_name s) (ls @ [x])) [0..<Suc (length ls)] @ drop (Suc (length ls)) (hd_logic s)"
    using snoc.prems by (intro extend_map) (simp_all add: logical_part_def nth_append)
  moreover have "\<lparr>start_lba = e + e_start_lba p, sec_cnt = e_sec_cnt p, part_name = pname (hd_name s) (length ls + 5)\<rparr>
      = logical_part (hd_name s) (ls @ [x]) (length ls)"
    by (simp add: logical_part_def x)
  moreover have "map (Logic (hd_name s)) [0..<Suc (length ls)]
      = map (Logic (hd_name s)) [0..<length ls] @ [Logic (hd_name s) (length ls)]" by simp
  moreover have "with_logical x t = t\<lparr>hd_logic := (hd_logic t)[l_no t := \<lparr>start_lba = e + e_start_lba p,
       sec_cnt = e_sec_cnt p, part_name = pname (hd_name t) (l_no t + 5)\<rparr>],
     partition_list := partition_list t @ [Logic (hd_name t) (l_no t)], l_no := l_no t + 1\<rparr>" for t
    by (simp add: with_logical_def x)
  ultimately show ?case using snoc by (simp del: upt_Suc)
qed (use assms in simp)

lemma scan_table_first:
  assumes "ext_lba_base s = 0" and "fs_type b = 5"
    and "read_boot hw dv (e_start_lba b) c = Some (qs, c1)"
    and "scan_table hw dv (e_start_lba b) qs (s\<lparr>ext_lba_base := e_start_lba b\<rparr>) c1 = Some (s2, c2)"
  shows "scan_table hw dv e (b # ps) s c = scan_table hw dv e ps s2 c2"
  using assms by (subst scan_table.simps) simp

lemma partition_scan_runs:
  assumes "drive_ok (port_base c) hw vw" and "channel_idle vw c" and "dv < 2"
    and "tab = (\<lambda>l. partition_table (platter (vw (drive c)) dv l))"
    and "\<And>l. \<not> faulty (vw (drive c)) dv l"
    and "scan_ok s" and "ext_lba_base s = 0" and "p_no s = 0" and "l_no s = 0"
    and "tab 0 = vs @ x # zs" and "\<forall>p \<in> set vs. plain_entry p" and "length vs < 4"
    and "fs_type x = 5" and "\<forall>z \<in> set zs. fs_type z = 0"
    and "ls \<noteq> []" and "fst (hd ls) = e_start_lba x" and "logical_chain tab (e_start_lba x) ls"
    and "length ls < 8"
  shows "\<exists>d. partition_scan hw dv 0 s c = Some (s\<lparr>
      hd_prim := map (primary_part (hd_name s) vs) [0..<length vs] @ drop (length vs) (hd_prim s),
      hd_logic := map (logical_part (hd_name s) ls) [0..<length ls] @ drop (length ls) (hd_logic s),
      partition_list := partition_list s @ map (Prim (hd_name s)) [0..<length vs]
        @ map (Logic (hd_name s)) [0..<length ls],
      ext_lba_base := e_start_lba x, p_no := length vs, l_no := length ls\<rparr>, c\<lparr>drive := d\<rparr>)
    \<and> channel_idle vw (c\<lparr>drive := d\<rparr>) \<and> same_disks (vw (drive c)) (vw d)"
proof -
  let ?b = "e_start_lba x"
  obtain p ls' where ls: "ls = (?b, p) # ls'"
    using assms(15,16) by (metis list.collapse prod.collapse)
  have b: "?b \<le> max_lba" "?b \<noteq> 0" using assms(17) unfolding ls by (cases ls', auto)+
  let ?s1 = "fold with_primary vs s"
  have ok1: "scan_ok ?s1 = scan_ok s" "ext_lba_base ?s1 = ext_lba_base s" "l_no ?s1 = l_no s"
    by (induction vs arbitrary: s) simp_all
  obtain d0 where d0: "read_boot hw dv 0 c = Some (tab 0, c\<lparr>drive := d0\<rparr>)"
      and i0: "channel_idle vw (c\<lparr>drive := d0\<rparr>)" and s0: "same_disks (vw (drive c)) (vw d0)"
    using read_boot_runs [OF assms(1-3), of 0] assms(4,5) by auto
  have "\<exists>d. read_boot hw dv ?b (c\<lparr>drive := d0\<rparr>)
        = Some (partition_table (platter (vw (drive (c\<lparr>drive := d0\<rparr>))) dv ?b), c\<lparr>drive := d0, drive := d\<rparr>)
      \<and> channel_idle vw (c\<lparr>drive := d0, drive := d\<rparr>) \<and> same_disks (vw (drive (c\<lparr>drive := d0\<rparr>))) (vw d)"
    using assms(1,3,5) i0 s0 b(1) by (intro read_boot_runs) (simp_all add: same_disks_def)
  then obtain d1 where d1: "read_boot hw dv ?b (c\<lparr>drive := d0\<rparr>) = Some (tab ?b, c\<lparr>drive := d1\<rparr>)"
      and i1: "channel_idle vw (c\<lparr>drive := d1\<rparr>)" and s1: "same_disks (vw (drive c)) (vw d1)"
    using s0 assms(4) by (auto simp: same_disks_def)
  let ?s2 = "?s1\<lparr>ext_lba_base := ?b\<rparr>"
  have "\<exists>d. scan_table hw dv ?b (partition_table (platter (vw d1) dv ?b)) ?s2 (c\<lparr>drive := d1\<rparr>)
      = Some (fold with_logical ((?b, p) # ls') ?s2, c\<lparr>drive := d1, drive := d\<rparr>)
    \<and> channel_idle vw (c\<lparr>drive := d1, drive := d\<rparr>) \<and> same_disks (vw d1) (vw d)"
    using assms(1,3,5) i1 s1 assms(17) b(2) ok1 assms(4,6,9,18)
    by (intro scan_chain [where base = ?b])
      (simp_all add: same_disks_def ls scan_ok_def)
  then obtain d where d: "scan_table hw dv ?b (tab ?b) ?s2 (c\<lparr>drive := d1\<rparr>)
        = Some (fold with_logical ls ?s2, c\<lparr>drive := d\<rparr>)"
      and i: "channel_idle vw (c\<lparr>drive := d\<rparr>)" and sd: "same_disks (vw (drive c)) (vw d)"
    using assms(4) ls s1 by (auto simp: same_disks_def)
  have "scan_table hw dv 0 (x # zs) ?s1 (c\<lparr>drive := d0\<rparr>)
      = scan_table hw dv 0 zs (fold with_logical ls ?s2) (c\<lparr>drive := d\<rparr>)"
    using ok1(2) assms(7,13) d1 d by (intro scan_table_first) simp_all
  then have run: "partition_scan hw dv 0 s c = Some (fold with_logical ls ?s2, c\<lparr>drive := d\<rparr>)"
    using d0 assms(10,14) scan_table_primaries [OF assms(6,11), of hw dv "x # zs" "c\<lparr>drive := d0\<rparr>"] assms(8,12)
    by (simp add: partition_scan_def scan_table_rest)
  have l1: "length vs \<le> length (hd_prim s)" using assms(6,12) by (simp add: scan_ok_def)
  have l2: "length ls \<le> length (hd_logic s)" using assms(6,18) by (simp add: scan_ok_def)
  note f1 = fold_primaries [OF assms(8) l1]
  have "fold with_logical ls ?s2 = s\<lparr>
      hd_prim := map (primary_part (hd_name s) vs) [0..<length vs] @ drop (length vs) (hd_prim s),
      hd_logic := map (logical_part (hd_name s) ls) [0..<length ls] @ drop (length ls) (hd_logic s),
      partition_list := partition_list s @ map (Prim (hd_name s)) [0..<length vs]
        @ map (Logic (hd_name s)) [0..<length ls],
      ext_lba_base := ?b, p_no := length vs, l_no := length ls\<rparr>"
    using fold_logicals [of ?s2 ls] assms(9) l2 unfolding f1 by simp
  with run i sd show ?thesis by auto
qed

text \<open>A second drive with one primary partition and a chain of two logical ones.\<close>

definition entry_bytes :: "partition_table_entry \<Rightarrow> byte list" where
  "entry_bytes p = [0, 0, 0, 0, of_nat (fs_type p), 0, 0, 0] @ le32 (e_start_lba p) @ le32 (e_sec_cnt p)"

definition entry_ok :: "partition_table_entry \<Rightarrow> bool" where
  "entry_ok p \<longleftrightarrow> fs_type p < 256 \<and> e_start_lba p < 4294967296 \<and> e_sec_cnt p < 4294967296"

definition boot_bytes :: "partition_table_entry list \<Rightarrow> byte list" where
  "boot_bytes ps = replicate 446 0 @ concat (map entry_bytes ps) @ [0x55, 0xaa]"

abbreviation entry :: "nat \<Rightarrow> nat \<Rightarrow> nat \<Rightarrow> partition_table_entry" where
  "entry t a n \<equiv> \<lparr>fs_type = t, e_start_lba = a, e_sec_cnt = n\<rparr>"

definition scan_tables :: "nat \<Rightarrow> partition_table_entry list" where
  "scan_tables l = (if l = 0 then [entry 131 63 100, entry 5 2000 1000, entry 0 0 0, entry 0 0 0]
     else if l = 2000 then [entry 131 63 200, entry 5 500 400, entry 0 0 0, entry 0 0 0]
     else if l = 2500 then [entry 131 63 300, entry 0 0 0, entry 0 0 0, entry 0 0 0]
     else [entry 0 0 0, entry 0 0 0, entry 0 0 0, entry 0 0 0])"

definition scan_channel :: "(nat \<Rightarrow> partition_table_entry list) \<Rightarrow> view ide_channel" where
  "scan_channel tabs = sample_channel\<lparr>drive := (drive sample_channel)\<lparr>platter := (\<lambda>n l. boot_bytes (tabs l)),
     faulty := (\<lambda>n l. False)\<rparr>\<rparr>"

definition scan_start :: scan where
  "scan_start = \<lparr>hd_name = [115, 100, 98], hd_prim = replicate 4 zero_part, hd_logic = replicate 8 zero_part,
     partition_list = [], ext_lba_base = 0, p_no = 0, l_no = 0, bufs_lost = 0\<rparr>"

lemma length_entry_bytes [simp]: "length (entry_bytes p) = 16"
  by (simp add: entry_bytes_def)

lemma entry_of_entry_bytes:
  assumes "entry_ok p"
  shows "entry_of_bytes (entry_bytes p) = p"
proof -
  let ?h = "[0, 0, 0, 0, of_nat (fs_type p), 0, 0, 0] :: byte list"
  have "rd32 (entry_bytes p) 8 = e_start_lba p"
    using assms by (intro rd32_at [where xs = ?h]) (auto simp: entry_bytes_def entry_ok_def)
  moreover have "rd32 (entry_bytes p) 12 = e_sec_cnt p"
    using assms by (intro rd32_at [where xs = "?h @ le32 (e_start_lba p)" and ys = "[]"])
      (auto simp: entry_bytes_def entry_ok_def)
  moreover have "unat (entry_bytes p ! 4) = fs_type p"
    using assms by (simp add: entry_bytes_def entry_ok_def unat_of_nat)
  ultimately show ?thesis by (simp add: entry_of_bytes_def)
qed

lemma partition_table_boot:
  assumes "length ps = 4" and "\<forall>p \<in> set ps. entry_ok p"
  shows "partition_table (boot_bytes ps) = ps" and "length (boot_bytes ps) = 512"
proof -
  obtain a b c d where ps: "ps = [a, b, c, d]"
    using assms(1) by (auto simp: length_Suc_conv numeral_eq_Suc)
  show "partition_table (boot_bytes ps) = ps" using assms(2)
    by (simp add: ps partition_table_def boot_bytes_def sub_bytes_def upt_rec entry_of_entry_bytes)
  show "length (boot_bytes ps) = 512" by (simp add: ps boot_bytes_def)
qed

lemma scan_channel_facts:
  assumes "\<And>l. length (tabs l) = 4 \<and> (\<forall>p \<in> set (tabs l). entry_ok p)"
  shows "channel_idle sample_view (scan_channel tabs)" and "port_base (scan_channel tabs) = 0x1f0"
    and "partition_table (platter (sample_view (drive (scan_channel tabs))) n l) = tabs l"
    and "\<not> faulty (sample_view (drive (scan_channel tabs))) n l"
  using sample_channel_idle partition_table_boot assms
  by (simp_all add: scan_channel_def channel_idle_def channel_rest_def)

lemma scan_start_ok: "scan_ok scan_start"
  by (simp add: scan_ok_def scan_start_def name_ok_def)

text \<open>C31: On a drive whose table holds up to three primary partitions, then an extended one with a chain
  of one to seven logical partitions, then unused entries, \<open>partition_scan\<close> finds them all: the primary
  ones in order with their own addresses, the logical ones with addresses relative to the table that
  names them, all with their names and entered in the list of partitions in this order. (A fourth
  primary partition stops the kernel, below; with the eighth logical one the scan ends.) Every table
  is one sector, so the reads are those of the drive's documented protocol.\<close>

theorem partition_scan_finds:
  assumes "drive_ok (port_base c) hw vw" and "channel_idle vw c" and "dv < 2"
    and "tab = (\<lambda>l. partition_table (platter (vw (drive c)) dv l))"
    and "\<And>l. \<not> faulty (vw (drive c)) dv l"
    and "scan_ok s" and "ext_lba_base s = 0" and "p_no s = 0" and "l_no s = 0"
    and "tab 0 = vs @ x # zs" and "\<forall>p \<in> set vs. plain_entry p" and "length vs < 4"
    and "fs_type x = 5" and "\<forall>z \<in> set zs. fs_type z = 0"
    and "ls \<noteq> []" and "fst (hd ls) = e_start_lba x" and "logical_chain tab (e_start_lba x) ls"
    and "length ls < 8"
  shows "\<exists>d. partition_scan hw dv 0 s c = Some (s\<lparr>
      hd_prim := map (primary_part (hd_name s) vs) [0..<length vs] @ drop (length vs) (hd_prim s),
      hd_logic := map (logical_part (hd_name s) ls) [0..<length ls] @ drop (length ls) (hd_logic s),
      partition_list := partition_list s @ map (Prim (hd_name s)) [0..<length vs]
        @ map (Logic (hd_name s)) [0..<length ls],
      ext_lba_base := e_start_lba x, p_no := length vs, l_no := length ls\<rparr>, c\<lparr>drive := d\<rparr>)
    \<and> channel_idle vw (c\<lparr>drive := d\<rparr>) \<and> same_disks (vw (drive c)) (vw d)"
  using assms by (rule partition_scan_runs)

theorem partition_scan_finds_witness:
  "\<exists>s c. partition_scan sample_ata 1 0 scan_start (scan_channel scan_tables) = Some (s, c)
     \<and> map start_lba (hd_prim s) = [63, 0, 0, 0] \<and> map start_lba (take 3 (hd_logic s)) = [2063, 2563, 0]
     \<and> partition_list s = [Prim [115, 100, 98] 0, Logic [115, 100, 98] 0, Logic [115, 100, 98] 1]"
proof -
  let ?vs = "[entry 131 63 100]" 
    and ?ls = "[(2000, entry 131 63 200), (2500, entry 131 63 300)] :: (nat \<times> partition_table_entry) list"
  let ?v = "sample_view (drive (scan_channel scan_tables))"
  have four: "length (scan_tables l) = 4 \<and> (\<forall>p \<in> set (scan_tables l). entry_ok p)" for l
    by (simp add: scan_tables_def entry_ok_def)
  note facts = scan_channel_facts [where tabs = scan_tables, OF four]
  have "scan_tables = (\<lambda>l. partition_table (platter ?v 1 l))" using facts(3) by simp
  moreover have "logical_chain scan_tables 2000 ?ls"
    by (simp add: scan_tables_def plain_entry_def max_lba_def)
  ultimately have "\<exists>d. partition_scan sample_ata 1 0 scan_start (scan_channel scan_tables) = Some (scan_start\<lparr>
      hd_prim := map (primary_part (hd_name scan_start) ?vs) [0..<length ?vs] @ drop (length ?vs) (hd_prim scan_start),
      hd_logic := map (logical_part (hd_name scan_start) ?ls) [0..<length ?ls] @ drop (length ?ls) (hd_logic scan_start),
      partition_list := partition_list scan_start @ map (Prim (hd_name scan_start)) [0..<length ?vs]
        @ map (Logic (hd_name scan_start)) [0..<length ?ls],
      ext_lba_base := e_start_lba (entry 5 2000 1000), p_no := length ?vs, l_no := length ?ls\<rparr>,
      (scan_channel scan_tables)\<lparr>drive := d\<rparr>)
    \<and> channel_idle sample_view ((scan_channel scan_tables)\<lparr>drive := d\<rparr>) \<and> same_disks ?v (sample_view d)"
    using facts sample_drive_ok scan_start_ok
    by (intro partition_scan_finds [where tab = scan_tables and zs = "[entry 0 0 0, entry 0 0 0]"])
      (simp_all add: plain_entry_def, simp_all add: scan_start_def scan_tables_def)
  then show ?thesis
    by (elim exE conjE) (simp add: scan_start_def primary_part_def logical_part_def zero_part_def numeral_eq_Suc)
qed

text \<open>A drive with four primary partitions stops the kernel: the fourth is entered, and then the
  assertion that the index is below four fails.\<close>

theorem four_primaries_panic:
  assumes "drive_ok (port_base c) hw vw" and "channel_idle vw c" and "dv < 2"
    and "partition_table (platter (vw (drive c)) dv 0) = vs" and "\<not> faulty (vw (drive c)) dv 0"
    and "scan_ok s" and "p_no s = 0" and "length vs = 4" and "\<forall>p \<in> set vs. plain_entry p"
  shows "partition_scan hw dv 0 s c = None"
proof -
  obtain d where d: "read_boot hw dv 0 c = Some (vs, c\<lparr>drive := d\<rparr>)"
    using read_boot_runs [OF assms(1-3), of 0] assms(4,5) by auto
  obtain a b e v where vs: "vs = [a, b, e] @ [v]"
    using assms(8) by (auto simp: length_Suc_conv numeral_eq_Suc)
  have p: "\<forall>p \<in> set [a, b, e]. plain_entry p" "plain_entry v" using assms(9) vs by auto
  let ?s = "fold with_primary [a, b, e] s"
  have "scan_ok ?s" and "p_no ?s = 3" using assms(6,7) by simp_all
  then have "scan_table hw dv 0 ([a, b, e] @ [v]) s (c\<lparr>drive := d\<rparr>) = None"
    using scan_table_primaries [OF assms(6) p(1), of hw dv "[v]" "c\<lparr>drive := d\<rparr>"]
      scan_table_four [OF _ p(2), of ?s hw dv "[]" "c\<lparr>drive := d\<rparr>"] assms(7) by simp
  then show ?thesis using d vs by (simp add: partition_scan_def)
qed

theorem four_primaries_panic_witness:
  "partition_scan sample_ata 1 0 scan_start (scan_channel (\<lambda>l. replicate 4 (entry 131 63 100))) = None"
proof -
  have four: "length (replicate 4 (entry 131 63 100)) = 4 \<and> (\<forall>p \<in> set (replicate 4 (entry 131 63 100)). entry_ok p)"
    by (simp add: entry_ok_def)
  show ?thesis
    using four_primaries_panic [of "scan_channel (\<lambda>l. replicate 4 (entry 131 63 100))" sample_ata sample_view 1
        "replicate 4 (entry 131 63 100)" scan_start]
      scan_channel_facts [of "\<lambda>l. replicate 4 (entry 131 63 100)"] four sample_drive_ok scan_start_ok
    by (simp add: plain_entry_def scan_start_def)
qed

end
