(* ===== verification/Process.thy ===== *)
theory Process
  imports Threads
begin

text \<open>
  Starting a user process (\<open>userprog/process.c\<close>): its page directory, the pool of its addresses,
  and the interrupt frame from which it begins. Kernel code and the process share the upper
  quarter of the address space, because the page directory of a process starts as a copy of the
  kernel's entries; the lemmas show that the copy translates kernel addresses in the same way,
  maps nothing else, and satisfies the invariant of the memory. Output on the screen is left out.
\<close>

section \<open>Memory\<close>

text \<open>\<open>memcpy\<close> of aligned words at virtual addresses.\<close>

fun copy_words :: "nat \<Rightarrow> nat \<Rightarrow> nat \<Rightarrow> mem \<Rightarrow> mem option" where
  "copy_words dst src 0 m = Some m"
| "copy_words dst src (Suc n) m = do {
     v \<leftarrow> rd_word src m;
     m \<leftarrow> wr_word dst v m;
     copy_words (add32 dst 4) (add32 src 4) n m
   }"

definition memcpy_words :: "nat \<Rightarrow> nat \<Rightarrow> nat \<Rightarrow> mem \<Rightarrow> mem option" where
  "memcpy_words dst src n m =
     (if n = 0 then Some m
      else do { _ \<leftarrow> ensure (dst \<noteq> 0 \<and> src \<noteq> 0); copy_words dst src n m })"

text \<open>When no page is left the function ends without a value for its result.\<close>

definition create_page_dir :: "mem \<Rightarrow> (nat \<times> mem) option" where
  "create_page_dir m = do {
     (page_dir_vaddr, m) \<leftarrow> get_kernel_pages 1 m;
     _ \<leftarrow> ensure (page_dir_vaddr \<noteq> 0);
     m \<leftarrow> memcpy_words (add32 page_dir_vaddr (4 * 768)) (0xfffff000 + 768 * 4) (1024 div 4) m;
     new_page_dir_phy_addr \<leftarrow> addr_v2p page_dir_vaddr m;
     m \<leftarrow> wr_word (add32 page_dir_vaddr (4 * 1023)) (new_page_dir_phy_addr OR PG_US_U OR PG_RW_W OR PG_P_1) m;
     Some (page_dir_vaddr, m)
   }"

definition USER_VADDR_START :: nat where
  "USER_VADDR_START = 0x8048000"

definition user_bitmap_bytes :: nat where
  "user_bitmap_bytes = (0xc0000000 - USER_VADDR_START) div PG_SIZE div 8"

definition create_user_vaddr_bitmap :: "nat \<Rightarrow> sys \<Rightarrow> sys option" where
  "create_user_vaddr_bitmap user_prog s = do {
     let bitmap_byte_cnt = user_bitmap_bytes;
     let bitmap_pg_cnt = DIV_ROUND_UP bitmap_byte_cnt PG_SIZE;
     (p, s) \<leftarrow> on_mem_val (get_kernel_pages bitmap_pg_cnt) s;
     _ \<leftarrow> ensure (p \<noteq> 0);
     bm \<leftarrow> bitmap_init \<lparr>bitmap_byte_len = bitmap_byte_cnt, bits = replicate bitmap_byte_cnt 0\<rparr>;
     let m = smem s;
     Some ((set_mem (m\<lparr>userprog_vaddr := (userprog_vaddr m)(user_prog :=
         \<lparr>bitmap_vaddr = bm, vaddr_start = USER_VADDR_START\<rparr>)\<rparr>) s)\<lparr>vbits := (vbits s)(user_prog := p)\<rparr>)
   }"

section \<open>The first interrupt frame\<close>

definition SELECTOR_U_CODE :: nat where "SELECTOR_U_CODE = 5 * 8 + 0 + 3"
definition SELECTOR_U_DATA :: nat where "SELECTOR_U_DATA = 6 * 8 + 0 + 3"
definition EFLAGS_IOPL_0 :: nat where "EFLAGS_IOPL_0 = 0"
definition EFLAGS_MBS :: nat where "EFLAGS_MBS = 2"
definition EFLAGS_IF_1 :: nat where "EFLAGS_IF_1 = 512"
definition USER_STACK3_VADDR :: nat where "USER_STACK3_VADDR = 0xc0000000 - 0x1000"
definition default_prio :: nat where "default_prio = 3"

text \<open>
  The registers \<open>intr_exit\<close> (\<open>kernel.s\<close>) loads from a frame. The words of \<open>intr_stack\<close>, in steps of
  four bytes: \<open>vec_no\<close>, \<open>edi\<close>, \<open>esi\<close>, \<open>ebp\<close>, \<open>esp\<close>, \<open>ebx\<close>, \<open>edx\<close>, \<open>ecx\<close>, \<open>eax\<close>, \<open>gs\<close>, \<open>fs\<close>, \<open>es\<close>,
  \<open>ds\<close>, \<open>error_code\<close>, \<open>old_eip\<close>, \<open>old_cs\<close>, \<open>eflags\<close>, \<open>old_esp\<close>, \<open>old_ss\<close>.
\<close>

record cpu =
  r_edi :: nat
  r_esi :: nat
  r_ebp :: nat
  r_ebx :: nat
  r_edx :: nat
  r_ecx :: nat
  r_eax :: nat
  r_gs :: nat
  r_fs :: nat
  r_es :: nat
  r_ds :: nat
  r_eip :: nat
  r_cs :: nat
  r_eflags :: nat
  r_esp :: nat
  r_ss :: nat

definition intr_exit :: "nat \<Rightarrow> mem \<Rightarrow> cpu option" where
  "intr_exit esp m = do {
     edi \<leftarrow> rd_word (add32 esp 4) m;
     esi \<leftarrow> rd_word (add32 esp 8) m;
     ebp \<leftarrow> rd_word (add32 esp 12) m;
     ebx \<leftarrow> rd_word (add32 esp 20) m;
     edx \<leftarrow> rd_word (add32 esp 24) m;
     ecx \<leftarrow> rd_word (add32 esp 28) m;
     eax \<leftarrow> rd_word (add32 esp 32) m;
     gs \<leftarrow> rd_word (add32 esp 36) m;
     fs \<leftarrow> rd_word (add32 esp 40) m;
     es \<leftarrow> rd_word (add32 esp 44) m;
     ds \<leftarrow> rd_word (add32 esp 48) m;
     eip \<leftarrow> rd_word (add32 esp 56) m;
     cs \<leftarrow> rd_word (add32 esp 60) m;
     eflags \<leftarrow> rd_word (add32 esp 64) m;
     old_esp \<leftarrow> rd_word (add32 esp 68) m;
     ss \<leftarrow> rd_word (add32 esp 72) m;
     Some \<lparr>r_edi = edi, r_esi = esi, r_ebp = ebp, r_ebx = ebx, r_edx = edx, r_ecx = ecx, r_eax = eax,
       r_gs = gs, r_fs = fs, r_es = es, r_ds = ds, r_eip = eip, r_cs = cs, r_eflags = eflags,
       r_esp = old_esp, r_ss = ss\<rparr>
   }"

text \<open>
  \<open>self_kstack\<close> points to words, so it moves by four times the 32 bytes of \<open>thread_stack\<close>. The
  test for a null stack comes after the size of a page was added, so it never fails.
\<close>

definition start_process :: "nat \<Rightarrow> sys \<Rightarrow> (cpu \<times> sys) option" where
  "start_process func s = do {
     let cur = get_running_thread_pcb (kst_of s);
     s \<leftarrow> on_kst (upd_task cur (\<lambda>p. p\<lparr>self_kstack := add32 (self_kstack p) (4 * 32)\<rparr>)) s;
     p \<leftarrow> tasks (kst_of s) cur;
     let proc_stack = self_kstack p;
     s \<leftarrow> on_mem (wr_words proc_stack [(16, 0), (12, 0), (8, 0), (4, 0),
       (32, 0), (28, 0), (24, 0), (20, 0), (36, 0),
       (40, SELECTOR_U_DATA), (44, SELECTOR_U_DATA), (48, SELECTOR_U_DATA),
       (56, func), (60, SELECTOR_U_CODE), (64, EFLAGS_IOPL_0 OR EFLAGS_MBS OR EFLAGS_IF_1)]) s;
     (pg, s) \<leftarrow> on_mem_val (get_a_page PF_USER USER_STACK3_VADDR) s;
     let old_esp = add32 pg PG_SIZE;
     _ \<leftarrow> ensure (old_esp \<noteq> 0);
     s \<leftarrow> on_mem (wr_words proc_stack [(68, old_esp), (72, SELECTOR_U_DATA)]) s;
     c \<leftarrow> intr_exit proc_stack (smem s);
     Some (c, s)
   }"

section \<open>Creating a process\<close>

definition process_execute :: "nat \<Rightarrow> string \<Rightarrow> sys \<Rightarrow> sys option" where
  "process_execute entry_point name s = do {
     (thread, s) \<leftarrow> on_mem_val (get_kernel_pages 1) s;
     s \<leftarrow> init_thread thread name default_prio s;
     s \<leftarrow> create_user_vaddr_bitmap thread s;
     s \<leftarrow> thread_create thread (code_addr s ''start_process'') entry_point s;
     (pd, s) \<leftarrow> on_mem_val create_page_dir s;
     s \<leftarrow> on_kst (upd_task thread (\<lambda>p. p\<lparr>pgdir := pd\<rparr>)) s;
     let s = s\<lparr>sheap := (sheap s)\<lparr>descs := (descs (sheap s))(thread := block_desk_init)\<rparr>\<rparr>;
     let k = kst_of s;
     let old_status = intr k;
     let k = k\<lparr>intr := False\<rparr>;
     _ \<leftarrow> ensure (thread \<notin> set (thread_ready_list k));
     _ \<leftarrow> ensure (thread \<notin> set (thread_all_list k));
     let k = k\<lparr>thread_all_list := thread_all_list k @ [thread],
               thread_ready_list := thread_ready_list k @ [thread], intr := old_status\<rparr>;
     p \<leftarrow> tasks k thread;
     _ \<leftarrow> ensure (stack_magic p = STACK_MAGIC);
     Some (set_kst k s)
   }"

text \<open>The first threads: the process \<open>init\<close>, the main thread and the idle thread.\<close>

definition init_main_thread :: "byte list \<Rightarrow> sys \<Rightarrow> sys option" where
  "init_main_thread pid_bitmap_bits s = do {
     let k = kst_of s;
     let s = set_kst (k\<lparr>thread_ready_list := [], thread_all_list := []\<rparr>) s;
     pp \<leftarrow> pid_pool_init pid_bitmap_bits;
     s \<leftarrow> process_execute (code_addr s ''init'') ''init'' (s\<lparr>pids := pp\<rparr>);
     s \<leftarrow> make_main_thread s;
     (t, s) \<leftarrow> thread_start ''idle'' 10 (code_addr s ''idle'') 0 s;
     Some (set_kst ((kst_of s)\<lparr>idle_thread := t\<rparr>) s)
   }"

text \<open>One round of the idle thread, up to the point where it waits for an interrupt.\<close>

definition idle :: "sys \<Rightarrow> sys option" where
  "idle s = sys_block TASK_BLOCKED s"

section \<open>Copying pages\<close>

lemma translate_offset:
  assumes "va mod 4096 = 0" and "b < 4096"
  shows "translate m (va + b) = map_option (\<lambda>f. f + b) (translate m va)"
proof -
  obtain k where k: "va = 4096 * k" using assms(1) by (auto simp: mod_eq_0_iff_dvd elim: dvdE)
  have "(4096 * k + b) div 4194304 = k div 1024"
    using assms(2) div_mult2_eq [of "4096 * k + b" 4096 1024] by simp
  moreover have "(4096 * k + b) div 4096 = k" "(4096 * k + b) mod 4096 = b" using assms(2) by simp_all
  moreover have "4096 * k div 4194304 = k div 1024" using div_mult2_eq [of "4096 * k" 4096 1024] by simp
  ultimately show ?thesis by (simp add: translate_walk k)
qed

lemma copy_words_page:
  assumes "self_map m" and "f mod 4096 = 0" and "s mod 4096 = 0" and "s \<noteq> f" and "f \<notin> table_frames m"
    and "d + n \<le> 1024" and "e + n \<le> 1024"
    and "\<forall>k < n. translate m (dst + 4 * k) = Some (f + 4 * (d + k))"
    and "\<forall>k < n. translate m (src + 4 * k) = Some (s + 4 * (e + k))"
    and "dst + 4 * n \<le> 4294967296" and "src + 4 * n \<le> 4294967296"
  shows "\<exists>ph. copy_words dst src n m = Some (m\<lparr>phys := ph\<rparr>)
    \<and> (\<forall>k < n. ph (f + 4 * (d + k)) = phys m (s + 4 * (e + k)))
    \<and> (\<forall>a. (\<forall>k < n. a \<noteq> f + 4 * (d + k)) \<longrightarrow> ph a = phys m a)"
  using assms
proof (induction n arbitrary: m dst src d e)
  case 0
  then show ?case by (intro exI [of _ "phys m"]) simp
next
  case (Suc n)
  let ?v = "phys m (s + 4 * e)"
  let ?m = "m\<lparr>phys := (phys m)(f + 4 * d := ?v)\<rparr>"
  have fd: "frame (f + 4 * d) = f" using Suc.prems(2,6) by (intro frame_offset) simp_all
  have step: "rd_word src m = Some ?v" "wr_word dst ?v m = Some ?m"
    using Suc.prems(8,9) by (auto simp: rd_word_def wr_word_def)
  have st: "same_tables m ?m" using fd Suc.prems(5) by (auto simp: same_tables_def)
  have sm: "self_map ?m" by (rule same_tables_self [OF st Suc.prems(1)])
  have apart: "phys ?m (s + 4 * (e + k)) = phys m (s + 4 * (e + k))" if "k < Suc n" for k
    using fd frame_offset [OF Suc.prems(3), of "e + k"] Suc.prems(4,7) that by auto
  show ?case
  proof (cases "n = 0")
    case True
    then show ?thesis using step by (intro exI [of _ "(phys m)(f + 4 * d := ?v)"]) (simp add: fun_upd_def)
  next
    case False
    then have up: "add32 dst 4 = dst + 4" "add32 src 4 = src + 4"
      using Suc.prems(10,11) by (simp_all add: add32_small)
    have "\<exists>ph. copy_words (dst + 4) (src + 4) n ?m = Some (?m\<lparr>phys := ph\<rparr>)
      \<and> (\<forall>k < n. ph (f + 4 * (Suc d + k)) = phys ?m (s + 4 * (Suc e + k)))
      \<and> (\<forall>a. (\<forall>k < n. a \<noteq> f + 4 * (Suc d + k)) \<longrightarrow> ph a = phys ?m a)"
    proof (rule Suc.IH [OF sm Suc.prems(2-4)])
      show "f \<notin> table_frames ?m" using same_tables_frames [OF st Suc.prems(1)] Suc.prems(5) by simp
      have "translate ?m va = translate m va" if "va < 4294967296" for va
        by (rule same_tables_translate [OF st Suc.prems(1) that])
      moreover have "translate m (dst + 4 * Suc k) = Some (f + 4 * (d + Suc k))"
          "translate m (src + 4 * Suc k) = Some (s + 4 * (e + Suc k))" if "k < n" for k
        using Suc.prems(8,9) that by (simp_all del: mult_Suc_right add_Suc_right)
      ultimately show "\<forall>k < n. translate ?m (dst + 4 + 4 * k) = Some (f + 4 * (Suc d + k))"
          "\<forall>k < n. translate ?m (src + 4 + 4 * k) = Some (s + 4 * (Suc e + k))"
        using Suc.prems(10,11) by (simp_all add: algebra_simps)
    qed (use Suc.prems in simp_all)
    then obtain ph where ph: "copy_words (dst + 4) (src + 4) n ?m = Some (?m\<lparr>phys := ph\<rparr>)"
        "\<forall>k < n. ph (f + 4 * (Suc d + k)) = phys ?m (s + 4 * (Suc e + k))"
        "\<forall>a. (\<forall>k < n. a \<noteq> f + 4 * (Suc d + k)) \<longrightarrow> ph a = phys ?m a" by blast
    have "copy_words dst src (Suc n) m = Some (m\<lparr>phys := ph\<rparr>)" using step ph(1) up by simp
    moreover have "ph (f + 4 * (d + k)) = phys m (s + 4 * (e + k))" if "k < Suc n" for k
    proof (cases k)
      case 0
      then show ?thesis using ph(3) by simp
    next
      case (Suc l)
      then have "ph (f + 4 * (Suc d + l)) = phys ?m (s + 4 * (Suc e + l))" using ph(2) that by simp
      then show ?thesis using apart [OF that] Suc by simp
    qed
    moreover have "ph a = phys m a" if "\<forall>k < Suc n. a \<noteq> f + 4 * (d + k)" for a
    proof -
      have "a \<noteq> f + 4 * (Suc d + k)" if "k < n" for k
        using \<open>\<forall>k < Suc n. a \<noteq> f + 4 * (d + k)\<close> that by (metis Suc_mono add_Suc add_Suc_right)
      moreover have "a \<noteq> f + 4 * d" using that by fastforce
      ultimately show ?thesis using ph(3) by simp
    qed
    ultimately show ?thesis by blast
  qed
qed

section \<open>Interrupt frames\<close>

lemma mapped_aligned: "translate m va = Some h \<Longrightarrow> va mod 4096 = 0 \<Longrightarrow> h mod 4096 = 0"
  by (auto simp: translate_walk frame_aligned split: if_splits)

text \<open>The registers in the words of an interrupt frame.\<close>

definition frame_regs :: "(nat \<Rightarrow> nat) \<Rightarrow> cpu" where
  "frame_regs w = \<lparr>r_edi = w 1, r_esi = w 2, r_ebp = w 3, r_ebx = w 5, r_edx = w 6, r_ecx = w 7, r_eax = w 8,
     r_gs = w 9, r_fs = w 10, r_es = w 11, r_ds = w 12, r_eip = w 14, r_cs = w 15, r_eflags = w 16,
     r_esp = w 17, r_ss = w 18\<rparr>"

lemma frame_regs_eq:
  "\<forall>i < 19. w i = v i \<Longrightarrow> frame_regs w = frame_regs v"
  "\<forall>i < 19. w i = (if i = 8 then 0 else v i) \<Longrightarrow> frame_regs w = (frame_regs v)\<lparr>r_eax := 0\<rparr>"
  by (simp_all add: frame_regs_def)

lemma intr_exit_page:
  assumes "translate m base = Some f" and "base mod 4096 = 0" and "base < 0xFFC00000"
  shows "intr_exit (base + 4020) m = Some (frame_regs (\<lambda>i. phys m (f + 4020 + 4 * i)))"
proof -
  have rd: "rd_word (add32 (base + 4020) b) m = Some (phys m (f + 4020 + b))" if "b < 76" for b
    using translate_offset [OF assms(2), of "4020 + b" m] that assms(1,3)
    by (simp add: rd_word_def add32_small add.assoc)
  show ?thesis by (simp add: intr_exit_def rd frame_regs_def)
qed

lemma wr_word_page:
  assumes "translate m base = Some f" and "base mod 4096 = 0" and "b < 4096"
  shows "wr_word (base + b) v m = Some (m\<lparr>phys := (phys m)(f + b := v)\<rparr>)"
  using translate_offset [OF assms(2,3)] assms(1) by (simp add: wr_word_def)

lemma set_word_page:
  assumes "self_map m" and "f mod 4096 = 0" and "f \<notin> table_frames m" and "j < 1024" and "va < 4294967296"
  shows "translate (m\<lparr>phys := (phys m)(f + 4 * j := v)\<rparr>) va = translate m va"
proof -
  have "frame (f + 4 * j) = f" by (rule frame_offset [OF assms(2,4)])
  then have "same_tables m (m\<lparr>phys := (phys m)(f + 4 * j := v)\<rparr>)"
    using assms(3) by (auto simp: same_tables_def)
  then show ?thesis by (rule same_tables_translate [OF _ assms(1,5)])
qed

lemma code_addr_simps [simp]:
  "code_addr (set_mem m s) = code_addr s" "code_addr (set_kst k s) = code_addr s"
  by (simp_all add: set_mem_def set_kst_def)

section \<open>The page directory of a process\<close>

text \<open>
  A directory at frame \<open>f\<close> with the entries of the current one from 768 on, itself as the last one, and
  nothing below: the address space it defines.
\<close>

definition kernel_copy :: "nat \<Rightarrow> mem \<Rightarrow> bool" where
  "kernel_copy f m \<longleftrightarrow> f mod 4096 = 0 \<and> f \<notin> table_frames m \<and> f \<notin> free_frames m \<and> (\<forall>i < 768. phys m (f + 4 * i) = 0)
     \<and> (\<forall>i < 1023. 768 \<le> i \<longrightarrow> phys m (f + 4 * i) = pde_at m i) \<and> phys m (f + 4 * 1023) = f + 7"

lemma kernel_copy_entries:
  assumes "kernel_copy f m"
  shows "i < 1023 \<Longrightarrow> pde_at (m\<lparr>cr3 := f\<rparr>) i = (if i < 768 then 0 else pde_at m i)"
    and "pde_at (m\<lparr>cr3 := f\<rparr>) 1023 = f + 7"
    and "i < 1023 \<Longrightarrow> 768 \<le> i \<Longrightarrow> pte_at (m\<lparr>cr3 := f\<rparr>) i j = pte_at m i j"
  using assms by (simp_all add: kernel_copy_def pde_at_def pte_at_def)

lemma not_present_0 [simp]: "\<not> present 0"
  by (simp add: present_def)

lemma kernel_copy_space:
  assumes "kernel_copy f m" and "mem_inv m"
  shows "mem_inv (m\<lparr>cr3 := f\<rparr>)"
    and "0xC0000000 \<le> va \<Longrightarrow> va < 0xFFC00000 \<Longrightarrow> translate (m\<lparr>cr3 := f\<rparr>) va = translate m va"
    and "va < 0xC0000000 \<Longrightarrow> translate (m\<lparr>cr3 := f\<rparr>) va = None"
    and "table_frames (m\<lparr>cr3 := f\<rparr>) \<subseteq> insert f (table_frames m)"
proof -
  let ?m = "m\<lparr>cr3 := f\<rparr>"
  note e = kernel_copy_entries [OF assms(1)]
  have f: "f mod 4096 = 0" "f \<notin> table_frames m" "f \<notin> free_frames m" using assms(1) by (simp_all add: kernel_copy_def)
  have pr: "present (pde_at ?m i) \<longleftrightarrow> 768 \<le> i \<and> present (pde_at m i)" if "i < 1023" for i
    using e(1) that by simp
  show "table_frames ?m \<subseteq> insert f (table_frames m)"
    using e(1) pr by (auto simp: table_frames_def)
  moreover have fr: "free_frames ?m = free_frames m" "pools_ok ?m = pools_ok m"
    by (simp_all add: free_frames_def pools_ok_def)
  ultimately have "table_frames ?m \<inter> free_frames ?m = {}"
    using assms(2) f(3) by (auto simp: mem_inv_def)
  moreover have "self_map ?m" using e(2) f(1) by (simp add: self_map_def entry_flags)
  moreover have "frame (pde_at ?m i) \<noteq> cr3 ?m" if "i < 1023" "present (pde_at ?m i)" for i
    using e(1) [OF that(1)] pr [OF that(1)] that f(2) by (auto simp: table_frames_def)
  moreover have "frame (pte_at ?m i j) \<notin> free_frames ?m"
    if "i < 1023" "j < 1024" "present (pde_at ?m i)" "present (pte_at ?m i j)" for i j
    using e(3) [of i j] pr [of i] that assms(2) fr(1) by (auto simp: mem_inv_def)
  moreover have "i = 0" if "i < j" "j < 1023" "present (pde_at ?m i)" "present (pde_at ?m j)"
      "frame (pde_at ?m i) = frame (pde_at ?m j)" for i j
    using e(1) [of i] e(1) [of j] pr [of i] pr [of j] that assms(2) by (auto simp: mem_inv_def)
  ultimately show "mem_inv ?m" using assms(2) fr by (simp add: mem_inv_def)
  show "translate ?m va = translate m va" if "0xC0000000 \<le> va" "va < 0xFFC00000"
  proof -
    have "va div 4194304 < 1023" "768 \<le> va div 4194304" using that by simp_all
    then show ?thesis using e(1,3) by (simp add: translate_walk)
  qed
  show "translate ?m va = None" if "va < 0xC0000000"
  proof -
    have "va div 4194304 < 768" using that by simp
    then show ?thesis using e(1) by (simp add: translate_walk)
  qed
qed

lemma or_flags:
  assumes "x mod 4096 = (0::nat)"
  shows "x OR PG_US_U OR PG_RW_W OR PG_P_1 = x + 7"
  using entry_flags(1) [OF assms] by (simp add: PG_P_1_def PG_RW_W_def PG_US_U_def)

lemma create_page_dir_runs:
  assumes "mem_inv m" and "kvaddr_ok m" and "words_ok m" and "lock_idle (pool_lock (kernel_pool m))"
    and "running (mkern m) \<noteq> 0" and "first_run (bitmap_vaddr (kernel_vaddr m)) 1 = Some i" and "i < 256"
    and "2 \<le> room PF_KERNEL m" and "pd = vaddr_start (kernel_vaddr m) + 4096 * i"
  shows "\<exists>f m1 m'. create_page_dir m = Some (pd, m') \<and> get_kernel_pages 1 m = Some (pd, m1)
    \<and> mem_inv m' \<and> kvaddr_ok m' \<and> words_ok m' \<and> kernel_copy f m' \<and> translate m' pd = Some f
    \<and> f \<in> free_frames m - free_frames m' \<and> same_tables m1 m' \<and> table_frames m \<subseteq> table_frames m'
    \<and> lock_idle (pool_lock (kernel_pool m')) \<and> mkern m' = mkern m"
proof -
  have one: "0 < (1::nat)" "(1::nat) < 256" by simp_all
  have two: "2 * 1 \<le> room PF_KERNEL m" using assms(8) by simp
  obtain fs m1 where g: "get_kernel_pages 1 m = Some (pd, m1)" "mem_inv m1" "kvaddr_ok m1"
      "lock_idle (pool_lock (kernel_pool m1))" "mkern m1 = mkern m" "length fs = 1"
      "set fs \<subseteq> free_frames m - free_frames m1" "set fs \<inter> table_frames m1 = {}" "table_frames m \<subseteq> table_frames m1"
      "\<forall>k < 1. translate m1 (pd + 4096 * k) = Some (fs ! k)" "\<forall>f \<in> set fs. \<forall>l < 1024. phys m1 (f + 4 * l) = 0"
      "set fs \<subseteq> free_in (kernel_pool m)"
    using get_kernel_pages_runs [OF assms(1,2,4,5) one assms(6,7) two assms(9)]
    by (elim exE conjE) (rule that)
  obtain f where fs: "fs = [f]" using g(6) by (cases fs) auto
  have f: "f \<in> free_frames m - free_frames m1" "f \<notin> table_frames m1" "translate m1 pd = Some f"
      "\<And>l. l < 1024 \<Longrightarrow> phys m1 (f + 4 * l) = 0"
    using g(7,8,10,11) fs by simp_all
  have fal: "f mod 4096 = 0" using g(12) fs assms(1) by (auto simp: free_in_def mem_inv_def pools_ok_def)
  have bs: "i < bm_size (bitmap_vaddr (kernel_vaddr m))"
    using assms(6) by (simp add: first_run_Some free_run_iff)
  have pd: "pd mod 4096 = 0" "4194304 \<le> pd" "pd + 4096 \<le> 0xFFC00000"
    using assms(2,9) bs by (auto simp: kvaddr_ok_def)
  have sm: "self_map m1" and cr: "cr3 m1 mod 4096 = 0" using g(2) by (simp_all add: mem_inv_def self_map_def)
  have w1: "words_ok m1" using get_kernel_pages_words [OF assms(3)] g(1) by (auto dest: postD)
  have slot: "translate m1 (pd + 4 * l) = Some (f + 4 * l)" if "l < 1024" for l
    using translate_offset [OF pd(1), of "4 * l" m1] f(3) that by simp
  have src: "translate m1 (0xFFFFF000 + 4 * l) = Some (cr3 m1 + 4 * l)" if "l < 1024" for l
    using translate_pde [OF sm, of "l * 4194304"] get_pde_ptr_eq [of "l * 4194304"] that by simp
  have "\<exists>ph. copy_words (pd + 4 * 768) (0xFFFFF000 + 768 * 4) 256 m1 = Some (m1\<lparr>phys := ph\<rparr>)
    \<and> (\<forall>k < 256. ph (f + 4 * (768 + k)) = phys m1 (cr3 m1 + 4 * (768 + k)))
    \<and> (\<forall>a. (\<forall>k < 256. a \<noteq> f + 4 * (768 + k)) \<longrightarrow> ph a = phys m1 a)"
  proof (rule copy_words_page [OF sm fal cr _ f(2)])
    show "cr3 m1 \<noteq> f" using f(2) by (auto simp: table_frames_def)
    show "\<forall>k < 256. translate m1 (pd + 4 * 768 + 4 * k) = Some (f + 4 * (768 + k))"
      using slot [of "768 + k" for k] by (simp add: add.assoc)
    show "\<forall>k < 256. translate m1 (0xFFFFF000 + 768 * 4 + 4 * k) = Some (cr3 m1 + 4 * (768 + k))"
      using src [of "768 + k" for k] by simp
  qed (use pd(3) in simp_all)
  then obtain ph where ph: "copy_words (pd + 4 * 768) (0xFFFFF000 + 768 * 4) 256 m1 = Some (m1\<lparr>phys := ph\<rparr>)"
      "\<And>k. k < 256 \<Longrightarrow> ph (f + 4 * (768 + k)) = phys m1 (cr3 m1 + 4 * (768 + k))"
      "\<And>a. (\<forall>k < 256. a \<noteq> f + 4 * (768 + k)) \<Longrightarrow> ph a = phys m1 a" by blast
  let ?m2 = "m1\<lparr>phys := ph\<rparr>"
  have other: "ph a = phys m1 a" if "frame a \<noteq> f" for a
  proof (rule ph(3), intro allI impI)
    fix k :: nat assume "k < 256"
    then show "a \<noteq> f + 4 * (768 + k)" using that frame_offset [OF fal, of "768 + k"] by auto
  qed
  have other': "ph a = phys m1 a" if "frame a \<in> table_frames m1" for a
    using that f(2) by (intro other) auto
  then have st2: "same_tables m1 ?m2" by (simp add: same_tables_def)
  have w2: "\<forall>a. phys ?m2 a < 4294967296"
  proof
    fix a
    have "ph a < 4294967296"
    proof (cases "\<exists>k < 256. a = f + 4 * (768 + k)")
      case True
      then show ?thesis using ph(2) w1 by (auto simp: words_ok_def)
    next
      case False
      then show ?thesis using ph(3) [of a] w1 by (simp add: words_ok_def)
    qed
    then show "phys ?m2 a < 4294967296" by simp
  qed
  have tr2: "translate ?m2 va = translate m1 va" if "va < 4294967296" for va
    by (rule same_tables_translate [OF st2 sm that])
  have v2p: "addr_v2p pd ?m2 = Some f"
    using addr_v2p_mapped [OF same_tables_self [OF st2 sm], of pd f] tr2 [of pd] f(3) pd(3) w2 by simp
  let ?m3 = "m1\<lparr>phys := ph(f + 4 * 1023 := f + 7)\<rparr>"
  have wr: "wr_word (pd + 4 * 1023) (f OR PG_US_U OR PG_RW_W OR PG_P_1) ?m2 = Some ?m3"
    using tr2 [of "pd + 4 * 1023"] slot [of 1023] pd(3) or_flags [OF fal] by (simp add: wr_word_def)
  have run: "create_page_dir m = Some (pd, ?m3)"
    using g(1) ph(1) v2p wr pd(2,3) by (simp add: create_page_dir_def memcpy_words_def add32_small)
  have fr: "frame (f + 4 * 1023) = f" using frame_offset [OF fal, of 1023] by simp
  have "a \<noteq> f + 4 * 1023" if "frame a \<in> table_frames m1" for a using that f(2) fr by auto
  then have st3: "same_tables m1 ?m3" using other' by (simp add: same_tables_def)
  have tr3: "translate ?m3 va = translate m1 va" if "va < 4294967296" for va
    by (rule same_tables_translate [OF st3 sm that])
  have inv3: "mem_inv ?m3" by (rule same_tables_inv [OF g(2) st3])
  have "f + 7 < 4294967296"
    using g(12) fs assms(1) by (auto simp: free_in_def mem_inv_def pools_ok_def)
  then have w3: "words_ok ?m3" using w2 by (simp add: words_ok_def)
  have kv3: "kvaddr_ok ?m3"
  proof -
    have "vaddr_start (kernel_vaddr m1) + 4096 * j < 4294967296" if "j < bm_size (bitmap_vaddr (kernel_vaddr m1))" for j
      using g(3) that by (auto simp: kvaddr_ok_def)
    then show ?thesis using g(3) tr3 by (simp add: kvaddr_ok_def)
  qed
  have "kernel_copy f ?m3"
    unfolding kernel_copy_def
  proof (intro conjI allI impI)
    show "f \<notin> table_frames ?m3" using same_tables_frames [OF st3 sm] f(2) by simp
    show "f \<notin> free_frames ?m3" using f(1) by (simp add: free_frames_def)
    fix j :: nat
    show "phys ?m3 (f + 4 * j) = 0" if "j < 768" using ph(3) [of "f + 4 * j"] f(4) [of j] that by simp
    show "phys ?m3 (f + 4 * j) = pde_at ?m3 j" if "j < 1023" "768 \<le> j"
      using ph(2) [of "j - 768"] same_tables_pde [OF st3 sm, of j] that by (simp add: pde_at_def)
  qed (use fal in simp_all)
  moreover have "translate ?m3 pd = Some f" using tr3 [of pd] f(3) pd(3) by simp
  moreover have "free_frames ?m3 = free_frames m1" "table_frames ?m3 = table_frames m1"
    using same_tables_frames [OF st3 sm] by (simp_all add: free_frames_def)
  ultimately show ?thesis using run g(1,4,5,9) inv3 kv3 w3 f(1) st3
    by (intro exI [of _ f] exI [of _ m1] exI [of _ ?m3]) simp
qed

section \<open>Properties\<close>

text \<open>C21: \<open>create_page_dir\<close> makes an address space for a process: its directory lies in a frame that was
  free, the translation of every address of the kernel, below the window on the page tables, is the
  same in it as in the current space, no address of the user part is mapped, and the invariant of
  the memory holds in both address spaces.\<close>

theorem create_page_dir_shares_kernel:
  assumes "mem_inv m" and "kvaddr_ok m" and "words_ok m" and "lock_idle (pool_lock (kernel_pool m))"
    and "running (mkern m) \<noteq> 0" and "first_run (bitmap_vaddr (kernel_vaddr m)) 1 = Some i" and "i < 256"
    and "2 \<le> room PF_KERNEL m"
  shows "\<exists>pd f m'. create_page_dir m = Some (pd, m') \<and> pd = vaddr_start (kernel_vaddr m) + 4096 * i
    \<and> translate m' pd = Some f \<and> f \<in> free_frames m - free_frames m'
    \<and> mem_inv m' \<and> mem_inv (m'\<lparr>cr3 := f\<rparr>)
    \<and> (\<forall>va. 0xC0000000 \<le> va \<longrightarrow> va < 0xFFC00000 \<longrightarrow> translate (m'\<lparr>cr3 := f\<rparr>) va = translate m' va)
    \<and> (\<forall>va < 0xC0000000. translate (m'\<lparr>cr3 := f\<rparr>) va = None)"
proof -
  obtain f m' where c: "create_page_dir m = Some (vaddr_start (kernel_vaddr m) + 4096 * i, m')" "mem_inv m'"
      "kernel_copy f m'" "translate m' (vaddr_start (kernel_vaddr m) + 4096 * i) = Some f"
      "f \<in> free_frames m - free_frames m'"
    using create_page_dir_runs [OF assms refl] by (elim exE conjE) (rule that)
  then show ?thesis using kernel_copy_space [OF c(3,2)] by blast
qed

theorem create_page_dir_shares_kernel_witness:
  "\<exists>f m'. create_page_dir sample_mem = Some (0xC0101000, m') \<and> mem_inv (m'\<lparr>cr3 := f\<rparr>)
     \<and> translate (m'\<lparr>cr3 := f\<rparr>) 0xC0101000 = Some f \<and> translate (m'\<lparr>cr3 := f\<rparr>) 0x8048000 = None"
proof -
  have run: "first_run (bitmap_vaddr (kernel_vaddr sample_mem)) 1 = Some 1"
    unfolding first_run_Some by (auto simp: sample_mem_def bm_size_def free_run_iff bmbit_def)
  have room: "2 \<le> room PF_KERNEL sample_mem" using sample_mem_ok(6) by simp
  obtain pd f m' where m: "create_page_dir sample_mem = Some (pd, m')"
      "pd = vaddr_start (kernel_vaddr sample_mem) + 4096 * 1"
      "translate m' pd = Some f" "mem_inv (m'\<lparr>cr3 := f\<rparr>)"
      "\<forall>va. 0xC0000000 \<le> va \<longrightarrow> va < 0xFFC00000 \<longrightarrow> translate (m'\<lparr>cr3 := f\<rparr>) va = translate m' va"
      "\<forall>va < 0xC0000000. translate (m'\<lparr>cr3 := f\<rparr>) va = None"
    using create_page_dir_shares_kernel [OF sample_mem_ok(1-5) run _ room]
    by (elim meta_impE exE conjE) (simp, rule that)
  have pd: "pd = 0xC0101000" using m(2) by (simp add: sample_mem_def K_HEAD_START_def)
  have "translate (m'\<lparr>cr3 := f\<rparr>) 0xC0101000 = Some f" "translate (m'\<lparr>cr3 := f\<rparr>) 0x8048000 = None"
    using pd m(3,5,6) by simp_all
  with m(1,4) pd show ?thesis by blast
qed

end
