(* ===== verification/Fork.thy ===== *)
theory Fork
  imports Process
begin

text \<open>
  \<open>fork\<close> (\<open>userprog/fork.c\<close>): the child gets a copy of the parent's task structure and kernel stack,
  an address space of its own with copies of the parent's pages, and a stack from which it returns
  from the system call with 0. The words of the page that holds the task structure are words of
  the memory; the fields of the structure are in the scheduler state.
\<close>

section \<open>Copying the task\<close>

definition copy_pcb_vaddrbitmap_stack0 :: "nat \<Rightarrow> nat \<Rightarrow> sys \<Rightarrow> sys option" where
  "copy_pcb_vaddrbitmap_stack0 child_thread parent_thread s = do {
     s \<leftarrow> on_mem (memcpy_words child_thread parent_thread (PG_SIZE div 4)) s;
     p \<leftarrow> tasks (kst_of s) parent_thread;
     (n, s) \<leftarrow> fork_pid s;
     let k = kst_of s;
     let s = set_kst (k\<lparr>tasks := (tasks k)(child_thread \<mapsto> p\<lparr>elapsed_ticks := 0, status := TASK_READY,
       ticks := priority p, parent_pid := pid p, pid := n\<rparr>)\<rparr>) s;
     let s = s\<lparr>sheap := (sheap s)\<lparr>descs := (descs (sheap s))(child_thread := block_desk_init)\<rparr>\<rparr>;
     let bitmap_pg_cnt = DIV_ROUND_UP user_bitmap_bytes PG_SIZE;
     (vaddr_btmp, s) \<leftarrow> on_mem_val (get_kernel_pages bitmap_pg_cnt) s;
     _ \<leftarrow> ensure (vaddr_btmp \<noteq> 0 \<and> vbits s parent_thread \<noteq> 0);
     let m = smem s;
     let s = (set_mem (m\<lparr>userprog_vaddr := (userprog_vaddr m)(child_thread := userprog_vaddr m parent_thread)\<rparr>) s)
       \<lparr>vbits := (vbits s)(child_thread := vaddr_btmp)\<rparr>;
     _ \<leftarrow> ensure (length (tname p) < 14);
     on_kst (upd_task child_thread (\<lambda>p. p\<lparr>tname := tname p @ ''_f''\<rparr>)) s
   }"

section \<open>Copying the memory\<close>

text \<open>One page of the parent: through the buffer of the kernel into a new page of the child.\<close>

definition copy_page :: "nat \<Rightarrow> nat \<Rightarrow> nat \<Rightarrow> nat \<Rightarrow> mem \<Rightarrow> mem option" where
  "copy_page child_thread parent_thread buf_page prog_vaddr m = do {
     m \<leftarrow> memcpy_words buf_page prog_vaddr (PG_SIZE div 4) m;
     m \<leftarrow> load_page_dir child_thread m;
     (_, m) \<leftarrow> get_a_page_without_opvaddrbitmap PF_USER prog_vaddr m;
     m \<leftarrow> memcpy_words prog_vaddr buf_page (PG_SIZE div 4) m;
     load_page_dir parent_thread m
   }"

fun copy_bits :: "nat \<Rightarrow> nat \<Rightarrow> nat \<Rightarrow> byte \<Rightarrow> nat \<Rightarrow> nat \<Rightarrow> nat \<Rightarrow> nat \<Rightarrow> mem \<Rightarrow> mem option" where
  "copy_bits child_thread parent_thread buf_page b start idx_byte idx_bit 0 m = Some m"
| "copy_bits child_thread parent_thread buf_page b start idx_byte idx_bit (Suc n) m = do {
     m \<leftarrow> (if push_bit idx_bit 1 AND b \<noteq> 0
           then copy_page child_thread parent_thread buf_page
             (add32 (mul32 (idx_byte * 8 + idx_bit) PG_SIZE) start) m
           else Some m);
     copy_bits child_thread parent_thread buf_page b start idx_byte (idx_bit + 1) n m
   }"

fun copy_bytes :: "nat \<Rightarrow> nat \<Rightarrow> nat \<Rightarrow> byte list \<Rightarrow> nat \<Rightarrow> nat \<Rightarrow> mem \<Rightarrow> mem option" where
  "copy_bytes child_thread parent_thread buf_page [] start idx_byte m = Some m"
| "copy_bytes child_thread parent_thread buf_page (b # bs) start idx_byte m = do {
     m \<leftarrow> (if b \<noteq> 0 then copy_bits child_thread parent_thread buf_page b start idx_byte 0 8 m else Some m);
     copy_bytes child_thread parent_thread buf_page bs start (idx_byte + 1) m
   }"

definition copy_body_stack3 :: "nat \<Rightarrow> nat \<Rightarrow> nat \<Rightarrow> mem \<Rightarrow> mem option" where
  "copy_body_stack3 child_thread parent_thread buf_page m =
     (let vp = userprog_vaddr m parent_thread in
      copy_bytes child_thread parent_thread buf_page
        (take (bitmap_byte_len (bitmap_vaddr vp)) (bits (bitmap_vaddr vp))) (vaddr_start vp) 0 m)"

section \<open>The child's way back\<close>

text \<open>
  The frame of the interrupt is at the end of the page; below it, the word \<open>switch_to\<close> returns to and
  the four registers it pops.
\<close>

definition build_child_stack :: "nat \<Rightarrow> sys \<Rightarrow> sys option" where
  "build_child_stack child_thread s = do {
     let intr_0_stack = sub32 (add32 child_thread PG_SIZE) 76;
     s \<leftarrow> on_mem (wr_word (add32 intr_0_stack 32) 0) s;
     let ebp_ptr_in_thread_stack = sub32 intr_0_stack (5 * 4);
     s \<leftarrow> on_kst (upd_task child_thread (\<lambda>p. p\<lparr>self_kstack := ebp_ptr_in_thread_stack\<rparr>)) s;
     on_mem (wr_word (sub32 intr_0_stack 4) (code_addr s ''intr_exit'')) s
   }"

fun update_cnts :: "nat \<Rightarrow> nat \<Rightarrow> nat \<Rightarrow> sys \<Rightarrow> sys option" where
  "update_cnts thread local_fd 0 s = Some s"
| "update_cnts thread local_fd (Suc n) s = do {
     p \<leftarrow> tasks (kst_of s) thread;
     global_fd \<leftarrow> rd_at (fd_table p) local_fd;
     s \<leftarrow> (if global_fd \<noteq> - 1 then do {
             (pipe, s) \<leftarrow> on_fs (\<lambda>g. map_option (\<lambda>b. (b, g)) (is_pipe local_fd g)) s;
             _ \<leftarrow> ensure (0 \<le> global_fd);
             f \<leftarrow> rd_at (file_table (sfs s)) (nat global_fd);
             if pipe
             then map_option snd (on_fs (\<lambda>g. map_option (Pair ()) (upd_file (nat global_fd) (\<lambda>f. f\<lparr>fd_pos := add32 (fd_pos f) 1\<rparr>) g)) s)
             else map_option snd (on_fs (\<lambda>g. map_option (Pair ()) (upd_inode (fd_inode f) (\<lambda>i. i\<lparr>i_open_cnts := add32 (i_open_cnts i) 1\<rparr>) g)) s)
           } else Some s);
     update_cnts thread (local_fd + 1) n s
   }"

definition update_inode_open_cnts :: "nat \<Rightarrow> sys \<Rightarrow> sys option" where
  "update_inode_open_cnts thread s = update_cnts thread 3 (MAX_FILES - 3) s"

section \<open>The system call\<close>

text \<open>\<open>False\<close> is the result -1.\<close>

definition copy_process :: "nat \<Rightarrow> nat \<Rightarrow> sys \<Rightarrow> (bool \<times> sys) option" where
  "copy_process child_thread parent_thread s = do {
     (buf_page, s) \<leftarrow> on_mem_val (get_kernel_pages 1) s;
     if buf_page = 0 then Some (False, s)
     else do {
       s \<leftarrow> copy_pcb_vaddrbitmap_stack0 child_thread parent_thread s;
       (pd, s) \<leftarrow> on_mem_val create_page_dir s;
       s \<leftarrow> on_kst (upd_task child_thread (\<lambda>p. p\<lparr>pgdir := pd\<rparr>)) s;
       if pd = 0 then Some (False, s)
       else do {
         s \<leftarrow> on_mem (copy_body_stack3 child_thread parent_thread buf_page) s;
         s \<leftarrow> build_child_stack child_thread s;
         s \<leftarrow> update_inode_open_cnts child_thread s;
         s \<leftarrow> on_mem (mfree_page PF_KERNEL buf_page 1) s;
         Some (True, s)
       }
     }
   }"

definition sys_fork :: "sys \<Rightarrow> (int \<times> sys) option" where
  "sys_fork s = do {
     let parent_thread = get_running_thread_pcb (kst_of s);
     (child_thread, s) \<leftarrow> on_mem_val (get_kernel_pages 1) s;
     if child_thread = 0 then Some (- 1, s)
     else do {
       q \<leftarrow> tasks (kst_of s) parent_thread;
       _ \<leftarrow> ensure (\<not> intr (kst_of s) \<and> pgdir q \<noteq> 0);
       (ok, s) \<leftarrow> copy_process child_thread parent_thread s;
       if \<not> ok then Some (- 1, s)
       else do {
         let k = kst_of s;
         _ \<leftarrow> ensure (child_thread \<notin> set (thread_ready_list k));
         let k = k\<lparr>thread_ready_list := thread_ready_list k @ [child_thread]\<rparr>;
         _ \<leftarrow> ensure (child_thread \<notin> set (thread_all_list k));
         let k = k\<lparr>thread_all_list := thread_all_list k @ [child_thread]\<rparr>;
         p \<leftarrow> tasks k child_thread;
         Some (pid p, set_kst k s)
       }
     }
   }"

section \<open>One new page\<close>

text \<open>Mapping a page writes to the page directory and to the page table of the address only.\<close>

lemma page_table_add_phys:
  assumes "mem_inv m" and "va < 0xFFC00000" and "translate m va = None" and "f mod 4096 = 0"
    and "present (pde_at m (va div 4194304)) \<or> 0 < room PF_KERNEL m" and "page_table_add va f m = Some m'"
    and "frame a \<noteq> cr3 m" and "frame a \<noteq> frame (pde_at m' (va div 4194304))"
  shows "phys m' a = phys m a"
proof -
  let ?i = "va div 4194304" and ?j = "va div 4096 mod 1024"
  have i: "?i < 1023" and j: "?j < 1024" and va: "va < 4294967296" using assms(2) by simp_all
  have sm: "self_map m" and pok: "pools_ok m" and cf: "cr3 m \<notin> free_frames m"
    using assms(1) by (auto simp: mem_inv_def table_frames_def)
  have cr: "cr3 m mod 4096 = 0" using sm by (simp add: self_map_def)
  show ?thesis
  proof (cases "present (pde_at m ?i)")
    case True
    let ?T = "frame (pde_at m ?i)"
    have np: "\<not> present (pte_at m ?i ?j)" using assms(3) True by (simp add: translate_walk split: if_splits)
    have m': "m' = m\<lparr>phys := (phys m)(?T + 4 * ?j := f + 7)\<rparr>"
      using page_table_add_present [OF sm va True np assms(4)] assms(6) by simp
    have "?T \<noteq> cr3 m" using assms(1) True i by (simp add: mem_inv_def)
    then have "pde_at m' ?i = pde_at m ?i" using pte_write(1) [OF cr frame_aligned _ j, of _ ?i] m' i by simp
    then have "a \<noteq> ?T + 4 * ?j" using assms(8) frame_offset [OF frame_aligned j] by auto
    then show ?thesis using m' by simp
  next
    case False
    then have room: "0 < room PF_KERNEL m" using assms(5) by simp
    obtain t m1 where t: "palloc PF_KERNEL m = Some (t, m1)" "t \<in> free_frames m" "t mod 4096 = 0"
        "page_table_add va f m = Some (m1\<lparr>phys :=
        (cleared t 0 1024 ((phys m)(cr3 m + 4 * ?i := t + 7)))(t + 4 * ?j := f + 7)\<rparr>)"
      using page_table_add_absent [OF sm pok room cf assms(2) False assms(4)] by (elim exE conjE) (rule that)
    have m': "m' = m1\<lparr>phys := (cleared t 0 1024 ((phys m)(cr3 m + 4 * ?i := t + 7)))(t + 4 * ?j := f + 7)\<rparr>"
      using t(4) assms(6) by simp
    have "cr3 m1 = cr3 m" using palloc_keeps [OF assms(1) room] t(1) by (auto simp: keeps_def)
    moreover have "frame (cr3 m + 4 * ?i) = cr3 m" using frame_offset [OF cr] i by simp
    moreover have "t \<noteq> cr3 m" using t(2) cf by auto
    moreover have "cr3 m + 4 * ?i \<noteq> t + 4 * ?j" using frame_offset [OF t(3) j] calculation(2,3) by auto
    ultimately have "pde_at m' ?i = t + 7"
      using cleared_other [OF t(3), of 0 1024 "cr3 m + 4 * ?i"] by (simp add: m' pde_at_def)
    then have ft: "frame a \<noteq> t" using assms(8) entry_flags [OF t(3)] by simp
    moreover have "a \<noteq> cr3 m + 4 * ?i" using assms(7) \<open>frame (cr3 m + 4 * ?i) = cr3 m\<close> by auto
    moreover have "a \<noteq> t + 4 * ?j" using ft frame_offset [OF t(3) j] by auto
    ultimately show ?thesis using cleared_other [OF t(3), of 0 1024 a] by (simp add: m')
  qed
qed

lemma new_user_page:
  assumes "mem_inv m" and "words_ok m" and "lock_idle (pool_lock (user_pool m))" and "running (mkern m) \<noteq> 0"
    and "4194304 \<le> va" and "va < 0xC0000000" and "va mod 4096 = 0" and "translate m va = None"
    and "0 < room PF_USER m" and "0 < room PF_KERNEL m" and "i = va div 4194304"
  shows "\<exists>h m'. get_a_page_without_opvaddrbitmap PF_USER va m = Some (va, m') \<and> mem_inv m' \<and> words_ok m'
    \<and> h mod 4096 = 0 \<and> h \<in> free_frames m \<and> h \<notin> free_frames m' \<and> h \<notin> table_frames m' \<and> translate m' va = Some h
    \<and> free_frames m' \<subseteq> free_frames m \<and> table_frames m \<subseteq> table_frames m'
    \<and> (\<forall>a. frame a \<noteq> cr3 m \<longrightarrow> frame a \<noteq> frame (pde_at m' i) \<longrightarrow> phys m' a = phys m a)
    \<and> (\<forall>k < 1023. k \<noteq> i \<longrightarrow> pde_at m' k = pde_at m k) \<and> pde_at m' 1023 = pde_at m 1023
    \<and> (frame (pde_at m' i) \<in> free_frames m \<or> present (pde_at m i) \<and> pde_at m' i = pde_at m i)
    \<and> (\<forall>va2. 4194304 \<le> va2 \<longrightarrow> va2 < 0xFFC00000 \<longrightarrow> va2 div 4096 \<noteq> va div 4096 \<longrightarrow> translate m' va2 = translate m va2)
    \<and> lock_idle (pool_lock (user_pool m')) \<and> mkern m' = mkern m \<and> userprog_vaddr m' = userprog_vaddr m \<and> cr3 m' = cr3 m
    \<and> kernel_vaddr m' = kernel_vaddr m
    \<and> room PF_USER m - 1 \<le> room PF_USER m' \<and> room PF_KERNEL m - 1 \<le> room PF_KERNEL m'"
proof -
  have hi: "va < 0xFFC00000" using assms(6) by simp
  obtain l where l: "acquire_pool PF_USER m = Some (upd_pool PF_USER (\<lambda>p. p\<lparr>pool_lock := l\<rparr>) m)"
      "\<forall>m2. pool_lock (pool_of PF_USER m2) = l \<longrightarrow> mkern m2 = mkern m \<longrightarrow>
        (\<exists>l'. release_pool PF_USER m2 = Some (upd_pool PF_USER (\<lambda>p. p\<lparr>pool_lock := l'\<rparr>) m2) \<and> lock_idle l')"
    using acquire_pool_idle [of PF_USER m] assms(3,4) by auto
  define m1 where "m1 = upd_pool PF_USER (\<lambda>p. p\<lparr>pool_lock := l\<rparr>) m"
  have m1: "mem_inv m1" "free_frames m1 = free_frames m" "room pf m1 = room pf m" "mkern m1 = mkern m"
      "phys m1 = phys m" "pool_lock (user_pool m1) = l" "table_frames m1 = table_frames m"
      "translate m1 x = translate m x" "pde_at m1 n = pde_at m n" "cr3 m1 = cr3 m"
      "kernel_vaddr m1 = kernel_vaddr m" "userprog_vaddr m1 = userprog_vaddr m" for pf x n
  proof -
    show "pool_lock (user_pool m1) = l" "userprog_vaddr m1 = userprog_vaddr m" by (simp_all add: m1_def)
  qed (use assms(1) in \<open>simp_all only: m1_def set_lock_frame upd_pool_tables\<close>)
  obtain h m2 where p: "palloc PF_USER m1 = Some (h, m2)" "mem_inv m2" "keeps m1 m2" "h \<in> free_frames m1"
      "free_frames m2 = free_frames m1 - {h}" "h mod 4096 = 0" "0 < h" "h < 4294967296"
      "room PF_USER m2 = room PF_USER m1 - 1" "\<forall>pf'. pf' \<noteq> PF_USER \<longrightarrow> room pf' m2 = room pf' m1"
      "\<forall>va. translate m2 va = translate m1 va" "table_frames m2 = table_frames m1"
      "\<forall>i. pde_at m2 i = pde_at m1 i" "phys m2 = phys m1"
    using palloc_keeps [OF m1(1), of PF_USER] m1(3) assms(9) by (elim meta_impE exE conjE) (simp, rule that)
  have w2: "words_ok m2" using assms(2) p(14) m1(5) by (simp add: words_ok_def)
  have hf: "h \<notin> free_frames m2" "h \<notin> table_frames m2"
    using p(5,4,12) m1(1) by (auto simp: mem_inv_def)
  have rk: "present (pde_at m2 (va div 4194304)) \<or> 0 < room PF_KERNEL m2" using p(10) m1(3) assms(10) by simp
  have tn: "translate m2 va = None" using p(11) m1(8) assms(8) by simp
  obtain m3 where m3: "page_table_add va h m2 = Some m3" "mem_inv m3" "same_env m2 m3"
      "translate m3 va = Some (h + va mod 4096)"
      "\<forall>va2. 4194304 \<le> va2 \<longrightarrow> va2 < 0xFFC00000 \<longrightarrow> va2 div 4096 \<noteq> va div 4096 \<longrightarrow> translate m3 va2 = translate m2 va2"
      "table_frames m3 \<subseteq> table_frames m2 \<union> (free_frames m2 - free_frames m3)" "table_frames m2 \<subseteq> table_frames m3"
      "free_frames m3 \<subseteq> free_frames m2" "room PF_KERNEL m2 - 1 \<le> room PF_KERNEL m3"
      "entry_set (va div 4194304) (va div 4096 mod 1024) h m2 m3"
    using page_table_add_step [OF p(2) assms(5) hi tn p(6) hf(1) rk] by (elim exE conjE) (rule that)
  have w3: "words_ok m3" using page_table_add_words [OF w2 p(8), of va] m3(1) by (auto dest: postD)
  have env: "cr3 m3 = cr3 m2" "kernel_vaddr m3 = kernel_vaddr m2" "userprog_vaddr m3 = userprog_vaddr m2"
      "mkern m3 = mkern m2" "user_pool m3 = user_pool m2"
    using m3(3) by (simp_all add: same_env_def)
  have k2: "cr3 m2 = cr3 m" "kernel_vaddr m2 = kernel_vaddr m" "userprog_vaddr m2 = userprog_vaddr m" "mkern m2 = mkern m"
      "pool_lock (pool_of PF_USER m2) = l"
  proof -
    have "pool_lock (pool_of PF_USER m2) = pool_lock (pool_of PF_USER m1)" using p(3) unfolding keeps_def by blast
    then show "pool_lock (pool_of PF_USER m2) = l" using m1(6) by simp
  qed (use p(3) m1 in \<open>simp_all add: keeps_def\<close>)
  have "pool_lock (pool_of PF_USER m3) = l" "mkern m3 = mkern m" using k2 env by simp_all
  then obtain l' where l': "release_pool PF_USER m3 = Some (upd_pool PF_USER (\<lambda>p. p\<lparr>pool_lock := l'\<rparr>) m3)" "lock_idle l'"
    using l(2) by blast
  define m' where "m' = upd_pool PF_USER (\<lambda>p. p\<lparr>pool_lock := l'\<rparr>) m3"
  have m': "mem_inv m'" "free_frames m' = free_frames m3" "room pf m' = room pf m3" "mkern m' = mkern m3"
      "phys m' = phys m3" "table_frames m' = table_frames m3"
      "translate m' x = translate m3 x" "pde_at m' n = pde_at m3 n" "cr3 m' = cr3 m3" "words_ok m'"
      "kernel_vaddr m' = kernel_vaddr m3" "userprog_vaddr m' = userprog_vaddr m3" "pool_lock (user_pool m') = l'" for pf x n
  proof -
    show "userprog_vaddr m' = userprog_vaddr m3" "pool_lock (user_pool m') = l'" by (simp_all add: m'_def)
  qed (use m3(2) w3 in \<open>simp_all only: m'_def set_lock_frame upd_pool_tables words_ok_frame\<close>)
  have run: "get_a_page_without_opvaddrbitmap PF_USER va m = Some (va, m')"
    using l(1) p(1,7) m3(1) l'(1) by (simp add: get_a_page_without_opvaddrbitmap_def m1_def m'_def del: upd_pool.simps)
  note es = entry_setD [OF m3(10)]
  have "phys m' a = phys m a" if "frame a \<noteq> cr3 m" "frame a \<noteq> frame (pde_at m' i)" for a
    using page_table_add_phys [OF p(2) hi tn p(6) rk m3(1), of a] that k2(1) m'(5,8) p(14) m1(5) assms(11) by simp
  moreover have "frame (pde_at m' i) \<in> free_frames m \<or> present (pde_at m i) \<and> pde_at m' i = pde_at m i"
  proof (cases "present (pde_at m2 i)")
    case True
    then show ?thesis using es(4) m'(8) p(13) m1(9) assms(11) by simp
  next
    case False
    then have "frame (pde_at m3 i) \<in> free_frames m2" using m3(10) assms(11) by (simp add: entry_set_def)
    then show ?thesis using m'(8) p(5) m1(2) by simp
  qed
  moreover have "\<forall>k < 1023. k \<noteq> i \<longrightarrow> pde_at m' k = pde_at m k" using es(5) m'(8) p(13) m1(9) assms(11) by simp
  moreover have "pde_at m' 1023 = pde_at m 1023"
    using m3(10) m'(8) p(13) m1(9) by (simp add: entry_set_def)
  moreover have "h \<notin> table_frames m'" using m3(6) hf m'(6) by blast
  moreover have "h \<notin> free_frames m'" "free_frames m' \<subseteq> free_frames m" using hf m3(8) m'(2) p(5) m1(2) by auto
  moreover have "table_frames m \<subseteq> table_frames m'" using m3(7) m'(6) p(12) m1(7) by simp
  moreover have "room PF_USER m' = room PF_USER m - 1"
  proof -
    have "room PF_USER m3 = room PF_USER m2" using env(5) by (simp add: room_def)
    then show ?thesis using m'(3) p(9) m1(3) by simp
  qed
  moreover have "room PF_KERNEL m - 1 \<le> room PF_KERNEL m'" using m'(3) m3(9) p(10) m1(3) by simp
  ultimately show ?thesis
    using run m'(1,10) p(4,6) m1(2) m3(4,5) assms(7) m'(4,7,9,11,12,13) p(11) m1(8) env k2(1-4) l'(2)
    by (intro exI [of _ h] exI [of _ m']) simp
qed

end
