(* ===== verification/ForkSpace.thy ===== *)
theory ForkSpace
  imports Fork
begin

text \<open>
  What \<open>copy_body_stack3\<close> (\<open>userprog/fork.c\<close>) does to the two address spaces it works on. The parent's
  page directory is the current one, the child's lies in frame \<open>C\<close>, and the pages go through the
  frame \<open>B\<close> of the buffer; \<open>twin\<close> is the invariant of the loop, and \<open>own\<close> the set of the
  frames it may write to.
\<close>

section \<open>Two address spaces\<close>

definition child_tables :: "nat \<Rightarrow> mem \<Rightarrow> nat set" where
  "child_tables C m = {frame (phys m (C + 4 * i)) |i. i < 768 \<and> present (phys m (C + 4 * i))}"

definition own :: "nat \<Rightarrow> nat \<Rightarrow> mem \<Rightarrow> nat set" where
  "own C B m = {C, B} \<union> child_tables C m \<union> free_frames m"

definition twin :: "nat \<Rightarrow> nat \<Rightarrow> mem \<Rightarrow> bool" where
  "twin C B m \<longleftrightarrow> mem_inv m \<and> mem_inv (m\<lparr>cr3 := C\<rparr>) \<and> words_ok m
     \<and> (\<forall>i < 1023. 768 \<le> i \<longrightarrow> phys m (C + 4 * i) = pde_at m i)
     \<and> table_frames m \<inter> own C B m = {} \<and> B \<notin> insert C (child_tables C m \<union> free_frames m) \<and> B mod 4096 = 0
     \<and> lock_idle (pool_lock (user_pool m)) \<and> running (mkern m) \<noteq> 0"

text \<open>The page directory of a thread and the frame it lies in.\<close>

definition dir_at :: "nat \<Rightarrow> nat \<Rightarrow> mem \<Rightarrow> bool" where
  "dir_at t D m \<longleftrightarrow> (\<exists>p. tasks (mkern m) t = Some p \<and> 0xC0000000 \<le> pgdir p \<and> pgdir p < 0xFFC00000
     \<and> translate m (pgdir p) = Some D)"

lemma cr3_fields [simp]:
  "free_frames (m\<lparr>cr3 := C\<rparr>) = free_frames m" "room pf (m\<lparr>cr3 := C\<rparr>) = room pf m"
  "child_tables D (m\<lparr>cr3 := C\<rparr>) = child_tables D m" "words_ok (m\<lparr>cr3 := C\<rparr>) = words_ok m"
proof -
  have "pool_of pf (m\<lparr>cr3 := C\<rparr>) = pool_of pf m" by (cases pf) simp_all
  then show "room pf (m\<lparr>cr3 := C\<rparr>) = room pf m" by (simp add: room_def)
qed (simp_all add: free_frames_def child_tables_def words_ok_def)

lemma phys_fields [simp]:
  "free_frames (m\<lparr>phys := p\<rparr>) = free_frames m" "room pf (m\<lparr>phys := p\<rparr>) = room pf m"
proof -
  have "pool_of pf (m\<lparr>phys := p\<rparr>) = pool_of pf m" by (cases pf) simp_all
  then show "room pf (m\<lparr>phys := p\<rparr>) = room pf m" by (simp add: room_def)
qed (simp add: free_frames_def)

text \<open>The invariant depends on the tables and on the pools only.\<close>

lemma mem_inv_view:
  assumes "mem_inv m" and "same_tables m m'" and "pools_ok m'" and "free_frames m' \<subseteq> free_frames m"
  shows "mem_inv m'"
proof -
  have sm: "self_map m" using assms(1) by (simp add: mem_inv_def)
  have cr: "cr3 m' = cr3 m" using assms(2) by (simp add: same_tables_def)
  have pde: "pde_at m' i = pde_at m i" if "i < 1023" for i
    using same_tables_pde [OF assms(2) sm, of i] that by simp
  have pte: "pte_at m' i j = pte_at m i j" if "i < 1023" "j < 1024" "present (pde_at m i)" for i j
    using same_tables_pte [OF assms(2) sm, of i j] that by simp
  have "table_frames m' \<inter> free_frames m' = {}"
    using same_tables_frames [OF assms(2) sm] assms(1,4) by (auto simp: mem_inv_def)
  moreover have "frame (pte_at m' i j) \<notin> free_frames m'"
    if "i < 1023" "j < 1024" "present (pde_at m' i)" "present (pte_at m' i j)" for i j
    using that pde [OF that(1)] pte [OF that(1,2)] assms(1,4) by (auto simp: mem_inv_def)
  moreover have "i = 0" if "i < j" "j < 1023" "present (pde_at m' i)" "present (pde_at m' j)"
      "frame (pde_at m' i) = frame (pde_at m' j)" for i j
    using that pde [of i] pde [of j] assms(1) by (auto simp: mem_inv_def)
  moreover have "frame (pde_at m' i) \<noteq> cr3 m'" if "i < 1023" "present (pde_at m' i)" for i
    using that pde [of i] cr assms(1) by (simp add: mem_inv_def)
  ultimately show ?thesis using assms(3) same_tables_self [OF assms(2) sm] unfolding mem_inv_def by blast
qed

lemma pde_cr3: "pde_at (m\<lparr>cr3 := C\<rparr>) i = phys m (C + 4 * i)"
  by (simp add: pde_at_def)

lemma child_space_dir: "insert C (child_tables C m) \<subseteq> table_frames (m\<lparr>cr3 := C\<rparr>)"
  by (auto simp: child_tables_def table_frames_def pde_cr3)

lemma child_space_tables:
  assumes "\<forall>i < 1023. 768 \<le> i \<longrightarrow> phys m (C + 4 * i) = pde_at m i"
  shows "table_frames (m\<lparr>cr3 := C\<rparr>) \<subseteq> insert C (child_tables C m \<union> table_frames m)"
proof -
  have "x \<in> insert C (child_tables C m \<union> table_frames m)" if "x \<in> table_frames (m\<lparr>cr3 := C\<rparr>)" for x
  proof -
    from that consider "x = C" | i where "i < 1023" "present (phys m (C + 4 * i))" "x = frame (phys m (C + 4 * i))"
      by (auto simp: table_frames_def pde_cr3)
    then show ?thesis
    proof cases
      case 2
      then show ?thesis
        using assms by (cases "i < 768") (auto simp: child_tables_def table_frames_def)
    qed simp
  qed
  then show "table_frames (m\<lparr>cr3 := C\<rparr>) \<subseteq> insert C (child_tables C m \<union> table_frames m)" by blast
qed

text \<open>Kernel addresses have the same translation in both spaces.\<close>

lemma twin_kernel:
  assumes "twin C B m" and "0xC0000000 \<le> va" and "va < 0xFFC00000"
  shows "translate (m\<lparr>cr3 := C\<rparr>) va = translate m va"
proof -
  have "va div 4194304 < 1023" "768 \<le> va div 4194304" using assms(2,3) by simp_all
  then have "pde_at (m\<lparr>cr3 := C\<rparr>) (va div 4194304) = pde_at m (va div 4194304)"
    using assms(1) by (simp add: twin_def pde_cr3)
  then show ?thesis by (simp add: translate_walk pte_at_def)
qed

lemma twin_buffer:
  assumes "twin C B m"
  shows "B \<notin> table_frames m" and "B \<notin> table_frames (m\<lparr>cr3 := C\<rparr>)"
proof -
  show "B \<notin> table_frames m" using assms by (auto simp: twin_def own_def)
  then show "B \<notin> table_frames (m\<lparr>cr3 := C\<rparr>)"
    using child_space_tables [of m C] assms by (auto simp: twin_def)
qed

text \<open>A change of the memory that leaves the tables of both spaces alone.\<close>

lemma twin_phys:
  assumes "twin C B m" and "\<forall>a. frame a \<in> table_frames m \<union> table_frames (m\<lparr>cr3 := C\<rparr>) \<longrightarrow> ph a = phys m a"
    and "\<forall>a. ph a < 4294967296"
  shows "twin C B (m\<lparr>phys := ph\<rparr>)" and "child_tables C (m\<lparr>phys := ph\<rparr>) = child_tables C m"
    and "own C B (m\<lparr>phys := ph\<rparr>) = own C B m" and "table_frames (m\<lparr>phys := ph\<rparr>) = table_frames m"
    and "va < 4294967296 \<Longrightarrow> translate (m\<lparr>phys := ph\<rparr>) va = translate m va"
    and "va < 4294967296 \<Longrightarrow> translate (m\<lparr>phys := ph, cr3 := C\<rparr>) va = translate (m\<lparr>cr3 := C\<rparr>) va"
proof -
  let ?m = "m\<lparr>phys := ph\<rparr>" and ?c = "m\<lparr>cr3 := C\<rparr>"
  have inv: "mem_inv m" "mem_inv ?c" using assms(1) by (simp_all add: twin_def)
  then have sm: "self_map m" "self_map ?c" by (simp_all add: mem_inv_def)
  have st: "same_tables m ?m" "same_tables ?c (?c\<lparr>phys := ph\<rparr>)" using assms(2) by (simp_all add: same_tables_def)
  have swap: "m\<lparr>phys := ph, cr3 := C\<rparr> = ?c\<lparr>phys := ph\<rparr>" by simp
  have C: "C mod 4096 = 0" using sm(2) by (simp add: self_map_def)
  have cd: "ph (C + 4 * i) = phys m (C + 4 * i)" if "i < 1024" for i
    using assms(2) [rule_format, of "C + 4 * i"] frame_offset [OF C that] by (simp add: table_frames_def)
  have "ph (C + 4 * i) = phys m (C + 4 * i)" if "i < 768" for i using cd that by simp
  then show ct: "child_tables C ?m = child_tables C m" unfolding child_tables_def by (auto; metis)
  then show ow: "own C B ?m = own C B m" by (simp add: own_def)
  show tf: "table_frames ?m = table_frames m" by (rule same_tables_frames [OF st(1) sm(1)])
  show "translate ?m va = translate m va" if "va < 4294967296"
    by (rule same_tables_translate [OF st(1) sm(1) that])
  show "translate (m\<lparr>phys := ph, cr3 := C\<rparr>) va = translate ?c va" if "va < 4294967296"
    unfolding swap by (rule same_tables_translate [OF st(2) sm(2) that])
  have "mem_inv ?m" by (rule same_tables_inv [OF inv(1) st(1)])
  moreover have "mem_inv (?m\<lparr>cr3 := C\<rparr>)" unfolding swap by (rule same_tables_inv [OF inv(2) st(2)])
  moreover have "phys ?m (C + 4 * i) = pde_at ?m i" if "i < 1023" "768 \<le> i" for i
    using cd [of i] same_tables_pde [OF st(1) sm(1), of i] that assms(1) by (simp add: twin_def)
  ultimately show "twin C B ?m" using assms(1,3) ct ow tf by (simp add: twin_def words_ok_def)
qed

lemma load_dir:
  assumes "dir_at t D m" and "self_map m" and "words_ok m"
  shows "load_page_dir t m = Some (m\<lparr>cr3 := D\<rparr>)"
proof -
  obtain p where p: "tasks (mkern m) t = Some p" "0xC0000000 \<le> pgdir p" "pgdir p < 0xFFC00000"
      "translate m (pgdir p) = Some D" using assms(1) by (auto simp: dir_at_def)
  have "addr_v2p (pgdir p) m = Some D"
    using addr_v2p_mapped [OF assms(2) _ p(4)] p(3) assms(3) by (simp add: words_ok_def)
  then show ?thesis using p by (simp add: load_page_dir_def)
qed

text \<open>One page copied by words.\<close>

lemma copy_page_words:
  assumes "self_map m" and "f mod 4096 = 0" and "s mod 4096 = 0" and "s \<noteq> f" and "f \<notin> table_frames m"
    and "dst mod 4096 = 0" and "src mod 4096 = 0" and "translate m dst = Some f" and "translate m src = Some s"
    and "0 < dst" and "dst < 0xFFC00000" and "0 < src" and "src < 0xFFC00000" and "words_ok m"
  shows "\<exists>ph. memcpy_words dst src 1024 m = Some (m\<lparr>phys := ph\<rparr>) \<and> (\<forall>k < 1024. ph (f + 4 * k) = phys m (s + 4 * k))
    \<and> (\<forall>a. frame a \<noteq> f \<longrightarrow> ph a = phys m a) \<and> (\<forall>a. ph a < 4294967296)"
proof -
  have "\<exists>ph. copy_words dst src 1024 m = Some (m\<lparr>phys := ph\<rparr>)
    \<and> (\<forall>k < 1024. ph (f + 4 * (0 + k)) = phys m (s + 4 * (0 + k)))
    \<and> (\<forall>a. (\<forall>k < 1024. a \<noteq> f + 4 * (0 + k)) \<longrightarrow> ph a = phys m a)"
  proof (rule copy_words_page [OF assms(1-5)])
    show "\<forall>k < 1024. translate m (dst + 4 * k) = Some (f + 4 * (0 + k))"
      using translate_offset [OF assms(6)] assms(8) by simp
    show "\<forall>k < 1024. translate m (src + 4 * k) = Some (s + 4 * (0 + k))"
      using translate_offset [OF assms(7)] assms(9) by simp
  qed (use assms(11,13) in simp_all)
  then obtain ph where ph: "copy_words dst src 1024 m = Some (m\<lparr>phys := ph\<rparr>)"
      "\<forall>k < 1024. ph (f + 4 * k) = phys m (s + 4 * k)"
      "\<And>a. (\<forall>k < 1024. a \<noteq> f + 4 * k) \<Longrightarrow> ph a = phys m a" by auto
  have "ph a = phys m a" if "frame a \<noteq> f" for a
    using that frame_offset [OF assms(2)] by (intro ph(3)) auto
  moreover have "ph a < 4294967296" for a
  proof (cases "\<exists>k < 1024. a = f + 4 * k")
    case True
    then show ?thesis using ph(2) assms(14) by (auto simp: words_ok_def)
  next
    case False
    then show ?thesis using ph(3) [of a] assms(14) by (simp add: words_ok_def)
  qed
  ultimately show ?thesis using ph(1,2) assms(10,12)
    by (intro exI [of _ ph]) (simp add: memcpy_words_def)
qed

text \<open>The child's space after one page was mapped in it.\<close>

lemma child_page:
  assumes "twin C B m" and "4194304 \<le> va" and "va < 0xC0000000" and "va mod 4096 = 0"
    and "translate (m\<lparr>cr3 := C\<rparr>) va = None" and "0 < room PF_USER m" and "0 < room PF_KERNEL m"
  shows "\<exists>h m'. get_a_page_without_opvaddrbitmap PF_USER va (m\<lparr>cr3 := C\<rparr>) = Some (va, m'\<lparr>cr3 := C\<rparr>)
    \<and> cr3 m' = cr3 m \<and> twin C B m' \<and> own C B m' \<subseteq> own C B m \<and> free_frames m' \<subseteq> free_frames m
    \<and> table_frames m' = table_frames m \<and> (\<forall>x < 4294967296. translate m' x = translate m x)
    \<and> (\<forall>a. frame a \<notin> own C B m \<or> frame a = B \<longrightarrow> phys m' a = phys m a)
    \<and> h mod 4096 = 0 \<and> h \<in> free_frames m \<and> h \<notin> own C B m' \<and> h \<notin> table_frames (m'\<lparr>cr3 := C\<rparr>)
    \<and> translate (m'\<lparr>cr3 := C\<rparr>) va = Some h
    \<and> (\<forall>x. 4194304 \<le> x \<longrightarrow> x < 0xFFC00000 \<longrightarrow> x div 4096 \<noteq> va div 4096 \<longrightarrow>
        translate (m'\<lparr>cr3 := C\<rparr>) x = translate (m\<lparr>cr3 := C\<rparr>) x)
    \<and> mkern m' = mkern m \<and> userprog_vaddr m' = userprog_vaddr m
    \<and> room PF_USER m - 1 \<le> room PF_USER m' \<and> room PF_KERNEL m - 1 \<le> room PF_KERNEL m'"
proof -
  let ?c = "m\<lparr>cr3 := C\<rparr>" and ?i = "va div 4194304"
  have tw: "mem_inv m" "mem_inv ?c" "words_ok ?c" "lock_idle (pool_lock (user_pool ?c))" "running (mkern ?c) \<noteq> 0"
      "0 < room PF_USER ?c" "0 < room PF_KERNEL ?c"
    using assms by (simp_all add: twin_def)
  have i: "?i < 768" using assms(3) by simp
  obtain h m2 where g: "get_a_page_without_opvaddrbitmap PF_USER va ?c = Some (va, m2)" "mem_inv m2" "words_ok m2"
      "h mod 4096 = 0" "h \<in> free_frames ?c" "h \<notin> free_frames m2" "h \<notin> table_frames m2" "translate m2 va = Some h"
      "free_frames m2 \<subseteq> free_frames ?c" "table_frames ?c \<subseteq> table_frames m2"
      "\<forall>a. frame a \<noteq> cr3 ?c \<longrightarrow> frame a \<noteq> frame (pde_at m2 ?i) \<longrightarrow> phys m2 a = phys ?c a"
      "\<forall>k < 1023. k \<noteq> ?i \<longrightarrow> pde_at m2 k = pde_at ?c k" "pde_at m2 1023 = pde_at ?c 1023"
      "frame (pde_at m2 ?i) \<in> free_frames ?c \<or> present (pde_at ?c ?i) \<and> pde_at m2 ?i = pde_at ?c ?i"
      "\<forall>x. 4194304 \<le> x \<longrightarrow> x < 0xFFC00000 \<longrightarrow> x div 4096 \<noteq> va div 4096 \<longrightarrow> translate m2 x = translate ?c x"
      "lock_idle (pool_lock (user_pool m2))" "mkern m2 = mkern ?c" "userprog_vaddr m2 = userprog_vaddr ?c"
      "cr3 m2 = cr3 ?c" "kernel_vaddr m2 = kernel_vaddr ?c"
      "room PF_USER ?c - 1 \<le> room PF_USER m2" "room PF_KERNEL ?c - 1 \<le> room PF_KERNEL m2"
    using new_user_page [OF tw(2-5) assms(2-5) tw(6,7) refl] by (elim exE conjE) (rule that)
  define m' where "m' = m2\<lparr>cr3 := cr3 m\<rparr>"
  have m2: "m2 = m'\<lparr>cr3 := C\<rparr>" using g(19) by (simp add: m'_def)
  have d: "phys m' (C + 4 * k) = phys m (C + 4 * k)" if "k < 1023" "k \<noteq> ?i" for k
    using g(12) that by (simp add: m2 pde_cr3)
  have d': "frame (phys m' (C + 4 * ?i)) \<in> free_frames m \<or>
      present (phys m (C + 4 * ?i)) \<and> phys m' (C + 4 * ?i) = phys m (C + 4 * ?i)"
    using g(14) by (simp add: m2 pde_cr3)
  have ct: "child_tables C m' \<subseteq> child_tables C m \<union> free_frames m"
  proof
    fix x assume "x \<in> child_tables C m'"
    then obtain k where k: "x = frame (phys m' (C + 4 * k))" "k < 768" "present (phys m' (C + 4 * k))"
      by (auto simp: child_tables_def)
    show "x \<in> child_tables C m \<union> free_frames m"
    proof (cases "k = ?i")
      case True
      then show ?thesis using d' k i by (auto simp: child_tables_def)
    next
      case False
      then show ?thesis using d [of k] k by (auto simp: child_tables_def)
    qed
  qed
  have ff: "free_frames m' \<subseteq> free_frames m" using g(9) by (simp add: m2)
  then have ow: "own C B m' \<subseteq> own C B m" using ct by (auto simp: own_def)
  have written: "frame (pde_at m2 ?i) \<in> child_tables C m \<union> free_frames m"
    using d' i by (auto simp: m2 pde_cr3 child_tables_def)
  have B: "B \<noteq> C" "B \<notin> child_tables C m" "B \<notin> free_frames m" using assms(1) by (auto simp: twin_def)
  have ph: "phys m' a = phys m a" if "frame a \<notin> own C B m \<or> frame a = B" for a
  proof -
    have "frame a \<noteq> C" "frame a \<noteq> frame (pde_at m2 ?i)" using that written B by (auto simp: own_def)
    then show ?thesis using g(11) by (simp add: m2)
  qed
  have ow0: "table_frames m \<inter> own C B m = {}" using assms(1) by (simp add: twin_def)
  have st: "same_tables m m'" using ph ow0 by (auto simp: same_tables_def m'_def)
  have sm: "self_map m" using tw(1) by (simp add: mem_inv_def)
  have tf: "table_frames m' = table_frames m" by (rule same_tables_frames [OF st sm])
  have inv: "mem_inv m'"
  proof (rule mem_inv_view [OF tw(1) st _ ff])
    show "pools_ok m'" using g(2) by (simp add: mem_inv_def m2 pools_ok_def)
  qed
  have "h \<notin> own C B m'"
    using g(5-7) B child_space_dir [of C m'] by (auto simp: own_def m2)
  moreover have "phys m' (C + 4 * k) = pde_at m' k" if "k < 1023" "768 \<le> k" for k
    using d [of k] same_tables_pde [OF st sm, of k] that i assms(1) by (simp add: twin_def)
  then have "twin C B m'"
    using inv g(2,3,16,17) ow ow0 tf B ct ff assms(1) unfolding twin_def by (auto simp: m2)
  moreover have "translate m' x = translate m x" if "x < 4294967296" for x
    by (rule same_tables_translate [OF st sm that])
  moreover have "cr3 m' = cr3 m" by (simp add: m'_def)
  ultimately show ?thesis using g ow ff tf ph
    by (intro exI [of _ h] exI [of _ m']) (simp add: m2)
qed

section \<open>One page of the parent\<close>

definition copied :: "nat \<Rightarrow> nat \<Rightarrow> mem \<Rightarrow> mem \<Rightarrow> bool" where
  "copied C B m m' \<longleftrightarrow> cr3 m' = cr3 m \<and> own C B m' \<subseteq> own C B m \<and> free_frames m' \<subseteq> free_frames m
     \<and> (\<forall>x < 4294967296. translate m' x = translate m x)
     \<and> (\<forall>a. frame a \<notin> own C B m \<longrightarrow> phys m' a = phys m a)
     \<and> mkern m' = mkern m \<and> userprog_vaddr m' = userprog_vaddr m"

lemma copied_refl: "copied C B m m"
  by (simp add: copied_def)

lemma copied_trans: "copied C B m m1 \<Longrightarrow> copied C B m1 m2 \<Longrightarrow> copied C B m m2"
  unfolding copied_def by (metis subset_eq)

lemma copied_dir: "copied C B m m' \<Longrightarrow> dir_at t D m \<Longrightarrow> dir_at t D m'"
  unfolding dir_at_def copied_def by auto

lemma copy_page_runs:
  assumes "twin C B m" and "dir_at child_thread C m" and "dir_at parent_thread (cr3 m) m"
    and "translate m buf_page = Some B" and "0xC0000000 \<le> buf_page" and "buf_page < 0xFFC00000" and "buf_page mod 4096 = 0"
    and "4194304 \<le> va" and "va < 0xC0000000" and "va mod 4096 = 0"
    and "translate m va = Some s" and "s \<notin> own C B m" and "translate (m\<lparr>cr3 := C\<rparr>) va = None"
    and "0 < room PF_USER m" and "0 < room PF_KERNEL m"
  shows "\<exists>h m'. copy_page child_thread parent_thread buf_page va m = Some m' \<and> twin C B m' \<and> copied C B m m'
    \<and> h \<in> free_frames m \<and> h \<notin> own C B m' \<and> translate (m'\<lparr>cr3 := C\<rparr>) va = Some h
    \<and> (\<forall>k < 1024. phys m' (h + 4 * k) = phys m (s + 4 * k))
    \<and> (\<forall>x. 4194304 \<le> x \<longrightarrow> x < 0xFFC00000 \<longrightarrow> x div 4096 \<noteq> va div 4096 \<longrightarrow>
        translate (m'\<lparr>cr3 := C\<rparr>) x = translate (m\<lparr>cr3 := C\<rparr>) x)
    \<and> room PF_USER m - 1 \<le> room PF_USER m' \<and> room PF_KERNEL m - 1 \<le> room PF_KERNEL m'"
proof -
  have sal: "s mod 4096 = 0" using assms(10,11) by (auto simp: translate_walk frame_aligned split: if_splits)
  have B: "B mod 4096 = 0" "s \<noteq> B" using assms(1,12) by (auto simp: twin_def own_def)
  have sm: "self_map m" and wo: "words_ok m" using assms(1) by (simp_all add: twin_def mem_inv_def)
  note bt = twin_buffer [OF assms(1)]
  have bv: "0 < buf_page" "0 < va" "va < 0xFFC00000" using assms(5,8,9) by simp_all
  obtain ph where ph: "memcpy_words buf_page va 1024 m = Some (m\<lparr>phys := ph\<rparr>)"
      "\<forall>k < 1024. ph (B + 4 * k) = phys m (s + 4 * k)" "\<forall>a. frame a \<noteq> B \<longrightarrow> ph a = phys m a" "\<forall>a. ph a < 4294967296"
    using copy_page_words [OF sm B(1) sal B(2) bt(1) assms(7,10,4,11) bv(1) assms(6) bv(2,3) wo]
    by (elim exE conjE) (rule that)
  define m1 where "m1 = m\<lparr>phys := ph\<rparr>"
  have keep: "\<forall>a. frame a \<in> table_frames m \<union> table_frames (m\<lparr>cr3 := C\<rparr>) \<longrightarrow> ph a = phys m a"
    using bt ph(3) by auto
  note t1 = twin_phys [OF assms(1) keep ph(4), folded m1_def]
  have m1: "mkern m1 = mkern m" "cr3 m1 = cr3 m" "userprog_vaddr m1 = userprog_vaddr m" "free_frames m1 = free_frames m"
      "room pf m1 = room pf m" for pf
    by (simp_all add: m1_def)
  have c1: "copied C B m m1" using t1(3,5) m1 ph(3) by (auto simp: copied_def own_def m1_def)
  have n1: "translate (m1\<lparr>cr3 := C\<rparr>) va = None" and r1: "0 < room PF_USER m1" "0 < room PF_KERNEL m1"
    using t1(6) [of va] assms(9,13-15) m1(5) by simp_all
  obtain h m2 where c: "get_a_page_without_opvaddrbitmap PF_USER va (m1\<lparr>cr3 := C\<rparr>) = Some (va, m2\<lparr>cr3 := C\<rparr>)"
      "cr3 m2 = cr3 m1" "twin C B m2" "own C B m2 \<subseteq> own C B m1" "free_frames m2 \<subseteq> free_frames m1"
      "table_frames m2 = table_frames m1" "\<forall>x < 4294967296. translate m2 x = translate m1 x"
      "\<forall>a. frame a \<notin> own C B m1 \<or> frame a = B \<longrightarrow> phys m2 a = phys m1 a"
      "h mod 4096 = 0" "h \<in> free_frames m1" "h \<notin> own C B m2" "h \<notin> table_frames (m2\<lparr>cr3 := C\<rparr>)"
      "translate (m2\<lparr>cr3 := C\<rparr>) va = Some h"
      "\<forall>x. 4194304 \<le> x \<longrightarrow> x < 0xFFC00000 \<longrightarrow> x div 4096 \<noteq> va div 4096 \<longrightarrow>
        translate (m2\<lparr>cr3 := C\<rparr>) x = translate (m1\<lparr>cr3 := C\<rparr>) x"
      "mkern m2 = mkern m1" "userprog_vaddr m2 = userprog_vaddr m1"
      "room PF_USER m1 - 1 \<le> room PF_USER m2" "room PF_KERNEL m1 - 1 \<le> room PF_KERNEL m2"
    using child_page [OF t1(1) assms(8-10) n1 r1] by (elim exE conjE) (rule that)
  have c2: "copied C B m1 m2" using c by (simp add: copied_def)
  have hB: "h \<noteq> B" using c(11) by (auto simp: own_def)
  have ht: "h \<notin> table_frames m2"
    using c(6,10) t1(4) m1(4) assms(1) by (auto simp: twin_def own_def)
  have sm2: "self_map (m2\<lparr>cr3 := C\<rparr>)" and w2: "words_ok (m2\<lparr>cr3 := C\<rparr>)"
    using c(3) by (simp_all add: twin_def mem_inv_def)
  have tb: "translate (m2\<lparr>cr3 := C\<rparr>) buf_page = Some B"
    using twin_kernel [OF c(3) assms(5,6)] c(7) t1(5) assms(4,6) by simp
  obtain ph2 where p2: "memcpy_words va buf_page 1024 (m2\<lparr>cr3 := C\<rparr>) = Some (m2\<lparr>cr3 := C, phys := ph2\<rparr>)"
      "\<forall>k < 1024. ph2 (h + 4 * k) = phys (m2\<lparr>cr3 := C\<rparr>) (B + 4 * k)"
      "\<forall>a. frame a \<noteq> h \<longrightarrow> ph2 a = phys (m2\<lparr>cr3 := C\<rparr>) a" "\<forall>a. ph2 a < 4294967296"
    using copy_page_words [OF sm2 c(9) B(1) hB [symmetric] c(12) assms(10,7) c(13) tb bv(2,3,1) assms(6) w2]
    by (elim exE conjE) (rule that)
  define m3 where "m3 = m2\<lparr>phys := ph2\<rparr>"
  have swap: "m2\<lparr>cr3 := C, phys := ph2\<rparr> = m3\<lparr>cr3 := C\<rparr>" by (simp add: m3_def)
  have keep2: "\<forall>a. frame a \<in> table_frames m2 \<union> table_frames (m2\<lparr>cr3 := C\<rparr>) \<longrightarrow> ph2 a = phys m2 a"
    using ht c(12) p2(3) by auto
  note t3 = twin_phys [OF c(3) keep2 p2(4), folded m3_def]
  have c3: "copied C B m1 m3"
  proof -
    have "phys m3 a = phys m1 a" if "frame a \<notin> own C B m1" for a
    proof -
      have "frame a \<noteq> h" using that c(10) by (auto simp: own_def)
      then show ?thesis using that p2(3) c(8) by (simp add: m3_def)
    qed
    moreover have "mkern m3 = mkern m2" "cr3 m3 = cr3 m2" "userprog_vaddr m3 = userprog_vaddr m2" "free_frames m3 = free_frames m2"
      by (simp_all add: m3_def)
    ultimately show ?thesis using c2 t3(3,5) by (simp add: copied_def)
  qed
  have c13: "copied C B m m3" by (rule copied_trans [OF c1 c3])
  have ld1: "load_page_dir child_thread m1 = Some (m1\<lparr>cr3 := C\<rparr>)"
    using load_dir [OF copied_dir [OF c1 assms(2)]] t1(1) by (simp add: twin_def mem_inv_def)
  have ld2: "load_page_dir parent_thread (m3\<lparr>cr3 := C\<rparr>) = Some m3"
  proof -
    have "dir_at parent_thread (cr3 m) m3" by (rule copied_dir [OF c13 assms(3)])
    then have "dir_at parent_thread (cr3 m) (m3\<lparr>cr3 := C\<rparr>)"
      using twin_kernel [OF t3(1)] by (auto simp: dir_at_def)
    moreover have "self_map (m3\<lparr>cr3 := C\<rparr>)" "words_ok (m3\<lparr>cr3 := C\<rparr>)"
      using t3(1) by (simp_all add: twin_def mem_inv_def)
    ultimately have "load_page_dir parent_thread (m3\<lparr>cr3 := C\<rparr>) = Some (m3\<lparr>cr3 := C, cr3 := cr3 m\<rparr>)"
      by (rule load_dir)
    moreover have "cr3 m3 = cr3 m" using c13 by (simp add: copied_def)
    ultimately show ?thesis by simp
  qed
  have run: "copy_page child_thread parent_thread buf_page va m = Some m3"
    using ph(1) ld1 c(1) p2(1) ld2 by (simp add: copy_page_def PG_SIZE_def m1_def [symmetric] swap)
  have "phys m3 (h + 4 * k) = phys m (s + 4 * k)" if "k < 1024" for k
  proof -
    have "phys m3 (h + 4 * k) = phys m2 (B + 4 * k)" using p2(2) that by (simp add: m3_def)
    also have "\<dots> = phys m1 (B + 4 * k)" using c(8) frame_offset [OF B(1) that] by simp
    also have "\<dots> = phys m (s + 4 * k)" using ph(2) that by (simp add: m1_def)
    finally show ?thesis .
  qed
  moreover have "translate (m3\<lparr>cr3 := C\<rparr>) x = translate (m\<lparr>cr3 := C\<rparr>) x"
    if "4194304 \<le> x" "x < 0xFFC00000" "x div 4096 \<noteq> va div 4096" for x
    using t3(6) [of x] c(14) t1(6) [of x] that by simp
  moreover have "translate (m3\<lparr>cr3 := C\<rparr>) va = Some h" using t3(6) [of va] c(13) assms(9) by simp
  moreover have "h \<notin> own C B m3" using t3(3) c(11) by simp
  moreover have "room PF_USER m - 1 \<le> room PF_USER m3" "room PF_KERNEL m - 1 \<le> room PF_KERNEL m3"
    using c(17,18) m1(5) by (simp_all add: m3_def)
  ultimately show ?thesis using run t3(1) c13 c(10) m1(4) by (intro exI [of _ h] exI [of _ m3]) simp
qed

section \<open>All pages of the parent\<close>

text \<open>The loops over the bytes and bits copy the pages whose bits are set, one after the other.\<close>

fun copy_pages :: "nat \<Rightarrow> nat \<Rightarrow> nat \<Rightarrow> nat list \<Rightarrow> mem \<Rightarrow> mem option" where
  "copy_pages child_thread parent_thread buf_page [] m = Some m"
| "copy_pages child_thread parent_thread buf_page (va # vas) m =
     Option.bind (copy_page child_thread parent_thread buf_page va m) (copy_pages child_thread parent_thread buf_page vas)"

lemma copy_pages_append:
  "copy_pages c p b (xs @ ys) m = Option.bind (copy_pages c p b xs m) (copy_pages c p b ys)"
  by (induction xs arbitrary: m) (simp_all add: bind_assoc split: bind_split)

definition page_of :: "nat \<Rightarrow> nat \<Rightarrow> nat" where
  "page_of start n = add32 (mul32 n PG_SIZE) start"

lemma bit_mask: "j < 8 \<Longrightarrow> (push_bit j 1 AND b \<noteq> (0 :: byte)) = bit b j"
  using and_exp_eq_0_iff_not_bit [of b j] by (simp add: and.commute push_bit_eq_mult)

lemma copy_bits_pages:
  "k + n \<le> 8 \<Longrightarrow> copy_bits c p buf b start idx k n m =
     copy_pages c p buf (map (\<lambda>j. page_of start (idx * 8 + j)) (filter (bit b) [k..<k + n])) m"
proof (induction n arbitrary: k m)
  case (Suc n)
  have up: "[k..<k + Suc n] = k # [Suc k..<Suc k + n]" by (simp add: upt_rec)
  have mask: "(push_bit k 1 AND b \<noteq> 0) = bit b k" using bit_mask [of k b] Suc.prems by simp
  have "copy_bits c p buf b start idx (k + 1) n = copy_pages c p buf
      (map (\<lambda>j. page_of start (idx * 8 + j)) (filter (bit b) [Suc k..<Suc k + n]))"
    using Suc.IH [of "Suc k"] Suc.prems by (intro ext) simp
  then show ?case unfolding up copy_bits.simps mask by (simp add: page_of_def [symmetric])
qed simp

lemma copy_bytes_pages:
  "copy_bytes c p buf bs start idx m =
     copy_pages c p buf (map (\<lambda>k. page_of start (idx * 8 + k)) (filter (\<lambda>k. bit (bs ! (k div 8)) (k mod 8)) [0..<8 * length bs])) m"
proof (induction bs arbitrary: idx m)
  case (Cons b bs)
  let ?bit = "\<lambda>bs k. bit (bs ! (k div 8) :: byte) (k mod 8)"
  have up: "[0..<8 * length (b # bs)] = [0..<8] @ map (\<lambda>k. k + 8) [0..<8 * length bs]"
    using upt_add_eq_append [of 0 8 "8 * length bs"] by (simp add: map_add_upt add.commute)
  have low: "filter (?bit (b # bs)) [0..<8] = filter (bit b) [0..<8]" by (intro filter_cong) simp_all
  have high: "filter (?bit (b # bs)) (map (\<lambda>k. k + 8) ks) = map (\<lambda>k. k + 8) (filter (?bit bs) ks)" for ks
    by (induction ks) (simp_all add: div_add_self2)
  have pages: "map (\<lambda>k. page_of start (idx * 8 + k)) (filter (?bit (b # bs)) [0..<8 * length (b # bs)]) =
      map (\<lambda>k. page_of start (idx * 8 + k)) (filter (bit b) [0..<8])
      @ map (\<lambda>k. page_of start ((idx + 1) * 8 + k)) (filter (?bit bs) [0..<8 * length bs])"
    unfolding up filter_append map_append low high map_map by (simp add: o_def algebra_simps)
  have "copy_bytes c p buf bs start (idx + 1) = copy_pages c p buf
      (map (\<lambda>k. page_of start ((idx + 1) * 8 + k)) (filter (?bit bs) [0..<8 * length bs]))"
    using Cons.IH by (intro ext) simp
  moreover have "(if b \<noteq> 0 then copy_bits c p buf b start idx 0 8 m else Some m) =
      copy_pages c p buf (map (\<lambda>k. page_of start (idx * 8 + k)) (filter (bit b) [0..<8])) m"
    using copy_bits_pages [of 0 8 c p buf b start idx m] by simp
  ultimately show ?case unfolding pages copy_pages_append copy_bytes.simps by simp
qed simp

text \<open>What the child has at a page: a frame of its own with the words of the parent's.\<close>

definition page_copied :: "nat \<Rightarrow> nat \<Rightarrow> mem \<Rightarrow> mem \<Rightarrow> nat \<Rightarrow> bool" where
  "page_copied C B m m' va \<longleftrightarrow> (\<exists>s h. translate m va = Some s \<and> translate (m'\<lparr>cr3 := C\<rparr>) va = Some h
     \<and> h \<in> free_frames m \<and> h \<notin> own C B m' \<and> (\<forall>k < 1024. phys m' (h + 4 * k) = phys m (s + 4 * k)))"

definition to_copy :: "nat \<Rightarrow> nat \<Rightarrow> mem \<Rightarrow> nat \<Rightarrow> bool" where
  "to_copy C B m va \<longleftrightarrow> 4194304 \<le> va \<and> va < 0xC0000000 \<and> va mod 4096 = 0
     \<and> (\<exists>s. translate m va = Some s \<and> s \<notin> own C B m) \<and> translate (m\<lparr>cr3 := C\<rparr>) va = None"

lemma page_aligned_eq: "x mod 4096 = 0 \<Longrightarrow> y mod 4096 = 0 \<Longrightarrow> x div 4096 = y div (4096 :: nat) \<Longrightarrow> x = y"
  by (metis mult_div_mod_eq)

lemma copy_pages_runs:
  assumes "twin C B m" and "dir_at c C m" and "dir_at p (cr3 m) m"
    and "translate m buf = Some B" and "0xC0000000 \<le> buf" and "buf < 0xFFC00000" and "buf mod 4096 = 0"
    and "\<forall>va \<in> set vas. to_copy C B m va" and "distinct vas"
    and "length vas \<le> room PF_USER m" and "length vas \<le> room PF_KERNEL m"
  shows "\<exists>m'. copy_pages c p buf vas m = Some m' \<and> twin C B m' \<and> copied C B m m'
    \<and> (\<forall>va \<in> set vas. page_copied C B m m' va) \<and> inj_on (translate (m'\<lparr>cr3 := C\<rparr>)) (set vas)
    \<and> (\<forall>x. 4194304 \<le> x \<longrightarrow> x < 0xFFC00000 \<longrightarrow> (\<forall>va \<in> set vas. x div 4096 \<noteq> va div 4096) \<longrightarrow>
        translate (m'\<lparr>cr3 := C\<rparr>) x = translate (m\<lparr>cr3 := C\<rparr>) x)"
  using assms
proof (induction vas arbitrary: m)
  case Nil
  then show ?case by (simp add: copied_refl)
next
  case (Cons va vas)
  have va: "4194304 \<le> va" "va < 0xC0000000" "va mod 4096 = 0" "translate (m\<lparr>cr3 := C\<rparr>) va = None"
    using Cons.prems(8) by (simp_all add: to_copy_def)
  obtain s where s: "translate m va = Some s" "s \<notin> own C B m" using Cons.prems(8) by (auto simp: to_copy_def)
  have r: "0 < room PF_USER m" "0 < room PF_KERNEL m" using Cons.prems(10,11) by simp_all
  obtain h m1 where c: "copy_page c p buf va m = Some m1" "twin C B m1" "copied C B m m1"
      "h \<in> free_frames m" "h \<notin> own C B m1" "translate (m1\<lparr>cr3 := C\<rparr>) va = Some h"
      "\<forall>k < 1024. phys m1 (h + 4 * k) = phys m (s + 4 * k)"
      "\<forall>x. 4194304 \<le> x \<longrightarrow> x < 0xFFC00000 \<longrightarrow> x div 4096 \<noteq> va div 4096 \<longrightarrow>
        translate (m1\<lparr>cr3 := C\<rparr>) x = translate (m\<lparr>cr3 := C\<rparr>) x"
      "room PF_USER m - 1 \<le> room PF_USER m1" "room PF_KERNEL m - 1 \<le> room PF_KERNEL m1"
    using copy_page_runs [OF Cons.prems(1-7) va(1-3) s va(4) r] by (elim exE conjE) (rule that)
  note k = c(3) [unfolded copied_def]
  have other: "va2 div 4096 \<noteq> va div 4096" if "va2 \<in> set vas" for va2
    using that Cons.prems(8,9) va(3) page_aligned_eq [of va2 va] by (auto simp: to_copy_def)
  have todo: "to_copy C B m1 va2" if "va2 \<in> set vas" for va2
    using that Cons.prems(8) other [OF that] k c(8) unfolding to_copy_def by fastforce
  have t1: "translate m1 buf = Some B" using k Cons.prems(4,6) by simp
  have d1: "dir_at c C m1" "dir_at p (cr3 m1) m1"
    using copied_dir [OF c(3)] Cons.prems(2,3) k by simp_all
  obtain m' where m': "copy_pages c p buf vas m1 = Some m'" "twin C B m'" "copied C B m1 m'"
      "\<forall>va \<in> set vas. page_copied C B m1 m' va" "inj_on (translate (m'\<lparr>cr3 := C\<rparr>)) (set vas)"
      "\<forall>x. 4194304 \<le> x \<longrightarrow> x < 0xFFC00000 \<longrightarrow> (\<forall>va \<in> set vas. x div 4096 \<noteq> va div 4096) \<longrightarrow>
        translate (m'\<lparr>cr3 := C\<rparr>) x = translate (m1\<lparr>cr3 := C\<rparr>) x"
    using Cons.IH [OF c(2) d1 t1 Cons.prems(5-7)] todo Cons.prems(9-11) c(9,10) by fastforce
  note k' = m'(3) [unfolded copied_def]
  have hal: "h mod 4096 = 0" by (rule mapped_aligned [OF c(6) va(3)])
  have th: "translate (m'\<lparr>cr3 := C\<rparr>) va = Some h" using m'(6) other c(6) va(1,2) by fastforce
  have "phys m' (h + 4 * l) = phys m (s + 4 * l)" if "l < 1024" for l
    using k' frame_offset [OF hal that] c(5,7) that by simp
  then have first: "page_copied C B m m' va"
    unfolding page_copied_def using s(1) th c(4,5) k' by blast
  have rest: "page_copied C B m m' va2" if "va2 \<in> set vas" for va2
  proof -
    obtain s2 where s2: "translate m va2 = Some s2" "s2 \<notin> own C B m" "va2 mod 4096 = 0" "va2 < 0xC0000000"
      using Cons.prems(8) \<open>va2 \<in> set vas\<close> by (auto simp: to_copy_def)
    obtain h2 where h2: "translate (m'\<lparr>cr3 := C\<rparr>) va2 = Some h2" "h2 \<in> free_frames m1" "h2 \<notin> own C B m'"
        "\<forall>l < 1024. phys m' (h2 + 4 * l) = phys m1 (s2 + 4 * l)"
      using m'(4) \<open>va2 \<in> set vas\<close> s2(1,4) k by (fastforce simp: page_copied_def)
    have "phys m1 (s2 + 4 * l) = phys m (s2 + 4 * l)" if "l < 1024" for l
      using k s2(2) frame_offset [OF mapped_aligned [OF s2(1,3)] that] by simp
    then show ?thesis unfolding page_copied_def using s2(1) h2 k by (auto simp: subset_iff)
  qed
  have fresh: "translate (m'\<lparr>cr3 := C\<rparr>) va2 \<noteq> Some h" if "va2 \<in> set vas" for va2
    using m'(4) that c(5) by (auto simp: page_copied_def own_def)
  have "translate (m'\<lparr>cr3 := C\<rparr>) x = translate (m\<lparr>cr3 := C\<rparr>) x"
    if "4194304 \<le> x" "x < 0xFFC00000" "\<forall>va \<in> set (va # vas). x div 4096 \<noteq> va div 4096" for x
    using that m'(6) c(8) by simp
  moreover have "inj_on (translate (m'\<lparr>cr3 := C\<rparr>)) (set (va # vas))"
  proof -
    have "translate (m'\<lparr>cr3 := C\<rparr>) va \<notin> translate (m'\<lparr>cr3 := C\<rparr>) ` set vas"
      unfolding th using fresh by (metis imageE)
    then show ?thesis using m'(5) Cons.prems(9) by simp
  qed
  ultimately show ?case using c(1) m'(1,2) copied_trans [OF c(3) m'(3)] first rest
    by (intro exI [of _ m']) simp
qed

section \<open>Property\<close>

text \<open>The addresses of the pages that a pool of virtual addresses has handed out.\<close>

definition pages_in_use :: "virtual_pool \<Rightarrow> nat set" where
  "pages_in_use vp = {vaddr_start vp + 4096 * k |k. k < bm_size (bitmap_vaddr vp) \<and> bmbit (bitmap_vaddr vp) k}"

definition user_pool_ok :: "virtual_pool \<Rightarrow> bool" where
  "user_pool_ok vp \<longleftrightarrow> bm_wf (bitmap_vaddr vp) \<and> 4194304 \<le> vaddr_start vp \<and> vaddr_start vp mod 4096 = 0
     \<and> vaddr_start vp + 4096 * bm_size (bitmap_vaddr vp) \<le> 0xC0000000"

lemma copy_body_pages:
  assumes "vp = userprog_vaddr m p" and "user_pool_ok vp"
  shows "\<exists>vas. copy_body_stack3 c p buf m = copy_pages c p buf vas m \<and> set vas = pages_in_use vp \<and> distinct vas"
proof -
  let ?bm = "bitmap_vaddr vp" and ?start = "vaddr_start vp"
  let ?ks = "filter (bmbit ?bm) [0..<bm_size ?bm]"
  have wf: "bm_wf ?bm" and lim: "?start + 4096 * bm_size ?bm \<le> 0xC0000000" using assms(2) by (simp_all add: user_pool_ok_def)
  have page: "page_of ?start k = ?start + 4096 * k" if "k < bm_size ?bm" for k
    using lim that by (simp add: page_of_def mul32_def add32_def PG_SIZE_def)
  have "copy_body_stack3 c p buf m = copy_pages c p buf (map (page_of ?start) ?ks) m"
    using wf by (simp add: copy_body_stack3_def copy_bytes_pages assms(1) Let_def bm_wf_def bm_size_def bmbit_def [abs_def])
  moreover have "map (page_of ?start) ?ks = map (\<lambda>k. ?start + 4096 * k) ?ks"
    using page by (intro map_cong) simp_all
  moreover have "distinct (map (\<lambda>k. ?start + 4096 * k) ?ks)" by (simp add: distinct_map inj_on_def)
  moreover have "set (map (\<lambda>k. ?start + 4096 * k) ?ks) = pages_in_use vp" by (auto simp: pages_in_use_def)
  ultimately show ?thesis by (intro exI [of _ "map (\<lambda>k. ?start + 4096 * k) ?ks"]) simp
qed

text \<open>Where the loop starts: the directory of the child was just made by \<open>create_page_dir\<close>.\<close>

definition fork_ready :: "nat \<Rightarrow> nat \<Rightarrow> nat \<Rightarrow> nat \<Rightarrow> nat \<Rightarrow> mem \<Rightarrow> bool" where
  "fork_ready child_thread parent_thread C buf B m \<longleftrightarrow> mem_inv m \<and> words_ok m \<and> kernel_copy C m
     \<and> dir_at child_thread C m \<and> dir_at parent_thread (cr3 m) m
     \<and> translate m buf = Some B \<and> 0xC0000000 \<le> buf \<and> buf < 0xFFC00000 \<and> buf mod 4096 = 0
     \<and> B \<notin> table_frames m \<and> B \<noteq> C \<and> lock_idle (pool_lock (user_pool m)) \<and> running (mkern m) \<noteq> 0"

lemma mapped_not_free:
  assumes "mem_inv m" and "translate m va = Some s" and "va < 0xFFC00000" and "va mod 4096 = 0"
  shows "s \<notin> free_frames m"
proof -
  have "va div 4194304 < 1023" "va div 4096 mod 1024 < 1024" using assms(3) by simp_all
  then show ?thesis using assms by (auto simp: translate_walk mem_inv_def split: if_splits)
qed

lemma fork_ready_twin:
  assumes "fork_ready c p C buf B m"
  shows "twin C B m" and "own C B m = {C, B} \<union> free_frames m" and "x < 0xC0000000 \<Longrightarrow> translate (m\<lparr>cr3 := C\<rparr>) x = None"
proof -
  have f: "mem_inv m" "kernel_copy C m" "translate m buf = Some B" "buf < 0xFFC00000" "buf mod 4096 = 0"
    using assms by (simp_all add: fork_ready_def)
  have none: "child_tables C m = {}" using f(2) by (auto simp: child_tables_def kernel_copy_def)
  then show ow: "own C B m = {C, B} \<union> free_frames m" by (simp add: own_def)
  show "translate (m\<lparr>cr3 := C\<rparr>) x = None" if "x < 0xC0000000" by (rule kernel_copy_space(3) [OF f(2,1) that])
  have "B \<notin> free_frames m" by (rule mapped_not_free [OF f(1,3,4,5)])
  moreover have "B mod 4096 = 0" by (rule mapped_aligned [OF f(3,5)])
  moreover have "mem_inv (m\<lparr>cr3 := C\<rparr>)" by (rule kernel_copy_space(1) [OF f(2,1)])
  moreover have "table_frames m \<inter> free_frames m = {}" using f(1) by (simp add: mem_inv_def)
  ultimately show "twin C B m"
    using assms none ow unfolding fork_ready_def twin_def kernel_copy_def by auto
qed

text \<open>C19: \<open>copy_body_stack3\<close> gives the child a copy of the parent's memory: every page that the parent's
  address pool has handed out is mapped in the child's address space, each to a frame of its own that
  was free, with the words of the parent's page; nothing else of the user part is mapped. The
  parent's translations and the contents of all frames in use but the buffer and the child's
  directory stay as they are, and the invariant of the memory holds in both address spaces.\<close>

theorem copy_body_stack3_copies:
  assumes "fork_ready c p C buf B m" and "vp = userprog_vaddr m p" and "user_pool_ok vp"
    and "\<forall>va \<in> pages_in_use vp. \<exists>s. translate m va = Some s \<and> s \<noteq> B \<and> s \<noteq> C"
    and "card (pages_in_use vp) \<le> room PF_USER m" and "card (pages_in_use vp) \<le> room PF_KERNEL m"
  shows "\<exists>m'. copy_body_stack3 c p buf m = Some m' \<and> cr3 m' = cr3 m \<and> mem_inv m' \<and> mem_inv (m'\<lparr>cr3 := C\<rparr>)
    \<and> (\<forall>va \<in> pages_in_use vp. \<exists>s h. translate m va = Some s \<and> translate (m'\<lparr>cr3 := C\<rparr>) va = Some h
        \<and> h \<in> free_frames m - free_frames m' \<and> (\<forall>k < 1024. phys m' (h + 4 * k) = phys m (s + 4 * k)))
    \<and> inj_on (translate (m'\<lparr>cr3 := C\<rparr>)) (pages_in_use vp)
    \<and> (\<forall>x. 4194304 \<le> x \<longrightarrow> x < 0xC0000000 \<longrightarrow> x div 4096 * 4096 \<notin> pages_in_use vp \<longrightarrow> translate (m'\<lparr>cr3 := C\<rparr>) x = None)
    \<and> (\<forall>x < 4294967296. translate m' x = translate m x)
    \<and> (\<forall>a. frame a \<notin> {B, C} \<union> free_frames m \<longrightarrow> phys m' a = phys m a)"
proof -
  note tw = fork_ready_twin [OF assms(1)]
  have r: "dir_at c C m" "dir_at p (cr3 m) m" "translate m buf = Some B" "0xC0000000 \<le> buf" "buf < 0xFFC00000"
      "buf mod 4096 = 0" "mem_inv m"
    using assms(1) by (simp_all add: fork_ready_def)
  obtain vas where vas: "copy_body_stack3 c p buf m = copy_pages c p buf vas m" "set vas = pages_in_use vp" "distinct vas"
    using copy_body_pages [OF assms(2,3)] by blast
  have range: "4194304 \<le> va \<and> va < 0xC0000000 \<and> va mod 4096 = 0" if in_use: "va \<in> pages_in_use vp" for va
  proof -
    obtain k where k: "va = vaddr_start vp + 4096 * k" "k < bm_size (bitmap_vaddr vp)"
      using in_use by (auto simp: pages_in_use_def)
    moreover have "(vaddr_start vp + 4096 * k) mod 4096 = 0"
      using assms(3) by (simp add: user_pool_ok_def mod_add_eq)
    ultimately show ?thesis using assms(3) by (simp add: user_pool_ok_def)
  qed
  have todo: "\<forall>va \<in> set vas. to_copy C B m va"
  proof
    fix va assume "va \<in> set vas"
    then have va: "va \<in> pages_in_use vp" using vas(2) by simp
    obtain s where s: "translate m va = Some s" "s \<noteq> B" "s \<noteq> C" using assms(4) va by blast
    have "s \<notin> free_frames m" using mapped_not_free [OF r(7) s(1)] range [OF va] by simp
    then show "to_copy C B m va" unfolding to_copy_def using range [OF va] s tw(2,3) by simp
  qed
  have "length vas = card (pages_in_use vp)" using vas(2,3) distinct_card by metis
  then have room: "length vas \<le> room PF_USER m" "length vas \<le> room PF_KERNEL m" using assms(5,6) by simp_all
  obtain m' where m': "copy_pages c p buf vas m = Some m'" "twin C B m'" "copied C B m m'"
      "\<forall>va \<in> set vas. page_copied C B m m' va" "inj_on (translate (m'\<lparr>cr3 := C\<rparr>)) (set vas)"
      "\<forall>x. 4194304 \<le> x \<longrightarrow> x < 0xFFC00000 \<longrightarrow> (\<forall>va \<in> set vas. x div 4096 \<noteq> va div 4096) \<longrightarrow>
        translate (m'\<lparr>cr3 := C\<rparr>) x = translate (m\<lparr>cr3 := C\<rparr>) x"
    using copy_pages_runs [OF tw(1) r(1-6) todo vas(3) room] by (elim exE conjE) (rule that)
  have "translate (m'\<lparr>cr3 := C\<rparr>) x = None"
    if "4194304 \<le> x" "x < 0xC0000000" "x div 4096 * 4096 \<notin> pages_in_use vp" for x
  proof -
    have "x div 4096 \<noteq> va div 4096" if "va \<in> set vas" for va
      using range [of va] that vas(2) \<open>x div 4096 * 4096 \<notin> pages_in_use vp\<close> by (metis mod_0_imp_dvd dvd_div_mult_self)
    then show ?thesis using m'(6) tw(3) [of x] that(1,2) by simp
  qed
  moreover have "\<exists>s h. translate m va = Some s \<and> translate (m'\<lparr>cr3 := C\<rparr>) va = Some h
      \<and> h \<in> free_frames m - free_frames m' \<and> (\<forall>k < 1024. phys m' (h + 4 * k) = phys m (s + 4 * k))"
    if "va \<in> pages_in_use vp" for va
    using m'(4) vas(2) that by (fastforce simp: page_copied_def own_def)
  ultimately show ?thesis using vas m'(1,2,3,5) tw(2)
    by (intro exI [of _ m']) (simp add: twin_def copied_def insert_commute)
qed

text \<open>
  A process with one page at 0x8048000, in frame 0x105000; its directory is in frame 0x100000, the
  child's in 0x103000, the buffer in 0x104000, and the task structures in 0x106000 and 0x107000.
\<close>

definition fork_mem :: mem where
  "fork_mem = sample_mem\<lparr>phys := (phys sample_mem)(0x100080 := 0x102007, 0x102120 := 0x105007,
       0x101404 := 0x100007, 0x101408 := 0x103007, 0x10140C := 0x104007,
       0x101410 := 0x106007, 0x101414 := 0x107007, 0x106FD4 := 57, 0x106FEC := 0x8048000,
       0x103C00 := 0x101007, 0x103FFC := 0x103007, 0x105004 := 42),
     userprog_vaddr := (userprog_vaddr sample_mem)(0xC0104000 :=
       \<lparr>bitmap_vaddr = \<lparr>bitmap_byte_len = 1, bits = [1]\<rparr>, vaddr_start = 0x8048000\<rparr>),
     mkern := sample_kst\<lparr>tasks := [0xC0104000 \<mapsto> (sample_task TASK_RUNNING)\<lparr>pgdir := 0xC0101000\<rparr>,
       0xC0105000 \<mapsto> (sample_task TASK_READY)\<lparr>pgdir := 0xC0102000\<rparr>], running := 0xC0104000\<rparr>\<rparr>"

lemma fork_mem_fields:
  "cr3 fork_mem = 0x100000" "free_frames fork_mem = free_frames sample_mem" "pools_ok fork_mem"
  "lock_idle (pool_lock (user_pool fork_mem))" "room PF_USER fork_mem = 15" "room PF_KERNEL fork_mem = 15"
proof -
  show "free_frames fork_mem = free_frames sample_mem" by (simp add: fork_mem_def free_frames_def)
  show "pools_ok fork_mem" using sample_mem_ok(1) by (simp add: fork_mem_def mem_inv_def pools_ok_def)
  have "pool_bitmap (pool_of pf fork_mem) = pool_bitmap (pool_of PF_KERNEL sample_mem)" for pf
    by (cases pf) (simp_all add: fork_mem_def sample_mem_def)
  then show "room PF_USER fork_mem = 15" "room PF_KERNEL fork_mem = 15"
    using sample_mem_ok(6) by (simp_all only: room_def)
  show "lock_idle (pool_lock (user_pool fork_mem))"
    by (simp add: fork_mem_def sample_mem_def lock_idle_def lock_free_def lock_init_def seam_init_def)
qed (simp add: fork_mem_def sample_mem_def)

lemma fork_mem_pde: "i < 1024 \<Longrightarrow> pde_at fork_mem i =
    (if i = 1023 then 0x100007 else if i = 768 then 0x101007 else if i = 32 then 0x102007 else 0)"
  by (simp add: pde_at_def fork_mem_def sample_mem_def)

lemma fork_mem_pte:
  "j < 1024 \<Longrightarrow> pte_at fork_mem 768 j = (if j = 257 then 0x100007 else if j = 258 then 0x103007 else if j = 259 then 0x104007
     else if j = 260 then 0x106007 else if j = 261 then 0x107007 else 0)"
  "j < 1024 \<Longrightarrow> pte_at fork_mem 32 j = (if j = 72 then 0x105007 else 0)"
  unfolding pte_at_def fork_mem_pde [of 768, simplified] fork_mem_pde [of 32, simplified]
  by (simp_all add: fork_mem_def sample_mem_def frame_def)

lemma fork_mem_ready: "fork_ready 0xC0105000 0xC0104000 0x103000 0xC0103000 0x104000 fork_mem"
proof -
  have p: "present (pde_at fork_mem i) \<longleftrightarrow> i = 1023 \<or> i = 768 \<or> i = 32" if "i < 1024" for i
    using that by (simp add: fork_mem_pde present_def)
  have free: "f \<in> free_frames fork_mem \<Longrightarrow> 0x200000 \<le> f" for f
    unfolding fork_mem_fields(2) by (auto simp: free_frames_def free_in_def sample_mem_def)
  have "{i. i < 1023 \<and> present (pde_at fork_mem i)} = {768, 32}" by (auto simp: p)
  then have tf: "table_frames fork_mem = {0x100000, 0x101000, 0x102000}"
    by (simp add: table_frames_def fork_mem_pde fork_mem_fields(1) frame_def)
  have "mem_inv fork_mem"
    unfolding mem_inv_def
  proof (intro conjI allI impI)
    show "table_frames fork_mem \<inter> free_frames fork_mem = {}" using tf free by fastforce
    show "self_map fork_mem" by (simp add: self_map_def fork_mem_pde fork_mem_fields(1) present_def frame_def)
    fix i j
    show "i < 1023 \<Longrightarrow> present (pde_at fork_mem i) \<Longrightarrow> frame (pde_at fork_mem i) \<noteq> cr3 fork_mem"
      by (auto simp: p fork_mem_pde fork_mem_fields(1) frame_def)
    show "i < 1023 \<Longrightarrow> j < 1024 \<Longrightarrow> present (pde_at fork_mem i) \<Longrightarrow> present (pte_at fork_mem i j) \<Longrightarrow>
        frame (pte_at fork_mem i j) \<notin> free_frames fork_mem"
      using free [of "frame (pte_at fork_mem i j)"] by (auto simp: p fork_mem_pte frame_def split: if_splits)
    show "i < j \<Longrightarrow> j < 1023 \<Longrightarrow> present (pde_at fork_mem i) \<Longrightarrow> present (pde_at fork_mem j) \<Longrightarrow>
        frame (pde_at fork_mem i) = frame (pde_at fork_mem j) \<Longrightarrow> i = 0"
      by (auto simp: fork_mem_pde frame_def split: if_splits)
  qed (rule fork_mem_fields(3))
  moreover have "words_ok fork_mem" by (simp add: words_ok_def fork_mem_def sample_mem_def)
  moreover have "kernel_copy 0x103000 fork_mem"
    using free [of "0x103000"] unfolding kernel_copy_def tf
    by (auto simp: fork_mem_pde) (simp_all add: fork_mem_def sample_mem_def)
  moreover have tr: "translate fork_mem 0xC0101000 = Some 0x100000" "translate fork_mem 0xC0102000 = Some 0x103000"
      "translate fork_mem 0xC0103000 = Some 0x104000"
    by (simp_all add: translate_walk fork_mem_pde fork_mem_pte present_def frame_def)
  moreover have "dir_at 0xC0105000 0x103000 fork_mem" "dir_at 0xC0104000 (cr3 fork_mem) fork_mem"
    using tr by (simp_all add: dir_at_def fork_mem_fields(1)) (simp_all add: fork_mem_def)
  moreover have "running (mkern fork_mem) \<noteq> 0" by (simp add: fork_mem_def sample_kst_def)
  ultimately show ?thesis using tf fork_mem_fields(4) by (simp add: fork_ready_def)
qed

theorem copy_body_stack3_copies_witness:
  "\<exists>m' h. copy_body_stack3 0xC0105000 0xC0104000 0xC0103000 fork_mem = Some m'
     \<and> translate (m'\<lparr>cr3 := 0x103000\<rparr>) 0x8048000 = Some h \<and> phys m' (h + 4) = 42 \<and> h \<noteq> 0x105000"
proof -
  let ?vp = "userprog_vaddr fork_mem 0xC0104000"
  have vp: "?vp = \<lparr>bitmap_vaddr = \<lparr>bitmap_byte_len = 1, bits = [1]\<rparr>, vaddr_start = 0x8048000\<rparr>"
    by (simp add: fork_mem_def)
  have use: "pages_in_use ?vp = {0x8048000}"
    by (auto simp: pages_in_use_def vp bm_size_def bmbit_def bit_1_iff)
  have ok: "user_pool_ok ?vp" by (simp add: user_pool_ok_def vp bm_wf_def bm_size_def)
  have tr: "translate fork_mem 0x8048000 = Some 0x105000"
    by (simp add: translate_walk fork_mem_pde fork_mem_pte present_def frame_def)
  have mapped: "\<forall>va \<in> pages_in_use ?vp. \<exists>s. translate fork_mem va = Some s \<and> s \<noteq> 0x104000 \<and> s \<noteq> 0x103000"
    by (simp add: use tr)
  have room: "card (pages_in_use ?vp) \<le> room PF_USER fork_mem" "card (pages_in_use ?vp) \<le> room PF_KERNEL fork_mem"
    by (simp_all add: use fork_mem_fields)
  obtain m' where m': "copy_body_stack3 0xC0105000 0xC0104000 0xC0103000 fork_mem = Some m'"
      "\<forall>va \<in> pages_in_use ?vp. \<exists>s h. translate fork_mem va = Some s \<and> translate (m'\<lparr>cr3 := 0x103000\<rparr>) va = Some h
        \<and> h \<in> free_frames fork_mem - free_frames m' \<and> (\<forall>k < 1024. phys m' (h + 4 * k) = phys fork_mem (s + 4 * k))"
    using copy_body_stack3_copies [OF fork_mem_ready refl ok mapped room] by (elim exE conjE) (rule that)
  then obtain h where h: "translate (m'\<lparr>cr3 := 0x103000\<rparr>) 0x8048000 = Some h" "h \<in> free_frames fork_mem"
      "\<forall>k < 1024. phys m' (h + 4 * k) = phys fork_mem (0x105000 + 4 * k)"
    using tr use by auto
  have "phys fork_mem 0x105004 = 42" by (simp add: fork_mem_def)
  then have "phys m' (h + 4) = 42" using h(3) [rule_format, of 1] by simp
  moreover have "h \<noteq> 0x105000"
    using h(2) unfolding fork_mem_fields(2) by (auto simp: free_frames_def free_in_def sample_mem_def)
  ultimately show ?thesis using m'(1) h(1) by blast
qed

section \<open>The child's first return\<close>

lemma build_child_stack_runs:
  assumes "mem_inv (smem s)" and "translate (smem s) child = Some f" and "f \<notin> table_frames (smem s)"
    and "child mod 4096 = 0" and "child < 0xFFC00000" and "tasks (kst_of s) child = Some q"
  shows "\<exists>s' q'. build_child_stack child s = Some s' \<and> tasks (kst_of s') child = Some q' \<and> self_kstack q' = child + 4000
    \<and> phys (smem s') = (phys (smem s))(f + 4052 := 0, f + 4016 := code_addr s ''intr_exit'')
    \<and> cr3 (smem s') = cr3 (smem s) \<and> (\<forall>va < 4294967296. translate (smem s') va = translate (smem s) va)"
proof -
  let ?m = "smem s"
  let ?k = "(kst_of s)\<lparr>tasks := (tasks (kst_of s))(child \<mapsto> q\<lparr>self_kstack := child + 4000\<rparr>)\<rparr>"
  have sm: "self_map ?m" using assms(1) by (simp add: mem_inv_def)
  have f: "f mod 4096 = 0" by (rule mapped_aligned [OF assms(2,4)])
  define m1 where "m1 = ?m\<lparr>phys := (phys ?m)(f + 4 * 1013 := 0)\<rparr>"
  have t1: "translate m1 va = translate ?m va" if "va < 4294967296" for va
    unfolding m1_def by (rule set_word_page [OF sm f assms(3) _ that]) simp
  have st: "same_tables ?m m1"
    using frame_offset [OF f, of 1013] assms(3) by (auto simp: same_tables_def m1_def)
  have sm1: "self_map m1" by (rule same_tables_self [OF st sm])
  have nt1: "f \<notin> table_frames m1" using same_tables_frames [OF st sm] assms(3) by simp
  define m2 where "m2 = m1\<lparr>mkern := ?k\<rparr>"
  have e2: "translate m2 va = translate m1 va" "table_frames m2 = table_frames m1" "self_map m2 = self_map m1" for va
    by (simp_all add: m2_def translate_def table_frames_def self_map_def pde_at_def)
  define m3 where "m3 = m2\<lparr>phys := (phys m2)(f + 4 * 1004 := code_addr s ''intr_exit'')\<rparr>"
  have t3: "translate m3 va = translate ?m va" if "va < 4294967296" for va
    using set_word_page [of m2 f 1004 va] sm1 nt1 f e2 that t1 by (simp add: m3_def)
  have sp: "sub32 (add32 child PG_SIZE) 76 = child + 4020"
    using assms(5) by (simp add: sub32_small add32_small PG_SIZE_def)
  have w1: "wr_word (add32 (child + 4020) 32) 0 ?m = Some m1"
    using wr_word_page [OF assms(2,4), of 4052 0] assms(5) by (simp add: m1_def add32_small add.commute)
  have w2: "wr_word (sub32 (child + 4020) 4) (code_addr s ''intr_exit'') m2 = Some m3"
    using wr_word_page [of m2 child f 4016 "code_addr s ''intr_exit''"] e2 t1 [of child] assms(2,4,5)
    by (simp add: m3_def sub32_small add.commute)
  have bp: "sub32 (child + 4020) (5 * 4) = child + 4000" using assms(5) by (simp add: sub32_small)
  have up: "upd_task child (\<lambda>p. p\<lparr>self_kstack := child + 4000\<rparr>) (kst_of s) = Some ?k"
    using assms(6) by (simp add: upd_task_def)
  have km: "mkern m1 = kst_of s" by (simp add: m1_def)
  have "build_child_stack child s = Some (set_mem m3 (set_kst ?k (set_mem m1 s)))"
    by (simp only: build_child_stack_def on_mem_def on_kst_def Let_def sp w1 bp option.map Option.bind.simps sys_simps code_addr_simps
        km up m2_def [symmetric] w2)
  then show ?thesis using t3
    by (intro exI [of _ "set_mem m3 (set_kst ?k (set_mem m1 s))"] exI [of _ "q\<lparr>self_kstack := child + 4000\<rparr>"])
       (simp add: m3_def m2_def m1_def)
qed

text \<open>C20: After the parent's page was copied to the child's and \<open>build_child_stack\<close> has run, the child's
  kernel stack makes \<open>switch_to\<close> return to \<open>intr_exit\<close>, which then loads from the child's page the
  registers of the parent, with 0 as the result of the call; the parent's own frame is as it was.\<close>

theorem child_returns_0:
  assumes "mem_inv (smem s)" and "words_ok (smem s)" and "translate (smem s) parent = Some g"
    and "translate (smem s) child = Some f" and "f \<noteq> g" and "f \<notin> table_frames (smem s)"
    and "parent mod 4096 = 0" and "child mod 4096 = 0" and "0 < parent" and "parent < 0xFFC00000"
    and "0 < child" and "child < 0xFFC00000" and "tasks (kst_of s) child = Some q"
    and "intr_exit (parent + 4020) (smem s) = Some c"
  shows "\<exists>s1 s2 q'. on_mem (memcpy_words child parent (PG_SIZE div 4)) s = Some s1
    \<and> build_child_stack child s1 = Some s2 \<and> tasks (kst_of s2) child = Some q'
    \<and> rd_word (self_kstack q' + 4 * 4) (smem s2) = Some (code_addr s ''intr_exit'')
    \<and> intr_exit (self_kstack q' + 5 * 4) (smem s2) = Some (c\<lparr>r_eax := 0\<rparr>)
    \<and> intr_exit (parent + 4020) (smem s2) = Some c"
proof -
  let ?m = "smem s"
  have sm: "self_map ?m" using assms(1) by (simp add: mem_inv_def)
  have al: "f mod 4096 = 0" "g mod 4096 = 0"
    using mapped_aligned [OF assms(4,8)] mapped_aligned [OF assms(3,7)] by simp_all
  obtain ph where ph: "memcpy_words child parent 1024 ?m = Some (?m\<lparr>phys := ph\<rparr>)"
      "\<forall>k < 1024. ph (f + 4 * k) = phys ?m (g + 4 * k)" "\<forall>a. frame a \<noteq> f \<longrightarrow> ph a = phys ?m a"
    using copy_page_words [OF sm al assms(5) [symmetric] assms(6,8,7,4,3,11,12,9,10,2)] by (elim exE conjE) (rule that)
  define s1 where "s1 = set_mem (?m\<lparr>phys := ph\<rparr>) s"
  have s1: "smem s1 = ?m\<lparr>phys := ph\<rparr>" "kst_of s1 = kst_of s" "code_addr s1 = code_addr s"
    by (simp_all add: s1_def)
  have st: "same_tables ?m (smem s1)" using ph(3) assms(6) by (auto simp: same_tables_def s1)
  have inv1: "mem_inv (smem s1)" unfolding s1 by (rule same_tables_inv [OF assms(1) st [unfolded s1]])
  have t1: "translate (smem s1) va = translate ?m va" if "va < 4294967296" for va
    by (rule same_tables_translate [OF st sm that])
  have c1: "translate (smem s1) child = Some f" "f \<notin> table_frames (smem s1)" "tasks (kst_of s1) child = Some q"
    using t1 [of child] same_tables_frames [OF st sm] assms(4,6,12,13) s1(2) by simp_all
  obtain s2 q' where s2: "build_child_stack child s1 = Some s2" "tasks (kst_of s2) child = Some q'" "self_kstack q' = child + 4000"
      "phys (smem s2) = (phys (smem s1))(f + 4052 := 0, f + 4016 := code_addr s1 ''intr_exit'')"
      "\<forall>va < 4294967296. translate (smem s2) va = translate (smem s1) va"
    using build_child_stack_runs [OF inv1 c1(1,2) assms(8,12) c1(3)] by (elim exE conjE) (rule that)
  have t2: "translate (smem s2) child = Some f" "translate (smem s2) parent = Some g"
    using s2(5) t1 assms(3,4,10,12) by simp_all
  have fr: "frame (x + 4 * k) = x" if "x mod 4096 = 0" "k < 1024" for x k by (rule frame_offset [OF that])
  have w: "phys (smem s2) (f + 4020 + 4 * i) = (if i = 8 then 0 else phys ?m (g + 4020 + 4 * i))" if "i < 19" for i
    using ph(2) [rule_format, of "1005 + i"] that by (simp add: s2(4) s1 algebra_simps)
  have u: "phys (smem s2) (g + 4020 + 4 * i) = phys ?m (g + 4020 + 4 * i)" if "i < 19" for i
  proof -
    have "frame (g + 4020 + 4 * i) = g" using fr [OF al(2), of "1005 + i"] that by (simp add: algebra_simps)
    moreover have "frame (f + 4052) = f" "frame (f + 4016) = f" using fr [OF al(1), of 1013] fr [OF al(1), of 1004] by simp_all
    ultimately have "g + 4020 + 4 * i \<noteq> f + 4052" "g + 4020 + 4 * i \<noteq> f + 4016" "frame (g + 4020 + 4 * i) \<noteq> f"
      using assms(5) by metis+
    then show ?thesis using ph(3) by (simp add: s2(4) s1)
  qed
  have c: "c = frame_regs (\<lambda>i. phys ?m (g + 4020 + 4 * i))"
    using intr_exit_page [OF assms(3,7,10)] assms(14) by simp
  have "intr_exit (child + 4020) (smem s2) = Some (c\<lparr>r_eax := 0\<rparr>)"
    unfolding c intr_exit_page [OF t2(1) assms(8,12)] using w by (intro arg_cong [of _ _ Some] frame_regs_eq(2)) blast
  moreover have "intr_exit (parent + 4020) (smem s2) = Some c"
    unfolding c intr_exit_page [OF t2(2) assms(7,10)] using u by (intro arg_cong [of _ _ Some] frame_regs_eq(1)) blast
  moreover have "rd_word (child + 4016) (smem s2) = Some (code_addr s ''intr_exit'')"
    using translate_offset [OF assms(8), of 4016 "smem s2"] t2(1) s2(4) s1(3) by (simp add: rd_word_def)
  moreover have "on_mem (memcpy_words child parent (PG_SIZE div 4)) s = Some s1"
    using ph(1) by (simp add: on_mem_def s1_def PG_SIZE_def)
  ultimately show ?thesis using s2(1-3) by (intro exI [of _ s1] exI [of _ s2] exI [of _ q']) (simp add: add.commute)
qed

definition fork_sys :: sys where
  "fork_sys = \<lparr>sheap = \<lparr>hmem = fork_mem, arenas = (\<lambda>a. None), descs = (\<lambda>t. [])\<rparr>, sfs = sample_fs,
     pids = \<lparr>pid_bitmap = \<lparr>bitmap_byte_len = 128, bits = 7 # replicate 127 0\<rparr>, pid_start = 1, pid_lock = lock_init\<rparr>,
     vbits = (\<lambda>t. 0xC0106000), code_addr = (\<lambda>f. 0xC0001500)\<rparr>"

theorem child_returns_0_witness:
  "\<exists>s1 s2 q' c. on_mem (memcpy_words 0xC0105000 0xC0104000 (PG_SIZE div 4)) fork_sys = Some s1
     \<and> build_child_stack 0xC0105000 s1 = Some s2 \<and> tasks (kst_of s2) 0xC0105000 = Some q'
     \<and> intr_exit (self_kstack q' + 20) (smem s2) = Some c \<and> r_eax c = 0 \<and> r_eip c = 0x8048000"
proof -
  have m: "smem fork_sys = fork_mem" by (simp add: fork_sys_def smem_def)
  have ready: "mem_inv fork_mem" "words_ok fork_mem" using fork_mem_ready by (simp_all add: fork_ready_def)
  have tr: "translate fork_mem 0xC0104000 = Some 0x106000" "translate fork_mem 0xC0105000 = Some 0x107000"
    by (simp_all add: translate_walk fork_mem_pde fork_mem_pte present_def frame_def)
  have "{i. i < 1023 \<and> present (pde_at fork_mem i)} \<subseteq> {768, 32}"
    by (auto simp: fork_mem_pde present_def split: if_splits)
  then have nt: "0x107000 \<notin> table_frames fork_mem"
    by (auto simp: table_frames_def fork_mem_fields(1) fork_mem_pde frame_def)
  have q: "tasks (kst_of fork_sys) 0xC0105000 = Some ((sample_task TASK_READY)\<lparr>pgdir := 0xC0102000\<rparr>)"
    by (simp add: kst_of_def m) (simp add: fork_mem_def)
  let ?c = "frame_regs (\<lambda>i. phys fork_mem (0x106000 + 4020 + 4 * i))"
  have c: "intr_exit (0xC0104000 + 4020) fork_mem = Some ?c" by (rule intr_exit_page [OF tr(1)]) simp_all
  have "r_eip ?c = 0x8048000" by (simp add: frame_regs_def fork_mem_def)
  moreover obtain s1 s2 q' where "on_mem (memcpy_words 0xC0105000 0xC0104000 (PG_SIZE div 4)) fork_sys = Some s1"
      "build_child_stack 0xC0105000 s1 = Some s2" "tasks (kst_of s2) 0xC0105000 = Some q'"
      "intr_exit (self_kstack q' + 5 * 4) (smem s2) = Some (?c\<lparr>r_eax := 0\<rparr>)"
    using child_returns_0 [where s = fork_sys, unfolded m, OF ready tr _ nt _ _ _ _ _ _ q c] that by auto
  ultimately show ?thesis by (intro exI [of _ s1] exI [of _ s2] exI [of _ q'] exI [of _ "?c\<lparr>r_eax := 0\<rparr>"]) simp
qed

end
