(* ===== verification/Exec.thy ===== *)
theory Exec
  imports ForkSpace FileSys CString
begin

text \<open>
  Loading a program (\<open>userprog/exec.c\<close>): \<open>sys_exec\<close> opens an ELF file, checks its header, reads the
  loadable segments into kernel buffers, and only then copies them over the memory of the running
  process and leaves the kernel at the entry point. The local structures of the code are byte
  lists of their size; the three tables of addresses are pages of the kernel.
\<close>

section \<open>Bytes at virtual addresses\<close>

text \<open>The memory is made of words; a byte is part of the word at its aligned address.\<close>

definition rd_byte :: "nat \<Rightarrow> mem \<Rightarrow> byte option" where
  "rd_byte va m = map_option (\<lambda>w. of_nat (w div 256 ^ (va mod 4))) (rd_word (va - va mod 4) m)"

definition set_byte :: "nat \<Rightarrow> byte \<Rightarrow> nat \<Rightarrow> nat" where
  "set_byte k b w = w div 256 ^ Suc k * 256 ^ Suc k + unat b * 256 ^ k + w mod 256 ^ k"

definition wr_byte :: "nat \<Rightarrow> byte \<Rightarrow> mem \<Rightarrow> mem option" where
  "wr_byte va b m = do {
     w \<leftarrow> rd_word (va - va mod 4) m;
     wr_word (va - va mod 4) (set_byte (va mod 4) b w) m
   }"

fun memcpy_bytes :: "nat \<Rightarrow> nat \<Rightarrow> nat \<Rightarrow> mem \<Rightarrow> mem option" where
  "memcpy_bytes dst src 0 m = Some m"
| "memcpy_bytes dst src (Suc n) m = do {
     b \<leftarrow> rd_byte src m;
     m \<leftarrow> wr_byte dst b m;
     memcpy_bytes (add32 dst 1) (add32 src 1) n m
   }"

definition memcpy_user :: "nat \<Rightarrow> nat \<Rightarrow> nat \<Rightarrow> mem \<Rightarrow> mem option" where
  "memcpy_user dst src n m =
     (if n = 0 then Some m else do { _ \<leftarrow> ensure (dst \<noteq> 0 \<and> src \<noteq> 0); memcpy_bytes dst src n m })"

text \<open>Bytes that a system call stores in a buffer, and bytes and strings read from memory.\<close>

fun put_user :: "nat \<Rightarrow> byte list \<Rightarrow> mem \<Rightarrow> mem option" where
  "put_user va [] m = Some m"
| "put_user va (b # bs) m = Option.bind (wr_byte va b m) (put_user (add32 va 1) bs)"

fun get_user :: "nat \<Rightarrow> nat \<Rightarrow> mem \<Rightarrow> byte list option" where
  "get_user va 0 m = Some []"
| "get_user va (Suc n) m = do { b \<leftarrow> rd_byte va m; bs \<leftarrow> get_user (add32 va 1) n m; Some (b # bs) }"

partial_function (option) user_string :: "nat \<Rightarrow> mem \<Rightarrow> byte list option" where
  [code]: "user_string va m = do {
     b \<leftarrow> rd_byte va m;
     if b = 0 then Some [] else do { bs \<leftarrow> user_string (add32 va 1) m; Some (b # bs) }
   }"

section \<open>The ELF structures\<close>

definition rd16 :: "byte list \<Rightarrow> nat \<Rightarrow> nat" where
  "rd16 bs off = unat (bs ! off) + 256 * unat (bs ! (off + 1))"

record Elf32_Ehdr =
  e_ident :: "byte list"
  e_type :: nat
  e_machine :: nat
  e_version :: nat
  e_entry :: nat
  e_phoff :: nat
  e_shoff :: nat
  e_flags :: nat
  e_ehsize :: nat
  e_phentsize :: nat
  e_phnum :: nat
  e_shentsize :: nat
  e_shnum :: nat
  e_shstrndx :: nat

definition Elf32_Ehdr_size :: nat where "Elf32_Ehdr_size = 52"

definition ehdr_of_bytes :: "byte list \<Rightarrow> Elf32_Ehdr" where
  "ehdr_of_bytes bs = \<lparr>e_ident = take 16 bs, e_type = rd16 bs 16, e_machine = rd16 bs 18, e_version = rd32 bs 20,
     e_entry = rd32 bs 24, e_phoff = rd32 bs 28, e_shoff = rd32 bs 32, e_flags = rd32 bs 36, e_ehsize = rd16 bs 40,
     e_phentsize = rd16 bs 42, e_phnum = rd16 bs 44, e_shentsize = rd16 bs 46, e_shnum = rd16 bs 48,
     e_shstrndx = rd16 bs 50\<rparr>"

record Elf32_Phdr =
  p_type :: nat
  p_offset :: nat
  p_vaddr :: nat
  p_paddr :: nat
  p_filesz :: nat
  p_memsz :: nat
  p_flags :: nat
  p_align :: nat

definition Elf32_Phdr_size :: nat where "Elf32_Phdr_size = 32"

definition phdr_of_bytes :: "byte list \<Rightarrow> Elf32_Phdr" where
  "phdr_of_bytes bs = \<lparr>p_type = rd32 bs 0, p_offset = rd32 bs 4, p_vaddr = rd32 bs 8, p_paddr = rd32 bs 12,
     p_filesz = rd32 bs 16, p_memsz = rd32 bs 20, p_flags = rd32 bs 24, p_align = rd32 bs 28\<rparr>"

definition PT_LOAD :: nat where "PT_LOAD = 1"

text \<open>
  The check of the header. \<open>memcmp\<close> runs on a memory that holds the identification and the
  expected bytes, from address 1 and 17.
\<close>

definition elf_magic :: "byte list" where
  "elf_magic = [0x7f, 69, 76, 70, 1, 1, 1, 0]"

definition magic_mem :: "byte list \<Rightarrow> cmem" where
  "magic_mem ident = (\<lambda>a. if 1 \<le> a \<and> a \<le> 16 then Some (ident ! (a - 1))
     else if 17 \<le> a \<and> a < 25 then Some (elf_magic ! (a - 17)) else None)"

definition elf_header_bad :: "Elf32_Ehdr \<Rightarrow> bool option" where
  "elf_header_bad h = do {
     c \<leftarrow> memcmp 1 17 7 (magic_mem (e_ident h));
     Some (c \<noteq> 0 \<or> e_type h \<noteq> 2 \<or> e_machine h \<noteq> 3 \<or> e_version h \<noteq> 1 \<or> e_phnum h > 1024
       \<or> e_phentsize h \<noteq> Elf32_Phdr_size)
   }"

section \<open>Segments\<close>

text \<open>
  The global variables: three pages of words with the targets, the buffers and the sizes of the
  segments read so far, and their number.
\<close>

record loader =
  target_addr_array :: nat
  buffer_addr_array :: nat
  size_arrary :: nat
  addr_idx :: nat

definition read_file :: "int \<Rightarrow> nat \<Rightarrow> sys \<Rightarrow> (int \<times> byte list \<times> sys) option" where
  "read_file fd count s = map_option (\<lambda>((n, bs), s). (n, bs, s))
     (on_fs (\<lambda>g. map_option (\<lambda>(n, bs, g). ((n, bs), g)) (sys_read fd count g)) s)"

definition say :: "string \<Rightarrow> sys \<Rightarrow> sys option" where
  "say txt s = map_option snd (on_fs (sys_write stdout_no (map of_char txt)) s)"

text \<open>The pages the loop of \<open>segment_load\<close> goes through.\<close>

definition vaddr_fist_page :: "nat \<Rightarrow> nat" where
  "vaddr_fist_page vaddr = vaddr AND 0xfffff000"

definition occupy_pages :: "nat \<Rightarrow> nat \<Rightarrow> nat" where
  "occupy_pages vaddr filesz =
     (let size_in_fist_page = PG_SIZE - (vaddr AND 0x00000fff) in
      add32 (if filesz > size_in_fist_page then DIV_ROUND_UP (filesz - size_in_fist_page) PG_SIZE else 0) 1)"

fun map_segment :: "nat \<Rightarrow> nat \<Rightarrow> nat \<Rightarrow> nat \<Rightarrow> sys \<Rightarrow> (bool \<times> sys) option" where
  "map_segment fist page_idx vaddr_page 0 s = Some (True, s)"
| "map_segment fist page_idx vaddr_page (Suc n) s = do {
     pde \<leftarrow> rd_word (get_pde_ptr vaddr_page) (smem s);
     mapped \<leftarrow> (if pde AND 1 = 0 then Some False
                else map_option (\<lambda>pte. pte AND 1 \<noteq> 0) (rd_word (get_pte_ptr vaddr_page) (smem s)));
     (got, s) \<leftarrow> (if mapped then Some (True, s)
                 else map_option (\<lambda>(va, s). (va \<noteq> 0, s)) (on_mem_val (get_a_page PF_USER vaddr_page) s));
     if got then map_segment fist (page_idx + 1) (add32 vaddr_page PG_SIZE) n s
     else do {
       s \<leftarrow> say ''segment_load get_page error\<newline>'' s;
       s \<leftarrow> on_mem (mfree_page PF_USER fist page_idx) s;
       Some (False, s)
     }
   }"

definition segment_load :: "int \<Rightarrow> nat \<Rightarrow> nat \<Rightarrow> nat \<Rightarrow> loader \<Rightarrow> sys \<Rightarrow> (bool \<times> loader \<times> sys) option" where
  "segment_load fd offset filesz vaddr l s = do {
     (temp_buf, s) \<leftarrow> on_mem_val (get_kernel_pages (DIV_ROUND_UP filesz PG_SIZE)) s;
     _ \<leftarrow> ensure (temp_buf \<noteq> 0);
     (ok, s) \<leftarrow> map_segment (vaddr_fist_page vaddr) 0 (vaddr_fist_page vaddr) (occupy_pages vaddr filesz) s;
     if \<not> ok then Some (False, l, s)
     else do {
       (_, s) \<leftarrow> on_fs (sys_lseek fd (s32 offset) SEEK_SET) s;
       (read_sz, bs, s) \<leftarrow> read_file fd filesz s;
       s \<leftarrow> on_mem (put_user temp_buf bs) s;
       if read_sz \<noteq> s32 filesz then do {
         s \<leftarrow> say ''segment_load: read file size  fault\<newline>'' s;
         Some (False, l, s)
       } else do {
         s \<leftarrow> on_mem (wr_word (add32 (target_addr_array l) (mul32 4 (addr_idx l))) vaddr) s;
         s \<leftarrow> on_mem (wr_word (add32 (buffer_addr_array l) (mul32 4 (addr_idx l))) temp_buf) s;
         s \<leftarrow> on_mem (wr_word (add32 (size_arrary l) (mul32 4 (addr_idx l))) filesz) s;
         Some (True, l\<lparr>addr_idx := addr_idx l + 1\<rparr>, s)
       }
     }
   }"

fun load_segments :: "int \<Rightarrow> nat \<Rightarrow> nat \<Rightarrow> loader \<Rightarrow> sys \<Rightarrow> (bool \<times> loader \<times> sys) option" where
  "load_segments fd prog_header_offset 0 l s = Some (True, l, s)"
| "load_segments fd prog_header_offset (Suc n) l s = do {
     (_, s) \<leftarrow> on_fs (sys_lseek fd (s32 prog_header_offset) SEEK_SET) s;
     (m, bs, s) \<leftarrow> read_file fd Elf32_Phdr_size s;
     if m \<noteq> int Elf32_Phdr_size then Some (False, l, s)
     else do {
       let prog_header = phdr_of_bytes (put_bytes 0 bs (replicate Elf32_Phdr_size 0));
       (ok, l, s) \<leftarrow> (if p_type prog_header = PT_LOAD
                     then segment_load fd (p_offset prog_header) (p_filesz prog_header) (p_vaddr prog_header) l s
                     else Some (True, l, s));
       if \<not> ok then Some (False, l, s)
       else load_segments fd (add32 prog_header_offset Elf32_Phdr_size) n l s
     }
   }"

definition load_image :: "int \<Rightarrow> loader \<Rightarrow> sys \<Rightarrow> (int \<times> loader \<times> sys) option" where
  "load_image fd l s = do {
     (m, bs, s) \<leftarrow> read_file fd Elf32_Ehdr_size s;
     if m \<noteq> int Elf32_Ehdr_size then Some (- 1, l, s)
     else do {
       let elf_header = ehdr_of_bytes (put_bytes 0 bs (replicate Elf32_Ehdr_size 0));
       bad \<leftarrow> elf_header_bad elf_header;
       if bad then do {
         s \<leftarrow> say ''elf header faild\<newline>'' s;
         Some (- 1, l, s)
       } else do {
         (t, s) \<leftarrow> on_mem_val (get_kernel_pages 1) s;
         (b, s) \<leftarrow> on_mem_val (get_kernel_pages 1) s;
         (z, s) \<leftarrow> on_mem_val (get_kernel_pages 1) s;
         let l = \<lparr>target_addr_array = t, buffer_addr_array = b, size_arrary = z, addr_idx = 0\<rparr>;
         _ \<leftarrow> ensure (t \<noteq> 0 \<and> b \<noteq> 0 \<and> z \<noteq> 0);
         (ok, l, s) \<leftarrow> load_segments fd (e_phoff elf_header) (e_phnum elf_header) l s;
         Some (if ok then s32 (e_entry elf_header) else - 1, l, s)
       }
     }
   }"

abbreviation (input) O_READ :: nat where "O_READ \<equiv> 0"

definition load :: "path \<Rightarrow> loader \<Rightarrow> sys \<Rightarrow> (int \<times> loader \<times> sys) option" where
  "load pathname l s = do {
     (fd, s) \<leftarrow> on_fs (sys_open pathname O_READ) s;
     if fd = - 1 then Some (- 1, l, s)
     else do {
       (ret, l, s) \<leftarrow> load_image fd l s;
       (_, s) \<leftarrow> on_fs (sys_close fd) s;
       Some (ret, l, s)
     }
   }"

section \<open>The new image\<close>

partial_function (option) count_args :: "nat \<Rightarrow> nat \<Rightarrow> mem \<Rightarrow> nat option" where
  [code]: "count_args argv argc m =
     (if argv = 0 then Some argc
      else do {
        w \<leftarrow> rd_word (add32 argv (mul32 4 argc)) m;
        if w \<noteq> 0 then count_args argv (add32 argc 1) m else Some argc
      })"

fun install_segments :: "loader \<Rightarrow> nat \<Rightarrow> nat \<Rightarrow> mem \<Rightarrow> mem option" where
  "install_segments l m_idx 0 m = Some m"
| "install_segments l m_idx (Suc n) m = do {
     t \<leftarrow> rd_word (add32 (target_addr_array l) (4 * m_idx)) m;
     b \<leftarrow> rd_word (add32 (buffer_addr_array l) (4 * m_idx)) m;
     z \<leftarrow> rd_word (add32 (size_arrary l) (4 * m_idx)) m;
     m \<leftarrow> memcpy_user t b z m;
     b \<leftarrow> rd_word (add32 (buffer_addr_array l) (4 * m_idx)) m;
     m \<leftarrow> mfree_page PF_KERNEL b 1 m;
     install_segments l (u16 (m_idx + 1)) n m
   }"

text \<open>
  The name is read from the address of the path after the segments were written. The stack
  pointer goes into the word of the frame that \<open>popad\<close> skips.
\<close>

definition enter_program :: "nat \<Rightarrow> nat \<Rightarrow> nat \<Rightarrow> int \<Rightarrow> sys \<Rightarrow> (cpu \<times> sys) option" where
  "enter_program path argv argc entry_point s = do {
     let cur = get_running_thread_pcb (kst_of s);
     bs \<leftarrow> get_user path TASK_NAME_LEN (smem s);
     s \<leftarrow> on_kst (upd_task cur (\<lambda>p. p\<lparr>tname := map (char_of \<circ> unat) (takeWhile (\<lambda>b. b \<noteq> 0) (take (TASK_NAME_LEN - 1) bs))\<rparr>)) s;
     let intr_0_stack = sub32 (add32 cur PG_SIZE) 76;
     s \<leftarrow> on_mem (wr_words intr_0_stack [(20, argv), (28, argc), (56, of_s32 entry_point), (16, 0xc0000000)]) s;
     c \<leftarrow> intr_exit intr_0_stack (smem s);
     Some (c, s)
   }"

text \<open>The result is -1, or the registers with which the program starts.\<close>

definition sys_exec :: "nat \<Rightarrow> nat \<Rightarrow> loader \<Rightarrow> sys \<Rightarrow> ((int + cpu) \<times> loader \<times> sys) option" where
  "sys_exec path argv l s = do {
     argc \<leftarrow> count_args argv 0 (smem s);
     pathname \<leftarrow> user_string path (smem s);
     (entry_point, l, s) \<leftarrow> load pathname l s;
     if entry_point = - 1 then Some (Inl (- 1), l, s)
     else do {
       s \<leftarrow> on_mem (install_segments l 0 (addr_idx l)) s;
       let l = l\<lparr>addr_idx := 0\<rparr>;
       s \<leftarrow> on_mem (mfree_page PF_KERNEL (target_addr_array l) 1) s;
       s \<leftarrow> on_mem (mfree_page PF_KERNEL (buffer_addr_array l) 1) s;
       s \<leftarrow> on_mem (mfree_page PF_KERNEL (size_arrary l) 1) s;
       (c, s) \<leftarrow> enter_program path argv argc entry_point s;
       Some (Inr c, l, s)
     }
   }"

section \<open>Properties\<close>

lemma magic_memcmp:
  assumes "length ident = 16"
  shows "memcmp 1 17 7 (magic_mem ident) = Some (if ident ! 0 = 0x7f then 0 else if uint (ident ! 0) > 127 then 1 else - 1)"
  using memcmp_loop_first [of "magic_mem ident" 1 "ident ! 0" 17 "0x7f" 0 7] assms
  by (simp add: memcmp_def magic_mem_def elf_magic_def)

text \<open>Of the seven bytes that identify an ELF file only the first one is compared: a file is loaded
  when it starts with 0x7f and has the right type, machine, version and sizes, whatever its other
  identification bytes are.\<close>

theorem elf_check_first_byte:
  assumes "length (e_ident h) = 16"
  shows "elf_header_bad h = Some (e_ident h ! 0 \<noteq> 0x7f \<or> e_type h \<noteq> 2 \<or> e_machine h \<noteq> 3 \<or> e_version h \<noteq> 1
    \<or> 1024 < e_phnum h \<or> e_phentsize h \<noteq> 32)"
  using magic_memcmp [OF assms] by (simp add: elf_header_bad_def Elf32_Phdr_size_def)

theorem elf_check_first_byte_witness:
  "elf_header_bad \<lparr>e_ident = 0x7f # replicate 15 1, e_type = 2, e_machine = 3, e_version = 1, e_entry = 0x8048000,
     e_phoff = 52, e_shoff = 0, e_flags = 0, e_ehsize = 52, e_phentsize = 32, e_phnum = 1, e_shentsize = 0,
     e_shnum = 0, e_shstrndx = 0\<rparr> = Some False"
  using elf_check_first_byte [of "\<lparr>e_ident = 0x7f # replicate 15 1, e_type = 2, e_machine = 3, e_version = 1,
     e_entry = 0x8048000, e_phoff = 52, e_shoff = 0, e_flags = 0, e_ehsize = 52, e_phentsize = 32, e_phnum = 1,
     e_shentsize = 0, e_shnum = 0, e_shstrndx = 0\<rparr>"]
  by simp

lemma page_masks:
  assumes "x < 4294967296"
  shows "x AND 0xfffff000 = x div 4096 * 4096" and "x AND 0x00000fff = x mod (4096 :: nat)"
proof -
  show "x AND 0xfffff000 = x div 4096 * 4096" using and_frame [OF assms] by (simp add: frame_def)
  have "(mask 12 :: nat) = 0xfff" by (simp add: mask_eq_exp_minus_1)
  then have "x AND 0x00000fff = take_bit 12 x" using take_bit_eq_mask [of 12 x] by simp
  then show "x AND 0x00000fff = x mod 4096" by (simp add: take_bit_eq_mod)
qed

text \<open>The pages that \<open>segment_load\<close> makes available are exactly the pages with an address of the
  segment, at any alignment (and one page for an empty segment).\<close>

theorem segment_pages_cover:
  assumes "vaddr + filesz \<le> 4294963200"
  shows "{vaddr_fist_page vaddr div 4096 + i |i. i < occupy_pages vaddr filesz}
    = insert (vaddr div 4096) {a div 4096 |a. vaddr \<le> a \<and> a < vaddr + filesz}"
proof -
  define q r where "q = vaddr div 4096" and "r = vaddr mod 4096"
  have v: "vaddr = 4096 * q + r" "r < 4096" by (simp_all add: q_def r_def)
  have lim: "vaddr < 4294967296" "filesz < 4294967296" using assms by simp_all
  have first: "vaddr_fist_page vaddr div 4096 = q"
    using page_masks(1) [OF lim(1)] by (simp add: vaddr_fist_page_def q_def)
  have occ: "occupy_pages vaddr filesz = (if r + filesz > 4096 then (r + filesz - 4096 + 4095) div 4096 else 0) + 1"
  proof (cases "filesz > 4096 - r")
    case True
    let ?d = "DIV_ROUND_UP (filesz - (4096 - r)) 4096"
    have d: "?d = (r + filesz - 4096 + 4095) div 4096"
      using DIV_ROUND_UP_ceiling [of 4096 "filesz - (4096 - r)"] True lim v(2) assms by (simp add: v(1))
    have "?d \<le> (4294967296 + 8191) div 4096" unfolding d using lim v(2) by (intro div_le_mono) simp
    then have "add32 ?d 1 = ?d + 1" by (simp add: add32_small)
    moreover have "r + filesz > 4096" using True v(2) by simp
    ultimately show ?thesis
      using True page_masks(2) [OF lim(1)] d by (simp add: occupy_pages_def PG_SIZE_def r_def [symmetric])
  next
    case False
    then show ?thesis
      using page_masks(2) [OF lim(1)] v(2) by (simp add: occupy_pages_def PG_SIZE_def r_def [symmetric] add32_small)
  qed
  show ?thesis
  proof (cases "filesz = 0")
    case True
    then show ?thesis using first occ v(2) by (auto simp: q_def)
  next
    case False
    then have n: "occupy_pages vaddr filesz = (r + filesz - 1) div 4096 + 1"
    proof (cases "r + filesz > 4096")
      case True
      have "(r + filesz - 4096 + 4095) div 4096 = (r + filesz - 1) div 4096"
        using True by (intro arg_cong [of _ _ "\<lambda>x. x div 4096"]) simp
      then show ?thesis using occ True by simp
    next
      case False
      then have "(r + filesz - 1) div 4096 = 0" using \<open>filesz \<noteq> 0\<close> by simp
      then show ?thesis using occ False by simp
    qed
    have "x \<in> {q + i |i. i < occupy_pages vaddr filesz} \<longleftrightarrow> x \<in> {a div 4096 |a. vaddr \<le> a \<and> a < vaddr + filesz}" for x
    proof
      assume "x \<in> {q + i |i. i < occupy_pages vaddr filesz}"
      then obtain i where i: "x = q + i" "i \<le> (r + filesz - 1) div 4096" using n by auto
      let ?a = "max vaddr (4096 * x)"
      have "4096 * i \<le> r + filesz - 1" using i(2) by (metis mult_le_mono2 order.trans times_div_less_eq_dividend)
      then have "4096 * x < vaddr + filesz" using False i(1) v(1) by simp
      moreover have "?a div 4096 = x"
      proof (cases "4096 * x \<le> vaddr")
        case True
        then have "x = q" using i(1) v by simp
        then show ?thesis using True by (simp add: max_def q_def)
      qed (simp add: max_def)
      ultimately show "x \<in> {a div 4096 |a. vaddr \<le> a \<and> a < vaddr + filesz}" using False
        by (intro CollectI exI [of _ ?a]) simp
    next
      assume "x \<in> {a div 4096 |a. vaddr \<le> a \<and> a < vaddr + filesz}"
      then obtain a where a: "x = a div 4096" "vaddr \<le> a" "a < vaddr + filesz" by auto
      have "q \<le> x" unfolding a(1) q_def by (rule div_le_mono [OF a(2)])
      moreover have "a div 4096 \<le> (4096 * q + (r + filesz - 1)) div 4096" using a(3) v(1) by (intro div_le_mono) simp
      then have "x \<le> q + (r + filesz - 1) div 4096" using a(1) by simp
      ultimately show "x \<in> {q + i |i. i < occupy_pages vaddr filesz}" using n
        by (intro CollectI exI [of _ "x - q"]) simp
    qed
    moreover have "vaddr div 4096 \<in> {a div 4096 |a. vaddr \<le> a \<and> a < vaddr + filesz}" using False by auto
    ultimately show ?thesis using first by blast
  qed
qed

theorem segment_pages_cover_witness:
  "{vaddr_fist_page 0x8048FFF div 4096 + i |i. i < occupy_pages 0x8048FFF 2} = {0x8048, 0x8049}"
proof -
  have "{a div 4096 |a. c \<le> a \<and> a < c + 2} = {c div 4096, (c + 1) div 4096}" for c :: nat
  proof -
    have "{a div 4096 |a. c \<le> a \<and> a < c + 2} = (\<lambda>a. a div 4096) ` {c, c + 1}" by (auto simp: image_iff less_Suc_eq_le le_Suc_eq)
    then show ?thesis by simp
  qed
  from this [of "0x8048FFF"] have "{a div 4096 |a. (0x8048FFF :: nat) \<le> a \<and> a < 0x8048FFF + 2} = {0x8048, 0x8049}" by simp
  then show ?thesis using segment_pages_cover [of "0x8048FFF" 2] by (simp add: insert_absorb)
qed

text \<open>Writing a word of a page that is not a page table.\<close>

lemma wr_words_within:
  assumes "self_map m" and "translate m base = Some f" and "f \<notin> table_frames m" and "base mod 4096 = 0"
    and "base < 0xFFC00000" and "off mod 4 = 0" and "\<forall>(b, v) \<in> set ws. b mod 4 = 0 \<and> off + b < 4096"
  shows "\<exists>ph. wr_words (base + off) ws m = Some (m\<lparr>phys := ph\<rparr>)
    \<and> ph = foldl (\<lambda>ph (b, v). ph(f + off + b := v)) (phys m) ws
    \<and> (\<forall>va < 4294967296. translate (m\<lparr>phys := ph\<rparr>) va = translate m va)
    \<and> same_tables m (m\<lparr>phys := ph\<rparr>)"
  using assms
proof (induction ws arbitrary: m)
  case Nil
  then show ?case by (intro exI [of _ "phys m"]) (simp add: wr_words_def same_tables_def)
next
  case (Cons w ws)
  obtain b v where w: "w = (b, v)" by (cases w)
  have b: "b mod 4 = 0" "off + b < 4096" using Cons.prems(7) w by auto
  then obtain j where j: "off + b = 4 * j" "j < 1024" by (intro that [of "off div 4 + b div 4"]) (use Cons.prems(6) in auto)
  have f: "f mod 4096 = 0" by (rule mapped_aligned [OF Cons.prems(2,4)])
  let ?m = "m\<lparr>phys := (phys m)(f + 4 * j := v)\<rparr>"
  have "wr_word (base + (off + b)) v m = Some (m\<lparr>phys := (phys m)(f + (off + b) := v)\<rparr>)"
    by (rule wr_word_page [OF Cons.prems(2,4)]) (use b in simp)
  then have step: "wr_word (add32 (base + off) b) v m = Some ?m"
    using Cons.prems(5) b(2) j(1) by (simp add: add32_small add.assoc)
  have t: "translate ?m va = translate m va" if "va < 4294967296" for va
    by (rule set_word_page [OF Cons.prems(1) f Cons.prems(3) j(2) that])
  have st: "same_tables m ?m"
    using frame_offset [OF f j(2)] Cons.prems(3) by (auto simp: same_tables_def)
  have sm: "self_map ?m" by (rule same_tables_self [OF st Cons.prems(1)])
  have nt: "f \<notin> table_frames ?m" using same_tables_frames [OF st Cons.prems(1)] Cons.prems(3) by simp
  have tb: "translate ?m base = Some f" using t [of base] Cons.prems(2,5) by simp
  have rest: "\<forall>(b, v) \<in> set ws. b mod 4 = 0 \<and> off + b < 4096" using Cons.prems(7) by simp
  obtain ph where ph: "wr_words (base + off) ws ?m = Some (?m\<lparr>phys := ph\<rparr>)"
      "ph = foldl (\<lambda>ph (b, v). ph(f + off + b := v)) (phys ?m) ws"
      "\<forall>va < 4294967296. translate (?m\<lparr>phys := ph\<rparr>) va = translate ?m va"
      "same_tables ?m (?m\<lparr>phys := ph\<rparr>)"
    using Cons.IH [OF sm tb nt Cons.prems(4,5,6) rest] by (elim exE conjE) (rule that)
  have "wr_words (base + off) (w # ws) m = wr_words (base + off) ws ?m"
    using step by (simp add: wr_words_def w)
  then have "wr_words (base + off) (w # ws) m = Some (m\<lparr>phys := ph\<rparr>)" using ph(1) by simp
  moreover have "ph = foldl (\<lambda>ph (b, v). ph(f + off + b := v)) (phys m) (w # ws)"
  proof -
    have "f + 4 * j = f + off + b" using j(1) by simp
    then have "phys ?m = (phys m)(f + off + b := v)" by (simp add: add.assoc)
    then show ?thesis unfolding ph(2) w foldl.simps prod.case by (rule arg_cong)
  qed
  moreover have "\<forall>va < 4294967296. translate (m\<lparr>phys := ph\<rparr>) va = translate m va" using ph(3) t by simp
  moreover have "same_tables m (m\<lparr>phys := ph\<rparr>)"
    using st ph(4) same_tables_frames [OF st Cons.prems(1)] by (simp add: same_tables_def)
  ultimately show ?case by blast
qed

lemmas wr_words_page = wr_words_within [where off = 4020, simplified]

text \<open>C22: When the image is in place, the process goes on at the entry point with \<open>argv\<close> and \<open>argc\<close> in
  its registers and everything else as the caller of \<open>exec\<close> had it: also the stack pointer, because
  the new one is stored in the word of the frame that is skipped.\<close>

theorem exec_keeps_stack:
  assumes "mem_inv (smem s)" and "cur = running (kst_of s)" and "translate (smem s) cur = Some f"
    and "f \<notin> table_frames (smem s)" and "cur mod 4096 = 0" and "cur < 0xFFC00000"
    and "get_user path TASK_NAME_LEN (smem s) = Some bs" and "tasks (kst_of s) cur = Some p"
    and "intr_exit (cur + 4020) (smem s) = Some c" and "0 \<le> entry_point" and "entry_point < 4294967296"
  shows "\<exists>c' s'. enter_program path argv argc entry_point s = Some (c', s')
    \<and> c' = c\<lparr>r_ebx := argv, r_ecx := argc, r_eip := nat entry_point\<rparr> \<and> r_esp c' = r_esp c"
proof -
  let ?k = "(kst_of s)\<lparr>tasks := (tasks (kst_of s))(cur \<mapsto> p\<lparr>tname := map (char_of \<circ> unat) (takeWhile (\<lambda>b. b \<noteq> 0) (take (TASK_NAME_LEN - 1) bs))\<rparr>)\<rparr>"
  let ?ws = "[(20, argv), (28, argc), (56, of_s32 entry_point), (16, 0xc0000000)]"
  define m where "m = (smem s)\<lparr>mkern := ?k\<rparr>"
  have same: "translate m va = translate (smem s) va" "table_frames m = table_frames (smem s)"
      "self_map m = self_map (smem s)" "phys m = phys (smem s)" for va
    by (simp_all add: m_def translate_def table_frames_def self_map_def pde_at_def)
  have sm: "self_map m" using assms(1) same(3) by (simp add: mem_inv_def)
  have tc: "translate m cur = Some f" "f \<notin> table_frames m" using assms(3,4) same by simp_all
  obtain ph where ph: "wr_words (cur + 4020) ?ws m = Some (m\<lparr>phys := ph\<rparr>)"
      "ph = foldl (\<lambda>ph (b, v). ph(f + 4020 + b := v)) (phys m) ?ws"
      "\<forall>va < 4294967296. translate (m\<lparr>phys := ph\<rparr>) va = translate m va"
    using wr_words_page [OF sm tc assms(5,6), of ?ws] by auto
  have t2: "translate (m\<lparr>phys := ph\<rparr>) cur = Some f" using ph(3) tc(1) assms(6) by simp
  have c: "c = frame_regs (\<lambda>i. phys (smem s) (f + 4020 + 4 * i))"
    using intr_exit_page [OF assms(3,5,6)] assms(9) by simp
  have "intr_exit (cur + 4020) (m\<lparr>phys := ph\<rparr>) = Some (frame_regs (\<lambda>i. ph (f + 4020 + 4 * i)))"
    using intr_exit_page [OF t2 assms(5,6)] by simp
  also have "frame_regs (\<lambda>i. ph (f + 4020 + 4 * i)) = c\<lparr>r_ebx := argv, r_ecx := argc, r_eip := nat entry_point\<rparr>"
    using assms(10,11) by (simp add: frame_regs_def c ph(2) same(4))
  finally have exit: "intr_exit (cur + 4020) (m\<lparr>phys := ph\<rparr>) = Some (c\<lparr>r_ebx := argv, r_ecx := argc, r_eip := nat entry_point\<rparr>)" .
  have sp: "sub32 (add32 cur PG_SIZE) 76 = cur + 4020"
    using assms(6) by (simp add: sub32_small add32_small PG_SIZE_def)
  have up: "upd_task cur (\<lambda>p. p\<lparr>tname := map (char_of \<circ> unat) (takeWhile (\<lambda>b. b \<noteq> 0) (take (TASK_NAME_LEN - 1) bs))\<rparr>) (kst_of s) = Some ?k"
    using assms(8) by (simp add: upd_task_def)
  have "enter_program path argv argc entry_point s = Some (c\<lparr>r_ebx := argv, r_ecx := argc, r_eip := nat entry_point\<rparr>,
      set_mem (m\<lparr>phys := ph\<rparr>) (set_kst ?k s))"
    using assms(7) by (simp only: enter_program_def Let_def get_running_thread_pcb_def assms(2) [symmetric] assms(7)
        on_kst_def on_mem_def up option.map Option.bind.simps sys_simps m_def [symmetric] sp ph(1) exit)
  then show ?thesis by simp
qed

lemma get_user_page:
  assumes "translate m base = Some f" and "base mod 4096 = 0" and "base < 0xFFC00000"
  shows "b + n \<le> 4096 \<Longrightarrow> \<exists>bs. get_user (base + b) n m = Some bs"
proof (induction n arbitrary: b)
  case (Suc n)
  have "base mod 4 = 0" using assms(2) mod_mod_cancel [of 4 4096 base] by simp
  then have low: "(base + b) mod 4 = b mod 4" by (metis add_0 mod_add_left_eq)
  have "translate m (base + (b - b mod 4)) = Some (f + (b - b mod 4))"
    using translate_offset [OF assms(2), of "b - b mod 4" m] assms(1) Suc.prems by simp
  then have "\<exists>c. rd_byte (base + b) m = Some c"
    by (simp add: rd_byte_def rd_word_def low)
  moreover have "\<exists>bs. get_user (base + (b + 1)) n m = Some bs" by (rule Suc.IH) (use Suc.prems in simp)
  moreover have "add32 (base + b) 1 = base + (b + 1)" using assms(3) Suc.prems by (simp add: add32_small)
  ultimately show ?case by auto
qed simp

theorem exec_keeps_stack_witness:
  "\<exists>c s'. enter_program 0x8048004 0x8048100 1 0x8048200 fork_sys = Some (c, s')
     \<and> r_eip c = 0x8048200 \<and> r_ecx c = 1 \<and> r_esp c = 0"
proof -
  have m: "smem fork_sys = fork_mem" by (simp add: fork_sys_def smem_def)
  have inv: "mem_inv fork_mem" using fork_mem_ready by (simp add: fork_ready_def)
  have tr: "translate fork_mem 0xC0104000 = Some 0x106000" "translate fork_mem 0x8048000 = Some 0x105000"
    by (simp_all add: translate_walk fork_mem_pde fork_mem_pte present_def frame_def)
  have "{i. i < 1023 \<and> present (pde_at fork_mem i)} \<subseteq> {768, 32}"
    by (auto simp: fork_mem_pde present_def split: if_splits)
  then have nt: "0x106000 \<notin> table_frames fork_mem"
    by (auto simp: table_frames_def fork_mem_fields(1) fork_mem_pde frame_def)
  have k: "running (kst_of fork_sys) = 0xC0104000"
      "tasks (kst_of fork_sys) 0xC0104000 = Some ((sample_task TASK_RUNNING)\<lparr>pgdir := 0xC0101000\<rparr>)"
    by (simp_all add: kst_of_def m) (simp_all add: fork_mem_def)
  obtain bs where bs: "get_user 0x8048004 TASK_NAME_LEN fork_mem = Some bs"
    using get_user_page [OF tr(2), of 4 TASK_NAME_LEN] by (auto simp: TASK_NAME_LEN_def)
  let ?c = "frame_regs (\<lambda>i. phys fork_mem (0x106000 + 4020 + 4 * i))"
  have c: "intr_exit (0xC0104000 + 4020) fork_mem = Some ?c" by (rule intr_exit_page [OF tr(1)]) simp_all
  have "r_esp ?c = 0" by (simp add: frame_regs_def fork_mem_def Paging.sample_mem_def)
  then show ?thesis
    using exec_keeps_stack [where s = fork_sys, unfolded m, OF inv k(1) [symmetric] tr(1) nt _ _ bs k(2) c,
        of "0x8048200" "0x8048100" 1] by auto
qed

end
