(* ===== verification/Switch.thy ===== *)
theory Switch
  imports Exec
begin

text \<open>
  The switch between two threads (\<open>thread/switch.S\<close>): the registers that a C function preserves are
  pushed on the stack of the running thread and popped from the stack of the next one, so that a
  thread goes on where it called \<open>switch_to\<close>, and a new one in \<open>kernel_thread\<close>
  (\<open>thread/thread.c\<close>).
\<close>

section \<open>The switch\<close>

text \<open>The stack pointer points to the return address when the function is entered.\<close>

record kctx =
  c_ebp :: nat
  c_ebx :: nat
  c_edi :: nat
  c_esi :: nat
  c_esp :: nat
  c_eip :: nat

definition switch_to :: "nat \<Rightarrow> nat \<Rightarrow> kctx \<Rightarrow> sys \<Rightarrow> (kctx \<times> sys) option" where
  "switch_to cur_thread next_thread c s = do {
     let esp = sub32 (c_esp c) 16;
     s \<leftarrow> on_mem (wr_words esp [(12, c_esi c), (8, c_edi c), (4, c_ebx c), (0, c_ebp c)]) s;
     s \<leftarrow> on_kst (upd_task cur_thread (\<lambda>p. p\<lparr>self_kstack := esp\<rparr>)) s;
     q \<leftarrow> tasks (kst_of s) next_thread;
     let esp = self_kstack q;
     ebp \<leftarrow> rd_word esp (smem s);
     ebx \<leftarrow> rd_word (add32 esp 4) (smem s);
     edi \<leftarrow> rd_word (add32 esp 8) (smem s);
     esi \<leftarrow> rd_word (add32 esp 12) (smem s);
     eip \<leftarrow> rd_word (add32 esp 16) (smem s);
     Some (\<lparr>c_ebp = ebp, c_ebx = ebx, c_edi = edi, c_esi = esi, c_esp = add32 esp 20, c_eip = eip\<rparr>, s)
   }"

text \<open>What \<open>kernel_thread\<close> calls, with interrupts enabled.\<close>

definition kernel_thread :: "nat \<Rightarrow> nat \<Rightarrow> sys \<Rightarrow> (nat \<times> nat) \<times> sys" where
  "kernel_thread func func_arg s = ((func, func_arg), set_kst ((kst_of s)\<lparr>intr := True\<rparr>) s)"

section \<open>Saving and loading\<close>

text \<open>The thread runs on the stack in its page, with room for the four registers.\<close>

definition on_stack :: "nat \<Rightarrow> nat \<Rightarrow> nat \<Rightarrow> kctx \<Rightarrow> sys \<Rightarrow> bool" where
  "on_stack t f off c s \<longleftrightarrow> self_map (smem s) \<and> translate (smem s) t = Some f \<and> f \<notin> table_frames (smem s)
     \<and> t mod 4096 = 0 \<and> t < 0xFFC00000 \<and> c_esp c = t + off + 16 \<and> off mod 4 = 0 \<and> off + 20 \<le> 4096
     \<and> tasks (kst_of s) t \<noteq> None"

definition pushed :: "nat \<Rightarrow> kctx \<Rightarrow> (nat \<Rightarrow> nat) \<Rightarrow> nat \<Rightarrow> nat" where
  "pushed a c ph = ph(a + 12 := c_esi c, a + 8 := c_edi c, a + 4 := c_ebx c, a := c_ebp c)"

lemma pushed_at [simp]:
  "pushed a c ph a = c_ebp c" "pushed a c ph (a + 4) = c_ebx c" "pushed a c ph (a + 8) = c_edi c"
  "pushed a c ph (a + 12) = c_esi c" "pushed a c ph (a + 16) = ph (a + 16)"
  by (simp_all add: pushed_def)

lemma pushed_other:
  assumes "f mod 4096 = 0" and "g mod 4096 = 0" and "f \<noteq> g" and "off mod 4 = 0" and "d mod 4 = 0"
    and "off + 16 \<le> 4096" and "d < 4096"
  shows "pushed (f + off) c ph (g + d) = ph (g + d)"
proof -
  obtain a b where ab: "off = 4 * a" "d = 4 * b" using assms(4,5) by (auto simp: mod_eq_0_iff_dvd elim!: dvdE)
  have fr: "frame (f + 4 * (a + i)) = f" if "i < 4" for i by (rule frame_offset [OF assms(1)]) (use that assms(6) ab in simp)
  have "frame (f + off) = f" "frame (f + off + 4) = f" "frame (f + off + 8) = f" "frame (f + off + 12) = f"
    using fr [of 0] fr [of 1] fr [of 2] fr [of 3] by (simp_all add: ab algebra_simps)
  moreover have "frame (g + d) = g" unfolding ab by (rule frame_offset [OF assms(2)]) (use assms(7) ab in simp)
  ultimately show ?thesis using assms(3) by (auto simp: pushed_def)
qed

text \<open>The state after the first half.\<close>

lemma save_runs:
  assumes "on_stack cur f off c s"
  shows "\<exists>p s'. tasks (kst_of s) cur = Some p \<and> Option.bind (on_mem (wr_words (sub32 (c_esp c) 16)
        [(12, c_esi c), (8, c_edi c), (4, c_ebx c), (0, c_ebp c)]) s)
        (on_kst (upd_task cur (\<lambda>p. p\<lparr>self_kstack := sub32 (c_esp c) 16\<rparr>))) = Some s'
    \<and> phys (smem s') = pushed (f + off) c (phys (smem s))
    \<and> tasks (kst_of s') = (tasks (kst_of s))(cur \<mapsto> p\<lparr>self_kstack := cur + off\<rparr>)
    \<and> (\<forall>va < 4294967296. translate (smem s') va = translate (smem s) va)
    \<and> self_map (smem s') \<and> table_frames (smem s') = table_frames (smem s)"
proof -
  have a: "self_map (smem s)" "translate (smem s) cur = Some f" "f \<notin> table_frames (smem s)" "cur mod 4096 = 0"
      "cur < 0xFFC00000" "off mod 4 = 0" "c_esp c = cur + off + 16" "off + 20 \<le> 4096"
    using assms by (simp_all add: on_stack_def)
  obtain p where p: "tasks (kst_of s) cur = Some p" using assms by (auto simp: on_stack_def)
  let ?ws = "[(12, c_esi c), (8, c_edi c), (4, c_ebx c), (0, c_ebp c)] :: (nat \<times> nat) list"
  have ws: "\<forall>(b, v) \<in> set ?ws. b mod 4 = 0 \<and> off + b < 4096" using a(8) by simp
  obtain ph where ph: "wr_words (cur + off) ?ws (smem s) = Some ((smem s)\<lparr>phys := ph\<rparr>)"
      "ph = foldl (\<lambda>ph (b, v). ph(f + off + b := v)) (phys (smem s)) ?ws"
      "\<forall>va < 4294967296. translate ((smem s)\<lparr>phys := ph\<rparr>) va = translate (smem s) va"
      "same_tables (smem s) ((smem s)\<lparr>phys := ph\<rparr>)"
    using wr_words_within [OF a(1-6) ws] by (elim exE conjE) (rule that)
  have esp: "sub32 (c_esp c) 16 = cur + off" using a(5,7,8) by (simp add: sub32_small)
  let ?k = "(kst_of s)\<lparr>tasks := (tasks (kst_of s))(cur \<mapsto> p\<lparr>self_kstack := cur + off\<rparr>)\<rparr>"
  let ?s = "set_kst ?k (set_mem ((smem s)\<lparr>phys := ph\<rparr>) s)"
  have run: "Option.bind (on_mem (wr_words (sub32 (c_esp c) 16) ?ws) s)
        (on_kst (upd_task cur (\<lambda>p. p\<lparr>self_kstack := sub32 (c_esp c) 16\<rparr>))) = Some ?s"
    by (simp add: on_mem_def esp ph(1) on_kst_def upd_task_def p)
  have t: "translate (smem ?s) va = translate (smem s) va" if "va < 4294967296" for va
    using ph(3) that by (simp add: translate_def)
  have "self_map (smem ?s) = self_map ((smem s)\<lparr>phys := ph\<rparr>)" "table_frames (smem ?s) = table_frames ((smem s)\<lparr>phys := ph\<rparr>)"
    by (simp_all add: self_map_def table_frames_def pde_at_def)
  then have tb: "self_map (smem ?s)" "table_frames (smem ?s) = table_frames (smem s)"
    using same_tables_self [OF ph(4) a(1)] same_tables_frames [OF ph(4) a(1)] by simp_all
  show ?thesis
    by (intro exI [of _ p] exI [of _ ?s] conjI allI impI p run t tb) (simp_all add: ph(2) pushed_def)
qed

text \<open>When the next thread's page is another one, its saved registers are loaded.\<close>

lemma switch_to_runs:
  assumes "on_stack cur f off c s" and "nxt \<noteq> cur" and "translate (smem s) nxt = Some g" and "f \<noteq> g"
    and "nxt mod 4096 = 0" and "nxt < 0xFFC00000" and "map_option self_kstack (tasks (kst_of s) nxt) = Some (nxt + d)"
    and "d mod 4 = 0" and "d + 20 \<le> 4096" and "w = (\<lambda>i. phys (smem s) (g + d + i))"
  shows "\<exists>p s'. switch_to cur nxt c s = Some (\<lparr>c_ebp = w 0, c_ebx = w 4, c_edi = w 8, c_esi = w 12, c_esp = nxt + d + 20, c_eip = w 16\<rparr>, s')
    \<and> tasks (kst_of s) cur = Some p \<and> phys (smem s') = pushed (f + off) c (phys (smem s))
    \<and> tasks (kst_of s') = (tasks (kst_of s))(cur \<mapsto> p\<lparr>self_kstack := cur + off\<rparr>)
    \<and> (\<forall>va < 4294967296. translate (smem s') va = translate (smem s) va)
    \<and> self_map (smem s') \<and> table_frames (smem s') = table_frames (smem s)"
proof -
  obtain p s' where s': "tasks (kst_of s) cur = Some p"
      "Option.bind (on_mem (wr_words (sub32 (c_esp c) 16)
        [(12, c_esi c), (8, c_edi c), (4, c_ebx c), (0, c_ebp c)]) s)
        (on_kst (upd_task cur (\<lambda>p. p\<lparr>self_kstack := sub32 (c_esp c) 16\<rparr>))) = Some s'"
      "phys (smem s') = pushed (f + off) c (phys (smem s))"
      "tasks (kst_of s') = (tasks (kst_of s))(cur \<mapsto> p\<lparr>self_kstack := cur + off\<rparr>)"
      "\<forall>va < 4294967296. translate (smem s') va = translate (smem s) va"
      "self_map (smem s')" "table_frames (smem s') = table_frames (smem s)"
    using save_runs [OF assms(1)] by (elim exE conjE) (rule that)
  have a: "translate (smem s) cur = Some f" "cur mod 4096 = 0" "off mod 4 = 0" "off + 16 \<le> 4096"
    using assms(1) by (simp_all add: on_stack_def)
  have al: "f mod 4096 = 0" "g mod 4096 = 0"
    using mapped_aligned [OF a(1,2)] mapped_aligned [OF assms(3,5)] by simp_all
  obtain q where q: "tasks (kst_of s') nxt = Some q" "self_kstack q = nxt + d"
    using assms(2,7) s'(4) by auto
  have t: "translate (smem s') nxt = Some g" using s'(5) assms(3,6) by simp
  have rd: "rd_word (nxt + (d + i)) (smem s') = Some (w i)" if "i \<in> {0, 4, 8, 12, 16}" for i
  proof -
    have "(d + i) mod 4 = 0" "d + i < 4096" using that assms(8,9) by (auto simp: mod_add_eq [symmetric] mod_simps)
    then have "phys (smem s') (g + (d + i)) = w i"
      unfolding s'(3) using pushed_other [OF al assms(4) a(3) _ a(4), of "d + i"] by (simp add: assms(10) add.assoc)
    moreover have "translate (smem s') (nxt + (d + i)) = Some (g + (d + i))"
      using translate_offset [OF assms(5) \<open>d + i < 4096\<close>] t by simp
    ultimately show ?thesis by (simp add: rd_word_def)
  qed
  have esp: "add32 (nxt + d) i = nxt + (d + i)" if "i \<le> 20" for i
    using assms(6,9) that by (simp add: add32_small)
  have "switch_to cur nxt c s = Some (\<lparr>c_ebp = w 0, c_ebx = w 4, c_edi = w 8, c_esi = w 12, c_esp = nxt + d + 20, c_eip = w 16\<rparr>, s')"
    unfolding switch_to_def Let_def Option.bind_assoc [symmetric] s'(2)
    using rd [of 0] rd [of 4] rd [of 8] rd [of 12] rd [of 16] by (simp add: q esp add.assoc)
  then show ?thesis using s'(1,3-7) by blast
qed

section \<open>Threads go on where they stopped\<close>

text \<open>C38: A thread that gave up the processor in \<open>switch_to\<close> and is switched to later, by whichever
  thread and after whatever happened outside the five words at the top of its stack, returns to its
  caller with the four registers and the stack pointer it had.\<close>

theorem switch_resumes:
  assumes "on_stack cur f off c s" and "switch_to cur nxt c s = Some (c1, s1)"
    and "on_stack oth h off' c2 s2" and "oth \<noteq> cur" and "translate (smem s2) cur = Some g" and "h \<noteq> g"
    and "map_option self_kstack (tasks (kst_of s2) cur) = map_option self_kstack (tasks (kst_of s1) cur)"
    and "\<forall>i < 5. phys (smem s2) (g + off + 4 * i) = phys (smem s1) (f + off + 4 * i)"
  shows "\<exists>s3. switch_to oth cur c2 s2
    = Some (c\<lparr>c_esp := c_esp c + 4, c_eip := phys (smem s) (f + off + 16)\<rparr>, s3)"
proof -
  obtain p s' where s': "tasks (kst_of s) cur = Some p"
      "Option.bind (on_mem (wr_words (sub32 (c_esp c) 16)
        [(12, c_esi c), (8, c_edi c), (4, c_ebx c), (0, c_ebp c)]) s)
        (on_kst (upd_task cur (\<lambda>p. p\<lparr>self_kstack := sub32 (c_esp c) 16\<rparr>))) = Some s'"
      "phys (smem s') = pushed (f + off) c (phys (smem s))"
      "tasks (kst_of s') = (tasks (kst_of s))(cur \<mapsto> p\<lparr>self_kstack := cur + off\<rparr>)"
    using save_runs [OF assms(1)] by (elim exE conjE) (rule that)
  have "s1 = s'" using assms(2) unfolding switch_to_def Let_def Option.bind_assoc [symmetric] s'(2)
    by (auto simp: bind_eq_Some_conv)
  then have top: "map_option self_kstack (tasks (kst_of s2) cur) = Some (cur + off)" using assms(7) s'(4) by simp
  have a: "cur mod 4096 = 0" "cur < 0xFFC00000" "off mod 4 = 0" "off + 20 \<le> 4096" "c_esp c = cur + off + 16"
    using assms(1) by (simp_all add: on_stack_def)
  have w: "phys (smem s2) (g + off + 4 * i) = pushed (f + off) c (phys (smem s)) (f + off + 4 * i)" if "i < 5" for i
    using assms(8) that s'(3) \<open>s1 = s'\<close> by simp
  have "\<lparr>c_ebp = phys (smem s2) (g + off + 0), c_ebx = phys (smem s2) (g + off + 4), c_edi = phys (smem s2) (g + off + 8),
      c_esi = phys (smem s2) (g + off + 12), c_esp = cur + off + 20, c_eip = phys (smem s2) (g + off + 16)\<rparr>
    = c\<lparr>c_esp := c_esp c + 4, c_eip := phys (smem s) (f + off + 16)\<rparr>"
    using w [of 0] w [of 1] w [of 2] w [of 3] w [of 4] a(5) by (intro kctx.equality) simp_all
  then show ?thesis
    using switch_to_runs [OF assms(3) assms(4) [symmetric] assms(5,6) a(1,2) top a(3,4) refl] by auto
qed

text \<open>The stack of a new thread.\<close>

lemma thread_create_runs:
  assumes "self_map (smem s)" and "translate (smem s) t = Some g" and "g \<notin> table_frames (smem s)"
    and "t mod 4096 = 0" and "t < 0xFFC00000"
    and "tasks (kst_of s) t = Some p" and "self_kstack p = t + PG_SIZE"
  shows "\<exists>s1. thread_create t func func_arg s = Some s1
    \<and> phys (smem s1) (g + 3680) = code_addr s ''kernel_thread'' \<and> phys (smem s1) (g + 3688) = func
    \<and> phys (smem s1) (g + 3692) = func_arg
    \<and> tasks (kst_of s1) = (tasks (kst_of s))(t \<mapsto> p\<lparr>self_kstack := t + 3664\<rparr>)
    \<and> (\<forall>va < 4294967296. translate (smem s1) va = translate (smem s) va)
    \<and> self_map (smem s1) \<and> table_frames (smem s1) = table_frames (smem s)"
proof -
  let ?ws = "[(16, code_addr s ''kernel_thread''), (24, func), (28, func_arg),
       (12, 0), (8, 0), (4, 0), (0, 0)] :: (nat \<times> nat) list"
  let ?k = "(kst_of s)\<lparr>tasks := (tasks (kst_of s))(t \<mapsto> p\<lparr>self_kstack := t + 3664\<rparr>)\<rparr>"
  define m where "m = (smem s)\<lparr>mkern := ?k\<rparr>"
  have same: "translate m va = translate (smem s) va" "table_frames m = table_frames (smem s)"
      "self_map m = self_map (smem s)" for va
    by (simp_all add: m_def translate_def table_frames_def self_map_def pde_at_def)
  have pre: "self_map m" "translate m t = Some g" "g \<notin> table_frames m" using assms(1-3) same by simp_all
  have off: "(3664 :: nat) mod 4 = 0" and ws: "\<forall>(b, v) \<in> set ?ws. b mod 4 = 0 \<and> 3664 + b < 4096" by simp_all
  obtain ph where ph: "wr_words (t + 3664) ?ws m = Some (m\<lparr>phys := ph\<rparr>)"
      "ph = foldl (\<lambda>ph (b, v). ph(g + 3664 + b := v)) (phys m) ?ws"
      "\<forall>va < 4294967296. translate (m\<lparr>phys := ph\<rparr>) va = translate m va"
      "same_tables m (m\<lparr>phys := ph\<rparr>)"
    using wr_words_within [OF pre assms(4,5) off ws] by (elim exE conjE) (rule that)
  have sp: "sub32 (sub32 (self_kstack p) (4 * 76)) (4 * 32) = t + 3664"
    using assms(5,7) by (simp add: sub32_small PG_SIZE_def)
  let ?s1 = "set_mem (m\<lparr>phys := ph\<rparr>) (set_kst ?k s)"
  have run: "thread_create t func func_arg s = Some ?s1"
    by (simp only: thread_create_def assms(6) Option.bind.simps Let_def sp on_kst_def upd_task_def option.map
        on_mem_def sys_simps code_addr_simps m_def [symmetric] ph(1))
  have vals: "ph (g + 3688) = func" "ph (g + 3692) = func_arg" "ph (g + 3680) = code_addr s ''kernel_thread''"
    by (simp_all add: ph(2))
  have m1: "smem ?s1 = m\<lparr>phys := ph\<rparr>" "tasks (kst_of ?s1) = (tasks (kst_of s))(t \<mapsto> p\<lparr>self_kstack := t + 3664\<rparr>)"
    by (simp_all add: m_def)
  have "self_map (smem ?s1)" "table_frames (smem ?s1) = table_frames (smem s)"
    unfolding m1 using same_tables_self [OF ph(4) pre(1)] same_tables_frames [OF ph(4) pre(1)] same(2) by simp_all
  then show ?thesis
    using ph(3) by (intro exI [of _ ?s1] conjI run m1(2)) (simp_all add: m1(1) vals same(1))
qed

text \<open>C39: The first switch to a new thread enters \<open>kernel_thread\<close>, which finds the function of the thread and
  its argument as its own arguments behind a return address.\<close>

theorem switch_starts_thread:
  assumes "self_map (smem s)" and "translate (smem s) t = Some g" and "g \<notin> table_frames (smem s)"
    and "t mod 4096 = 0" and "t < 0xFFC00000"
    and "tasks (kst_of s) t = Some p" and "self_kstack p = t + PG_SIZE"
    and "thread_create t func func_arg s = Some s1" and "on_stack cur f off c s1" and "cur \<noteq> t" and "f \<noteq> g"
  shows "\<exists>c' s2. switch_to cur t c s1 = Some (c', s2) \<and> c_eip c' = code_addr s ''kernel_thread''
    \<and> rd_word (c_esp c' + 4) (smem s2) = Some func \<and> rd_word (c_esp c' + 8) (smem s2) = Some func_arg"
proof -
  have new: "phys (smem s1) (g + 3680) = code_addr s ''kernel_thread''" "phys (smem s1) (g + 3688) = func"
      "phys (smem s1) (g + 3692) = func_arg"
      "tasks (kst_of s1) = (tasks (kst_of s))(t \<mapsto> p\<lparr>self_kstack := t + 3664\<rparr>)"
      "\<forall>va < 4294967296. translate (smem s1) va = translate (smem s) va"
    using thread_create_runs [OF assms(1-7), of func func_arg] assms(8) by auto
  have t1: "translate (smem s1) t = Some g" using new(5) assms(2,5) by simp
  have top: "map_option self_kstack (tasks (kst_of s1) t) = Some (t + 3664)" by (simp add: new(4))
  have d: "(3664 :: nat) mod 4 = 0" "(3664 :: nat) + 20 \<le> 4096" by simp_all
  obtain c' s2 where s2: "switch_to cur t c s1 = Some (c', s2)" "c_eip c' = phys (smem s1) (g + 3664 + 16)" "c_esp c' = t + 3684"
      "phys (smem s2) = pushed (f + off) c (phys (smem s1))" "\<forall>va < 4294967296. translate (smem s2) va = translate (smem s1) va"
    using switch_to_runs [OF assms(9) assms(10) [symmetric] t1 assms(11,4,5) top d refl] by auto
  have a: "translate (smem s1) cur = Some f" "cur mod 4096 = 0" "off mod 4 = 0" "off + 16 \<le> 4096"
    using assms(9) by (simp_all add: on_stack_def)
  have al: "f mod 4096 = 0" "g mod 4096 = 0"
    using mapped_aligned [OF a(1,2)] mapped_aligned [OF t1 assms(4)] by simp_all
  have rd: "rd_word (t + x) (smem s2) = Some (phys (smem s1) (g + x))" if "x mod 4 = 0" "x < 4096" for x
    using translate_offset [OF assms(4) that(2)] s2(5) t1 assms(5) pushed_other [OF al assms(11) a(3) that(1) a(4) that(2)]
    by (simp add: rd_word_def s2(4))
  have "c_eip c' = phys (smem s1) (g + 3680)" "c_esp c' + 4 = t + 3688" "c_esp c' + 8 = t + 3692"
    using s2(2,3) by (simp_all add: add.commute)
  moreover have "rd_word (t + 3688) (smem s2) = Some func" "rd_word (t + 3692) (smem s2) = Some func_arg"
    using rd [of 3688] rd [of 3692] new(2,3) by simp_all
  ultimately show ?thesis using s2(1) new(1) by (intro exI [of _ c'] exI [of _ s2]) (simp only: simp_thms)
qed

section \<open>Examples\<close>

definition switch_sys :: sys where
  "switch_sys = set_kst ((kst_of fork_sys)\<lparr>tasks := (tasks (kst_of fork_sys))(0xC0105000 \<mapsto>
     (sample_task TASK_READY)\<lparr>self_kstack := 0xC0106000\<rparr>)\<rparr>) fork_sys"

definition sample_ctx :: kctx where
  "sample_ctx = \<lparr>c_ebp = 1, c_ebx = 2, c_edi = 3, c_esi = 4, c_esp = 0xC0104000 + 3000 + 16, c_eip = 0\<rparr>"

lemma switch_sys_facts:
  shows "self_map (smem switch_sys)" and "translate (smem switch_sys) 0xC0104000 = Some 0x106000"
    and "translate (smem switch_sys) 0xC0105000 = Some 0x107000"
    and "0x106000 \<notin> table_frames (smem switch_sys)" and "0x107000 \<notin> table_frames (smem switch_sys)"
    and "tasks (kst_of switch_sys) 0xC0105000 = Some ((sample_task TASK_READY)\<lparr>self_kstack := 0xC0105000 + PG_SIZE\<rparr>)"
    and "tasks (kst_of switch_sys) 0xC0104000 \<noteq> None"
proof -
  have m: "smem fork_sys = fork_mem" by (simp add: fork_sys_def smem_def)
  have same: "translate (fork_mem\<lparr>mkern := k\<rparr>) va = translate fork_mem va" "table_frames (fork_mem\<lparr>mkern := k\<rparr>) = table_frames fork_mem"
      "self_map (fork_mem\<lparr>mkern := k\<rparr>) = self_map fork_mem" for k va
    by (simp_all add: translate_def table_frames_def self_map_def pde_at_def)
  let ?k = "(kst_of fork_sys)\<lparr>tasks := (tasks (kst_of fork_sys))(0xC0105000 \<mapsto> (sample_task TASK_READY)\<lparr>self_kstack := 0xC0106000\<rparr>)\<rparr>"
  have m': "smem switch_sys = fork_mem\<lparr>mkern := ?k\<rparr>" by (simp add: switch_sys_def m)
  show "self_map (smem switch_sys)"
    using fork_mem_ready by (simp add: m' same fork_ready_def mem_inv_def)
  show "translate (smem switch_sys) 0xC0104000 = Some 0x106000" "translate (smem switch_sys) 0xC0105000 = Some 0x107000"
    unfolding m' same by (simp_all add: translate_walk fork_mem_pde fork_mem_pte present_def frame_def)
  have "{i. i < 1023 \<and> present (pde_at fork_mem i)} \<subseteq> {768, 32}"
    by (auto simp: fork_mem_pde present_def split: if_splits)
  then show "0x106000 \<notin> table_frames (smem switch_sys)" "0x107000 \<notin> table_frames (smem switch_sys)"
    unfolding m' same by (auto simp: table_frames_def fork_mem_fields(1) fork_mem_pde frame_def)
  show "tasks (kst_of switch_sys) 0xC0105000 = Some ((sample_task TASK_READY)\<lparr>self_kstack := 0xC0105000 + PG_SIZE\<rparr>)"
    by (simp add: switch_sys_def PG_SIZE_def)
  have "tasks (kst_of fork_sys) 0xC0104000 \<noteq> None" by (simp add: kst_of_def m) (simp add: fork_mem_def)
  then show "tasks (kst_of switch_sys) 0xC0104000 \<noteq> None" by (simp add: switch_sys_def)
qed

theorem switch_starts_thread_witness:
  "\<exists>s1 c' s2. thread_create 0xC0105000 0xC0002000 7 switch_sys = Some s1
     \<and> switch_to 0xC0104000 0xC0105000 sample_ctx s1 = Some (c', s2) \<and> c_eip c' = 0xC0001500
     \<and> rd_word (c_esp c' + 4) (smem s2) = Some 0xC0002000 \<and> rd_word (c_esp c' + 8) (smem s2) = Some 7"
proof -
  have al: "(0xC0105000 :: nat) mod 4096 = 0" "(0xC0105000 :: nat) < 0xFFC00000" by simp_all
  have ks: "self_kstack ((sample_task TASK_READY)\<lparr>self_kstack := 0xC0105000 + PG_SIZE\<rparr>) = 0xC0105000 + PG_SIZE" by simp
  obtain s1 where s1: "thread_create 0xC0105000 0xC0002000 7 switch_sys = Some s1"
      "\<forall>va < 4294967296. translate (smem s1) va = translate (smem switch_sys) va"
      "self_map (smem s1)" "table_frames (smem s1) = table_frames (smem switch_sys)"
      "tasks (kst_of s1) 0xC0104000 = tasks (kst_of switch_sys) 0xC0104000"
    using thread_create_runs [OF switch_sys_facts(1,3,5) al switch_sys_facts(6) ks, of "0xC0002000" 7] by auto
  have "on_stack 0xC0104000 0x106000 3000 sample_ctx s1"
    using s1(2-5) switch_sys_facts(2,4,7) by (simp add: on_stack_def sample_ctx_def)
  moreover have "code_addr switch_sys f = 0xC0001500" for f
    by (simp add: switch_sys_def fork_sys_def)
  ultimately show ?thesis
    using switch_starts_thread [OF switch_sys_facts(1,3,5) al switch_sys_facts(6) ks s1(1)] s1(1) by simp
qed

theorem switch_resumes_witness:
  "\<exists>s c1 s1 s3. switch_to 0xC0104000 0xC0105000 sample_ctx s = Some (c1, s1)
     \<and> switch_to 0xC0105000 0xC0104000 c1 s1 = Some (sample_ctx\<lparr>c_esp := 0xC0104000 + 3000 + 20,
          c_eip := phys (smem s) (0x106000 + 3000 + 16)\<rparr>, s3)"
proof -
  have al: "(0xC0105000 :: nat) mod 4096 = 0" "(0xC0105000 :: nat) < 0xFFC00000" by simp_all
  have ks: "self_kstack ((sample_task TASK_READY)\<lparr>self_kstack := 0xC0105000 + PG_SIZE\<rparr>) = 0xC0105000 + PG_SIZE" by simp
  obtain s where new: "tasks (kst_of s) = (tasks (kst_of switch_sys))(0xC0105000 \<mapsto>
        (sample_task TASK_READY)\<lparr>self_kstack := 0xC0105000 + PG_SIZE\<rparr>\<lparr>self_kstack := 0xC0105000 + 3664\<rparr>)"
      and t: "\<forall>va < 4294967296. translate (smem s) va = translate (smem switch_sys) va"
      "self_map (smem s)" "table_frames (smem s) = table_frames (smem switch_sys)"
    using thread_create_runs [OF switch_sys_facts(1,3,5) al switch_sys_facts(6) ks, of 0 0] by (elim exE conjE) (rule that)
  have s: "\<forall>va < 4294967296. translate (smem s) va = translate (smem switch_sys) va"
      "self_map (smem s)" "table_frames (smem s) = table_frames (smem switch_sys)"
      "tasks (kst_of s) 0xC0104000 = tasks (kst_of switch_sys) 0xC0104000"
      "map_option self_kstack (tasks (kst_of s) 0xC0105000) = Some (0xC0105000 + 3664)"
    using t by (simp_all add: new)
  have on: "on_stack 0xC0104000 0x106000 3000 sample_ctx s"
    using s(1-4) switch_sys_facts(2,4,7) by (simp add: on_stack_def sample_ctx_def)
  have tr: "translate (smem s) 0xC0105000 = Some 0x107000" "translate (smem s) 0xC0104000 = Some 0x106000"
    using s(1) switch_sys_facts(2,3) by simp_all
  have ne: "(0xC0105000 :: nat) \<noteq> 0xC0104000" "(0x106000 :: nat) \<noteq> 0x107000" by simp_all
  have d: "(3664 :: nat) mod 4 = 0" "(3664 :: nat) + 20 \<le> 4096" by simp_all
  obtain c1 s1 where s1: "switch_to 0xC0104000 0xC0105000 sample_ctx s = Some (c1, s1)" "c_esp c1 = 0xC0105000 + 3684"
      "tasks (kst_of s1) 0xC0105000 = tasks (kst_of s) 0xC0105000" "\<forall>va < 4294967296. translate (smem s1) va = translate (smem s) va"
      "self_map (smem s1)" "table_frames (smem s1) = table_frames (smem s)"
    using switch_to_runs [OF on ne(1) tr(1) ne(2) al s(5) d refl] by auto
  have on1: "on_stack 0xC0105000 0x107000 3668 c1 s1"
    using s1(2-6) s(3,5) tr(1) switch_sys_facts(5) by (auto simp: on_stack_def)
  have "translate (smem s1) 0xC0104000 = Some 0x106000" using s1(4) tr(2) by simp
  from switch_resumes [OF on s1(1) on1 ne(1) this ne(2) [symmetric] refl] show ?thesis
    using s1(1) by (auto simp: sample_ctx_def)
qed

end
