(* ===== verification/Syscall.thy ===== *)
theory Syscall
  imports Exec
begin

text \<open>
  System calls: the library functions of a program (\<open>lib/use/syscall.c\<close>) put a number and up to three
  arguments in registers and execute \<open>int 0x80\<close>; \<open>syscall_handler\<close> (\<open>kernel/kernel.s\<close>) saves the
  registers on the kernel stack of the process, calls the function that \<open>syscall_init\<close>
  (\<open>userprog/syscall-init.c\<close>) stored under the number, and puts the result in the saved \<open>eax\<close>.
\<close>

section \<open>The numbers and the table\<close>

definition SYS_GETPID :: nat where "SYS_GETPID = 0"
definition SYS_WRITE :: nat where "SYS_WRITE = 1"
definition SYS_MALLOC :: nat where "SYS_MALLOC = 2"
definition SYS_FREE :: nat where "SYS_FREE = 3"
definition SYS_FORK :: nat where "SYS_FORK = 4"
definition SYS_READ :: nat where "SYS_READ = 5"
definition SYS_PUTCHAR :: nat where "SYS_PUTCHAR = 6"
definition SYS_CLEAR :: nat where "SYS_CLEAR = 7"
definition SYS_GETCWD :: nat where "SYS_GETCWD = 8"
definition SYS_OPEN :: nat where "SYS_OPEN = 9"
definition SYS_CLOSE :: nat where "SYS_CLOSE = 10"
definition SYS_LSEEK :: nat where "SYS_LSEEK = 11"
definition SYS_UNLINK :: nat where "SYS_UNLINK = 12"
definition SYS_MKDIR :: nat where "SYS_MKDIR = 13"
definition SYS_OPENDIR :: nat where "SYS_OPENDIR = 14"
definition SYS_CLOSEDIR :: nat where "SYS_CLOSEDIR = 15"
definition SYS_CHDIR :: nat where "SYS_CHDIR = 16"
definition SYS_RMDIR :: nat where "SYS_RMDIR = 17"
definition SYS_READDIR :: nat where "SYS_READDIR = 18"
definition SYS_REWINDDIR :: nat where "SYS_REWINDDIR = 19"
definition SYS_STAT :: nat where "SYS_STAT = 20"
definition SYS_PS :: nat where "SYS_PS = 21"
definition SYS_EXECV :: nat where "SYS_EXECV = 22"
definition SYS_WAIT :: nat where "SYS_WAIT = 23"
definition SYS_EXIT :: nat where "SYS_EXIT = 24"
definition SYS_GETCURSOR :: nat where "SYS_GETCURSOR = 25"
definition SYS_PIPE :: nat where "SYS_PIPE = 26"
definition SYS_REDIRECT :: nat where "SYS_REDIRECT = 27"
definition SYS_HELP :: nat where "SYS_HELP = 28"

definition syscall_count :: nat where "syscall_count = 32"

text \<open>The table holds functions of the kernel, by name; an entry that was never set is 0.\<close>

definition syscall_init :: "string option list \<Rightarrow> string option list" where
  "syscall_init syscall_table = syscall_table
     [SYS_GETPID := Some ''sys_getpid'', SYS_WRITE := Some ''sys_write'',
      SYS_MALLOC := Some ''sys_malloc'', SYS_FREE := Some ''sys_free'',
      SYS_FORK := Some ''sys_fork'', SYS_READ := Some ''sys_read'',
      SYS_PUTCHAR := Some ''put_char'', SYS_CLEAR := Some ''cls_screen'',
      SYS_GETCWD := Some ''sys_getcwd'', SYS_OPEN := Some ''sys_open'',
      SYS_CLOSE := Some ''sys_close'', SYS_LSEEK := Some ''sys_lseek'',
      SYS_UNLINK := Some ''sys_unlink'', SYS_MKDIR := Some ''sys_mkdir'',
      SYS_OPENDIR := Some ''sys_opendir'', SYS_CLOSEDIR := Some ''sys_closedir'',
      SYS_CHDIR := Some ''sys_chdir'', SYS_RMDIR := Some ''sys_rmdir'',
      SYS_READDIR := Some ''sys_readdir'', SYS_REWINDDIR := Some ''sys_rewinddir'',
      SYS_STAT := Some ''sys_stat'', SYS_PS := Some ''sys_ps'', SYS_EXECV := Some ''sys_exec'',
      SYS_WAIT := Some ''sys_wait'', SYS_EXIT := Some ''sys_exit'',
      SYS_GETCURSOR := Some ''get_cursor'', SYS_PIPE := Some ''sys_pipe'',
      SYS_REDIRECT := Some ''sys_fd_redirect'', SYS_HELP := Some ''sys_help'']"

definition sys_getpid :: "kst \<Rightarrow> int option" where
  "sys_getpid s = map_option pid (tasks s (get_running_thread_pcb s))"

section \<open>The library functions\<close>

text \<open>
  The instruction is a parameter: from the registers and the state of the world to the registers
  after it. An argument of one byte only sets the low byte of its register. The functions return the
  register \<open>eax\<close>; \<open>fork\<close>, \<open>read\<close> and \<open>cursor\<close> have no \<open>return\<close>, and their callers find in \<open>eax\<close> what
  the instruction left there.
\<close>

type_synonym 'w interrupt = "cpu \<Rightarrow> 'w \<Rightarrow> (cpu \<times> 'w) option"
type_synonym 'w result = "(nat \<times> cpu \<times> 'w) option"

definition low8 :: "nat \<Rightarrow> nat \<Rightarrow> nat" where
  "low8 r b = r div 256 * 256 + u8 b"

definition syscall0 :: "'w interrupt \<Rightarrow> nat \<Rightarrow> cpu \<Rightarrow> 'w \<Rightarrow> 'w result" where
  "syscall0 int80 NUMBER c w = do {
     (c, w) \<leftarrow> int80 (c\<lparr>r_eax := NUMBER\<rparr>) w;
     Some (r_eax c, c, w)
   }"

definition syscall1 :: "'w interrupt \<Rightarrow> nat \<Rightarrow> nat \<Rightarrow> cpu \<Rightarrow> 'w \<Rightarrow> 'w result" where
  "syscall1 int80 NUMBER ARG1 c w = do {
     (c, w) \<leftarrow> int80 (c\<lparr>r_eax := NUMBER, r_ebx := ARG1\<rparr>) w;
     Some (r_eax c, c, w)
   }"

definition syscall2 :: "'w interrupt \<Rightarrow> nat \<Rightarrow> nat \<Rightarrow> nat \<Rightarrow> cpu \<Rightarrow> 'w \<Rightarrow> 'w result" where
  "syscall2 int80 NUMBER ARG1 ARG2 c w = do {
     (c, w) \<leftarrow> int80 (c\<lparr>r_eax := NUMBER, r_ebx := ARG1, r_ecx := ARG2\<rparr>) w;
     Some (r_eax c, c, w)
   }"

definition syscall3 :: "'w interrupt \<Rightarrow> nat \<Rightarrow> nat \<Rightarrow> nat \<Rightarrow> nat \<Rightarrow> cpu \<Rightarrow> 'w \<Rightarrow> 'w result" where
  "syscall3 int80 NUMBER ARG1 ARG2 ARG3 c w = do {
     (c, w) \<leftarrow> int80 (c\<lparr>r_eax := NUMBER, r_ebx := ARG1, r_ecx := ARG2, r_edx := ARG3\<rparr>) w;
     Some (r_eax c, c, w)
   }"

definition getpid :: "'w interrupt \<Rightarrow> cpu \<Rightarrow> 'w \<Rightarrow> 'w result" where
  "getpid int80 c w = syscall0 int80 SYS_GETPID c w"

definition write_fd :: "'w interrupt \<Rightarrow> nat \<Rightarrow> nat \<Rightarrow> nat \<Rightarrow> cpu \<Rightarrow> 'w \<Rightarrow> 'w result" where
  "write_fd int80 fd buf count c w = syscall3 int80 SYS_WRITE fd buf count c w"

definition malloc :: "'w interrupt \<Rightarrow> nat \<Rightarrow> cpu \<Rightarrow> 'w \<Rightarrow> 'w result" where
  "malloc int80 sz c w = syscall1 int80 SYS_MALLOC sz c w"

definition free :: "'w interrupt \<Rightarrow> nat \<Rightarrow> cpu \<Rightarrow> 'w \<Rightarrow> 'w result" where
  "free int80 ptr c w = syscall1 int80 SYS_FREE ptr c w"

definition fork :: "'w interrupt \<Rightarrow> cpu \<Rightarrow> 'w \<Rightarrow> 'w result" where
  "fork int80 c w = syscall0 int80 SYS_FORK c w"

definition read_fd :: "'w interrupt \<Rightarrow> nat \<Rightarrow> nat \<Rightarrow> nat \<Rightarrow> cpu \<Rightarrow> 'w \<Rightarrow> 'w result" where
  "read_fd int80 fd buf count c w = syscall3 int80 SYS_READ fd buf count c w"

definition putchar :: "'w interrupt \<Rightarrow> nat \<Rightarrow> cpu \<Rightarrow> 'w \<Rightarrow> 'w result" where
  "putchar int80 char_asci c w = syscall1 int80 SYS_PUTCHAR (low8 (r_ebx c) char_asci) c w"

definition clear :: "'w interrupt \<Rightarrow> cpu \<Rightarrow> 'w \<Rightarrow> 'w result" where
  "clear int80 c w = syscall0 int80 SYS_CLEAR c w"

definition getcwd :: "'w interrupt \<Rightarrow> nat \<Rightarrow> nat \<Rightarrow> cpu \<Rightarrow> 'w \<Rightarrow> 'w result" where
  "getcwd int80 buf sz c w = syscall2 int80 SYS_GETCWD buf sz c w"

definition open_path :: "'w interrupt \<Rightarrow> nat \<Rightarrow> nat \<Rightarrow> cpu \<Rightarrow> 'w \<Rightarrow> 'w result" where
  "open_path int80 pathname flag c w = syscall2 int80 SYS_OPEN pathname (low8 (r_ecx c) flag) c w"

definition close :: "'w interrupt \<Rightarrow> nat \<Rightarrow> cpu \<Rightarrow> 'w \<Rightarrow> 'w result" where
  "close int80 fd_idx c w = syscall1 int80 SYS_CLOSE fd_idx c w"

definition lseek :: "'w interrupt \<Rightarrow> nat \<Rightarrow> nat \<Rightarrow> nat \<Rightarrow> cpu \<Rightarrow> 'w \<Rightarrow> 'w result" where
  "lseek int80 fd offs whence c w = syscall3 int80 SYS_LSEEK fd offs (low8 (r_edx c) whence) c w"

definition unlink :: "'w interrupt \<Rightarrow> nat \<Rightarrow> cpu \<Rightarrow> 'w \<Rightarrow> 'w result" where
  "unlink int80 pathname c w = syscall1 int80 SYS_UNLINK pathname c w"

definition mkdir :: "'w interrupt \<Rightarrow> nat \<Rightarrow> cpu \<Rightarrow> 'w \<Rightarrow> 'w result" where
  "mkdir int80 pathname c w = syscall1 int80 SYS_MKDIR pathname c w"

definition opendir :: "'w interrupt \<Rightarrow> nat \<Rightarrow> cpu \<Rightarrow> 'w \<Rightarrow> 'w result" where
  "opendir int80 name c w = syscall1 int80 SYS_OPENDIR name c w"

definition closedir :: "'w interrupt \<Rightarrow> nat \<Rightarrow> cpu \<Rightarrow> 'w \<Rightarrow> 'w result" where
  "closedir int80 dirp c w = syscall1 int80 SYS_CLOSEDIR dirp c w"

definition rmdir :: "'w interrupt \<Rightarrow> nat \<Rightarrow> cpu \<Rightarrow> 'w \<Rightarrow> 'w result" where
  "rmdir int80 pathname c w = syscall1 int80 SYS_RMDIR pathname c w"

definition readdir :: "'w interrupt \<Rightarrow> nat \<Rightarrow> cpu \<Rightarrow> 'w \<Rightarrow> 'w result" where
  "readdir int80 dirp c w = syscall1 int80 SYS_READDIR dirp c w"

definition rewinddir :: "'w interrupt \<Rightarrow> nat \<Rightarrow> cpu \<Rightarrow> 'w \<Rightarrow> 'w result" where
  "rewinddir int80 dirp c w = syscall1 int80 SYS_REWINDDIR dirp c w"

definition stat_path :: "'w interrupt \<Rightarrow> nat \<Rightarrow> nat \<Rightarrow> cpu \<Rightarrow> 'w \<Rightarrow> 'w result" where
  "stat_path int80 path buf c w = syscall2 int80 SYS_STAT path buf c w"

definition chdir :: "'w interrupt \<Rightarrow> nat \<Rightarrow> cpu \<Rightarrow> 'w \<Rightarrow> 'w result" where
  "chdir int80 path c w = syscall1 int80 SYS_CHDIR path c w"

definition ps :: "'w interrupt \<Rightarrow> cpu \<Rightarrow> 'w \<Rightarrow> 'w result" where
  "ps int80 c w = syscall0 int80 SYS_PS c w"

definition execv :: "'w interrupt \<Rightarrow> nat \<Rightarrow> nat \<Rightarrow> cpu \<Rightarrow> 'w \<Rightarrow> 'w result" where
  "execv int80 path argv c w = syscall2 int80 SYS_EXECV path argv c w"

definition wait :: "'w interrupt \<Rightarrow> nat \<Rightarrow> cpu \<Rightarrow> 'w \<Rightarrow> 'w result" where
  "wait int80 st c w = syscall1 int80 SYS_WAIT st c w"

definition exit :: "'w interrupt \<Rightarrow> nat \<Rightarrow> cpu \<Rightarrow> 'w \<Rightarrow> 'w result" where
  "exit int80 st c w = syscall1 int80 SYS_EXIT st c w"

definition cursor :: "'w interrupt \<Rightarrow> nat \<Rightarrow> cpu \<Rightarrow> 'w \<Rightarrow> 'w result" where
  "cursor int80 cur_pos c w = syscall1 int80 SYS_GETCURSOR cur_pos c w"

definition pipe :: "'w interrupt \<Rightarrow> nat \<Rightarrow> cpu \<Rightarrow> 'w \<Rightarrow> 'w result" where
  "pipe int80 pipefd c w = syscall1 int80 SYS_PIPE pipefd c w"

definition fd_redirect :: "'w interrupt \<Rightarrow> nat \<Rightarrow> nat \<Rightarrow> cpu \<Rightarrow> 'w \<Rightarrow> 'w result" where
  "fd_redirect int80 old_local_fd new_local_fd c w = syscall2 int80 SYS_REDIRECT old_local_fd new_local_fd c w"

definition help_cmds :: "'w interrupt \<Rightarrow> cpu \<Rightarrow> 'w \<Rightarrow> 'w result" where
  "help_cmds int80 c w = syscall0 int80 SYS_HELP c w"

section \<open>The handler\<close>

text \<open>
  The processor switches to the stack of the task state segment and pushes \<open>ss\<close>, \<open>esp\<close>, \<open>eflags\<close>,
  \<open>cs\<close> and \<open>eip\<close> (of the instruction after \<open>int\<close>); the handler pushes a 0 for the error code, the
  segment registers, \<open>pushad\<close>, the vector number and the arguments, and the call its return address.
  The stack below is the called function's.
\<close>

definition syscall_enter :: "cpu \<Rightarrow> sys \<Rightarrow> sys option" where
  "syscall_enter c s = (let stack = sub32 (tss_esp0 (kst_of s)) 92 in
     on_mem (wr_words stack [(88, r_ss c), (84, r_esp c), (80, r_eflags c), (76, r_cs c), (72, r_eip c), (68, 0),
       (64, r_ds c), (60, r_es c), (56, r_fs c), (52, r_gs c),
       (48, r_eax c), (44, r_ecx c), (40, r_edx c), (36, r_ebx c), (32, add32 stack 52), (28, r_ebp c),
       (24, r_esi c), (20, r_edi c), (16, 0x80), (12, r_edx c), (8, r_ecx c), (4, r_ebx c),
       (0, code_addr s ''syscall_handler'')]) s)"

text \<open>The functions of the kernel are the argument \<open>call\<close>; a call of address 0 faults.\<close>

definition syscall_handler ::
  "(string \<Rightarrow> nat \<Rightarrow> nat \<Rightarrow> nat \<Rightarrow> sys \<Rightarrow> (nat \<times> sys) option) \<Rightarrow> string option list \<Rightarrow> sys interrupt" where
  "syscall_handler call syscall_table c s = do {
     let esp = sub32 (tss_esp0 (kst_of s)) 76;
     s \<leftarrow> syscall_enter c s;
     entry \<leftarrow> rd_at syscall_table (r_eax c);
     f \<leftarrow> entry;
     (eax, s) \<leftarrow> call f (r_ebx c) (r_ecx c) (r_edx c) s;
     s \<leftarrow> on_mem (wr_word (add32 esp (8 * 4)) eax) s;
     c \<leftarrow> intr_exit esp (smem s);
     Some (c, s)
   }"

section \<open>Numbers, table and arguments fit together\<close>

text \<open>What the handler would call, and with which arguments, when a library function executes \<open>int\<close>.\<close>

definition requested ::
  "string option list \<Rightarrow> (cpu option interrupt \<Rightarrow> cpu \<Rightarrow> cpu option \<Rightarrow> cpu option result) \<Rightarrow> cpu
   \<Rightarrow> (string \<times> nat \<times> nat \<times> nat) option" where
  "requested t f c = do {
     (_, _, w) \<leftarrow> f (\<lambda>c _. Some (c, Some c)) c None;
     c \<leftarrow> w;
     entry \<leftarrow> rd_at t (r_eax c);
     name \<leftarrow> entry;
     Some (name, r_ebx c, r_ecx c, r_edx c)
   }"

lemmas syscall_numbers = SYS_GETPID_def SYS_WRITE_def SYS_MALLOC_def SYS_FREE_def SYS_FORK_def SYS_READ_def
  SYS_PUTCHAR_def SYS_CLEAR_def SYS_GETCWD_def SYS_OPEN_def SYS_CLOSE_def SYS_LSEEK_def
  SYS_UNLINK_def SYS_MKDIR_def SYS_OPENDIR_def SYS_CLOSEDIR_def SYS_CHDIR_def SYS_RMDIR_def
  SYS_READDIR_def SYS_REWINDDIR_def SYS_STAT_def SYS_PS_def SYS_EXECV_def SYS_WAIT_def
  SYS_EXIT_def SYS_GETCURSOR_def SYS_PIPE_def SYS_REDIRECT_def SYS_HELP_def

lemmas library_functions = getpid_def write_fd_def malloc_def free_def fork_def read_fd_def putchar_def clear_def
  getcwd_def open_path_def close_def lseek_def unlink_def mkdir_def opendir_def closedir_def
  rmdir_def readdir_def rewinddir_def stat_path_def chdir_def ps_def execv_def wait_def exit_def
  cursor_def pipe_def fd_redirect_def help_cmds_def
  syscall0_def syscall1_def syscall2_def syscall3_def

lemma syscall_init_entries:
  assumes "length t = syscall_count"
  shows "rd_at (syscall_init t) SYS_GETPID = Some (Some ''sys_getpid'')"
    and "rd_at (syscall_init t) SYS_WRITE = Some (Some ''sys_write'')"
    and "rd_at (syscall_init t) SYS_MALLOC = Some (Some ''sys_malloc'')"
    and "rd_at (syscall_init t) SYS_FREE = Some (Some ''sys_free'')"
    and "rd_at (syscall_init t) SYS_FORK = Some (Some ''sys_fork'')"
    and "rd_at (syscall_init t) SYS_READ = Some (Some ''sys_read'')"
    and "rd_at (syscall_init t) SYS_PUTCHAR = Some (Some ''put_char'')"
    and "rd_at (syscall_init t) SYS_CLEAR = Some (Some ''cls_screen'')"
    and "rd_at (syscall_init t) SYS_GETCWD = Some (Some ''sys_getcwd'')"
    and "rd_at (syscall_init t) SYS_OPEN = Some (Some ''sys_open'')"
    and "rd_at (syscall_init t) SYS_CLOSE = Some (Some ''sys_close'')"
    and "rd_at (syscall_init t) SYS_LSEEK = Some (Some ''sys_lseek'')"
    and "rd_at (syscall_init t) SYS_UNLINK = Some (Some ''sys_unlink'')"
    and "rd_at (syscall_init t) SYS_MKDIR = Some (Some ''sys_mkdir'')"
    and "rd_at (syscall_init t) SYS_OPENDIR = Some (Some ''sys_opendir'')"
    and "rd_at (syscall_init t) SYS_CLOSEDIR = Some (Some ''sys_closedir'')"
    and "rd_at (syscall_init t) SYS_CHDIR = Some (Some ''sys_chdir'')"
    and "rd_at (syscall_init t) SYS_RMDIR = Some (Some ''sys_rmdir'')"
    and "rd_at (syscall_init t) SYS_READDIR = Some (Some ''sys_readdir'')"
    and "rd_at (syscall_init t) SYS_REWINDDIR = Some (Some ''sys_rewinddir'')"
    and "rd_at (syscall_init t) SYS_STAT = Some (Some ''sys_stat'')"
    and "rd_at (syscall_init t) SYS_PS = Some (Some ''sys_ps'')"
    and "rd_at (syscall_init t) SYS_EXECV = Some (Some ''sys_exec'')"
    and "rd_at (syscall_init t) SYS_WAIT = Some (Some ''sys_wait'')"
    and "rd_at (syscall_init t) SYS_EXIT = Some (Some ''sys_exit'')"
    and "rd_at (syscall_init t) SYS_GETCURSOR = Some (Some ''get_cursor'')"
    and "rd_at (syscall_init t) SYS_PIPE = Some (Some ''sys_pipe'')"
    and "rd_at (syscall_init t) SYS_REDIRECT = Some (Some ''sys_fd_redirect'')"
    and "rd_at (syscall_init t) SYS_HELP = Some (Some ''sys_help'')"
  using assms by (simp_all add: syscall_init_def syscall_numbers syscall_count_def rd_at_def nth_list_update)

text \<open>Every library function reaches its function of the kernel, with its arguments in order; a
  function with fewer arguments leaves the other registers as they were.\<close>

theorem library_reaches_kernel:
  assumes "length table = syscall_count" and "t = syscall_init table"
  shows "requested t (\<lambda>i. getpid i) c = Some (''sys_getpid'', r_ebx c, r_ecx c, r_edx c) \<and>
    requested t (\<lambda>i. write_fd i fd buf count) c = Some (''sys_write'', fd, buf, count) \<and>
    requested t (\<lambda>i. malloc i sz) c = Some (''sys_malloc'', sz, r_ecx c, r_edx c) \<and>
    requested t (\<lambda>i. free i ptr) c = Some (''sys_free'', ptr, r_ecx c, r_edx c) \<and>
    requested t (\<lambda>i. fork i) c = Some (''sys_fork'', r_ebx c, r_ecx c, r_edx c) \<and>
    requested t (\<lambda>i. read_fd i fd buf count) c = Some (''sys_read'', fd, buf, count) \<and>
    requested t (\<lambda>i. putchar i char_asci) c = Some (''put_char'', low8 (r_ebx c) char_asci, r_ecx c, r_edx c) \<and>
    requested t (\<lambda>i. clear i) c = Some (''cls_screen'', r_ebx c, r_ecx c, r_edx c) \<and>
    requested t (\<lambda>i. getcwd i buf sz) c = Some (''sys_getcwd'', buf, sz, r_edx c) \<and>
    requested t (\<lambda>i. open_path i pathname flag) c = Some (''sys_open'', pathname, low8 (r_ecx c) flag, r_edx c) \<and>
    requested t (\<lambda>i. close i fd_idx) c = Some (''sys_close'', fd_idx, r_ecx c, r_edx c) \<and>
    requested t (\<lambda>i. lseek i fd offs whence) c = Some (''sys_lseek'', fd, offs, low8 (r_edx c) whence) \<and>
    requested t (\<lambda>i. unlink i pathname) c = Some (''sys_unlink'', pathname, r_ecx c, r_edx c) \<and>
    requested t (\<lambda>i. mkdir i pathname) c = Some (''sys_mkdir'', pathname, r_ecx c, r_edx c) \<and>
    requested t (\<lambda>i. opendir i name) c = Some (''sys_opendir'', name, r_ecx c, r_edx c) \<and>
    requested t (\<lambda>i. closedir i dirp) c = Some (''sys_closedir'', dirp, r_ecx c, r_edx c) \<and>
    requested t (\<lambda>i. rmdir i pathname) c = Some (''sys_rmdir'', pathname, r_ecx c, r_edx c) \<and>
    requested t (\<lambda>i. readdir i dirp) c = Some (''sys_readdir'', dirp, r_ecx c, r_edx c) \<and>
    requested t (\<lambda>i. rewinddir i dirp) c = Some (''sys_rewinddir'', dirp, r_ecx c, r_edx c) \<and>
    requested t (\<lambda>i. stat_path i path buf) c = Some (''sys_stat'', path, buf, r_edx c) \<and>
    requested t (\<lambda>i. chdir i path) c = Some (''sys_chdir'', path, r_ecx c, r_edx c) \<and>
    requested t (\<lambda>i. ps i) c = Some (''sys_ps'', r_ebx c, r_ecx c, r_edx c) \<and>
    requested t (\<lambda>i. execv i path argv) c = Some (''sys_exec'', path, argv, r_edx c) \<and>
    requested t (\<lambda>i. wait i st) c = Some (''sys_wait'', st, r_ecx c, r_edx c) \<and>
    requested t (\<lambda>i. exit i st) c = Some (''sys_exit'', st, r_ecx c, r_edx c) \<and>
    requested t (\<lambda>i. cursor i cur_pos) c = Some (''get_cursor'', cur_pos, r_ecx c, r_edx c) \<and>
    requested t (\<lambda>i. pipe i pipefd) c = Some (''sys_pipe'', pipefd, r_ecx c, r_edx c) \<and>
    requested t (\<lambda>i. fd_redirect i old_local_fd new_local_fd) c = Some (''sys_fd_redirect'', old_local_fd, new_local_fd, r_edx c) \<and>
    requested t (\<lambda>i. help_cmds i) c = Some (''sys_help'', r_ebx c, r_ecx c, r_edx c)"
  using syscall_init_entries [OF assms(1)]
  by (simp add: requested_def library_functions assms(2))

theorem library_reaches_kernel_witness:
  "\<forall>c. requested (syscall_init (replicate 32 None)) (\<lambda>i. write_fd i 1 0x8048100 5) c = Some (''sys_write'', 1, 0x8048100, 5)"
  using library_reaches_kernel [of "replicate 32 None"] by (simp add: syscall_count_def)

section \<open>The registers of the program survive\<close>

text \<open>The frame that the handler builds holds the registers in the places where \<open>intr_exit\<close> looks for them.\<close>

lemma syscall_enter_page:
  assumes "self_map (smem s)" and "translate (smem s) cur = Some f" and "f \<notin> table_frames (smem s)"
    and "cur mod 4096 = 0" and "cur < 0xFFC00000" and "tss_esp0 (kst_of s) = cur + 4096"
  shows "\<exists>ph. syscall_enter c s = Some (set_mem ((smem s)\<lparr>phys := ph\<rparr>) s)
    \<and> frame_regs (\<lambda>i. ph (f + 4020 + 4 * i)) = c
    \<and> (\<forall>va < 4294967296. translate ((smem s)\<lparr>phys := ph\<rparr>) va = translate (smem s) va)
    \<and> same_tables (smem s) ((smem s)\<lparr>phys := ph\<rparr>)"
proof -
  have st: "sub32 (tss_esp0 (kst_of s)) 92 = cur + 4004"
    using assms(5,6) by (simp add: sub32_small)
  let ?ws = "[(88, r_ss c), (84, r_esp c), (80, r_eflags c), (76, r_cs c), (72, r_eip c), (68, 0),
       (64, r_ds c), (60, r_es c), (56, r_fs c), (52, r_gs c),
       (48, r_eax c), (44, r_ecx c), (40, r_edx c), (36, r_ebx c), (32, add32 (cur + 4004) 52), (28, r_ebp c),
       (24, r_esi c), (20, r_edi c), (16, 0x80), (12, r_edx c), (8, r_ecx c), (4, r_ebx c),
       (0, code_addr s ''syscall_handler'')] :: (nat \<times> nat) list"
  have off: "(4004 :: nat) mod 4 = 0" by simp
  have ws: "\<forall>(b, v) \<in> set ?ws. b mod 4 = 0 \<and> 4004 + b < 4096" by simp
  obtain ph where ph: "wr_words (cur + 4004) ?ws (smem s) = Some ((smem s)\<lparr>phys := ph\<rparr>)"
      "ph = foldl (\<lambda>ph (b, v). ph(f + 4004 + b := v)) (phys (smem s)) ?ws"
      "\<forall>va < 4294967296. translate ((smem s)\<lparr>phys := ph\<rparr>) va = translate (smem s) va"
      "same_tables (smem s) ((smem s)\<lparr>phys := ph\<rparr>)"
    using wr_words_within [OF assms(1-5) off ws] by (elim exE conjE) (rule that)
  have "frame_regs (\<lambda>i. ph (f + 4020 + 4 * i)) = c"
    by (rule cpu.equality) (simp_all add: frame_regs_def ph(2))
  moreover have "syscall_enter c s = Some (set_mem ((smem s)\<lparr>phys := ph\<rparr>) s)"
    by (simp only: syscall_enter_def Let_def st on_mem_def ph(1) option.map)
  ultimately show ?thesis using ph(3,4) by blast
qed

text \<open>C35: A system call is transparent: when the function called leaves the saved frame alone, the program
  goes on behind the \<open>int\<close> instruction with every register as it was, its stack pointer, flags and
  segments included, except \<open>eax\<close>, which holds the result.\<close>

theorem syscall_transparent:
  assumes "self_map (smem s)" and "translate (smem s) cur = Some f" and "f \<notin> table_frames (smem s)"
    and "cur mod 4096 = 0" and "cur < 0xFFC00000" and "tss_esp0 (kst_of s) = cur + 4096"
    and "syscall_enter c s = Some s0" and "rd_at t (r_eax c) = Some (Some name)"
    and "call name (r_ebx c) (r_ecx c) (r_edx c) s0 = Some (r, s1)"
    and "self_map (smem s1)" and "translate (smem s1) cur = Some g" and "g \<notin> table_frames (smem s1)"
    and "\<forall>i < 19. phys (smem s1) (g + 4020 + 4 * i) = phys (smem s0) (f + 4020 + 4 * i)"
  shows "\<exists>s'. syscall_handler call t c s = Some (c\<lparr>r_eax := r\<rparr>, s')"
proof -
  obtain ph where ph: "s0 = set_mem ((smem s)\<lparr>phys := ph\<rparr>) s" "frame_regs (\<lambda>i. ph (f + 4020 + 4 * i)) = c"
    using syscall_enter_page [OF assms(1-6), of c] assms(7) by auto
  let ?m = "smem s1"
  let ?ph = "(phys ?m)(g + 4 * 1013 := r)"
  have g: "g mod 4096 = 0" by (rule mapped_aligned [OF assms(11,4)])
  have wr: "wr_word (cur + 4052) r ?m = Some (?m\<lparr>phys := ?ph\<rparr>)"
    using wr_word_page [OF assms(11,4), of 4052 r] by simp
  have "translate (?m\<lparr>phys := ?ph\<rparr>) cur = Some g"
    using set_word_page [OF assms(10) g assms(12), of 1013 cur r] assms(5,11) by simp
  from intr_exit_page [OF this assms(4,5)]
  have ex: "intr_exit (cur + 4020) (?m\<lparr>phys := ?ph\<rparr>) = Some (frame_regs (\<lambda>i. ?ph (g + 4020 + 4 * i)))" by simp
  have same: "phys ?m (g + 4020 + 4 * i) = ph (f + 4020 + 4 * i)" if "i < 19" for i
    using assms(13) that by (simp add: ph(1))
  have "frame_regs (\<lambda>i. ?ph (g + 4020 + 4 * i)) = frame_regs (\<lambda>i. if i = 8 then r else ph (f + 4020 + 4 * i))"
    by (rule frame_regs_eq(1)) (use same in auto)
  also have "\<dots> = c\<lparr>r_eax := r\<rparr>" using arg_cong [OF ph(2), of "r_eax_update (\<lambda>_. r)"] by (simp add: frame_regs_def)
  finally have regs: "frame_regs (\<lambda>i. ?ph (g + 4020 + 4 * i)) = c\<lparr>r_eax := r\<rparr>" .
  have esp: "sub32 (tss_esp0 (kst_of s)) 76 = cur + 4020" "add32 (cur + 4020) (8 * 4) = cur + 4052"
    using assms(5,6) by (simp_all add: sub32_small add32_small)
  show ?thesis
    by (simp only: syscall_handler_def Let_def esp assms(7-9) Option.bind.simps prod.case on_mem_def wr
        option.map sys_simps ex regs) blast
qed

text \<open>\<open>getpid\<close> on a process of the model.\<close>

definition only_getpid :: "string \<Rightarrow> nat \<Rightarrow> nat \<Rightarrow> nat \<Rightarrow> sys \<Rightarrow> (nat \<times> sys) option" where
  "only_getpid name a b d s =
     (if name = ''sys_getpid'' then map_option (\<lambda>p. (of_s32 p, s)) (sys_getpid (kst_of s)) else None)"


definition getpid_sys :: sys where
  "getpid_sys = set_kst (update_tss_esp 0xC0104000 (kst_of fork_sys)) fork_sys"

theorem syscall_transparent_witness:
  "\<forall>c. \<exists>s'. syscall_handler only_getpid (syscall_init (replicate 32 None)) (c\<lparr>r_eax := SYS_GETPID\<rparr>) getpid_sys
     = Some (c\<lparr>r_eax := of_s32 (pid (sample_task TASK_RUNNING))\<rparr>, s')"
proof
  fix c :: cpu
  let ?c = "c\<lparr>r_eax := SYS_GETPID\<rparr>"
  have m: "smem fork_sys = fork_mem" by (simp add: fork_sys_def smem_def)
  have m': "smem getpid_sys = fork_mem\<lparr>mkern := update_tss_esp 0xC0104000 (kst_of fork_sys)\<rparr>"
    by (simp add: getpid_sys_def m)
  have same: "translate (fork_mem\<lparr>mkern := k\<rparr>) va = translate fork_mem va" "table_frames (fork_mem\<lparr>mkern := k\<rparr>) = table_frames fork_mem"
      "self_map (fork_mem\<lparr>mkern := k\<rparr>) = self_map fork_mem" for k va
    by (simp_all add: translate_def table_frames_def self_map_def pde_at_def)
  have sm: "self_map (smem getpid_sys)" using fork_mem_ready by (simp add: m' same fork_ready_def mem_inv_def)
  have tr: "translate (smem getpid_sys) 0xC0104000 = Some 0x106000"
    unfolding m' same by (simp add: translate_walk fork_mem_pde fork_mem_pte present_def frame_def)
  have "{i. i < 1023 \<and> present (pde_at fork_mem i)} \<subseteq> {768, 32}"
    by (auto simp: fork_mem_pde present_def split: if_splits)
  then have nt: "0x106000 \<notin> table_frames (smem getpid_sys)"
    unfolding m' same by (auto simp: table_frames_def fork_mem_fields(1) fork_mem_pde frame_def)
  have esp: "tss_esp0 (kst_of getpid_sys) = 0xC0104000 + 4096"
    by (simp add: getpid_sys_def update_tss_esp_def add32_small PG_SIZE_def)
  have al: "(0xC0104000 :: nat) mod 4096 = 0" "(0xC0104000 :: nat) < 0xFFC00000" by simp_all
  obtain ph where ph: "syscall_enter ?c getpid_sys = Some (set_mem ((smem getpid_sys)\<lparr>phys := ph\<rparr>) getpid_sys)"
      "\<forall>va < 4294967296. translate ((smem getpid_sys)\<lparr>phys := ph\<rparr>) va = translate (smem getpid_sys) va"
      "same_tables (smem getpid_sys) ((smem getpid_sys)\<lparr>phys := ph\<rparr>)"
    using syscall_enter_page [OF sm tr nt al esp, of ?c] by (elim exE conjE) (rule that)
  define s0 where "s0 = set_mem ((smem getpid_sys)\<lparr>phys := ph\<rparr>) getpid_sys"
  have s0: "smem s0 = (smem getpid_sys)\<lparr>phys := ph\<rparr>" by (simp add: s0_def)
  have "tasks (kst_of s0) (running (kst_of s0)) = Some ((sample_task TASK_RUNNING)\<lparr>pgdir := 0xC0101000\<rparr>)"
    by (simp add: s0_def getpid_sys_def update_tss_esp_def m kst_of_def) (simp add: fork_mem_def)
  then have pid: "only_getpid ''sys_getpid'' (r_ebx ?c) (r_ecx ?c) (r_edx ?c) s0 = Some (of_s32 (pid (sample_task TASK_RUNNING)), s0)"
    by (simp add: only_getpid_def sys_getpid_def get_running_thread_pcb_def)
  have tbl: "rd_at (syscall_init (replicate 32 None)) (r_eax ?c) = Some (Some ''sys_getpid'')"
    using syscall_init_entries(1) [of "replicate 32 None"] by (simp add: syscall_count_def)
  have "self_map (smem s0)" "0x106000 \<notin> table_frames (smem s0)" "translate (smem s0) 0xC0104000 = Some 0x106000"
    using same_tables_self [OF ph(3) sm] same_tables_frames [OF ph(3) sm] nt tr ph(2) by (simp_all add: s0)
  then show "\<exists>s'. syscall_handler only_getpid (syscall_init (replicate 32 None)) ?c getpid_sys
     = Some (c\<lparr>r_eax := of_s32 (pid (sample_task TASK_RUNNING))\<rparr>, s')"
    using syscall_transparent [where call = only_getpid, OF sm tr nt al esp ph(1) [folded s0_def] tbl pid] by simp
qed

end
