(* ===== verification/Screen.thy ===== *)
theory Screen
  imports Sync
begin

text \<open>
  The text screen (\<open>kernel/print.S\<close>) and its lock (\<open>device/console.c\<close>): 25 lines of 80 cells of
  two bytes, a character and its attribute, in a segment of 32768 bytes, and the cursor of the
  controller. An access behind the end of the segment raises an exception from which the kernel
  does not return.
\<close>

section \<open>The screen\<close>

record screen =
  vram :: "nat \<Rightarrow> byte"
  cursor :: nat

definition vwr :: "nat \<Rightarrow> byte \<Rightarrow> screen \<Rightarrow> screen option" where
  "vwr off b s = (if off < 32768 then Some (s\<lparr>vram := (vram s)(off := b)\<rparr>) else None)"

definition set_cursor :: "nat \<Rightarrow> screen \<Rightarrow> screen" where
  "set_cursor pos s = s\<lparr>cursor := u16 pos\<rparr>"

definition get_cursor :: "screen \<Rightarrow> nat" where
  "get_cursor s = cursor s"

text \<open>The loop copies double words upwards; then the last line is filled with blanks.\<close>

fun copy_roll_screen :: "nat \<Rightarrow> nat \<Rightarrow> nat \<Rightarrow> (nat \<Rightarrow> byte) \<Rightarrow> nat \<Rightarrow> byte" where
  "copy_roll_screen esi edi 0 v = v"
| "copy_roll_screen esi edi (Suc n) v = copy_roll_screen (esi + 4) (edi + 4) n
     (v(edi := v esi, edi + 1 := v (esi + 1), edi + 2 := v (esi + 2), edi + 3 := v (esi + 3)))"

fun clear_cells :: "nat \<Rightarrow> nat \<Rightarrow> (nat \<Rightarrow> byte) \<Rightarrow> nat \<Rightarrow> byte" where
  "clear_cells edx 0 v = v"
| "clear_cells edx (Suc n) v = clear_cells (edx + 2) n (v(edx := 0x20, edx + 1 := 0x07))"

definition roll_screen :: "screen \<Rightarrow> nat \<times> screen" where
  "roll_screen s =
     (let v = copy_roll_screen 160 0 960 (vram s);
          v = clear_cells 3840 80 v;
          ebx = 3840 div 2
      in (ebx, set_cursor ebx (s\<lparr>vram := v\<rparr>)))"

definition put_other :: "byte \<Rightarrow> nat \<Rightarrow> screen \<Rightarrow> screen option" where
  "put_other cl bx s = do {
     let (bx, s) = (if bx < 2000 then (bx, s) else roll_screen s);
     s \<leftarrow> vwr (u16 (bx * 2)) cl s;
     s \<leftarrow> vwr (u16 (bx * 2) + 1) 7 s;
     let bx = bx + 1;
     let (bx, s) = (if bx < 2000 then (bx, s) else roll_screen s);
     Some (set_cursor bx s)
   }"

definition is_carriage_return :: "nat \<Rightarrow> screen \<Rightarrow> nat \<times> screen" where
  "is_carriage_return bx s = (let bx = bx - bx mod 80 in (bx, set_cursor bx s))"

text \<open>The comparison is signed.\<close>

definition less16 :: "nat \<Rightarrow> nat \<Rightarrow> bool" where
  "less16 a b \<longleftrightarrow> (if 32768 \<le> u16 a then int (u16 a) - 65536 else int (u16 a)) < int b"

definition is_line_feed :: "nat \<Rightarrow> screen \<Rightarrow> screen" where
  "is_line_feed bx s =
     (let (bx, s) = is_carriage_return bx s;
          bx = u16 (bx + 80);
          (bx, s) = (if less16 bx 2000 then (bx, s) else roll_screen s)
      in set_cursor bx s)"

definition is_backspace :: "nat \<Rightarrow> screen \<Rightarrow> screen option" where
  "is_backspace bx s = do {
     let bx = u16 (u16 (bx + 65535) * 2);
     s \<leftarrow> vwr bx 0 s;
     s \<leftarrow> vwr (bx + 1) 0 s;
     let bx = u16 (bx div 2 + 1);
     Some (if bx = 0 then s else set_cursor (bx - 1) s)
   }"

definition put_char :: "byte \<Rightarrow> screen \<Rightarrow> screen option" where
  "put_char char_asci s =
     (let bx = get_cursor s in
      if char_asci = 0xd then Some (snd (is_carriage_return bx s))
      else if char_asci = 0xa then Some (is_line_feed bx s)
      else if char_asci = 0x8 then is_backspace bx s
      else put_other char_asci bx s)"

text \<open>\<open>print\<close> of a string without its terminator.\<close>

fun print :: "byte list \<Rightarrow> screen \<Rightarrow> screen option" where
  "print [] s = Some s"
| "print (c # cs) s = Option.bind (put_char c s) (print cs)"

definition cls_screen :: "screen \<Rightarrow> screen" where
  "cls_screen s = set_cursor 0 (s\<lparr>vram := clear_cells 0 (80 * 25) (vram s)\<rparr>)"

section \<open>Numbers\<close>

definition hex_digit :: "nat \<Rightarrow> byte" where
  "hex_digit dl = (if dl > 9 then of_nat (dl + 55) else of_nat (dl + 48))"

text \<open>The half bytes from the highest one on; \<open>flag\<close> is set with the first one that is not zero.\<close>

fun put_int32_loop :: "nat \<Rightarrow> nat \<Rightarrow> bool \<Rightarrow> byte list \<Rightarrow> byte list" where
  "put_int32_loop number 0 flag buffer = buffer"
| "put_int32_loop number (Suc n) flag buffer =
     (let dl = number div 16 ^ n mod 16 in
      if \<not> flag \<and> dl = 0 then put_int32_loop number n flag buffer
      else put_int32_loop number n True (buffer @ [hex_digit dl]))"

definition put_int32 :: "nat \<Rightarrow> screen \<Rightarrow> screen option" where
  "put_int32 number s = do {
     s \<leftarrow> print [48, 120] s;
     print (put_int32_loop number 8 False []) s
   }"

section \<open>The console\<close>

text \<open>The screen, the lock and the scheduler's state; a call that has to wait for the lock has no result.\<close>

record con =
  scr :: screen
  consol_lock :: lock
  ckern :: kst

definition console_init :: "con \<Rightarrow> con" where
  "console_init c = c\<lparr>consol_lock := lock_init\<rparr>"

definition console_acquire :: "con \<Rightarrow> con option" where
  "console_acquire c = do {
     (passed, l, k) \<leftarrow> lock_take (consol_lock c) (ckern c);
     _ \<leftarrow> ensure passed;
     Some (c\<lparr>consol_lock := l, ckern := k\<rparr>)
   }"

definition console_release :: "con \<Rightarrow> con option" where
  "console_release c = do {
     (l, k) \<leftarrow> lock_give (consol_lock c) (ckern c);
     Some (c\<lparr>consol_lock := l, ckern := k\<rparr>)
   }"

definition on_screen :: "(screen \<Rightarrow> screen option) \<Rightarrow> con \<Rightarrow> con option" where
  "on_screen f c = map_option (\<lambda>s. c\<lparr>scr := s\<rparr>) (f (scr c))"

definition console_put_char :: "byte \<Rightarrow> con \<Rightarrow> con option" where
  "console_put_char char_ascll c = do {
     c \<leftarrow> console_acquire c;
     c \<leftarrow> on_screen (put_char char_ascll) c;
     console_release c
   }"

definition console_put_str :: "byte list \<Rightarrow> con \<Rightarrow> con option" where
  "console_put_str str c = do {
     c \<leftarrow> console_acquire c;
     c \<leftarrow> on_screen (print str) c;
     console_release c
   }"

definition console_put_uint32 :: "nat \<Rightarrow> con \<Rightarrow> con option" where
  "console_put_uint32 number c = do {
     c \<leftarrow> console_acquire c;
     c \<leftarrow> on_screen (put_int32 number) c;
     console_release c
   }"

section \<open>The exception handler and failing assertions\<close>

text \<open>
  \<open>general_intr_handler\<close> (\<open>kernel/interrupt.c\<close>) clears the first lines and shows the exception; it and
  \<open>panic_spin\<close> (\<open>kernel/debug.c\<close>) do not return, so what they leave is the last screen.
\<close>

definition ascii :: "string \<Rightarrow> byte list" where
  "ascii txt = map of_char txt"

definition blank_lines :: "screen \<Rightarrow> screen option" where
  "blank_lines s = map_option (set_cursor 0) (print (replicate 320 32) (set_cursor 0 s))"

datatype 'a outcome = Returns 'a | Halts 'a

definition general_intr_handler :: "nat \<Rightarrow> byte list \<Rightarrow> nat \<Rightarrow> screen \<Rightarrow> screen outcome option" where
  "general_intr_handler intr_vector exceptionName page_fault_vaddr s =
     (if intr_vector = 0x27 \<or> intr_vector = 0x2f then Some (Returns s)
      else do {
        s \<leftarrow> blank_lines s;
        s \<leftarrow> print (ascii ''**************exception intr infomation**************\<newline>'') s;
        s \<leftarrow> print (ascii ''exceptionName:'') s;
        s \<leftarrow> print exceptionName s;
        s \<leftarrow> print (ascii ''\<newline>'') s;
        s \<leftarrow> (if intr_vector = 14 then do {
                s \<leftarrow> print (ascii ''page fault vaddr:'') s;
                s \<leftarrow> put_int32 page_fault_vaddr s;
                print (ascii ''\<newline>'') s
              } else Some s);
        s \<leftarrow> print (ascii ''**************exception intr infomation**************\<newline>'') s;
        s \<leftarrow> print (ascii ''\<newline>'') s;
        Some (Halts s)
      })"

definition panic_spin :: "byte list \<Rightarrow> nat \<Rightarrow> byte list \<Rightarrow> byte list \<Rightarrow> screen \<Rightarrow> screen outcome option" where
  "panic_spin fileName line functionName condition s = do {
     s \<leftarrow> print (ascii ''**********************************************************\<newline>'') s;
     s \<leftarrow> print (ascii ''Report a error,eror information:\<newline>'') s;
     s \<leftarrow> print (ascii ''FileName:'') s;
     s \<leftarrow> print fileName s;
     s \<leftarrow> print (ascii ''\<newline>Line:'') s;
     s \<leftarrow> put_int32 line s;
     s \<leftarrow> print (ascii ''\<newline>FunctionName:'') s;
     s \<leftarrow> print functionName s;
     s \<leftarrow> print (ascii ''\<newline>Condition:'') s;
     s \<leftarrow> print condition s;
     s \<leftarrow> print (ascii ''\<newline>'') s;
     s \<leftarrow> print (ascii ''**********************************************************\<newline>'') s;
     Some (Halts s)
   }"

text \<open>\<open>mm_is_null\<close> and the test of \<open>ASSERT\<close>; \<open>dbg_printf\<close> returns before it formats anything.\<close>

definition mm_is_null :: "nat \<Rightarrow> screen \<Rightarrow> screen outcome option" where
  "mm_is_null mem_addr s =
     (if mem_addr = 0 then map_option Halts (print (ascii ''mm_is_null'') s) else Some (Returns s))"

definition dbg_printf :: "string \<Rightarrow> int list \<Rightarrow> con \<Rightarrow> con" where
  "dbg_printf format args c = c"

section \<open>What the loops do\<close>

lemma copy_roll_screen_shift:
  "copy_roll_screen (e + 160) e n v off = (if e \<le> off \<and> off < e + 4 * n then v (off + 160) else v off)"
proof (induction n arbitrary: e v)
  case (Suc n)
  let ?v = "v(e := v (e + 160), e + 1 := v (e + 161), e + 2 := v (e + 162), e + 3 := v (e + 163))"
  have step: "copy_roll_screen (e + 160) e (Suc n) v = copy_roll_screen (e + 4 + 160) (e + 4) n ?v"
    by (simp add: algebra_simps)
  consider "off < e" | "off = e" | "off = e + 1" | "off = e + 2" | "off = e + 3" | "e + 4 \<le> off" by linarith
  then show ?case unfolding step Suc.IH by cases (auto simp: algebra_simps)
qed auto

lemma clear_cells_blank:
  "clear_cells e n v off = (if e \<le> off \<and> off < e + 2 * n then (if even (off - e) then 0x20 else 0x07) else v off)"
proof (induction n arbitrary: e v)
  case (Suc n)
  consider "off < e" | "off = e" | "off = e + 1" | "e + 2 \<le> off" by linarith
  then show ?case unfolding clear_cells.simps Suc.IH by cases auto
qed auto

definition rolled :: "(nat \<Rightarrow> byte) \<Rightarrow> nat \<Rightarrow> byte" where
  "rolled v off = (if off < 3840 then v (off + 160) else if off < 4000 then (if even off then 0x20 else 0x07) else v off)"

lemma roll_screen_runs: "roll_screen s = (1920, s\<lparr>vram := rolled (vram s), cursor := 1920\<rparr>)"
proof -
  have "clear_cells 3840 80 (copy_roll_screen 160 0 960 v) off = rolled v off" for v off
  proof -
    have c: "copy_roll_screen 160 0 960 v off = (if off < 3840 then v (off + 160) else v off)"
      using copy_roll_screen_shift [of 0 960 v off] by simp
    have "even (off - 3840) = even off" if "3840 \<le> off" using that by presburger
    then show ?thesis by (auto simp: clear_cells_blank c rolled_def)
  qed
  then have "clear_cells 3840 80 (copy_roll_screen 160 0 960 (vram s)) = rolled (vram s)" by (intro ext)
  then show ?thesis by (simp add: roll_screen_def set_cursor_def u16_def)
qed

section \<open>Well-formed screens\<close>

text \<open>The cursor is on the screen, and every cell of the screen has an attribute of the two that are used.\<close>

definition screen_ok :: "screen \<Rightarrow> bool" where
  "screen_ok s \<longleftrightarrow> cursor s < 2000 \<and> (\<forall>p < 2000. vram s (2 * p + 1) \<in> {0, 7})"

lemma rolled_ok: "\<forall>p < 2000. v (2 * p + 1) \<in> {0, 7} \<Longrightarrow> p < 2000 \<Longrightarrow> rolled v (2 * p + 1) \<in> {0, 7}"
proof -
  assume a: "\<forall>p < 2000. v (2 * p + 1) \<in> {0, 7}" and p: "p < 2000"
  have "2 * p + 1 + 160 = 2 * (p + 80) + 1" by simp
  then have "v (2 * p + 1 + 160) \<in> {0, 7}" if "p < 1920" using a [rule_format, of "p + 80"] that by simp
  then show ?thesis using p by (auto simp: rolled_def)
qed

lemma put_other_runs:
  assumes "cursor s < 2000"
  shows "put_other c (cursor s) s = Some (if cursor s < 1999
    then s\<lparr>vram := (vram s)(2 * cursor s := c, 2 * cursor s + 1 := 7), cursor := cursor s + 1\<rparr>
    else s\<lparr>vram := rolled ((vram s)(2 * cursor s := c, 2 * cursor s + 1 := 7)), cursor := 1920\<rparr>)"
  using assms
  by (simp add: put_other_def vwr_def u16_def roll_screen_runs set_cursor_def Let_def mult.commute)

lemma is_line_feed_runs:
  assumes "cursor s < 2000"
  shows "is_line_feed (cursor s) s = (if cursor s < 1920 then s\<lparr>cursor := cursor s - cursor s mod 80 + 80\<rparr>
    else s\<lparr>vram := rolled (vram s), cursor := 1920\<rparr>)"
proof -
  define q r where "q = cursor s div 80" and "r = cursor s mod 80"
  have c: "cursor s = 80 * q + r" "r < 80" by (simp_all add: q_def r_def)
  have q: "q \<le> 24" using assms c(1) by simp
  have less: "less16 (80 * q + 80) 2000 \<longleftrightarrow> q < 24" using q by (simp add: less16_def u16_def)
  have cr: "is_carriage_return (cursor s) s = (80 * q, s\<lparr>cursor := 80 * q\<rparr>)"
    using q c(2) by (simp add: is_carriage_return_def set_cursor_def u16_def c(1) Let_def)
  have "is_line_feed (cursor s) s = (if q < 24 then s\<lparr>cursor := 80 * q + 80\<rparr> else s\<lparr>vram := rolled (vram s), cursor := 1920\<rparr>)"
    unfolding is_line_feed_def cr using q less by (simp add: u16_def Let_def roll_screen_runs set_cursor_def)
  moreover have "cursor s < 1920 \<longleftrightarrow> q < 24" using c by linarith
  moreover have "cursor s - cursor s mod 80 = 80 * q" using c(1) r_def by simp
  ultimately show ?thesis by simp
qed

lemma is_backspace_runs:
  assumes "cursor s < 2000"
  shows "is_backspace (cursor s) s = (if cursor s = 0 then None
    else Some (s\<lparr>vram := (vram s)(2 * (cursor s - 1) := 0, 2 * (cursor s - 1) + 1 := 0), cursor := cursor s - 1\<rparr>))"
proof (cases "cursor s = 0")
  case True
  then show ?thesis by (simp add: is_backspace_def vwr_def u16_def)
next
  case False
  then obtain n where n: "cursor s = Suc n" by (cases "cursor s") auto
  have "u16 (cursor s + 65535) = n" using assms n by (simp add: u16_def)
  then show ?thesis using assms n by (simp add: is_backspace_def vwr_def u16_def set_cursor_def mult.commute Let_def)
qed

text \<open>The result of \<open>put_char\<close> in each of its cases.\<close>

lemma put_char_cases:
  assumes "cursor s < 2000"
  shows "put_char c s = (if c = 0xd then Some (s\<lparr>cursor := cursor s - cursor s mod 80\<rparr>)
    else if c = 0xa then Some (is_line_feed (cursor s) s)
    else if c = 0x8 then is_backspace (cursor s) s
    else put_other c (cursor s) s)"
proof -
  have "u16 (cursor s - cursor s mod 80) = cursor s - cursor s mod 80" using assms by (simp add: u16_def)
  then show ?thesis
    by (simp add: put_char_def get_cursor_def is_carriage_return_def set_cursor_def Let_def)
qed

lemma put_char_ok:
  assumes "screen_ok s"
  shows "case put_char c s of None \<Rightarrow> c = 0x8 \<and> cursor s = 0 | Some s' \<Rightarrow> screen_ok s'"
proof -
  have cu: "cursor s < 2000" and attr: "\<forall>p < 2000. vram s (2 * p + 1) \<in> {0, 7}" using assms by (simp_all add: screen_ok_def)
  let ?w = "\<lambda>p b a. (vram s)(2 * p := b, 2 * p + 1 := a)"
  have put: "\<forall>q < 2000. ?w p b a (2 * q + 1) \<in> {0, 7}" if "a \<in> {0, 7}" for p b a
    using attr that by (auto simp: Suc_double_not_eq_double)
  show ?thesis
  proof -
    consider "c = 0xd" | "c = 0xa" | "c = 0x8" | "c \<noteq> 0xd" "c \<noteq> 0xa" "c \<noteq> 0x8" by blast
    then show ?thesis
    proof cases
      case 1
      then show ?thesis using cu attr by (simp add: put_char_cases [OF cu] screen_ok_def)
    next
      case 2
      have "cursor s - cursor s mod 80 + 80 < 2000" if "cursor s < 1920"
      proof -
        have "cursor s div 80 * 80 + 80 < 2000" using that by simp
        then show ?thesis by (simp add: minus_mod_eq_div_mult)
      qed
      then show ?thesis using 2 cu attr rolled_ok [OF attr]
        by (simp add: put_char_cases [OF cu] is_line_feed_runs [OF cu] screen_ok_def)
    next
      case 3
      moreover have "cursor s - 1 < 2000" using cu by simp
      ultimately show ?thesis using cu put [of 0 "cursor s - 1" 0]
        by (simp add: put_char_cases [OF cu] is_backspace_runs [OF cu] screen_ok_def)
    next
      case 4
      define v where "v = ?w (cursor s) c 7"
      have v: "\<forall>q < 2000. v (2 * q + 1) \<in> {0, 7}" unfolding v_def by (rule put) simp
      show ?thesis using 4 cu v rolled_ok [OF v]
        by (simp add: put_char_cases [OF cu] put_other_runs [OF cu, of c, folded v_def] screen_ok_def)
    qed
  qed
qed

section \<open>Properties\<close>

text \<open>C37: Printing keeps the screen well-formed: the cursor stays on the screen and every cell keeps one of
  the two attributes. Printing a string can only fail when a backspace comes at the first position
  of the screen, where the code writes outside the video segment; without backspaces it returns.\<close>

theorem print_keeps_screen:
  assumes "screen_ok s"
  shows "(print cs s = None \<longrightarrow> 0x8 \<in> set cs) \<and> (\<forall>s'. print cs s = Some s' \<longrightarrow> screen_ok s')"
  using assms
proof (induction cs arbitrary: s)
  case (Cons c cs)
  show ?case
  proof (cases "put_char c s")
    case None
    then show ?thesis using put_char_ok [OF Cons.prems, of c] by simp
  next
    case (Some s1)
    then have "screen_ok s1" using put_char_ok [OF Cons.prems, of c] by simp
    then show ?thesis using Cons.IH Some by simp
  qed
qed simp

definition sample_screen :: screen where
  "sample_screen = \<lparr>vram = (\<lambda>a. if even a then 0x20 else 7), cursor = 1999\<rparr>"

theorem print_keeps_screen_witness:
  "screen_ok sample_screen \<and> (\<exists>s'. print [65, 10, 66] sample_screen = Some s' \<and> screen_ok s')"
proof -
  have ok: "screen_ok sample_screen" by (simp add: screen_ok_def sample_screen_def)
  have "print [65, 10, 66] sample_screen \<noteq> None" using print_keeps_screen [OF ok, of "[65, 10, 66]"] by auto
  then show ?thesis using ok print_keeps_screen [OF ok, of "[65, 10, 66]"] by blast
qed

text \<open>A backspace at the first position of the screen.\<close>

lemma backspace_at_home: "cursor s = 0 \<Longrightarrow> put_char 0x8 s = None"
  using put_char_cases [of s 8] is_backspace_runs [of s] by simp

text \<open>Digits and numbers.\<close>

definition hex_number :: "byte list \<Rightarrow> nat" where
  "hex_number ds = foldl (\<lambda>v d. 16 * v + (if unat d \<ge> 65 then unat d - 55 else unat d - 48)) 0 ds"

lemma unat_hex_digit: "d < 16 \<Longrightarrow> unat (hex_digit d) = (if d > 9 then d + 55 else d + 48)"
proof -
  assume d: "d < 16"
  have "unat (of_nat n :: byte) = n" if "n < 256" for n using that by (simp add: unat_of_nat)
  from this [of "d + 55"] this [of "d + 48"] show ?thesis using d by (simp add: hex_digit_def)
qed

lemma hex_digit_number: "d < 16 \<Longrightarrow> hex_number (ds @ [hex_digit d]) = 16 * hex_number ds + d"
  by (simp add: hex_number_def unat_hex_digit)

lemma hex_digit_zero: "0 < d \<Longrightarrow> d < 16 \<Longrightarrow> hex_digit d \<noteq> 48"
  using unat_hex_digit [of d] by (auto split: if_splits)

lemma put_int32_loop_number:
  "(flag \<longleftrightarrow> buffer \<noteq> []) \<Longrightarrow> hex_number (put_int32_loop number n flag buffer) = hex_number buffer * 16 ^ n + number mod 16 ^ n
    \<and> length (put_int32_loop number n flag buffer) \<le> length buffer + n
    \<and> (buffer \<noteq> [] \<longrightarrow> hd (put_int32_loop number n flag buffer) = hd buffer \<and> put_int32_loop number n flag buffer \<noteq> [])
    \<and> (buffer = [] \<longrightarrow> (put_int32_loop number n flag buffer = [] \<longleftrightarrow> number mod 16 ^ n = 0)
        \<and> (put_int32_loop number n flag buffer \<noteq> [] \<longrightarrow> hd (put_int32_loop number n flag buffer) \<noteq> 48))"
proof (induction n arbitrary: flag buffer)
  case 0
  then show ?case by (simp add: hex_number_def)
next
  case (Suc n)
  define dl where "dl = number div 16 ^ n mod 16"
  have dl: "dl < 16" by (simp add: dl_def)
  have split: "number mod 16 ^ Suc n = dl * 16 ^ n + number mod 16 ^ n"
    using mod_mult2_eq [of number "16 ^ n" 16] by (simp add: dl_def mult.commute)
  show ?case
  proof (cases "\<not> flag \<and> dl = 0")
    case True
    then have "put_int32_loop number (Suc n) flag buffer = put_int32_loop number n flag buffer" by (simp add: dl_def)
    moreover have "number mod 16 ^ Suc n = number mod 16 ^ n" using split True by simp
    ultimately show ?thesis using Suc.IH [OF Suc.prems] True Suc.prems
      by (simp del: put_int32_loop.simps add: hex_number_def)
  next
    case False
    then have "put_int32_loop number (Suc n) flag buffer = put_int32_loop number n True (buffer @ [hex_digit dl])"
      by (auto simp: dl_def [symmetric] Let_def)
    moreover have "dl \<noteq> 0 \<and> 0 < number mod 16 ^ Suc n" if "buffer = []" using False Suc.prems that split by simp
    ultimately show ?thesis using Suc.IH [of True "buffer @ [hex_digit dl]"] hex_digit_number [OF dl, of buffer] hex_digit_zero [of dl] dl split
      by (auto simp: algebra_simps hd_append simp del: put_int32_loop.simps)
  qed
qed

text \<open>The digits \<open>put_int32\<close> prints after \<open>0x\<close> are the hexadecimal representation of the number, at most
  eight of them and without leading zeros. For 0 there are none.\<close>

theorem put_int32_hex:
  assumes "number < 4294967296" and "ds = put_int32_loop number 8 False []"
  shows "put_int32 number s = Option.bind (print [48, 120] s) (print ds) \<and> hex_number ds = number \<and> length ds \<le> 8
    \<and> (ds = [] \<longleftrightarrow> number = 0) \<and> (0 < number \<longrightarrow> hd ds \<noteq> 48)"
  using put_int32_loop_number [of False "[]" number 8] assms by (auto simp: put_int32_def hex_number_def)

theorem put_int32_hex_witness:
  "hex_number (put_int32_loop 0xC0104 8 False []) = 0xC0104 \<and> put_int32_loop 0 8 False [] = []"
  using put_int32_hex [of "0xC0104" _ sample_screen, OF _ refl] put_int32_hex [of 0 _ sample_screen, OF _ refl] by simp

end
