(* ===== verification/Echo.thy ===== *)
theory Echo
  imports CmdLine Screen
begin

text \<open>
  What the user of the shell sees (\<open>shell/shell.c\<close> over \<open>kernel/print.S\<close>): the prompt, and the echo of
  the keys that \<open>readline\<close> takes. The theorem relates the screen to the line in the buffer.
\<close>

section \<open>Prompt and echo\<close>

definition print_prompt :: "byte list \<Rightarrow> screen \<Rightarrow> screen option" where
  "print_prompt cwd_cache s = do {
     let cursor_pos = get_cursor s;
     s \<leftarrow> (if cursor_pos mod 80 \<noteq> 0 then print [10] s else Some s);
     print (ascii ''[TestUser@localhos '' @ takeWhile (\<lambda>c. c \<noteq> 0) cwd_cache @ ascii '']$ '') s
   }"

text \<open>The loop for control-u.\<close>

fun erase_line :: "nat \<Rightarrow> screen \<Rightarrow> screen option" where
  "erase_line 0 s = Some s"
| "erase_line (Suc n) s = Option.bind (put_char 8 s) (erase_line n)"

definition no_enter :: "byte list" where
  "no_enter = ascii ''readline : cant'' @ [39] @ ascii ''t find entry key in the cmd_line,max num of char is 128'' @ [10]"

text \<open>\<open>readline_loop\<close> with the calls of \<open>putchar\<close>, \<open>clear\<close>, \<open>print_prompt\<close> and \<open>printf\<close>.\<close>

fun readline_shown ::
  "byte list \<Rightarrow> byte list \<Rightarrow> byte list \<Rightarrow> nat \<Rightarrow> nat \<Rightarrow> nat \<Rightarrow> screen \<Rightarrow> ((byte list \<times> nat) \<times> screen) option" where
  "readline_shown cwd [] buf pos count read_count s = None"
| "readline_shown cwd (k # keys) buf pos count read_count s = do {
     _ \<leftarrow> ensure (pos < length buf);
     let buf = buf[pos := k];
     if \<not> pos < count then do { s \<leftarrow> print no_enter s; Some ((buf, read_count), s) }
     else if k = 10 \<or> k = 13 then do { s \<leftarrow> put_char 10 s; Some ((buf[pos := 0], read_count), s) }
     else if k = 8 then
       (if read_count \<noteq> 0
        then do { s \<leftarrow> put_char 8 s; readline_shown cwd keys buf (pos - 1) count (read_count - 1) s }
        else readline_shown cwd keys buf pos count read_count s)
     else if k = 108 - 97 then do {
       s \<leftarrow> print_prompt cwd (cls_screen s);
       readline_shown cwd keys (buf[pos := 0]) pos count read_count s
     }
     else if k = 117 - 97 then do {
       s \<leftarrow> erase_line read_count s;
       readline_shown cwd keys buf (pos - read_count) count 0 s
     }
     else do { s \<leftarrow> put_char k s; readline_shown cwd keys buf (pos + 1) count (read_count + 1) s }
   }"

lemma readline_shown_line:
  "readline_shown cwd keys buf pos count read_count s = Some (x, s')
   \<Longrightarrow> readline_loop keys buf pos count read_count = Some x"
proof (induction keys arbitrary: buf pos read_count s)
  case (Cons k keys)
  then show ?case by (auto simp: Let_def bind_eq_Some_conv split: if_splits)
qed simp

section \<open>The line on the screen\<close>

text \<open>
  The line stands on the screen from position \<open>p\<close> on, the cursor behind it. The places behind the line
  up to the longest line there was, which has \<open>m\<close> characters, are blank; the rest is unchanged.
\<close>

definition typed :: "nat \<Rightarrow> (nat \<Rightarrow> byte) \<Rightarrow> nat \<Rightarrow> byte list \<Rightarrow> screen \<Rightarrow> bool" where
  "typed p v m line s \<longleftrightarrow> cursor s = p + length line \<and> length line \<le> m
     \<and> (\<forall>a. a < 2 * p \<or> 2 * (p + m) \<le> a \<longrightarrow> vram s a = v a)
     \<and> (\<forall>i < length line. vram s (2 * (p + i)) = line ! i \<and> vram s (2 * (p + i) + 1) = 7)
     \<and> (\<forall>i < m. length line \<le> i \<longrightarrow> vram s (2 * (p + i)) = 0 \<and> vram s (2 * (p + i) + 1) = 0)"

text \<open>The length of the longest line while the keys are typed.\<close>

fun longest :: "byte list \<Rightarrow> byte list \<Rightarrow> nat" where
  "longest [] line = length line"
| "longest (k # keys) line = max (length line) (longest keys (edit_key k line))"

lemma typed_put:
  assumes "typed p v m line s" and "k \<noteq> 8" and "k \<noteq> 10" and "k \<noteq> 13" and "p + length line < 1999"
  shows "\<exists>s'. put_char k s = Some s' \<and> typed p v (max m (length line + 1)) (line @ [k]) s'"
proof -
  have c: "cursor s = p + length line" "cursor s < 2000" using assms(1,5) by (simp_all add: typed_def)
  let ?s = "s\<lparr>vram := (vram s)(2 * cursor s := k, 2 * cursor s + 1 := 7), cursor := cursor s + 1\<rparr>"
  have "put_char k s = Some ?s"
    unfolding put_char_cases [OF c(2)] put_other_runs [OF c(2)] using assms(2-5) by (simp add: c(1))
  moreover have "typed p v (max m (length line + 1)) (line @ [k]) ?s"
    using assms(1) by (cases "length line < m")
      (auto simp: typed_def nth_append less_Suc_eq Suc_double_not_eq_double double_not_eq_Suc_double max_def)
  ultimately show ?thesis by blast
qed

lemma typed_back:
  assumes "typed p v m line s" and "line \<noteq> []" and "p + length line < 2000"
  shows "\<exists>s'. put_char 8 s = Some s' \<and> typed p v m (butlast line) s'"
proof -
  have c: "cursor s = p + length line" "cursor s < 2000" using assms(1,3) by (simp_all add: typed_def)
  obtain n where n: "length line = Suc n" using assms(2) by (cases line) auto
  let ?s = "s\<lparr>vram := (vram s)(2 * (p + n) := 0, 2 * (p + n) + 1 := 0), cursor := p + n\<rparr>"
  have "put_char 8 s = Some ?s"
    unfolding put_char_cases [OF c(2)] is_backspace_runs [OF c(2)] by (simp add: c(1) n)
  moreover have "typed p v m (butlast line) ?s"
    using assms(1) n by (auto simp: typed_def nth_butlast Suc_double_not_eq_double double_not_eq_Suc_double)
  ultimately show ?thesis by blast
qed

lemma typed_erase:
  assumes "typed p v m line s" and "p + length line < 2000"
  shows "\<exists>s'. erase_line (length line) s = Some s' \<and> typed p v m [] s'"
  using assms
proof (induction line arbitrary: s rule: rev_induct)
  case (snoc k line)
  obtain s1 where "put_char 8 s = Some s1" "typed p v m line s1"
    using typed_back [OF snoc.prems(1) _ snoc.prems(2)] by auto
  then show ?case using snoc.IH [of s1] snoc.prems(2) by simp
qed simp

lemma typed_enter:
  assumes "typed p v m line s" and "p + length line < 1920"
  shows "put_char 10 s = Some (s\<lparr>cursor := (p + length line) div 80 * 80 + 80\<rparr>)"
proof -
  have c: "cursor s = p + length line" using assms(1) by (simp add: typed_def)
  then have lt: "cursor s < 2000" using assms(2) by simp
  show ?thesis
    unfolding put_char_cases [OF lt] is_line_feed_runs [OF lt] using assms(2) by (simp add: c minus_mod_eq_div_mult)
qed

lemma readline_shown_typed:
  assumes "length buf = n" and "typed p v m line s" and "pos = length line"
    and "\<forall>i \<le> length keys. length (fold edit_key (take i keys) line) < n" and "set keys \<inter> {10, 11, 13} = {}"
    and "r = 10 \<or> r = 13" and "p + n \<le> 1920"
  shows "\<exists>x s1. readline_shown cwd (keys @ [r]) buf pos n pos s
      = Some (x, s1\<lparr>cursor := (p + length (fold edit_key keys line)) div 80 * 80 + 80\<rparr>)
    \<and> typed p v (max m (longest keys line)) (fold edit_key keys line) s1"
  using assms(1-5)
proof (induction keys arbitrary: buf pos m line s)
  case Nil
  then have "length line < n" and "max m (length line) = m" by (simp_all add: typed_def)
  then show ?case using typed_enter [OF Nil.prems(2)] Nil.prems assms(6,7) by (auto simp: Let_def)
next
  case (Cons k keys)
  let ?line = "edit_key k line"
  have fits: "\<forall>i \<le> length keys. length (fold edit_key (take i keys) ?line) < n"
    using Cons.prems(4) by (metis Suc_le_mono fold_simps(2) length_Cons o_apply take_Suc_Cons)
  have lt: "length line < n" using Cons.prems(4) by (metis fold_simps(1) le0 take0)
  have k: "k \<noteq> 10" "k \<noteq> 11" "k \<noteq> 13" and ks: "set keys \<inter> {10, 11, 13} = {}" using Cons.prems(5) by auto
  have step: ?case if "readline_shown cwd ((k # keys) @ [r]) buf pos n pos s
        = readline_shown cwd (keys @ [r]) b (length ?line) n (length ?line) s'"
      "length b = n" "typed p v (max m (length ?line)) ?line s'" for b s'
  proof -
    have "length line \<le> m" and "length ?line \<le> longest keys ?line"
      using Cons.prems(2) by (simp add: typed_def, cases keys) simp_all
    then have "max (max m (length ?line)) (longest keys ?line) = max m (longest (k # keys) line)" by simp
    then show ?thesis using Cons.IH [OF that(2,3) refl fits ks] that(1) by simp
  qed
  have m: "length line \<le> m" using Cons.prems(2) by (simp add: typed_def)
  have room: "p + length line < 1999" "p + length line < 2000" using lt assms(7) by simp_all
  consider "k = 8" "line \<noteq> []" | "k = 8" "line = []" | "k = 20" | "k \<noteq> 8" "k \<noteq> 20" by blast
  then show ?case
  proof cases
    case 1
    obtain s1 where "put_char 8 s = Some s1" "typed p v m (butlast line) s1" using typed_back [OF Cons.prems(2) 1(2) room(2)] by blast
    moreover have "max m (length line - Suc 0) = m" using m by simp
    ultimately show ?thesis using 1 Cons.prems(1,3) lt by (intro step [of "buf[pos := k]" s1]) (simp_all add: edit_key_def Let_def)
  next
    case 2
    moreover have "max m 0 = m" by simp
    ultimately show ?thesis using Cons.prems(1-3) lt by (intro step [of "buf[pos := k]" s]) (simp_all add: edit_key_def Let_def)
  next
    case 3
    obtain s1 where "erase_line (length line) s = Some s1" "typed p v m [] s1" using typed_erase [OF Cons.prems(2) room(2)] by blast
    then show ?thesis using 3 Cons.prems(1,3) lt by (intro step [of "buf[pos := k]" s1]) (simp_all add: edit_key_def Let_def)
  next
    case 4
    obtain s1 where "put_char k s = Some s1" "typed p v (max m (length line + 1)) (line @ [k]) s1"
      using typed_put [OF Cons.prems(2) 4(1) k(1,3) room(1)] by blast
    then show ?thesis using 4 k Cons.prems(1,3) lt by (intro step [of "buf[pos := k]" s1]) (simp_all add: edit_key_def Let_def)
  qed
qed

text \<open>C40: While a line is edited the screen shows it: after the enter key the buffer holds the edited line,
  the screen shows these characters from the place of the cursor on, in the normal colours, the
  places of all characters that were deleted are blank, everything else on the screen is as it was,
  and the cursor is at the start of the next row. (Without control-l, which clears the screen, and
  with the line above the last row.)\<close>

theorem readline_echoes:
  assumes "length buf = cmd_len" and "line_fits cmd_len keys" and "set keys \<inter> {10, 11, 13} = {}"
    and "r \<in> {10, 13}" and "cursor s = p" and "p \<le> 1920 - cmd_len"
  shows "\<exists>buf' s'. readline_shown cwd (keys @ [r]) buf 0 cmd_len 0 s = Some ((buf', length (edited keys)), s')
    \<and> take (length (edited keys)) buf' = edited keys \<and> buf' ! length (edited keys) = 0
    \<and> (\<forall>i < length (edited keys). vram s' (2 * (p + i)) = edited keys ! i \<and> vram s' (2 * (p + i) + 1) = 7)
    \<and> (\<forall>i < longest keys []. length (edited keys) \<le> i \<longrightarrow> vram s' (2 * (p + i)) = 0 \<and> vram s' (2 * (p + i) + 1) = 0)
    \<and> (\<forall>a. a < 2 * p \<or> 2 * (p + longest keys []) \<le> a \<longrightarrow> vram s' a = vram s a)
    \<and> cursor s' = (p + length (edited keys)) div 80 * 80 + 80"
proof -
  have fits: "\<forall>i \<le> length keys. length (fold edit_key (take i keys) []) < cmd_len"
    using assms(2) by (simp add: line_fits_def edited_def)
  have t: "typed p (vram s) 0 [] s" using assms(5) by (simp add: typed_def)
  have r: "r = 10 \<or> r = 13" and room: "p + cmd_len \<le> 1920" using assms(4,6) by (auto simp: cmd_len_def)
  have nl: "10 \<notin> set keys" "13 \<notin> set keys" and n: "0 < cmd_len" using assms(3) by (auto simp: cmd_len_def)
  obtain x s1 where x: "readline_shown cwd (keys @ [r]) buf 0 cmd_len 0 s
        = Some (x, s1\<lparr>cursor := (p + length (edited keys)) div 80 * 80 + 80\<rparr>)" "typed p (vram s) (longest keys []) (edited keys) s1"
    using readline_shown_typed [OF assms(1) t _ fits assms(3) r room, of 0 cwd] by (auto simp: edited_def)
  obtain buf' where b: "readline_loop (keys @ [r]) buf 0 cmd_len 0 = Some (buf', length (edited keys))"
      "take (length (edited keys)) buf' = edited keys" "buf' ! length (edited keys) = 0"
    using readline_loop_edits [OF assms(1) _ _ n fits nl r] by (auto simp: edited_def)
  have "x = (buf', length (edited keys))" using readline_shown_line [OF x(1)] b(1) by simp
  then show ?thesis using x b(2,3) by (intro exI [of _ buf']) (auto simp: typed_def)
qed

text \<open>The keys l, x, s, backspace, backspace, a and enter at the start of the second row.\<close>

theorem readline_echoes_witness:
  "\<exists>buf' s'. readline_shown [] [108, 120, 115, 8, 8, 97, 13] (replicate cmd_len 0) 0 cmd_len 0 (sample_screen\<lparr>cursor := 80\<rparr>) = Some ((buf', 2), s')
     \<and> vram s' 160 = 108 \<and> vram s' 162 = 97 \<and> vram s' 164 = 0 \<and> vram s' 166 = vram sample_screen 166"
proof -
  let ?keys = "[108, 120, 115, 8, 8, 97] :: byte list"
  have "line_fits cmd_len ?keys"
    unfolding line_fits_def
  proof (intro allI impI)
    fix i assume "i \<le> length ?keys"
    then have "i \<in> {0, 1, 2, 3, 4, 5, 6}" by auto
    then show "length (edited (take i ?keys)) < cmd_len"
      by (auto simp: edited_def edit_key_def cmd_len_def)
  qed
  moreover have e: "edited ?keys = [108, 97]" and "longest ?keys [] = 3" by (simp_all add: edited_def edit_key_def)
  moreover have "(80 :: nat) \<le> 1920 - cmd_len" by (simp add: cmd_len_def)
  ultimately obtain buf' s' where run: "readline_shown [] (?keys @ [13]) (replicate cmd_len 0) 0 cmd_len 0 (sample_screen\<lparr>cursor := 80\<rparr>) = Some ((buf', 2), s')"
      and cells: "\<forall>i < 2. vram s' (2 * (80 + i)) = [108, 97] ! i" "\<forall>i < 3. 2 \<le> i \<longrightarrow> vram s' (2 * (80 + i)) = 0"
        "\<forall>a. a < 160 \<or> 166 \<le> a \<longrightarrow> vram s' a = vram sample_screen a"
    using readline_echoes [of "replicate cmd_len 0" ?keys 13 "sample_screen\<lparr>cursor := 80\<rparr>" "80" "[]"]
    by (auto simp del: readline_shown.simps longest.simps)
  have "vram s' 160 = 108" "vram s' 162 = 97" "vram s' 164 = 0" "vram s' 166 = vram sample_screen 166"
    using cells(1) [rule_format, of 0] cells(1) [rule_format, of 1] cells(2) [rule_format, of 2] cells(3) by simp_all
  then show ?thesis using run by (intro exI [of _ buf'] exI [of _ s']) (simp del: readline_shown.simps)
qed

end
