(* ===== verification/Descriptors.thy ===== *)
theory Descriptors
  imports Process
begin

text \<open>
  The tables the processor works from: segment descriptors and the task state segment
  (\<open>userprog/tss.c\<close>), interrupt gates, the interrupt controller and the interrupt flag
  (\<open>kernel/interrupt.c\<close>). The lemmas read the fields of a descriptor back as the processor
  puts them together.
\<close>

section \<open>Segment descriptors\<close>

record gdt_desc =
  limit_low_word :: nat
  base_low_word :: nat
  base_mid_byte :: nat
  attr_low_byte :: nat
  limit_hight_attr_hight :: nat
  base_high_byte :: nat

definition make_gdt_desc :: "nat \<Rightarrow> nat \<Rightarrow> nat \<Rightarrow> nat \<Rightarrow> gdt_desc" where
  "make_gdt_desc desc_base limit attr_low attr_high =
     \<lparr>limit_low_word = u16 (limit AND 0x0ffff), base_low_word = u16 (desc_base AND 0x0000ffff),
      base_mid_byte = u8 (drop_bit 16 (desc_base AND 0x00ff0000)), attr_low_byte = u8 attr_low,
      limit_hight_attr_hight = u8 (drop_bit 16 (limit AND 0xf0000) + attr_high),
      base_high_byte = u8 (drop_bit 24 desc_base)\<rparr>"

definition GDT_BASE :: nat where "GDT_BASE = 0xc0000919"
definition SELECTOR_K_CODE :: nat where "SELECTOR_K_CODE = 1 * 8 + 0 + 0"
definition SELECTOR_K_STACK :: nat where "SELECTOR_K_STACK = 2 * 8 + 0 + 0"
definition SELECTOR_TSS :: nat where "SELECTOR_TSS = 4 * 8 + 0 + 0"
definition GDT_ATTR_HIGH :: nat where "GDT_ATTR_HIGH = 1 * 128 + 1 * 64 + 0 * 32 + 0 * 16"
definition GDT_ATTR_LOW_CODE_DPL3 :: nat where "GDT_ATTR_LOW_CODE_DPL3 = 1 * 128 + 3 * 32 + 1 * 16 + 8"
definition GDT_ATTR_LOW_DATA_DPL3 :: nat where "GDT_ATTR_LOW_DATA_DPL3 = 1 * 128 + 3 * 32 + 1 * 16 + 2"
definition TSS_ATTR_LOW :: nat where "TSS_ATTR_LOW = 1 * 128 + 0 * 32 + 0 * 16 + 9"
definition TSS_ATTR_HIGH :: nat where "TSS_ATTR_HIGH = 1 * 128 + 0 * 16 + 1 * 64"

text \<open>
  The task state segment is 27 words, \<open>esp0\<close> the second (the field \<open>tss_esp0\<close> of the scheduler's state,
  which \<open>update_tss_esp\<close> sets) and \<open>ss0\<close> the third; the descriptors are numbered by their place in the
  table.
\<close>

record segs =
  tss :: "nat list"
  gdt :: "nat \<Rightarrow> gdt_desc"
  gdtr :: nat
  tr :: nat

definition TSS_size :: nat where "TSS_size = 27 * 4"

definition tss_init :: "nat \<Rightarrow> segs \<Rightarrow> segs" where
  "tss_init tss_addr s =
     s\<lparr>tss := (replicate 27 0)[2 := SELECTOR_K_STACK],
       gdt := (gdt s)(4 := make_gdt_desc tss_addr (TSS_size - 1) TSS_ATTR_LOW TSS_ATTR_HIGH,
         5 := make_gdt_desc 0 0xfffff GDT_ATTR_LOW_CODE_DPL3 GDT_ATTR_HIGH,
         6 := make_gdt_desc 0 0xfffff GDT_ATTR_LOW_DATA_DPL3 GDT_ATTR_HIGH),
       gdtr := push_bit 16 GDT_BASE + 55, tr := SELECTOR_TSS\<rparr>"

section \<open>Interrupt gates\<close>

record Gate_desc =
  func_offset_low_word :: nat
  selector :: nat
  dcount :: nat
  attributes :: nat
  func_offset_high_word :: nat

definition IDT_DESC_CNT :: nat where "IDT_DESC_CNT = 0x81"
definition SYS_CALL_IDT_NUMBER :: nat where "SYS_CALL_IDT_NUMBER = 0x80"
definition IDT_ATTRIBUTE :: nat where "IDT_ATTRIBUTE = push_bit 7 1 OR push_bit 5 0 OR push_bit 4 0 OR 0xE"
definition IDT_ATTRIBUTE_DPL3 :: nat where "IDT_ATTRIBUTE_DPL3 = push_bit 7 1 OR push_bit 5 3 OR push_bit 4 0 OR 0xE"

definition make_idt_desc :: "nat \<Rightarrow> nat \<Rightarrow> Gate_desc" where
  "make_idt_desc attr func =
     \<lparr>func_offset_low_word = u16 func, selector = SELECTOR_K_CODE, dcount = 0, attributes = u8 attr,
      func_offset_high_word = u16 (drop_bit 16 (func AND 0xffff0000))\<rparr>"

fun idt_init_loop :: "(nat \<Rightarrow> nat) \<Rightarrow> nat \<Rightarrow> nat \<Rightarrow> Gate_desc list \<Rightarrow> Gate_desc list option" where
  "idt_init_loop intr_entry_table i 0 idt = Some idt"
| "idt_init_loop intr_entry_table i (Suc n) idt = do {
     idt \<leftarrow> wr_at idt i (make_idt_desc IDT_ATTRIBUTE (intr_entry_table i));
     idt_init_loop intr_entry_table (i + 1) n idt
   }"

definition idt_init :: "(nat \<Rightarrow> nat) \<Rightarrow> nat \<Rightarrow> Gate_desc list \<Rightarrow> Gate_desc list option" where
  "idt_init intr_entry_table syscall_handler idt = do {
     idt \<leftarrow> idt_init_loop intr_entry_table 0 0x30 idt;
     wr_at idt SYS_CALL_IDT_NUMBER (make_idt_desc IDT_ATTRIBUTE_DPL3 syscall_handler)
   }"

text \<open>The handlers that the entries call, and the names of the exceptions.\<close>

definition exception_names :: "string list" where
  "exception_names = [''#DE Divide Error'', ''#DB Debug Exception'', ''NMI Interrupt'', ''#BP Breakpoint Exception'',
     ''#OF Overflow Exception'', ''#BR BOUND Range Exceeded Exception'', ''#UD Invalid Opcode Exception'',
     ''#NM Device Not Available Exception'', ''#DF Double Fault Exception'', ''Coprocessor Segment Overrun'',
     ''#TS Invalid TSS Exception'', ''#NP Segment Not Present'', ''#SS Stack Fault Exception'',
     ''#GP General Protection Exception'', ''#PF Page-Fault Exception'', ''unknown'',
     ''#MF x87 FPU Floating-Point Error'', ''#AC Alignment Check Exception'', ''#MC Machine-Check Exception'',
     ''#XF SIMD Floating-Point Exception'']"

definition register_intr :: "nat \<Rightarrow> nat list \<times> string list" where
  "register_intr general_handler =
     (replicate IDT_DESC_CNT general_handler,
      exception_names @ replicate (IDT_DESC_CNT - length exception_names) ''unknown'')"

definition register_handler :: "nat \<Rightarrow> nat \<Rightarrow> nat list \<Rightarrow> nat list option" where
  "register_handler vector func idt_table = wr_at idt_table vector func"

text \<open>The bytes written to the two interrupt controllers, by port.\<close>

definition PIC_M_CTRL :: nat where "PIC_M_CTRL = 0x20"
definition PIC_M_DATA :: nat where "PIC_M_DATA = 0x21"
definition PIC_S_CTRL :: nat where "PIC_S_CTRL = 0xa0"
definition PIC_S_DATA :: nat where "PIC_S_DATA = 0xa1"

definition pic_init :: "(nat \<times> nat) list" where
  "pic_init = [(PIC_M_CTRL, 0x11), (PIC_M_DATA, 0x20), (PIC_M_DATA, 0x4), (PIC_M_DATA, 0x1),
     (PIC_S_CTRL, 0x11), (PIC_S_DATA, 0x28), (PIC_S_DATA, 0x2), (PIC_S_DATA, 0x1),
     (PIC_M_DATA, 0xf8), (PIC_S_DATA, 0xBF)]"

record intr_tables =
  idt :: "Gate_desc list"
  idt_table :: "nat list"
  exceptionName :: "string list"
  idtr :: nat
  pic_writes :: "(nat \<times> nat) list"

definition idt_load :: "(nat \<Rightarrow> nat) \<Rightarrow> nat \<Rightarrow> nat \<Rightarrow> nat \<Rightarrow> intr_tables \<Rightarrow> intr_tables option" where
  "idt_load intr_entry_table syscall_handler general_handler idt_addr t = do {
     d \<leftarrow> idt_init intr_entry_table syscall_handler (idt t);
     let (h, names) = register_intr general_handler;
     Some (t\<lparr>idt := d, idt_table := h, exceptionName := names, pic_writes := pic_writes t @ pic_init,
       idtr := (8 * IDT_DESC_CNT - 1) OR push_bit 16 idt_addr\<rparr>)
   }"

section \<open>The interrupt flag\<close>

definition EFLAGS_IF :: nat where "EFLAGS_IF = 0x200"

definition get_intr_status :: "nat \<Rightarrow> bool" where
  "get_intr_status eflags \<longleftrightarrow> eflags AND EFLAGS_IF \<noteq> 0"

text \<open>\<open>sti\<close> and \<open>cli\<close>.\<close>

definition sti :: "nat \<Rightarrow> nat" where "sti eflags = set_bit 9 eflags"
definition cli :: "nat \<Rightarrow> nat" where "cli eflags = unset_bit 9 eflags"

definition intr_enable :: "nat \<Rightarrow> bool \<times> nat" where
  "intr_enable eflags = (let old_status = get_intr_status eflags in (old_status, if \<not> old_status then sti eflags else eflags))"

definition intr_disable :: "nat \<Rightarrow> bool \<times> nat" where
  "intr_disable eflags = (let old_status = get_intr_status eflags in (old_status, if old_status then cli eflags else eflags))"

definition intr_set_status :: "bool \<Rightarrow> nat \<Rightarrow> nat" where
  "intr_set_status intrStatus eflags = (if intrStatus then sti eflags else cli eflags)"

section \<open>Reading descriptors\<close>

text \<open>The fields as the processor puts them together.\<close>

definition seg_base :: "gdt_desc \<Rightarrow> nat" where
  "seg_base d = base_low_word d + 65536 * base_mid_byte d + 16777216 * base_high_byte d"

definition seg_limit :: "gdt_desc \<Rightarrow> nat" where
  "seg_limit d = limit_low_word d + 65536 * (limit_hight_attr_hight d mod 16)"

definition seg_dpl :: "gdt_desc \<Rightarrow> nat" where
  "seg_dpl d = attr_low_byte d div 32 mod 4"

text \<open>The last offset of the segment, with the granularity.\<close>

definition seg_last :: "gdt_desc \<Rightarrow> nat" where
  "seg_last d = (if limit_hight_attr_hight d div 128 mod 2 = 1 then 4096 * seg_limit d + 4095 else seg_limit d)"

definition gate_offset :: "Gate_desc \<Rightarrow> nat" where
  "gate_offset g = func_offset_low_word g + 65536 * func_offset_high_word g"

definition gate_present :: "Gate_desc \<Rightarrow> bool" where
  "gate_present g \<longleftrightarrow> 128 \<le> attributes g"

definition gate_dpl :: "Gate_desc \<Rightarrow> nat" where
  "gate_dpl g = attributes g div 32 mod 4"

lemma and_low: "x AND 0xffff = x mod (65536 :: nat)" "x AND 0xff = x mod (256 :: nat)" "x AND 0xf = x mod (16 :: nat)"
  using take_bit_eq_mask [of 16 x] take_bit_eq_mask [of 8 x] take_bit_eq_mask [of 4 x]
  by (simp_all add: mask_eq_exp_minus_1 take_bit_eq_mod)

lemma drop_bit_consts:
  "drop_bit 16 (0x00ff0000 :: nat) = 0xff" "drop_bit 16 (0xf0000 :: nat) = 0xf" "drop_bit 16 (0xffff0000 :: nat) = 0xffff"
  by (simp_all add: drop_bit_eq_div)

lemma drop_fields:
  "drop_bit 16 (x AND 0x00ff0000) = drop_bit 16 x mod (256 :: nat)"
  "drop_bit 16 (x AND 0xf0000) = drop_bit 16 x mod (16 :: nat)"
  "drop_bit 16 (x AND 0xffff0000) = drop_bit 16 x mod (65536 :: nat)"
  by (simp_all only: drop_bit_and drop_bit_consts and_low)

lemmas and_fields = drop_fields [unfolded drop_bit_eq_div, simplified]

lemma split_word32:
  "x < 4294967296 \<Longrightarrow> x mod 65536 + 65536 * (x div 65536 mod 256) + 16777216 * (x div 16777216 mod 256) = (x :: nat)"
  "x < 4294967296 \<Longrightarrow> x mod 65536 + 65536 * (x div 65536 mod 65536) = (x :: nat)"
  "x < 1048576 \<Longrightarrow> x mod 65536 + 65536 * (x div 65536 mod 16) = (x :: nat)"
proof -
  have d: "x mod 65536 + 65536 * (x div 65536) = x" by simp
  show "x < 4294967296 \<Longrightarrow> x mod 65536 + 65536 * (x div 65536 mod 65536) = x"
    "x < 1048576 \<Longrightarrow> x mod 65536 + 65536 * (x div 65536 mod 16) = x"
    using d by (simp_all add: less_mult_imp_div_less)
  have "x div 65536 mod 256 + 256 * (x div 65536 div 256) = x div 65536" by simp
  moreover have "x div 65536 div 256 = x div 16777216" by (simp flip: div_mult2_eq)
  ultimately have "x mod 65536 + 65536 * (x div 65536 mod 256) + 16777216 * (x div 16777216) = x"
    using d by linarith
  then show "x < 4294967296 \<Longrightarrow> x mod 65536 + 65536 * (x div 65536 mod 256) + 16777216 * (x div 16777216 mod 256) = x"
    by (simp add: less_mult_imp_div_less)
qed

text \<open>A descriptor made by \<open>make_gdt_desc\<close> gives the processor back the 32-bit base, the 20-bit limit
  and both attribute fields it was made from.\<close>

lemma make_gdt_desc_fields:
  assumes "desc_base < 2 ^ 32" and "limit < 2 ^ 20" and "attr_low < 256" and "attr_high < 256" and "attr_high mod 16 = 0"
  shows "seg_base (make_gdt_desc desc_base limit attr_low attr_high) = desc_base \<and>
    seg_limit (make_gdt_desc desc_base limit attr_low attr_high) = limit \<and>
    attr_low_byte (make_gdt_desc desc_base limit attr_low attr_high) = attr_low \<and>
    limit_hight_attr_hight (make_gdt_desc desc_base limit attr_low attr_high) div 16 * 16 = attr_high"
proof -
  let ?h = "limit div 65536 mod 16"
  have h: "?h < 16" by simp
  obtain k where k: "attr_high = 16 * k" using assms(5) by (auto simp: mod_eq_0_iff_dvd)
  then have "k < 16" using assms(4) by simp
  then have "?h + attr_high < 256" using h k by linarith
  then have "u8 (?h + attr_high) = ?h + attr_high" by (simp add: u8_def)
  moreover have "(?h + attr_high) mod 16 = ?h" and "(?h + attr_high) div 16 * 16 = attr_high" by (simp_all add: k)
  ultimately show ?thesis using assms
    by (simp add: make_gdt_desc_def seg_base_def seg_limit_def and_low and_fields drop_bit_eq_div u16_def u8_def split_word32)
qed

text \<open>Both user segments reach every byte of the address space and have privilege level 3.\<close>

lemma user_segments_flat:
  "seg_base (gdt (tss_init a s) 5) = 0" "seg_last (gdt (tss_init a s) 5) = 2 ^ 32 - 1" "seg_dpl (gdt (tss_init a s) 5) = 3"
  "seg_base (gdt (tss_init a s) 6) = 0" "seg_last (gdt (tss_init a s) 6) = 2 ^ 32 - 1" "seg_dpl (gdt (tss_init a s) 6) = 3"
  by (simp_all add: tss_init_def make_gdt_desc_def seg_base_def seg_last_def seg_dpl_def seg_limit_def and_low and_fields
      drop_bit_eq_div u16_def u8_def GDT_ATTR_LOW_CODE_DPL3_def GDT_ATTR_LOW_DATA_DPL3_def GDT_ATTR_HIGH_def)

text \<open>The task state segment is \<open>27 * 4\<close> bytes long, but its descriptor counts the limit in pages.\<close>

lemma tss_limit_in_pages: "seg_last (gdt (tss_init a s) 4) = 4096 * (TSS_size - 1) + 4095"
  by (simp add: tss_init_def make_gdt_desc_def seg_last_def seg_limit_def and_low and_fields
      drop_bit_eq_div u16_def u8_def TSS_ATTR_LOW_def TSS_ATTR_HIGH_def TSS_size_def)

section \<open>The interrupt descriptor table\<close>

lemma make_idt_desc_reads:
  assumes "func < 4294967296" and "attr < 256"
  shows "gate_offset (make_idt_desc attr func) = func" and "attributes (make_idt_desc attr func) = attr"
    and "selector (make_idt_desc attr func) = SELECTOR_K_CODE"
  using assms by (simp_all add: make_idt_desc_def gate_offset_def and_low and_fields drop_bit_eq_div u16_def u8_def split_word32)

lemma idt_init_loop_ok:
  assumes "i + n \<le> length table"
  shows "\<exists>d. idt_init_loop e i n table = Some d \<and> length d = length table \<and>
    (\<forall>j. d ! j = (if i \<le> j \<and> j < i + n then make_idt_desc IDT_ATTRIBUTE (e j) else table ! j))"
  using assms
proof (induction n arbitrary: i table)
  case (Suc n)
  let ?d = "table[i := make_idt_desc IDT_ATTRIBUTE (e i)]"
  have "i + 1 + n \<le> length ?d" using Suc.prems by simp
  from Suc.IH [OF this] obtain d where d: "idt_init_loop e (i + 1) n ?d = Some d" "length d = length table"
    "\<forall>j. d ! j = (if i + 1 \<le> j \<and> j < i + 1 + n then make_idt_desc IDT_ATTRIBUTE (e j) else ?d ! j)"
    by (auto simp del: One_nat_def)
  have "d ! j = (if i \<le> j \<and> j < i + Suc n then make_idt_desc IDT_ATTRIBUTE (e j) else table ! j)" for j
    using d(3) Suc.prems by (cases "j = i") (auto simp: nth_list_update)
  then show ?case using d Suc.prems by (simp add: wr_at_def)
qed simp

text \<open>C36: After \<open>idt_init\<close> on an empty table every interrupt vector below 0x30 leads to its entry and
  vector 0x80 to the system call handler, through gates of the kernel's code segment; the gates from
  0x30 to 0x7f stay absent. A program of privilege level 3 can enter the kernel with an \<open>int\<close>
  instruction through gate 0x80 and through no other.\<close>

theorem idt_init_gates:
  assumes "length table = IDT_DESC_CNT" and "\<forall>g \<in> set table. \<not> gate_present g"
    and "\<forall>v < 0x30. intr_entry_table v < 2 ^ 32" and "syscall_handler < 2 ^ 32"
  shows "\<exists>d. idt_init intr_entry_table syscall_handler table = Some d \<and> length d = IDT_DESC_CNT \<and>
    (\<forall>v < 0x30. gate_present (d ! v) \<and> gate_offset (d ! v) = intr_entry_table v \<and> selector (d ! v) = SELECTOR_K_CODE) \<and>
    gate_offset (d ! 0x80) = syscall_handler \<and> selector (d ! 0x80) = SELECTOR_K_CODE \<and>
    (\<forall>v < IDT_DESC_CNT. gate_present (d ! v) \<longleftrightarrow> v < 0x30 \<or> v = SYS_CALL_IDT_NUMBER) \<and>
    (\<forall>v < IDT_DESC_CNT. (gate_present (d ! v) \<and> gate_dpl (d ! v) = 3) \<longleftrightarrow> v = SYS_CALL_IDT_NUMBER)"
proof -
  have len: "0 + 0x30 \<le> length table" using assms(1) by (simp add: IDT_DESC_CNT_def)
  from idt_init_loop_ok [OF len] obtain c where c: "idt_init_loop intr_entry_table 0 0x30 table = Some c"
    "length c = length table"
    "\<forall>j. c ! j = (if 0 \<le> j \<and> j < 0 + 0x30 then make_idt_desc IDT_ATTRIBUTE (intr_entry_table j) else table ! j)"
    by blast
  define d where "d = c[SYS_CALL_IDT_NUMBER := make_idt_desc IDT_ATTRIBUTE_DPL3 syscall_handler]"
  have init: "idt_init intr_entry_table syscall_handler table = Some d" and ld: "length d = IDT_DESC_CNT"
    using c(1,2) assms(1) by (simp_all add: idt_init_def d_def wr_at_def SYS_CALL_IDT_NUMBER_def IDT_DESC_CNT_def)
  have at: "IDT_ATTRIBUTE = 0x8e" "IDT_ATTRIBUTE_DPL3 = 0xee" by code_simp+
  have low: "d ! v = make_idt_desc 0x8e (intr_entry_table v)" if "v < 0x30" for v
    using c(3) that by (simp add: d_def SYS_CALL_IDT_NUMBER_def at)
  have sys: "d ! 0x80 = make_idt_desc 0xee syscall_handler"
    using c(2) assms(1) by (simp add: d_def SYS_CALL_IDT_NUMBER_def IDT_DESC_CNT_def at)
  have rest: "\<not> gate_present (d ! v)" if "0x30 \<le> v" "v < IDT_DESC_CNT" "v \<noteq> SYS_CALL_IDT_NUMBER" for v
    using c(3) that assms(1,2) by (simp add: d_def)
  have "(gate_present (d ! v) \<and> gate_dpl (d ! v) = 3) \<longleftrightarrow> v = SYS_CALL_IDT_NUMBER" if "v < IDT_DESC_CNT" for v
  proof (cases "v < 0x30")
    case True
    then show ?thesis using low assms(3)
      by (simp add: make_idt_desc_reads gate_dpl_def SYS_CALL_IDT_NUMBER_def)
  next
    case False
    then show ?thesis using rest that sys assms(4)
      by (cases "v = SYS_CALL_IDT_NUMBER")
        (auto simp: make_idt_desc_reads gate_dpl_def gate_present_def SYS_CALL_IDT_NUMBER_def)
  qed
  moreover have "gate_present (d ! v) \<longleftrightarrow> v < 0x30 \<or> v = SYS_CALL_IDT_NUMBER" if "v < IDT_DESC_CNT" for v
    using low [of v] sys rest [of v] that assms(3,4)
    by (cases "v < 0x30"; cases "v = SYS_CALL_IDT_NUMBER")
      (simp_all add: make_idt_desc_reads gate_present_def SYS_CALL_IDT_NUMBER_def)
  ultimately show ?thesis using init ld low sys assms(3,4)
    by (simp add: make_idt_desc_reads gate_present_def)
qed

definition absent_gate :: Gate_desc where
  "absent_gate = \<lparr>func_offset_low_word = 0, selector = 0, dcount = 0, attributes = 0, func_offset_high_word = 0\<rparr>"

theorem idt_init_gates_witness:
  "\<exists>d. idt_init (\<lambda>v. 0xc0001500 + 32 * v) 0xc0002000 (replicate IDT_DESC_CNT absent_gate) = Some d \<and>
    gate_offset (d ! 0x80) = 0xc0002000 \<and> gate_present (d ! 0x2f) \<and> \<not> gate_present (d ! 0x30)"
  using idt_init_gates [of "replicate IDT_DESC_CNT absent_gate" "\<lambda>v. 0xc0001500 + 32 * v" "0xc0002000"]
  by (auto simp: absent_gate_def gate_present_def IDT_DESC_CNT_def SYS_CALL_IDT_NUMBER_def)

section \<open>The interrupt flag afterwards\<close>

text \<open>Restoring the status that \<open>intr_disable\<close> returned gives the flag back as it was.\<close>

lemma get_intr_status_bit: "get_intr_status e \<longleftrightarrow> bit e 9"
proof -
  have "(512 :: nat) = 2 ^ 9" by simp
  then show ?thesis
    using and_exp_eq_0_iff_not_bit [of e 9] by (simp add: get_intr_status_def EFLAGS_IF_def)
qed

lemma intr_disable_restore:
  "\<not> get_intr_status (snd (intr_disable e))"
  "intr_set_status (fst (intr_disable e)) (snd (intr_disable e)) = e"
  by (auto simp: intr_disable_def intr_set_status_def Let_def get_intr_status_bit cli_def sti_def
      bit_simps intro!: bit_eqI)

lemma intr_enable_restore:
  "get_intr_status (snd (intr_enable e))"
  "intr_set_status (fst (intr_enable e)) (snd (intr_enable e)) = e"
  by (auto simp: intr_enable_def intr_set_status_def Let_def get_intr_status_bit cli_def sti_def
      bit_simps intro!: bit_eqI)

end
