(* ===== verification/Spec2Isabelle.thy ===== *)
theory Spec2Isabelle
  imports Prelude Bitmap DList Sched Sync IoQueue CString Stdio FsState Inode FileTable Dir FileIO
    Path Pipe FileSys FsInit Memory Paging PageAlloc Heap Keyboard Threads WaitExit
    Ps CmdLine ShellCmd Timer Disk DiskInit Process Fork ForkSpace Exec
    Switch Syscall Screen Echo Descriptors
begin

text \<open>
  A model of the TieZhu operating system, a small 32 bit x86 kernel written in C, with proofs of
  what its parts promise.

  \<^bold>\<open>The program.\<close> The kernel multiplexes threads and processes (\<open>thread/thread.c\<close>,
  \<open>userprog/\<close>) with a round-robin scheduler driven by the timer interrupt (\<open>device/timer.c\<close>);
  semaphores and locks (\<open>thread/sync.c\<close>) are built on blocking and waking. Ring buffers
  (\<open>device/ioqueue.c\<close>) carry key strokes and pipe data. A file system (\<open>fs/\<close>) keeps inodes,
  directories and block bitmaps on a partition of an IDE disk (\<open>device/ide.c\<close>) and offers the
  usual calls; pipes (\<open>shell/pipe.c\<close>) share the file table with files. Bitmaps, linked lists and
  string functions (\<open>kernel/\<close>) are used everywhere.

  \<^bold>\<open>Conventions.\<close> Code that changes state is a function that takes the state (a record) and
  returns the new one in an option. \<open>None\<close> means that the code does not return normally from
  this call: a failing \<open>assert\<close> (the kernel stops), an access outside an array or through a
  null pointer, a wait that only another thread can end, or a loop that does not end. Error
  codes and false results of the code are ordinary values. Machine integers are natural numbers
  or integers with the wrap-around written out (\<open>u8\<close>, \<open>u32\<close>, \<open>add32\<close>, ... of theory
  \<open>Prelude\<close>); bytes are words of 8 bits. Addresses are natural numbers and \<open>NULL\<close> is 0.
  Output for debugging (\<open>dbg_printf\<close>, which returns at once) is left out.

  \<^bold>\<open>Theories.\<close>
  \<^item> \<open>Prelude\<close>: integers at their width, the option monad's conditions, parts of byte lists,
    little-endian words.
  \<^item> \<open>Bitmap\<close> (\<open>kernel/bitmap.c\<close>): the operations on the bytes of a bitmap; they are related to
    the abstract list of bits (\<open>bmbit\<close>) and to the first free run.
  \<^item> \<open>DList\<close> (\<open>kernel/list.c\<close>): the pointer operations on a store of nodes; \<open>dlist\<close> is the
    invariant that a list represents a sequence. The locale of a double-ended sequence is
    interpreted on them.
  \<^item> \<open>Sched\<close> (\<open>thread/thread.c\<close>, \<open>device/timer.c\<close>, \<open>process_activate\<close>): the task structures, the
    ready queue, and the steps of the scheduler as an inductive relation with its invariant; runs of
    events (timer interrupts mixed with what threads do) and how long a ready thread waits in them.
  \<^item> \<open>Sync\<close> (\<open>thread/sync.c\<close>): semaphores and locks, split at the points where the running thread
    can change; all interleavings are the relation \<open>lock_step\<close>.
  \<^item> \<open>IoQueue\<close> (\<open>device/ioqueue.c\<close>): the ring of 64 bytes, refined to a list of at most 63.
  \<^item> \<open>Memory\<close> (\<open>kernel/memory.c\<close>): the pools of page frames and of virtual pages and the page
    tables, which live in the physical memory and are reached through their own last entry;
    \<open>Paging\<close> has the invariant \<open>mem_inv\<close> (no frame in use is free, no two tables share a frame)
    and what allocating and freeing pages does to the translation of addresses.
  \<^item> \<open>PageAlloc\<close>: the locale \<open>page_source\<close> (pages handed out are fresh, pages given back are gone),
    interpreted on the allocator; \<open>Heap\<close>: \<open>sys_malloc\<close> and \<open>sys_free\<close> on top of it, with the
    invariant \<open>heap_inv\<close> and the set \<open>in_use\<close> of the blocks that are out.
  \<^item> \<open>Keyboard\<close> (\<open>device/keyboard.c\<close>): scan codes to characters in the ring buffer.
  \<^item> \<open>Threads\<close> (\<open>thread/thread.c\<close>): the state \<open>sys\<close> of the whole kernel, the pid pool, creation and
    end of threads; \<open>WaitExit\<close> (\<open>userprog/wait_exit.c\<close>): \<open>sys_exit\<close> and \<open>sys_wait\<close>.
  \<^item> \<open>Process\<close> (\<open>userprog/process.c\<close>): page directories and first interrupt frames of processes;
    \<open>Fork\<close> (\<open>userprog/fork.c\<close>), and \<open>ForkSpace\<close>: the copy of an address space, with the invariant
    \<open>twin\<close> of the two spaces it works on; \<open>Exec\<close> (\<open>userprog/exec.c\<close>): loading an ELF file over the
    running process.
  \<^item> \<open>Switch\<close> (\<open>thread/switch.S\<close>): the switch of the stacks of two threads, which the scheduler's model
    shows as the change of the running thread; a thread that gave up the processor resumes with its
    registers, and a new one starts in \<open>kernel_thread\<close>.
  \<^item> \<open>Syscall\<close> (\<open>lib/use/syscall.c\<close>, \<open>userprog/syscall-init.c\<close>, \<open>kernel/kernel.s\<close>): the library
    functions, the table and the handler of \<open>int 0x80\<close>, with the kernel's functions as a parameter,
    because their models work on different parts of the state; the lemmas say that each library
    function reaches its function with its arguments and that the registers survive.
  \<^item> \<open>Descriptors\<close> (\<open>userprog/tss.c\<close>, \<open>kernel/interrupt.c\<close>): segment descriptors and interrupt gates
    with the fields the processor reads, the bytes for the interrupt controllers, the interrupt flag;
    \<open>Screen\<close> (\<open>kernel/print.S\<close>, \<open>device/console.c\<close>, \<open>kernel/debug.c\<close>): the text screen, its cursor and
    its lock, and what exceptions and failing assertions print.
  \<^item> \<open>CString\<close> (\<open>kernel/string.c\<close>) and \<open>Stdio\<close> (\<open>lib/stdio.c\<close>): string functions on a byte
    memory, and formatted output into a buffer.
  \<^item> \<open>CmdLine\<close> (\<open>shell/shell.c\<close>): the line editor and the parser of the shell; \<open>ShellCmd\<close>
    (\<open>shell/buildin_cmd.c\<close>, \<open>shell/shell.c\<close>): its commands, with a reference for path washing; \<open>Echo\<close>:
    the prompt and what the screen shows while a line is edited;
    \<open>Ps\<close> (\<open>thread/thread.c\<close>): the listing of threads.
  \<^item> \<open>Timer\<close> (\<open>device/timer.c\<close>): the timer set-up and \<open>sleep\<close>; \<open>Disk\<close> (\<open>device/ide.c\<close>): the
    commands, the waiting and the interrupt of an ATA channel, over a drive given by its answers to
    port accesses. A drive that follows the documented protocol for one sector (\<open>drive_ok\<close>) is the
    hypothesis of the lemmas, and they show that a transfer of one sector refines the one of
    \<open>FsState\<close>. The code asks for several sectors with one command and waits once for all of them; no
    result is claimed for such a command, and the transfers of several sectors that \<open>FsState\<close>
    offers to the file system (two sectors of the inode table, the bitmaps) are an abstraction.
    \<open>DiskInit\<close>: the identification of the drives and the scan of their partition tables.
  \<^item> \<open>FsState\<close>: inodes, directory entries, super block and their layout in sectors; the state
    \<open>fs\<close> with the sectors of the partition's disk, the open inodes, the directories and the file
    tables.
  \<^item> \<open>Inode\<close> (\<open>fs/inode.c\<close>), \<open>FileTable\<close> (\<open>fs/file.c\<close>; also the state after blocks were taken,
    \<open>grown\<close>), \<open>Dir\<close> (\<open>fs/dir.c\<close>; a directory as the list of entries in its direct blocks,
    \<open>dir_list\<close>, and in its indirect table, \<open>table_list\<close>, which the search never reads), \<open>FileIO\<close>
    (creating, opening, reading and writing files in \<open>fs/fs.c\<close>), \<open>FileWrite\<close> (the effect of
    \<open>file_write\<close> with the blocks it allocates, on sound files), \<open>Path\<close> and \<open>FileSys\<close> (\<open>fs/fs.c\<close>),
    \<open>Pipe\<close> (\<open>shell/pipe.c\<close>), \<open>FsInit\<close> (formatting and mounting in \<open>fs/fs.c\<close>). Memory for buffers
    comes from \<open>fs_malloc\<close>, which hands out new addresses while \<open>heap_ok\<close> allows it.

  \<^bold>\<open>What the lemmas show.\<close> Each component has the invariant of its state (\<open>bm_wf\<close>, \<open>dlist\<close>,
  \<open>sched_inv\<close>, \<open>lock_inv\<close>, \<open>ioq_wf\<close>, \<open>disk_ok\<close>, \<open>dir_ok\<close>, \<open>file_ok\<close>, \<open>mem_inv\<close>,
  \<open>heap_inv\<close>), the preservation of it, and
  the result of the operations on each branch. Where the code differs from what it means to do,
  the model keeps the code's behaviour and a lemma states it.

  \<^bold>\<open>Termination.\<close> Loops over counters are recursive functions with a measure; loops that follow
  pointers or search for a terminator in memory are partial functions, and that their result exists
  is part of the theorems. One loop carries an explicit bound: \<open>FileIO.read_loop\<close> has an
  argument \<open>fuel\<close> that \<open>file_read\<close> sets to the number of bytes to transfer, which is enough because
  every round transfers at least one byte; \<open>file_read_slice\<close> shows that it does not run out.

  \<^bold>\<open>Not modelled.\<close> The boot sector and the loader (\<open>mbr.S\<close>, \<open>loader.S\<close>) run before there is a kernel.
  \<open>main\<close> only installs test data and \<open>init_all\<close> calls the initialisations in order; both would need
  one state for the whole machine, while the theories each have the state of their part. The entries
  of hardware interrupts in \<open>kernel.s\<close> push the frame that \<open>Syscall\<close> has for \<open>int 0x80\<close>. The example programs (\<open>command/\<close>)
  are demonstrations.
\<close>

end
